(* ===== verification/Melon_Prelude.thy ===== *)
theory Melon_Prelude
  imports Main "HOL-Library.Word" "HOL-Library.Monad_Syntax"
begin

text \<open>
  Shared vocabulary of the development: the fixed-width integer types of the C code,
  little-endian byte buffers, C truth values, NUL-terminated strings, and the generic
  lemmas on words, lists and loops that the component theories use. The collection
  \<open>word_nat\<close> gathers the facts that move a comparison or a subtraction of words to
  natural numbers.
\<close>

unbundle bit_operations_syntax

section \<open>Types\<close>

type_synonym u8 = "8 word"
type_synonym u16 = "16 word"
type_synonym u32 = "32 word"
type_synonym u64 = "64 word"

text \<open>Byte-addressed memory, as the processor sees the DDR and SRAM banks.\<close>

type_synonym memory = "u32 \<Rightarrow> u8"

section \<open>Words and natural numbers\<close>

named_theorems word_nat \<open>facts that reduce word comparisons and differences to nat\<close>

declare word_le_nat_alt [word_nat] word_less_nat_alt [word_nat]

lemma unat_minus_le [word_nat]:
  fixes a b :: "'a::len word"
  shows "b \<le> a \<Longrightarrow> unat (a - b) = unat a - unat b"
  by (rule unat_sub)

lemma unat_plus_no_wrap:
  fixes a b :: "'a::len word"
  shows "unat a + unat b < 2 ^ LENGTH('a) \<Longrightarrow> unat (a + b) = unat a + unat b"
  by (simp add: unat_word_ariths)

lemma unat_mult_no_wrap:
  fixes a b :: "'a::len word"
  shows "unat a * unat b < 2 ^ LENGTH('a) \<Longrightarrow> unat (a * b) = unat a * unat b"
  by (simp add: unat_word_ariths)

lemma unat_u32_less: "unat (w :: u32) < 4294967296"
  using unsigned_less [of w] by simp

lemma unat_u8_less: "unat (w :: u8) < 256"
  using unsigned_less [of w] by simp

lemma unat_u16_less: "unat (w :: u16) < 65536"
  using unsigned_less [of w] by simp

lemma unat_of_nat_u32: "n < 4294967296 \<Longrightarrow> unat (of_nat n :: u32) = n"
  by (simp add: take_bit_nat_eq_self unsigned_of_nat)

lemma unat_of_nat_le: "unat (of_nat n :: 'a::len word) \<le> n"
  by (simp add: unsigned_of_nat take_bit_eq_mod)

lemma unat_ucast_u8_u32 [simp]: "unat (ucast (b :: u8) :: u32) = unat b"
  using unat_u8_less [of b] by (simp add: unsigned_ucast_eq take_bit_nat_eq_self)

lemma unat_ucast_u16_u32 [simp]: "unat (ucast (b :: u16) :: u32) = unat b"
  using unat_u16_less [of b] by (simp add: unsigned_ucast_eq take_bit_nat_eq_self)

lemma ucast_u8_u32_u8 [simp]: "ucast (ucast (c :: u8) :: u32) = c"
  by (rule bit_word_eqI) (simp add: bit_ucast_iff)

lemma word_eq_unatI: "unat (a :: 'a::len word) = unat b \<Longrightarrow> a = b"
  by (simp add: word_unat_eq_iff)

section \<open>Little-endian byte buffers\<close>

text \<open>
  \<open>rd16\<close> and \<open>rd32\<close> of \<open>fatboot.c\<close> and \<open>rd32\<close> of \<open>boot_image.c\<close>: the pointer
  argument \<open>&buf[off]\<close> is the buffer and the offset. Every call of the boot code reads
  inside a buffer of fixed length.
\<close>

definition rd16 :: "u8 list \<Rightarrow> nat \<Rightarrow> u16" where
  "rd16 p off = ucast (p ! off) OR push_bit 8 (ucast (p ! (off + 1)))"

definition rd32 :: "u8 list \<Rightarrow> nat \<Rightarrow> u32" where
  "rd32 p off = ucast (p ! off) OR push_bit 8 (ucast (p ! (off + 1)))
     OR push_bit 16 (ucast (p ! (off + 2))) OR push_bit 24 (ucast (p ! (off + 3)))"

text \<open>The inverse: the bytes of a 32-bit value, least significant first.\<close>

definition le32 :: "u32 \<Rightarrow> u8 list" where
  "le32 w = [ucast w, ucast (drop_bit 8 w), ucast (drop_bit 16 w), ucast (drop_bit 24 w)]"

lemma length_le32 [simp]: "length (le32 w) = 4"
  by (simp add: le32_def)

lemma le32_assemble:
  "ucast (ucast w :: u8) OR push_bit 8 (ucast (ucast (drop_bit 8 w) :: u8))
     OR push_bit 16 (ucast (ucast (drop_bit 16 w) :: u8))
     OR push_bit 24 (ucast (ucast (drop_bit 24 w) :: u8)) = (w :: u32)"
proof (rule bit_word_eqI)
  fix n assume "n < LENGTH(32)"
  then consider "n < 8" | "8 \<le> n" "n < 16" | "16 \<le> n" "n < 24" | "24 \<le> n" "n < 32"
    by fastforce
  then show "bit (ucast (ucast w :: u8) OR push_bit 8 (ucast (ucast (drop_bit 8 w) :: u8))
      OR push_bit 16 (ucast (ucast (drop_bit 16 w) :: u8))
      OR push_bit 24 (ucast (ucast (drop_bit 24 w) :: u8)) :: u32) n \<longleftrightarrow> bit w n"
    by cases (auto simp: bit_or_iff bit_push_bit_iff bit_ucast_iff bit_drop_bit_eq)
qed

lemma rd32_le32:
  assumes "length pre = off"
  shows "rd32 (pre @ le32 w @ post) off = w"
proof -
  have "(pre @ le32 w @ post) ! (off + i) = (le32 w @ post) ! i" for i
    using assms by (simp add: nth_append)
  from this [of 0] this [of 1] this [of 2] this [of 3]
  show ?thesis
    by (simp add: rd32_def le32_def le32_assemble numeral_2_eq_2 numeral_3_eq_3)
qed

lemma rd32_append:
  "length pre + 3 < length pre + length q \<Longrightarrow> rd32 (pre @ q) (length pre + k) = rd32 q k"
  by (simp add: rd32_def nth_append add.assoc)

section \<open>C strings\<close>

text \<open>
  A NUL-terminated string is the list of the bytes before the terminator: reading at the
  end of the list reads the terminating 0, reading past it is outside the object.
\<close>

type_synonym cstring = "u8 list"

definition cstr :: "string \<Rightarrow> cstring" where
  "cstr s = map of_char s"

fun peek :: "cstring \<Rightarrow> u8" where
  "peek [] = 0"
| "peek (c # _) = c"

text \<open>No byte of a C string is the terminator.\<close>

definition is_cstr :: "cstring \<Rightarrow> bool" where
  "is_cstr s \<longleftrightarrow> 0 \<notin> set s"

lemma is_cstr_Nil [simp]: "is_cstr []"
  and is_cstr_Cons [simp]: "is_cstr (c # s) \<longleftrightarrow> c \<noteq> 0 \<and> is_cstr s"
  by (auto simp: is_cstr_def)

lemma is_cstr_append [simp]: "is_cstr (s @ t) \<longleftrightarrow> is_cstr s \<and> is_cstr t"
  by (auto simp: is_cstr_def)

lemma peek_eq_0: "is_cstr s \<Longrightarrow> peek s = 0 \<longleftrightarrow> s = []"
  by (cases s) auto

section \<open>Memory\<close>

text \<open>Storing a run of bytes at consecutive (wrapping) addresses, in order.\<close>

fun store_bytes :: "u32 \<Rightarrow> u8 list \<Rightarrow> memory \<Rightarrow> memory" where
  "store_bytes a [] m = m"
| "store_bytes a (b # bs) m = store_bytes (a + 1) bs (m(a := b))"

definition load_bytes :: "memory \<Rightarrow> u32 \<Rightarrow> nat \<Rightarrow> u8 list" where
  "load_bytes m a n = map (\<lambda>i. m (a + of_nat i)) [0..<n]"

lemma length_load_bytes [simp]: "length (load_bytes m a n) = n"
  by (simp add: load_bytes_def)

lemma store_bytes_append:
  "store_bytes a (xs @ ys) m = store_bytes (a + of_nat (length xs)) ys (store_bytes a xs m)"
  by (induction xs arbitrary: a m) (simp_all add: algebra_simps)

text \<open>The run covers exactly the addresses at offsets below its length.\<close>

lemma store_bytes_apply:
  "length bs \<le> 4294967296 \<Longrightarrow>
   store_bytes a bs m x =
     (if unat (x - a) < length bs then bs ! unat (x - a) else m x)"
proof (induction bs arbitrary: a m)
  case Nil
  then show ?case by simp
next
  case (Cons b bs)
  show ?case
  proof (cases "x = a")
    case True
    have "x - (a + 1) = - 1"
      using True by simp
    then have "unat (x - (a + 1)) = 4294967295"
      by (simp add: unsigned_minus_1_eq_mask mask_eq_exp_minus_1)
    with Cons True show ?thesis by simp
  next
    case False
    then have pos: "unat (x - a) \<noteq> 0"
      by (simp add: unat_eq_0)
    have "x - (a + 1) = (x - a) - 1" by simp
    moreover have "1 \<le> x - a"
      using pos by (simp add: word_le_nat_alt)
    then have "unat ((x - a) - 1) = unat (x - a) - 1"
      by (simp only: unat_sub unsigned_1)
    ultimately have step: "unat (x - (a + 1)) = unat (x - a) - 1"
      by (simp only:)
    from Cons False show ?thesis
      using pos by (cases "unat (x - a)") (auto simp: step)
  qed
qed

lemma store_bytes_outside:
  "length bs \<le> 4294967296 \<Longrightarrow> length bs \<le> unat (x - a) \<Longrightarrow> store_bytes a bs m x = m x"
  by (simp add: store_bytes_apply)

lemma load_store_bytes:
  assumes "length bs \<le> 4294967296"
  shows "load_bytes (store_bytes a bs m) a (length bs) = bs"
proof (rule nth_equalityI)
  fix i assume i: "i < length (load_bytes (store_bytes a bs m) a (length bs))"
  then have "i < length bs" by simp
  moreover from this assms have "unat (of_nat i :: u32) = i"
    by (intro unat_of_nat_u32) simp
  ultimately show "load_bytes (store_bytes a bs m) a (length bs) ! i = bs ! i"
    using assms by (simp add: load_bytes_def store_bytes_apply)
qed simp

section \<open>Iteration\<close>

text \<open>A loop that runs a fallible step a fixed number of times.\<close>

lemma foldl_invariant:
  "P s \<Longrightarrow> (\<And>s x. P s \<Longrightarrow> x \<in> set xs \<Longrightarrow> P (f s x)) \<Longrightarrow> P (foldl f s xs)"
  by (induction xs arbitrary: s) auto

end
