(* ===== verification/Boot_Image.thy ===== *)
theory Boot_Image
  imports Melon_Prelude
begin

text \<open>
  \<open>program/boot/boot_image.c\<close> and \<open>boot_image.h\<close>: the 12-byte image header
  (magic, text size, data size), its parser and the file size check that both boot
  paths (SD card and UART) share. The lemmas characterise every branch over the natural
  numbers and show that an accepted image fits between the load address and the
  framebuffer without any 32-bit wrap-around.
\<close>

section \<open>Constants and result codes\<close>

abbreviation BOOT_IMAGE_MAGIC :: u32 where
  "BOOT_IMAGE_MAGIC \<equiv> 0x5244444D"

abbreviation BOOT_IMAGE_HEADER_SIZE :: u32 where
  "BOOT_IMAGE_HEADER_SIZE \<equiv> 12"

abbreviation BOOT_IMAGE_LOAD_ADDR :: u32 where
  "BOOT_IMAGE_LOAD_ADDR \<equiv> 0x80000000"

abbreviation BOOT_IMAGE_LOAD_LIMIT :: u32 where
  "BOOT_IMAGE_LOAD_LIMIT \<equiv> 0x87000000"

datatype boot_image_error =
    BOOT_IMAGE_OK
  | BOOT_IMAGE_ERR_MAGIC
  | BOOT_IMAGE_ERR_RANGE
  | BOOT_IMAGE_ERR_FILE_SIZE

section \<open>Operations\<close>

text \<open>
  The header pointer is \<open>None\<close> for NULL; \<open>outs\<close> says that none of the three result
  pointers is NULL. \<open>Inr\<close> holds what the function stores through them when it returns
  \<open>BOOT_IMAGE_OK\<close>; on an error it stores nothing.
\<close>

definition boot_image_parse_header ::
    "u8 list option \<Rightarrow> bool \<Rightarrow> u32 \<Rightarrow> boot_image_error + u32 \<times> u32 \<times> u32" where
  "boot_image_parse_header header outs dst =
     (case header of
        None \<Rightarrow> Inl BOOT_IMAGE_ERR_MAGIC
      | Some h \<Rightarrow>
          if \<not> outs then Inl BOOT_IMAGE_ERR_MAGIC
          else if rd32 h 0 \<noteq> BOOT_IMAGE_MAGIC then Inl BOOT_IMAGE_ERR_MAGIC
          else if dst < BOOT_IMAGE_LOAD_ADDR \<or> BOOT_IMAGE_LOAD_LIMIT \<le> dst
            then Inl BOOT_IMAGE_ERR_RANGE
          else
            let tsz = rd32 h 4; dsz = rd32 h 8; available = BOOT_IMAGE_LOAD_LIMIT - dst
            in if available < tsz \<or> available - tsz < dsz
                 then Inl BOOT_IMAGE_ERR_RANGE
               else Inr (tsz, dsz, tsz + dsz))"

definition boot_image_validate_file_size :: "u32 \<Rightarrow> u32 \<Rightarrow> u32 \<Rightarrow> boot_image_error" where
  "boot_image_validate_file_size file_size text_size data_size =
     (if file_size < BOOT_IMAGE_HEADER_SIZE then BOOT_IMAGE_ERR_FILE_SIZE
      else let payload_size = file_size - BOOT_IMAGE_HEADER_SIZE
        in if payload_size < text_size then BOOT_IMAGE_ERR_FILE_SIZE
           else if data_size = payload_size - text_size then BOOT_IMAGE_OK
           else BOOT_IMAGE_ERR_FILE_SIZE)"

section \<open>Header contents\<close>

text \<open>
  What the image builder writes: the three header words, little endian. It is the
  specification side of the round trip below, not code of the boot ROM.
\<close>

definition boot_image_header :: "u32 \<Rightarrow> u32 \<Rightarrow> u8 list" where
  "boot_image_header tsz dsz = le32 BOOT_IMAGE_MAGIC @ le32 tsz @ le32 dsz"

lemma length_boot_image_header [simp]: "length (boot_image_header tsz dsz) = 12"
  by (simp add: boot_image_header_def)

lemma rd32_boot_image_header:
  "rd32 (boot_image_header tsz dsz) 0 = BOOT_IMAGE_MAGIC"
  "rd32 (boot_image_header tsz dsz) 4 = tsz"
  "rd32 (boot_image_header tsz dsz) 8 = dsz"
proof -
  show "rd32 (boot_image_header tsz dsz) 0 = BOOT_IMAGE_MAGIC"
    using rd32_le32 [of "[]" 0 BOOT_IMAGE_MAGIC "le32 tsz @ le32 dsz"]
    by (simp add: boot_image_header_def)
  show "rd32 (boot_image_header tsz dsz) 4 = tsz"
    using rd32_le32 [of "le32 BOOT_IMAGE_MAGIC" 4 tsz "le32 dsz"]
    by (simp add: boot_image_header_def)
  show "rd32 (boot_image_header tsz dsz) 8 = dsz"
    using rd32_le32 [of "le32 BOOT_IMAGE_MAGIC @ le32 tsz" 8 dsz "[]"]
    by (simp add: boot_image_header_def)
qed

section \<open>Lemmas\<close>

lemma parse_header_OkD:
  assumes "boot_image_parse_header (Some h) True dst = Inr (tsz, dsz, payload)"
  shows "tsz = rd32 h 4" "dsz = rd32 h 8" "rd32 h 0 = BOOT_IMAGE_MAGIC"
    and "BOOT_IMAGE_LOAD_ADDR \<le> dst" "dst < BOOT_IMAGE_LOAD_LIMIT"
    and "unat payload = unat tsz + unat dsz"
    and "unat dst + unat payload \<le> unat BOOT_IMAGE_LOAD_LIMIT"
proof -
  from assms have *: "tsz = rd32 h 4" "dsz = rd32 h 8" "rd32 h 0 = BOOT_IMAGE_MAGIC"
      "BOOT_IMAGE_LOAD_ADDR \<le> dst" "dst < BOOT_IMAGE_LOAD_LIMIT" "payload = tsz + dsz"
      "tsz \<le> BOOT_IMAGE_LOAD_LIMIT - dst" "dsz \<le> BOOT_IMAGE_LOAD_LIMIT - dst - tsz"
    by (auto simp: boot_image_parse_header_def Let_def not_less not_le split: if_splits)
  then show "tsz = rd32 h 4" "dsz = rd32 h 8" "rd32 h 0 = BOOT_IMAGE_MAGIC"
      "BOOT_IMAGE_LOAD_ADDR \<le> dst" "dst < BOOT_IMAGE_LOAD_LIMIT"
    by simp_all
  have d: "unat dst < 2264924160" using *(5) by (simp add: word_less_nat_alt)
  have a: "unat (BOOT_IMAGE_LOAD_LIMIT - dst) = 2264924160 - unat dst"
    using *(5) by (subst unat_sub) (simp_all add: less_imp_le)
  have t: "unat tsz \<le> 2264924160 - unat dst"
    using *(7) a by (simp add: word_le_nat_alt)
  have "unat (BOOT_IMAGE_LOAD_LIMIT - dst - tsz) = 2264924160 - unat dst - unat tsz"
    using *(7) a by (subst unat_sub) simp_all
  with *(8) have u: "unat dsz \<le> 2264924160 - unat dst - unat tsz"
    by (simp add: word_le_nat_alt)
  show p: "unat payload = unat tsz + unat dsz"
    unfolding *(6) using d t u by (subst unat_plus_no_wrap) simp_all
  show "unat dst + unat payload \<le> unat BOOT_IMAGE_LOAD_LIMIT"
    using d t u p by simp
qed

lemma validate_file_size_OkD:
  assumes "boot_image_validate_file_size fs tsz dsz = BOOT_IMAGE_OK"
  shows "unat fs = 12 + unat tsz + unat dsz"
proof -
  from assms have fs: "12 \<le> fs" and t: "tsz \<le> fs - 12" and d: "dsz = fs - 12 - tsz"
    by (auto simp: boot_image_validate_file_size_def Let_def not_less split: if_splits)
  have f: "unat (fs - 12) = unat fs - 12" using fs by (subst unat_sub) simp_all
  with d t have "unat dsz = unat fs - 12 - unat tsz" by (simp add: unat_sub)
  moreover from t f have "unat tsz \<le> unat fs - 12" by (simp add: word_le_nat_alt)
  moreover have "12 \<le> unat fs" using fs by (simp add: word_le_nat_alt)
  ultimately show ?thesis by simp
qed

lemma validate_file_size_OkI:
  assumes "unat fs = 12 + unat tsz + unat dsz"
  shows "boot_image_validate_file_size fs tsz dsz = BOOT_IMAGE_OK"
proof -
  have fs: "12 \<le> fs" using assms by (simp add: word_le_nat_alt)
  then have f: "unat (fs - 12) = unat tsz + unat dsz" using assms by (subst unat_sub) simp_all
  then have t: "tsz \<le> fs - 12" by (simp add: word_le_nat_alt)
  then have "dsz = fs - 12 - tsz" using f by (intro word_eq_unatI) (simp add: unat_sub)
  with fs t show ?thesis by (auto simp: boot_image_validate_file_size_def Let_def)
qed

end
