(* ===== verification/Mmio.thy ===== *)
theory Mmio
  imports Melon_Prelude
begin

text \<open>
  Memory-mapped device access. The devices are hardware, so their state is a type
  variable \<open>'d\<close> and the bus is a parameter: a read returns the register's value and the
  device state after it (a read may pop a FIFO, and time passes), a write returns the
  state after it. Every busy-wait loop of the drivers is an instance of \<open>poll_until\<close>,
  whose result is \<open>None\<close> exactly when the loop never ends.
\<close>

section \<open>The bus\<close>

record 'd bus =
  bus_rd :: "u32 \<Rightarrow> 'd \<Rightarrow> u32 \<times> 'd"
  bus_wr :: "u32 \<Rightarrow> u32 \<Rightarrow> 'd \<Rightarrow> 'd"

abbreviation IO_BASE_ADDR :: u32 where
  "IO_BASE_ADDR \<equiv> 0x400000"

text \<open>
  Reading a register twice and keeping the second sample (\<open>uart_read_reg\<close>,
  \<open>timer_read_reg\<close>, \<open>clint_read32\<close>).
\<close>

definition read_twice :: "'d bus \<Rightarrow> u32 \<Rightarrow> 'd \<Rightarrow> u32 \<times> 'd" where
  "read_twice b a d = bus_rd b a (snd (bus_rd b a d))"

section \<open>Busy waiting\<close>

partial_function (option) poll_until ::
    "('d \<Rightarrow> 'a option \<times> 'd) \<Rightarrow> 'd \<Rightarrow> ('a \<times> 'd) option" where
  "poll_until f d =
     (case f d of (Some a, d') \<Rightarrow> Some (a, d') | (None, d') \<Rightarrow> poll_until f d')"

lemma poll_until_Some: "f d = (Some a, d') \<Longrightarrow> poll_until f d = Some (a, d')"
  by (simp add: poll_until.simps)

lemma poll_until_None: "f d = (None, d') \<Longrightarrow> poll_until f d = poll_until f d'"
  by (subst poll_until.simps) simp

text \<open>Whatever an invariant of the failed attempts implies for the last one holds.\<close>

lemma poll_until_rule:
  assumes res: "poll_until f d = Some (a, d')"
    and init: "P d"
    and step: "\<And>d d'. P d \<Longrightarrow> f d = (None, d') \<Longrightarrow> P d'"
    and final: "\<And>d a d'. P d \<Longrightarrow> f d = (Some a, d') \<Longrightarrow> Q a d'"
  shows "Q a d'"
proof -
  have "P d \<longrightarrow> Q (fst (a, d')) (snd (a, d'))"
  proof (rule poll_until.raw_induct
      [where P = "\<lambda>f' d r. f' = f \<longrightarrow> P d \<longrightarrow> Q (fst r) (snd r)", OF _ res, THEN mp])
    fix g f' d r
    assume IH: "\<And>f'' d r. g f'' d = Some r \<Longrightarrow> f'' = f \<longrightarrow> P d \<longrightarrow> Q (fst r) (snd r)"
      and eq: "(case f' d of (Some a, d') \<Rightarrow> Some (a, d') | (None, d') \<Rightarrow> g f' d') = Some r"
    show "f' = f \<longrightarrow> P d \<longrightarrow> Q (fst r) (snd r)"
    proof (intro impI)
      assume f': "f' = f" and Pd: "P d"
      obtain o1 d1 where fd: "f d = (o1, d1)" by (cases "f d")
      show "Q (fst r) (snd r)"
      proof (cases o1)
        case None
        with eq fd f' have "g f d1 = Some r" by simp
        with IH step [OF Pd] fd None show ?thesis by blast
      next
        case (Some x)
        with eq fd f' have "r = (x, d1)" by simp
        with final [OF Pd] fd Some show ?thesis by simp
      qed
    qed
  qed simp
  with init show ?thesis by simp
qed

text \<open>Polling through an image of the state.\<close>

lemma poll_until_image:
  assumes "poll_until f d = Some (v, d')" and "\<And>x. f' (g x) = map_prod id g (f x)"
  shows "poll_until f' (g d) = Some (v, g d')"
proof (rule poll_until_rule [OF assms(1), where P = "\<lambda>x. poll_until f' (g d) = poll_until f' (g x)"])
  show "poll_until f' (g d) = poll_until f' (g y)"
    if "poll_until f' (g d) = poll_until f' (g x)" "f x = (None, y)" for x y
    using that poll_until_None [of f' "g x" "g y"] assms(2) [of x] by simp
  show "poll_until f' (g d) = Some (a, g y)"
    if "poll_until f' (g d) = poll_until f' (g x)" "f x = (Some a, y)" for x a y
    using that poll_until_Some [of f' "g x" a "g y"] assms(2) [of x] by simp
qed simp

text \<open>A loop none of whose attempts can succeed never returns.\<close>

lemma poll_until_diverges:
  assumes "P d" and "\<And>d. P d \<Longrightarrow> \<exists>d'. f d = (None, d') \<and> P d'"
  shows "poll_until f d = None"
proof (rule ccontr)
  assume "poll_until f d \<noteq> None"
  then obtain a d' where "poll_until f d = Some (a, d')" by auto
  then have False
    by (rule poll_until_rule [where P = P]) (use assms in \<open>fastforce+\<close>)
  then show False .
qed

text \<open>A loop whose failed attempts decrease a measure returns.\<close>

lemma poll_until_returns:
  fixes m :: "'d \<Rightarrow> nat"
  assumes "P d" and "\<And>d d'. P d \<Longrightarrow> f d = (None, d') \<Longrightarrow> P d' \<and> m d' < m d"
  shows "\<exists>a d'. poll_until f d = Some (a, d')"
  using assms(1)
proof (induction d rule: measure_induct_rule [of m])
  case (less d)
  obtain o1 d1 where fd: "f d = (o1, d1)" by (cases "f d")
  show ?case
  proof (cases o1)
    case None
    with fd have n: "f d = (None, d1)" by simp
    with assms(2) [OF less.prems n] less.IH show ?thesis
      by (simp add: poll_until_None [of f d d1, OF n])
  next
    case (Some a)
    with fd show ?thesis by (auto simp: poll_until_Some)
  qed
qed

section \<open>Registered read path\<close>

text \<open>
  What the drivers' comments say of the read path: a read whose address differs from the
  previous one may return anything; a repeated read returns the addressed register. The
  register file \<open>reg\<close> gives a register's value in a device state, \<open>prev\<close> is the last
  address read, and \<open>clk\<close> only advances.
\<close>

locale registered_bus =
  fixes b :: "'d bus" and prev :: "'d \<Rightarrow> u32 option" and reg :: "u32 \<Rightarrow> 'd \<Rightarrow> u32"
    and clk :: "'d \<Rightarrow> nat"
  assumes prev_rd: "bus_rd b a d = (v, d') \<Longrightarrow> prev d' = Some a"
    and reg_rd: "bus_rd b a d = (v, d') \<Longrightarrow> prev d = Some a \<Longrightarrow> v = reg a d'"
    and clk_rd: "bus_rd b a d = (v, d') \<Longrightarrow> clk d \<le> clk d'"
begin

lemma read_twice_reg:
  assumes "read_twice b a d = (v, d')"
  shows "v = reg a d'"
proof -
  obtain v1 d1 where r1: "bus_rd b a d = (v1, d1)" by (cases "bus_rd b a d")
  with assms have "bus_rd b a d1 = (v, d')" by (simp add: read_twice_def)
  then show ?thesis using prev_rd [OF r1] by (rule reg_rd)
qed

lemma read_twice_clk:
  assumes "read_twice b a d = (v, d')"
  shows "clk d \<le> clk d'"
proof -
  obtain v1 d1 where r1: "bus_rd b a d = (v1, d1)" by (cases "bus_rd b a d")
  with assms have "bus_rd b a d1 = (v, d')" by (simp add: read_twice_def)
  from clk_rd [OF r1] clk_rd [OF this] show ?thesis by simp
qed

end

end
