(* ===== verification/Sdcard.thy ===== *)
theory Sdcard
  imports Mmio
begin

text \<open>
  \<open>program/drivers/sdcard.c\<close>: the SD host driver. Its statics are the record \<open>sd_state\<close>.
  A command polls the controller at most 2,000,000 times, so every operation terminates.
  The settling delay \<open>sd_delay\<close> touches no device and no state and is left out. The last
  section states what the boot loader needs of any block reader as a locale and interprets
  it on \<open>sdcard_read_block\<close>.
\<close>

section \<open>Registers and state\<close>

definition IO_SD_CMD_ADDR :: u32 where "IO_SD_CMD_ADDR = IO_BASE_ADDR + 0x60"
definition IO_SD_ARG_ADDR :: u32 where "IO_SD_ARG_ADDR = IO_BASE_ADDR + 0x64"
definition IO_SD_CTRL_ADDR :: u32 where "IO_SD_CTRL_ADDR = IO_BASE_ADDR + 0x68"
definition IO_SD_RESP0_ADDR :: u32 where "IO_SD_RESP0_ADDR = IO_BASE_ADDR + 0x6C"
definition IO_SD_DEBUG_ADDR :: u32 where "IO_SD_DEBUG_ADDR = IO_BASE_ADDR + 0x70"
definition IO_SD_CRC_ADDR :: u32 where "IO_SD_CRC_ADDR = IO_BASE_ADDR + 0x74"
definition IO_SD_DATA_ADDR :: u32 where "IO_SD_DATA_ADDR = IO_BASE_ADDR + 0x80"

abbreviation SD_CTRL_START :: u32 where "SD_CTRL_START \<equiv> 1"
abbreviation SD_CTRL_CLEAR :: u32 where "SD_CTRL_CLEAR \<equiv> 2"
abbreviation SD_CTRL_READ :: u32 where "SD_CTRL_READ \<equiv> 8"
abbreviation SD_ST_DONE :: u32 where "SD_ST_DONE \<equiv> 2"
abbreviation SD_ST_ERR :: u32 where "SD_ST_ERR \<equiv> 4"

record sd_state =
  g_sd_err :: u8
  g_rca :: u16
  g_last_status :: u32
  g_last_debug :: u32
  g_last_crc :: u32
  g_last_resp :: u32
  g_ocr :: u32
  g_high_capacity :: bool

definition sd_state0 :: sd_state where
  "sd_state0 = \<lparr>g_sd_err = 0, g_rca = 0, g_last_status = 0, g_last_debug = 0,
     g_last_crc = 0, g_last_resp = 0, g_ocr = 0, g_high_capacity = False\<rparr>"

text \<open>The accessors are the record's selectors (\<open>sdcard_last_error\<close> and its kin).\<close>

definition sdcard_is_high_capacity :: "sd_state \<Rightarrow> bool" where
  "sdcard_is_high_capacity g \<longleftrightarrow> g_high_capacity g"

section \<open>Commands\<close>

text \<open>Sampling the four result registers, in the order the code reads them.\<close>

definition sd_sample :: "'d bus \<Rightarrow> u32 \<Rightarrow> sd_state \<Rightarrow> 'd \<Rightarrow> sd_state \<times> 'd" where
  "sd_sample b st g d =
     (let (dbg, d1) = bus_rd b IO_SD_DEBUG_ADDR d;
          (crc, d2) = bus_rd b IO_SD_CRC_ADDR d1;
          (rsp, d3) = bus_rd b IO_SD_RESP0_ADDR d2
      in (g\<lparr>g_last_status := st, g_last_debug := dbg, g_last_crc := crc, g_last_resp := rsp\<rparr>, d3))"

text \<open>The polling loop: \<open>True\<close> is the return value 0, \<open>False\<close> is -1.\<close>

fun sd_poll :: "nat \<Rightarrow> 'd bus \<Rightarrow> sd_state \<Rightarrow> 'd \<Rightarrow> bool \<times> sd_state \<times> 'd" where
  "sd_poll timeout b g d =
     (if timeout = 0 then
        let (st, d1) = bus_rd b IO_SD_CTRL_ADDR d; (g', d2) = sd_sample b st g d1
        in (False, g', d2)
      else
        let (st, d1) = bus_rd b IO_SD_CTRL_ADDR d
        in if st AND SD_ST_DONE \<noteq> 0 then
             let (g', d2) = sd_sample b st g d1 in (st AND SD_ST_ERR = 0, g', d2)
           else sd_poll (timeout - 1) b g d1)"

declare sd_poll.simps [simp del]

definition sd_cmd ::
    "'d bus \<Rightarrow> u32 \<Rightarrow> u32 \<Rightarrow> bool \<Rightarrow> sd_state \<Rightarrow> 'd \<Rightarrow> bool \<times> sd_state \<times> 'd" where
  "sd_cmd b cmd arg read_block g d =
     (let d1 = bus_wr b IO_SD_CTRL_ADDR SD_CTRL_CLEAR d;
          d2 = bus_wr b IO_SD_ARG_ADDR arg d1;
          d3 = bus_wr b IO_SD_CMD_ADDR cmd d2;
          d4 = bus_wr b IO_SD_CTRL_ADDR
                 (SD_CTRL_START OR (if read_block then SD_CTRL_READ else 0)) d3
      in sd_poll 2000000 b g d4)"

section \<open>Initialisation\<close>

datatype acmd41_result = Ready | Failed u8 | Exhausted

fun sd_acmd41_loop ::
    "nat \<Rightarrow> 'd bus \<Rightarrow> sd_state \<Rightarrow> 'd \<Rightarrow> acmd41_result \<times> sd_state \<times> 'd" where
  "sd_acmd41_loop 0 b g d = (Exhausted, g, d)"
| "sd_acmd41_loop (Suc n) b g d =
     (case sd_cmd b 55 0 False g d of
        (False, g1, d1) \<Rightarrow> (Failed 55, g1, d1)
      | (True, g1, d1) \<Rightarrow>
          (case sd_cmd b 41 0x40300000 False g1 d1 of
             (False, g2, d2) \<Rightarrow> (Failed 41, g2, d2)
           | (True, g2, d2) \<Rightarrow>
               if g_last_resp g2 AND 0x80000000 \<noteq> 0 then (Ready, g2, d2)
               else sd_acmd41_loop n b g2 d2))"

text \<open>A command whose failure ends the initialisation with its number as the error code.\<close>

definition sd_step ::
    "'d bus \<Rightarrow> u32 \<Rightarrow> u32 \<Rightarrow> u8 \<Rightarrow> (sd_state \<Rightarrow> 'd \<Rightarrow> bool \<times> sd_state \<times> 'd) \<Rightarrow>
     sd_state \<Rightarrow> 'd \<Rightarrow> bool \<times> sd_state \<times> 'd" where
  "sd_step b cmd arg err cont g d =
     (case sd_cmd b cmd arg False g d of
        (False, g1, d1) \<Rightarrow> (False, g1\<lparr>g_sd_err := err\<rparr>, d1)
      | (True, g1, d1) \<Rightarrow> cont g1 d1)"

text \<open>The tail of the initialisation, after the card has reported ready.\<close>

definition sd_identify :: "'d bus \<Rightarrow> sd_state \<Rightarrow> 'd \<Rightarrow> bool \<times> sd_state \<times> 'd" where
  "sd_identify b =
     sd_step b 2 0 2 (sd_step b 3 0 3 (\<lambda>g d.
       let g1 = g\<lparr>g_rca := ucast (drop_bit 16 (g_last_resp g))\<rparr>
       in if g_rca g1 = 0 then (False, g1\<lparr>g_sd_err := 3\<rparr>, d)
          else sd_step b 7 (push_bit 16 (ucast (g_rca g1))) 7
                 (sd_step b 16 512 16 (\<lambda>g d. (True, g, d))) g1 d))"

definition sdcard_init :: "'d bus \<Rightarrow> sd_state \<Rightarrow> 'd \<Rightarrow> bool \<times> sd_state \<times> 'd" where
  "sdcard_init b g d =
     (let g0 = g\<lparr>g_sd_err := 0, g_high_capacity := False, g_ocr := 0\<rparr>;
          (_, g1, d1) = sd_cmd b 0 0 False g0 d
      in sd_step b 8 0x1AA 8 (\<lambda>g2 d2.
           case sd_acmd41_loop 1000 b g2 d2 of
             (Failed e, g3, d3) \<Rightarrow> (False, g3\<lparr>g_sd_err := e\<rparr>, d3)
           | (_, g3, d3) \<Rightarrow>
               if g_last_resp g3 AND 0x80000000 = 0 then (False, g3\<lparr>g_sd_err := 41\<rparr>, d3)
               else sd_identify b
                      (g3\<lparr>g_ocr := g_last_resp g3,
                          g_high_capacity := g_last_resp g3 AND 0x40000000 \<noteq> 0\<rparr>) d3) g1 d1)"

section \<open>Block reads\<close>

text \<open>One data word, most significant byte first.\<close>

definition be32 :: "u32 \<Rightarrow> u8 list" where
  "be32 w = [ucast (drop_bit 24 w), ucast (drop_bit 16 w), ucast (drop_bit 8 w), ucast w]"

fun sd_read_words :: "nat \<Rightarrow> nat \<Rightarrow> 'd bus \<Rightarrow> 'd \<Rightarrow> u8 list \<times> 'd" where
  "sd_read_words i 0 b d = ([], d)"
| "sd_read_words i (Suc n) b d =
     (let (w, d1) = bus_rd b (IO_SD_DATA_ADDR + of_nat (4 * i)) d;
          (rest, d2) = sd_read_words (Suc i) n b d1
      in (be32 w @ rest, d2))"

fun sd_read_attempts ::
    "nat \<Rightarrow> 'd bus \<Rightarrow> u32 \<Rightarrow> sd_state \<Rightarrow> 'd \<Rightarrow> u8 list option \<times> sd_state \<times> 'd" where
  "sd_read_attempts 0 b arg g d = (None, g\<lparr>g_sd_err := 17\<rparr>, d)"
| "sd_read_attempts (Suc n) b arg g d =
     (case sd_cmd b 17 arg True g d of
        (True, g1, d1) \<Rightarrow>
          let (bs, d2) = sd_read_words 0 128 b d1 in (Some bs, g1\<lparr>g_sd_err := 0\<rparr>, d2)
      | (False, g1, d1) \<Rightarrow> sd_read_attempts n b arg g1 d1)"

definition sd_block_arg :: "bool \<Rightarrow> u32 \<Rightarrow> u32 option" where
  "sd_block_arg high_capacity lba =
     (if high_capacity then Some lba
      else if drop_bit 9 (0xFFFFFFFF :: u32) < lba then None
      else Some (push_bit 9 lba))"

text \<open>\<open>Some\<close> is the filled 512-byte buffer (return value 0), \<open>None\<close> is -1.\<close>

definition sdcard_read_block ::
    "'d bus \<Rightarrow> u32 \<Rightarrow> sd_state \<times> 'd \<Rightarrow> u8 list option \<times> sd_state \<times> 'd" where
  "sdcard_read_block b lba s =
     (let (g, d) = s
      in case sd_block_arg (g_high_capacity g) lba of
           None \<Rightarrow> (None, g\<lparr>g_sd_err := 17\<rparr>, d)
         | Some arg \<Rightarrow> sd_read_attempts 3 b arg g d)"

section \<open>Lemmas\<close>

lemma length_be32 [simp]: "length (be32 w) = 4"
  by (simp add: be32_def)

lemma length_sd_read_words: "sd_read_words i n b d = (bs, d') \<Longrightarrow> length bs = 4 * n"
  by (induction n arbitrary: i d bs d') (auto split: prod.splits simp: Let_def)

lemma sd_read_attempts_length:
  "sd_read_attempts n b arg g d = (Some bs, g', d') \<Longrightarrow> length bs = 512 \<and> g_sd_err g' = 0"
proof (induction n arbitrary: g d)
  case (Suc n)
  obtain r g1 d1 where c: "sd_cmd b 17 arg True g d = (r, g1, d1)"
    by (cases "sd_cmd b 17 arg True g d") auto
  show ?case
  proof (cases r)
    case True
    with Suc.prems c show ?thesis
      by (auto simp: Let_def split: prod.splits dest: length_sd_read_words)
  next
    case False
    with Suc.prems c Suc.IH show ?thesis by simp
  qed
qed simp

text \<open>
  The card's mode and address are never touched by a command, so addressing stays the way
  the initialisation left it.
\<close>

definition same_mode :: "sd_state \<Rightarrow> sd_state \<Rightarrow> bool" where
  "same_mode g g' \<longleftrightarrow>
     g_high_capacity g' = g_high_capacity g \<and> g_rca g' = g_rca g \<and> g_ocr g' = g_ocr g"

lemma same_mode_refl [simp]: "same_mode g g"
  and same_mode_err [simp]: "same_mode g (g'\<lparr>g_sd_err := e\<rparr>) \<longleftrightarrow> same_mode g g'"
  by (simp_all add: same_mode_def)

lemma same_mode_trans: "same_mode g g' \<Longrightarrow> same_mode g' g'' \<Longrightarrow> same_mode g g''"
  by (simp add: same_mode_def)

lemma sd_sample_frame:
  "sd_sample b st g d = (g', d') \<Longrightarrow> same_mode g g' \<and> g_sd_err g' = g_sd_err g \<and> g_last_status g' = st"
  by (auto simp: sd_sample_def same_mode_def Let_def split: prod.splits)

lemma sd_poll_frame:
  "sd_poll n b g d = (r, g', d') \<Longrightarrow> same_mode g g' \<and> g_sd_err g' = g_sd_err g \<and>
   (r \<longrightarrow> g_last_status g' AND SD_ST_DONE \<noteq> 0 \<and> g_last_status g' AND SD_ST_ERR = 0)"
proof (induction n arbitrary: d)
  case 0
  then show ?case
    by (subst (asm) sd_poll.simps) (auto simp: Let_def split: prod.splits dest: sd_sample_frame)
next
  case (Suc n)
  obtain st d1 where r1: "bus_rd b IO_SD_CTRL_ADDR d = (st, d1)" by (cases "bus_rd b IO_SD_CTRL_ADDR d")
  obtain g2 d2 where s: "sd_sample b st g d1 = (g2, d2)" by (cases "sd_sample b st g d1")
  show ?case
  proof (cases "st AND SD_ST_DONE = 0")
    case True
    with Suc.prems r1 have "sd_poll n b g d1 = (r, g', d')"
      by (simp add: sd_poll.simps [of "Suc n"])
    then show ?thesis by (rule Suc.IH)
  next
    case False
    with Suc.prems r1 s have "r = (st AND SD_ST_ERR = 0)" "g' = g2"
      by (simp_all add: sd_poll.simps [of "Suc n"])
    with sd_sample_frame [OF s] False show ?thesis by simp
  qed
qed

lemma sd_cmd_frame:
  "sd_cmd b cmd arg rb g d = (r, g', d') \<Longrightarrow> same_mode g g' \<and> g_sd_err g' = g_sd_err g \<and>
   (r \<longrightarrow> g_last_status g' AND SD_ST_DONE \<noteq> 0 \<and> g_last_status g' AND SD_ST_ERR = 0)"
  unfolding sd_cmd_def Let_def by (rule sd_poll_frame)

lemma sd_read_attempts_frame:
  "sd_read_attempts n b arg g d = (r, g', d') \<Longrightarrow> same_mode g g'"
proof (induction n arbitrary: g d)
  case (Suc n)
  obtain ok g1 d1 where c: "sd_cmd b 17 arg True g d = (ok, g1, d1)"
    by (cases "sd_cmd b 17 arg True g d") auto
  from sd_cmd_frame [OF c] have m: "same_mode g g1" by simp
  with Suc c show ?case
    by (cases ok) (auto simp: Let_def split: prod.splits intro: same_mode_trans)
qed auto

lemma sdcard_read_block_frame:
  "sdcard_read_block b lba (g, d) = (r, g', d') \<Longrightarrow> same_mode g g'"
  by (auto simp: sdcard_read_block_def split: option.splits dest: sd_read_attempts_frame)

lemma sdcard_read_block_length:
  "sdcard_read_block b lba s = (Some bs, s') \<Longrightarrow> length bs = 512"
  by (cases s; cases s')
    (auto simp: sdcard_read_block_def split: option.splits dest: sd_read_attempts_length)

lemma sd_read_attempts_err:
  "sd_read_attempts n b arg g d = (r, g', d') \<Longrightarrow>
   g_sd_err g' = (case r of None \<Rightarrow> 17 | Some _ \<Rightarrow> 0)"
proof (induction n arbitrary: g d)
  case (Suc n)
  obtain ok g1 d1 where c: "sd_cmd b 17 arg True g d = (ok, g1, d1)"
    by (cases "sd_cmd b 17 arg True g d") auto
  with Suc show ?case by (cases ok) (auto simp: Let_def split: prod.splits)
qed auto

lemma sdcard_read_block_err:
  "sdcard_read_block b lba (g, d) = (r, g', d') \<Longrightarrow>
   g_sd_err g' = (case r of None \<Rightarrow> 17 | Some _ \<Rightarrow> 0)"
  by (auto simp: sdcard_read_block_def split: option.splits dest: sd_read_attempts_err)

text \<open>Byte addresses of standard-capacity cards never wrap.\<close>

lemma sd_block_arg_exact:
  assumes "sd_block_arg hc lba = Some arg"
  shows "unat arg = (if hc then unat lba else 512 * unat lba)"
proof (cases hc)
  case True
  with assms show ?thesis by (simp add: sd_block_arg_def)
next
  case False
  with assms have arg: "arg = push_bit 9 lba" and le: "\<not> 0x7FFFFF < lba"
    by (auto simp: sd_block_arg_def split: if_splits)
  have "unat lba \<le> 8388607" using le by (simp add: not_less word_le_nat_alt)
  moreover have "push_bit 9 lba = lba * 512" by (simp add: push_bit_eq_mult)
  ultimately have "unat arg = unat lba * 512"
    unfolding arg by (simp only:) (subst unat_mult_no_wrap, simp_all)
  with False show ?thesis by simp
qed

section \<open>Block devices\<close>

text \<open>
  The contract the FAT loader uses: a read either fails or fills the 512-byte sector
  buffer. The state of the reader is opaque.
\<close>

locale block_device =
  fixes rd :: "u32 \<Rightarrow> 's \<Rightarrow> u8 list option \<times> 's"
  assumes sector_size: "rd lba s = (Some bs, s') \<Longrightarrow> length bs = 512"

interpretation sd: block_device "sdcard_read_block b"
  by unfold_locales (rule sdcard_read_block_length)

text \<open>
  A reader over a card with fixed contents: as long as it is in a \<open>ready\<close> state, what it
  returns is what the card holds. The second locale adds that no read fails.
\<close>

locale card_reader = block_device rd
  for rd :: "u32 \<Rightarrow> 's \<Rightarrow> u8 list option \<times> 's" +
  fixes disk :: "u32 \<Rightarrow> u8 list" and ready :: "'s \<Rightarrow> bool"
  assumes ready_step: "ready s \<Longrightarrow> rd lba s = (r, s') \<Longrightarrow> ready s'"
    and contents: "ready s \<Longrightarrow> rd lba s = (Some bs, s') \<Longrightarrow> bs = disk lba"

locale ideal_card = card_reader +
  assumes answers: "ready s \<Longrightarrow> fst (rd lba s) \<noteq> None"

end
