(* ===== verification/Sd_Host.thy ===== *)
theory Sd_Host
  imports Sdcard
begin

text \<open>
  The controller behind the SD driver: \<open>rtl/peripheral/sdhost_mmio.sv\<close> in its
  \<open>BENCH_SD_DIRECT\<close> configuration, the one the system simulations use, where a command
  completes in the cycle that starts it and a block is fetched from the image array. The
  image is a function from word index to 16-bit word, addressed modulo the
  \<open>SIM_SD_IMAGE_WORDS\<close> default of \<open>2 ^ 23\<close> words. The main results: initialisation always
  succeeds on this controller and selects block addressing, and every later block read
  returns exactly the image's 512 bytes.
\<close>

section \<open>State and registers\<close>

record sdhost =
  h_cmd_idx :: u32
  h_cmd_arg :: u32
  h_status :: u32
  h_resp0 :: u32
  h_debug :: u32
  h_data_buf :: "u32 list"
  h_image :: "nat \<Rightarrow> u16"

definition sdhost_reset :: "u32 \<Rightarrow> (nat \<Rightarrow> u16) \<Rightarrow> sdhost" where
  "sdhost_reset dbg img = \<lparr>h_cmd_idx = 0, h_cmd_arg = 0, h_status = 0, h_resp0 = 0,
     h_debug = dbg, h_data_buf = replicate 128 0, h_image = img\<rparr>"

definition sdhost_reg :: "u32 \<Rightarrow> sdhost \<Rightarrow> u32" where
  "sdhost_reg a h =
     (if a = IO_SD_CMD_ADDR then h_cmd_idx h
      else if a = IO_SD_ARG_ADDR then h_cmd_arg h
      else if a = IO_SD_CTRL_ADDR then h_status h
      else if a = IO_SD_RESP0_ADDR then h_resp0 h
      else if a = IO_SD_DEBUG_ADDR then h_debug h
      else if a = IO_SD_CRC_ADDR then 0
      else if IO_SD_DATA_ADDR \<le> a \<and> a < IO_SD_DATA_ADDR + 512
        then h_data_buf h ! (unat (a - IO_SD_DATA_ADDR) div 4)
      else 0)"

text \<open>One buffer word: two image words, each with its low byte first.\<close>

definition image_word :: "(nat \<Rightarrow> u16) \<Rightarrow> nat \<Rightarrow> u32" where
  "image_word img k =
     push_bit 24 (ucast (take_bit 8 (img k))) OR push_bit 16 (ucast (drop_bit 8 (img k)))
       OR push_bit 8 (ucast (take_bit 8 (img (k + 1)))) OR ucast (drop_bit 8 (img (k + 1)))"

definition sim_base :: "u32 \<Rightarrow> nat" where
  "sim_base arg = 256 * (unat arg mod 32768)"

definition image_block :: "(nat \<Rightarrow> u16) \<Rightarrow> u32 \<Rightarrow> u32 list" where
  "image_block img arg = map (\<lambda>i. image_word img (sim_base arg + 2 * i)) [0..<128]"

definition sdhost_start :: "u32 \<Rightarrow> sdhost \<Rightarrow> sdhost" where
  "sdhost_start v h =
     h\<lparr>h_data_buf := (if bit v 3 then image_block (h_image h) (h_cmd_arg h) else h_data_buf h),
       h_resp0 := (if h_cmd_idx h = 41 then 0xC0FF8000
                   else if h_cmd_idx h = 3 then 0x00130000 else 0),
       h_status := SD_ST_DONE OR (if bit v 3 then 8 else 0)\<rparr>"

definition sdhost_write :: "u32 \<Rightarrow> u32 \<Rightarrow> sdhost \<Rightarrow> sdhost" where
  "sdhost_write a v h =
     (if a = IO_SD_CMD_ADDR then h\<lparr>h_cmd_idx := take_bit 6 v\<rparr>
      else if a = IO_SD_ARG_ADDR then h\<lparr>h_cmd_arg := v\<rparr>
      else if a = IO_SD_CTRL_ADDR then
        (if bit v 0 \<and> h_status h AND 1 = 0 then sdhost_start v h
         else if bit v 1 then h\<lparr>h_status := h_status h AND NOT (SD_ST_DONE OR SD_ST_ERR)\<rparr>
         else h)
      else h)"

definition sdhost_bus :: "sdhost bus" where
  "sdhost_bus = \<lparr>bus_rd = (\<lambda>a h. (sdhost_reg a h, h)), bus_wr = sdhost_write\<rparr>"

section \<open>The card's contents\<close>

definition le16 :: "u16 \<Rightarrow> u8 list" where
  "le16 w = [ucast w, ucast (drop_bit 8 w)]"

definition image_sector :: "(nat \<Rightarrow> u16) \<Rightarrow> u32 \<Rightarrow> u8 list" where
  "image_sector img lba = concat (map (\<lambda>i. le16 (img (sim_base lba + i))) [0..<256])"

lemma be32_image_word: "be32 (image_word img k) = le16 (img k) @ le16 (img (k + 1))"
proof -
  have "(ucast (drop_bit 24 (image_word img k)) :: u8) = ucast (img k)"
    "(ucast (drop_bit 16 (image_word img k)) :: u8) = ucast (drop_bit 8 (img k))"
    "(ucast (drop_bit 8 (image_word img k)) :: u8) = ucast (img (k + 1))"
    "(ucast (image_word img k) :: u8) = ucast (drop_bit 8 (img (k + 1)))"
    by (rule bit_word_eqI, auto simp: image_word_def bit_ucast_iff bit_or_iff bit_drop_bit_eq
        bit_push_bit_iff bit_take_bit_iff dest: bit_imp_le_length)+
  then show ?thesis by (simp add: be32_def le16_def)
qed

lemma concat_pairs:
  "concat (map (\<lambda>i. f (2 * i) @ f (2 * i + 1)) [0..<n]) = concat (map f [0..<2 * n])"
  by (induction n) simp_all

lemma image_block_bytes: "concat (map be32 (image_block img arg)) = image_sector img arg"
  using concat_pairs [of "\<lambda>i. le16 (img (sim_base arg + i))" 128]
  by (simp add: image_block_def image_sector_def comp_def be32_image_word add.assoc)

section \<open>The driver on the controller\<close>

lemmas sd_addrs = IO_SD_CMD_ADDR_def IO_SD_ARG_ADDR_def IO_SD_CTRL_ADDR_def IO_SD_RESP0_ADDR_def
  IO_SD_DEBUG_ADDR_def IO_SD_CRC_ADDR_def IO_SD_DATA_ADDR_def

lemma sdhost_bus_simps [simp]:
  "bus_rd sdhost_bus a h = (sdhost_reg a h, h)" "bus_wr sdhost_bus = sdhost_write"
  by (simp_all add: sdhost_bus_def)

definition host_ok :: "(nat \<Rightarrow> u16) \<Rightarrow> sdhost \<Rightarrow> bool" where
  "host_ok img h \<longleftrightarrow> h_status h AND 1 = 0 \<and> h_image h = img"

lemma host_ok_reset: "host_ok img (sdhost_reset dbg img)"
  by (simp add: host_ok_def sdhost_reset_def)

text \<open>Every command completes at the first poll, without an error.\<close>

lemma sd_cmd_host:
  assumes ok: "host_ok img h" and cmd: "cmd < 64"
  shows "\<exists>g' h'. sd_cmd sdhost_bus cmd arg rb g h = (True, g', h') \<and> same_mode g g' \<and>
    g_sd_err g' = g_sd_err g \<and> host_ok img h' \<and>
    g_last_resp g' = (if cmd = 41 then 0xC0FF8000 else if cmd = 3 then 0x00130000 else 0) \<and>
    (rb \<longrightarrow> h_data_buf h' = image_block img arg)"
proof -
  have cmd6: "take_bit 6 cmd = cmd"
    using cmd by (intro word_eq_unatI)
      (simp add: unsigned_take_bit_eq take_bit_nat_eq_self word_less_nat_alt)
  define v :: u32 where "v = SD_CTRL_START OR (if rb then SD_CTRL_READ else 0)"
  have v: "bit v 0" "bit v 3 \<longleftrightarrow> rb" by (simp_all add: v_def bit_or_iff)
  define h1 where "h1 = h\<lparr>h_status := h_status h AND NOT (SD_ST_DONE OR SD_ST_ERR),
      h_cmd_arg := arg, h_cmd_idx := cmd\<rparr>"
  define h4 where "h4 = sdhost_start v h1"
  have idle: "h_status h1 AND 1 = 0"
  proof -
    have "h_status h1 AND 1 = (h_status h AND 1) AND NOT (SD_ST_DONE OR SD_ST_ERR)"
      by (simp add: h1_def ac_simps)
    then show ?thesis using ok by (simp add: host_ok_def)
  qed
  have wr: "sdhost_write IO_SD_CTRL_ADDR v (sdhost_write IO_SD_CMD_ADDR cmd
      (sdhost_write IO_SD_ARG_ADDR arg (sdhost_write IO_SD_CTRL_ADDR SD_CTRL_CLEAR h))) = h4"
    using idle v by (simp add: sdhost_write_def sd_addrs cmd6 h1_def h4_def)
  have st: "h_status h4 AND SD_ST_DONE \<noteq> 0" "h_status h4 AND SD_ST_ERR = 0"
      "h_status h4 AND 1 = 0"
    by (auto simp: h4_def sdhost_start_def)
  have "host_ok img h4" using ok st(3) by (simp add: host_ok_def h4_def h1_def sdhost_start_def)
  moreover have "rb \<longrightarrow> h_data_buf h4 = image_block img arg"
    using ok v(2) by (simp add: h4_def h1_def sdhost_start_def host_ok_def)
  moreover have "h_resp0 h4 =
      (if cmd = 41 then 0xC0FF8000 else if cmd = 3 then 0x00130000 else 0)"
    by (simp add: h4_def h1_def sdhost_start_def)
  ultimately show ?thesis
    unfolding sd_cmd_def Let_def sdhost_bus_simps wr [unfolded v_def]
    by (subst sd_poll.simps)
      (use st in \<open>simp add: sd_sample_def sdhost_reg_def sd_addrs same_mode_def\<close>)
qed

lemma sd_read_words_host:
  assumes "length (h_data_buf h) = 128" and "i + n \<le> 128"
  shows "sd_read_words i n sdhost_bus h = (concat (map be32 (take n (drop i (h_data_buf h)))), h)"
  using assms(2)
proof (induction n arbitrary: i)
  case (Suc n)
  have u: "unat (of_nat (4 * i) :: u32) = 4 * i"
    using Suc.prems by (intro unat_of_nat_u32) simp
  have a: "unat (IO_SD_DATA_ADDR + of_nat (4 * i)) = 0x400080 + 4 * i"
    using Suc.prems by (subst unat_plus_no_wrap) (simp_all add: u IO_SD_DATA_ADDR_def del: of_nat_mult)
  define a where "a = IO_SD_DATA_ADDR + of_nat (4 * i)"
  have "a \<noteq> w" if "unat w < 0x400080" for w using a that by (auto simp: a_def)
  then have ne: "a \<noteq> IO_SD_CMD_ADDR" "a \<noteq> IO_SD_ARG_ADDR" "a \<noteq> IO_SD_CTRL_ADDR"
      "a \<noteq> IO_SD_RESP0_ADDR" "a \<noteq> IO_SD_DEBUG_ADDR" "a \<noteq> IO_SD_CRC_ADDR"
    by (simp_all add: sd_addrs)
  have "IO_SD_DATA_ADDR \<le> a" "a < IO_SD_DATA_ADDR + 512"
    using a Suc.prems by (simp_all add: word_le_nat_alt word_less_nat_alt a_def IO_SD_DATA_ADDR_def)
  moreover have "unat (a - IO_SD_DATA_ADDR) div 4 = i" by (simp add: a_def u del: of_nat_mult)
  ultimately have rd: "sdhost_reg a h = h_data_buf h ! i"
    unfolding sdhost_reg_def using ne by simp
  have "drop i (h_data_buf h) = h_data_buf h ! i # drop (Suc i) (h_data_buf h)"
    using Suc.prems assms(1) by (simp add: Cons_nth_drop_Suc)
  moreover have "sd_read_words (Suc i) n sdhost_bus h =
      (concat (map be32 (take n (drop (Suc i) (h_data_buf h)))), h)"
    using Suc.IH Suc.prems by simp
  ultimately show ?case
    using rd by (simp add: a_def del: of_nat_mult)
qed simp

text \<open>A reader in this state reads the image by block number.\<close>

definition host_ready :: "(nat \<Rightarrow> u16) \<Rightarrow> sd_state \<times> sdhost \<Rightarrow> bool" where
  "host_ready img s \<longleftrightarrow> g_high_capacity (fst s) \<and> host_ok img (snd s)"

lemma sdcard_read_block_host:
  assumes "host_ready img s"
  shows "\<exists>s'. sdcard_read_block sdhost_bus lba s = (Some (image_sector img lba), s') \<and>
    host_ready img s'"
proof -
  obtain g h where s: "s = (g, h)" by (cases s)
  with assms have hc: "g_high_capacity g" and ok: "host_ok img h" by (simp_all add: host_ready_def)
  obtain g1 h1 where c: "sd_cmd sdhost_bus 17 lba True g h = (True, g1, h1)"
    and m: "same_mode g g1" and ok1: "host_ok img h1" and buf: "h_data_buf h1 = image_block img lba"
    using sd_cmd_host [OF ok, of 17 lba True g] by auto
  have "sd_read_words 0 128 sdhost_bus h1 = (image_sector img lba, h1)"
    using sd_read_words_host [of h1 0 128] buf
    by (simp add: image_block_bytes) (simp add: image_block_def)
  with c hc m ok1 show ?thesis
    by (simp add: s sdcard_read_block_def sd_block_arg_def numeral_3_eq_3 host_ready_def same_mode_def)
qed

interpretation sdhost_card: card_reader "sdcard_read_block sdhost_bus" "image_sector img" "host_ready img"
proof unfold_locales
  fix s lba r s'
  assume "host_ready img s" and "sdcard_read_block sdhost_bus lba s = (r, s')"
  then show "host_ready img s'" using sdcard_read_block_host [of img s lba] by auto
next
  fix s lba bs s'
  assume "host_ready img s" and "sdcard_read_block sdhost_bus lba s = (Some bs, s')"
  then show "bs = image_sector img lba" using sdcard_read_block_host [of img s lba] by auto
qed

interpretation sdhost_ideal: ideal_card "sdcard_read_block sdhost_bus" "image_sector img" "host_ready img"
proof unfold_locales
  fix s lba
  assume "host_ready img s"
  then show "fst (sdcard_read_block sdhost_bus lba s) \<noteq> None"
    using sdcard_read_block_host [of img s lba] by auto
qed

lemma image_sector_nth:
  assumes "k < 512"
  shows "image_sector img lba ! k =
    (if even k then ucast (img (sim_base lba + k div 2))
     else ucast (drop_bit 8 (img (sim_base lba + k div 2))))"
proof -
  have pairs: "concat (map (\<lambda>i. [f i, g i]) [0..<n]) ! j =
      (if even j then f (j div 2) else g (j div 2))"
    if "j < 2 * n" for f g :: "nat \<Rightarrow> u8" and n j
    using that
  proof (induction n)
    case (Suc n)
    have len: "length (concat (map (\<lambda>i. [f i, g i]) [0..<n])) = 2 * n"
      by (induction n) simp_all
    show ?case
    proof (cases "j < 2 * n")
      case True
      with Suc.IH len show ?thesis by (simp add: nth_append)
    next
      case False
      with Suc.prems have "j = 2 * n \<or> j = 2 * n + 1" by auto
      with len show ?thesis by (auto simp: nth_append)
    qed
  qed simp
  show ?thesis
    using assms pairs [of k 256 "\<lambda>i. ucast (img (sim_base lba + i))"
        "\<lambda>i. ucast (drop_bit 8 (img (sim_base lba + i)))"]
    by (simp add: image_sector_def le16_def)
qed

section \<open>Initialisation on the controller\<close>

lemma sd_step_host:
  assumes "host_ok img h" and "cmd < 64"
  obtains g1 h1 where "sd_step sdhost_bus cmd arg err cont g h = cont g1 h1"
    and "same_mode g g1" and "g_sd_err g1 = g_sd_err g" and "host_ok img h1"
    and "g_last_resp g1 = (if cmd = 41 then 0xC0FF8000 else if cmd = 3 then 0x00130000 else 0)"
  using sd_cmd_host [OF assms, of arg False g] that by (auto simp: sd_step_def)

lemma sd_identify_host:
  assumes "host_ok img h"
  shows "\<exists>g' h'. sd_identify sdhost_bus g h = (True, g', h') \<and> host_ok img h' \<and>
    g_high_capacity g' = g_high_capacity g \<and> g_ocr g' = g_ocr g \<and>
    g_sd_err g' = g_sd_err g \<and> g_rca g' = 0x13"
proof -
  note [simp] = same_mode_def
  define k3 where "k3 = (\<lambda>g d. let g1 = g\<lparr>g_rca := ucast (drop_bit 16 (g_last_resp g))\<rparr>
       in if g_rca g1 = 0 then (False, g1\<lparr>g_sd_err := 3\<rparr>, d)
          else sd_step sdhost_bus 7 (push_bit 16 (ucast (g_rca g1))) 7
                 (sd_step sdhost_bus 16 512 16 (\<lambda>g d. (True, g, d))) g1 d)"
  have two: "(2 :: u32) < 64" and three: "(3 :: u32) < 64" and seven: "(7 :: u32) < 64"
    and sixteen: "(16 :: u32) < 64" by simp_all
  have id: "sd_identify sdhost_bus = sd_step sdhost_bus 2 0 2 (sd_step sdhost_bus 3 0 3 k3)"
    unfolding sd_identify_def k3_def ..
  obtain g1 h1 where 1: "sd_identify sdhost_bus g h = sd_step sdhost_bus 3 0 3 k3 g1 h1"
    "same_mode g g1" "g_sd_err g1 = g_sd_err g" "host_ok img h1"
    unfolding id by (rule sd_step_host [OF assms two])
  obtain g2 h2 where 2: "sd_step sdhost_bus 3 0 3 k3 g1 h1 = k3 g2 h2"
    "same_mode g1 g2" "g_sd_err g2 = g_sd_err g1" "host_ok img h2"
    "g_last_resp g2 = (if (3::u32) = 41 then 0xC0FF8000 else if (3::u32) = 3 then 0x00130000 else 0)"
    by (rule sd_step_host [OF 1(4) three])
  define g3 where "g3 = g2\<lparr>g_rca := 0x13\<rparr>"
  have k: "k3 g2 h2 = sd_step sdhost_bus 7 0x130000 7
      (sd_step sdhost_bus 16 512 16 (\<lambda>g d. (True, g, d))) g3 h2"
    using 2(5) by (simp add: k3_def g3_def)
  obtain g4 h4 where 4: "k3 g2 h2 = sd_step sdhost_bus 16 512 16 (\<lambda>g d. (True, g, d)) g4 h4"
    "same_mode g3 g4" "g_sd_err g4 = g_sd_err g3" "host_ok img h4"
    unfolding k by (rule sd_step_host [OF 2(4) seven])
  obtain g5 h5 where 5: "k3 g2 h2 = (True, g5, h5)"
    "same_mode g4 g5" "g_sd_err g5 = g_sd_err g4" "host_ok img h5"
    unfolding 4(1) by (rule sd_step_host [OF 4(4) sixteen])
  have "sd_identify sdhost_bus g h = (True, g5, h5)"
    using 1(1) 2(1) 5(1) by (simp only:)
  moreover have "g_high_capacity g5 = g_high_capacity g \<and> g_ocr g5 = g_ocr g \<and>
      g_sd_err g5 = g_sd_err g \<and> g_rca g5 = 0x13"
    using 1(2,3) 2(2,3) 4(2,3) 5(2,3) by (simp add: g3_def)
  ultimately show ?thesis using 5(4) by blast
qed

lemma thousand: "1000 = Suc 999"
  by simp

lemma sdcard_init_host:
  assumes "host_ok img h"
  shows "\<exists>g' h'. sdcard_init sdhost_bus g h = (True, g', h') \<and> host_ready img (g', h') \<and>
    g_rca g' = 0x13 \<and> g_ocr g' = 0xC0FF8000 \<and> g_sd_err g' = 0"
proof -
  define g0 where "g0 = g\<lparr>g_sd_err := 0, g_high_capacity := False, g_ocr := 0\<rparr>"
  have n: "(0 :: u32) < 64" "(8 :: u32) < 64" "(55 :: u32) < 64" "(41 :: u32) < 64" by simp_all
  obtain g1 h1 where 1: "sd_cmd sdhost_bus 0 0 False g0 h = (True, g1, h1)"
    "same_mode g0 g1" "g_sd_err g1 = g_sd_err g0" "host_ok img h1"
    using sd_cmd_host [OF assms n(1), of 0 False g0] by auto
  define k where "k = (\<lambda>g2 d2. case sd_acmd41_loop 1000 sdhost_bus g2 d2 of
             (Failed e, g3, d3) \<Rightarrow> (False, g3\<lparr>g_sd_err := e\<rparr>, d3)
           | (_, g3, d3) \<Rightarrow>
               if g_last_resp g3 AND 0x80000000 = 0 then (False, g3\<lparr>g_sd_err := 41\<rparr>, d3)
               else sd_identify sdhost_bus
                      (g3\<lparr>g_ocr := g_last_resp g3,
                          g_high_capacity := g_last_resp g3 AND 0x40000000 \<noteq> 0\<rparr>) d3)"
  have init: "sdcard_init sdhost_bus g h = sd_step sdhost_bus 8 0x1AA 8 k g1 h1"
    unfolding sdcard_init_def Let_def g0_def [symmetric] k_def [symmetric] 1(1) by simp
  obtain g2 h2 where 2: "sdcard_init sdhost_bus g h = k g2 h2"
    "same_mode g1 g2" "g_sd_err g2 = g_sd_err g1" "host_ok img h2"
    unfolding init by (rule sd_step_host [OF 1(4) n(2)])
  obtain g3 h3 where 3: "sd_cmd sdhost_bus 55 0 False g2 h2 = (True, g3, h3)"
    "same_mode g2 g3" "g_sd_err g3 = g_sd_err g2" "host_ok img h3"
    using sd_cmd_host [OF 2(4) n(3), of 0 False g2] by auto
  obtain g4 h4 where 4: "sd_cmd sdhost_bus 41 0x40300000 False g3 h3 = (True, g4, h4)"
    "same_mode g3 g4" "g_sd_err g4 = g_sd_err g3" "host_ok img h4" "g_last_resp g4 = 0xC0FF8000"
    using sd_cmd_host [OF 3(4) n(4), of "0x40300000" False g3] by auto
  have loop: "sd_acmd41_loop 1000 sdhost_bus g2 h2 = (Ready, g4, h4)"
    unfolding thousand sd_acmd41_loop.simps(2) by (simp add: 3(1) 4(1,5))
  define g5 where "g5 = g4\<lparr>g_ocr := 0xC0FF8000, g_high_capacity := True\<rparr>"
  have "k g2 h2 = sd_identify sdhost_bus g5 h4"
    by (simp add: k_def loop 4(5) g5_def)
  moreover obtain g' h' where "sd_identify sdhost_bus g5 h4 = (True, g', h')" "host_ok img h'"
    "g_high_capacity g' = g_high_capacity g5" "g_ocr g' = g_ocr g5" "g_sd_err g' = g_sd_err g5"
    "g_rca g' = 0x13"
    using sd_identify_host [OF 4(4), of g5] by auto
  ultimately show ?thesis
    using 1 2 3 4 by (auto simp: g5_def g0_def host_ready_def same_mode_def)
qed

end
