(* ===== verification/Fatboot.thy ===== *)
theory Fatboot
  imports Boot_Image Sd_Host
begin

text \<open>
  \<open>program/boot/fatboot.c\<close>: finding BOOT.BIN in the root directory of a FAT32 card and
  loading it to memory. The block reader is the argument \<open>rd\<close> with its opaque state
  (\<open>sdcard_read_block\<close> in the boot ROM, see the end of the theory). The two cluster-chain
  loops of the C code have no bound, so they are \<^theory_text>\<open>partial_function\<close>s; the load
  loop is proved to return, the directory loop is not (a cyclic chain keeps it busy).
  The main results: nothing outside the image's own address range is ever written, and
  a well-formed card yields exactly the file's bytes after the header.
\<close>

section \<open>Result codes\<close>

text \<open>\<open>FB_OK\<close> is 0; the others are the return values -1 to -6 in this order.\<close>

datatype fatboot_rc = FB_OK | FB_EREAD | FB_EBPS | FB_ENOENT | FB_ETRUNC | FB_EIMAGE | FB_ESIZE

type_synonym 's reader = "u32 \<Rightarrow> 's \<Rightarrow> u8 list option \<times> 's"

section \<open>BIOS parameter block\<close>

definition looks_like_fat32_bpb :: "u8 list \<Rightarrow> bool" where
  "looks_like_fat32_bpb p \<longleftrightarrow>
     rd16 p 11 = 512 \<and> p ! 13 \<noteq> 0 \<and> rd16 p 14 \<noteq> 0 \<and> p ! 16 \<noteq> 0 \<and>
     rd32 p 36 \<noteq> 0 \<and> 2 \<le> rd32 p 44"

record fat_geom =
  sec_per_clus :: u8
  fat_lba :: u32
  data_lba :: u32
  root_cluster :: u32

definition fat_part_lba :: "u8 list \<Rightarrow> u32" where
  "fat_part_lba sector =
     (if \<not> looks_like_fat32_bpb sector \<and> sector ! 510 = 0x55 \<and> sector ! 511 = 0xAA \<and>
         sector ! (0x1BE + 4) \<noteq> 0
      then rd32 sector (0x1BE + 8) else 0)"

definition fat_geom_of :: "u32 \<Rightarrow> u8 list \<Rightarrow> fat_geom" where
  "fat_geom_of part_lba sector =
     (let fl = part_lba + ucast (rd16 sector 14)
      in \<lparr>sec_per_clus = sector ! 13, fat_lba = fl,
          data_lba = fl + ucast (sector ! 16) * rd32 sector 36,
          root_cluster = rd32 sector 44\<rparr>)"

definition fat_mount :: "'s reader \<Rightarrow> 's \<Rightarrow> (fatboot_rc + fat_geom) \<times> 's" where
  "fat_mount rd s =
     (case rd 0 s of
        (None, s1) \<Rightarrow> (Inl FB_EREAD, s1)
      | (Some sector0, s1) \<Rightarrow>
          (case rd (fat_part_lba sector0) s1 of
             (None, s2) \<Rightarrow> (Inl FB_EREAD, s2)
           | (Some sector, s2) \<Rightarrow>
               if rd16 sector 11 \<noteq> 512 then (Inl FB_EBPS, s2)
               else (Inr (fat_geom_of (fat_part_lba sector0) sector), s2)))"

section \<open>Cluster chains\<close>

definition cluster_lba :: "fat_geom \<Rightarrow> u32 \<Rightarrow> u32" where
  "cluster_lba g cluster = data_lba g + (cluster - 2) * ucast (sec_per_clus g)"

abbreviation FAT_EOC :: u32 where "FAT_EOC \<equiv> 0x0FFFFFF8"

definition next_cluster :: "'s reader \<Rightarrow> fat_geom \<Rightarrow> u32 \<Rightarrow> 's \<Rightarrow> u32 option \<times> 's" where
  "next_cluster rd g cluster s =
     (case rd (fat_lba g + (cluster * 4) div 512) s of
        (None, s1) \<Rightarrow> (None, s1)
      | (Some sector, s1) \<Rightarrow>
          (Some (rd32 sector (unat ((cluster * 4) AND 511)) AND 0x0FFFFFFF), s1))"

section \<open>Root directory\<close>

definition name_match :: "u8 list \<Rightarrow> nat \<Rightarrow> bool" where
  "name_match p off \<longleftrightarrow>
     p ! (off + 0) = 66 \<and> p ! (off + 1) = 79 \<and> p ! (off + 2) = 79 \<and> p ! (off + 3) = 84 \<and>
     p ! (off + 4) = 32 \<and> p ! (off + 5) = 32 \<and> p ! (off + 6) = 32 \<and> p ! (off + 7) = 32 \<and>
     p ! (off + 8) = 66 \<and> p ! (off + 9) = 73 \<and> p ! (off + 10) = 78"

definition dir_entry_hit :: "u8 list \<Rightarrow> nat \<Rightarrow> bool" where
  "dir_entry_hit sector off \<longleftrightarrow>
     sector ! off \<noteq> 0 \<and> \<not> (sector ! off = 0xE5 \<or> sector ! (off + 11) = 0x0F) \<and>
     name_match sector off"

definition dir_entry_file :: "u8 list \<Rightarrow> nat \<Rightarrow> u32 \<times> u32" where
  "dir_entry_file sector off =
     (push_bit 16 (ucast (rd16 sector (off + 20))) OR ucast (rd16 sector (off + 26)),
      rd32 sector (off + 28))"

text \<open>The scan of one sector stops at the first hit.\<close>

definition scan_sector :: "u8 list \<Rightarrow> (u32 \<times> u32) option" where
  "scan_sector sector =
     map_option (dir_entry_file sector)
       (find (dir_entry_hit sector) (map (\<lambda>i. 32 * i) [0..<16]))"

text \<open>What the search loop carries: \<open>cluster\<close>, \<open>file_cluster\<close> and \<open>file_size\<close>.\<close>

type_synonym search = "u32 \<times> u32 \<times> u32"

text \<open>
  The sectors of one cluster, from \<open>lba\<close> on. A hit ends the search only when the entry's
  first cluster is not 0; with 0 the loop goes on with \<open>cluster = 0x0FFFFFFF\<close>.
\<close>

fun scan_cluster :: "nat \<Rightarrow> 's reader \<Rightarrow> u32 \<Rightarrow> search \<Rightarrow> 's \<Rightarrow> (fatboot_rc + search) \<times> 's" where
  "scan_cluster 0 rd lba q s = (Inr q, s)"
| "scan_cluster (Suc n) rd lba q s =
     (case rd lba s of
        (None, s1) \<Rightarrow> (Inl FB_EREAD, s1)
      | (Some sector, s1) \<Rightarrow>
          let q' = (case scan_sector sector of
                      None \<Rightarrow> q
                    | Some (fc, fs) \<Rightarrow> (0x0FFFFFFF, fc, fs))
          in if fst (snd q') \<noteq> 0 then (Inr q', s1)
             else scan_cluster n rd (lba + 1) q' s1)"

partial_function (option) root_scan ::
    "'s reader \<Rightarrow> fat_geom \<Rightarrow> search \<Rightarrow> 's \<Rightarrow> ((fatboot_rc + u32 \<times> u32) \<times> 's) option" where
  "root_scan rd g q s =
     (if fst q < FAT_EOC then
        (case scan_cluster (unat (sec_per_clus g)) rd (cluster_lba g (fst q)) q s of
           (Inl rc, s1) \<Rightarrow> Some (Inl rc, s1)
         | (Inr q1, s1) \<Rightarrow>
             if fst (snd q1) \<noteq> 0 then Some (Inr (snd q1), s1)
             else (case next_cluster rd g (fst q1) s1 of
                     (None, s2) \<Rightarrow> Some (Inl FB_EREAD, s2)
                   | (Some c, s2) \<Rightarrow> root_scan rd g (c, snd q1) s2))
      else Some (Inr (snd q), s))"

section \<open>Loading\<close>

text \<open>\<open>copy_payload\<close> moves whole words while it can, then the remaining bytes.\<close>

fun copy_payload :: "u32 \<Rightarrow> u8 list \<Rightarrow> memory \<Rightarrow> u32 \<times> memory" where
  "copy_payload dst (b0 # b1 # b2 # b3 # src) m =
     copy_payload (dst + 4) src (store_bytes dst [b0, b1, b2, b3] m)"
| "copy_payload dst src m = (dst + of_nat (length src), store_bytes dst src m)"

record load_state =
  l_remaining :: u32
  l_file_off :: u32
  l_payload_out :: u32
  l_text_size :: u32
  l_data_size :: u32
  l_mem :: memory

text \<open>The header check on the file's first sector: \<open>Inr\<close> holds the text and data sizes.\<close>

definition check_header :: "u32 \<Rightarrow> u32 \<Rightarrow> u8 list \<Rightarrow> fatboot_rc + u32 \<times> u32" where
  "check_header dst file_size sector =
     (case boot_image_parse_header (Some (take 12 sector)) True dst of
        Inl _ \<Rightarrow> Inl FB_EIMAGE
      | Inr (tsz, dsz, _) \<Rightarrow>
          if boot_image_validate_file_size file_size tsz dsz \<noteq> BOOT_IMAGE_OK
          then Inl FB_ESIZE else Inr (tsz, dsz))"

definition store_sector :: "u32 \<Rightarrow> u32 \<Rightarrow> u8 list \<Rightarrow> load_state \<Rightarrow> load_state" where
  "store_sector n payload_off sector l =
     (let (out, m) = copy_payload (l_payload_out l)
            (take (unat (n - payload_off)) (drop (unat payload_off) sector)) (l_mem l)
      in l\<lparr>l_payload_out := out, l_mem := m,
           l_file_off := l_file_off l + n, l_remaining := l_remaining l - n\<rparr>)"

definition load_sector ::
    "'s reader \<Rightarrow> u32 \<Rightarrow> u32 \<Rightarrow> u32 \<Rightarrow> load_state \<Rightarrow> 's \<Rightarrow> fatboot_rc option \<times> load_state \<times> 's" where
  "load_sector rd dst file_size lba l s =
     (case rd lba s of
        (None, s1) \<Rightarrow> (Some FB_EREAD, l, s1)
      | (Some sector, s1) \<Rightarrow>
          let n = (if l_remaining l < 512 then l_remaining l else 512)
          in if l_file_off l = 0 then
               (case check_header dst file_size sector of
                  Inl rc \<Rightarrow> (Some rc, l, s1)
                | Inr (tsz, dsz) \<Rightarrow>
                    (None, store_sector n BOOT_IMAGE_HEADER_SIZE sector
                             (l\<lparr>l_text_size := tsz, l_data_size := dsz\<rparr>), s1))
             else (None, store_sector n 0 sector l, s1))"

fun load_cluster ::
    "nat \<Rightarrow> 's reader \<Rightarrow> u32 \<Rightarrow> u32 \<Rightarrow> u32 \<Rightarrow> load_state \<Rightarrow> 's \<Rightarrow>
     fatboot_rc option \<times> load_state \<times> 's" where
  "load_cluster 0 rd dst file_size lba l s = (None, l, s)"
| "load_cluster (Suc k) rd dst file_size lba l s =
     (if l_remaining l = 0 then (None, l, s)
      else case load_sector rd dst file_size lba l s of
        (Some rc, l1, s1) \<Rightarrow> (Some rc, l1, s1)
      | (None, l1, s1) \<Rightarrow> load_cluster k rd dst file_size (lba + 1) l1 s1)"

partial_function (option) load_chain ::
    "'s reader \<Rightarrow> fat_geom \<Rightarrow> u32 \<Rightarrow> u32 \<Rightarrow> u32 \<Rightarrow> load_state \<Rightarrow> 's \<Rightarrow>
     (fatboot_rc option \<times> load_state \<times> 's) option" where
  "load_chain rd g dst file_size cluster l s =
     (if l_remaining l \<noteq> 0 \<and> cluster < FAT_EOC then
        (case load_cluster (unat (sec_per_clus g)) rd dst file_size (cluster_lba g cluster) l s of
           (Some rc, l1, s1) \<Rightarrow> Some (Some rc, l1, s1)
         | (None, l1, s1) \<Rightarrow>
             if l_remaining l1 \<noteq> 0 then
               (case next_cluster rd g cluster s1 of
                  (None, s2) \<Rightarrow> Some (Some FB_EREAD, l1, s2)
                | (Some c, s2) \<Rightarrow> load_chain rd g dst file_size c l1 s2)
             else load_chain rd g dst file_size cluster l1 s1)
      else Some (None, l, s))"

definition load_init :: "u32 \<Rightarrow> u32 \<Rightarrow> memory \<Rightarrow> load_state" where
  "load_init dst file_size m =
     \<lparr>l_remaining = file_size, l_file_off = 0, l_payload_out = dst,
      l_text_size = 0, l_data_size = 0, l_mem = m\<rparr>"

text \<open>The result: return code, what is stored through \<open>size_out\<close>, memory, reader state.\<close>

definition load_file ::
    "'s reader \<Rightarrow> fat_geom \<Rightarrow> u32 \<Rightarrow> u32 \<Rightarrow> u32 \<Rightarrow> memory \<Rightarrow> 's \<Rightarrow>
     (fatboot_rc \<times> u32 option \<times> memory \<times> 's) option" where
  "load_file rd g dst file_cluster file_size m s =
     (if file_size < BOOT_IMAGE_HEADER_SIZE then Some (FB_EIMAGE, None, m, s)
      else case load_chain rd g dst file_size file_cluster (load_init dst file_size m) s of
        None \<Rightarrow> None
      | Some (Some rc, l, s1) \<Rightarrow> Some (rc, None, l_mem l, s1)
      | Some (None, l, s1) \<Rightarrow>
          Some (if l_remaining l = 0 then FB_OK else FB_ETRUNC,
                Some (l_text_size l + l_data_size l), l_mem l, s1))"

definition fatboot_load ::
    "'s reader \<Rightarrow> u32 \<Rightarrow> memory \<Rightarrow> 's \<Rightarrow> (fatboot_rc \<times> u32 option \<times> memory \<times> 's) option" where
  "fatboot_load rd dst m s =
     (case fat_mount rd s of
        (Inl rc, s1) \<Rightarrow> Some (rc, None, m, s1)
      | (Inr g, s1) \<Rightarrow>
          (case root_scan rd g (root_cluster g, 0, 0) s1 of
             None \<Rightarrow> None
           | Some (Inl rc, s2) \<Rightarrow> Some (rc, None, m, s2)
           | Some (Inr (fc, fs), s2) \<Rightarrow>
               if fc = 0 then Some (FB_ENOENT, None, m, s2)
               else load_file rd g dst fc fs m s2))"

section \<open>Copying\<close>

lemma copy_payload_eq: "copy_payload dst src m = (dst + of_nat (length src), store_bytes dst src m)"
  by (induction dst src m rule: copy_payload.induct) (simp_all add: ac_simps fun_upd_def)

section \<open>The loading invariant\<close>

text \<open>
  \<open>data\<close> is the part of the file read so far, header included. Either nothing has been read
  and memory is untouched, or the header has been accepted and memory holds exactly the
  bytes after it.
\<close>

definition load_inv :: "u32 \<Rightarrow> u32 \<Rightarrow> memory \<Rightarrow> u8 list \<Rightarrow> load_state \<Rightarrow> bool" where
  "load_inv dst fs m0 data l \<longleftrightarrow>
     length data = unat (l_file_off l) \<and> length data + unat (l_remaining l) = unat fs \<and>
     (data = [] \<and> l_mem l = m0 \<and> l_payload_out l = dst \<or>
      12 \<le> length data \<and> check_header dst fs data = Inr (l_text_size l, l_data_size l) \<and>
      l_payload_out l = dst + of_nat (length data - 12) \<and>
      l_mem l = store_bytes dst (drop 12 data) m0)"

lemma load_inv_init: "load_inv dst fs m [] (load_init dst fs m)"
  by (simp add: load_inv_def load_init_def)

text \<open>An accepted header describes the whole file and an address range inside the DDR bank.\<close>

lemma check_header_OkD:
  assumes "check_header dst fs data = Inr (tsz, dsz)"
  shows "0x80000000 \<le> unat dst" "unat dst + (unat fs - 12) \<le> 0x87000000"
    and "unat tsz + unat dsz = unat fs - 12" "12 \<le> unat fs" "unat (tsz + dsz) = unat fs - 12"
proof -
  from assms obtain p where
    p: "boot_image_parse_header (Some (take 12 data)) True dst = Inr (tsz, dsz, p)"
    and v: "boot_image_validate_file_size fs tsz dsz = BOOT_IMAGE_OK"
    by (auto simp: check_header_def split: sum.splits if_splits)
  from v have fs: "12 \<le> fs" and t: "tsz \<le> fs - 12" and d: "dsz = fs - 12 - tsz"
    by (auto simp: boot_image_validate_file_size_def Let_def not_less split: if_splits)
  have f: "unat (fs - 12) = unat fs - 12" using fs by (subst unat_sub) simp_all
  with d t have d': "unat dsz = unat fs - 12 - unat tsz" by (simp add: unat_sub)
  from t f have t': "unat tsz \<le> unat fs - 12" by (simp add: word_le_nat_alt)
  show sum: "unat tsz + unat dsz = unat fs - 12" using t' d' by simp
  show "12 \<le> unat fs" using fs by (simp add: word_le_nat_alt)
  show "0x80000000 \<le> unat dst"
    using parse_header_OkD(4) [OF p] by (simp add: word_le_nat_alt)
  show "unat dst + (unat fs - 12) \<le> 0x87000000"
    using parse_header_OkD(6,7) [OF p] sum by simp
  show "unat (tsz + dsz) = unat fs - 12"
    using sum unat_u32_less [of fs] by (subst unat_plus_no_wrap) simp_all
qed

lemma check_header_append:
  "12 \<le> length data \<Longrightarrow> check_header dst fs (data @ more_data) = check_header dst fs data"
  by (simp add: check_header_def)

lemma check_header_take:
  "12 \<le> n \<Longrightarrow> check_header dst fs (take n data) = check_header dst fs data"
  by (simp add: check_header_def min_absorb1)

text \<open>What the invariant says about memory.\<close>

lemma load_inv_frame:
  assumes "load_inv dst fs m0 data l" and "l_mem l a \<noteq> m0 a"
  shows "0x80000000 \<le> unat dst \<and> unat dst + (unat fs - 12) \<le> 0x87000000 \<and>
    unat dst \<le> unat a \<and> unat a < unat dst + (unat fs - 12)"
proof -
  from assms have h: "check_header dst fs data = Inr (l_text_size l, l_data_size l)"
    and m: "l_mem l = store_bytes dst (drop 12 data) m0" and len: "length data \<le> unat fs"
    by (auto simp: load_inv_def)
  note w = check_header_OkD [OF h]
  have "length data < 4294967296" using len unat_u32_less [of fs] by simp
  with assms(2) m have "unat (a - dst) < length data - 12"
    using store_bytes_outside [of "drop 12 data" a dst m0]
    by (cases "length data - 12 \<le> unat (a - dst)") simp_all
  then have off: "unat (a - dst) < unat fs - 12" using len by simp
  have "unat (dst + (a - dst)) = unat dst + unat (a - dst)"
    using off w by (intro unat_plus_no_wrap) simp
  then have "unat a = unat dst + unat (a - dst)" by simp
  with off w show ?thesis by simp
qed

text \<open>One sector.\<close>

lemma store_sector_eq:
  "store_sector n off sector l =
     l\<lparr>l_payload_out := l_payload_out l + of_nat (min (length sector - unat off) (unat (n - off))),
       l_mem := store_bytes (l_payload_out l)
         (take (unat (n - off)) (drop (unat off) sector)) (l_mem l),
       l_file_off := l_file_off l + n, l_remaining := l_remaining l - n\<rparr>"
  by (simp add: store_sector_def copy_payload_eq)

lemma min_sector:
  "unat (if r < (512 :: u32) then r else 512) = min (unat r) 512"
  by (auto simp: word_less_nat_alt min_def)

lemma load_sector_inv:
  assumes inv: "load_inv dst fs m0 data l" and rem: "l_remaining l \<noteq> 0" and fs: "12 \<le> unat fs"
    and rd: "rd lba s = (Some sector, s0)" and len: "length sector = 512"
    and ret: "load_sector rd dst fs lba l s = (None, l', s')"
  shows "load_inv dst fs m0 (data @ take (unat (l_remaining l)) sector) l' \<and> s' = s0"
proof -
  define n :: u32 where "n = (if l_remaining l < 512 then l_remaining l else 512)"
  have n: "unat n = min (unat (l_remaining l)) 512" unfolding n_def by (rule min_sector)
  have nle: "n \<le> l_remaining l" by (simp add: word_le_nat_alt n)
  have tk: "take (unat (l_remaining l)) sector = take (unat n) sector"
    using len n by (simp add: min_def)
  from inv have ld: "length data = unat (l_file_off l)"
    and sum: "length data + unat (l_remaining l) = unat fs"
    by (simp_all add: load_inv_def)
  have off': "unat (l_file_off l + n) = length data + unat n"
    using ld sum n unat_u32_less [of fs] by (subst unat_plus_no_wrap) auto
  have rem': "unat (l_remaining l - n) = unat (l_remaining l) - unat n"
    using nle by (rule unat_sub)
  show ?thesis
  proof (cases "l_file_off l = 0")
    case True
    then have d: "data = []" using ld by simp
    with inv have out: "l_payload_out l = dst" "l_mem l = m0" by (auto simp: load_inv_def)
    have n12: "12 \<le> unat n" using n sum d fs by simp
    then have "unat (n - 12) = unat n - 12"
      by (subst unat_sub) (simp_all add: word_le_nat_alt)
    moreover from ret rd True obtain tsz dsz where
      ch: "check_header dst fs sector = Inr (tsz, dsz)" and s: "s' = s0"
      and l': "l' = store_sector n 12 sector (l\<lparr>l_text_size := tsz, l_data_size := dsz\<rparr>)"
      by (auto simp: load_sector_def n_def Let_def split: sum.splits)
    moreover have "length (take (unat n) sector) = unat n" using n len by simp
    moreover have "unat (l_file_off l') = unat n" "l_remaining l' = l_remaining l - n"
      using off' d l' by (simp_all add: store_sector_eq)
    moreover have "unat n \<le> unat fs" "unat n \<le> 512" "unat (l_remaining l) = unat fs"
      using n sum d by simp_all
    ultimately show ?thesis
      unfolding tk using rem' n12 len d out check_header_take [OF n12, of dst fs sector]
      by (simp add: load_inv_def store_sector_eq drop_take)
  next
    case False
    then have d: "data \<noteq> []" using ld by (auto simp: unat_eq_0)
    with inv have old: "12 \<le> length data"
      "check_header dst fs data = Inr (l_text_size l, l_data_size l)"
      "l_payload_out l = dst + of_nat (length data - 12)"
      "l_mem l = store_bytes dst (drop 12 data) m0" by (auto simp: load_inv_def)
    from ret rd False have s: "s' = s0" and l': "l' = store_sector n 0 sector l"
      by (auto simp: load_sector_def n_def Let_def)
    have ln: "length data + unat n - 12 = (length data - 12) + unat n" using old(1) by simp
    show ?thesis
      using off' rem' n len sum old s
      by (simp add: load_inv_def store_sector_eq tk l' check_header_append store_bytes_append
          ln min_def)
  qed
qed

lemma load_sector_error:
  "load_sector rd dst fs lba l s = (Some rc, l', s') \<Longrightarrow> l' = l \<and> rc \<noteq> FB_OK"
  by (auto simp: load_sector_def check_header_def Let_def
      split: prod.splits option.splits sum.splits if_splits)

section \<open>The load loop over any block reader\<close>

lemma load_inv_length:
  "load_inv dst fs m0 data l \<Longrightarrow> length data + unat (l_remaining l) = unat fs"
  by (simp add: load_inv_def)

context block_device begin

lemma load_cluster_inv:
  assumes "load_cluster k rd dst fs lba l s = (r, l', s')" and "load_inv dst fs m0 data l"
    and "12 \<le> unat fs"
  shows "r \<noteq> Some FB_OK \<and> (\<exists>read. load_inv dst fs m0 (data @ read) l' \<and>
    (r = None \<longrightarrow> 0 < k \<longrightarrow> l_remaining l \<noteq> 0 \<longrightarrow> read \<noteq> []))"
  using assms
proof (induction k arbitrary: lba l s data)
  case 0
  then show ?case by (auto intro: exI [of _ "[]"])
next
  case (Suc k)
  show ?case
  proof (cases "l_remaining l = 0")
    case True
    with Suc.prems show ?thesis by (auto intro: exI [of _ "[]"])
  next
    case False
    obtain e l1 s1 where st: "load_sector rd dst fs lba l s = (e, l1, s1)"
      by (cases "load_sector rd dst fs lba l s") auto
    show ?thesis
    proof (cases e)
      case (Some rc)
      with Suc.prems False st load_sector_error show ?thesis
        by (fastforce intro: exI [of _ "[]"])
    next
      case None
      with st obtain sector where rd: "rd lba s = (Some sector, s1)"
        by (auto simp: load_sector_def Let_def split: prod.splits option.splits sum.splits if_splits)
      define new where "new = take (unat (l_remaining l)) sector"
      have len: "length sector = 512" using rd by (rule sector_size)
      have "load_inv dst fs m0 (data @ new) l1"
        unfolding new_def
        using load_sector_inv [where rd = rd, OF Suc.prems(2) False Suc.prems(3) rd len] st None
        by blast
      moreover have "new \<noteq> []" using False len by (auto simp: new_def unat_eq_0)
      moreover have "load_cluster k rd dst fs (lba + 1) l1 s1 = (r, l', s')"
        using Suc.prems(1) False st None by simp
      ultimately show ?thesis
        using Suc.IH [of "lba + 1" l1 s1 "data @ new"] Suc.prems(3) by fastforce
    qed
  qed
qed

text \<open>Whatever the reader does, every outcome leaves the invariant behind.\<close>

lemma load_chain_inv:
  assumes "load_chain rd g dst fs c l s = Some (r, l', s')"
    and "load_inv dst fs m0 data l" and "12 \<le> unat fs"
  shows "r \<noteq> Some FB_OK \<and> (\<exists>read. load_inv dst fs m0 (data @ read) l')"
proof -
  have "\<forall>data. load_inv dst fs m0 data l \<longrightarrow> 12 \<le> unat fs \<longrightarrow>
      fst (r, l', s') \<noteq> Some FB_OK \<and>
      (\<exists>read. load_inv dst fs m0 (data @ read) (fst (snd (r, l', s'))))"
  proof (rule load_chain.raw_induct [where
        P = "\<lambda>rd' g dst fs c l s y. rd' = rd \<longrightarrow> (\<forall>data. load_inv dst fs m0 data l \<longrightarrow> 12 \<le> unat fs \<longrightarrow>
          fst y \<noteq> Some FB_OK \<and> (\<exists>read. load_inv dst fs m0 (data @ read) (fst (snd y))))",
        OF _ assms(1), THEN mp, OF _ refl], goal_cases)
    case (1 chain rd' g dst fs c l s y)
    show ?case
    proof (intro impI allI)
      fix data
      assume rd': "rd' = rd" and inv: "load_inv dst fs m0 data l" and fs: "12 \<le> unat fs"
      show "fst y \<noteq> Some FB_OK \<and> (\<exists>read. load_inv dst fs m0 (data @ read) (fst (snd y)))"
      proof (cases "l_remaining l \<noteq> 0 \<and> c < FAT_EOC")
        case False
        with 1(2) have "y = (None, l, s)" by (auto split: if_splits)
        with inv show ?thesis by (auto intro: exI [of _ "[]"])
      next
        case True
        obtain r1 l1 s1 where lc:
          "load_cluster (unat (sec_per_clus g)) rd dst fs (cluster_lba g c) l s = (r1, l1, s1)"
          by (cases "load_cluster (unat (sec_per_clus g)) rd dst fs (cluster_lba g c) l s") auto
        from load_cluster_inv [OF lc inv fs] obtain new where
          ok: "r1 \<noteq> Some FB_OK" and inv1: "load_inv dst fs m0 (data @ new) l1" by blast
        have step: "chain rd g dst fs c' l1 s2 = Some y \<Longrightarrow> ?thesis" for c' s2
          using 1(1) [of rd g dst fs c' l1 s2 y] inv1 fs by (metis append.assoc)
        show ?thesis
        proof (cases r1)
          case (Some rc)
          with 1(2) True lc rd' have "y = (r1, l1, s1)" by simp
          with ok inv1 show ?thesis by auto
        next
          case None
          obtain r2 s2 where nc: "next_cluster rd g c s1 = (r2, s2)"
            by (cases "next_cluster rd g c s1")
          show ?thesis
          proof (cases r2)
            case None
            with 1(2) True lc rd' nc \<open>r1 = None\<close> have
              "y = (Some FB_EREAD, l1, s2) \<or> chain rd g dst fs c l1 s1 = Some y"
              by (simp split: if_splits)
            with inv1 step show ?thesis by auto
          next
            case (Some c')
            with 1(2) True lc rd' nc \<open>r1 = None\<close> step show ?thesis
              by (simp split: if_splits)
          qed
        qed
      qed
    qed
  qed
  with assms(2,3) show ?thesis by simp
qed

text \<open>The load loop returns for every disk, cyclic chains included: it consumes the file size.\<close>

lemma load_chain_returns:
  assumes "sec_per_clus g \<noteq> 0" and "12 \<le> unat fs" and "load_inv dst fs m0 data l"
  shows "\<exists>y. load_chain rd g dst fs c l s = Some y"
  using assms(3)
proof (induction "unat (l_remaining l)" arbitrary: c l s data rule: less_induct)
  case less
  show ?case
  proof (cases "l_remaining l \<noteq> 0 \<and> c < FAT_EOC")
    case False
    then show ?thesis by (subst load_chain.simps) auto
  next
    case True
    obtain r1 l1 s1 where lc:
      "load_cluster (unat (sec_per_clus g)) rd dst fs (cluster_lba g c) l s = (r1, l1, s1)"
      by (cases "load_cluster (unat (sec_per_clus g)) rd dst fs (cluster_lba g c) l s") auto
    from load_cluster_inv [OF lc less.prems assms(2), THEN conjunct2] obtain new where
      new: "load_inv dst fs m0 (data @ new) l1 \<and>
        (r1 = None \<longrightarrow> 0 < unat (sec_per_clus g) \<longrightarrow> l_remaining l \<noteq> 0 \<longrightarrow> new \<noteq> [])"
      by (rule exE)
    note inv1 = new [THEN conjunct1] and dec = new [THEN conjunct2]
    have smaller: "unat (l_remaining l1) < unat (l_remaining l)" if "r1 = None"
    proof -
      have "0 < unat (sec_per_clus g)" using assms(1) by (metis gr0I unat_eq_0)
      with that True dec have "0 < length new" by simp
      then show ?thesis
        using load_inv_length [OF less.prems] load_inv_length [OF inv1] by (cases new) simp_all
    qed
    have go: "r1 = None \<Longrightarrow> \<exists>y. load_chain rd g dst fs c' l1 s2 = Some y" for c' s2
      using less.hyps [OF smaller inv1] by blast
    show ?thesis
    proof (cases r1)
      case (Some rc)
      with True lc show ?thesis by (subst load_chain.simps) simp
    next
      case None
      obtain r2 s2 where nc: "next_cluster rd g c s1 = (r2, s2)"
        by (cases "next_cluster rd g c s1")
      have "load_chain rd g dst fs c l s =
          (if l_remaining l1 \<noteq> 0 then
             (case r2 of None \<Rightarrow> Some (Some FB_EREAD, l1, s2)
              | Some c' \<Rightarrow> load_chain rd g dst fs c' l1 s2)
           else load_chain rd g dst fs c l1 s1)"
        using True lc nc None by (subst load_chain.simps) simp
      then show ?thesis using go [OF None] by (cases r2) auto
    qed
  qed
qed

end

section \<open>What is on the disk\<close>

text \<open>
  The specification side: \<open>disk\<close> gives the contents of every sector of the card. \<open>fat_next\<close> is the
  FAT entry, \<open>cluster_bytes\<close> a cluster's data and \<open>chain_bytes\<close> the data of the first
  \<open>n\<close> clusters of a chain.
\<close>

definition fat_next :: "fat_geom \<Rightarrow> (u32 \<Rightarrow> u8 list) \<Rightarrow> u32 \<Rightarrow> u32" where
  "fat_next g disk c =
     rd32 (disk (fat_lba g + (c * 4) div 512)) (unat ((c * 4) AND 511)) AND 0x0FFFFFFF"

fun sectors :: "(u32 \<Rightarrow> u8 list) \<Rightarrow> u32 \<Rightarrow> nat \<Rightarrow> u8 list" where
  "sectors disk lba 0 = []"
| "sectors disk lba (Suc n) = disk lba @ sectors disk (lba + 1) n"

definition cluster_bytes :: "fat_geom \<Rightarrow> (u32 \<Rightarrow> u8 list) \<Rightarrow> u32 \<Rightarrow> u8 list" where
  "cluster_bytes g disk c = sectors disk (cluster_lba g c) (unat (sec_per_clus g))"

fun chain_bytes :: "nat \<Rightarrow> fat_geom \<Rightarrow> (u32 \<Rightarrow> u8 list) \<Rightarrow> u32 \<Rightarrow> u8 list" where
  "chain_bytes 0 g disk c = []"
| "chain_bytes (Suc n) g disk c =
     (if c < FAT_EOC then cluster_bytes g disk c @ chain_bytes n g disk (fat_next g disk c) else [])"

context card_reader begin

lemma load_cluster_contents:
  assumes "load_cluster k rd dst fs lba l s = (None, l', s')" and "load_inv dst fs m0 data l"
    and "12 \<le> unat fs" and "ready s"
  shows "ready s' \<and>
    load_inv dst fs m0 (data @ take (unat (l_remaining l)) (sectors disk lba k)) l'"
  using assms(1,2,4)
proof (induction k arbitrary: lba l s data)
  case 0
  then show ?case by simp
next
  case (Suc k)
  show ?case
  proof (cases "l_remaining l = 0")
    case True
    with Suc.prems show ?thesis by auto
  next
    case False
    from Suc.prems(1) False obtain l1 s1 where
      st: "load_sector rd dst fs lba l s = (None, l1, s1)"
      and go: "load_cluster k rd dst fs (lba + 1) l1 s1 = (None, l', s')"
      by (auto split: prod.splits option.splits)
    from st obtain sector where rd: "rd lba s = (Some sector, s1)"
      by (auto simp: load_sector_def Let_def split: prod.splits option.splits sum.splits if_splits)
    have len: "length sector = 512" using rd by (rule sector_size)
    have sec: "sector = disk lba" and rdy: "ready s1"
      using contents [OF Suc.prems(3) rd] ready_step [OF Suc.prems(3) rd] by auto
    have inv1: "load_inv dst fs m0 (data @ take (unat (l_remaining l)) (disk lba)) l1"
      using load_sector_inv [where rd = rd, OF Suc.prems(2) False assms(3) rd len] st sec by blast
    have rem1: "unat (l_remaining l1) = unat (l_remaining l) - length (disk lba)"
      using load_inv_length [OF Suc.prems(2)] load_inv_length [OF inv1] by simp
    show ?thesis
      using Suc.IH [OF go inv1 rdy] by (simp add: rem1)
  qed
qed

lemma next_cluster_card:
  assumes "next_cluster rd g c s = (Some c', s')" and "ready s"
  shows "c' = fat_next g disk c \<and> ready s'"
proof -
  from assms(1) obtain sector where rd: "rd (fat_lba g + (c * 4) div 512) s = (Some sector, s')"
    and "c' = rd32 sector (unat ((c * 4) AND 511)) AND 0x0FFFFFFF"
    by (auto simp: next_cluster_def split: prod.splits option.splits)
  with contents [OF assms(2) rd] ready_step [OF assms(2) rd] show ?thesis
    by (simp add: fat_next_def)
qed

text \<open>A load that ends without an error has copied a prefix of the file's chain.\<close>

lemma load_chain_contents:
  assumes "load_chain rd g dst fs c l s = Some (None, l', s')" and "load_inv dst fs m0 data l"
    and "12 \<le> unat fs" and "ready s"
  shows "\<exists>n. load_inv dst fs m0
    (data @ take (unat (l_remaining l)) (chain_bytes n g disk c)) l'"
proof -
  have "\<forall>data. fst (None :: fatboot_rc option, l', s') = None \<longrightarrow> ready s \<longrightarrow> load_inv dst fs m0 data l \<longrightarrow> 12 \<le> unat fs \<longrightarrow>
      (\<exists>n. load_inv dst fs m0
         (data @ take (unat (l_remaining l)) (chain_bytes n g disk c)) (fst (snd (None :: fatboot_rc option, l', s'))))"
  proof (rule load_chain.raw_induct [where
        P = "\<lambda>rd' g dst fs c l s y. rd' = rd \<longrightarrow>
          (\<forall>data. fst y = None \<longrightarrow> ready s \<longrightarrow> load_inv dst fs m0 data l \<longrightarrow> 12 \<le> unat fs \<longrightarrow>
           (\<exists>n. load_inv dst fs m0
              (data @ take (unat (l_remaining l)) (chain_bytes n g disk c)) (fst (snd y))))",
        OF _ assms(1), THEN mp, OF _ refl], goal_cases)
    case (1 chain rd' g dst fs c l s y)
    show ?case
    proof (intro impI allI)
      fix data
      assume eqs: "rd' = rd" and y: "fst y = None" and inv: "load_inv dst fs m0 data l"
        and fs: "12 \<le> unat fs" and rdy: "ready s"
      show "\<exists>n. load_inv dst fs m0
          (data @ take (unat (l_remaining l)) (chain_bytes n g disk c)) (fst (snd y))"
      proof (cases "l_remaining l \<noteq> 0 \<and> c < FAT_EOC")
        case False
        with 1(2) have "y = (None, l, s)" by (auto split: if_splits)
        with inv show ?thesis by (auto intro: exI [of _ 0])
      next
        case True
        obtain r1 l1 s1 where lc:
          "load_cluster (unat (sec_per_clus g)) rd dst fs (cluster_lba g c) l s = (r1, l1, s1)"
          by (cases "load_cluster (unat (sec_per_clus g)) rd dst fs (cluster_lba g c) l s") auto
        with 1(2) True y eqs have r1: "r1 = None" by (cases r1) auto
        define cb where "cb = cluster_bytes g disk c"
        from load_cluster_contents [OF lc [unfolded r1] inv fs rdy]
        have rdy1: "ready s1" and inv1: "load_inv dst fs m0 (data @ take (unat (l_remaining l)) cb) l1"
          by (simp_all add: cb_def cluster_bytes_def)
        have rem1: "unat (l_remaining l1) = unat (l_remaining l) - length cb"
          using load_inv_length [OF inv] load_inv_length [OF inv1] by simp
        show ?thesis
        proof (cases "l_remaining l1 = 0")
          case True2: True
          with 1(2) True lc r1 eqs y have "chain rd g dst fs c l1 s1 = Some y"
            by simp
          from 1(1) [OF this] inv1 True2 y fs rdy1
          have "load_inv dst fs m0 (data @ take (unat (l_remaining l)) cb) (fst (snd y))"
            by fastforce
          then show ?thesis using True by (auto intro!: exI [of _ "Suc 0"] simp: cb_def)
        next
          case False2: False
          with 1(2) True lc r1 eqs y obtain c' s2 where
            nc: "next_cluster rd g c s1 = (Some c', s2)"
            and go: "chain rd g dst fs c' l1 s2 = Some y"
            by (auto split: prod.splits option.splits)
          from 1(1) [OF go] inv1 y fs next_cluster_card [OF nc rdy1] obtain n where
            "load_inv dst fs m0 ((data @ take (unat (l_remaining l)) cb)
               @ take (unat (l_remaining l1)) (chain_bytes n g disk c')) (fst (snd y))"
            by blast
          then have "load_inv dst fs m0
              (data @ take (unat (l_remaining l)) (chain_bytes (Suc n) g disk c)) (fst (snd y))"
            using True next_cluster_card [OF nc rdy1] by (simp add: rem1 cb_def)
          then show ?thesis by blast
        qed
      qed
    qed
  qed
  with assms(2-4) show ?thesis by simp
qed

end

context ideal_card begin

lemma readE:
  assumes "ready s"
  obtains s' where "rd lba s = (Some (disk lba), s')" "ready s'"
proof -
  from answers [OF assms, of lba] obtain bs s' where rd: "rd lba s = (Some bs, s')"
    by (cases "rd lba s") auto
  show thesis
    using that rd contents [OF assms rd] ready_step [OF assms rd] by simp
qed

lemma next_cluster_ideal:
  assumes "ready s"
  obtains s' where "next_cluster rd g c s = (Some (fat_next g disk c), s')" "ready s'"
  by (rule readE [OF assms, of "fat_lba g + (c * 4) div 512"])
    (simp add: next_cluster_def fat_next_def)

text \<open>Only a ready state shows how long the sectors are.\<close>

lemma length_disk: "ready s \<Longrightarrow> length (disk lba) = 512"
  by (metis readE sector_size)

lemma length_sectors: "ready s \<Longrightarrow> length (sectors disk lba n) = 512 * n"
  by (induction n arbitrary: lba) (simp_all add: length_disk)

lemma load_sector_complete:
  assumes rdy: "ready s" and inv: "load_inv dst fs m0 data l"
    and header: "data = [] \<Longrightarrow> \<exists>x. check_header dst fs (disk lba) = Inr x"
  shows "\<exists>l' s'. load_sector rd dst fs lba l s = (None, l', s')"
proof -
  obtain s1 where rd: "rd lba s = (Some (disk lba), s1)" using readE [OF rdy] .
  have "l_file_off l = 0 \<longleftrightarrow> data = []"
    using inv by (auto simp: load_inv_def unat_eq_0)
  then show ?thesis
    by (cases "data = []") (use header rd in \<open>auto simp: load_sector_def Let_def\<close>)
qed

lemma load_cluster_complete:
  assumes fs: "12 \<le> unat fs" and "ready s" and "load_inv dst fs m0 data l"
    and "data = [] \<Longrightarrow> \<exists>x. check_header dst fs (disk lba) = Inr x"
  shows "\<exists>l' s'. load_cluster k rd dst fs lba l s = (None, l', s')"
  using assms(2-4)
proof (induction k arbitrary: lba l s data)
  case 0
  then show ?case by simp
next
  case (Suc k)
  show ?case
  proof (cases "l_remaining l = 0")
    case True
    then show ?thesis by simp
  next
    case False
    obtain l1 s1 where st: "load_sector rd dst fs lba l s = (None, l1, s1)"
      using load_sector_complete [OF Suc.prems] by blast
    obtain s2 where rd: "rd lba s = (Some (disk lba), s2)" and rdy2: "ready s2"
      using readE [OF Suc.prems(1)] .
    define new where "new = data @ take (unat (l_remaining l)) (disk lba)"
    have inv1: "load_inv dst fs m0 new l1" and "s1 = s2"
      unfolding new_def
      using load_sector_inv [where rd = rd,
          OF Suc.prems(2) False fs rd length_disk [OF Suc.prems(1)] st] by blast+
    with rdy2 have rdy1: "ready s1" by simp
    have "new \<noteq> []"
      using False length_disk [OF Suc.prems(1), of lba] by (auto simp: new_def unat_eq_0)
    then obtain l' s' where "load_cluster k rd dst fs (lba + 1) l1 s1 = (None, l', s')"
      using Suc.IH [OF rdy1 inv1] by blast
    with st False show ?thesis by simp
  qed
qed

text \<open>On a card that answers every read, a long enough chain is loaded to its end.\<close>

lemma load_chain_complete:
  assumes fs: "12 \<le> unat fs" and spc: "sec_per_clus g \<noteq> 0"
    and "ready s" and "load_inv dst fs m0 data l"
    and "unat (l_remaining l) \<le> length (chain_bytes n g disk c)"
    and "data = [] \<Longrightarrow> \<exists>x. check_header dst fs (disk (cluster_lba g c)) = Inr x"
  shows "\<exists>l' s'. load_chain rd g dst fs c l s = Some (None, l', s') \<and> l_remaining l' = 0"
  using assms(3-6)
proof (induction n arbitrary: c l s data)
  case 0
  then have "l_remaining l = 0" by (simp add: unat_eq_0)
  then show ?case by (subst load_chain.simps) simp
next
  case (Suc n)
  show ?case
  proof (cases "l_remaining l = 0")
    case True
    then show ?thesis by (subst load_chain.simps) simp
  next
    case False
    with Suc.prems(3) have c: "c < FAT_EOC" by (cases "c < FAT_EOC") (simp_all add: unat_eq_0)
    obtain l1 s1 where lc:
      "load_cluster (unat (sec_per_clus g)) rd dst fs (cluster_lba g c) l s = (None, l1, s1)"
      using load_cluster_complete [OF fs Suc.prems(1,2,4)] by blast
    define cb where "cb = cluster_bytes g disk c"
    have inv1: "load_inv dst fs m0 (data @ take (unat (l_remaining l)) cb) l1" and rdy1: "ready s1"
      using load_cluster_contents [OF lc Suc.prems(2) fs Suc.prems(1)]
      by (simp_all add: cb_def cluster_bytes_def)
    have rem1: "unat (l_remaining l1) = unat (l_remaining l) - length cb"
      using load_inv_length [OF Suc.prems(2)] load_inv_length [OF inv1] by simp
    have "0 < unat (sec_per_clus g)" using spc by (metis gr0I unat_eq_0)
    then have "cb \<noteq> []"
      using length_sectors [OF Suc.prems(1), of "cluster_lba g c" "unat (sec_per_clus g)"]
      by (auto simp: cb_def cluster_bytes_def)
    then have new: "data @ take (unat (l_remaining l)) cb \<noteq> []" using False by (simp add: unat_eq_0)
    show ?thesis
    proof (cases "l_remaining l1 = 0")
      case True
      then have "load_chain rd g dst fs c l1 s1 = Some (None, l1, s1)"
        by (subst load_chain.simps) simp
      with False c lc True show ?thesis by (subst load_chain.simps) simp
    next
      case rem: False
      obtain s2 where nc: "next_cluster rd g c s1 = (Some (fat_next g disk c), s2)"
        and rdy2: "ready s2" using next_cluster_ideal [OF rdy1] .
      have "unat (l_remaining l1) \<le> length (chain_bytes n g disk (fat_next g disk c))"
        using Suc.prems(3) rem1 c by (simp add: cb_def)
      from Suc.IH [OF rdy2 inv1 this] new obtain l' s' where
        "load_chain rd g dst fs (fat_next g disk c) l1 s2 = Some (None, l', s')"
        "l_remaining l' = 0" by blast
      with False c lc rem nc show ?thesis by (subst load_chain.simps) simp
    qed
  qed
qed

end

section \<open>The directory search\<close>

text \<open>
  The specification of the search: the first entry for BOOT.BIN in the first \<open>n\<close> clusters of
  the root directory. \<open>None\<close> says that \<open>n\<close> clusters were not enough, \<open>Some None\<close> that the
  directory ended without a hit.
\<close>

fun dir_hit :: "(u32 \<Rightarrow> u8 list) \<Rightarrow> u32 \<Rightarrow> nat \<Rightarrow> (u32 \<times> u32) option" where
  "dir_hit disk lba 0 = None"
| "dir_hit disk lba (Suc n) =
     (case scan_sector (disk lba) of Some h \<Rightarrow> Some h | None \<Rightarrow> dir_hit disk (lba + 1) n)"

definition cluster_hit :: "fat_geom \<Rightarrow> (u32 \<Rightarrow> u8 list) \<Rightarrow> u32 \<Rightarrow> (u32 \<times> u32) option" where
  "cluster_hit g disk c = dir_hit disk (cluster_lba g c) (unat (sec_per_clus g))"

fun dir_lookup ::
    "nat \<Rightarrow> fat_geom \<Rightarrow> (u32 \<Rightarrow> u8 list) \<Rightarrow> u32 \<Rightarrow> (u32 \<times> u32) option option" where
  "dir_lookup 0 g disk c = None"
| "dir_lookup (Suc n) g disk c =
     (if c < FAT_EOC then
        (case cluster_hit g disk c of
           Some h \<Rightarrow> Some (Some h)
         | None \<Rightarrow> dir_lookup n g disk (fat_next g disk c))
      else Some None)"

context ideal_card begin

lemma scan_cluster_ideal:
  assumes "ready s" and nonempty: "\<And>fs. dir_hit disk lba n \<noteq> Some (0, fs)"
  shows "\<exists>s'. ready s' \<and> scan_cluster n rd lba (c, 0, 0) s =
    (Inr (case dir_hit disk lba n of None \<Rightarrow> (c, 0, 0) | Some (fc, fs) \<Rightarrow> (0x0FFFFFFF, fc, fs)), s')"
  using assms
proof (induction n arbitrary: lba s)
  case 0
  then show ?case by simp
next
  case (Suc n)
  obtain s1 where rd: "rd lba s = (Some (disk lba), s1)" and rdy1: "ready s1"
    using readE [OF Suc.prems(1)] .
  show ?case
  proof (cases "scan_sector (disk lba)")
    case None
    with Suc.prems have "\<And>fs. dir_hit disk (lba + 1) n \<noteq> Some (0, fs)" by simp
    from Suc.IH [OF rdy1 this] None rd show ?thesis by simp
  next
    case (Some h)
    with Suc.prems obtain fc fs where "h = (fc, fs)" "fc \<noteq> 0" by (cases h) auto
    with Some rd rdy1 show ?thesis by (simp add: Let_def)
  qed
qed

lemma root_scan_ideal:
  assumes "ready s"
    and "dir_lookup n g disk c = Some r" and "\<And>fs. r \<noteq> Some (0, fs)"
  shows "\<exists>s'. ready s' \<and> root_scan rd g (c, 0, 0) s = Some (Inr (case r of None \<Rightarrow> (0, 0) | Some h \<Rightarrow> h), s')"
  using assms(1,2)
proof (induction n arbitrary: c s)
  case 0
  then show ?case by simp
next
  case (Suc n)
  show ?case
  proof (cases "c < FAT_EOC")
    case False
    with Suc.prems show ?thesis by (subst root_scan.simps) simp
  next
    case True
    have ne: "cluster_hit g disk c \<noteq> Some (0, fs)" for fs
      using Suc.prems True assms(3) by (auto split: option.splits)
    obtain s1 where rdy1: "ready s1" and
      sc: "scan_cluster (unat (sec_per_clus g)) rd (cluster_lba g c) (c, 0, 0) s =
        (Inr (case cluster_hit g disk c of None \<Rightarrow> (c, 0, 0) | Some (fc, fs) \<Rightarrow> (0x0FFFFFFF, fc, fs)), s1)"
      using scan_cluster_ideal [OF Suc.prems(1), of "cluster_lba g c" "unat (sec_per_clus g)" c] ne
      by (auto simp: cluster_hit_def)
    show ?thesis
    proof (cases "cluster_hit g disk c")
      case None
      obtain s2 where nc: "next_cluster rd g c s1 = (Some (fat_next g disk c), s2)"
        and rdy2: "ready s2" using next_cluster_ideal [OF rdy1] .
      have "dir_lookup n g disk (fat_next g disk c) = Some r"
        using Suc.prems True None by simp
      from Suc.IH [OF rdy2 this] obtain s' where
        "ready s'" "root_scan rd g (fat_next g disk c, 0, 0) s2 =
           Some (Inr (case r of None \<Rightarrow> (0, 0) | Some h \<Rightarrow> h), s')" by blast
      with True None sc nc show ?thesis by (subst root_scan.simps) simp
    next
      case (Some h)
      with ne obtain fc fs where h: "h = (fc, fs)" "fc \<noteq> 0" by (cases h) auto
      from Suc.prems True Some h have r: "r = Some (fc, fs)" by simp
      have "scan_cluster (unat (sec_per_clus g)) rd (cluster_lba g c) (c, 0, 0) s =
          (Inr (0x0FFFFFFF, fc, fs), s1)"
        using sc Some h(1) by (simp only: option.case prod.case)
      with True h(2) r rdy1 show ?thesis by (subst root_scan.simps) simp
    qed
  qed
qed

text \<open>A cyclic root directory without BOOT.BIN: the search never returns.\<close>

lemma root_scan_diverges:
  assumes rdy: "ready s"
    and closed: "\<And>c. c \<in> C \<Longrightarrow> c < FAT_EOC \<and> cluster_hit g disk c = None \<and> fat_next g disk c \<in> C"
    and "c \<in> C"
  shows "root_scan rd g (c, 0, 0) s = None"
proof (cases "root_scan rd g (c, 0, 0) s")
  case (Some y)
  have "rd = rd \<longrightarrow> g = g \<longrightarrow> ready s \<longrightarrow> fst (c, 0 :: u32, 0 :: u32) \<in> C \<longrightarrow>
      snd (c, 0 :: u32, 0 :: u32) = (0, 0) \<longrightarrow> False"
  proof (rule root_scan.raw_induct [where
        P = "\<lambda>rd' g' q s y. rd' = rd \<longrightarrow> g' = g \<longrightarrow> ready s \<longrightarrow> fst q \<in> C \<longrightarrow> snd q = (0, 0) \<longrightarrow> False",
        OF _ Some], goal_cases)
    case (1 scan rd' g' q s y)
    show ?case
    proof (intro impI)
      assume eqs: "rd' = rd" "g' = g" and rdy: "ready s" and q: "fst q \<in> C" "snd q = (0, 0)"
      define c where "c = fst q"
      have qc: "q = (c, 0, 0)" using q by (simp add: c_def prod_eq_iff)
      from closed [OF q(1)] have c: "c < FAT_EOC" "cluster_hit g disk c = None"
        "fat_next g disk c \<in> C" by (simp_all add: c_def)
      obtain s1 where rdy1: "ready s1" and sc:
        "scan_cluster (unat (sec_per_clus g)) rd (cluster_lba g c) (c, 0, 0) s = (Inr (c, 0, 0), s1)"
        using scan_cluster_ideal [OF rdy, of "cluster_lba g c" "unat (sec_per_clus g)" c] c(2)
        by (auto simp: cluster_hit_def)
      obtain s2 where nc: "next_cluster rd g c s1 = (Some (fat_next g disk c), s2)"
        and rdy2: "ready s2" using next_cluster_ideal [OF rdy1] .
      have "scan rd g (fat_next g disk c, 0, 0) s2 = Some y"
        using 1(2) c sc nc by (simp add: eqs qc)
      from 1(1) [OF this] rdy2 c(3) show False by simp
    qed
  qed
  with assms(1,3) show ?thesis by simp
qed

end

text \<open>
  An empty BOOT.BIN has first cluster 0: the search does not stop with "no such file" but
  goes on to read the FAT sector of cluster \<open>0x0FFFFFFF\<close>.
\<close>

lemma root_scan_empty_file:
  assumes "c < FAT_EOC" and "sec_per_clus g = 1"
    and "rd (cluster_lba g c) s = (Some sector, s1)" and "scan_sector sector = Some (0, fs)"
    and "rd (fat_lba g + 0x1FFFFF) s1 = (None, s2)"
  shows "root_scan rd g (c, 0, 0) s = Some (Inl FB_EREAD, s2)"
  using assms by (subst root_scan.simps) (simp add: next_cluster_def)

section \<open>Properties of the loader\<close>

text \<open>The geometry a card announces, and the errors of the mount step.\<close>

context ideal_card begin

lemma fat_mount_ideal:
  assumes "ready s" and bps: "rd16 (disk (fat_part_lba (disk 0))) 11 = 512"
  shows "\<exists>s'. ready s' \<and> fat_mount rd s =
    (Inr (fat_geom_of (fat_part_lba (disk 0)) (disk (fat_part_lba (disk 0)))), s')"
proof -
  obtain s1 where "rd 0 s = (Some (disk 0), s1)" and "ready s1" using readE [OF assms(1)] .
  moreover obtain s2 where "rd (fat_part_lba (disk 0)) s1 =
    (Some (disk (fat_part_lba (disk 0))), s2)" and "ready s2" using readE [OF \<open>ready s1\<close>] .
  ultimately show ?thesis using bps by (simp add: fat_mount_def)
qed

end

context block_device begin

text \<open>The three ways \<open>load_file\<close> ends, as seen from the invariant.\<close>

lemma load_file_cases:
  assumes "load_file rd g dst fc fs m s = Some (rc, sz, m', s')"
  obtains "rc = FB_EIMAGE" "sz = None" "m' = m" "fs < 12"
  | l data where "12 \<le> fs" "load_inv dst fs m data l" "m' = l_mem l" "rc \<noteq> FB_OK"
  | l where "12 \<le> fs" "load_chain rd g dst fs fc (load_init dst fs m) s = Some (None, l, s')"
      "rc = FB_OK" "l_remaining l = 0" "m' = l_mem l" "sz = Some (l_text_size l + l_data_size l)"
proof (cases "fs < 12")
  case True
  with assms that(1) show thesis by (simp add: load_file_def)
next
  case False
  then have fs: "12 \<le> fs" "12 \<le> unat fs" by (auto simp: word_le_nat_alt word_less_nat_alt)
  obtain r l s1 where lc: "load_chain rd g dst fs fc (load_init dst fs m) s = Some (r, l, s1)"
    using assms False by (cases "load_chain rd g dst fs fc (load_init dst fs m) s")
      (auto simp: load_file_def)
  obtain data where inv: "load_inv dst fs m data l" and r: "r \<noteq> Some FB_OK"
    using load_chain_inv [OF lc load_inv_init fs(2)] by auto
  show thesis
  proof (cases r)
    case None
    with assms False lc that(3) [OF fs(1)] that(2) [OF fs(1) inv] show thesis
      by (auto simp: load_file_def split: if_splits)
  next
    case (Some e)
    with assms False lc r that(2) [OF fs(1) inv] show thesis by (auto simp: load_file_def)
  qed
qed

lemma load_file_frame:
  assumes "load_file rd g dst fc fs m s = Some (rc, sz, m', s')" and "m' a \<noteq> m a"
  shows "0x80000000 \<le> unat dst \<and> unat dst \<le> unat a \<and> unat a < 0x87000000"
  using assms(1)
proof (cases rule: load_file_cases)
  case 1
  with assms(2) show ?thesis by simp
next
  case (2 l data)
  with load_inv_frame [of dst fs m data l a] assms(2) show ?thesis by auto
next
  case (3 l)
  from 3(1) have "12 \<le> unat fs" by (simp add: word_le_nat_alt)
  from load_chain_inv [OF 3(2) load_inv_init this] obtain data where
    "load_inv dst fs m data l" by auto
  with load_inv_frame [of dst fs m data l a] 3 assms(2) show ?thesis by auto
qed

end

context card_reader begin

text \<open>Success means that memory holds the file after its header, and only that changed.\<close>

lemma load_file_ok:
  assumes ret: "load_file rd g dst fc fs m s = Some (FB_OK, sz, m', s')"
    and rdy: "ready s"
  shows "\<exists>n. unat fs \<le> length (chain_bytes n g disk fc) \<and>
    sz = Some (fs - 12) \<and>
    rd32 (chain_bytes n g disk fc) 0 = BOOT_IMAGE_MAGIC \<and>
    m' = store_bytes dst (drop 12 (take (unat fs) (chain_bytes n g disk fc))) m"
  using ret
proof (cases rule: load_file_cases)
  case (3 l)
  from 3(1) have fs: "12 \<le> unat fs" by (simp add: word_le_nat_alt)
  from load_chain_contents [OF 3(2) load_inv_init fs rdy] obtain n where
    "load_inv dst fs m (take (unat fs) (chain_bytes n g disk fc)) l"
    by (auto simp: load_init_def)
  moreover define image where "image = take (unat fs) (chain_bytes n g disk fc)"
  ultimately have inv: "load_inv dst fs m image l" by simp
  have len: "length image = unat fs"
    using load_inv_length [OF inv] 3(4) by simp
  with inv fs have h: "check_header dst fs image = Inr (l_text_size l, l_data_size l)"
    and mem: "m' = store_bytes dst (drop 12 image) m"
    by (auto simp: load_inv_def 3(5))
  have "unat (l_text_size l + l_data_size l) = unat (fs - 12)"
    using check_header_OkD(5) [OF h] 3(1) by (simp add: unat_sub)
  then have sz: "sz = Some (fs - 12)" using 3(6) by (simp add: word_unat_eq_iff)
  have "rd32 (take 12 image) 0 = BOOT_IMAGE_MAGIC"
    using h by (auto simp: check_header_def split: sum.splits dest: parse_header_OkD(3))
  then have "rd32 (chain_bytes n g disk fc) 0 = BOOT_IMAGE_MAGIC"
    using fs by (simp add: rd32_def image_def)
  moreover have "unat fs \<le> length (chain_bytes n g disk fc)"
    using len by (simp add: image_def)
  ultimately show ?thesis
    using mem sz unfolding image_def by (intro exI [of _ n]) simp
qed auto

end

context ideal_card begin

lemma load_file_complete:
  assumes rdy: "ready s" and spc: "sec_per_clus g \<noteq> 0" and fs: "12 \<le> unat fs"
    and len: "unat fs \<le> length (chain_bytes n g disk fc)"
    and header: "check_header dst fs (disk (cluster_lba g fc)) = Inr x"
  shows "\<exists>sz m' s'. load_file rd g dst fc fs m s = Some (FB_OK, sz, m', s')"
proof -
  obtain l' s' where "load_chain rd g dst fs fc (load_init dst fs m) s = Some (None, l', s')"
      "l_remaining l' = 0"
    using load_chain_complete [OF fs spc rdy load_inv_init [of dst fs m], of n fc] len header
    by (auto simp: load_init_def)
  moreover have "\<not> fs < 12" using fs by (simp add: word_less_nat_alt)
  ultimately show ?thesis by (simp add: load_file_def)
qed

end

text \<open>
  The volume on the card, as its first sectors announce it, and the BOOT.BIN of its root
  directory: the first such entry in the directory's cluster chain.
\<close>

definition card_geom :: "(u32 \<Rightarrow> u8 list) \<Rightarrow> fat_geom" where
  "card_geom disk = fat_geom_of (fat_part_lba (disk 0)) (disk (fat_part_lba (disk 0)))"

definition boot_file :: "(u32 \<Rightarrow> u8 list) \<Rightarrow> u32 \<times> u32 \<Rightarrow> bool" where
  "boot_file disk q \<longleftrightarrow>
     (\<exists>n. dir_lookup n (card_geom disk) disk (root_cluster (card_geom disk)) = Some (Some q))"

text \<open>An entry of some sector of the card.\<close>

definition listed :: "(u32 \<Rightarrow> u8 list) \<Rightarrow> u32 \<times> u32 \<Rightarrow> bool" where
  "listed disk q \<longleftrightarrow> fst q = 0 \<or>
     (\<exists>lba off. off < 512 \<and> dir_entry_hit (disk lba) off \<and> dir_entry_file (disk lba) off = q)"

lemma scan_sector_listed: "scan_sector (disk lba) = Some q \<Longrightarrow> listed disk q"
proof -
  assume "scan_sector (disk lba) = Some q"
  then obtain off where f: "find (dir_entry_hit (disk lba)) (map (\<lambda>i. 32 * i) [0..<16]) = Some off"
    and q: "dir_entry_file (disk lba) off = q" by (auto simp: scan_sector_def)
  from f have "dir_entry_hit (disk lba) off" "off \<in> (\<lambda>i. 32 * i) ` {0..<16}"
    by (auto simp: find_Some_iff set_conv_nth)
  moreover from this(2) have "off < 512" by auto
  ultimately show "listed disk q" using q unfolding listed_def by blast
qed

context card_reader begin

lemma scan_cluster_listed:
  assumes "scan_cluster n rd lba q s = (r, s')" and "ready s" and "listed disk (snd q)"
  shows "ready s' \<and> (\<forall>q'. r = Inr q' \<longrightarrow> listed disk (snd q'))"
  using assms
proof (induction n arbitrary: lba q s)
  case (Suc n)
  obtain x s1 where rd: "rd lba s = (x, s1)" by (cases "rd lba s")
  have rdy1: "ready s1" using Suc.prems(2) rd by (rule ready_step)
  show ?case
  proof (cases x)
    case None
    with Suc.prems(1) rd rdy1 show ?thesis by auto
  next
    case (Some sector)
    with contents Suc.prems(2) rd have sec: "sector = disk lba" by blast
    define q1 where "q1 = (case scan_sector sector of
                      None \<Rightarrow> q | Some (fc, fs) \<Rightarrow> (0x0FFFFFFF, fc, fs))"
    have l1: "listed disk (snd q1)"
      using Suc.prems(3) scan_sector_listed [of disk lba]
      by (auto simp: q1_def sec split: option.splits)
    from Suc.prems(1) [unfolded scan_cluster.simps rd Some prod.case option.case Let_def
        q1_def [symmetric]]
    have "(if fst (snd q1) \<noteq> 0 then (Inr q1, s1) else scan_cluster n rd (lba + 1) q1 s1) = (r, s')"
      .
    then show ?thesis using l1 rdy1 Suc.IH [of "lba + 1" q1 s1] by (auto split: if_splits)
  qed
qed auto

lemma root_scan_listed:
  assumes "root_scan rd g q s = Some (Inr r, s')" and "ready s" and "listed disk (snd q)"
  shows "ready s' \<and> listed disk r"
proof -
  have "ready s \<longrightarrow> listed disk (snd q) \<longrightarrow> ready (snd (Inr r :: fatboot_rc + u32 \<times> u32, s')) \<and>
      (\<forall>r'. fst (Inr r :: fatboot_rc + u32 \<times> u32, s') = Inr r' \<longrightarrow> listed disk r')"
  proof (rule root_scan.raw_induct [where
        P = "\<lambda>rd' g q s y. rd' = rd \<longrightarrow> (ready s \<longrightarrow> listed disk (snd q) \<longrightarrow> ready (snd y) \<and>
          (\<forall>r'. fst y = Inr r' \<longrightarrow> listed disk r'))",
        OF _ assms(1), THEN mp, OF _ refl], goal_cases)
    case (1 scan rd' g q s y)
    show ?case
    proof (intro impI)
      assume eq: "rd' = rd" and rdy: "ready s" and l: "listed disk (snd q)"
      show "ready (snd y) \<and> (\<forall>r'. fst y = Inr r' \<longrightarrow> listed disk r')"
      proof (cases "fst q < FAT_EOC")
        case False
        with 1(2) rdy l show ?thesis by (auto split: if_splits)
      next
        case True
        obtain x s1 where sc:
          "scan_cluster (unat (sec_per_clus g)) rd (cluster_lba g (fst q)) q s = (x, s1)"
          by (cases "scan_cluster (unat (sec_per_clus g)) rd (cluster_lba g (fst q)) q s")
        note sl = scan_cluster_listed [OF sc rdy l]
        show ?thesis
        proof (cases x)
          case (Inl rc)
          with 1(2) True sc eq sl show ?thesis by auto
        next
          case (Inr q1)
          obtain z s2 where nc: "next_cluster rd g (fst q1) s1 = (z, s2)"
            by (cases "next_cluster rd g (fst q1) s1")
          have rdy2: "ready s2"
            using nc sl ready_step by (auto simp: next_cluster_def split: prod.splits option.splits)
          show ?thesis
          proof (cases "fst (snd q1) = 0")
            case False
            with 1(2) True sc eq sl Inr show ?thesis by auto
          next
            case z0: True
            show ?thesis
            proof (cases z)
              case None
              with 1(2) True sc eq Inr z0 nc rdy2 show ?thesis by auto
            next
              case (Some c)
              with 1(2) True sc eq Inr z0 nc have "scan rd g (c, snd q1) s2 = Some y" by simp
              from 1(1) [OF this] sl Inr rdy2 show ?thesis by simp
            qed
          qed
        qed
      qed
    qed
  qed
  with assms(2,3) show ?thesis by simp
qed

text \<open>
  Which entry it is: the search from cluster \<open>c\<close> returns the first entry for BOOT.BIN in the
  directory's cluster chain, unless that entry is an empty file with first cluster 0.
\<close>

lemma scan_cluster_first:
  assumes "scan_cluster n rd lba (c, 0, 0) s = (Inr q, s')" and "ready s"
  shows "ready s' \<and> (case dir_hit disk lba n of
      None \<Rightarrow> q = (c, 0, 0)
    | Some (fc, fs) \<Rightarrow> fc = 0 \<or> q = (0x0FFFFFFF, fc, fs))"
  using assms
proof (induction n arbitrary: lba s)
  case (Suc n)
  have ready: "ready s'"
    using scan_cluster_listed [OF Suc.prems] by (simp add: listed_def)
  obtain x s1 where rd: "rd lba s = (x, s1)" by (cases "rd lba s")
  have rdy1: "ready s1" using Suc.prems(2) rd by (rule ready_step)
  from Suc.prems(1) rd obtain sector where x: "x = Some sector" by (cases x) auto
  with contents Suc.prems(2) rd have sec: "sector = disk lba" by blast
  show ?case
  proof (cases "scan_sector (disk lba)")
    case None
    with Suc.prems(1) rd x sec Suc.IH [of "lba + 1" s1] rdy1 show ?thesis by simp
  next
    case (Some h)
    with Suc.prems(1) rd x sec ready show ?thesis
      by (cases h) (auto simp: Let_def split: if_splits)
  qed
qed auto

lemma root_scan_first:
  assumes "root_scan rd g (c, 0, 0) s = Some (Inr (fc, fs), s')" and "ready s" and "fc \<noteq> 0"
  shows "\<exists>j. dir_lookup j g disk c = Some (Some (fc, fs)) \<or>
    (\<exists>fs0. dir_lookup j g disk c = Some (Some (0, fs0)))"
proof -
  let ?found = "\<lambda>c r. \<exists>j. dir_lookup j g disk c = Some (Some r) \<or>
    (\<exists>fs0. dir_lookup j g disk c = Some (Some (0, fs0)))"
  have "ready s \<longrightarrow> snd (c, 0 :: u32, 0 :: u32) = (0, 0) \<longrightarrow>
      (\<forall>r. fst (Inr (fc, fs) :: fatboot_rc + u32 \<times> u32, s') = Inr r \<longrightarrow> fst r \<noteq> 0 \<longrightarrow>
        ?found (fst (c, 0 :: u32, 0 :: u32)) r)"
  proof (rule root_scan.raw_induct [where
        P = "\<lambda>rd' g' q s y. rd' = rd \<longrightarrow> g' = g \<longrightarrow> (ready s \<longrightarrow> snd q = (0, 0) \<longrightarrow>
          (\<forall>r. fst y = Inr r \<longrightarrow> fst r \<noteq> 0 \<longrightarrow> ?found (fst q) r))",
        OF _ assms(1), THEN mp, THEN mp, OF _ refl refl], goal_cases)
    case (1 scan rd' g' q s y)
    show ?case
    proof (intro impI allI)
      fix r
      assume eqs: "rd' = rd" "g' = g" and rdy: "ready s" and z: "snd q = (0, 0)"
        and y: "fst y = Inr r" and nz: "fst r \<noteq> 0"
      define c where "c = fst q"
      have q: "q = (c, 0, 0)" using z by (simp add: c_def prod_eq_iff)
      have c: "c < FAT_EOC" using 1(2) y nz q by (auto split: if_splits)
      obtain x s1 where sc:
        "scan_cluster (unat (sec_per_clus g)) rd (cluster_lba g c) (c, 0, 0) s = (x, s1)"
        by (cases "scan_cluster (unat (sec_per_clus g)) rd (cluster_lba g c) (c, 0, 0) s")
      from 1(2) c sc y obtain q1 where x: "x = Inr q1" by (cases x) (auto simp: eqs q)
      note first = scan_cluster_first [OF sc [unfolded x] rdy, folded cluster_hit_def]
      show "?found (fst q) r"
      proof (cases "cluster_hit g disk c")
        case None
        with first have q1: "q1 = (c, 0, 0)" and rdy1: "ready s1" by simp_all
        obtain w s2 where nc: "next_cluster rd g c s1 = (w, s2)"
          by (cases "next_cluster rd g c s1")
        from 1(2) c sc y x nc obtain c' where w: "w = Some c'" by (cases w) (auto simp: eqs q q1)
        with 1(2) c sc x nc have "scan rd g (c', 0, 0) s2 = Some y" by (simp add: eqs q q1)
        from 1(1) [OF this] y nz next_cluster_card [OF nc [unfolded w] rdy1]
        have "?found (fat_next g disk c) r" by simp
        then obtain j where "dir_lookup j g disk (fat_next g disk c) = Some (Some r) \<or>
          (\<exists>fs0. dir_lookup j g disk (fat_next g disk c) = Some (Some (0, fs0)))" ..
        with c None show ?thesis by (intro exI [of _ "Suc j"]) (simp add: q)
      next
        case (Some h)
        obtain hc hs where h: "h = (hc, hs)" by (cases h)
        have "hc = 0 \<or> q1 = (0x0FFFFFFF, hc, hs)" using first Some h by simp
        then have "hc = 0 \<or> r = h" using 1(2) c sc x y h by (auto simp: eqs q split: if_splits)
        with c Some h show ?thesis by (intro exI [of _ "Suc 0"]) (auto simp: q)
      qed
    qed
  qed
  with assms(2,3) show ?thesis by simp
qed

end

text \<open>The only error of the search is a failed read.\<close>

lemma scan_cluster_error: "scan_cluster n rd lba q s = (Inl rc, s') \<Longrightarrow> rc = FB_EREAD"
  by (induction n arbitrary: lba q s)
    (auto simp: Let_def split: prod.splits option.splits if_splits)

lemma root_scan_error:
  assumes "root_scan rd g q s = Some (Inl rc, s')"
  shows "rc = FB_EREAD"
proof -
  have "fst (Inl rc :: fatboot_rc + u32 \<times> u32, s') = Inl rc \<longrightarrow> rc = FB_EREAD"
  proof (rule root_scan.raw_induct [where
        P = "\<lambda>rd g q s y. fst y = Inl rc \<longrightarrow> rc = FB_EREAD", OF _ assms], goal_cases)
    case (1 scan rd g q s y)
    obtain x s1 where sc:
      "scan_cluster (unat (sec_per_clus g)) rd (cluster_lba g (fst q)) q s = (x, s1)"
      by (cases "scan_cluster (unat (sec_per_clus g)) rd (cluster_lba g (fst q)) q s")
    then show ?case
    proof (cases x)
      case (Inl e)
      with 1(2) sc scan_cluster_error [OF sc [unfolded Inl]] show ?thesis
        by (auto split: if_splits)
    next
      case (Inr q1)
      obtain z s2 where "next_cluster rd g (fst q1) s1 = (z, s2)"
        by (cases "next_cluster rd g (fst q1) s1")
      with 1 sc Inr show ?thesis by (cases z) (auto split: if_splits)
    qed
  qed
  then show ?thesis by simp
qed

lemma chain_bytes_prefix:
  "n \<le> k \<Longrightarrow> \<exists>t. chain_bytes k g disk c = chain_bytes n g disk c @ t"
proof (induction n arbitrary: k c)
  case (Suc n)
  then obtain k' where "k = Suc k'" "n \<le> k'" by (cases k) auto
  with Suc.IH [of k' "fat_next g disk c"] show ?case by auto
qed simp

lemma take_chain_bytes:
  assumes "m \<le> length (chain_bytes n g disk c)" and "m \<le> length (chain_bytes k g disk c)"
  shows "take m (chain_bytes n g disk c) = take m (chain_bytes k g disk c)"
proof (cases "n \<le> k")
  case True
  with chain_bytes_prefix [OF this, of g disk c] assms show ?thesis by auto
next
  case False
  then have "k \<le> n" by simp
  from chain_bytes_prefix [OF this, of g disk c] assms show ?thesis by auto
qed

context block_device begin

lemma fatboot_load_frame:
  assumes "fatboot_load rd dst m s = Some (rc, sz, m', s')" and "m' a \<noteq> m a"
  shows "0x80000000 \<le> unat dst \<and> unat dst \<le> unat a \<and> unat a < 0x87000000"
  using assms load_file_frame
  by (auto simp: fatboot_load_def split: prod.splits sum.splits option.splits if_splits)

end

context card_reader begin

text \<open>
  Success: the card's partition is a FAT32 volume with 512-byte sectors, and the file loaded
  is the BOOT.BIN of its root directory.
\<close>

lemma fatboot_load_ok:
  assumes ret: "fatboot_load rd dst m s = Some (FB_OK, sz, m', s')" and "ready s"
  shows "rd16 (disk (fat_part_lba (disk 0))) 11 = 512 \<and>
    (\<exists>fc fs n bytes. fc \<noteq> 0 \<and>
      (boot_file disk (fc, fs) \<or> (\<exists>fs0. boot_file disk (0, fs0)) \<and> listed disk (fc, fs)) \<and>
      bytes = chain_bytes n (card_geom disk) disk fc \<and> unat fs \<le> length bytes \<and>
      rd32 bytes 0 = BOOT_IMAGE_MAGIC \<and> sz = Some (fs - 12) \<and>
      m' = store_bytes dst (drop 12 (take (unat fs) bytes)) m)"
proof -
  obtain x s1 where mnt: "fat_mount rd s = (x, s1)" by (cases "fat_mount rd s")
  with ret obtain g where x: "x = Inr g"
    by (cases x) (auto simp: fatboot_load_def fat_mount_def split: prod.splits option.splits if_splits)
  from mnt x obtain s0 b0 b1 where r0: "rd 0 s = (Some b0, s0)"
    and r1: "rd (fat_part_lba b0) s0 = (Some b1, s1)" and g: "g = fat_geom_of (fat_part_lba b0) b1"
    and bps: "rd16 b1 11 = 512"
    by (auto simp: fat_mount_def split: prod.splits option.splits if_splits)
  note rdy0 = ready_step [OF assms(2) r0]
  have b: "b0 = disk 0" "b1 = disk (fat_part_lba b0)"
    using contents [OF assms(2) r0] contents [OF rdy0 r1] by auto
  have rdy1: "ready s1" using ready_step [OF rdy0 r1] .
  from ret mnt x obtain fc fs s2 where
    rs: "root_scan rd g (root_cluster g, 0, 0) s1 = Some (Inr (fc, fs), s2)" and fc: "fc \<noteq> 0"
    and lf: "load_file rd g dst fc fs m s2 = Some (FB_OK, sz, m', s')"
    by (auto simp: fatboot_load_def split: option.splits sum.splits if_splits
        dest!: root_scan_error)
  have "ready s2" "listed disk (fc, fs)"
    using root_scan_listed [OF rs rdy1] by (simp_all add: listed_def [of _ "(0, 0)"])
  moreover have "g = card_geom disk" using g b by (simp add: card_geom_def)
  ultimately show ?thesis
    using load_file_ok [OF lf] root_scan_first [OF rs rdy1 fc] fc b bps
    unfolding boot_file_def by blast
qed

end

context ideal_card begin

text \<open>
  A FAT32 volume with a well-formed BOOT.BIN: the partition's first sector has 512-byte
  sectors, the search of the root directory finds a first cluster that is not 0, the
  chain is as long as the file and its header is accepted.
\<close>

lemma fatboot_load_ideal:
  assumes rdy: "ready s" and part: "part = fat_part_lba (disk 0)"
    and bps: "rd16 (disk part) 11 = 512" and g: "g = fat_geom_of part (disk part)"
    and spc: "sec_per_clus g \<noteq> 0"
    and look: "dir_lookup n g disk (root_cluster g) = Some (Some (fc, fs))" and fc: "fc \<noteq> 0"
    and fs: "12 \<le> unat fs" and len: "unat fs \<le> length (chain_bytes k g disk fc)"
    and hdr: "check_header dst fs (disk (cluster_lba g fc)) = Inr x"
  shows "\<exists>s'. fatboot_load rd dst m s =
    Some (FB_OK, Some (fs - 12),
      store_bytes dst (drop 12 (take (unat fs) (chain_bytes k g disk fc))) m, s')"
proof -
  obtain s1 where rdy1: "ready s1" and mnt: "fat_mount rd s = (Inr g, s1)"
    using fat_mount_ideal [OF rdy] bps part g by auto
  obtain s2 where rdy2: "ready s2" and
    rs: "root_scan rd g (root_cluster g, 0, 0) s1 = Some (Inr (fc, fs), s2)"
    using root_scan_ideal [OF rdy1 look] fc by auto
  obtain sz m' s' where lf: "load_file rd g dst fc fs m s2 = Some (FB_OK, sz, m', s')"
    using load_file_complete [OF rdy2 spc fs len hdr] by blast
  from load_file_ok [OF this rdy2] obtain n' where
    "unat fs \<le> length (chain_bytes n' g disk fc)" "sz = Some (fs - 12)"
    "m' = store_bytes dst (drop 12 (take (unat fs) (chain_bytes n' g disk fc))) m" by blast
  with take_chain_bytes [OF this(1) len] lf mnt rs fc show ?thesis
    by (simp add: fatboot_load_def)
qed

text \<open>A root directory whose chain is cyclic and holds no BOOT.BIN.\<close>

lemma fatboot_load_diverges:
  assumes rdy: "ready s" and part: "part = fat_part_lba (disk 0)"
    and bps: "rd16 (disk part) 11 = 512" and g: "g = fat_geom_of part (disk part)"
    and closed: "\<And>c. c \<in> C \<Longrightarrow> c < FAT_EOC \<and> cluster_hit g disk c = None \<and> fat_next g disk c \<in> C"
    and root: "root_cluster g \<in> C"
  shows "fatboot_load rd dst m s = None"
proof -
  obtain s1 where rdy1: "ready s1" and mnt: "fat_mount rd s = (Inr g, s1)"
    using fat_mount_ideal [OF rdy] bps part g by auto
  have "root_scan rd g (root_cluster g, 0, 0) s1 = None"
    using rdy1 closed root by (rule root_scan_diverges)
  with mnt show ?thesis by (simp add: fatboot_load_def)
qed

end

end
