(* ===== verification/Fatboot_Props.thy ===== *)
theory Fatboot_Props
  imports Fatboot
begin

text \<open>
  The properties of the SD boot path, from the block driver to the loader: the driver on an
  arbitrary bus and on the SoC's SD controller, and the FAT32 loader on top of it. The small
  card image at the end of the first section is what the witnesses run on.
\<close>

section \<open>A card image\<close>

text \<open>
  Sector 0 is the BIOS parameter block (one sector per cluster, one reserved sector, one FAT
  of one sector, root directory in cluster 2), sector 1 the FAT, sector 2 the root directory
  with the entry for BOOT.BIN (cluster 3, 16 bytes), sector 3 the file: header and one word.
\<close>

definition demo_image :: "nat \<Rightarrow> u16" where
  "demo_image = (\<lambda>_. 0)(
     6 := 0x0102, 7 := 1, 8 := 1, 18 := 1, 22 := 2,
     260 := 0xFFFF, 261 := 0x0FFF, 262 := 0xFFFF, 263 := 0x0FFF,
     512 := 0x4F42, 513 := 0x544F, 514 := 0x2020, 515 := 0x2020, 516 := 0x4942, 517 := 0x204E,
     525 := 3, 526 := 16,
     768 := 0x444D, 769 := 0x5244, 770 := 4, 774 := 0x1122, 775 := 0x3344)"

text \<open>The same card with an empty root directory whose cluster links to itself.\<close>

definition cyclic_image :: "nat \<Rightarrow> u16" where
  "cyclic_image = (\<lambda>_. 0)(6 := 0x0102, 7 := 1, 8 := 1, 18 := 1, 22 := 2, 260 := 2)"

abbreviation demo_disk :: "u32 \<Rightarrow> u8 list" where
  "demo_disk \<equiv> image_sector demo_image"

lemma demo_mount:
  "fat_part_lba (demo_disk 0) = 0"
  "rd16 (demo_disk 0) 11 = 512"
  "fat_geom_of 0 (demo_disk 0) =
     \<lparr>sec_per_clus = 1, fat_lba = 1, data_lba = 2, root_cluster = 2\<rparr>"
  by (simp_all add: fat_part_lba_def looks_like_fat32_bpb_def fat_geom_of_def rd16_def rd32_def
      image_sector_nth demo_image_def sim_base_def Let_def)

lemma demo_lookup:
  assumes "g = \<lparr>sec_per_clus = 1, fat_lba = 1, data_lba = 2, root_cluster = 2\<rparr>"
  shows "dir_lookup (Suc 0) g demo_disk (root_cluster g) = Some (Some (3, 16))"
proof -
  have "dir_entry_hit (demo_disk 2) 0" "dir_entry_file (demo_disk 2) 0 = (3, 16)"
    by (simp_all add: dir_entry_hit_def dir_entry_file_def name_match_def rd16_def rd32_def
        image_sector_nth demo_image_def sim_base_def)
  then have "scan_sector (demo_disk 2) = Some (3, 16)"
    by (simp add: scan_sector_def upt_rec)
  then show ?thesis by (simp add: assms cluster_hit_def cluster_lba_def)
qed

text \<open>BOOT.BIN of the demo card: no empty entry comes first.\<close>

lemma demo_boot_file: "boot_file demo_disk q \<longleftrightarrow> q = (3, 16)"
proof -
  have "dir_lookup n (card_geom demo_disk) demo_disk (root_cluster (card_geom demo_disk)) =
      (if n = 0 then None else Some (Some (3, 16)))" for n
    using demo_lookup [OF refl] by (cases n) (auto simp: card_geom_def demo_mount split: option.splits)
  then show ?thesis by (auto simp: boot_file_def)
qed

lemma demo_header: "check_header 0x80000000 16 (demo_disk 3) = Inr (4, 0)"
proof -
  have "length (demo_disk 3) = 512"
    using sdhost_ideal.length_disk [of demo_image
        "(sd_state0\<lparr>g_high_capacity := True\<rparr>, sdhost_reset 0 demo_image)" 3]
    by (simp add: host_ready_def host_ok_reset)
  then have "rd32 (take 12 (demo_disk 3)) 0 = BOOT_IMAGE_MAGIC"
    "rd32 (take 12 (demo_disk 3)) 4 = 4" "rd32 (take 12 (demo_disk 3)) 8 = 0"
    by (simp_all add: rd32_def image_sector_nth demo_image_def sim_base_def)
  then show ?thesis
    by (simp add: check_header_def boot_image_parse_header_def boot_image_validate_file_size_def
        Let_def)
qed

lemma demo_ready: "host_ready demo_image (sd_state0\<lparr>g_high_capacity := True\<rparr>, sdhost_reset 0 demo_image)"
  by (simp add: host_ready_def host_ok_reset)

lemma demo_chain:
  assumes "g = \<lparr>sec_per_clus = 1, fat_lba = 1, data_lba = 2, root_cluster = 2\<rparr>"
  shows "chain_bytes (Suc 0) g demo_disk 3 = demo_disk 3"
  by (simp add: assms cluster_bytes_def cluster_lba_def)

lemma demo_load:
  "\<exists>s'. fatboot_load (sdcard_read_block sdhost_bus) 0x80000000 (\<lambda>_. 0)
     (sd_state0\<lparr>g_high_capacity := True\<rparr>, sdhost_reset 0 demo_image) =
   Some (FB_OK, Some (16 - 12), store_bytes 0x80000000
     (drop 12 (take (unat (16 :: u32)) (demo_disk 3))) (\<lambda>_. 0), s')"
  using sdhost_ideal.fatboot_load_ideal [OF demo_ready refl, of _ "Suc 0" 3 16 "Suc 0",
      unfolded demo_mount demo_chain [OF refl] demo_lookup [OF refl], OF refl refl]
    demo_lookup [OF refl]
  by (simp add: demo_header cluster_lba_def cluster_bytes_def image_sector_nth
      sdhost_ideal.length_disk [OF demo_ready])

lemma demo_bytes: "drop 12 (take 16 (demo_disk 3)) = [0x22, 0x11, 0x44, 0x33]"
proof -
  have "drop 12 (take 16 xs) = [xs ! 12, xs ! 13, xs ! 14, xs ! 15]"
    if "length xs = 512" for xs :: "u8 list"
  proof (rule nth_equalityI)
    fix i assume "i < length (drop 12 (take 16 xs))"
    then have "i = 0 \<or> i = 1 \<or> i = 2 \<or> i = 3" using that by auto
    then show "drop 12 (take 16 xs) ! i = [xs ! 12, xs ! 13, xs ! 14, xs ! 15] ! i"
      using that by auto
  qed (simp add: that)
  then show ?thesis
    using sdhost_ideal.length_disk [OF demo_ready, of 3]
    by (simp add: image_sector_nth demo_image_def sim_base_def)
qed

lemma cyclic_facts:
  "fat_part_lba (image_sector cyclic_image 0) = 0"
  "rd16 (image_sector cyclic_image 0) 11 = 512"
  "fat_geom_of 0 (image_sector cyclic_image 0) =
     \<lparr>sec_per_clus = 1, fat_lba = 1, data_lba = 2, root_cluster = 2\<rparr>"
  "fat_next \<lparr>sec_per_clus = 1, fat_lba = 1, data_lba = 2, root_cluster = 2\<rparr>
     (image_sector cyclic_image) 2 = 2"
  by (simp_all add: fat_part_lba_def looks_like_fat32_bpb_def fat_geom_of_def rd16_def rd32_def
      image_sector_nth cyclic_image_def sim_base_def Let_def fat_next_def)

lemma cyclic_no_hit:
  "cluster_hit \<lparr>sec_per_clus = 1, fat_lba = 1, data_lba = 2, root_cluster = 2\<rparr>
     (image_sector cyclic_image) 2 = None"
proof -
  have "\<not> dir_entry_hit (image_sector cyclic_image 2) (32 * i)" if "i < 16" for i
    using that by (simp add: dir_entry_hit_def image_sector_nth cyclic_image_def sim_base_def)
  then have "scan_sector (image_sector cyclic_image 2) = None"
    by (auto simp: scan_sector_def find_None_iff)
  then show ?thesis by (simp add: cluster_hit_def cluster_lba_def)
qed

section \<open>Properties\<close>

text \<open>
  The image check is exact. The header parser and the file size check together accept an
  image precisely when the magic matches, the load address lies in the DDR bank, the two
  segments fit below the framebuffer as natural numbers (nothing wraps in 32 bits), and the
  file is the header plus exactly the two segments.
\<close>

theorem boot_image_accepted_iff:
  "boot_image_parse_header (Some h) True dst = Inr (t, d, p) \<and>
     boot_image_validate_file_size file_size t d = BOOT_IMAGE_OK \<longleftrightarrow>
   rd32 h 0 = BOOT_IMAGE_MAGIC \<and> t = rd32 h 4 \<and> d = rd32 h 8 \<and> p = t + d \<and>
     0x80000000 \<le> unat dst \<and> unat dst < 0x87000000 \<and>
     unat dst + unat t + unat d \<le> 0x87000000 \<and>
     unat file_size = 12 + unat t + unat d"
  (is "?code \<longleftrightarrow> ?spec")
proof
  assume ?code
  then have p: "boot_image_parse_header (Some h) True dst = Inr (t, d, p)"
    and v: "boot_image_validate_file_size file_size t d = BOOT_IMAGE_OK" by auto
  from p have "p = t + d" by (auto simp: boot_image_parse_header_def Let_def split: if_splits)
  with parse_header_OkD [OF p] validate_file_size_OkD [OF v] show ?spec
    by (simp add: word_le_nat_alt word_less_nat_alt)
next
  assume s: ?spec
  then have "unat (BOOT_IMAGE_LOAD_LIMIT - dst) = 0x87000000 - unat dst"
    by (subst unat_sub) (simp_all add: word_le_nat_alt)
  with s have t: "\<not> BOOT_IMAGE_LOAD_LIMIT - dst < t"
    and "unat (BOOT_IMAGE_LOAD_LIMIT - dst - t) = 0x87000000 - unat dst - unat t"
    by (auto simp: word_less_nat_alt unat_sub word_le_nat_alt)
  moreover have "unat d \<le> 0x87000000 - unat dst - unat t" using s by linarith
  ultimately have d: "\<not> BOOT_IMAGE_LOAD_LIMIT - dst - t < d"
    by (simp add: word_less_nat_alt not_less)
  from s t d have "boot_image_parse_header (Some h) True dst = Inr (t, d, p)"
    by (simp add: boot_image_parse_header_def Let_def word_le_nat_alt word_less_nat_alt)
  with s validate_file_size_OkI show ?code by simp
qed

text \<open>
  A block read never exceeds the caller's 512-byte sector and never disturbs the card
  mode. On any bus, the driver either fails or fills exactly 512 bytes and clears the error
  code; the addressing mode, relative address and OCR that initialisation found are kept; a
  standard-capacity block number whose byte address would not fit in 32 bits is refused
  before any register is touched.
\<close>

theorem sdcard_read_block_safe:
  "case sdcard_read_block b lba (g, d) of
     (r, g', d') \<Rightarrow>
       same_mode g g' \<and>
       (case r of None \<Rightarrow> g_sd_err g' = 17
        | Some bs \<Rightarrow> length bs = 512 \<and> g_sd_err g' = 0) \<and>
       (if g_high_capacity g \<or> unat lba < 2 ^ 23 then True else r = None \<and> d' = d)"
proof -
  obtain r g' d' where e: "sdcard_read_block b lba (g, d) = (r, g', d')"
    by (cases "sdcard_read_block b lba (g, d)")
  have "r = None \<and> d' = d" if "\<not> g_high_capacity g" "2 ^ 23 \<le> unat lba"
    using e that by (simp add: sdcard_read_block_def sd_block_arg_def word_less_nat_alt)
  moreover note sdcard_read_block_frame [OF e] sdcard_read_block_err [OF e]
  moreover have "length bs = 512" if "r = Some bs" for bs
    using e that sdcard_read_block_length by blast
  ultimately show ?thesis
    using e by (auto split: option.splits)
qed

text \<open>
  The SD driver works on the SoC's controller. From reset, initialisation succeeds, selects
  block addressing, and records the card's relative address and OCR; after it every block
  number reads back exactly the 512 bytes of the card image, in the image's byte order.
\<close>

theorem sdcard_on_controller:
  "\<exists>g' h'. sdcard_init sdhost_bus g (sdhost_reset dbg img) = (True, g', h') \<and>
     g_high_capacity g' \<and> g_rca g' = 0x13 \<and> g_ocr g' = 0xC0FF8000 \<and> g_sd_err g' = 0 \<and>
     (\<forall>lba. fst (sdcard_read_block sdhost_bus lba (g', h')) = Some (image_sector img lba))"
proof -
  obtain g' h' where i: "sdcard_init sdhost_bus g (sdhost_reset dbg img) = (True, g', h')"
    and r: "host_ready img (g', h')"
    and rest: "g_rca g' = 0x13 \<and> g_ocr g' = 0xC0FF8000 \<and> g_sd_err g' = 0"
    using sdcard_init_host [OF host_ok_reset] by blast
  have "fst (sdcard_read_block sdhost_bus lba (g', h')) = Some (image_sector img lba)" for lba
    using sdcard_read_block_host [OF r, of lba] by auto
  with i r rest show ?thesis by (auto simp: host_ready_def)
qed

text \<open>
  C5: The SD loader writes nothing outside the DDR image window. Whatever the bus and the card
  do, and whether it succeeds or fails, every byte of memory that \<open>fatboot_load\<close> changes lies
  between the load address and the framebuffer, and then the load address is itself in the
  DDR bank.
\<close>

theorem fatboot_load_safe:
  assumes "fatboot_load (sdcard_read_block b) dst m s = Some (rc, sz, m', s')"
    and "m' a \<noteq> m a"
  shows "0x80000000 \<le> unat dst \<and> unat dst \<le> unat a \<and> unat a < 0x87000000"
  using assms by (rule sd.fatboot_load_frame)

theorem fatboot_load_safe_witness:
  "\<exists>m' s'. fatboot_load (sdcard_read_block sdhost_bus) 0x80000000 (\<lambda>_. 0)
      (sd_state0\<lparr>g_high_capacity := True\<rparr>, sdhost_reset 0 demo_image) = Some (FB_OK, Some 4, m', s') \<and>
     m' 0x80000000 \<noteq> 0 \<and> unat (0x80000000 :: u32) < 0x87000000"
proof -
  obtain s' where "fatboot_load (sdcard_read_block sdhost_bus) 0x80000000 (\<lambda>_. 0)
      (sd_state0\<lparr>g_high_capacity := True\<rparr>, sdhost_reset 0 demo_image) =
    Some (FB_OK, Some 4, store_bytes 0x80000000 [0x22, 0x11, 0x44, 0x33] (\<lambda>_. 0), s')"
    using demo_load by (auto simp: demo_bytes)
  with fatboot_load_safe [OF this, where a = "0x80000000"] show ?thesis by simp
qed

text \<open>
  C18: Success means BOOT.BIN is in memory. When \<open>fatboot_load\<close> returns 0 on the SoC's controller
  with the card initialised, the partition has 512-byte sectors and the file loaded is the
  first BOOT.BIN of the card's root directory (or, when that entry is an empty file with first
  cluster 0, a BOOT.BIN entry in some sector of the card to which the search runs on): its clusters hold at least as many
  bytes as its size, the magic is in front, the reported size is the file's without the header,
  and memory is the old memory with exactly those bytes stored at the load address.
\<close>

theorem fatboot_load_correct:
  assumes "fatboot_load (sdcard_read_block sdhost_bus) dst m (g, h) = Some (FB_OK, sz, m', s')"
    and "host_ready img (g, h)" and "disk = image_sector img"
  shows "rd16 (disk (fat_part_lba (disk 0))) 11 = 512 \<and>
    (\<exists>fc fs n bytes. fc \<noteq> 0 \<and>
      (boot_file disk (fc, fs) \<or> (\<exists>fs0. boot_file disk (0, fs0)) \<and> listed disk (fc, fs)) \<and>
      bytes = chain_bytes n (card_geom disk) disk fc \<and> unat fs \<le> length bytes \<and>
      rd32 bytes 0 = BOOT_IMAGE_MAGIC \<and> sz = Some (fs - 12) \<and>
      m' = store_bytes dst (drop 12 (take (unat fs) bytes)) m)"
  unfolding assms(3) using assms(1,2) by (rule sdhost_card.fatboot_load_ok)

theorem fatboot_load_correct_witness:
  "\<exists>m' s'. fatboot_load (sdcard_read_block sdhost_bus) 0x80000000 (\<lambda>_. 0)
      (sd_state0\<lparr>g_high_capacity := True\<rparr>, sdhost_reset 0 demo_image) = Some (FB_OK, Some 4, m', s') \<and>
    m' = store_bytes 0x80000000 [0x22, 0x11, 0x44, 0x33] (\<lambda>_. 0) \<and>
    (\<exists>fc n. boot_file demo_disk (fc, 16) \<and>
      m' = store_bytes 0x80000000 (drop 12 (take 16 (chain_bytes n (card_geom demo_disk) demo_disk fc))) (\<lambda>_. 0))"
proof -
  obtain s' where run: "fatboot_load (sdcard_read_block sdhost_bus) 0x80000000 (\<lambda>_. 0)
      (sd_state0\<lparr>g_high_capacity := True\<rparr>, sdhost_reset 0 demo_image) =
    Some (FB_OK, Some 4, store_bytes 0x80000000 [0x22, 0x11, 0x44, 0x33] (\<lambda>_. 0), s')"
    using demo_load by (auto simp: demo_bytes)
  have "4 = fs - 12 \<longleftrightarrow> fs = 16" for fs :: u32 by (auto simp: algebra_simps)
  with run fatboot_load_correct [OF run demo_ready refl] demo_boot_file show ?thesis by auto
qed

text \<open>
  C30: A well-formed card boots. If the partition has 512-byte sectors, the root directory search
  finds a file, its chain is as long as its size and its header is accepted, then the loader
  returns, with code 0, the payload size and the payload at the load address.
\<close>

theorem fatboot_load_complete:
  assumes "host_ready img (g, h)"
    and "part = fat_part_lba (image_sector img 0)" and "rd16 (image_sector img part) 11 = 512"
    and "geo = fat_geom_of part (image_sector img part)" and "sec_per_clus geo \<noteq> 0"
    and "dir_lookup n geo (image_sector img) (root_cluster geo) = Some (Some (fc, fs))"
    and "fc \<noteq> 0" and "12 \<le> unat fs"
    and "unat fs \<le> length (chain_bytes k geo (image_sector img) fc)"
    and "check_header dst fs (image_sector img (cluster_lba geo fc)) = Inr x"
  shows "\<exists>s'. fatboot_load (sdcard_read_block sdhost_bus) dst m (g, h) =
    Some (FB_OK, Some (fs - 12),
      store_bytes dst (drop 12 (take (unat fs) (chain_bytes k geo (image_sector img) fc))) m, s')"
  using assms by (rule sdhost_ideal.fatboot_load_ideal)

theorem fatboot_load_complete_witness:
  "\<exists>s'. fatboot_load (sdcard_read_block sdhost_bus) 0x80000000 (\<lambda>_. 0)
     (sd_state0\<lparr>g_high_capacity := True\<rparr>, sdhost_reset 0 demo_image) =
   Some (FB_OK, Some 4, store_bytes 0x80000000 [0x22, 0x11, 0x44, 0x33] (\<lambda>_. 0), s')"
  using fatboot_load_complete [where n = "Suc 0" and k = "Suc 0" and fs = 16 and fc = 3
      and dst = "0x80000000" and m = "\<lambda>_. 0", OF demo_ready refl,
      unfolded demo_mount demo_chain [OF refl] demo_lookup [OF refl], OF refl refl]
    demo_lookup [OF refl]
  by (simp add: demo_header cluster_lba_def cluster_bytes_def demo_bytes
      sdhost_ideal.length_disk [OF demo_ready])

text \<open>
  C40: A cyclic directory hangs the boot ROM. If the root directory's cluster chain runs into a
  cycle whose clusters hold no entry for BOOT.BIN, \<open>fatboot_load\<close> does not return: its search
  loop has no bound and does not remember where it has been.
\<close>

theorem fatboot_load_cyclic_directory:
  assumes "host_ready img (g, h)"
    and "part = fat_part_lba (image_sector img 0)" and "rd16 (image_sector img part) 11 = 512"
    and "geo = fat_geom_of part (image_sector img part)"
    and "\<And>c. c \<in> C \<Longrightarrow> c < FAT_EOC \<and> cluster_hit geo (image_sector img) c = None \<and>
        fat_next geo (image_sector img) c \<in> C"
    and "root_cluster geo \<in> C"
  shows "fatboot_load (sdcard_read_block sdhost_bus) dst m (g, h) = None"
  using assms by (rule sdhost_ideal.fatboot_load_diverges)

theorem fatboot_load_cyclic_directory_witness:
  "fatboot_load (sdcard_read_block sdhost_bus) 0x80000000 (\<lambda>_. 0)
     (sd_state0\<lparr>g_high_capacity := True\<rparr>, sdhost_reset 0 cyclic_image) = None"
proof (rule fatboot_load_cyclic_directory [OF _ refl _ refl, where C = "{2}"])
  show "host_ready cyclic_image
      (sd_state0\<lparr>g_high_capacity := True\<rparr>, sdhost_reset 0 cyclic_image)"
    by (simp add: host_ready_def host_ok_reset)
qed (simp_all add: cyclic_facts cyclic_no_hit)

end
