(* ===== verification/Uart.thy ===== *)
theory Uart
  imports Mmio
begin

text \<open>
  \<open>program/drivers/uart.c\<close> and \<open>uart.h\<close>: the polled console driver, with \<open>putchar\<close> and
  \<open>getchar\<close> on top of it. Transmitting and the blocking receive wait for a status bit and
  so return an option.
\<close>

section \<open>Registers\<close>

abbreviation UART_STATUS_RX_VALID :: u32 where "UART_STATUS_RX_VALID \<equiv> 1"
abbreviation UART_STATUS_RX_OVERRUN :: u32 where "UART_STATUS_RX_OVERRUN \<equiv> 2"
abbreviation UART_STATUS_RX_FRAMEERR :: u32 where "UART_STATUS_RX_FRAMEERR \<equiv> 4"
abbreviation UART_STATUS_TX_READY :: u32 where "UART_STATUS_TX_READY \<equiv> 0x100"
abbreviation UART_STATUS_TX_BUSY :: u32 where "UART_STATUS_TX_BUSY \<equiv> 0x200"

definition uart_data_reg :: u32 where
  "uart_data_reg = IO_BASE_ADDR + 0x8"

definition uart_ctrl_reg :: u32 where
  "uart_ctrl_reg = IO_BASE_ADDR + 0x10"

lemma uart_regs_distinct [simp]: "uart_data_reg \<noteq> uart_ctrl_reg" "uart_ctrl_reg \<noteq> uart_data_reg"
  by (simp_all add: uart_data_reg_def uart_ctrl_reg_def)

section \<open>Operations\<close>

definition uart_get_status :: "'d bus \<Rightarrow> 'd \<Rightarrow> u32 \<times> 'd" where
  "uart_get_status b d = read_twice b uart_ctrl_reg d"

definition uart_clear_status :: "'d bus \<Rightarrow> u32 \<Rightarrow> 'd \<Rightarrow> 'd" where
  "uart_clear_status b bits d =
     (let v1 = (if bits AND UART_STATUS_RX_OVERRUN \<noteq> 0 then UART_STATUS_RX_OVERRUN else 0);
          v2 = (if bits AND UART_STATUS_RX_FRAMEERR \<noteq> 0
                then v1 OR UART_STATUS_RX_FRAMEERR else v1)
      in if v2 \<noteq> 0 then bus_wr b uart_ctrl_reg v2 d else d)"

definition uart_init :: "'d bus \<Rightarrow> 'd \<Rightarrow> 'd" where
  "uart_init b d = uart_clear_status b (UART_STATUS_RX_OVERRUN OR UART_STATUS_RX_FRAMEERR) d"

definition uart_tx_ready :: "'d bus \<Rightarrow> 'd \<Rightarrow> bool \<times> 'd" where
  "uart_tx_ready b d =
     (let (st, d') = uart_get_status b d in (st AND UART_STATUS_TX_BUSY = 0, d'))"

definition uart_putc_blocking :: "'d bus \<Rightarrow> u8 \<Rightarrow> 'd \<Rightarrow> 'd option" where
  "uart_putc_blocking b byte d =
     map_option (\<lambda>(_, d'). bus_wr b uart_data_reg (ucast byte) d')
       (poll_until (\<lambda>d. let (r, d') = uart_tx_ready b d in (if r then Some () else None, d')) d)"

text \<open>The result \<open>-1\<close> of the C function is \<open>None\<close>.\<close>

definition uart_getc_nonblocking :: "'d bus \<Rightarrow> 'd \<Rightarrow> u8 option \<times> 'd" where
  "uart_getc_nonblocking b d =
     (let (st, d1) = uart_get_status b d
      in if st AND UART_STATUS_RX_VALID = 0 then (None, d1)
         else let (v, d2) = bus_rd b uart_data_reg d1 in (Some (ucast (v AND 0xFF)), d2))"

definition uart_getc_blocking :: "'d bus \<Rightarrow> 'd \<Rightarrow> (u8 \<times> 'd) option" where
  "uart_getc_blocking b d = poll_until (uart_getc_nonblocking b) d"

definition uart_rx_available :: "'d bus \<Rightarrow> 'd \<Rightarrow> bool \<times> 'd" where
  "uart_rx_available b d =
     (let (st, d') = uart_get_status b d in (st AND UART_STATUS_RX_VALID \<noteq> 0, d'))"

text \<open>\<open>putchar\<close> narrows its argument to a byte and returns it.\<close>

definition putchar :: "'d bus \<Rightarrow> u32 \<Rightarrow> 'd \<Rightarrow> (u32 \<times> 'd) option" where
  "putchar b c d = map_option (\<lambda>d'. (c AND 0xFF, d')) (uart_putc_blocking b (ucast c) d)"

definition getchar :: "'d bus \<Rightarrow> 'd \<Rightarrow> (u8 \<times> 'd) option" where
  "getchar b d = uart_getc_blocking b d"

text \<open>A run of \<open>putchar\<close> calls, as the print routines make them.\<close>

fun put_bytes :: "'d bus \<Rightarrow> u8 list \<Rightarrow> 'd \<Rightarrow> 'd option" where
  "put_bytes b [] d = Some d"
| "put_bytes b (c # cs) d = Option.bind (uart_putc_blocking b c d) (put_bytes b cs)"

lemma put_bytes_append:
  "put_bytes b (xs @ ys) d = Option.bind (put_bytes b xs d) (put_bytes b ys)"
proof (induction xs arbitrary: d)
  case (Cons c xs)
  then show ?case by (cases "uart_putc_blocking b c d") simp_all
qed simp

section \<open>A serial port contract\<close>

text \<open>
  What a client of the driver relies on: \<open>sent d\<close> is what has been transmitted, \<open>putc\<close>
  appends to it (and always returns), reading the status or the receiver sends nothing.
\<close>

locale serial_out =
  fixes putc :: "u8 \<Rightarrow> 'd \<Rightarrow> 'd option" and sent :: "'d \<Rightarrow> u8 list" and ok :: "'d \<Rightarrow> bool"
  assumes putc_ok: "ok d \<Longrightarrow> \<exists>d'. putc c d = Some d' \<and> ok d' \<and> sent d' = sent d @ [c]"
begin

fun puts_all :: "u8 list \<Rightarrow> 'd \<Rightarrow> 'd option" where
  "puts_all [] d = Some d"
| "puts_all (c # cs) d = Option.bind (putc c d) (puts_all cs)"

lemma puts_all_sent:
  "ok d \<Longrightarrow> \<exists>d'. puts_all cs d = Some d' \<and> ok d' \<and> sent d' = sent d @ cs"
proof (induction cs arbitrary: d)
  case Nil
  then show ?case by simp
next
  case (Cons c cs)
  from putc_ok [OF Cons.prems, of c] obtain d1
    where d1: "putc c d = Some d1" "ok d1" "sent d1 = sent d @ [c]" by auto
  from Cons.IH [OF d1(2)] obtain d2
    where "puts_all cs d1 = Some d2" "ok d2" "sent d2 = sent d1 @ cs" by auto
  with d1 show ?case by simp
qed

end

end
