(* ===== verification/Timer.thy ===== *)
theory Timer
  imports Mmio
begin

text \<open>
  \<open>program/drivers/timer.c\<close>, \<open>timer.h\<close> and \<open>clint.h\<close>: the 1 MHz tick counter with its
  delay loops and the 64-bit machine timer read through two 32-bit registers. The driver's
  static \<open>g_timer_ticks_per_sec\<close> is an explicit argument. The lemmas show that no delay
  returns early (up to the truncation of \<open>mul_div_u32\<close>), that \<open>timer_delay_s\<close> waits for
  the full product without overflow, and that \<open>clint_get_mtime\<close> never returns a torn value.
\<close>

section \<open>Registers\<close>

definition timer_ctrl_reg :: u32 where "timer_ctrl_reg = IO_BASE_ADDR + 0x30"
definition timer_presc_reg :: u32 where "timer_presc_reg = IO_BASE_ADDR + 0x34"
definition timer_count_reg :: u32 where "timer_count_reg = IO_BASE_ADDR + 0x38"
definition timer_cmp_reg :: u32 where "timer_cmp_reg = IO_BASE_ADDR + 0x3C"
definition timer_period_reg :: u32 where "timer_period_reg = IO_BASE_ADDR + 0x40"
definition timer_status_reg :: u32 where "timer_status_reg = IO_BASE_ADDR + 0x44"

abbreviation TIMER_CTRL_EN :: u32 where "TIMER_CTRL_EN \<equiv> 1"
abbreviation TIMER_CTRL_PRESC_EN :: u32 where "TIMER_CTRL_PRESC_EN \<equiv> 8"
abbreviation TIMER_CTRL_SOFT_RESET :: u32 where "TIMER_CTRL_SOFT_RESET \<equiv> 0x80000000"

section \<open>Counter and delays\<close>

definition timer_get_count :: "'d bus \<Rightarrow> 'd \<Rightarrow> u32 \<times> 'd" where
  "timer_get_count b d = read_twice b timer_count_reg d"

text \<open>The result is the new \<open>g_timer_ticks_per_sec\<close> and the device state.\<close>

definition timer_init_1mhz :: "'d bus \<Rightarrow> u32 \<Rightarrow> 'd \<Rightarrow> u32 \<times> 'd" where
  "timer_init_1mhz b clk_hz d =
     (let q = clk_hz div 1000000;
          divider = (if q = 0 then 1 else q);
          presc = divider - 1;
          tps = clk_hz div divider;
          d1 = bus_wr b timer_ctrl_reg TIMER_CTRL_SOFT_RESET d;
          d2 = bus_wr b timer_presc_reg presc d1;
          d3 = bus_wr b timer_count_reg 0 d2;
          d4 = bus_wr b timer_ctrl_reg (TIMER_CTRL_EN OR TIMER_CTRL_PRESC_EN) d3
      in (tps, d4))"

definition timer_delay_ticks :: "'d bus \<Rightarrow> u32 \<Rightarrow> 'd \<Rightarrow> 'd option" where
  "timer_delay_ticks b ticks d =
     (let (start, d1) = timer_get_count b d
      in map_option snd
           (poll_until (\<lambda>d. let (c, d') = timer_get_count b d
              in (if c - start < ticks then None else Some (), d')) d1))"

text \<open>The product is taken in 64 bits, the quotient is narrowed to 32.\<close>

definition mul_div_u32 :: "u32 \<Rightarrow> u32 \<Rightarrow> u32 \<Rightarrow> u32" where
  "mul_div_u32 a b dv =
     (if dv = 0 then 0 else ucast ((ucast a * ucast b :: u64) div ucast dv))"

definition timer_delay_us :: "'d bus \<Rightarrow> u32 \<Rightarrow> u32 \<Rightarrow> 'd \<Rightarrow> 'd option" where
  "timer_delay_us b tps us d =
     (if tps = 0 then timer_delay_ticks b us d
      else timer_delay_ticks b (mul_div_u32 us tps 1000000) d)"

definition timer_delay_ms :: "'d bus \<Rightarrow> u32 \<Rightarrow> u32 \<Rightarrow> 'd \<Rightarrow> 'd option" where
  "timer_delay_ms b tps ms d =
     (if tps = 0 then timer_delay_ticks b (ms * 1000) d
      else timer_delay_ticks b (mul_div_u32 ms tps 1000) d)"

text \<open>The quotient limit is at least 1, so a chunk is never empty.\<close>

lemma chunk_limit_pos: "tps \<noteq> 0 \<Longrightarrow> 0 < unat (0xFFFFFFFF div tps :: u32)"
proof -
  assume "tps \<noteq> 0"
  then have "0 < unat tps" by (simp add: unat_gt_0)
  moreover have "unat tps \<le> 4294967295" using unat_u32_less [of tps] by simp
  ultimately show ?thesis by (simp add: unat_div div_greater_zero_iff)
qed

text \<open>The ticks of the successive \<open>timer_delay_ticks\<close> calls of \<open>timer_delay_s\<close>.\<close>

function delay_chunks :: "u32 \<Rightarrow> u32 \<Rightarrow> u32 list" where
  "delay_chunks tps s =
     (if s = 0 then []
      else if tps = 0 then 1000000 # delay_chunks tps (s - 1)
      else let lim = 0xFFFFFFFF div tps; chunk = (if lim < s then lim else s)
        in (chunk * tps) # delay_chunks tps (s - chunk))"
  by pat_completeness auto

termination
proof (relation "measure (\<lambda>(tps, s). unat s)")
  fix tps s :: u32
  assume "s \<noteq> 0" "tps = 0"
  then show "((tps, s - 1), (tps, s)) \<in> measure (\<lambda>(tps, s). unat s)"
    by (simp add: unat_minus_one) (simp add: unat_gt_0)
next
  fix tps s lim chunk :: u32
  assume s: "s \<noteq> 0" and t: "tps \<noteq> 0" and lim: "lim = 0xFFFFFFFF div tps"
    and chunk: "chunk = (if lim < s then lim else s)"
  have "0 < unat chunk" "unat chunk \<le> unat s"
    using s chunk_limit_pos [OF t] unfolding chunk lim
    by (auto simp: word_less_nat_alt unat_gt_0)
  then show "((tps, s - chunk), (tps, s)) \<in> measure (\<lambda>(tps, s). unat s)"
    by (simp add: unat_minus_le word_le_nat_alt)
qed simp

declare delay_chunks.simps [simp del]

definition timer_delay_s :: "'d bus \<Rightarrow> u32 \<Rightarrow> u32 \<Rightarrow> 'd \<Rightarrow> 'd option" where
  "timer_delay_s b tps s d =
     foldl (\<lambda>r t. Option.bind r (timer_delay_ticks b t)) (Some d) (delay_chunks tps s)"

section \<open>The machine timer\<close>

definition clint_mmio :: "u32 \<Rightarrow> u32" where
  "clint_mmio offset = IO_BASE_ADDR + offset"

abbreviation CLINT_MSIP_OFFSET :: u32 where "CLINT_MSIP_OFFSET \<equiv> 0"
abbreviation CLINT_MTIMECMP_OFFSET :: u32 where "CLINT_MTIMECMP_OFFSET \<equiv> 0x4000"
abbreviation CLINT_MTIME_OFFSET :: u32 where "CLINT_MTIME_OFFSET \<equiv> 0xBFF8"

definition clint_read32 :: "'d bus \<Rightarrow> u32 \<Rightarrow> 'd \<Rightarrow> u32 \<times> 'd" where
  "clint_read32 b offset d = read_twice b (clint_mmio offset) d"

definition clint_get_mtime_try :: "'d bus \<Rightarrow> 'd \<Rightarrow> u64 option \<times> 'd" where
  "clint_get_mtime_try b d =
     (let (hi, d1) = clint_read32 b (CLINT_MTIME_OFFSET + 4) d;
          (lo, d2) = clint_read32 b CLINT_MTIME_OFFSET d1;
          (hi', d3) = clint_read32 b (CLINT_MTIME_OFFSET + 4) d2
      in (if hi \<noteq> hi' then None else Some (push_bit 32 (ucast hi) OR ucast lo), d3))"

definition clint_get_mtime :: "'d bus \<Rightarrow> 'd \<Rightarrow> (u64 \<times> 'd) option" where
  "clint_get_mtime b d = poll_until (clint_get_mtime_try b) d"

definition clint_set_mtimecmp :: "'d bus \<Rightarrow> u64 \<Rightarrow> 'd \<Rightarrow> 'd" where
  "clint_set_mtimecmp b val d =
     bus_wr b (clint_mmio (CLINT_MTIMECMP_OFFSET + 4)) (ucast (drop_bit 32 val))
       (bus_wr b (clint_mmio CLINT_MTIMECMP_OFFSET) (ucast val) d)"

definition clint_set_msip :: "'d bus \<Rightarrow> 'd \<Rightarrow> 'd" where
  "clint_set_msip b d = bus_wr b (clint_mmio CLINT_MSIP_OFFSET) 1 d"

definition clint_clear_msip :: "'d bus \<Rightarrow> 'd \<Rightarrow> 'd" where
  "clint_clear_msip b d = bus_wr b (clint_mmio CLINT_MSIP_OFFSET) 0 d"

section \<open>Delays\<close>

lemma unat_mul_div_u32:
  assumes "dv \<noteq> 0"
  shows "unat (mul_div_u32 a c dv) = (unat a * unat c div unat dv) mod 4294967296"
proof -
  have u: "unat (ucast w :: u64) = unat w" for w :: u32
    using unat_u32_less [of w] by (simp add: unsigned_ucast_eq take_bit_nat_eq_self)
  have "unat a * unat c < 4294967296 * 4294967296"
    using unat_u32_less [of a] unat_u32_less [of c] by (intro mult_strict_mono) auto
  then have "unat (ucast a * ucast c :: u64) = unat a * unat c"
    by (subst unat_mult_no_wrap) (simp_all add: u)
  with assms show ?thesis
    by (simp add: mul_div_u32_def unat_div u unsigned_ucast_eq take_bit_eq_mod)
qed

text \<open>Every chunk's product is exact, and together they make the whole product.\<close>

lemma sum_delay_chunks:
  "tps \<noteq> 0 \<Longrightarrow> sum_list (map unat (delay_chunks tps s)) = unat s * unat tps"
proof (induction tps s rule: delay_chunks.induct)
  case (1 tps s)
  show ?case
  proof (cases "s = 0")
    case True
    then show ?thesis by (simp add: delay_chunks.simps)
  next
    case False
    define lim where "lim = (0xFFFFFFFF div tps :: u32)"
    define chunk where "chunk = (if lim < s then lim else s)"
    have le: "unat chunk \<le> unat s" "unat chunk \<le> unat lim"
      by (auto simp: chunk_def word_less_nat_alt)
    have "unat lim * unat tps \<le> 4294967295"
      by (simp add: lim_def unat_div)
    then have "unat chunk * unat tps \<le> 4294967295"
      using mult_le_mono1 [OF le(2), of "unat tps"] by linarith
    then have prod: "unat (chunk * tps) = unat chunk * unat tps"
      by (subst unat_mult_no_wrap) simp_all
    have "delay_chunks tps s = (chunk * tps) # delay_chunks tps (s - chunk)"
      using False 1(3) by (subst delay_chunks.simps) (simp add: lim_def chunk_def Let_def)
    moreover have "sum_list (map unat (delay_chunks tps (s - chunk))) = (unat s - unat chunk) * unat tps"
      using 1(2) [OF False 1(3) lim_def chunk_def 1(3)] le(1)
      by (simp add: unat_minus_le word_le_nat_alt)
    ultimately show ?thesis
      using prod le(1) by (simp add: diff_mult_distrib)
  qed
qed

text \<open>
  A tick counter behind the registered read path: \<open>tk\<close> is the number of ticks since the
  counter was last reset, which only grows while the driver polls.
\<close>

locale tick_bus = registered_bus +
  fixes tk :: "'d \<Rightarrow> nat"
  assumes count_reg: "reg timer_count_reg d = of_nat (tk d)"
    and tk_rd: "bus_rd b a d = (v, d') \<Longrightarrow> tk d \<le> tk d'"
begin

lemma timer_get_count_tk:
  assumes "timer_get_count b d = (c, d')"
  shows "c = of_nat (tk d')" and "tk d \<le> tk d'"
proof -
  show "c = of_nat (tk d')"
    using read_twice_reg [of timer_count_reg d c d'] assms count_reg [of d']
    by (simp add: timer_get_count_def)
  obtain v1 d1 where r1: "bus_rd b timer_count_reg d = (v1, d1)"
    by (cases "bus_rd b timer_count_reg d")
  with assms have "bus_rd b timer_count_reg d1 = (c, d')"
    by (simp add: timer_get_count_def read_twice_def)
  from tk_rd [OF r1] tk_rd [OF this] show "tk d \<le> tk d'" by simp
qed

lemma timer_delay_ticks_not_early:
  assumes "timer_delay_ticks b t d = Some d'"
  shows "tk d + unat t \<le> tk d'"
proof -
  obtain start d1 where s: "timer_get_count b d = (start, d1)"
    by (cases "timer_get_count b d")
  from assms s obtain u where p:
    "poll_until (\<lambda>d. let (c, d') = timer_get_count b d
        in (if c - start < t then None else Some (), d')) d1 = Some (u, d')"
    by (auto simp: timer_delay_ticks_def)
  have "tk d1 + unat t \<le> tk d'"
  proof (rule poll_until_rule [OF p, where P = "\<lambda>x. tk d1 \<le> tk x"])
    fix x x' assume "tk d1 \<le> tk x"
      and "(let (c, d') = timer_get_count b x
        in (if c - start < t then None else Some (), d')) = (None, x')"
    then show "tk d1 \<le> tk x'"
      using timer_get_count_tk(2) [of x] by (fastforce split: prod.splits)
  next
    fix x a x' assume le: "tk d1 \<le> tk x"
      and eq: "(let (c, d') = timer_get_count b x
        in (if c - start < t then None else Some (), d')) = (Some a, x')"
    obtain c where c: "timer_get_count b x = (c, x')" and ge: "\<not> c - start < t"
      using eq by (auto split: prod.splits if_splits)
    from timer_get_count_tk [OF c] timer_get_count_tk [OF s] le
    have m: "tk d1 \<le> tk x'" and cs: "c - start = of_nat (tk x' - tk d1)" by simp_all
    have "unat (c - start) \<le> tk x' - tk d1"
      unfolding cs by (rule unat_of_nat_le)
    with ge m show "tk d1 + unat t \<le> tk x'"
      by (simp add: word_less_nat_alt)
  qed simp
  with timer_get_count_tk(2) [OF s] show ?thesis by simp
qed

lemma delay_run_not_early:
  "foldl (\<lambda>r t. Option.bind r (timer_delay_ticks b t)) (Some d) ts = Some d' \<Longrightarrow>
   tk d + sum_list (map unat ts) \<le> tk d'"
proof (induction ts arbitrary: d)
  case Nil
  then show ?case by simp
next
  case (Cons t ts)
  have none: "foldl (\<lambda>r t. Option.bind r (timer_delay_ticks b t)) None us = None" for us
    by (induction us) simp_all
  from Cons.prems none obtain d1 where d1: "timer_delay_ticks b t d = Some d1"
    by (cases "timer_delay_ticks b t d") auto
  with Cons.prems have "foldl (\<lambda>r t. Option.bind r (timer_delay_ticks b t)) (Some d1) ts = Some d'"
    by simp
  from Cons.IH [OF this] timer_delay_ticks_not_early [OF d1] show ?case by simp
qed

lemma timer_delay_s_not_early:
  assumes "tps \<noteq> 0" and "timer_delay_s b tps s d = Some d'"
  shows "tk d + unat s * unat tps \<le> tk d'"
  using delay_run_not_early [of d "delay_chunks tps s" d'] assms
  by (simp add: timer_delay_s_def sum_delay_chunks)

end

section \<open>No torn reads of the machine timer\<close>

text \<open>The 64-bit counter seen through its two registers; \<open>mt\<close> counts cycles since reset.\<close>

locale mtime_bus = registered_bus +
  fixes mt :: "'d \<Rightarrow> nat"
  assumes mtime_lo: "reg (clint_mmio CLINT_MTIME_OFFSET) d = of_nat (mt d)"
    and mtime_hi: "reg (clint_mmio (CLINT_MTIME_OFFSET + 4)) d = of_nat (mt d div 4294967296)"
    and mt_rd: "bus_rd b a d = (v, d') \<Longrightarrow> mt d \<le> mt d'"
begin

lemma clint_read32_mt:
  assumes "clint_read32 b off d = (v, d')"
  shows "v = reg (clint_mmio off) d'" and "mt d \<le> mt d'"
proof -
  show "v = reg (clint_mmio off) d'"
    using read_twice_reg [of "clint_mmio off" d v d'] assms by (simp add: clint_read32_def)
  obtain v1 d1 where r1: "bus_rd b (clint_mmio off) d = (v1, d1)"
    by (cases "bus_rd b (clint_mmio off) d")
  with assms have "bus_rd b (clint_mmio off) d1 = (v, d')"
    by (simp add: clint_read32_def read_twice_def)
  from mt_rd [OF r1] mt_rd [OF this] show "mt d \<le> mt d'" by simp
qed

end

lemma join_words_64:
  assumes "n < 18446744073709551616"
  shows "push_bit 32 (ucast (of_nat (n div 4294967296) :: u32)) OR ucast (of_nat n :: u32)
    = (of_nat n :: u64)"
proof (rule bit_word_eqI)
  fix i assume "i < LENGTH(64)"
  have hi: "bit (n div 4294967296) j \<longleftrightarrow> bit n (32 + j)" for j
    using bit_drop_bit_eq [of 32 n] by (simp add: drop_bit_eq_div)
  from \<open>i < LENGTH(64)\<close> show "bit (push_bit 32 (ucast (of_nat (n div 4294967296) :: u32))
      OR ucast (of_nat n :: u32) :: u64) i \<longleftrightarrow> bit (of_nat n :: u64) i"
    by (cases "i < 32") (auto simp: bit_or_iff bit_push_bit_iff bit_ucast_iff hi bit_of_nat_iff)
qed

context mtime_bus
begin

lemma clint_get_mtime_linear:
  assumes "clint_get_mtime b d = Some (v, d')" and "mt d' < 18446744073709551616"
  shows "\<exists>t. mt d \<le> t \<and> t \<le> mt d' \<and> v = of_nat t"
proof -
  have "mt d' < 18446744073709551616 \<longrightarrow> (\<exists>t. mt d \<le> t \<and> t \<le> mt d' \<and> v = of_nat t)"
  proof (rule poll_until_rule [OF assms(1) [unfolded clint_get_mtime_def], where P = "\<lambda>x. mt d \<le> mt x"])
    fix x x' assume le: "mt d \<le> mt x" and "clint_get_mtime_try b x = (None, x')"
    then obtain hi d1 lo d2 hi' where
      "clint_read32 b (CLINT_MTIME_OFFSET + 4) x = (hi, d1)"
      "clint_read32 b CLINT_MTIME_OFFSET d1 = (lo, d2)"
      "clint_read32 b (CLINT_MTIME_OFFSET + 4) d2 = (hi', x')"
      by (auto simp: clint_get_mtime_try_def split: prod.splits)
    from this [THEN clint_read32_mt(2)] le show "mt d \<le> mt x'" by simp
  next
    fix x w x' assume le: "mt d \<le> mt x" and eq: "clint_get_mtime_try b x = (Some w, x')"
    obtain hi d1 lo d2 hi' where
      r1: "clint_read32 b (CLINT_MTIME_OFFSET + 4) x = (hi, d1)" and
      r2: "clint_read32 b CLINT_MTIME_OFFSET d1 = (lo, d2)" and
      r3: "clint_read32 b (CLINT_MTIME_OFFSET + 4) d2 = (hi', x')" and
      same: "hi = hi'" and w: "w = push_bit 32 (ucast hi) OR ucast lo"
      using eq by (auto simp: clint_get_mtime_try_def split: prod.splits if_splits)
    note c1 = clint_read32_mt [OF r1] and c2 = clint_read32_mt [OF r2] and c3 = clint_read32_mt [OF r3]
    show "mt x' < 18446744073709551616 \<longrightarrow> (\<exists>t. mt d \<le> t \<and> t \<le> mt x' \<and> w = of_nat t)"
    proof
      assume bound: "mt x' < 18446744073709551616"
      have ord: "mt d \<le> mt d2" "mt d2 \<le> mt x'" "mt d1 \<le> mt x'"
        using le c1(2) c2(2) c3(2) by linarith+
      have small: "mt y div 4294967296 < 4294967296" if "mt y \<le> mt x'" for y
        using that bound by auto
      have "(of_nat (mt d1 div 4294967296) :: u32) = of_nat (mt x' div 4294967296)"
        using same c1(1) c3(1) mtime_hi by simp
      then have "mt d1 div 4294967296 = mt x' div 4294967296"
        using unat_of_nat_u32 [OF small [OF ord(3)]] unat_of_nat_u32 [OF small [OF order_refl]]
        by metis
      moreover have "mt d1 div 4294967296 \<le> mt d2 div 4294967296"
        "mt d2 div 4294967296 \<le> mt x' div 4294967296"
        using c2(2) c3(2) by (simp_all add: div_le_mono)
      ultimately have "hi = of_nat (mt d2 div 4294967296)"
        using c1(1) mtime_hi by simp
      moreover have "lo = of_nat (mt d2)" using c2(1) mtime_lo by simp
      moreover have "mt d2 < 18446744073709551616" using c3(2) bound by simp
      ultimately have "w = of_nat (mt d2)" using w join_words_64 by simp
      with ord show "\<exists>t. mt d \<le> t \<and> t \<le> mt x' \<and> w = of_nat t" by blast
    qed
  qed simp
  with assms(2) show ?thesis by blast
qed

end

end
