(* ===== verification/Soc_Device.thy ===== *)
theory Soc_Device
  imports Uart Timer
begin

text \<open>
  The provider of the drivers' bus contract: the SoC's own peripherals at register level,
  translated from \<open>rtl/peripheral/uart_mmio.sv\<close>, \<open>timer_mmio.sv\<close>, \<open>clint.sv\<close> and
  \<open>gpio_mmio.sv\<close>. A bus access takes two clock cycles (\<open>mmio_ack_q\<close> of \<open>soc.sv\<close>) and then
  reads or writes the addressed register; the bus charges no time for the instructions between two accesses, so no
  statement on it is a bound on the run time of a routine. \<open>slow_bus\<close> lets any time pass before each access. The serial line is the list of frames still to
  arrive, each with the cycle at which its stop bit is sampled; a frame sent occupies the
  transmitter for ten bit times of 234 cycles. The counters are natural numbers whose
  registers read modulo the register width. The SD, I2C and SPI blocks are not in this
  device model (their drivers are proved against an arbitrary bus).
\<close>

section \<open>State\<close>

record soc =
  s_cyc :: nat
  s_cmp :: u64
  s_msip :: bool
  s_en :: bool
  s_presc_en :: bool
  s_presc :: u32
  s_presc_cnt :: u32
  s_count :: nat
  s_leds :: u8
  s_rx_data :: u8
  s_rx_valid :: bool
  s_rx_overrun :: bool
  s_rx_frame_err :: bool
  s_line :: "(nat \<times> u8) list"
  s_tx_busy :: nat
  s_sent :: "u8 list"
  s_last :: "u32 option"

definition soc_reset :: "(nat \<times> u8) list \<Rightarrow> soc" where
  "soc_reset l = \<lparr>s_cyc = 0, s_cmp = 0xFFFFFFFFFFFFFFFF, s_msip = False, s_en = False,
     s_presc_en = False, s_presc = 0, s_presc_cnt = 0, s_count = 0, s_leds = 0,
     s_rx_data = 0, s_rx_valid = False, s_rx_overrun = False, s_rx_frame_err = False,
     s_line = l, s_tx_busy = 0, s_sent = [], s_last = None\<rparr>"

section \<open>One clock cycle\<close>

definition timer_tick :: "soc \<Rightarrow> bool" where
  "timer_tick s \<longleftrightarrow> s_en s \<and> (\<not> s_presc_en s \<or> s_presc s \<le> s_presc_cnt s)"

definition timer_clock :: "soc \<Rightarrow> soc" where
  "timer_clock s =
     s\<lparr>s_count := (if timer_tick s then Suc (s_count s) else s_count s),
       s_presc_cnt := (if s_en s \<and> s_presc_en s \<and> \<not> timer_tick s
                       then s_presc_cnt s + 1 else 0)\<rparr>"

definition uart_rx_clock :: "soc \<Rightarrow> soc" where
  "uart_rx_clock s =
     (case s_line s of
        [] \<Rightarrow> s
      | (t, byte) # rest \<Rightarrow>
          if t \<le> s_cyc s
          then s\<lparr>s_rx_overrun := s_rx_overrun s \<or> s_rx_valid s, s_rx_data := byte,
                 s_rx_valid := True, s_line := rest\<rparr>
          else s)"

definition soc_clock :: "soc \<Rightarrow> soc" where
  "soc_clock s =
     (let s1 = uart_rx_clock (timer_clock s)
      in s1\<lparr>s_cyc := Suc (s_cyc s1), s_tx_busy := s_tx_busy s1 - 1\<rparr>)"

section \<open>Registers\<close>

definition uart_status_word :: "soc \<Rightarrow> u32" where
  "uart_status_word s =
     (if s_rx_valid s then 1 else 0) OR (if s_rx_overrun s then 2 else 0)
       OR (if s_rx_frame_err s then 4 else 0)
       OR (if s_tx_busy s = 0 then 0x100 else 0x200)"

definition soc_reg :: "u32 \<Rightarrow> soc \<Rightarrow> u32" where
  "soc_reg a s =
     (if a = uart_data_reg then ucast (s_rx_data s)
      else if a = uart_ctrl_reg then uart_status_word s
      else if a = timer_count_reg then of_nat (s_count s)
      else if a = timer_presc_reg then s_presc s
      else if a = clint_mmio CLINT_MSIP_OFFSET then (if s_msip s then 1 else 0)
      else if a = clint_mmio CLINT_MTIMECMP_OFFSET then ucast (s_cmp s)
      else if a = clint_mmio (CLINT_MTIMECMP_OFFSET + 4) then ucast (drop_bit 32 (s_cmp s))
      else if a = clint_mmio CLINT_MTIME_OFFSET then of_nat (s_cyc s)
      else if a = clint_mmio (CLINT_MTIME_OFFSET + 4) then of_nat (s_cyc s div 4294967296)
      else if a = 0x400004 then ucast (s_leds s)
      else 0)"

text \<open>Reading the data register takes the received byte.\<close>

definition soc_rd :: "u32 \<Rightarrow> soc \<Rightarrow> u32 \<times> soc" where
  "soc_rd a s =
     (let s1 = soc_clock (soc_clock s)
      in (soc_reg a s1,
          s1\<lparr>s_rx_valid := s_rx_valid s1 \<and> a \<noteq> uart_data_reg, s_last := Some a\<rparr>))"

definition soc_write_effect :: "u32 \<Rightarrow> u32 \<Rightarrow> soc \<Rightarrow> soc" where
  "soc_write_effect a v s =
     (if a = uart_data_reg then
        (if s_tx_busy s = 0
         then s\<lparr>s_sent := s_sent s @ [ucast v], s_tx_busy := 2340\<rparr> else s)
      else if a = uart_ctrl_reg then
        s\<lparr>s_rx_overrun := s_rx_overrun s \<and> \<not> bit v 1,
          s_rx_frame_err := s_rx_frame_err s \<and> \<not> bit v 2\<rparr>
      else if a = timer_ctrl_reg then
        (if bit v 31
         then s\<lparr>s_en := False, s_presc_en := False, s_presc := 0, s_presc_cnt := 0, s_count := 0\<rparr>
         else s\<lparr>s_en := bit v 0, s_presc_en := bit v 3\<rparr>)
      else if a = timer_presc_reg then s\<lparr>s_presc := v, s_presc_cnt := 0\<rparr>
      else if a = timer_count_reg then s\<lparr>s_count := unat v\<rparr>
      else if a = clint_mmio CLINT_MSIP_OFFSET then s\<lparr>s_msip := bit v 0\<rparr>
      else if a = clint_mmio CLINT_MTIMECMP_OFFSET then
        s\<lparr>s_cmp := push_bit 32 (drop_bit 32 (s_cmp s)) OR ucast v\<rparr>
      else if a = clint_mmio (CLINT_MTIMECMP_OFFSET + 4) then
        s\<lparr>s_cmp := push_bit 32 (ucast v) OR take_bit 32 (s_cmp s)\<rparr>
      else if a = 0x400004 then s\<lparr>s_leds := ucast (take_bit 6 v)\<rparr>
      else s)"

definition soc_wr :: "u32 \<Rightarrow> u32 \<Rightarrow> soc \<Rightarrow> soc" where
  "soc_wr a v s = (soc_write_effect a v (soc_clock (soc_clock s)))\<lparr>s_last := None\<rparr>"

definition soc_bus :: "soc bus" where
  "soc_bus = \<lparr>bus_rd = soc_rd, bus_wr = soc_wr\<rparr>"

definition timer_irq :: "soc \<Rightarrow> bool" where
  "timer_irq s \<longleftrightarrow> s_cmp s \<le> of_nat (s_cyc s)"

section \<open>Lemmas\<close>

lemmas soc_addrs = uart_data_reg_def uart_ctrl_reg_def timer_count_reg_def timer_presc_reg_def
  timer_ctrl_reg_def clint_mmio_def

lemma soc_bus_simps [simp]: "bus_rd soc_bus = soc_rd" "bus_wr soc_bus = soc_wr"
  by (simp_all add: soc_bus_def)

lemma soc_clock_fields [simp]:
  "s_cyc (soc_clock s) = Suc (s_cyc s)"
  "s_tx_busy (soc_clock s) = s_tx_busy s - 1"
  "s_sent (soc_clock s) = s_sent s"
  "s_cmp (soc_clock s) = s_cmp s"
  "s_count (soc_clock s) = (if timer_tick s then Suc (s_count s) else s_count s)"
  "s_en (soc_clock s) = s_en s" "s_presc_en (soc_clock s) = s_presc_en s"
  "s_presc (soc_clock s) = s_presc s"
  by (simp_all add: soc_clock_def uart_rx_clock_def timer_clock_def Let_def
      split: list.splits prod.splits)

lemma soc_reg_rd_effect:
  "soc_reg a (s\<lparr>s_rx_valid := s_rx_valid s \<and> a \<noteq> uart_data_reg, s_last := l\<rparr>) = soc_reg a s"
  by (cases "a = uart_data_reg") (simp_all add: soc_reg_def uart_status_word_def)

lemma soc_rd_fields:
  assumes "soc_rd a s = (v, s')"
  shows "v = soc_reg a s'" "s_last s' = Some a" "s_cyc s' = Suc (Suc (s_cyc s))"
    and "s_count s \<le> s_count s'" "s_sent s' = s_sent s" "s_tx_busy s' = s_tx_busy s - 2"
proof -
  let ?s1 = "soc_clock (soc_clock s)"
  have s': "s' = ?s1\<lparr>s_rx_valid := s_rx_valid ?s1 \<and> a \<noteq> uart_data_reg, s_last := Some a\<rparr>"
    and v: "v = soc_reg a ?s1"
    using assms by (simp_all add: soc_rd_def Let_def)
  show "v = soc_reg a s'"
    unfolding v s' by (rule soc_reg_rd_effect [symmetric])
  show "s_last s' = Some a" "s_cyc s' = Suc (Suc (s_cyc s))" "s_sent s' = s_sent s"
    "s_tx_busy s' = s_tx_busy s - 2"
    unfolding s' by simp_all
  show "s_count s \<le> s_count s'"
    unfolding s' by simp
qed

section \<open>The contracts hold\<close>

interpretation soc_regs: registered_bus soc_bus s_last soc_reg s_cyc
  by unfold_locales (auto dest: soc_rd_fields)

interpretation soc_ticks: tick_bus soc_bus s_last soc_reg s_cyc s_count
  by unfold_locales (auto dest: soc_rd_fields(4) simp: soc_reg_def soc_addrs)

interpretation soc_mtime: mtime_bus soc_bus s_last soc_reg s_cyc s_cyc
  by unfold_locales (auto dest: soc_rd_fields(3) simp: soc_reg_def soc_addrs)

lemma tx_busy_bit: "uart_status_word s AND UART_STATUS_TX_BUSY = 0 \<longleftrightarrow> s_tx_busy s = 0"
  by (simp add: uart_status_word_def)

lemma soc_tx_ready:
  assumes "uart_tx_ready soc_bus s = (r, s')"
  shows "r \<longleftrightarrow> s_tx_busy s' = 0" "s_tx_busy s' = s_tx_busy s - 4" "s_sent s' = s_sent s"
proof -
  obtain v1 s1 where r1: "soc_rd uart_ctrl_reg s = (v1, s1)" by (cases "soc_rd uart_ctrl_reg s")
  obtain v2 s2 where r2: "soc_rd uart_ctrl_reg s1 = (v2, s2)" by (cases "soc_rd uart_ctrl_reg s1")
  have v2: "v2 = uart_status_word s2"
    using soc_rd_fields(1) [OF r2] by (simp add: soc_reg_def)
  have "r \<longleftrightarrow> v2 AND UART_STATUS_TX_BUSY = 0" and s': "s' = s2"
    using assms r1 r2 by (auto simp: uart_tx_ready_def uart_get_status_def read_twice_def Let_def)
  then show "r \<longleftrightarrow> s_tx_busy s' = 0" "s_tx_busy s' = s_tx_busy s - 4" "s_sent s' = s_sent s"
    using soc_rd_fields [OF r1] soc_rd_fields [OF r2] by (auto simp: v2 tx_busy_bit)
qed

lemma soc_putc_sends:
  "\<exists>s'. uart_putc_blocking soc_bus c s = Some s' \<and> s_sent s' = s_sent s @ [c]"
proof -
  let ?f = "\<lambda>d. let (r, d') = uart_tx_ready soc_bus d in (if r then Some () else None, d')"
  have "\<exists>u s'. poll_until ?f s = Some (u, s')"
  proof (rule poll_until_returns [where P = "\<lambda>_. True" and m = s_tx_busy])
    fix d d' assume "?f d = (None, d')"
    then have "uart_tx_ready soc_bus d = (False, d')" by (auto split: prod.splits if_splits)
    then show "True \<and> s_tx_busy d' < s_tx_busy d"
      using soc_tx_ready [of d False d'] by simp
  qed simp
  then obtain u s1 where p: "poll_until ?f s = Some (u, s1)" by auto
  have "s_sent s1 = s_sent s \<and> s_tx_busy s1 = 0"
    by (rule poll_until_rule [OF p, where P = "\<lambda>x. s_sent x = s_sent s"])
      (auto dest: soc_tx_ready split: prod.splits if_splits)
  then show ?thesis
    using p by (simp add: uart_putc_blocking_def soc_wr_def soc_write_effect_def)
qed

interpretation soc_serial: serial_out "uart_putc_blocking soc_bus" s_sent "\<lambda>_. True"
  by unfold_locales (use soc_putc_sends in auto)

section \<open>A processor that takes its time\<close>

text \<open>
  The same devices, with \<open>w i\<close> further clock cycles before the access number \<open>i\<close>: the time the processor
  takes for its instructions, for fetching them and for interrupts.
\<close>

definition slow_bus :: "(nat \<Rightarrow> nat) \<Rightarrow> (soc \<times> nat) bus" where
  "slow_bus w = \<lparr>bus_rd = (\<lambda>a (s, i). let (v, s') = soc_rd a ((soc_clock ^^ w i) s) in (v, (s', Suc i))),
     bus_wr = (\<lambda>a v (s, i). (soc_wr a v ((soc_clock ^^ w i) s), Suc i))\<rparr>"

lemma waited_fields [simp]:
  "s_cyc ((soc_clock ^^ n) s) = s_cyc s + n" "s_cmp ((soc_clock ^^ n) s) = s_cmp s"
  by (induction n) simp_all

lemma slow_rd:
  assumes "bus_rd (slow_bus w) a (s, i) = (v, d')"
  obtains s' where "d' = (s', Suc i)" and "v = soc_reg a s'" and "s_cyc s' = s_cyc s + w i + 2"
proof -
  obtain v' s' where r: "soc_rd a ((soc_clock ^^ w i) s) = (v', s')" by (cases "soc_rd a ((soc_clock ^^ w i) s)")
  have "d' = (s', Suc i)" "v = v'" using assms r by (simp_all add: slow_bus_def)
  with that soc_rd_fields [OF r] show thesis by simp
qed

lemma slow_wr: "bus_wr (slow_bus w) a v (s, i) = (soc_wr a v ((soc_clock ^^ w i) s), Suc i)"
  by (simp add: slow_bus_def)

end
