(* ===== verification/Line_Bus.thy ===== *)
theory Line_Bus
  imports Uart Timer
begin

text \<open>
  A serial line as a bus: its state is the list of the bytes still to arrive. It is the other
  end of the UART driver for the statements about a sender or a typist, and shows what the
  driver does when a byte is always waiting.
\<close>

text \<open>
  A serial line that holds the bytes to come and is never late: a byte is waiting whenever
  there is one left, and the transmitter is always ready.
\<close>

definition line_rd :: "u32 \<Rightarrow> u8 list \<Rightarrow> u32 \<times> u8 list" where
  "line_rd a l =
     (if a = uart_ctrl_reg then (if l = [] then 0 else 1, l)
      else if a = uart_data_reg then (case l of [] \<Rightarrow> (0, []) | c # cs \<Rightarrow> (ucast c, cs))
      else (0, l))"

definition line_bus :: "u8 list bus" where
  "line_bus = \<lparr>bus_rd = line_rd, bus_wr = \<lambda>a v l. l\<rparr>"

lemma line_bus_simps [simp]: "bus_rd line_bus = line_rd" "bus_wr line_bus a v l = l"
  by (simp_all add: line_bus_def)

lemma line_status [simp]: "uart_get_status line_bus l = (if l = [] then 0 else 1, l)"
  by (simp add: uart_get_status_def read_twice_def line_rd_def)

lemma line_count [simp]: "timer_get_count line_bus l = (0, l)"
  by (simp add: timer_get_count_def read_twice_def line_rd_def uart_data_reg_def uart_ctrl_reg_def timer_count_reg_def)

lemma line_putc [simp]: "uart_putc_blocking line_bus c l = Some l"
proof -
  have "poll_until (\<lambda>d. let (r, d') = uart_tx_ready line_bus d
      in (if r then Some () else None, d')) l = Some ((), l)"
    by (rule poll_until_Some) (simp add: uart_tx_ready_def)
  then show ?thesis by (simp add: uart_putc_blocking_def)
qed

lemma line_puts [simp]: "put_bytes line_bus cs l = Some l"
  by (induction cs) simp_all

lemma line_getc [simp]:
  "uart_getc_nonblocking line_bus (c # l) = (Some c, l)"
  "uart_getc_nonblocking line_bus [] = (None, [])"
proof -
  have "ucast (ucast c AND 0xFF :: u32) = c"
  proof (rule bit_word_eqI)
    fix n assume n: "n < LENGTH(8)"
    have m: "(0xFF :: u32) = Bit_Operations.mask 8" by (simp add: mask_eq_exp_minus_1)
    show "bit (ucast (ucast c AND 0xFF :: u32) :: u8) n \<longleftrightarrow> bit c n"
      unfolding m bit_ucast_iff bit_and_iff bit_mask_iff using n by simp
  qed
  then show "uart_getc_nonblocking line_bus (c # l) = (Some c, l)"
    by (simp add: uart_getc_nonblocking_def line_rd_def)
  show "uart_getc_nonblocking line_bus [] = (None, [])"
    by (simp add: uart_getc_nonblocking_def)
qed

lemma line_getc_blocking [simp]:
  "uart_getc_blocking line_bus (c # l) = Some (c, l)"
  "uart_getc_blocking line_bus [] = None"
  by (simp_all add: uart_getc_blocking_def poll_until_Some
      poll_until_diverges [where P = "\<lambda>l. l = []"])

end
