(* ===== verification/Xmodem.thy ===== *)
theory Xmodem
  imports Boot_Image Soc_Device Line_Bus
begin

text \<open>
  \<open>program/boot/xmodem.c\<close>: the XMODEM-CRC receiver that loads an image over the UART. One
  turn of the receive loop is three things in the code's order: the request sent while no
  block has arrived (\<open>xmodem_sync\<close>), the bytes read from the line, as an event
  (\<open>xmodem_event\<close>), and the reaction to it (\<open>xmodem_react\<close>): new loop state, reply bytes, and
  the result code if the loop ends. The reaction is pure, so the protocol lemmas (accepted
  blocks, retries, duplicates, padding, memory) are about it; the loop lemmas lift them to
  every state the loop reaches on any bus.
\<close>

section \<open>Constants and results\<close>

abbreviation XMODEM_SOH :: u8 where "XMODEM_SOH \<equiv> 0x01"
abbreviation XMODEM_EOT :: u8 where "XMODEM_EOT \<equiv> 0x04"
abbreviation XMODEM_ACK :: u8 where "XMODEM_ACK \<equiv> 0x06"
abbreviation XMODEM_NAK :: u8 where "XMODEM_NAK \<equiv> 0x15"
abbreviation XMODEM_CAN :: u8 where "XMODEM_CAN \<equiv> 0x18"
abbreviation XMODEM_CRC_REQUEST :: u8 where "XMODEM_CRC_REQUEST \<equiv> 67"
abbreviation XMODEM_BLOCK_SIZE :: nat where "XMODEM_BLOCK_SIZE \<equiv> 128"
abbreviation XMODEM_TIMEOUT_TICKS :: u32 where "XMODEM_TIMEOUT_TICKS \<equiv> 1000000"
abbreviation XMODEM_MAX_RETRIES :: u32 where "XMODEM_MAX_RETRIES \<equiv> 16"

datatype xmodem_result =
    XMODEM_OK | XMODEM_ERR_TIMEOUT | XMODEM_ERR_CANCELLED | XMODEM_ERR_PROTOCOL
  | XMODEM_ERR_IMAGE | XMODEM_ERR_UART | XMODEM_ERR_BLOCK_NUMBER | XMODEM_ERR_CRC

section \<open>The checksum\<close>

definition crc16_bit :: "u32 \<Rightarrow> u32" where
  "crc16_bit crc =
     (if crc AND 0x8000 \<noteq> 0 then push_bit 1 crc XOR 0x1021 else push_bit 1 crc) AND 0xFFFF"

definition crc16_byte :: "u32 \<Rightarrow> u8 \<Rightarrow> u32" where
  "crc16_byte crc b = (crc16_bit ^^ 8) (crc XOR push_bit 8 (ucast b))"

definition crc16_ccitt :: "u8 list \<Rightarrow> u16" where
  "crc16_ccitt data = ucast (foldl crc16_byte 0 data)"

section \<open>Receiving\<close>

text \<open>A byte of the line, or the error code of the failed attempt.\<close>

definition getc_try :: "'d bus \<Rightarrow> u32 \<Rightarrow> u32 \<Rightarrow> 'd \<Rightarrow> (xmodem_result + u8) option \<times> 'd" where
  "getc_try b start timeout_ticks d =
     (let (status, d1) = uart_get_status b d
      in if status AND UART_STATUS_RX_OVERRUN \<noteq> 0 then
           (Some (Inl XMODEM_ERR_UART), uart_clear_status b UART_STATUS_RX_OVERRUN d1)
         else if status AND UART_STATUS_RX_FRAMEERR \<noteq> 0 then
           (Some (Inl XMODEM_ERR_UART), uart_clear_status b UART_STATUS_RX_FRAMEERR d1)
         else
           let (byte, d2) = (if status AND UART_STATUS_RX_VALID \<noteq> 0
                             then uart_getc_nonblocking b d1 else (None, d1))
           in case byte of
                Some c \<Rightarrow> (Some (Inr c), d2)
              | None \<Rightarrow>
                  let (now, d3) = timer_get_count b d2
                  in (if timeout_ticks \<le> now - start then Some (Inl XMODEM_ERR_TIMEOUT) else None, d3))"

definition getc_timeout :: "'d bus \<Rightarrow> u32 \<Rightarrow> 'd \<Rightarrow> ((xmodem_result + u8) \<times> 'd) option" where
  "getc_timeout b timeout_ticks d =
     (let (start, d1) = timer_get_count b d in poll_until (getc_try b start timeout_ticks) d1)"

definition cancel_transfer :: "'d bus \<Rightarrow> 'd \<Rightarrow> 'd option" where
  "cancel_transfer b d = put_bytes b [XMODEM_CAN, XMODEM_CAN] d"

fun receive_bytes :: "nat \<Rightarrow> 'd bus \<Rightarrow> 'd \<Rightarrow> ((xmodem_result + u8 list) \<times> 'd) option" where
  "receive_bytes 0 b d = Some (Inr [], d)"
| "receive_bytes (Suc n) b d =
     do {
       (r, d1) \<leftarrow> getc_timeout b XMODEM_TIMEOUT_TICKS d;
       case r of
         Inl e \<Rightarrow> Some (Inl e, d1)
       | Inr byte \<Rightarrow>
           do {
             (rs, d2) \<leftarrow> receive_bytes n b d1;
             Some (map_sum id (\<lambda>bs. byte # bs) rs, d2)
           }
     }"

text \<open>What is checked once all 133 bytes of a block are in.\<close>

definition check_block :: "u8 \<Rightarrow> u8 \<Rightarrow> u8 list \<Rightarrow> u8 \<Rightarrow> u8 \<Rightarrow> xmodem_result + u8 \<times> u8 list" where
  "check_block block invb data crc_hi crc_lo =
     (if block XOR invb \<noteq> 0xFF then Inl XMODEM_ERR_BLOCK_NUMBER
      else if push_bit 8 (ucast crc_hi) OR ucast crc_lo \<noteq> crc16_ccitt data
        then Inl XMODEM_ERR_CRC
      else Inr (block, data))"

definition receive_block :: "'d bus \<Rightarrow> 'd \<Rightarrow> ((xmodem_result + u8 \<times> u8 list) \<times> 'd) option" where
  "receive_block b d =
     do {
       (block, d1) \<leftarrow> getc_timeout b XMODEM_TIMEOUT_TICKS d;
       (invb, d2) \<leftarrow> getc_timeout b XMODEM_TIMEOUT_TICKS d1;
       case (block, invb) of
         (Inl e, _) \<Rightarrow> Some (Inl e, d2)
       | (_, Inl e) \<Rightarrow> Some (Inl e, d2)
       | (Inr bn, Inr iv) \<Rightarrow>
           do {
             (bytes, d3) \<leftarrow> receive_bytes XMODEM_BLOCK_SIZE b d2;
             case bytes of
               Inl e \<Rightarrow> Some (Inl e, d3)
             | Inr data \<Rightarrow>
                 do {
                   (hi, d4) \<leftarrow> getc_timeout b XMODEM_TIMEOUT_TICKS d3;
                   (lo, d5) \<leftarrow> getc_timeout b XMODEM_TIMEOUT_TICKS d4;
                   Some (case (hi, lo) of
                           (Inl e, _) \<Rightarrow> Inl e
                         | (_, Inl e) \<Rightarrow> Inl e
                         | (Inr crc_hi, Inr crc_lo) \<Rightarrow> check_block bn iv data crc_hi crc_lo, d5)
                 }
           }
     }"

section \<open>Storing a block\<close>

text \<open>
  The locals of \<open>xmodem_load_boot_image\<close> that live across turns, and the memory. The header
  buffer is uninitialised in C; it is read only once all twelve bytes are stored.
\<close>

record xm =
  expected_block :: u8
  stream_offset :: u32
  image_size :: u32
  header_ready :: bool
  header_buf :: "u8 list"
  sync_started :: bool
  sync_retries :: u32
  block_retries :: u32
  xm_mem :: memory

definition xm_init :: "memory \<Rightarrow> xm" where
  "xm_init m = \<lparr>expected_block = 1, stream_offset = 0, image_size = 0, header_ready = False,
     header_buf = replicate 12 0, sync_started = False, sync_retries = 0, block_retries = 0,
     xm_mem = m\<rparr>"

text \<open>One byte of the block at stream offset \<open>off\<close>; \<open>False\<close> is \<open>XMODEM_ERR_IMAGE\<close>.\<close>

definition store_byte :: "u32 \<Rightarrow> u32 \<Rightarrow> u8 \<Rightarrow> xm \<Rightarrow> bool \<times> xm" where
  "store_byte dst off byte x =
     (if off < BOOT_IMAGE_HEADER_SIZE then
        let x1 = x\<lparr>header_buf := (header_buf x)[unat off := byte]\<rparr>
        in if off + 1 = BOOT_IMAGE_HEADER_SIZE then
             (case boot_image_parse_header (Some (header_buf x1)) True dst of
                Inl _ \<Rightarrow> (False, x1)
              | Inr (_, _, payload_size) \<Rightarrow>
                  (True, x1\<lparr>image_size := BOOT_IMAGE_HEADER_SIZE + payload_size,
                            header_ready := True\<rparr>))
           else (True, x1)
      else if header_ready x \<and> off < image_size x then
        (True, x\<lparr>xm_mem := (xm_mem x)(dst + off - BOOT_IMAGE_HEADER_SIZE := byte)\<rparr>)
      else if header_ready x \<and> image_size x \<le> off \<and> off < image_size x + 128 then
        (byte = 0x1A, x)
      else (True, x))"

fun store_loop :: "u32 \<Rightarrow> u32 \<Rightarrow> u8 list \<Rightarrow> xm \<Rightarrow> bool \<times> xm" where
  "store_loop dst off [] x = (True, x)"
| "store_loop dst off (byte # bs) x =
     (case store_byte dst off byte x of
        (False, x1) \<Rightarrow> (False, x1)
      | (True, x1) \<Rightarrow> store_loop dst (off + 1) bs x1)"

definition store_block :: "u8 list \<Rightarrow> u32 \<Rightarrow> xm \<Rightarrow> bool \<times> xm" where
  "store_block data dst x =
     (if header_ready x \<and> image_size x \<le> stream_offset x then (False, x)
      else case store_loop dst (stream_offset x) data x of
        (False, x1) \<Rightarrow> (False, x1)
      | (True, x1) \<Rightarrow> (True, x1\<lparr>stream_offset := stream_offset x + 128\<rparr>))"

section \<open>The receive loop\<close>

datatype xmodem_event =
    EvError xmodem_result
  | EvCancel bool
  | EvEot
  | EvNoise u8
  | EvBlock "xmodem_result + u8 \<times> u8 list"

definition xmodem_sync :: "'d bus \<Rightarrow> xm \<Rightarrow> 'd \<Rightarrow> (xm \<times> 'd) option" where
  "xmodem_sync b x d =
     (if \<not> sync_started x \<and> sync_retries x < XMODEM_MAX_RETRIES then
        map_option (\<lambda>d1. (x\<lparr>sync_retries := sync_retries x + 1\<rparr>, d1))
          (uart_putc_blocking b XMODEM_CRC_REQUEST d)
      else Some (x, d))"

text \<open>The bytes one turn reads. \<open>EvCancel\<close> says whether the second byte is CAN too.\<close>

definition xmodem_receive :: "'d bus \<Rightarrow> 'd \<Rightarrow> (xmodem_event \<times> 'd) option" where
  "xmodem_receive b d =
     do {
       (control, d1) \<leftarrow> getc_timeout b XMODEM_TIMEOUT_TICKS d;
       case control of
         Inl e \<Rightarrow> Some (EvError e, d1)
       | Inr c \<Rightarrow>
           if c = XMODEM_CAN then
             do {
               (second, d2) \<leftarrow> getc_timeout b XMODEM_TIMEOUT_TICKS d1;
               Some (EvCancel (second = Inr XMODEM_CAN), d2)
             }
           else if c = XMODEM_EOT then Some (EvEot, d1)
           else if c \<noteq> XMODEM_SOH then Some (EvNoise c, d1)
           else do { (r, d2) \<leftarrow> receive_block b d1; Some (EvBlock r, d2) }
     }"

text \<open>
  A counted failure: \<open>reply\<close> while retries are left, else two CANs and the result code.
  What the loop does with an event is a triple: the result if it returns (with what it
  stores through \<open>size_out\<close>), the bytes it sends, the next loop state.
\<close>

type_synonym xm_reaction = "(xmodem_result \<times> u32 option) option \<times> u8 list \<times> xm"

definition xmodem_fail :: "xmodem_result \<Rightarrow> xm \<Rightarrow> xm_reaction" where
  "xmodem_fail rc x = (Some (rc, None), [XMODEM_CAN, XMODEM_CAN], x)"

definition xmodem_retry :: "xmodem_result \<Rightarrow> u8 list \<Rightarrow> xm \<Rightarrow> xm_reaction" where
  "xmodem_retry rc reply x =
     (let x1 = x\<lparr>block_retries := block_retries x + 1\<rparr>
      in if XMODEM_MAX_RETRIES \<le> block_retries x1 then xmodem_fail rc x1
         else (None, reply, x1))"

definition xmodem_block :: "u32 \<Rightarrow> u8 \<Rightarrow> u8 list \<Rightarrow> xm \<Rightarrow> xm_reaction" where
  "xmodem_block dst block_no data x =
     (if block_no = expected_block x - 1 then
        (None, [XMODEM_ACK], x\<lparr>block_retries := 0\<rparr>)
      else if block_no \<noteq> expected_block x then
        xmodem_retry XMODEM_ERR_PROTOCOL [XMODEM_NAK] x
      else case store_block data dst x of
        (False, x1) \<Rightarrow> xmodem_fail XMODEM_ERR_IMAGE x1
      | (True, x1) \<Rightarrow>
          (None, [XMODEM_ACK],
           x1\<lparr>expected_block := expected_block x1 + 1, block_retries := 0\<rparr>))"

fun xmodem_react :: "u32 \<Rightarrow> xmodem_event \<Rightarrow> xm \<Rightarrow> xm_reaction" where
  "xmodem_react dst (EvError e) x =
     (if e = XMODEM_ERR_TIMEOUT then
        if XMODEM_MAX_RETRIES \<le> sync_retries x then xmodem_fail XMODEM_ERR_TIMEOUT x
        else (None, [], x)
      else if e = XMODEM_ERR_UART then xmodem_retry XMODEM_ERR_UART [XMODEM_NAK] x
      else xmodem_retry XMODEM_ERR_PROTOCOL [] x)"
| "xmodem_react dst (EvCancel True) x = (Some (XMODEM_ERR_CANCELLED, None), [], x)"
| "xmodem_react dst (EvCancel False) x = (None, [], x)"
| "xmodem_react dst EvEot x =
     (if \<not> header_ready x \<or> stream_offset x < image_size x
      then xmodem_fail XMODEM_ERR_IMAGE x
      else (Some (XMODEM_OK, Some (image_size x - BOOT_IMAGE_HEADER_SIZE)), [XMODEM_ACK], x))"
| "xmodem_react dst (EvNoise c) x = xmodem_retry XMODEM_ERR_PROTOCOL [] x"
| "xmodem_react dst (EvBlock r) x =
     (let x1 = x\<lparr>sync_started := True\<rparr>
      in case r of
           Inl e \<Rightarrow> xmodem_retry e [XMODEM_NAK] x1
         | Inr (block_no, data) \<Rightarrow> xmodem_block dst block_no data x1)"

text \<open>One turn of the loop.\<close>

definition xmodem_turn ::
    "'d bus \<Rightarrow> u32 \<Rightarrow> xm \<Rightarrow> 'd \<Rightarrow> ((xmodem_result \<times> u32 option) option \<times> xm \<times> 'd) option" where
  "xmodem_turn b dst x d =
     do {
       (x1, d1) \<leftarrow> xmodem_sync b x d;
       (ev, d2) \<leftarrow> xmodem_receive b d1;
       let (r, reply, x2) = xmodem_react dst ev x1;
       d3 \<leftarrow> put_bytes b reply d2;
       Some (r, x2, d3)
     }"

partial_function (option) xmodem_loop ::
    "'d bus \<Rightarrow> u32 \<Rightarrow> xm \<Rightarrow> 'd \<Rightarrow> ((xmodem_result \<times> u32 option) \<times> xm \<times> 'd) option" where
  "xmodem_loop b dst q d =
     (case xmodem_turn b dst q d of
        None \<Rightarrow> None
      | Some (Some r, q1, d1) \<Rightarrow> Some (r, q1, d1)
      | Some (None, q1, d1) \<Rightarrow> xmodem_loop b dst q1 d1)"

text \<open>\<open>outs\<close> says that \<open>size_out\<close> is not NULL.\<close>

definition xmodem_load_boot_image ::
    "'d bus \<Rightarrow> u32 \<Rightarrow> bool \<Rightarrow> memory \<Rightarrow> 'd \<Rightarrow> (xmodem_result \<times> u32 option \<times> memory \<times> 'd) option" where
  "xmodem_load_boot_image b dst outs m d =
     (if \<not> outs then Some (XMODEM_ERR_IMAGE, None, m, d)
      else map_option (\<lambda>((rc, sz), x, d'). (rc, sz, xm_mem x, d'))
        (xmodem_loop b dst (xm_init m)
          (uart_clear_status b (UART_STATUS_RX_OVERRUN OR UART_STATUS_RX_FRAMEERR) d)))"

text \<open>
  The states at the head of the loop, whether or not it ever returns, with the stream of the
  blocks accepted on the way: the data of each block that carried the expected number.
\<close>

fun accepted :: "xm \<Rightarrow> xmodem_event \<Rightarrow> u8 list" where
  "accepted x (EvBlock (Inr (n, data))) = (if n = expected_block x then data else [])"
| "accepted x _ = []"

inductive xmodem_reaches :: "'d bus \<Rightarrow> u32 \<Rightarrow> xm \<Rightarrow> 'd \<Rightarrow> u8 list \<Rightarrow> xm \<Rightarrow> 'd \<Rightarrow> bool"
  for b dst x0 d0 where
  start: "xmodem_reaches b dst x0 d0 [] x0 d0"
| turn: "xmodem_reaches b dst x0 d0 st x d \<Longrightarrow> xmodem_sync b x d = Some (x1, d1) \<Longrightarrow>
    xmodem_receive b d1 = Some (ev, d2) \<Longrightarrow> xmodem_react dst ev x1 = (None, out, x') \<Longrightarrow>
    put_bytes b out d2 = Some d' \<Longrightarrow> xmodem_reaches b dst x0 d0 (st @ accepted x1 ev) x' d'"

section \<open>The checksum detects a changed byte\<close>

lemma bit_crc16_bit:
  "bit (crc16_bit c) n \<longleftrightarrow> n < 16 \<and> (n \<noteq> 0 \<and> bit c (n - 1)) \<noteq> (bit c 15 \<and> bit (0x1021 :: u32) n)"
proof -
  have top: "c AND 0x8000 \<noteq> 0 \<longleftrightarrow> bit c 15"
    using and_exp_eq_0_iff_not_bit [of c 15] by simp
  have m: "(0xFFFF :: u32) = Bit_Operations.mask 16"
    by (simp add: mask_eq_exp_minus_1)
  define p where "p = push_bit 1 c"
  have p: "bit p k \<longleftrightarrow> k < 32 \<and> k \<noteq> 0 \<and> bit c (k - 1)" for k
    unfolding p_def bit_push_bit_iff by auto
  show ?thesis
    unfolding crc16_bit_def top m p_def [symmetric]
    by (cases "n < 16") (auto simp: bit_and_iff bit_mask_iff bit_xor_iff p)
qed

lemma crc16_bit_inj:
  assumes "crc16_bit c = crc16_bit c'" and "\<And>n. 16 \<le> n \<Longrightarrow> \<not> bit c n \<and> \<not> bit c' n"
  shows "c = c'"
proof (rule bit_word_eqI)
  fix n
  have e: "bit (crc16_bit c) k \<longleftrightarrow> bit (crc16_bit c') k" for k using assms(1) by simp
  have "bit (0x1021 :: u32) 0" by simp
  with e [of 0] have top: "bit c 15 \<longleftrightarrow> bit c' 15" by (simp add: bit_crc16_bit)
  show "bit c n \<longleftrightarrow> bit c' n"
  proof (cases "n < 15")
    case True
    with e [of "Suc n"] top show ?thesis by (auto simp: bit_crc16_bit)
  next
    case False
    then have "n = 15 \<or> 16 \<le> n" by auto
    with top assms(2) show ?thesis by auto
  qed
qed

definition crc16_range :: "u32 \<Rightarrow> bool" where
  "crc16_range c \<longleftrightarrow> (\<forall>n\<ge>16. \<not> bit c n)"

lemma crc16_range_0 [simp]: "crc16_range 0"
  by (simp add: crc16_range_def)

lemma crc16_range_bit [simp]: "crc16_range (crc16_bit c)"
  by (simp add: crc16_range_def bit_crc16_bit)

lemma crc16_range_byte [simp]: "crc16_range (crc16_byte c b)"
  by (simp add: crc16_byte_def numeral_eq_Suc)

lemma crc16_range_xor: "crc16_range c \<Longrightarrow> crc16_range (c XOR push_bit 8 (ucast (b :: u8)))"
  using bit_imp_le_length [of b]
  by (auto simp: crc16_range_def bit_xor_iff bit_push_bit_iff bit_ucast_iff)
    (metis add.commute add_le_imp_le_diff linorder_not_le numeral_Bit0)

lemma crc16_funpow_inj:
  "(crc16_bit ^^ k) c = (crc16_bit ^^ k) c' \<Longrightarrow> crc16_range c \<Longrightarrow> crc16_range c' \<Longrightarrow> c = c'"
proof (induction k arbitrary: c c')
  case (Suc k)
  then have "crc16_bit c = crc16_bit c'"
    by (auto simp: funpow_Suc_right simp del: funpow.simps)
  with Suc.prems(2,3) show ?case by (auto intro: crc16_bit_inj simp: crc16_range_def)
qed simp

lemma crc16_byte_inj:
  assumes "crc16_byte c b = crc16_byte c' b'" and "crc16_range c" "crc16_range c'"
  shows "c XOR push_bit 8 (ucast b) = c' XOR push_bit 8 (ucast b')"
  using assms crc16_funpow_inj [of 8] by (auto simp: crc16_byte_def crc16_range_xor)

lemma crc16_byte_inj_crc:
  "crc16_byte c b = crc16_byte c' b \<Longrightarrow> crc16_range c \<Longrightarrow> crc16_range c' \<Longrightarrow> c = c'"
  by (drule crc16_byte_inj) (auto simp: bit_eq_iff bit_xor_iff)

lemma crc16_byte_inj_byte:
  assumes "crc16_byte c b = crc16_byte c b'" and "crc16_range c"
  shows "b = b'"
proof -
  have e: "push_bit 8 (ucast b :: u32) = push_bit 8 (ucast b')"
    using crc16_byte_inj [OF assms(1,2,2)] by (auto simp: bit_eq_iff bit_xor_iff)
  show ?thesis
  proof (rule bit_word_eqI)
    fix n assume "n < LENGTH(8)"
    with arg_cong [OF e, of "\<lambda>w. bit w (n + 8)"] show "bit b n \<longleftrightarrow> bit b' n"
      by (simp add: bit_push_bit_iff bit_ucast_iff)
  qed
qed

lemma crc16_fold_range: "crc16_range c \<Longrightarrow> crc16_range (foldl crc16_byte c bs)"
  by (induction bs arbitrary: c) simp_all

lemma crc16_fold_inj:
  "foldl crc16_byte c bs = foldl crc16_byte c' bs \<Longrightarrow> crc16_range c \<Longrightarrow> crc16_range c' \<Longrightarrow> c = c'"
  by (induction bs arbitrary: c c') (simp, metis crc16_byte_inj_crc crc16_range_byte foldl_Cons)

lemma crc16_ucast_inj:
  assumes "(ucast c :: u16) = ucast c'" and "crc16_range c" "crc16_range c'"
  shows "c = c'"
proof (rule bit_word_eqI)
  fix n
  from arg_cong [OF assms(1), of "\<lambda>w. bit w n"] assms(2,3) show "bit c n \<longleftrightarrow> bit c' n"
    by (cases "n < 16") (auto simp: bit_ucast_iff crc16_range_def not_less)
qed

section \<open>The stored image\<close>

text \<open>
  \<open>st\<close> is the part of the byte stream stored so far: first the header fills up; once it is
  accepted, memory holds the payload bytes and everything after them is padding.
\<close>

definition store_inv :: "u32 \<Rightarrow> memory \<Rightarrow> u8 list \<Rightarrow> xm \<Rightarrow> bool" where
  "store_inv dst m0 st x \<longleftrightarrow> length (header_buf x) = 12 \<and>
     (if length st < 12
      then \<not> header_ready x \<and> xm_mem x = m0 \<and> take (length st) (header_buf x) = st
      else header_ready x \<and>
        (\<exists>t d p. boot_image_parse_header (Some (take 12 st)) True dst = Inr (t, d, p) \<and>
           image_size x = BOOT_IMAGE_HEADER_SIZE + p) \<and>
        xm_mem x = store_bytes dst (take (unat (image_size x) - 12) (drop 12 st)) m0 \<and>
        set (drop (unat (image_size x)) st) \<subseteq> {0x1A})"

lemma store_inv_upd [simp]:
  "store_inv dst m0 st (x\<lparr>expected_block := e\<rparr>) \<longleftrightarrow> store_inv dst m0 st x"
  "store_inv dst m0 st (x\<lparr>stream_offset := u\<rparr>) \<longleftrightarrow> store_inv dst m0 st x"
  "store_inv dst m0 st (x\<lparr>sync_started := v\<rparr>) \<longleftrightarrow> store_inv dst m0 st x"
  "store_inv dst m0 st (x\<lparr>sync_retries := u\<rparr>) \<longleftrightarrow> store_inv dst m0 st x"
  "store_inv dst m0 st (x\<lparr>block_retries := u\<rparr>) \<longleftrightarrow> store_inv dst m0 st x"
  by (simp_all add: store_inv_def)

lemma store_inv_image:
  assumes "store_inv dst m0 st x" and "header_ready x"
  shows "12 \<le> length st" and "12 \<le> unat (image_size x)" and "0x80000000 \<le> unat dst"
    and "unat dst + (unat (image_size x) - 12) \<le> 0x87000000"
proof -
  from assms show l: "12 \<le> length st" by (auto simp: store_inv_def split: if_splits)
  with assms obtain t d p where
    p: "boot_image_parse_header (Some (take 12 st)) True dst = Inr (t, d, p)"
    and i: "image_size x = BOOT_IMAGE_HEADER_SIZE + p"
    by (auto simp: store_inv_def)
  show d: "0x80000000 \<le> unat dst" using parse_header_OkD(4) [OF p] by (simp add: word_le_nat_alt)
  have u: "unat (image_size x) = 12 + unat p"
    unfolding i using parse_header_OkD(7) [OF p] d by (subst unat_plus_no_wrap) simp_all
  show "12 \<le> unat (image_size x)" "unat dst + (unat (image_size x) - 12) \<le> 0x87000000"
    using u parse_header_OkD(7) [OF p] by simp_all
qed

lemma store_inv_frame:
  assumes inv: "store_inv dst m0 st x" and ch: "xm_mem x a \<noteq> m0 a"
  shows "0x80000000 \<le> unat dst \<and> unat dst \<le> unat a \<and> unat a < 0x87000000"
proof -
  from inv ch have l: "\<not> length st < 12" and rdy: "header_ready x"
    and m: "xm_mem x = store_bytes dst (take (unat (image_size x) - 12) (drop 12 st)) m0"
    by (auto simp: store_inv_def split: if_splits)
  note b = store_inv_image [OF inv rdy]
  define bs where "bs = take (unat (image_size x) - 12) (drop 12 st)"
  have len: "length bs \<le> unat (image_size x) - 12" by (simp add: bs_def)
  have "unat (a - dst) < length bs"
    using store_bytes_outside [of bs a dst m0] ch m len b(4)
    by (cases "length bs \<le> unat (a - dst)") (simp_all add: bs_def [symmetric])
  then have off: "unat (a - dst) < unat (image_size x) - 12" using len by simp
  have "unat (dst + (a - dst)) = unat dst + unat (a - dst)"
    using off b(4) by (intro unat_plus_no_wrap) simp
  then have "unat a = unat dst + unat (a - dst)" by simp
  with off b(3,4) show ?thesis by simp
qed

text \<open>One byte: either the invariant moves on, or the block is refused and memory stays.\<close>

lemma take_Suc_update:
  "i < length xs \<Longrightarrow> take (Suc i) (xs[i := b]) = take i xs @ [b]"
  by (simp add: take_Suc_conv_app_nth)

lemma store_byte_inv:
  assumes inv: "store_inv dst m0 st x" and len: "length st < 0x10000000"
    and pad: "header_ready x \<Longrightarrow> length st < unat (image_size x) + 128"
    and ret: "store_byte dst (of_nat (length st)) byte x = (ok, x')"
  shows "(ok \<longrightarrow> store_inv dst m0 (st @ [byte]) x') \<and> (\<not> ok \<longrightarrow> xm_mem x' = xm_mem x)"
proof -
  have u: "unat (of_nat (length st) :: u32) = length st"
    using len by (intro unat_of_nat_u32) simp
  show ?thesis
  proof (cases "length st < 12")
    case True
    define h where "h = (header_buf x)[length st := byte]"
    from inv True have hl: "length (header_buf x) = 12" "\<not> header_ready x" "xm_mem x = m0"
      "take (length st) (header_buf x) = st" by (auto simp: store_inv_def)
    then have th: "take (Suc (length st)) h = st @ [byte]" "length h = 12"
      using True by (simp_all add: h_def take_Suc_update)
    have lt: "(of_nat (length st) :: u32) < 12" using True by (simp add: word_less_nat_alt u)
    have "unat ((of_nat (length st) :: u32) + 1) = Suc (length st)"
      using True u by (subst unat_plus_no_wrap) simp_all
    then have eq: "(of_nat (length st) :: u32) + 1 = 12 \<longleftrightarrow> length st = 11"
      by (auto simp: word_unat_eq_iff)
    show ?thesis
    proof (cases "length st = 11")
      case False
      with ret lt eq have "ok" "x' = x\<lparr>header_buf := h\<rparr>"
        by (simp_all add: store_byte_def h_def u)
      with hl th True False show ?thesis by (simp add: store_inv_def)
    next
      case eleven: True
      then have h: "h = st @ [byte]" using th by simp
      show ?thesis
      proof (cases "boot_image_parse_header (Some h) True dst")
        case (Inl e)
        with ret lt eq eleven show ?thesis by (auto simp: store_byte_def h_def u)
      next
        case (Inr r)
        then obtain t d p where r: "boot_image_parse_header (Some h) True dst = Inr (t, d, p)"
          by (cases r) auto
        with ret lt eq eleven have "ok"
          "x' = x\<lparr>header_buf := h, image_size := BOOT_IMAGE_HEADER_SIZE + p, header_ready := True\<rparr>"
          by (simp_all add: store_byte_def h_def u)
        with hl h th r eleven parse_header_OkD(4,7) [OF r] show ?thesis
          by (auto simp: store_inv_def word_le_nat_alt unat_plus_no_wrap)
      qed
    qed
  next
    case False
    with inv have rdy: "header_ready x" by (auto simp: store_inv_def)
    note b = store_inv_image [OF inv rdy]
    from inv False have mem:
      "xm_mem x = store_bytes dst (take (unat (image_size x) - 12) (drop 12 st)) m0"
      and pd: "set (drop (unat (image_size x)) st) \<subseteq> {0x1A}"
      by (auto simp: store_inv_def)
    have nlt: "\<not> (of_nat (length st) :: u32) < 12" using False by (simp add: word_less_nat_alt u)
    have lt: "(of_nat (length st) :: u32) < image_size x \<longleftrightarrow> length st < unat (image_size x)"
      by (simp add: word_less_nat_alt u)
    have "unat (image_size x + 128) = unat (image_size x) + 128"
      using b(4) b(2) by (subst unat_plus_no_wrap) simp_all
    then have lt128: "(of_nat (length st) :: u32) < image_size x + 128"
      using pad [OF rdy] by (simp add: word_less_nat_alt u)
    show ?thesis
    proof (cases "length st < unat (image_size x)")
      case True
      with ret nlt lt rdy have "ok"
        and x': "x' = x\<lparr>xm_mem := (xm_mem x)(dst + of_nat (length st) - 12 := byte)\<rparr>"
        by (simp_all add: store_byte_def)
      have "dst + of_nat (length st) - 12 = dst + of_nat (length st - 12)"
        using False by (simp add: of_nat_diff)
      note x' = x' [unfolded this]
      have "take (unat (image_size x) - 12) (drop 12 (st @ [byte])) =
          take (unat (image_size x) - 12) (drop 12 st) @ [byte]"
        using True False by simp
      moreover have "length (take (unat (image_size x) - 12) (drop 12 st)) = length st - 12"
        using True by simp
      ultimately have "xm_mem x' =
          store_bytes dst (take (unat (image_size x) - 12) (drop 12 (st @ [byte]))) m0"
        by (simp add: x' mem store_bytes_append min_absorb1)
      with inv False True x' \<open>ok\<close> show ?thesis by (auto simp: store_inv_def)
    next
      case ge: False
      with ret nlt lt rdy lt128 have "ok = (byte = 0x1A)" "x' = x"
        by (auto simp: store_byte_def not_less)
      with inv False ge b show ?thesis by (auto simp: store_inv_def)
    qed
  qed
qed

text \<open>The fields a block store does not touch.\<close>

definition same_counters :: "xm \<Rightarrow> xm \<Rightarrow> bool" where
  "same_counters x x' \<longleftrightarrow> expected_block x' = expected_block x \<and>
     stream_offset x' = stream_offset x \<and> sync_started x' = sync_started x \<and>
     sync_retries x' = sync_retries x \<and> block_retries x' = block_retries x \<and>
     (header_ready x \<longrightarrow> header_ready x' \<and> image_size x' = image_size x)"

lemma same_counters_trans:
  "same_counters x y \<Longrightarrow> same_counters y z \<Longrightarrow> same_counters x z"
  by (auto simp: same_counters_def)

lemma store_byte_counters:
  "store_byte dst (of_nat (length st)) byte x = (ok, x') \<Longrightarrow> store_inv dst m0 st x \<Longrightarrow>
   length st < 0x10000000 \<Longrightarrow> same_counters x x'"
  by (auto simp: store_byte_def same_counters_def store_inv_def Let_def word_less_nat_alt
      unat_of_nat_u32 split: if_splits sum.splits)

lemma store_loop_inv:
  assumes "store_inv dst m0 st x" and "length st + length bs < 0x10000000"
    and "header_ready x \<Longrightarrow> length st + length bs \<le> unat (image_size x) + 128"
    and "\<not> header_ready x \<Longrightarrow> length st + length bs \<le> 128"
    and "store_loop dst (of_nat (length st)) bs x = (ok, x')"
  shows "(if ok then store_inv dst m0 (st @ bs) x' \<and> same_counters x x'
     else \<exists>k x1. store_inv dst m0 (st @ take k bs) x1 \<and> xm_mem x' = xm_mem x1)"
  using assms
proof (induction bs arbitrary: st x)
  case Nil
  then show ?case by (auto simp: same_counters_def)
next
  case (Cons byte bs)
  obtain ok1 x1 where sb: "store_byte dst (of_nat (length st)) byte x = (ok1, x1)"
    by (cases "store_byte dst (of_nat (length st)) byte x")
  have len: "length st < 0x10000000" using Cons.prems(2) by simp
  have pad: "length st < unat (image_size x) + 128" if "header_ready x"
    using Cons.prems(3) [OF that] by simp
  note inv1 = store_byte_inv [OF Cons.prems(1) len pad sb]
  note cnt = store_byte_counters [OF sb Cons.prems(1) len]
  show ?case
  proof (cases ok1)
    case False
    with Cons.prems(5) sb inv1 Cons.prems(1) show ?thesis
      by (auto intro!: exI [of _ 0] exI [of _ x])
  next
    case True
    with inv1 have i1: "store_inv dst m0 (st @ [byte]) x1" by simp
    have rdy: "length (st @ [byte]) + length bs \<le> unat (image_size x1) + 128" if "header_ready x1"
    proof (cases "header_ready x")
      case True
      with Cons.prems(3) cnt show ?thesis by (simp add: same_counters_def)
    next
      case False
      with Cons.prems(4) show ?thesis by simp
    qed
    have nrdy: "length (st @ [byte]) + length bs \<le> 128" if "\<not> header_ready x1"
      using that Cons.prems(4) cnt by (auto simp: same_counters_def)
    have go: "store_loop dst (of_nat (length (st @ [byte]))) bs x1 = (ok, x')"
      using Cons.prems(5) sb True by (simp add: add.commute)
    have l: "length (st @ [byte]) + length bs < 0x10000000" using Cons.prems(2) by simp
    note IH = Cons.IH [OF i1 l rdy nrdy go]
    show ?thesis
    proof (cases ok)
      case True
      with IH cnt show ?thesis by (auto intro: same_counters_trans)
    next
      case False
      with IH obtain k x2 where "store_inv dst m0 (st @ take (Suc k) (byte # bs)) x2"
        "xm_mem x' = xm_mem x2" by auto
      with False show ?thesis by (auto intro!: exI [of _ "Suc k"] exI [of _ x2])
    qed
  qed
qed

text \<open>
  The loop invariant: \<open>st\<close> is the concatenation of the accepted blocks, the counters agree
  with its length, and at most one block of padding follows the image.
\<close>

definition xm_inv :: "u32 \<Rightarrow> memory \<Rightarrow> u8 list \<Rightarrow> xm \<Rightarrow> bool" where
  "xm_inv dst m0 st x \<longleftrightarrow> store_inv dst m0 st x \<and> stream_offset x = of_nat (length st) \<and>
     128 dvd length st \<and> expected_block x = of_nat (length st div 128) + 1 \<and>
     (header_ready x \<longrightarrow> length st < unat (image_size x) + 128)"

lemma xm_inv_init: "xm_inv dst m [] (xm_init m)"
  by (simp add: xm_inv_def store_inv_def xm_init_def)

lemma xm_inv_bound:
  assumes "xm_inv dst m0 st x"
  shows "length st < 0x8000000"
proof (cases "header_ready x")
  case True
  with assms have si: "store_inv dst m0 st x" and l: "length st < unat (image_size x) + 128"
    by (simp_all add: xm_inv_def)
  have "unat (image_size x) \<le> 0x700000C"
    using store_inv_image(2-4) [OF si True] by linarith
  with l show ?thesis by simp
next
  case False
  with assms show ?thesis by (auto simp: xm_inv_def store_inv_def split: if_splits)
qed

lemma xm_inv_upd [simp]:
  "xm_inv dst m0 st (x\<lparr>sync_started := u\<rparr>) \<longleftrightarrow> xm_inv dst m0 st x"
  "xm_inv dst m0 st (x\<lparr>sync_retries := v\<rparr>) \<longleftrightarrow> xm_inv dst m0 st x"
  "xm_inv dst m0 st (x\<lparr>block_retries := v\<rparr>) \<longleftrightarrow> xm_inv dst m0 st x"
  by (simp_all add: xm_inv_def store_inv_def)

lemma xm_inv_offset:
  assumes "xm_inv dst m0 st x"
  shows "stream_offset x < image_size x \<longleftrightarrow> length st < unat (image_size x)"
  using assms xm_inv_bound [OF assms]
  by (simp add: xm_inv_def word_less_nat_alt unat_of_nat_u32)

lemma xm_inv_ready_iff: "xm_inv dst m0 st x \<Longrightarrow> header_ready x \<longleftrightarrow> st \<noteq> []"
  by (auto simp: xm_inv_def store_inv_def split: if_splits dest: dvd_imp_le)

lemma store_block_inv:
  assumes inv: "xm_inv dst m0 st x" and data: "length data = 128"
    and ret: "store_block data dst x = (ok, x')"
  shows "(ok \<longrightarrow> store_inv dst m0 (st @ data) x' \<and> expected_block x' = expected_block x \<and>
      stream_offset x' = of_nat (length (st @ data)) \<and>
      (header_ready x' \<longrightarrow> length (st @ data) < unat (image_size x') + 128)) \<and>
    (\<not> ok \<longrightarrow> (\<exists>st1 x1. store_inv dst m0 st1 x1 \<and> xm_mem x' = xm_mem x1))"
proof (cases "header_ready x \<and> image_size x \<le> stream_offset x")
  case True
  with ret inv show ?thesis by (auto simp: store_block_def xm_inv_def)
next
  case False
  obtain r x1 where sl: "store_loop dst (stream_offset x) data x = (r, x1)"
    by (cases "store_loop dst (stream_offset x) data x")
  with ret False have ok: "ok = r"
    and x': "r \<Longrightarrow> x' = x1\<lparr>stream_offset := stream_offset x + 128\<rparr>" "\<not> r \<Longrightarrow> x' = x1"
    by (auto simp: store_block_def split: bool.splits)
  from inv have si: "store_inv dst m0 st x" and so: "stream_offset x = of_nat (length st)"
    by (simp_all add: xm_inv_def)
  have b: "length st + length data < 0x10000000" using xm_inv_bound [OF inv] data by simp
  have r1: "length st + length data \<le> unat (image_size x) + 128" if "header_ready x"
    using False that xm_inv_offset [OF inv] data by (simp add: not_le)
  have r2: "length st + length data \<le> 128" if "\<not> header_ready x"
    using that xm_inv_ready_iff [OF inv] data by simp
  note L = store_loop_inv [OF si b r1 r2 sl [unfolded so]]
  show ?thesis
  proof (cases r)
    case True
    with L have i1: "store_inv dst m0 (st @ data) x1" and c: "same_counters x x1" by auto
    have "length (st @ data) < unat (image_size x1) + 128" if "header_ready x1"
    proof (cases "header_ready x")
      case True
      with False c xm_inv_offset [OF inv] data show ?thesis
        by (simp add: same_counters_def not_le)
    next
      case f: False
      then have "st = []" using xm_inv_ready_iff [OF inv] by simp
      with data store_inv_image(2) [OF i1 that] show ?thesis by simp
    qed
    with True i1 c x'(1) ok so data show ?thesis
      by (auto simp: same_counters_def store_inv_def)
  next
    case False
    with L ok x'(2) show ?thesis by auto
  qed
qed

section \<open>Reactions\<close>

text \<open>A complete image in memory, and the size reported for it.\<close>

definition image_loaded :: "u32 \<Rightarrow> memory \<Rightarrow> u8 list \<Rightarrow> u32 option \<Rightarrow> memory \<Rightarrow> bool" where
  "image_loaded dst m0 st sz m \<longleftrightarrow>
     (\<exists>t d p. boot_image_parse_header (Some (take 12 st)) True dst = Inr (t, d, p) \<and>
        sz = Some p \<and> 12 + unat p \<le> length st \<and> length st < 12 + unat p + 128 \<and>
        set (drop (12 + unat p) st) \<subseteq> {0x1A} \<and>
        m = store_bytes dst (take (unat p) (drop 12 st)) m0)"

definition event_ok :: "xmodem_event \<Rightarrow> bool" where
  "event_ok ev \<longleftrightarrow> ev \<noteq> EvBlock (Inl XMODEM_OK) \<and>
     (\<forall>n data. ev = EvBlock (Inr (n, data)) \<longrightarrow> length data = 128)"

definition mem_frame :: "u32 \<Rightarrow> memory \<Rightarrow> memory \<Rightarrow> bool" where
  "mem_frame dst m0 m \<longleftrightarrow> (\<forall>a. m a \<noteq> m0 a \<longrightarrow>
     0x80000000 \<le> unat dst \<and> unat dst \<le> unat a \<and> unat a < 0x87000000)"

lemma mem_frameI: "store_inv dst m0 st x \<Longrightarrow> mem_frame dst m0 (xm_mem x)"
  using store_inv_frame by (simp add: mem_frame_def)

lemma xm_inv_frame: "xm_inv dst m0 st x \<Longrightarrow> mem_frame dst m0 (xm_mem x)"
  by (auto simp: xm_inv_def intro: mem_frameI)

lemma xmodem_retry_cases:
  assumes "xmodem_retry rc reply x = (r, out, x')"
  shows "x' = x\<lparr>block_retries := block_retries x + 1\<rparr>"
    and "r = None \<or> r = Some (rc, None)"
  using assms by (auto simp: xmodem_retry_def xmodem_fail_def Let_def split: if_splits)

lemma xmodem_block_inv:
  assumes inv: "xm_inv dst m0 st x" and data: "length data = 128"
    and ret: "xmodem_block dst n data x = (r, out, x')"
  shows "mem_frame dst m0 (xm_mem x') \<and> r \<noteq> Some (XMODEM_OK, sz) \<and>
    (r = None \<longrightarrow> xm_inv dst m0 (st @ (if n = expected_block x then data else [])) x')"
proof -
  consider (dup) "n = expected_block x - 1" | (wrong) "n \<noteq> expected_block x - 1" "n \<noteq> expected_block x"
    | (next_block) "n = expected_block x" "n \<noteq> expected_block x - 1" by blast
  then show ?thesis
  proof cases
    case dup
    with ret inv have "r = None" "xm_inv dst m0 st x'" by (auto simp: xmodem_block_def)
    then show ?thesis using xm_inv_frame dup by (auto simp: eq_diff_eq)
  next
    case wrong
    with ret have "xmodem_retry XMODEM_ERR_PROTOCOL [XMODEM_NAK] x = (r, out, x')"
      by (simp add: xmodem_block_def)
    from xmodem_retry_cases [OF this] inv have "xm_inv dst m0 st x'"
      and "r = None \<or> r = Some (XMODEM_ERR_PROTOCOL, None)" by auto
    then show ?thesis using xm_inv_frame wrong by auto
  next
    case next_block
    obtain ok x1 where sb: "store_block data dst x = (ok, x1)" by (cases "store_block data dst x")
    note I = store_block_inv [OF inv data sb]
    show ?thesis
    proof (cases ok)
      case False
      with ret sb next_block have "r = Some (XMODEM_ERR_IMAGE, None)" "x' = x1"
        by (auto simp: xmodem_block_def xmodem_fail_def)
      with I False show ?thesis by (auto dest: mem_frameI)
    next
      case True
      with ret sb next_block have r: "r = None"
        and x': "x' = x1\<lparr>expected_block := expected_block x1 + 1, block_retries := 0\<rparr>"
        by (auto simp: xmodem_block_def)
      have div: "length (st @ data) div 128 = Suc (length st div 128)"
        using data by simp
      have "128 dvd length (st @ data)" using inv data by (simp add: xm_inv_def)
      moreover have "expected_block x' = of_nat (length (st @ data) div 128) + 1"
        unfolding div using True I inv by (simp add: x' xm_inv_def)
      ultimately have "xm_inv dst m0 (st @ data) x'"
        using True I by (simp add: xm_inv_def x')
      with r show ?thesis using xm_inv_frame next_block by auto
    qed
  qed
qed

lemma xm_inv_loaded:
  assumes inv: "xm_inv dst m0 st x" and rdy: "header_ready x" and "\<not> stream_offset x < image_size x"
  shows "image_loaded dst m0 st (Some (image_size x - BOOT_IMAGE_HEADER_SIZE)) (xm_mem x)"
proof -
  from inv rdy have st: "store_inv dst m0 st x" and l: "length st < unat (image_size x) + 128"
    by (auto simp: xm_inv_def)
  note b = store_inv_image [OF st rdy]
  from st b(1) obtain t d p where
    p: "boot_image_parse_header (Some (take 12 st)) True dst = Inr (t, d, p)"
    and i: "image_size x = BOOT_IMAGE_HEADER_SIZE + p"
    and m: "xm_mem x = store_bytes dst (take (unat (image_size x) - 12) (drop 12 st)) m0"
    and pd: "set (drop (unat (image_size x)) st) \<subseteq> {0x1A}"
    by (auto simp: store_inv_def)
  have u: "unat (image_size x) = 12 + unat p"
    unfolding i using parse_header_OkD(7) [OF p] b(3) by (subst unat_plus_no_wrap) simp_all
  show ?thesis
    using p m pd l assms(3) xm_inv_offset [OF inv] i
    unfolding image_loaded_def u by (auto simp: not_less)
qed

lemma xmodem_react_inv:
  assumes inv: "xm_inv dst m0 st x" and ev: "event_ok ev"
    and ret: "xmodem_react dst ev x = (r, out, x')"
  shows "mem_frame dst m0 (xm_mem x') \<and>
    (\<forall>sz. r = Some (XMODEM_OK, sz) \<longrightarrow> image_loaded dst m0 st sz (xm_mem x')) \<and>
    (r = None \<longrightarrow> xm_inv dst m0 (st @ accepted x ev) x')"
proof -
  have same: ?thesis if "accepted x ev = []" and "x' = x \<or> (\<exists>n. x' = x\<lparr>block_retries := n\<rparr>)
      \<or> (\<exists>n. x' = x\<lparr>sync_started := True, block_retries := n\<rparr>)" and "\<And>sz. r \<noteq> Some (XMODEM_OK, sz)"
  proof -
    from that(2) inv have "xm_inv dst m0 st x'" by auto
    with that(1,3) show ?thesis using xm_inv_frame by auto
  qed
  show ?thesis
  proof (cases ev)
    case (EvError e)
    with ret same show ?thesis
      by (auto simp: xmodem_fail_def xmodem_retry_def Let_def split: if_splits)
  next
    case (EvCancel c)
    with ret same show ?thesis by (cases c) auto
  next
    case EvEot
    show ?thesis
    proof (cases "\<not> header_ready x \<or> stream_offset x < image_size x")
      case True
      with EvEot ret same show ?thesis by (auto simp: xmodem_fail_def)
    next
      case False
      with EvEot ret have "r = Some (XMODEM_OK, Some (image_size x - BOOT_IMAGE_HEADER_SIZE))"
        "x' = x" by auto
      with xm_inv_loaded [OF inv] False inv show ?thesis
        by (auto dest: xm_inv_frame)
    qed
  next
    case (EvNoise c)
    with ret same show ?thesis
      by (auto simp: xmodem_retry_def xmodem_fail_def Let_def split: if_splits)
  next
    case (EvBlock blk)
    show ?thesis
    proof (cases blk)
      case (Inl e)
      show ?thesis
      proof (cases "e = XMODEM_OK")
        case True
        with EvBlock Inl ev show ?thesis by (simp add: event_ok_def)
      next
        case False
        with EvBlock Inl ret same show ?thesis
          by (auto simp: xmodem_retry_def xmodem_fail_def Let_def split: if_splits)
      qed
    next
      case (Inr nd)
      obtain n data where nd: "nd = (n, data)" by (cases nd)
      have "xm_inv dst m0 st (x\<lparr>sync_started := True\<rparr>)" using inv by simp
      moreover have "length data = 128" using ev EvBlock Inr nd by (simp add: event_ok_def)
      moreover have "xmodem_block dst n data (x\<lparr>sync_started := True\<rparr>) = (r, out, x')"
        using ret EvBlock Inr nd by simp
      ultimately show ?thesis using xmodem_block_inv EvBlock Inr nd by fastforce
    qed
  qed
qed

section \<open>What a turn reads\<close>

lemma getc_timeout_err:
  assumes "getc_timeout b t d = Some (r, d')"
  shows "r = Inl e \<Longrightarrow> e = XMODEM_ERR_TIMEOUT \<or> e = XMODEM_ERR_UART"
proof -
  obtain start d1 where "timer_get_count b d = (start, d1)" by (cases "timer_get_count b d")
  with assms have "poll_until (getc_try b start t) d1 = Some (r, d')"
    by (simp add: getc_timeout_def)
  then have "\<forall>e. r = Inl e \<longrightarrow> e = XMODEM_ERR_TIMEOUT \<or> e = XMODEM_ERR_UART"
    by (rule poll_until_rule [where P = "\<lambda>_. True"])
      (auto simp: getc_try_def Let_def split: prod.splits if_splits option.splits)
  then show "r = Inl e \<Longrightarrow> e = XMODEM_ERR_TIMEOUT \<or> e = XMODEM_ERR_UART" by simp
qed

lemma receive_bytes_result:
  "receive_bytes n b d = Some (r, d') \<Longrightarrow>
   r \<noteq> Inl XMODEM_OK \<and> (\<forall>bs. r = Inr bs \<longrightarrow> length bs = n)"
proof (induction n arbitrary: d r d')
  case (Suc n)
  then obtain c d1 where g: "getc_timeout b XMODEM_TIMEOUT_TICKS d = Some (c, d1)"
    by (auto simp: Option.bind_eq_Some_conv)
  show ?case
  proof (cases c)
    case (Inl e)
    with Suc.prems g getc_timeout_err [OF g] show ?thesis by auto
  next
    case (Inr byte)
    with Suc.prems g obtain rs d2 where "receive_bytes n b d1 = Some (rs, d2)"
      "r = map_sum id (\<lambda>bs. byte # bs) rs" by (auto simp: Option.bind_eq_Some_conv)
    with Suc.IH show ?thesis by (cases rs) auto
  qed
qed auto

text \<open>A failed block has an error code, and a block that is handed on has 128 bytes.\<close>

lemma receive_block_result:
  assumes "receive_block b d = Some (r, d')"
  shows "r \<noteq> Inl XMODEM_OK"
    and "r = Inr (n, data) \<Longrightarrow> length data = 128"
proof -
  from assms obtain c1 d1 c2 d2 where g1: "getc_timeout b XMODEM_TIMEOUT_TICKS d = Some (c1, d1)"
    and g2: "getc_timeout b XMODEM_TIMEOUT_TICKS d1 = Some (c2, d2)"
    by (auto simp: receive_block_def Option.bind_eq_Some_conv)
  have "r \<noteq> Inl XMODEM_OK \<and> (\<forall>n data. r = Inr (n, data) \<longrightarrow> length data = 128)"
  proof (cases c1)
    case (Inl e)
    with assms g1 g2 getc_timeout_err [OF g1] show ?thesis by (auto simp: receive_block_def)
  next
    case c1: (Inr bn)
    show ?thesis
    proof (cases c2)
      case (Inl e)
      with assms g1 g2 c1 getc_timeout_err [OF g2] show ?thesis by (auto simp: receive_block_def)
    next
      case c2: (Inr iv)
      from assms g1 g2 c1 c2 obtain bytes d3 where
        rb: "receive_bytes XMODEM_BLOCK_SIZE b d2 = Some (bytes, d3)"
        by (auto simp: receive_block_def Option.bind_eq_Some_conv)
      note R = receive_bytes_result [OF rb]
      show ?thesis
      proof (cases bytes)
        case (Inl e)
        with assms g1 g2 c1 c2 rb R show ?thesis by (auto simp: receive_block_def)
      next
        case bs: (Inr bs)
        from assms g1 g2 c1 c2 rb bs obtain hi d4 lo d5 where
          g4: "getc_timeout b XMODEM_TIMEOUT_TICKS d3 = Some (hi, d4)"
          and g5: "getc_timeout b XMODEM_TIMEOUT_TICKS d4 = Some (lo, d5)"
          and r: "r = (case (hi, lo) of (Inl e, _) \<Rightarrow> Inl e | (_, Inl e) \<Rightarrow> Inl e
            | (Inr crc_hi, Inr crc_lo) \<Rightarrow> check_block bn iv bs crc_hi crc_lo)"
          by (auto simp: receive_block_def Option.bind_eq_Some_conv)
        show ?thesis
          using r R bs getc_timeout_err [OF g4] getc_timeout_err [OF g5]
          by (cases hi; cases lo) (auto simp: check_block_def split: if_splits)
      qed
    qed
  qed
  then show "r \<noteq> Inl XMODEM_OK"
    and "r = Inr (n, data) \<Longrightarrow> length data = 128"
    by blast+
qed

lemma xmodem_receiveE:
  assumes "xmodem_receive b d = Some (ev, d')"
  obtains e where "getc_timeout b XMODEM_TIMEOUT_TICKS d = Some (Inl e, d')" "ev = EvError e"
  | d1 second where "getc_timeout b XMODEM_TIMEOUT_TICKS d = Some (Inr XMODEM_CAN, d1)"
      "getc_timeout b XMODEM_TIMEOUT_TICKS d1 = Some (second, d')"
      "ev = EvCancel (second = Inr XMODEM_CAN)"
  | "getc_timeout b XMODEM_TIMEOUT_TICKS d = Some (Inr XMODEM_EOT, d')" "ev = EvEot"
  | c where "getc_timeout b XMODEM_TIMEOUT_TICKS d = Some (Inr c, d')" "ev = EvNoise c"
      "c \<notin> {XMODEM_SOH, XMODEM_EOT, XMODEM_CAN}"
  | d1 r where "getc_timeout b XMODEM_TIMEOUT_TICKS d = Some (Inr XMODEM_SOH, d1)"
      "receive_block b d1 = Some (r, d')" "ev = EvBlock r"
proof -
  obtain c d1 where g: "getc_timeout b XMODEM_TIMEOUT_TICKS d = Some (c, d1)"
    using assms by (auto simp: xmodem_receive_def Option.bind_eq_Some_conv)
  show thesis
  proof (cases c)
    case (Inl e)
    with assms g that(1) show thesis by (auto simp: xmodem_receive_def)
  next
    case (Inr x)
    show thesis
    proof (cases "x \<in> {XMODEM_SOH, XMODEM_EOT, XMODEM_CAN}")
      case False
      with assms g Inr that(4) show thesis by (auto simp: xmodem_receive_def)
    next
      case True
      then consider "x = XMODEM_CAN" | "x = XMODEM_EOT" | "x = XMODEM_SOH" by auto
      then show thesis
      proof cases
        case 1
        with assms g Inr that(2) show thesis
          by (auto simp: xmodem_receive_def Option.bind_eq_Some_conv)
      next
        case 2
        with assms g Inr that(3) show thesis by (auto simp: xmodem_receive_def)
      next
        case 3
        with assms g Inr that(5) show thesis
          by (auto simp: xmodem_receive_def Option.bind_eq_Some_conv)
      qed
    qed
  qed
qed

lemma xmodem_receive_ok: "xmodem_receive b d = Some (ev, d') \<Longrightarrow> event_ok ev"
  unfolding event_ok_def
  by (elim xmodem_receiveE) (auto dest: receive_block_result)

section \<open>The loop\<close>

lemma xmodem_sync_fields:
  "xmodem_sync b x d = Some (x', d') \<Longrightarrow> x' = x \<or> x' = x\<lparr>sync_retries := sync_retries x + 1\<rparr>"
  by (auto simp: xmodem_sync_def split: if_splits)

lemma xmodem_turnE:
  assumes "xmodem_turn b dst x d = Some (r, x', d')"
  obtains x1 d1 ev d2 out where "xmodem_sync b x d = Some (x1, d1)"
    and "xmodem_receive b d1 = Some (ev, d2)" and "xmodem_react dst ev x1 = (r, out, x')"
    and "put_bytes b out d2 = Some d'"
proof -
  from assms obtain x1 d1 ev d2 where sy: "xmodem_sync b x d = Some (x1, d1)"
    and rc: "xmodem_receive b d1 = Some (ev, d2)"
    by (auto simp: xmodem_turn_def Option.bind_eq_Some_conv)
  obtain r' out x2 where re: "xmodem_react dst ev x1 = (r', out, x2)"
    by (cases "xmodem_react dst ev x1")
  with assms sy rc have "r' = r" "x2 = x'" "put_bytes b out d2 = Some d'"
    by (auto simp: xmodem_turn_def Option.bind_eq_Some_conv)
  with that sy rc re show thesis by simp
qed

lemma xmodem_turn_inv:
  assumes "xm_inv dst m0 st x" and "xmodem_turn b dst x d = Some (r, x', d')"
  shows "mem_frame dst m0 (xm_mem x') \<and>
    (\<forall>sz. r = Some (XMODEM_OK, sz) \<longrightarrow> image_loaded dst m0 st sz (xm_mem x'))"
proof -
  obtain x1 d1 ev d2 out where sy: "xmodem_sync b x d = Some (x1, d1)"
    and rc: "xmodem_receive b d1 = Some (ev, d2)" and re: "xmodem_react dst ev x1 = (r, out, x')"
    using assms(2) by (rule xmodem_turnE)
  have "xm_inv dst m0 st x1" using xmodem_sync_fields [OF sy] assms(1) by auto
  from xmodem_react_inv [OF this xmodem_receive_ok [OF rc] re] show ?thesis by simp
qed

lemma xmodem_reaches_inv:
  assumes "xmodem_reaches b dst x0 d0 st x d" and "xm_inv dst m0 [] x0"
  shows "xm_inv dst m0 st x"
  using assms(1)
proof induction
  case start
  with assms(2) show ?case .
next
  case (turn st x d x1 d1 ev d2 out x' d')
  have "xm_inv dst m0 st x1" using xmodem_sync_fields [OF turn.hyps(2)] turn.IH by auto
  from xmodem_react_inv [OF this xmodem_receive_ok [OF turn.hyps(3)] turn.hyps(4)]
  show ?case by simp
qed

lemma xmodem_reaches_trans:
  assumes "xmodem_reaches b dst x1 d1 st2 x2 d2" and "xmodem_reaches b dst x0 d0 st1 x1 d1"
  shows "xmodem_reaches b dst x0 d0 (st1 @ st2) x2 d2"
  using assms
proof induction
  case start
  then show ?case by simp
next
  case (turn st x d x1 d1 ev d2 out x' d')
  from xmodem_reaches.turn [OF turn.IH [OF turn.prems] turn.hyps(2-5)] show ?case by simp
qed

lemma xmodem_reaches_turn:
  assumes "xmodem_turn b dst x d = Some (None, x', d')"
  shows "\<exists>st. xmodem_reaches b dst x d st x' d'"
proof -
  obtain x1 d1 ev d2 out where "xmodem_sync b x d = Some (x1, d1)"
    "xmodem_receive b d1 = Some (ev, d2)" "xmodem_react dst ev x1 = (None, out, x')"
    "put_bytes b out d2 = Some d'" using assms by (rule xmodem_turnE)
  from xmodem_reaches.turn [OF xmodem_reaches.start this] show ?thesis by blast
qed

lemma xmodem_loop_reaches:
  assumes "xmodem_loop b dst x d = Some (res, x', d')"
  shows "\<exists>st x1 d1. xmodem_reaches b dst x d st x1 d1 \<and>
    xmodem_turn b dst x1 d1 = Some (Some res, x', d')"
proof -
  have "\<exists>st x1 d1. xmodem_reaches b dst x d st x1 d1 \<and>
    xmodem_turn b dst x1 d1 = Some (Some (fst (res, x', d')), snd (res, x', d'))"
  proof (rule xmodem_loop.raw_induct [where
        P = "\<lambda>b dst x d y. \<exists>st x1 d1. xmodem_reaches b dst x d st x1 d1 \<and>
          xmodem_turn b dst x1 d1 = Some (Some (fst y), snd y)", OF _ assms], goal_cases)
    case (1 loop b dst x d y)
    obtain r x1 d1 where t: "xmodem_turn b dst x d = Some (r, x1, d1)"
      using 1(2) by (cases "xmodem_turn b dst x d") auto
    show ?case
    proof (cases r)
      case None
      with 1(2) t have "loop b dst x1 d1 = Some y" by simp
      from 1(1) [OF this] obtain st x2 d2 where
        r2: "xmodem_reaches b dst x1 d1 st x2 d2"
        and t2: "xmodem_turn b dst x2 d2 = Some (Some (fst y), snd y)" by blast
      obtain st1 where "xmodem_reaches b dst x d st1 x1 d1"
        using xmodem_reaches_turn [OF t [unfolded None]] by blast
      from xmodem_reaches_trans [OF r2 this] t2 show ?thesis by blast
    next
      case (Some z)
      with 1(2) t have "y = (z, x1, d1)" by simp
      with Some t show ?thesis by (auto intro: xmodem_reaches.start)
    qed
  qed
  then show ?thesis by simp
qed

section \<open>A correct sender\<close>

text \<open>
  The sending side of the protocol, byte by byte: each block is SOH, the block number modulo
  256, its complement, 128 bytes (the last block padded with \<open>0x1A\<close>) and the CRC, high byte
  first; EOT ends the transmission.
\<close>

definition block_bytes :: "u8 \<Rightarrow> u8 list \<Rightarrow> u8 list" where
  "block_bytes n data =
     [XMODEM_SOH, n, NOT n] @ data @
       [ucast (drop_bit 8 (crc16_ccitt data)), ucast (crc16_ccitt data)]"

fun sender_bytes :: "u8 \<Rightarrow> u8 list \<Rightarrow> u8 list" where
  "sender_bytes n [] = [XMODEM_EOT]"
| "sender_bytes n (c # cs) =
     block_bytes n (take 128 (c # cs) @ replicate (128 - length (c # cs)) 0x1A)
       @ sender_bytes (n + 1) (drop 127 cs)"

lemma line_getc_timeout [simp]: "getc_timeout line_bus t (c # l) = Some (Inr c, l)"
proof -
  have "getc_try line_bus 0 t (c # l) = (Some (Inr c), l)"
    by (simp add: getc_try_def)
  then show ?thesis by (simp add: getc_timeout_def poll_until_Some)
qed

lemma line_receive_bytes: "receive_bytes (length bs) line_bus (bs @ l) = Some (Inr bs, l)"
  by (induction bs) simp_all

lemma crc_bytes:
  "push_bit 8 (ucast (ucast (drop_bit 8 w) :: u8)) OR ucast (ucast w :: u8) = (w :: u16)"
  by (rule bit_word_eqI) (auto simp: bit_or_iff bit_push_bit_iff bit_ucast_iff bit_drop_bit_eq)

lemma line_receive_block:
  assumes "length data = 128"
  shows "receive_block line_bus (tl (block_bytes n data) @ l) = Some (Inr (n, data), l)"
proof -
  have "n XOR NOT n = 0xFF" by (simp add: bit.xor_compl_right)
  then show ?thesis
    using line_receive_bytes [of data] assms
    by (simp add: receive_block_def block_bytes_def check_block_def crc_bytes)
qed

lemma line_receive:
  "length data = 128 \<Longrightarrow>
     xmodem_receive line_bus (block_bytes n data @ l) = Some (EvBlock (Inr (n, data)), l)"
  "xmodem_receive line_bus (XMODEM_EOT # l) = Some (EvEot, l)"
  using line_receive_block [of data n l]
  by (simp_all add: xmodem_receive_def block_bytes_def)

lemma line_sync:
  obtains x1 where "xmodem_sync line_bus x l = Some (x1, l)"
    and "x1 = x \<or> x1 = x\<lparr>sync_retries := sync_retries x + 1\<rparr>"
  by (cases "\<not> sync_started x \<and> sync_retries x < XMODEM_MAX_RETRIES") (auto simp: xmodem_sync_def)

text \<open>A stream that holds an acceptable image, with nothing but padding after it.\<close>

definition good_stream :: "u32 \<Rightarrow> u32 \<Rightarrow> u8 list \<Rightarrow> bool" where
  "good_stream dst p st \<longleftrightarrow> 12 + unat p \<le> length st \<and>
     (\<exists>t d. boot_image_parse_header (Some (take 12 st)) True dst = Inr (t, d, p)) \<and>
     set (drop (12 + unat p) st) \<subseteq> {0x1A}"

lemma good_stream_size:
  assumes "good_stream dst p st" and "store_inv dst m0 st1 x" and "st = st1 @ st2" and "header_ready x"
  shows "image_size x = 12 + p" and "unat (image_size x) = 12 + unat p"
proof -
  from assms(2,4) have "12 \<le> length st1" by (rule store_inv_image)
  with assms obtain t d p' where
    "boot_image_parse_header (Some (take 12 st)) True dst = Inr (t, d, p')"
    and i: "image_size x = BOOT_IMAGE_HEADER_SIZE + p'"
    by (auto simp: store_inv_def)
  with assms(1) have p: "p' = p"
    and q: "boot_image_parse_header (Some (take 12 st)) True dst = Inr (t, d, p)"
    by (auto simp: good_stream_def)
  from i p show "image_size x = 12 + p" by simp
  with parse_header_OkD(4,7) [OF q] show "unat (image_size x) = 12 + unat p"
    by (simp add: unat_plus_no_wrap word_le_nat_alt)
qed

lemma store_byte_good:
  assumes "good_stream dst p (st @ byte # rest)" and inv: "store_inv dst m0 st x"
    and len: "length st < 0x10000000"
  shows "fst (store_byte dst (of_nat (length st)) byte x)"
proof -
  have u: "unat (of_nat (length st) :: u32) = length st"
    using len by (intro unat_of_nat_u32) simp
  show ?thesis
  proof (cases "length st < 12")
    case True
    with inv have hl: "length (header_buf x) = 12" "take (length st) (header_buf x) = st"
      by (auto simp: store_inv_def)
    show ?thesis
    proof (cases "length st = 11")
      case eleven: True
      then have "(header_buf x)[11 := byte] = st @ [byte]"
        using take_Suc_update [of 11 "header_buf x" byte] hl by simp
      moreover have "take 12 (st @ byte # rest) = st @ [byte]" using eleven by simp
      ultimately show ?thesis
        using assms(1) eleven by (auto simp: store_byte_def good_stream_def)
    next
      case False
      then have "unat ((of_nat (length st) :: u32) + 1) \<noteq> 12"
        using True u by (subst unat_plus_no_wrap) simp_all
      then have "(of_nat (length st) :: u32) + 1 \<noteq> 12" by auto
      then show ?thesis using True by (simp add: store_byte_def word_less_nat_alt u Let_def)
    qed
  next
    case False
    with inv have "header_ready x" by (auto simp: store_inv_def)
    note sz = good_stream_size [OF assms(1) inv refl this]
    have "byte = 0x1A" if "unat (image_size x) \<le> length st"
    proof -
      from that have "drop (12 + unat p) (st @ byte # rest) = drop (12 + unat p) st @ byte # rest"
        by (simp add: sz(2))
      with assms(1) show ?thesis by (auto simp: good_stream_def)
    qed
    with False show ?thesis
      by (auto simp: store_byte_def word_less_nat_alt word_le_nat_alt u)
  qed
qed

lemma store_loop_good:
  assumes "good_stream dst p (st @ bs @ rest)" and "store_inv dst m0 st x"
    and "length st + length bs < 0x10000000"
    and "header_ready x \<Longrightarrow> length st + length bs \<le> unat (image_size x) + 128"
    and "\<not> header_ready x \<Longrightarrow> length st + length bs \<le> 128"
  shows "fst (store_loop dst (of_nat (length st)) bs x)"
  using assms
proof (induction bs arbitrary: st x)
  case (Cons byte bs)
  obtain ok1 x1 where sb: "store_byte dst (of_nat (length st)) byte x = (ok1, x1)"
    by (cases "store_byte dst (of_nat (length st)) byte x")
  have len: "length st < 0x10000000" using Cons.prems(3) by simp
  have ok1: ok1 using store_byte_good [of dst p st byte "bs @ rest" m0 x] Cons.prems(1,2) len sb by simp
  have pad: "length st < unat (image_size x) + 128" if "header_ready x"
    using Cons.prems(4) [OF that] by simp
  from store_byte_inv [OF Cons.prems(2) len pad sb] ok1
  have i1: "store_inv dst m0 (st @ [byte]) x1" by simp
  note cnt = store_byte_counters [OF sb Cons.prems(2) len]
  have rdy: "length (st @ [byte]) + length bs \<le> unat (image_size x1) + 128" if "header_ready x1"
    using cnt Cons.prems(4,5) by (cases "header_ready x") (simp_all add: same_counters_def)
  have nrdy: "length (st @ [byte]) + length bs \<le> 128" if "\<not> header_ready x1"
    using that Cons.prems(5) cnt by (auto simp: same_counters_def)
  have g: "good_stream dst p ((st @ [byte]) @ bs @ rest)" using Cons.prems(1) by simp
  have l: "length (st @ [byte]) + length bs < 0x10000000" using Cons.prems(3) by simp
  from Cons.IH [OF g i1 l rdy nrdy] sb ok1 show ?case by (simp add: add.commute)
qed simp

text \<open>The next block of a good stream is stored.\<close>

lemma xmodem_block_good:
  assumes inv: "xm_inv dst m0 st x" and data: "length data = 128"
    and good: "good_stream dst p (st @ data @ rest)"
    and need: "st \<noteq> [] \<Longrightarrow> length st < 12 + unat p"
  shows "\<exists>out x'. xmodem_block dst (expected_block x) data x = (None, out, x') \<and>
    xm_inv dst m0 (st @ data) x' \<and> expected_block x' = expected_block x + 1"
proof -
  from inv have si: "store_inv dst m0 st x" and so: "stream_offset x = of_nat (length st)"
    by (simp_all add: xm_inv_def)
  have lt: "stream_offset x < image_size x" if "header_ready x"
    using need xm_inv_ready_iff [OF inv] that xm_inv_offset [OF inv]
      good_stream_size(2) [OF good si refl that] by simp
  have "fst (store_loop dst (of_nat (length st)) data x)"
  proof (rule store_loop_good [OF good si])
    show "length st + length data < 0x10000000" using xm_inv_bound [OF inv] data by simp
    show "header_ready x \<Longrightarrow> length st + length data \<le> unat (image_size x) + 128"
      using lt xm_inv_offset [OF inv] data by simp
    show "\<not> header_ready x \<Longrightarrow> length st + length data \<le> 128"
      using xm_inv_ready_iff [OF inv] data by simp
  qed
  then obtain x1 where "store_loop dst (stream_offset x) data x = (True, x1)"
    by (cases "store_loop dst (stream_offset x) data x") (simp add: so)
  then obtain x2 where sb: "store_block data dst x = (True, x2)"
    using lt by (auto simp: store_block_def not_le)
  have ne: "expected_block x \<noteq> expected_block x - 1" by simp
  define x3 where "x3 = x2\<lparr>expected_block := expected_block x2 + 1, block_retries := 0\<rparr>"
  from sb have ret: "xmodem_block dst (expected_block x) data x = (None, [XMODEM_ACK], x3)"
    by (simp add: xmodem_block_def x3_def)
  note I = store_block_inv [OF inv data sb]
  have div: "length (st @ data) div 128 = Suc (length st div 128)" using data by simp
  have "128 dvd length (st @ data)" using inv data by (simp add: xm_inv_def)
  moreover have "expected_block x3 = of_nat (length (st @ data) div 128) + 1"
    unfolding div using I inv by (simp add: x3_def xm_inv_def)
  ultimately have "xm_inv dst m0 (st @ data) x3"
    using I by (simp add: xm_inv_def x3_def)
  with ret I show ?thesis by (simp add: x3_def)
qed

lemma xmodem_react_block:
  "xmodem_react dst (EvBlock (Inr (n, data))) x = xmodem_block dst n data (x\<lparr>sync_started := True\<rparr>)"
  by simp

lemma good_stream_pad:
  "good_stream dst p st \<Longrightarrow> length st = 12 + unat p \<Longrightarrow> good_stream dst p (st @ replicate k 0x1A)"
  by (auto simp: good_stream_def)

lemma line_turn_block:
  assumes data: "length data = 128" and inv: "xm_inv dst m0 st x" and n: "expected_block x = n"
    and good: "good_stream dst p (st @ data @ rest)"
    and need: "st \<noteq> [] \<Longrightarrow> length st < 12 + unat p"
  shows "\<exists>x'. xmodem_turn line_bus dst x (block_bytes n data @ l) = Some (None, x', l) \<and>
    xm_inv dst m0 (st @ data) x' \<and> expected_block x' = n + 1"
proof -
  obtain x1 where sy: "xmodem_sync line_bus x (block_bytes n data @ l) = Some (x1, block_bytes n data @ l)"
    and x1: "x1 = x \<or> x1 = x\<lparr>sync_retries := sync_retries x + 1\<rparr>" by (rule line_sync)
  let ?x = "x1\<lparr>sync_started := True\<rparr>"
  have "xm_inv dst m0 st ?x" "expected_block ?x = n" using x1 inv n by auto
  with xmodem_block_good [OF _ data good need, of m0 ?x] obtain out x' where
    "xmodem_block dst n data ?x = (None, out, x')" "xm_inv dst m0 (st @ data) x'"
    "expected_block x' = n + 1" by auto
  then show ?thesis
    using sy line_receive(1) [OF data, of n l] by (simp add: xmodem_turn_def)
qed

lemma line_turn_eot:
  assumes inv: "xm_inv dst m0 st x" and "good_stream dst p st" and "length st < 12 + unat p + 128"
  shows "\<exists>x'. xmodem_turn line_bus dst x (XMODEM_EOT # l) = Some (Some (XMODEM_OK, Some p), x', l) \<and>
    xm_mem x' = store_bytes dst (take (unat p) (drop 12 st)) m0"
proof -
  obtain x1 where sy: "xmodem_sync line_bus x (XMODEM_EOT # l) = Some (x1, XMODEM_EOT # l)"
    and x1: "x1 = x \<or> x1 = x\<lparr>sync_retries := sync_retries x + 1\<rparr>" by (rule line_sync)
  with inv have i1: "xm_inv dst m0 st x1" by auto
  from assms(2) have len: "12 + unat p \<le> length st" by (simp add: good_stream_def)
  then have rdy: "header_ready x1" using xm_inv_ready_iff [OF i1] by auto
  have si: "store_inv dst m0 st x1" using i1 by (simp add: xm_inv_def)
  have g: "good_stream dst p (st @ [])" using assms(2) by simp
  note sz = good_stream_size [OF g si _ rdy, of "[]", simplified]
  have "\<not> stream_offset x1 < image_size x1" using xm_inv_offset [OF i1] len sz by simp
  moreover have "xm_mem x1 = store_bytes dst (take (unat p) (drop 12 st)) m0"
    using si len sz(2) by (auto simp: store_inv_def)
  ultimately show ?thesis
    using sy rdy sz(1) by (simp add: xmodem_turn_def line_receive(2))
qed

lemma line_loop_sender:
  assumes "xm_inv dst m0 st x" and "expected_block x = n" and "128 dvd length st"
    and "good_stream dst p (st @ rest)" and "length (st @ rest) < 12 + unat p + 128"
    and "rest = [] \<or> length (st @ rest) = 12 + unat p"
  shows "\<exists>x'. xmodem_loop line_bus dst x (sender_bytes n rest @ l) =
      Some ((XMODEM_OK, Some p), x', l) \<and>
    xm_mem x' = store_bytes dst (take (unat p) (drop 12 (st @ rest))) m0"
  using assms
proof (induction n rest arbitrary: st x rule: sender_bytes.induct)
  case (1 n)
  then have g: "good_stream dst p st" and l: "length st < 12 + unat p + 128" by simp_all
  obtain x' where "xmodem_turn line_bus dst x (XMODEM_EOT # l) =
      Some (Some (XMODEM_OK, Some p), x', l)"
    "xm_mem x' = store_bytes dst (take (unat p) (drop 12 st)) m0"
    using line_turn_eot [OF 1(1) g l] by blast
  then show ?case by (subst xmodem_loop.simps) simp
next
  case (2 n c cs)
  define rest where "rest = c # cs"
  define data where "data = take 128 rest @ replicate (128 - length rest) 0x1A"
  have tot: "length (st @ rest) = 12 + unat p" using 2(7) by (auto simp: rest_def)
  have data: "length data = 128" by (simp add: data_def min_def)
  have drop: "drop 127 cs = drop 128 rest" by (simp add: rest_def)
  have good: "good_stream dst p (st @ data @ drop 128 rest)"
  proof (cases "128 \<le> length rest")
    case True
    then have "data @ drop 128 rest = rest" by (simp add: data_def)
    with 2(5) show ?thesis by (simp add: rest_def)
  next
    case False
    then have "data @ drop 128 rest = rest @ replicate (128 - length rest) 0x1A"
      by (simp add: data_def)
    then show ?thesis
      using good_stream_pad [OF 2(5), of "128 - length rest"] tot by (simp add: rest_def)
  qed
  have need: "st \<noteq> [] \<Longrightarrow> length st < 12 + unat p" using tot by (simp add: rest_def)
  obtain x1 where t: "xmodem_turn line_bus dst x
      (block_bytes n data @ sender_bytes (n + 1) (drop 127 cs) @ l) =
      Some (None, x1, sender_bytes (n + 1) (drop 127 cs) @ l)"
    and i1: "xm_inv dst m0 (st @ data) x1" and e1: "expected_block x1 = n + 1"
    using line_turn_block [OF data 2(2,3) good need] by blast
  have step: "xmodem_loop line_bus dst x (sender_bytes n (c # cs) @ l) =
      xmodem_loop line_bus dst x1 (sender_bytes (n + 1) (drop 127 cs) @ l)"
    using t by (subst xmodem_loop.simps) (simp add: data_def rest_def)
  have d: "128 dvd length (st @ data)" using 2(4) data by simp
  have g: "good_stream dst p ((st @ data) @ drop 127 cs)" using good drop by simp
  have len: "length ((st @ data) @ drop 127 cs) < 12 + unat p + 128"
    using tot data drop by (cases "128 \<le> length rest") (simp_all add: rest_def)
  have fin: "drop 127 cs = [] \<or> length ((st @ data) @ drop 127 cs) = 12 + unat p"
    using tot data drop by (cases "128 \<le> length rest") simp_all
  from 2(1) [OF i1 e1 d g len fin] obtain x' where
    "xmodem_loop line_bus dst x1 (sender_bytes (n + 1) (drop 127 cs) @ l) =
       Some ((XMODEM_OK, Some p), x', l)"
    "xm_mem x' = store_bytes dst (take (unat p) (drop 12 ((st @ data) @ drop 127 cs))) m0" by blast
  moreover have "take (unat p) (drop 12 ((st @ data) @ drop 127 cs)) =
      take (unat p) (drop 12 (st @ rest))"
  proof -
    have "take (12 + unat p) ((st @ data) @ drop 127 cs) = take (12 + unat p) (st @ rest)"
    proof (cases "128 \<le> length rest")
      case True
      then show ?thesis by (simp add: data_def drop)
    next
      case False
      then show ?thesis using tot by (simp add: data_def drop)
    qed
    then show ?thesis by (metis drop_take add_diff_cancel_left')
  qed
  ultimately show ?case using step by (simp add: rest_def)
qed

lemma xmodem_correct_sender:
  assumes good: "good_stream dst p img" and len: "length img = 12 + unat p"
  shows "xmodem_load_boot_image line_bus dst True m (sender_bytes 1 img) =
    Some (XMODEM_OK, Some p, store_bytes dst (drop 12 img) m, [])"
proof -
  have e: "expected_block (xm_init m) = 1" by (simp add: xm_init_def)
  have pre: "128 dvd length ([] :: u8 list)" "good_stream dst p ([] @ img)"
    "length ([] @ img) < 12 + unat p + 128" "img = [] \<or> length ([] @ img) = 12 + unat p"
    using assms by simp_all
  have "uart_clear_status line_bus k l = l" for k l
    by (simp add: uart_clear_status_def Let_def)
  with line_loop_sender [OF xm_inv_init e pre, of "[]"] len show ?thesis
    by (auto simp: xmodem_load_boot_image_def)
qed

text \<open>What \<open>xmodem_react\<close> keeps when it does not store a block.\<close>

definition same_image :: "xm \<Rightarrow> xm \<Rightarrow> bool" where
  "same_image x x' \<longleftrightarrow> xm_mem x' = xm_mem x \<and> stream_offset x' = stream_offset x \<and>
     image_size x' = image_size x \<and> header_ready x' = header_ready x \<and>
     header_buf x' = header_buf x \<and> expected_block x' = expected_block x"

lemma xmodem_react_other:
  assumes "\<And>data. ev \<noteq> EvBlock (Inr (expected_block x, data))"
  shows "same_image x (snd (snd (xmodem_react dst ev x)))"
proof (cases ev)
  case (EvCancel c)
  then show ?thesis by (cases c) (simp_all add: same_image_def)
next
  case (EvBlock r)
  with assms show ?thesis
    by (auto simp: same_image_def xmodem_block_def xmodem_retry_def xmodem_fail_def Let_def
        split: sum.splits)
qed (simp_all add: same_image_def xmodem_retry_def xmodem_fail_def Let_def)

section \<open>A silent line\<close>

text \<open>
  On the SoC's own UART and timer, with nothing on the line and the timer running. The
  measure counts the cycles the timer still needs to the timeout.
\<close>

definition quiet :: "soc \<Rightarrow> bool" where
  "quiet s \<longleftrightarrow> s_line s = [] \<and> \<not> s_rx_valid s \<and> \<not> s_rx_overrun s \<and> \<not> s_rx_frame_err s \<and>
     s_en s \<and> s_presc_cnt s \<le> s_presc s"

definition phase :: "soc \<Rightarrow> nat" where
  "phase s = s_count s * (unat (s_presc s) + 1) + unat (s_presc_cnt s)"

lemma quiet_clock:
  assumes "quiet s"
  shows "quiet (soc_clock s)" and "phase s < phase (soc_clock s)"
    and "s_count (soc_clock s) \<le> Suc (s_count s)"
proof -
  have succ: "unat (s_presc_cnt s + 1) = Suc (unat (s_presc_cnt s))" if "s_presc_cnt s < s_presc s"
    using that unat_u32_less [of "s_presc s"]
    by (subst unat_plus_no_wrap) (simp_all add: word_less_nat_alt)
  show "quiet (soc_clock s)"
    using assms succ
    by (auto simp: quiet_def soc_clock_def uart_rx_clock_def timer_clock_def timer_tick_def Let_def
        word_le_nat_alt word_less_nat_alt not_le)
  show "phase s < phase (soc_clock s)"
    using assms succ
    by (auto simp: phase_def quiet_def soc_clock_def uart_rx_clock_def timer_clock_def
        timer_tick_def Let_def word_le_nat_alt word_less_nat_alt not_le)
  show "s_count (soc_clock s) \<le> Suc (s_count s)" by simp
qed

lemma quiet_rd:
  assumes q: "quiet s" and rd: "soc_rd a s = (v, s')"
  shows "quiet s'" "phase s < phase s'" "s_count s' \<le> s_count s + 2" "s_count s \<le> s_count s'"
    and "s_presc s' = s_presc s" "s_sent s' = s_sent s"
    and "a = uart_ctrl_reg \<Longrightarrow> v AND 7 = 0"
proof -
  let ?s1 = "soc_clock (soc_clock s)"
  have s': "s' = ?s1\<lparr>s_rx_valid := s_rx_valid ?s1 \<and> a \<noteq> uart_data_reg, s_last := Some a\<rparr>"
    and v: "v = soc_reg a ?s1"
    using rd by (simp_all add: soc_rd_def Let_def)
  note c1 = quiet_clock [OF q] and c2 = quiet_clock [OF quiet_clock(1) [OF q]]
  show "quiet s'" using c2(1) by (simp add: s' quiet_def)
  show "phase s < phase s'" using c1(2) c2(2) by (simp add: s' phase_def)
  show "s_count s' \<le> s_count s + 2" "s_count s \<le> s_count s'" "s_presc s' = s_presc s"
    "s_sent s' = s_sent s" by (simp_all add: s')
  show "v AND 7 = 0" if "a = uart_ctrl_reg"
    using c2(1) that by (simp add: v soc_reg_def uart_status_word_def quiet_def)
qed

lemma and_7_zero:
  assumes "v AND (7 :: u32) = 0"
  shows "v AND UART_STATUS_RX_VALID = 0" "v AND UART_STATUS_RX_OVERRUN = 0"
    "v AND UART_STATUS_RX_FRAMEERR = 0"
proof -
  have "v AND k = (v AND 7) AND k" if "7 AND k = k" for k :: u32
    using that by (simp add: and.assoc)
  from this [of 1] this [of 2] this [of 4] assms
  show "v AND UART_STATUS_RX_VALID = 0" "v AND UART_STATUS_RX_OVERRUN = 0"
    "v AND UART_STATUS_RX_FRAMEERR = 0" by simp_all
qed

lemma quiet_read_twice:
  assumes q: "quiet s" and rt: "read_twice soc_bus a s = (v, s')"
  shows "quiet s'" "phase s < phase s'" "s_count s' \<le> s_count s + 4" "s_count s \<le> s_count s'"
    and "s_presc s' = s_presc s" "s_sent s' = s_sent s"
    and "a = uart_ctrl_reg \<Longrightarrow> v AND 7 = 0"
proof -
  obtain v1 s1 where r1: "soc_rd a s = (v1, s1)" by (cases "soc_rd a s")
  with rt have r2: "soc_rd a s1 = (v, s')" by (simp add: read_twice_def)
  note q1 = quiet_rd [OF q r1] and q2 = quiet_rd [OF quiet_rd(1) [OF q r1] r2]
  show "quiet s'" "phase s < phase s'" "s_count s' \<le> s_count s + 4" "s_count s \<le> s_count s'"
    "s_presc s' = s_presc s" "s_sent s' = s_sent s" "a = uart_ctrl_reg \<Longrightarrow> v AND 7 = 0"
    using q1 q2 by simp_all
qed

text \<open>One attempt to read a byte: only the timer decides.\<close>

lemma getc_try_quiet:
  assumes q: "quiet s"
  shows "\<exists>s'. getc_try soc_bus start t s =
      (if t \<le> of_nat (s_count s') - start then Some (Inl XMODEM_ERR_TIMEOUT) else None, s') \<and>
    quiet s' \<and> phase s < phase s' \<and> s_count s' \<le> s_count s + 8 \<and> s_count s \<le> s_count s' \<and>
    s_presc s' = s_presc s \<and> s_sent s' = s_sent s"
proof -
  obtain st s1 where u: "uart_get_status soc_bus s = (st, s1)" by (cases "uart_get_status soc_bus s")
  note q1 = quiet_read_twice [OF q u [unfolded uart_get_status_def]]
  obtain c s2 where t: "timer_get_count soc_bus s1 = (c, s2)" by (cases "timer_get_count soc_bus s1")
  note q2 = quiet_read_twice [OF q1(1) t [unfolded timer_get_count_def]]
  have c: "c = of_nat (s_count s2)"
    using soc_regs.read_twice_reg [OF t [unfolded timer_get_count_def]]
    by (simp add: soc_reg_def soc_addrs)
  show ?thesis
    using u t c q1 q2 and_7_zero [OF q1(7) [OF refl]] by (auto simp: getc_try_def)
qed

lemma getc_timeout_quiet:
  assumes q: "quiet s" and t: "t \<noteq> 0" "unat t < 0x80000000"
  shows "\<exists>s'. getc_timeout soc_bus t s = Some (Inl XMODEM_ERR_TIMEOUT, s') \<and> quiet s' \<and>
    s_sent s' = s_sent s"
proof -
  obtain start s0 where g: "timer_get_count soc_bus s = (start, s0)"
    by (cases "timer_get_count soc_bus s")
  note q0 = quiet_read_twice [OF q g [unfolded timer_get_count_def]]
  have start: "start = of_nat (s_count s0)"
    using soc_regs.read_twice_reg [OF g [unfolded timer_get_count_def]]
    by (simp add: soc_reg_def soc_addrs)
  define c0 where "c0 = s_count s0"
  define pr where "pr = unat (s_presc s0) + 1"
  define P where "P = (\<lambda>x. quiet x \<and> unat (s_presc x) + 1 = pr \<and> c0 \<le> s_count x \<and>
    s_count x < c0 + unat t \<and> s_sent x = s_sent s)"
  have diff: "unat (of_nat k - start) = k - c0" if "c0 \<le> k" "k - c0 < 4294967296" for k
  proof -
    have "(of_nat k :: u32) - start = of_nat (k - c0)"
      using that(1) by (simp add: start c0_def of_nat_diff)
    with that(2) show ?thesis by (simp only: unat_of_nat_u32)
  qed
  have t0: "0 < unat t" using t(1) by (metis gr0I unat_eq_0)
  have P0: "P s0" using q0 t0 by (simp add: P_def pr_def c0_def)
  have step: "P x' \<and> (c0 + unat t) * pr - phase x' < (c0 + unat t) * pr - phase x"
    if "P x" "getc_try soc_bus start t x = (None, x')" for x x'
  proof -
    from that(1) have qx: "quiet x" and px: "unat (s_presc x) + 1 = pr" "c0 \<le> s_count x"
      "s_count x < c0 + unat t" "s_sent x = s_sent s" by (simp_all add: P_def)
    from getc_try_quiet [OF qx, of start t] that(2) have qx': "quiet x'" "phase x < phase x'"
      "s_count x' \<le> s_count x + 8" "s_count x \<le> s_count x'" "s_presc x' = s_presc x"
      "s_sent x' = s_sent x" and n: "\<not> t \<le> of_nat (s_count x') - start"
      by (auto split: if_splits)
    have "s_count x' - c0 < 4294967296" using qx'(3) px(3) t(2) by linarith
    with n have lt: "s_count x' < c0 + unat t"
      using diff [of "s_count x'"] px(2) qx'(4) by (simp add: word_le_nat_alt)
    then have "s_count x' + 1 \<le> c0 + unat t" by simp
    then have "(s_count x' + 1) * pr \<le> (c0 + unat t) * pr" by (rule mult_le_mono1)
    moreover have "unat (s_presc_cnt x') < pr"
      using qx'(1,5) px(1) by (simp add: quiet_def word_le_nat_alt)
    moreover have "phase x' = s_count x' * pr + unat (s_presc_cnt x')"
      using qx'(5) px(1) by (simp add: phase_def)
    ultimately have "phase x' < (c0 + unat t) * pr" by (simp add: algebra_simps)
    with qx'(2) have "(c0 + unat t) * pr - phase x' < (c0 + unat t) * pr - phase x" by simp
    with qx' px lt show ?thesis by (simp add: P_def)
  qed
  obtain r s' where p: "poll_until (getc_try soc_bus start t) s0 = Some (r, s')"
    using poll_until_returns [where P = P and f = "getc_try soc_bus start t" and
        m = "\<lambda>x. (c0 + unat t) * pr - phase x", OF P0 step] by blast
  have "r = Inl XMODEM_ERR_TIMEOUT \<and> quiet s' \<and> s_sent s' = s_sent s"
  proof (rule poll_until_rule [OF p, where P = P, OF P0])
    fix x x' assume "P x" "getc_try soc_bus start t x = (None, x')"
    then show "P x'" using step by blast
  next
    fix x a x' assume "P x" "getc_try soc_bus start t x = (Some a, x')"
    with getc_try_quiet [of x start t] show "a = Inl XMODEM_ERR_TIMEOUT \<and> quiet x' \<and> s_sent x' = s_sent s"
      by (auto simp: P_def split: if_splits)
  qed
  with g p show ?thesis by (simp add: getc_timeout_def)
qed

lemma quiet_wr: "quiet s \<Longrightarrow> a \<noteq> timer_ctrl_reg \<Longrightarrow> a \<noteq> timer_presc_reg \<Longrightarrow> quiet (soc_wr a v s)"
proof -
  assume q: "quiet s" and a: "a \<noteq> timer_ctrl_reg" "a \<noteq> timer_presc_reg"
  have "quiet (soc_clock (soc_clock s))" using quiet_clock(1) [OF quiet_clock(1) [OF q]] .
  with a show "quiet (soc_wr a v s)"
    by (simp add: soc_wr_def soc_write_effect_def quiet_def)
qed

lemma putc_quiet:
  assumes q: "quiet s"
  shows "\<exists>s'. uart_putc_blocking soc_bus c s = Some s' \<and> s_sent s' = s_sent s @ [c] \<and> quiet s'"
proof -
  obtain s' where p: "uart_putc_blocking soc_bus c s = Some s'" "s_sent s' = s_sent s @ [c]"
    using soc_putc_sends by blast
  then obtain u s1 where pu: "poll_until (\<lambda>d. let (r, d') = uart_tx_ready soc_bus d
      in (if r then Some () else None, d')) s = Some (u, s1)"
    and s': "s' = bus_wr soc_bus uart_data_reg (ucast c) s1"
    by (auto simp: uart_putc_blocking_def)
  have tx: "quiet d'" if "quiet d" "uart_tx_ready soc_bus d = (r, d')" for d r d'
    using that quiet_read_twice(1) [OF that(1)]
    by (auto simp: uart_tx_ready_def uart_get_status_def split: prod.splits)
  have "quiet s1"
    by (rule poll_until_rule [OF pu, where P = quiet, OF q]) (auto dest: tx split: prod.splits)
  then have "quiet s'" unfolding s' by (simp add: quiet_wr soc_addrs)
  with p show ?thesis by blast
qed

lemma xmodem_receive_quiet:
  assumes "quiet s"
  shows "\<exists>s'. xmodem_receive soc_bus s = Some (EvError XMODEM_ERR_TIMEOUT, s') \<and> quiet s' \<and>
    s_sent s' = s_sent s"
  using getc_timeout_quiet [OF assms, of XMODEM_TIMEOUT_TICKS]
  by (auto simp: xmodem_receive_def)

text \<open>Before the first block: another request, and after the sixteenth the transfer is cancelled.\<close>

lemma xmodem_turn_quiet_sync:
  assumes q: "quiet s" and x: "\<not> sync_started x" "sync_retries x < 16"
  shows "\<exists>s'. quiet s' \<and> xmodem_turn soc_bus dst x s =
    (if sync_retries x = 15
     then Some (Some (XMODEM_ERR_TIMEOUT, None), x\<lparr>sync_retries := 16\<rparr>, s')
     else Some (None, x\<lparr>sync_retries := sync_retries x + 1\<rparr>, s')) \<and>
    s_sent s' = s_sent s @ XMODEM_CRC_REQUEST #
      (if sync_retries x = 15 then [XMODEM_CAN, XMODEM_CAN] else [])"
proof -
  obtain s1 where p: "uart_putc_blocking soc_bus XMODEM_CRC_REQUEST s = Some s1"
    "s_sent s1 = s_sent s @ [XMODEM_CRC_REQUEST]" "quiet s1" using putc_quiet [OF q] by blast
  obtain s2 where r: "xmodem_receive soc_bus s1 = Some (EvError XMODEM_ERR_TIMEOUT, s2)" "quiet s2"
    "s_sent s2 = s_sent s1" using xmodem_receive_quiet [OF p(3)] by blast
  have sy: "xmodem_sync soc_bus x s = Some (x\<lparr>sync_retries := sync_retries x + 1\<rparr>, s1)"
    using x p(1) by (simp add: xmodem_sync_def)
  have u: "unat (sync_retries x + 1) = Suc (unat (sync_retries x))"
    using x(2) by (subst unat_plus_no_wrap) (simp_all add: word_less_nat_alt)
  have last: "16 \<le> sync_retries x + 1 \<longleftrightarrow> sync_retries x = 15"
    using x(2) by (auto simp: word_le_nat_alt word_less_nat_alt u word_unat_eq_iff)
  show ?thesis
  proof (cases "sync_retries x = 15")
    case True
    obtain s3 where p3: "uart_putc_blocking soc_bus XMODEM_CAN s2 = Some s3"
      "s_sent s3 = s_sent s2 @ [XMODEM_CAN]" "quiet s3" using putc_quiet [OF r(2)] by blast
    obtain s4 where p4: "uart_putc_blocking soc_bus XMODEM_CAN s3 = Some s4"
      "s_sent s4 = s_sent s3 @ [XMODEM_CAN]" "quiet s4" using putc_quiet [OF p3(3)] by blast
    show ?thesis
      using True last sy r p p3 p4 by (simp add: xmodem_turn_def xmodem_fail_def)
  next
    case False
    with last sy r p show ?thesis by (simp add: xmodem_turn_def)
  qed
qed

lemma xmodem_loop_quiet_sync:
  assumes "quiet s" and "\<not> sync_started x" and "unat (sync_retries x) + n = 16" and "0 < n"
  shows "\<exists>x' s'. xmodem_loop soc_bus dst x s = Some ((XMODEM_ERR_TIMEOUT, None), x', s') \<and>
    xm_mem x' = xm_mem x \<and>
    s_sent s' = s_sent s @ replicate n XMODEM_CRC_REQUEST @ [XMODEM_CAN, XMODEM_CAN]"
  using assms
proof (induction n arbitrary: x s)
  case (Suc n)
  have lt: "sync_retries x < 16" using Suc.prems(3) by (simp add: word_less_nat_alt)
  have u: "unat (sync_retries x + 1) = Suc (unat (sync_retries x))"
    using lt by (subst unat_plus_no_wrap) (simp_all add: word_less_nat_alt)
  have last: "sync_retries x = 15 \<longleftrightarrow> n = 0"
    using Suc.prems(3) by (auto simp: word_unat_eq_iff)
  obtain s1 where q1: "quiet s1" and t: "xmodem_turn soc_bus dst x s =
    (if sync_retries x = 15
     then Some (Some (XMODEM_ERR_TIMEOUT, None), x\<lparr>sync_retries := 16\<rparr>, s1)
     else Some (None, x\<lparr>sync_retries := sync_retries x + 1\<rparr>, s1))"
    and sent: "s_sent s1 = s_sent s @ XMODEM_CRC_REQUEST #
      (if sync_retries x = 15 then [XMODEM_CAN, XMODEM_CAN] else [])"
    using xmodem_turn_quiet_sync [OF Suc.prems(1,2) lt] by blast
  show ?case
  proof (cases "n = 0")
    case True
    with t sent last show ?thesis by (subst xmodem_loop.simps) simp
  next
    case False
    let ?x = "x\<lparr>sync_retries := sync_retries x + 1\<rparr>"
    have pre: "\<not> sync_started ?x" "unat (sync_retries ?x) + n = 16" "0 < n"
      using Suc.prems(2,3) False u by simp_all
    from Suc.IH [OF q1 pre] obtain x' s' where
      "xmodem_loop soc_bus dst ?x s1 = Some ((XMODEM_ERR_TIMEOUT, None), x', s')"
      "xm_mem x' = xm_mem x"
      "s_sent s' = s_sent s1 @ replicate n XMODEM_CRC_REQUEST @ [XMODEM_CAN, XMODEM_CAN]"
      by auto
    with t sent last False show ?thesis by (subst xmodem_loop.simps) simp
  qed
qed simp

text \<open>After the first block: nothing is counted and nothing is sent.\<close>

lemma xmodem_turn_quiet_started:
  assumes q: "quiet s" and x: "sync_started x" "sync_retries x < 16"
  shows "\<exists>s'. xmodem_turn soc_bus dst x s = Some (None, x, s') \<and> quiet s' \<and> s_sent s' = s_sent s"
  using xmodem_receive_quiet [OF q] x
  by (auto simp: xmodem_turn_def xmodem_sync_def not_le)

lemma xmodem_loop_quiet_started:
  assumes "quiet s" and x: "sync_started x" "sync_retries x < 16"
  shows "xmodem_reaches soc_bus dst x s st x' s' \<Longrightarrow> x' = x \<and> quiet s' \<and> s_sent s' = s_sent s"
    and "xmodem_loop soc_bus dst x s = None"
proof -
  have R: "x' = x \<and> quiet s' \<and> s_sent s' = s_sent s" if "xmodem_reaches soc_bus dst x s st x' s'" for st x' s'
    using that
  proof induction
    case start
    with assms show ?case by simp
  next
    case (turn st x1 d1 x2 d2 ev d3 out x3 d4)
    from turn.hyps(2-5) have "xmodem_turn soc_bus dst x1 d1 = Some (None, x3, d4)"
      by (simp add: xmodem_turn_def)
    with xmodem_turn_quiet_started [of d1 x dst] x turn.IH show ?case by auto
  qed
  then show "xmodem_reaches soc_bus dst x s st x' s' \<Longrightarrow> x' = x \<and> quiet s' \<and> s_sent s' = s_sent s" .
  show "xmodem_loop soc_bus dst x s = None"
  proof (cases "xmodem_loop soc_bus dst x s")
    case (Some y)
    obtain res x' s' where y: "y = (res, x', s')" by (cases y) auto
    from xmodem_loop_reaches [OF Some [unfolded y]] obtain st x1 d1 where
      r: "xmodem_reaches soc_bus dst x s st x1 d1"
      and t: "xmodem_turn soc_bus dst x1 d1 = Some (Some res, x', s')" by blast
    from R [OF r] xmodem_turn_quiet_started [of d1 x dst] x t show ?thesis by auto
  qed
qed

end
