(* ===== verification/Xmodem_Props.thy ===== *)
theory Xmodem_Props
  imports Xmodem
begin

text \<open>
  The properties of the UART boot path: the checksum, block acceptance, what a transfer can do
  to memory on any bus, the byte-level round trip with a correct sender, and the two
  behaviours on a silent line.
\<close>

section \<open>A small transfer\<close>

definition demo_data :: "u8 list" where
  "demo_data = (boot_image_header 4 0 @ [1, 2, 3, 4]) @ replicate 112 0x1A"

lemma image_good_stream:
  assumes "length payload = unat t + unat d" and "0x80000000 \<le> unat dst" "unat dst < 0x87000000"
    and "unat dst + length payload \<le> 0x87000000"
  shows "good_stream dst (t + d) (boot_image_header t d @ payload)"
    and "length (boot_image_header t d @ payload) = 12 + unat (t + d)"
proof -
  have lim: "unat (BOOT_IMAGE_LOAD_LIMIT - dst) = 0x87000000 - unat dst"
    using assms(3) by (subst unat_sub) (simp_all add: word_le_nat_alt)
  have "unat t \<le> 0x87000000 - unat dst" using assms by simp
  with lim have t: "\<not> BOOT_IMAGE_LOAD_LIMIT - dst < t"
    and lim2: "unat (BOOT_IMAGE_LOAD_LIMIT - dst - t) = 0x87000000 - unat dst - unat t"
    by (auto simp: word_less_nat_alt unat_sub word_le_nat_alt)
  have "unat d \<le> 0x87000000 - unat dst - unat t" using assms by linarith
  with lim2 have d: "\<not> BOOT_IMAGE_LOAD_LIMIT - dst - t < d" by (simp add: word_less_nat_alt)
  have "boot_image_parse_header (Some (boot_image_header t d)) True dst = Inr (t, d, t + d)"
    using assms(2,3) t d
    by (simp add: boot_image_parse_header_def rd32_boot_image_header Let_def word_le_nat_alt
        word_less_nat_alt)
  moreover show l: "length (boot_image_header t d @ payload) = 12 + unat (t + d)"
    using assms by (subst unat_plus_no_wrap) simp_all
  ultimately show "good_stream dst (t + d) (boot_image_header t d @ payload)"
    by (simp add: good_stream_def)
qed

lemma demo_good: "good_stream 0x80000000 4 (boot_image_header 4 0 @ [1, 2, 3, 4])"
  using image_good_stream(1) [of "[1, 2, 3, 4]" 4 0 "0x80000000"] by simp

lemma demo_transfer:
  "xmodem_load_boot_image line_bus 0x80000000 True (\<lambda>_. 0)
     (sender_bytes 1 (boot_image_header 4 0 @ [1, 2, 3, 4])) =
   Some (XMODEM_OK, Some 4, store_bytes 0x80000000 [1, 2, 3, 4] (\<lambda>_. 0), [])"
  using xmodem_correct_sender [OF demo_good] by simp

lemma demo_turn:
  "\<exists>x'. xmodem_turn line_bus 0x80000000 (xm_init (\<lambda>_. 0)) (block_bytes 1 demo_data @ []) =
     Some (None, x', []) \<and> xm_inv 0x80000000 (\<lambda>_. 0) ([] @ demo_data) x' \<and> expected_block x' = 1 + 1"
proof (rule line_turn_block)
  show "good_stream 0x80000000 4 ([] @ demo_data @ [])"
    using good_stream_pad [OF demo_good, of 112] by (simp add: demo_data_def)
qed (simp_all add: demo_data_def xm_inv_init, simp add: xm_init_def)

definition quiet_soc :: soc where
  "quiet_soc = soc_reset []\<lparr>s_en := True\<rparr>"

lemma quiet_soc: "quiet quiet_soc"
  by (simp add: quiet_soc_def quiet_def soc_reset_def)

section \<open>Properties\<close>

text \<open>
  C19: A correct sender's image arrives. For every image that fits the DDR window, the bytes a
  correct XMODEM sender puts on the line (blocks numbered from 1 modulo 256 with complement,
  CRC and 0x1A padding, then EOT), however many blocks there are, make the receiver return
  success, report the payload size, store exactly the payload at the load address, and leave
  nothing unread.
\<close>

theorem xmodem_roundtrip:
  assumes "length payload = unat t + unat d" and "0x80000000 \<le> unat dst"
    and "unat dst < 0x87000000" and "unat dst + length payload \<le> 0x87000000"
  shows "xmodem_load_boot_image line_bus dst True m (sender_bytes 1 (boot_image_header t d @ payload)) =
    Some (XMODEM_OK, Some (t + d), store_bytes dst payload m, [])"
  using xmodem_correct_sender [OF image_good_stream [OF assms]] by simp

theorem xmodem_roundtrip_witness:
  "xmodem_load_boot_image line_bus 0x80000000 True (\<lambda>_. 0)
     (sender_bytes 1 (boot_image_header 2 2 @ [0xAA, 0xBB, 0xCC, 0xDD])) =
   Some (XMODEM_OK, Some 4, store_bytes 0x80000000 [0xAA, 0xBB, 0xCC, 0xDD] (\<lambda>_. 0), [])"
  using xmodem_roundtrip [of "[0xAA, 0xBB, 0xCC, 0xDD]" 2 2 "0x80000000" "\<lambda>_. 0"] by simp

text \<open>
  C29: Success means a complete image. On any bus, when the receiver returns success, the data of
  the blocks it accepted in order is a stream that starts with a valid header; the reported
  size is the header's; memory is the old memory with exactly the stream's payload stored at
  the load address; and the stream ends within one block after the image, in 0x1A padding.
\<close>

theorem xmodem_ok_complete:
  assumes "xmodem_load_boot_image b dst outs m d = Some (XMODEM_OK, sz, m', d')"
  shows "\<exists>st x1 d1. image_loaded dst m st sz m' \<and>
    xmodem_reaches b dst (xm_init m)
      (uart_clear_status b (UART_STATUS_RX_OVERRUN OR UART_STATUS_RX_FRAMEERR) d) st x1 d1"
proof -
  define d0 where "d0 = uart_clear_status b (UART_STATUS_RX_OVERRUN OR UART_STATUS_RX_FRAMEERR) d"
  from assms obtain x' where
    "xmodem_loop b dst (xm_init m) d0 = Some ((XMODEM_OK, sz), x', d')" and m': "m' = xm_mem x'"
    by (auto simp: xmodem_load_boot_image_def d0_def split: if_splits)
  from xmodem_loop_reaches [OF this(1)] obtain st x1 d1 where
    r: "xmodem_reaches b dst (xm_init m) d0 st x1 d1"
    and t: "xmodem_turn b dst x1 d1 = Some (Some (XMODEM_OK, sz), x', d')" by blast
  from xmodem_turn_inv [OF xmodem_reaches_inv [OF r xm_inv_init] t] m' r show ?thesis
    unfolding d0_def by blast
qed

theorem xmodem_ok_complete_witness:
  "\<exists>st. image_loaded 0x80000000 (\<lambda>_. 0) st (Some 4) (store_bytes 0x80000000 [1, 2, 3, 4] (\<lambda>_. 0))"
  using xmodem_ok_complete [OF demo_transfer] by blast

text \<open>
  C6: The UART loader writes nothing outside the DDR image window. In every state the receive
  loop gets to, on any bus and whether or not the transfer ever ends, every byte of memory
  that differs from the memory at the start lies between the load address and the
  framebuffer, and the load address is in the DDR bank.
\<close>

theorem xmodem_safe:
  assumes "xmodem_reaches b dst (xm_init m) d0 st x d" and "xmodem_turn b dst x d = Some (r, x', d')"
    and "xm_mem x a \<noteq> m a \<or> xm_mem x' a \<noteq> m a"
  shows "0x80000000 \<le> unat dst \<and> unat dst \<le> unat a \<and> unat a < 0x87000000"
proof -
  have inv: "xm_inv dst m st x" using assms(1) xm_inv_init by (rule xmodem_reaches_inv)
  have "mem_frame dst m (xm_mem x)" "mem_frame dst m (xm_mem x')"
    using xm_inv_frame [OF inv] xmodem_turn_inv [OF inv assms(2)] by simp_all
  with assms(3) show ?thesis by (auto simp: mem_frame_def)
qed

theorem xmodem_safe_witness:
  "\<exists>x'. xmodem_turn line_bus 0x80000000 (xm_init (\<lambda>_. 0)) (block_bytes 1 demo_data) = Some (None, x', []) \<and>
     xm_mem x' 0x80000000 \<noteq> 0 \<and> unat (0x80000000 :: u32) < 0x87000000"
proof -
  obtain x' where t: "xmodem_turn line_bus 0x80000000 (xm_init (\<lambda>_. 0)) (block_bytes 1 demo_data @ []) =
      Some (None, x', [])" and i: "xm_inv 0x80000000 (\<lambda>_. 0) ([] @ demo_data) x'"
    using demo_turn by blast
  have l: "length demo_data = 128" by (simp add: demo_data_def)
  have rdy: "header_ready x'" using xm_inv_ready_iff [OF i] l by auto
  have "store_inv 0x80000000 (\<lambda>_. 0) (demo_data @ []) x'" using i by (simp add: xm_inv_def)
  moreover have g: "good_stream 0x80000000 4 (demo_data @ [])"
    using good_stream_pad [OF demo_good, of 112] by (simp add: demo_data_def)
  ultimately have si: "store_inv 0x80000000 (\<lambda>_. 0) demo_data x'" by simp
  then have "xm_mem x' = store_bytes 0x80000000 (take (unat (image_size x') - 12) (drop 12 demo_data)) (\<lambda>_. 0)"
    by (simp add: store_inv_def l)
  moreover have "unat (image_size x') - 12 = 4"
    using good_stream_size(2) [OF g si refl rdy] by simp
  moreover have "take 4 (drop 12 demo_data) = [1, 2, 3, 4]"
    by (simp add: demo_data_def)
  ultimately have "xm_mem x' = store_bytes 0x80000000 [1, 2, 3, 4] (\<lambda>_. 0)" by simp
  then have "xm_mem (xm_init (\<lambda>_. 0)) 0x80000000 \<noteq> (\<lambda>_. 0) 0x80000000 \<or> xm_mem x' 0x80000000 \<noteq> (\<lambda>_. 0) 0x80000000"
    by simp
  with xmodem_safe [OF xmodem_reaches.start t this] t show ?thesis by (auto simp: xm_init_def)
qed

text \<open>The bytes \<open>cs\<close> come in one after the other, each before its time-out and without an error of the line.\<close>

fun bytes_in :: "'d bus \<Rightarrow> 'd \<Rightarrow> u8 list \<Rightarrow> 'd \<Rightarrow> bool" where
  "bytes_in b d [] d' \<longleftrightarrow> d' = d"
| "bytes_in b d (c # cs) d' \<longleftrightarrow>
     (\<exists>d1. getc_timeout b XMODEM_TIMEOUT_TICKS d = Some (Inr c, d1) \<and> bytes_in b d1 cs d')"

lemma bytes_in_append: "bytes_in b d (xs @ ys) d' \<longleftrightarrow> (\<exists>d1. bytes_in b d xs d1 \<and> bytes_in b d1 ys d')"
  by (induction xs arbitrary: d) auto

lemma receive_bytes_in: "receive_bytes n b d = Some (Inr bs, d') \<longleftrightarrow> length bs = n \<and> bytes_in b d bs d'"
proof (induction n arbitrary: d bs)
  case (Suc n)
  show ?case
  proof (cases "getc_timeout b XMODEM_TIMEOUT_TICKS d")
    case None
    then show ?thesis by (cases bs) simp_all
  next
    case (Some p)
    then obtain r d1 where g: "getc_timeout b XMODEM_TIMEOUT_TICKS d = Some (r, d1)" by (cases p) simp
    show ?thesis
    proof (cases r)
      case (Inl e)
      with g show ?thesis by (cases bs) simp_all
    next
      case (Inr c)
      have IH: "receive_bytes n b d1 = Some (Inr cs, d') \<longleftrightarrow> length cs = n \<and> bytes_in b d1 cs d'" for cs by (rule Suc.IH)
      show ?thesis
      proof (cases "receive_bytes n b d1")
        case None
        with g Inr IH show ?thesis by (cases bs) auto
      next
        case (Some p)
        then obtain rs d2 where "receive_bytes n b d1 = Some (rs, d2)" by (cases p) simp
        with g Inr IH show ?thesis by (cases bs; cases rs) auto
      qed
    qed
  qed
qed auto

lemma bytes_in_block:
  assumes "length data = 128"
  shows "bytes_in b d (n # iv # data @ [hi, lo]) d' \<Longrightarrow> receive_block b d = Some (check_block n iv data hi lo, d')"
    and "receive_block b d = Some (Inr (n, data), d') \<Longrightarrow>
      \<exists>iv hi lo. bytes_in b d (n # iv # data @ [hi, lo]) d' \<and> check_block n iv data hi lo = Inr (n, data)"
proof -
  show "receive_block b d = Some (check_block n iv data hi lo, d')" if "bytes_in b d (n # iv # data @ [hi, lo]) d'"
  proof -
    from that obtain d1 d2 d3 d4 where g: "getc_timeout b XMODEM_TIMEOUT_TICKS d = Some (Inr n, d1)"
      "getc_timeout b XMODEM_TIMEOUT_TICKS d1 = Some (Inr iv, d2)" "bytes_in b d2 data d3"
      "getc_timeout b XMODEM_TIMEOUT_TICKS d3 = Some (Inr hi, d4)" "getc_timeout b XMODEM_TIMEOUT_TICKS d4 = Some (Inr lo, d')"
      by (auto simp: bytes_in_append)
    have "receive_bytes XMODEM_BLOCK_SIZE b d2 = Some (Inr data, d3)" by (rule iffD2 [OF receive_bytes_in conjI [OF assms g(3)]])
    with g show ?thesis by (simp add: receive_block_def)
  qed
  show "\<exists>iv hi lo. bytes_in b d (n # iv # data @ [hi, lo]) d' \<and> check_block n iv data hi lo = Inr (n, data)"
    if "receive_block b d = Some (Inr (n, data), d')"
  proof -
    from that obtain c1 d1 where g1: "getc_timeout b XMODEM_TIMEOUT_TICKS d = Some (c1, d1)"
      by (auto simp: receive_block_def Option.bind_eq_Some_conv)
    with that obtain c2 d2 where g2: "getc_timeout b XMODEM_TIMEOUT_TICKS d1 = Some (c2, d2)"
      by (auto simp: receive_block_def Option.bind_eq_Some_conv)
    from that g1 g2 obtain n' iv where i: "c1 = Inr n'" "c2 = Inr iv" by (cases c1; cases c2) (auto simp: receive_block_def)
    from that g1 g2 i obtain rs d3 where g3: "receive_bytes XMODEM_BLOCK_SIZE b d2 = Some (rs, d3)"
      by (auto simp: receive_block_def Option.bind_eq_Some_conv)
    from that g1 g2 g3 i obtain bs where i3: "rs = Inr bs" by (cases rs) (auto simp: receive_block_def)
    from that g1 g2 g3 i i3 obtain c4 d4 where g4: "getc_timeout b XMODEM_TIMEOUT_TICKS d3 = Some (c4, d4)"
      by (auto simp: receive_block_def Option.bind_eq_Some_conv)
    from that g1 g2 g3 g4 i i3 obtain c5 d5 where g5: "getc_timeout b XMODEM_TIMEOUT_TICKS d4 = Some (c5, d5)"
      by (auto simp: receive_block_def Option.bind_eq_Some_conv)
    from that g1 g2 g3 g4 g5 i i3 obtain hi lo where j: "c4 = Inr hi" "c5 = Inr lo" "d5 = d'"
      "check_block n' iv bs hi lo = Inr (n, data)"
      by (cases c4; cases c5) (auto simp: receive_block_def)
    note c = j(4) and g = g1 [unfolded i] g2 [unfolded i] g3 [unfolded i3] g4 [unfolded j] g5 [unfolded j]
    from c have "n' = n" "bs = data" by (auto simp: check_block_def split: if_splits)
    moreover from this have "bytes_in b d2 data d3" using g(3) by (simp only: receive_bytes_in)
    ultimately have "bytes_in b d (n # iv # data @ [hi, lo]) d' \<and> check_block n iv data hi lo = Inr (n, data)"
      using g(1,2,4,5) c by (auto simp: bytes_in_append)
    then show ?thesis by blast
  qed
qed

lemma receive_block_length: "receive_block b d = Some (Inr (n, data), d') \<Longrightarrow> length data = 128"
  by (rule receive_block_result(2) [OF _ refl])

lemma line_bytes_in [simp]: "bytes_in line_bus (cs @ l) cs l"
  by (induction cs) auto

text \<open>
  C31: Exactly the intact blocks are handed on. On any bus, \<open>receive_block\<close> returns block number \<open>n\<close> with \<open>data\<close> if
  and only if the bytes that came in, each before its time-out and without a line error, were \<open>n\<close>, its complement, the 128
  bytes of \<open>data\<close>, and the CRC of \<open>data\<close>, high byte first. If 132 bytes came in that differ from this in the second byte, or in the
  CRC alone, the whole block is consumed and the error is the one for the block number, or for the CRC.
\<close>

theorem receive_block_exact:
  "(receive_block b d = Some (Inr (n, data), d') \<longleftrightarrow>
      length data = 128 \<and> (\<exists>hi lo. bytes_in b d (n # NOT n # data @ [hi, lo]) d' \<and>
        push_bit 8 (ucast hi) OR ucast lo = crc16_ccitt data)) \<and>
   (length data = 128 \<and> bytes_in b d (n # iv # data @ [hi, lo]) d' \<longrightarrow>
      (iv \<noteq> NOT n \<longrightarrow> receive_block b d = Some (Inl XMODEM_ERR_BLOCK_NUMBER, d')) \<and>
      (iv = NOT n \<and> push_bit 8 (ucast hi) OR ucast lo \<noteq> crc16_ccitt data \<longrightarrow>
        receive_block b d = Some (Inl XMODEM_ERR_CRC, d')))"
proof -
  have x: "n XOR i = 0xFF \<longleftrightarrow> i = NOT n" for i :: u8
  proof
    assume "n XOR i = 0xFF"
    moreover have "(0xFF :: u8) = -1" by simp
    ultimately have "n XOR (n XOR i) = n XOR -1" by (simp only:)
    then show "i = NOT n" by (simp only: xor.assoc [symmetric] xor_self_eq xor.left_neutral bit.xor_one_right)
  qed (simp add: bit.xor_compl_right)
  have c: "check_block n i data h l = Inr (n, data) \<longleftrightarrow> i = NOT n \<and> push_bit 8 (ucast h) OR ucast l = crc16_ccitt data" for i h l
    using x by (auto simp: check_block_def)
  have "receive_block b d = Some (Inr (n, data), d') \<longleftrightarrow>
      length data = 128 \<and> (\<exists>h l. bytes_in b d (n # NOT n # data @ [h, l]) d' \<and> push_bit 8 (ucast h) OR ucast l = crc16_ccitt data)"
    (is "?L \<longleftrightarrow> ?R")
  proof
    assume ?L
    note l = receive_block_length [OF this]
    from bytes_in_block(2) [OF l \<open>?L\<close>] obtain i h lo' where
      "bytes_in b d (n # i # data @ [h, lo']) d'" "check_block n i data h lo' = Inr (n, data)" by blast
    with l show ?R unfolding c by (intro conjI exI [of _ h] exI [of _ lo']) simp_all
  next
    assume ?R
    then obtain h l where l: "length data = 128" and i: "bytes_in b d (n # NOT n # data @ [h, l]) d'"
      and "push_bit 8 (ucast h) OR ucast l = crc16_ccitt data" by blast
    then have "check_block n (NOT n) data h l = Inr (n, data)" by (simp only: c simp_thms)
    with bytes_in_block(1) [OF l i] show ?L by simp
  qed
  moreover have "receive_block b d = Some (check_block n iv data hi lo, d')"
    if "length data = 128" "bytes_in b d (n # iv # data @ [hi, lo]) d'"
    by (rule bytes_in_block(1) [OF that])
  moreover have "iv \<noteq> NOT n \<Longrightarrow> check_block n iv data hi lo = Inl XMODEM_ERR_BLOCK_NUMBER"
    "iv = NOT n \<Longrightarrow> push_bit 8 (ucast hi) OR ucast lo \<noteq> crc16_ccitt data \<Longrightarrow> check_block n iv data hi lo = Inl XMODEM_ERR_CRC"
    using x [of iv] by (simp_all add: check_block_def)
  ultimately show ?thesis by metis
qed

lemma crc16_zeros: "crc16_ccitt (replicate n 0) = 0"
proof -
  have "crc16_byte 0 0 = 0" by (simp add: crc16_byte_def crc16_bit_def numeral_eq_Suc)
  then have "foldl crc16_byte 0 (replicate n 0) = 0" by (induction n) simp_all
  then show ?thesis by (simp add: crc16_ccitt_def)
qed

theorem receive_block_exact_witness:
  "receive_block line_bus (1 # 0xFE # replicate 128 0 @ [0, 1]) = Some (Inl XMODEM_ERR_CRC, []) \<and>
   receive_block line_bus (1 # 0xFF # replicate 128 0 @ [0, 0]) = Some (Inl XMODEM_ERR_BLOCK_NUMBER, [])"
proof -
  let ?z = "replicate 128 0 :: u8 list"
  have i: "bytes_in line_bus (1 # iv # ?z @ [hi, lo]) (1 # iv # ?z @ [hi, lo]) []" for iv hi lo
    using line_bytes_in [of "1 # iv # ?z @ [hi, lo]" "[]"] by simp
  have l: "length ?z = 128" by simp
  note e = conjunct2 [OF receive_block_exact [where b = line_bus and n = 1 and data = ?z and d' = "[]"], rule_format, OF conjI [OF l i]]
  show ?thesis using e [of "0xFE" 0 1] e [of "0xFF" 0 0] crc16_zeros [of 128] by simp
qed

text \<open>
  The CRC detects every change of a single byte. Two messages of the same length that differ
  in one byte, wherever it is and whatever surrounds it, have different \<open>crc16_ccitt\<close>.
\<close>

theorem crc16_detects_byte:
  "crc16_ccitt (xs @ c # ys) = crc16_ccitt (xs @ c' # ys) \<longleftrightarrow> c = c'"
proof
  assume "crc16_ccitt (xs @ c # ys) = crc16_ccitt (xs @ c' # ys)"
  then have "foldl crc16_byte 0 (xs @ c # ys) = foldl crc16_byte 0 (xs @ c' # ys)"
    unfolding crc16_ccitt_def by (rule crc16_ucast_inj) (simp_all only: crc16_fold_range crc16_range_0)
  then have "crc16_byte (foldl crc16_byte 0 xs) c = crc16_byte (foldl crc16_byte 0 xs) c'"
    using crc16_fold_inj by (simp add: foldl_append)
  then show "c = c'"
    by (rule crc16_byte_inj_byte) (simp add: crc16_fold_range)
qed simp

text \<open>
  Nothing but the expected block changes the image. A read error, a time-out, noise, CAN,
  EOT, a broken block, a duplicate of the previous block and a block out of sequence all
  leave memory, header, stream offset, image size and expected block number as they were.
\<close>

theorem xmodem_stores_expected_only:
  "same_image x (snd (snd (xmodem_react dst ev x))) \<or> (\<exists>data. ev = EvBlock (Inr (expected_block x, data)))"
  using xmodem_react_other by blast

text \<open>
  Nobody answers. On the SoC's own UART and timer with a silent line and the timer running,
  a transfer ends by itself: the receiver sends sixteen 'C' requests, each after a time-out,
  then two CANs, returns the time-out code, and has not touched memory.
\<close>

theorem xmodem_silence_times_out:
  assumes "quiet s"
  shows "\<exists>s'. xmodem_load_boot_image soc_bus dst True m s = Some (XMODEM_ERR_TIMEOUT, None, m, s') \<and>
    s_sent s' = s_sent s @ replicate 16 XMODEM_CRC_REQUEST @ [XMODEM_CAN, XMODEM_CAN]"
proof -
  have clr: "uart_clear_status soc_bus (UART_STATUS_RX_OVERRUN OR UART_STATUS_RX_FRAMEERR) s =
      soc_wr uart_ctrl_reg (UART_STATUS_RX_OVERRUN OR UART_STATUS_RX_FRAMEERR) s"
    by (simp add: uart_clear_status_def Let_def)
  define s0 where "s0 = soc_wr uart_ctrl_reg (UART_STATUS_RX_OVERRUN OR UART_STATUS_RX_FRAMEERR) s"
  have q: "quiet s0" unfolding s0_def using assms by (intro quiet_wr) (simp_all add: soc_addrs)
  have sent: "s_sent s0 = s_sent s"
    by (simp add: s0_def soc_wr_def soc_write_effect_def)
  have "\<not> sync_started (xm_init m)" "unat (sync_retries (xm_init m)) + 16 = 16"
    by (simp_all add: xm_init_def)
  from xmodem_loop_quiet_sync [OF q this, of dst] obtain x' s' where
    "xmodem_loop soc_bus dst (xm_init m) s0 = Some ((XMODEM_ERR_TIMEOUT, None), x', s')"
    "xm_mem x' = m"
    "s_sent s' = s_sent s0 @ replicate 16 XMODEM_CRC_REQUEST @ [XMODEM_CAN, XMODEM_CAN]"
    by (auto simp: xm_init_def)
  with sent show ?thesis
    unfolding xmodem_load_boot_image_def clr s0_def [symmetric] by simp
qed

theorem xmodem_silence_times_out_witness:
  "\<exists>s'. xmodem_load_boot_image soc_bus 0x80000000 True (\<lambda>_. 0) quiet_soc =
    Some (XMODEM_ERR_TIMEOUT, None, (\<lambda>_. 0), s')"
  using xmodem_silence_times_out [OF quiet_soc] by blast

text \<open>
  C39: The sender disappears after the first block. Once a block has been seen and fewer than
  sixteen requests were needed, a silent line keeps the receiver in its loop for ever: no
  state it reaches counts a failure or sends a byte (no NAK, no CAN), so it never returns.
\<close>

theorem xmodem_silence_after_start_hangs:
  assumes "quiet s" and "sync_started x" and "sync_retries x < 16"
  shows "xmodem_loop soc_bus dst x s = None \<and>
    (\<forall>st x' s'. xmodem_reaches soc_bus dst x s st x' s' \<longrightarrow> x' = x \<and> s_sent s' = s_sent s)"
  using xmodem_loop_quiet_started [OF assms] by blast

theorem xmodem_silence_after_start_hangs_witness:
  "xmodem_loop soc_bus 0x80000000 ((xm_init (\<lambda>_. 0))\<lparr>sync_started := True, sync_retries := 1\<rparr>) quiet_soc = None"
  using xmodem_silence_after_start_hangs [OF quiet_soc,
      of "(xm_init (\<lambda>_. 0))\<lparr>sync_started := True, sync_retries := 1\<rparr>" "0x80000000"]
  by (simp add: xm_init_def)

end
