(* ===== verification/Print.thy ===== *)
theory Print
  imports Uart
begin

text \<open>
  \<open>program/utils/print.c\<close>: each routine is the list of bytes it passes to \<open>putchar\<close>, in
  order. \<open>None\<close> is undefined behaviour or non-termination: a conversion without a matching
  argument, a lone percent sign at the end of the format (the scan runs past the
  terminator), and \<open>print_dec\<close> of the most negative integer (its recursive call never
  gets to a non-negative value). The lemmas give the digits' value and bound the local
  digit buffers.
\<close>

section \<open>Strings\<close>

definition print_string :: "cstring \<Rightarrow> u8 list" where
  "print_string s = s"

definition puts :: "cstring \<Rightarrow> u8 list" where
  "puts s = print_string s @ [10]"

section \<open>Numbers\<close>

text \<open>The digits a division loop leaves in its buffer, least significant first.\<close>

fun dec_digits :: "nat \<Rightarrow> nat list" where
  "dec_digits n = (if n = 0 then [] else (n mod 10) # dec_digits (n div 10))"

declare dec_digits.simps [simp del]

definition digit_char :: "nat \<Rightarrow> u8" where
  "digit_char n = 48 + of_nat n"

text \<open>The shared tail: the loop body runs once for 0, then the buffer is printed backwards.\<close>

definition print_nat :: "nat \<Rightarrow> u8 list" where
  "print_nat n = map digit_char (rev (if n = 0 then [0] else dec_digits n))"

partial_function (option) print_dec :: "u32 \<Rightarrow> u8 list option" where
  "print_dec val =
     (if sint val < 0 then Option.bind (print_dec (- val)) (\<lambda>s. Some (45 # s))
      else Some (print_nat (nat (sint val))))"

definition print_unsigned :: "u32 \<Rightarrow> u8 list" where
  "print_unsigned uval = (if uval = 0 then [48] else map digit_char (rev (dec_digits (unat uval))))"

definition print_ull :: "u64 \<Rightarrow> u8 list" where
  "print_ull v = (if v = 0 then [48] else map digit_char (rev (dec_digits (unat v))))"

definition hex_digits :: "u8 list" where
  "hex_digits = cstr ''0123456789ABCDEF''"

definition print_hex_digits :: "u32 \<Rightarrow> nat \<Rightarrow> u8 list" where
  "print_hex_digits val nbdigits =
     map (\<lambda>k. hex_digits ! unat (drop_bit (4 * k) val mod 16)) (rev [0..<nbdigits])"

definition print_hex :: "u32 \<Rightarrow> u8 list" where
  "print_hex val = print_hex_digits val 8"

section \<open>printf\<close>

datatype vararg = VStr cstring | VInt u32 | VULL u64

text \<open>
  The format bytes are written as characters' codes: 37 percent, 115 s, 120 x, 100 d,
  117 u, 108 l, 99 c.
\<close>

fun printf :: "cstring \<Rightarrow> vararg list \<Rightarrow> u8 list option" where
  "printf [] args = Some []"
| "printf (c # fmt) args =
     (if c \<noteq> 37 then map_option ((#) c) (printf fmt args)
      else case fmt of
        [] \<Rightarrow> None
      | f # rest \<Rightarrow>
          if f = 115 then
            (case args of VStr s # vs \<Rightarrow> map_option ((@) (print_string s)) (printf rest vs)
             | _ \<Rightarrow> None)
          else if f = 120 then
            (case args of VInt v # vs \<Rightarrow> map_option ((@) (print_hex v)) (printf rest vs)
             | _ \<Rightarrow> None)
          else if f = 100 then
            (case args of VInt v # vs \<Rightarrow>
               Option.bind (print_dec v) (\<lambda>s. map_option ((@) s) (printf rest vs))
             | _ \<Rightarrow> None)
          else if f = 117 then
            (case args of VInt v # vs \<Rightarrow> map_option ((@) (print_unsigned v)) (printf rest vs)
             | _ \<Rightarrow> None)
          else if f = 108 \<and> take 2 rest = [108, 117] then
            (case args of VULL v # vs \<Rightarrow> map_option ((@) (print_ull v)) (printf (drop 2 rest) vs)
             | _ \<Rightarrow> None)
          else if f = 99 then
            (case args of VInt v # vs \<Rightarrow> map_option ((#) (ucast v)) (printf rest vs)
             | _ \<Rightarrow> None)
          else map_option ((#) f) (printf rest args))"

section \<open>Value of a digit string\<close>

definition is_digit :: "u8 \<Rightarrow> bool" where
  "is_digit c \<longleftrightarrow> 48 \<le> c \<and> c \<le> 57"

definition digit_val :: "u8 \<Rightarrow> nat" where
  "digit_val c = unat (c - 48)"

definition dec_value :: "u8 list \<Rightarrow> nat" where
  "dec_value ds = foldl (\<lambda>v c. v * 10 + digit_val c) 0 ds"

lemma dec_value_Nil [simp]: "dec_value [] = 0"
  by (simp add: dec_value_def)

lemma dec_value_snoc [simp]: "dec_value (ds @ [c]) = dec_value ds * 10 + digit_val c"
  by (simp add: dec_value_def)

lemma digit_char_props:
  assumes "n < 10"
  shows "is_digit (digit_char n)" "digit_val (digit_char n) = n"
proof -
  have u: "unat (of_nat n :: u8) = n" using assms by (simp add: unsigned_of_nat take_bit_nat_eq_self)
  then have "unat (digit_char n) = 48 + n"
    unfolding digit_char_def using assms by (subst unat_plus_no_wrap) simp_all
  then show "is_digit (digit_char n)" using assms by (simp add: is_digit_def word_le_nat_alt)
  show "digit_val (digit_char n) = n" by (simp add: digit_val_def digit_char_def u)
qed

lemma dec_digits_less: "d \<in> set (dec_digits n) \<Longrightarrow> d < 10"
  by (induction n rule: dec_digits.induct) (subst (asm) dec_digits.simps, auto split: if_splits)

lemma dec_value_dec_digits: "dec_value (map digit_char (rev (dec_digits n))) = n"
proof (induction n rule: dec_digits.induct)
  case (1 n)
  then show ?case
    by (cases "n = 0") (simp_all add: dec_digits.simps [of n] digit_char_props dec_digits.simps [of 0])
qed

lemma dec_digits_Nil_iff [simp]: "dec_digits n = [] \<longleftrightarrow> n = 0"
  by (simp add: dec_digits.simps [of n])

text \<open>A number below \<open>10 ^ k\<close> has at most \<open>k\<close> digits.\<close>

lemma length_dec_digits: "n < 10 ^ k \<Longrightarrow> length (dec_digits n) \<le> k"
proof (induction k arbitrary: n)
  case 0
  then show ?case by (simp add: dec_digits.simps [of n])
next
  case (Suc k)
  have "n div 10 < 10 ^ k" using Suc.prems by (simp add: div_less_iff_less_mult mult.commute)
  from Suc.IH [OF this] show ?case by (simp add: dec_digits.simps [of n])
qed

lemma print_nat_props:
  "dec_value (print_nat n) = n" "\<forall>c\<in>set (print_nat n). is_digit c" "print_nat n \<noteq> []"
  using dec_digits_less [of _ n] dec_value_dec_digits [of n] digit_char_props(1)
  by (auto simp: print_nat_def digit_char_props(2) [of 0] dec_value_def)

lemma print_unsigned_eq: "print_unsigned v = print_nat (unat v)"
  by (simp add: print_unsigned_def print_nat_def unat_eq_0 digit_char_def)

lemma print_dec_nonneg: "0 \<le> sint v \<Longrightarrow> print_dec v = Some (print_nat (nat (sint v)))"
  by (simp add: print_dec.simps)

lemma print_dec_neg:
  assumes "sint v < 0" and "sint v \<noteq> - 2147483648"
  shows "print_dec v = Some (45 # print_nat (nat (- sint v)))"
proof -
  have "sint (- v) = - sint v"
    using assms sint_ge [of v] sint_lt [of v]
    by (simp add: sint_word_ariths signed_take_bit_int_eq_self)
  with assms show ?thesis by (subst print_dec.simps) (simp add: print_dec_nonneg)
qed

lemma print_dec_min: "print_dec 0x80000000 = None"
proof (rule ccontr)
  assume "print_dec 0x80000000 \<noteq> None"
  then obtain s where s: "print_dec 0x80000000 = Some s" by auto
  have "(0x80000000 :: u32) \<noteq> 0x80000000"
  proof (rule print_dec.raw_induct [where P = "\<lambda>v r. v \<noteq> 0x80000000", OF _ s])
    fix f :: "u32 \<Rightarrow> u8 list option" and v r
    assume IH: "\<And>v r. f v = Some r \<Longrightarrow> v \<noteq> 0x80000000"
      and eq: "(if sint v < 0 then Option.bind (f (- v)) (\<lambda>s. Some (45 # s))
        else Some (print_nat (nat (sint v)))) = Some r"
    show "v \<noteq> 0x80000000"
    proof
      assume v: "v = 0x80000000"
      then have "- v = 0x80000000" and "sint v < 0" by simp_all
      with eq have "\<exists>r. f 0x80000000 = Some r" by (auto simp: Option.bind_eq_Some_conv)
      with IH show False by blast
    qed
  qed
  then show False by simp
qed

end
