(* ===== verification/Shell_Util.thy ===== *)
theory Shell_Util
  imports Print Line_Bus
begin

text \<open>
  The parsing and input helpers of the ROM shell, \<open>program/app/main.c\<close>: string comparison,
  decimal parsing with overflow check, the line editor and the key wait. A pointer into a
  string is the rest of the string; NULL is \<open>None\<close>. The lemmas give the exact language the
  number parsers accept and the exact editing the line reader does.
\<close>

section \<open>Strings and numbers\<close>

fun str_equals :: "cstring \<Rightarrow> cstring \<Rightarrow> bool" where
  "str_equals (x # xs) (y # ys) = (if x \<noteq> y then False else str_equals xs ys)"
| "str_equals xs ys = (xs = [] \<and> ys = [])"

definition skip_spaces :: "cstring \<Rightarrow> cstring" where
  "skip_spaces s = dropWhile (\<lambda>c. c = 32) s"

text \<open>
  The digit loop with its locals \<open>value\<close> and \<open>any\<close>; \<open>None\<close> is the early return on
  overflow. The result is the value, the flag and the position after the digits.
\<close>

fun parse_digits :: "u32 \<Rightarrow> bool \<Rightarrow> cstring \<Rightarrow> (u32 \<times> bool \<times> cstring) option" where
  "parse_digits val seen [] = Some (val, seen, [])"
| "parse_digits val seen (c # s) =
     (if is_digit c then
        let digit = ucast (c - 48)
        in if (0xFFFFFFFF - digit) div 10 < val then None
           else parse_digits (val * 10 + digit) True s
      else Some (val, seen, c # s))"

definition parse_u32_dec :: "cstring option \<Rightarrow> u32 option" where
  "parse_u32_dec ps =
     (case ps of None \<Rightarrow> None
      | Some s0 \<Rightarrow>
          let s = skip_spaces s0
          in if s = [] then None
             else case parse_digits 0 False s of
               None \<Rightarrow> None
             | Some (val, seen, rest) \<Rightarrow>
                 if skip_spaces rest \<noteq> [] then None
                 else if \<not> seen then None else Some val)"

definition parse_u32_dec_prefix :: "cstring option \<Rightarrow> (u32 \<times> cstring) option" where
  "parse_u32_dec_prefix ps =
     (case ps of None \<Rightarrow> None
      | Some s0 \<Rightarrow>
          let s = skip_spaces s0
          in if s = [] then None
             else case parse_digits 0 False s of
               None \<Rightarrow> None
             | Some (val, seen, rest) \<Rightarrow> if \<not> seen then None else Some (val, rest))"

definition parse_three_u32_dec :: "cstring option \<Rightarrow> (u32 \<times> u32 \<times> u32) option" where
  "parse_three_u32_dec ps =
     (case ps of None \<Rightarrow> None
      | Some s0 \<Rightarrow>
          case parse_u32_dec_prefix (Some s0) of None \<Rightarrow> None
          | Some (a, s1) \<Rightarrow>
              let s2 = skip_spaces s1 in
              if s2 = [] then None
              else case parse_u32_dec_prefix (Some s2) of None \<Rightarrow> None
              | Some (b, s3) \<Rightarrow>
                  let s4 = skip_spaces s3 in
                  if s4 = [] then None
                  else case parse_u32_dec_prefix (Some s4) of None \<Rightarrow> None
                  | Some (c, s5) \<Rightarrow> if skip_spaces s5 = [] then Some (a, b, c) else None)"

section \<open>Input\<close>

text \<open>\<open>True\<close> is the return value 1: a key was pressed before the time was over.\<close>

definition wait_try :: "'d bus \<Rightarrow> u32 \<Rightarrow> u32 \<Rightarrow> 'd \<Rightarrow> bool option \<times> 'd" where
  "wait_try b start ticks d =
     (let (now, d1) = timer_get_count b d
      in if \<not> now - start < ticks then (Some False, d1)
         else let (ch, d2) = uart_getc_nonblocking b d1
           in (if ch \<noteq> None then Some True else None, d2))"

definition wait_ticks_or_keypress :: "'d bus \<Rightarrow> u32 \<Rightarrow> 'd \<Rightarrow> (bool \<times> 'd) option" where
  "wait_ticks_or_keypress b ticks d =
     (let (start, d1) = timer_get_count b d in poll_until (wait_try b start ticks) d1)"

text \<open>
  What one received byte does to the line \<open>buf\<close>: the new line with the echo, or the end of
  the line.
\<close>

datatype key = Edit "u8 list" "u8 list" | Enter

definition line_key :: "u8 list \<Rightarrow> u8 \<Rightarrow> key" where
  "line_key buf ch0 =
     (let ch = (if ch0 = 13 then 10 else ch0)
      in if ch = 10 then Enter
         else if ch = 0x7F \<or> ch = 8 then
           (if buf \<noteq> [] then Edit (butlast buf) [8, 32, 8] else Edit buf [])
         else Edit (buf @ [ch]) [ch])"

text \<open>The result is the bytes stored before the final NUL; their number is the return value.\<close>

partial_function (option) read_line_loop ::
    "'d bus \<Rightarrow> nat \<Rightarrow> u8 list \<Rightarrow> 'd \<Rightarrow> (u8 list \<times> 'd) option" where
  "read_line_loop b maxlen buf d =
     (if length buf < maxlen - 1 then
        (case uart_getc_blocking b d of
           None \<Rightarrow> None
         | Some (ch, d1) \<Rightarrow>
             (case line_key buf ch of
                Enter \<Rightarrow> map_option (\<lambda>d2. (buf, d2)) (put_bytes b [13, 10] d1)
              | Edit buf' echo \<Rightarrow>
                  (case put_bytes b echo d1 of
                     None \<Rightarrow> None
                   | Some d2 \<Rightarrow> read_line_loop b maxlen buf' d2)))
      else Some (buf, d))"

definition read_line :: "'d bus \<Rightarrow> nat \<Rightarrow> 'd \<Rightarrow> (u8 list \<times> 'd) option" where
  "read_line b maxlen d = read_line_loop b maxlen [] d"

section \<open>Comparison\<close>

lemma str_equals_iff: "str_equals a b \<longleftrightarrow> a = b"
  by (induction a b rule: str_equals.induct) auto

section \<open>The digit loop\<close>

definition dec_from :: "nat \<Rightarrow> u8 list \<Rightarrow> nat" where
  "dec_from v ds = foldl (\<lambda>v c. v * 10 + digit_val c) v ds"

lemma dec_from_simps [simp]:
  "dec_from v [] = v" "dec_from v (c # ds) = dec_from (v * 10 + digit_val c) ds"
  by (simp_all add: dec_from_def)

lemma dec_from_0: "dec_from 0 ds = dec_value ds"
  by (simp add: dec_from_def dec_value_def)

lemma dec_from_mono: "v \<le> dec_from v ds"
proof (induction ds arbitrary: v)
  case (Cons c ds)
  have "v \<le> v * 10 + digit_val c" by simp
  also have "\<dots> \<le> dec_from (v * 10 + digit_val c) ds" by (rule Cons.IH)
  finally show ?case by simp
qed simp

lemma is_digit_val:
  assumes "is_digit c"
  shows "digit_val c < 10" "unat (ucast (c - 48) :: u32) = digit_val c"
proof -
  from assms have "48 \<le> c" "c \<le> 57" by (simp_all add: is_digit_def)
  then have "unat (c - 48) = unat c - 48" "unat c \<le> 57"
    by (simp_all add: unat_sub word_le_nat_alt)
  then show "digit_val c < 10" by (simp add: digit_val_def)
  show "unat (ucast (c - 48) :: u32) = digit_val c"
    by (simp only: digit_val_def unat_ucast_u8_u32)
qed

text \<open>The overflow test of the code is exact.\<close>

lemma digit_step:
  fixes val :: u32
  assumes "is_digit c" and d: "d = ucast (c - 48)"
  shows "(0xFFFFFFFF - d) div 10 < val \<longleftrightarrow> 4294967296 \<le> unat val * 10 + digit_val c"
    and "unat val * 10 + digit_val c < 4294967296 \<Longrightarrow>
      unat (val * 10 + d) = unat val * 10 + digit_val c"
proof -
  from is_digit_val [OF assms(1)] have u: "unat d = digit_val c" and lt: "digit_val c < 10"
    by (simp_all add: d)
  have "d \<le> 0xFFFFFFFF" using u lt by (simp add: word_le_nat_alt)
  then have "unat (0xFFFFFFFF - d) = 4294967295 - digit_val c" using u by (subst unat_sub) simp_all
  then have "unat ((0xFFFFFFFF - d) div 10) = (4294967295 - digit_val c) div 10"
    by (simp add: unat_div)
  then have "(0xFFFFFFFF - d) div 10 < val \<longleftrightarrow> (4294967295 - digit_val c) div 10 < unat val"
    by (simp add: word_less_nat_alt)
  also have "\<dots> \<longleftrightarrow> 4294967295 - digit_val c < unat val * 10"
    by (simp add: div_less_iff_less_mult)
  finally show "(0xFFFFFFFF - d) div 10 < val \<longleftrightarrow> 4294967296 \<le> unat val * 10 + digit_val c"
    using lt by linarith
  assume ok: "unat val * 10 + digit_val c < 4294967296"
  then have m: "unat (val * 10) = unat val * 10" by (subst unat_mult_no_wrap) simp_all
  with ok u show "unat (val * 10 + d) = unat val * 10 + digit_val c"
    by (subst unat_plus_no_wrap) simp_all
qed

lemma parse_digits_eq:
  "parse_digits val seen s =
     (let ds = takeWhile is_digit s; rest = dropWhile is_digit s
      in if dec_from (unat val) ds < 4294967296
         then Some (of_nat (dec_from (unat val) ds), seen \<or> ds \<noteq> [], rest) else None)"
proof (induction s arbitrary: val seen)
  case Nil
  then show ?case using unat_u32_less [of val] by (simp add: Let_def)
next
  case (Cons c s)
  show ?case
  proof (cases "is_digit c")
    case False
    then show ?thesis using unat_u32_less [of val] by (simp add: Let_def)
  next
    case True
    define d :: u32 where "d = ucast (c - 48)"
    note step = digit_step [OF True d_def, of val]
    show ?thesis
    proof (cases "unat val * 10 + digit_val c < 4294967296")
      case False
      then have "\<not> dec_from (unat val * 10 + digit_val c) (takeWhile is_digit s) < 4294967296"
        using dec_from_mono [of "unat val * 10 + digit_val c" "takeWhile is_digit s"] by linarith
      with True False step(1) show ?thesis by (simp add: Let_def d_def [symmetric])
    next
      case ok: True
      with True step Cons.IH [of "val * 10 + d" True] show ?thesis
        by (simp add: Let_def d_def [symmetric] not_le)
    qed
  qed
qed

section \<open>What the parsers accept\<close>

text \<open>A decimal literal in range and its value.\<close>

definition decimal :: "u8 list \<Rightarrow> u32 \<Rightarrow> bool" where
  "decimal ds v \<longleftrightarrow> ds \<noteq> [] \<and> (\<forall>c\<in>set ds. is_digit c) \<and> dec_value ds = unat v"

definition spaces :: "u8 list \<Rightarrow> bool" where
  "spaces s \<longleftrightarrow> (\<forall>c\<in>set s. c = 32)"

lemma spaces_simps [simp]: "spaces []" "spaces (c # s) \<longleftrightarrow> c = 32 \<and> spaces s"
  by (auto simp: spaces_def)

lemma skip_spaces_split: "\<exists>sp. s = sp @ skip_spaces s \<and> spaces sp"
  by (rule exI [of _ "takeWhile (\<lambda>c. c = 32) s"])
    (auto simp: skip_spaces_def spaces_def dest: set_takeWhileD)

lemma skip_spaces_append: "spaces sp \<Longrightarrow> skip_spaces (sp @ s) = skip_spaces s"
  by (induction sp) (simp_all add: skip_spaces_def)

lemma skip_spaces_Nil_iff: "skip_spaces s = [] \<longleftrightarrow> spaces s"
  by (auto simp: skip_spaces_def spaces_def)

lemma is_digit_not_space: "is_digit c \<Longrightarrow> c \<noteq> 32"
  by (auto simp: is_digit_def word_le_nat_alt)

lemma parse_digits_Some:
  assumes "parse_digits 0 False s = Some (v, True, rest)"
  shows "\<exists>ds. s = ds @ rest \<and> decimal ds v \<and> (rest = [] \<or> \<not> is_digit (hd rest))"
proof -
  define ds where "ds = takeWhile is_digit s"
  have s: "s = ds @ dropWhile is_digit s" by (simp add: ds_def)
  from assms have "dec_value ds < 4294967296" "v = of_nat (dec_value ds)" "ds \<noteq> []"
    and r: "rest = dropWhile is_digit s"
    by (auto simp: parse_digits_eq Let_def ds_def dec_from_0 split: if_splits)
  then have "decimal ds v"
    by (auto simp: decimal_def unat_of_nat_u32 ds_def dest: set_takeWhileD)
  moreover have "rest = [] \<or> \<not> is_digit (hd rest)" unfolding r using hd_dropWhile [of is_digit s] by auto
  moreover have "s = ds @ rest" using s r by simp
  ultimately show ?thesis by blast
qed

lemma parse_digits_decimal:
  assumes "decimal ds v" and "rest = [] \<or> \<not> is_digit (hd rest)"
  shows "parse_digits 0 False (ds @ rest) = Some (v, True, rest)"
proof -
  from assms(1) have a: "\<forall>c\<in>set ds. is_digit c" by (simp add: decimal_def)
  have "takeWhile is_digit rest = []" "dropWhile is_digit rest = rest"
    using assms(2) by (cases rest; simp)+
  with a have "takeWhile is_digit (ds @ rest) = ds" "dropWhile is_digit (ds @ rest) = rest"
    by (simp_all add: takeWhile_append dropWhile_append)
  moreover have "dec_value ds < 4294967296" "of_nat (dec_value ds) = v"
    using assms(1) unat_u32_less [of v] by (simp_all add: decimal_def)
  ultimately show ?thesis
    using assms(1) by (simp add: parse_digits_eq dec_from_0 Let_def decimal_def)
qed

lemma decimal_skip: "decimal ds v \<Longrightarrow> skip_spaces (ds @ s) = ds @ s"
  by (cases ds) (auto simp: decimal_def skip_spaces_def is_digit_not_space)

lemma parse_u32_dec_prefix_iff:
  "parse_u32_dec_prefix (Some s) = Some (v, rest) \<longleftrightarrow>
   (\<exists>sp ds. s = sp @ ds @ rest \<and> spaces sp \<and> decimal ds v \<and> (rest = [] \<or> \<not> is_digit (hd rest)))"
proof
  assume "parse_u32_dec_prefix (Some s) = Some (v, rest)"
  then have "parse_digits 0 False (skip_spaces s) = Some (v, True, rest)"
    by (auto simp: parse_u32_dec_prefix_def Let_def split: if_splits option.splits)
  from parse_digits_Some [OF this] skip_spaces_split [of s]
  show "\<exists>sp ds. s = sp @ ds @ rest \<and> spaces sp \<and> decimal ds v \<and> (rest = [] \<or> \<not> is_digit (hd rest))"
    by metis
next
  assume "\<exists>sp ds. s = sp @ ds @ rest \<and> spaces sp \<and> decimal ds v \<and> (rest = [] \<or> \<not> is_digit (hd rest))"
  then obtain sp ds where s: "s = sp @ ds @ rest" "spaces sp" and d: "decimal ds v"
    and r: "rest = [] \<or> \<not> is_digit (hd rest)" by blast
  have "skip_spaces s = ds @ rest" using s d by (simp add: skip_spaces_append decimal_skip)
  moreover have "ds @ rest \<noteq> []" using d by (auto simp: decimal_def)
  ultimately show "parse_u32_dec_prefix (Some s) = Some (v, rest)"
    using parse_digits_decimal [OF d r] by (simp add: parse_u32_dec_prefix_def)
qed

lemma parse_u32_dec_prefix_eq:
  "parse_u32_dec (Some s) =
     (case parse_u32_dec_prefix (Some s) of None \<Rightarrow> None
      | Some (v, rest) \<Rightarrow> if skip_spaces rest = [] then Some v else None)"
  by (auto simp: parse_u32_dec_def parse_u32_dec_prefix_def Let_def split: option.splits)

lemma spaces_no_digit: "spaces t \<Longrightarrow> t = [] \<or> \<not> is_digit (hd t)"
  using is_digit_not_space by (cases t) auto

lemma parse_u32_dec_iff:
  "parse_u32_dec (Some s) = Some v \<longleftrightarrow>
   (\<exists>sp ds t. s = sp @ ds @ t \<and> spaces sp \<and> decimal ds v \<and> spaces t)"
proof -
  have "parse_u32_dec (Some s) = Some v \<longleftrightarrow>
      (\<exists>t. parse_u32_dec_prefix (Some s) = Some (v, t) \<and> spaces t)"
    by (auto simp: parse_u32_dec_prefix_eq skip_spaces_Nil_iff split: option.splits if_splits)
  then show ?thesis
    unfolding parse_u32_dec_prefix_iff using spaces_no_digit by blast
qed

section \<open>Line editing\<close>

text \<open>The editor as a function of the bytes typed: the line, and what is left unread.\<close>

fun edit_line :: "nat \<Rightarrow> u8 list \<Rightarrow> u8 list \<Rightarrow> (u8 list \<times> u8 list) option" where
  "edit_line maxlen buf keys =
     (if length buf < maxlen - 1 then
        (case keys of
           [] \<Rightarrow> None
         | ch # rest \<Rightarrow>
             (case line_key buf ch of
                Enter \<Rightarrow> Some (buf, rest)
              | Edit buf' _ \<Rightarrow> edit_line maxlen buf' rest))
      else Some (buf, keys))"

declare edit_line.simps [simp del]

lemma line_key_length:
  "line_key buf ch = Edit buf' echo \<Longrightarrow> length buf' \<le> Suc (length buf)"
  by (auto simp: line_key_def Let_def split: if_splits)

text \<open>The buffer never holds more than the bytes that leave room for the NUL.\<close>

lemma read_line_loop_bound:
  assumes "read_line_loop b maxlen buf d = Some (line, d')" and "length buf \<le> maxlen - 1"
  shows "length line \<le> maxlen - 1"
proof -
  have "length buf \<le> maxlen - 1 \<longrightarrow> length (fst (line, d')) \<le> maxlen - 1"
  proof (rule read_line_loop.raw_induct [where
        P = "\<lambda>b maxlen buf d y. length buf \<le> maxlen - 1 \<longrightarrow> length (fst y) \<le> maxlen - 1",
        OF _ assms(1)], goal_cases)
    case (1 loop b maxlen buf d y)
    show ?case
    proof
      assume len: "length buf \<le> maxlen - 1"
      show "length (fst y) \<le> maxlen - 1"
      proof (cases "length buf < maxlen - 1")
        case False
        with 1(2) len show ?thesis by auto
      next
        case True
        with 1(2) obtain ch d1 where g: "uart_getc_blocking b d = Some (ch, d1)"
          by (auto split: option.splits)
        show ?thesis
        proof (cases "line_key buf ch")
          case Enter
          with 1(2) True g len show ?thesis by auto
        next
          case (Edit buf' echo)
          with 1(2) True g obtain d2 where "loop b maxlen buf' d2 = Some y"
            by (auto split: option.splits)
          from 1(1) [OF this] line_key_length [OF Edit] True show ?thesis by simp
        qed
      qed
    qed
  qed
  with assms(2) show ?thesis by simp
qed

text \<open>On a line with the keys waiting, the code edits exactly like the function.\<close>

lemma read_line_loop_edit:
  "read_line_loop line_bus maxlen buf keys = edit_line maxlen buf keys"
proof (induction maxlen buf keys rule: edit_line.induct)
  case (1 maxlen buf keys)
  show ?case
  proof (cases "length buf < maxlen - 1")
    case False
    then show ?thesis by (simp add: read_line_loop.simps edit_line.simps)
  next
    case True
    show ?thesis
    proof (cases keys)
      case Nil
      with True show ?thesis by (simp add: read_line_loop.simps edit_line.simps)
    next
      case (Cons ch rest)
      with True 1 show ?thesis
        by (simp add: read_line_loop.simps [of _ _ buf] edit_line.simps [of _ buf] split: key.splits)
    qed
  qed
qed

end
