(* ===== verification/Shell.thy ===== *)
theory Shell
  imports Shell_Util Peripherals Fatboot Xmodem
begin

text \<open>
  The ROM shell, \<open>program/app/main.c\<close>: every command but the hardware self-tests, the command
  split, the dispatch and the main loop. The state is the device behind the bus, the memory
  and the drivers' statics. A command ends with \<open>Return\<close>, or with \<open>Jump\<close> when it enters the
  image at \<open>0x80000000\<close> (\<open>boot_jump_to_ddr\<close> does not come back); \<open>None\<close> is a command
  that never ends. The raystones benchmark and the self-tests are the argument \<open>ext\<close>.
\<close>

section \<open>State and output\<close>

record 'd shell =
  sh_dev :: 'd
  sh_mem :: memory
  sh_sd :: sd_state
  sh_tps :: u32
  sh_spi :: u32

datatype outcome = Return | Jump

datatype self_test =
    RAYSTONES | TEST_PRIV | TEST_SV32 | TEST_M | TEST_CSR | TEST_IRQ | TEST_MTIME | TEST_MSIP
  | TEST_SHIFT | TEST_A

type_synonym 'd cmd_result = "(outcome \<times> 'd shell) option"

definition say :: "'d bus \<Rightarrow> u8 list \<Rightarrow> 'd shell \<Rightarrow> 'd shell option" where
  "say b bs st = map_option (\<lambda>d. st\<lparr>sh_dev := d\<rparr>) (put_bytes b bs (sh_dev st))"

definition say_line :: "'d bus \<Rightarrow> string \<Rightarrow> 'd shell \<Rightarrow> 'd shell option" where
  "say_line b s st = say b (puts (cstr s)) st"

text \<open>\<open>printf\<close> with a constant format; \<open>nl\<close> says whether it ends in a newline.\<close>

definition say_fmt :: "'d bus \<Rightarrow> string \<Rightarrow> bool \<Rightarrow> vararg list \<Rightarrow> 'd shell \<Rightarrow> 'd shell option" where
  "say_fmt b fmt nl args st =
     Option.bind (printf (cstr fmt @ (if nl then [10] else [])) args) (\<lambda>bs. say b bs st)"

definition finish :: "'d shell option \<Rightarrow> 'd cmd_result" where
  "finish r = map_option (Pair Return) r"

section \<open>Commands\<close>

definition help_lines :: "self_test set \<Rightarrow> string list" where
  "help_lines cfg =
    [''Commands:'',
     ''  help               - show this help'',
     ''  led <6-bit-bin>    - set LEDs, e.g. led 101010'',
     ''  blink <seconds>    - alternate LEDs every N seconds'',
     ''  print <text>       - print text'',
     ''  i2c_scan           - scan I2C 7-bit addresses'',
     ''  sdcard_rd <lba> <skip> <count> - read SD sector and hex dump bytes'',
     ''  raystones          - run the raystones benchmark'',
     ''  sdload             - load BOOT.BIN from SD and jump to DDR app'',
     ''  uartload           - receive BOOT.BIN via XMODEM-CRC and jump to DDR app'',
     ''  ddrboot            - jump to a preloaded image at 0x80000000'',
     ''  lcd                - draw colorbar on the DDR-backed LCD framebuffer'',
     ''  test-priv          - test Bare M/S/U privilege transitions'',
     ''  test-sv32          - test Sv32 data translation and page walk''] @
     (if TEST_M \<in> cfg then [''  test-m             - test M extension (multiply/divide)''] else []) @
     (if TEST_CSR \<in> cfg then [''  test-csr           - test CSRs and trap handling''] else []) @
     (if TEST_IRQ \<in> cfg then [''  test-irq           - test asynchronous hardware interrupts''] else []) @
     (if TEST_MTIME \<in> cfg then [''  test-mtime         - read and display machine timer''] else []) @
     (if TEST_MSIP \<in> cfg then [''  test-msip          - test machine software interrupt (MSIP)''] else []) @
     (if TEST_SHIFT \<in> cfg then [''  test-shift         - test SRA/SRAI and uint16 CRC''] else []) @
     (if TEST_A \<in> cfg then [''  test-a             - test RV32A LR/SC and AMO instructions''] else [])"

fun say_lines :: "'d bus \<Rightarrow> string list \<Rightarrow> 'd shell \<Rightarrow> 'd shell option" where
  "say_lines b [] st = Some st"
| "say_lines b (l # ls) st = Option.bind (say_line b l st) (say_lines b ls)"

definition shell_help :: "'d bus \<Rightarrow> self_test set \<Rightarrow> 'd shell \<Rightarrow> 'd cmd_result" where
  "shell_help b cfg st = finish (say_lines b (help_lines cfg) st)"

text \<open>The scan of the binary digits: the value, the count and the position it stops at.\<close>

fun scan_bits :: "u8 \<Rightarrow> nat \<Rightarrow> cstring \<Rightarrow> u8 \<times> nat \<times> cstring" where
  "scan_bits val n [] = (val, n, [])"
| "scan_bits val n (c # s) =
     (if c = 48 \<or> c = 49 then
        let val' = push_bit 1 val OR (c - 48); n' = n + 1
        in if 6 < n' then (val', n', s) else scan_bits val' n' s
      else (val, n, c # s))"

definition bits6 :: "u8 \<Rightarrow> u8 list" where
  "bits6 val = map (\<lambda>i. if bit val i then 49 else 48) [5, 4, 3, 2, 1, 0]"

definition shell_set_leds :: "'d bus \<Rightarrow> cstring \<Rightarrow> 'd shell \<Rightarrow> 'd cmd_result" where
  "shell_set_leds b arg st =
     (if arg = [] then finish (say_line b ''Usage: led <6-bit-binary>'' st)
      else let (val, n, rest) = scan_bits 0 0 arg
        in if n \<noteq> 6 \<or> (rest \<noteq> [] \<and> hd rest \<noteq> 32)
           then finish (say_line b ''Error: provide exactly 6 binary digits, e.g. led 101010'' st)
           else
             let d1 = gpio_set_leds b val (sh_dev st);
                 (actual, d2) = gpio_get_leds b d1
             in finish (do {
                  st1 \<leftarrow> say_fmt b ''LEDs set to 0b'' False [] (st\<lparr>sh_dev := d2\<rparr>);
                  st2 \<leftarrow> say b (bits6 val) st1;
                  st3 \<leftarrow> say_fmt b '' (readback 0b'' False [] st2;
                  st4 \<leftarrow> say b (bits6 actual) st3;
                  say_line b '')'' st4
                }))"

definition shell_print_text :: "'d bus \<Rightarrow> cstring \<Rightarrow> 'd shell \<Rightarrow> 'd cmd_result" where
  "shell_print_text b arg st =
     (if arg = [] then finish (say_line b ''Usage: print <text>'' st)
      else finish (say b (puts arg) st))"

definition run_test ::
    "(self_test \<Rightarrow> cstring \<Rightarrow> 'd shell \<Rightarrow> 'd shell option) \<Rightarrow> self_test \<Rightarrow> cstring \<Rightarrow> 'd shell \<Rightarrow>
     'd cmd_result" where
  "run_test ext t arg st = finish (ext t arg st)"

definition shell_run_raystones ::
    "'d bus \<Rightarrow> (self_test \<Rightarrow> cstring \<Rightarrow> 'd shell \<Rightarrow> 'd shell option) \<Rightarrow> cstring \<Rightarrow> 'd shell \<Rightarrow>
     'd cmd_result" where
  "shell_run_raystones b ext arg st =
     (if arg \<noteq> [] then finish (say_line b ''Usage: raystones'' st)
      else run_test ext RAYSTONES arg st)"

text \<open>The scan loop, from address \<open>a\<close> for \<open>n\<close> addresses, with the count of devices found.\<close>

fun i2c_scan_loop :: "nat \<Rightarrow> nat \<Rightarrow> 'd bus \<Rightarrow> u32 \<Rightarrow> 'd shell \<Rightarrow> (u32 \<times> 'd shell) option" where
  "i2c_scan_loop a 0 b found st = Some (found, st)"
| "i2c_scan_loop a (Suc n) b found st =
     do {
       (hit, d) \<leftarrow> i2c_probe_7bit b (of_nat a) (sh_dev st);
       let st1 = st\<lparr>sh_dev := d\<rparr>;
       if hit then do {
         st2 \<leftarrow> say_fmt b ''  found: 0x%x'' True [VInt (of_nat a)] st1;
         i2c_scan_loop (Suc a) n b (found + 1) st2
       } else i2c_scan_loop (Suc a) n b found st1
     }"

definition shell_i2c_scan :: "'d bus \<Rightarrow> cstring \<Rightarrow> 'd shell \<Rightarrow> 'd cmd_result" where
  "shell_i2c_scan b arg st =
     (if arg \<noteq> [] then finish (say_line b ''Usage: i2c_scan'' st)
      else finish (do {
        st1 \<leftarrow> say_line b ''I2C scan (0x03..0x77):'' st;
        (found, st2) \<leftarrow> i2c_scan_loop 0x03 0x75 b 0 st1;
        if found = 0 then say_line b ''  (no devices)'' st2
        else say_fmt b ''Done, %d device(s) found.'' True [VInt found] st2
      }))"

text \<open>The blink loop ends when a key is pressed.\<close>

partial_function (option) blink_loop :: "'d bus \<Rightarrow> u32 \<Rightarrow> u8 \<Rightarrow> 'd \<Rightarrow> 'd option" where
  "blink_loop b ticks pat d =
     (case wait_ticks_or_keypress b ticks (gpio_set_leds b pat d) of
        None \<Rightarrow> None
      | Some (pressed, d1) \<Rightarrow>
          if pressed then Some d1
          else blink_loop b ticks (if pat = 0x15 then 0x2A else 0x15) d1)"

definition shell_blink :: "'d bus \<Rightarrow> cstring \<Rightarrow> 'd shell \<Rightarrow> 'd cmd_result" where
  "shell_blink b arg st =
     (case parse_u32_dec (Some arg) of
        None \<Rightarrow> finish (say_line b ''Usage: blink <seconds>'' st)
      | Some seconds \<Rightarrow>
          if seconds = 0 then finish (say_line b ''Usage: blink <seconds>'' st)
          else if sh_tps st = 0 then finish (say_line b ''Error: timer not initialized'' st)
          else if 0xFFFFFFFF div sh_tps st < seconds
            then finish (say_line b ''Error: seconds too large'' st)
          else finish (do {
            st1 \<leftarrow> say_line b ''Blinking. Press any key to stop.'' st;
            d \<leftarrow> blink_loop b (seconds * sh_tps st) 0x15 (sh_dev st1);
            Some (st1\<lparr>sh_dev := gpio_set_leds b 0 d\<rparr>)
          }))"

text \<open>The hex dump of \<open>count\<close> bytes from \<open>skip\<close>; a read past the sector is \<open>None\<close>.\<close>

definition hex_byte :: "u8 \<Rightarrow> u8 list" where
  "hex_byte x = [hex_digits ! unat (drop_bit 4 x), hex_digits ! unat (x AND 0x0F), 32]"

definition sector_byte :: "u8 list \<Rightarrow> nat \<Rightarrow> u8 option" where
  "sector_byte sector i = (if i < 512 then Some (sector ! i) else None)"

fun hex_dump :: "u8 list \<Rightarrow> nat \<Rightarrow> nat \<Rightarrow> nat \<Rightarrow> u8 list option" where
  "hex_dump sector skip i 0 = Some []"
| "hex_dump sector skip i (Suc n) =
     do {
       x \<leftarrow> sector_byte sector (skip + i);
       rest \<leftarrow> hex_dump sector skip (Suc i) n;
       Some (hex_byte x @ (if i mod 16 = 15 then [10] else []) @ rest)
     }"

definition shell_sdcard_rd :: "'d bus \<Rightarrow> cstring \<Rightarrow> 'd shell \<Rightarrow> 'd cmd_result" where
  "shell_sdcard_rd b arg st =
     (case parse_three_u32_dec (Some arg) of
        None \<Rightarrow> finish (say_line b ''Usage: sdcard_rd <lba> <skip> <count>'' st)
      | Some (lba, skip, n) \<Rightarrow>
          if 512 \<le> skip \<or> 512 < n \<or> 512 < skip + n
          then finish (say_line b ''Error: range must be within 0..511'' st)
          else
            let (r, g, d) = sdcard_read_block b lba (sh_sd st, sh_dev st);
                st1 = st\<lparr>sh_sd := g, sh_dev := d\<rparr>
            in case r of
                 None \<Rightarrow>
                   finish (say_fmt b ''Error: sdcard read failed (err=0x%x)'' True
                     [VInt (ucast (g_sd_err g))] st1)
               | Some sector \<Rightarrow>
                   finish (do {
                     st2 \<leftarrow> say_fmt b ''SD sector %u:'' True [VInt lba] st1;
                     bs \<leftarrow> hex_dump sector (unat skip) 0 (unat n);
                     st3 \<leftarrow> say b bs st2;
                     if n AND 15 \<noteq> 0 then say b [10] st3 else Some st3
                   }))"

definition shell_lcd :: "'d bus \<Rightarrow> cstring \<Rightarrow> 'd shell \<Rightarrow> 'd cmd_result" where
  "shell_lcd b arg st =
     (if arg \<noteq> [] then finish (say_line b ''Usage: lcd'' st)
      else finish (say_line b ''LCD colorbar written to DDR framebuffer.''
             (st\<lparr>sh_mem := lcd_colorbar (sh_mem st)\<rparr>)))"

section \<open>Boot commands\<close>

text \<open>The C return values, as \<open>%d\<close> prints them.\<close>

fun fatboot_code :: "fatboot_rc \<Rightarrow> u32" where
  "fatboot_code FB_OK = 0"
| "fatboot_code FB_EREAD = - 1"
| "fatboot_code FB_EBPS = - 2"
| "fatboot_code FB_ENOENT = - 3"
| "fatboot_code FB_ETRUNC = - 4"
| "fatboot_code FB_EIMAGE = - 5"
| "fatboot_code FB_ESIZE = - 6"

fun xmodem_code :: "xmodem_result \<Rightarrow> u32" where
  "xmodem_code XMODEM_OK = 0"
| "xmodem_code XMODEM_ERR_TIMEOUT = - 1"
| "xmodem_code XMODEM_ERR_CANCELLED = - 2"
| "xmodem_code XMODEM_ERR_PROTOCOL = - 3"
| "xmodem_code XMODEM_ERR_IMAGE = - 4"
| "xmodem_code XMODEM_ERR_UART = - 5"
| "xmodem_code XMODEM_ERR_BLOCK_NUMBER = - 6"
| "xmodem_code XMODEM_ERR_CRC = - 7"

text \<open>Disabling the interrupts touches only CSRs; then the image's entry is called.\<close>

definition boot_jump_to_ddr :: "'d shell \<Rightarrow> 'd cmd_result" where
  "boot_jump_to_ddr st = Some (Jump, st)"

definition shell_sdload :: "'d bus \<Rightarrow> cstring \<Rightarrow> 'd shell \<Rightarrow> 'd cmd_result" where
  "shell_sdload b arg st =
     (if arg \<noteq> [] then finish (say_line b ''Usage: sdload'' st)
      else do {
        st1 \<leftarrow> say_line b ''Bootloader: SD FAT32 DDR boot'' st;
        let (ok, g, d) = sdcard_init b (sh_sd st1) (sh_dev st1);
        let st2 = st1\<lparr>sh_sd := g, sh_dev := d\<rparr>;
        if \<not> ok then
          finish (say_fmt b ''Bootloader: SD init failed err=0x%x'' True
            [VInt (ucast (g_sd_err g))] st2)
        else do {
          st3 \<leftarrow> say_line b ''Bootloader: SD ready'' st2;
          st4 \<leftarrow> say_fmt b ''Bootloader: SD addressing %s ocr=0x%x'' True
            [VStr (if sdcard_is_high_capacity g then cstr ''SDHC block'' else cstr ''SDSC byte''),
             VInt (g_ocr g)] st3;
          (rc, sz, m, g2, d2) \<leftarrow>
            fatboot_load (sdcard_read_block b) 0x80000000 (sh_mem st4) (sh_sd st4, sh_dev st4);
          let st5 = st4\<lparr>sh_sd := g2, sh_dev := d2, sh_mem := m\<rparr>;
          if rc \<noteq> FB_OK then
            finish (say_fmt b
              ''Bootloader: FAT load failed rc=%d err=0x%x st=0x%x dbg=0x%x crc_rx=0x%x crc_calc=0x%x''
              True
              [VInt (fatboot_code rc), VInt (ucast (g_sd_err g2)), VInt (g_last_status g2),
               VInt (g_last_debug g2), VInt (drop_bit 16 (g_last_crc g2)),
               VInt (g_last_crc g2 AND 0xFFFF)] st5)
          else do {
            st6 \<leftarrow> say_fmt b ''Bootloader: SD image ready (%u bytes)'' True
              [VInt (case sz of None \<Rightarrow> 0 | Some n \<Rightarrow> n)] st5;
            boot_jump_to_ddr st6
          }
        }
      })"

definition shell_uartload :: "'d bus \<Rightarrow> cstring \<Rightarrow> 'd shell \<Rightarrow> 'd cmd_result" where
  "shell_uartload b arg st =
     (if arg \<noteq> [] then finish (say_line b ''Usage: uartload'' st)
      else do {
        st1 \<leftarrow> say_line b ''Bootloader: UART XMODEM DDR boot'' st;
        st2 \<leftarrow> say_line b ''Send BOOT.BIN using xmodem crc now.'' st1;
        (rc, sz, m, d) \<leftarrow>
          xmodem_load_boot_image b BOOT_IMAGE_LOAD_ADDR True (sh_mem st2) (sh_dev st2);
        let st3 = st2\<lparr>sh_mem := m, sh_dev := d\<rparr>;
        if rc \<noteq> XMODEM_OK then
          finish (say_fmt b ''Bootloader: UART load failed rc=%d'' True [VInt (xmodem_code rc)] st3)
        else do {
          st4 \<leftarrow> say_fmt b ''Bootloader: UART image ready (%u bytes)'' True
            [VInt (case sz of None \<Rightarrow> 0 | Some n \<Rightarrow> n)] st3;
          boot_jump_to_ddr st4
        }
      })"

definition shell_ddrboot :: "'d bus \<Rightarrow> cstring \<Rightarrow> 'd shell \<Rightarrow> 'd cmd_result" where
  "shell_ddrboot b arg st =
     (if arg \<noteq> [] then finish (say_line b ''Usage: ddrboot'' st) else boot_jump_to_ddr st)"

section \<open>Dispatch and main loop\<close>

text \<open>
  Splitting a line: \<open>None\<close> when it is empty or blank, else the command word and its argument.
  The line is a C string, so it ends at a NUL that was typed.
\<close>

definition split_command :: "u8 list \<Rightarrow> (cstring \<times> cstring) option" where
  "split_command buf =
     (if buf = [] then None
      else let cmd = skip_spaces (takeWhile (\<lambda>c. c \<noteq> 0) buf)
        in if cmd = [] then None
           else let rest = dropWhile (\<lambda>c. c \<noteq> 32) cmd
             in Some (takeWhile (\<lambda>c. c \<noteq> 32) cmd,
                      if rest = [] then [] else skip_spaces (tl rest)))"

definition shell_dispatch ::
    "'d bus \<Rightarrow> self_test set \<Rightarrow> (self_test \<Rightarrow> cstring \<Rightarrow> 'd shell \<Rightarrow> 'd shell option) \<Rightarrow>
     cstring \<Rightarrow> cstring \<Rightarrow> 'd shell \<Rightarrow> 'd cmd_result" where
  "shell_dispatch b cfg ext cmd arg st =
       (if str_equals cmd (cstr ''help'') then shell_help b cfg st
        else if str_equals cmd (cstr ''led'') then shell_set_leds b arg st
        else if str_equals cmd (cstr ''print'') then shell_print_text b arg st
        else if str_equals cmd (cstr ''i2c_scan'') then shell_i2c_scan b arg st
        else if str_equals cmd (cstr ''raystones'') then shell_run_raystones b ext arg st
        else if str_equals cmd (cstr ''blink'') then shell_blink b arg st
        else if str_equals cmd (cstr ''sdcard_rd'') then shell_sdcard_rd b arg st
        else if str_equals cmd (cstr ''sdload'') then shell_sdload b arg st
        else if str_equals cmd (cstr ''uartload'') then shell_uartload b arg st
        else if str_equals cmd (cstr ''ddrboot'') then shell_ddrboot b arg st
        else if str_equals cmd (cstr ''lcd'') then shell_lcd b arg st
        else if str_equals cmd (cstr ''test-priv'') then run_test ext TEST_PRIV arg st
        else if str_equals cmd (cstr ''test-sv32'') then run_test ext TEST_SV32 arg st
        else if TEST_M \<in> cfg \<and> str_equals cmd (cstr ''test-m'') then run_test ext TEST_M arg st
        else if TEST_CSR \<in> cfg \<and> str_equals cmd (cstr ''test-csr'') then run_test ext TEST_CSR arg st
        else if TEST_IRQ \<in> cfg \<and> str_equals cmd (cstr ''test-irq'') then run_test ext TEST_IRQ arg st
        else if TEST_MTIME \<in> cfg \<and> str_equals cmd (cstr ''test-mtime'') then run_test ext TEST_MTIME arg st
        else if TEST_MSIP \<in> cfg \<and> str_equals cmd (cstr ''test-msip'') then run_test ext TEST_MSIP arg st
        else if TEST_SHIFT \<in> cfg \<and> str_equals cmd (cstr ''test-shift'') then run_test ext TEST_SHIFT arg st
        else if TEST_A \<in> cfg \<and> str_equals cmd (cstr ''test-a'') then run_test ext TEST_A arg st
        else finish (say_line b ''Unknown command. Type 'help'.'' st))"

definition main_init :: "'d bus \<Rightarrow> 'd shell \<Rightarrow> 'd shell option" where
  "main_init b st =
     do {
       let d1 = gpio_init b (uart_init b (sh_dev st));
       d2 \<leftarrow> i2c_init b 27000000 100000 d1;
       (spi, d3) \<leftarrow> spi_init b 27000000 200000 d2;
       let (tps, d4) = timer_init_1mhz b 27000000 d3;
       say_line b ''Simple shell ready. Type 'help' for commands.''
         (st\<lparr>sh_dev := d4, sh_spi := spi, sh_tps := tps\<rparr>)
     }"

text \<open>One prompt.\<close>

definition main_turn ::
    "'d bus \<Rightarrow> self_test set \<Rightarrow> (self_test \<Rightarrow> cstring \<Rightarrow> 'd shell \<Rightarrow> 'd shell option) \<Rightarrow>
     'd shell \<Rightarrow> 'd cmd_result" where
  "main_turn b cfg ext st =
     do {
       st1 \<leftarrow> say_fmt b ''> '' False [] st;
       (line, d) \<leftarrow> read_line b 128 (sh_dev st1);
       let st2 = st1\<lparr>sh_dev := d\<rparr>;
       case split_command line of
         None \<Rightarrow> Some (Return, st2)
       | Some (cmd, arg) \<Rightarrow> shell_dispatch b cfg ext cmd arg st2
     }"

text \<open>The shell leaves its loop only by jumping: the result is the state it jumps in.\<close>

partial_function (option) main_loop ::
    "'d bus \<Rightarrow> self_test set \<Rightarrow> (self_test \<Rightarrow> cstring \<Rightarrow> 'd shell \<Rightarrow> 'd shell option) \<Rightarrow>
     'd shell \<Rightarrow> 'd shell option" where
  "main_loop b cfg ext st =
     (case main_turn b cfg ext st of
        None \<Rightarrow> None
      | Some (Jump, st1) \<Rightarrow> Some st1
      | Some (Return, st1) \<Rightarrow> main_loop b cfg ext st1)"

end
