(* ===== verification/Shell_Props.thy ===== *)
theory Shell_Props
  imports Shell Fatboot_Props Xmodem_Props
begin

text \<open>
  The properties of the ROM shell: what a command can do to memory, that the shell starts an
  image only after one of the loaders has put it in place (or on \<open>ddrboot\<close>), the exact input
  language of the number parser and of the line editor, and the bounds of the sector dump.
\<close>

section \<open>Output leaves the state alone\<close>

lemma say_mem: "say b bs st = Some st' \<Longrightarrow> sh_mem st' = sh_mem st"
  by (auto simp: say_def)

lemma say_line_mem: "say_line b s st = Some st' \<Longrightarrow> sh_mem st' = sh_mem st"
  unfolding say_line_def by (rule say_mem)

lemma say_fmt_mem: "say_fmt b fmt nl args st = Some st' \<Longrightarrow> sh_mem st' = sh_mem st"
  by (auto simp: say_fmt_def Option.bind_eq_Some_conv dest: say_mem)

lemmas outputD = say_mem say_line_mem say_fmt_mem

lemma finish_Some: "finish r = Some (oc, st') \<longleftrightarrow> oc = Return \<and> r = Some st'"
  by (auto simp: finish_def)

lemma say_linesD: "say_lines b ls st = Some st' \<Longrightarrow> sh_mem st' = sh_mem st"
  by (induction b ls st rule: say_lines.induct) (auto simp: Option.bind_eq_Some_conv dest: outputD)

lemma i2c_scan_loopD:
  "i2c_scan_loop a n b found st = Some (r, st') \<Longrightarrow> sh_mem st' = sh_mem st"
proof (induction n arbitrary: a found st)
  case (Suc n)
  then obtain hit d where p: "i2c_probe_7bit b (of_nat a) (sh_dev st) = Some (hit, d)"
    by (auto simp: Option.bind_eq_Some_conv)
  with Suc show ?case
    by (cases hit) (auto simp: Option.bind_eq_Some_conv Let_def dest!: outputD)
qed simp

section \<open>Memory\<close>

text \<open>Where a shell command may write.\<close>

definition boot_window :: "u32 \<Rightarrow> bool" where
  "boot_window a \<longleftrightarrow> 0x80000000 \<le> unat a \<and> unat a < 0x87000000"

definition shell_frame :: "(u32 \<Rightarrow> bool) \<Rightarrow> memory \<Rightarrow> memory \<Rightarrow> bool" where
  "shell_frame R m m' \<longleftrightarrow> (\<forall>a. m' a \<noteq> m a \<longrightarrow> boot_window a \<or> in_framebuffer a \<or> R a)"

lemma shell_frame_refl [simp]: "shell_frame R m m"
  by (simp add: shell_frame_def)

lemma shell_frame_trans: "shell_frame R m m' \<Longrightarrow> shell_frame R m' m'' \<Longrightarrow> shell_frame R m m''"
  unfolding shell_frame_def by metis

lemma xmodem_load_result:
  assumes "xmodem_load_boot_image b dst outs m d = Some (rc, sz, m', d')"
  shows "mem_frame dst m m'"
    and "rc = XMODEM_OK \<Longrightarrow> \<exists>st. image_loaded dst m st sz m'"
proof -
  have "mem_frame dst m m' \<and> (rc = XMODEM_OK \<longrightarrow> (\<exists>st. image_loaded dst m st sz m'))"
  proof (cases outs)
    case False
    with assms show ?thesis by (auto simp: xmodem_load_boot_image_def mem_frame_def)
  next
    case True
    with assms obtain d0 x' where
      "xmodem_loop b dst (xm_init m) d0 = Some ((rc, sz), x', d')" and m': "m' = xm_mem x'"
      by (auto simp: xmodem_load_boot_image_def split: if_splits)
    from xmodem_loop_reaches [OF this(1)] obtain st x1 d1 where
      r: "xmodem_reaches b dst (xm_init m) d0 st x1 d1"
      and t: "xmodem_turn b dst x1 d1 = Some (Some (rc, sz), x', d')" by blast
    from xmodem_turn_inv [OF xmodem_reaches_inv [OF r xm_inv_init] t] m' show ?thesis by blast
  qed
  then show "mem_frame dst m m'" "rc = XMODEM_OK \<Longrightarrow> \<exists>st. image_loaded dst m st sz m'" by blast+
qed

lemma shell_frame_quiet:
  "shell_help b cfg st = Some (oc, st') \<Longrightarrow> sh_mem st' = sh_mem st"
  "shell_set_leds b arg st = Some (oc, st') \<Longrightarrow> sh_mem st' = sh_mem st"
  "shell_print_text b arg st = Some (oc, st') \<Longrightarrow> sh_mem st' = sh_mem st"
  "shell_i2c_scan b arg st = Some (oc, st') \<Longrightarrow> sh_mem st' = sh_mem st"
  "shell_blink b arg st = Some (oc, st') \<Longrightarrow> sh_mem st' = sh_mem st"
  "shell_ddrboot b arg st = Some (oc, st') \<Longrightarrow> sh_mem st' = sh_mem st"
  by (auto simp: shell_help_def shell_set_leds_def shell_print_text_def shell_i2c_scan_def
      shell_blink_def shell_ddrboot_def boot_jump_to_ddr_def finish_Some Option.bind_eq_Some_conv
      Let_def dest!: say_linesD outputD i2c_scan_loopD split: if_splits option.splits prod.splits)

lemma shell_sdcard_rd_mem:
  "shell_sdcard_rd b arg st = Some (oc, st') \<Longrightarrow> sh_mem st' = sh_mem st"
  by (auto simp: shell_sdcard_rd_def finish_Some Option.bind_eq_Some_conv Let_def
      dest!: outputD split: if_splits option.splits prod.splits)

lemma shell_lcd_frame:
  assumes "shell_lcd b arg st = Some (oc, st')"
  shows "shell_frame R (sh_mem st) (sh_mem st')"
proof -
  from assms have "sh_mem st' = sh_mem st \<or> sh_mem st' = lcd_colorbar (sh_mem st)"
    by (auto simp: shell_lcd_def finish_Some dest!: outputD split: if_splits)
  then show ?thesis using lcd_colorbar_outside unfolding shell_frame_def by metis
qed

lemma sayE:
  assumes "say b bs st = Some st'"
  obtains d where "put_bytes b bs (sh_dev st) = Some d" and "st' = st\<lparr>sh_dev := d\<rparr>"
  using assms by (auto simp: say_def)

lemma say_fmtE:
  assumes "say_fmt b fmt nl args st = Some st'"
  obtains bs d where "put_bytes b bs (sh_dev st) = Some d" and "st' = st\<lparr>sh_dev := d\<rparr>"
  using assms by (auto simp: say_fmt_def Option.bind_eq_Some_conv elim: sayE)

text \<open>What happens when \<open>sdload\<close> gets to the loader, and that it jumps only after success.\<close>

lemma shell_sdload_cases:
  assumes "shell_sdload b arg st = Some (oc, st')"
  obtains "oc = Return" and "sh_mem st' = sh_mem st"
  | bs1 d1 g d2 bs2 d3 rc sz g2 d4
  where "put_bytes b bs1 (sh_dev st) = Some d1" and "sdcard_init b (sh_sd st) d1 = (True, g, d2)"
    and "put_bytes b bs2 d2 = Some d3"
    and "fatboot_load (sdcard_read_block b) 0x80000000 (sh_mem st) (g, d3) =
      Some (rc, sz, sh_mem st', g2, d4)"
    and "oc = Jump \<longleftrightarrow> rc = FB_OK"
proof (cases "arg = []")
  case False
  with assms have "oc = Return" "sh_mem st' = sh_mem st"
    by (auto simp: shell_sdload_def finish_Some dest!: outputD)
  then show thesis by (rule that(1))
next
  case True
  with assms obtain st1 where s1: "say_line b ''Bootloader: SD FAT32 DDR boot'' st = Some st1"
    by (auto simp: shell_sdload_def Option.bind_eq_Some_conv)
  then obtain d1 where d1: "put_bytes b (puts (cstr ''Bootloader: SD FAT32 DDR boot'')) (sh_dev st) = Some d1"
    and st1: "st1 = st\<lparr>sh_dev := d1\<rparr>" unfolding say_line_def by (rule sayE)
  obtain ok g d2 where init: "sdcard_init b (sh_sd st) d1 = (ok, g, d2)"
    by (cases "sdcard_init b (sh_sd st) d1")
  define st2 where "st2 = st1\<lparr>sh_sd := g, sh_dev := d2\<rparr>"
  show thesis
  proof (cases ok)
    case False
    with assms True s1 st1 init have "oc = Return" "sh_mem st' = sh_mem st"
      by (auto simp: shell_sdload_def finish_Some dest!: outputD)
    then show thesis by (rule that(1))
  next
    case ok: True
    obtain st3 st4 rc sz m g2 d4 st6 where s3: "say_line b ''Bootloader: SD ready'' st2 = Some st3"
      and s4: "say_fmt b ''Bootloader: SD addressing %s ocr=0x%x'' True
            [VStr (if sdcard_is_high_capacity g then cstr ''SDHC block'' else cstr ''SDSC byte''),
             VInt (g_ocr g)] st3 = Some st4"
      and fl: "fatboot_load (sdcard_read_block b) 0x80000000 (sh_mem st4) (sh_sd st4, sh_dev st4) =
        Some (rc, sz, m, g2, d4)"
      and m: "sh_mem st' = m" and oc: "oc = Jump \<longleftrightarrow> rc = FB_OK"
    proof -
      from assms True s1 st1 init ok obtain st3 st4 rc sz m g2 d4 where
        1: "say_line b ''Bootloader: SD ready'' st2 = Some st3"
        and 2: "say_fmt b ''Bootloader: SD addressing %s ocr=0x%x'' True
            [VStr (if sdcard_is_high_capacity g then cstr ''SDHC block'' else cstr ''SDSC byte''),
             VInt (g_ocr g)] st3 = Some st4"
        and 3: "fatboot_load (sdcard_read_block b) 0x80000000 (sh_mem st4) (sh_sd st4, sh_dev st4) =
          Some (rc, sz, m, g2, d4)"
        by (auto simp: shell_sdload_def Option.bind_eq_Some_conv Let_def st2_def)
      moreover have "sh_mem st' = m \<and> (oc = Jump \<longleftrightarrow> rc = FB_OK)"
        using assms True s1 init ok 1 2 3
        by (cases "rc = FB_OK")
          (auto simp: shell_sdload_def Option.bind_eq_Some_conv Let_def st2_def st1
            boot_jump_to_ddr_def finish_Some dest!: outputD)
      ultimately show thesis using that by blast
    qed
    from s3 obtain bs3 d3 where d3: "put_bytes b bs3 d2 = Some d3" and st3: "st3 = st2\<lparr>sh_dev := d3\<rparr>"
      unfolding say_line_def by (rule sayE) (simp add: st2_def)
    from s4 obtain bs4 d5 where d5: "put_bytes b bs4 d3 = Some d5" and st4: "st4 = st2\<lparr>sh_dev := d5\<rparr>"
      by (rule say_fmtE) (simp add: st3)
    from d3 d5 have "put_bytes b (bs3 @ bs4) d2 = Some d5" by (simp add: put_bytes_append)
    with d1 init ok fl m oc show thesis
      by (intro that(2)) (simp_all add: st4 st2_def st1)
  qed
qed

lemma shell_sdload_frame:
  assumes "shell_sdload b arg st = Some (oc, st')"
  shows "shell_frame R (sh_mem st) (sh_mem st')"
  using assms
proof (cases rule: shell_sdload_cases)
  case 2
  then show ?thesis
    using sd.fatboot_load_frame by (fastforce simp: shell_frame_def boot_window_def)
qed simp

lemma shell_uartload_frame:
  "shell_uartload b arg st = Some (oc, st') \<Longrightarrow> shell_frame R (sh_mem st) (sh_mem st')"
  by (auto simp: shell_uartload_def finish_Some Option.bind_eq_Some_conv Let_def boot_jump_to_ddr_def
      shell_frame_def boot_window_def mem_frame_def
      dest!: outputD xmodem_load_result(1) split: if_splits option.splits prod.splits)

lemma shell_uartload_jump:
  assumes "shell_uartload b arg st = Some (Jump, st')"
  shows "\<exists>stream sz. image_loaded 0x80000000 (sh_mem st) stream sz (sh_mem st')"
proof -
  from assms obtain d0 sz d where
    "xmodem_load_boot_image b 0x80000000 True (sh_mem st) d0 = Some (XMODEM_OK, sz, sh_mem st', d)"
    by (auto simp: shell_uartload_def finish_Some Option.bind_eq_Some_conv Let_def
        boot_jump_to_ddr_def dest!: outputD split: if_splits)
  from xmodem_load_result(2) [OF this refl] show ?thesis by blast
qed

section \<open>Dispatch\<close>

text \<open>
  What the self-tests and the benchmark may do: they keep out of memory but for a region of
  their own.
\<close>

definition tests_confined ::
    "(u32 \<Rightarrow> bool) \<Rightarrow> (self_test \<Rightarrow> cstring \<Rightarrow> 'd shell \<Rightarrow> 'd shell option) \<Rightarrow> bool" where
  "tests_confined R ext \<longleftrightarrow>
     (\<forall>t arg st st'. ext t arg st = Some st' \<longrightarrow> shell_frame R (sh_mem st) (sh_mem st'))"

lemma run_test_frame:
  assumes "tests_confined R ext" and "run_test ext t arg st = Some (oc, st')"
  shows "oc = Return \<and> shell_frame R (sh_mem st) (sh_mem st')"
  using assms by (auto simp: run_test_def finish_Some tests_confined_def)

lemma shell_run_raystones_frame:
  assumes "tests_confined R ext" and "shell_run_raystones b ext arg st = Some (oc, st')"
  shows "oc = Return \<and> shell_frame R (sh_mem st) (sh_mem st')"
proof (cases "arg = []")
  case True
  with assms(2) have "run_test ext RAYSTONES arg st = Some (oc, st')"
    by (simp add: shell_run_raystones_def)
  with assms(1) show ?thesis by (rule run_test_frame)
next
  case False
  with assms(2) show ?thesis by (auto simp: shell_run_raystones_def finish_Some dest!: outputD)
qed

text \<open>A result of the dispatch is the result of one of the commands.\<close>

inductive command_result ::
    "'d bus \<Rightarrow> (self_test \<Rightarrow> cstring \<Rightarrow> 'd shell \<Rightarrow> 'd shell option) \<Rightarrow> 'd shell \<Rightarrow>
     'd cmd_result \<Rightarrow> bool" for b ext st where
  cr_quiet: "(\<And>oc st'. r = Some (oc, st') \<Longrightarrow> oc = Return \<and> sh_mem st' = sh_mem st) \<Longrightarrow>
    command_result b ext st r"
| cr_raystones: "command_result b ext st (shell_run_raystones b ext arg st)"
| cr_test: "command_result b ext st (run_test ext t arg st)"
| cr_lcd: "command_result b ext st (shell_lcd b arg st)"
| cr_sdload: "command_result b ext st (shell_sdload b arg st)"
| cr_uartload: "command_result b ext st (shell_uartload b arg st)"
| cr_ddrboot: "command_result b ext st (shell_ddrboot b arg st)"

lemma finish_quiet:
  "(\<And>st'. r = Some st' \<Longrightarrow> sh_mem st' = sh_mem st) \<Longrightarrow> command_result b ext st (finish r)"
  by (rule cr_quiet) (auto simp: finish_Some)

lemma commands_finish:
  "\<exists>r. shell_help b cfg st = finish r" "\<exists>r. shell_set_leds b arg st = finish r"
  "\<exists>r. shell_print_text b arg st = finish r" "\<exists>r. shell_i2c_scan b arg st = finish r"
  "\<exists>r. shell_blink b arg st = finish r" "\<exists>r. shell_sdcard_rd b arg st = finish r"
  by (auto simp: shell_help_def shell_set_leds_def shell_print_text_def shell_i2c_scan_def
      shell_blink_def shell_sdcard_rd_def Let_def split: option.splits prod.splits)

lemma shell_dispatch_result:
  "command_result b ext st (shell_dispatch b cfg ext cmd arg st)"
proof -
  have quiet: "command_result b ext st r"
    if "\<exists>r'. r = finish r'" "\<And>oc st'. r = Some (oc, st') \<Longrightarrow> sh_mem st' = sh_mem st" for r
  proof (rule cr_quiet)
    fix oc st' assume "r = Some (oc, st')"
    with that show "oc = Return \<and> sh_mem st' = sh_mem st" by (metis finish_Some)
  qed
  note q = quiet [OF commands_finish(1) shell_frame_quiet(1)]
    quiet [OF commands_finish(2) shell_frame_quiet(2)]
    quiet [OF commands_finish(3) shell_frame_quiet(3)]
    quiet [OF commands_finish(4) shell_frame_quiet(4)]
    quiet [OF commands_finish(5) shell_frame_quiet(5)]
    quiet [OF commands_finish(6) shell_sdcard_rd_mem]
  have "command_result b ext st (finish (say_line b s st))" for s
    by (rule finish_quiet) (rule say_line_mem)
  with q show ?thesis
    unfolding shell_dispatch_def
    by (simp add: cr_raystones cr_test cr_lcd cr_sdload cr_uartload cr_ddrboot)
qed

lemma command_result_frame:
  assumes "command_result b ext st r" and "tests_confined R ext" and "r = Some (oc, st')"
  shows "shell_frame R (sh_mem st) (sh_mem st')"
  using assms(1,3)
proof cases
  case (cr_raystones arg)
  with assms(3) shell_run_raystones_frame [OF assms(2), of b arg st oc st'] show ?thesis by simp
next
  case (cr_test t arg)
  with assms(3) run_test_frame [OF assms(2), of t arg st oc st'] show ?thesis by simp
next
  case (cr_lcd arg)
  with assms(3) shell_lcd_frame [of b arg st oc st'] show ?thesis by simp
next
  case (cr_sdload arg)
  with assms(3) shell_sdload_frame [of b arg st oc st'] show ?thesis by simp
next
  case (cr_uartload arg)
  with assms(3) shell_uartload_frame [of b arg st oc st'] show ?thesis by simp
next
  case (cr_ddrboot arg)
  with assms(3) shell_frame_quiet(6) [of b arg st oc st'] show ?thesis by simp
qed (use assms(3) in auto)

text \<open>Only these three commands start an image.\<close>

lemma command_result_jump:
  assumes "command_result b ext st (Some (Jump, st'))"
  shows "(\<exists>arg. shell_sdload b arg st = Some (Jump, st')) \<or>
    (\<exists>arg. shell_uartload b arg st = Some (Jump, st')) \<or> st' = st"
  using assms
proof cases
  case (cr_raystones arg)
  then have "Some (Jump, st') = finish (if arg \<noteq> [] then say_line b ''Usage: raystones'' st
      else ext RAYSTONES arg st)"
    by (auto simp: shell_run_raystones_def run_test_def)
  then show ?thesis by (metis finish_Some outcome.distinct(1))
next
  case (cr_test t arg)
  then show ?thesis by (metis run_test_def finish_Some outcome.distinct(1))
next
  case (cr_lcd arg)
  then have "Some (Jump, st') = finish (if arg \<noteq> [] then say_line b ''Usage: lcd'' st
      else say_line b ''LCD colorbar written to DDR framebuffer.'' (st\<lparr>sh_mem := lcd_colorbar (sh_mem st)\<rparr>))"
    by (auto simp: shell_lcd_def)
  then show ?thesis by (metis finish_Some outcome.distinct(1))
next
  case (cr_ddrboot arg)
  then have "st' = st \<or> Some (Jump, st') = finish (say_line b ''Usage: ddrboot'' st)"
    by (auto simp: shell_ddrboot_def boot_jump_to_ddr_def split: if_splits)
  then show ?thesis by (metis finish_Some outcome.distinct(1))
qed (metis outcome.distinct(1))+

text \<open>The states at the prompt.\<close>

inductive shell_reaches ::
    "'d bus \<Rightarrow> self_test set \<Rightarrow> (self_test \<Rightarrow> cstring \<Rightarrow> 'd shell \<Rightarrow> 'd shell option) \<Rightarrow>
     'd shell \<Rightarrow> 'd shell \<Rightarrow> bool" for b cfg ext st0 where
  prompt: "shell_reaches b cfg ext st0 st0"
| turn: "shell_reaches b cfg ext st0 st \<Longrightarrow> main_turn b cfg ext st = Some (Return, st') \<Longrightarrow>
    shell_reaches b cfg ext st0 st'"

lemma main_turn_cases:
  assumes "main_turn b cfg ext st = Some (oc, st')"
  obtains (blank) "oc = Return" "sh_mem st' = sh_mem st"
  | (command) st2 where "sh_mem st2 = sh_mem st" and "command_result b ext st2 (Some (oc, st'))"
proof -
  from assms obtain st1 line d where s1: "say_fmt b ''> '' False [] st = Some st1"
    and rl: "read_line b 128 (sh_dev st1) = Some (line, d)"
    and r: "(case split_command line of None \<Rightarrow> Some (Return, st1\<lparr>sh_dev := d\<rparr>)
       | Some (cmd, arg) \<Rightarrow> shell_dispatch b cfg ext cmd arg (st1\<lparr>sh_dev := d\<rparr>)) = Some (oc, st')"
    by (auto simp: main_turn_def Option.bind_eq_Some_conv Let_def)
  have m: "sh_mem (st1\<lparr>sh_dev := d\<rparr>) = sh_mem st" using say_fmt_mem [OF s1] by simp
  show thesis
  proof (cases "split_command line")
    case None
    with r m blank show thesis by auto
  next
    case (Some ca)
    with r have "command_result b ext (st1\<lparr>sh_dev := d\<rparr>) (Some (oc, st'))"
      using shell_dispatch_result by (metis (mono_tags, lifting) case_prod_unfold option.simps(5))
    with m show thesis by (rule command)
  qed
qed

lemma main_turn_frame:
  assumes "tests_confined R ext" and "main_turn b cfg ext st = Some (oc, st')"
  shows "shell_frame R (sh_mem st) (sh_mem st')"
  using assms(2)
proof (cases rule: main_turn_cases)
  case (command st2)
  with command_result_frame [OF command(2) assms(1) refl] show ?thesis by simp
qed simp

lemma shell_reaches_frame:
  assumes "shell_reaches b cfg ext st0 st" and "tests_confined R ext"
  shows "shell_frame R (sh_mem st0) (sh_mem st)"
  using assms(1)
proof induction
  case (turn st st')
  from shell_frame_trans [OF turn.IH main_turn_frame [OF assms(2) turn.hyps(2)]] show ?case .
qed simp

lemma main_loop_reaches:
  assumes "main_loop b cfg ext st = Some st'"
  shows "\<exists>st1. shell_reaches b cfg ext st st1 \<and> main_turn b cfg ext st1 = Some (Jump, st')"
proof (rule main_loop.raw_induct [where P = "\<lambda>b cfg ext st y. \<exists>st1. shell_reaches b cfg ext st st1 \<and>
      main_turn b cfg ext st1 = Some (Jump, y)", OF _ assms], goal_cases)
  case (1 loop b cfg ext st y)
  from 1(2) obtain oc st2 where t: "main_turn b cfg ext st = Some (oc, st2)"
    by (auto split: option.splits)
  show ?case
  proof (cases oc)
    case Jump
    with 1(2) t show ?thesis by (auto intro: prompt)
  next
    case Return
    with 1(2) t have "loop b cfg ext st2 = Some y" by simp
    from 1(1) [OF this] obtain st1 where r: "shell_reaches b cfg ext st2 st1"
      and j: "main_turn b cfg ext st1 = Some (Jump, y)" by blast
    from r have "shell_reaches b cfg ext st st1"
    proof induction
      case prompt
      from shell_reaches.turn [OF shell_reaches.prompt] t Return show ?case by simp
    next
      case (turn s s')
      from shell_reaches.turn [OF turn.IH turn.hyps(2)] show ?case .
    qed
    with j show ?thesis by blast
  qed
qed

section \<open>The shell on the controller and on the line\<close>

lemma sdhost_puts [simp]: "put_bytes sdhost_bus cs h = Some h"
proof -
  have "uart_putc_blocking sdhost_bus c h = Some h" for c
  proof -
    have "poll_until (\<lambda>d. let (r, d') = uart_tx_ready sdhost_bus d
        in (if r then Some () else None, d')) h = Some ((), h)"
      by (rule poll_until_Some)
        (simp add: uart_tx_ready_def uart_get_status_def read_twice_def sdhost_reg_def sd_addrs uart_ctrl_reg_def)
    then show ?thesis
      by (simp add: uart_putc_blocking_def sdhost_write_def sd_addrs uart_data_reg_def)
  qed
  then show ?thesis by (induction cs) simp_all
qed

lemma sdhost_say [simp]: "say sdhost_bus bs st = Some st" "say_line sdhost_bus s st = Some st"
  by (simp_all add: say_def say_line_def)

lemma line_say [simp]: "say line_bus bs st = Some st" "say_line line_bus s st = Some st"
  by (simp_all add: say_def say_line_def)

lemma say_fmt_total:
  assumes "printf (cstr fmt @ (if nl then [10] else [])) args \<noteq> None"
  shows "say_fmt sdhost_bus fmt nl args st = Some st" "say_fmt line_bus fmt nl args st' = Some st'"
  using assms by (auto simp: say_fmt_def)

lemma fmt_total:
  "printf (cstr ''Bootloader: SD addressing %s ocr=0x%x'' @ [10]) [VStr s, VInt v] \<noteq> None"
  "printf (cstr ''Bootloader: SD image ready (%u bytes)'' @ [10]) [VInt v] \<noteq> None"
  "printf (cstr ''Bootloader: UART image ready (%u bytes)'' @ [10]) [VInt v] \<noteq> None"
  "printf (cstr ''> '') [] \<noteq> None"
  "printf (cstr ''SD sector %u:'' @ [10]) [VInt v] \<noteq> None"
  "printf (cstr ''Error: sdcard read failed (err=0x%x)'' @ [10]) [VInt v] \<noteq> None"
  by (simp_all add: cstr_def)

text \<open>A typed command: plain characters, then Enter.\<close>

definition plain :: "u8 list \<Rightarrow> bool" where
  "plain cs \<longleftrightarrow> set cs \<inter> {0, 8, 10, 13, 0x7F} = {}"

lemma edit_line_plain:
  assumes "plain cs" and "length buf + length cs < maxlen - 1"
  shows "edit_line maxlen buf (cs @ 13 # rest) = Some (buf @ cs, rest)"
  using assms
proof (induction cs arbitrary: buf)
  case Nil
  then show ?case by (simp add: edit_line.simps line_key_def)
next
  case (Cons c cs)
  then have "plain cs" "line_key buf c = Edit (buf @ [c]) [c]"
    by (auto simp: plain_def line_key_def Let_def)
  with Cons show ?case by (simp add: edit_line.simps [of _ buf])
qed

lemma main_turn_line:
  assumes "plain cs" and "length cs < 127" and "sh_dev st = cs @ 13 # rest"
  shows "main_turn line_bus cfg ext st =
    (case split_command cs of None \<Rightarrow> Some (Return, st\<lparr>sh_dev := rest\<rparr>)
     | Some (cmd, arg) \<Rightarrow> shell_dispatch line_bus cfg ext cmd arg (st\<lparr>sh_dev := rest\<rparr>))"
proof -
  have "read_line line_bus 128 (sh_dev st) = Some (cs, rest)"
    using edit_line_plain [OF assms(1), of "[]" 128 rest] assms(2,3)
    by (simp add: read_line_def read_line_loop_edit)
  moreover have "say_fmt line_bus ''> '' False [] st = Some st"
    by (rule say_fmt_total) (simp add: fmt_total)
  ultimately show ?thesis by (simp add: main_turn_def Let_def split: option.splits)
qed

lemma dispatch_uartload:
  "plain (cstr ''uartload'')" "split_command (cstr ''uartload'') = Some (cstr ''uartload'', [])"
  "shell_dispatch b cfg ext (cstr ''uartload'') [] st = shell_uartload b [] st"
  by (simp_all add: plain_def cstr_def split_command_def skip_spaces_def shell_dispatch_def str_equals_iff)

lemma dispatch_lcd:
  "plain (cstr ''lcd'')" "split_command (cstr ''lcd'') = Some (cstr ''lcd'', [])"
  "shell_dispatch b cfg ext (cstr ''lcd'') [] st = shell_lcd b [] st"
  by (simp_all add: plain_def cstr_def split_command_def skip_spaces_def shell_dispatch_def str_equals_iff)

lemma shell_uartload_line:
  assumes "length payload = unat t + unat d" and "length payload \<le> 0x7000000"
  shows "shell_uartload line_bus []
      (st\<lparr>sh_dev := sender_bytes 1 (boot_image_header t d @ payload)\<rparr>) =
    Some (Jump, st\<lparr>sh_dev := [], sh_mem := store_bytes 0x80000000 payload (sh_mem st)\<rparr>)"
proof -
  have "xmodem_load_boot_image line_bus 0x80000000 True (sh_mem st)
      (sender_bytes 1 (boot_image_header t d @ payload)) =
    Some (XMODEM_OK, Some (t + d), store_bytes 0x80000000 payload (sh_mem st), [])"
    using xmodem_correct_sender [OF image_good_stream [OF assms(1), of "0x80000000"]] assms(2) by simp
  then show ?thesis
    by (simp add: shell_uartload_def boot_jump_to_ddr_def say_fmt_total fmt_total)
qed

definition demo_shell :: "'d \<Rightarrow> 'd shell" where
  "demo_shell d = \<lparr>sh_dev = d, sh_mem = (\<lambda>_. 0), sh_sd = sd_state0, sh_tps = 0, sh_spi = 0\<rparr>"

lemma hex_dump_range:
  assumes "\<not> (512 \<le> (skip :: u32) \<or> 512 < n \<or> 512 < skip + n)"
  shows "hex_dump sector (unat skip) 0 (unat n) =
    Some (concat (map (\<lambda>i. hex_byte (sector ! (unat skip + i)) @ (if i mod 16 = 15 then [10] else []))
      [0..<unat n]))"
proof -
  have "unat (skip + n) = unat skip + unat n"
    using assms by (intro unat_plus_no_wrap) (simp add: word_nat)
  with assms have b: "unat skip + unat n \<le> 512" by (simp add: word_nat)
  have "hex_dump sector (unat skip) i k =
      Some (concat (map (\<lambda>i. hex_byte (sector ! (unat skip + i)) @ (if i mod 16 = 15 then [10] else []))
        [i..<i + k]))" if "unat skip + i + k \<le> 512" for i k
    using that
  proof (induction k arbitrary: i)
    case (Suc k)
    have "[i..<i + Suc k] = i # [Suc i..<Suc i + k]" by (simp add: upt_conv_Cons)
    with Suc show ?case by (simp add: sector_byte_def del: upt_Suc)
  qed simp
  from this [of 0 "unat n"] b show ?thesis by simp
qed

text \<open>Where the console takes every byte, \<open>sdcard_rd\<close> returns: the dump stays in the sector.\<close>

lemma put_bytes_returns: "\<forall>c d. uart_putc_blocking b c d \<noteq> None \<Longrightarrow> put_bytes b bs d \<noteq> None"
proof (induction bs arbitrary: d)
  case (Cons c bs)
  then obtain d1 where "uart_putc_blocking b c d = Some d1" by blast
  with Cons show ?case by simp
qed simp

lemma say_returns:
  assumes "\<forall>c d. uart_putc_blocking b c d \<noteq> None"
  shows "say b bs st \<noteq> None" and "say_line b l st \<noteq> None"
    and "printf (cstr fmt @ (if nl then [10] else [])) args \<noteq> None \<Longrightarrow> say_fmt b fmt nl args st \<noteq> None"
  using put_bytes_returns [OF assms] by (auto simp: say_def say_line_def say_fmt_def)

lemma shell_sdcard_rd_returns:
  assumes con: "\<forall>c d. uart_putc_blocking b c d \<noteq> None"
  shows "shell_sdcard_rd b arg st \<noteq> None"
proof (cases "parse_three_u32_dec (Some arg)")
  case None
  then show ?thesis
    using say_returns(2) [OF con] by (simp add: shell_sdcard_rd_def finish_def del: not_None_eq)
next
  case (Some p)
  obtain lba skip n where p: "p = (lba, skip, n)" by (cases p)
  obtain r g d where r: "sdcard_read_block b lba (sh_sd st, sh_dev st) = (r, g, d)"
    by (cases "sdcard_read_block b lba (sh_sd st, sh_dev st)")
  show ?thesis
  proof (cases "512 \<le> skip \<or> 512 < n \<or> 512 < skip + n")
    case True
    then show ?thesis
      using say_returns(2) [OF con] by (simp add: shell_sdcard_rd_def finish_def Some p del: not_None_eq)
  next
    case False
    define st1 where "st1 = st\<lparr>sh_sd := g, sh_dev := d\<rparr>"
    have err: "say_fmt b ''Error: sdcard read failed (err=0x%x)'' True [VInt v] st1 \<noteq> None" for v
      by (rule say_returns(3) [OF con]) (simp add: fmt_total del: not_None_eq)
    have "say_fmt b ''SD sector %u:'' True [VInt lba] st1 \<noteq> None"
      by (rule say_returns(3) [OF con]) (simp add: fmt_total del: not_None_eq)
    then obtain st2 where st2: "say_fmt b ''SD sector %u:'' True [VInt lba] st1 = Some st2" by auto
    have bytes: "\<exists>st'. say b bs s = Some st'" for bs s using say_returns(1) [OF con, of bs s] by simp
    show ?thesis
    proof (cases r)
      case None
      with False r err show ?thesis
        by (simp add: shell_sdcard_rd_def finish_def Some p st1_def [symmetric] del: not_None_eq)
    next
      case (Some sector)
      obtain bs where dump: "hex_dump sector (unat skip) 0 (unat n) = Some bs"
        using hex_dump_range [OF False] by blast
      obtain st3 where "say b bs st2 = Some st3" using bytes by blast
      with False r Some dump st2 bytes [of "[10]" st3] \<open>parse_three_u32_dec (Some arg) = Some p\<close> show ?thesis
        by (simp add: shell_sdcard_rd_def finish_def p st1_def [symmetric])
    qed
  qed
qed

section \<open>Properties\<close>

text \<open>
  Whatever is typed and whatever the devices do, the shell changes memory only inside the DDR
  image window, inside the framebuffer, or where the self-tests are allowed to: at every
  prompt it reaches, and in the command it runs next, finished or jumping.
\<close>

theorem shell_memory_safe:
  assumes "shell_reaches b cfg ext st0 st" and "main_turn b cfg ext st = Some (oc, st')"
    and "tests_confined R ext" and "sh_mem st' a \<noteq> sh_mem st0 a"
  shows "0x80000000 \<le> unat a \<and> unat a < 0x87000000 \<or> in_framebuffer a \<or> R a"
proof -
  have "shell_frame R (sh_mem st0) (sh_mem st')"
    using shell_reaches_frame [OF assms(1,3)] main_turn_frame [OF assms(3,2)]
    by (rule shell_frame_trans)
  with assms(4) show ?thesis by (auto simp: shell_frame_def boot_window_def)
qed

text \<open>The command \<open>lcd\<close> paints the framebuffer, whatever the self tests are.\<close>

lemma lcd_turn:
  "\<exists>st' :: u8 list shell. main_turn line_bus {} ext (demo_shell (cstr ''lcd'' @ [13])) = Some (Return, st') \<and>
     sh_mem st' 0x87000001 \<noteq> 0"
proof -
  define st :: "u8 list shell" where "st = demo_shell (cstr ''lcd'' @ [13])"
  define st' where "st' = st\<lparr>sh_dev := [], sh_mem := lcd_colorbar (\<lambda>_. 0)\<rparr>"
  have "main_turn line_bus {} ext st = Some (Return, st')"
    using main_turn_line [OF dispatch_lcd(1), of st "[]" "{}" ext]
    by (simp add: st_def demo_shell_def dispatch_lcd shell_lcd_def finish_def st'_def) (simp add: cstr_def)
  moreover have "sh_mem st' 0x87000001 \<noteq> 0"
  proof -
    have "fb_load 0 (lcd_colorbar (\<lambda>_. 0)) = 0x8000"
      by (simp add: lcd_colorbar_load bar_of_def lcd_bars_def)
    moreover have "fb_load 0 m = ucast (m 0x87000000)" if "m 0x87000001 = 0" for m
      using that by (simp add: fb_load_def)
    moreover have "ucast c \<noteq> (0x8000 :: u16)" for c :: u8
    proof -
      have "unat (ucast c :: u16) = unat c"
        using unat_u8_less [of c] by (simp add: unsigned_ucast_eq take_bit_nat_eq_self)
      then have "unat (ucast c :: u16) \<noteq> unat (0x8000 :: u16)" using unat_u8_less [of c] by simp
      then show ?thesis by metis
    qed
    ultimately show ?thesis by (auto simp: st'_def st_def demo_shell_def)
  qed
  ultimately show ?thesis unfolding st_def by blast
qed

text \<open>
  C33: The shell starts an image only in three ways. When it jumps, on any bus, then at the last
  prompt either a complete XMODEM image had just been stored, or the FAT loader had returned
  success and memory is what it left, or memory is untouched (\<open>ddrboot\<close> runs what is there).
\<close>

theorem shell_jump_sources:
  assumes "main_loop b cfg ext st0 = Some st'"
  shows "\<exists>st. shell_reaches b cfg ext st0 st \<and>
    ((\<exists>stream sz. image_loaded 0x80000000 (sh_mem st) stream sz (sh_mem st')) \<or>
     (\<exists>s sz s'. fatboot_load (sdcard_read_block b) 0x80000000 (sh_mem st) s =
        Some (FB_OK, sz, sh_mem st', s')) \<or>
     sh_mem st' = sh_mem st)"
proof -
  from main_loop_reaches [OF assms] obtain st where r: "shell_reaches b cfg ext st0 st"
    and t: "main_turn b cfg ext st = Some (Jump, st')" by blast
  from t show ?thesis
  proof (cases rule: main_turn_cases)
    case (command st2)
    from command_result_jump [OF command(2)] show ?thesis
    proof (elim disjE exE)
      fix arg assume "shell_sdload b arg st2 = Some (Jump, st')"
      then have "\<exists>s sz s'. fatboot_load (sdcard_read_block b) 0x80000000 (sh_mem st2) s =
          Some (FB_OK, sz, sh_mem st', s')"
      proof (cases rule: shell_sdload_cases)
        case (2 bs1 d1 g d2 bs2 d3 rc sz g2 d4)
        then show ?thesis by (intro exI [of _ "(g, d3)"] exI [of _ sz] exI [of _ "(g2, d4)"]) simp
      qed simp
      then have "\<exists>s sz s'. fatboot_load (sdcard_read_block b) 0x80000000 (sh_mem st) s =
          Some (FB_OK, sz, sh_mem st', s')"
        by (simp only: command(1))
      with r show ?thesis by blast
    next
      fix arg assume "shell_uartload b arg st2 = Some (Jump, st')"
      from shell_uartload_jump [OF this] r command(1) show ?thesis by auto
    qed (use r command(1) in auto)
  qed simp
qed

theorem shell_jump_sources_witness:
  "\<exists>st'. main_loop line_bus {} (\<lambda>_ _ _. None)
     (demo_shell (cstr ''uartload'' @ 13 # sender_bytes 1 (boot_image_header 2 2 @ [1, 2, 3, 4]))) = Some st' \<and>
   (\<exists>st :: u8 list shell. shell_reaches line_bus {} (\<lambda>_ _ _. None)
     (demo_shell (cstr ''uartload'' @ 13 # sender_bytes 1 (boot_image_header 2 2 @ [1, 2, 3, 4]))) st)"
proof -
  let ?l = "sender_bytes 1 (boot_image_header 2 2 @ [1, 2, 3, 4])"
  let ?st = "demo_shell (cstr ''uartload'' @ 13 # ?l)"
  let ?ext = "\<lambda>_ _ _. None"
  have "main_turn line_bus {} ?ext ?st = shell_uartload line_bus [] (?st\<lparr>sh_dev := ?l\<rparr>)"
    using main_turn_line [OF dispatch_uartload(1), of ?st ?l "{}" ?ext]
    by (simp add: dispatch_uartload demo_shell_def) (simp add: cstr_def)
  then have "main_turn line_bus {} ?ext ?st =
      Some (Jump, ?st\<lparr>sh_dev := [], sh_mem := store_bytes 0x80000000 [1, 2, 3, 4] (sh_mem ?st)\<rparr>)"
    using shell_uartload_line [of "[1, 2, 3, 4]" 2 2 ?st] by simp
  then obtain st' where l: "main_loop line_bus {} ?ext ?st = Some st'" by (simp add: main_loop.simps)
  from l shell_jump_sources [OF l] show ?thesis by blast
qed

text \<open>
  C34: Typing \<open>uartload\<close> and sending an image boots it. From the prompt, the line, Enter and the
  bytes of a correct XMODEM sender, for every image that fits the DDR bank, make the shell
  jump, with exactly the payload stored at \<open>0x80000000\<close> and nothing of the line left.
\<close>

theorem shell_uartload_boots:
  assumes "length payload = unat t + unat d" and "length payload \<le> 0x7000000"
    and "sh_dev st = cstr ''uartload'' @ 13 # sender_bytes 1 (boot_image_header t d @ payload)"
  shows "main_loop line_bus cfg ext st =
    Some (st\<lparr>sh_dev := [], sh_mem := store_bytes 0x80000000 payload (sh_mem st)\<rparr>)"
proof -
  let ?l = "sender_bytes 1 (boot_image_header t d @ payload)"
  have "main_turn line_bus cfg ext st = shell_uartload line_bus [] (st\<lparr>sh_dev := ?l\<rparr>)"
    using main_turn_line [OF dispatch_uartload(1) _ assms(3), of cfg ext]
    by (simp add: dispatch_uartload) (simp add: cstr_def)
  with shell_uartload_line [OF assms(1,2), of st] show ?thesis by (simp add: main_loop.simps)
qed

theorem shell_uartload_boots_witness:
  "map_option sh_mem (main_loop line_bus {} (\<lambda>_ _ _. None)
     (demo_shell (cstr ''uartload'' @ 13 # sender_bytes 1 (boot_image_header 2 2 @ [1, 2, 3, 4])))) =
   Some (store_bytes 0x80000000 [1, 2, 3, 4] (\<lambda>_. 0))"
  using shell_uartload_boots [of "[1, 2, 3, 4]" 2 2
      "demo_shell (cstr ''uartload'' @ 13 # sender_bytes 1 (boot_image_header 2 2 @ [1, 2, 3, 4]))"
      "{}" "\<lambda>_ _ _. None"]
  by (simp add: demo_shell_def)

text \<open>
  C35: \<open>sdload\<close> jumps only into the file. On the SoC's SD controller, when the command jumps, the
  card's partition has 512-byte sectors, the file is the first BOOT.BIN of its root directory
  (or, when that is an empty file with first cluster 0, a BOOT.BIN entry in some sector of
  the card to which the search runs on), its clusters carry at least its size in bytes with
  the magic in front, and memory is the old memory with exactly that file's payload at
  \<open>0x80000000\<close>.
\<close>

theorem shell_sdload_boots_file:
  assumes "shell_sdload sdhost_bus arg st = Some (Jump, st')" and "host_ok img (sh_dev st)"
    and "disk = image_sector img"
  shows "rd16 (disk (fat_part_lba (disk 0))) 11 = 512 \<and>
    (\<exists>fc fs n bytes. fc \<noteq> 0 \<and>
      (boot_file disk (fc, fs) \<or> (\<exists>fs0. boot_file disk (0, fs0)) \<and> listed disk (fc, fs)) \<and>
      bytes = chain_bytes n (card_geom disk) disk fc \<and> unat fs \<le> length bytes \<and>
      rd32 bytes 0 = BOOT_IMAGE_MAGIC \<and>
      sh_mem st' = store_bytes 0x80000000 (drop 12 (take (unat fs) bytes)) (sh_mem st))"
  using assms(1)
proof (cases rule: shell_sdload_cases)
  case (2 bs1 d1 g d2 bs2 d3 rc sz g2 d4)
  then have "host_ready img (g, d3)" using sdcard_init_host [OF assms(2), of "sh_sd st"] by auto
  moreover have "fatboot_load (sdcard_read_block sdhost_bus) 0x80000000 (sh_mem st) (g, d3) =
      Some (FB_OK, sz, sh_mem st', (g2, d4))" using 2 by simp
  ultimately show ?thesis unfolding assms(3) using sdhost_card.fatboot_load_ok by blast
qed simp

text \<open>
  \<open>sdload\<close> boots a good card. With the controller in any state in which it is idle, on a card
  with 512-byte sectors whose root directory search finds BOOT.BIN with a long enough chain
  and an acceptable header, the command initialises the card, loads the file and jumps, with
  the payload at \<open>0x80000000\<close>.
\<close>

theorem shell_sdload_complete:
  assumes "host_ok img (sh_dev st)"
    and "part = fat_part_lba (image_sector img 0)" and "rd16 (image_sector img part) 11 = 512"
    and "geo = fat_geom_of part (image_sector img part)" and "sec_per_clus geo \<noteq> 0"
    and "dir_lookup n geo (image_sector img) (root_cluster geo) = Some (Some (fc, fs))"
    and "fc \<noteq> 0" and "12 \<le> unat fs"
    and "unat fs \<le> length (chain_bytes k geo (image_sector img) fc)"
    and "check_header 0x80000000 fs (image_sector img (cluster_lba geo fc)) = Inr tp"
  shows "\<exists>st'. shell_sdload sdhost_bus [] st = Some (Jump, st') \<and>
    sh_mem st' = store_bytes 0x80000000
      (drop 12 (take (unat fs) (chain_bytes k geo (image_sector img) fc))) (sh_mem st)"
proof -
  obtain g h where i: "sdcard_init sdhost_bus (sh_sd st) (sh_dev st) = (True, g, h)"
    and r: "host_ready img (g, h)"
    using sdcard_init_host [OF assms(1)] by blast
  from sdhost_ideal.fatboot_load_ideal [OF r assms(2-10), of "sh_mem st"] obtain g2 h2 where
    "fatboot_load (sdcard_read_block sdhost_bus) 0x80000000 (sh_mem st) (g, h) =
      Some (FB_OK, Some (fs - 12), store_bytes 0x80000000
        (drop 12 (take (unat fs) (chain_bytes k geo (image_sector img) fc))) (sh_mem st), g2, h2)"
    by auto
  with i show ?thesis
    by (simp add: shell_sdload_def Let_def say_fmt_total fmt_total boot_jump_to_ddr_def)
qed

lemma demo_sdload:
  "\<exists>st'. shell_sdload sdhost_bus [] (demo_shell (sdhost_reset 0 demo_image)) = Some (Jump, st') \<and>
    sh_mem st' = store_bytes 0x80000000 [0x22, 0x11, 0x44, 0x33] (\<lambda>_. 0)"
proof -
  let ?st = "demo_shell (sdhost_reset 0 demo_image)"
  obtain g h where i: "sdcard_init sdhost_bus (sh_sd ?st) (sh_dev ?st) = (True, g, h)"
    and r: "host_ready demo_image (g, h)"
    using sdcard_init_host [OF host_ok_reset, of sd_state0 0 demo_image] unfolding demo_shell_def by auto
  from sdhost_ideal.fatboot_load_ideal [OF r refl, of _ "Suc 0" 3 16 "Suc 0" "0x80000000" _ "\<lambda>_. 0",
      unfolded demo_mount demo_chain [OF refl] demo_lookup [OF refl], OF refl refl]
    demo_lookup [OF refl]
  obtain g2 h2 where "fatboot_load (sdcard_read_block sdhost_bus) 0x80000000 (\<lambda>_. 0) (g, h) =
      Some (FB_OK, Some 4, store_bytes 0x80000000 [0x22, 0x11, 0x44, 0x33] (\<lambda>_. 0), g2, h2)"
    by (auto simp: demo_header cluster_lba_def cluster_bytes_def demo_bytes
        sdhost_ideal.length_disk [OF demo_ready])
  with i show ?thesis
    by (simp add: shell_sdload_def Let_def say_fmt_total fmt_total boot_jump_to_ddr_def demo_shell_def)
qed

theorem shell_sdload_boots_file_witness:
  "\<exists>st'. shell_sdload sdhost_bus [] (demo_shell (sdhost_reset 0 demo_image)) = Some (Jump, st') \<and>
    sh_mem st' = store_bytes 0x80000000 [0x22, 0x11, 0x44, 0x33] (\<lambda>_. 0) \<and>
    (\<exists>n. sh_mem st' = store_bytes 0x80000000
      (drop 12 (take 16 (chain_bytes n (card_geom demo_disk) demo_disk 3))) (\<lambda>_. 0))"
proof -
  obtain st' where run: "shell_sdload sdhost_bus [] (demo_shell (sdhost_reset 0 demo_image)) = Some (Jump, st')"
    and mem: "sh_mem st' = store_bytes 0x80000000 [0x22, 0x11, 0x44, 0x33] (\<lambda>_. 0)"
    using demo_sdload by blast
  from shell_sdload_boots_file [OF run _ refl, of demo_image] run mem show ?thesis
    by (auto simp: demo_shell_def host_ok_reset demo_boot_file)
qed

theorem shell_sdload_complete_witness:
  "\<exists>st'. shell_sdload sdhost_bus [] (demo_shell (sdhost_reset 0 demo_image)) = Some (Jump, st') \<and>
    sh_mem st' = store_bytes 0x80000000 [0x22, 0x11, 0x44, 0x33] (\<lambda>_. 0)"
  using shell_sdload_complete [where st = "demo_shell (sdhost_reset 0 demo_image)" and img = demo_image
      and n = "Suc 0" and k = "Suc 0" and fs = 16 and fc = 3, OF _ refl,
      unfolded demo_mount demo_chain [OF refl] demo_lookup [OF refl], OF _ refl refl]
    demo_lookup [OF refl]
  by (simp add: demo_header cluster_lba_def cluster_bytes_def demo_bytes demo_shell_def host_ok_reset
      sdhost_ideal.length_disk [OF demo_ready])

text \<open>
  The number parser accepts exactly the decimal literals that fit 32 bits, surrounded by
  spaces, and returns their value: no overflow is let through and no representable number is
  refused.
\<close>

theorem parse_u32_dec_exact:
  "parse_u32_dec (Some s) = Some v \<longleftrightarrow>
   (\<exists>sp ds t. s = sp @ ds @ t \<and> set sp \<union> set t \<subseteq> {32} \<and> ds \<noteq> [] \<and> list_all is_digit ds \<and>
      dec_value ds = unat v)"
  unfolding parse_u32_dec_iff decimal_def spaces_def list_all_iff by fastforce

text \<open>
  What \<open>printf\<close> prints with \<open>%u\<close> the shell reads back: the parser inverts the printer on every
  32-bit value.
\<close>

theorem parse_print_roundtrip: "parse_u32_dec (Some (print_unsigned v)) = Some v"
proof -
  have "print_unsigned v = print_nat (unat v)" by (rule print_unsigned_eq)
  moreover have "decimal (print_nat (unat v)) v"
    using print_nat_props [of "unat v"] by (simp add: decimal_def)
  ultimately show ?thesis
    unfolding parse_u32_dec_iff by (intro exI [of _ "[]"] exI [of _ "print_nat (unat v)"]) simp
qed

text \<open>
  The line reader cannot overflow its buffer. On any bus, the line it returns leaves room for
  the terminating NUL.
\<close>

theorem read_line_fits:
  assumes "read_line b maxlen d = Some (line, d')"
  shows "length line \<le> maxlen - 1"
  using read_line_loop_bound [of b maxlen "[]" d] assms by (simp add: read_line_def)

theorem read_line_fits_witness: "length (cstr ''lcd'') \<le> 127"
proof -
  have "read_line line_bus 128 (cstr ''lcd'' @ [13]) = Some (cstr ''lcd'', [])"
    using edit_line_plain [OF dispatch_lcd(1), of "[]" 128 "[]"]
    by (simp add: read_line_def read_line_loop_edit) (simp add: cstr_def)
  from read_line_fits [OF this] show ?thesis by simp
qed

text \<open>
  A sector dump never reads outside the sector. On the SD controller, whatever state it is in and
  whatever the arguments are, \<open>sdcard_rd\<close> runs to its end: a read past the 512 bytes, which
  the dump would stop at, does not happen, although the range check is done in wrapping
  32-bit arithmetic. Memory is not touched.
\<close>

theorem shell_sdcard_rd_safe:
  "\<exists>st'. shell_sdcard_rd sdhost_bus arg st = Some (Return, st') \<and> sh_mem st' = sh_mem st"
proof (cases "parse_three_u32_dec (Some arg)")
  case None
  then show ?thesis by (simp add: shell_sdcard_rd_def finish_def)
next
  case (Some p)
  obtain lba skip n where p: "p = (lba, skip, n)" by (cases p)
  obtain r g d where r: "sdcard_read_block sdhost_bus lba (sh_sd st, sh_dev st) = (r, g, d)"
    by (cases "sdcard_read_block sdhost_bus lba (sh_sd st, sh_dev st)")
  show ?thesis
  proof (cases "512 \<le> skip \<or> 512 < n \<or> 512 < skip + n")
    case True
    then show ?thesis by (simp add: shell_sdcard_rd_def finish_def Some p)
  next
    case False
    then show ?thesis
      using r hex_dump_range [OF False]
      by (cases r) (simp_all add: shell_sdcard_rd_def finish_def Some p Let_def say_fmt_total fmt_total)
  qed
qed

end
