(* ===== verification/Driver_Props.thy ===== *)
theory Driver_Props
  imports Soc_Device Peripherals Print
begin

text \<open>
  The properties of the device drivers on the SoC's own registers: delays that are neither
  early nor late, untorn reads of the 64-bit machine timer, a transmitter that drops nothing,
  the compare register update, number printing, and the framebuffer drawing.
\<close>

section \<open>Progress of the timer\<close>

text \<open>A clock cycle moves the counter or its prescaler on.\<close>

definition stamp :: "soc \<Rightarrow> nat" where
  "stamp s = s_count s * 8589934592 + unat (s_presc_cnt s)"

lemma presc_cnt_clock:
  "s_presc_cnt (soc_clock s) = (if s_en s \<and> s_presc_en s \<and> \<not> timer_tick s then s_presc_cnt s + 1 else 0)"
  by (simp add: soc_clock_def uart_rx_clock_def timer_clock_def Let_def split: list.splits prod.splits)

lemma stamp_clock:
  assumes "s_en s"
  shows "stamp s < stamp (soc_clock s)"
proof (cases "timer_tick s")
  case True
  then show ?thesis using unat_u32_less [of "s_presc_cnt s"] by (simp add: stamp_def presc_cnt_clock)
next
  case False
  with assms have "s_presc_en s" "s_presc_cnt s < s_presc s" by (auto simp: timer_tick_def not_le)
  then have "unat (s_presc_cnt s + 1) = Suc (unat (s_presc_cnt s))"
    using unat_u32_less [of "s_presc s"] by (subst unat_plus_no_wrap) (simp_all add: word_less_nat_alt)
  with False assms \<open>s_presc_en s\<close> show ?thesis by (simp add: stamp_def presc_cnt_clock)
qed

lemma count_read:
  assumes "timer_get_count soc_bus s = (c, s')"
  shows "c = of_nat (s_count s')" "s_count s \<le> s_count s'" "s_count s' \<le> s_count s + 4"
    and "s_en s' = s_en s" "s_en s \<Longrightarrow> stamp s < stamp s'" "s_sent s' = s_sent s"
proof -
  obtain v1 s1 where r1: "soc_rd timer_count_reg s = (v1, s1)" by (cases "soc_rd timer_count_reg s")
  with assms have r2: "soc_rd timer_count_reg s1 = (c, s')"
    by (simp add: timer_get_count_def read_twice_def)
  show "c = of_nat (s_count s')" "s_count s \<le> s_count s'"
    using soc_ticks.timer_get_count_tk [OF assms] by simp_all
  have one: "s_count y \<le> s_count x + 2" "s_en y = s_en x" "s_en x \<Longrightarrow> stamp x < stamp y" "s_sent y = s_sent x"
    if "soc_rd a x = (v, y)" for a x v y
    using that stamp_clock [of x] stamp_clock [of "soc_clock x"]
    by (auto simp: soc_rd_def Let_def stamp_def)
  from one [OF r1] one [OF r2]
  show "s_count s' \<le> s_count s + 4" "s_en s' = s_en s" "s_en s \<Longrightarrow> stamp s < stamp s'" "s_sent s' = s_sent s"
    by auto
qed

lemma delay_poll:
  assumes en: "s_en s" and t: "unat t + 4 < 4294967296" and start: "start = s_count s"
  shows "\<exists>s2. poll_until (\<lambda>d. let (c, d') = timer_get_count soc_bus d
        in (if c - of_nat start < t then None else Some (), d')) s = Some ((), s2) \<and>
      start + unat t \<le> s_count s2 \<and> s_count s2 \<le> start + unat t + 4"
proof -
  let ?f = "\<lambda>d. let (c, d') = timer_get_count soc_bus d
        in (if c - of_nat start < t then None else Some (), d')"
  define P :: "soc \<Rightarrow> bool" where "P = (\<lambda>x. s_en x \<and> start \<le> s_count x \<and> s_count x \<le> start + unat t)"
  have read: "r = (if s_count y < start + unat t then None else Some ()) \<and> s_en y \<and>
      start \<le> s_count y \<and> s_count y \<le> start + unat t + 4 \<and> stamp x < stamp y"
    if P: "P x" and f: "?f x = (r, y)" for x r y
  proof -
    obtain c where c: "timer_get_count soc_bus x = (c, y)"
      and r: "r = (if c - of_nat start < t then None else Some ())"
      using f by (auto split: prod.splits)
    note rd = count_read [OF c]
    have b: "start \<le> s_count y" "s_count y \<le> start + unat t + 4"
      using P rd(2,3) by (auto simp: P_def)
    have "c - of_nat start = (of_nat (s_count y - start) :: u32)" using b(1) rd(1) by simp
    moreover have "s_count y - start < 4294967296" using b(2) t by linarith
    ultimately have "unat (c - of_nat start) = s_count y - start" by (simp only: unat_of_nat_u32)
    with r b rd P show ?thesis by (auto simp: P_def word_less_nat_alt)
  qed
  have "\<exists>u s2. poll_until ?f s = Some (u, s2)"
  proof (rule poll_until_returns [where P = P and m = "\<lambda>x. Suc (start + unat t) * 8589934592 - stamp x"])
    show "P s" using en start by (simp add: P_def)
    fix x y assume P: "P x" and f: "?f x = (None, y)"
    note rd = read [OF P f]
    have lt: "s_count y < start + unat t" using rd by (auto split: if_splits)
    moreover have "stamp y < Suc (s_count y) * 8589934592"
      using unat_u32_less [of "s_presc_cnt y"] by (simp add: stamp_def)
    ultimately show "P y \<and> Suc (start + unat t) * 8589934592 - stamp y
        < Suc (start + unat t) * 8589934592 - stamp x"
      using rd by (auto simp: P_def)
  qed
  then obtain s2 where p: "poll_until ?f s = Some ((), s2)" by auto
  moreover have "start + unat t \<le> s_count s2 \<and> s_count s2 \<le> start + unat t + 4"
  proof (rule poll_until_rule [OF p, where P = P])
    show "P s" using en start by (simp add: P_def)
    show "P y" if "P x" "?f x = (None, y)" for x y
      using read [OF that] by (auto simp: P_def split: if_splits)
    show "start + unat t \<le> s_count y \<and> s_count y \<le> start + unat t + 4"
      if "P x" "?f x = (Some u, y)" for x u y
      using read [OF that] by (auto split: if_splits)
  qed
  ultimately show ?thesis by blast
qed

section \<open>The machine timer read\<close>

lemma mtime_try:
  "\<exists>r s'. clint_get_mtime_try soc_bus s = (r, s') \<and> s_cyc s' = s_cyc s + 12 \<and>
    (r = None \<longrightarrow> 4294967284 \<le> s_cyc s mod 4294967296)"
proof -
  let ?m = "4294967296 :: nat"
  have rd: "\<exists>y. clint_read32 soc_bus off x = (soc_reg (clint_mmio off) y, y) \<and> s_cyc y = s_cyc x + 4"
    for off x
  proof -
    obtain v y where r: "clint_read32 soc_bus off x = (v, y)" by (cases "clint_read32 soc_bus off x")
    obtain v1 x1 where r1: "soc_rd (clint_mmio off) x = (v1, x1)" by (cases "soc_rd (clint_mmio off) x")
    with r have r2: "soc_rd (clint_mmio off) x1 = (v, y)"
      by (simp add: clint_read32_def read_twice_def)
    from soc_mtime.clint_read32_mt(1) [OF r] r soc_rd_fields(3) [OF r1] soc_rd_fields(3) [OF r2]
    show ?thesis by simp
  qed
  obtain s1 where 1: "clint_read32 soc_bus (CLINT_MTIME_OFFSET + 4) s =
      (soc_reg (clint_mmio (CLINT_MTIME_OFFSET + 4)) s1, s1)" "s_cyc s1 = s_cyc s + 4"
    using rd by blast
  obtain s2 where 2: "clint_read32 soc_bus CLINT_MTIME_OFFSET s1 =
      (soc_reg (clint_mmio CLINT_MTIME_OFFSET) s2, s2)" "s_cyc s2 = s_cyc s1 + 4"
    using rd by blast
  obtain s3 where 3: "clint_read32 soc_bus (CLINT_MTIME_OFFSET + 4) s2 =
      (soc_reg (clint_mmio (CLINT_MTIME_OFFSET + 4)) s3, s3)" "s_cyc s3 = s_cyc s2 + 4"
    using rd by blast
  define hi1 hi3 w where "hi1 = soc_reg (clint_mmio (CLINT_MTIME_OFFSET + 4)) s1"
    and "hi3 = soc_reg (clint_mmio (CLINT_MTIME_OFFSET + 4)) s3"
    and "w = (push_bit 32 (ucast hi1) OR ucast (soc_reg (clint_mmio CLINT_MTIME_OFFSET) s2) :: u64)"
  define r where "r = (if hi1 \<noteq> hi3 then None else Some w)"
  have r: "clint_get_mtime_try soc_bus s = (r, s3)"
    unfolding clint_get_mtime_try_def 1 2 3 Let_def prod.case r_def hi1_def hi3_def w_def ..
  have "4294967284 \<le> s_cyc s mod 4294967296" if "r = None"
  proof (rule ccontr)
    assume lo: "\<not> 4294967284 \<le> s_cyc s mod ?m"
    have "(s_cyc s + k) div ?m = s_cyc s div ?m" if "k \<le> 12" for k
    proof (intro div_nat_eqI)
      have e: "s_cyc s = ?m * (s_cyc s div ?m) + s_cyc s mod ?m" by simp
      show "?m * (s_cyc s div ?m) \<le> s_cyc s + k" using e by linarith
      show "s_cyc s + k < ?m * Suc (s_cyc s div ?m)"
        using e lo that unfolding mult_Suc_right by linarith
    qed
    from this [of 4] this [of 12] have "s_cyc s1 div ?m = s_cyc s3 div ?m"
      using 1(2) 2(2) 3(2) by (simp add: add.commute)
    then have "hi1 = hi3" unfolding hi1_def hi3_def soc_mtime.mtime_hi by (rule arg_cong)
    with that show False by (simp add: r_def)
  qed
  with r 1(2) 2(2) 3(2) show ?thesis by auto
qed

lemma mtime_returns:
  "\<exists>v s'. clint_get_mtime soc_bus s = Some (v, s') \<and> s_cyc s' \<le> s_cyc s + 24"
proof -
  let ?m = "4294967296 :: nat"
  let ?f = "clint_get_mtime_try soc_bus"
  obtain r1 s1 where 1: "?f s = (r1, s1)" "s_cyc s1 = s_cyc s + 12"
    "r1 = None \<longrightarrow> 4294967284 \<le> s_cyc s mod ?m" using mtime_try [of s] by blast
  show ?thesis
  proof (cases r1)
    case (Some v)
    with 1 have "clint_get_mtime soc_bus s = Some (v, s1)"
      by (simp add: clint_get_mtime_def poll_until_Some)
    with 1 show ?thesis by auto
  next
    case None
    obtain r2 s2 where 2: "?f s1 = (r2, s2)" "s_cyc s2 = s_cyc s1 + 12"
      "r2 = None \<longrightarrow> 4294967284 \<le> s_cyc s1 mod ?m" using mtime_try [of s1] by blast
    have "\<not> 4294967284 \<le> s_cyc s1 mod ?m"
    proof -
      have "s_cyc s1 mod ?m = (s_cyc s mod ?m + 12) mod ?m" by (simp add: 1(2) mod_simps)
      also have "\<dots> = s_cyc s mod ?m + 12 - ?m"
        using 1(3) None mod_less_divisor [of ?m "s_cyc s"] by (subst mod_if) auto
      finally show ?thesis using mod_less_divisor [of ?m "s_cyc s"] by linarith
    qed
    with 2 obtain v where "r2 = Some v" by (cases r2) auto
    with None 1 2 have "clint_get_mtime soc_bus s = Some (v, s2)"
      by (simp add: clint_get_mtime_def poll_until_None [of ?f s s1] poll_until_Some)
    with 1 2 show ?thesis by auto
  qed
qed

lemma soc_puts_all: "soc_serial.puts_all cs s = put_bytes soc_bus cs s"
proof (induction cs arbitrary: s)
  case (Cons c cs)
  then show ?case by (simp add: Cons [abs_def])
qed simp

section \<open>Properties\<close>

text \<open>
  A delay is neither early nor late. With the SoC's timer running, with or without its
  prescaler, \<open>timer_delay_ticks\<close> returns, and the number of counts it took is at least what was
  asked for and at most eight more, even when the 32-bit count wraps on the way. (Only the last
  four values of the argument are out: the polling could step over them.)
\<close>

theorem timer_delay_exact:
  assumes "s_en s" and "unat t + 4 < 2 ^ 32"
  shows "\<exists>s'. timer_delay_ticks soc_bus t s = Some s' \<and>
    s_count s + unat t \<le> s_count s' \<and> s_count s' \<le> s_count s + unat t + 8"
proof -
  obtain c s1 where c: "timer_get_count soc_bus s = (c, s1)" by (cases "timer_get_count soc_bus s")
  note r = count_read [OF c]
  have "s_en s1" using r(4) assms(1) by simp
  moreover have "unat t + 4 < 4294967296" using assms(2) by simp
  ultimately obtain s2 where "poll_until (\<lambda>d. let (c, d') = timer_get_count soc_bus d
        in (if c - of_nat (s_count s1) < t then None else Some (), d')) s1 = Some ((), s2)"
    "s_count s1 + unat t \<le> s_count s2" "s_count s2 \<le> s_count s1 + unat t + 4"
    using delay_poll by blast
  with r(1,2,3) c show ?thesis by (simp add: timer_delay_ticks_def)
qed

theorem timer_delay_exact_witness:
  "\<exists>s'. timer_delay_ticks soc_bus 1000 (soc_reset []\<lparr>s_en := True\<rparr>) = Some s' \<and>
    1000 \<le> s_count s' \<and> s_count s' \<le> 1008"
  using timer_delay_exact [of "soc_reset []\<lparr>s_en := True\<rparr>" 1000] by (simp add: soc_reset_def)

text \<open>
  A delay of whole seconds is never short. Whenever \<open>timer_delay_s\<close> returns, for every number of
  seconds and every tick rate, the full product has elapsed, although it may exceed 32 bits:
  the chunks the driver cuts it into neither overflow nor lose a tick.
\<close>

theorem timer_delay_s_not_short:
  assumes "timer_delay_s soc_bus tps secs s = Some s'" and "tps \<noteq> 0"
  shows "s_count s + unat secs * unat tps \<le> s_count s'"
  using assms(2,1) by (rule soc_ticks.timer_delay_s_not_early)

theorem timer_delay_s_not_short_witness:
  "\<exists>s'. timer_delay_s soc_bus 1000000 1 (soc_reset []\<lparr>s_en := True\<rparr>) = Some s' \<and> 1000000 \<le> s_count s'"
proof -
  have "delay_chunks 1000000 1 = [1000000]"
    by (subst delay_chunks.simps) (simp add: Let_def word_less_nat_alt unat_div delay_chunks.simps)
  then have "timer_delay_s soc_bus 1000000 1 x = timer_delay_ticks soc_bus 1000000 x" for x
    by (simp add: timer_delay_s_def)
  moreover obtain c s1 where c: "timer_get_count soc_bus (soc_reset []\<lparr>s_en := True\<rparr>) = (c, s1)"
    by (cases "timer_get_count soc_bus (soc_reset []\<lparr>s_en := True\<rparr>)")
  moreover have "s_en s1" using count_read(4) [OF c] by simp
  moreover have "unat (1000000 :: u32) + 4 < 4294967296" by simp
  ultimately obtain s' where s': "timer_delay_s soc_bus 1000000 1 (soc_reset []\<lparr>s_en := True\<rparr>) = Some s'"
    using delay_poll [of s1 1000000 "s_count s1"] count_read(1) [OF c]
    by (auto simp: timer_delay_ticks_def)
  from timer_delay_s_not_short [OF this] s' show ?thesis by (simp add: soc_reset_def)
qed

text \<open>
  The millisecond and microsecond conversions are the truncated quotient. The driver's
  multiply-divide takes the product in 64 bits without overflow and then keeps the low 32 bits
  of the quotient, so it is exact precisely when the quotient fits; a longer delay is silently
  shortened.
\<close>

theorem mul_div_exact_iff:
  "unat (mul_div_u32 a c dv) = unat a * unat c div unat dv \<longleftrightarrow>
   unat a * unat c div unat dv < 2 ^ 32"
proof (cases "dv = 0")
  case True
  then show ?thesis by (simp add: mul_div_u32_def)
next
  case False
  from unat_mul_div_u32 [OF False, of a c]
  have "unat (mul_div_u32 a c dv) = unat a * unat c div unat dv mod 2 ^ 32" by simp
  then show ?thesis by (metis mod_less mod_less_divisor zero_less_numeral zero_less_power)
qed

text \<open>
  The 64-bit machine time is never torn. On the SoC's CLINT the read of the two halves returns
  within 24 cycles, with a value the counter really had during the call, even across a carry
  from the low word to the high word.
\<close>

theorem clint_get_mtime_untorn:
  assumes "s_cyc s + 24 < 2 ^ 64"
  shows "\<exists>v s'. clint_get_mtime soc_bus s = Some (v, s') \<and> s_cyc s' \<le> s_cyc s + 24 \<and>
    s_cyc s \<le> unat v \<and> unat v \<le> s_cyc s'"
proof -
  obtain v s' where g: "clint_get_mtime soc_bus s = Some (v, s')" and b: "s_cyc s' \<le> s_cyc s + 24"
    using mtime_returns by blast
  from b assms have lim: "s_cyc s' < 18446744073709551616" by simp
  from soc_mtime.clint_get_mtime_linear [OF g this] obtain t
    where t: "s_cyc s \<le> t" "t \<le> s_cyc s'" "v = of_nat t" by blast
  then have "unat v = t" using lim by (simp add: unsigned_of_nat take_bit_nat_eq_self)
  with g b t show ?thesis by auto
qed

theorem clint_get_mtime_untorn_witness:
  "\<exists>v s'. clint_get_mtime soc_bus (soc_reset []\<lparr>s_cyc := 4294967290\<rparr>) = Some (v, s') \<and>
    4294967290 \<le> unat v \<and> unat v \<le> 4294967314"
proof -
  obtain v s' where "clint_get_mtime soc_bus (soc_reset []\<lparr>s_cyc := 4294967290\<rparr>) = Some (v, s')"
    "s_cyc s' \<le> 4294967314" "4294967290 \<le> unat v" "unat v \<le> s_cyc s'"
    using clint_get_mtime_untorn [of "soc_reset []\<lparr>s_cyc := 4294967290\<rparr>"] by auto
  then show ?thesis by auto
qed

text \<open>
  Nothing that is printed is lost. On the SoC's UART the blocking transmitter returns for every
  byte and the frames on the wire are the bytes given to it, in order: so \<open>puts\<close> sends the
  string and the line end, whatever the transmitter was doing.
\<close>

theorem puts_sends_all:
  "\<exists>s'. put_bytes soc_bus (puts str) s = Some s' \<and> s_sent s' = s_sent s @ str @ [10]"
  using soc_serial.puts_all_sent [where d = s and cs = "puts str"]
  by (simp add: soc_puts_all puts_def print_string_def)

text \<open>
  \<open>print_dec\<close> prints the value, with one exception. For every 32-bit signed value but the
  smallest it ends and prints a minus sign for the negative ones and then decimal digits whose
  value is the magnitude; for the smallest value the negation is the value itself and the
  recursion does not end.
\<close>

theorem print_dec_correct:
  "case print_dec v of
     None \<Rightarrow> v = 0x80000000
   | Some out \<Rightarrow> v \<noteq> 0x80000000 \<and>
       (\<exists>ds. out = (if sint v < 0 then [45] else []) @ ds \<and> ds \<noteq> [] \<and> list_all is_digit ds \<and>
          int (dec_value ds) = \<bar>sint v\<bar>)"
proof (cases "v = 0x80000000")
  case True
  then show ?thesis by (simp add: print_dec_min)
next
  case False
  have ne: "sint v \<noteq> - 2147483648"
  proof
    assume "sint v = - 2147483648"
    then have "sint v = sint (0x80000000 :: u32)" by simp
    with False show False using signed_word_eqI by blast
  qed
  show ?thesis
  proof (cases "sint v < 0")
    case True
    with print_dec_neg [OF True ne] False print_nat_props [of "nat (- sint v)"] show ?thesis
      by (auto simp: list_all_iff)
  next
    case nn: False
    with print_dec_nonneg [of v] False print_nat_props [of "nat (sint v)"] show ?thesis
      by (auto simp: list_all_iff)
  qed
qed

text \<open>
  The compare register passes through a third value. \<open>clint_set_mtimecmp\<close> leaves exactly the new
  value in it, but the controller compares after the first of its two writes as well: moving
  the alarm from \<open>0x1_FFFFFFFF\<close> to \<open>0x2_00000000\<close> at time \<open>0x1_00000010\<close> raises an interrupt
  in between, although neither value is due.
\<close>

theorem clint_set_mtimecmp_glitch:
  "s_cmp (clint_set_mtimecmp soc_bus val s) = val \<and>
   (let s0 = soc_reset []\<lparr>s_cyc := 0x100000010, s_cmp := 0x1FFFFFFFF\<rparr>;
        s1 = soc_wr (clint_mmio CLINT_MTIMECMP_OFFSET) (ucast (0x200000000 :: u64)) s0
    in \<not> timer_irq s0 \<and> timer_irq s1 \<and> \<not> timer_irq (clint_set_mtimecmp soc_bus 0x200000000 s0))"
proof -
  have wr: "soc_wr (clint_mmio CLINT_MTIMECMP_OFFSET) v x =
      (soc_clock (soc_clock x))\<lparr>s_cmp := push_bit 32 (drop_bit 32 (s_cmp x)) OR ucast v, s_last := None\<rparr>"
    "soc_wr (clint_mmio (CLINT_MTIMECMP_OFFSET + 4)) v x =
      (soc_clock (soc_clock x))\<lparr>s_cmp := push_bit 32 (ucast v) OR take_bit 32 (s_cmp x), s_last := None\<rparr>"
    for v x
    by (simp_all add: soc_wr_def soc_write_effect_def soc_addrs)
  have join: "push_bit 32 (ucast (ucast (drop_bit 32 val) :: u32)) OR
      take_bit 32 (push_bit 32 (drop_bit 32 c)) OR take_bit 32 (ucast (ucast val :: u32)) = val" for c val :: u64
    by (rule bit_word_eqI)
      (auto simp: bit_or_iff bit_push_bit_iff bit_take_bit_iff bit_ucast_iff bit_drop_bit_eq)
  have set: "s_cmp (clint_set_mtimecmp soc_bus val x) = val" "s_cyc (clint_set_mtimecmp soc_bus val x) = s_cyc x + 4"
    for val x
    unfolding clint_set_mtimecmp_def soc_bus_simps wr by (simp_all add: join)
  show ?thesis
    unfolding timer_irq_def Let_def set by (simp add: wr soc_reset_def)
qed

text \<open>
  The colour bars are drawn. After \<open>lcd_colorbar\<close> every pixel of the 480 by 272 picture has the
  colour of its column's bar, sixteen bars of thirty columns, and no byte outside the picture
  has changed.
\<close>

theorem lcd_colorbar_exact:
  "if in_framebuffer a then \<exists>y x. y < LCD_HEIGHT \<and> x < LCD_WIDTH \<and>
       a - LCD_FB_BASE - of_nat (2 * (y * LCD_WIDTH + x)) \<in> {0, 1} \<and>
       fb_load (y * LCD_WIDTH + x) (lcd_colorbar m) = lcd_bars ! (x div 30)
   else lcd_colorbar m a = m a"
proof (cases "in_framebuffer a")
  case False
  then show ?thesis by (simp add: lcd_colorbar_outside)
next
  case True
  define j where "j = unat (a - LCD_FB_BASE) div 2"
  from True have j: "j < LCD_WIDTH * LCD_HEIGHT" by (simp add: in_framebuffer_def j_def div_less_iff_less_mult)
  have x: "j mod LCD_WIDTH < LCD_WIDTH" and y: "j div LCD_WIDTH < LCD_HEIGHT"
    using j by (simp_all add: div_less_iff_less_mult)
  have jj: "j div LCD_WIDTH * LCD_WIDTH + j mod LCD_WIDTH = j" by (rule div_mult_mod_eq)
  have "a - LCD_FB_BASE = of_nat (unat (a - LCD_FB_BASE))" by simp
  also have "unat (a - LCD_FB_BASE) = 2 * j + unat (a - LCD_FB_BASE) mod 2" by (simp add: j_def)
  finally have "a - LCD_FB_BASE - of_nat (2 * j) = of_nat (unat (a - LCD_FB_BASE) mod 2)"
    by (metis add_diff_cancel_left' of_nat_add)
  moreover have "unat (a - LCD_FB_BASE) mod 2 = 0 \<or> unat (a - LCD_FB_BASE) mod 2 = 1" by auto
  ultimately have "a - LCD_FB_BASE - of_nat (2 * j) \<in> {0, 1}" by (auto simp del: of_nat_mod)
  moreover have "fb_load j (lcd_colorbar m) = lcd_bars ! (j mod LCD_WIDTH div 30)"
    using lcd_colorbar_load [OF j, of m] x by (simp add: bar_of_def Let_def) auto
  ultimately show ?thesis
    using True x y jj by (simp only: if_True) (rule exI [of _ "j div LCD_WIDTH"], rule exI [of _ "j mod LCD_WIDTH"], simp only: simp_thms)
qed

end
