(* ===== verification/Rtos_List.thy ===== *)
theory Rtos_List
  imports Melon_Prelude "HOL-Library.Multiset"
begin

text \<open>
  The FreeRTOS list, \<open>ddr_app/rtos/FreeRTOS/list.c\<close> and the macros of \<open>include/list.h\<close>, at the
  level of the pointers: a store of nodes reached through \<open>pxNext\<close> and \<open>pxPrevious\<close>, the end
  marker inside the list header, and the walking index. A list is represented by the sequence
  of its items (\<open>list_rep\<close>), and every operation of the code is shown to refine an operation
  on that sequence. Lists and items are numbered; a pointer is the end marker of a list or an
  item. The configuration is the repository's: 32-bit ticks, no integrity check values, the
  mini list item for the end marker.
\<close>

section \<open>The store\<close>

datatype ptr = End nat | Item nat

record node =
  xItemValue :: u32
  pxNext :: ptr
  pxPrevious :: ptr
  pvOwner :: nat
  pxContainer :: "nat option"

record list_header =
  uxNumberOfItems :: u32
  pxIndex :: ptr

record store =
  nodes :: "ptr \<Rightarrow> node"
  headers :: "nat \<Rightarrow> list_header"

abbreviation portMAX_DELAY :: u32 where "portMAX_DELAY \<equiv> 0xFFFFFFFF"

definition upd_node :: "ptr \<Rightarrow> (node \<Rightarrow> node) \<Rightarrow> store \<Rightarrow> store" where
  "upd_node p f s = s\<lparr>nodes := (nodes s)(p := f (nodes s p))\<rparr>"

definition upd_header :: "nat \<Rightarrow> (list_header \<Rightarrow> list_header) \<Rightarrow> store \<Rightarrow> store" where
  "upd_header l f s = s\<lparr>headers := (headers s)(l := f (headers s l))\<rparr>"

abbreviation set_next :: "ptr \<Rightarrow> ptr \<Rightarrow> store \<Rightarrow> store" where
  "set_next p q \<equiv> upd_node p (pxNext_update (\<lambda>_. q))"

abbreviation set_prev :: "ptr \<Rightarrow> ptr \<Rightarrow> store \<Rightarrow> store" where
  "set_prev p q \<equiv> upd_node p (pxPrevious_update (\<lambda>_. q))"

abbreviation next_of :: "store \<Rightarrow> ptr \<Rightarrow> ptr" where
  "next_of s p \<equiv> pxNext (nodes s p)"

abbreviation prev_of :: "store \<Rightarrow> ptr \<Rightarrow> ptr" where
  "prev_of s p \<equiv> pxPrevious (nodes s p)"

section \<open>The operations of the code\<close>

definition vListInitialise :: "nat \<Rightarrow> store \<Rightarrow> store" where
  "vListInitialise l s =
     (let s1 = upd_header l (pxIndex_update (\<lambda>_. End l)) s;
          s2 = upd_node (End l) (xItemValue_update (\<lambda>_. portMAX_DELAY)) s1;
          s3 = set_next (End l) (End l) s2;
          s4 = set_prev (End l) (End l) s3
      in upd_header l (uxNumberOfItems_update (\<lambda>_. 0)) s4)"

definition vListInitialiseItem :: "nat \<Rightarrow> store \<Rightarrow> store" where
  "vListInitialiseItem i s = upd_node (Item i) (pxContainer_update (\<lambda>_. None)) s"

definition vListInsertEnd :: "nat \<Rightarrow> nat \<Rightarrow> store \<Rightarrow> store" where
  "vListInsertEnd l i s =
     (let idx = pxIndex (headers s l);
          s1 = set_next (Item i) idx s;
          s2 = set_prev (Item i) (prev_of s1 idx) s1;
          s3 = set_next (prev_of s2 idx) (Item i) s2;
          s4 = set_prev idx (Item i) s3;
          s5 = upd_node (Item i) (pxContainer_update (\<lambda>_. Some l)) s4
      in upd_header l (uxNumberOfItems_update (\<lambda>n. n + 1)) s5)"

text \<open>The walk to the insertion position; it need not end on a corrupted list.\<close>

partial_function (option) insert_scan :: "store \<Rightarrow> u32 \<Rightarrow> ptr \<Rightarrow> ptr option" where
  "insert_scan s val it =
     (if xItemValue (nodes s (next_of s it)) \<le> val then insert_scan s val (next_of s it)
      else Some it)"

definition vListInsert :: "nat \<Rightarrow> nat \<Rightarrow> store \<Rightarrow> store option" where
  "vListInsert l i s =
     (let val = xItemValue (nodes s (Item i))
      in map_option (\<lambda>it.
           let s1 = set_next (Item i) (next_of s it) s;
               s2 = set_prev (next_of s1 (Item i)) (Item i) s1;
               s3 = set_prev (Item i) it s2;
               s4 = set_next it (Item i) s3;
               s5 = upd_node (Item i) (pxContainer_update (\<lambda>_. Some l)) s4
           in upd_header l (uxNumberOfItems_update (\<lambda>n. n + 1)) s5)
         (if val = portMAX_DELAY then Some (prev_of s (End l)) else insert_scan s val (End l)))"

text \<open>An item that is on no list would make the code write through NULL: \<open>None\<close>.\<close>

definition uxListRemove :: "nat \<Rightarrow> store \<Rightarrow> (u32 \<times> store) option" where
  "uxListRemove i s =
     (case pxContainer (nodes s (Item i)) of
        None \<Rightarrow> None
      | Some l \<Rightarrow>
          let s1 = set_prev (next_of s (Item i)) (prev_of s (Item i)) s;
              s2 = set_next (prev_of s1 (Item i)) (next_of s1 (Item i)) s1;
              s3 = (if pxIndex (headers s2 l) = Item i
                    then upd_header l (pxIndex_update (\<lambda>_. prev_of s2 (Item i))) s2 else s2);
              s4 = upd_node (Item i) (pxContainer_update (\<lambda>_. None)) s3;
              s5 = upd_header l (uxNumberOfItems_update (\<lambda>n. n - 1)) s4
          in Some (uxNumberOfItems (headers s5 l), s5))"

section \<open>The macros\<close>

definition listSET_LIST_ITEM_OWNER :: "nat \<Rightarrow> nat \<Rightarrow> store \<Rightarrow> store" where
  "listSET_LIST_ITEM_OWNER i ow = upd_node (Item i) (pvOwner_update (\<lambda>_. ow))"

definition listSET_LIST_ITEM_VALUE :: "nat \<Rightarrow> u32 \<Rightarrow> store \<Rightarrow> store" where
  "listSET_LIST_ITEM_VALUE i v = upd_node (Item i) (xItemValue_update (\<lambda>_. v))"

definition listGET_ITEM_VALUE_OF_HEAD_ENTRY :: "nat \<Rightarrow> store \<Rightarrow> u32" where
  "listGET_ITEM_VALUE_OF_HEAD_ENTRY l s = xItemValue (nodes s (next_of s (End l)))"

definition listLIST_IS_EMPTY :: "nat \<Rightarrow> store \<Rightarrow> bool" where
  "listLIST_IS_EMPTY l s \<longleftrightarrow> uxNumberOfItems (headers s l) = 0"

definition listGET_OWNER_OF_HEAD_ENTRY :: "nat \<Rightarrow> store \<Rightarrow> nat" where
  "listGET_OWNER_OF_HEAD_ENTRY l s = pvOwner (nodes s (next_of s (End l)))"

definition listIS_CONTAINED_WITHIN :: "nat \<Rightarrow> nat \<Rightarrow> store \<Rightarrow> bool" where
  "listIS_CONTAINED_WITHIN l i s \<longleftrightarrow> pxContainer (nodes s (Item i)) = Some l"

definition listGET_OWNER_OF_NEXT_ENTRY :: "nat \<Rightarrow> store \<Rightarrow> nat \<times> store" where
  "listGET_OWNER_OF_NEXT_ENTRY l s =
     (let idx = next_of s (pxIndex (headers s l));
          idx' = (if idx = End l then next_of s (End l) else idx);
          s1 = upd_header l (pxIndex_update (\<lambda>_. idx')) s
      in (pvOwner (nodes s1 idx'), s1))"

definition listGET_LIST_ITEM_OWNER :: "nat \<Rightarrow> store \<Rightarrow> nat" where
  "listGET_LIST_ITEM_OWNER i s = pvOwner (nodes s (Item i))"

definition listGET_LIST_ITEM_VALUE :: "nat \<Rightarrow> store \<Rightarrow> u32" where
  "listGET_LIST_ITEM_VALUE i s = xItemValue (nodes s (Item i))"

definition listCURRENT_LIST_LENGTH :: "nat \<Rightarrow> store \<Rightarrow> u32" where
  "listCURRENT_LIST_LENGTH l s = uxNumberOfItems (headers s l)"

definition listLIST_ITEM_CONTAINER :: "nat \<Rightarrow> store \<Rightarrow> nat option" where
  "listLIST_ITEM_CONTAINER i s = pxContainer (nodes s (Item i))"

text \<open>The inline versions of \<open>uxListRemove\<close> and \<open>vListInsertEnd\<close> that the scheduler uses.\<close>

definition listREMOVE_ITEM :: "nat \<Rightarrow> store \<Rightarrow> store option" where
  "listREMOVE_ITEM i s =
     (case pxContainer (nodes s (Item i)) of
        None \<Rightarrow> None
      | Some l \<Rightarrow>
          let s1 = set_prev (next_of s (Item i)) (prev_of s (Item i)) s;
              s2 = set_next (prev_of s1 (Item i)) (next_of s1 (Item i)) s1;
              s3 = (if pxIndex (headers s2 l) = Item i
                    then upd_header l (pxIndex_update (\<lambda>_. prev_of s2 (Item i))) s2 else s2);
              s4 = upd_node (Item i) (pxContainer_update (\<lambda>_. None)) s3
          in Some (upd_header l (uxNumberOfItems_update (\<lambda>n. n - 1)) s4))"

definition listINSERT_END :: "nat \<Rightarrow> nat \<Rightarrow> store \<Rightarrow> store" where
  "listINSERT_END l i s =
     (let idx = pxIndex (headers s l);
          s1 = set_next (Item i) idx s;
          s2 = set_prev (Item i) (prev_of s1 idx) s1;
          s3 = set_next (prev_of s2 idx) (Item i) s2;
          s4 = set_prev idx (Item i) s3;
          s5 = upd_node (Item i) (pxContainer_update (\<lambda>_. Some l)) s4
      in upd_header l (uxNumberOfItems_update (\<lambda>n. n + 1)) s5)"

lemma listREMOVE_ITEM_eq: "listREMOVE_ITEM i s = map_option snd (uxListRemove i s)"
  by (simp add: listREMOVE_ITEM_def uxListRemove_def Let_def split: option.splits)

lemma listINSERT_END_eq: "listINSERT_END = vListInsertEnd"
  by (intro ext) (simp add: listINSERT_END_def vListInsertEnd_def)

section \<open>Chains\<close>

text \<open>Following the links from \<open>a\<close> leads through \<open>xs\<close> to \<open>b\<close>, and back.\<close>

fun links :: "store \<Rightarrow> ptr \<Rightarrow> ptr list \<Rightarrow> ptr \<Rightarrow> bool" where
  "links s a [] b \<longleftrightarrow> next_of s a = b \<and> prev_of s b = a"
| "links s a (x # xs) b \<longleftrightarrow> next_of s a = x \<and> prev_of s x = a \<and> links s x xs b"

lemma links_append: "links s a (xs @ x # ys) b \<longleftrightarrow> links s a xs x \<and> links s x ys b"
  by (induction xs arbitrary: a) auto

lemma links_frame:
  assumes "\<And>p. p = a \<or> p \<in> set xs \<Longrightarrow> next_of s' p = next_of s p"
    and "\<And>p. p = b \<or> p \<in> set xs \<Longrightarrow> prev_of s' p = prev_of s p"
  shows "links s' a xs b \<longleftrightarrow> links s a xs b"
  using assms by (induction xs arbitrary: a) auto

lemma links_ends:
  assumes "links s a xs b"
  shows "next_of s a = hd (xs @ [b])" "prev_of s b = last (a # xs)"
  using assms by (induction xs arbitrary: a) auto

lemma upd_node_nodes [simp]:
  "nodes (upd_node p f s) q = (if q = p then f (nodes s p) else nodes s q)"
  "headers (upd_node p f s) = headers s"
  by (simp_all add: upd_node_def)

lemma upd_header_headers [simp]:
  "headers (upd_header l f s) k = (if k = l then f (headers s l) else headers s k)"
  "nodes (upd_header l f s) = nodes s"
  by (simp_all add: upd_header_def)

text \<open>
  The list \<open>l\<close> of the store holds the items \<open>xs\<close>, and its walking index is at an item or at
  the end marker.
\<close>

definition list_rep :: "store \<Rightarrow> nat \<Rightarrow> nat list \<Rightarrow> nat option \<Rightarrow> bool" where
  "list_rep s l xs ix \<longleftrightarrow>
     links s (End l) (map Item xs) (End l) \<and> distinct xs \<and>
     (\<forall>i\<in>set xs. pxContainer (nodes s (Item i)) = Some l) \<and>
     uxNumberOfItems (headers s l) = of_nat (length xs) \<and>
     xItemValue (nodes s (End l)) = portMAX_DELAY \<and>
     pxIndex (headers s l) = (case ix of None \<Rightarrow> End l | Some i \<Rightarrow> Item i) \<and>
     (\<forall>i. ix = Some i \<longrightarrow> i \<in> set xs)"

abbreviation item_value :: "store \<Rightarrow> nat \<Rightarrow> u32" where
  "item_value s i \<equiv> xItemValue (nodes s (Item i))"

section \<open>Initialisation\<close>

lemma vListInitialise_rep: "list_rep (vListInitialise l s) l [] None"
  by (simp add: list_rep_def vListInitialise_def)

text \<open>A list that an operation does not touch stays what it was.\<close>

lemma list_rep_frame:
  assumes "\<And>p. p = End l \<or> p \<in> Item ` set xs \<Longrightarrow> nodes s' p = nodes s p"
    and "headers s' l = headers s l"
  shows "list_rep s' l xs ix \<longleftrightarrow> list_rep s l xs ix"
proof -
  have "links s' (End l) (map Item xs) (End l) \<longleftrightarrow> links s (End l) (map Item xs) (End l)"
    using assms(1) by (intro links_frame) auto
  with assms show ?thesis by (simp add: list_rep_def)
qed

lemma vListInitialise_other:
  "k \<noteq> l \<Longrightarrow> list_rep (vListInitialise l s) k xs ix \<longleftrightarrow> list_rep s k xs ix"
  by (rule list_rep_frame) (auto simp: vListInitialise_def)

section \<open>Linking and unlinking\<close>

lemma links_retarget:
  assumes "links s a xs c" and "distinct (a # xs)"
    and "next_of s' (last (a # xs)) = c'" and "prev_of s' c' = last (a # xs)"
    and "\<And>r. r \<in> set (a # xs) \<Longrightarrow> r \<noteq> last (a # xs) \<Longrightarrow> next_of s' r = next_of s r"
    and "\<And>r. r \<in> set xs \<Longrightarrow> prev_of s' r = prev_of s r"
  shows "links s' a xs c'"
  using assms
proof (induction xs arbitrary: a)
  case (Cons x xs)
  then have "links s' x xs c'" by (intro Cons.IH) auto
  moreover have "next_of s' a = next_of s a"
    using Cons.prems(2) by (intro Cons.prems(5)) auto
  ultimately show ?case using Cons.prems by simp
qed simp

lemma links_resource:
  assumes "links s c ys b" and "next_of s' q = hd (ys @ [b])" and "prev_of s' (hd (ys @ [b])) = q"
    and "\<And>r. r \<in> set ys \<Longrightarrow> next_of s' r = next_of s r"
    and "\<And>r. r \<in> set (tl (ys @ [b])) \<Longrightarrow> prev_of s' r = prev_of s r"
  shows "links s' q ys b"
proof (cases ys)
  case (Cons y zs)
  with assms(1,4,5) have "links s' y zs b"
    by (intro links_frame [THEN iffD2, of y zs s' s b]) auto
  with Cons assms show ?thesis by simp
qed (use assms in simp)

lemma links_split:
  assumes "links s a (xs @ ys) b"
  shows "links s a xs (hd (ys @ [b]))" "links s (last (a # xs)) ys b"
proof -
  show "links s a xs (hd (ys @ [b]))" using assms by (cases ys) (auto simp: links_append)
  show "links s (last (a # xs)) ys b"
    using assms by (cases xs rule: rev_cases) (auto simp: links_append)
qed

text \<open>A new node \<open>q\<close> between the neighbours \<open>p\<close> and \<open>n\<close> of a ring.\<close>

lemma links_insert:
  assumes ring: "links s e (xs @ ys) e" and d: "distinct (e # xs @ ys)" and q: "q \<notin> set (e # xs @ ys)"
    and p: "p = last (e # xs)" and n: "n = hd (ys @ [e])"
    and nx: "\<And>r. next_of s' r = (if r = q then n else if r = p then q else next_of s r)"
    and pv: "\<And>r. prev_of s' r = (if r = q then p else if r = n then q else prev_of s r)"
  shows "links s' e (xs @ q # ys) e"
proof -
  have pin: "p \<in> set (e # xs)" using p last_in_set by blast
  have nin: "n \<in> set (ys @ [e])" using n by (cases ys) simp_all
  note sp = links_split [OF ring]
  have "links s' e xs q"
  proof (rule links_retarget [OF sp(1)])
    show "prev_of s' r = prev_of s r" if "r \<in> set xs" for r
      using that nin d q by (auto simp: pv)
    show "next_of s' r = next_of s r" if "r \<in> set (e # xs)" "r \<noteq> last (e # xs)" for r
      using that q p by (auto simp: nx)
  qed (use d q p pin in \<open>auto simp: nx pv\<close>)
  moreover have "links s' q ys e"
  proof (rule links_resource [OF sp(2)])
    show "prev_of s' r = prev_of s r" if "r \<in> set (tl (ys @ [e]))" for r
    proof -
      have "r \<noteq> n" using that n d by (cases ys) auto
      moreover have "r \<noteq> q" using that q by (cases ys) auto
      ultimately show ?thesis by (simp add: pv)
    qed
    show "next_of s' r = next_of s r" if "r \<in> set ys" for r
      using that pin d q by (auto simp: nx)
  qed (use q n nin in \<open>auto simp: nx pv\<close>)
  ultimately show ?thesis by (simp add: links_append)
qed

text \<open>A node taken out of a ring.\<close>

lemma links_remove:
  assumes ring: "links s e (xs @ q # ys) e" and d: "distinct (e # xs @ q # ys)"
    and p: "p = last (e # xs)" and n: "n = hd (ys @ [e])"
    and nx: "\<And>r. r \<noteq> q \<Longrightarrow> next_of s' r = (if r = p then n else next_of s r)"
    and pv: "\<And>r. r \<noteq> q \<Longrightarrow> prev_of s' r = (if r = n then p else prev_of s r)"
  shows "links s' e (xs @ ys) e"
proof -
  have pin: "p \<in> set (e # xs)" using p last_in_set by blast
  have nin: "n \<in> set (ys @ [e])" using n by (cases ys) simp_all
  have l1: "links s e xs q" and l2: "links s q ys e" using ring by (simp_all add: links_append)
  have pq: "p \<noteq> q" using pin d by auto
  have nq: "n \<noteq> q" using nin d by auto
  have a: "links s' e xs n"
  proof (rule links_retarget [OF l1])
    show "prev_of s' r = prev_of s r" if "r \<in> set xs" for r
    proof -
      have "r \<noteq> n" "r \<noteq> q" using that nin d by auto
      then show ?thesis by (simp add: pv)
    qed
    show "next_of s' r = next_of s r" if "r \<in> set (e # xs)" "r \<noteq> last (e # xs)" for r
    proof -
      have "r \<noteq> q" using that d by auto
      then show ?thesis using that p by (simp add: nx)
    qed
  qed (use d pq nq p in \<open>auto simp: nx pv\<close>)
  show ?thesis
  proof (cases ys)
    case Nil
    with a n show ?thesis by simp
  next
    case (Cons y zs)
    have "links s' y zs e"
    proof (rule links_frame [THEN iffD2])
      show "links s y zs e" using l2 Cons by simp
      show "next_of s' r = next_of s r" if "r = y \<or> r \<in> set zs" for r
      proof -
        have "r \<noteq> q" "r \<noteq> p" using that d Cons pin by auto
        then show ?thesis by (simp add: nx)
      qed
      show "prev_of s' r = prev_of s r" if "r = e \<or> r \<in> set zs" for r
      proof -
        have "r \<noteq> q" "r \<noteq> n" using that d Cons n by auto
        then show ?thesis by (simp add: pv)
      qed
    qed
    with a n Cons show ?thesis by (simp add: links_append)
  qed
qed

section \<open>What the operations do to the sequence\<close>

text \<open>
  The abstract operations: insertion in front of the walking index, insertion after the last
  item whose value is not greater, and where the index goes when its item is removed.
\<close>

definition ains_end :: "nat \<Rightarrow> nat list \<Rightarrow> nat option \<Rightarrow> nat list" where
  "ains_end i xs ix =
     (case ix of None \<Rightarrow> xs @ [i]
      | Some j \<Rightarrow> takeWhile (\<lambda>x. x \<noteq> j) xs @ i # dropWhile (\<lambda>x. x \<noteq> j) xs)"

definition ains :: "(nat \<Rightarrow> u32) \<Rightarrow> nat \<Rightarrow> nat list \<Rightarrow> nat list" where
  "ains val i xs = takeWhile (\<lambda>x. val x \<le> val i) xs @ i # dropWhile (\<lambda>x. val x \<le> val i) xs"

definition arem_index :: "nat \<Rightarrow> nat list \<Rightarrow> nat option \<Rightarrow> nat option" where
  "arem_index i xs ix =
     (if ix = Some i
      then let ys = takeWhile (\<lambda>x. x \<noteq> i) xs in if ys = [] then None else Some (last ys)
      else ix)"

lemma map_last_End: "last (End l # map Item ys) = (if ys = [] then End l else Item (last ys))"
  by (cases ys rule: rev_cases) simp_all

lemma map_hd_End: "hd (map Item zs @ [End l]) = (if zs = [] then End l else Item (hd zs))"
  by (cases zs) simp_all

lemma end_node_ne:
  "i \<notin> set ys \<Longrightarrow> last (End l # map Item ys) \<noteq> Item i"
  "i \<notin> set ys \<Longrightarrow> hd (map Item ys @ [End l]) \<noteq> Item i"
  by (cases ys rule: rev_cases; simp) (cases ys; auto)

lemma list_rep_ring:
  assumes "list_rep s l (ys @ zs) ix"
  shows "next_of s (last (End l # map Item ys)) = hd (map Item zs @ [End l])"
    and "prev_of s (hd (map Item zs @ [End l])) = last (End l # map Item ys)"
proof -
  from assms have "links s (End l) (map Item ys @ map Item zs) (End l)" by (simp add: list_rep_def)
  from links_ends(1) [OF links_split(2) [OF this]] links_ends(2) [OF links_split(1) [OF this]]
  show "next_of s (last (End l # map Item ys)) = hd (map Item zs @ [End l])"
    "prev_of s (hd (map Item zs @ [End l])) = last (End l # map Item ys)" .
qed

text \<open>The common end of the two insertions.\<close>

lemma list_rep_insert:
  assumes rep: "list_rep s l (ys @ zs) ix" and i: "i \<notin> set (ys @ zs)"
    and p: "p = last (End l # map Item ys)" and n: "n = hd (map Item zs @ [End l])"
    and nx: "\<And>r. next_of s' r = (if r = Item i then n else if r = p then Item i else next_of s r)"
    and pv: "\<And>r. prev_of s' r = (if r = Item i then p else if r = n then Item i else prev_of s r)"
    and val: "\<And>r. xItemValue (nodes s' r) = xItemValue (nodes s r)"
    and con: "\<And>r. pxContainer (nodes s' r) = (if r = Item i then Some l else pxContainer (nodes s r))"
    and hdr: "headers s' l = (headers s l)\<lparr>uxNumberOfItems := uxNumberOfItems (headers s l) + 1\<rparr>"
  shows "list_rep s' l (ys @ i # zs) ix"
proof -
  from rep have ring: "links s (End l) (map Item ys @ map Item zs) (End l)" and d: "distinct (ys @ zs)"
    by (simp_all add: list_rep_def)
  have "links s' (End l) (map Item ys @ Item i # map Item zs) (End l)"
    by (rule links_insert [OF ring _ _ p n nx pv]) (use d i in \<open>auto simp: distinct_map inj_on_def\<close>)
  with rep i show ?thesis by (auto simp: list_rep_def val con hdr)
qed

lemma vListInsertEnd_nodes:
  assumes "pxIndex (headers s l) = n" and "n \<noteq> Item i" and "prev_of s n = p" and "p \<noteq> Item i"
  shows "next_of (vListInsertEnd l i s) r = (if r = Item i then n else if r = p then Item i else next_of s r)"
    "prev_of (vListInsertEnd l i s) r = (if r = Item i then p else if r = n then Item i else prev_of s r)"
    "xItemValue (nodes (vListInsertEnd l i s) r) = xItemValue (nodes s r)"
    "pvOwner (nodes (vListInsertEnd l i s) r) = pvOwner (nodes s r)"
    "pxContainer (nodes (vListInsertEnd l i s) r) = (if r = Item i then Some l else pxContainer (nodes s r))"
    "headers (vListInsertEnd l i s) l = (headers s l)\<lparr>uxNumberOfItems := uxNumberOfItems (headers s l) + 1\<rparr>"
    "k \<noteq> l \<Longrightarrow> headers (vListInsertEnd l i s) k = headers s k"
  using assms by (auto simp: vListInsertEnd_def Let_def)

lemma index_split:
  assumes "list_rep s l xs ix"
  obtains ys zs where "xs = ys @ zs" and "ains_end i xs ix = ys @ i # zs"
    and "pxIndex (headers s l) = hd (map Item zs @ [End l])"
proof (cases ix)
  case None
  with assms that [of xs "[]"] show thesis by (simp add: ains_end_def list_rep_def)
next
  case (Some j)
  with assms have j: "j \<in> set xs" "pxIndex (headers s l) = Item j" by (auto simp: list_rep_def)
  have "dropWhile (\<lambda>x. x \<noteq> j) xs \<noteq> []" using j(1) by (auto simp: dropWhile_eq_Nil_conv)
  moreover from this have "hd (dropWhile (\<lambda>x. x \<noteq> j) xs) = j" using hd_dropWhile [of "\<lambda>x. x \<noteq> j" xs] by simp
  ultimately show thesis
    using j(2) that [of "takeWhile (\<lambda>x. x \<noteq> j) xs" "dropWhile (\<lambda>x. x \<noteq> j) xs"] Some
    by (simp add: ains_end_def map_hd_End)
qed

lemma vListInsertEnd_rep:
  assumes rep: "list_rep s l xs ix" and i: "i \<notin> set xs"
  shows "list_rep (vListInsertEnd l i s) l (ains_end i xs ix) ix"
proof -
  obtain ys zs where xs: "xs = ys @ zs" and a: "ains_end i xs ix = ys @ i # zs"
    and idx: "pxIndex (headers s l) = hd (map Item zs @ [End l])" using index_split [OF rep] .
  have "hd (map Item zs @ [End l]) \<noteq> Item i" "last (End l # map Item ys) \<noteq> Item i"
    using i xs by (simp_all only: set_append Un_iff de_Morgan_disj end_node_ne not_False_eq_True)
  note nd = vListInsertEnd_nodes [OF idx this(1) list_rep_ring(2) [OF rep [unfolded xs]] this(2)]
  show ?thesis
    unfolding a
    by (rule list_rep_insert [OF rep [unfolded xs] i [unfolded xs] refl refl nd(1,2,3,5,6)])
qed

text \<open>The search for the insertion position ends, because the end marker's value is the largest.\<close>

lemma insert_scan_rep:
  assumes "list_rep s l (us @ xs) ix" and "val < portMAX_DELAY"
  shows "insert_scan s val (last (End l # map Item us)) =
    Some (last (End l # map Item (us @ takeWhile (\<lambda>x. item_value s x \<le> val) xs)))"
  using assms(1)
proof (induction xs arbitrary: us)
  case Nil
  from list_rep_ring(1) [OF Nil] have "next_of s (last (End l # map Item us)) = End l" by simp
  moreover have "\<not> xItemValue (nodes s (End l)) \<le> val"
    using Nil assms(2) by (auto simp: list_rep_def)
  ultimately show ?case by (subst insert_scan.simps) simp
next
  case (Cons x xs)
  from list_rep_ring(1) [OF Cons.prems] have n: "next_of s (last (End l # map Item us)) = Item x" by simp
  show ?case
  proof (cases "item_value s x \<le> val")
    case True
    with n Cons.IH [of "us @ [x]"] Cons.prems show ?thesis
      by (subst insert_scan.simps) simp
  next
    case False
    with n show ?thesis by (subst insert_scan.simps) simp
  qed
qed

definition link_in :: "nat \<Rightarrow> nat \<Rightarrow> ptr \<Rightarrow> store \<Rightarrow> store" where
  "link_in l i it s =
     (let s1 = set_next (Item i) (next_of s it) s;
          s2 = set_prev (next_of s1 (Item i)) (Item i) s1;
          s3 = set_prev (Item i) it s2;
          s4 = set_next it (Item i) s3;
          s5 = upd_node (Item i) (pxContainer_update (\<lambda>_. Some l)) s4
      in upd_header l (uxNumberOfItems_update (\<lambda>n. n + 1)) s5)"

lemma vListInsert_eq:
  "vListInsert l i s = map_option (\<lambda>it. link_in l i it s)
     (if item_value s i = portMAX_DELAY then Some (prev_of s (End l))
      else insert_scan s (item_value s i) (End l))"
  unfolding vListInsert_def link_in_def Let_def ..

lemma link_in_nodes:
  assumes "p \<noteq> Item i" and "next_of s p = n" and "n \<noteq> Item i"
  shows "next_of (link_in l i p s) r = (if r = Item i then n else if r = p then Item i else next_of s r)"
    "prev_of (link_in l i p s) r = (if r = Item i then p else if r = n then Item i else prev_of s r)"
    "xItemValue (nodes (link_in l i p s) r) = xItemValue (nodes s r)"
    "pvOwner (nodes (link_in l i p s) r) = pvOwner (nodes s r)"
    "pxContainer (nodes (link_in l i p s) r) = (if r = Item i then Some l else pxContainer (nodes s r))"
    "headers (link_in l i p s) l = (headers s l)\<lparr>uxNumberOfItems := uxNumberOfItems (headers s l) + 1\<rparr>"
    "k \<noteq> l \<Longrightarrow> headers (link_in l i p s) k = headers s k"
  using assms by (auto simp: link_in_def Let_def)

lemma vListInsert_position:
  assumes rep: "list_rep s l xs ix" and i: "i \<notin> set xs"
  defines "ys \<equiv> takeWhile (\<lambda>x. item_value s x \<le> item_value s i) xs"
  shows "vListInsert l i s = Some (link_in l i (last (End l # map Item ys)) s)"
proof (cases "item_value s i = portMAX_DELAY")
  case True
  have "(v :: u32) \<le> portMAX_DELAY" for v
    using unat_u32_less [of v] by (simp add: word_le_nat_alt)
  with True have "ys = xs" by (simp add: ys_def)
  with True list_rep_ring(2) [of s l xs "[]" ix] rep show ?thesis by (simp add: vListInsert_eq)
next
  case False
  have "item_value s i \<le> portMAX_DELAY"
    using unat_u32_less [of "item_value s i"] by (simp add: word_le_nat_alt)
  with False have "item_value s i < portMAX_DELAY" by simp
  from insert_scan_rep [of s l "[]" xs ix, OF _ this] rep False show ?thesis
    by (simp add: vListInsert_eq ys_def)
qed

lemma vListInsert_rep:
  assumes rep: "list_rep s l xs ix" and i: "i \<notin> set xs"
  shows "\<exists>s'. vListInsert l i s = Some s' \<and> list_rep s' l (ains (item_value s) i xs) ix \<and>
    (\<forall>r. xItemValue (nodes s' r) = xItemValue (nodes s r) \<and> pvOwner (nodes s' r) = pvOwner (nodes s r))"
proof -
  let ?ys = "takeWhile (\<lambda>x. item_value s x \<le> item_value s i) xs"
  let ?zs = "dropWhile (\<lambda>x. item_value s x \<le> item_value s i) xs"
  let ?p = "last (End l # map Item ?ys)" and ?n = "hd (map Item ?zs @ [End l])"
  have rep': "list_rep s l (?ys @ ?zs) ix" and i': "i \<notin> set (?ys @ ?zs)" using rep i by simp_all
  have iy: "i \<notin> set ?ys" and iz: "i \<notin> set ?zs"
    using i by (auto dest: set_takeWhileD set_dropWhileD)
  have nd: "?p \<noteq> Item i" "next_of s ?p = ?n" "?n \<noteq> Item i"
    using list_rep_ring(1) [OF rep'] end_node_ne(1) [OF iy] end_node_ne(2) [OF iz] by blast+
  note nd' = link_in_nodes [OF nd]
  have "list_rep (link_in l i ?p s) l (?ys @ i # ?zs) ix"
    by (rule list_rep_insert [OF rep' i' refl refl nd'(1,2,3,5,6)])
  then show ?thesis
    using vListInsert_position [OF rep i] nd'(3,4) by (simp add: ains_def)
qed

section \<open>Removal\<close>

definition link_out :: "ptr \<Rightarrow> ptr \<Rightarrow> nat \<Rightarrow> nat \<Rightarrow> store \<Rightarrow> store" where
  "link_out p n l i s =
     (let s2 = set_next p n (set_prev n p s);
          s3 = (if pxIndex (headers s2 l) = Item i then upd_header l (pxIndex_update (\<lambda>_. p)) s2 else s2)
      in upd_header l (uxNumberOfItems_update (\<lambda>n. n - 1))
           (upd_node (Item i) (pxContainer_update (\<lambda>_. None)) s3))"

lemma link_out_nodes:
  "r \<noteq> Item i \<Longrightarrow> next_of (link_out p n l i s) r = (if r = p then n else next_of s r)"
  "r \<noteq> Item i \<Longrightarrow> prev_of (link_out p n l i s) r = (if r = n then p else prev_of s r)"
  "xItemValue (nodes (link_out p n l i s) r) = xItemValue (nodes s r)"
  "pvOwner (nodes (link_out p n l i s) r) = pvOwner (nodes s r)"
  "pxContainer (nodes (link_out p n l i s) r) = (if r = Item i then None else pxContainer (nodes s r))"
  "uxNumberOfItems (headers (link_out p n l i s) l) = uxNumberOfItems (headers s l) - 1"
  "pxIndex (headers (link_out p n l i s) l) =
     (if pxIndex (headers s l) = Item i then p else pxIndex (headers s l))"
  "k \<noteq> l \<Longrightarrow> headers (link_out p n l i s) k = headers s k"
  by (simp_all add: link_out_def Let_def)

lemma uxListRemove_eq:
  assumes "pxContainer (nodes s (Item i)) = Some l" and "prev_of s (Item i) = p" and "next_of s (Item i) = n"
    and "p \<noteq> Item i" and "n \<noteq> Item i"
  shows "uxListRemove i s = Some (uxNumberOfItems (headers s l) - 1, link_out p n l i s)"
  using assms by (simp add: uxListRemove_def link_out_def Let_def)

lemma uxListRemove_rep:
  assumes rep: "list_rep s l xs ix" and i: "i \<in> set xs" and len: "length xs < 4294967296"
  shows "\<exists>s'. uxListRemove i s = Some (of_nat (length xs - 1), s') \<and>
    list_rep s' l (remove1 i xs) (arem_index i xs ix) \<and> pxContainer (nodes s' (Item i)) = None \<and>
    (\<forall>r. xItemValue (nodes s' r) = xItemValue (nodes s r) \<and> pvOwner (nodes s' r) = pvOwner (nodes s r))"
proof -
  from i obtain ys zs where xs: "xs = ys @ i # zs" and iys: "i \<notin> set ys" by (blast dest: split_list_first)
  let ?p = "last (End l # map Item ys)" and ?n = "hd (map Item zs @ [End l])"
  from rep have ring: "links s (End l) (map Item ys @ Item i # map Item zs) (End l)"
    and d: "distinct (ys @ i # zs)" and con: "\<forall>j\<in>set xs. pxContainer (nodes s (Item j)) = Some l"
    by (simp_all add: list_rep_def xs)
  have p: "prev_of s (Item i) = ?p"
    using list_rep_ring(2) [of s l ys "i # zs" ix] rep by (simp add: xs)
  have n: "next_of s (Item i) = ?n"
    using list_rep_ring(1) [of s l "ys @ [i]" zs ix] rep by (simp add: xs)
  have "i \<notin> set zs" using d by simp
  note ne = end_node_ne(1) [OF iys, of l] end_node_ne(2) [OF this, of l]
  have ci: "pxContainer (nodes s (Item i)) = Some l" using con xs by simp
  define s' where "s' = link_out ?p ?n l i s"
  have r: "uxListRemove i s = Some (uxNumberOfItems (headers s l) - 1, s')"
    unfolding s'_def by (rule uxListRemove_eq [OF ci p n ne])
  note lo = link_out_nodes [where i = i and p = ?p and n = ?n and l = l and s = s, folded s'_def]
  note nx = lo(1) and pv = lo(2) and val = lo(3) and own = lo(4) and con' = lo(5)
  have hd: "uxNumberOfItems (headers s' l) = uxNumberOfItems (headers s l) - 1"
    "pxIndex (headers s' l) = (if pxIndex (headers s l) = Item i then ?p else pxIndex (headers s l))"
    unfolding s'_def by (rule link_out_nodes)+
  have l': "links s' (End l) (map Item ys @ map Item zs) (End l)"
    by (rule links_remove [OF ring _ refl refl nx pv]) (use d in \<open>auto simp: distinct_map inj_on_def\<close>)
  have num: "uxNumberOfItems (headers s l) - 1 = of_nat (length xs - 1)"
    using rep by (simp add: list_rep_def xs)
  have rm: "remove1 i xs = ys @ zs" using iys by (simp add: xs remove1_append)
  have tw: "takeWhile (\<lambda>x. x \<noteq> i) xs = ys" using iys by (simp add: xs takeWhile_append)
  have ix: "pxIndex (headers s' l) = (case arem_index i xs ix of None \<Rightarrow> End l | Some j \<Rightarrow> Item j)"
  proof (cases "ix = Some i")
    case True
    with rep have "pxIndex (headers s l) = Item i" by (simp add: list_rep_def)
    with True hd tw show ?thesis by (simp add: arem_index_def Let_def map_last_End last_map)
  next
    case False
    with rep have "pxIndex (headers s l) \<noteq> Item i" by (auto simp: list_rep_def split: option.splits)
    with False rep hd show ?thesis by (simp add: arem_index_def list_rep_def)
  qed
  have mem: "j \<in> set (ys @ zs)" if "arem_index i xs ix = Some j" for j
  proof (cases "ix = Some i")
    case True
    with that tw have "ys \<noteq> []" "j = last ys" by (auto simp: arem_index_def Let_def split: if_splits)
    then show ?thesis by simp
  next
    case False
    with that rep show ?thesis by (auto simp: arem_index_def list_rep_def xs)
  qed
  have "list_rep s' l (ys @ zs) (arem_index i xs ix)"
    unfolding list_rep_def
  proof (intro conjI)
    show "links s' (End l) (map Item (ys @ zs)) (End l)" using l' by simp
    show "\<forall>j\<in>set (ys @ zs). pxContainer (nodes s' (Item j)) = Some l"
      using con con' d by (auto simp: xs)
    show "uxNumberOfItems (headers s' l) = of_nat (length (ys @ zs))"
      using hd num by (simp add: xs)
  qed (use d val rep ix mem in \<open>auto simp: list_rep_def\<close>)
  with r num rm val own con' show ?thesis by auto
qed

section \<open>The walking index\<close>

text \<open>The sequence of items as the index will visit them next.\<close>

definition next_items :: "nat list \<Rightarrow> nat option \<Rightarrow> nat list" where
  "next_items xs ix =
     (case ix of None \<Rightarrow> xs
      | Some j \<Rightarrow> tl (dropWhile (\<lambda>x. x \<noteq> j) xs) @ takeWhile (\<lambda>x. x \<noteq> j) xs @ [j])"

lemma next_items_split:
  assumes "ix = Some j" and "j \<in> set xs" and "distinct xs"
  obtains ys zs where "xs = ys @ j # zs" and "next_items xs ix = zs @ ys @ [j]" and "j \<notin> set ys" "j \<notin> set zs"
proof -
  from assms(2) obtain ys zs where xs: "xs = ys @ j # zs" and j: "j \<notin> set ys"
    by (blast dest: split_list_first)
  have "takeWhile (\<lambda>x. x \<noteq> j) xs = ys" "dropWhile (\<lambda>x. x \<noteq> j) xs = j # zs"
    using j by (auto simp: xs takeWhile_append dropWhile_append)
  with assms xs j that [of ys zs] show thesis by (simp add: next_items_def)
qed

lemma set_next_items:
  assumes "list_rep s l xs ix"
  shows "mset (next_items xs ix) = mset xs"
proof (cases ix)
  case (Some j)
  with assms have "j \<in> set xs" "distinct xs" by (auto simp: list_rep_def)
  then show ?thesis by (rule next_items_split [OF Some]) simp
qed (simp add: next_items_def)

text \<open>One step of the walk: the next item in turn, never the end marker.\<close>

lemma listGET_OWNER_OF_NEXT_ENTRY_rep:
  assumes rep: "list_rep s l xs ix" and ne: "xs \<noteq> []"
  defines "j \<equiv> hd (next_items xs ix)"
  shows "\<exists>s'. listGET_OWNER_OF_NEXT_ENTRY l s = (pvOwner (nodes s (Item j)), s') \<and>
    list_rep s' l xs (Some j) \<and> nodes s' = nodes s \<and> next_items xs (Some j) = rotate1 (next_items xs ix)"
proof -
  from rep have d: "distinct xs" by (simp add: list_rep_def)
  define s' where "s' = upd_header l (pxIndex_update (\<lambda>_. Item j)) s"
  have jin: "j \<in> set xs"
  proof -
    have "next_items xs ix \<noteq> []"
      using set_next_items [OF rep] ne by auto
    then have "j \<in> set (next_items xs ix)" by (simp add: j_def)
    then show ?thesis using set_next_items [OF rep] by (metis set_mset_mset)
  qed
  have step: "(let idx = next_of s (pxIndex (headers s l))
      in if idx = End l then next_of s (End l) else idx) = Item j \<and>
    next_items xs (Some j) = rotate1 (next_items xs ix)"
  proof (cases ix)
    case None
    then have "j = hd xs" by (simp add: j_def next_items_def)
    then obtain zs where xs: "xs = j # zs" using ne by (cases xs) auto
    have "next_of s (End l) = Item j" using list_rep_ring(1) [of s l "[]" xs ix] rep xs by simp
    moreover have "pxIndex (headers s l) = End l" using rep None by (simp add: list_rep_def)
    ultimately show ?thesis using None xs by (simp add: next_items_def)
  next
    case (Some k)
    with rep have k: "k \<in> set xs" "pxIndex (headers s l) = Item k" by (auto simp: list_rep_def)
    obtain ys zs where xs: "xs = ys @ k # zs" and nxt: "next_items xs ix = zs @ ys @ [k]"
      and kn: "k \<notin> set ys" "k \<notin> set zs" using next_items_split [OF Some k(1) d] .
    have n: "next_of s (Item k) = hd (map Item zs @ [End l])"
      using list_rep_ring(1) [of s l "ys @ [k]" zs ix] rep by (simp add: xs)
    have first: "next_of s (End l) = Item (hd xs)"
      using list_rep_ring(1) [of s l "[]" xs ix] rep ne by (cases xs) simp_all
    have jh: "j = hd (zs @ ys @ [k])" by (simp only: j_def nxt)
    show ?thesis
    proof (cases zs)
      case Nil
      with jh have hd: "j = hd xs" by (simp add: xs hd_append)
      have "next_items xs (Some j) = rotate1 (next_items xs ix)"
      proof (cases ys)
        case Nil
        with \<open>zs = []\<close> hd xs nxt show ?thesis by (simp add: next_items_def)
      next
        case (Cons y ys')
        with \<open>zs = []\<close> hd xs nxt d show ?thesis by (simp add: next_items_def)
      qed
      with Nil n first k hd show ?thesis by simp
    next
      case (Cons z zs')
      with jh have j: "j = z" by simp
      from d Cons have "z \<notin> set (ys @ [k])" "z \<notin> set zs'" by (auto simp: xs)
      then have "takeWhile (\<lambda>x. x \<noteq> z) xs = ys @ [k]" "dropWhile (\<lambda>x. x \<noteq> z) xs = z # zs'"
        by (auto simp: xs Cons takeWhile_append dropWhile_append)
      with j nxt Cons have "next_items xs (Some j) = rotate1 (next_items xs ix)"
        by (simp add: next_items_def)
      with j n k Cons show ?thesis by simp
    qed
  qed
  then have "listGET_OWNER_OF_NEXT_ENTRY l s = (pvOwner (nodes s (Item j)), s')"
    by (simp add: listGET_OWNER_OF_NEXT_ENTRY_def s'_def Let_def)
  moreover have "list_rep s' l xs (Some j)"
  proof -
    have "links s' (End l) (map Item xs) (End l) \<longleftrightarrow> links s (End l) (map Item xs) (End l)"
      by (rule links_frame) (simp_all add: s'_def)
    with rep jin show ?thesis by (simp add: list_rep_def s'_def)
  qed
  ultimately show ?thesis using step by (simp add: s'_def)
qed

text \<open>The owners of \<open>n\<close> walks in a row.\<close>

fun walk :: "nat \<Rightarrow> nat \<Rightarrow> store \<Rightarrow> nat list \<times> store" where
  "walk l 0 s = ([], s)"
| "walk l (Suc n) s =
     (let (ow, s1) = listGET_OWNER_OF_NEXT_ENTRY l s; (ows, s2) = walk l n s1 in (ow # ows, s2))"

lemma walk_rep:
  assumes "list_rep s l xs ix" and "n \<le> length xs"
  shows "fst (walk l n s) = map (\<lambda>i. pvOwner (nodes s (Item i))) (take n (next_items xs ix))"
proof -
  have "fst (walk l n s) = map (\<lambda>i. pvOwner (nodes s (Item i))) (take n (q @ r))"
    if "list_rep s l xs ix" "next_items xs ix = q @ r" "n \<le> length q" for s ix q r
    using that
  proof (induction n arbitrary: s ix q r)
    case (Suc n)
    then obtain i q' where q: "q = i # q'" by (cases q) auto
    have len: "length (next_items xs ix) = length xs"
      using set_next_items [OF Suc.prems(1)] by (metis size_mset)
    then have "xs \<noteq> []" using Suc.prems(2) q by auto
    from listGET_OWNER_OF_NEXT_ENTRY_rep [OF Suc.prems(1) this] q Suc.prems(2) obtain s' where
      g: "listGET_OWNER_OF_NEXT_ENTRY l s = (pvOwner (nodes s (Item i)), s')"
      and rep': "list_rep s' l xs (Some i)" and n': "nodes s' = nodes s"
      and rot: "next_items xs (Some i) = q' @ r @ [i]" by auto
    from Suc.IH [OF rep' rot] Suc.prems(3) q n' g show ?case
      by (simp add: case_prod_unfold Let_def)
  qed simp
  from this [OF assms(1), of "next_items xs ix" "[]"] assms set_next_items [OF assms(1)]
  show ?thesis by (metis append_Nil2 size_mset)
qed

section \<open>Order\<close>

lemma ains_sorted:
  assumes "sorted (map val xs)"
  shows "sorted (map val (ains val i xs))"
proof -
  define ys zs where "ys = takeWhile (\<lambda>x. val x \<le> val i) xs" and "zs = dropWhile (\<lambda>x. val x \<le> val i) xs"
  have s: "sorted (map val ys @ map val zs)" using assms by (simp add: ys_def zs_def flip: map_append)
  have lo: "\<forall>y\<in>set ys. val y \<le> val i" by (auto simp: ys_def dest: set_takeWhileD)
  have hi: "val i \<le> val z" if "z \<in> set zs" for z
  proof (cases zs)
    case (Cons h t)
    then have "\<not> val h \<le> val i" using hd_dropWhile [of "\<lambda>x. val x \<le> val i" xs] by (simp add: zs_def)
    moreover have "val h \<le> val z" using s Cons that by (auto simp: sorted_append)
    ultimately show ?thesis by simp
  qed (use that in simp)
  have "sorted (map val ys @ val i # map val zs)"
    using s lo hi by (auto simp: sorted_append)
  then show ?thesis by (simp add: ains_def ys_def zs_def)
qed

lemma ains_perm: "mset (ains val i xs) = add_mset i (mset xs)"
  unfolding ains_def by (metis mset_append mset.simps(2) takeWhile_dropWhile_id union_mset_add_mset_right)

text \<open>Items of equal value keep their order: the new one goes behind them.\<close>

lemma ains_stable:
  assumes "sorted (map val xs)"
  shows "filter (\<lambda>x. val x = val i) (ains val i xs) = filter (\<lambda>x. val x = val i) xs @ [i]"
proof -
  define ys zs where "ys = takeWhile (\<lambda>x. val x \<le> val i) xs" and "zs = dropWhile (\<lambda>x. val x \<le> val i) xs"
  have xs: "xs = ys @ zs" by (simp add: ys_def zs_def)
  have hi: "val z \<noteq> val i" if "z \<in> set zs" for z
  proof (cases zs)
    case (Cons h t)
    then have "\<not> val h \<le> val i" using hd_dropWhile [of "\<lambda>x. val x \<le> val i" xs] by (simp add: zs_def)
    moreover have "val h \<le> val z" using assms Cons that by (auto simp: xs sorted_append)
    ultimately show ?thesis by auto
  qed (use that in simp)
  then have "filter (\<lambda>x. val x = val i) zs = []" by (simp add: filter_empty_conv)
  moreover have "ains val i xs = ys @ i # zs" by (simp add: ains_def ys_def zs_def)
  ultimately show ?thesis by (simp add: xs)
qed

end
