(* ===== verification/Rtos_List_Props.thy ===== *)
theory Rtos_List_Props
  imports Rtos_List
begin

text \<open>
  The properties of the kernel's lists: sorted insertion, removal, and the round-robin walk of the
  ready lists. A list of three items is the concrete instance of the witnesses.
\<close>

section \<open>A concrete list\<close>

definition demo_store :: store where
  "demo_store = vListInsertEnd 0 2 (vListInsertEnd 0 1 (vListInitialise 0
     \<lparr>nodes = (\<lambda>p. \<lparr>xItemValue = (case p of Item i \<Rightarrow> of_nat (10 * i) | End _ \<Rightarrow> 0), pxNext = p,
        pxPrevious = p, pvOwner = (case p of Item i \<Rightarrow> i | End _ \<Rightarrow> 0), pxContainer = None\<rparr>),
      headers = (\<lambda>_. \<lparr>uxNumberOfItems = 0, pxIndex = End 0\<rparr>)\<rparr>))"

lemma demo_store_rep: "list_rep demo_store 0 [1, 2] None"
proof -
  let ?s = "vListInitialise 0
     \<lparr>nodes = (\<lambda>p. \<lparr>xItemValue = (case p of Item i \<Rightarrow> of_nat (10 * i) | End _ \<Rightarrow> 0), pxNext = p,
        pxPrevious = p, pvOwner = (case p of Item i \<Rightarrow> i | End _ \<Rightarrow> 0), pxContainer = None\<rparr>),
      headers = (\<lambda>_. \<lparr>uxNumberOfItems = 0, pxIndex = End 0\<rparr>)\<rparr>"
  have "list_rep (vListInsertEnd 0 1 ?s) 0 [1] None"
    using vListInsertEnd_rep [OF vListInitialise_rep, of 1 0] by (simp add: ains_end_def)
  from vListInsertEnd_rep [OF this, of 2] show ?thesis by (simp add: ains_end_def demo_store_def)
qed

lemma demo_store_values: "item_value demo_store i = of_nat (10 * i)"
  by (simp add: demo_store_def vListInsertEnd_def vListInitialise_def Let_def)

section \<open>Properties\<close>

text \<open>
  C36: Sorted insertion. \<open>vListInsert\<close> ends for every item value, the maximal one included, and on a
  sorted list it yields the sorted list with exactly the new item added; items of equal value
  stay in the order in which they were inserted, so equal-priority waiters and equal wake
  times are served first come, first served.
\<close>

theorem list_insert_sorted_stable:
  assumes "list_rep s l xs ix" and "i \<notin> set xs" and "sorted (map (item_value s) xs)"
  shows "\<exists>s' ys. vListInsert l i s = Some s' \<and> list_rep s' l ys ix \<and> sorted (map (item_value s') ys) \<and>
    mset ys = add_mset i (mset xs) \<and>
    filter (\<lambda>x. item_value s' x = item_value s' i) ys = filter (\<lambda>x. item_value s x = item_value s i) xs @ [i]"
proof -
  from vListInsert_rep [OF assms(1,2)] obtain s' where
    s': "vListInsert l i s = Some s'" "list_rep s' l (ains (item_value s) i xs) ix"
      "item_value s' = item_value s" by auto
  have "item_value s' x = item_value s x" for x by (simp add: s'(3) [THEN fun_cong])
  with s'(1,2) ains_sorted [OF assms(3), of i] ains_perm [of "item_value s" i xs] ains_stable [OF assms(3), of i]
  show ?thesis by (intro exI [of _ s'] exI [of _ "ains (item_value s) i xs"]) simp
qed

lemma list_insert_sorted_stable_witness:
  "\<exists>s' ys. vListInsert 0 0 demo_store = Some s' \<and> list_rep s' 0 ys None \<and> mset ys = {#0, 1, 2#}"
  using list_insert_sorted_stable [OF demo_store_rep, of 0]
  by (auto simp: demo_store_values)

text \<open>
  Removal undoes insertion. Taking an item out of the list it has just been inserted into gives
  back the list as it was, walking position included, together with its length, and the item is in no list.
\<close>

theorem list_remove_insert:
  assumes "list_rep s l xs ix" and "i \<notin> set xs" and "length xs < 2 ^ 32 - 1"
    and "vListInsert l i s = Some s1"
  shows "\<exists>s2. uxListRemove i s1 = Some (of_nat (length xs), s2) \<and> list_rep s2 l xs ix \<and>
    \<not> listIS_CONTAINED_WITHIN l i s2"
proof -
  let ?ys = "ains (item_value s) i xs"
  from vListInsert_rep [OF assms(1,2)] assms(4) have r: "list_rep s1 l ?ys ix" by simp
  have p: "mset ?ys = add_mset i (mset xs)" by (rule ains_perm)
  then have len: "length ?ys = Suc (length xs)" by (metis size_mset size_add_mset)
  have i: "i \<in> set ?ys" by (simp add: ains_def)
  have rm: "remove1 i ?ys = xs"
    using assms(2) by (auto simp: ains_def remove1_append dest: set_takeWhileD)
  have ix: "arem_index i ?ys ix = ix"
    using assms(1,2) by (auto simp: arem_index_def list_rep_def split: option.splits)
  from uxListRemove_rep [OF r i] len assms(3) rm ix show ?thesis
    by (auto simp: listIS_CONTAINED_WITHIN_def)
qed

lemma list_remove_insert_witness:
  "\<exists>s1 s2. vListInsert 0 0 demo_store = Some s1 \<and> uxListRemove 0 s1 = Some (2, s2) \<and> list_rep s2 0 [1, 2] None"
proof -
  from vListInsert_rep [OF demo_store_rep, of 0] obtain s1 where "vListInsert 0 0 demo_store = Some s1" by auto
  with list_remove_insert [OF demo_store_rep _ _ this] show ?thesis by auto
qed

text \<open>
  Round robin. Successive uses of \<open>listGET_OWNER_OF_NEXT_ENTRY\<close> serve every item of a list exactly
  once before any is served again. An item added with \<open>vListInsertEnd\<close> is served behind all
  the items that were there, except the one that is being served at that moment.
\<close>

theorem list_round_robin:
  assumes "list_rep s l xs ix" and "i \<notin> set xs"
  shows "\<exists>ys. mset ys = mset xs \<and> (\<forall>j. ix = Some j \<longrightarrow> last ys = j) \<and>
    fst (walk l (length xs) s) = map (\<lambda>j. pvOwner (nodes s (Item j))) ys \<and>
    fst (walk l (Suc (length xs)) (vListInsertEnd l i s)) = map (\<lambda>j. pvOwner (nodes s (Item j)))
      (if ix = None then ys @ [i] else butlast ys @ [i, last ys])"
proof -
  let ?s' = "vListInsertEnd l i s" and ?ys = "next_items xs ix"
  have rep': "list_rep ?s' l (ains_end i xs ix) ix" by (rule vListInsertEnd_rep [OF assms])
  have m: "mset ?ys = mset xs" by (rule set_next_items [OF assms(1)])
  then have len: "length ?ys = length xs" by (metis size_mset)
  have own: "pvOwner (nodes ?s' r) = pvOwner (nodes s r)" for r
    by (simp add: vListInsertEnd_def Let_def)
  have nx: "next_items (ains_end i xs ix) ix = (if ix = None then ?ys @ [i] else butlast ?ys @ [i, last ?ys]) \<and>
      (\<forall>j. ix = Some j \<longrightarrow> last ?ys = j)"
  proof (cases ix)
    case None
    then show ?thesis by (simp add: next_items_def ains_end_def)
  next
    case (Some j)
    with assms(1) have "j \<in> set xs" "distinct xs" by (auto simp: list_rep_def)
    then obtain A B where AB: "xs = A @ j # B" "?ys = B @ A @ [j]" "j \<notin> set A" "j \<notin> set B"
      by (rule next_items_split [OF Some])
    have tw: "takeWhile (\<lambda>x. x \<noteq> j) (A @ j # B) = A" "dropWhile (\<lambda>x. x \<noteq> j) (A @ j # B) = j # B"
      using AB(3) by (auto simp: takeWhile_append dropWhile_append)
    have "i \<noteq> j" using assms(2) AB(1) by auto
    then have "takeWhile (\<lambda>x. x \<noteq> j) (A @ i # j # B) = A @ [i]" "dropWhile (\<lambda>x. x \<noteq> j) (A @ i # j # B) = j # B"
      using AB(3) by (auto simp: takeWhile_append dropWhile_append)
    with AB(2) show ?thesis by (simp add: ains_end_def Some next_items_def AB(1) tw butlast_append)
  qed
  moreover have "ix \<noteq> None \<Longrightarrow> xs \<noteq> []" using assms(1) by (auto simp: list_rep_def)
  ultimately have len': "length (next_items (ains_end i xs ix) ix) = Suc (length xs)"
    using len by (cases ?ys rule: rev_cases) (auto split: if_splits)
  have "length (ains_end i xs ix) = Suc (length xs)"
    using set_next_items [OF rep'] len' by (metis size_mset)
  then have "fst (walk l (Suc (length xs)) ?s') = map (\<lambda>j. pvOwner (nodes s (Item j))) (next_items (ains_end i xs ix) ix)"
    using walk_rep [OF rep', of "Suc (length xs)"] len' by (simp add: own)
  moreover have "fst (walk l (length xs) s) = map (\<lambda>j. pvOwner (nodes s (Item j))) ?ys"
    using walk_rep [OF assms(1), of "length xs"] len by simp
  ultimately show ?thesis using m nx by (intro exI [of _ ?ys]) (simp del: walk.simps)
qed

lemma list_round_robin_witness:
  "\<exists>ys. mset ys = {#1, 2#} \<and> fst (walk 0 3 (vListInsertEnd 0 0 demo_store)) = map (\<lambda>j. j) (ys @ [0])"
proof -
  have own: "pvOwner (nodes demo_store (Item j)) = j" for j
    by (simp add: demo_store_def vListInsertEnd_def vListInitialise_def Let_def)
  from list_round_robin [OF demo_store_rep, of 0] show ?thesis
    by (auto simp: own numeral_3_eq_3 simp del: walk.simps)
qed

end
