(* ===== verification/Rtos_Heap.thy ===== *)
theory Rtos_Heap
  imports Melon_Prelude
begin

text \<open>
  The RTOS heap, \<open>ddr_app/rtos/FreeRTOS/portable/MemMang/heap_4.c\<close>: first fit with splitting,
  freeing with coalescing, statistics. A block header is a record found at its address, the
  pointers are 32-bit words with NULL as 0, and where the linker puts \<open>xStart\<close> and \<open>ucHeap\<close>
  is the argument \<open>L\<close>. A failed \<open>configASSERT\<close> spins, and so does the application's
  \<open>vApplicationMallocFailedHook\<close> (\<open>freertos_hooks.c\<close>): both are \<open>None\<close>. The configuration is
  the repository's (no heap protector, no clearing on free, 16-byte alignment of the RISC-V
  port, 1 MiB). Suspending the scheduler does not touch this state.
\<close>

section \<open>State\<close>

record block_link =
  pxNextFreeBlock :: u32
  xBlockSize :: u32

record heap =
  blk :: "u32 \<Rightarrow> block_link"
  pxEnd :: u32
  xFreeBytesRemaining :: u32
  xMinimumEverFreeBytesRemaining :: u32
  xNumberOfSuccessfulAllocations :: u32
  xNumberOfSuccessfulFrees :: u32

record layout =
  xStart :: u32
  ucHeap :: u32

abbreviation configTOTAL_HEAP_SIZE :: u32 where "configTOTAL_HEAP_SIZE \<equiv> 0x100000"
abbreviation portBYTE_ALIGNMENT :: u32 where "portBYTE_ALIGNMENT \<equiv> 16"
abbreviation portBYTE_ALIGNMENT_MASK :: u32 where "portBYTE_ALIGNMENT_MASK \<equiv> 15"

text \<open>\<open>(sizeof(BlockLink_t) + 15) & ~15\<close> and twice that.\<close>

abbreviation xHeapStructSize :: u32 where "xHeapStructSize \<equiv> 16"
abbreviation heapMINIMUM_BLOCK_SIZE :: u32 where "heapMINIMUM_BLOCK_SIZE \<equiv> 32"

definition heapMULTIPLY_WILL_OVERFLOW :: "u32 \<Rightarrow> u32 \<Rightarrow> bool" where
  "heapMULTIPLY_WILL_OVERFLOW a b \<longleftrightarrow> 0 < a \<and> 0xFFFFFFFF div a < b"

definition heapADD_WILL_OVERFLOW :: "u32 \<Rightarrow> u32 \<Rightarrow> bool" where
  "heapADD_WILL_OVERFLOW a b \<longleftrightarrow> 0xFFFFFFFF - b < a"

definition heapBLOCK_SIZE_IS_VALID :: "u32 \<Rightarrow> bool" where
  "heapBLOCK_SIZE_IS_VALID n \<longleftrightarrow> n AND 0x80000000 = 0"

definition heapBLOCK_IS_ALLOCATED :: "block_link \<Rightarrow> bool" where
  "heapBLOCK_IS_ALLOCATED p \<longleftrightarrow> xBlockSize p AND 0x80000000 \<noteq> 0"

definition heapALLOCATE_BLOCK :: "block_link \<Rightarrow> block_link" where
  "heapALLOCATE_BLOCK p = p\<lparr>xBlockSize := xBlockSize p OR 0x80000000\<rparr>"

definition heapFREE_BLOCK :: "block_link \<Rightarrow> block_link" where
  "heapFREE_BLOCK p = p\<lparr>xBlockSize := xBlockSize p AND NOT 0x80000000\<rparr>"

definition heapVALIDATE_BLOCK_POINTER :: "layout \<Rightarrow> u32 \<Rightarrow> bool" where
  "heapVALIDATE_BLOCK_POINTER L p \<longleftrightarrow> ucHeap L \<le> p \<and> p \<le> ucHeap L + (configTOTAL_HEAP_SIZE - 1)"

definition upd_blk :: "u32 \<Rightarrow> (block_link \<Rightarrow> block_link) \<Rightarrow> heap \<Rightarrow> heap" where
  "upd_blk p f h = h\<lparr>blk := (blk h)(p := f (blk h p))\<rparr>"

abbreviation next_free :: "heap \<Rightarrow> u32 \<Rightarrow> u32" where "next_free h p \<equiv> pxNextFreeBlock (blk h p)"
abbreviation size_at :: "heap \<Rightarrow> u32 \<Rightarrow> u32" where "size_at h p \<equiv> xBlockSize (blk h p)"

abbreviation set_next_free :: "u32 \<Rightarrow> u32 \<Rightarrow> heap \<Rightarrow> heap" where
  "set_next_free p q \<equiv> upd_blk p (pxNextFreeBlock_update (\<lambda>_. q))"

abbreviation set_block_size :: "u32 \<Rightarrow> u32 \<Rightarrow> heap \<Rightarrow> heap" where
  "set_block_size p n \<equiv> upd_blk p (xBlockSize_update (\<lambda>_. n))"

section \<open>Initialisation\<close>

definition prvHeapInit :: "layout \<Rightarrow> heap \<Rightarrow> heap" where
  "prvHeapInit L h =
     (let misaligned = ucHeap L AND portBYTE_ALIGNMENT_MASK \<noteq> 0;
          start = (if misaligned
                   then (ucHeap L + (portBYTE_ALIGNMENT - 1)) AND NOT portBYTE_ALIGNMENT_MASK
                   else ucHeap L);
          total = (if misaligned then configTOTAL_HEAP_SIZE - (start - ucHeap L)
                   else configTOTAL_HEAP_SIZE);
          h1 = set_block_size (xStart L) 0 (set_next_free (xStart L) start h);
          e = (start + total - xHeapStructSize) AND NOT portBYTE_ALIGNMENT_MASK;
          h2 = set_next_free e 0 (set_block_size e 0 (h1\<lparr>pxEnd := e\<rparr>));
          h3 = set_next_free start e (set_block_size start (e - start) h2)
      in h3\<lparr>xMinimumEverFreeBytesRemaining := size_at h3 start,
            xFreeBytesRemaining := size_at h3 start\<rparr>)"

section \<open>Allocation\<close>

text \<open>The size with header and alignment, 0 when that does not fit 32 bits.\<close>

definition required_size :: "u32 \<Rightarrow> u32" where
  "required_size w =
     (if 0 < w then
        if \<not> heapADD_WILL_OVERFLOW w xHeapStructSize then
          let w1 = w + xHeapStructSize in
          if w1 AND portBYTE_ALIGNMENT_MASK \<noteq> 0 then
            let a = portBYTE_ALIGNMENT - (w1 AND portBYTE_ALIGNMENT_MASK) in
            if \<not> heapADD_WILL_OVERFLOW w1 a then w1 + a else 0
          else w1
        else 0
      else w)"

text \<open>The search: the previous block and the block it stops at.\<close>

partial_function (option) find_block :: "layout \<Rightarrow> u32 \<Rightarrow> heap \<Rightarrow> u32 \<Rightarrow> u32 \<Rightarrow> (u32 \<times> u32) option" where
  "find_block L w h prev p =
     (if size_at h p < w \<and> next_free h p \<noteq> 0 then
        if heapVALIDATE_BLOCK_POINTER L (next_free h p) then find_block L w h p (next_free h p)
        else None
      else Some (prev, p))"

text \<open>Taking the block out of the list, splitting it, and the accounting.\<close>

definition split_block :: "u32 \<Rightarrow> u32 \<Rightarrow> u32 \<Rightarrow> heap \<Rightarrow> heap option" where
  "split_block w prev p h =
     (if heapMINIMUM_BLOCK_SIZE < size_at h p - w then
        let new = p + w in
        if new AND portBYTE_ALIGNMENT_MASK = 0 then
          let h1 = set_block_size new (size_at h p - w) h;
              h2 = set_block_size p w h1;
              h3 = set_next_free new (next_free h2 prev) h2
          in Some (set_next_free prev new h3)
        else None
      else Some h)"

definition account_block :: "u32 \<Rightarrow> heap \<Rightarrow> heap" where
  "account_block p h =
     (let left = xFreeBytesRemaining h - size_at h p;
          h1 = h\<lparr>xFreeBytesRemaining := left,
                 xMinimumEverFreeBytesRemaining :=
                   (if left < xMinimumEverFreeBytesRemaining h then left
                    else xMinimumEverFreeBytesRemaining h)\<rparr>;
          h2 = upd_blk p heapALLOCATE_BLOCK h1;
          h3 = set_next_free p 0 h2
      in h3\<lparr>xNumberOfSuccessfulAllocations := xNumberOfSuccessfulAllocations h3 + 1\<rparr>)"

definition take_block :: "layout \<Rightarrow> u32 \<Rightarrow> u32 \<Rightarrow> u32 \<Rightarrow> heap \<Rightarrow> (u32 \<times> heap) option" where
  "take_block L w prev p h =
     (let pv = next_free h prev + xHeapStructSize in
      if \<not> heapVALIDATE_BLOCK_POINTER L pv then None
      else
        let h1 = set_next_free prev (next_free h p) h in
        if size_at h1 p < w then None
        else map_option (\<lambda>h2. (pv, account_block p h2)) (split_block w prev p h1))"

text \<open>The part between suspending and resuming the scheduler: the result 0 is NULL.\<close>

definition malloc_locked :: "layout \<Rightarrow> u32 \<Rightarrow> heap \<Rightarrow> (u32 \<times> heap) option" where
  "malloc_locked L w h0 =
     (let h = (if pxEnd h0 = 0 then prvHeapInit L h0 else h0) in
      if heapBLOCK_SIZE_IS_VALID w \<and> 0 < w \<and> w \<le> xFreeBytesRemaining h then
        let p = next_free h (xStart L) in
        if \<not> heapVALIDATE_BLOCK_POINTER L p then None
        else case find_block L w h (xStart L) p of
               None \<Rightarrow> None
             | Some (prev, p) \<Rightarrow> if p \<noteq> pxEnd h then take_block L w prev p h else Some (0, h)
      else Some (0, h))"

definition pvPortMalloc :: "layout \<Rightarrow> u32 \<Rightarrow> heap \<Rightarrow> (u32 \<times> heap) option" where
  "pvPortMalloc L w h =
     (case malloc_locked L (required_size w) h of
        None \<Rightarrow> None
      | Some (pv, h') \<Rightarrow>
          if pv = 0 then None
          else if pv AND portBYTE_ALIGNMENT_MASK = 0 then Some (pv, h') else None)"

section \<open>Release\<close>

partial_function (option) find_place :: "u32 \<Rightarrow> heap \<Rightarrow> u32 \<Rightarrow> u32 option" where
  "find_place p h it = (if next_free h it < p then find_place p h (next_free h it) else Some it)"

text \<open>Joining with the block in front; the result is the block that now holds \<open>p\<close>.\<close>

definition merge_front :: "u32 \<Rightarrow> u32 \<Rightarrow> heap \<Rightarrow> u32 \<times> heap" where
  "merge_front it p h =
     (if it + size_at h it = p then (it, set_block_size it (size_at h it + size_at h p) h) else (p, h))"

definition merge_back :: "u32 \<Rightarrow> u32 \<Rightarrow> heap \<Rightarrow> heap" where
  "merge_back it p h =
     (if p + size_at h p = next_free h it then
        if next_free h it \<noteq> pxEnd h then
          let n = next_free h it;
              h1 = set_block_size p (size_at h p + size_at h n) h
          in set_next_free p (next_free h1 (next_free h1 it)) h1
        else set_next_free p (pxEnd h) h
      else set_next_free p (next_free h it) h)"

definition prvInsertBlockIntoFreeList :: "layout \<Rightarrow> u32 \<Rightarrow> heap \<Rightarrow> heap option" where
  "prvInsertBlockIntoFreeList L p h =
     (case find_place p h (xStart L) of
        None \<Rightarrow> None
      | Some it \<Rightarrow>
          if it \<noteq> xStart L \<and> \<not> heapVALIDATE_BLOCK_POINTER L it then None
          else
            let (q, h1) = merge_front it p h;
                h2 = merge_back it q h1
            in Some (if it \<noteq> q then set_next_free it q h2 else h2))"

definition vPortFree :: "layout \<Rightarrow> u32 \<Rightarrow> heap \<Rightarrow> heap option" where
  "vPortFree L pv h =
     (if pv = 0 then Some h
      else
        let p = pv - xHeapStructSize in
        if \<not> heapVALIDATE_BLOCK_POINTER L p \<or> \<not> heapBLOCK_IS_ALLOCATED (blk h p) \<or> next_free h p \<noteq> 0
        then None
        else
          let h1 = upd_blk p heapFREE_BLOCK h;
              h2 = h1\<lparr>xFreeBytesRemaining := xFreeBytesRemaining h1 + size_at h1 p\<rparr>
          in map_option (\<lambda>h3. h3\<lparr>xNumberOfSuccessfulFrees := xNumberOfSuccessfulFrees h3 + 1\<rparr>)
               (prvInsertBlockIntoFreeList L p h2))"

section \<open>Statistics and the rest\<close>

definition xPortGetFreeHeapSize :: "heap \<Rightarrow> u32" where
  "xPortGetFreeHeapSize h = xFreeBytesRemaining h"

definition xPortGetMinimumEverFreeHeapSize :: "heap \<Rightarrow> u32" where
  "xPortGetMinimumEverFreeHeapSize h = xMinimumEverFreeBytesRemaining h"

definition xPortResetHeapMinimumEverFreeHeapSize :: "heap \<Rightarrow> heap" where
  "xPortResetHeapMinimumEverFreeHeapSize h = h\<lparr>xMinimumEverFreeBytesRemaining := xFreeBytesRemaining h\<rparr>"

text \<open>The second component is what was cleared: the address and the number of bytes.\<close>

definition pvPortCalloc :: "layout \<Rightarrow> u32 \<Rightarrow> u32 \<Rightarrow> heap \<Rightarrow> (u32 \<times> (u32 \<times> u32) option \<times> heap) option" where
  "pvPortCalloc L num sz h =
     (if \<not> heapMULTIPLY_WILL_OVERFLOW num sz then
        map_option (\<lambda>(pv, h'). (pv, if pv \<noteq> 0 then Some (pv, num * sz) else None, h'))
          (pvPortMalloc L (num * sz) h)
      else Some (0, None, h))"

record heap_stats =
  xAvailableHeapSpaceInBytes :: u32
  xSizeOfLargestFreeBlockInBytes :: u32
  xSizeOfSmallestFreeBlockInBytes :: u32
  xNumberOfFreeBlocks :: u32
  stats_MinimumEver :: u32
  stats_Allocations :: u32
  stats_Frees :: u32

partial_function (option) stats_walk ::
    "heap \<Rightarrow> u32 \<Rightarrow> u32 \<Rightarrow> u32 \<Rightarrow> u32 \<Rightarrow> (u32 \<times> u32 \<times> u32) option" where
  "stats_walk h p count big small =
     (if p \<noteq> pxEnd h then
        stats_walk h (next_free h p) (count + 1) (if big < size_at h p then size_at h p else big)
          (if size_at h p < small then size_at h p else small)
      else Some (count, big, small))"

definition vPortGetHeapStats :: "layout \<Rightarrow> heap \<Rightarrow> heap_stats option" where
  "vPortGetHeapStats L h =
     map_option (\<lambda>(count, big, small).
       \<lparr>xAvailableHeapSpaceInBytes = xFreeBytesRemaining h, xSizeOfLargestFreeBlockInBytes = big,
        xSizeOfSmallestFreeBlockInBytes = small, xNumberOfFreeBlocks = count,
        stats_MinimumEver = xMinimumEverFreeBytesRemaining h,
        stats_Allocations = xNumberOfSuccessfulAllocations h, stats_Frees = xNumberOfSuccessfulFrees h\<rparr>)
     (let p = next_free h (xStart L)
      in if p \<noteq> 0 then stats_walk h p 0 0 0xFFFFFFFF else Some (0, 0, 0xFFFFFFFF))"

definition vPortHeapResetState :: "heap \<Rightarrow> heap" where
  "vPortHeapResetState h =
     h\<lparr>pxEnd := 0, xFreeBytesRemaining := 0, xMinimumEverFreeBytesRemaining := 0,
       xNumberOfSuccessfulAllocations := 0, xNumberOfSuccessfulFrees := 0\<rparr>"

end
