(* ===== verification/Rtos_Heap_Inv.thy ===== *)
theory Rtos_Heap_Inv
  imports Rtos_Heap
begin

text \<open>
  The invariant of the RTOS heap and what allocation and release do to it. Abstractly the
  heap is a sequence of segments that tile the space from its aligned start to the end marker,
  each free or allocated, no two neighbours both free; the free ones, in address order, are
  exactly the linked list of the code.
\<close>

section \<open>Segments\<close>

type_synonym seg = "u32 \<times> u32 \<times> bool"

fun tiles :: "u32 \<Rightarrow> seg list \<Rightarrow> u32 \<Rightarrow> bool" where
  "tiles a [] e \<longleftrightarrow> a = e"
| "tiles a ((b, n, f) # r) e \<longleftrightarrow>
     b = a \<and> 16 < unat n \<and> 16 dvd unat n \<and> unat a + unat n \<le> unat e \<and> tiles (a + n) r e"

fun frees :: "seg list \<Rightarrow> (u32 \<times> u32) list" where
  "frees [] = []"
| "frees ((a, n, f) # r) = (if f then (a, n) # frees r else frees r)"

fun coalesced :: "seg list \<Rightarrow> bool" where
  "coalesced ((a, n, f) # (a', n', f') # r) \<longleftrightarrow> \<not> (f \<and> f') \<and> coalesced ((a', n', f') # r)"
| "coalesced _ \<longleftrightarrow> True"

lemma tiles_le: "tiles a segs e \<Longrightarrow> unat a \<le> unat e"
  by (induction a segs e rule: tiles.induct) auto

lemma unat_plus_le: "unat (a :: u32) + unat n \<le> unat (e :: u32) \<Longrightarrow> unat (a + n) = unat a + unat n"
  using unat_u32_less [of e] by (intro unat_plus_no_wrap) simp

lemma tiles_append: "tiles a (A @ B) e \<longleftrightarrow> (\<exists>c. tiles a A c \<and> tiles c B e)"
proof (induction A arbitrary: a)
  case Nil
  then show ?case by simp
next
  case (Cons x A)
  obtain b n f where x: "x = (b, n, f)" by (cases x)
  have le: "unat a + unat n \<le> unat c" if "tiles (a + n) A c" "unat a + unat n \<le> unat e" for c
    using tiles_le [OF that(1)] unat_plus_le [OF that(2)] by simp
  have le2: "unat a + unat n \<le> unat e" if "unat a + unat n \<le> unat c" "tiles c B e" for c
    using tiles_le [OF that(2)] that(1) by simp
  show ?case using Cons.IH [of "a + n"] le le2 by (auto simp: x)
qed

lemma tiles_bounds:
  assumes "tiles s segs e" and "(a, n, f) \<in> set segs"
  shows "unat s \<le> unat a" "unat a + unat n \<le> unat e" "16 < unat n" "16 dvd unat n"
proof -
  have "unat s \<le> unat a \<and> unat a + unat n \<le> unat e \<and> 16 < unat n \<and> 16 dvd unat n"
    using assms
  proof (induction s segs e rule: tiles.induct)
    case (2 s b m g r e)
    show ?case
    proof (cases "(a, n, f) = (b, m, g)")
      case True
      with 2 show ?thesis by auto
    next
      case False
      with 2 have "unat (s + m) \<le> unat a \<and> unat a + unat n \<le> unat e \<and> 16 < unat n \<and> 16 dvd unat n"
        by auto
      moreover have "unat (s + m) = unat s + unat m" using 2 by (intro unat_plus_le [of s m e]) simp
      ultimately show ?thesis by simp
    qed
  qed simp
  then show "unat s \<le> unat a" "unat a + unat n \<le> unat e" "16 < unat n" "16 dvd unat n" by auto
qed

text \<open>Splitting the tiling at a segment.\<close>

lemma tiles_at:
  assumes "tiles s (A @ (a, n, f) # B) e"
  shows "tiles s A a" "16 < unat n" "16 dvd unat n" "unat (a + n) = unat a + unat n"
    "tiles (a + n) B e" "unat s \<le> unat a" "unat (a + n) \<le> unat e"
proof -
  from assms obtain c where c: "tiles s A c" "tiles c ((a, n, f) # B) e" by (auto simp: tiles_append)
  then show "tiles s A a" "16 < unat n" "16 dvd unat n" "tiles (a + n) B e"
    and p: "unat (a + n) = unat a + unat n" by (auto intro: unat_plus_le)
  show "unat s \<le> unat a" using tiles_le [OF c(1)] c(2) by simp
  show "unat (a + n) \<le> unat e" using tiles_le c(2) by auto
qed

text \<open>Segments in front lie below, segments behind lie above.\<close>

lemma tiles_before:
  assumes "tiles s A a" and "(b, m, g) \<in> set A"
  shows "unat b + unat m \<le> unat a" "unat b < unat a" "b \<noteq> a"
  using tiles_bounds [OF assms] by auto

lemma tiles_after:
  assumes "tiles c B e" and "(b, m, g) \<in> set B" and "unat a < unat c"
  shows "unat a < unat b" "b \<noteq> a" "unat c \<le> unat b"
  using tiles_bounds [OF assms(1,2)] assms(3) by auto

lemma frees_append [simp]: "frees (A @ B) = frees A @ frees B"
  by (induction A rule: frees.induct) auto

lemma frees_mem: "(a, n) \<in> set (frees segs) \<longleftrightarrow> (a, n, True) \<in> set segs"
  by (induction segs rule: frees.induct) auto

lemma frees_split:
  assumes "frees segs = us @ (a, n) # vs"
  shows "\<exists>A B. segs = A @ (a, n, True) # B \<and> frees A = us \<and> frees B = vs"
  using assms
proof (induction segs arbitrary: us rule: frees.induct)
  case (2 b m f r)
  show ?case
  proof (cases "f \<and> us = []")
    case True
    with 2(3) have "b = a" "m = n" "frees r = vs" by auto
    with True show ?thesis by (intro exI [of _ "[]"] exI [of _ r]) simp
  next
    case False
    show ?thesis
    proof (cases f)
      case True
      with False 2(3) obtain us' where us: "us = (b, m) # us'" "frees r = us' @ (a, n) # vs"
        by (cases us) auto
      from 2(1) [OF True us(2)] obtain A B where "r = A @ (a, n, True) # B" "frees A = us'" "frees B = vs"
        by blast
      with us(1) True show ?thesis by (intro exI [of _ "(b, m, f) # A"] exI [of _ B]) simp
    next
      case nf: False
      with 2(3) have "frees r = us @ (a, n) # vs" by simp
      from 2(2) [OF nf this] obtain A B where "r = A @ (a, n, True) # B" "frees A = us" "frees B = vs"
        by blast
      with nf show ?thesis by (intro exI [of _ "(b, m, f) # A"] exI [of _ B]) simp
    qed
  qed
qed simp

lemma coalesced_append:
  "coalesced (A @ B) \<longleftrightarrow> coalesced A \<and> coalesced B \<and>
     (A = [] \<or> B = [] \<or> \<not> (snd (snd (last A)) \<and> snd (snd (hd B))))"
proof (induction A rule: coalesced.induct, goal_cases)
  case (1 a n f a' n' f' r)
  then show ?case by auto
next
  case (3 x)
  obtain a n f where x: "x = (a, n, f)" by (cases x)
  show ?case
  proof (cases B)
    case (Cons y B')
    then show ?thesis by (cases y) (auto simp: x)
  qed simp
qed simp

section \<open>The linked list\<close>

text \<open>From the node \<open>q\<close> the links lead through the blocks \<open>us\<close> to \<open>r\<close>.\<close>

fun flinks :: "heap \<Rightarrow> u32 \<Rightarrow> (u32 \<times> u32) list \<Rightarrow> u32 \<Rightarrow> bool" where
  "flinks h q [] r \<longleftrightarrow> next_free h q = r"
| "flinks h q ((a, n) # us) r \<longleftrightarrow> next_free h q = a \<and> size_at h a = n \<and> flinks h a us r"

abbreviation last_node :: "u32 \<Rightarrow> (u32 \<times> u32) list \<Rightarrow> u32" where
  "last_node q us \<equiv> last (q # map fst us)"

lemma flinks_append:
  "flinks h q (us @ (a, n) # vs) r \<longleftrightarrow> flinks h q us a \<and> size_at h a = n \<and> flinks h a vs r"
  by (induction us arbitrary: q) auto

lemma flinks_last: "flinks h q us r \<Longrightarrow> next_free h (last_node q us) = r"
  by (induction us arbitrary: q) auto

lemma flinks_retarget:
  assumes "flinks h q us r" and "next_free h' (last_node q us) = r'"
    and "\<And>p. p \<in> set (q # map fst us) \<Longrightarrow> p \<noteq> last_node q us \<Longrightarrow> next_free h' p = next_free h p"
    and "\<And>p. p \<in> fst ` set us \<Longrightarrow> size_at h' p = size_at h p"
    and "distinct (q # map fst us)"
  shows "flinks h' q us r'"
  using assms
proof (induction us arbitrary: q)
  case (Cons x us)
  obtain a n where x: "x = (a, n)" by (cases x)
  have "flinks h' a us r'"
  proof (rule Cons.IH)
    show "flinks h a us r" using Cons.prems(1) by (simp add: x)
    show "next_free h' (last_node a us) = r'" using Cons.prems(2) by (simp add: x)
    show "next_free h' p = next_free h p" if "p \<in> set (a # map fst us)" "p \<noteq> last_node a us" for p
      using Cons.prems(3) [of p] that by (auto simp: x)
    show "size_at h' p = size_at h p" if "p \<in> fst ` set us" for p
      using Cons.prems(4) that by simp
    show "distinct (a # map fst us)" using Cons.prems(5) by (simp add: x)
  qed
  moreover have "q \<noteq> last_node q (x # us)"
  proof
    assume q: "q = last_node q (x # us)"
    have "last (map fst (x # us)) \<in> set (map fst (x # us))" by (rule last_in_set) simp
    moreover have "last_node q (x # us) = last (map fst (x # us))" by simp
    ultimately have "q \<in> set (map fst (x # us))" using q by metis
    with Cons.prems(5) show False by (simp del: list.map)
  qed
  then have "next_free h' q = next_free h q" using Cons.prems(3) [of q] by simp
  moreover have "size_at h' a = size_at h a" using Cons.prems(4) by (simp add: x)
  ultimately show ?case using Cons.prems(1) by (simp add: x)
qed simp

lemma flinks_frame:
  assumes "flinks h q us r"
    and "\<And>p. p \<in> set (q # map fst us) \<Longrightarrow> next_free h' p = next_free h p"
    and "\<And>p. p \<in> fst ` set us \<Longrightarrow> size_at h' p = size_at h p"
  shows "flinks h' q us r"
  using assms
proof (induction us arbitrary: q)
  case (Cons x us)
  then show ?case by (cases x) simp
qed simp

section \<open>The invariant\<close>

definition free_bytes :: "seg list \<Rightarrow> nat" where
  "free_bytes segs = sum_list (map (\<lambda>(a, n). unat n) (frees segs))"

text \<open>The linker keeps \<open>ucHeap\<close> away from address 0, from the top and from \<open>xStart\<close>.\<close>

definition layout_ok :: "layout \<Rightarrow> bool" where
  "layout_ok L \<longleftrightarrow> 16 \<le> unat (ucHeap L) \<and> unat (ucHeap L) + 0x100000 < 2 ^ 32 \<and>
     (unat (xStart L) < unat (ucHeap L) \<or> unat (ucHeap L) + 0x100000 \<le> unat (xStart L))"

definition allocated_header :: "u32 \<Rightarrow> block_link" where
  "allocated_header n = \<lparr>pxNextFreeBlock = 0, xBlockSize = n OR 0x80000000\<rparr>"

definition heap_rep :: "layout \<Rightarrow> heap \<Rightarrow> seg list \<Rightarrow> u32 \<Rightarrow> u32 \<Rightarrow> bool" where
  "heap_rep L h segs s e \<longleftrightarrow>
     layout_ok L \<and> tiles s segs e \<and> coalesced segs \<and>
     unat (ucHeap L) \<le> unat s \<and> unat e + 16 \<le> unat (ucHeap L) + 0x100000 \<and> 16 dvd unat s \<and>
     pxEnd h = e \<and> blk h e = \<lparr>pxNextFreeBlock = 0, xBlockSize = 0\<rparr> \<and> size_at h (xStart L) = 0 \<and>
     flinks h (xStart L) (frees segs) e \<and>
     (\<forall>a n. (a, n, False) \<in> set segs \<longrightarrow> blk h a = allocated_header n) \<and>
     unat (xFreeBytesRemaining h) = free_bytes segs \<and>
     xMinimumEverFreeBytesRemaining h \<le> xFreeBytesRemaining h"

lemma free_bytes_append [simp]: "free_bytes (A @ B) = free_bytes A + free_bytes B"
  by (simp add: free_bytes_def)

lemma free_bytes_Cons [simp]:
  "free_bytes ((a, n, f) # r) = (if f then unat n else 0) + free_bytes r"
  by (simp add: free_bytes_def)

lemma free_bytes_Nil [simp]: "free_bytes [] = 0"
  by (simp add: free_bytes_def)

lemma tiles_total: "tiles s segs e \<Longrightarrow> unat s + free_bytes segs \<le> unat e"
proof (induction s segs e rule: tiles.induct)
  case (2 a b n f r e)
  then have "unat (a + n) = unat a + unat n" by (intro unat_plus_le [of a n e]) simp
  with 2 show ?case by simp
qed simp

text \<open>Addresses in the heap are valid pointers and none of them is \<open>xStart\<close> or NULL.\<close>

lemma in_heap:
  assumes "layout_ok L" and "unat (ucHeap L) \<le> unat p" and "unat p < unat (ucHeap L) + 0x100000"
  shows "heapVALIDATE_BLOCK_POINTER L p" "p \<noteq> xStart L" "p \<noteq> 0"
proof -
  have "unat (ucHeap L + (configTOTAL_HEAP_SIZE - 1)) = unat (ucHeap L) + 0xFFFFF"
    using assms(1) by (subst unat_plus_no_wrap) (simp_all add: layout_ok_def)
  with assms show "heapVALIDATE_BLOCK_POINTER L p" "p \<noteq> xStart L" "p \<noteq> 0"
    by (auto simp: heapVALIDATE_BLOCK_POINTER_def layout_ok_def word_le_nat_alt)
qed

lemma heap_rep_seg:
  assumes rep: "heap_rep L h segs s e" and m: "(a, n, f) \<in> set segs"
  shows "unat s \<le> unat a" "unat a + unat n \<le> unat e" "16 < unat n" "16 dvd unat n"
    and "heapVALIDATE_BLOCK_POINTER L a" "a \<noteq> xStart L" "a \<noteq> 0" "a \<noteq> e"
proof -
  from rep have t: "tiles s segs e" and lay: "layout_ok L" and lo: "unat (ucHeap L) \<le> unat s"
    and hi: "unat e + 16 \<le> unat (ucHeap L) + 0x100000" by (simp_all add: heap_rep_def)
  show b: "unat s \<le> unat a" "unat a + unat n \<le> unat e" "16 < unat n" "16 dvd unat n"
    by (rule tiles_bounds [OF t m])+
  from b lo hi have "unat (ucHeap L) \<le> unat a" "unat a < unat (ucHeap L) + 0x100000" by linarith+
  from in_heap [OF lay this] show "heapVALIDATE_BLOCK_POINTER L a" "a \<noteq> xStart L" "a \<noteq> 0" .
  show "a \<noteq> e" using b by auto
qed

lemma heap_rep_end:
  assumes rep: "heap_rep L h segs s e"
  shows "heapVALIDATE_BLOCK_POINTER L e" "e \<noteq> xStart L" "e \<noteq> 0"
proof -
  from rep have t: "tiles s segs e" and lay: "layout_ok L" and lo: "unat (ucHeap L) \<le> unat s"
    and hi: "unat e + 16 \<le> unat (ucHeap L) + 0x100000" by (simp_all add: heap_rep_def)
  from tiles_le [OF t] lo hi have "unat (ucHeap L) \<le> unat e" "unat e < unat (ucHeap L) + 0x100000"
    by linarith+
  from in_heap [OF lay this] show "heapVALIDATE_BLOCK_POINTER L e" "e \<noteq> xStart L" "e \<noteq> 0" .
qed

lemma flinks_at: "flinks h q (us @ vs) e \<Longrightarrow> next_free h (last_node q us) = hd (map fst vs @ [e])"
  by (induction us arbitrary: q) (cases vs; auto)+

lemma flinks_size: "flinks h q us r \<Longrightarrow> (a, n) \<in> set us \<Longrightarrow> size_at h a = n"
  by (induction us arbitrary: q) auto

section \<open>The search\<close>

lemma find_block_rep:
  assumes rep: "heap_rep L h segs s e" and "0 < w" and "frees segs = us @ vs"
  shows "find_block L w h (last_node (xStart L) us) (hd (map fst vs @ [e])) =
    Some (last_node (xStart L) (us @ takeWhile (\<lambda>(a, n). n < w) vs),
      hd (map fst (dropWhile (\<lambda>(a, n). n < w) vs) @ [e]))"
  using assms(3)
proof (induction vs arbitrary: us)
  case Nil
  have "next_free h e = 0" using rep by (simp add: heap_rep_def)
  then show ?case by (simp add: find_block.simps)
next
  case (Cons x vs)
  obtain a n where x: "x = (a, n)" by (cases x)
  have fl: "flinks h (xStart L) ((us @ [(a, n)]) @ vs) e" using rep Cons.prems by (simp add: heap_rep_def x)
  have size: "size_at h a = n" using flinks_size [OF fl] by simp
  have nxt: "next_free h a = hd (map fst vs @ [e])" using flinks_at [OF fl] by simp
  have "hd (map fst vs @ [e]) = e \<or> (\<exists>m. (hd (map fst vs @ [e]), m, True) \<in> set segs)"
  proof (cases vs)
    case (Cons y ys)
    obtain b k where y: "y = (b, k)" by (cases y)
    then have "(b, k) \<in> set (frees segs)" using Cons \<open>frees segs = us @ x # vs\<close> by simp
    then show ?thesis using Cons y by (auto simp: frees_mem)
  qed simp
  then have ok: "heapVALIDATE_BLOCK_POINTER L (hd (map fst vs @ [e]))" "hd (map fst vs @ [e]) \<noteq> 0"
    using heap_rep_end [OF rep] heap_rep_seg [OF rep] by metis+
  show ?case
  proof (cases "n < w")
    case True
    have "find_block L w h (last_node (xStart L) us) a = find_block L w h a (hd (map fst vs @ [e]))"
      by (subst find_block.simps) (simp add: size True nxt ok)
    also have "\<dots> = Some (last_node (xStart L) ((us @ [(a, n)]) @ takeWhile (\<lambda>(a, n). n < w) vs),
        hd (map fst (dropWhile (\<lambda>(a, n). n < w) vs) @ [e]))"
      using Cons.IH [of "us @ [(a, n)]"] Cons.prems by (simp add: x)
    finally show ?thesis using True by (simp add: x)
  next
    case False
    then show ?thesis by (subst find_block.simps) (simp add: x size)
  qed
qed

text \<open>The search succeeds exactly when there is a free block that is large enough, and takes the first.\<close>

lemma find_block_first:
  assumes rep: "heap_rep L h segs s e" and "0 < w"
  obtains (none) prev where "find_block L w h (xStart L) (next_free h (xStart L)) = Some (prev, e)"
      and "\<forall>a n. (a, n, True) \<in> set segs \<longrightarrow> n < w"
  | (found) A a n B where "segs = A @ (a, n, True) # B" and "w \<le> n"
      and "\<forall>b m. (b, m, True) \<in> set A \<longrightarrow> m < w"
      and "find_block L w h (xStart L) (next_free h (xStart L)) = Some (last_node (xStart L) (frees A), a)"
proof -
  define us vs where "us = takeWhile (\<lambda>(a, n). n < w) (frees segs)"
    and "vs = dropWhile (\<lambda>(a, n). n < w) (frees segs)"
  have sp: "frees segs = us @ vs" by (simp add: us_def vs_def)
  have small: "\<forall>(a, n)\<in>set us. n < w" by (auto simp: us_def dest: set_takeWhileD)
  have "next_free h (xStart L) = hd (map fst (frees segs) @ [e])"
    using flinks_at [of h "xStart L" "[]" "frees segs" e] rep by (simp add: heap_rep_def)
  with find_block_rep [OF rep assms(2), of "[]"]
  have f: "find_block L w h (xStart L) (next_free h (xStart L)) =
      Some (last_node (xStart L) us, hd (map fst vs @ [e]))"
    by (simp add: us_def vs_def)
  show thesis
  proof (cases vs)
    case Nil
    with sp small have "\<forall>a n. (a, n, True) \<in> set segs \<longrightarrow> n < w" by (auto simp: frees_mem [symmetric])
    with f Nil none show thesis by simp
  next
    case (Cons y ys)
    obtain a n where y: "y = (a, n)" by (cases y)
    have "dropWhile (\<lambda>(a, n). n < w) (frees segs) \<noteq> []" using Cons by (metis vs_def list.distinct(1))
    from hd_dropWhile [OF this] have "w \<le> n" using Cons y by (simp add: vs_def [symmetric] not_less)
    moreover from sp Cons y obtain A B where "segs = A @ (a, n, True) # B" "frees A = us" "frees B = ys"
      using frees_split by blast
    moreover from this small have "\<forall>b m. (b, m, True) \<in> set A \<longrightarrow> m < w" by (auto simp: frees_mem [symmetric])
    ultimately show thesis using found f Cons y by simp
  qed
qed

section \<open>Alignment and the allocation bit\<close>

lemma and_15: "(x :: u32) AND 15 = 0 \<longleftrightarrow> 16 dvd unat x"
proof -
  have "x AND 15 = x mod 16" using take_bit_eq_mask [of 4 x] by (simp add: mask_eq_exp_minus_1 take_bit_eq_mod)
  moreover have "unat (x mod 16) = unat x mod 16" by (simp add: unat_mod)
  ultimately show ?thesis by (metis dvd_eq_mod_eq_0 unat_eq_0)
qed

lemma bit_31:
  assumes "unat (x :: u32) < 2147483648"
  shows "\<not> bit x 31"
proof -
  have "unat (drop_bit 31 x) = 0" using assms by (simp add: unat_div drop_bit_eq_div)
  then have "drop_bit 31 x = 0" by (simp only: unat_eq_0)
  then show ?thesis by (simp only: bit_iff_odd_drop_bit even_zero not_not)
qed

lemma msb_const: "bit (0x80000000 :: u32) i \<longleftrightarrow> i = 31"
proof -
  have "(0x80000000 :: u32) = push_bit 31 1" by simp
  then show ?thesis by (simp only: bit_push_bit_iff bit_1_iff) auto
qed

lemma and_msb: "(x :: u32) AND 0x80000000 = 0 \<longleftrightarrow> \<not> bit x 31"
proof
  assume h: "x AND 0x80000000 = 0"
  show "\<not> bit x 31"
  proof
    assume "bit x 31"
    then have "bit (x AND 0x80000000) 31" by (simp only: bit_and_iff msb_const simp_thms)
    then show False unfolding h by simp
  qed
next
  assume "\<not> bit x 31"
  then show "x AND 0x80000000 = 0"
    by (intro bit_word_eqI) (metis bit_and_iff msb_const bit_0_eq bot_apply bot_bool_def)
qed

lemma msb_set: "((x :: u32) OR 0x80000000) AND 0x80000000 \<noteq> 0"
  by (simp only: and_msb bit_or_iff msb_const not_not simp_thms)

lemma msb_clear: "unat (x :: u32) < 2147483648 \<Longrightarrow> (x OR 0x80000000) AND NOT 0x80000000 = x"
proof -
  assume "unat x < 2147483648"
  note b = bit_31 [OF this]
  show ?thesis
  proof (rule bit_word_eqI)
    fix i assume "i < LENGTH(32)"
    then show "bit ((x OR 0x80000000) AND NOT 0x80000000) i \<longleftrightarrow> bit x i"
      unfolding bit_and_iff bit_or_iff bit_not_iff msb_const using b by (cases "i = 31") auto
  qed
qed

lemma upd_blk_simps [simp]:
  "blk (upd_blk p f h) q = (if q = p then f (blk h p) else blk h q)"
  "pxEnd (upd_blk p f h) = pxEnd h"
  "xFreeBytesRemaining (upd_blk p f h) = xFreeBytesRemaining h"
  "xMinimumEverFreeBytesRemaining (upd_blk p f h) = xMinimumEverFreeBytesRemaining h"
  "xNumberOfSuccessfulAllocations (upd_blk p f h) = xNumberOfSuccessfulAllocations h"
  "xNumberOfSuccessfulFrees (upd_blk p f h) = xNumberOfSuccessfulFrees h"
  by (simp_all add: upd_blk_def)

section \<open>Taking a block\<close>

lemma take_block_state:
  assumes nq: "next_free h q = a" and qa: "q \<noteq> a" and size: "size_at h a = n" and wn: "w \<le> n"
    and val: "heapVALIDATE_BLOCK_POINTER L (a + 16)" and al: "(a + w) AND 15 = 0"
    and new: "a + w \<noteq> a" "a + w \<noteq> q"
  shows "\<exists>h'. take_block L w q a h = Some (a + 16, h') \<and> pxEnd h' = pxEnd h \<and>
    (let m = if 32 < n - w then w else n;
         left = xFreeBytesRemaining h - m
     in blk h' = (\<lambda>p. if p = a then allocated_header m
          else if p = q then (blk h q)\<lparr>pxNextFreeBlock := if 32 < n - w then a + w else next_free h a\<rparr>
          else if 32 < n - w \<and> p = a + w then \<lparr>pxNextFreeBlock = next_free h a, xBlockSize = n - w\<rparr>
          else blk h p) \<and>
        xFreeBytesRemaining h' = left \<and>
        xMinimumEverFreeBytesRemaining h' = (if left < xMinimumEverFreeBytesRemaining h then left
          else xMinimumEverFreeBytesRemaining h))"
proof (cases "32 < n - w")
  case True
  with assms show ?thesis
    by (auto simp: take_block_def split_block_def account_block_def Let_def allocated_header_def
        heapALLOCATE_BLOCK_def fun_eq_iff not_less)
next
  case False
  with assms show ?thesis
    by (auto simp: take_block_def split_block_def account_block_def Let_def allocated_header_def
        heapALLOCATE_BLOCK_def fun_eq_iff not_less)
qed

section \<open>Allocation keeps the invariant\<close>

lemma tiles_aligned: "tiles s segs e \<Longrightarrow> 16 dvd unat s \<Longrightarrow> 16 dvd unat e"
proof (induction s segs e rule: tiles.induct)
  case (2 x b k f r y)
  then have "unat (x + k) = unat x + unat k" by (intro unat_plus_le [of x k y]) simp
  with 2 show ?case by simp
qed simp

lemma tiles_distinct: "tiles s segs e \<Longrightarrow> distinct (map fst (frees segs))"
proof (induction s segs e rule: tiles.induct)
  case (2 a b n f r e)
  then have t: "tiles (a + n) r e" and p: "unat (a + n) = unat a + unat n" and n: "16 < unat n"
    by (auto intro: unat_plus_le [of a n e])
  have "a \<noteq> x" if "(x, m) \<in> set (frees r)" for x m
  proof
    assume "a = x"
    with tiles_bounds(1) [OF t, of x m True] that p n show False by (simp add: frees_mem)
  qed
  with 2 show ?case by force
qed simp

lemma tiles_unique:
  "tiles s segs e \<Longrightarrow> (a, n, f) \<in> set segs \<Longrightarrow> (a, n', f') \<in> set segs \<Longrightarrow> n = n' \<and> f = f'"
proof (induction s segs e rule: tiles.induct)
  case (2 s b m g r e)
  then have t: "tiles (s + m) r e" and p: "unat (s + m) = unat s + unat m" and n: "16 < unat m"
    by (auto intro: unat_plus_le [of s m e])
  have "x \<noteq> s" if "(x, k, h) \<in> set r" for x k h
    using tiles_bounds(1) [OF t that] p n by auto
  with 2 show ?case by auto
qed simp

text \<open>The node in front of a segment, and which nodes it differs from.\<close>

lemma front_node:
  assumes rep: "heap_rep L h (A @ (a, n, f) # B) s e"
  defines "q \<equiv> last_node (xStart L) (frees A)"
  shows "q = xStart L \<or> (\<exists>m. (q, m, True) \<in> set A)"
    and "distinct (xStart L # map fst (frees A))"
    and "p \<in> set (xStart L # map fst (frees A)) \<Longrightarrow> unat a \<le> unat p \<Longrightarrow> unat p \<le> unat e \<Longrightarrow> False"
    and "q \<in> set (xStart L # map fst (frees A))"
proof -
  show qin: "q \<in> set (xStart L # map fst (frees A))"
    unfolding q_def by (rule last_in_set) simp
  then show "q = xStart L \<or> (\<exists>m. (q, m, True) \<in> set A)" by (auto simp: frees_mem)
  from rep have t: "tiles s (A @ (a, n, f) # B) e" and lay: "layout_ok L"
    and lo: "unat (ucHeap L) \<le> unat s" and hi: "unat e + 16 \<le> unat (ucHeap L) + 0x100000"
    by (simp_all add: heap_rep_def)
  note at = tiles_at [OF t]
  have "xStart L \<noteq> x" if "(x, m) \<in> set (frees A)" for x m
    using heap_rep_seg(6) [OF rep, of x m True] that by (auto simp: frees_mem)
  with tiles_distinct [OF at(1)] show "distinct (xStart L # map fst (frees A))" by force
  show False if p: "p \<in> set (xStart L # map fst (frees A))" and "unat a \<le> unat p" "unat p \<le> unat e"
  proof (cases "p = xStart L")
    case True
    have "unat (ucHeap L) \<le> unat p" "unat p < unat (ucHeap L) + 0x100000"
      using that lo hi at(6) by linarith+
    from in_heap(2) [OF lay this] True show False by simp
  next
    case False
    with p obtain m where "(p, m, True) \<in> set A" by (auto simp: frees_mem)
    from tiles_before(2) [OF at(1) this] that(2) show False by simp
  qed
qed

lemma flinks_front:
  assumes rep: "heap_rep L h (A @ (a, n, f) # B) s e"
    and fl: "flinks h (xStart L) (frees A) r"
    and nx: "next_free h' (last_node (xStart L) (frees A)) = r'"
    and same: "\<And>p. p \<noteq> last_node (xStart L) (frees A) \<Longrightarrow> unat p < unat a \<or> unat e < unat p \<Longrightarrow> blk h' p = blk h p"
    and size: "size_at h' (last_node (xStart L) (frees A)) = size_at h (last_node (xStart L) (frees A))"
  shows "flinks h' (xStart L) (frees A) r'"
proof (rule flinks_retarget [OF fl nx])
  have out: "unat p < unat a \<or> unat e < unat p" if "p \<in> set (xStart L # map fst (frees A))" for p
    using front_node(3) [OF rep that] by (meson not_le)
  show "next_free h' p = next_free h p"
    if "p \<in> set (xStart L # map fst (frees A))" "p \<noteq> last_node (xStart L) (frees A)" for p
    using same [OF that(2) out [OF that(1)]] by simp
  show "size_at h' p = size_at h p" if "p \<in> fst ` set (frees A)" for p
  proof (cases "p = last_node (xStart L) (frees A)")
    case True
    then show ?thesis using size by simp
  next
    case False
    have "p \<in> set (xStart L # map fst (frees A))" using that by auto
    from same [OF False out [OF this]] show ?thesis by simp
  qed
qed (rule front_node(2) [OF rep])

lemma take_block_rep:
  assumes rep: "heap_rep L h (A @ (a, n, True) # B) s e" and wn: "w \<le> n"
    and w: "16 < unat w" "16 dvd unat w"
  shows "\<exists>h'. take_block L w (last_node (xStart L) (frees A)) a h = Some (a + 16, h') \<and>
    heap_rep L h' (A @ (if 32 < n - w then [(a, w, False), (a + w, n - w, True)] else [(a, n, False)]) @ B) s e"
proof -
  define q where "q = last_node (xStart L) (frees A)"
  note front = front_node [OF rep, folded q_def]
  from rep have t: "tiles s (A @ (a, n, True) # B) e" and lay: "layout_ok L" and co: "coalesced (A @ (a, n, True) # B)"
    and lo: "unat (ucHeap L) \<le> unat s" and hi: "unat e + 16 \<le> unat (ucHeap L) + 0x100000"
    and al: "16 dvd unat s" and en: "pxEnd h = e" "blk h e = \<lparr>pxNextFreeBlock = 0, xBlockSize = 0\<rparr>"
    and xs: "size_at h (xStart L) = 0"
    and fl: "flinks h (xStart L) (frees A @ (a, n) # frees B) e"
    and hdr: "\<forall>b m. (b, m, False) \<in> set (A @ (a, n, True) # B) \<longrightarrow> blk h b = allocated_header m"
    and fr: "unat (xFreeBytesRemaining h) = free_bytes (A @ (a, n, True) # B)"
    and mn: "xMinimumEverFreeBytesRemaining h \<le> xFreeBytesRemaining h"
    by (simp_all add: heap_rep_def)
  note at = tiles_at [OF t]
  have wn': "unat w \<le> unat n" using wn by (simp add: word_le_nat_alt)
  have un: "unat (n - w) = unat n - unat w" using wn by (rule unat_minus_le)
  have aw: "unat (a + w) = unat a + unat w" using wn' at(4,7) by (intro unat_plus_le [of a w e]) simp
  have aal: "16 dvd unat a" by (rule tiles_aligned [OF at(1) al])
  have qp: "unat q < unat a \<or> unat e < unat q"
    using front(3) [OF front(4)] by (meson not_le)
  have awe: "unat (a + w) \<le> unat e" using aw wn' at(4,7) by simp
  have ae: "unat a \<le> unat e" using at(4,7) by simp
  from fl have fl1: "flinks h (xStart L) (frees A) a" and sa: "size_at h a = n" and fl2: "flinks h a (frees B) e"
    by (simp_all add: flinks_append)
  have v16: "heapVALIDATE_BLOCK_POINTER L (a + 16)"
  proof -
    have a16: "unat (a + 16) = unat a + 16" using at(2,4,7) unat_plus_le [of a 16 e] by simp
    have "unat (ucHeap L) \<le> unat (a + 16)" "unat (a + 16) < unat (ucHeap L) + 0x100000"
      using a16 lo hi at(2,4,6,7) by linarith+
    then show ?thesis by (rule in_heap(1) [OF lay])
  qed
  have ne: "q \<noteq> a" "a + w \<noteq> a" "a + w \<noteq> q"
    using qp ae aw awe w(1) by auto
  define m where "m = (if 32 < n - w then w else n)"
  have al15: "(a + w) AND 15 = 0" using aal w(2) aw by (simp add: and_15)
  obtain h' where tb: "take_block L w q a h = Some (a + 16, h')" and en': "pxEnd h' = pxEnd h"
    and blk': "blk h' = (\<lambda>p. if p = a then allocated_header m
          else if p = q then (blk h q)\<lparr>pxNextFreeBlock := if 32 < n - w then a + w else next_free h a\<rparr>
          else if 32 < n - w \<and> p = a + w then \<lparr>pxNextFreeBlock = next_free h a, xBlockSize = n - w\<rparr>
          else blk h p)"
    and fr': "xFreeBytesRemaining h' = xFreeBytesRemaining h - m"
    and mn': "xMinimumEverFreeBytesRemaining h' =
      (if xFreeBytesRemaining h - m < xMinimumEverFreeBytesRemaining h then xFreeBytesRemaining h - m
       else xMinimumEverFreeBytesRemaining h)"
    using take_block_state [OF flinks_last [OF fl1, folded q_def] ne(1) sa wn v16 al15 ne(2,3),
        unfolded Let_def, folded m_def] by blast
  define mid where "mid = (if 32 < n - w then [(a, w, False), (a + w, n - w, True)] else [(a, n, False)])"
  have split: "unat (a + w) < unat (a + n)" "16 < unat (n - w)" if "32 < n - w"
    using that aw at(4) un by (simp_all add: word_less_nat_alt)
  have tmid: "tiles a mid (a + n)"
    using at(2,3,4) aw w wn' split un by (auto simp: mid_def algebra_simps dvd_diff_nat)
  have t': "tiles s (A @ mid @ B) e"
    using at(1,5) tmid by (auto simp: tiles_append)
  have co': "coalesced (A @ mid @ B)"
    using co by (cases B) (auto simp: mid_def coalesced_append)
  have same: "blk h' p = blk h p" if "p \<noteq> q" "unat p < unat a \<or> unat (a + n) \<le> unat p" for p
    using that split aw at(2,4) by (auto simp: blk')
  have above: "unat (a + n) \<le> unat b" if "(b, k, g) \<in> set B" for b k g
    using tiles_bounds(1) [OF at(5) that] .
  have qB: "b \<noteq> q" if "(b, k, g) \<in> set B" for b k g
    using qp above [OF that] tiles_bounds(2) [OF at(5) that] at(4) by auto
  have e: "blk h' e = blk h e"
    using qp at(4,7) by (intro same) auto
  have "flinks h' (xStart L) (frees (A @ mid @ B)) e"
  proof -
    have sz: "size_at h' q = size_at h q" using ne by (simp add: blk')
    have f1: "flinks h' (xStart L) (frees A) (if 32 < n - w then a + w else next_free h a)"
    proof (rule flinks_front [OF rep fl1, folded q_def, OF _ _ sz])
      show "next_free h' q = (if 32 < n - w then a + w else next_free h a)" using ne by (simp add: blk')
      show "blk h' p = blk h p" if "p \<noteq> q" "unat p < unat a \<or> unat e < unat p" for p
        using that at(7) by (intro same) auto
    qed
    have f2: "flinks h' x (frees B) e" if "next_free h' x = next_free h a" for x
    proof (cases "frees B")
      case Nil
      with fl2 that show ?thesis by simp
    next
      case (Cons y ys)
      obtain b k where y: "y = (b, k)" by (cases y)
      have "flinks h b ys e" using fl2 Cons y by simp
      then have "flinks h' b ys e"
      proof (rule flinks_frame)
        fix p assume "p \<in> set (b # map fst ys)"
        then obtain k where "(p, k) \<in> set (frees B)" unfolding Cons y by fastforce
        then have "(p, k, True) \<in> set B" by (simp add: frees_mem)
        from same [OF qB [OF this]] above [OF this] show "next_free h' p = next_free h p" by simp
      next
        fix p assume "p \<in> fst ` set ys"
        then obtain k where "(p, k) \<in> set (frees B)" unfolding Cons y by fastforce
        then have "(p, k, True) \<in> set B" by (simp add: frees_mem)
        from same [OF qB [OF this]] above [OF this] show "size_at h' p = size_at h p" by simp
      qed
      moreover have "(b, k, True) \<in> set B" using Cons y frees_mem [of b k B] by simp
      from same [OF qB [OF this]] above [OF this] have "size_at h' b = size_at h b" by simp
      ultimately show ?thesis using fl2 that Cons y by simp
    qed
    show ?thesis
    proof (cases "32 < n - w")
      case True
      have "next_free h' (a + w) = next_free h a" "size_at h' (a + w) = n - w"
        using True ne by (auto simp: blk')
      with f1 f2 [of "a + w"] True show ?thesis by (simp add: mid_def flinks_append)
    next
      case False
      with f1 fl2 f2 show ?thesis
      proof (cases "frees B")
        case (Cons y ys)
        obtain b k where y: "y = (b, k)" by (cases y)
        have "(b, k, True) \<in> set B" using Cons y frees_mem [of b k B] by simp
        from same [OF qB [OF this]] above [OF this] have bb: "blk h' b = blk h b" by simp
        have "next_free h a = b" using fl2 Cons y by simp
        moreover have "flinks h' q (frees B) e"
          using f2 [of q] ne False by (simp add: blk')
        ultimately show ?thesis using f1 False Cons y by (simp add: mid_def flinks_append)
      qed (simp add: mid_def)
    qed
  qed
  moreover have "unat (xFreeBytesRemaining h') = free_bytes (A @ mid @ B)"
  proof -
    have "m \<le> xFreeBytesRemaining h" using fr wn' by (simp add: m_def word_le_nat_alt)
    then have "unat (xFreeBytesRemaining h') = unat (xFreeBytesRemaining h) - unat m"
      unfolding fr' by (rule unat_minus_le)
    then show ?thesis using fr un wn' by (simp add: m_def mid_def)
  qed
  moreover have "blk h' b = allocated_header k" if mem: "(b, k, False) \<in> set (A @ mid @ B)" for b k
  proof -
    consider "(b, k, False) \<in> set A" | "b = a" "k = m" | "(b, k, False) \<in> set B"
      using mem by (auto simp: mid_def m_def split: if_splits)
    then show ?thesis
    proof cases
      case 1
      note lt = tiles_before(2) [OF at(1) 1]
      have "b \<noteq> q"
      proof
        assume bq: "b = q"
        from front(1) show False
        proof (elim disjE exE)
          assume "q = xStart L"
          with heap_rep_seg(6) [OF rep, of b k False] 1 bq show False by simp
        next
          fix k' assume "(q, k', True) \<in> set A"
          with tiles_unique [OF at(1) 1, of k' True] bq show False by simp
        qed
      qed
      then show ?thesis using same lt hdr 1 by simp
    next
      case 2
      then show ?thesis by (simp add: blk')
    next
      case 3
      then show ?thesis using same [OF qB [OF 3] disjI2 [OF above [OF 3]]] hdr by simp
    qed
  qed
  moreover have "size_at h' (xStart L) = 0"
  proof -
    have "xStart L \<noteq> a" using heap_rep_seg(6) [OF rep, of a n True] by auto
    moreover have "xStart L \<noteq> a + w"
    proof -
      have "unat (ucHeap L) \<le> unat (a + w)" "unat (a + w) < unat (ucHeap L) + 0x100000"
        using awe aw lo hi at(6) by linarith+
      from in_heap(2) [OF lay this] show ?thesis by (rule not_sym)
    qed
    ultimately show ?thesis using xs by (auto simp: blk')
  qed
  moreover have "xMinimumEverFreeBytesRemaining h' \<le> xFreeBytesRemaining h'"
    using mn unfolding mn' fr' by (auto simp: not_less)
  ultimately have "heap_rep L h' (A @ mid @ B) s e"
    using t' co' lay lo hi al en en' e by (simp add: heap_rep_def)
  with tb show ?thesis unfolding mid_def q_def by blast
qed

section \<open>The size request\<close>

text \<open>The header and the padding included; beyond 32 bits the code works with 0.\<close>

definition block_size_for :: "u32 \<Rightarrow> nat" where
  "block_size_for w = 16 * ((unat w + 31) div 16)"

lemma block_size_for_bounds:
  "unat w + 16 \<le> block_size_for w" "block_size_for w < unat w + 32" "16 dvd block_size_for w"
  by (simp_all add: block_size_for_def)

lemma round_up_16:
  fixes x :: nat
  assumes "x mod 16 = r" and "0 < r"
  shows "16 * ((x + 15) div 16) = x + (16 - r)"
proof -
  define q where "q = x div 16"
  have x: "x = 16 * q + r" and r: "r < 16" using assms(1) by (auto simp: q_def)
  then have "x + 15 = 16 * Suc q + (r - 1)" using assms(2) by simp
  moreover have "(16 * Suc q + (r - 1)) div 16 = Suc q" using r by (intro div_nat_eqI) simp_all
  ultimately have "(x + 15) div 16 = Suc q" by (simp only:)
  then show ?thesis using x r by simp
qed

lemma required_size_eq:
  assumes "0 < w"
  shows "unat (required_size w) = (if block_size_for w < 2 ^ 32 then block_size_for w else 0)"
proof (cases "heapADD_WILL_OVERFLOW w 16")
  case True
  then have "2 ^ 32 \<le> unat w + 16" by (simp add: heapADD_WILL_OVERFLOW_def word_less_nat_alt)
  with block_size_for_bounds(1) [of w] True assms show ?thesis by (simp add: required_size_def)
next
  case False
  then have w1: "unat (w + 16) = unat w + 16"
    by (subst unat_plus_no_wrap) (simp_all add: heapADD_WILL_OVERFLOW_def word_less_nat_alt)
  define r where "r = (w + 16) AND 15"
  have "r = (w + 16) mod 16" using take_bit_eq_mask [of 4 "w + 16"]
    by (simp add: r_def mask_eq_exp_minus_1 take_bit_eq_mod)
  then have "unat r = unat (w + 16) mod unat (16 :: u32)" by (simp only: unat_mod)
  then have r: "unat r = (unat w + 16) mod 16" using w1 by simp
  show ?thesis
  proof (cases "r = 0")
    case True
    with r have "(unat w + 16) mod 16 = 0" by simp
    then have "block_size_for w = unat w + 16" unfolding block_size_for_def by presburger
    with True False assms w1 unat_u32_less [of "w + 16"] show ?thesis
      by (simp add: required_size_def Let_def r_def)
  next
    case nz: False
    then have rp: "0 < unat r" by (simp add: unat_gt_0)
    have rl: "unat r < 16" using r by simp
    define a where "a = 16 - r"
    have a: "unat a = 16 - unat r" using rl by (simp add: a_def unat_minus_le word_le_nat_alt)
    have b: "block_size_for w = unat w + 16 + unat a"
      using round_up_16 [OF r [symmetric] rp] by (simp add: a block_size_for_def add.commute)
    have ov: "heapADD_WILL_OVERFLOW (w + 16) a \<longleftrightarrow> \<not> block_size_for w < 2 ^ 32"
    proof -
      have "unat (0xFFFFFFFF - a) = 4294967295 - unat a"
        using unat_u32_less [of a] by (subst unat_minus_le) (simp_all add: word_le_nat_alt)
      then show ?thesis using b w1 a by (auto simp: heapADD_WILL_OVERFLOW_def word_less_nat_alt)
    qed
    have "unat (w + 16 + a) = block_size_for w" if "block_size_for w < 2 ^ 32"
      using b w1 that by (subst unat_plus_no_wrap) simp_all
    with nz False assms ov show ?thesis
      by (simp add: required_size_def Let_def r_def [symmetric] a_def [symmetric])
  qed
qed

section \<open>Allocation\<close>

lemma free_bytes_mem: "(a, n, True) \<in> set segs \<Longrightarrow> unat n \<le> free_bytes segs"
  by (induction segs rule: frees.induct) auto

text \<open>Allocation takes the first free segment that is large enough, or fails if there is none.\<close>

lemma malloc_locked_rep:
  assumes rep: "heap_rep L h segs s e" and w: "0 < w"
  obtains (none) "malloc_locked L (required_size w) h = Some (0, h)"
      and "\<forall>a n. (a, n, True) \<in> set segs \<longrightarrow> unat n < block_size_for w"
  | (found) A a n B h' m where "segs = A @ (a, n, True) # B" and "block_size_for w \<le> unat n"
      and "\<forall>b k. (b, k, True) \<in> set A \<longrightarrow> unat k < block_size_for w"
      and "malloc_locked L (required_size w) h = Some (a + 16, h')"
      and "unat m = block_size_for w"
      and "heap_rep L h' (A @ (if 32 < n - m then [(a, m, False), (a + m, n - m, True)]
          else [(a, n, False)]) @ B) s e"
proof -
  define m where "m = required_size w"
  have en: "pxEnd h = e" "pxEnd h \<noteq> 0" using rep heap_rep_end(3) [OF rep] by (auto simp: heap_rep_def)
  have big: "unat n \<le> 0x100000" if "(a, n, f) \<in> set segs" for a n f
    using heap_rep_seg(1,2) [OF rep that] rep by (simp add: heap_rep_def)
  show thesis
  proof (cases "heapBLOCK_SIZE_IS_VALID m \<and> 0 < m \<and> m \<le> xFreeBytesRemaining h")
    case False
    have "unat n < block_size_for w" if seg: "(a, n, True) \<in> set segs" for a n
    proof (rule ccontr)
      assume "\<not> unat n < block_size_for w"
      then have le: "block_size_for w \<le> unat n" by simp
      with big [OF seg] have um: "unat m = block_size_for w"
        using required_size_eq [OF w] by (simp add: m_def)
      have "0 < m" using um block_size_for_bounds(1) [of w] by (simp add: word_less_nat_alt)
      moreover have "m \<le> xFreeBytesRemaining h"
        using um le free_bytes_mem [OF seg] rep by (simp add: heap_rep_def word_le_nat_alt)
      moreover have "heapBLOCK_SIZE_IS_VALID m"
        unfolding heapBLOCK_SIZE_IS_VALID_def and_msb using um le big [OF seg] by (intro bit_31) simp
      ultimately show False using False by blast
    qed
    moreover have "malloc_locked L m h = Some (0, h)"
      unfolding malloc_locked_def Let_def by (simp only: en(2) if_False False)
    ultimately show thesis using none by (simp add: m_def)
  next
    case True
    then have m0: "0 < m" by simp
    then have um: "unat m = block_size_for w"
      using required_size_eq [OF w] by (auto simp: m_def word_less_nat_alt split: if_splits)
    have cmp: "n < m \<longleftrightarrow> unat n < block_size_for w" for n by (simp add: um word_less_nat_alt)
    have first: "heapVALIDATE_BLOCK_POINTER L (next_free h (xStart L))"
    proof -
      have "next_free h (xStart L) = hd (map fst (frees segs) @ [e])"
        using flinks_at [of h "xStart L" "[]" "frees segs" e] rep by (simp add: heap_rep_def)
      moreover have "heapVALIDATE_BLOCK_POINTER L (hd (map fst (frees segs) @ [e]))"
      proof (cases "frees segs")
        case Nil
        then show ?thesis using heap_rep_end(1) [OF rep] by simp
      next
        case (Cons y ys)
        obtain b k where y: "y = (b, k)" by (cases y)
        then have "(b, k, True) \<in> set segs" using Cons frees_mem [of b k segs] by simp
        from heap_rep_seg(5) [OF rep this] show ?thesis by (simp add: Cons y)
      qed
      ultimately show ?thesis by simp
    qed
    from rep m0 show thesis
    proof (cases rule: find_block_first)
      case (none prev)
      with True en first have "malloc_locked L m h = Some (0, h)" by (simp add: malloc_locked_def Let_def)
      with none(2) that(1) show thesis by (simp add: m_def [symmetric] cmp)
    next
      case (found A a n B)
      have "(a, n, True) \<in> set segs" by (simp add: found(1))
      from heap_rep_seg(8) [OF rep this] have ae: "a \<noteq> e" .
      have "16 < unat m" "16 dvd unat m" using um block_size_for_bounds [of w] w
        by (simp_all add: word_less_nat_alt)
      from take_block_rep [OF rep [unfolded found(1)] found(2) this] obtain h' where
        t: "take_block L m (last_node (xStart L) (frees A)) a h = Some (a + 16, h')"
        and r: "heap_rep L h' (A @ (if 32 < n - m then [(a, m, False), (a + m, n - m, True)]
          else [(a, n, False)]) @ B) s e" by blast
      have "malloc_locked L m h = Some (a + 16, h')"
        using True en first found(4) t ae by (simp add: malloc_locked_def Let_def)
      with found r um that(2) [of A a n B h' m] show thesis
        by (simp add: m_def [symmetric] cmp not_less [symmetric])
    qed
  qed
qed

end
