(* ===== verification/Rtos_Heap_Free.thy ===== *)
theory Rtos_Heap_Free
  imports Rtos_Heap_Inv
begin

text \<open>
  Releasing a block of the RTOS heap: the place in the free list, coalescing with the
  neighbours on both sides, and the invariant afterwards; and the heap's initial state.
\<close>

section \<open>Finding the place\<close>

lemma find_place_rep:
  assumes fl: "flinks h (xStart L) (us @ vs) r" and lt: "\<forall>(b, k)\<in>set vs. b < a" and r: "\<not> r < a"
  shows "find_place a h (last_node (xStart L) us) = Some (last_node (xStart L) (us @ vs))"
  using fl lt
proof (induction vs arbitrary: us)
  case Nil
  then have "next_free h (last_node (xStart L) us) = r" using flinks_last by fastforce
  with r show ?case by (subst find_place.simps) simp
next
  case (Cons x vs)
  obtain b k where x: "x = (b, k)" by (cases x)
  have "next_free h (last_node (xStart L) us) = b"
    using Cons.prems(1) flinks_last [of h "xStart L" us b] by (simp add: x flinks_append)
  then have "find_place a h (last_node (xStart L) us) = find_place a h b"
    using Cons.prems(2) by (subst find_place.simps) (simp add: x)
  with Cons.IH [of "us @ [x]"] Cons.prems show ?case by (simp add: x)
qed

text \<open>What the insertion leaves in the headers, whatever it joins.\<close>

lemma insert_state:
  assumes place: "find_place a h (xStart L) = Some q"
    and ok: "q = xStart L \<or> heapVALIDATE_BLOCK_POINTER L q"
    and ne: "q \<noteq> a" "next_free h q \<noteq> q" "next_free h q \<noteq> a"
  defines "joined \<equiv> q + size_at h q = a"
  defines "x0 \<equiv> if joined then q else a"
    and "sz \<equiv> if joined then size_at h q + size_at h a else size_at h a"
    and "nx \<equiv> next_free h q"
  shows "\<exists>h'. prvInsertBlockIntoFreeList L a h = Some h' \<and> pxEnd h' = pxEnd h \<and>
    xFreeBytesRemaining h' = xFreeBytesRemaining h \<and>
    xMinimumEverFreeBytesRemaining h' = xMinimumEverFreeBytesRemaining h \<and>
    blk h' = (\<lambda>p. if p = x0 then
        \<lparr>pxNextFreeBlock = (if x0 + sz = nx \<and> nx \<noteq> pxEnd h then next_free h nx else nx),
         xBlockSize = (if x0 + sz = nx \<and> nx \<noteq> pxEnd h then sz + size_at h nx else sz)\<rparr>
      else if p = q then (blk h q)\<lparr>pxNextFreeBlock := a\<rparr> else blk h p)"
proof (cases joined)
  case True
  then show ?thesis
    using place ok ne unfolding joined_def x0_def sz_def nx_def
    by (auto simp: prvInsertBlockIntoFreeList_def merge_front_def merge_back_def Let_def fun_eq_iff)
next
  case False
  then show ?thesis
    using place ok ne unfolding joined_def x0_def sz_def nx_def
    by (auto simp: prvInsertBlockIntoFreeList_def merge_front_def merge_back_def Let_def fun_eq_iff)
qed

lemma flinks_suffix: "flinks h q (us @ vs) r \<Longrightarrow> flinks h (last_node q us) vs r"
  by (induction us arbitrary: q) auto

lemma flinks_back:
  assumes "flinks h y fs e" and "next_free h' x = hd (map fst fs @ [e])"
    and "\<And>p. p \<in> fst ` set fs \<Longrightarrow> blk h' p = blk h p"
  shows "flinks h' x fs e"
proof (cases fs)
  case (Cons b ys)
  obtain a n where b: "b = (a, n)" by (cases b)
  have "flinks h a ys e" using assms(1) by (simp add: Cons b)
  then have "flinks h' a ys e"
    by (rule flinks_frame) (use assms(3) Cons b in auto)
  with assms Cons b show ?thesis by simp
qed (use assms(2) in simp)

section \<open>Joining neighbours\<close>

definition join_front :: "seg list \<Rightarrow> u32 \<Rightarrow> u32 \<Rightarrow> seg list \<times> u32 \<times> u32" where
  "join_front A a n =
     (if A \<noteq> [] \<and> snd (snd (last A))
      then (butlast A, fst (last A), fst (snd (last A)) + n) else (A, a, n))"

definition join_back :: "u32 \<Rightarrow> seg list \<Rightarrow> u32 \<times> seg list" where
  "join_back n B = (case B of (b, m, True) # B' \<Rightarrow> (n + m, B') | _ \<Rightarrow> (n, B))"

definition release :: "seg list \<Rightarrow> u32 \<Rightarrow> u32 \<Rightarrow> seg list \<Rightarrow> seg list" where
  "release A a n B =
     (let (A', x, k) = join_front A a n; (k', B') = join_back k B in A' @ (x, k', True) # B')"

text \<open>The block in front touches the released one exactly when the segment before it is free.\<close>

lemma front_joins:
  assumes rep: "heap_rep L h (A @ (a, n, f) # B) s e"
  defines "q \<equiv> last_node (xStart L) (frees A)"
  shows "q + size_at h q = a \<longleftrightarrow> A \<noteq> [] \<and> snd (snd (last A))"
    and "A \<noteq> [] \<Longrightarrow> snd (snd (last A)) \<Longrightarrow> last A = (q, size_at h q, True)"
proof -
  from rep have t: "tiles s (A @ (a, n, f) # B) e" and xs: "size_at h (xStart L) = 0"
    and fl: "flinks h (xStart L) (frees A @ frees ((a, n, f) # B)) e" by (auto simp: heap_rep_def)
  note at = tiles_at [OF t]
  have front: "last A = (q, size_at h q, True) \<and> q + size_at h q = a"
    if ne: "A \<noteq> []" and free: "snd (snd (last A))"
  proof -
    obtain A' x k where A: "A = A' @ [(x, k, True)]"
      using ne free by (metis append_butlast_last_id prod.collapse)
    then have "q = x" by (simp add: q_def)
    moreover have "size_at h x = k"
      using flinks_size [OF fl, of x k] by (simp add: A)
    moreover have "x + k = a" using at(1) by (auto simp: A tiles_append)
    ultimately show ?thesis by (simp add: A)
  qed
  then show "A \<noteq> [] \<Longrightarrow> snd (snd (last A)) \<Longrightarrow> last A = (q, size_at h q, True)" by simp
  show "q + size_at h q = a \<longleftrightarrow> A \<noteq> [] \<and> snd (snd (last A))"
  proof
    assume eq: "q + size_at h q = a"
    from front_node(1) [OF rep, folded q_def] obtain k where qA: "(q, k, True) \<in> set A"
      using eq xs heap_rep_seg(6) [OF rep, of a n f] by auto
    have k: "size_at h q = k" using flinks_size [OF fl, of q k] qA by (simp add: frees_mem)
    from qA obtain A1 A2 where A: "A = A1 @ (q, k, True) # A2" by (meson split_list)
    have "A2 = []"
    proof (rule ccontr)
      assume "A2 \<noteq> []"
      moreover have "tiles (q + k) A2 a" using tiles_at(5) [OF at(1) [unfolded A]] .
      ultimately obtain y m g A3 where "A2 = (y, m, g) # A3" "16 < unat m" "unat (q + k) + unat m \<le> unat a"
        by (cases A2) auto
      with eq k show False by simp
    qed
    with A show "A \<noteq> [] \<and> snd (snd (last A))" by simp
  qed (use front in blast)
qed

text \<open>The next free block, or the end marker, follows directly exactly when it is the next segment.\<close>

lemma back_joins:
  assumes t: "tiles c B e"
  shows "hd (map fst (frees B) @ [e]) = c \<longleftrightarrow> B = [] \<or> snd (snd (hd B))"
proof (cases B)
  case (Cons y ys)
  obtain b m g where y: "y = (b, m, g)" by (cases y)
  from t have b: "b = c" and m: "16 < unat m" and le: "unat b + unat m \<le> unat e" and ty: "tiles (b + m) ys e"
    by (auto simp: Cons y)
  have bm: "unat (b + m) = unat b + unat m" using le by (rule unat_plus_le)
  show ?thesis
  proof (cases g)
    case False
    have "hd (map fst (frees ys) @ [e]) \<noteq> b"
    proof (cases "frees ys")
      case Nil
      have "e \<noteq> b" using le m by auto
      with Nil show ?thesis by simp
    next
      case fr: (Cons z zs)
      obtain x k where z: "z = (x, k)" by (cases z)
      have "(x, k, True) \<in> set ys" using fr z frees_mem [of x k ys] by simp
      from tiles_bounds(1) [OF ty this] bm m have "x \<noteq> b" by auto
      with fr z show ?thesis by simp
    qed
    with b False show ?thesis by (simp add: Cons y)
  qed (use b in \<open>simp add: Cons y\<close>)
qed (use t in auto)

lemma tiles_join:
  assumes "tiles x ((x, k, f) # (y, m, g) # R) e"
  shows "tiles x ((x, k + m, f') # R) e" "unat (k + m) = unat k + unat m"
proof -
  from assms have y: "y = x + k" and b: "16 < unat k" "16 dvd unat k" "unat x + unat k \<le> unat e"
    "16 < unat m" "16 dvd unat m" "unat y + unat m \<le> unat e" and r: "tiles (y + m) R e" by auto
  have "unat y = unat x + unat k" using b(3) unfolding y by (rule unat_plus_le)
  then have le: "unat x + (unat k + unat m) \<le> unat e" using b(6) by simp
  then show km: "unat (k + m) = unat k + unat m" by (intro unat_plus_le [of k m e]) simp
  show "tiles x ((x, k + m, f') # R) e" using b km le r by (simp add: y add.assoc)
qed

lemma front_result:
  assumes t: "tiles s (A @ (a, n, f) # B) e" and co: "coalesced A" and jf: "join_front A a n = (A', x, k)"
  shows "tiles s A' x" "tiles x ((x, k, True) # B) e" "free_bytes A' + unat k = free_bytes A + unat n"
    "coalesced (A' @ [(x, k', True)])" "x + k = a + n" "set A' \<subseteq> set A" "unat x \<le> unat a"
proof -
  note at = tiles_at [OF t]
  have "tiles s A' x \<and> tiles x ((x, k, True) # B) e \<and> free_bytes A' + unat k = free_bytes A + unat n \<and>
    coalesced (A' @ [(x, k', True)]) \<and> x + k = a + n \<and> set A' \<subseteq> set A \<and> unat x \<le> unat a"
  proof (cases "A \<noteq> [] \<and> snd (snd (last A))")
    case True
    then obtain A0 y m where A: "A = A0 @ [(y, m, True)]"
      by (metis append_butlast_last_id prod.collapse)
    with jf have eq: "A' = A0" "x = y" "k = m + n" by (auto simp: join_front_def)
    from t A obtain c where c: "tiles s A0 c" "tiles c ((y, m, True) # (a, n, f) # B) e"
      by (auto simp: tiles_append simp del: tiles.simps)
    then have cy: "c = y" by simp
    note j = tiles_join [OF c(2) [unfolded cy]]
    have ya: "y + m = a" using c(2) by simp
    then have "unat y + unat m = unat a" using unat_plus_le [of y m e] c(2) by auto
    with c j cy A co ya show ?thesis
      by (auto simp: eq coalesced_append add.assoc [symmetric])
  next
    case False
    then have eq: "A' = A" "x = a" "k = n" using jf by (auto simp: join_front_def split: if_splits)
    have "unat a + unat n \<le> unat e" using at(4,7) by simp
    with at False co show ?thesis by (auto simp: eq coalesced_append)
  qed
  then show "tiles s A' x" "tiles x ((x, k, True) # B) e" "free_bytes A' + unat k = free_bytes A + unat n"
    "coalesced (A' @ [(x, k', True)])" "x + k = a + n" "set A' \<subseteq> set A" "unat x \<le> unat a"
    by blast+
qed

lemma back_result:
  assumes t: "tiles x ((x, k, True) # B) e" and co: "coalesced B" and jb: "join_back k B = (k', B')"
  shows "tiles x ((x, k', True) # B') e" "unat k' + free_bytes B' = unat k + free_bytes B"
    "coalesced ((x, k', True) # B')" "set B' \<subseteq> set B"
proof -
  have "tiles x ((x, k', True) # B') e \<and> unat k' + free_bytes B' = unat k + free_bytes B \<and>
    coalesced ((x, k', True) # B') \<and> set B' \<subseteq> set B"
  proof (cases "B \<noteq> [] \<and> snd (snd (hd B))")
    case True
    then obtain b m R where B: "B = (b, m, True) # R" by (cases B) auto
    with jb have eq: "k' = k + m" "B' = R" by (auto simp: join_back_def)
    note j = tiles_join(1) [OF t [unfolded B], of True] tiles_join(2) [OF t [unfolded B]]
    have "coalesced ((x, k + m, True) # R)" using co by (cases R) (auto simp: B)
    with j show ?thesis by (auto simp: eq B)
  next
    case False
    then have eq: "k' = k" "B' = B" using jb by (auto simp: join_back_def split: list.splits bool.splits)
    have "coalesced ((x, k, True) # B)" using co False by (cases B) auto
    with t show ?thesis by (simp add: eq)
  qed
  then show "tiles x ((x, k', True) # B') e" "unat k' + free_bytes B' = unat k + free_bytes B"
    "coalesced ((x, k', True) # B')" "set B' \<subseteq> set B" by blast+
qed

section \<open>Release keeps the invariant\<close>

lemma insert_rep:
  assumes rep: "heap_rep L h (A @ (a, n, False) # B) s e"
  defines "h2 \<equiv> (upd_blk a heapFREE_BLOCK h)\<lparr>xFreeBytesRemaining := xFreeBytesRemaining h + n\<rparr>"
  shows "\<exists>h'. prvInsertBlockIntoFreeList L a h2 = Some h' \<and> heap_rep L h' (release A a n B) s e"
proof -
  define q where "q = last_node (xStart L) (frees A)"
  define nx where "nx = hd (map fst (frees B) @ [e])"
  note front = front_node [OF rep, folded q_def]
  from rep have t: "tiles s (A @ (a, n, False) # B) e" and lay: "layout_ok L"
    and co: "coalesced (A @ (a, n, False) # B)"
    and lo: "unat (ucHeap L) \<le> unat s" and hi: "unat e + 16 \<le> unat (ucHeap L) + 0x100000"
    and al: "16 dvd unat s"
    and en: "pxEnd h = e" "blk h e = \<lparr>pxNextFreeBlock = 0, xBlockSize = 0\<rparr>"
    and xs: "size_at h (xStart L) = 0"
    and fl: "flinks h (xStart L) (frees A @ frees B) e"
    and hdr: "\<forall>b m. (b, m, False) \<in> set (A @ (a, n, False) # B) \<longrightarrow> blk h b = allocated_header m"
    and fr: "unat (xFreeBytesRemaining h) = free_bytes (A @ (a, n, False) # B)"
    and mn: "xMinimumEverFreeBytesRemaining h \<le> xFreeBytesRemaining h"
    by (auto simp: heap_rep_def)
  note at = tiles_at [OF t]
  have coA: "coalesced A" and coB: "coalesced B" using co by (cases B; auto simp: coalesced_append)+
  have seg: "(a, n, False) \<in> set (A @ (a, n, False) # B)" by simp
  note as = heap_rep_seg [OF rep seg]
  have n31: "unat n < 2147483648" using as(1,2) lo hi by linarith
  have qp: "unat q < unat a \<or> unat e < unat q" using front(3) [OF front(4)] by (meson not_le)
  have qa: "q \<noteq> a" using qp as(2,3) by auto
  have blk2: "blk h2 = (blk h)(a := \<lparr>pxNextFreeBlock = 0, xBlockSize = n\<rparr>)"
    using hdr msb_clear [OF n31]
    by (auto simp: h2_def fun_eq_iff heapFREE_BLOCK_def allocated_header_def)
  have nodeB: "unat (a + n) \<le> unat b \<and> unat b < unat e" if "(b, m, f) \<in> set B" for b m f
    using tiles_bounds(1,2,3) [OF at(5) that] by simp
  have neB: "b \<noteq> a \<and> b \<noteq> q" if "(b, m, f) \<in> set B" for b m f
    using nodeB [OF that] at(2,4) qp by auto
  have neA: "b \<noteq> a" if "(b, m, f) \<in> set A" for b m f using tiles_before(3) [OF at(1) that] .
  have nfA: "a \<notin> fst ` set (frees A)"
  proof
    assume "a \<in> fst ` set (frees A)"
    then obtain k where "(a, k, True) \<in> set A" by (auto simp: frees_mem)
    with neA show False by blast
  qed
  have nfB: "a \<notin> fst ` set (frees B)" "q \<notin> fst ` set (frees B)"
  proof -
    have False if "(x, k) \<in> set (frees B)" "x = a \<or> x = q" for x k
      using neB [of x k True] that by (auto simp: frees_mem)
    then show "a \<notin> fst ` set (frees B)" "q \<notin> fst ` set (frees B)" by force+
  qed
  have nx: "unat a < unat nx" "unat nx \<le> unat e" "nx = e \<or> (\<exists>m. (nx, m, True) \<in> set B)"
  proof -
    show m: "nx = e \<or> (\<exists>m. (nx, m, True) \<in> set B)"
    proof (cases "frees B")
      case (Cons z zs)
      obtain x k where z: "z = (x, k)" by (cases z)
      then have "(x, k, True) \<in> set B" using Cons frees_mem [of x k B] by simp
      with Cons z show ?thesis by (auto simp: nx_def)
    qed (simp add: nx_def)
    have "unat a < unat nx \<and> unat nx \<le> unat e"
      using m
    proof (elim disjE exE)
      fix m assume "(nx, m, True) \<in> set B"
      from nodeB [OF this] at(2,4) show ?thesis by simp
    qed (use at(2,4,7) in simp)
    then show "unat a < unat nx" "unat nx \<le> unat e" by simp_all
  qed
  have fl2: "flinks h2 (xStart L) (frees A @ frees B) e"
  proof (rule flinks_frame [OF fl])
    fix p assume "p \<in> set (xStart L # map fst (frees A @ frees B))"
    then have "p \<noteq> a" using as(6) nfA nfB by auto
    then show "next_free h2 p = next_free h p" by (simp add: blk2)
  next
    fix p assume "p \<in> fst ` set (frees A @ frees B)"
    then have "p \<noteq> a" using nfA nfB by auto
    then show "size_at h2 p = size_at h p" by (simp add: blk2)
  qed
  have nq: "next_free h2 q = nx" using flinks_at [OF fl2] by (simp add: q_def nx_def)
  have place: "find_place a h2 (xStart L) = Some q"
  proof -
    have "flinks h2 (xStart L) ([] @ frees A) nx"
    proof (cases "frees B")
      case Nil
      with fl2 show ?thesis by (simp add: nx_def)
    next
      case (Cons z zs)
      with fl2 show ?thesis by (cases z) (simp add: nx_def flinks_append)
    qed
    moreover have "\<forall>(b, k)\<in>set (frees A). b < a"
      using tiles_before(2) [OF at(1)] by (auto simp: frees_mem word_less_nat_alt)
    moreover have "\<not> nx < a" using nx(1) by (simp add: word_less_nat_alt)
    ultimately show ?thesis using find_place_rep [of h2 L "[]" "frees A" nx a] by (simp add: q_def)
  qed
  have okq: "q = xStart L \<or> heapVALIDATE_BLOCK_POINTER L q"
    using front(1) heap_rep_seg(5) [OF rep, of q _ True] by auto
  obtain A' x0 k where jf: "join_front A a n = (A', x0, k)" by (cases "join_front A a n")
  obtain k' B' where jb: "join_back k B = (k', B')" by (cases "join_back k B")
  note fres = front_result [OF t coA jf]
  note bres = back_result [OF fres(2) coB jb]
  have sizeq: "size_at h2 q = size_at h q" and sizea: "size_at h2 a = n" using qa by (simp_all add: blk2)
  have joined: "q + size_at h2 q = a \<longleftrightarrow> A \<noteq> [] \<and> snd (snd (last A))"
    using front_joins(1) [OF rep, folded q_def] by (simp add: sizeq)
  have x0: "(if q + size_at h2 q = a then q else a) = x0"
    and sz: "(if q + size_at h2 q = a then size_at h2 q + size_at h2 a else size_at h2 a) = k"
    using jf front_joins(2) [OF rep, folded q_def] joined
    by (auto simp: join_front_def sizeq sizea split: if_splits)
  have nxne: "nx \<noteq> q" "nx \<noteq> a" using nx qp by auto
  obtain h' where ins: "prvInsertBlockIntoFreeList L a h2 = Some h'" and en': "pxEnd h' = pxEnd h2"
    and fr': "xFreeBytesRemaining h' = xFreeBytesRemaining h2"
    and mn': "xMinimumEverFreeBytesRemaining h' = xMinimumEverFreeBytesRemaining h2"
    and blk': "blk h' = (\<lambda>p. if p = x0 then
        \<lparr>pxNextFreeBlock = (if x0 + k = nx \<and> nx \<noteq> pxEnd h2 then next_free h2 nx else nx),
         xBlockSize = (if x0 + k = nx \<and> nx \<noteq> pxEnd h2 then k + size_at h2 nx else k)\<rparr>
      else if p = q then (blk h2 q)\<lparr>pxNextFreeBlock := a\<rparr> else blk h2 p)"
    using insert_state [OF place okq qa, unfolded nq x0 sz, OF nxne] by blast
  have e2: "pxEnd h2 = e" using en by (simp add: h2_def)
  have nback: "(if x0 + k = nx \<and> nx \<noteq> e then next_free h2 nx else nx) = hd (map fst (frees B') @ [e])"
    "(if x0 + k = nx \<and> nx \<noteq> e then k + size_at h2 nx else k) = k'"
  proof -
    have bj: "nx = a + n \<longleftrightarrow> B = [] \<or> snd (snd (hd B))" using back_joins [OF at(5)] by (simp add: nx_def)
    have "(if x0 + k = nx \<and> nx \<noteq> e then next_free h2 nx else nx) = hd (map fst (frees B') @ [e]) \<and>
      (if x0 + k = nx \<and> nx \<noteq> e then k + size_at h2 nx else k) = k'"
    proof (cases "B \<noteq> [] \<and> snd (snd (hd B))")
      case True
      then obtain b m R where B: "B = (b, m, True) # R" by (cases B) auto
      have nxb: "nx = b" by (simp add: nx_def B)
      have "b \<noteq> e" using nodeB [of b m True] B by auto
      moreover have "x0 + k = nx" using bj True fres(5) by simp
      moreover have "size_at h2 b = m" using flinks_size [OF fl2, of b m] by (simp add: B)
      moreover have "next_free h2 b = hd (map fst (frees R) @ [e])"
        using flinks_at [of h2 "xStart L" "frees A @ [(b, m)]" "frees R" e] fl2 by (simp add: B)
      moreover have "k' = k + m" "B' = R" using jb by (auto simp: B join_back_def)
      ultimately show ?thesis using nxb by simp
    next
      case False
      then have eq: "k' = k" "B' = B" using jb by (auto simp: join_back_def split: list.splits bool.splits)
      have "\<not> (x0 + k = nx \<and> nx \<noteq> e)" using bj False fres(5) by (auto simp: nx_def)
      then show ?thesis unfolding eq nx_def [symmetric] by (simp only: if_False simp_thms)
    qed
    then show "(if x0 + k = nx \<and> nx \<noteq> e then next_free h2 nx else nx) = hd (map fst (frees B') @ [e])"
      "(if x0 + k = nx \<and> nx \<noteq> e then k + size_at h2 nx else k) = k'" by blast+
  qed
  have blk'': "blk h' = (\<lambda>p. if p = x0 then \<lparr>pxNextFreeBlock = hd (map fst (frees B') @ [e]), xBlockSize = k'\<rparr>
      else if p = q then (blk h2 q)\<lparr>pxNextFreeBlock := a\<rparr> else blk h2 p)"
    unfolding blk' e2 nback ..
  have x0a: "x0 = q \<or> x0 = a" using x0 by metis
  have same: "blk h' p = blk h p" if "p \<noteq> q" "p \<noteq> a" for p
    using that x0a by (auto simp: blk'' blk2)
  have xsx: "xStart L \<noteq> x0"
  proof (cases "q + size_at h2 q = a")
    case True
    then have "x0 = q" "q \<noteq> xStart L"
      using x0 xs as(6) sizeq by auto
    then show ?thesis by simp
  next
    case False
    then show ?thesis using x0 as(6) by auto
  qed
  have f1: "flinks h' (xStart L) (frees A') x0"
  proof (cases "A \<noteq> [] \<and> snd (snd (last A))")
    case True
    then have "last A = (q, size_at h q, True)" using front_joins(2) [OF rep, folded q_def] by simp
    with True jf have A: "A = A' @ [(q, size_at h q, True)]" and "x0 = q"
      by (auto simp: join_front_def) (metis append_butlast_last_id)
    have d: "distinct (xStart L # map fst (frees A') @ [q])" using front(2) by (simp add: A)
    have "flinks h (xStart L) (frees A') q" using fl by (simp add: A flinks_append)
    then have "flinks h' (xStart L) (frees A') q"
    proof (rule flinks_frame)
      fix p assume p: "p \<in> set (xStart L # map fst (frees A'))"
      have "p \<noteq> a" using p as(6) nfA by (auto simp: A)
      moreover have "p \<noteq> q" using p d by auto
      ultimately show "next_free h' p = next_free h p" using same by simp
    next
      fix p assume p: "p \<in> fst ` set (frees A')"
      have "p \<noteq> a" using p nfA by (auto simp: A)
      moreover have "p \<noteq> q" using p d by auto
      ultimately show "size_at h' p = size_at h p" using same by simp
    qed
    with \<open>x0 = q\<close> show ?thesis by simp
  next
    case False
    then have eq: "A' = A" "x0 = a" using jf by (auto simp: join_front_def split: if_splits)
    have "flinks h (xStart L) (frees A) nx"
    proof (cases "frees B")
      case Nil
      with fl show ?thesis by (simp add: nx_def)
    next
      case (Cons z zs)
      with fl show ?thesis by (cases z) (simp add: nx_def flinks_append)
    qed
    then have "flinks h' (xStart L) (frees A) a"
    proof (rule flinks_front [OF rep, folded q_def])
      show "next_free h' q = a" "size_at h' q = size_at h q" using qa eq(2) by (simp_all add: blk'' blk2)
      show "blk h' p = blk h p" if "p \<noteq> q" "unat p < unat a \<or> unat e < unat p" for p
        using that as(2) by (intro same) auto
    qed
    with eq show ?thesis by simp
  qed
  have f2: "flinks h' x0 (frees B') e"
  proof -
    have "\<exists>y. flinks h y (frees B') e"
    proof -
      have all: "\<exists>y. flinks h y (frees B) e" using flinks_suffix [OF fl] by blast
      show ?thesis
      proof (cases "B' = B")
        case False
        then obtain b m where "B = (b, m, True) # B'"
          using jb by (auto simp: join_back_def split: list.splits bool.splits)
        with all show ?thesis by auto
      qed (use all in simp)
    qed
    then obtain y where "flinks h y (frees B') e" by blast
    then show ?thesis
    proof (rule flinks_back)
      show "next_free h' x0 = hd (map fst (frees B') @ [e])" by (simp add: blk'')
      fix p assume "p \<in> fst ` set (frees B')"
      then obtain m where "(p, m, True) \<in> set B" using bres(4) by (auto simp: frees_mem)
      with neB same show "blk h' p = blk h p" by blast
    qed
  qed
  have rel: "release A a n B = A' @ (x0, k', True) # B'" by (simp add: release_def jf jb)
  have "heap_rep L h' (A' @ (x0, k', True) # B') s e"
    unfolding heap_rep_def
  proof (intro conjI allI impI)
    show "tiles s (A' @ (x0, k', True) # B') e" using fres(1) bres(1) tiles_append by blast
    show "coalesced (A' @ (x0, k', True) # B')"
      using fres(4) bres(3) by (auto simp: coalesced_append)
    show "blk h' e = \<lparr>pxNextFreeBlock = 0, xBlockSize = 0\<rparr>"
    proof -
      have "e \<noteq> q" using qp as(2) by auto
      then show ?thesis using same [of e] en(2) as(8) by auto
    qed
    show "size_at h' (xStart L) = 0" using xsx xs as(6) by (auto simp: blk'' blk2)
    show "flinks h' (xStart L) (frees (A' @ (x0, k', True) # B')) e"
      using f1 f2 by (simp add: flinks_append blk'')
    show "blk h' b = allocated_header m" if "(b, m, False) \<in> set (A' @ (x0, k', True) # B')" for b m
    proof -
      have ab: "(b, m, False) \<in> set A \<or> (b, m, False) \<in> set B" using that fres(6) bres(4) by auto
      have "b \<noteq> q"
      proof
        assume bq: "b = q"
        from ab show False
        proof
          assume bA: "(b, m, False) \<in> set A"
          from front(1) show False
          proof (elim disjE exE)
            assume "q = xStart L"
            with heap_rep_seg(6) [OF rep, of b m False] bA bq show False by simp
          next
            fix k assume "(q, k, True) \<in> set A"
            with tiles_unique [OF at(1) bA, of k True] bq show False by simp
          qed
        qed (use neB bq in blast)
      qed
      moreover have "b \<noteq> a" using ab neA neB by blast
      ultimately show ?thesis using same hdr ab by auto
    qed
    have "n + xFreeBytesRemaining h = xFreeBytesRemaining h + n" by simp
    have le: "free_bytes (A @ (a, n, True) # B) \<le> unat e"
      using tiles_total [of s "A @ (a, n, True) # B" e] t by (simp add: tiles_append)
    have u: "unat (xFreeBytesRemaining h + n) = unat (xFreeBytesRemaining h) + unat n"
      using fr le unat_u32_less [of e] by (intro unat_plus_no_wrap) simp
    show "unat (xFreeBytesRemaining h') = free_bytes (A' @ (x0, k', True) # B')"
      unfolding fr' using u fr fres(3) bres(2) by (simp add: h2_def)
    show "xMinimumEverFreeBytesRemaining h' \<le> xFreeBytesRemaining h'"
      unfolding fr' mn' using mn u by (simp add: h2_def word_le_nat_alt)
  qed (use lay lo hi al en' e2 in simp_all)
  with ins rel show ?thesis by simp
qed

lemma vPortFree_rep:
  assumes rep: "heap_rep L h (A @ (a, n, False) # B) s e"
  shows "\<exists>h'. vPortFree L (a + 16) h = Some h' \<and> heap_rep L h' (release A a n B) s e"
proof -
  have seg: "(a, n, False) \<in> set (A @ (a, n, False) # B)" by simp
  note as = heap_rep_seg [OF rep seg]
  have lo: "unat (ucHeap L) \<le> unat s" and hi: "unat e + 16 \<le> unat (ucHeap L) + 0x100000"
    using rep by (simp_all add: heap_rep_def)
  have hdr: "blk h a = allocated_header n" using rep by (auto simp: heap_rep_def)
  have n31: "unat n < 2147483648" using as(1,2) lo hi by linarith
  have pv: "a + 16 \<noteq> 0"
  proof -
    have "unat (a + 16) = unat a + 16" using as(2,3) unat_plus_le [of a 16 e] by simp
    then show ?thesis by auto
  qed
  from insert_rep [OF rep] obtain h' where
    i: "prvInsertBlockIntoFreeList L a ((upd_blk a heapFREE_BLOCK h)
      \<lparr>xFreeBytesRemaining := xFreeBytesRemaining h + n\<rparr>) = Some h'"
    and r: "heap_rep L h' (release A a n B) s e" by blast
  have "heapBLOCK_IS_ALLOCATED (blk h a)" "next_free h a = 0"
    using hdr msb_set by (simp_all add: heapBLOCK_IS_ALLOCATED_def allocated_header_def)
  moreover have "size_at (upd_blk a heapFREE_BLOCK h) a = n"
    using hdr msb_clear [OF n31] by (simp add: heapFREE_BLOCK_def allocated_header_def)
  ultimately have "vPortFree L (a + 16) h =
      Some (h'\<lparr>xNumberOfSuccessfulFrees := xNumberOfSuccessfulFrees h' + 1\<rparr>)"
    using pv as(5) i by (simp add: vPortFree_def Let_def)
  moreover have "heap_rep L (h'\<lparr>xNumberOfSuccessfulFrees := xNumberOfSuccessfulFrees h' + 1\<rparr>) (release A a n B) s e"
  proof -
    have "flinks (h'\<lparr>xNumberOfSuccessfulFrees := v\<rparr>) q us r = flinks h' q us r" for v q us r
      by (induction us arbitrary: q) auto
    with r show ?thesis by (simp add: heap_rep_def)
  qed
  ultimately show ?thesis by blast
qed

end
