(* ===== verification/Rtos_Heap_Props.thy ===== *)
theory Rtos_Heap_Props
  imports Rtos_Heap_Free
begin

text \<open>
  The properties of the RTOS heap: its initial state, what allocation and release guarantee, when
  allocation fails, and that an allocation followed by its release leaves no trace.
\<close>

section \<open>The initial heap\<close>

lemma and_not_15: "unat ((x :: u32) AND NOT 15) = 16 * (unat x div 16)"
proof -
  have m: "(15 :: u32) = Bit_Operations.mask 4" by (simp add: mask_eq_exp_minus_1)
  have "x AND NOT 15 = push_bit 4 (drop_bit 4 x)"
    unfolding m by (rule bit_word_eqI)
      (auto simp: bit_and_iff bit_not_iff bit_mask_iff bit_push_bit_iff bit_drop_bit_eq)
  moreover have "push_bit 4 (drop_bit 4 x) = 16 * (x div 16)"
    by (simp add: push_bit_eq_mult drop_bit_eq_div)
  moreover have "unat (16 * (x div 16)) = 16 * (unat x div 16)"
  proof -
    have "unat (x div 16) = unat x div 16" by (simp add: unat_div)
    moreover have "16 * (unat x div 16) \<le> unat x" by simp
    ultimately show ?thesis using unat_u32_less [of x] by (subst unat_mult_no_wrap) simp_all
  qed
  ultimately show ?thesis by simp
qed

lemma prvHeapInit_rep:
  assumes lay: "layout_ok L"
  shows "\<exists>s e. heap_rep L (prvHeapInit L h) [(s, e - s, True)] s e \<and> unat e - unat s \<ge> 0xFFFD0 \<and>
    s = (ucHeap L + 15) AND NOT 15 \<and> e = (ucHeap L + configTOTAL_HEAP_SIZE - xHeapStructSize) AND NOT 15"
proof -
  let ?u = "unat (ucHeap L)"
  define s where "s = (ucHeap L + 15) AND NOT 15"
  have u15: "unat (ucHeap L + 15) = ?u + 15"
    using lay by (subst unat_plus_no_wrap) (simp_all add: layout_ok_def)
  have us: "unat s = 16 * ((?u + 15) div 16)" by (simp only: s_def and_not_15 u15)
  have sb: "?u \<le> unat s" "unat s < ?u + 16" "16 dvd unat s" by (simp_all add: us)
  have al: "s = ucHeap L" if "ucHeap L AND 15 = 0"
  proof (rule word_eq_unatI)
    from that have "16 dvd ?u" by (simp add: and_15)
    then obtain k where "?u = 16 * k" by blast
    then show "unat s = ?u" by (simp add: us)
  qed
  have le: "ucHeap L \<le> s" using sb by (simp add: word_le_nat_alt)
  have tot: "s + (if ucHeap L AND 15 \<noteq> 0 then configTOTAL_HEAP_SIZE - (s - ucHeap L) else configTOTAL_HEAP_SIZE)
      = ucHeap L + configTOTAL_HEAP_SIZE"
    using al by auto
  define e where "e = (ucHeap L + configTOTAL_HEAP_SIZE - xHeapStructSize) AND NOT 15"
  have ub: "unat (ucHeap L + configTOTAL_HEAP_SIZE - xHeapStructSize) = ?u + 0xFFFF0"
  proof -
    have "unat (ucHeap L + 0xFFFF0) = ?u + 0xFFFF0"
      using lay by (subst unat_plus_no_wrap) (simp_all add: layout_ok_def)
    moreover have "ucHeap L + configTOTAL_HEAP_SIZE - xHeapStructSize = ucHeap L + 0xFFFF0" by simp
    ultimately show ?thesis by (simp only:)
  qed
  have ue: "unat e = 16 * ((?u + 0xFFFF0) div 16)" by (simp only: e_def and_not_15 ub)
  have eb: "unat e \<le> ?u + 0xFFFF0" "?u + 0xFFFF0 < unat e + 16" "16 dvd unat e" by (simp_all add: ue)
  have se: "unat s + 0xFFFD0 \<le> unat e" using sb eb by linarith
  have n: "unat (e - s) = unat e - unat s" using se by (subst unat_minus_le) (simp_all add: word_le_nat_alt)
  define h' where "h' = prvHeapInit L h"
  have "unat (ucHeap L) \<le> unat s" "unat s < unat (ucHeap L) + 0x100000" using sb by linarith+
  note hs = in_heap [OF lay this]
  have "unat (ucHeap L) \<le> unat e" "unat e < unat (ucHeap L) + 0x100000" using sb eb se by linarith+
  note he = in_heap [OF lay this]
  have ne: "s \<noteq> e" using se by auto
  have start: "(if ucHeap L AND 15 \<noteq> 0 then (ucHeap L + (portBYTE_ALIGNMENT - 1)) AND NOT 15 else ucHeap L) = s"
    using al by (simp add: s_def)
  have h': "h' = (let h1 = set_block_size (xStart L) 0 (set_next_free (xStart L) s h);
          h2 = set_next_free e 0 (set_block_size e 0 (h1\<lparr>pxEnd := e\<rparr>));
          h3 = set_next_free s e (set_block_size s (e - s) h2)
      in h3\<lparr>xMinimumEverFreeBytesRemaining := size_at h3 s, xFreeBytesRemaining := size_at h3 s\<rparr>)"
    unfolding h'_def prvHeapInit_def Let_def start tot e_def ..
  have "blk h' (xStart L) = \<lparr>pxNextFreeBlock = s, xBlockSize = 0\<rparr>" "blk h' e = \<lparr>pxNextFreeBlock = 0, xBlockSize = 0\<rparr>"
    "blk h' s = \<lparr>pxNextFreeBlock = e, xBlockSize = e - s\<rparr>" "pxEnd h' = e" "xFreeBytesRemaining h' = e - s"
    "xMinimumEverFreeBytesRemaining h' = e - s"
    using ne hs(2) he(2) by (simp_all add: h' Let_def)
  then have "heap_rep L h' [(s, e - s, True)] s e"
    using lay sb eb se n by (simp add: heap_rep_def dvd_diff_nat)
  then show ?thesis using se unfolding h'_def s_def e_def by force
qed

section \<open>Allocated segments\<close>

fun allocs :: "seg list \<Rightarrow> (u32 \<times> u32) list" where
  "allocs [] = []"
| "allocs ((a, n, f) # r) = (if f then allocs r else (a, n) # allocs r)"

lemma allocs_append [simp]: "allocs (A @ B) = allocs A @ allocs B"
  by (induction A rule: allocs.induct) auto

lemma allocs_mem: "(a, n) \<in> set (allocs segs) \<longleftrightarrow> (a, n, False) \<in> set segs"
  by (induction segs rule: allocs.induct) auto

lemma allocs_release: "allocs (release A a n B) = allocs A @ allocs B"
proof -
  have f: "allocs A' = allocs A" if "join_front A a n = (A', x, k)" for A' x k
  proof (cases "A \<noteq> [] \<and> snd (snd (last A))")
    case True
    then obtain A0 y m where "A = A0 @ [(y, m, True)]" by (metis append_butlast_last_id prod.collapse)
    with that show ?thesis by (auto simp: join_front_def)
  next
    case False
    with that show ?thesis by (auto simp: join_front_def split: if_splits)
  qed
  have b: "allocs B' = allocs B" if "join_back k B = (k', B')" for k k' B'
    using that by (auto simp: join_back_def split: list.splits bool.splits)
  show ?thesis
    by (auto simp: release_def Let_def split: prod.splits dest!: f b)
qed

lemma pvPortMalloc_rep:
  assumes rep: "heap_rep L h segs s e" and w: "0 < w"
  obtains (none) "pvPortMalloc L w h = None"
      and "\<forall>a n. (a, n, True) \<in> set segs \<longrightarrow> unat n < block_size_for w"
  | (found) A a n B h' m where "segs = A @ (a, n, True) # B" and "block_size_for w \<le> unat n"
      and "pvPortMalloc L w h = Some (a + 16, h')" and "16 dvd unat (a + 16)" and "unat m = block_size_for w"
      and "heap_rep L h' (A @ (if 32 < n - m then [(a, m, False), (a + m, n - m, True)]
          else [(a, n, False)]) @ B) s e"
  using rep w
proof (cases rule: malloc_locked_rep)
  case none
  then have "pvPortMalloc L w h = None" by (simp add: pvPortMalloc_def)
  with none(2) that(1) show thesis by blast
next
  case (found A a n B h' m)
  from rep have t: "tiles s (A @ (a, n, True) # B) e" and al: "16 dvd unat s" by (simp_all add: heap_rep_def found(1))
  note at = tiles_at [OF t]
  have a16: "unat (a + 16) = unat a + 16" using at(2,4,7) unat_plus_le [of a 16 e] by simp
  then have d: "16 dvd unat (a + 16)" using tiles_aligned [OF at(1) al] by simp
  moreover have "a + 16 \<noteq> 0" using a16 by auto
  ultimately have "pvPortMalloc L w h = Some (a + 16, h')"
    using found(4) by (simp add: pvPortMalloc_def and_15)
  with found d that(2) show thesis by blast
qed

lemma pvPortMalloc_0: "heap_rep L h segs s e \<Longrightarrow> pvPortMalloc L 0 h = None"
  using heap_rep_end(3) [of L h segs s e]
  by (auto simp: pvPortMalloc_def malloc_locked_def required_size_def heap_rep_def)

text \<open>The two shapes of the result differ only in whether the rest of the block is given back.\<close>

definition carve :: "seg list \<Rightarrow> u32 \<Rightarrow> u32 \<Rightarrow> u32 \<Rightarrow> seg list \<Rightarrow> seg list" where
  "carve A a n m B =
     A @ (if 32 < n - m then [(a, m, False), (a + m, n - m, True)] else [(a, n, False)]) @ B"

lemma carve_allocs:
  "allocs (carve A a n m B) = allocs A @ (a, if 32 < n - m then m else n) # allocs B"
  by (simp add: carve_def)

lemma release_carve:
  assumes co: "coalesced (A @ (a, n, True) # B)" and mn: "m \<le> n"
  shows "\<exists>C. carve A a n m B = A @ (a, if 32 < n - m then m else n, False) # C \<and>
    release A a (if 32 < n - m then m else n) C = A @ (a, n, True) # B"
proof -
  have jf: "join_front A a k = (A, a, k)" for k
    using co by (auto simp: join_front_def coalesced_append)
  have jb: "join_back k B = (k, B)" for k
    using co by (cases B) (auto simp: join_back_def coalesced_append split: bool.splits)
  show ?thesis
  proof (cases "32 < n - m")
    case True
    have "m + (n - m) = n" by simp
    with True jf show ?thesis by (simp add: carve_def release_def join_back_def)
  next
    case False
    with jf jb show ?thesis by (simp add: carve_def release_def)
  qed
qed

lemma coalesced_all_free: "coalesced segs \<Longrightarrow> allocs segs = [] \<Longrightarrow> length segs \<le> 1"
  by (induction segs rule: coalesced.induct) (auto split: if_splits)

lemma fresh_malloc:
  "pxEnd h = 0 \<Longrightarrow> heap_rep L (prvHeapInit L h) segs s e \<Longrightarrow> pvPortMalloc L w h = pvPortMalloc L w (prvHeapInit L h)"
  using heap_rep_end(3) [of L "prvHeapInit L h" segs s e]
  by (simp add: pvPortMalloc_def malloc_locked_def heap_rep_def)

lemma malloc_one_block:
  assumes rep: "heap_rep L h [(s, n, True)] s e" and w: "0 < w" and room: "block_size_for w \<le> unat n"
  shows "\<exists>h' m. pvPortMalloc L w h = Some (s + 16, h') \<and> unat m = block_size_for w \<and>
    heap_rep L h' (carve [] s n m []) s e"
  using rep w
proof (cases rule: pvPortMalloc_rep)
  case none
  with room show ?thesis by force
next
  case (found A a k B h' m)
  then have "A = []" "a = s" "k = n" "B = []" by (auto simp: Cons_eq_append_conv)
  with found show ?thesis by (auto simp: carve_def)
qed

text \<open>A concrete heap for the witnesses: the linker has put \<open>ucHeap\<close> 8 bytes off its alignment.\<close>

definition demo_layout :: layout where
  "demo_layout = \<lparr>xStart = 0x80000800, ucHeap = 0x80001008\<rparr>"

definition zero_heap :: heap where
  "zero_heap = \<lparr>blk = (\<lambda>_. \<lparr>pxNextFreeBlock = 0, xBlockSize = 0\<rparr>), pxEnd = 0, xFreeBytesRemaining = 0,
     xMinimumEverFreeBytesRemaining = 0, xNumberOfSuccessfulAllocations = 0, xNumberOfSuccessfulFrees = 0\<rparr>"

definition demo_heap :: heap where "demo_heap = prvHeapInit demo_layout zero_heap"

definition demo_heap1 :: heap where
  "demo_heap1 = snd (the (pvPortMalloc demo_layout 100 demo_heap))"

lemma demo_layout_ok: "layout_ok demo_layout"
  by (simp add: layout_ok_def demo_layout_def)

lemma demo_heap_rep:
  "heap_rep demo_layout demo_heap [(0x80001010, 0xFFFE0, True)] 0x80001010 0x80100FF0"
proof -
  have s: "(ucHeap demo_layout + 15) AND NOT 15 = 0x80001010"
    by (rule word_eq_unatI) (simp add: and_not_15 demo_layout_def)
  have e: "(ucHeap demo_layout + configTOTAL_HEAP_SIZE - xHeapStructSize) AND NOT 15 = 0x80100FF0"
    by (rule word_eq_unatI) (simp add: and_not_15 demo_layout_def)
  from prvHeapInit_rep [OF demo_layout_ok, of zero_heap] show ?thesis
    by (auto simp only: s e demo_heap_def) simp
qed

lemma demo_malloc:
  "pvPortMalloc demo_layout 100 demo_heap = Some (0x80001020, demo_heap1)"
  "heap_rep demo_layout demo_heap1 [(0x80001010, 128, False), (0x80001090, 0xFFF60, True)] 0x80001010 0x80100FF0"
proof -
  have "0 < (100 :: u32)" "block_size_for 100 \<le> unat (0xFFFE0 :: u32)" by (simp_all add: block_size_for_def)
  from malloc_one_block [OF demo_heap_rep this] obtain h' m where
    m: "pvPortMalloc demo_layout 100 demo_heap = Some (0x80001020, h')" "unat m = block_size_for 100"
      "heap_rep demo_layout h' (carve [] 0x80001010 0xFFFE0 m []) 0x80001010 0x80100FF0" by auto
  from m(2) have "m = 128" by (intro word_eq_unatI) (simp add: block_size_for_def)
  moreover from m(1) have "h' = demo_heap1" by (simp add: demo_heap1_def)
  ultimately show "pvPortMalloc demo_layout 100 demo_heap = Some (0x80001020, demo_heap1)"
    "heap_rep demo_layout demo_heap1 [(0x80001010, 128, False), (0x80001090, 0xFFF60, True)] 0x80001010 0x80100FF0"
    using m(1,3) by (simp_all add: carve_def)
qed

section \<open>Properties\<close>

text \<open>
  C27: What \<open>pvPortMalloc\<close> returns is usable. The heap's structure is kept, the pointer is 16-byte
  aligned, its block lies in the heap, holds the header and at least the bytes asked for, and
  overlaps no block that was handed out before; all the other blocks stay allocated, and the
  free byte count drops by exactly the block.
\<close>

theorem malloc_sound:
  assumes "heap_rep L h segs s e" and "pvPortMalloc L w h = Some (pv, h')"
  shows "\<exists>segs' a m P Q. heap_rep L h' segs' s e \<and> pv = a + 16 \<and> 16 dvd unat pv \<and>
    unat w + 16 \<le> unat m \<and> unat (ucHeap L) \<le> unat a \<and> unat a + unat m \<le> unat (ucHeap L) + 0x100000 \<and>
    allocs segs = P @ Q \<and> allocs segs' = P @ (a, m) # Q \<and>
    (\<forall>(b, k)\<in>set (allocs segs). unat b + unat k \<le> unat a \<or> unat a + unat m \<le> unat b) \<and>
    unat (xFreeBytesRemaining h') + unat m = unat (xFreeBytesRemaining h)"
proof -
  have w: "0 < w" using pvPortMalloc_0 [OF assms(1)] assms(2) by (cases "w = 0") (auto simp: word_neq_0_conv)
  from assms(1) w show ?thesis
  proof (cases rule: pvPortMalloc_rep)
    case none
    with assms(2) show ?thesis by simp
  next
    case (found A a n B h1 m)
    let ?m = "if 32 < n - m then m else n"
    from found(3) assms(2) have pv: "pv = a + 16" "h1 = h'" by simp_all
    have rep': "heap_rep L h' (carve A a n m B) s e" using found(6) by (simp add: carve_def pv)
    have seg: "(a, ?m, False) \<in> set (carve A a n m B)" by (simp add: carve_def)
    note hs = heap_rep_seg(1,2) [OF rep' seg]
    have mn: "unat m \<le> unat n" using found(2,5) by simp
    have t: "tiles s (A @ (a, n, True) # B) e" using assms(1) by (simp add: heap_rep_def found(1))
    note at = tiles_at [OF t]
    have "unat b + unat k \<le> unat a \<or> unat a + unat ?m \<le> unat b" if bk: "(b, k) \<in> set (allocs segs)" for b k
    proof -
      consider "(b, k, False) \<in> set A" | "(b, k, False) \<in> set B"
        using bk by (auto simp: allocs_mem found(1))
      then show ?thesis
      proof cases
        case 1
        from tiles_before(1) [OF at(1) this] show ?thesis by simp
      next
        case 2
        from tiles_bounds(1) [OF at(5) this] at(4) mn show ?thesis by auto
      qed
    qed
    moreover have "unat (xFreeBytesRemaining h') + unat ?m = unat (xFreeBytesRemaining h)"
    proof -
      have "unat (n - m) = unat n - unat m" using mn by (intro unat_minus_le) (simp add: word_le_nat_alt)
      then show ?thesis using rep' assms(1) mn by (simp add: heap_rep_def carve_def found(1))
    qed
    moreover have "unat w + 16 \<le> unat ?m" using block_size_for_bounds(1) [of w] found(5) mn by simp
    moreover have "unat (ucHeap L) \<le> unat a" "unat a + unat ?m \<le> unat (ucHeap L) + 0x100000"
    proof -
      have "unat (ucHeap L) \<le> unat s" "unat e \<le> unat (ucHeap L) + 0x100000"
        using assms(1) by (simp_all add: heap_rep_def)
      with hs show "unat (ucHeap L) \<le> unat a" "unat a + unat ?m \<le> unat (ucHeap L) + 0x100000" by linarith+
    qed
    moreover have "allocs segs = allocs A @ allocs B" by (simp add: found(1))
    moreover note rep' pv(1) carve_allocs [of A a n m B]
    moreover have "16 dvd unat pv" using found(4) pv(1) by simp
    ultimately show ?thesis by blast
  qed
qed

lemma malloc_sound_witness:
  "\<exists>segs' m. heap_rep demo_layout demo_heap1 segs' 0x80001010 0x80100FF0 \<and>
     116 \<le> unat m \<and> allocs segs' = [(0x80001010, m)]"
  using malloc_sound [OF demo_heap_rep demo_malloc(1)] by auto

text \<open>
  C38: Allocation fails only when it must. On a well-formed heap \<open>pvPortMalloc\<close> does not come back (the
  application's failure hook spins) exactly for a request of zero bytes or when no free block
  has room for the bytes, the header and the padding; sizes near the top of 32 bits do not
  wrap into small ones.
\<close>

theorem malloc_fails_iff:
  assumes "heap_rep L h segs s e"
  shows "pvPortMalloc L w h = None \<longleftrightarrow>
    w = 0 \<or> (\<forall>a n. (a, n, True) \<in> set segs \<longrightarrow> unat n < 16 * ((unat w + 31) div 16))"
proof (cases "w = 0")
  case True
  with pvPortMalloc_0 [OF assms] show ?thesis by simp
next
  case False
  then have "0 < w" by (simp add: word_neq_0_conv)
  with assms show ?thesis
  proof (cases rule: pvPortMalloc_rep)
    case none
    with False show ?thesis by (simp add: block_size_for_def)
  next
    case (found A a n B h' m)
    have "(a, n, True) \<in> set segs" by (simp add: found(1))
    with found False show ?thesis by (auto simp: block_size_for_def not_less)
  qed
qed

lemma malloc_fails_iff_witness:
  "pvPortMalloc demo_layout 0xFFFFFFF8 demo_heap = None \<and> pvPortMalloc demo_layout 0xFFFD0 demo_heap \<noteq> None"
  using malloc_fails_iff [OF demo_heap_rep, of "0xFFFFFFF8"] malloc_fails_iff [OF demo_heap_rep, of "0xFFFD0"]
  by simp

text \<open>
  C28: \<open>vPortFree\<close> gives a block back. For every block that is allocated it returns, the heap is
  well-formed again (in address order, no two free neighbours left apart), exactly that block
  is no longer allocated, and its bytes are added to the free count.
\<close>

theorem free_correct:
  assumes "heap_rep L h segs s e" and "(a, n) \<in> set (allocs segs)"
  shows "\<exists>h' segs' P Q. vPortFree L (a + 16) h = Some h' \<and> heap_rep L h' segs' s e \<and>
    allocs segs = P @ (a, n) # Q \<and> allocs segs' = P @ Q \<and>
    unat (xFreeBytesRemaining h') = unat (xFreeBytesRemaining h) + unat n"
proof -
  from assms(2) obtain A B where segs: "segs = A @ (a, n, False) # B"
    by (auto simp: allocs_mem dest: split_list)
  from vPortFree_rep [OF assms(1) [unfolded segs]] obtain h' where
    f: "vPortFree L (a + 16) h = Some h'" and r: "heap_rep L h' (release A a n B) s e" by blast
  have co: "coalesced A" "coalesced B" and t: "tiles s (A @ (a, n, False) # B) e"
    using assms(1) by (cases B; auto simp: heap_rep_def segs coalesced_append)+
  obtain A' x k where jf: "join_front A a n = (A', x, k)" by (cases "join_front A a n")
  obtain k' B' where jb: "join_back k B = (k', B')" by (cases "join_back k B")
  note fr = front_result [OF t co(1) jf]
  note br = back_result [OF fr(2) co(2) jb]
  have "unat (xFreeBytesRemaining h') = unat (xFreeBytesRemaining h) + unat n"
    using r assms(1) fr(3) br(2) by (simp add: heap_rep_def segs release_def jf jb)
  with f r segs allocs_release [of A a n B] show ?thesis by auto
qed

lemma free_correct_witness:
  "\<exists>h' segs'. vPortFree demo_layout 0x80001020 demo_heap1 = Some h' \<and>
     heap_rep demo_layout h' segs' 0x80001010 0x80100FF0 \<and> allocs segs' = []"
  using free_correct [OF demo_malloc(2), of "0x80001010" 128]
  by (auto simp: Cons_eq_append_conv)

text \<open>
  C26: An allocation followed by its release leaves no trace. Whatever the heap looks like, the
  sequence of free and allocated blocks after the two calls is the one before: the split is
  undone and nothing is lost to fragmentation.
\<close>

theorem malloc_free_roundtrip:
  assumes "heap_rep L h segs s e" and "pvPortMalloc L w h = Some (pv, h1)"
  shows "\<exists>h2. vPortFree L pv h1 = Some h2 \<and> heap_rep L h2 segs s e"
proof -
  have w: "0 < w" using pvPortMalloc_0 [OF assms(1)] assms(2) by (cases "w = 0") (auto simp: word_neq_0_conv)
  from assms(1) w show ?thesis
  proof (cases rule: pvPortMalloc_rep)
    case none
    with assms(2) show ?thesis by simp
  next
    case (found A a n B h' m)
    from found(3) assms(2) have pv: "pv = a + 16" "h' = h1" by simp_all
    have co: "coalesced (A @ (a, n, True) # B)" using assms(1) by (simp add: heap_rep_def found(1))
    have "m \<le> n" using found(2,5) by (simp add: word_le_nat_alt)
    from release_carve [OF co this] obtain C where
      C: "carve A a n m B = A @ (a, if 32 < n - m then m else n, False) # C"
      and undone: "release A a (if 32 < n - m then m else n) C = segs" by (auto simp: found(1))
    have "heap_rep L h1 (A @ (a, if 32 < n - m then m else n, False) # C) s e"
      using found(6) pv(2) C by (simp add: carve_def)
    from vPortFree_rep [OF this] undone pv(1) show ?thesis by auto
  qed
qed

lemma malloc_free_roundtrip_witness:
  "\<exists>h2. vPortFree demo_layout 0x80001020 demo_heap1 = Some h2 \<and>
     heap_rep demo_layout h2 [(0x80001010, 0xFFFE0, True)] 0x80001010 0x80100FF0"
  by (rule malloc_free_roundtrip [OF demo_heap_rep demo_malloc(1)])

text \<open>
  Releasing the last allocated block leaves a single free block that spans the whole heap,
  however the blocks were allocated and released before.
\<close>

theorem free_last_block:
  assumes "heap_rep L h segs s e" and "allocs segs = [(a, n)]"
  shows "\<exists>h'. vPortFree L (a + 16) h = Some h' \<and> heap_rep L h' [(s, e - s, True)] s e"
proof -
  have "(a, n) \<in> set (allocs segs)" using assms(2) by simp
  then obtain A B where segs: "segs = A @ (a, n, False) # B"
    by (auto simp: allocs_mem dest: split_list)
  from vPortFree_rep [OF assms(1) [unfolded segs]] obtain h' where
    f: "vPortFree L (a + 16) h = Some h'" and r: "heap_rep L h' (release A a n B) s e" by blast
  define R where "R = release A a n B"
  have al: "allocs R = []"
    using assms(2) allocs_release [of A a n B] by (auto simp: segs R_def append_eq_Cons_conv)
  have "coalesced R" "tiles s R e" using r by (simp_all add: heap_rep_def R_def)
  with coalesced_all_free [of R] al have len: "length R \<le> 1" by simp
  moreover have "R \<noteq> []" by (simp add: R_def release_def split: prod.splits)
  ultimately obtain x k g where R: "R = [(x, k, g)]" by (cases R) (auto simp: less_Suc_eq)
  with al \<open>tiles s R e\<close> have "g" "x = s" "e = s + k" by (auto split: if_splits)
  with R r f show ?thesis by (simp add: R_def)
qed

lemma free_last_block_witness:
  "\<exists>h'. vPortFree demo_layout 0x80001020 demo_heap1 = Some h' \<and>
     heap_rep demo_layout h' [(0x80001010, 0x80100FF0 - 0x80001010, True)] 0x80001010 0x80100FF0"
  using free_last_block [OF demo_malloc(2), of "0x80001010" 128] by simp

text \<open>
  \<open>pvPortCalloc\<close> never hands out less than was asked for. When the product of its arguments does
  not fit 32 bits it returns NULL and leaves the heap alone; otherwise it allocates the exact
  product and clears that many bytes.
\<close>

theorem calloc_exact:
  "pvPortCalloc L num sz h =
     (if 2 ^ 32 \<le> unat num * unat sz then Some (0, None, h)
      else case pvPortMalloc L (of_nat (unat num * unat sz)) h of
             None \<Rightarrow> None
           | Some (pv, h') \<Rightarrow> Some (pv, Some (pv, of_nat (unat num * unat sz)), h'))"
proof -
  have ov: "heapMULTIPLY_WILL_OVERFLOW num sz \<longleftrightarrow> 2 ^ 32 \<le> unat num * unat sz"
  proof (cases "num = 0")
    case False
    then have n: "0 < unat num" by (simp add: unat_gt_0)
    then have "heapMULTIPLY_WILL_OVERFLOW num sz \<longleftrightarrow> 4294967295 div unat num < unat sz"
      using False by (simp add: heapMULTIPLY_WILL_OVERFLOW_def word_less_nat_alt unat_div unat_gt_0)
    also have "\<dots> \<longleftrightarrow> 4294967295 < unat sz * unat num" using n by (simp add: div_less_iff_less_mult)
    finally show ?thesis by (auto simp: mult.commute)
  qed (simp add: heapMULTIPLY_WILL_OVERFLOW_def)
  have "num * sz = of_nat (unat num * unat sz)" by simp
  moreover have "pv \<noteq> 0" if "pvPortMalloc L v h = Some (pv, h')" for v pv h'
    using that by (auto simp: pvPortMalloc_def split: option.splits if_splits)
  ultimately show ?thesis
    by (auto simp: pvPortCalloc_def ov split: option.splits)
qed

text \<open>
  The first allocation works. On a heap that has never been used, wherever the linker put it, any
  request of up to 1 MiB less 96 bytes succeeds, and the initialised heap is well-formed with
  one free block.
\<close>

theorem first_malloc:
  assumes "layout_ok L" and "pxEnd h = 0" and "0 < w" and "unat w \<le> 0xFFFA0"
  shows "\<exists>s e pv h' segs. heap_rep L (prvHeapInit L h) [(s, e - s, True)] s e \<and>
    pvPortMalloc L w h = Some (pv, h') \<and> heap_rep L h' segs s e"
proof -
  from prvHeapInit_rep [OF assms(1), of h] obtain s e where
    r: "heap_rep L (prvHeapInit L h) [(s, e - s, True)] s e" and size: "0xFFFD0 \<le> unat e - unat s" by blast
  have "unat (e - s) = unat e - unat s" using size by (intro unat_minus_le) (simp add: word_le_nat_alt)
  with size assms(4) block_size_for_bounds(2) [of w] have big: "block_size_for w \<le> unat (e - s)" by simp
  from r assms(3) show ?thesis
  proof (cases rule: pvPortMalloc_rep)
    case none
    with big show ?thesis by force
  next
    case (found A a n B h' m)
    have "pvPortMalloc L w h = Some (a + 16, h')" using fresh_malloc [OF assms(2) r, of w] found(3) by simp
    with r found(6) show ?thesis by blast
  qed
qed

lemma first_malloc_witness:
  "\<exists>pv h'. pvPortMalloc demo_layout 100 zero_heap = Some (pv, h')"
  using first_malloc [OF demo_layout_ok, of zero_heap 100] by (auto simp: zero_heap_def)

end
