(* ===== verification/Rtos_Task.thy ===== *)
theory Rtos_Task
  imports Rtos_List Rtos_Heap
begin

text \<open>
  The scheduler, \<open>ddr_app/rtos/FreeRTOS/tasks.c\<close>, for the repository's configuration: one core, four
  priorities, preemption with time slicing, 32-bit ticks, stack overflow check 2, no notifications,
  no mutexes, no hooks but the overflow and the allocation failure hook. All its lists live
  in the pointer-level store of \<open>Rtos_List\<close>.

  A handle is a natural number, the address of the control block, and NULL is 0. The two list
  items of a control block \<open>t\<close> are the items \<open>2 * t\<close> (state) and \<open>2 * t + 1\<close> (event). A yield
  (\<open>ecall\<close>, which \<open>portASM.S\<close> answers by calling \<open>vTaskSwitchContext\<close>) is that call; the operations below
  have nothing left to do after one but to leave their critical section. A failed
  assertion and the overflow hook spin, and a NULL control block is undefined: \<open>None\<close>.
\<close>

section \<open>State\<close>

record tcb =
  pxTopOfStack :: u32
  uxPriority :: u32
  pxStack :: u32
  pcTaskName :: "u8 list"

record kernel =
  lists :: store
  tcbs :: "nat \<Rightarrow> tcb"
  k_mem :: memory
  k_heap :: heap
  pxCurrentTCB :: nat
  pxDelayedTaskList :: nat
  pxOverflowDelayedTaskList :: nat
  uxDeletedTasksWaitingCleanUp :: u32
  uxCurrentNumberOfTasks :: u32
  xTickCount :: u32
  uxTopReadyPriority :: u32
  xSchedulerRunning :: bool
  xPendedTicks :: u32
  xYieldPending :: bool
  xNumOfOverflows :: u32
  uxTaskNumber :: u32
  xNextTaskUnblockTime :: u32
  uxSchedulerSuspended :: u32
  xIdleTaskHandle :: nat

abbreviation configMAX_PRIORITIES :: u32 where "configMAX_PRIORITIES \<equiv> 4"

text \<open>The lists of the file; those of queues get the numbers from 9.\<close>

definition pxReadyTasksLists :: "u32 \<Rightarrow> nat" where "pxReadyTasksLists p = unat p"

abbreviation xDelayedTaskList1 :: nat where "xDelayedTaskList1 \<equiv> 4"
abbreviation xDelayedTaskList2 :: nat where "xDelayedTaskList2 \<equiv> 5"
abbreviation xPendingReadyList :: nat where "xPendingReadyList \<equiv> 6"
abbreviation xTasksWaitingTermination :: nat where "xTasksWaitingTermination \<equiv> 7"
abbreviation xSuspendedTaskList :: nat where "xSuspendedTaskList \<equiv> 8"

abbreviation xStateListItem :: "nat \<Rightarrow> nat" where "xStateListItem t \<equiv> 2 * t"
abbreviation xEventListItem :: "nat \<Rightarrow> nat" where "xEventListItem t \<equiv> 2 * t + 1"

abbreviation priority_of :: "'a kernel_scheme \<Rightarrow> nat \<Rightarrow> u32" where
  "priority_of k t \<equiv> uxPriority (tcbs k t)"

text \<open>List operations on the kernel state, and reading the lists.\<close>

definition on_lists :: "(store \<Rightarrow> store) \<Rightarrow> 'a kernel_scheme \<Rightarrow> 'a kernel_scheme" where
  "on_lists f k = k\<lparr>lists := f (lists k)\<rparr>"

definition on_lists_opt :: "(store \<Rightarrow> store option) \<Rightarrow> 'a kernel_scheme \<Rightarrow> 'a kernel_scheme option" where
  "on_lists_opt f k = map_option (\<lambda>s. k\<lparr>lists := s\<rparr>) (f (lists k))"

abbreviation list_empty :: "'a kernel_scheme \<Rightarrow> nat \<Rightarrow> bool" where
  "list_empty k l \<equiv> listLIST_IS_EMPTY l (lists k)"

section \<open>The macros of the file\<close>

definition prvGetTCBFromHandle :: "'a kernel_scheme \<Rightarrow> nat \<Rightarrow> nat" where
  "prvGetTCBFromHandle k h = (if h = 0 then pxCurrentTCB k else h)"

definition taskRECORD_READY_PRIORITY :: "u32 \<Rightarrow> 'a kernel_scheme \<Rightarrow> 'a kernel_scheme" where
  "taskRECORD_READY_PRIORITY p k = (if uxTopReadyPriority k < p then k\<lparr>uxTopReadyPriority := p\<rparr> else k)"

definition prvAddTaskToReadyList :: "nat \<Rightarrow> 'a kernel_scheme \<Rightarrow> 'a kernel_scheme" where
  "prvAddTaskToReadyList t k =
     on_lists (listINSERT_END (pxReadyTasksLists (priority_of k t)) (xStateListItem t))
       (taskRECORD_READY_PRIORITY (priority_of k t) k)"

text \<open>The search stops at the assertion when even the list of priority 0 is empty.\<close>

partial_function (option) find_top :: "'a kernel_scheme \<Rightarrow> u32 \<Rightarrow> u32 option" where
  "find_top k p =
     (if list_empty k (pxReadyTasksLists p) then if p = 0 then None else find_top k (p - 1)
      else Some p)"

definition taskSELECT_HIGHEST_PRIORITY_TASK :: "'a kernel_scheme \<Rightarrow> 'a kernel_scheme option" where
  "taskSELECT_HIGHEST_PRIORITY_TASK k = do {
     p \<leftarrow> find_top k (uxTopReadyPriority k);
     let (t, s) = listGET_OWNER_OF_NEXT_ENTRY (pxReadyTasksLists p) (lists k);
     Some (k\<lparr>lists := s, pxCurrentTCB := t, uxTopReadyPriority := p\<rparr>)
   }"

definition prvResetNextTaskUnblockTime :: "'a kernel_scheme \<Rightarrow> 'a kernel_scheme" where
  "prvResetNextTaskUnblockTime k =
     (if list_empty k (pxDelayedTaskList k) then k\<lparr>xNextTaskUnblockTime := portMAX_DELAY\<rparr>
      else k\<lparr>xNextTaskUnblockTime := listGET_ITEM_VALUE_OF_HEAD_ENTRY (pxDelayedTaskList k) (lists k)\<rparr>)"

definition taskSWITCH_DELAYED_LISTS :: "'a kernel_scheme \<Rightarrow> 'a kernel_scheme option" where
  "taskSWITCH_DELAYED_LISTS k =
     (if list_empty k (pxDelayedTaskList k) then
        Some (prvResetNextTaskUnblockTime
          (k\<lparr>pxDelayedTaskList := pxOverflowDelayedTaskList k,
             pxOverflowDelayedTaskList := pxDelayedTaskList k, xNumOfOverflows := xNumOfOverflows k + 1\<rparr>))
      else None)"

text \<open>
  \<open>taskCHECK_FOR_STACK_OVERFLOW\<close>: the saved stack pointer is above the stack's first word and the
  first four words still hold the fill pattern.
\<close>

definition stack_intact :: "'a kernel_scheme \<Rightarrow> nat \<Rightarrow> bool" where
  "stack_intact k t \<longleftrightarrow> pxStack (tcbs k t) < pxTopOfStack (tcbs k t) \<and>
     load_bytes (k_mem k) (pxStack (tcbs k t)) 16 = replicate 16 0xA5"

section \<open>Context switch\<close>

definition vTaskSwitchContext :: "'a kernel_scheme \<Rightarrow> 'a kernel_scheme option" where
  "vTaskSwitchContext k =
     (if uxSchedulerSuspended k \<noteq> 0 then Some (k\<lparr>xYieldPending := True\<rparr>)
      else
        let k1 = k\<lparr>xYieldPending := False\<rparr> in
        if pxCurrentTCB k1 \<noteq> 0 \<and> stack_intact k1 (pxCurrentTCB k1)
        then taskSELECT_HIGHEST_PRIORITY_TASK k1 else None)"

abbreviation portYIELD_WITHIN_API :: "'a kernel_scheme \<Rightarrow> 'a kernel_scheme option" where
  "portYIELD_WITHIN_API \<equiv> vTaskSwitchContext"

definition taskYIELD_ANY_CORE_IF_USING_PREEMPTION :: "nat \<Rightarrow> 'a kernel_scheme \<Rightarrow> 'a kernel_scheme option" where
  "taskYIELD_ANY_CORE_IF_USING_PREEMPTION t k =
     (if priority_of k (pxCurrentTCB k) < priority_of k t then portYIELD_WITHIN_API k else Some k)"

definition vTaskMissedYield :: "'a kernel_scheme \<Rightarrow> 'a kernel_scheme" where
  "vTaskMissedYield k = k\<lparr>xYieldPending := True\<rparr>"

section \<open>The tick\<close>

definition unblock_task :: "nat \<Rightarrow> 'a kernel_scheme \<Rightarrow> 'a kernel_scheme option" where
  "unblock_task t k = do {
     k1 \<leftarrow> on_lists_opt (listREMOVE_ITEM (xStateListItem t)) k;
     k2 \<leftarrow> (if listLIST_ITEM_CONTAINER (xEventListItem t) (lists k1) \<noteq> None
            then on_lists_opt (listREMOVE_ITEM (xEventListItem t)) k1 else Some k1);
     Some (prvAddTaskToReadyList t k2)
   }"

partial_function (option) unblock_due :: "u32 \<Rightarrow> bool \<Rightarrow> 'a kernel_scheme \<Rightarrow> (bool \<times> 'a kernel_scheme) option" where
  "unblock_due now sw k =
     (if list_empty k (pxDelayedTaskList k) then Some (sw, k\<lparr>xNextTaskUnblockTime := portMAX_DELAY\<rparr>)
      else
        let t = listGET_OWNER_OF_HEAD_ENTRY (pxDelayedTaskList k) (lists k);
            v = listGET_LIST_ITEM_VALUE (xStateListItem t) (lists k)
        in if now < v then Some (sw, k\<lparr>xNextTaskUnblockTime := v\<rparr>)
           else Option.bind (unblock_task t k) (\<lambda>k'.
             unblock_due now (sw \<or> priority_of k' (pxCurrentTCB k') < priority_of k' t) k'))"

definition xTaskIncrementTick :: "'a kernel_scheme \<Rightarrow> (bool \<times> 'a kernel_scheme) option" where
  "xTaskIncrementTick k =
     (if uxSchedulerSuspended k = 0 then do {
        let now = xTickCount k + 1;
        let k1 = k\<lparr>xTickCount := now\<rparr>;
        k2 \<leftarrow> (if now = 0 then taskSWITCH_DELAYED_LISTS k1 else Some k1);
        (sw, k3) \<leftarrow> (if xNextTaskUnblockTime k2 \<le> now then unblock_due now False k2 else Some (False, k2));
        let sliced = 1 < listCURRENT_LIST_LENGTH (pxReadyTasksLists (priority_of k3 (pxCurrentTCB k3))) (lists k3);
        Some (sw \<or> sliced \<or> xYieldPending k3, k3)
      }
      else Some (False, k\<lparr>xPendedTicks := xPendedTicks k + 1\<rparr>))"

text \<open>The timer interrupt of \<open>portASM.S\<close> (the compare register aside).\<close>

definition tick_interrupt :: "'a kernel_scheme \<Rightarrow> 'a kernel_scheme option" where
  "tick_interrupt k = do {
     (sw, k1) \<leftarrow> xTaskIncrementTick k;
     if sw then vTaskSwitchContext k1 else Some k1
   }"

section \<open>Suspending and resuming the scheduler\<close>

definition vTaskSuspendAll :: "'a kernel_scheme \<Rightarrow> 'a kernel_scheme" where
  "vTaskSuspendAll k = k\<lparr>uxSchedulerSuspended := uxSchedulerSuspended k + 1\<rparr>"

text \<open>The tasks readied in the meantime; the first argument is the last one moved, 0 at the start.\<close>

partial_function (option) move_pending :: "nat \<Rightarrow> 'a kernel_scheme \<Rightarrow> (nat \<times> 'a kernel_scheme) option" where
  "move_pending prev k =
     (if list_empty k xPendingReadyList then Some (prev, k)
      else
        let t = listGET_OWNER_OF_HEAD_ENTRY xPendingReadyList (lists k)
        in Option.bind (on_lists_opt (listREMOVE_ITEM (xEventListItem t)) k) (\<lambda>k1.
             Option.bind (on_lists_opt (listREMOVE_ITEM (xStateListItem t)) k1) (\<lambda>k2.
               let k3 = prvAddTaskToReadyList t k2
               in move_pending t
                    (if priority_of k3 (pxCurrentTCB k3) < priority_of k3 t then k3\<lparr>xYieldPending := True\<rparr>
                     else k3))))"

text \<open>The ticks that were held back, one by one.\<close>

primrec pended_ticks :: "nat \<Rightarrow> 'a kernel_scheme \<Rightarrow> 'a kernel_scheme option" where
  "pended_ticks 0 k = Some k"
| "pended_ticks (Suc n) k = do {
     (sw, k1) \<leftarrow> xTaskIncrementTick k;
     pended_ticks n (if sw then k1\<lparr>xYieldPending := True\<rparr> else k1)
   }"

definition xTaskResumeAll :: "'a kernel_scheme \<Rightarrow> (bool \<times> 'a kernel_scheme) option" where
  "xTaskResumeAll k =
     (if uxSchedulerSuspended k = 0 then None
      else
        let k1 = k\<lparr>uxSchedulerSuspended := uxSchedulerSuspended k - 1\<rparr> in
        if uxSchedulerSuspended k1 = 0 \<and> 0 < uxCurrentNumberOfTasks k1 then do {
          (t, k2) \<leftarrow> move_pending 0 k1;
          let k3 = (if t \<noteq> 0 then prvResetNextTaskUnblockTime k2 else k2);
          k4 \<leftarrow> (if 0 < xPendedTicks k3
                then map_option (\<lambda>k'. k'\<lparr>xPendedTicks := 0\<rparr>) (pended_ticks (unat (xPendedTicks k3)) k3)
                else Some k3);
          if xYieldPending k4 then map_option (\<lambda>k5. (True, k5)) (portYIELD_WITHIN_API k4)
          else Some (False, k4)
        }
        else Some (False, k1))"

definition xTaskCatchUpTicks :: "u32 \<Rightarrow> 'a kernel_scheme \<Rightarrow> (bool \<times> 'a kernel_scheme) option" where
  "xTaskCatchUpTicks n k =
     (if uxSchedulerSuspended k = 0 then
        let k1 = vTaskSuspendAll k
        in xTaskResumeAll (k1\<lparr>xPendedTicks := xPendedTicks k1 + n\<rparr>)
      else None)"

section \<open>Blocking the running task\<close>

definition prvAddCurrentTaskToDelayedList :: "u32 \<Rightarrow> bool \<Rightarrow> 'a kernel_scheme \<Rightarrow> 'a kernel_scheme option" where
  "prvAddCurrentTaskToDelayedList n indefinitely k =
     (let it = xStateListItem (pxCurrentTCB k); now = xTickCount k in do {
        k1 \<leftarrow> on_lists_opt (\<lambda>s. map_option snd (uxListRemove it s)) k;
        if n = portMAX_DELAY \<and> indefinitely then
          Some (on_lists (listINSERT_END xSuspendedTaskList it) k1)
        else
          let wake = now + n; k2 = on_lists (listSET_LIST_ITEM_VALUE it wake) k1
          in if wake < now then on_lists_opt (vListInsert (pxOverflowDelayedTaskList k) it) k2
             else map_option (\<lambda>k3. if wake < xNextTaskUnblockTime k3 then k3\<lparr>xNextTaskUnblockTime := wake\<rparr> else k3)
                    (on_lists_opt (vListInsert (pxDelayedTaskList k) it) k2)
      })"

definition vTaskDelay :: "u32 \<Rightarrow> 'a kernel_scheme \<Rightarrow> 'a kernel_scheme option" where
  "vTaskDelay n k = do {
     (yielded, k2) \<leftarrow>
       (if 0 < n then
          let k1 = vTaskSuspendAll k in
          if uxSchedulerSuspended k1 = 1
          then Option.bind (prvAddCurrentTaskToDelayedList n False k1) xTaskResumeAll
          else None
        else Some (False, k));
     if yielded then Some k2 else portYIELD_WITHIN_API k2
   }"

section \<open>Event lists\<close>

definition vTaskPlaceOnEventList :: "nat \<Rightarrow> u32 \<Rightarrow> 'a kernel_scheme \<Rightarrow> 'a kernel_scheme option" where
  "vTaskPlaceOnEventList l n k =
     Option.bind (on_lists_opt (vListInsert l (xEventListItem (pxCurrentTCB k))) k)
       (prvAddCurrentTaskToDelayedList n True)"

abbreviation taskEVENT_LIST_ITEM_VALUE_IN_USE :: u32 where
  "taskEVENT_LIST_ITEM_VALUE_IN_USE \<equiv> 0x80000000"

definition vTaskPlaceOnUnorderedEventList :: "nat \<Rightarrow> u32 \<Rightarrow> u32 \<Rightarrow> 'a kernel_scheme \<Rightarrow> 'a kernel_scheme option" where
  "vTaskPlaceOnUnorderedEventList l v n k =
     (if uxSchedulerSuspended k \<noteq> 0 then
        let it = xEventListItem (pxCurrentTCB k);
            k1 = on_lists (listSET_LIST_ITEM_VALUE it (v OR taskEVENT_LIST_ITEM_VALUE_IN_USE)) k
        in prvAddCurrentTaskToDelayedList n True (on_lists (listINSERT_END l it) k1)
      else None)"

definition vTaskPlaceOnEventListRestricted :: "nat \<Rightarrow> u32 \<Rightarrow> bool \<Rightarrow> 'a kernel_scheme \<Rightarrow> 'a kernel_scheme option" where
  "vTaskPlaceOnEventListRestricted l n indefinitely k =
     prvAddCurrentTaskToDelayedList (if indefinitely then portMAX_DELAY else n) indefinitely
       (on_lists (listINSERT_END l (xEventListItem (pxCurrentTCB k))) k)"

text \<open>The two outcomes of comparing with the running task are in the result and in \<open>xYieldPending\<close>.\<close>

definition xTaskRemoveFromEventList :: "nat \<Rightarrow> 'a kernel_scheme \<Rightarrow> (bool \<times> 'a kernel_scheme) option" where
  "xTaskRemoveFromEventList l k =
     (let t = listGET_OWNER_OF_HEAD_ENTRY l (lists k) in
      if t = 0 then None
      else do {
        k1 \<leftarrow> on_lists_opt (listREMOVE_ITEM (xEventListItem t)) k;
        k2 \<leftarrow> (if uxSchedulerSuspended k1 = 0
               then map_option (prvAddTaskToReadyList t) (on_lists_opt (listREMOVE_ITEM (xStateListItem t)) k1)
               else Some (on_lists (listINSERT_END xPendingReadyList (xEventListItem t)) k1));
        if priority_of k2 (pxCurrentTCB k2) < priority_of k2 t then Some (True, k2\<lparr>xYieldPending := True\<rparr>)
        else Some (False, k2)
      })"

definition vTaskRemoveFromUnorderedEventList :: "nat \<Rightarrow> u32 \<Rightarrow> 'a kernel_scheme \<Rightarrow> 'a kernel_scheme option" where
  "vTaskRemoveFromUnorderedEventList it v k =
     (if uxSchedulerSuspended k = 0 then None
      else
        let k1 = on_lists (listSET_LIST_ITEM_VALUE it (v OR taskEVENT_LIST_ITEM_VALUE_IN_USE)) k;
            t = listGET_LIST_ITEM_OWNER it (lists k1)
        in if t = 0 then None
           else do {
             k2 \<leftarrow> on_lists_opt (listREMOVE_ITEM it) k1;
             k3 \<leftarrow> on_lists_opt (listREMOVE_ITEM (xStateListItem t)) k2;
             let k4 = prvAddTaskToReadyList t k3;
             Some (if priority_of k4 (pxCurrentTCB k4) < priority_of k4 t then k4\<lparr>xYieldPending := True\<rparr> else k4)
           })"

definition uxTaskResetEventItemValue :: "'a kernel_scheme \<Rightarrow> u32 \<times> 'a kernel_scheme" where
  "uxTaskResetEventItemValue k =
     (let it = xEventListItem (pxCurrentTCB k)
      in (listGET_LIST_ITEM_VALUE it (lists k),
          on_lists (listSET_LIST_ITEM_VALUE it (configMAX_PRIORITIES - priority_of k (pxCurrentTCB k))) k))"

section \<open>Time-outs\<close>

record time_out =
  xOverflowCount :: u32
  xTimeOnEntering :: u32

definition vTaskInternalSetTimeOutState :: "'a kernel_scheme \<Rightarrow> time_out" where
  "vTaskInternalSetTimeOutState k = \<lparr>xOverflowCount = xNumOfOverflows k, xTimeOnEntering = xTickCount k\<rparr>"

definition vTaskSetTimeOutState :: "'a kernel_scheme \<Rightarrow> time_out" where
  "vTaskSetTimeOutState k = \<lparr>xOverflowCount = xNumOfOverflows k, xTimeOnEntering = xTickCount k\<rparr>"

definition xTaskCheckForTimeOut :: "'a kernel_scheme \<Rightarrow> time_out \<Rightarrow> u32 \<Rightarrow> bool \<times> time_out \<times> u32" where
  "xTaskCheckForTimeOut k tmo n =
     (let now = xTickCount k; elapsed = now - xTimeOnEntering tmo in
      if n = portMAX_DELAY then (False, tmo, n)
      else if xNumOfOverflows k \<noteq> xOverflowCount tmo \<and> xTimeOnEntering tmo \<le> now then (True, tmo, 0)
      else if elapsed < n then (False, vTaskInternalSetTimeOutState k, n - elapsed)
      else (True, tmo, 0))"

end
