(* ===== verification/Rtos_Lists.thy ===== *)
theory Rtos_Lists
  imports Rtos_List
begin

text \<open>
  Many lists in one store: which list holds which items in which order, and what every list
  operation does to that picture. This is the interface the scheduler is verified against.
\<close>

section \<open>The picture\<close>

abbreviation container :: "store \<Rightarrow> nat \<Rightarrow> nat option" where
  "container s i \<equiv> pxContainer (nodes s (Item i))"

abbreviation owner :: "store \<Rightarrow> nat \<Rightarrow> nat" where
  "owner s i \<equiv> pvOwner (nodes s (Item i))"

text \<open>
  The lists in \<open>D\<close> are well-formed and hold \<open>xs\<close> with the walking indices \<open>ix\<close>; an item is on a
  list exactly when its container says so; only items of the finite set \<open>I\<close> are listed.
\<close>

definition lists_rep :: "store \<Rightarrow> nat set \<Rightarrow> nat set \<Rightarrow> (nat \<Rightarrow> nat list) \<Rightarrow> (nat \<Rightarrow> nat option) \<Rightarrow> bool" where
  "lists_rep s D I xs ix \<longleftrightarrow>
     (\<forall>l\<in>D. list_rep s l (xs l) (ix l)) \<and>
     (\<forall>i l. container s i = Some l \<longrightarrow> l \<in> D \<and> i \<in> set (xs l)) \<and>
     (\<forall>l\<in>D. set (xs l) \<subseteq> I) \<and> finite I \<and> card I < 4294967296"

text \<open>Values and owners are as before.\<close>

definition same_data :: "store \<Rightarrow> store \<Rightarrow> bool" where
  "same_data s s' \<longleftrightarrow> (\<forall>r. xItemValue (nodes s' r) = xItemValue (nodes s r) \<and> pvOwner (nodes s' r) = pvOwner (nodes s r))"

lemma same_dataD: "same_data s s' \<Longrightarrow> item_value s' i = item_value s i" "same_data s s' \<Longrightarrow> owner s' i = owner s i"
  by (simp_all add: same_data_def)

lemma same_data_refl [simp]: "same_data s s"
  by (simp add: same_data_def)

lemma same_data_trans [trans]: "same_data s s' \<Longrightarrow> same_data s' s'' \<Longrightarrow> same_data s s''"
  by (simp add: same_data_def)

lemma lists_repD:
  assumes "lists_rep s D I xs ix"
  shows "l \<in> D \<Longrightarrow> list_rep s l (xs l) (ix l)" and "container s i = Some l \<Longrightarrow> l \<in> D"
    and "container s i = Some l \<Longrightarrow> i \<in> set (xs l)" and "l \<in> D \<Longrightarrow> set (xs l) \<subseteq> I"
    and "finite I" and "card I < 4294967296"
  using assms unfolding lists_rep_def by blast+

lemmas lists_rep_list = lists_repD(1)

lemma list_rep_container: "list_rep s l xs ix \<Longrightarrow> i \<in> set xs \<Longrightarrow> container s i = Some l"
  by (simp add: list_rep_def)

lemma lists_rep_container:
  assumes "lists_rep s D I xs ix"
  shows "container s i = Some l \<longleftrightarrow> l \<in> D \<and> i \<in> set (xs l)"
  using lists_repD(1-3) [OF assms] list_rep_container by blast

lemma lists_rep_distinct: "lists_rep s D I xs ix \<Longrightarrow> l \<in> D \<Longrightarrow> distinct (xs l)"
  by (drule (1) lists_repD(1)) (simp add: list_rep_def)

lemma lists_rep_disjoint:
  assumes "lists_rep s D I xs ix" and "l \<in> D" and "k \<in> D" and "i \<in> set (xs l)" and "i \<in> set (xs k)"
  shows "k = l"
proof -
  have "container s i = Some l" "container s i = Some k"
    using lists_rep_container [OF assms(1)] assms(2-5) by blast+
  then show ?thesis by simp
qed

lemma lists_rep_length:
  assumes "lists_rep s D I xs ix" and "l \<in> D"
  shows "length (xs l) < 4294967296"
proof -
  have "card (set (xs l)) \<le> card I"
    using lists_repD(4,5) [OF assms(1)] assms(2) by (intro card_mono) blast+
  moreover have "card (set (xs l)) = length (xs l)"
    using lists_rep_distinct [OF assms] by (rule distinct_card)
  ultimately show ?thesis using lists_repD(6) [OF assms(1)] by simp
qed

section \<open>Reading\<close>

lemma lists_rep_empty:
  assumes "lists_rep s D I xs ix" and "l \<in> D"
  shows "listLIST_IS_EMPTY l s \<longleftrightarrow> xs l = []"
proof -
  have "uxNumberOfItems (headers s l) = of_nat (length (xs l))"
    using lists_rep_list [OF assms] by (simp add: list_rep_def)
  moreover have "(of_nat (length (xs l)) :: u32) = 0 \<longleftrightarrow> length (xs l) = 0"
    unfolding word_unat_eq_iff unat_of_nat_u32 [OF lists_rep_length [OF assms]] by simp
  ultimately show ?thesis by (simp add: listLIST_IS_EMPTY_def)
qed

lemma lists_rep_count:
  assumes "lists_rep s D I xs ix" and "l \<in> D"
  shows "unat (listCURRENT_LIST_LENGTH l s) = length (xs l)"
  using lists_rep_list [OF assms] unat_of_nat_u32 [OF lists_rep_length [OF assms]]
  by (simp add: list_rep_def listCURRENT_LIST_LENGTH_def)

lemma lists_rep_head:
  assumes "lists_rep s D I xs ix" and "l \<in> D" and "xs l = i # r"
  shows "listGET_OWNER_OF_HEAD_ENTRY l s = owner s i" and "listGET_ITEM_VALUE_OF_HEAD_ENTRY l s = item_value s i"
proof -
  have "next_of s (End l) = Item i"
    using list_rep_ring(1) [of s l "[]" "xs l" "ix l"] lists_rep_list [OF assms(1,2)] assms(3) by simp
  then show "listGET_OWNER_OF_HEAD_ENTRY l s = owner s i" "listGET_ITEM_VALUE_OF_HEAD_ENTRY l s = item_value s i"
    by (simp_all add: listGET_OWNER_OF_HEAD_ENTRY_def listGET_ITEM_VALUE_OF_HEAD_ENTRY_def)
qed

section \<open>Frames\<close>

text \<open>A changed list, and all the others as they were.\<close>

lemma lists_rep_update:
  assumes rep: "lists_rep s D I xs ix" and l: "l \<in> D"
    and new: "list_rep s' l ys jx" and sub: "set ys \<subseteq> I"
    and nodes: "\<And>r. r \<noteq> End l \<Longrightarrow> r \<notin> Item ` (set (xs l) \<union> set ys) \<Longrightarrow> nodes s' r = nodes s r"
    and hdrs: "\<And>k. k \<noteq> l \<Longrightarrow> headers s' k = headers s k"
    and free: "\<And>i k. i \<in> set ys \<Longrightarrow> k \<in> D \<Longrightarrow> k \<noteq> l \<Longrightarrow> i \<notin> set (xs k)"
    and gone: "\<And>i. i \<in> set (xs l) \<Longrightarrow> i \<notin> set ys \<Longrightarrow> container s' i = None"
  shows "lists_rep s' D I (xs(l := ys)) (ix(l := jx))"
  unfolding lists_rep_def
proof (intro conjI ballI allI impI)
  fix k assume k: "k \<in> D"
  show "list_rep s' k ((xs(l := ys)) k) ((ix(l := jx)) k)"
  proof (cases "k = l")
    case False
    have "list_rep s' k (xs k) (ix k) \<longleftrightarrow> list_rep s k (xs k) (ix k)"
    proof (rule list_rep_frame)
      show "headers s' k = headers s k" using hdrs [OF False] .
      fix p assume p: "p = End k \<or> p \<in> Item ` set (xs k)"
      have "i \<notin> set (xs l) \<union> set ys" if "i \<in> set (xs k)" for i
        using that lists_rep_disjoint [OF rep k l, of i] free [OF _ k False, of i] False by blast
      with p False show "nodes s' p = nodes s p" by (intro nodes) auto
    qed
    with False lists_rep_list [OF rep k] show ?thesis by simp
  qed (simp add: new)
  show "set ((xs(l := ys)) k) \<subseteq> I" using lists_repD(4) [OF rep k] sub by simp
next
  fix i k assume c: "container s' i = Some k"
  show "k \<in> D" and "i \<in> set ((xs(l := ys)) k)"
  proof -
    consider "i \<in> set ys" | "i \<in> set (xs l)" "i \<notin> set ys" | "i \<notin> set (xs l) \<union> set ys" by blast
    then have "k \<in> D \<and> i \<in> set ((xs(l := ys)) k)"
    proof cases
      case 1
      then have "container s' i = Some l" using new by (simp add: list_rep_def)
      with c 1 l show ?thesis by simp
    next
      case 2
      with gone c show ?thesis by simp
    next
      case 3
      then have "nodes s' (Item i) = nodes s (Item i)" by (intro nodes) auto
      with c lists_rep_container [OF rep, of i k] 3 show ?thesis by auto
    qed
    then show "k \<in> D" "i \<in> set ((xs(l := ys)) k)" by blast+
  qed
next
  show "finite I" "card I < 4294967296" using lists_repD(5,6) [OF rep] .
qed

lemma node_eqI:
  "xItemValue a = xItemValue b \<Longrightarrow> pxNext a = pxNext b \<Longrightarrow> pxPrevious a = pxPrevious b \<Longrightarrow>
   pvOwner a = pvOwner b \<Longrightarrow> pxContainer a = pxContainer b \<Longrightarrow> a = (b :: node)"
  by simp

section \<open>Insertion at the end\<close>

lemma set_ains_end: "set (ains_end i xs ix) = insert i (set xs)"
proof -
  have "set (takeWhile (\<lambda>x. x \<noteq> j) xs) \<union> set (dropWhile (\<lambda>x. x \<noteq> j) xs) = set xs" for j
    by (metis set_append takeWhile_dropWhile_id)
  then show ?thesis by (cases ix) (auto simp: ains_end_def)
qed

lemma set_ains: "set (ains val i xs) = insert i (set xs)"
proof -
  have "set (takeWhile P xs) \<union> set (dropWhile P xs) = set xs" for P
    by (metis set_append takeWhile_dropWhile_id)
  then show ?thesis by (auto simp: ains_def)
qed

text \<open>An item that is on no list.\<close>

lemma lists_rep_free: "lists_rep s D I xs ix \<Longrightarrow> container s i = None \<Longrightarrow> l \<in> D \<Longrightarrow> i \<notin> set (xs l)"
  using lists_rep_container [of s D I xs ix i l] by fastforce

lemma lists_rep_insert_end:
  assumes rep: "lists_rep s D I xs ix" and l: "l \<in> D" and i: "i \<in> I" and c: "container s i = None"
  shows "lists_rep (vListInsertEnd l i s) D I (xs(l := ains_end i (xs l) (ix l))) ix"
    and "same_data s (vListInsertEnd l i s)"
    and "container (vListInsertEnd l i s) j = (if j = i then Some l else container s j)"
proof -
  note r = lists_rep_list [OF rep l]
  have il: "i \<notin> set (xs l)" by (rule lists_rep_free [OF rep c l])
  obtain ys zs where xl: "xs l = ys @ zs" and idx: "pxIndex (headers s l) = hd (map Item zs @ [End l])"
    using index_split [OF r, of i] by metis
  have ne: "hd (map Item zs @ [End l]) \<noteq> Item i" "last (End l # map Item ys) \<noteq> Item i"
    using il xl by (simp_all only: set_append Un_iff de_Morgan_disj end_node_ne not_False_eq_True)
  note nd = vListInsertEnd_nodes [OF idx ne(1) list_rep_ring(2) [OF r [unfolded xl]] ne(2)]
  show "same_data s (vListInsertEnd l i s)" by (simp add: same_data_def nd(3,4))
  show "container (vListInsertEnd l i s) j = (if j = i then Some l else container s j)" by (simp add: nd(5))
  have "ix = ix(l := ix l)" by simp
  moreover have "lists_rep (vListInsertEnd l i s) D I (xs(l := ains_end i (xs l) (ix l))) (ix(l := ix l))"
  proof (rule lists_rep_update [OF rep l vListInsertEnd_rep [OF r il]])
    show "set (ains_end i (xs l) (ix l)) \<subseteq> I"
      using lists_repD(4) [OF rep l] i by (simp add: set_ains_end)
    fix k assume "k \<noteq> l" then show "headers (vListInsertEnd l i s) k = headers s k" by (rule nd(7))
  next
    fix p assume p: "p \<noteq> End l" "p \<notin> Item ` (set (xs l) \<union> set (ains_end i (xs l) (ix l)))"
    have "last (End l # map Item ys) \<in> insert (End l) (Item ` set (xs l))"
      "hd (map Item zs @ [End l]) \<in> insert (End l) (Item ` set (xs l))"
      by (cases ys rule: rev_cases; simp add: xl; fail) (cases zs; simp add: xl)
    with p have "p \<noteq> Item i" "p \<noteq> last (End l # map Item ys)" "p \<noteq> hd (map Item zs @ [End l])"
      by (auto simp: set_ains_end)
    then show "nodes (vListInsertEnd l i s) p = nodes s p" by (intro node_eqI) (simp_all add: nd)
  next
    fix j k assume "j \<in> set (ains_end i (xs l) (ix l))" "k \<in> D" "k \<noteq> l"
    then show "j \<notin> set (xs k)"
      using lists_rep_free [OF rep c, of k] lists_rep_disjoint [OF rep l, of k j] by (auto simp: set_ains_end)
  qed (simp add: set_ains_end)
  ultimately show "lists_rep (vListInsertEnd l i s) D I (xs(l := ains_end i (xs l) (ix l))) ix" by simp
qed

text \<open>The nodes next to a position of a list are its end marker or its items.\<close>

lemma neighbours:
  "xs = ys @ zs \<Longrightarrow> last (End l # map Item ys) \<in> insert (End l) (Item ` set xs)"
  "xs = ys @ zs \<Longrightarrow> hd (map Item zs @ [End l]) \<in> insert (End l) (Item ` set xs)"
  by (cases ys rule: rev_cases; simp; fail) (cases zs; simp)

section \<open>Sorted insertion\<close>

lemma lists_rep_insert:
  assumes rep: "lists_rep s D I xs ix" and l: "l \<in> D" and i: "i \<in> I" and c: "container s i = None"
  obtains s' where "vListInsert l i s = Some s'"
    and "lists_rep s' D I (xs(l := ains (item_value s) i (xs l))) ix" and "same_data s s'"
    and "\<And>j. container s' j = (if j = i then Some l else container s j)"
proof -
  note r = lists_rep_list [OF rep l]
  have il: "i \<notin> set (xs l)" by (rule lists_rep_free [OF rep c l])
  define ys where "ys = takeWhile (\<lambda>x. item_value s x \<le> item_value s i) (xs l)"
  define zs where "zs = dropWhile (\<lambda>x. item_value s x \<le> item_value s i) (xs l)"
  have xl: "xs l = ys @ zs" by (simp add: ys_def zs_def)
  let ?p = "last (End l # map Item ys)"
  define s' where "s' = link_in l i ?p s"
  have ins: "vListInsert l i s = Some s'"
    using vListInsert_position [OF r il] by (simp add: s'_def ys_def)
  have ne: "hd (map Item zs @ [End l]) \<noteq> Item i" "?p \<noteq> Item i"
    using il xl by (simp_all only: set_append Un_iff de_Morgan_disj end_node_ne not_False_eq_True)
  note nd = link_in_nodes [where l = l, OF ne(2) list_rep_ring(1) [OF r [unfolded xl]] ne(1), folded s'_def]
  have data: "same_data s s'" unfolding same_data_def using nd(3,4) by blast
  have con: "container s' j = (if j = i then Some l else container s j)" for j using nd(5) by simp
  have rep1: "list_rep s' l (ains (item_value s) i (xs l)) (ix l)"
    using vListInsert_rep [OF r il] ins by auto
  have "lists_rep s' D I (xs(l := ains (item_value s) i (xs l))) (ix(l := ix l))"
  proof (rule lists_rep_update [OF rep l rep1])
    show "set (ains (item_value s) i (xs l)) \<subseteq> I"
      using lists_repD(4) [OF rep l] i by (simp add: set_ains)
    fix k assume "k \<noteq> l" then show "headers s' k = headers s k" by (rule nd(7))
  next
    fix p assume p: "p \<noteq> End l" "p \<notin> Item ` (set (xs l) \<union> set (ains (item_value s) i (xs l)))"
    from p neighbours [OF xl, of l] have "p \<noteq> Item i" "p \<noteq> ?p" "p \<noteq> hd (map Item zs @ [End l])"
      by (auto simp: set_ains)
    then show "nodes s' p = nodes s p" by (intro node_eqI) (simp_all add: nd)
  next
    fix j k assume "j \<in> set (ains (item_value s) i (xs l))" "k \<in> D" "k \<noteq> l"
    then show "j \<notin> set (xs k)"
      using lists_rep_free [OF rep c, of k] lists_rep_disjoint [OF rep l, of k j] by (auto simp: set_ains)
  qed (simp add: set_ains)
  with that [OF ins _ data con] show thesis by simp
qed

section \<open>Removal\<close>

lemma lists_rep_remove:
  assumes rep: "lists_rep s D I xs ix" and c: "container s i = Some l"
  obtains s' where "uxListRemove i s = Some (of_nat (length (xs l) - 1), s')"
    and "lists_rep s' D I (xs(l := remove1 i (xs l))) (ix(l := arem_index i (xs l) (ix l)))"
    and "same_data s s'" and "\<And>j. container s' j = (if j = i then None else container s j)"
proof -
  have l: "l \<in> D" and il: "i \<in> set (xs l)" using lists_rep_container [OF rep] c by simp_all
  note r = lists_rep_list [OF rep l]
  from uxListRemove_rep [OF r il lists_rep_length [OF rep l]] obtain s' where
    rm: "uxListRemove i s = Some (of_nat (length (xs l) - 1), s')"
    and rep1: "list_rep s' l (remove1 i (xs l)) (arem_index i (xs l) (ix l))"
    and data: "same_data s s'" unfolding same_data_def by blast
  from il obtain ys zs where xl: "xs l = ys @ i # zs" and iys: "i \<notin> set ys" by (blast dest: split_list_first)
  have d: "distinct (xs l)" by (rule lists_rep_distinct [OF rep l])
  then have izs: "i \<notin> set zs" by (simp add: xl)
  let ?p = "last (End l # map Item ys)" and ?n = "hd (map Item zs @ [End l])"
  have p: "prev_of s (Item i) = ?p"
    using list_rep_ring(2) [of s l ys "i # zs" "ix l"] r by (simp add: xl)
  have n: "next_of s (Item i) = ?n"
    using list_rep_ring(1) [of s l "ys @ [i]" zs "ix l"] r by (simp add: xl)
  have s': "s' = link_out ?p ?n l i s"
    using uxListRemove_eq [OF c p n end_node_ne(1) [OF iys] end_node_ne(2) [OF izs]] rm by simp
  note nd = link_out_nodes [where i = i and p = ?p and n = ?n and l = l and s = s, folded s']
  have con: "container s' j = (if j = i then None else container s j)" for j by (simp add: nd(5))
  have sub: "set (remove1 i (xs l)) \<subseteq> set (xs l)" by (rule set_remove1_subset)
  have "lists_rep s' D I (xs(l := remove1 i (xs l))) (ix(l := arem_index i (xs l) (ix l)))"
  proof (rule lists_rep_update [OF rep l rep1])
    show "set (remove1 i (xs l)) \<subseteq> I" using lists_repD(4) [OF rep l] sub by blast
    fix k assume "k \<noteq> l" then show "headers s' k = headers s k" by (rule nd(8))
  next
    fix q assume q: "q \<noteq> End l" "q \<notin> Item ` (set (xs l) \<union> set (remove1 i (xs l)))"
    have "?p \<in> insert (End l) (Item ` set (xs l))" "?n \<in> insert (End l) (Item ` set (xs l))"
      using neighbours [of "xs l" ys "i # zs" l] neighbours [of "xs l" "ys @ [i]" zs l] xl by simp_all
    with q il have "q \<noteq> Item i" "q \<noteq> ?p" "q \<noteq> ?n" by auto
    then show "nodes s' q = nodes s q" by (intro node_eqI) (simp_all add: nd)
  next
    fix j k assume "j \<in> set (remove1 i (xs l))" "k \<in> D" "k \<noteq> l"
    with sub lists_rep_disjoint [OF rep l, of k j] show "j \<notin> set (xs k)" by blast
  next
    fix j assume "j \<in> set (xs l)" "j \<notin> set (remove1 i (xs l))"
    with d have "j = i" by simp
    then show "container s' j = None" by (simp add: con)
  qed
  with that [OF rm _ data con] show thesis by blast
qed

section \<open>The walk, values and owners\<close>

lemma lists_rep_next:
  assumes rep: "lists_rep s D I xs ix" and l: "l \<in> D" and ne: "xs l \<noteq> []"
  defines "j \<equiv> hd (next_items (xs l) (ix l))"
  obtains s' where "listGET_OWNER_OF_NEXT_ENTRY l s = (owner s j, s')"
    and "lists_rep s' D I xs (ix(l := Some j))" and "nodes s' = nodes s" and "j \<in> set (xs l)"
proof -
  note r = lists_rep_list [OF rep l]
  from listGET_OWNER_OF_NEXT_ENTRY_rep [OF r ne] obtain s' where
    g: "listGET_OWNER_OF_NEXT_ENTRY l s = (owner s j, s')" and rep1: "list_rep s' l (xs l) (Some j)"
    and n: "nodes s' = nodes s" by (auto simp: j_def)
  have h: "headers s' k = headers s k" if "k \<noteq> l" for k
    using g that by (auto simp: listGET_OWNER_OF_NEXT_ENTRY_def Let_def)
  have "lists_rep s' D I (xs(l := xs l)) (ix(l := Some j))"
    by (rule lists_rep_update [OF rep l rep1])
      (use n h lists_repD(4) [OF rep l] lists_rep_disjoint [OF rep l] in auto)
  moreover have "j \<in> set (xs l)" using rep1 by (simp add: list_rep_def)
  ultimately show thesis using that [OF g _ n] by simp
qed

lemma lists_rep_same_links:
  assumes "lists_rep s D I xs ix" and "headers s' = headers s"
    and "\<And>r. pxNext (nodes s' r) = pxNext (nodes s r) \<and> pxPrevious (nodes s' r) = pxPrevious (nodes s r) \<and>
      pxContainer (nodes s' r) = pxContainer (nodes s r)"
    and "\<And>l. xItemValue (nodes s' (End l)) = xItemValue (nodes s (End l))"
  shows "lists_rep s' D I xs ix"
proof -
  have "list_rep s' l (xs l) (ix l)" if "l \<in> D" for l
  proof -
    have "links s' (End l) (map Item (xs l)) (End l) \<longleftrightarrow> links s (End l) (map Item (xs l)) (End l)"
      using assms(3) by (intro links_frame) auto
    with lists_rep_list [OF assms(1) that] assms(2-4) show ?thesis by (simp add: list_rep_def)
  qed
  with lists_repD [OF assms(1)] assms(3) show ?thesis unfolding lists_rep_def by simp
qed

lemma lists_rep_set_value:
  "lists_rep s D I xs ix \<Longrightarrow> lists_rep (listSET_LIST_ITEM_VALUE i v s) D I xs ix"
  by (erule lists_rep_same_links) (simp_all add: listSET_LIST_ITEM_VALUE_def upd_node_def)

lemma lists_rep_set_owner:
  "lists_rep s D I xs ix \<Longrightarrow> lists_rep (listSET_LIST_ITEM_OWNER i t s) D I xs ix"
  by (erule lists_rep_same_links) (simp_all add: listSET_LIST_ITEM_OWNER_def upd_node_def)

lemma set_value_simps [simp]:
  "item_value (listSET_LIST_ITEM_VALUE i v s) j = (if j = i then v else item_value s j)"
  "owner (listSET_LIST_ITEM_VALUE i v s) j = owner s j"
  "container (listSET_LIST_ITEM_VALUE i v s) j = container s j"
  by (simp_all add: listSET_LIST_ITEM_VALUE_def fun_eq_iff)

end
