(* ===== verification/Rtos_Sched.thy ===== *)
theory Rtos_Sched
  imports Rtos_Task Rtos_Lists
begin

text \<open>
  The scheduler's invariant and what the scheduler operations do to it: which tasks are
  ready, asleep, suspended or waiting, as the contents of the kernel's lists.
\<close>

section \<open>The invariant\<close>

definition task_items :: "nat set \<Rightarrow> nat set" where
  "task_items T = {i. i div 2 \<in> T}"

text \<open>
  The state items are on the ready lists of their task's priority, the two delayed lists, the list
  of suspended tasks or that of tasks to be freed; the event items are on the list of
  pending tasks or on lists of queues.
\<close>

definition fits :: "(nat \<Rightarrow> u32) \<Rightarrow> nat \<Rightarrow> nat \<Rightarrow> bool" where
  "fits prio l i \<longleftrightarrow>
     (if l < 4 then even i \<and> unat (prio (i div 2)) = l
      else if l = 6 \<or> 8 < l then odd i else even i)"

definition well_placed :: "(nat \<Rightarrow> u32) \<Rightarrow> nat set \<Rightarrow> (nat \<Rightarrow> nat list) \<Rightarrow> bool" where
  "well_placed prio D xs \<longleftrightarrow> (\<forall>l\<in>D. \<forall>i\<in>set (xs l). fits prio l i)"

definition sched :: "'a kernel_scheme \<Rightarrow> nat set \<Rightarrow> nat set \<Rightarrow> (nat \<Rightarrow> nat list) \<Rightarrow> (nat \<Rightarrow> nat option) \<Rightarrow> bool" where
  "sched k D T xs ix \<longleftrightarrow>
     lists_rep (lists k) D (task_items T) xs ix \<and> {..8} \<subseteq> D \<and> 0 \<notin> T \<and>
     (\<forall>t\<in>T. owner (lists k) (2 * t) = t \<and> owner (lists k) (2 * t + 1) = t \<and> priority_of k t < 4) \<and>
     pxCurrentTCB k \<in> T \<and>
     (pxDelayedTaskList k = 4 \<and> pxOverflowDelayedTaskList k = 5 \<or>
      pxDelayedTaskList k = 5 \<and> pxOverflowDelayedTaskList k = 4) \<and>
     well_placed (priority_of k) D xs \<and>
     (\<forall>p<4. xs p \<noteq> [] \<longrightarrow> p \<le> unat (uxTopReadyPriority k)) \<and> uxTopReadyPriority k < 4 \<and>
     sorted (map (item_value (lists k)) (xs (pxDelayedTaskList k))) \<and>
     sorted (map (item_value (lists k)) (xs (pxOverflowDelayedTaskList k))) \<and>
     (xs (pxDelayedTaskList k) \<noteq> [] \<longrightarrow> xNextTaskUnblockTime k \<le> item_value (lists k) (hd (xs (pxDelayedTaskList k))))"

lemma schedD:
  assumes "sched k D T xs ix"
  shows "lists_rep (lists k) D (task_items T) xs ix" and "l \<le> 8 \<Longrightarrow> l \<in> D" and "0 \<notin> T"
    and "t \<in> T \<Longrightarrow> owner (lists k) (2 * t) = t" and "t \<in> T \<Longrightarrow> owner (lists k) (2 * t + 1) = t"
    and "t \<in> T \<Longrightarrow> priority_of k t < 4" and "pxCurrentTCB k \<in> T"
    and "pxDelayedTaskList k = 4 \<and> pxOverflowDelayedTaskList k = 5 \<or>
      pxDelayedTaskList k = 5 \<and> pxOverflowDelayedTaskList k = 4"
    and "well_placed (priority_of k) D xs"
    and "p < 4 \<Longrightarrow> xs p \<noteq> [] \<Longrightarrow> p \<le> unat (uxTopReadyPriority k)" and "uxTopReadyPriority k < 4"
    and "sorted (map (item_value (lists k)) (xs (pxDelayedTaskList k)))"
    and "sorted (map (item_value (lists k)) (xs (pxOverflowDelayedTaskList k)))"
    and "xs (pxDelayedTaskList k) \<noteq> [] \<Longrightarrow> xNextTaskUnblockTime k \<le> item_value (lists k) (hd (xs (pxDelayedTaskList k)))"
  using assms unfolding sched_def by auto

lemma well_placedD: "well_placed prio D xs \<Longrightarrow> l \<in> D \<Longrightarrow> i \<in> set (xs l) \<Longrightarrow> fits prio l i"
  by (simp add: well_placed_def)

text \<open>A list may lose items, and take an item that belongs there.\<close>

lemma well_placed_mono:
  "well_placed prio D xs \<Longrightarrow> (\<And>l. set (xs' l) \<subseteq> set (xs l)) \<Longrightarrow> well_placed prio D xs'"
  unfolding well_placed_def by blast

lemma well_placed_add:
  "well_placed prio D xs \<Longrightarrow> fits prio l i \<Longrightarrow> set ys = insert i (set (xs l)) \<Longrightarrow> well_placed prio D (xs(l := ys))"
  unfolding well_placed_def by auto

text \<open>The state item of a task, the event item of a task.\<close>

lemma task_items_simps [simp]:
  "2 * t \<in> task_items T \<longleftrightarrow> t \<in> T" "Suc (2 * t) \<in> task_items T \<longleftrightarrow> t \<in> T"
  by (simp_all add: task_items_def)

lemma listed_task:
  assumes "sched k D T xs ix" and "l \<in> D" and "i \<in> set (xs l)"
  shows "i div 2 \<in> T"
  using lists_repD(4) [OF schedD(1) [OF assms(1)] assms(2)] assms(3) by (auto simp: task_items_def)

lemma sched_current_pos: "sched k D T xs ix \<Longrightarrow> pxCurrentTCB k \<noteq> 0"
  using schedD(3,7) [of k D T xs ix] by metis

section \<open>Taking an item off its list\<close>

lemma sorted_map_hd_le: "sorted (map f (x # xs)) \<Longrightarrow> y \<in> set xs \<Longrightarrow> f x \<le> (f y :: 'b::linorder)"
  by simp

lemma sched_remove:
  assumes inv: "sched k D T xs ix" and c: "container (lists k) i = Some l"
  obtains s' where "uxListRemove i (lists k) = Some (of_nat (length (xs l) - 1), s')"
    and "sched (k\<lparr>lists := s'\<rparr>) D T (xs(l := remove1 i (xs l))) (ix(l := arem_index i (xs l) (ix l)))"
    and "same_data (lists k) s'" and "\<And>j. container s' j = (if j = i then None else container (lists k) j)"
proof -
  note rep = schedD(1) [OF inv]
  from lists_rep_remove [OF rep c] obtain s' where
    rm: "uxListRemove i (lists k) = Some (of_nat (length (xs l) - 1), s')"
    and rep': "lists_rep s' D (task_items T) (xs(l := remove1 i (xs l))) (ix(l := arem_index i (xs l) (ix l)))"
    and data: "same_data (lists k) s'" and con: "\<And>j. container s' j = (if j = i then None else container (lists k) j)"
    by blast
  note val = same_dataD(1) [OF data] and own = same_dataD(2) [OF data]
  let ?xs = "xs(l := remove1 i (xs l))"
  have sub: "set (?xs m) \<subseteq> set (xs m)" for m using set_remove1_subset [of i "xs l"] by simp
  have ne: "xs m \<noteq> []" if "?xs m \<noteq> []" for m using that sub [of m] by (auto simp del: fun_upd_apply)
  have wp: "well_placed (priority_of k) D ?xs" by (rule well_placed_mono [OF schedD(9) [OF inv] sub])
  have sorted': "sorted (map (item_value s') (?xs m))" if "sorted (map (item_value (lists k)) (xs m))" for m
    using that by (cases "m = l") (simp_all add: val sorted_map_remove1 cong: map_cong)
  have head: "xNextTaskUnblockTime k \<le> item_value (lists k) (hd (?xs (pxDelayedTaskList k)))"
    if ne: "?xs (pxDelayedTaskList k) \<noteq> []"
  proof -
    let ?d = "xs (pxDelayedTaskList k)"
    define y where "y = hd (?xs (pxDelayedTaskList k))"
    have m: "y \<in> set ?d" unfolding y_def using sub [of "pxDelayedTaskList k"] hd_in_set [OF ne] by blast
    then obtain x r where d: "?d = x # r" by (cases ?d) auto
    have so: "sorted (map (item_value (lists k)) (x # r))" using schedD(12) [OF inv] by (simp only: d)
    from m d have "y = x \<or> y \<in> set r" by simp
    then have "item_value (lists k) x \<le> item_value (lists k) y" using sorted_map_hd_le [OF so] by blast
    moreover have "xNextTaskUnblockTime k \<le> item_value (lists k) x" using schedD(14) [OF inv] d by simp
    ultimately show ?thesis unfolding y_def by (rule order_trans [rotated])
  qed
  have "sched (k\<lparr>lists := s'\<rparr>) D T ?xs (ix(l := arem_index i (xs l) (ix l)))"
    unfolding sched_def
  proof (intro conjI)
    show "well_placed (priority_of (k\<lparr>lists := s'\<rparr>)) D ?xs"
      using wp by simp
    show "\<forall>p<4. ?xs p \<noteq> [] \<longrightarrow> p \<le> unat (uxTopReadyPriority (k\<lparr>lists := s'\<rparr>))"
      using schedD(10) [OF inv] ne by simp
  qed (use rep' schedD(2-8,11) [OF inv] sorted' [OF schedD(12) [OF inv]] sorted' [OF schedD(13) [OF inv]] head val own in auto)
  with that [OF rm _ data con] show thesis by blast
qed

section \<open>Putting an item on a list\<close>

lemma sched_insert_end:
  assumes inv: "sched k D T xs ix" and l: "l \<in> D" "l \<noteq> 4" "l \<noteq> 5" and i: "i div 2 \<in> T"
    and c: "container (lists k) i = None" and f: "fits (priority_of k) l i"
    and t: "l < 4 \<Longrightarrow> l \<le> unat (uxTopReadyPriority k)"
  shows "sched (k\<lparr>lists := vListInsertEnd l i (lists k)\<rparr>) D T (xs(l := ains_end i (xs l) (ix l))) ix"
    and "same_data (lists k) (vListInsertEnd l i (lists k))"
    and "container (vListInsertEnd l i (lists k)) j = (if j = i then Some l else container (lists k) j)"
proof -
  have "i \<in> task_items T" using i by (simp add: task_items_def)
  note ins = lists_rep_insert_end [OF schedD(1) [OF inv] l(1) this c]
  note val = same_dataD(1) [OF ins(2)] and own = same_dataD(2) [OF ins(2)]
  show "same_data (lists k) (vListInsertEnd l i (lists k))" by (rule ins(2))
  show "container (vListInsertEnd l i (lists k)) j = (if j = i then Some l else container (lists k) j)" by (rule ins(3))
  let ?xs = "xs(l := ains_end i (xs l) (ix l))" and ?k = "k\<lparr>lists := vListInsertEnd l i (lists k)\<rparr>"
  have d: "?xs (pxDelayedTaskList k) = xs (pxDelayedTaskList k)" "?xs (pxOverflowDelayedTaskList k) = xs (pxOverflowDelayedTaskList k)"
    using schedD(8) [OF inv] l(2,3) by auto
  have wp: "well_placed (priority_of k) D ?xs"
    by (rule well_placed_add [OF schedD(9) [OF inv] f set_ains_end])
  show "sched ?k D T ?xs ix"
    unfolding sched_def
  proof (intro conjI)
    show "sorted (map (item_value (lists ?k)) (?xs (pxDelayedTaskList ?k)))"
      "sorted (map (item_value (lists ?k)) (?xs (pxOverflowDelayedTaskList ?k)))"
      using d schedD(12,13) [OF inv] by (simp_all add: val cong: map_cong)
    show "?xs (pxDelayedTaskList ?k) \<noteq> [] \<longrightarrow> xNextTaskUnblockTime ?k \<le> item_value (lists ?k) (hd (?xs (pxDelayedTaskList ?k)))"
      using d schedD(14) [OF inv] by (simp add: val)
    show "\<forall>p<4. ?xs p \<noteq> [] \<longrightarrow> p \<le> unat (uxTopReadyPriority ?k)"
      using t schedD(10) [OF inv] by simp
    show "well_placed (priority_of ?k) D ?xs" using wp by simp
  qed (use ins(1) schedD(2-8,11) [OF inv] own in auto)
qed

lemma ains_hd:
  "hd (ains val i xs) = (if xs \<noteq> [] \<and> val (hd xs) \<le> val i then hd xs else i)"
  by (cases xs) (simp_all add: ains_def)

lemma sched_insert:
  assumes inv: "sched k D T xs ix" and l: "l \<in> D" "4 \<le> l" and i: "i div 2 \<in> T"
    and c: "container (lists k) i = None" and f: "fits (priority_of k) l i"
  defines "n \<equiv> (if l = pxDelayedTaskList k \<and> item_value (lists k) i < xNextTaskUnblockTime k
                then item_value (lists k) i else xNextTaskUnblockTime k)"
  obtains s' where "vListInsert l i (lists k) = Some s'"
    and "sched (k\<lparr>lists := s', xNextTaskUnblockTime := n\<rparr>) D T (xs(l := ains (item_value (lists k)) i (xs l))) ix"
    and "same_data (lists k) s'" and "\<And>j. container s' j = (if j = i then Some l else container (lists k) j)"
proof -
  have "i \<in> task_items T" using i by (simp add: task_items_def)
  from lists_rep_insert [OF schedD(1) [OF inv] l(1) this c] obtain s' where
    ins: "vListInsert l i (lists k) = Some s'"
      "lists_rep s' D (task_items T) (xs(l := ains (item_value (lists k)) i (xs l))) ix"
    and data: "same_data (lists k) s'" and con: "\<And>j. container s' j = (if j = i then Some l else container (lists k) j)"
    by blast
  note val = same_dataD(1) [OF data] and own = same_dataD(2) [OF data]
  let ?v = "item_value (lists k)"
  let ?xs = "xs(l := ains ?v i (xs l))" and ?k = "k\<lparr>lists := s', xNextTaskUnblockTime := n\<rparr>"
  have wp: "well_placed (priority_of k) D ?xs"
    by (rule well_placed_add [OF schedD(9) [OF inv] f set_ains])
  have so: "sorted (map ?v (?xs m))" if "sorted (map ?v (xs m))" for m
    using that ains_sorted [of ?v "xs l" i] by (cases "m = l") auto
  have hd: "?xs (pxDelayedTaskList k) \<noteq> [] \<longrightarrow> n \<le> ?v (hd (?xs (pxDelayedTaskList k)))"
  proof (cases "l = pxDelayedTaskList k")
    case True
    have "xs l \<noteq> [] \<Longrightarrow> xNextTaskUnblockTime k \<le> ?v (hd (xs l))" using schedD(14) [OF inv] True by simp
    then show ?thesis using True by (auto simp: n_def ains_hd not_less intro: order_trans less_imp_le)
  next
    case False
    then show ?thesis using schedD(14) [OF inv] by (simp add: n_def)
  qed
  have "sched ?k D T ?xs ix"
    unfolding sched_def
  proof (intro conjI)
    show "sorted (map (item_value (lists ?k)) (?xs (pxDelayedTaskList ?k)))"
      "sorted (map (item_value (lists ?k)) (?xs (pxOverflowDelayedTaskList ?k)))"
      using so [OF schedD(12) [OF inv]] so [OF schedD(13) [OF inv]] by (simp_all add: val cong: map_cong)
    show "?xs (pxDelayedTaskList ?k) \<noteq> [] \<longrightarrow> xNextTaskUnblockTime ?k \<le> item_value (lists ?k) (hd (?xs (pxDelayedTaskList ?k)))"
      using hd by (simp add: val)
    show "\<forall>p<4. ?xs p \<noteq> [] \<longrightarrow> p \<le> unat (uxTopReadyPriority ?k)"
      using l(2) schedD(10) [OF inv] by simp
    show "well_placed (priority_of ?k) D ?xs" using wp by simp
  qed (use ins(2) schedD(2-8,11) [OF inv] own in auto)
  with that [OF ins(1) _ data con] show thesis by blast
qed

text \<open>Making a task ready.\<close>

lemma prvAddTaskToReadyList_eq:
  "prvAddTaskToReadyList t k =
     k\<lparr>uxTopReadyPriority := max (uxTopReadyPriority k) (priority_of k t),
       lists := vListInsertEnd (unat (priority_of k t)) (2 * t) (lists k)\<rparr>"
  by (simp add: prvAddTaskToReadyList_def on_lists_def taskRECORD_READY_PRIORITY_def listINSERT_END_eq
      pxReadyTasksLists_def max_def not_le)

lemma sched_top:
  assumes "sched k D T xs ix" and "uxTopReadyPriority k \<le> p" and "p < 4"
  shows "sched (k\<lparr>uxTopReadyPriority := p\<rparr>) D T xs ix"
proof -
  have "m \<le> unat p" if "m < 4" "xs m \<noteq> []" for m
    using schedD(10) [OF assms(1) that] assms(2) by (simp add: word_le_nat_alt)
  with assms show ?thesis by (simp add: sched_def)
qed

lemma sched_ready:
  assumes inv: "sched k D T xs ix" and t: "t \<in> T" and c: "container (lists k) (2 * t) = None"
  defines "p \<equiv> unat (priority_of k t)"
  shows "sched (prvAddTaskToReadyList t k) D T (xs(p := ains_end (2 * t) (xs p) (ix p))) ix"
    and "same_data (lists k) (lists (prvAddTaskToReadyList t k))"
    and "container (lists (prvAddTaskToReadyList t k)) j = (if j = 2 * t then Some p else container (lists k) j)"
proof -
  let ?k = "k\<lparr>uxTopReadyPriority := max (uxTopReadyPriority k) (priority_of k t)\<rparr>"
  have p4: "p < 4" using schedD(6) [OF inv t] by (simp add: p_def word_less_nat_alt)
  have k: "sched ?k D T xs ix"
    using schedD(6) [OF inv t] schedD(11) [OF inv] by (intro sched_top [OF inv]) (simp_all add: max_def)
  have a: "p \<in> D" using schedD(2) [OF inv, of p] p4 by simp
  have b: "p \<noteq> 4" "p \<noteq> 5" "(2 * t) div 2 \<in> T" "container (lists ?k) (2 * t) = None"
    "fits (priority_of ?k) p (2 * t)" "p \<le> unat (uxTopReadyPriority ?k)"
    using p4 t c by (simp_all add: fits_def p_def max_def word_le_nat_alt)
  note ins = sched_insert_end [OF k a b(1-5)]
  show "sched (prvAddTaskToReadyList t k) D T (xs(p := ains_end (2 * t) (xs p) (ix p))) ix"
    using ins(1) b(6) by (simp add: prvAddTaskToReadyList_eq p_def)
  show "same_data (lists k) (lists (prvAddTaskToReadyList t k))"
    using ins(2) b(6) by (simp add: prvAddTaskToReadyList_eq p_def)
  show "container (lists (prvAddTaskToReadyList t k)) j = (if j = 2 * t then Some p else container (lists k) j)"
    using ins(3) b(6) by (simp add: prvAddTaskToReadyList_eq p_def)
qed

section \<open>Fields the invariant does not read\<close>

lemma sched_simps [simp]:
  "sched (k\<lparr>xTickCount := n\<rparr>) D T xs ix = sched k D T xs ix"
  "sched (k\<lparr>uxSchedulerSuspended := n\<rparr>) D T xs ix = sched k D T xs ix"
  "sched (k\<lparr>xPendedTicks := n\<rparr>) D T xs ix = sched k D T xs ix"
  "sched (k\<lparr>xYieldPending := b\<rparr>) D T xs ix = sched k D T xs ix"
  "sched (k\<lparr>xNumOfOverflows := n\<rparr>) D T xs ix = sched k D T xs ix"
  "sched (k\<lparr>uxTaskNumber := n\<rparr>) D T xs ix = sched k D T xs ix"
  "sched (k\<lparr>uxCurrentNumberOfTasks := n\<rparr>) D T xs ix = sched k D T xs ix"
  "sched (k\<lparr>k_mem := m\<rparr>) D T xs ix = sched k D T xs ix"
  "sched (k\<lparr>k_heap := h\<rparr>) D T xs ix = sched k D T xs ix"
  by (simp_all add: sched_def)

lemma sched_empty: "sched k D T xs ix \<Longrightarrow> l \<in> D \<Longrightarrow> list_empty k l \<longleftrightarrow> xs l = []"
  using lists_rep_empty [OF schedD(1)] by blast

lemma sched_delayed_in:
  "sched k D T xs ix \<Longrightarrow> pxDelayedTaskList k \<in> D" "sched k D T xs ix \<Longrightarrow> pxOverflowDelayedTaskList k \<in> D"
  using schedD(2,8) [of k D T xs ix] by force+

lemma sched_container:
  "sched k D T xs ix \<Longrightarrow> container (lists k) i = Some l \<longleftrightarrow> l \<in> D \<and> i \<in> set (xs l)"
  by (rule lists_rep_container [OF schedD(1)])

text \<open>The head of the delayed list is the state item of a task.\<close>

lemma sched_delayed_item:
  assumes "sched k D T xs ix" and "i \<in> set (xs (pxDelayedTaskList k)) \<union> set (xs (pxOverflowDelayedTaskList k))"
  shows "i div 2 \<in> T" and "2 * (i div 2) = i"
proof -
  have "even i"
    using well_placedD [OF schedD(9) [OF assms(1)]] sched_delayed_in [OF assms(1)] schedD(8) [OF assms(1)] assms(2)
    by (fastforce simp: fits_def)
  then show "2 * (i div 2) = i" by simp
  show "i div 2 \<in> T" using listed_task [OF assms(1)] sched_delayed_in [OF assms(1)] assms(2) by blast
qed

section \<open>Waking a sleeping task\<close>

lemma on_lists_opt_remove:
  "uxListRemove i (lists k) = Some (n, s') \<Longrightarrow> on_lists_opt (listREMOVE_ITEM i) k = Some (k\<lparr>lists := s'\<rparr>)"
  by (simp add: on_lists_opt_def listREMOVE_ITEM_eq)

lemma lists_lists: "k\<lparr>lists := a\<rparr>\<lparr>lists := b\<rparr> = k\<lparr>lists := b\<rparr>"
  by simp

text \<open>The lists of sleeping tasks lose what is taken off and change in no other way.\<close>

definition woken_lists :: "'a kernel_scheme \<Rightarrow> nat list \<Rightarrow> (nat \<Rightarrow> nat list) \<Rightarrow> (nat \<Rightarrow> nat list) \<Rightarrow> bool" where
  "woken_lists k ds xs xs' \<longleftrightarrow>
     xs' (pxDelayedTaskList k) = ds \<and> xs' (pxOverflowDelayedTaskList k) = xs (pxOverflowDelayedTaskList k)"

lemma unblock_task_sched:
  assumes inv: "sched k D T xs ix" and t: "t \<in> T" and c: "container (lists k) (2 * t) = Some (pxDelayedTaskList k)"
  obtains k' s' tp xs' ix' where "unblock_task t k = Some k'" and "k' = k\<lparr>lists := s', uxTopReadyPriority := tp\<rparr>"
    and "sched k' D T xs' ix'" and "same_data (lists k) s'"
    and "woken_lists k (remove1 (2 * t) (xs (pxDelayedTaskList k))) xs xs'"
    and "\<And>j. container s' j = (if j = 2 * t then Some (unat (priority_of k t)) else if j = 2 * t + 1 then None
            else container (lists k) j)"
proof -
  let ?d = "pxDelayedTaskList k" and ?o = "pxOverflowDelayedTaskList k" and ?p = "unat (priority_of k t)"
  have p4: "?p < 4" using schedD(6) [OF inv t] by (simp add: word_less_nat_alt)
  have do: "?d \<noteq> ?o" "?d \<noteq> ?p" "?o \<noteq> ?p" "?d = 4 \<or> ?d = 5" "?o = 4 \<or> ?o = 5"
    using schedD(8) [OF inv] p4 by auto
  from sched_remove [OF inv c] obtain s1 where
    r1: "uxListRemove (2 * t) (lists k) = Some (of_nat (length (xs ?d) - 1), s1)"
    and i1: "sched (k\<lparr>lists := s1\<rparr>) D T (xs(?d := remove1 (2 * t) (xs ?d))) (ix(?d := arem_index (2 * t) (xs ?d) (ix ?d)))"
    and d1: "same_data (lists k) s1" and c1: "\<And>j. container s1 j = (if j = 2 * t then None else container (lists k) j)"
    by blast
  let ?xs1 = "xs(?d := remove1 (2 * t) (xs ?d))" and ?ix1 = "ix(?d := arem_index (2 * t) (xs ?d) (ix ?d))"
  obtain s2 xs2 ix2 where
    r2: "(if listLIST_ITEM_CONTAINER (2 * t + 1) s1 \<noteq> None
          then on_lists_opt (listREMOVE_ITEM (2 * t + 1)) (k\<lparr>lists := s1\<rparr>) else Some (k\<lparr>lists := s1\<rparr>))
        = Some (k\<lparr>lists := s2\<rparr>)"
    and i2: "sched (k\<lparr>lists := s2\<rparr>) D T xs2 ix2" and d2: "same_data s1 s2"
    and c2: "\<And>j. container s2 j = (if j = 2 * t + 1 then None else container s1 j)"
    and w2: "xs2 ?d = ?xs1 ?d" "xs2 ?o = ?xs1 ?o"
  proof (cases "container s1 (2 * t + 1)")
    case None
    then have "container s1 j = (if j = 2 * t + 1 then None else container s1 j)" for j by simp
    with None that [OF _ i1 same_data_refl] show thesis by (simp add: listLIST_ITEM_CONTAINER_def)
  next
    case (Some l)
    then have c': "container (lists (k\<lparr>lists := s1\<rparr>)) (2 * t + 1) = Some l" by simp
    from sched_remove [OF i1 c'] obtain s2 where
      r: "uxListRemove (2 * t + 1) (lists (k\<lparr>lists := s1\<rparr>)) = Some (of_nat (length (?xs1 l) - 1), s2)"
      and i: "sched (k\<lparr>lists := s1\<rparr>\<lparr>lists := s2\<rparr>) D T (?xs1(l := remove1 (2 * t + 1) (?xs1 l)))
        (?ix1(l := arem_index (2 * t + 1) (?xs1 l) (?ix1 l)))"
      and d: "same_data (lists (k\<lparr>lists := s1\<rparr>)) s2"
      and c: "\<And>j. container s2 j = (if j = 2 * t + 1 then None else container (lists (k\<lparr>lists := s1\<rparr>)) j)"
      by blast
    have "l \<in> D \<and> 2 * t + 1 \<in> set (?xs1 l)" using sched_container [OF i1, of "2 * t + 1" l] c' by (rule iffD1)
    then have "fits (priority_of (k\<lparr>lists := s1\<rparr>)) l (2 * t + 1)" using well_placedD [OF schedD(9) [OF i1]] by blast
    then have "l \<noteq> ?d" "l \<noteq> ?o" using do(4,5) by (auto simp: fits_def)
    show thesis
    proof (rule that)
      show "sched (k\<lparr>lists := s2\<rparr>) D T (?xs1(l := remove1 (2 * t + 1) (?xs1 l)))
          (?ix1(l := arem_index (2 * t + 1) (?xs1 l) (?ix1 l)))" using i by (simp only: lists_lists)
      show "(if listLIST_ITEM_CONTAINER (2 * t + 1) s1 \<noteq> None
          then on_lists_opt (listREMOVE_ITEM (2 * t + 1)) (k\<lparr>lists := s1\<rparr>) else Some (k\<lparr>lists := s1\<rparr>))
        = Some (k\<lparr>lists := s2\<rparr>)"
        using on_lists_opt_remove [OF r] Some by (simp add: listLIST_ITEM_CONTAINER_def)
    qed (use d c \<open>l \<noteq> ?d\<close> \<open>l \<noteq> ?o\<close> in simp_all)
  qed
  have cn: "container (lists (k\<lparr>lists := s2\<rparr>)) (2 * t) = None" by (simp add: c2 c1)
  note ready = sched_ready [OF i2 t cn]
  let ?k' = "prvAddTaskToReadyList t (k\<lparr>lists := s2\<rparr>)"
  have u: "unblock_task t k = Some ?k'"
    using on_lists_opt_remove [OF r1] r2 by (simp add: unblock_task_def)
  have k': "?k' = k\<lparr>lists := lists ?k', uxTopReadyPriority := uxTopReadyPriority ?k'\<rparr>"
    by (simp add: prvAddTaskToReadyList_eq)
  show thesis
  proof (rule that [OF u k' ready(1)])
    show "same_data (lists k) (lists ?k')"
      using same_data_trans [OF same_data_trans [OF d1 d2]] ready(2) by simp
    show "woken_lists k (remove1 (2 * t) (xs ?d)) xs
        (xs2(unat (priority_of (k\<lparr>lists := s2\<rparr>) t) :=
          ains_end (2 * t) (xs2 (unat (priority_of (k\<lparr>lists := s2\<rparr>) t))) (ix2 (unat (priority_of (k\<lparr>lists := s2\<rparr>) t)))))"
      using do w2 by (simp add: woken_lists_def)
    show "container (lists ?k') j = (if j = 2 * t then Some ?p else if j = 2 * t + 1 then None else container (lists k) j)" for j
      using ready(3) c2 c1 by simp
  qed
qed

section \<open>The tick's loop\<close>

text \<open>
  What it means that the tasks of \<open>W\<close> (their state items) have woken: they are on the ready
  lists of their priorities and wait for no event; nothing else has moved.
\<close>

definition woken :: "'a kernel_scheme \<Rightarrow> nat set \<Rightarrow> store \<Rightarrow> bool" where
  "woken k W s' \<longleftrightarrow>
     (\<forall>j. container s' j = (if j \<in> W then Some (unat (priority_of k (j div 2)))
        else if odd j \<and> j - 1 \<in> W then None else container (lists k) j))"

lemma wokenD: "woken k W s' \<Longrightarrow> container s' j = (if j \<in> W then Some (unat (priority_of k (j div 2)))
    else if odd j \<and> j - 1 \<in> W then None else container (lists k) j)"
  by (simp add: woken_def)

lemma sched_next:
  assumes "sched k D T xs ix" and "xs (pxDelayedTaskList k) \<noteq> [] \<Longrightarrow> n \<le> item_value (lists k) (hd (xs (pxDelayedTaskList k)))"
  shows "sched (k\<lparr>xNextTaskUnblockTime := n\<rparr>) D T xs ix"
  using assms by (simp add: sched_def)

lemma same_lists_top:
  "k\<lparr>lists := lists k, uxTopReadyPriority := uxTopReadyPriority k, xNextTaskUnblockTime := n\<rparr> = k\<lparr>xNextTaskUnblockTime := n\<rparr>"
  by simp

lemma unblock_due_sched:
  assumes "sched k D T xs ix" and "xs (pxDelayedTaskList k) = ds"
  shows "\<exists>sw' s' tp nx xs' ix'.
    unblock_due now sw k = Some (sw', k\<lparr>lists := s', uxTopReadyPriority := tp, xNextTaskUnblockTime := nx\<rparr>) \<and>
    sched (k\<lparr>lists := s', uxTopReadyPriority := tp, xNextTaskUnblockTime := nx\<rparr>) D T xs' ix' \<and> same_data (lists k) s' \<and>
    woken_lists k (dropWhile (\<lambda>i. item_value (lists k) i \<le> now) ds) xs xs' \<and>
    woken k (set (takeWhile (\<lambda>i. item_value (lists k) i \<le> now) ds)) s' \<and>
    (sw' \<longleftrightarrow> sw \<or> (\<exists>j\<in>set (takeWhile (\<lambda>i. item_value (lists k) i \<le> now) ds).
       priority_of k (pxCurrentTCB k) < priority_of k (j div 2)))"
  using assms
proof (induction ds arbitrary: k xs ix sw)
  case Nil
  let ?k = "k\<lparr>xNextTaskUnblockTime := portMAX_DELAY\<rparr>"
  have e: "list_empty k (pxDelayedTaskList k)"
    using sched_empty [OF Nil(1) sched_delayed_in(1) [OF Nil(1)]] Nil(2) by simp
  have "unblock_due now sw k = Some (sw, ?k)" by (subst unblock_due.simps) (simp add: e)
  moreover have "sched ?k D T xs ix" by (rule sched_next [OF Nil(1)]) (simp add: Nil(2))
  ultimately show ?case
    using Nil(2) by (intro exI [of _ sw] exI [of _ "lists k"] exI [of _ "uxTopReadyPriority k"]
        exI [of _ portMAX_DELAY] exI [of _ xs] exI [of _ ix]) (simp add: woken_lists_def woken_def same_lists_top)
next
  case (Cons i r)
  let ?v = "item_value (lists k)" and ?d = "pxDelayedTaskList k"
  note inv = Cons.prems(1) and din = sched_delayed_in(1) [OF Cons.prems(1)]
  have "i \<in> set (xs ?d) \<union> set (xs (pxOverflowDelayedTaskList k))" using Cons.prems(2) by simp
  note it = sched_delayed_item [OF inv this]
  define t where "t = i div 2"
  have t: "t \<in> T" "2 * t = i" using it by (simp_all add: t_def)
  have ne: "\<not> list_empty k ?d" using sched_empty [OF inv din] Cons.prems(2) by simp
  have head: "listGET_OWNER_OF_HEAD_ENTRY ?d (lists k) = t"
    using lists_rep_head(1) [OF schedD(1) [OF inv] din Cons.prems(2)] schedD(4) [OF inv t(1)] t(2) by simp
  have vt: "listGET_LIST_ITEM_VALUE (2 * t) (lists k) = ?v i" by (simp add: t(2) listGET_LIST_ITEM_VALUE_def)
  note unfold = unblock_due.simps [of now sw k]
  show ?case
  proof (cases "now < ?v i")
    case True
    let ?k = "k\<lparr>xNextTaskUnblockTime := ?v i\<rparr>"
    have "unblock_due now sw k = Some (sw, ?k)"
      by (subst unfold) (simp add: ne head vt True)
    moreover have "sched ?k D T xs ix" by (rule sched_next [OF inv]) (simp add: Cons.prems(2))
    moreover have "\<not> ?v i \<le> now" using True by simp
    ultimately show ?thesis
      using Cons.prems(2) by (intro exI [of _ sw] exI [of _ "lists k"] exI [of _ "uxTopReadyPriority k"]
          exI [of _ "?v i"] exI [of _ xs] exI [of _ ix]) (simp add: woken_lists_def woken_def same_lists_top)
  next
    case False
    then have le: "?v i \<le> now" by simp
    have c: "container (lists k) (2 * t) = Some ?d" using sched_container [OF inv] din Cons.prems(2) t(2) by simp
    obtain k1 s1 tp1 xs1 ix1 where
      u: "unblock_task t k = Some k1" and k1: "k1 = k\<lparr>lists := s1, uxTopReadyPriority := tp1\<rparr>"
      and inv1: "sched k1 D T xs1 ix1" and data: "same_data (lists k) s1"
      and wl: "woken_lists k (remove1 (2 * t) (xs ?d)) xs xs1"
      and con: "\<And>j. container s1 j = (if j = 2 * t then Some (unat (priority_of k t)) else if j = 2 * t + 1 then None
            else container (lists k) j)" by (rule unblock_task_sched [OF inv t(1) c]) (rule that)
    have xs1: "xs1 (pxDelayedTaskList k1) = r"
      using wl Cons.prems(2) t(2) by (simp add: woken_lists_def k1)
    have v1: "item_value (lists k1) j = ?v j" for j using same_dataD(1) [OF data] by (simp add: k1)
    from Cons.IH [OF inv1 xs1, of "sw \<or> priority_of k1 (pxCurrentTCB k1) < priority_of k1 t"]
    obtain sw' s' tp nx xs' ix' where
      IH: "unblock_due now (sw \<or> priority_of k1 (pxCurrentTCB k1) < priority_of k1 t) k1 =
          Some (sw', k1\<lparr>lists := s', uxTopReadyPriority := tp, xNextTaskUnblockTime := nx\<rparr>)"
      "sched (k1\<lparr>lists := s', uxTopReadyPriority := tp, xNextTaskUnblockTime := nx\<rparr>) D T xs' ix'" "same_data (lists k1) s'"
      "woken_lists k1 (dropWhile (\<lambda>i. ?v i \<le> now) r) xs1 xs'"
      "woken k1 (set (takeWhile (\<lambda>i. ?v i \<le> now) r)) s'"
      "sw' \<longleftrightarrow> (sw \<or> priority_of k1 (pxCurrentTCB k1) < priority_of k1 t) \<or> (\<exists>j\<in>set (takeWhile (\<lambda>i. ?v i \<le> now) r).
         priority_of k1 (pxCurrentTCB k1) < priority_of k1 (j div 2))"
      unfolding v1 by blast
    let ?k' = "k\<lparr>lists := s', uxTopReadyPriority := tp, xNextTaskUnblockTime := nx\<rparr>"
    have k': "k1\<lparr>lists := s', uxTopReadyPriority := tp, xNextTaskUnblockTime := nx\<rparr> = ?k'" by (simp add: k1)
    have "unblock_due now sw k = Some (sw', ?k')"
      using IH(1) by (subst unfold) (simp add: ne head vt False u k' Let_def)
    moreover have "sched ?k' D T xs' ix'" using IH(2) k' by simp
    moreover have "same_data (lists k) s'" using same_data_trans [OF data] IH(3) by (simp add: k1)
    moreover have "woken_lists k (dropWhile (\<lambda>i. ?v i \<le> now) (i # r)) xs xs'"
      using IH(4) wl le by (simp add: woken_lists_def k1)
    moreover have "woken k (set (takeWhile (\<lambda>i. ?v i \<le> now) (i # r))) s'"
    proof -
      have "even i" using t(2) by (metis dvd_triv_left)
      with IH(5) con le t(2) show ?thesis unfolding woken_def by (auto simp: k1 t_def)
    qed
    moreover have "sw' \<longleftrightarrow> sw \<or> (\<exists>j\<in>set (takeWhile (\<lambda>i. ?v i \<le> now) (i # r)).
       priority_of k (pxCurrentTCB k) < priority_of k (j div 2))"
      using IH(6) le by (auto simp: k1 t_def)
    ultimately show ?thesis by blast
  qed
qed

end
