(* ===== verification/Rtos_Tick.thy ===== *)
theory Rtos_Tick
  imports Rtos_Sched
begin

text \<open>
  Time: the tick moves exactly the tasks whose time has come, also when the 32-bit counter wraps,
  and the relation \<open>sleeps\<close> counts the ticks a sleeping task has to go.
\<close>

section \<open>The tick\<close>

text \<open>Between two ticks nobody on the current list is due.\<close>

definition timed :: "'a kernel_scheme \<Rightarrow> (nat \<Rightarrow> nat list) \<Rightarrow> bool" where
  "timed k xs \<longleftrightarrow> (\<forall>i\<in>set (xs (pxDelayedTaskList k)). xTickCount k < item_value (lists k) i)"

text \<open>The list the next tick looks at: at the wrap-around, the one for the new epoch.\<close>

definition due_list :: "'a kernel_scheme \<Rightarrow> (nat \<Rightarrow> nat list) \<Rightarrow> nat list" where
  "due_list k xs = (if xTickCount k + 1 = 0 then xs (pxOverflowDelayedTaskList k) else xs (pxDelayedTaskList k))"

definition due_items :: "'a kernel_scheme \<Rightarrow> (nat \<Rightarrow> nat list) \<Rightarrow> nat list" where
  "due_items k xs = takeWhile (\<lambda>i. item_value (lists k) i \<le> xTickCount k + 1) (due_list k xs)"

lemma set_takeWhile_sorted:
  assumes "sorted (map f xs)"
  shows "set (takeWhile (\<lambda>i. f i \<le> (n :: 'b::linorder)) xs) = {i \<in> set xs. f i \<le> n}"
    and "set (dropWhile (\<lambda>i. f i \<le> n) xs) = {i \<in> set xs. n < f i}"
proof -
  have "set (takeWhile (\<lambda>i. f i \<le> n) xs) = {i \<in> set xs. f i \<le> n} \<and> set (dropWhile (\<lambda>i. f i \<le> n) xs) = {i \<in> set xs. n < f i}"
    using assms
  proof (induction xs)
    case (Cons x xs)
    show ?case
    proof (cases "f x \<le> n")
      case True
      with Cons show ?thesis by auto
    next
      case False
      with Cons.prems have "n < f y" if "y \<in> set (x # xs)" for y
        using that by (fastforce simp: not_le)
      with False show ?thesis by force
    qed
  qed simp
  then show "set (takeWhile (\<lambda>i. f i \<le> n) xs) = {i \<in> set xs. f i \<le> n}"
    "set (dropWhile (\<lambda>i. f i \<le> n) xs) = {i \<in> set xs. n < f i}" by blast+
qed

lemma sched_reset_next:
  assumes inv: "sched k D T xs ix"
  shows "sched (prvResetNextTaskUnblockTime k) D T xs ix"
    and "prvResetNextTaskUnblockTime k = k\<lparr>xNextTaskUnblockTime := xNextTaskUnblockTime (prvResetNextTaskUnblockTime k)\<rparr>"
proof -
  let ?d = "pxDelayedTaskList k"
  note e = sched_empty [OF inv sched_delayed_in(1) [OF inv]]
  show "prvResetNextTaskUnblockTime k = k\<lparr>xNextTaskUnblockTime := xNextTaskUnblockTime (prvResetNextTaskUnblockTime k)\<rparr>"
    by (simp add: prvResetNextTaskUnblockTime_def)
  show "sched (prvResetNextTaskUnblockTime k) D T xs ix"
  proof (cases "xs ?d")
    case Nil
    with sched_next [OF inv, of portMAX_DELAY] e show ?thesis by (simp add: prvResetNextTaskUnblockTime_def)
  next
    case (Cons i r)
    from lists_rep_head(2) [OF schedD(1) [OF inv] sched_delayed_in(1) [OF inv] Cons] Cons e
      sched_next [OF inv, of "item_value (lists k) i"] show ?thesis
      by (simp add: prvResetNextTaskUnblockTime_def)
  qed
qed

lemma sched_switch_lists:
  assumes inv: "sched k D T xs ix" and e: "xs (pxDelayedTaskList k) = []"
  shows "\<exists>n. taskSWITCH_DELAYED_LISTS k = Some (k\<lparr>pxDelayedTaskList := pxOverflowDelayedTaskList k,
        pxOverflowDelayedTaskList := pxDelayedTaskList k, xNumOfOverflows := xNumOfOverflows k + 1, xNextTaskUnblockTime := n\<rparr>) \<and>
      sched (k\<lparr>pxDelayedTaskList := pxOverflowDelayedTaskList k,
        pxOverflowDelayedTaskList := pxDelayedTaskList k, xNumOfOverflows := xNumOfOverflows k + 1, xNextTaskUnblockTime := n\<rparr>) D T xs ix"
proof -
  let ?o = "xs (pxOverflowDelayedTaskList k)"
  let ?k = "k\<lparr>pxDelayedTaskList := pxOverflowDelayedTaskList k, pxOverflowDelayedTaskList := pxDelayedTaskList k,
      xNumOfOverflows := xNumOfOverflows k + 1\<rparr>"
  have le: "list_empty k (pxDelayedTaskList k)" using sched_empty [OF inv sched_delayed_in(1) [OF inv]] e by simp
  have oin: "pxOverflowDelayedTaskList k \<in> D" by (rule sched_delayed_in(2) [OF inv])
  define n where "n = (if ?o = [] then portMAX_DELAY else item_value (lists k) (hd ?o))"
  have r: "prvResetNextTaskUnblockTime ?k = ?k\<lparr>xNextTaskUnblockTime := n\<rparr>"
  proof (cases ?o)
    case Nil
    then show ?thesis using sched_empty [OF inv oin] by (simp add: prvResetNextTaskUnblockTime_def n_def)
  next
    case (Cons i s)
    with lists_rep_head(2) [OF schedD(1) [OF inv] oin Cons] sched_empty [OF inv oin] show ?thesis
      by (simp add: prvResetNextTaskUnblockTime_def n_def)
  qed
  have "sched (?k\<lparr>xNextTaskUnblockTime := n\<rparr>) D T xs ix"
    using inv e by (auto simp: sched_def n_def)
  with le r show ?thesis by (intro exI [of _ n]) (simp add: taskSWITCH_DELAYED_LISTS_def)
qed

section \<open>One tick\<close>

text \<open>What the tick writes: the clock, at the wrap-around the two lists' roles, and what waking tasks writes.\<close>

definition ticked :: "'a kernel_scheme \<Rightarrow> store \<Rightarrow> u32 \<Rightarrow> u32 \<Rightarrow> 'a kernel_scheme" where
  "ticked k s tp nx =
     k\<lparr>lists := s, uxTopReadyPriority := tp, xNextTaskUnblockTime := nx, xTickCount := xTickCount k + 1,
       pxDelayedTaskList := (if xTickCount k + 1 = 0 then pxOverflowDelayedTaskList k else pxDelayedTaskList k),
       pxOverflowDelayedTaskList := (if xTickCount k + 1 = 0 then pxDelayedTaskList k else pxOverflowDelayedTaskList k),
       xNumOfOverflows := (if xTickCount k + 1 = 0 then xNumOfOverflows k + 1 else xNumOfOverflows k)\<rparr>"

lemma ticked_simps [simp]:
  "lists (ticked k s tp nx) = s" "xTickCount (ticked k s tp nx) = xTickCount k + 1"
  "pxCurrentTCB (ticked k s tp nx) = pxCurrentTCB k" "tcbs (ticked k s tp nx) = tcbs k" "k_mem (ticked k s tp nx) = k_mem k"
  "uxSchedulerSuspended (ticked k s tp nx) = uxSchedulerSuspended k" "xPendedTicks (ticked k s tp nx) = xPendedTicks k"
  "xYieldPending (ticked k s tp nx) = xYieldPending k" "xIdleTaskHandle (ticked k s tp nx) = xIdleTaskHandle k"
  "uxCurrentNumberOfTasks (ticked k s tp nx) = uxCurrentNumberOfTasks k" "xNextTaskUnblockTime (ticked k s tp nx) = nx"
  by (simp_all add: ticked_def)

lemma timed_wrap: "timed k xs \<Longrightarrow> xTickCount k + 1 = 0 \<Longrightarrow> xs (pxDelayedTaskList k) = []"
proof -
  assume t: "timed k xs" and w: "xTickCount k + 1 = 0"
  from w have "xTickCount k = - 1" by (simp add: add_eq_0_iff2)
  then have "\<not> xTickCount k < v" for v :: u32 by simp
  with t show ?thesis unfolding timed_def by (metis all_not_in_conv set_empty)
qed

text \<open>The lists before anybody is woken.\<close>

lemma tick_lists:
  assumes inv: "sched k D T xs ix" and tm: "timed k xs"
  obtains nx where
    "(if xTickCount k + 1 = 0 then taskSWITCH_DELAYED_LISTS (k\<lparr>xTickCount := xTickCount k + 1\<rparr>)
      else Some (k\<lparr>xTickCount := xTickCount k + 1\<rparr>)) = Some (ticked k (lists k) (uxTopReadyPriority k) nx)"
    and "sched (ticked k (lists k) (uxTopReadyPriority k) nx) D T xs ix"
    and "xs (pxDelayedTaskList (ticked k (lists k) (uxTopReadyPriority k) nx)) = due_list k xs"
proof (cases "xTickCount k + 1 = 0")
  case True
  let ?k = "k\<lparr>xTickCount := xTickCount k + 1\<rparr>"
  have "sched ?k D T xs ix" using inv by simp
  moreover have "xs (pxDelayedTaskList ?k) = []" using timed_wrap [OF tm True] by simp
  ultimately obtain n where "taskSWITCH_DELAYED_LISTS ?k = Some (?k\<lparr>pxDelayedTaskList := pxOverflowDelayedTaskList ?k,
        pxOverflowDelayedTaskList := pxDelayedTaskList ?k, xNumOfOverflows := xNumOfOverflows ?k + 1, xNextTaskUnblockTime := n\<rparr>)"
    and "sched (?k\<lparr>pxDelayedTaskList := pxOverflowDelayedTaskList ?k,
        pxOverflowDelayedTaskList := pxDelayedTaskList ?k, xNumOfOverflows := xNumOfOverflows ?k + 1, xNextTaskUnblockTime := n\<rparr>) D T xs ix"
    using sched_switch_lists by blast
  moreover have "?k\<lparr>pxDelayedTaskList := pxOverflowDelayedTaskList ?k,
        pxOverflowDelayedTaskList := pxDelayedTaskList ?k, xNumOfOverflows := xNumOfOverflows ?k + 1, xNextTaskUnblockTime := n\<rparr>
      = ticked k (lists k) (uxTopReadyPriority k) n" using True by (simp add: ticked_def)
  ultimately have r: "taskSWITCH_DELAYED_LISTS ?k = Some (ticked k (lists k) (uxTopReadyPriority k) n)"
    "sched (ticked k (lists k) (uxTopReadyPriority k) n) D T xs ix" by metis+
  show thesis
    by (rule that [OF _ r(2)]) (use r(1) True in \<open>simp_all add: due_list_def ticked_def\<close>)
next
  case False
  let ?k = "k\<lparr>xTickCount := xTickCount k + 1\<rparr>"
  have e: "?k = ticked k (lists k) (uxTopReadyPriority k) (xNextTaskUnblockTime k)" using False by (simp add: ticked_def)
  have "sched ?k D T xs ix" using inv by simp
  then show thesis
    using that [of "xNextTaskUnblockTime k"] False unfolding e by (simp add: due_list_def ticked_def)
qed

lemma takeWhile_none: "(xs \<noteq> [] \<Longrightarrow> \<not> P (hd xs)) \<Longrightarrow> takeWhile P xs = [] \<and> dropWhile P xs = xs"
  by (cases xs) auto

lemma woken_same: "lists k' = lists k \<Longrightarrow> tcbs k' = tcbs k \<Longrightarrow> woken k' W s = woken k W s"
  by (simp add: woken_def)

definition sliced :: "'a kernel_scheme \<Rightarrow> bool" where
  "sliced k \<longleftrightarrow> 1 < listCURRENT_LIST_LENGTH (unat (priority_of k (pxCurrentTCB k))) (lists k)"

lemma xTaskIncrementTick_sched:
  assumes inv: "sched k D T xs ix" and tm: "timed k xs" and un: "uxSchedulerSuspended k = 0"
  obtains sw s tp nx xs' ix' where "xTaskIncrementTick k = Some (sw, ticked k s tp nx)"
    and "sched (ticked k s tp nx) D T xs' ix'" and "timed (ticked k s tp nx) xs'"
    and "same_data (lists k) s" and "woken k (set (due_items k xs)) s"
    and "sw \<longleftrightarrow> (\<exists>j\<in>set (due_items k xs). priority_of k (pxCurrentTCB k) < priority_of k (j div 2)) \<or>
      sliced (ticked k s tp nx) \<or> xYieldPending k"
proof -
  let ?now = "xTickCount k + 1"
  obtain nx where l: "(if ?now = 0 then taskSWITCH_DELAYED_LISTS (k\<lparr>xTickCount := ?now\<rparr>)
      else Some (k\<lparr>xTickCount := ?now\<rparr>)) = Some (ticked k (lists k) (uxTopReadyPriority k) nx)"
    and inv2: "sched (ticked k (lists k) (uxTopReadyPriority k) nx) D T xs ix"
    and due: "xs (pxDelayedTaskList (ticked k (lists k) (uxTopReadyPriority k) nx)) = due_list k xs"
    by (rule tick_lists [OF inv tm]) (rule that)
  let ?k2 = "ticked k (lists k) (uxTopReadyPriority k) nx"
  obtain sw s tp n xs' ix' where
    r: "(if nx \<le> ?now then unblock_due ?now False ?k2 else Some (False, ?k2)) = Some (sw, ticked k s tp n)"
    and inv3: "sched (ticked k s tp n) D T xs' ix'" and data: "same_data (lists k) s"
    and dl: "xs' (pxDelayedTaskList ?k2) = dropWhile (\<lambda>i. item_value (lists k) i \<le> ?now) (due_list k xs)"
    and w: "woken k (set (due_items k xs)) s"
    and sw: "sw \<longleftrightarrow> (\<exists>j\<in>set (due_items k xs). priority_of k (pxCurrentTCB k) < priority_of k (j div 2))"
  proof (cases "nx \<le> ?now")
    case True
    from unblock_due_sched [OF inv2 due, of ?now False] obtain sw s tp n xs' ix' where
      u: "unblock_due ?now False ?k2 = Some (sw, ?k2\<lparr>lists := s, uxTopReadyPriority := tp, xNextTaskUnblockTime := n\<rparr>)"
      "sched (?k2\<lparr>lists := s, uxTopReadyPriority := tp, xNextTaskUnblockTime := n\<rparr>) D T xs' ix'" "same_data (lists ?k2) s"
      "woken_lists ?k2 (dropWhile (\<lambda>i. item_value (lists ?k2) i \<le> ?now) (due_list k xs)) xs xs'"
      "woken ?k2 (set (takeWhile (\<lambda>i. item_value (lists ?k2) i \<le> ?now) (due_list k xs))) s"
      "sw \<longleftrightarrow> False \<or> (\<exists>j\<in>set (takeWhile (\<lambda>i. item_value (lists ?k2) i \<le> ?now) (due_list k xs)).
        priority_of ?k2 (pxCurrentTCB ?k2) < priority_of ?k2 (j div 2))" by blast
    have e: "?k2\<lparr>lists := s, uxTopReadyPriority := tp, xNextTaskUnblockTime := n\<rparr> = ticked k s tp n"
      by (simp add: ticked_def)
    have w: "woken k (set (due_items k xs)) s"
      using u(5) woken_same [of ?k2 k] by (simp add: due_items_def)
    show thesis
      by (rule that [of sw s tp n xs' ix', OF _ _ _ _ w]) (use True u e in \<open>simp_all add: woken_lists_def due_items_def\<close>)
  next
    case False
    have "xs (pxDelayedTaskList ?k2) \<noteq> [] \<Longrightarrow> nx \<le> item_value (lists k) (hd (due_list k xs))"
      using schedD(14) [OF inv2] due by simp
    with False have "due_list k xs \<noteq> [] \<Longrightarrow> \<not> item_value (lists k) (hd (due_list k xs)) \<le> ?now"
      using due by (auto dest: order_trans)
    from takeWhile_none [of "due_list k xs" "\<lambda>i. item_value (lists k) i \<le> ?now", OF this]
    have tw: "due_items k xs = []" "dropWhile (\<lambda>i. item_value (lists k) i \<le> ?now) (due_list k xs) = due_list k xs"
      by (simp_all add: due_items_def)
    show thesis
      by (rule that [of False "lists k" "uxTopReadyPriority k" nx xs ix])
        (use False inv2 due tw in \<open>simp_all add: woken_def\<close>)
  qed
  show thesis
  proof (rule that [OF _ inv3 _ data w])
    have "pxReadyTasksLists p = unat p" for p by (simp add: pxReadyTasksLists_def)
    then show "xTaskIncrementTick k = Some (sw \<or> sliced (ticked k s tp n) \<or> xYieldPending k, ticked k s tp n)"
      using un l r by (simp add: xTaskIncrementTick_def Let_def sliced_def)
    show "(sw \<or> sliced (ticked k s tp n) \<or> xYieldPending k) \<longleftrightarrow>
        (\<exists>j\<in>set (due_items k xs). priority_of k (pxCurrentTCB k) < priority_of k (j div 2)) \<or>
        sliced (ticked k s tp n) \<or> xYieldPending k" by (simp add: sw)
    have "sorted (map (item_value (lists ?k2)) (xs (pxDelayedTaskList ?k2)))" by (rule schedD(12) [OF inv2])
    then have so: "sorted (map (item_value (lists k)) (due_list k xs))" using due by simp
    have "pxDelayedTaskList (ticked k s tp n) = pxDelayedTaskList ?k2" by (simp add: ticked_def)
    then have "set (xs' (pxDelayedTaskList (ticked k s tp n))) = {i \<in> set (due_list k xs). ?now < item_value (lists k) i}"
      using set_takeWhile_sorted(2) [OF so, of ?now] dl by simp
    then show "timed (ticked k s tp n) xs'" using same_dataD(1) [OF data] by (simp add: timed_def)
  qed
qed

end
