(* ===== verification/Rtos_Switch.thy ===== *)
theory Rtos_Switch
  imports Rtos_Tick
begin

text \<open>
  The context switch: which task it chooses, and that switching again and again serves
  the ready tasks of the highest priority in turn.
\<close>

section \<open>Ready tasks\<close>

text \<open>A task is ready when its state item is on the ready list of its priority.\<close>

definition ready :: "'a kernel_scheme \<Rightarrow> nat \<Rightarrow> bool" where
  "ready k t \<longleftrightarrow> container (lists k) (2 * t) = Some (unat (priority_of k t))"

text \<open>No ready task has a higher priority than the running one.\<close>

definition top_runs :: "nat set \<Rightarrow> 'a kernel_scheme \<Rightarrow> bool" where
  "top_runs T k \<longleftrightarrow> (\<forall>t\<in>T. ready k t \<longrightarrow> priority_of k t \<le> priority_of k (pxCurrentTCB k))"

lemma ready_same: "lists k' = lists k \<Longrightarrow> tcbs k' = tcbs k \<Longrightarrow> ready k' = ready k"
  by (simp add: ready_def fun_eq_iff)

lemma sched_ready_iff:
  assumes inv: "sched k D T xs ix" and t: "t \<in> T"
  shows "ready k t \<longleftrightarrow> 2 * t \<in> set (xs (unat (priority_of k t)))"
proof -
  have "unat (priority_of k t) \<le> 8" using schedD(6) [OF inv t] by (simp add: word_less_nat_alt)
  then have "unat (priority_of k t) \<in> D" by (rule schedD(2) [OF inv])
  with sched_container [OF inv, of "2 * t" "unat (priority_of k t)"] show ?thesis by (simp add: ready_def)
qed

text \<open>The items of a ready list are the state items of ready tasks of that priority.\<close>

lemma ready_list_item:
  assumes inv: "sched k D T xs ix" and p: "p < 4" and i: "i \<in> set (xs p)"
  obtains t where "i = 2 * t" and "t \<in> T" and "ready k t" and "unat (priority_of k t) = p"
proof -
  have pD: "p \<in> D" using schedD(2) [OF inv] p by simp
  have "fits (priority_of k) p i" by (rule well_placedD [OF schedD(9) [OF inv] pD i])
  then have f: "even i" "unat (priority_of k (i div 2)) = p" using p by (simp_all add: fits_def)
  have t: "i div 2 \<in> T" by (rule listed_task [OF inv pD i])
  from f(1) have i2: "i = 2 * (i div 2)" by simp
  have "2 * (i div 2) \<in> set (xs (unat (priority_of k (i div 2))))" using i i2 f(2) by simp
  then have "ready k (i div 2)" using sched_ready_iff [OF inv t] by blast
  with that [OF i2 t _ f(2)] show thesis .
qed

section \<open>The search\<close>

lemma find_top_eq:
  assumes inv: "sched k D T xs ix" and p: "p < 4" and ex: "\<exists>q\<le>unat p. xs q \<noteq> []"
  shows "\<exists>r. find_top k p = Some r \<and> r \<le> p \<and> xs (unat r) \<noteq> [] \<and> (\<forall>q. unat r < q \<and> q \<le> unat p \<longrightarrow> xs q = [])"
  using p ex
proof (induction "unat p" arbitrary: p)
  case 0
  then have "p = 0" by (metis unat_eq_zero)
  with 0 sched_empty [OF inv schedD(2) [OF inv, of 0]] show ?case
    by (subst find_top.simps) (simp add: pxReadyTasksLists_def)
next
  case (Suc n)
  have u: "unat p < 4" using Suc.prems(1) by (simp add: word_less_nat_alt)
  note e = sched_empty [OF inv schedD(2) [OF inv, of "unat p"]]
  show ?case
  proof (cases "xs (unat p) = []")
    case False
    then have "find_top k p = Some p" using e u by (subst find_top.simps) (simp add: pxReadyTasksLists_def)
    with False show ?thesis by (intro exI [of _ p]) auto
  next
    case True
    have nz: "p \<noteq> 0" using Suc.hyps(2) by auto
    then have m: "unat (p - 1) = n" using Suc.hyps(2) by (simp add: unat_minus_one)
    have less: "p - 1 < 4" using m Suc.hyps(2) u by (simp add: word_less_nat_alt)
    obtain q where "q \<le> unat p" "xs q \<noteq> []" using Suc.prems(2) by blast
    with True have "q \<noteq> unat p" by auto
    then have ex: "\<exists>q\<le>unat (p - 1). xs q \<noteq> []"
      using \<open>q \<le> unat p\<close> \<open>xs q \<noteq> []\<close> m Suc.hyps(2) by (intro exI [of _ q]) simp
    from Suc.hyps(1) [OF m [symmetric] less ex] obtain r where
      r: "find_top k (p - 1) = Some r" "r \<le> p - 1" "xs (unat r) \<noteq> []" "\<forall>q. unat r < q \<and> q \<le> unat (p - 1) \<longrightarrow> xs q = []"
      by blast
    have "find_top k p = Some r" using e u True nz r(1) by (subst find_top.simps) (simp add: pxReadyTasksLists_def)
    moreover have "r \<le> p" using r(2) m Suc.hyps(2) by (simp add: word_le_nat_alt)
    moreover have "xs q = []" if "unat r < q" "q \<le> unat p" for q
      using that r(4) True m Suc.hyps(2) by (cases "q = unat p") auto
    ultimately show ?thesis using r(3) by blast
  qed
qed

section \<open>The switch\<close>

text \<open>What a switch writes.\<close>

definition switched :: "'a kernel_scheme \<Rightarrow> store \<Rightarrow> nat \<Rightarrow> u32 \<Rightarrow> 'a kernel_scheme" where
  "switched k s t p = k\<lparr>xYieldPending := False, lists := s, pxCurrentTCB := t, uxTopReadyPriority := p\<rparr>"

lemma switched_simps [simp]:
  "lists (switched k s t p) = s" "xTickCount (switched k s t p) = xTickCount k"
  "pxCurrentTCB (switched k s t p) = t" "tcbs (switched k s t p) = tcbs k" "k_mem (switched k s t p) = k_mem k"
  "uxSchedulerSuspended (switched k s t p) = uxSchedulerSuspended k" "xPendedTicks (switched k s t p) = xPendedTicks k"
  "xIdleTaskHandle (switched k s t p) = xIdleTaskHandle k" "pxDelayedTaskList (switched k s t p) = pxDelayedTaskList k"
  "pxOverflowDelayedTaskList (switched k s t p) = pxOverflowDelayedTaskList k"
  "uxCurrentNumberOfTasks (switched k s t p) = uxCurrentNumberOfTasks k" "uxTopReadyPriority (switched k s t p) = p"
  "xNextTaskUnblockTime (switched k s t p) = xNextTaskUnblockTime k"
  by (simp_all add: switched_def)

lemma sched_switched:
  assumes inv: "sched k D T xs ix" and rep: "lists_rep s D (task_items T) xs jx" and n: "nodes s = nodes (lists k)"
    and t: "t \<in> T" and p: "p < 4" and low: "\<And>q. q < 4 \<Longrightarrow> xs q \<noteq> [] \<Longrightarrow> q \<le> unat p"
  shows "sched (switched k s t p) D T xs jx"
proof -
  show ?thesis unfolding sched_def
  proof (intro conjI)
    show "lists_rep (lists (switched k s t p)) D (task_items T) xs jx" using rep by simp
  qed (use schedD(2-9,12-14) [OF inv] t p low n in auto)
qed

lemma vTaskSwitchContext_sched:
  assumes inv: "sched k D T xs ix" and un: "uxSchedulerSuspended k = 0" and st: "stack_intact k (pxCurrentTCB k)"
    and r: "q < 4" "xs q \<noteq> []"
  obtains s t p where "vTaskSwitchContext k = Some (switched k s t p)" and "p < 4" and "q \<le> unat p"
    and "\<And>r. r < 4 \<Longrightarrow> unat p < r \<Longrightarrow> xs r = []"
    and "2 * t = hd (next_items (xs (unat p)) (ix (unat p)))" and "2 * t \<in> set (xs (unat p))"
    and "sched (switched k s t p) D T xs (ix(unat p := Some (2 * t)))" and "nodes s = nodes (lists k)"
    and "t \<in> T" and "ready k t" and "priority_of k t = p"
proof -
  let ?tp = "uxTopReadyPriority k" and ?k = "k\<lparr>xYieldPending := False\<rparr>"
  have inv1: "sched ?k D T xs ix" using inv by simp
  have tp: "?tp < 4" by (rule schedD(11) [OF inv])
  have qt: "q \<le> unat ?tp" by (rule schedD(10) [OF inv r])
  with r(2) have "\<exists>q\<le>unat (uxTopReadyPriority ?k). xs q \<noteq> []" by auto
  from find_top_eq [OF inv1 _ this] tp obtain p where
    p: "find_top ?k ?tp = Some p" "p \<le> ?tp" "xs (unat p) \<noteq> []" "\<And>q. unat p < q \<Longrightarrow> q \<le> unat ?tp \<Longrightarrow> xs q = []" by auto
  have p4: "p < 4" using p(2) tp by simp
  then have u4: "unat p < 4" by (simp add: word_less_nat_alt)
  then have pD: "unat p \<in> D" using schedD(2) [OF inv] by simp
  have none: "xs r = []" if "r < 4" "unat p < r" for r
  proof (cases "r \<le> unat ?tp")
    case True
    with p(4) that(2) show ?thesis .
  next
    case False
    with schedD(10) [OF inv that(1)] show ?thesis by blast
  qed
  have low: "r \<le> unat p" if "r < 4" "xs r \<noteq> []" for r
    using none [OF that(1)] that(2) by (meson not_le)
  from lists_rep_next [OF schedD(1) [OF inv] pD p(3)] obtain s where
    g: "listGET_OWNER_OF_NEXT_ENTRY (unat p) (lists k) = (owner (lists k) (hd (next_items (xs (unat p)) (ix (unat p)))), s)"
    and rep: "lists_rep s D (task_items T) xs (ix(unat p := Some (hd (next_items (xs (unat p)) (ix (unat p))))))"
    and n: "nodes s = nodes (lists k)" and j: "hd (next_items (xs (unat p)) (ix (unat p))) \<in> set (xs (unat p))" by blast
  obtain t where t: "hd (next_items (xs (unat p)) (ix (unat p))) = 2 * t" "t \<in> T" "ready k t"
    "unat (priority_of k t) = unat p" by (rule ready_list_item [OF inv u4 j])
  then have pr: "priority_of k t = p" by (simp add: word_unat_eq_iff)
  have "owner (lists k) (2 * t) = t" by (rule schedD(4) [OF inv t(2)])
  then have g': "listGET_OWNER_OF_NEXT_ENTRY (unat p) (lists k) = (t, s)" using g t(1) by simp
  have sw: "vTaskSwitchContext k = Some (switched k s t p)"
    using un st sched_current_pos [OF inv] p(1) g'
    by (simp add: vTaskSwitchContext_def taskSELECT_HIGHEST_PRIORITY_TASK_def Let_def switched_def stack_intact_def
        pxReadyTasksLists_def)
  show thesis
    by (rule that [OF sw p4 low [OF r] none t(1) [symmetric] j [unfolded t(1)]
          sched_switched [OF inv rep [unfolded t(1)] n t(2) p4 low] n t(2,3) pr])
qed

section \<open>Equals take turns\<close>

text \<open>The tasks that successive switches select.\<close>

primrec selected :: "nat \<Rightarrow> 'a kernel_scheme \<Rightarrow> nat list option" where
  "selected 0 k = Some []"
| "selected (Suc n) k = do {
     k1 \<leftarrow> vTaskSwitchContext k;
     ts \<leftarrow> selected n k1;
     Some (pxCurrentTCB k1 # ts)
   }"

lemma take_rotate1: "m < length xs \<Longrightarrow> take m (rotate1 xs) = take m (tl xs)"
  by (cases xs) auto

lemma selected_sched:
  assumes "sched k D T xs ix" and "uxSchedulerSuspended k = 0" and "\<And>t. t \<in> T \<Longrightarrow> stack_intact k t"
    and "p < 4" and "xs p \<noteq> []" and "\<And>r. r < 4 \<Longrightarrow> p < r \<Longrightarrow> xs r = []" and "n \<le> length (next_items (xs p) (ix p))"
  shows "selected n k = Some (map (\<lambda>i. i div 2) (take n (next_items (xs p) (ix p))))"
  using assms
proof (induction n arbitrary: k ix)
  case (Suc n)
  let ?ns = "next_items (xs p) (ix p)"
  note inv = Suc.prems(1)
  have st: "stack_intact k (pxCurrentTCB k)" by (rule Suc.prems(3) [OF schedD(7) [OF inv]])
  obtain s t p' where sw: "vTaskSwitchContext k = Some (switched k s t p')" "p' < 4" "p \<le> unat p'"
    and none: "\<And>r. r < 4 \<Longrightarrow> unat p' < r \<Longrightarrow> xs r = []" and t: "2 * t = hd (next_items (xs (unat p')) (ix (unat p')))"
    "2 * t \<in> set (xs (unat p'))" and inv1: "sched (switched k s t p') D T xs (ix(unat p' := Some (2 * t)))"
    by (rule vTaskSwitchContext_sched [OF inv Suc.prems(2) st Suc.prems(4,5)]) (rule that)
  have "unat p' < 4" using sw(2) by (simp add: word_less_nat_alt)
  with Suc.prems(6) [of "unat p'"] t(2) sw(3) have pp: "unat p' = p" by (cases "p < unat p'") auto
  let ?k1 = "switched k s t p'"
  have pD: "p \<in> D" using schedD(2) [OF inv, of p] Suc.prems(4) by simp
  have rot: "next_items (xs p) (Some (2 * t)) = rotate1 ?ns"
    using listGET_OWNER_OF_NEXT_ENTRY_rep [OF lists_rep_list [OF schedD(1) [OF inv] pD] Suc.prems(5)] t(1) pp by auto
  have ne: "?ns \<noteq> []" using Suc.prems(7) by auto
  have len: "n < length ?ns" using Suc.prems(7) by simp
  have st1: "stack_intact ?k1 u" if "u \<in> T" for u using Suc.prems(3) [OF that] by (simp add: stack_intact_def)
  have un1: "uxSchedulerSuspended ?k1 = 0" using Suc.prems(2) by simp
  have inv1': "sched ?k1 D T xs (ix(p := Some (2 * t)))" using inv1 pp by simp
  have "n \<le> length (next_items (xs p) ((ix(p := Some (2 * t))) p))" using len rot by simp
  from Suc.IH [OF inv1' un1 st1 Suc.prems(4-6) this]
  have "selected n ?k1 = Some (map (\<lambda>i. i div 2) (take n (rotate1 ?ns)))" using rot by simp
  then have "selected n ?k1 = Some (map (\<lambda>i. i div 2) (take n (tl ?ns)))" by (simp only: take_rotate1 [OF len])
  moreover have "t = hd ?ns div 2" using t(1) pp by (metis nonzero_mult_div_cancel_left zero_neq_numeral)
  moreover have "take (Suc n) ?ns = hd ?ns # take n (tl ?ns)" using ne by (cases ?ns) auto
  ultimately show ?case using sw(1) by simp
qed simp

end
