(* ===== verification/Rtos_Core.thy ===== *)
theory Rtos_Core
  imports Rtos_Switch
begin

text \<open>
  The invariant of the running system, and that ticks, context switches, blocking and waking keep it.
  It speaks of the lists through the containers of the items alone.
\<close>

section \<open>The invariant\<close>

definition on_time :: "'a kernel_scheme \<Rightarrow> bool" where
  "on_time k \<longleftrightarrow> (\<forall>i. container (lists k) i = Some (pxDelayedTaskList k) \<longrightarrow> xTickCount k < item_value (lists k) i)"

text \<open>A task with its event item on a list is asleep or suspended.\<close>

definition waits_ok :: "'a kernel_scheme \<Rightarrow> bool" where
  "waits_ok k \<longleftrightarrow> (\<forall>t. container (lists k) (2 * t + 1) \<noteq> None \<longrightarrow> container (lists k) (2 * t) \<in> {Some 4, Some 5, Some 8})"

definition idle_ready :: "nat set \<Rightarrow> 'a kernel_scheme \<Rightarrow> bool" where
  "idle_ready T k \<longleftrightarrow> xIdleTaskHandle k \<in> T \<and> ready k (xIdleTaskHandle k)"

definition kcore :: "nat set \<Rightarrow> nat set \<Rightarrow> 'a kernel_scheme \<Rightarrow> bool" where
  "kcore D T k \<longleftrightarrow> (\<exists>xs ix. sched k D T xs ix) \<and> on_time k \<and> (\<forall>t\<in>T. stack_intact k t) \<and>
     idle_ready T k \<and> waits_ok k \<and> 0 < uxCurrentNumberOfTasks k"

lemma kcoreE:
  assumes "kcore D T k"
  obtains xs ix where "sched k D T xs ix"
  using assms unfolding kcore_def by blast

lemma kcoreD:
  assumes "kcore D T k"
  shows "on_time k" "t \<in> T \<Longrightarrow> stack_intact k t" "idle_ready T k" "waits_ok k" "0 < uxCurrentNumberOfTasks k"
    "pxCurrentTCB k \<in> T" "t \<in> T \<Longrightarrow> priority_of k t < 4" "l \<le> 8 \<Longrightarrow> l \<in> D" "pxCurrentTCB k \<noteq> 0"
    "pxDelayedTaskList k = 4 \<and> pxOverflowDelayedTaskList k = 5 \<or> pxDelayedTaskList k = 5 \<and> pxOverflowDelayedTaskList k = 4"
  using assms unfolding kcore_def by (blast dest: schedD sched_current_pos)+

lemma kcoreI:
  "sched k D T xs ix \<Longrightarrow> on_time k \<Longrightarrow> (\<And>t. t \<in> T \<Longrightarrow> stack_intact k t) \<Longrightarrow> idle_ready T k \<Longrightarrow> waits_ok k \<Longrightarrow>
   0 < uxCurrentNumberOfTasks k \<Longrightarrow> kcore D T k"
  unfolding kcore_def by blast

lemma on_time_timed:
  assumes inv: "sched k D T xs ix"
  shows "on_time k \<longleftrightarrow> timed k xs"
  using sched_container [OF inv] sched_delayed_in(1) [OF inv] unfolding on_time_def timed_def by blast

text \<open>Ready tasks do not wait for events.\<close>

lemma ready_free:
  assumes "kcore D T k" and "t \<in> T" and "ready k t"
  shows "container (lists k) (2 * t + 1) = None"
proof (rule ccontr)
  assume "container (lists k) (2 * t + 1) \<noteq> None"
  then have "container (lists k) (2 * t) \<in> {Some 4, Some 5, Some 8}" using kcoreD(4) [OF assms(1)] unfolding waits_ok_def by blast
  moreover have "unat (priority_of k t) < 4" using kcoreD(7) [OF assms(1,2)] by (simp add: word_less_nat_alt)
  ultimately show False using assms(3) by (auto simp: ready_def)
qed

section \<open>Switching\<close>

text \<open>The state after a switch: the containers and everything else that matters are the same.\<close>

lemma kcore_switched:
  assumes "kcore D T k" and "sched (switched k s t p) D T xs ix" and "nodes s = nodes (lists k)"
  shows "kcore D T (switched k s t p)"
  by (rule kcoreI [OF assms(2)])
    (use kcoreD(1-5) [OF assms(1)] assms(3) in
      \<open>simp_all add: on_time_def waits_ok_def idle_ready_def ready_def stack_intact_def\<close>)

definition same_tasks :: "'a kernel_scheme \<Rightarrow> 'a kernel_scheme \<Rightarrow> bool" where
  "same_tasks k k' \<longleftrightarrow> (\<forall>i. container (lists k') i = container (lists k) i) \<and> same_data (lists k) (lists k') \<and>
     tcbs k' = tcbs k \<and> xTickCount k' = xTickCount k \<and> pxDelayedTaskList k' = pxDelayedTaskList k \<and>
     pxOverflowDelayedTaskList k' = pxOverflowDelayedTaskList k \<and> xIdleTaskHandle k' = xIdleTaskHandle k"

lemma same_tasksD:
  assumes "same_tasks k k'"
  shows "container (lists k') i = container (lists k) i" "item_value (lists k') i = item_value (lists k) i"
    "tcbs k' = tcbs k" "xTickCount k' = xTickCount k" "pxDelayedTaskList k' = pxDelayedTaskList k"
    "pxOverflowDelayedTaskList k' = pxOverflowDelayedTaskList k" "xIdleTaskHandle k' = xIdleTaskHandle k"
    "ready k' t = ready k t"
  using assms by (simp_all add: same_tasks_def same_data_def ready_def)

lemma switch_core:
  assumes core: "kcore D T k" and un: "uxSchedulerSuspended k = 0"
  obtains k' where "vTaskSwitchContext k = Some k'" and "kcore D T k'" and "same_tasks k k'"
    and "ready k' (pxCurrentTCB k')" and "top_runs T k'" and "uxSchedulerSuspended k' = 0"
    and "xPendedTicks k' = xPendedTicks k" and "xIdleTaskHandle k' = xIdleTaskHandle k"
proof -
  obtain xs ix where inv: "sched k D T xs ix" by (rule kcoreE [OF core])
  let ?i = "xIdleTaskHandle k"
  have i: "?i \<in> T" "ready k ?i" using kcoreD(3) [OF core] by (simp_all add: idle_ready_def)
  have q: "unat (priority_of k ?i) < 4" using kcoreD(7) [OF core i(1)] by (simp add: word_less_nat_alt)
  have ne: "xs (unat (priority_of k ?i)) \<noteq> []"
    using sched_ready_iff [OF inv i(1)] i(2) by fastforce
  have st: "stack_intact k (pxCurrentTCB k)" by (rule kcoreD(2) [OF core kcoreD(6) [OF core]])
  from vTaskSwitchContext_sched [OF inv un st q ne] obtain s t p where
    sw: "vTaskSwitchContext k = Some (switched k s t p)" and p4: "p < 4"
    and none: "\<And>r. r < 4 \<Longrightarrow> unat p < r \<Longrightarrow> xs r = []"
    and inv': "sched (switched k s t p) D T xs (ix(unat p := Some (2 * t)))" and n: "nodes s = nodes (lists k)"
    and t: "t \<in> T" "ready k t" "priority_of k t = p" by metis
  have "priority_of k u \<le> p" if u: "u \<in> T" "ready k u" for u
  proof (rule ccontr)
    assume "\<not> priority_of k u \<le> p"
    then have "unat p < unat (priority_of k u)" by (simp add: not_le word_less_nat_alt)
    moreover have "unat (priority_of k u) < 4" using kcoreD(7) [OF core u(1)] by (simp add: word_less_nat_alt)
    ultimately have "xs (unat (priority_of k u)) = []" by (rule none [rotated])
    with sched_ready_iff [OF inv u(1)] u(2) show False by simp
  qed
  then have "top_runs T (switched k s t p)" using t(3) n by (simp add: top_runs_def ready_def)
  show thesis
    by (rule that [OF sw kcore_switched [OF core inv' n]])
      (use \<open>top_runs T (switched k s t p)\<close> n t(2) un in \<open>simp_all add: ready_def same_tasks_def same_data_def\<close>)
qed

section \<open>The tick\<close>

text \<open>The items a tick takes off the lists of sleeping tasks.\<close>

definition due :: "'a kernel_scheme \<Rightarrow> nat set" where
  "due k = {i. container (lists k) i =
       Some (if xTickCount k + 1 = 0 then pxOverflowDelayedTaskList k else pxDelayedTaskList k) \<and>
     item_value (lists k) i \<le> xTickCount k + 1}"

lemma set_due_items:
  assumes inv: "sched k D T xs ix"
  shows "set (due_items k xs) = due k"
proof -
  let ?l = "if xTickCount k + 1 = 0 then pxOverflowDelayedTaskList k else pxDelayedTaskList k"
  have so: "sorted (map (item_value (lists k)) (due_list k xs))"
    using schedD(12,13) [OF inv] by (simp add: due_list_def)
  have "?l \<in> D" using sched_delayed_in [OF inv] by simp
  then have "i \<in> set (due_list k xs) \<longleftrightarrow> container (lists k) i = Some ?l" for i
    using sched_container [OF inv, of i ?l] by (simp add: due_list_def)
  then show ?thesis
    using set_takeWhile_sorted(1) [OF so] unfolding due_items_def due_def by blast
qed

lemma due_item:
  assumes core: "kcore D T k" and "i \<in> due k"
  shows "i div 2 \<in> T" and "2 * (i div 2) = i"
proof -
  obtain xs ix where inv: "sched k D T xs ix" by (rule kcoreE [OF core])
  from assms(2) have "container (lists k) i = Some (pxDelayedTaskList k) \<or> container (lists k) i = Some (pxOverflowDelayedTaskList k)"
    by (auto simp: due_def split: if_splits)
  then have "i \<in> set (xs (pxDelayedTaskList k)) \<union> set (xs (pxOverflowDelayedTaskList k))"
    using sched_container [OF inv] by blast
  from sched_delayed_item [OF inv this] show "i div 2 \<in> T" and "2 * (i div 2) = i" .
qed

text \<open>What waking the tasks of a set of state items does to the picture.\<close>

lemma woken_facts:
  assumes core: "kcore D T k" and w: "woken k W s" and W: "\<And>i. i \<in> W \<Longrightarrow> i div 2 \<in> T \<and> 2 * (i div 2) = i"
  shows "container s (2 * t) = (if 2 * t \<in> W then Some (unat (priority_of k t)) else container (lists k) (2 * t))"
    and "container s (2 * t + 1) = (if 2 * t \<in> W then None else container (lists k) (2 * t + 1))"
proof -
  have "2 * t + 1 \<notin> W"
  proof
    assume "2 * t + 1 \<in> W"
    from W [OF this] show False by simp
  qed
  then show "container s (2 * t + 1) = (if 2 * t \<in> W then None else container (lists k) (2 * t + 1))"
    using wokenD [OF w, of "2 * t + 1"] by simp
  show "container s (2 * t) = (if 2 * t \<in> W then Some (unat (priority_of k t)) else container (lists k) (2 * t))"
    using wokenD [OF w, of "2 * t"] by simp
qed

lemma tick_core:
  assumes core: "kcore D T k" and un: "uxSchedulerSuspended k = 0"
  obtains sw s tp nx where "xTaskIncrementTick k = Some (sw, ticked k s tp nx)" and "kcore D T (ticked k s tp nx)"
    and "same_data (lists k) s" and "woken k (due k) s"
    and "\<And>t. container s (2 * t) = (if 2 * t \<in> due k then Some (unat (priority_of k t)) else container (lists k) (2 * t))"
    and "\<And>t. container s (2 * t + 1) = (if 2 * t \<in> due k then None else container (lists k) (2 * t + 1))"
    and "sw \<longleftrightarrow> (\<exists>j\<in>due k. priority_of k (pxCurrentTCB k) < priority_of k (j div 2)) \<or>
      sliced (ticked k s tp nx) \<or> xYieldPending k"
proof -
  obtain xs ix where inv: "sched k D T xs ix" by (rule kcoreE [OF core])
  have tm: "timed k xs" using on_time_timed [OF inv] kcoreD(1) [OF core] by simp
  obtain sw s tp nx xs' ix' where t: "xTaskIncrementTick k = Some (sw, ticked k s tp nx)"
    and inv': "sched (ticked k s tp nx) D T xs' ix'" and tm': "timed (ticked k s tp nx) xs'"
    and data: "same_data (lists k) s" and w: "woken k (due k) s"
    and sw: "sw \<longleftrightarrow> (\<exists>j\<in>due k. priority_of k (pxCurrentTCB k) < priority_of k (j div 2)) \<or>
      sliced (ticked k s tp nx) \<or> xYieldPending k"
    by (rule xTaskIncrementTick_sched [OF inv tm un, unfolded set_due_items [OF inv]]) (rule that)
  have W: "i div 2 \<in> T \<and> 2 * (i div 2) = i" if "i \<in> due k" for i using due_item [OF core that] by blast
  have f: "container s (2 * u) = (if 2 * u \<in> due k then Some (unat (priority_of k u)) else container (lists k) (2 * u))"
    "container s (2 * u + 1) = (if 2 * u \<in> due k then None else container (lists k) (2 * u + 1))" for u
    by (rule woken_facts [OF core w W], assumption)+
  have ready': "ready k u \<Longrightarrow> ready (ticked k s tp nx) u" for u
    using f(1) [of u] by (simp add: ready_def)
  have "kcore D T (ticked k s tp nx)"
  proof (rule kcoreI [OF inv'])
    show "on_time (ticked k s tp nx)" using on_time_timed [OF inv'] tm' by simp
    show "stack_intact (ticked k s tp nx) u" if "u \<in> T" for u
      using kcoreD(2) [OF core that] by (simp add: stack_intact_def)
    show "idle_ready T (ticked k s tp nx)" using kcoreD(3) [OF core] ready' by (simp add: idle_ready_def)
    have "container (lists k) (2 * u + 1) \<noteq> None \<Longrightarrow> container (lists k) (2 * u) \<in> {Some 4, Some 5, Some 8}" for u
      using kcoreD(4) [OF core] unfolding waits_ok_def by blast
    then show "waits_ok (ticked k s tp nx)" unfolding waits_ok_def ticked_simps f by (simp split: if_split)
    show "0 < uxCurrentNumberOfTasks (ticked k s tp nx)" using kcoreD(5) [OF core] by simp
  qed
  with that [OF t] data w f sw show thesis by blast
qed

section \<open>Time to go\<close>

text \<open>
  A task that only waits for its time has \<open>r\<close> ticks to go: on the current list up to its item's value, on the other
  one beyond the wrap-around.
\<close>

definition naps :: "'a kernel_scheme \<Rightarrow> nat \<Rightarrow> nat \<Rightarrow> bool" where
  "naps k t r \<longleftrightarrow> container (lists k) (2 * t + 1) = None \<and> 0 < r \<and>
     (container (lists k) (2 * t) = Some (pxDelayedTaskList k) \<and>
        unat (item_value (lists k) (2 * t)) = unat (xTickCount k) + r \<or>
      container (lists k) (2 * t) = Some (pxOverflowDelayedTaskList k) \<and>
        unat (item_value (lists k) (2 * t)) + 4294967296 = unat (xTickCount k) + r)"

text \<open>After \<open>n\<close> more ticks, a napping task has \<open>n\<close> less to go, or is ready if that is the end of it.\<close>

definition advance :: "nat set \<Rightarrow> nat \<Rightarrow> 'a kernel_scheme \<Rightarrow> 'a kernel_scheme \<Rightarrow> bool" where
  "advance T n k k' \<longleftrightarrow> (\<forall>t\<in>T. \<forall>r. naps k t r \<longrightarrow> (n < r \<longrightarrow> naps k' t (r - n)) \<and> (r \<le> n \<longrightarrow> ready k' t))"

definition still_ready :: "nat set \<Rightarrow> 'a kernel_scheme \<Rightarrow> 'a kernel_scheme \<Rightarrow> bool" where
  "still_ready T k k' \<longleftrightarrow> (\<forall>t\<in>T. ready k t \<longrightarrow> ready k' t)"

lemma advance_trans: "advance T n k k1 \<Longrightarrow> advance T m k1 k2 \<Longrightarrow> still_ready T k1 k2 \<Longrightarrow> advance T (n + m) k k2"
proof -
  assume a: "advance T n k k1" "advance T m k1 k2" and s: "still_ready T k1 k2"
  have "(n + m < r \<longrightarrow> naps k2 t (r - (n + m))) \<and> (r \<le> n + m \<longrightarrow> ready k2 t)" if "t \<in> T" "naps k t r" for t r
  proof (cases "n < r")
    case True
    with a(1) that have "naps k1 t (r - n)" unfolding advance_def by blast
    with a(2) that have "(m < r - n \<longrightarrow> naps k2 t (r - n - m)) \<and> (r - n \<le> m \<longrightarrow> ready k2 t)"
      unfolding advance_def by blast
    with True show ?thesis by (auto simp: less_diff_conv add.commute)
  next
    case False
    then have "ready k1 t" using a(1) that unfolding advance_def by (meson not_less)
    with False s that(1) show ?thesis unfolding still_ready_def by simp
  qed
  then show ?thesis unfolding advance_def by blast
qed

lemma still_ready_refl [simp]: "still_ready T k k"
  by (simp add: still_ready_def)

lemma still_ready_trans: "still_ready T k k1 \<Longrightarrow> still_ready T k1 k2 \<Longrightarrow> still_ready T k k2"
  by (simp add: still_ready_def)

lemma advance_0I: "(\<And>t r. t \<in> T \<Longrightarrow> naps k t r \<Longrightarrow> naps k' t r) \<Longrightarrow> advance T 0 k k'"
  by (auto simp: advance_def naps_def)

lemma naps_same_tasks: "same_tasks k k' \<Longrightarrow> naps k' t r = naps k t r"
  using same_tasksD [of k k'] by (simp add: naps_def)

lemma same_tasks_advance: "same_tasks k k' \<Longrightarrow> advance T 0 k k'" "same_tasks k k' \<Longrightarrow> still_ready T k k'"
  by (simp_all add: advance_0I naps_same_tasks still_ready_def same_tasksD)

lemma unat_next_u32:
  "unat (x + 1) = (if x + 1 = 0 then 0 else unat x + 1)" "x + 1 = 0 \<longrightarrow> unat x = 4294967295" for x :: u32
proof -
  have "unat (x + 1) = (unat x + 1) mod 4294967296" by (simp add: unat_word_ariths)
  moreover have "(unat x + 1) mod 4294967296 = (if unat x = 4294967295 then 0 else unat x + 1)"
    using unat_u32_less [of x] by (cases "unat x = 4294967295") (simp_all add: mod_less)
  moreover have "x + 1 = 0 \<longleftrightarrow> unat (x + 1) = 0" by (simp only: unat_eq_zero)
  ultimately show "unat (x + 1) = (if x + 1 = 0 then 0 else unat x + 1)" "x + 1 = 0 \<longrightarrow> unat x = 4294967295"
    by (auto split: if_splits)
qed

lemma tick_advance:
  assumes core: "kcore D T k"
    and data: "same_data (lists k) s"
    and st: "\<And>t. container s (2 * t) = (if 2 * t \<in> due k then Some (unat (priority_of k t)) else container (lists k) (2 * t))"
    and ev: "\<And>t. container s (2 * t + 1) = (if 2 * t \<in> due k then None else container (lists k) (2 * t + 1))"
  shows "advance T 1 k (ticked k s tp nx)" and "still_ready T k (ticked k s tp nx)"
    and "ready (ticked k s tp nx) t \<longleftrightarrow> ready k t \<or> 2 * t \<in> due k"
proof -
  let ?k = "ticked k s tp nx" and ?now = "xTickCount k + 1"
  show "ready ?k t \<longleftrightarrow> ready k t \<or> 2 * t \<in> due k" for t using st [of t] by (simp add: ready_def)
  then show "still_ready T k ?k" by (simp add: still_ready_def)
  have v: "item_value s i = item_value (lists k) i" for i by (rule same_dataD(1) [OF data])
  have ne: "pxDelayedTaskList k \<noteq> pxOverflowDelayedTaskList k" using kcoreD(10) [OF core] by auto
  have "(1 < r \<longrightarrow> naps ?k t (r - 1)) \<and> (r \<le> 1 \<longrightarrow> ready ?k t)" if n: "naps k t r" for t r
  proof -
    let ?v = "item_value (lists k) (2 * t)"
    have e: "container (lists k) (2 * t + 1) = None" and r: "0 < r"
      and c: "container (lists k) (2 * t) = Some (pxDelayedTaskList k) \<and> unat ?v = unat (xTickCount k) + r \<or>
        container (lists k) (2 * t) = Some (pxOverflowDelayedTaskList k) \<and> unat ?v + 4294967296 = unat (xTickCount k) + r"
      using n unfolding naps_def by blast+
    have lt: "unat (xTickCount k) < 4294967296" "unat ?v < 4294967296" by (rule unat_u32_less)+
    note now = unat_next_u32 [of "xTickCount k"]
    have le: "?v \<le> ?now \<longleftrightarrow> unat ?v \<le> unat ?now" by (simp add: word_le_nat_alt)
    have d: "2 * t \<in> due k \<longleftrightarrow> r = 1"
    proof (cases "?now = 0")
      case True
      with c now ne lt r show ?thesis by (auto simp: due_def le unat_eq_zero)
    next
      case False
      with c now ne lt r unat_u32_less [of ?now] show ?thesis by (auto simp: due_def le)
    qed
    have "naps ?k t (r - 1)" if "1 < r"
    proof -
      have "2 * t \<notin> due k" using d that by simp
      then have s1: "container s (2 * t) = container (lists k) (2 * t)" "container s (2 * t + 1) = None"
        using st [of t] ev [of t] e by simp_all
      show ?thesis
      proof (cases "?now = 0")
        case True
        then have "unat (xTickCount k) = 4294967295" using now by blast
        with c lt(2) that True s1 v ne show ?thesis by (auto simp: naps_def ticked_def)
      next
        case False
        then have "unat ?now = unat (xTickCount k) + 1" using now by simp
        with c that False s1 v show ?thesis by (auto simp: naps_def ticked_def)
      qed
    qed
    moreover have "ready ?k t" if "r \<le> 1"
      using that r d st [of t] by (simp add: ready_def)
    ultimately show ?thesis by blast
  qed
  then show "advance T 1 k ?k" unfolding advance_def by blast
qed

section \<open>Frames\<close>

definition no_pending :: "'a kernel_scheme \<Rightarrow> bool" where
  "no_pending k \<longleftrightarrow> (\<forall>i. container (lists k) i \<noteq> Some xPendingReadyList)"

text \<open>What all the operations below leave alone.\<close>

definition kframe :: "'a kernel_scheme \<Rightarrow> 'a kernel_scheme \<Rightarrow> bool" where
  "kframe k k' \<longleftrightarrow> pxCurrentTCB k' = pxCurrentTCB k \<and> tcbs k' = tcbs k \<and> xIdleTaskHandle k' = xIdleTaskHandle k \<and>
     uxSchedulerSuspended k' = uxSchedulerSuspended k \<and> xPendedTicks k' = xPendedTicks k \<and>
     (no_pending k \<longrightarrow> no_pending k')"

lemma kframe_refl [simp]: "kframe k k"
  by (simp add: kframe_def)

lemma kframe_trans: "kframe k k1 \<Longrightarrow> kframe k1 k2 \<Longrightarrow> kframe k k2"
  by (simp add: kframe_def)

lemma kframeD:
  assumes "kframe k k'"
  shows "pxCurrentTCB k' = pxCurrentTCB k" "tcbs k' = tcbs k" "xIdleTaskHandle k' = xIdleTaskHandle k"
    "uxSchedulerSuspended k' = uxSchedulerSuspended k" "xPendedTicks k' = xPendedTicks k" "no_pending k \<Longrightarrow> no_pending k'"
  using assms by (simp_all add: kframe_def)

lemma kframe_same_tasks:
  "same_tasks k k' \<Longrightarrow> no_pending k' = no_pending k"
  by (simp add: no_pending_def same_tasksD)

text \<open>A yield is pending unless the running task is the right one.\<close>

definition top_or_yield :: "nat set \<Rightarrow> 'a kernel_scheme \<Rightarrow> bool" where
  "top_or_yield T k \<longleftrightarrow> xYieldPending k \<or> top_runs T k"

lemma kcore_yield [simp]: "kcore D T (k\<lparr>xYieldPending := b\<rparr>) = kcore D T k"
  by (simp add: kcore_def on_time_def waits_ok_def idle_ready_def stack_intact_def ready_def)

lemma yield_simps [simp]:
  "ready (k\<lparr>xYieldPending := b\<rparr>) = ready k"
  "advance T n k (k'\<lparr>xYieldPending := b\<rparr>) = advance T n k k'" "still_ready T k (k'\<lparr>xYieldPending := b\<rparr>) = still_ready T k k'"
  "kframe k (k'\<lparr>xYieldPending := b\<rparr>) = kframe k k'" "top_runs T (k'\<lparr>xYieldPending := b\<rparr>) = top_runs T k'"
  by (simp_all add: advance_def still_ready_def kframe_def naps_def ready_def no_pending_def top_runs_def fun_eq_iff)

lemma tick_step:
  assumes core: "kcore D T k" and un: "uxSchedulerSuspended k = 0"
  obtains sw k' where "xTaskIncrementTick k = Some (sw, k')" and "kcore D T k'" and "advance T 1 k k'"
    and "still_ready T k k'" and "kframe k k'" and "xTickCount k' = xTickCount k + 1"
    and "top_or_yield T k \<Longrightarrow> sw \<or> top_runs T k'"
proof -
  obtain sw s tp nx where t: "xTaskIncrementTick k = Some (sw, ticked k s tp nx)" and core': "kcore D T (ticked k s tp nx)"
    and data: "same_data (lists k) s"
    and st: "\<And>t. container s (2 * t) = (if 2 * t \<in> due k then Some (unat (priority_of k t)) else container (lists k) (2 * t))"
    and ev: "\<And>t. container s (2 * t + 1) = (if 2 * t \<in> due k then None else container (lists k) (2 * t + 1))"
    and sw: "sw \<longleftrightarrow> (\<exists>j\<in>due k. priority_of k (pxCurrentTCB k) < priority_of k (j div 2)) \<or>
      sliced (ticked k s tp nx) \<or> xYieldPending k" by (rule tick_core [OF core un]) (rule that)
  note adv = tick_advance [OF core data st ev]
  have "container s i \<noteq> Some 6" if "no_pending k" for i
  proof -
    have u: "unat (priority_of k u) < 4" if "2 * u \<in> due k" for u
      using kcoreD(7) [OF core, of u] due_item(1) [OF core that] by (simp add: word_less_nat_alt)
    have np: "container (lists k) j \<noteq> Some 6" for j using that unfolding no_pending_def by blast
    obtain u where "i = 2 * u \<or> i = 2 * u + 1" by (meson oddE evenE)
    then show ?thesis using st [of u] ev [of u] np u [of u] by (cases "2 * u \<in> due k") (elim disjE; simp)+
  qed
  then have "kframe k (ticked k s tp nx)" by (auto simp: kframe_def no_pending_def)
  moreover have "sw \<or> top_runs T (ticked k s tp nx)" if "top_or_yield T k"
  proof (rule disjCI)
    assume n: "\<not> top_runs T (ticked k s tp nx)"
    then obtain u where u: "u \<in> T" "ready (ticked k s tp nx) u" "priority_of k (pxCurrentTCB k) < priority_of k u"
      by (auto simp: top_runs_def)
    show sw
    proof (cases "ready k u")
      case True
      with u have "\<not> top_runs T k" by (auto simp: top_runs_def)
      with that sw show ?thesis by (simp add: top_or_yield_def)
    next
      case False
      with adv(3) u(2) have "2 * u \<in> due k" by simp
      with u(3) sw show ?thesis by (metis nonzero_mult_div_cancel_left zero_neq_numeral)
    qed
  qed
  ultimately show thesis by (intro that [OF t core' adv(1,2)]) simp_all
qed

section \<open>The ticks that were held back\<close>

lemma pended_core:
  assumes "kcore D T k" and "uxSchedulerSuspended k = 0"
  shows "\<exists>k'. pended_ticks n k = Some k' \<and> kcore D T k' \<and> advance T n k k' \<and> still_ready T k k' \<and> kframe k k' \<and>
    xTickCount k' = xTickCount k + of_nat n \<and> (top_or_yield T k \<longrightarrow> top_or_yield T k')"
  using assms
proof (induction n arbitrary: k)
  case 0
  then show ?case by (auto intro!: advance_0I)
next
  case (Suc n)
  obtain sw k1 where t: "xTaskIncrementTick k = Some (sw, k1)" "kcore D T k1" "advance T 1 k k1"
    "still_ready T k k1" "kframe k k1" "xTickCount k1 = xTickCount k + 1" "top_or_yield T k \<Longrightarrow> sw \<or> top_runs T k1"
    by (rule tick_step [OF Suc.prems]) (rule that)
  let ?k1 = "if sw then k1\<lparr>xYieldPending := True\<rparr> else k1"
  have k1: "kcore D T ?k1" "advance T 1 k ?k1" "still_ready T k ?k1" "kframe k ?k1" "xTickCount ?k1 = xTickCount k + 1"
    "top_or_yield T k \<Longrightarrow> top_or_yield T ?k1" "uxSchedulerSuspended ?k1 = 0"
    using t Suc.prems(2) kframeD(4) [OF t(5)] by (auto simp: top_or_yield_def)
  from Suc.IH [OF k1(1,7)] obtain k2 where
    k2: "pended_ticks n ?k1 = Some k2" "kcore D T k2" "advance T n ?k1 k2" "still_ready T ?k1 k2" "kframe ?k1 k2"
      "xTickCount k2 = xTickCount ?k1 + of_nat n" "top_or_yield T ?k1 \<longrightarrow> top_or_yield T k2" by blast
  show ?case
  proof (intro exI [of _ k2] conjI)
    show "pended_ticks (Suc n) k = Some k2" using t(1) k2(1) by simp
    show "advance T (Suc n) k k2" using advance_trans [OF k1(2) k2(3,4)] by simp
    show "still_ready T k k2" by (rule still_ready_trans [OF k1(3) k2(4)])
    show "kframe k k2" by (rule kframe_trans [OF k1(4) k2(5)])
    show "xTickCount k2 = xTickCount k + of_nat (Suc n)" using k2(6) k1(5) by simp
  qed (use k2(2,7) k1(6) in blast)+
qed

end
