(* ===== verification/Rtos_Block.thy ===== *)
theory Rtos_Block
  imports Rtos_Core
begin

text \<open>
  Going to sleep, waiting for an event, and being woken by one: \<open>prvAddCurrentTaskToDelayedList\<close>,
  \<open>vTaskPlaceOnEventList\<close>, \<open>xTaskRemoveFromEventList\<close>.
\<close>

section \<open>Values of items\<close>

lemma sched_set_value_off:
  assumes inv: "sched k D T xs ix" and off: "i \<notin> set (xs (pxDelayedTaskList k)) \<union> set (xs (pxOverflowDelayedTaskList k))"
  shows "sched (k\<lparr>lists := listSET_LIST_ITEM_VALUE i v (lists k)\<rparr>) D T xs ix"
proof -
  let ?s = "listSET_LIST_ITEM_VALUE i v (lists k)"
  have val: "item_value ?s j = item_value (lists k) j"
    if "j \<in> set (xs (pxDelayedTaskList k)) \<union> set (xs (pxOverflowDelayedTaskList k))" for j
    using that off by (cases "j = i") auto
  have m: "map (item_value ?s) (xs (pxDelayedTaskList k)) = map (item_value (lists k)) (xs (pxDelayedTaskList k))"
    "map (item_value ?s) (xs (pxOverflowDelayedTaskList k)) = map (item_value (lists k)) (xs (pxOverflowDelayedTaskList k))"
    using val by simp_all
  have so: "sorted (map (item_value ?s) (xs (pxDelayedTaskList k)))" "sorted (map (item_value ?s) (xs (pxOverflowDelayedTaskList k)))"
    by (simp_all only: m schedD(12,13) [OF inv])
  show ?thesis unfolding sched_def
  proof (intro conjI)
    show "lists_rep (lists (k\<lparr>lists := ?s\<rparr>)) D (task_items T) xs ix"
      using lists_rep_set_value [OF schedD(1) [OF inv]] by simp
    show "sorted (map (item_value (lists (k\<lparr>lists := ?s\<rparr>))) (xs (pxDelayedTaskList (k\<lparr>lists := ?s\<rparr>))))"
      "sorted (map (item_value (lists (k\<lparr>lists := ?s\<rparr>))) (xs (pxOverflowDelayedTaskList (k\<lparr>lists := ?s\<rparr>))))"
      using so by simp_all
    show "xs (pxDelayedTaskList (k\<lparr>lists := ?s\<rparr>)) \<noteq> [] \<longrightarrow> xNextTaskUnblockTime (k\<lparr>lists := ?s\<rparr>) \<le>
        item_value (lists (k\<lparr>lists := ?s\<rparr>)) (hd (xs (pxDelayedTaskList (k\<lparr>lists := ?s\<rparr>))))"
    proof
      assume ne: "xs (pxDelayedTaskList (k\<lparr>lists := ?s\<rparr>)) \<noteq> []"
      then have "item_value ?s (hd (xs (pxDelayedTaskList k))) = item_value (lists k) (hd (xs (pxDelayedTaskList k)))"
        by (intro val) simp
      with ne schedD(14) [OF inv] show "xNextTaskUnblockTime (k\<lparr>lists := ?s\<rparr>) \<le>
        item_value (lists (k\<lparr>lists := ?s\<rparr>)) (hd (xs (pxDelayedTaskList (k\<lparr>lists := ?s\<rparr>))))" by simp
    qed
  qed (use schedD(2-11) [OF inv] in auto)
qed

lemma sched_set_value:
  assumes inv: "sched k D T xs ix" and c: "container (lists k) i = None"
  shows "sched (k\<lparr>lists := listSET_LIST_ITEM_VALUE i v (lists k)\<rparr>) D T xs ix"
proof (rule sched_set_value_off [OF inv])
  show "i \<notin> set (xs (pxDelayedTaskList k)) \<union> set (xs (pxOverflowDelayedTaskList k))"
    using sched_container [OF inv, of i] sched_delayed_in [OF inv] c by auto
qed

text \<open>The event items may change their values while they wait.\<close>

lemma sched_set_event:
  assumes inv: "sched k D T xs ix"
  shows "sched (k\<lparr>lists := listSET_LIST_ITEM_VALUE (2 * t + 1) v (lists k)\<rparr>) D T xs ix"
proof (rule sched_set_value_off [OF inv], rule notI)
  assume "2 * t + 1 \<in> set (xs (pxDelayedTaskList k)) \<union> set (xs (pxOverflowDelayedTaskList k))"
  from sched_delayed_item(2) [OF inv this] show False by simp
qed

section \<open>Going to sleep\<close>

definition sleep_list :: "'a kernel_scheme \<Rightarrow> u32 \<Rightarrow> bool \<Rightarrow> nat" where
  "sleep_list k n indefinitely =
     (if n = portMAX_DELAY \<and> indefinitely then xSuspendedTaskList
      else if xTickCount k + n < xTickCount k then pxOverflowDelayedTaskList k else pxDelayedTaskList k)"

lemma on_lists_opt_remove_snd:
  "uxListRemove i (lists k) = Some (n, s') \<Longrightarrow> on_lists_opt (\<lambda>s. map_option snd (uxListRemove i s)) k = Some (k\<lparr>lists := s'\<rparr>)"
  by (simp add: on_lists_opt_def)

lemma same_next: "k\<lparr>lists := s, xNextTaskUnblockTime := xNextTaskUnblockTime k\<rparr> = k\<lparr>lists := s\<rparr>"
  by simp

lemma block_current:
  assumes inv: "sched k D T xs ix" and rd: "ready k (pxCurrentTCB k)"
  obtains s nx xs' ix' where
    "prvAddCurrentTaskToDelayedList n indefinitely k = Some (k\<lparr>lists := s, xNextTaskUnblockTime := nx\<rparr>)"
    and "sched (k\<lparr>lists := s, xNextTaskUnblockTime := nx\<rparr>) D T xs' ix'"
    and "\<And>j. container s j = (if j = 2 * pxCurrentTCB k then Some (sleep_list k n indefinitely) else container (lists k) j)"
    and "\<And>j. item_value s j = (if j = 2 * pxCurrentTCB k \<and> \<not> (n = portMAX_DELAY \<and> indefinitely)
      then xTickCount k + n else item_value (lists k) j)"
    and "\<And>l. 8 < l \<Longrightarrow> xs' l = xs l"
proof -
  let ?t = "pxCurrentTCB k" and ?wake = "xTickCount k + n"
  let ?i = "2 * ?t"
  have t: "?i div 2 \<in> T" using schedD(7) [OF inv] by simp
  have c: "container (lists k) ?i = Some (unat (priority_of k ?t))" using rd by (simp add: ready_def)
  have p4: "unat (priority_of k ?t) < 4" using schedD(6) [OF inv schedD(7) [OF inv]] by (simp add: word_less_nat_alt)
  let ?p = "unat (priority_of k ?t)"
  define xs1 where "xs1 = xs(?p := remove1 ?i (xs ?p))"
  define ix1 where "ix1 = ix(?p := arem_index ?i (xs ?p) (ix ?p))"
  obtain s1 where r: "uxListRemove ?i (lists k) = Some (of_nat (length (xs ?p) - 1), s1)"
    and i1': "sched (k\<lparr>lists := s1\<rparr>) D T (xs(?p := remove1 ?i (xs ?p))) (ix(?p := arem_index ?i (xs ?p) (ix ?p)))"
    and d1: "same_data (lists k) s1" and c1: "\<And>j. container s1 j = (if j = ?i then None else container (lists k) j)"
    by (rule sched_remove [OF inv c]) (rule that)
  note i1 = i1' [folded xs1_def ix1_def]
  have x1: "xs1 l = xs l" if "8 < l" for l using p4 that by (simp add: xs1_def)
  let ?k1 = "k\<lparr>lists := s1\<rparr>"
  note rem = on_lists_opt_remove_snd [OF r]
  have cn: "container (lists ?k1) ?i = None" using c1 by simp
  show thesis
  proof (cases "n = portMAX_DELAY \<and> indefinitely")
    case True
    let ?s = "vListInsertEnd 8 ?i s1"
    have D: "8 \<in> D" "(8 :: nat) \<noteq> 4" "(8 :: nat) \<noteq> 5" "fits (priority_of ?k1) 8 ?i" using schedD(2) [OF inv] by (simp_all add: fits_def)
    note ins = sched_insert_end [OF i1 D(1-3) t cn D(4)]
    have sl: "sleep_list k n indefinitely = 8" using True by (simp add: sleep_list_def)
    show thesis
    proof (rule that)
      show "prvAddCurrentTaskToDelayedList n indefinitely k = Some (k\<lparr>lists := ?s, xNextTaskUnblockTime := xNextTaskUnblockTime k\<rparr>)"
        using rem True by (simp add: prvAddCurrentTaskToDelayedList_def Let_def on_lists_def listINSERT_END_eq)
      show "sched (k\<lparr>lists := ?s, xNextTaskUnblockTime := xNextTaskUnblockTime k\<rparr>) D T (xs1(8 := ains_end ?i (xs1 8) (ix1 8))) ix1"
        using ins(1) by simp
      show "container ?s j = (if j = ?i then Some (sleep_list k n indefinitely) else container (lists k) j)" for j
        using ins(3) [of j] c1 [of j] by (simp add: sl)
      have "item_value ?s j = item_value s1 j" for j using same_dataD(1) [OF ins(2)] by simp
      with True same_dataD(1) [OF d1] show "item_value ?s j = (if j = ?i \<and> \<not> (n = portMAX_DELAY \<and> indefinitely)
          then ?wake else item_value (lists k) j)" for j by simp
      show "(xs1(8 := ains_end ?i (xs1 8) (ix1 8))) l = xs l" if "8 < l" for l using x1 [OF that] that by simp
    qed
  next
    case False
    let ?s2 = "listSET_LIST_ITEM_VALUE ?i ?wake s1" and ?l = "sleep_list k n indefinitely"
    let ?k2 = "k\<lparr>lists := ?s2\<rparr>"
    have i2: "sched ?k2 D T xs1 ix1" using sched_set_value [OF i1 cn, of ?wake] by simp
    have l: "?l = (if ?wake < xTickCount k then pxOverflowDelayedTaskList k else pxDelayedTaskList k)"
      using False unfolding sleep_list_def by (simp only: if_False)
    have cn2: "container (lists ?k2) ?i = None" using cn by simp
    have D: "?l \<in> D" "4 \<le> ?l" "fits (priority_of ?k2) ?l ?i"
      using sched_delayed_in [OF inv] schedD(8) [OF inv] by (auto simp: l fits_def)
    let ?n = "if ?l = pxDelayedTaskList ?k2 \<and> item_value (lists ?k2) ?i < xNextTaskUnblockTime ?k2
      then item_value (lists ?k2) ?i else xNextTaskUnblockTime ?k2"
    obtain s where ins: "vListInsert ?l ?i (lists ?k2) = Some s"
      and inv3: "sched (?k2\<lparr>lists := s, xNextTaskUnblockTime := ?n\<rparr>) D T (xs1(?l := ains (item_value (lists ?k2)) ?i (xs1 ?l))) ix1"
      and d3: "same_data (lists ?k2) s" and c3: "\<And>j. container s j = (if j = ?i then Some ?l else container (lists ?k2) j)"
      by (rule sched_insert [OF i2 D(1,2) t cn2 D(3)]) (rule that)
    have dne: "pxOverflowDelayedTaskList k \<noteq> pxDelayedTaskList k" using schedD(8) [OF inv] by auto
    show thesis
    proof (rule that)
      show "prvAddCurrentTaskToDelayedList n indefinitely k = Some (k\<lparr>lists := s, xNextTaskUnblockTime := ?n\<rparr>)"
        using rem False ins l dne
        by (auto simp: prvAddCurrentTaskToDelayedList_def Let_def on_lists_def on_lists_opt_def)
      show "sched (k\<lparr>lists := s, xNextTaskUnblockTime := ?n\<rparr>) D T (xs1(?l := ains (item_value (lists ?k2)) ?i (xs1 ?l))) ix1"
        using inv3 by (simp only: lists_lists)
      show "container s j = (if j = ?i then Some ?l else container (lists k) j)" for j
        using c3 [of j] c1 [of j] by simp
      show "item_value s j = (if j = ?i \<and> \<not> (n = portMAX_DELAY \<and> indefinitely) then ?wake else item_value (lists k) j)" for j
        using same_dataD(1) [OF d3] same_dataD(1) [OF d1] False by simp
      have "?l < 8" using schedD(8) [OF inv] by (auto simp: l)
      then show "(xs1(?l := ains (item_value (lists ?k2)) ?i (xs1 ?l))) m = xs m" if "8 < m" for m
        using x1 [OF that] that by simp
    qed
  qed
qed

lemma wake_time:
  fixes a n :: u32
  shows "a + n < a \<Longrightarrow> unat (a + n) + 4294967296 = unat a + unat n"
    and "\<not> a + n < a \<Longrightarrow> unat (a + n) = unat a + unat n"
proof -
  have m: "unat (a + n) = (unat a + unat n) mod 4294967296" by (simp add: unat_word_ariths)
  have lt: "unat a < 4294967296" "unat n < 4294967296" by (rule unat_u32_less)+
  have "unat (a + n) = (if unat a + unat n < 4294967296 then unat a + unat n else unat a + unat n - 4294967296)"
    using lt unfolding m by (simp add: mod_if)
  with lt show "a + n < a \<Longrightarrow> unat (a + n) + 4294967296 = unat a + unat n" "\<not> a + n < a \<Longrightarrow> unat (a + n) = unat a + unat n"
    by (auto simp: word_less_nat_alt split: if_splits)
qed

text \<open>
  Everything the kernel relies on holds again once the running task is off the ready list, also when its event item has just been
  queued.
\<close>

lemma block_core:
  assumes inv: "sched k D T xs ix" and ot: "on_time k" and st: "\<And>t. t \<in> T \<Longrightarrow> stack_intact k t"
    and idle: "idle_ready T k" "pxCurrentTCB k \<noteq> xIdleTaskHandle k" and num: "0 < uxCurrentNumberOfTasks k"
    and wo: "\<And>t. t \<noteq> pxCurrentTCB k \<Longrightarrow> container (lists k) (2 * t + 1) \<noteq> None \<Longrightarrow> container (lists k) (2 * t) \<in> {Some 4, Some 5, Some 8}"
    and rd: "ready k (pxCurrentTCB k)" and n: "n \<noteq> 0"
  obtains k' where "prvAddCurrentTaskToDelayedList n indefinitely k = Some k'" and "kcore D T k'" and "kframe k k'"
    and "advance T 0 k k'" and "\<And>t. ready k' t \<longleftrightarrow> ready k t \<and> t \<noteq> pxCurrentTCB k"
    and "\<And>t. container (lists k') (2 * t + 1) = container (lists k) (2 * t + 1)"
    and "container (lists k') (2 * pxCurrentTCB k) = Some (sleep_list k n indefinitely)"
    and "xTickCount k' = xTickCount k" and "xYieldPending k' = xYieldPending k"
    and "container (lists k) (2 * pxCurrentTCB k + 1) = None \<Longrightarrow> \<not> indefinitely \<Longrightarrow> naps k' (pxCurrentTCB k) (unat n)"
proof -
  let ?c = "pxCurrentTCB k" and ?l = "sleep_list k n indefinitely"
  obtain s nx xs' ix' where
    p: "prvAddCurrentTaskToDelayedList n indefinitely k = Some (k\<lparr>lists := s, xNextTaskUnblockTime := nx\<rparr>)"
    and inv': "sched (k\<lparr>lists := s, xNextTaskUnblockTime := nx\<rparr>) D T xs' ix'"
    and c: "\<And>j. container s j = (if j = 2 * ?c then Some ?l else container (lists k) j)"
    and v: "\<And>j. item_value s j = (if j = 2 * ?c \<and> \<not> (n = portMAX_DELAY \<and> indefinitely) then xTickCount k + n
      else item_value (lists k) j)" by (rule block_current [OF inv rd]) (rule that)
  let ?k' = "k\<lparr>lists := s, xNextTaskUnblockTime := nx\<rparr>"
  have dd: "pxDelayedTaskList k = 4 \<and> pxOverflowDelayedTaskList k = 5 \<or> pxDelayedTaskList k = 5 \<and> pxOverflowDelayedTaskList k = 4"
    by (rule schedD(8) [OF inv])
  have l: "?l = 4 \<or> ?l = 5 \<or> ?l = 8" using dd by (auto simp: sleep_list_def)
  have lp: "unat (priority_of k ?c) < 4" using schedD(6) [OF inv schedD(7) [OF inv]] by (simp add: word_less_nat_alt)
  have rdy: "ready ?k' t \<longleftrightarrow> ready k t \<and> t \<noteq> ?c" for t
  proof (cases "t = ?c")
    case True
    with c [of "2 * ?c"] l lp show ?thesis by (auto simp: ready_def)
  next
    case False
    with c [of "2 * t"] show ?thesis by (simp add: ready_def)
  qed
  have odd: "container s (2 * t + 1) = container (lists k) (2 * t + 1)" for t
  proof -
    have "2 * t + 1 \<noteq> 2 * ?c" by presburger
    with c [of "2 * t + 1"] show ?thesis by simp
  qed
  have core: "kcore D T ?k'"
  proof (rule kcoreI [OF inv'])
    have "xTickCount k < item_value s i" if i: "container s i = Some (pxDelayedTaskList k)" for i
    proof (cases "i = 2 * ?c")
      case True
      then have ld: "?l = pxDelayedTaskList k" using i c [of i] by simp
      have ni: "\<not> (n = portMAX_DELAY \<and> indefinitely)"
      proof
        assume "n = portMAX_DELAY \<and> indefinitely"
        then have "?l = 8" by (simp add: sleep_list_def)
        with ld dd show False by auto
      qed
      have nl: "\<not> xTickCount k + n < xTickCount k"
      proof
        assume "xTickCount k + n < xTickCount k"
        then have "?l = pxOverflowDelayedTaskList k" using ni unfolding sleep_list_def by (simp only: if_False if_True)
        with ld dd show False by auto
      qed
      have "xTickCount k + n \<noteq> xTickCount k" using n by simp
      with nl have "xTickCount k < xTickCount k + n" by (metis linorder_less_linear)
      then show ?thesis using True v [of i] ni by simp
    next
      case False
      with i c [of i] v [of i] ot show ?thesis by (simp add: on_time_def)
    qed
    then show "on_time ?k'" by (simp add: on_time_def)
    show "stack_intact ?k' t" if "t \<in> T" for t using st [OF that] by (simp add: stack_intact_def)
    show "idle_ready T ?k'" using idle rdy by (simp add: idle_ready_def)
    have "container s (2 * t) \<in> {Some 4, Some 5, Some 8}" if "container s (2 * t + 1) \<noteq> None" for t
    proof (cases "t = ?c")
      case True
      with c [of "2 * t"] l show ?thesis by auto
    next
      case False
      then have "container s (2 * t) = container (lists k) (2 * t)" using c [of "2 * t"] by simp
      moreover have "container (lists k) (2 * t) \<in> {Some 4, Some 5, Some 8}"
        using that by (intro wo [OF False]) (simp only: odd not_False_eq_True)
      ultimately show ?thesis by (simp only:)
    qed
    then show "waits_ok ?k'" unfolding waits_ok_def by simp
    show "0 < uxCurrentNumberOfTasks ?k'" using num by simp
  qed
  have fr: "kframe k ?k'"
  proof -
    have "container s j \<noteq> Some 6" if "no_pending k" for j
      using that c [of j] l by (auto simp: no_pending_def)
    then show ?thesis by (auto simp: kframe_def no_pending_def)
  qed
  have adv: "advance T 0 k ?k'"
  proof (rule advance_0I)
    fix t r assume t: "naps k t r"
    have "t \<noteq> ?c" using t rd dd lp by (auto simp: naps_def ready_def)
    then have "container s (2 * t) = container (lists k) (2 * t)" "item_value s (2 * t) = item_value (lists k) (2 * t)"
      using c [of "2 * t"] v [of "2 * t"] by simp_all
    with t odd [of t] show "naps ?k' t r" by (simp add: naps_def)
  qed
  have nap: "naps ?k' ?c (unat n)" if "container (lists k) (2 * ?c + 1) = None" "\<not> indefinitely"
  proof -
    have "0 < unat n" using n by (simp add: unat_gt_0)
    moreover have "?l = (if xTickCount k + n < xTickCount k then pxOverflowDelayedTaskList k else pxDelayedTaskList k)"
      using that(2) by (simp add: sleep_list_def)
    ultimately show ?thesis
      using that wake_time [of "xTickCount k" n] c [of "2 * ?c"] v [of "2 * ?c"] odd [of ?c]
      by (simp add: naps_def)
  qed
  show thesis
    by (rule that [OF p core fr adv rdy]) (use odd c nap in simp_all)
qed

end
