(* ===== verification/Rtos_Wake.thy ===== *)
theory Rtos_Wake
  imports Rtos_Block
begin

text \<open>
  Waiting on an event list, and being woken by an event: at once, or over the list of pending
  tasks when the scheduler is suspended.
\<close>

section \<open>A waiting task becomes ready\<close>

text \<open>Both items come off their lists, and the state item goes on the ready list.\<close>

definition now_ready :: "nat \<Rightarrow> 'a kernel_scheme \<Rightarrow> 'a kernel_scheme \<Rightarrow> bool" where
  "now_ready t k k' \<longleftrightarrow> (\<exists>s tp. k' = k\<lparr>lists := s, uxTopReadyPriority := tp\<rparr> \<and> same_data (lists k) s \<and>
     (\<forall>j. container s j = (if j = 2 * t then Some (unat (priority_of k t)) else if j = 2 * t + 1 then None
        else container (lists k) j)))"

lemma now_readyD:
  assumes "now_ready t k k'"
  shows "container (lists k') j = (if j = 2 * t then Some (unat (priority_of k t)) else if j = 2 * t + 1 then None
        else container (lists k) j)"
    and "item_value (lists k') i = item_value (lists k) i" and "tcbs k' = tcbs k" and "pxCurrentTCB k' = pxCurrentTCB k"
    and "xTickCount k' = xTickCount k" and "pxDelayedTaskList k' = pxDelayedTaskList k"
    and "pxOverflowDelayedTaskList k' = pxOverflowDelayedTaskList k" and "xIdleTaskHandle k' = xIdleTaskHandle k"
    and "uxSchedulerSuspended k' = uxSchedulerSuspended k" and "xPendedTicks k' = xPendedTicks k"
    and "k_mem k' = k_mem k" and "uxCurrentNumberOfTasks k' = uxCurrentNumberOfTasks k"
    and "xYieldPending k' = xYieldPending k"
  using assms by (auto simp: now_ready_def same_data_def)

lemma ready_item:
  assumes inv: "sched k D T xs ix" and t: "t \<in> T" and e: "container (lists k) (2 * t + 1) = Some l" and c: "container (lists k) (2 * t) = Some m"
    and ne: "m \<noteq> l" and l: "4 \<le> l"
  obtains s1 s2 xs' ix' where "on_lists_opt (listREMOVE_ITEM (2 * t + 1)) k = Some (k\<lparr>lists := s1\<rparr>)"
    and "on_lists_opt (listREMOVE_ITEM (2 * t)) (k\<lparr>lists := s1\<rparr>) = Some (k\<lparr>lists := s2\<rparr>)"
    and "sched (prvAddTaskToReadyList t (k\<lparr>lists := s2\<rparr>)) D T xs' ix'" and "xs' l = remove1 (2 * t + 1) (xs l)"
    and "now_ready t k (prvAddTaskToReadyList t (k\<lparr>lists := s2\<rparr>))"
proof -
  let ?p = "unat (priority_of k t)"
  have p4: "?p < 4" using schedD(6) [OF inv t] by (simp add: word_less_nat_alt)
  let ?xs1 = "xs(l := remove1 (2 * t + 1) (xs l))" and ?ix1 = "ix(l := arem_index (2 * t + 1) (xs l) (ix l))"
  obtain s1 where r1: "uxListRemove (2 * t + 1) (lists k) = Some (of_nat (length (xs l) - 1), s1)"
    and i1: "sched (k\<lparr>lists := s1\<rparr>) D T ?xs1 ?ix1" and d1: "same_data (lists k) s1"
    and c1: "\<And>j. container s1 j = (if j = 2 * t + 1 then None else container (lists k) j)"
    by (rule sched_remove [OF inv e]) (rule that)
  let ?k1 = "k\<lparr>lists := s1\<rparr>"
  have c': "container (lists ?k1) (2 * t) = Some m" using c1 [of "2 * t"] c by simp
  let ?xs2 = "?xs1(m := remove1 (2 * t) (?xs1 m))" and ?ix2 = "?ix1(m := arem_index (2 * t) (?xs1 m) (?ix1 m))"
  obtain s2 where r2: "uxListRemove (2 * t) (lists ?k1) = Some (of_nat (length (?xs1 m) - 1), s2)"
    and i2': "sched (?k1\<lparr>lists := s2\<rparr>) D T ?xs2 ?ix2" and d2: "same_data (lists ?k1) s2"
    and c2: "\<And>j. container s2 j = (if j = 2 * t then None else container (lists ?k1) j)"
    by (rule sched_remove [OF i1 c']) (rule that)
  let ?k2 = "k\<lparr>lists := s2\<rparr>"
  have i2: "sched ?k2 D T ?xs2 ?ix2" using i2' by (simp only: lists_lists)
  have cn: "container (lists ?k2) (2 * t) = None" by (simp add: c2)
  note rdy = sched_ready [OF i2 t cn]
  let ?k3 = "prvAddTaskToReadyList t ?k2"
  have rm2: "on_lists_opt (listREMOVE_ITEM (2 * t)) ?k1 = Some ?k2"
    using on_lists_opt_remove [OF r2] by simp
  have data: "same_data (lists k) (lists ?k3)"
    using same_data_trans [OF same_data_trans [OF d1] rdy(2)] d2 by simp
  have con: "container (lists ?k3) j = (if j = 2 * t then Some ?p else if j = 2 * t + 1 then None else container (lists k) j)" for j
    using rdy(3) [of j] c2 [of j] c1 [of j] by simp
  have "?k3 = k\<lparr>lists := lists ?k3, uxTopReadyPriority := uxTopReadyPriority ?k3\<rparr>" by (simp add: prvAddTaskToReadyList_eq)
  then have nr: "now_ready t k ?k3" using data con unfolding now_ready_def by blast
  have xl: "(?xs2(unat (priority_of ?k2 t) := ains_end (2 * t) (?xs2 (unat (priority_of ?k2 t))) (?ix2 (unat (priority_of ?k2 t))))) l
      = remove1 (2 * t + 1) (xs l)"
    using ne l p4 by simp
  show thesis by (rule that [OF on_lists_opt_remove [OF r1] rm2 rdy(1) xl nr])
qed

text \<open>What that does to the invariant.\<close>

lemma odd_ne: "2 * u \<noteq> 2 * t + 1" "2 * u + 1 \<noteq> 2 * (t :: nat)"
  by presburger+

lemma now_ready_core:
  assumes core: "kcore D T k" and inv': "sched k' D T xs' ix'" and nr: "now_ready t k k'" and t: "t \<in> T"
    and e: "container (lists k) (2 * t + 1) \<noteq> None"
  shows "kcore D T k'" and "advance T 0 k k'" and "still_ready T k k'" and "kframe k k'"
    and "ready k' u \<longleftrightarrow> ready k u \<or> u = t"
proof -
  note d = now_readyD [OF nr]
  have p4: "unat (priority_of k t) < 4" using kcoreD(7) [OF core t] by (simp add: word_less_nat_alt)
  have even: "container (lists k') (2 * u) = (if u = t then Some (unat (priority_of k t)) else container (lists k) (2 * u))" for u
    using d(1) [of "2 * u"] odd_ne(1) [of u t] by (cases "u = t") simp_all
  have odd: "container (lists k') (2 * u + 1) = (if u = t then None else container (lists k) (2 * u + 1))" for u
    using d(1) [of "2 * u + 1"] odd_ne(2) [of u t] by (cases "u = t") simp_all
  show rdy: "ready k' u \<longleftrightarrow> ready k u \<or> u = t" for u using even [of u] d(3) by (auto simp: ready_def)
  then show "still_ready T k k'" by (simp add: still_ready_def)
  show "kcore D T k'"
  proof (rule kcoreI [OF inv'])
    have "xTickCount k < item_value (lists k) i" if "container (lists k') i = Some (pxDelayedTaskList k)" for i
    proof -
      have "container (lists k) i = Some (pxDelayedTaskList k)"
        using that d(1) [of i] p4 kcoreD(10) [OF core] by (auto split: if_splits)
      with kcoreD(1) [OF core] show ?thesis by (simp add: on_time_def)
    qed
    then show "on_time k'" using d by (simp add: on_time_def)
    show "stack_intact k' u" if "u \<in> T" for u using kcoreD(2) [OF core that] d by (simp add: stack_intact_def)
    show "idle_ready T k'" using kcoreD(3) [OF core] rdy d(8) by (simp add: idle_ready_def)
    have "container (lists k') (2 * u) \<in> {Some 4, Some 5, Some 8}" if "container (lists k') (2 * u + 1) \<noteq> None" for u
    proof -
      have u: "u \<noteq> t" "container (lists k) (2 * u + 1) \<noteq> None" using that odd [of u] by (auto split: if_splits)
      then have "container (lists k) (2 * u) \<in> {Some 4, Some 5, Some 8}" using kcoreD(4) [OF core] unfolding waits_ok_def by blast
      then show ?thesis using even [of u] u(1) by (simp only: if_False)
    qed
    then show "waits_ok k'" unfolding waits_ok_def by blast
    show "0 < uxCurrentNumberOfTasks k'" using kcoreD(5) [OF core] d by simp
  qed
  have "container (lists k') j \<noteq> Some 6" if "no_pending k" for j
    using that d(1) [of j] p4 by (auto simp: no_pending_def)
  then show "kframe k k'" using d by (auto simp: kframe_def no_pending_def)
  show "advance T 0 k k'"
  proof (rule advance_0I)
    fix u r assume u: "naps k u r"
    then have "u \<noteq> t" using e by (auto simp: naps_def)
    then show "naps k' u r" using u even [of u] odd [of u] d by (simp add: naps_def)
  qed
qed

section \<open>Waiting\<close>

lemma wait_core:
  assumes core: "kcore D T k" and idle: "pxCurrentTCB k \<noteq> xIdleTaskHandle k" and rd: "ready k (pxCurrentTCB k)"
    and n: "n \<noteq> 0" and l: "l \<in> D" "8 < l"
  obtains k' where "vTaskPlaceOnEventList l n k = Some k'" and "kcore D T k'" and "kframe k k'"
    and "advance T 0 k k'" and "\<And>t. ready k' t \<longleftrightarrow> ready k t \<and> t \<noteq> pxCurrentTCB k"
    and "container (lists k') (2 * pxCurrentTCB k + 1) = Some l"
    and "container (lists k') (2 * pxCurrentTCB k) = Some (sleep_list k n True)"
    and "xTickCount k' = xTickCount k" and "xYieldPending k' = xYieldPending k"
proof -
  obtain xs ix where inv: "sched k D T xs ix" by (rule kcoreE [OF core])
  let ?c = "pxCurrentTCB k"
  let ?i = "2 * ?c + 1"
  have t: "?c \<in> T" by (rule kcoreD(6) [OF core])
  have cn: "container (lists k) ?i = None" by (rule ready_free [OF core t rd])
  have l4: "4 \<le> l" "fits (priority_of k) l ?i" "?i div 2 \<in> T" using l(2) t by (simp_all add: fits_def)
  have ld: "l \<noteq> pxDelayedTaskList k" "l \<noteq> 6" "l \<noteq> pxOverflowDelayedTaskList k" using l(2) kcoreD(10) [OF core] by auto
  obtain s where ins: "vListInsert l ?i (lists k) = Some s"
    and inv1: "sched (k\<lparr>lists := s, xNextTaskUnblockTime := (if l = pxDelayedTaskList k \<and> item_value (lists k) ?i < xNextTaskUnblockTime k
                then item_value (lists k) ?i else xNextTaskUnblockTime k)\<rparr>) D T (xs(l := ains (item_value (lists k)) ?i (xs l))) ix"
    and data: "same_data (lists k) s" and c: "\<And>j. container s j = (if j = ?i then Some l else container (lists k) j)"
    by (rule sched_insert [OF inv l(1) l4(1,3) cn l4(2)]) (rule that)
  let ?k1 = "k\<lparr>lists := s\<rparr>"
  have inv1': "sched ?k1 D T (xs(l := ains (item_value (lists k)) ?i (xs l))) ix"
    using inv1 ld(1) by (simp only: simp_thms if_False same_next)
  have even: "container s (2 * u) = container (lists k) (2 * u)" for u using c [of "2 * u"] odd_ne(1) [of u ?c] by simp
  have odd: "container s (2 * u + 1) = (if u = ?c then Some l else container (lists k) (2 * u + 1))" for u
    using c [of "2 * u + 1"] by simp
  have rdy: "ready ?k1 u \<longleftrightarrow> ready k u" for u using even [of u] by (simp add: ready_def)
  have v: "item_value s j = item_value (lists k) j" for j by (rule same_dataD(1) [OF data])
  have "xTickCount k < item_value (lists k) i" if "container s i = Some (pxDelayedTaskList k)" for i
  proof -
    have "container (lists k) i = Some (pxDelayedTaskList k)" using that c [of i] ld(1) by (auto split: if_splits)
    with kcoreD(1) [OF core] show ?thesis by (simp add: on_time_def)
  qed
  then have ot: "on_time ?k1" by (simp add: on_time_def v)
  have st: "stack_intact ?k1 u" if "u \<in> T" for u using kcoreD(2) [OF core that] by (simp add: stack_intact_def)
  have id1: "idle_ready T ?k1" "pxCurrentTCB ?k1 \<noteq> xIdleTaskHandle ?k1" using kcoreD(3) [OF core] rdy idle by (simp_all add: idle_ready_def)
  have num: "0 < uxCurrentNumberOfTasks ?k1" using kcoreD(5) [OF core] by simp
  have wo: "container (lists ?k1) (2 * u) \<in> {Some 4, Some 5, Some 8}"
    if "u \<noteq> pxCurrentTCB ?k1" "container (lists ?k1) (2 * u + 1) \<noteq> None" for u
  proof -
    have "container (lists k) (2 * u + 1) \<noteq> None" using that odd [of u] by simp
    then have "container (lists k) (2 * u) \<in> {Some 4, Some 5, Some 8}" using kcoreD(4) [OF core] unfolding waits_ok_def by blast
    then show ?thesis using even [of u] by simp
  qed
  have rd1: "ready ?k1 (pxCurrentTCB ?k1)" using rd rdy by simp
  obtain k' where k': "prvAddCurrentTaskToDelayedList n True ?k1 = Some k'" "kcore D T k'" "kframe ?k1 k'" "advance T 0 ?k1 k'"
      "\<And>t. ready k' t \<longleftrightarrow> ready ?k1 t \<and> t \<noteq> pxCurrentTCB ?k1"
      "\<And>t. container (lists k') (2 * t + 1) = container (lists ?k1) (2 * t + 1)"
      "container (lists k') (2 * pxCurrentTCB ?k1) = Some (sleep_list ?k1 n True)"
      "xTickCount k' = xTickCount ?k1" "xYieldPending k' = xYieldPending ?k1"
    by (rule block_core [OF inv1' ot _ id1 num _ rd1 n, where indefinitely = True])
      (erule st, erule (1) wo, rule that)
  have np: "advance T 0 k ?k1"
  proof (rule advance_0I)
    fix u r assume "naps k u r"
    moreover have "u \<noteq> ?c" using calculation rd kcoreD(7) [OF core t] kcoreD(10) [OF core]
      by (auto simp: naps_def ready_def word_less_nat_alt)
    ultimately show "naps ?k1 u r" using even [of u] odd [of u] v by (simp add: naps_def)
  qed
  have "container s j \<noteq> Some 6" if "no_pending k" for j using that c [of j] ld(2) by (simp add: no_pending_def)
  then have fr: "kframe k ?k1" by (simp add: kframe_def no_pending_def)
  have place: "vTaskPlaceOnEventList l n k = Some k'"
    using ins k'(1) by (simp add: vTaskPlaceOnEventList_def on_lists_opt_def)
  show thesis
  proof (rule that [OF place k'(2) kframe_trans [OF fr k'(3)]])
    show "advance T 0 k k'"
    proof (rule advance_0I)
      fix u r assume u: "u \<in> T" "naps k u r"
      then have "naps ?k1 u r" "0 < r" using np by (auto simp: advance_def naps_def)
      with k'(4) u(1) show "naps k' u r" unfolding advance_def by (metis diff_zero)
    qed
    show "ready k' u \<longleftrightarrow> ready k u \<and> u \<noteq> ?c" for u using k'(5) [of u] rdy [of u] by simp
    show "container (lists k') (2 * ?c + 1) = Some l" using k'(6) [of ?c] odd [of ?c] by simp
    show "container (lists k') (2 * ?c) = Some (sleep_list k n True)" using k'(7) by (simp add: sleep_list_def)
  qed (use k'(8,9) in simp_all)
qed

section \<open>Waking\<close>

lemma event_head:
  assumes inv: "sched k D T xs ix" and l: "l \<in> D" "l = 6 \<or> 8 < l" and xl: "xs l = i # r"
  obtains t where "i = 2 * t + 1" and "t \<in> T" and "t \<noteq> 0" and "listGET_OWNER_OF_HEAD_ENTRY l (lists k) = t"
    and "container (lists k) (2 * t + 1) = Some l"
proof -
  have i: "i \<in> set (xs l)" by (simp add: xl)
  have t: "i div 2 \<in> T" by (rule listed_task [OF inv l(1) i])
  have "fits (priority_of k) l i" by (rule well_placedD [OF schedD(9) [OF inv] l(1) i])
  then have o: "i = 2 * (i div 2) + 1" using l(2) by (auto simp: fits_def)
  have own: "listGET_OWNER_OF_HEAD_ENTRY l (lists k) = i div 2"
    using lists_rep_head(1) [OF schedD(1) [OF inv] l(1) xl] schedD(5) [OF inv t] o by simp
  have "container (lists k) i = Some l" using sched_container [OF inv] l(1) i by simp
  then have c: "container (lists k) (2 * (i div 2) + 1) = Some l" using o by simp
  have "i div 2 \<noteq> 0" using t schedD(3) [OF inv] by metis
  with that [OF o t _ own c] show thesis .
qed

lemma waiter_state:
  assumes core: "kcore D T k" and e: "container (lists k) (2 * t + 1) = Some l" and l: "l = 6 \<or> 8 < l"
  obtains m where "container (lists k) (2 * t) = Some m" and "m \<noteq> l" and "4 \<le> m"
proof -
  have "container (lists k) (2 * t + 1) \<noteq> None" using e by simp
  then have "container (lists k) (2 * t) \<in> {Some 4, Some 5, Some 8}" using kcoreD(4) [OF core] unfolding waits_ok_def by blast
  with l that show thesis by auto
qed

text \<open>The scheduler runs: the first waiting task becomes ready.\<close>

lemma wake_now_core:
  assumes core: "kcore D T k" and un: "uxSchedulerSuspended k = 0" and l: "l \<in> D" "8 < l" and ne: "\<not> list_empty k l"
  obtains higher k' where "xTaskRemoveFromEventList l k = Some (higher, k')" and "kcore D T k'" and "kframe k k'"
    and "advance T 0 k k'" and "still_ready T k k'" and "xTickCount k' = xTickCount k"
    and "top_runs T k \<Longrightarrow> higher \<or> top_runs T k'"
    and "ready k' (listGET_OWNER_OF_HEAD_ENTRY l (lists k))"
proof -
  obtain xs ix where inv: "sched k D T xs ix" by (rule kcoreE [OF core])
  obtain i r where xl: "xs l = i # r" using sched_empty [OF inv l(1)] ne by (cases "xs l") auto
  have l6: "l = 6 \<or> 8 < l" "4 \<le> l" using l(2) by simp_all
  obtain t where t: "i = 2 * t + 1" "t \<in> T" "t \<noteq> 0" "listGET_OWNER_OF_HEAD_ENTRY l (lists k) = t" "container (lists k) (2 * t + 1) = Some l"
    by (rule event_head [OF inv l(1) l6(1) xl]) (rule that)
  obtain m where m: "container (lists k) (2 * t) = Some m" "m \<noteq> l" by (rule waiter_state [OF core t(5) l6(1)]) (rule that)
  obtain s1 s2 xs' ix' where r1: "on_lists_opt (listREMOVE_ITEM (2 * t + 1)) k = Some (k\<lparr>lists := s1\<rparr>)"
    and r2: "on_lists_opt (listREMOVE_ITEM (2 * t)) (k\<lparr>lists := s1\<rparr>) = Some (k\<lparr>lists := s2\<rparr>)"
    and inv': "sched (prvAddTaskToReadyList t (k\<lparr>lists := s2\<rparr>)) D T xs' ix'"
    and nr: "now_ready t k (prvAddTaskToReadyList t (k\<lparr>lists := s2\<rparr>))"
    by (rule ready_item [OF inv t(2,5) m l6(2)]) (rule that)
  let ?k1 = "prvAddTaskToReadyList t (k\<lparr>lists := s2\<rparr>)"
  have "container (lists k) (2 * t + 1) \<noteq> None" using t(5) by simp
  note f = now_ready_core [OF core inv' nr t(2) this]
  note d = now_readyD [OF nr]
  let ?h = "priority_of k (pxCurrentTCB k) < priority_of k t"
  let ?k' = "if ?h then ?k1\<lparr>xYieldPending := True\<rparr> else ?k1"
  have x: "xTaskRemoveFromEventList l k = Some (?h, ?k')"
    using t(3,4) r1 r2 un d(3,4) by (simp add: xTaskRemoveFromEventList_def Let_def)
  have top: "?h \<or> top_runs T ?k'" if "top_runs T k"
    using that f(5) d(3,4) by (auto simp: top_runs_def)
  show thesis by (rule that [OF x _ _ _ _ _ top]) (use f d t(4) in simp_all)
qed

text \<open>The scheduler is suspended: the task goes on the list of pending tasks.\<close>

lemma wake_later_sched:
  assumes core: "kcore D T k" and inv: "sched k D T xs ix" and sus: "uxSchedulerSuspended k \<noteq> 0"
    and l: "l \<in> D" "8 < l" and xl: "xs l = i # r"
  obtains higher k' xs' ix' where "xTaskRemoveFromEventList l k = Some (higher, k')" and "kcore D T k'"
    and "pxCurrentTCB k' = pxCurrentTCB k" and "tcbs k' = tcbs k" and "xIdleTaskHandle k' = xIdleTaskHandle k"
    and "uxSchedulerSuspended k' = uxSchedulerSuspended k" and "xPendedTicks k' = xPendedTicks k"
    and "xTickCount k' = xTickCount k" and "advance T 0 k k'" and "\<And>t. ready k' t = ready k t"
    and "sched k' D T xs' ix'" and "xs' l = r" and "\<And>m. m \<noteq> l \<Longrightarrow> m \<noteq> 6 \<Longrightarrow> xs' m = xs m"
    and "\<And>j. container (lists k') j = (if j = i then Some 6 else container (lists k) j)"
proof -
  have l6: "l = 6 \<or> 8 < l" using l(2) by simp
  obtain t where t: "i = 2 * t + 1" "t \<in> T" "t \<noteq> 0" "listGET_OWNER_OF_HEAD_ENTRY l (lists k) = t" "container (lists k) (2 * t + 1) = Some l"
    by (rule event_head [OF inv l(1) l6 xl]) (rule that)
  let ?i = "2 * t + 1"
  let ?xs1 = "xs(l := remove1 ?i (xs l))" and ?ix1 = "ix(l := arem_index ?i (xs l) (ix l))"
  obtain s1 where r1: "uxListRemove ?i (lists k) = Some (of_nat (length (xs l) - 1), s1)"
    and i1: "sched (k\<lparr>lists := s1\<rparr>) D T ?xs1 ?ix1" and d1: "same_data (lists k) s1"
    and c1: "\<And>j. container s1 j = (if j = ?i then None else container (lists k) j)"
    by (rule sched_remove [OF inv t(5)]) (rule that)
  let ?k1 = "k\<lparr>lists := s1\<rparr>"
  define s where "s = vListInsertEnd 6 ?i s1"
  have D: "6 \<in> D" "(6 :: nat) \<noteq> 4" "(6 :: nat) \<noteq> 5" "?i div 2 \<in> T" "container (lists ?k1) ?i = None" "fits (priority_of ?k1) 6 ?i"
    using schedD(2) [OF inv] t(2) c1 by (simp_all add: fits_def)
  note ins = sched_insert_end [OF i1 D]
  let ?k' = "k\<lparr>lists := s\<rparr>"
  have inv': "sched ?k' D T (?xs1(6 := ains_end ?i (?xs1 6) (?ix1 6))) ?ix1" using ins(1) by (simp add: s_def)
  have c: "container s j = (if j = ?i then Some 6 else container (lists k) j)" for j
    using ins(3) [of j] c1 [of j] by (simp add: s_def)
  have v: "item_value s j = item_value (lists k) j" for j using same_dataD(1) [OF ins(2)] same_dataD(1) [OF d1] by (simp add: s_def)
  have even: "container s (2 * u) = container (lists k) (2 * u)" for u using c [of "2 * u"] odd_ne(1) [of u t] by simp
  have odd: "container s (2 * u + 1) = (if u = t then Some 6 else container (lists k) (2 * u + 1))" for u
    using c [of "2 * u + 1"] by simp
  have rdy: "ready ?k' u \<longleftrightarrow> ready k u" for u using even [of u] by (simp add: ready_def)
  have core': "kcore D T ?k'"
  proof (rule kcoreI [OF inv'])
    have "xTickCount k < item_value (lists k) j" if "container s j = Some (pxDelayedTaskList k)" for j
    proof -
      have "container (lists k) j = Some (pxDelayedTaskList k)" using that c [of j] kcoreD(10) [OF core] by (auto split: if_splits)
      with kcoreD(1) [OF core] show ?thesis by (simp add: on_time_def)
    qed
    then show "on_time ?k'" by (simp add: on_time_def v)
    show "stack_intact ?k' u" if "u \<in> T" for u using kcoreD(2) [OF core that] by (simp add: stack_intact_def)
    show "idle_ready T ?k'" using kcoreD(3) [OF core] rdy by (simp add: idle_ready_def)
    have "container s (2 * u) \<in> {Some 4, Some 5, Some 8}" if "container s (2 * u + 1) \<noteq> None" for u
    proof -
      have "container (lists k) (2 * u + 1) \<noteq> None" using that odd [of u] t(5) by (cases "u = t") simp_all
      then have "container (lists k) (2 * u) \<in> {Some 4, Some 5, Some 8}" using kcoreD(4) [OF core] unfolding waits_ok_def by blast
      then show ?thesis by (simp only: even)
    qed
    then show "waits_ok ?k'" unfolding waits_ok_def by simp
    show "0 < uxCurrentNumberOfTasks ?k'" using kcoreD(5) [OF core] by simp
  qed
  have adv: "advance T 0 k ?k'"
  proof (rule advance_0I)
    fix u r assume u: "naps k u r"
    then have "u \<noteq> t" using t(5) by (auto simp: naps_def)
    then show "naps ?k' u r" using u even [of u] odd [of u] v by (simp add: naps_def)
  qed
  let ?h = "priority_of k (pxCurrentTCB k) < priority_of k t"
  have x: "xTaskRemoveFromEventList l k = Some (?h, if ?h then ?k'\<lparr>xYieldPending := True\<rparr> else ?k')"
    using t(3,4) on_lists_opt_remove [OF r1] sus
    by (simp add: xTaskRemoveFromEventList_def Let_def on_lists_def listINSERT_END_eq s_def)
  let ?k2 = "if ?h then ?k'\<lparr>xYieldPending := True\<rparr> else ?k'"
  let ?xs' = "?xs1(6 := ains_end ?i (?xs1 6) (?ix1 6))"
  have inv2: "sched ?k2 D T ?xs' ?ix1" using inv' by simp
  have rest: "?xs' l = r" using l(2) xl t(1) by simp
  have oth: "?xs' m = xs m" if "m \<noteq> l" "m \<noteq> 6" for m using that by simp
  have con: "container (lists ?k2) j = (if j = i then Some 6 else container (lists k) j)" for j
    using c [of j] unfolding t(1) by (cases "j = ?i") simp_all
  show thesis
    by (rule that [OF x _ _ _ _ _ _ _ _ _ inv2 rest oth con]) (use core' adv rdy in \<open>simp_all add: ready_def\<close>)
qed

lemma wake_later_core:
  assumes core: "kcore D T k" and sus: "uxSchedulerSuspended k \<noteq> 0" and l: "l \<in> D" "8 < l" and ne: "\<not> list_empty k l"
  obtains higher k' where "xTaskRemoveFromEventList l k = Some (higher, k')" and "kcore D T k'"
    and "pxCurrentTCB k' = pxCurrentTCB k" and "tcbs k' = tcbs k" and "xIdleTaskHandle k' = xIdleTaskHandle k"
    and "uxSchedulerSuspended k' = uxSchedulerSuspended k" and "xPendedTicks k' = xPendedTicks k"
    and "xTickCount k' = xTickCount k" and "advance T 0 k k'" and "\<And>t. ready k' t = ready k t"
proof -
  obtain xs ix where inv: "sched k D T xs ix" by (rule kcoreE [OF core])
  obtain i r where xl: "xs l = i # r" using sched_empty [OF inv l(1)] ne by (cases "xs l") auto
  show thesis by (rule wake_later_sched [OF core inv sus l xl]) (rule that)
qed

end
