(* ===== verification/Rtos_Resume.thy ===== *)
theory Rtos_Resume
  imports Rtos_Wake
begin

text \<open>
  \<open>xTaskResumeAll\<close>: the tasks that became ready while the scheduler was suspended, the ticks that were
  held back, and the yield that follows.
\<close>

section \<open>The pending tasks\<close>

text \<open>The fields that stay.\<close>

definition same_rest :: "'a kernel_scheme \<Rightarrow> 'a kernel_scheme \<Rightarrow> bool" where
  "same_rest k k' \<longleftrightarrow> pxCurrentTCB k' = pxCurrentTCB k \<and> tcbs k' = tcbs k \<and> xIdleTaskHandle k' = xIdleTaskHandle k \<and>
     uxSchedulerSuspended k' = uxSchedulerSuspended k \<and> xPendedTicks k' = xPendedTicks k \<and> xTickCount k' = xTickCount k"

lemma same_rest_trans: "same_rest k k1 \<Longrightarrow> same_rest k1 k2 \<Longrightarrow> same_rest k k2"
  by (simp add: same_rest_def)

lemma same_rest_refl [simp]: "same_rest k k"
  by (simp add: same_rest_def)

lemma no_pending_sched:
  assumes "sched k D T xs ix"
  shows "no_pending k \<longleftrightarrow> xs 6 = []"
proof -
  have "6 \<in> D" using schedD(2) [OF assms] by simp
  then show ?thesis using sched_container [OF assms, of _ 6] by (auto simp: no_pending_def)
qed

lemma advance_0_trans: "advance T 0 k k1 \<Longrightarrow> advance T 0 k1 k2 \<Longrightarrow> still_ready T k1 k2 \<Longrightarrow> advance T 0 k k2"
  using advance_trans [of T 0 k k1 0 k2] by simp

lemma move_pending_core:
  assumes "kcore D T k" and "sched k D T xs ix" and "xs 6 = ps"
  shows "\<exists>t k'. move_pending prev k = Some (t, k') \<and> kcore D T k' \<and> no_pending k' \<and> advance T 0 k k' \<and>
    still_ready T k k' \<and> same_rest k k' \<and> (top_or_yield T k \<longrightarrow> top_or_yield T k') \<and>
    (\<forall>u\<in>T. container (lists k) (2 * u + 1) = Some 6 \<longrightarrow> ready k' u)"
  using assms
proof (induction ps arbitrary: prev k xs ix)
  case Nil
  have "list_empty k 6" using sched_empty [OF Nil(2) schedD(2) [OF Nil(2), of 6]] Nil(3) by simp
  then have "move_pending prev k = Some (prev, k)" by (subst move_pending.simps) simp
  moreover have "no_pending k" using no_pending_sched [OF Nil(2)] Nil(3) by simp
  moreover from this have "container (lists k) (2 * u + 1) \<noteq> Some 6" for u unfolding no_pending_def by blast
  ultimately show ?case using Nil(1) by (auto intro!: advance_0I)
next
  case (Cons i r)
  note core = Cons.prems(1) and inv = Cons.prems(2)
  have D6: "6 \<in> D" "(6 :: nat) = 6 \<or> 8 < (6 :: nat)" "4 \<le> (6 :: nat)" using schedD(2) [OF inv] by simp_all
  have ne: "\<not> list_empty k 6" using sched_empty [OF inv D6(1)] Cons.prems(3) by simp
  obtain t where t: "i = 2 * t + 1" "t \<in> T" "t \<noteq> 0" "listGET_OWNER_OF_HEAD_ENTRY 6 (lists k) = t" "container (lists k) (2 * t + 1) = Some 6"
    by (rule event_head [OF inv D6(1,2) Cons.prems(3)]) (rule that)
  obtain m where m: "container (lists k) (2 * t) = Some m" "m \<noteq> 6" by (rule waiter_state [OF core t(5) D6(2)]) (rule that)
  obtain s1 s2 xs' ix' where r1: "on_lists_opt (listREMOVE_ITEM (2 * t + 1)) k = Some (k\<lparr>lists := s1\<rparr>)"
    and r2: "on_lists_opt (listREMOVE_ITEM (2 * t)) (k\<lparr>lists := s1\<rparr>) = Some (k\<lparr>lists := s2\<rparr>)"
    and inv': "sched (prvAddTaskToReadyList t (k\<lparr>lists := s2\<rparr>)) D T xs' ix'" and xl: "xs' 6 = remove1 (2 * t + 1) (xs 6)"
    and nr: "now_ready t k (prvAddTaskToReadyList t (k\<lparr>lists := s2\<rparr>))"
    by (rule ready_item [OF inv t(2,5) m D6(3)]) (rule that)
  let ?k1 = "prvAddTaskToReadyList t (k\<lparr>lists := s2\<rparr>)"
  have "container (lists k) (2 * t + 1) \<noteq> None" using t(5) by simp
  note f = now_ready_core [OF core inv' nr t(2) this]
  note d = now_readyD [OF nr]
  let ?h = "priority_of k (pxCurrentTCB k) < priority_of k t"
  let ?k2 = "if ?h then ?k1\<lparr>xYieldPending := True\<rparr> else ?k1"
  have x: "move_pending prev k = move_pending t ?k2"
    using ne t(4) r1 r2 d(3,4) by (subst move_pending.simps) (simp add: Let_def)
  have xs': "xs' 6 = r" using xl Cons.prems(3) t(1) by simp
  have k2: "kcore D T ?k2" "sched ?k2 D T xs' ix'" "advance T 0 k ?k2" "still_ready T k ?k2"
    "same_rest k ?k2" using f inv' d by (simp_all add: same_rest_def)
  have top: "top_or_yield T k \<longrightarrow> top_or_yield T ?k2"
    using f(5) d(3,4,13) by (auto simp: top_or_yield_def top_runs_def)
  from Cons.IH [OF k2(1,2) xs', of t] obtain t' k' where
    IH: "move_pending t ?k2 = Some (t', k')" "kcore D T k'" "no_pending k'" "advance T 0 ?k2 k'" "still_ready T ?k2 k'"
      "same_rest ?k2 k'" "top_or_yield T ?k2 \<longrightarrow> top_or_yield T k'"
      "\<forall>u\<in>T. container (lists ?k2) (2 * u + 1) = Some 6 \<longrightarrow> ready k' u" by blast
  have pend: "ready k' u" if u: "u \<in> T" "container (lists k) (2 * u + 1) = Some 6" for u
  proof (cases "u = t")
    case True
    then have "ready ?k2 u" using f(5) [of u] by simp
    with IH(5) u(1) show ?thesis by (simp add: still_ready_def)
  next
    case False
    then have "container (lists ?k2) (2 * u + 1) = Some 6"
      using d(1) [of "2 * u + 1"] u(2) odd_ne(2) [of u t] by simp
    with IH(8) u(1) show ?thesis by blast
  qed
  show ?case
  proof (intro exI [of _ t'] exI [of _ k'] conjI)
    show "move_pending prev k = Some (t', k')" using x IH(1) by simp
    show "advance T 0 k k'" by (rule advance_0_trans [OF k2(3) IH(4,5)])
    show "still_ready T k k'" by (rule still_ready_trans [OF k2(4) IH(5)])
    show "same_rest k k'" by (rule same_rest_trans [OF k2(5) IH(6)])
  qed (use IH(2,3,7) top pend in blast)+
qed

section \<open>Resuming\<close>

lemma kcore_fields [simp]:
  "kcore D T (k\<lparr>uxSchedulerSuspended := n\<rparr>) = kcore D T k" "kcore D T (k\<lparr>xPendedTicks := m\<rparr>) = kcore D T k"
  by (simp_all add: kcore_def on_time_def waits_ok_def idle_ready_def stack_intact_def ready_def)

lemma field_simps [simp]:
  "advance T i (k\<lparr>uxSchedulerSuspended := n\<rparr>) k' = advance T i k k'" "advance T i k (k'\<lparr>uxSchedulerSuspended := n\<rparr>) = advance T i k k'"
  "advance T i k (k'\<lparr>xPendedTicks := m\<rparr>) = advance T i k k'" "ready (k\<lparr>uxSchedulerSuspended := n\<rparr>) = ready k"
  "ready (k\<lparr>xPendedTicks := m\<rparr>) = ready k"
  "still_ready T (k\<lparr>uxSchedulerSuspended := n\<rparr>) k' = still_ready T k k'" "still_ready T k (k'\<lparr>uxSchedulerSuspended := n\<rparr>) = still_ready T k k'"
  "still_ready T k (k'\<lparr>xPendedTicks := m\<rparr>) = still_ready T k k'"
  "top_runs T (k\<lparr>uxSchedulerSuspended := n\<rparr>) = top_runs T k" "top_runs T (k\<lparr>xPendedTicks := m\<rparr>) = top_runs T k"
  "top_or_yield T (k\<lparr>uxSchedulerSuspended := n\<rparr>) = top_or_yield T k" "top_or_yield T (k\<lparr>xPendedTicks := m\<rparr>) = top_or_yield T k"
  "no_pending (k\<lparr>uxSchedulerSuspended := n\<rparr>) = no_pending k" "no_pending (k\<lparr>xPendedTicks := m\<rparr>) = no_pending k"
  by (simp_all add: advance_def still_ready_def naps_def ready_def fun_eq_iff no_pending_def top_runs_def top_or_yield_def)

lemma kcore_reset_next:
  assumes core: "kcore D T k"
  shows "kcore D T (prvResetNextTaskUnblockTime k)" and "same_tasks k (prvResetNextTaskUnblockTime k)"
    and "same_rest k (prvResetNextTaskUnblockTime k)" and "xYieldPending (prvResetNextTaskUnblockTime k) = xYieldPending k"
proof -
  obtain xs ix where inv: "sched k D T xs ix" by (rule kcoreE [OF core])
  obtain n where r: "prvResetNextTaskUnblockTime k = k\<lparr>xNextTaskUnblockTime := n\<rparr>" using sched_reset_next(2) [OF inv] by blast
  have inv': "sched (k\<lparr>xNextTaskUnblockTime := n\<rparr>) D T xs ix" using sched_reset_next(1) [OF inv] r by simp
  show "kcore D T (prvResetNextTaskUnblockTime k)" unfolding r
    by (rule kcoreI [OF inv']) (use kcoreD(1-5) [OF core] in \<open>simp_all add: on_time_def waits_ok_def idle_ready_def ready_def stack_intact_def\<close>)
  show "same_tasks k (prvResetNextTaskUnblockTime k)" "same_rest k (prvResetNextTaskUnblockTime k)"
    "xYieldPending (prvResetNextTaskUnblockTime k) = xYieldPending k"
    unfolding r by (simp_all add: same_tasks_def same_rest_def)
qed

lemma top_same_tasks:
  "same_tasks k k' \<Longrightarrow> pxCurrentTCB k' = pxCurrentTCB k \<Longrightarrow> top_runs T k' = top_runs T k"
  by (simp add: top_runs_def same_tasksD)

text \<open>
  The outermost resume: nothing is left pending, the ticks held back count in full, and unless it yielded, the running
  task runs on.
\<close>

lemma resume_core:
  assumes core: "kcore D T k" and one: "uxSchedulerSuspended k = 1" and top: "top_or_yield T k"
  obtains y k' where "xTaskResumeAll k = Some (y, k')" and "kcore D T k'" and "uxSchedulerSuspended k' = 0"
    and "no_pending k'" and "xPendedTicks k' = 0" and "advance T (unat (xPendedTicks k)) k k'" and "still_ready T k k'"
    and "top_runs T k'" and "y \<Longrightarrow> ready k' (pxCurrentTCB k')" and "\<not> y \<Longrightarrow> pxCurrentTCB k' = pxCurrentTCB k"
    and "tcbs k' = tcbs k" and "xIdleTaskHandle k' = xIdleTaskHandle k" and "xTickCount k' = xTickCount k + xPendedTicks k"
    and "\<And>u. u \<in> T \<Longrightarrow> container (lists k) (2 * u + 1) = Some 6 \<Longrightarrow> ready k' u"
proof -
  let ?k1 = "k\<lparr>uxSchedulerSuspended := uxSchedulerSuspended k - 1\<rparr>" and ?n = "unat (xPendedTicks k)"
  have core1: "kcore D T ?k1" using core by simp
  obtain xs ix where inv1: "sched ?k1 D T xs ix" by (rule kcoreE [OF core1])
  from move_pending_core [OF core1 inv1 refl, of 0] obtain t k2 where
    k2: "move_pending 0 ?k1 = Some (t, k2)" "kcore D T k2" "no_pending k2" "advance T 0 k k2" "still_ready T k k2"
      "same_rest ?k1 k2" "top_or_yield T k2"
      "\<forall>u\<in>T. container (lists k) (2 * u + 1) = Some 6 \<longrightarrow> ready k2 u" using top by auto
  define k3 where "k3 = (if t \<noteq> 0 then prvResetNextTaskUnblockTime k2 else k2)"
  have st: "same_tasks k2 k3" using kcore_reset_next(2) [OF k2(2)] by (simp add: k3_def same_tasks_def)
  have k3: "kcore D T k3" "same_rest ?k1 k3"
    using kcore_reset_next [OF k2(2)] k2(2,6) by (auto simp: k3_def intro: same_rest_trans)
  have yp: "xYieldPending k3 = xYieldPending k2" "pxCurrentTCB k3 = pxCurrentTCB k2"
    using kcore_reset_next(3,4) [OF k2(2)] by (simp_all add: k3_def same_rest_def)
  have s3: "no_pending k3" "advance T 0 k k3" "still_ready T k k3" "top_or_yield T k3"
  proof -
    show "no_pending k3" using kframe_same_tasks [OF st] k2(3) by simp
    show "advance T 0 k k3" by (rule advance_0_trans [OF k2(4) same_tasks_advance [OF st]])
    show "still_ready T k k3" by (rule still_ready_trans [OF k2(5) same_tasks_advance(2) [OF st]])
    show "top_or_yield T k3" using k2(7) yp top_same_tasks [OF st] by (simp add: top_or_yield_def)
  qed
  have f3: "uxSchedulerSuspended k3 = 0" "xPendedTicks k3 = xPendedTicks k" "pxCurrentTCB k3 = pxCurrentTCB k"
    "tcbs k3 = tcbs k" "xIdleTaskHandle k3 = xIdleTaskHandle k" "xTickCount k3 = xTickCount k"
    using k3(2) one by (simp_all add: same_rest_def)
  from pended_core [OF k3(1) f3(1), of ?n] obtain k4 where
    k4: "pended_ticks ?n k3 = Some k4" "kcore D T k4" "advance T ?n k3 k4" "still_ready T k3 k4" "kframe k3 k4"
      "xTickCount k4 = xTickCount k3 + of_nat ?n" "top_or_yield T k4" using s3(4) by blast
  note kf = kframeD [OF k4(5)]
  define k5 where "k5 = k4\<lparr>xPendedTicks := 0\<rparr>"
  have p5: "(if 0 < xPendedTicks k3 then map_option (\<lambda>k'. k'\<lparr>xPendedTicks := 0\<rparr>) (pended_ticks (unat (xPendedTicks k3)) k3)
      else Some k3) = Some k5"
  proof (cases "0 < xPendedTicks k3")
    case True
    then show ?thesis using k4(1) f3(2) by (simp add: k5_def)
  next
    case False
    then have z: "xPendedTicks k3 = 0" "?n = 0" using f3(2) by (simp_all add: word_gt_0)
    then have "k4 = k3" using k4(1) by simp
    with z have "k5 = k3" by (simp add: k5_def)
    with False show ?thesis by simp
  qed
  have adv: "advance T ?n k k5" using advance_trans [OF s3(2) k4(3,4)] by (simp add: k5_def)
  have str: "still_ready T k k5" using still_ready_trans [OF s3(3) k4(4)] by (simp add: k5_def)
  have pend: "ready k5 u" if u: "u \<in> T" "container (lists k) (2 * u + 1) = Some 6" for u
  proof -
    have "ready k2 u" using k2(8) u by blast
    then have "ready k3 u" using same_tasksD(8) [OF st] by simp
    then have "ready k4 u" using k4(4) u(1) by (simp add: still_ready_def)
    then show ?thesis by (simp add: k5_def)
  qed
  have core5: "kcore D T k5" using k4(2) by (simp add: k5_def)
  have f5: "uxSchedulerSuspended k5 = 0" "no_pending k5" "xPendedTicks k5 = 0" "pxCurrentTCB k5 = pxCurrentTCB k"
    "tcbs k5 = tcbs k" "xIdleTaskHandle k5 = xIdleTaskHandle k" "xTickCount k5 = xTickCount k + xPendedTicks k"
    using kf s3(1) f3 k4(6) by (simp_all add: k5_def)
  have t5: "top_or_yield T k5" using k4(7) by (simp add: k5_def)
  have unf: "xTaskResumeAll k = (if xYieldPending k5 then map_option (\<lambda>k6. (True, k6)) (vTaskSwitchContext k5) else Some (False, k5))"
  proof (cases "t = 0")
    case True
    then have "k3 = k2" by (simp add: k3_def)
    then show ?thesis using one kcoreD(5) [OF core] k2(1) p5 True
      by (simp add: xTaskResumeAll_def Let_def cong: if_cong)
  next
    case False
    then have "k3 = prvResetNextTaskUnblockTime k2" by (simp add: k3_def)
    then show ?thesis using one kcoreD(5) [OF core] k2(1) p5 False
      by (simp add: xTaskResumeAll_def Let_def cong: if_cong)
  qed
  show thesis
  proof (cases "xYieldPending k5")
    case False
    have r: "xTaskResumeAll k = Some (False, k5)" using unf False by simp
    show thesis by (rule that [OF r core5]) (use f5 adv str t5 False pend in \<open>simp_all add: top_or_yield_def\<close>)
  next
    case True
    obtain k6 where k6: "vTaskSwitchContext k5 = Some k6" "kcore D T k6" "same_tasks k5 k6" "ready k6 (pxCurrentTCB k6)"
      "top_runs T k6" "uxSchedulerSuspended k6 = 0" "xPendedTicks k6 = xPendedTicks k5" "xIdleTaskHandle k6 = xIdleTaskHandle k5"
      by (rule switch_core [OF core5 f5(1)]) (rule that)
    have r: "xTaskResumeAll k = Some (True, k6)" using unf True k6(1) by simp
    show thesis
    proof (rule that [OF r k6(2,6)])
      show "no_pending k6" using kframe_same_tasks [OF k6(3)] f5(2) by simp
      show "advance T ?n k k6" using advance_trans [OF adv same_tasks_advance [OF k6(3)]] by simp
      show "still_ready T k k6" by (rule still_ready_trans [OF str same_tasks_advance(2) [OF k6(3)]])
      show "ready k6 u" if "u \<in> T" "container (lists k) (2 * u + 1) = Some 6" for u
        using pend [OF that] same_tasksD(8) [OF k6(3)] by simp
    qed (use k6 f5 same_tasksD(3,4) [OF k6(3)] in simp_all)
  qed
qed

end
