(* ===== verification/Rtos_Task_Api.thy ===== *)
theory Rtos_Task_Api
  imports Rtos_Task
begin

text \<open>
  The operations of \<open>tasks.c\<close> that tasks call: creating, deleting, suspending and resuming tasks, their
  priorities, the idle task, and queries. Memory comes from the heap of \<open>Rtos_Heap\<close>, with the
  scheduler suspended around it as \<open>heap_4.c\<close> does. The initial stack frame is the one that
  \<open>portASM.S\<close> writes. A call is followed to its end: a switch to another task inside the two
  allocations of \<open>xTaskCreate\<close> appears as a change of \<open>pxCurrentTCB\<close> before the rest of the call.
\<close>

section \<open>Allocation from a task\<close>

definition task_malloc :: "layout \<Rightarrow> u32 \<Rightarrow> 'a kernel_scheme \<Rightarrow> (u32 \<times> 'a kernel_scheme) option" where
  "task_malloc L w k = do {
     (pv, h) \<leftarrow> malloc_locked L (required_size w) (k_heap k);
     (_, k1) \<leftarrow> xTaskResumeAll ((vTaskSuspendAll k)\<lparr>k_heap := h\<rparr>);
     if pv \<noteq> 0 \<and> pv AND portBYTE_ALIGNMENT_MASK = 0 then Some (pv, k1) else None
   }"

definition task_free :: "layout \<Rightarrow> u32 \<Rightarrow> 'a kernel_scheme \<Rightarrow> 'a kernel_scheme option" where
  "task_free L pv k =
     (if pv = 0 then Some k
      else do {
        h \<leftarrow> vPortFree L pv (k_heap k);
        (_, k1) \<leftarrow> xTaskResumeAll ((vTaskSuspendAll k)\<lparr>k_heap := h\<rparr>);
        Some k1
      })"

section \<open>Creation\<close>

text \<open>\<open>pxPortInitialiseStack\<close> for RV32I without chip-specific registers; the return address is 0.\<close>

definition pxPortInitialiseStack :: "u32 \<Rightarrow> u32 \<Rightarrow> u32 \<Rightarrow> u32 \<Rightarrow> memory \<Rightarrow> u32 \<times> memory" where
  "pxPortInitialiseStack mstatus tos code param m =
     (let m1 = store_bytes (tos - 4) (le32 ((mstatus AND NOT 8) OR 0x1880)) m;
          m2 = store_bytes (tos - 8) (le32 0) m1;
          m3 = store_bytes (tos - 96) (le32 param) m2;
          m4 = store_bytes (tos - 120) (le32 0) m3;
          m5 = store_bytes (tos - 124) (le32 code) m4
      in (tos - 124, m5))"

abbreviation configMAX_TASK_NAME_LEN :: nat where "configMAX_TASK_NAME_LEN \<equiv> 8"

text \<open>\<open>sizeof(TCB_t)\<close> and \<open>sizeof(StackType_t)\<close> of the 32-bit ABI.\<close>

abbreviation sizeof_TCB :: u32 where "sizeof_TCB \<equiv> 60"
abbreviation sizeof_StackType :: u32 where "sizeof_StackType \<equiv> 4"

definition task_name :: "cstring \<Rightarrow> u8 list \<Rightarrow> u8 list" where
  "task_name s old =
     (let bs = take configMAX_TASK_NAME_LEN (s @ [0])
      in (bs @ drop (length bs) old)[configMAX_TASK_NAME_LEN - 1 := 0])"

text \<open>What \<open>memset\<close> leaves of a list item: its links are written before they are read.\<close>

definition zero_item :: "nat \<Rightarrow> store \<Rightarrow> store" where
  "zero_item i = upd_node (Item i) (\<lambda>x. x\<lparr>xItemValue := 0, pvOwner := 0, pxContainer := None\<rparr>)"

definition prvInitialiseNewTask ::
    "u32 \<Rightarrow> u32 \<Rightarrow> cstring option \<Rightarrow> u32 \<Rightarrow> u32 \<Rightarrow> u32 \<Rightarrow> nat \<Rightarrow> 'a kernel_scheme \<Rightarrow> 'a kernel_scheme option" where
  "prvInitialiseNewTask mstatus code name depth param prio t k =
     (let stack = pxStack (tcbs k t);
          m1 = store_bytes stack (replicate (unat (depth * sizeof_StackType)) 0xA5) (k_mem k);
          tos = (stack + sizeof_StackType * (depth - 1)) AND NOT portBYTE_ALIGNMENT_MASK
      in if \<not> prio < configMAX_PRIORITIES then None
      else
        let nm = (case name of None \<Rightarrow> pcTaskName (tcbs k t) | Some s \<Rightarrow> task_name s (pcTaskName (tcbs k t)));
            k1 = on_lists (vListInitialiseItem (xStateListItem t)) k;
            k2 = on_lists (vListInitialiseItem (xEventListItem t)) k1;
            k3 = on_lists (listSET_LIST_ITEM_OWNER (xStateListItem t) t) k2;
            k4 = on_lists (listSET_LIST_ITEM_VALUE (xEventListItem t) (configMAX_PRIORITIES - prio)) k3;
            k5 = on_lists (listSET_LIST_ITEM_OWNER (xEventListItem t) t) k4;
            (sp, m2) = pxPortInitialiseStack mstatus tos code param m1
        in Some (k5\<lparr>k_mem := m2,
             tcbs := (tcbs k5)(t := \<lparr>pxTopOfStack = sp, uxPriority = prio, pxStack = stack, pcTaskName = nm\<rparr>)\<rparr>))"

definition prvCreateTask ::
    "layout \<Rightarrow> u32 \<Rightarrow> u32 \<Rightarrow> cstring option \<Rightarrow> u32 \<Rightarrow> u32 \<Rightarrow> u32 \<Rightarrow> 'a kernel_scheme \<Rightarrow> (nat \<times> 'a kernel_scheme) option" where
  "prvCreateTask L mstatus code name depth param prio k = do {
     (stack, k1) \<leftarrow> task_malloc L (depth * sizeof_StackType) k;
     if stack \<noteq> 0 then do {
       (pv, k2) \<leftarrow> task_malloc L sizeof_TCB k1;
       if pv \<noteq> 0 then
         let t = unat pv;
             k3 = on_lists (zero_item (xStateListItem t)) k2;
             k4 = on_lists (zero_item (xEventListItem t)) k3;
             k5 = k4\<lparr>tcbs := (tcbs k4)(t := \<lparr>pxTopOfStack = 0, uxPriority = 0, pxStack = stack,
                    pcTaskName = replicate configMAX_TASK_NAME_LEN 0\<rparr>)\<rparr>
         in map_option (\<lambda>k6. (t, k6)) (prvInitialiseNewTask mstatus code name depth param prio t k5)
       else map_option (\<lambda>k3. (0, k3)) (task_free L stack k2)
     }
     else Some (0, k1)
   }"

definition prvInitialiseTaskLists :: "'a kernel_scheme \<Rightarrow> 'a kernel_scheme" where
  "prvInitialiseTaskLists k =
     (let k1 = foldl (\<lambda>k p. on_lists (vListInitialise (pxReadyTasksLists p)) k) k [0, 1, 2, 3];
          k2 = on_lists (vListInitialise xDelayedTaskList1) k1;
          k3 = on_lists (vListInitialise xDelayedTaskList2) k2;
          k4 = on_lists (vListInitialise xPendingReadyList) k3;
          k5 = on_lists (vListInitialise xTasksWaitingTermination) k4;
          k6 = on_lists (vListInitialise xSuspendedTaskList) k5
      in k6\<lparr>pxDelayedTaskList := xDelayedTaskList1, pxOverflowDelayedTaskList := xDelayedTaskList2\<rparr>)"

definition prvAddNewTaskToReadyList :: "nat \<Rightarrow> 'a kernel_scheme \<Rightarrow> 'a kernel_scheme option" where
  "prvAddNewTaskToReadyList t k =
     (let k1 = k\<lparr>uxCurrentNumberOfTasks := uxCurrentNumberOfTasks k + 1\<rparr>;
          k2 = (if pxCurrentTCB k1 = 0 then
                  let k' = k1\<lparr>pxCurrentTCB := t\<rparr>
                  in if uxCurrentNumberOfTasks k' = 1 then prvInitialiseTaskLists k' else k'
                else if \<not> xSchedulerRunning k1 \<and> priority_of k1 (pxCurrentTCB k1) \<le> priority_of k1 t
                then k1\<lparr>pxCurrentTCB := t\<rparr> else k1);
          k3 = prvAddTaskToReadyList t (k2\<lparr>uxTaskNumber := uxTaskNumber k2 + 1\<rparr>)
      in if xSchedulerRunning k3 then taskYIELD_ANY_CORE_IF_USING_PREEMPTION t k3 else Some k3)"

text \<open>The result is the handle, 0 when there is no memory.\<close>

definition xTaskCreate ::
    "layout \<Rightarrow> u32 \<Rightarrow> u32 \<Rightarrow> cstring option \<Rightarrow> u32 \<Rightarrow> u32 \<Rightarrow> u32 \<Rightarrow> 'a kernel_scheme \<Rightarrow> (nat \<times> 'a kernel_scheme) option" where
  "xTaskCreate L mstatus code name depth param prio k = do {
     (t, k1) \<leftarrow> prvCreateTask L mstatus code name depth param prio k;
     if t \<noteq> 0 then map_option (\<lambda>k2. (t, k2)) (prvAddNewTaskToReadyList t k1) else Some (0, k1)
   }"

section \<open>Deletion and the idle task\<close>

definition prvDeleteTCB :: "layout \<Rightarrow> nat \<Rightarrow> 'a kernel_scheme \<Rightarrow> 'a kernel_scheme option" where
  "prvDeleteTCB L t k =
     Option.bind (task_free L (pxStack (tcbs k t)) k) (task_free L (of_nat t))"

text \<open>Taking a task off its state list and, if it waits for an event, off that list.\<close>

definition unlist_task :: "nat \<Rightarrow> 'a kernel_scheme \<Rightarrow> 'a kernel_scheme option" where
  "unlist_task t k = do {
     k1 \<leftarrow> on_lists_opt (\<lambda>s. map_option snd (uxListRemove (xStateListItem t) s)) k;
     if listLIST_ITEM_CONTAINER (xEventListItem t) (lists k1) \<noteq> None
     then on_lists_opt (\<lambda>s. map_option snd (uxListRemove (xEventListItem t) s)) k1 else Some k1
   }"

definition vTaskDelete :: "layout \<Rightarrow> nat \<Rightarrow> 'a kernel_scheme \<Rightarrow> 'a kernel_scheme option" where
  "vTaskDelete L h k =
     (let t = prvGetTCBFromHandle k h in
      if t = 0 then None
      else do {
        k1 \<leftarrow> unlist_task t k;
        let k2 = k1\<lparr>uxTaskNumber := uxTaskNumber k1 + 1\<rparr>;
        let in_idle = (xSchedulerRunning k2 \<and> t = pxCurrentTCB k2);
        let k3 = (if in_idle then
                    (on_lists (vListInsertEnd xTasksWaitingTermination (xStateListItem t)) k2)
                      \<lparr>uxDeletedTasksWaitingCleanUp := uxDeletedTasksWaitingCleanUp k2 + 1\<rparr>
                  else prvResetNextTaskUnblockTime
                    (k2\<lparr>uxCurrentNumberOfTasks := uxCurrentNumberOfTasks k2 - 1\<rparr>));
        k4 \<leftarrow> (if \<not> in_idle then prvDeleteTCB L t k3 else Some k3);
        if xSchedulerRunning k4 \<and> t = pxCurrentTCB k4
        then if uxSchedulerSuspended k4 = 0 then portYIELD_WITHIN_API k4 else None
        else Some k4
      })"

partial_function (option) prvCheckTasksWaitingTermination :: "layout \<Rightarrow> 'a kernel_scheme \<Rightarrow> 'a kernel_scheme option" where
  "prvCheckTasksWaitingTermination L k =
     (if 0 < uxDeletedTasksWaitingCleanUp k then
        let t = listGET_OWNER_OF_HEAD_ENTRY xTasksWaitingTermination (lists k)
        in Option.bind (on_lists_opt (\<lambda>s. map_option snd (uxListRemove (xStateListItem t) s)) k) (\<lambda>k1.
             Option.bind (prvDeleteTCB L t
                 (k1\<lparr>uxCurrentNumberOfTasks := uxCurrentNumberOfTasks k1 - 1,
                     uxDeletedTasksWaitingCleanUp := uxDeletedTasksWaitingCleanUp k1 - 1\<rparr>))
               (prvCheckTasksWaitingTermination L))
      else Some k)"

text \<open>One turn of the idle task's loop.\<close>

definition prvIdleTask_turn :: "layout \<Rightarrow> 'a kernel_scheme \<Rightarrow> 'a kernel_scheme option" where
  "prvIdleTask_turn L k = do {
     k1 \<leftarrow> prvCheckTasksWaitingTermination L k;
     if 1 < listCURRENT_LIST_LENGTH (pxReadyTasksLists 0) (lists k1) then vTaskSwitchContext k1 else Some k1
   }"

section \<open>Suspending and resuming tasks\<close>

definition vTaskSuspend :: "nat \<Rightarrow> 'a kernel_scheme \<Rightarrow> 'a kernel_scheme option" where
  "vTaskSuspend h k =
     (let t = prvGetTCBFromHandle k h in
      if t = 0 then None
      else do {
        k1 \<leftarrow> unlist_task t k;
        let k2 = on_lists (vListInsertEnd xSuspendedTaskList (xStateListItem t)) k1;
        let k3 = (if xSchedulerRunning k2 then prvResetNextTaskUnblockTime k2 else k2);
        if t = pxCurrentTCB k3 then
          if xSchedulerRunning k3 then if uxSchedulerSuspended k3 = 0 then portYIELD_WITHIN_API k3 else None
          else if listCURRENT_LIST_LENGTH xSuspendedTaskList (lists k3) = uxCurrentNumberOfTasks k3
          then Some (k3\<lparr>pxCurrentTCB := 0\<rparr>) else vTaskSwitchContext k3
        else Some k3
      })"

definition prvTaskIsTaskSuspended :: "'a kernel_scheme \<Rightarrow> nat \<Rightarrow> bool" where
  "prvTaskIsTaskSuspended k t \<longleftrightarrow>
     listIS_CONTAINED_WITHIN xSuspendedTaskList (xStateListItem t) (lists k) \<and>
     \<not> listIS_CONTAINED_WITHIN xPendingReadyList (xEventListItem t) (lists k) \<and>
     listLIST_ITEM_CONTAINER (xEventListItem t) (lists k) = None"

definition vTaskResume :: "nat \<Rightarrow> 'a kernel_scheme \<Rightarrow> 'a kernel_scheme option" where
  "vTaskResume t k =
     (if t = 0 then None
      else if t \<noteq> pxCurrentTCB k \<and> prvTaskIsTaskSuspended k t then do {
        k1 \<leftarrow> on_lists_opt (\<lambda>s. map_option snd (uxListRemove (xStateListItem t) s)) k;
        taskYIELD_ANY_CORE_IF_USING_PREEMPTION t (prvAddTaskToReadyList t k1)
      }
      else Some k)"

section \<open>Priorities\<close>

definition uxTaskPriorityGet :: "'a kernel_scheme \<Rightarrow> nat \<Rightarrow> u32 option" where
  "uxTaskPriorityGet k h =
     (let t = prvGetTCBFromHandle k h in if t \<noteq> 0 then Some (priority_of k t) else None)"

definition uxTaskPriorityGetFromISR :: "'a kernel_scheme \<Rightarrow> nat \<Rightarrow> u32 option" where
  "uxTaskPriorityGetFromISR k h =
     (let t = prvGetTCBFromHandle k h in if t \<noteq> 0 then Some (priority_of k t) else None)"

definition vTaskPrioritySet :: "nat \<Rightarrow> u32 \<Rightarrow> 'a kernel_scheme \<Rightarrow> 'a kernel_scheme option" where
  "vTaskPrioritySet h new k =
     (let t = prvGetTCBFromHandle k h in
      if \<not> new < configMAX_PRIORITIES \<or> t = 0 then None
      else if priority_of k t = new then Some k
      else
        let base = priority_of k t;
            yield_required = (if base < new then t \<noteq> pxCurrentTCB k \<and> priority_of k (pxCurrentTCB k) < new
                              else t = pxCurrentTCB k);
            k1 = k\<lparr>tcbs := (tcbs k)(t := (tcbs k t)\<lparr>uxPriority := new\<rparr>)\<rparr>;
            k2 = (if listGET_LIST_ITEM_VALUE (xEventListItem t) (lists k1) AND taskEVENT_LIST_ITEM_VALUE_IN_USE = 0
                  then on_lists (listSET_LIST_ITEM_VALUE (xEventListItem t) (configMAX_PRIORITIES - new)) k1
                  else k1)
        in do {
          k3 \<leftarrow> (if listIS_CONTAINED_WITHIN (pxReadyTasksLists base) (xStateListItem t) (lists k2)
                 then map_option (prvAddTaskToReadyList t)
                        (on_lists_opt (\<lambda>s. map_option snd (uxListRemove (xStateListItem t) s)) k2)
                 else Some k2);
          if yield_required then portYIELD_WITHIN_API k3 else Some k3
        })"

section \<open>Queries and reset\<close>

definition xTaskGetTickCount :: "'a kernel_scheme \<Rightarrow> u32" where "xTaskGetTickCount k = xTickCount k"

definition xTaskGetTickCountFromISR :: "'a kernel_scheme \<Rightarrow> u32" where
  "xTaskGetTickCountFromISR k = xTickCount k"

definition uxTaskGetNumberOfTasks :: "'a kernel_scheme \<Rightarrow> u32" where
  "uxTaskGetNumberOfTasks k = uxCurrentNumberOfTasks k"

definition pcTaskGetName :: "'a kernel_scheme \<Rightarrow> nat \<Rightarrow> u8 list option" where
  "pcTaskGetName k h =
     (let t = prvGetTCBFromHandle k h in if t \<noteq> 0 then Some (pcTaskName (tcbs k t)) else None)"

datatype scheduler_state = taskSCHEDULER_SUSPENDED | taskSCHEDULER_NOT_STARTED | taskSCHEDULER_RUNNING

definition xTaskGetSchedulerState :: "'a kernel_scheme \<Rightarrow> scheduler_state" where
  "xTaskGetSchedulerState k =
     (if \<not> xSchedulerRunning k then taskSCHEDULER_NOT_STARTED
      else if uxSchedulerSuspended k = 0 then taskSCHEDULER_RUNNING else taskSCHEDULER_SUSPENDED)"

definition vTaskResetState :: "'a kernel_scheme \<Rightarrow> 'a kernel_scheme" where
  "vTaskResetState k =
     k\<lparr>pxCurrentTCB := 0, uxDeletedTasksWaitingCleanUp := 0, uxCurrentNumberOfTasks := 0, xTickCount := 0,
       uxTopReadyPriority := 0, xSchedulerRunning := False, xPendedTicks := 0, xYieldPending := False,
       xNumOfOverflows := 0, uxTaskNumber := 0, xNextTaskUnblockTime := 0, uxSchedulerSuspended := 0\<rparr>"

end
