(* ===== verification/Rtos_Control.thy ===== *)
theory Rtos_Control
  imports Rtos_Resume Rtos_Task_Api
begin

text \<open>
  Tasks that act on tasks: \<open>vTaskSuspend\<close>, \<open>vTaskResume\<close> and \<open>vTaskPrioritySet\<close>, called with the scheduler
  running, and what they do to the scheduler's invariant.
\<close>

section \<open>Suspending a task\<close>

text \<open>The state item goes to the list of suspended tasks, the event item off its list.\<close>

definition now_suspended :: "nat \<Rightarrow> 'a kernel_scheme \<Rightarrow> store \<Rightarrow> bool" where
  "now_suspended t k s \<longleftrightarrow> same_data (lists k) s \<and>
     (\<forall>j. container s j = (if j = 2 * t then Some 8 else if j = 2 * t + 1 then None else container (lists k) j))"

lemma unlist_sched:
  assumes inv: "sched k D T xs ix" and c: "container (lists k) (2 * t) = Some m"
  obtains s xs' ix' where "unlist_task t k = Some (k\<lparr>lists := s\<rparr>)" and "sched (k\<lparr>lists := s\<rparr>) D T xs' ix'"
    and "same_data (lists k) s"
    and "\<And>j. container s j = (if j = 2 * t \<or> j = 2 * t + 1 then None else container (lists k) j)"
proof -
  obtain s1 where r1: "uxListRemove (2 * t) (lists k) = Some (of_nat (length (xs m) - 1), s1)"
    and i1: "sched (k\<lparr>lists := s1\<rparr>) D T (xs(m := remove1 (2 * t) (xs m))) (ix(m := arem_index (2 * t) (xs m) (ix m)))"
    and d1: "same_data (lists k) s1" and c1: "\<And>j. container s1 j = (if j = 2 * t then None else container (lists k) j)"
    by (rule sched_remove [OF inv c]) (rule that)
  show thesis
  proof (cases "container s1 (2 * t + 1)")
    case None
    have "container s1 j = (if j = 2 * t \<or> j = 2 * t + 1 then None else container (lists k) j)" for j
      using c1 [of j] None by auto
    then show thesis
      using that [OF _ i1 d1] on_lists_opt_remove_snd [OF r1] None
      by (simp add: unlist_task_def listLIST_ITEM_CONTAINER_def)
  next
    case (Some l)
    then have c': "container (lists (k\<lparr>lists := s1\<rparr>)) (2 * t + 1) = Some l" by simp
    obtain n s2 xs2 ix2 where r2: "uxListRemove (2 * t + 1) (lists (k\<lparr>lists := s1\<rparr>)) = Some (n, s2)"
      and i2: "sched (k\<lparr>lists := s1\<rparr>\<lparr>lists := s2\<rparr>) D T xs2 ix2" and d2: "same_data (lists (k\<lparr>lists := s1\<rparr>)) s2"
      and c2: "\<And>j. container s2 j = (if j = 2 * t + 1 then None else container (lists (k\<lparr>lists := s1\<rparr>)) j)"
      by (rule sched_remove [OF i1 c']) (rule that)
    show thesis
    proof (rule that)
      show "unlist_task t k = Some (k\<lparr>lists := s2\<rparr>)"
        using on_lists_opt_remove_snd [OF r1] on_lists_opt_remove_snd [OF r2] Some
        by (simp add: unlist_task_def listLIST_ITEM_CONTAINER_def)
      show "sched (k\<lparr>lists := s2\<rparr>) D T xs2 ix2" using i2 by simp
      show "same_data (lists k) s2" using same_data_trans [OF d1] d2 by simp
      show "container s2 j = (if j = 2 * t \<or> j = 2 * t + 1 then None else container (lists k) j)" for j
        by (simp add: c2 c1)
    qed
  qed
qed

text \<open>The work of \<open>vTaskSuspend\<close> up to the yield.\<close>

definition suspended_state :: "nat \<Rightarrow> 'a kernel_scheme \<Rightarrow> 'a kernel_scheme \<Rightarrow> bool" where
  "suspended_state t k k' \<longleftrightarrow> (\<exists>k1. unlist_task t k = Some k1 \<and>
     k' = prvResetNextTaskUnblockTime (on_lists (vListInsertEnd xSuspendedTaskList (xStateListItem t)) k1))"

lemma vTaskSuspend_eq:
  assumes s: "suspended_state t k k1" and t: "t = prvGetTCBFromHandle k h" "t \<noteq> 0"
    and un: "uxSchedulerSuspended k1 = 0" and run: "xSchedulerRunning k1"
  shows "vTaskSuspend h k = (if t = pxCurrentTCB k1 then portYIELD_WITHIN_API k1 else Some k1)"
proof -
  obtain k0 where k0: "unlist_task t k = Some k0"
    "k1 = prvResetNextTaskUnblockTime (on_lists (vListInsertEnd xSuspendedTaskList (xStateListItem t)) k0)"
    using s unfolding suspended_state_def by blast
  let ?k = "on_lists (vListInsertEnd xSuspendedTaskList (xStateListItem t)) k0"
  have "xSchedulerRunning ?k" using run unfolding k0(2) by (simp add: prvResetNextTaskUnblockTime_def split: if_splits)
  then have "vTaskSuspend h k = (if t = pxCurrentTCB k1
      then if xSchedulerRunning k1 then if uxSchedulerSuspended k1 = 0 then portYIELD_WITHIN_API k1 else None
        else if listCURRENT_LIST_LENGTH xSuspendedTaskList (lists k1) = uxCurrentNumberOfTasks k1
          then Some (k1\<lparr>pxCurrentTCB := 0\<rparr>) else vTaskSwitchContext k1
      else Some k1)"
    using t(2) k0(1) unfolding vTaskSuspend_def Let_def t(1) [symmetric] k0(2) by simp
  with un run show ?thesis by simp
qed

lemma suspend_core:
  assumes core: "kcore D T k" and t: "t \<in> T" "t \<noteq> xIdleTaskHandle k" and c: "container (lists k) (2 * t) \<noteq> None"
  obtains k' where "suspended_state t k k'" and "kcore D T k'" and "kframe k k'" and "advance (T - {t}) 0 k k'"
    and "\<And>u. ready k' u \<longleftrightarrow> ready k u \<and> u \<noteq> t" and "xTickCount k' = xTickCount k"
    and "xSchedulerRunning k' = xSchedulerRunning k"
proof -
  obtain xs ix where inv: "sched k D T xs ix" by (rule kcoreE [OF core])
  obtain m where m: "container (lists k) (2 * t) = Some m" using c by blast
  obtain s xs1 ix1 where u: "unlist_task t k = Some (k\<lparr>lists := s\<rparr>)" and i1: "sched (k\<lparr>lists := s\<rparr>) D T xs1 ix1"
    and d1: "same_data (lists k) s" and c1: "\<And>j. container s j = (if j = 2 * t \<or> j = 2 * t + 1 then None else container (lists k) j)"
    by (rule unlist_sched [OF inv m]) (rule that)
  let ?s = "vListInsertEnd 8 (2 * t) s"
  let ?k = "k\<lparr>lists := ?s\<rparr>"
  have l: "8 \<in> D" "(8 :: nat) \<noteq> 4" "(8 :: nat) \<noteq> 5" "2 * t div 2 \<in> T" "container (lists (k\<lparr>lists := s\<rparr>)) (2 * t) = None"
    "fits (priority_of (k\<lparr>lists := s\<rparr>)) 8 (2 * t)"
    using schedD(2) [OF inv, of 8] t c1 by (simp_all add: fits_def)
  note ins = sched_insert_end [OF i1 l, simplified]
  have i2: "sched ?k D T (xs1(8 := ains_end (2 * t) (xs1 8) (ix1 8))) ix1" using ins(1) by simp
  have d2: "same_data (lists k) ?s" by (rule same_data_trans [OF d1 ins(2)])
  have con: "container ?s j = (if j = 2 * t then Some 8 else if j = 2 * t + 1 then None else container (lists k) j)" for j
    using ins(3) [of j] c1 [of j] by simp
  have even: "container ?s (2 * u) = (if u = t then Some 8 else container (lists k) (2 * u))"
    and odd: "container ?s (2 * u + 1) = (if u = t then None else container (lists k) (2 * u + 1))" for u
    using con [of "2 * u"] con [of "2 * u + 1"] odd_ne [of u t] by auto
  have p4: "unat (priority_of k t) < 4" using kcoreD(7) [OF core t(1)] by (simp add: word_less_nat_alt)
  have rdy: "ready ?k u \<longleftrightarrow> ready k u \<and> u \<noteq> t" for u using even [of u] p4 by (auto simp: ready_def)
  have core2: "kcore D T ?k"
  proof (rule kcoreI [OF i2])
    show "on_time ?k" using kcoreD(1) [OF core] con kcoreD(10) [OF core] same_dataD(1) [OF d2] by (auto simp: on_time_def)
    show "stack_intact ?k u" if "u \<in> T" for u using kcoreD(2) [OF core that] by (simp add: stack_intact_def)
    show "idle_ready T ?k" using kcoreD(3) [OF core] rdy t(2) by (simp add: idle_ready_def)
    have "container ?s (2 * u) \<in> {Some 4, Some 5, Some 8}" if "container ?s (2 * u + 1) \<noteq> None" for u
    proof -
      have "u \<noteq> t" "container (lists k) (2 * u + 1) \<noteq> None" using that odd [of u] by (auto split: if_splits)
      then have "container (lists k) (2 * u) \<in> {Some 4, Some 5, Some 8}" using kcoreD(4) [OF core] unfolding waits_ok_def by blast
      then show ?thesis using even [of u] \<open>u \<noteq> t\<close> by (simp only: if_False)
    qed
    then show "waits_ok ?k" by (simp add: waits_ok_def)
    show "0 < uxCurrentNumberOfTasks ?k" using kcoreD(5) [OF core] by simp
  qed
  note r = kcore_reset_next [OF core2]
  let ?k' = "prvResetNextTaskUnblockTime ?k"
  note st = same_tasksD [OF r(2)]
  have np: "no_pending ?k'" if "no_pending k" using that con st(1) by (auto simp: no_pending_def)
  show thesis
  proof (rule that [of ?k'])
    show "suspended_state t k ?k'" using u by (simp add: suspended_state_def on_lists_def)
    show "kcore D T ?k'" by (rule r(1))
    show "kframe k ?k'" using r(3) np by (simp add: kframe_def same_rest_def)
    show "ready ?k' u \<longleftrightarrow> ready k u \<and> u \<noteq> t" for u using st(8) rdy by simp
    show "xTickCount ?k' = xTickCount k" using st(4) by simp
    show "xSchedulerRunning ?k' = xSchedulerRunning k" by (simp add: prvResetNextTaskUnblockTime_def)
    have "naps ?k' u n" if "u \<in> T - {t}" "naps k u n" for u n
      using that even [of u] odd [of u] st same_dataD(1) [OF d2] by (simp add: naps_def)
    then show "advance (T - {t}) 0 k ?k'" by (rule advance_0I)
  qed
qed

section \<open>Resuming a task\<close>

lemma resume_task_core:
  assumes core: "kcore D T k" and t: "t \<in> T" and s: "prvTaskIsTaskSuspended k t"
  obtains k1 where "on_lists_opt (\<lambda>s. map_option snd (uxListRemove (xStateListItem t) s)) k = Some k1"
    and "kcore D T (prvAddTaskToReadyList t k1)" and "kframe k (prvAddTaskToReadyList t k1)"
    and "advance T 0 k (prvAddTaskToReadyList t k1)"
    and "\<And>u. ready (prvAddTaskToReadyList t k1) u \<longleftrightarrow> ready k u \<or> u = t"
    and "xTickCount (prvAddTaskToReadyList t k1) = xTickCount k"
proof -
  obtain xs ix where inv: "sched k D T xs ix" by (rule kcoreE [OF core])
  have c: "container (lists k) (2 * t) = Some 8" and e: "container (lists k) (2 * t + 1) = None"
    using s by (simp_all add: prvTaskIsTaskSuspended_def listIS_CONTAINED_WITHIN_def listLIST_ITEM_CONTAINER_def)
  obtain n s1 xs1 ix1 where r1: "uxListRemove (2 * t) (lists k) = Some (n, s1)"
    and i1: "sched (k\<lparr>lists := s1\<rparr>) D T xs1 ix1" and d1: "same_data (lists k) s1"
    and c1: "\<And>j. container s1 j = (if j = 2 * t then None else container (lists k) j)"
    by (rule sched_remove [OF inv c]) (rule that)
  let ?k1 = "k\<lparr>lists := s1\<rparr>"
  let ?k2 = "prvAddTaskToReadyList t ?k1"
  have cn: "container (lists ?k1) (2 * t) = None" by (simp add: c1)
  note rd = sched_ready [OF i1 t cn]
  have f: "?k2 = k\<lparr>lists := lists ?k2, uxTopReadyPriority := uxTopReadyPriority ?k2\<rparr>" by (simp add: prvAddTaskToReadyList_eq)
  have con: "container (lists ?k2) j = (if j = 2 * t then Some (unat (priority_of k t)) else container (lists k) j)" for j
    using rd(3) [of j] c1 [of j] by simp
  have data: "same_data (lists k) (lists ?k2)" using same_data_trans [OF d1] rd(2) by simp
  have "container (lists ?k2) j = (if j = 2 * t then Some (unat (priority_of k t)) else if j = 2 * t + 1 then None
        else container (lists k) j)" for j using con [of j] e by simp
  with data f have nr: "now_ready t k ?k2" unfolding now_ready_def by blast
  note d = now_readyD [OF nr]
  have p4: "unat (priority_of k t) < 4" using kcoreD(7) [OF core t] by (simp add: word_less_nat_alt)
  have even: "container (lists ?k2) (2 * u) = (if u = t then Some (unat (priority_of k t)) else container (lists k) (2 * u))"
    and odd: "container (lists ?k2) (2 * u + 1) = container (lists k) (2 * u + 1)" for u
    using con [of "2 * u"] con [of "2 * u + 1"] odd_ne [of u t] by auto
  have rdy: "ready ?k2 u \<longleftrightarrow> ready k u \<or> u = t" for u using even [of u] d(3) by (auto simp: ready_def)
  have "kcore D T ?k2"
  proof (rule kcoreI [OF rd(1)])
    show "on_time ?k2" using kcoreD(1) [OF core] con p4 kcoreD(10) [OF core] d by (auto simp: on_time_def)
    show "stack_intact ?k2 u" if "u \<in> T" for u using kcoreD(2) [OF core that] d by (simp add: stack_intact_def)
    show "idle_ready T ?k2" using kcoreD(3) [OF core] rdy d(8) by (simp add: idle_ready_def)
    have "container (lists ?k2) (2 * u) \<in> {Some 4, Some 5, Some 8}" if "container (lists ?k2) (2 * u + 1) \<noteq> None" for u
    proof -
      have "u \<noteq> t" "container (lists k) (2 * u + 1) \<noteq> None" using that odd [of u] e by auto
      then have "container (lists k) (2 * u) \<in> {Some 4, Some 5, Some 8}" using kcoreD(4) [OF core] unfolding waits_ok_def by blast
      then show ?thesis using even [of u] \<open>u \<noteq> t\<close> by (simp only: if_False)
    qed
    then show "waits_ok ?k2" unfolding waits_ok_def by blast
    show "0 < uxCurrentNumberOfTasks ?k2" using kcoreD(5) [OF core] d by simp
  qed
  moreover have "container (lists ?k2) j \<noteq> Some 6" if "no_pending k" for j using that con [of j] p4 by (auto simp: no_pending_def)
  then have "kframe k ?k2" using d by (auto simp: kframe_def no_pending_def)
  moreover have "advance T 0 k ?k2"
  proof (rule advance_0I)
    fix u r assume u: "naps k u r"
    then have "u \<noteq> t" using c kcoreD(10) [OF core] by (auto simp: naps_def)
    then show "naps ?k2 u r" using u even [of u] odd [of u] d by (simp add: naps_def)
  qed
  ultimately show thesis using that [OF on_lists_opt_remove_snd [OF r1]] rdy d(5) by simp
qed

section \<open>Changing a priority\<close>

text \<open>A task on no ready list may change its priority.\<close>

definition with_priority :: "nat \<Rightarrow> u32 \<Rightarrow> 'a kernel_scheme \<Rightarrow> 'a kernel_scheme" where
  "with_priority t p k = k\<lparr>tcbs := (tcbs k)(t := (tcbs k t)\<lparr>uxPriority := p\<rparr>)\<rparr>"

lemma with_priority_simps [simp]:
  "lists (with_priority t p k) = lists k" "priority_of (with_priority t p k) u = (if u = t then p else priority_of k u)"
  "stack_intact (with_priority t p k) u = stack_intact k u" "pxCurrentTCB (with_priority t p k) = pxCurrentTCB k"
  "xTickCount (with_priority t p k) = xTickCount k" "pxDelayedTaskList (with_priority t p k) = pxDelayedTaskList k"
  "pxOverflowDelayedTaskList (with_priority t p k) = pxOverflowDelayedTaskList k"
  "xIdleTaskHandle (with_priority t p k) = xIdleTaskHandle k" "uxSchedulerSuspended (with_priority t p k) = uxSchedulerSuspended k"
  "xPendedTicks (with_priority t p k) = xPendedTicks k" "uxCurrentNumberOfTasks (with_priority t p k) = uxCurrentNumberOfTasks k"
  "uxTopReadyPriority (with_priority t p k) = uxTopReadyPriority k" "xNextTaskUnblockTime (with_priority t p k) = xNextTaskUnblockTime k"
  by (simp_all add: with_priority_def stack_intact_def)

lemma tcbs_lists: "k\<lparr>tcbs := a, lists := s\<rparr> = k\<lparr>lists := s, tcbs := a\<rparr>"
  by simp

lemma sched_set_priority:
  assumes inv: "sched k D T xs ix" and p: "p < 4" and off: "\<And>l. l < 4 \<Longrightarrow> container (lists k) (2 * t) \<noteq> Some l"
  shows "sched (with_priority t p k) D T xs ix"
proof -
  have "fits (priority_of (with_priority t p k)) l i" if l: "l \<in> D" "i \<in> set (xs l)" for l i
  proof -
    have f: "fits (priority_of k) l i" by (rule well_placedD [OF schedD(9) [OF inv] l])
    have c: "container (lists k) i = Some l" using sched_container [OF inv] l by blast
    show ?thesis
    proof (cases "l < 4 \<and> i div 2 = t")
      case True
      with f have "i = 2 * t" by (auto simp: fits_def)
      with c off [of l] True show ?thesis by simp
    next
      case False
      with f show ?thesis by (auto simp: fits_def)
    qed
  qed
  then have "well_placed (priority_of (with_priority t p k)) D xs" unfolding well_placed_def by blast
  with inv p show ?thesis unfolding sched_def by simp
qed

text \<open>The work of \<open>vTaskPrioritySet\<close> up to the yield, the two cases in one.\<close>

definition reprioritised :: "nat \<Rightarrow> u32 \<Rightarrow> 'a kernel_scheme \<Rightarrow> 'a kernel_scheme option" where
  "reprioritised t new k =
     (let k1 = with_priority t new k;
          k2 = (if listGET_LIST_ITEM_VALUE (xEventListItem t) (lists k1) AND taskEVENT_LIST_ITEM_VALUE_IN_USE = 0
                then on_lists (listSET_LIST_ITEM_VALUE (xEventListItem t) (configMAX_PRIORITIES - new)) k1
                else k1)
      in if listIS_CONTAINED_WITHIN (pxReadyTasksLists (priority_of k t)) (xStateListItem t) (lists k2)
         then map_option (prvAddTaskToReadyList t) (on_lists_opt (\<lambda>s. map_option snd (uxListRemove (xStateListItem t) s)) k2)
         else Some k2)"

lemma vTaskPrioritySet_eq:
  assumes "t \<noteq> 0" and "new < 4"
  shows "vTaskPrioritySet t new k =
    (if priority_of k t = new then Some k
     else Option.bind (reprioritised t new k) (\<lambda>k3.
       if (if priority_of k t < new then t \<noteq> pxCurrentTCB k \<and> priority_of k (pxCurrentTCB k) < new else t = pxCurrentTCB k)
       then portYIELD_WITHIN_API k3 else Some k3))"
  using assms by (simp add: vTaskPrioritySet_def prvGetTCBFromHandle_def reprioritised_def Let_def with_priority_def)

text \<open>Nothing but the priority, the ready lists and the value of an event item has changed.\<close>

definition only_priority :: "nat \<Rightarrow> u32 \<Rightarrow> 'a kernel_scheme \<Rightarrow> 'a kernel_scheme \<Rightarrow> bool" where
  "only_priority t p k k' \<longleftrightarrow>
     (\<exists>s tp. k' = with_priority t p k\<lparr>lists := s, uxTopReadyPriority := tp\<rparr> \<and>
       (\<forall>i. even i \<longrightarrow> item_value s i = item_value (lists k) i) \<and>
       (\<forall>j. container s j = (if j = 2 * t \<and> ready k t then Some (unat p) else container (lists k) j)))"

lemma reprioritised_sched:
  assumes inv: "sched k D T xs ix" and t: "t \<in> T" and p: "p < 4"
  obtains k' xs' ix' where "reprioritised t p k = Some k'" and "sched k' D T xs' ix'" and "only_priority t p k k'"
proof -
  define s where "s = (if listGET_LIST_ITEM_VALUE (2 * t + 1) (lists k) AND taskEVENT_LIST_ITEM_VALUE_IN_USE = 0
    then listSET_LIST_ITEM_VALUE (2 * t + 1) (4 - p) (lists k) else lists k)"
  let ?k = "k\<lparr>lists := s\<rparr>"
  have i0: "sched ?k D T xs ix" using sched_set_event [OF inv, of t "4 - p"] inv by (simp add: s_def)
  have con: "container s j = container (lists k) j" for j by (simp add: s_def)
  have val: "item_value s i = item_value (lists k) i" if "even i" for i
    using that by (cases "i = 2 * t + 1") (simp_all add: s_def)
  have k2: "reprioritised t p k =
    (if ready k t then map_option (prvAddTaskToReadyList t)
        (on_lists_opt (\<lambda>s. map_option snd (uxListRemove (2 * t) s)) (with_priority t p ?k))
     else Some (with_priority t p ?k))"
    by (simp add: reprioritised_def Let_def s_def on_lists_def with_priority_def ready_def listIS_CONTAINED_WITHIN_def
        listLIST_ITEM_CONTAINER_def pxReadyTasksLists_def listSET_LIST_ITEM_VALUE_def tcbs_lists)
  show thesis
  proof (cases "ready k t")
    case True
    then have c: "container (lists ?k) (2 * t) = Some (unat (priority_of k t))" by (simp add: ready_def con)
    obtain n s1 xs1 ix1 where r: "uxListRemove (2 * t) (lists ?k) = Some (n, s1)"
      and i1: "sched (?k\<lparr>lists := s1\<rparr>) D T xs1 ix1" and d1: "same_data (lists ?k) s1"
      and c1: "\<And>j. container s1 j = (if j = 2 * t then None else container (lists ?k) j)"
      by (rule sched_remove [OF i0 c]) (rule that)
    let ?k1 = "with_priority t p (k\<lparr>lists := s1\<rparr>)"
    have "sched (k\<lparr>lists := s1\<rparr>) D T xs1 ix1" using i1 by simp
    then have i2: "sched ?k1 D T xs1 ix1" using p c1 by (intro sched_set_priority) simp_all
    have cn: "container (lists ?k1) (2 * t) = None" by (simp add: c1)
    note rd = sched_ready [OF i2 t cn]
    have e: "reprioritised t p k = Some (prvAddTaskToReadyList t ?k1)"
      using True r by (simp add: k2 on_lists_opt_def with_priority_def tcbs_lists)
    let ?k2 = "prvAddTaskToReadyList t ?k1"
    have f: "?k2 = with_priority t p k\<lparr>lists := lists ?k2, uxTopReadyPriority := uxTopReadyPriority ?k2\<rparr>"
      by (simp add: prvAddTaskToReadyList_eq with_priority_def)
    have "container (lists ?k2) j = (if j = 2 * t \<and> ready k t then Some (unat p) else container (lists k) j)" for j
      using rd(3) [of j] c1 [of j] con [of j] True by simp
    moreover have "item_value (lists ?k2) i = item_value (lists k) i" if "even i" for i
      using same_dataD(1) [OF rd(2), of i] same_dataD(1) [OF d1, of i] val [OF that] by simp
    ultimately have "only_priority t p k ?k2" using f unfolding only_priority_def by blast
    with that [OF e rd(1)] show thesis .
  next
    case False
    have off: "container (lists ?k) (2 * t) \<noteq> Some l" if "l < 4" for l
    proof
      assume "container (lists ?k) (2 * t) = Some l"
      then have "l \<in> D \<and> 2 * t \<in> set (xs l)" using sched_container [OF i0] by blast
      then have "fits (priority_of k) l (2 * t)" using well_placedD [OF schedD(9) [OF inv]] by blast
      with that \<open>container (lists ?k) (2 * t) = Some l\<close> False show False by (simp add: fits_def ready_def con)
    qed
    have i1: "sched (with_priority t p ?k) D T xs ix" by (rule sched_set_priority [OF i0 p off])
    have "with_priority t p ?k = with_priority t p k\<lparr>lists := s, uxTopReadyPriority := uxTopReadyPriority k\<rparr>"
      by (simp add: with_priority_def)
    then have "only_priority t p k (with_priority t p ?k)"
      unfolding only_priority_def
      by (intro exI [of _ s] exI [of _ "uxTopReadyPriority k"] conjI allI impI) (simp_all add: con val False)
    moreover have "reprioritised t p k = Some (with_priority t p ?k)" using k2 False by simp
    ultimately show thesis using that [OF _ i1] by blast
  qed
qed

lemma priority_core:
  assumes core: "kcore D T k" and t: "t \<in> T" and p: "p < 4"
  obtains k' where "reprioritised t p k = Some k'" and "kcore D T k'" and "advance T 0 k k'"
    and "\<And>u. u \<in> T \<Longrightarrow> ready k' u \<longleftrightarrow> ready k u" and "\<And>u. priority_of k' u = (if u = t then p else priority_of k u)"
    and "pxCurrentTCB k' = pxCurrentTCB k" and "xTickCount k' = xTickCount k" and "xIdleTaskHandle k' = xIdleTaskHandle k"
    and "uxSchedulerSuspended k' = uxSchedulerSuspended k" and "xPendedTicks k' = xPendedTicks k"
    and "no_pending k \<Longrightarrow> no_pending k'"
proof -
  obtain xs ix where inv: "sched k D T xs ix" by (rule kcoreE [OF core])
  obtain k' xs' ix' where k': "reprioritised t p k = Some k'" "sched k' D T xs' ix'" "only_priority t p k k'"
    by (rule reprioritised_sched [OF inv t p]) (rule that)
  obtain s tp where e: "k' = with_priority t p k\<lparr>lists := s, uxTopReadyPriority := tp\<rparr>"
    and val: "\<And>i. even i \<Longrightarrow> item_value s i = item_value (lists k) i"
    and con: "\<And>j. container s j = (if j = 2 * t \<and> ready k t then Some (unat p) else container (lists k) j)"
    using k'(3) unfolding only_priority_def by blast
  have pr: "priority_of k' u = (if u = t then p else priority_of k u)" for u by (simp add: e with_priority_def)
  have f: "lists k' = s" "pxCurrentTCB k' = pxCurrentTCB k" "xTickCount k' = xTickCount k" "xIdleTaskHandle k' = xIdleTaskHandle k"
    "uxSchedulerSuspended k' = uxSchedulerSuspended k" "xPendedTicks k' = xPendedTicks k" "pxDelayedTaskList k' = pxDelayedTaskList k"
    "pxOverflowDelayedTaskList k' = pxOverflowDelayedTaskList k" "uxCurrentNumberOfTasks k' = uxCurrentNumberOfTasks k"
    by (simp_all add: e)
  have st: "stack_intact k' u = stack_intact k u" for u by (simp add: e with_priority_def stack_intact_def)
  have p4: "unat p < 4" using p by (simp add: word_less_nat_alt)
  have even: "container s (2 * u) = (if u = t \<and> ready k t then Some (unat p) else container (lists k) (2 * u))"
    and odd: "container s (2 * u + 1) = container (lists k) (2 * u + 1)" for u
    using con [of "2 * u"] con [of "2 * u + 1"] odd_ne(2) [of u t] by auto
  have low: "\<not> (\<exists>l<4. container (lists k) (2 * t) = Some l)" if "\<not> ready k t"
  proof
    assume "\<exists>l<4. container (lists k) (2 * t) = Some l"
    then obtain l where l: "l < 4" "container (lists k) (2 * t) = Some l" by blast
    then have "l \<in> D \<and> 2 * t \<in> set (xs l)" using sched_container [OF inv] by blast
    then have "fits (priority_of k) l (2 * t)" using well_placedD [OF schedD(9) [OF inv]] by blast
    with l that show False by (simp add: fits_def ready_def)
  qed
  have rdy: "ready k' u \<longleftrightarrow> ready k u" for u
    using even [of u] low p4 by (auto simp: ready_def pr f)
  show thesis
  proof (rule that [OF k'(1)])
    show "kcore D T k'"
    proof (rule kcoreI [OF k'(2)])
      have "xTickCount k < item_value s i" if "container s i = Some (pxDelayedTaskList k)" for i
      proof -
        have "container (lists k) i = Some (pxDelayedTaskList k)" using that con [of i] p4 kcoreD(10) [OF core] by (auto split: if_splits)
        moreover from this have "even i"
          using sched_container [OF inv] sched_delayed_item(2) [OF inv] by (metis Un_iff dvd_triv_left)
        ultimately show ?thesis using kcoreD(1) [OF core] val by (simp add: on_time_def)
      qed
      then show "on_time k'" by (simp add: on_time_def f)
      show "stack_intact k' u" if "u \<in> T" for u using kcoreD(2) [OF core that] st by simp
      show "idle_ready T k'" using kcoreD(3) [OF core] rdy f by (simp add: idle_ready_def)
      have "container s (2 * u) \<in> {Some 4, Some 5, Some 8}" if "container s (2 * u + 1) \<noteq> None" for u
      proof -
        have c: "container (lists k) (2 * u) \<in> {Some 4, Some 5, Some 8}"
          using that odd [of u] kcoreD(4) [OF core] unfolding waits_ok_def by metis
        have "unat (priority_of k t) < 4" using kcoreD(7) [OF core t] by (simp add: word_less_nat_alt)
        with c have "\<not> (u = t \<and> ready k t)" by (auto simp: ready_def)
        with c even [of u] show ?thesis by (simp only: if_False)
      qed
      then show "waits_ok k'" unfolding waits_ok_def f by blast
      show "0 < uxCurrentNumberOfTasks k'" using kcoreD(5) [OF core] f by simp
    qed
    show "advance T 0 k k'"
    proof (rule advance_0I)
      fix u r assume u: "naps k u r"
      have "unat (priority_of k t) < 4" using kcoreD(7) [OF core t] by (simp add: word_less_nat_alt)
      then have "\<not> (u = t \<and> ready k t)" using u kcoreD(10) [OF core] by (auto simp: naps_def ready_def)
      then show "naps k' u r" using u even [of u] odd [of u] val f by (auto simp: naps_def)
    qed
    show "no_pending k'" if "no_pending k" using that con p4 by (auto simp: no_pending_def f split: if_splits)
  qed (use rdy pr f in simp_all)
qed

end
