(* ===== verification/Rtos_Run.thy ===== *)
theory Rtos_Run
  imports Rtos_Control
begin

text \<open>
  The running kernel as a state machine. Its events are the tick interrupt; the calls of the running task that
  yield, delay, suspend and resume the scheduler, suspend and resume a task and change a priority; waiting on the
  event list of a queue the way \<open>queue.c\<close> does; and signalling an event, by a task or an interrupt. Every
  sequence of them keeps the invariant \<open>kernel_ok\<close> and meets no failed assertion. Creating and deleting tasks are not
  among the events; the queue calls as a whole, with their storage, have theorems of their own.
\<close>

section \<open>Events\<close>

datatype kevent = Tick | Yield | Delay u32 | Wait nat u32 | Wake nat | SuspendAll | ResumeAll
  | Suspend nat | Resume nat | Prioritise nat u32

text \<open>Waiting on an event list the way \<open>queue.c\<close> does it, and signalling one.\<close>

definition event_wait :: "nat \<Rightarrow> u32 \<Rightarrow> 'a kernel_scheme \<Rightarrow> 'a kernel_scheme option" where
  "event_wait l n k = do {
     k1 \<leftarrow> vTaskPlaceOnEventList l n (vTaskSuspendAll k);
     (yielded, k2) \<leftarrow> xTaskResumeAll k1;
     if yielded then Some k2 else portYIELD_WITHIN_API k2
   }"

definition event_wake :: "nat \<Rightarrow> 'a kernel_scheme \<Rightarrow> 'a kernel_scheme option" where
  "event_wake l k =
     (if list_empty k l then Some k
      else do {
        (higher, k1) \<leftarrow> xTaskRemoveFromEventList l k;
        if higher then vTaskSwitchContext k1 else Some k1
      })"

fun kstep :: "kevent \<Rightarrow> 'a kernel_scheme \<Rightarrow> 'a kernel_scheme option" where
  "kstep Tick k = tick_interrupt k"
| "kstep Yield k = portYIELD_WITHIN_API k"
| "kstep (Delay n) k = vTaskDelay n k"
| "kstep (Wait l n) k = event_wait l n k"
| "kstep (Wake l) k = event_wake l k"
| "kstep SuspendAll k = Some (vTaskSuspendAll k)"
| "kstep ResumeAll k = map_option snd (xTaskResumeAll k)"
| "kstep (Suspend h) k = vTaskSuspend h k"
| "kstep (Resume t) k = vTaskResume t k"
| "kstep (Prioritise h p) k = vTaskPrioritySet h p k"

text \<open>
  What the kernel asks of its callers: the idle task never blocks and is never suspended, nobody blocks, suspends or resumes a task
  or changes a priority while the scheduler is suspended, suspending the scheduler nests less than 2^32 times and pairs with
  resuming, and the handles are those of tasks that exist (0, the caller itself, where the code allows it).
\<close>

fun allowed :: "nat set \<Rightarrow> nat set \<Rightarrow> 'a kernel_scheme \<Rightarrow> kevent \<Rightarrow> bool" where
  "allowed D T k Tick = True"
| "allowed D T k Yield = True"
| "allowed D T k (Delay n) = (n \<noteq> 0 \<longrightarrow> uxSchedulerSuspended k = 0 \<and> pxCurrentTCB k \<noteq> xIdleTaskHandle k)"
| "allowed D T k (Wait l n) =
     (l \<in> D \<and> 8 < l \<and> n \<noteq> 0 \<and> uxSchedulerSuspended k = 0 \<and> pxCurrentTCB k \<noteq> xIdleTaskHandle k)"
| "allowed D T k (Wake l) = (l \<in> D \<and> 8 < l)"
| "allowed D T k SuspendAll = (uxSchedulerSuspended k + 1 \<noteq> 0)"
| "allowed D T k ResumeAll = (uxSchedulerSuspended k \<noteq> 0)"
| "allowed D T k (Suspend h) =
     (uxSchedulerSuspended k = 0 \<and> xSchedulerRunning k \<and> prvGetTCBFromHandle k h \<in> T \<and>
      prvGetTCBFromHandle k h \<noteq> xIdleTaskHandle k \<and> container (lists k) (xStateListItem (prvGetTCBFromHandle k h)) \<noteq> None)"
| "allowed D T k (Resume t) = (uxSchedulerSuspended k = 0 \<and> t \<in> T)"
| "allowed D T k (Prioritise h p) = (uxSchedulerSuspended k = 0 \<and> prvGetTCBFromHandle k h \<in> T \<and> p < configMAX_PRIORITIES)"

text \<open>The tick interrupts: one for the event \<open>Tick\<close>, whatever the kernel does with it.\<close>

fun ticks :: "kevent \<Rightarrow> nat" where
  "ticks Tick = 1"
| "ticks _ = 0"

text \<open>The task whose wait the event breaks off.\<close>

fun stops :: "kevent \<Rightarrow> 'a kernel_scheme \<Rightarrow> nat set" where
  "stops (Suspend h) k = {prvGetTCBFromHandle k h}"
| "stops _ k = {}"

text \<open>By how much the clock advances, which the proofs below relate to the tick interrupts.\<close>

fun ticks_of :: "kevent \<Rightarrow> 'a kernel_scheme \<Rightarrow> nat" where
  "ticks_of Tick k = (if uxSchedulerSuspended k = 0 then 1 else 0)"
| "ticks_of ResumeAll k = (if uxSchedulerSuspended k = 1 then unat (xPendedTicks k) else 0)"
| "ticks_of _ k = 0"

section \<open>The invariant\<close>

definition kernel_ok :: "nat set \<Rightarrow> nat set \<Rightarrow> 'a kernel_scheme \<Rightarrow> bool" where
  "kernel_ok D T k \<longleftrightarrow> kcore D T k \<and> ready k (pxCurrentTCB k) \<and> top_runs T k \<and>
     (uxSchedulerSuspended k = 0 \<longrightarrow> no_pending k \<and> xPendedTicks k = 0)"

lemma kernel_okD:
  assumes "kernel_ok D T k"
  shows "kcore D T k" "ready k (pxCurrentTCB k)" "top_runs T k" "uxSchedulerSuspended k = 0 \<Longrightarrow> no_pending k"
    "uxSchedulerSuspended k = 0 \<Longrightarrow> xPendedTicks k = 0" "top_or_yield T k"
  using assms by (simp_all add: kernel_ok_def top_or_yield_def)

text \<open>
  What one event does in which \<open>m\<close> tick interrupts come: the clock advances by \<open>n\<close>, nothing is lost of what is held back, and
  no task other than the running one and those of \<open>H\<close> stops being ready or sleeps longer or shorter.
\<close>

definition step_but :: "nat set \<Rightarrow> nat \<Rightarrow> nat set \<Rightarrow> nat set \<Rightarrow> nat \<Rightarrow> 'a kernel_scheme \<Rightarrow> 'a kernel_scheme \<Rightarrow> bool" where
  "step_but H m D T n k k' \<longleftrightarrow> kernel_ok D T k' \<and> advance (T - H) n k k' \<and>
     (\<forall>t\<in>T - H. ready k t \<and> t \<noteq> pxCurrentTCB k \<longrightarrow> ready k' t) \<and>
     xTickCount k' = xTickCount k + of_nat n \<and> xIdleTaskHandle k' = xIdleTaskHandle k \<and>
     xPendedTicks k + of_nat m = of_nat n + xPendedTicks k' \<and> (n \<noteq> 0 \<longrightarrow> uxSchedulerSuspended k' = 0)"

abbreviation good_step :: "nat set \<Rightarrow> nat set \<Rightarrow> nat \<Rightarrow> 'a kernel_scheme \<Rightarrow> 'a kernel_scheme \<Rightarrow> bool" where
  "good_step \<equiv> step_but {} 0"

lemma step_butD:
  assumes "step_but H m D T n k k'"
  shows "kernel_ok D T k'" "advance (T - H) n k k'"
    "xTickCount k' = xTickCount k + of_nat n" "xIdleTaskHandle k' = xIdleTaskHandle k"
    "xPendedTicks k + of_nat m = of_nat n + xPendedTicks k'" "n \<noteq> 0 \<Longrightarrow> uxSchedulerSuspended k' = 0"
  using assms by (simp_all add: step_but_def)

lemma good_step_def:
  "step_but {} m D T n k k' \<longleftrightarrow> kernel_ok D T k' \<and> advance T n k k' \<and>
     (\<forall>t\<in>T. ready k t \<and> t \<noteq> pxCurrentTCB k \<longrightarrow> ready k' t) \<and>
     xTickCount k' = xTickCount k + of_nat n \<and> xIdleTaskHandle k' = xIdleTaskHandle k \<and>
     xPendedTicks k + of_nat m = of_nat n + xPendedTicks k' \<and> (n \<noteq> 0 \<longrightarrow> uxSchedulerSuspended k' = 0)"
  by (simp add: step_but_def)

lemma good_stepD:
  assumes "good_step D T n k k'"
  shows "kernel_ok D T k'" "advance T n k k'" "t \<in> T \<Longrightarrow> ready k t \<Longrightarrow> t \<noteq> pxCurrentTCB k \<Longrightarrow> ready k' t"
    "xTickCount k' = xTickCount k + of_nat n" "xIdleTaskHandle k' = xIdleTaskHandle k"
  using assms by (simp_all add: good_step_def)

section \<open>The steps\<close>

text \<open>A switch while the scheduler runs completes a step.\<close>

lemma switch_completes_but:
  assumes core: "kcore D T k1" and un: "uxSchedulerSuspended k1 = 0" and np: "no_pending k1" "xPendedTicks k1 = 0"
    and adv: "advance (T - H) n k k1" and keep: "\<And>t. t \<in> T - H \<Longrightarrow> ready k t \<Longrightarrow> t \<noteq> pxCurrentTCB k \<Longrightarrow> ready k1 t"
    and tick: "xTickCount k1 = xTickCount k + of_nat n" and idle: "xIdleTaskHandle k1 = xIdleTaskHandle k"
    and bal: "xPendedTicks k + of_nat m = of_nat n"
  shows "\<exists>k'. vTaskSwitchContext k1 = Some k' \<and> step_but H m D T n k k' \<and> same_tasks k1 k'"
proof -
  obtain k' where k': "vTaskSwitchContext k1 = Some k'" "kcore D T k'" "same_tasks k1 k'" "ready k' (pxCurrentTCB k')"
    "top_runs T k'" "uxSchedulerSuspended k' = 0" "xPendedTicks k' = xPendedTicks k1" "xIdleTaskHandle k' = xIdleTaskHandle k1"
    by (rule switch_core [OF core un]) (rule that)
  have "kernel_ok D T k'" using k' np kframe_same_tasks [OF k'(3)] by (simp add: kernel_ok_def)
  moreover have "advance (T - H) n k k'" using advance_trans [OF adv same_tasks_advance [OF k'(3)]] by simp
  ultimately show ?thesis using k'(1,3,6,7,8) keep tick idle bal np(2) same_tasksD(4,8) [OF k'(3)] by (simp add: step_but_def)
qed

lemmas switch_completes = switch_completes_but [where H = "{}", unfolded Diff_empty]

text \<open>While the scheduler is suspended a switch is only noted.\<close>

lemma switch_suspended:
  "uxSchedulerSuspended k \<noteq> 0 \<Longrightarrow> vTaskSwitchContext k = Some (k\<lparr>xYieldPending := True\<rparr>)"
  by (simp add: vTaskSwitchContext_def)

lemma kernel_ok_yield [simp]: "kernel_ok D T (k\<lparr>xYieldPending := b\<rparr>) = kernel_ok D T k"
  by (simp add: kernel_ok_def ready_def no_pending_def)

lemma good_step_refl: "kernel_ok D T k \<Longrightarrow> good_step D T 0 k k"
  by (auto simp: good_step_def intro: advance_0I)

lemma good_step_yield [simp]: "step_but H m D T n k (k'\<lparr>xYieldPending := b\<rparr>) = step_but H m D T n k k'"
  by (simp add: step_but_def ready_def)

lemma yield_ok:
  assumes ok: "kernel_ok D T k"
  shows "\<exists>k'. vTaskSwitchContext k = Some k' \<and> good_step D T 0 k k'"
proof (cases "uxSchedulerSuspended k = 0")
  case True
  note d = kernel_okD [OF ok]
  have "advance T 0 k k" by (rule advance_0I)
  from switch_completes [OF d(1) True d(4) [OF True] d(5) [OF True] this, where m = 0] d(5) [OF True] show ?thesis by auto
next
  case False
  then show ?thesis using switch_suspended [OF False] good_step_refl [OF ok] by simp
qed

lemma tick_ok:
  assumes ok: "kernel_ok D T k"
  shows "\<exists>k'. tick_interrupt k = Some k' \<and> step_but {} 1 D T (ticks_of Tick k) k k'"
proof (cases "uxSchedulerSuspended k = 0")
  case True
  note d = kernel_okD [OF ok]
  obtain sw k1 where t: "xTaskIncrementTick k = Some (sw, k1)" "kcore D T k1" "advance T 1 k k1" "still_ready T k k1"
    "kframe k k1" "xTickCount k1 = xTickCount k + 1" "top_or_yield T k \<Longrightarrow> sw \<or> top_runs T k1"
    by (rule tick_step [OF d(1) True]) (rule that)
  note f = kframeD [OF t(5)]
  have c: "uxSchedulerSuspended k1 = 0" "no_pending k1" "xPendedTicks k1 = 0" using f d True by simp_all
  have keep: "ready k1 u" if "u \<in> T" "ready k u" for u using t(4) that by (simp add: still_ready_def)
  show ?thesis
  proof (cases sw)
    case True
    have "\<exists>k'. vTaskSwitchContext k1 = Some k' \<and> step_but {} 1 D T 1 k k' \<and> same_tasks k1 k'"
      by (rule switch_completes [OF t(2) c t(3)]) (use keep t(6) f d(5) [OF \<open>uxSchedulerSuspended k = 0\<close>] in simp_all)
    with True t(1) \<open>uxSchedulerSuspended k = 0\<close> show ?thesis by (auto simp: tick_interrupt_def)
  next
    case False
    have "ready k1 (pxCurrentTCB k1)" using keep [of "pxCurrentTCB k"] d(2) f(1) kcoreD(6) [OF d(1)] by simp
    then have "step_but {} 1 D T 1 k k1"
      using t(2,3,6,7) d(5) [OF True] d(6) False c keep f by (simp add: good_step_def kernel_ok_def)
    with False t(1) True show ?thesis by (simp add: tick_interrupt_def)
  qed
next
  case False
  have "step_but {} 1 D T 0 k (k\<lparr>xPendedTicks := xPendedTicks k + 1\<rparr>)"
    using ok False by (auto simp: good_step_def kernel_ok_def intro: advance_0I)
  with False show ?thesis by (simp add: tick_interrupt_def xTaskIncrementTick_def)
qed

text \<open>A blocked running task, the resumed scheduler, and the yield that follows.\<close>

lemma block_completes:
  assumes ok: "kernel_ok D T k" and un: "uxSchedulerSuspended k = 0"
    and core: "kcore D T k1" and fr: "kframe (vTaskSuspendAll k) k1" and adv: "advance T 0 k k1"
    and rdy: "\<And>t. ready k1 t \<longleftrightarrow> ready k t \<and> t \<noteq> pxCurrentTCB k" and tick: "xTickCount k1 = xTickCount k"
  shows "\<exists>y k2 k'. xTaskResumeAll k1 = Some (y, k2) \<and> (if y then Some k2 else vTaskSwitchContext k2) = Some k' \<and>
    good_step D T 0 k k' \<and> advance T 0 k1 k'"
proof -
  note d = kernel_okD [OF ok]
  have f: "uxSchedulerSuspended k1 = 1" "pxCurrentTCB k1 = pxCurrentTCB k" "tcbs k1 = tcbs k" "xIdleTaskHandle k1 = xIdleTaskHandle k"
    "xPendedTicks k1 = 0" using kframeD [OF fr] un d(5) [OF un] by (simp_all add: vTaskSuspendAll_def)
  have "top_runs T k1" using d(3) rdy f by (simp add: top_runs_def)
  then have top: "top_or_yield T k1" by (simp add: top_or_yield_def)
  obtain y k2 where k2: "xTaskResumeAll k1 = Some (y, k2)" "kcore D T k2" "uxSchedulerSuspended k2 = 0" "no_pending k2"
    "xPendedTicks k2 = 0" "advance T (unat (xPendedTicks k1)) k1 k2" "still_ready T k1 k2" "top_runs T k2"
    "y \<Longrightarrow> ready k2 (pxCurrentTCB k2)" "\<not> y \<Longrightarrow> pxCurrentTCB k2 = pxCurrentTCB k1" "tcbs k2 = tcbs k1"
    "xIdleTaskHandle k2 = xIdleTaskHandle k1" "xTickCount k2 = xTickCount k1 + xPendedTicks k1"
    by (rule resume_core [OF core f(1) top]) (rule that)
  have adv2: "advance T 0 k1 k2" using k2(6) f(5) by simp
  have adv': "advance T 0 k k2" by (rule advance_0_trans [OF adv adv2 k2(7)])
  have keep: "ready k2 u" if "u \<in> T" "ready k u" "u \<noteq> pxCurrentTCB k" for u
    using k2(7) that rdy [of u] by (simp add: still_ready_def)
  have fin: "xTickCount k2 = xTickCount k + of_nat 0" "xIdleTaskHandle k2 = xIdleTaskHandle k" "xPendedTicks k + of_nat 0 = of_nat 0"
    using k2(12,13) f tick d(5) [OF un] by simp_all
  show ?thesis
  proof (cases y)
    case True
    have "good_step D T 0 k k2" using k2 True adv' keep fin by (simp add: good_step_def kernel_ok_def)
    with k2(1) True adv2 show ?thesis by auto
  next
    case False
    obtain k' where k': "vTaskSwitchContext k2 = Some k'" "good_step D T 0 k k'" "same_tasks k2 k'"
      using switch_completes [OF k2(2-5) adv' keep fin] by blast
    have "advance T 0 k1 k'" by (rule advance_0_trans [OF adv2 same_tasks_advance [OF k'(3)]])
    with k2(1) False k' show ?thesis by auto
  qed
qed

lemma suspended_facts:
  assumes ok: "kernel_ok D T k" and un: "uxSchedulerSuspended k = 0"
  shows "kcore D T (vTaskSuspendAll k)" "ready (vTaskSuspendAll k) = ready k" "pxCurrentTCB (vTaskSuspendAll k) = pxCurrentTCB k"
    "xIdleTaskHandle (vTaskSuspendAll k) = xIdleTaskHandle k" "uxSchedulerSuspended (vTaskSuspendAll k) = 1"
    "xTickCount (vTaskSuspendAll k) = xTickCount k" "advance T 0 (vTaskSuspendAll k) k' = advance T 0 k k'"
    "lists (vTaskSuspendAll k) = lists k" "on_time (vTaskSuspendAll k)" "waits_ok (vTaskSuspendAll k)"
  using kernel_okD(1) [OF ok] kcoreD(1,4) [OF kernel_okD(1) [OF ok]] un
  by (simp_all add: vTaskSuspendAll_def on_time_def waits_ok_def)

text \<open>A delay puts the running task to sleep for exactly that many ticks.\<close>

lemma delay_ok:
  assumes ok: "kernel_ok D T k" and n: "n \<noteq> 0" and un: "uxSchedulerSuspended k = 0" and idle: "pxCurrentTCB k \<noteq> xIdleTaskHandle k"
  shows "\<exists>k'. vTaskDelay n k = Some k' \<and> good_step D T 0 k k' \<and> naps k' (pxCurrentTCB k) (unat n)"
proof -
  let ?s = "vTaskSuspendAll k"
  note s = suspended_facts [OF ok un] and d = kernel_okD [OF ok]
  obtain xs ix where inv: "sched ?s D T xs ix" by (rule kcoreE [OF s(1)])
  have t: "pxCurrentTCB k \<in> T" by (rule kcoreD(6) [OF d(1)])
  have ev: "container (lists k) (2 * pxCurrentTCB k + 1) = None" by (rule ready_free [OF d(1) t d(2)])
  have st: "stack_intact ?s u" if "u \<in> T" for u using kcoreD(2) [OF s(1) that] .
  have wo: "container (lists ?s) (2 * u) \<in> {Some 4, Some 5, Some 8}" if "container (lists ?s) (2 * u + 1) \<noteq> None" for u
    using s(10) that unfolding waits_ok_def by blast
  have idl: "idle_ready T ?s" "pxCurrentTCB ?s \<noteq> xIdleTaskHandle ?s" "0 < uxCurrentNumberOfTasks ?s" "ready ?s (pxCurrentTCB ?s)"
    using kcoreD(3,5) [OF s(1)] idle s d(2) by simp_all
  obtain k1 where k1: "prvAddCurrentTaskToDelayedList n False ?s = Some k1" "kcore D T k1" "kframe ?s k1" "advance T 0 ?s k1"
    "\<And>t. ready k1 t \<longleftrightarrow> ready ?s t \<and> t \<noteq> pxCurrentTCB ?s" "xTickCount k1 = xTickCount ?s"
    "container (lists ?s) (2 * pxCurrentTCB ?s + 1) = None \<Longrightarrow> \<not> False \<Longrightarrow> naps k1 (pxCurrentTCB ?s) (unat n)"
    by (rule block_core [OF inv s(9) _ idl(1,2,3) _ idl(4) n, where indefinitely = False])
      (erule st, erule wo, rule that)
  from block_completes [OF ok un k1(2,3)] k1(4,5,6) s obtain y k2 k' where
    k': "xTaskResumeAll k1 = Some (y, k2)" "(if y then Some k2 else vTaskSwitchContext k2) = Some k'"
      "good_step D T 0 k k'" "advance T 0 k1 k'" by auto
  have "naps k1 (pxCurrentTCB k) (unat n)" using k1(7) ev s by simp
  moreover have "0 < unat n" using n by (simp add: unat_gt_0)
  ultimately have "naps k' (pxCurrentTCB k) (unat n)" using k'(4) t unfolding advance_def by (metis diff_zero)
  moreover have "vTaskDelay n k = Some k'"
    using n k1(1) k'(1,2) s(5) by (simp add: vTaskDelay_def Let_def word_gt_0)
  ultimately show ?thesis using k'(3) by blast
qed

lemma wait_ok:
  assumes ok: "kernel_ok D T k" and al: "allowed D T k (Wait l n)"
  shows "\<exists>k'. event_wait l n k = Some k' \<and> good_step D T 0 k k'"
proof -
  let ?s = "vTaskSuspendAll k"
  have un: "uxSchedulerSuspended k = 0" using al by simp
  note s = suspended_facts [OF ok un] and d = kernel_okD [OF ok]
  have a: "pxCurrentTCB ?s \<noteq> xIdleTaskHandle ?s" "ready ?s (pxCurrentTCB ?s)" "n \<noteq> 0" "l \<in> D" "8 < l"
    using al s d(2) by simp_all
  obtain k1 where k1: "vTaskPlaceOnEventList l n ?s = Some k1" "kcore D T k1" "kframe ?s k1" "advance T 0 ?s k1"
    "\<And>t. ready k1 t \<longleftrightarrow> ready ?s t \<and> t \<noteq> pxCurrentTCB ?s" "xTickCount k1 = xTickCount ?s"
    by (rule wait_core [OF s(1) a]) (rule that)
  from block_completes [OF ok un k1(2,3)] k1(4,5,6) s obtain y k2 k' where
    "xTaskResumeAll k1 = Some (y, k2)" "(if y then Some k2 else vTaskSwitchContext k2) = Some k'" "good_step D T 0 k k'"
    by auto
  with k1(1) show ?thesis by (simp add: event_wait_def)
qed

lemma wake_ok:
  assumes ok: "kernel_ok D T k" and al: "allowed D T k (Wake l)"
  shows "\<exists>k'. event_wake l k = Some k' \<and> good_step D T 0 k k' \<and>
    (uxSchedulerSuspended k = 0 \<and> \<not> list_empty k l \<longrightarrow> ready k' (listGET_OWNER_OF_HEAD_ENTRY l (lists k)))"
proof (cases "list_empty k l")
  case True
  then show ?thesis using good_step_refl [OF ok] by (simp add: event_wake_def)
next
  case ne: False
  note d = kernel_okD [OF ok]
  have l: "l \<in> D" "8 < l" using al by simp_all
  show ?thesis
  proof (cases "uxSchedulerSuspended k = 0")
    case True
    obtain higher k1 where k1: "xTaskRemoveFromEventList l k = Some (higher, k1)" "kcore D T k1" "kframe k k1"
      "advance T 0 k k1" "still_ready T k k1" "xTickCount k1 = xTickCount k" "top_runs T k \<Longrightarrow> higher \<or> top_runs T k1"
      "ready k1 (listGET_OWNER_OF_HEAD_ENTRY l (lists k))"
      by (rule wake_now_core [OF d(1) True l ne]) (rule that)
    note f = kframeD [OF k1(3)]
    have c: "uxSchedulerSuspended k1 = 0" "no_pending k1" "xPendedTicks k1 = 0" using f d True by simp_all
    have keep: "ready k1 u" if "u \<in> T" "ready k u" for u using k1(5) that by (simp add: still_ready_def)
    show ?thesis
    proof (cases higher)
      case True
      have "\<exists>k'. vTaskSwitchContext k1 = Some k' \<and> good_step D T 0 k k' \<and> same_tasks k1 k'"
        by (rule switch_completes [OF k1(2) c k1(4)]) (use keep k1(6) f d(5) [OF \<open>uxSchedulerSuspended k = 0\<close>] in simp_all)
      then obtain k' where "vTaskSwitchContext k1 = Some k'" "good_step D T 0 k k'" "same_tasks k1 k'" by blast
      with True k1(1,8) ne same_tasksD(8) show ?thesis by (auto simp: event_wake_def)
    next
      case False
      have "ready k1 (pxCurrentTCB k1)" using keep [of "pxCurrentTCB k"] d(2) f(1) kcoreD(6) [OF d(1)] by simp
      then have "good_step D T 0 k k1"
        using k1(2,4,6,7) d(3) d(5) [OF \<open>uxSchedulerSuspended k = 0\<close>] False c keep f by (simp add: good_step_def kernel_ok_def)
      with False k1(1,8) ne show ?thesis by (simp add: event_wake_def)
    qed
  next
    case False
    obtain higher k1 where k1: "xTaskRemoveFromEventList l k = Some (higher, k1)" "kcore D T k1"
      "pxCurrentTCB k1 = pxCurrentTCB k" "tcbs k1 = tcbs k" "xIdleTaskHandle k1 = xIdleTaskHandle k"
      "uxSchedulerSuspended k1 = uxSchedulerSuspended k" "xPendedTicks k1 = xPendedTicks k"
      "xTickCount k1 = xTickCount k" "advance T 0 k k1" "\<And>t. ready k1 t = ready k t"
      by (rule wake_later_core [OF d(1) False l ne]) (rule that)
    have "good_step D T 0 k k1" using k1 d(2,3) False by (simp add: good_step_def kernel_ok_def top_runs_def)
    then show ?thesis using k1(1,6) ne False switch_suspended [of k1] by (simp add: event_wake_def)
  qed
qed

lemma suspend_ok:
  assumes ok: "kernel_ok D T k" and "allowed D T k SuspendAll"
  shows "good_step D T 0 k (vTaskSuspendAll k)"
  using ok assms(2) by (auto simp: good_step_def kernel_ok_def vTaskSuspendAll_def intro: advance_0I)

lemma resume_ok:
  assumes ok: "kernel_ok D T k" and al: "allowed D T k ResumeAll"
  shows "\<exists>y k'. xTaskResumeAll k = Some (y, k') \<and> good_step D T (ticks_of ResumeAll k) k k'"
proof (cases "uxSchedulerSuspended k = 1")
  case True
  note d = kernel_okD [OF ok]
  obtain y k2 where k2: "xTaskResumeAll k = Some (y, k2)" "kcore D T k2" "uxSchedulerSuspended k2 = 0" "no_pending k2"
    "xPendedTicks k2 = 0" "advance T (unat (xPendedTicks k)) k k2" "still_ready T k k2" "top_runs T k2"
    "y \<Longrightarrow> ready k2 (pxCurrentTCB k2)" "\<not> y \<Longrightarrow> pxCurrentTCB k2 = pxCurrentTCB k" "tcbs k2 = tcbs k"
    "xIdleTaskHandle k2 = xIdleTaskHandle k" "xTickCount k2 = xTickCount k + xPendedTicks k"
    by (rule resume_core [OF d(1) True d(6)]) (rule that)
  have "ready k2 (pxCurrentTCB k2)"
  proof (cases y)
    case False
    with k2(7,10) d(2) kcoreD(6) [OF d(1)] show ?thesis by (simp add: still_ready_def)
  qed (rule k2(9))
  then have "good_step D T (unat (xPendedTicks k)) k k2"
    using k2 by (simp add: good_step_def kernel_ok_def still_ready_def)
  with k2(1) True show ?thesis by simp
next
  case False
  let ?k = "k\<lparr>uxSchedulerSuspended := uxSchedulerSuspended k - 1\<rparr>"
  have "uxSchedulerSuspended k - 1 \<noteq> 0" using False by simp
  then have r: "xTaskResumeAll k = Some (False, ?k)" using al by (simp add: xTaskResumeAll_def Let_def)
  have "kernel_ok D T ?k" using ok \<open>uxSchedulerSuspended k - 1 \<noteq> 0\<close> by (simp add: kernel_ok_def)
  then have "good_step D T 0 k ?k" by (auto simp: good_step_def intro: advance_0I)
  with r False show ?thesis by (intro exI [of _ False] exI [of _ ?k]) simp
qed

text \<open>Suspending a task, which may be the caller, resuming one, and changing a priority.\<close>

lemma suspend_task_ok:
  assumes ok: "kernel_ok D T k" and al: "allowed D T k (Suspend h)"
  shows "\<exists>k'. vTaskSuspend h k = Some k' \<and> step_but {prvGetTCBFromHandle k h} 0 D T 0 k k'"
proof -
  note d = kernel_okD [OF ok]
  define t where "t = prvGetTCBFromHandle k h"
  have a: "uxSchedulerSuspended k = 0" "xSchedulerRunning k" "t \<in> T" "t \<noteq> xIdleTaskHandle k" "container (lists k) (2 * t) \<noteq> None"
    using al by (simp_all add: t_def)
  obtain k1 where k1: "suspended_state t k k1" "kcore D T k1" "kframe k k1" "advance (T - {t}) 0 k k1"
    "\<And>u. ready k1 u \<longleftrightarrow> ready k u \<and> u \<noteq> t" "xTickCount k1 = xTickCount k" "xSchedulerRunning k1 = xSchedulerRunning k"
    by (rule suspend_core [OF d(1) a(3,4,5)]) (rule that)
  note f = kframeD [OF k1(3)]
  have t0: "t \<noteq> 0" using kcoreE [OF d(1)] schedD(3) a(3) by metis
  have c: "uxSchedulerSuspended k1 = 0" "no_pending k1" "xPendedTicks k1 = 0" using f d a(1) by simp_all
  have v: "vTaskSuspend h k = (if t = pxCurrentTCB k1 then vTaskSwitchContext k1 else Some k1)"
    by (rule vTaskSuspend_eq [OF k1(1) _ t0 c(1)]) (use k1(7) a(2) t_def in simp_all)
  show ?thesis
  proof (cases "t = pxCurrentTCB k")
    case True
    have "\<exists>k'. vTaskSwitchContext k1 = Some k' \<and> step_but {t} 0 D T 0 k k' \<and> same_tasks k1 k'"
      by (rule switch_completes_but [OF k1(2) c k1(4)]) (use k1(5,6) f d(5) [OF a(1)] in simp_all)
    with v True f(1) show ?thesis by (auto simp: t_def [symmetric])
  next
    case False
    then have "step_but {t} 0 D T 0 k k1"
      using k1(2,4,5,6) c f d(2,3) d(5) [OF a(1)] by (simp add: step_but_def kernel_ok_def top_runs_def)
    with v False f(1) show ?thesis by (simp add: t_def [symmetric])
  qed
qed

lemma resume_task_ok:
  assumes ok: "kernel_ok D T k" and al: "allowed D T k (Resume t)"
  shows "\<exists>k'. vTaskResume t k = Some k' \<and> good_step D T 0 k k'"
proof (cases "t \<noteq> pxCurrentTCB k \<and> prvTaskIsTaskSuspended k t")
  case True
  note d = kernel_okD [OF ok]
  have a: "uxSchedulerSuspended k = 0" "t \<in> T" using al by simp_all
  have t0: "t \<noteq> 0" using kcoreE [OF d(1)] schedD(3) a(2) by metis
  obtain k1 where k1: "on_lists_opt (\<lambda>s. map_option snd (uxListRemove (xStateListItem t) s)) k = Some k1"
    "kcore D T (prvAddTaskToReadyList t k1)" "kframe k (prvAddTaskToReadyList t k1)" "advance T 0 k (prvAddTaskToReadyList t k1)"
    "\<And>u. ready (prvAddTaskToReadyList t k1) u \<longleftrightarrow> ready k u \<or> u = t" "xTickCount (prvAddTaskToReadyList t k1) = xTickCount k"
    by (rule resume_task_core [OF d(1) a(2) conjunct2 [OF True]]) (rule that)
  let ?k2 = "prvAddTaskToReadyList t k1"
  note f = kframeD [OF k1(3)]
  have c: "uxSchedulerSuspended ?k2 = 0" "no_pending ?k2" "xPendedTicks ?k2 = 0" using f d a(1) by simp_all
  have v: "vTaskResume t k = (if priority_of k (pxCurrentTCB k) < priority_of k t then vTaskSwitchContext ?k2 else Some ?k2)"
    using True k1(1) f t0 by (simp add: vTaskResume_def taskYIELD_ANY_CORE_IF_USING_PREEMPTION_def)
  show ?thesis
  proof (cases "priority_of k (pxCurrentTCB k) < priority_of k t")
    case True
    have "\<exists>k'. vTaskSwitchContext ?k2 = Some k' \<and> good_step D T 0 k k' \<and> same_tasks ?k2 k'"
      by (rule switch_completes [OF k1(2) c k1(4)]) (use k1(5,6) f d(5) [OF a(1)] in simp_all)
    with v True show ?thesis by auto
  next
    case False
    then have "good_step D T 0 k ?k2"
      using k1(2,4,5,6) c f d(2,3) d(5) [OF a(1)] by (auto simp: good_step_def kernel_ok_def top_runs_def not_less)
    with v False show ?thesis by simp
  qed
next
  case False
  have "t \<in> T" using al by simp
  then have "t \<noteq> 0" using kcoreE [OF kernel_okD(1) [OF ok]] schedD(3) by metis
  with False good_step_refl [OF ok] show ?thesis by (auto simp: vTaskResume_def)
qed

lemma priority_ok:
  assumes ok: "kernel_ok D T k" and al: "allowed D T k (Prioritise h p)"
  shows "\<exists>k'. vTaskPrioritySet h p k = Some k' \<and> good_step D T 0 k k'"
proof -
  note d = kernel_okD [OF ok]
  define t where "t = prvGetTCBFromHandle k h"
  have a: "uxSchedulerSuspended k = 0" "t \<in> T" "p < 4" using al by (simp_all add: t_def)
  have t0: "t \<noteq> 0" using kcoreE [OF d(1)] schedD(3) a(2) by metis
  have h: "vTaskPrioritySet h p k = vTaskPrioritySet t p k"
    using t0 by (simp add: vTaskPrioritySet_def t_def prvGetTCBFromHandle_def)
  obtain k1 where k1: "reprioritised t p k = Some k1" "kcore D T k1" "advance T 0 k k1"
    "\<And>u. u \<in> T \<Longrightarrow> ready k1 u \<longleftrightarrow> ready k u" "\<And>u. priority_of k1 u = (if u = t then p else priority_of k u)"
    "pxCurrentTCB k1 = pxCurrentTCB k" "xTickCount k1 = xTickCount k" "xIdleTaskHandle k1 = xIdleTaskHandle k"
    "uxSchedulerSuspended k1 = uxSchedulerSuspended k" "xPendedTicks k1 = xPendedTicks k" "no_pending k \<Longrightarrow> no_pending k1"
    by (rule priority_core [OF d(1) a(2,3)]) (rule that)
  let ?y = "if priority_of k t < p then t \<noteq> pxCurrentTCB k \<and> priority_of k (pxCurrentTCB k) < p else t = pxCurrentTCB k"
  have c: "uxSchedulerSuspended k1 = 0" "no_pending k1" "xPendedTicks k1 = 0" using k1 d a(1) by simp_all
  note v = vTaskPrioritySet_eq [OF t0 a(3), of k]
  show ?thesis
  proof (cases "priority_of k t = p")
    case True
    with v h good_step_refl [OF ok] show ?thesis by simp
  next
    case ne: False
    show ?thesis
    proof (cases ?y)
      case True
      have "\<exists>k'. vTaskSwitchContext k1 = Some k' \<and> good_step D T 0 k k' \<and> same_tasks k1 k'"
        by (rule switch_completes [OF k1(2) c k1(3)]) (use k1(4,7,8) d(5) [OF a(1)] in simp_all)
      with v h ne k1(1) True show ?thesis by auto
    next
      case False
      have top: "priority_of k1 u \<le> priority_of k1 (pxCurrentTCB k1)" if u: "u \<in> T" "ready k1 u" for u
      proof -
        have "priority_of k u \<le> priority_of k (pxCurrentTCB k)" using d(3) u k1(4) [OF u(1)] by (auto simp: top_runs_def)
        with False ne show ?thesis using k1(5,6) by (auto simp: not_less split: if_splits)
      qed
      have cur: "pxCurrentTCB k \<in> T" by (rule kcoreD(6) [OF d(1)])
      have "good_step D T 0 k k1"
        using k1(2,3,4,6,7,8) c d(2) d(5) [OF a(1)] cur top by (simp add: good_step_def kernel_ok_def top_runs_def)
      with v h ne k1(1) False show ?thesis by simp
    qed
  qed
qed

text \<open>Every allowed event succeeds and keeps the invariant.\<close>

lemma kstep_ok:
  assumes ok: "kernel_ok D T k" and al: "allowed D T k e"
  shows "\<exists>k'. kstep e k = Some k' \<and> step_but (stops e k) (ticks e) D T (ticks_of e k) k k'"
proof (cases e)
  case Tick
  then show ?thesis using tick_ok [OF ok] by simp
next
  case Yield
  then show ?thesis using yield_ok [OF ok] by simp
next
  case (Delay n)
  show ?thesis
  proof (cases "n = 0")
    case True
    with Delay yield_ok [OF ok] show ?thesis by (simp add: vTaskDelay_def)
  next
    case False
    with Delay al delay_ok [OF ok False] show ?thesis by auto
  qed
next
  case (Wait l n)
  then show ?thesis using wait_ok [OF ok, of l n] al by simp
next
  case (Wake l)
  then show ?thesis using wake_ok [OF ok, of l] al by auto
next
  case SuspendAll
  then show ?thesis using suspend_ok [OF ok] al by simp
next
  case ResumeAll
  then show ?thesis using resume_ok [OF ok] al by auto
next
  case (Suspend h)
  then show ?thesis using suspend_task_ok [OF ok, of h] al by simp
next
  case (Resume u)
  then show ?thesis using resume_task_ok [OF ok, of u] al by simp
next
  case (Prioritise h p)
  then show ?thesis using priority_ok [OF ok, of h p] al by simp
qed

lemma kstepD:
  assumes "kernel_ok D T k" and "allowed D T k e" and "kstep e k = Some k'"
  shows "step_but (stops e k) (ticks e) D T (ticks_of e k) k k'"
  using kstep_ok [OF assms(1,2)] assms(3) by auto

text \<open>No tick is lost: it is counted or held back.\<close>

lemma kstep_balance:
  assumes ok: "kernel_ok D T k" and al: "allowed D T k e" and st: "kstep e k = Some k'"
    and lt: "unat (xPendedTicks k) + ticks e < 4294967296"
  shows "unat (xPendedTicks k) + ticks e = ticks_of e k + unat (xPendedTicks k')"
proof -
  note s = step_butD [OF kstepD [OF ok al st]]
  have u: "unat (xPendedTicks k + of_nat (ticks e)) = unat (xPendedTicks k) + ticks e"
    using lt by (simp add: unat_word_ariths unat_of_nat)
  show ?thesis
  proof (cases "ticks_of e k = 0")
    case True
    with s(5) u show ?thesis by simp
  next
    case False
    then have "xPendedTicks k' = 0" using s(6) kernel_okD(5) [OF s(1)] by simp
    with s(5) have e: "xPendedTicks k + of_nat (ticks e) = of_nat (ticks_of e k)" by simp
    have "ticks_of e k < 4294967296" using unat_u32_less [of "xPendedTicks k"] by (cases e) simp_all
    with e u \<open>xPendedTicks k' = 0\<close> show ?thesis by (simp add: unat_of_nat_u32)
  qed
qed

section \<open>Runs\<close>

text \<open>The states that sequences of allowed events reach, with the number of tick interrupts on the way.\<close>

inductive kreach :: "nat set \<Rightarrow> nat set \<Rightarrow> 'a kernel_scheme \<Rightarrow> nat \<Rightarrow> 'a kernel_scheme \<Rightarrow> bool"
  for D :: "nat set" and T :: "nat set" and k :: "'a kernel_scheme" where
  start: "kreach D T k 0 k"
| event: "kreach D T k c k1 \<Longrightarrow> allowed D T k1 e \<Longrightarrow> kstep e k1 = Some k2 \<Longrightarrow> kreach D T k (c + ticks e) k2"

lemma kreach_ok:
  assumes "kreach D T k c k'" and "kernel_ok D T k"
  shows "kernel_ok D T k' \<and> xIdleTaskHandle k' = xIdleTaskHandle k \<and>
    xTickCount k' + xPendedTicks k' = xTickCount k + xPendedTicks k + of_nat c"
  using assms(1)
proof induction
  case start
  with assms(2) show ?case by simp
next
  case (event c k1 e k2)
  from event.IH have ok1: "kernel_ok D T k1" by blast
  note s = step_butD [OF kstepD [OF ok1 event.hyps(2,3)]]
  have "xTickCount k2 + xPendedTicks k2 = xTickCount k1 + xPendedTicks k1 + of_nat (ticks e)"
    using s(3,5) by (simp add: algebra_simps)
  with event.IH s(1,4) show ?case by (simp add: algebra_simps)
qed

text \<open>
  The runs while a task sleeps for \<open>n\<close> ticks: nobody suspends the task, and before the \<open>n\<close>-th tick
  interrupt anything may happen, from then on only what a suspended scheduler lets happen.
\<close>

inductive sleeping :: "nat set \<Rightarrow> nat set \<Rightarrow> nat \<Rightarrow> nat \<Rightarrow> 'a kernel_scheme \<Rightarrow> nat \<Rightarrow> 'a kernel_scheme \<Rightarrow> bool"
  for D :: "nat set" and T :: "nat set" and t :: nat and n :: nat and k :: "'a kernel_scheme" where
  start: "sleeping D T t n k 0 k"
| event: "sleeping D T t n k c k1 \<Longrightarrow> allowed D T k1 e \<Longrightarrow> t \<notin> stops e k1 \<Longrightarrow> kstep e k1 = Some k2 \<Longrightarrow>
    c + ticks e < n \<or> uxSchedulerSuspended k2 \<noteq> 0 \<Longrightarrow> sleeping D T t n k (c + ticks e) k2"

text \<open>The task has slept \<open>g\<close> of its ticks, those held back aside.\<close>

definition slept :: "nat set \<Rightarrow> nat set \<Rightarrow> nat \<Rightarrow> nat \<Rightarrow> nat \<Rightarrow> nat \<Rightarrow> 'a kernel_scheme \<Rightarrow> bool" where
  "slept D T t n c g k \<longleftrightarrow> kernel_ok D T k \<and> g < n \<and> naps k t (n - g) \<and>
     (uxSchedulerSuspended k = 0 \<longrightarrow> c < n) \<and> (c < 4294967296 \<longrightarrow> c = g + unat (xPendedTicks k))"

lemma slept_step:
  assumes s: "slept D T t n c g k" and t: "t \<in> T" and n: "n < 4294967296"
    and e: "allowed D T k e" "t \<notin> stops e k" "kstep e k = Some k'"
  shows "kernel_ok D T k'"
    and "c + ticks e < 4294967296 \<Longrightarrow> c + ticks e = g + ticks_of e k + unat (xPendedTicks k')"
    and "g + ticks_of e k < n \<Longrightarrow> naps k' t (n - (g + ticks_of e k))" and "n \<le> g + ticks_of e k \<Longrightarrow> ready k' t"
    and "ticks_of e k = 0 \<or> uxSchedulerSuspended k' = 0"
proof -
  have ok: "kernel_ok D T k" and g: "g < n" "naps k t (n - g)" and c: "c < 4294967296 \<Longrightarrow> c = g + unat (xPendedTicks k)"
    using s by (simp_all add: slept_def)
  note st = step_butD [OF kstepD [OF ok e(1,3)]]
  show "kernel_ok D T k'" by (rule st(1))
  show "ticks_of e k = 0 \<or> uxSchedulerSuspended k' = 0" using st(6) by blast
  show "c + ticks e = g + ticks_of e k + unat (xPendedTicks k')" if "c + ticks e < 4294967296"
    using kstep_balance [OF ok e(1,3)] c that by simp
  have "t \<in> T - stops e k" using t e(2) by blast
  then have "(ticks_of e k < n - g \<longrightarrow> naps k' t (n - g - ticks_of e k)) \<and> (n - g \<le> ticks_of e k \<longrightarrow> ready k' t)"
    using st(2) g(2) unfolding advance_def by blast
  then show "g + ticks_of e k < n \<Longrightarrow> naps k' t (n - (g + ticks_of e k))" "n \<le> g + ticks_of e k \<Longrightarrow> ready k' t"
    by auto
qed

lemma sleeping_slept:
  assumes "sleeping D T t n k c k'" and ok: "kernel_ok D T k" and p: "xPendedTicks k = 0"
    and nap: "naps k t n" and t: "t \<in> T" and n: "0 < n" "n < 4294967296"
  shows "\<exists>g. slept D T t n c g k'"
  using assms(1)
proof induction
  case start
  have "slept D T t n 0 0 k" using ok p nap n by (simp add: slept_def)
  then show ?case by blast
next
  case (event c k1 e k2)
  then obtain g where s: "slept D T t n c g k1" by blast
  note st = slept_step [OF s t n(2) event.hyps(2,3,4)]
  have "g + ticks_of e k1 < n"
  proof (cases "ticks_of e k1 = 0")
    case False
    then have "c + ticks e < n" using st(5) event.hyps(5) by argo
    with st(2) n(2) show ?thesis by simp
  qed (use s in \<open>simp add: slept_def\<close>)
  then have "slept D T t n (c + ticks e) (g + ticks_of e k1) k2"
    using st(1,2,3) event.hyps(5) by (auto simp: slept_def)
  then show ?case by blast
qed

end
