(* ===== verification/Rtos_Boot.thy ===== *)
theory Rtos_Boot
  imports Rtos_Run Rtos_Task_Api
begin

text \<open>
  From the zeroed kernel variables to a running system: the tasks that are added before the scheduler
  starts, and the start itself, establish the invariant of the running kernel.
\<close>

section \<open>Starting\<close>

text \<open>
  The assignments of \<open>vTaskStartScheduler\<close> once the idle task exists; the port then starts the task
  \<open>pxCurrentTCB\<close>.
\<close>

definition scheduler_started :: "'a kernel_scheme \<Rightarrow> 'a kernel_scheme" where
  "scheduler_started k = k\<lparr>xNextTaskUnblockTime := portMAX_DELAY, xSchedulerRunning := True, xTickCount := 0\<rparr>"

section \<open>New lists\<close>

lemma lists_rep_new_list:
  assumes rep: "lists_rep s D I xs ix" and l: "l \<notin> D"
  shows "lists_rep (vListInitialise l s) (insert l D) I (xs(l := [])) (ix(l := None))"
    and "container (vListInitialise l s) i = container s i"
    and "owner (vListInitialise l s) i = owner s i" and "item_value (vListInitialise l s) i = item_value s i"
proof -
  show c: "container (vListInitialise l s) i = container s i" for i by (simp add: vListInitialise_def)
  show "owner (vListInitialise l s) i = owner s i" "item_value (vListInitialise l s) i = item_value s i"
    by (simp_all add: vListInitialise_def)
  have "list_rep (vListInitialise l s) k ((xs(l := [])) k) ((ix(l := None)) k)" if "k \<in> insert l D" for k
    using that vListInitialise_rep [of l s] lists_rep_list [OF rep, of k] l by (cases "k = l") (simp_all add: vListInitialise_other)
  moreover have "k \<noteq> l" if "container s i = Some k" for i k using lists_repD(2) [OF rep that] l by auto
  ultimately show "lists_rep (vListInitialise l s) (insert l D) I (xs(l := [])) (ix(l := None))"
    using lists_repD [OF rep] c unfolding lists_rep_def by auto
qed

lemma lists_rep_items:
  assumes "lists_rep s D I xs ix" and "I \<subseteq> J" and "finite J" and "card J < 4294967296"
  shows "lists_rep s D J xs ix"
  using assms unfolding lists_rep_def by blast

text \<open>The nine lists of the kernel.\<close>

definition all_lists :: "store \<Rightarrow> store" where
  "all_lists s = foldl (\<lambda>s l. vListInitialise l s) s [0, 1, 2, 3, 4, 5, 6, 7, 8]"

lemma prvInitialiseTaskLists_eq:
  "prvInitialiseTaskLists k = k\<lparr>lists := all_lists (lists k), pxDelayedTaskList := 4, pxOverflowDelayedTaskList := 5\<rparr>"
  by (simp add: prvInitialiseTaskLists_def all_lists_def on_lists_def Let_def pxReadyTasksLists_def)

lemma new_lists:
  assumes "lists_rep s D I xs ix" and "distinct ls" and "set ls \<inter> D = {}"
  shows "(\<exists>ix'. lists_rep (foldl (\<lambda>s l. vListInitialise l s) s ls) (set ls \<union> D) I
      (\<lambda>l. if l \<in> set ls then [] else xs l) ix') \<and>
    (\<forall>i. container (foldl (\<lambda>s l. vListInitialise l s) s ls) i = container s i \<and>
      owner (foldl (\<lambda>s l. vListInitialise l s) s ls) i = owner s i \<and>
      item_value (foldl (\<lambda>s l. vListInitialise l s) s ls) i = item_value s i)"
  using assms
proof (induction ls arbitrary: s D xs ix)
  case Nil
  then show ?case by auto
next
  case (Cons l ls)
  have l: "l \<notin> D" using Cons.prems(3) by simp
  note n = lists_rep_new_list [OF Cons.prems(1) l]
  have "distinct ls" "set ls \<inter> insert l D = {}" using Cons.prems(2,3) by auto
  note IH = Cons.IH [OF n(1) this]
  have e: "(\<lambda>k. if k \<in> set ls then [] else (xs(l := [])) k) = (\<lambda>k. if k \<in> set (l # ls) then [] else xs k)" by auto
  have "set ls \<union> insert l D = set (l # ls) \<union> D" by auto
  with IH n(2-4) e show ?case by simp
qed

lemma all_lists_rep:
  assumes "\<And>i. container s i = None" and "finite I" and "card I < 4294967296"
  shows "\<exists>ix. lists_rep (all_lists s) {..8} I (\<lambda>_. []) ix"
    and "container (all_lists s) i = None" and "owner (all_lists s) i = owner s i"
    and "item_value (all_lists s) i = item_value s i"
proof -
  let ?ls = "[0, 1, 2, 3, 4, 5, 6, 7, 8] :: nat list"
  have rep: "lists_rep s {} I (\<lambda>_. []) (\<lambda>_. None)" using assms unfolding lists_rep_def by simp
  have d: "distinct ?ls" "set ?ls \<inter> {} = {}" by simp_all
  have s: "set ?ls \<union> {} = {..8}" by auto
  note n = new_lists [OF rep d, folded all_lists_def, unfolded s]
  show "container (all_lists s) i = None" "owner (all_lists s) i = owner s i" "item_value (all_lists s) i = item_value s i"
    using n assms(1) by simp_all
  show "\<exists>ix. lists_rep (all_lists s) {..8} I (\<lambda>_. []) ix" using n by simp
qed

section \<open>Before the start\<close>

text \<open>A task that is ready to be added: its items are initialised and on no list, its stack is in order.\<close>

definition fresh_task :: "'a kernel_scheme \<Rightarrow> nat \<Rightarrow> bool" where
  "fresh_task k t \<longleftrightarrow> t \<noteq> 0 \<and> container (lists k) (2 * t) = None \<and> container (lists k) (2 * t + 1) = None \<and>
     owner (lists k) (2 * t) = t \<and> owner (lists k) (2 * t + 1) = t \<and> priority_of k t < 4 \<and> stack_intact k t"

text \<open>The tasks of \<open>T\<close> have been added, all are ready, and the first to run is one of the highest priority.\<close>

definition created :: "nat set \<Rightarrow> nat set \<Rightarrow> 'a kernel_scheme \<Rightarrow> bool" where
  "created D T k \<longleftrightarrow> (\<exists>xs ix. sched k D T xs ix) \<and> finite T \<and> (\<forall>t\<in>T. ready k t \<and> stack_intact k t) \<and>
     (\<forall>i l. container (lists k) i = Some l \<longrightarrow> l < 4) \<and> top_runs T k \<and> uxSchedulerSuspended k = 0 \<and> xPendedTicks k = 0 \<and>
     \<not> xSchedulerRunning k \<and> uxCurrentNumberOfTasks k = of_nat (card T)"

lemma task_items_finite:
  assumes "finite T"
  shows "finite (task_items T)" and "card (task_items T) = 2 * card T"
proof -
  have e: "task_items T = (\<lambda>t. 2 * t) ` T \<union> (\<lambda>t. 2 * t + 1) ` T"
  proof (rule set_eqI)
    fix i :: nat
    have "i = 2 * (i div 2) \<or> i = 2 * (i div 2) + 1" by presburger
    then show "i \<in> task_items T \<longleftrightarrow> i \<in> (\<lambda>t. 2 * t) ` T \<union> (\<lambda>t. 2 * t + 1) ` T"
      by (auto simp: task_items_def image_iff)
  qed
  show "finite (task_items T)" using assms by (simp add: e)
  have "card ((\<lambda>t. 2 * t) ` T) = card T" "card ((\<lambda>t. 2 * t + 1) ` T) = card T"
    by (simp_all add: card_image inj_on_def)
  moreover have "(\<lambda>t. 2 * t) ` T \<inter> (\<lambda>t. 2 * t + 1) ` T = {}" by auto presburger
  ultimately show "card (task_items T) = 2 * card T" using assms by (simp add: e card_Un_disjoint)
qed

lemma sched_more_tasks:
  assumes inv: "sched k D T xs ix" and f: "fresh_task k t" and fin: "finite T" "2 * card (insert t T) < 4294967296"
  shows "sched k D (insert t T) xs ix"
proof -
  have "finite (insert t T)" using fin(1) by simp
  note ti = task_items_finite [OF this]
  have "lists_rep (lists k) D (task_items (insert t T)) xs ix"
    by (rule lists_rep_items [OF schedD(1) [OF inv]]) (use ti fin(2) in \<open>auto simp: task_items_def\<close>)
  then show ?thesis using inv f unfolding sched_def fresh_task_def by simp
qed

lemma sched_current: "sched k D T xs ix \<Longrightarrow> t \<in> T \<Longrightarrow> sched (k\<lparr>pxCurrentTCB := t\<rparr>) D T xs ix"
  by (simp add: sched_def)

text \<open>Making a fresh task of the system ready.\<close>

lemma add_ready:
  assumes inv: "sched k D T xs ix" and t: "t \<in> T" and f: "fresh_task k t"
    and rs: "\<And>u. u \<in> T \<Longrightarrow> u \<noteq> t \<Longrightarrow> ready k u" and st: "\<And>u. u \<in> T \<Longrightarrow> stack_intact k u"
    and con: "\<And>i l. container (lists k) i = Some l \<Longrightarrow> l < 4" and fin: "finite T"
    and top: "\<And>u. u \<in> T \<Longrightarrow> priority_of k u \<le> priority_of k (pxCurrentTCB k)"
    and rest: "uxSchedulerSuspended k = 0" "xPendedTicks k = 0" "\<not> xSchedulerRunning k" "uxCurrentNumberOfTasks k = of_nat (card T)"
  shows "created D T (prvAddTaskToReadyList t k)"
proof -
  let ?k = "prvAddTaskToReadyList t k"
  have cn: "container (lists k) (2 * t) = None" using f by (simp add: fresh_task_def)
  note r = sched_ready [OF inv t cn]
  have p4: "unat (priority_of k t) < 4" using schedD(6) [OF inv t] by (simp add: word_less_nat_alt)
  have c: "container (lists ?k) j = (if j = 2 * t then Some (unat (priority_of k t)) else container (lists k) j)" for j by (rule r(3))
  have fld: "tcbs ?k = tcbs k" "k_mem ?k = k_mem k" "pxCurrentTCB ?k = pxCurrentTCB k" "uxSchedulerSuspended ?k = 0"
    "xPendedTicks ?k = 0" "\<not> xSchedulerRunning ?k" "uxCurrentNumberOfTasks ?k = of_nat (card T)"
    using rest by (simp_all add: prvAddTaskToReadyList_eq)
  have "ready ?k u" if "u \<in> T" for u
    using c [of "2 * u"] rs [OF that] fld(1) by (cases "u = t") (simp_all add: ready_def)
  moreover have "stack_intact ?k u" if "u \<in> T" for u using st [OF that] fld by (simp add: stack_intact_def)
  moreover have "l < 4" if "container (lists ?k) i = Some l" for i l
    using that c [of i] con [of i l] p4 by (auto split: if_splits)
  moreover have "top_runs T ?k" using top fld by (simp add: top_runs_def)
  ultimately show ?thesis using r(1) fin fld unfolding created_def by blast
qed

lemma add_next_task:
  assumes cr: "created D T k" and ne: "t \<notin> T" and f: "fresh_task k t" and sm: "2 * card (insert t T) < 4294967296"
  shows "\<exists>k'. prvAddNewTaskToReadyList t k = Some k' \<and> created D (insert t T) k' \<and>
    tcbs k' = tcbs k \<and> k_mem k' = k_mem k \<and> xIdleTaskHandle k' = xIdleTaskHandle k \<and>
    (\<forall>u. u \<noteq> t \<longrightarrow> fresh_task k u \<longrightarrow> fresh_task k' u)"
proof -
  obtain xs ix where inv: "sched k D T xs ix" using cr unfolding created_def by blast
  have cd: "finite T" "\<And>u. u \<in> T \<Longrightarrow> ready k u" "\<And>u. u \<in> T \<Longrightarrow> stack_intact k u"
    "\<And>i l. container (lists k) i = Some l \<Longrightarrow> l < 4" "top_runs T k" "uxSchedulerSuspended k = 0" "xPendedTicks k = 0"
    "\<not> xSchedulerRunning k" "uxCurrentNumberOfTasks k = of_nat (card T)"
    using cr unfolding created_def by blast+
  let ?T = "insert t T"
  let ?c = "if priority_of k (pxCurrentTCB k) \<le> priority_of k t then t else pxCurrentTCB k"
  let ?k = "k\<lparr>uxCurrentNumberOfTasks := uxCurrentNumberOfTasks k + 1, pxCurrentTCB := ?c, uxTaskNumber := uxTaskNumber k + 1\<rparr>"
  have cur: "pxCurrentTCB k \<in> T" "pxCurrentTCB k \<noteq> 0" using schedD(7) [OF inv] sched_current_pos [OF inv] by simp_all
  have inv1: "sched k D ?T xs ix" by (rule sched_more_tasks [OF inv f cd(1) sm])
  have "?c \<in> ?T" using cur by simp
  then have inv2: "sched ?k D ?T xs ix" using inv1 by (simp add: sched_def)
  have f2: "fresh_task ?k t" using f by (simp add: fresh_task_def stack_intact_def)
  have t: "t \<in> ?T" by simp
  have pr: "priority_of k u \<le> priority_of k ?c" if "u \<in> ?T" for u
  proof (cases "u = t")
    case False
    then have "priority_of k u \<le> priority_of k (pxCurrentTCB k)" using that cd(2,5) by (auto simp: top_runs_def)
    then show ?thesis by (auto intro: order_trans)
  qed auto
  have cr': "created D ?T (prvAddTaskToReadyList t ?k)"
  proof (rule add_ready [OF inv2 t f2])
    show "ready ?k u" if "u \<in> ?T" "u \<noteq> t" for u using that cd(2) by (simp add: ready_def)
    show "stack_intact ?k u" if "u \<in> ?T" for u using that cd(3) f by (auto simp: stack_intact_def fresh_task_def)
    show "l < 4" if "container (lists ?k) i = Some l" for i l using cd(4) that by simp
    show "priority_of ?k u \<le> priority_of ?k (pxCurrentTCB ?k)" if "u \<in> ?T" for u using pr [OF that] by simp
    show "uxCurrentNumberOfTasks ?k = of_nat (card ?T)" using cd(1,9) ne by simp
  qed (use cd in simp_all)
  have "prvAddNewTaskToReadyList t k = Some (prvAddTaskToReadyList t ?k)"
    using cur cd(8) by (simp add: prvAddNewTaskToReadyList_def Let_def prvAddTaskToReadyList_eq)
  moreover have "fresh_task (prvAddTaskToReadyList t ?k) u" if "u \<noteq> t" "fresh_task k u" for u
  proof -
    have cn: "container (lists ?k) (2 * t) = None" using f2 by (simp add: fresh_task_def)
    note r = sched_ready [OF inv2 t cn]
    have "2 * u + 1 \<noteq> 2 * t" by presburger
    then show ?thesis using that r(3) [of "2 * u"] r(3) [of "2 * u + 1"] same_dataD(2) [OF r(2)]
      by (simp add: fresh_task_def stack_intact_def prvAddTaskToReadyList_eq)
  qed
  ultimately show ?thesis using cr' by (auto simp: prvAddTaskToReadyList_eq)
qed

text \<open>The variables of the kernel as the start-up code leaves them.\<close>

definition zeroed :: "'a kernel_scheme \<Rightarrow> bool" where
  "zeroed k \<longleftrightarrow> (\<forall>i. container (lists k) i = None) \<and> pxCurrentTCB k = 0 \<and> uxCurrentNumberOfTasks k = 0 \<and>
     uxTopReadyPriority k = 0 \<and> uxSchedulerSuspended k = 0 \<and> xPendedTicks k = 0 \<and> \<not> xSchedulerRunning k"

lemma add_first_task:
  assumes z: "zeroed k" and f: "fresh_task k t"
  shows "\<exists>k'. prvAddNewTaskToReadyList t k = Some k' \<and> created {..8} {t} k' \<and>
    tcbs k' = tcbs k \<and> k_mem k' = k_mem k \<and> xIdleTaskHandle k' = xIdleTaskHandle k \<and>
    (\<forall>u. u \<noteq> t \<longrightarrow> fresh_task k u \<longrightarrow> fresh_task k' u)"
proof -
  have cn: "container (lists k) i = None" for i using z by (simp add: zeroed_def)
  have ti: "finite (task_items {t})" "card (task_items {t}) < 4294967296" using task_items_finite [of "{t}"] by simp_all
  note al = all_lists_rep [OF cn ti]
  obtain ix where rep: "lists_rep (all_lists (lists k)) {..8} (task_items {t}) (\<lambda>_. []) ix" using al(1) by blast
  let ?k = "k\<lparr>lists := all_lists (lists k), pxDelayedTaskList := 4, pxOverflowDelayedTaskList := 5,
      uxCurrentNumberOfTasks := 1, pxCurrentTCB := t, uxTaskNumber := uxTaskNumber k + 1\<rparr>"
  have inv: "sched ?k {..8} {t} (\<lambda>_. []) ix"
    using rep f z al(3) by (simp add: sched_def well_placed_def fresh_task_def zeroed_def)
  have f2: "fresh_task ?k t" using f al(2,3) by (simp add: fresh_task_def stack_intact_def)
  have cr: "created {..8} {t} (prvAddTaskToReadyList t ?k)"
  proof (rule add_ready [OF inv _ f2])
    show "stack_intact ?k u" if "u \<in> {t}" for u using that f2 by (simp add: fresh_task_def)
    show "l < 4" if "container (lists ?k) i = Some l" for i l using that al(2) by simp
  qed (use z in \<open>simp_all add: zeroed_def\<close>)
  have "prvAddNewTaskToReadyList t k = Some (prvAddTaskToReadyList t ?k)"
    using z by (simp add: prvAddNewTaskToReadyList_def Let_def prvAddTaskToReadyList_eq zeroed_def prvInitialiseTaskLists_eq)
  moreover have "fresh_task (prvAddTaskToReadyList t ?k) u" if "u \<noteq> t" "fresh_task k u" for u
  proof -
    have "container (lists ?k) (2 * t) = None" using al(2) by simp
    note r = sched_ready [OF inv _ this]
    have "2 * u + 1 \<noteq> 2 * t" by presburger
    then show ?thesis using that r(3) [of "2 * u"] r(3) [of "2 * u + 1"] same_dataD(2) [OF r(2)] al(2,3)
      by (simp add: fresh_task_def stack_intact_def prvAddTaskToReadyList_eq)
  qed
  ultimately show ?thesis using cr by (auto simp: prvAddTaskToReadyList_eq)
qed

primrec add_tasks :: "nat list \<Rightarrow> 'a kernel_scheme \<Rightarrow> 'a kernel_scheme option" where
  "add_tasks [] k = Some k"
| "add_tasks (t # ts) k = Option.bind (prvAddNewTaskToReadyList t k) (add_tasks ts)"

lemma add_tasks_created:
  assumes "created D T k" and "distinct ts" and "set ts \<inter> T = {}" and "\<And>t. t \<in> set ts \<Longrightarrow> fresh_task k t"
    and "2 * card (set ts \<union> T) < 4294967296"
  shows "\<exists>k'. add_tasks ts k = Some k' \<and> created D (set ts \<union> T) k' \<and> tcbs k' = tcbs k \<and> xIdleTaskHandle k' = xIdleTaskHandle k"
  using assms
proof (induction ts arbitrary: k T)
  case (Cons t ts)
  have fT: "finite T" using Cons.prems(1) by (simp add: created_def)
  have "card (insert t T) \<le> card (set (t # ts) \<union> T)" using fT by (intro card_mono) auto
  then have "2 * card (insert t T) < 4294967296" using Cons.prems(5) by linarith
  moreover have "t \<notin> T" "fresh_task k t" using Cons.prems(3,4) by auto
  ultimately obtain k1 where k1: "prvAddNewTaskToReadyList t k = Some k1" "created D (insert t T) k1"
    "tcbs k1 = tcbs k" "xIdleTaskHandle k1 = xIdleTaskHandle k" "\<And>u. u \<noteq> t \<Longrightarrow> fresh_task k u \<Longrightarrow> fresh_task k1 u"
    using add_next_task [OF Cons.prems(1)] by blast
  have fr: "fresh_task k1 u" if "u \<in> set ts" for u using that Cons.prems(2,4) by (intro k1(5)) auto
  have "distinct ts" "set ts \<inter> insert t T = {}" "2 * card (set ts \<union> insert t T) < 4294967296"
    using Cons.prems by auto
  from Cons.IH [OF k1(2) this(1,2) fr this(3)] k1(1,3,4) show ?case by auto
qed simp

section \<open>The started system\<close>

lemma started_ok:
  assumes cr: "created D T k" and i: "xIdleTaskHandle k \<in> T" and sm: "card T < 4294967296"
  shows "kernel_ok D T (scheduler_started k)"
proof -
  obtain xs ix where inv: "sched k D T xs ix" using cr unfolding created_def by blast
  have cd: "finite T" "\<And>u. u \<in> T \<Longrightarrow> ready k u" "\<And>u. u \<in> T \<Longrightarrow> stack_intact k u"
    "\<And>i l. container (lists k) i = Some l \<Longrightarrow> l < 4" "top_runs T k" "uxSchedulerSuspended k = 0" "xPendedTicks k = 0"
    "uxCurrentNumberOfTasks k = of_nat (card T)"
    using cr unfolding created_def by blast+
  have none: "container (lists k) i \<noteq> Some l" if "4 \<le> l" for i l using cd(4) [of i l] that by auto
  have "xs (pxDelayedTaskList k) = []"
  proof (rule ccontr)
    assume "xs (pxDelayedTaskList k) \<noteq> []"
    then obtain i where "i \<in> set (xs (pxDelayedTaskList k))" by (cases "xs (pxDelayedTaskList k)") auto
    then have "container (lists k) i = Some (pxDelayedTaskList k)"
      using sched_container [OF inv] sched_delayed_in(1) [OF inv] by blast
    with none [of "pxDelayedTaskList k" i] schedD(8) [OF inv] show False by auto
  qed
  then have "sched (k\<lparr>xNextTaskUnblockTime := portMAX_DELAY\<rparr>) D T xs ix" by (intro sched_next [OF inv]) simp
  then have inv': "sched (scheduler_started k) D T xs ix" by (simp add: scheduler_started_def sched_def)
  have ev: "container (lists k) (2 * t + 1) = None" for t
  proof (cases "container (lists k) (2 * t + 1)")
    case (Some l)
    then have "l < 4" by (rule cd(4))
    have "l \<in> D \<and> 2 * t + 1 \<in> set (xs l)" using sched_container [OF inv] Some by blast
    then have "fits (priority_of k) l (2 * t + 1)" using well_placedD [OF schedD(9) [OF inv]] by blast
    with \<open>l < 4\<close> show ?thesis by (simp add: fits_def)
  qed
  have "0 < card T" using cd(1) i by (auto simp: card_gt_0_iff)
  then have "(of_nat (card T) :: u32) \<noteq> 0"
    using unat_of_nat_u32 [OF sm] by (metis less_numeral_extra(3) unat_eq_zero)
  then have num: "0 < uxCurrentNumberOfTasks (scheduler_started k)"
    using cd(8) by (simp add: scheduler_started_def word_gt_0)
  have "kcore D T (scheduler_started k)"
  proof (rule kcoreI [OF inv'])
    show "on_time (scheduler_started k)"
      using none [of "pxDelayedTaskList k"] schedD(8) [OF inv] by (auto simp: on_time_def scheduler_started_def)
    show "stack_intact (scheduler_started k) t" if "t \<in> T" for t
      using cd(3) [OF that] by (simp add: stack_intact_def scheduler_started_def)
    show "idle_ready T (scheduler_started k)"
      using i cd(2) [OF i] by (simp add: idle_ready_def ready_def scheduler_started_def)
    show "waits_ok (scheduler_started k)" using ev by (simp add: waits_ok_def scheduler_started_def)
  qed (rule num)
  moreover have "no_pending k" using none by (simp add: no_pending_def)
  ultimately show ?thesis
    using cd(2,5-7) schedD(7) [OF inv]
    by (simp add: kernel_ok_def ready_def top_runs_def no_pending_def scheduler_started_def)
qed

lemma boot_ok:
  assumes z: "zeroed k" and ts: "distinct ts" and f: "\<And>t. t \<in> set ts \<Longrightarrow> fresh_task k t"
    and i: "xIdleTaskHandle k \<in> set ts" and sm: "2 * length ts < 4294967296"
  shows "\<exists>k'. add_tasks ts k = Some k' \<and> kernel_ok {..8} (set ts) (scheduler_started k') \<and>
    (\<forall>t\<in>set ts. ready (scheduler_started k') t) \<and> tcbs k' = tcbs k"
proof -
  obtain t us where ts': "ts = t # us" using i by (cases ts) auto
  have ft: "fresh_task k t" using f by (simp add: ts')
  obtain k1 where k1: "prvAddNewTaskToReadyList t k = Some k1" "created {..8} {t} k1" "xIdleTaskHandle k1 = xIdleTaskHandle k"
    "tcbs k1 = tcbs k"
    "\<And>u. u \<noteq> t \<Longrightarrow> fresh_task k u \<Longrightarrow> fresh_task k1 u"
    using add_first_task [OF z ft] by blast
  have fr: "fresh_task k1 u" if "u \<in> set us" for u using that ts f by (intro k1(5)) (auto simp: ts')
  have c: "card (set ts) = length ts" using ts by (rule distinct_card)
  have e: "set us \<union> {t} = set ts" by (auto simp: ts')
  have "distinct us" "set us \<inter> {t} = {}" "2 * card (set us \<union> {t}) < 4294967296" using ts sm c unfolding e by (auto simp: ts')
  from add_tasks_created [OF k1(2) this(1,2) fr this(3)] obtain k' where
    k': "add_tasks us k1 = Some k'" "created {..8} (set ts) k'" "xIdleTaskHandle k' = xIdleTaskHandle k1"
    "tcbs k' = tcbs k1"
    unfolding e by blast
  have "kernel_ok {..8} (set ts) (scheduler_started k')"
    by (rule started_ok [OF k'(2)]) (use k'(3) k1(3) i c sm in simp_all)
  moreover have "add_tasks ts k = Some k'" using k1(1) k'(1) by (simp add: ts')
  moreover have "ready (scheduler_started k') u" if "u \<in> set ts" for u
    using k'(2) that by (simp add: created_def ready_def scheduler_started_def)
  ultimately show ?thesis using k1(4) k'(4) by auto
qed

text \<open>Creating a queue while the system runs adds two lists to it.\<close>

lemma kernel_ok_new_list:
  assumes ok: "kernel_ok D T k" and l: "l \<notin> D"
  shows "kernel_ok (insert l D) T (k\<lparr>lists := vListInitialise l (lists k)\<rparr>)"
proof -
  note d = kernel_okD [OF ok]
  obtain xs ix where inv: "sched k D T xs ix" by (rule kcoreE [OF d(1)])
  let ?s = "vListInitialise l (lists k)"
  note n = lists_rep_new_list [OF schedD(1) [OF inv] l]
  have l8: "\<not> l \<le> 8" using schedD(2) [OF inv, of l] l by blast
  have dl: "pxDelayedTaskList k \<noteq> l" "pxOverflowDelayedTaskList k \<noteq> l" using sched_delayed_in [OF inv] l by auto
  have wp: "well_placed (priority_of k) (insert l D) (xs(l := []))" using schedD(9) [OF inv] by (auto simp: well_placed_def)
  have low: "p \<le> unat (uxTopReadyPriority k)" if "p < 4" "(xs(l := [])) p \<noteq> []" for p
    using that schedD(10) [OF inv, of p] by (simp split: if_splits)
  have "sched (k\<lparr>lists := ?s\<rparr>) (insert l D) T (xs(l := [])) (ix(l := None))"
    unfolding sched_def
  proof (intro conjI)
    show "lists_rep (lists (k\<lparr>lists := ?s\<rparr>)) (insert l D) (task_items T) (xs(l := [])) (ix(l := None))" using n(1) by simp
    show "sorted (map (item_value (lists (k\<lparr>lists := ?s\<rparr>))) ((xs(l := [])) (pxDelayedTaskList (k\<lparr>lists := ?s\<rparr>))))"
      "sorted (map (item_value (lists (k\<lparr>lists := ?s\<rparr>))) ((xs(l := [])) (pxOverflowDelayedTaskList (k\<lparr>lists := ?s\<rparr>))))"
      using schedD(12,13) [OF inv] dl n(4) by (simp_all cong: map_cong)
    show "well_placed (priority_of (k\<lparr>lists := ?s\<rparr>)) (insert l D) (xs(l := []))" using wp by simp
    show "\<forall>p<4. (xs(l := [])) p \<noteq> [] \<longrightarrow> p \<le> unat (uxTopReadyPriority (k\<lparr>lists := ?s\<rparr>))" using low by (simp del: fun_upd_apply)
  qed (use schedD(2-8,11,14) [OF inv] n(3,4) dl in auto)
  then have "kcore (insert l D) T (k\<lparr>lists := ?s\<rparr>)"
    by (rule kcoreI)
      (use kcoreD(1-5) [OF d(1)] n(2,4) in \<open>simp_all add: on_time_def waits_ok_def idle_ready_def ready_def stack_intact_def\<close>)
  then show ?thesis using d(2-5) n(2) by (simp add: kernel_ok_def ready_def top_runs_def no_pending_def)
qed

end
