(* ===== verification/Rtos_Task_Props.thy ===== *)
theory Rtos_Task_Props
  imports Rtos_Boot
begin

text \<open>
  The properties of the scheduler: booting it, who runs, how long a delay lasts, round robin among equals,
  the order of waiting tasks, and time-outs. A system of an idle task and two tasks of
  priority 2 is the concrete instance of the witnesses.
\<close>

section \<open>A concrete system\<close>

definition demo_vars :: kernel where
  "demo_vars = \<lparr>lists = \<lparr>nodes = (\<lambda>p. \<lparr>xItemValue = (case p of Item i \<Rightarrow> if i div 2 = 1 then 4 else 2 | End _ \<Rightarrow> 0), pxNext = p, pxPrevious = p,
        pvOwner = (case p of Item i \<Rightarrow> i div 2 | End _ \<Rightarrow> 0), pxContainer = None\<rparr>),
      headers = (\<lambda>_. \<lparr>uxNumberOfItems = 0, pxIndex = End 0\<rparr>)\<rparr>,
     tcbs = (\<lambda>t. \<lparr>pxTopOfStack = 0x100, uxPriority = (if t = 1 then 0 else 2), pxStack = 0, pcTaskName = []\<rparr>),
     k_mem = (\<lambda>_. 0xA5),
     k_heap = \<lparr>blk = (\<lambda>_. \<lparr>pxNextFreeBlock = 0, xBlockSize = 0\<rparr>), pxEnd = 0, xFreeBytesRemaining = 0,
       xMinimumEverFreeBytesRemaining = 0, xNumberOfSuccessfulAllocations = 0, xNumberOfSuccessfulFrees = 0\<rparr>,
     pxCurrentTCB = 0, pxDelayedTaskList = 0, pxOverflowDelayedTaskList = 0, uxDeletedTasksWaitingCleanUp = 0,
     uxCurrentNumberOfTasks = 0, xTickCount = 0, uxTopReadyPriority = 0, xSchedulerRunning = False, xPendedTicks = 0,
     xYieldPending = False, xNumOfOverflows = 0, uxTaskNumber = 0, xNextTaskUnblockTime = 0, uxSchedulerSuspended = 0,
     xIdleTaskHandle = 1\<rparr>"

definition demo_kernel :: kernel where
  "demo_kernel = scheduler_started (the (add_tasks [1, 2, 3] demo_vars))"

lemma demo_zeroed: "zeroed demo_vars"
  by (simp add: zeroed_def demo_vars_def)

lemma demo_idle: "xIdleTaskHandle demo_vars = 1"
  by (simp add: demo_vars_def)

lemma demo_fresh: "t \<noteq> 0 \<Longrightarrow> fresh_task demo_vars t"
  by (simp add: fresh_task_def demo_vars_def stack_intact_def load_bytes_def map_replicate_const)

section \<open>Boot\<close>

text \<open>
  C17: Booting. Adding tasks to the zeroed kernel with \<open>prvAddNewTaskToReadyList\<close>, the idle task
  among them, and starting the scheduler meets no failed assertion and establishes the invariant of the running kernel,
  lists that are well-formed at pointer level included: every task added is ready, at the priority it was created with, and
  the task selected to run first is one of them and has the highest priority of all.
\<close>

theorem boot_establishes_invariant:
  assumes "zeroed k" and "distinct ts" and "\<forall>t\<in>set ts. fresh_task k t"
    and "xIdleTaskHandle k \<in> set ts" and "length ts < 2 ^ 31"
  shows "\<exists>k'. add_tasks ts k = Some k' \<and> kernel_ok {..8} (set ts) (scheduler_started k') \<and>
    (\<forall>t\<in>set ts. ready (scheduler_started k') t \<and> uxPriority (tcbs k' t) = uxPriority (tcbs k t)) \<and>
    pxCurrentTCB k' \<in> set ts \<and> (\<forall>t\<in>set ts. uxPriority (tcbs k t) \<le> uxPriority (tcbs k (pxCurrentTCB k')))"
proof -
  obtain k' where k': "add_tasks ts k = Some k'" "kernel_ok {..8} (set ts) (scheduler_started k')"
    "\<forall>t\<in>set ts. ready (scheduler_started k') t" "tcbs k' = tcbs k"
    using boot_ok [OF assms(1,2)] assms(3-5) by fastforce
  note d = kernel_okD [OF k'(2)]
  have "pxCurrentTCB k' \<in> set ts" using kcoreD(6) [OF d(1)] by (simp add: scheduler_started_def)
  moreover have "uxPriority (tcbs k t) \<le> uxPriority (tcbs k (pxCurrentTCB k'))" if "t \<in> set ts" for t
    using d(3) k'(3,4) that by (simp add: top_runs_def scheduler_started_def)
  ultimately show ?thesis using k' by auto
qed

lemma boot_establishes_invariant_witness:
  "\<exists>k'. add_tasks [1, 2, 3] demo_vars = Some k' \<and> kernel_ok {..8} {1, 2, 3} (scheduler_started k') \<and>
    ready (scheduler_started k') 1 \<and> ready (scheduler_started k') 2 \<and> ready (scheduler_started k') 3"
  using boot_establishes_invariant [OF demo_zeroed, of "[1, 2, 3]"] demo_fresh by (auto simp: demo_idle)

lemma demo_ok: "kernel_ok {..8} {1, 2, 3} demo_kernel"
proof -
  have "\<exists>k'. add_tasks [1, 2, 3] demo_vars = Some k' \<and> kernel_ok {..8} (set [1, 2, 3]) (scheduler_started k') \<and>
      (\<forall>t\<in>set [1, 2, 3]. ready (scheduler_started k') t) \<and> tcbs k' = tcbs demo_vars"
    by (rule boot_ok [OF demo_zeroed]) (auto simp: demo_fresh demo_idle)
  then show ?thesis by (auto simp: demo_kernel_def)
qed

lemma demo_current: "pxCurrentTCB demo_kernel = 3" "uxSchedulerSuspended demo_kernel = 0" "xIdleTaskHandle demo_kernel = 1"
  "tcbs demo_kernel = tcbs demo_vars" "xTickCount demo_kernel = 0"
  by (simp_all add: demo_kernel_def scheduler_started_def demo_vars_def prvAddNewTaskToReadyList_def Let_def
      prvAddTaskToReadyList_def on_lists_def taskRECORD_READY_PRIORITY_def prvInitialiseTaskLists_def)

section \<open>Who runs\<close>

text \<open>
  C1: The running task. Start from a running kernel and take any sequence of tick interrupts, yields, delays,
  waits on the event list of a queue, signals to such a list, nested suspensions and resumptions of the scheduler, and calls of
  \<open>vTaskSuspend\<close>, \<open>vTaskResume\<close> and \<open>vTaskPrioritySet\<close> on existing tasks (\<open>allowed\<close> says when each may come). Then no kernel assertion
  fails, the running task is ready, no ready task has a higher priority, and every further event completes.
  No tick is lost: tick count and held-back ticks together have grown by the number of tick interrupts, and nothing
  is held back once the scheduler runs.
\<close>

theorem highest_priority_runs:
  assumes "kernel_ok D T k" and "kreach D T k c k'"
  shows "pxCurrentTCB k' \<in> T \<and> ready k' (pxCurrentTCB k') \<and>
    (\<forall>t\<in>T. ready k' t \<longrightarrow> uxPriority (tcbs k' t) \<le> uxPriority (tcbs k' (pxCurrentTCB k'))) \<and>
    (\<forall>e. allowed D T k' e \<longrightarrow> kstep e k' \<noteq> None) \<and>
    xTickCount k' + xPendedTicks k' = xTickCount k + xPendedTicks k + of_nat c \<and>
    (uxSchedulerSuspended k' = 0 \<longrightarrow> xPendedTicks k' = 0)"
proof -
  have ok: "kernel_ok D T k'" "xTickCount k' + xPendedTicks k' = xTickCount k + xPendedTicks k + of_nat c"
    using kreach_ok [OF assms(2,1)] by simp_all
  note d = kernel_okD [OF ok(1)]
  have "kstep e k' \<noteq> None" if "allowed D T k' e" for e using kstep_ok [OF ok(1) that] by auto
  with d(2,3,5) kcoreD(6) [OF d(1)] ok(2) show ?thesis by (auto simp: top_runs_def)
qed

lemma highest_priority_runs_witness:
  "\<exists>k1 y k2. tick_interrupt (vTaskSuspendAll demo_kernel) = Some k1 \<and> xTaskResumeAll k1 = Some (y, k2) \<and>
    pxCurrentTCB k2 \<in> {1, 2, 3} \<and> ready k2 (pxCurrentTCB k2) \<and> xTickCount k2 + xPendedTicks k2 = 1"
proof -
  let ?k = "vTaskSuspendAll demo_kernel"
  note d = demo_current kernel_okD(5) [OF demo_ok]
  have a: "allowed {..8} {1, 2, 3} demo_kernel SuspendAll" by (simp add: d)
  have r1: "kreach {..8} {1, 2, 3} demo_kernel 0 ?k" using kreach.event [OF kreach.start a] by simp
  have ok1: "kernel_ok {..8} {1, 2, 3} ?k" using kreach_ok [OF r1 demo_ok] by blast
  obtain k1 where k1: "kstep Tick ?k = Some k1" using kstep_ok [OF ok1, of Tick] by auto
  have r2: "kreach {..8} {1, 2, 3} demo_kernel 1 k1" using kreach.event [OF r1 _ k1] by simp
  have ok2: "kernel_ok {..8} {1, 2, 3} k1" using kreach_ok [OF r2 demo_ok] by blast
  have s: "allowed {..8} {1, 2, 3} k1 ResumeAll"
    using k1 d by (auto simp: vTaskSuspendAll_def tick_interrupt_def xTaskIncrementTick_def)
  obtain k2 where k2: "kstep ResumeAll k1 = Some k2" using kstep_ok [OF ok2 s] by blast
  have "kreach {..8} {1, 2, 3} demo_kernel 1 k2" using kreach.event [OF r2 s k2] by simp
  note h = highest_priority_runs [OF demo_ok this]
  have "xTickCount k2 + xPendedTicks k2 = 1" using h d by simp
  with h k1 k2 show ?thesis by auto
qed

section \<open>How long a delay lasts\<close>

text \<open>
  C2: Delays are exact. \<open>vTaskDelay\<close> with \<open>n > 0\<close> takes the calling task off the processor. Take any run of the
  kernel's events (those of the property above, so no creation or deletion of tasks, and without \<open>vTaskSuspend\<close> on this very task) that has
  seen fewer than \<open>n\<close> tick interrupts, or more but has kept the scheduler suspended since the \<open>n\<close>-th: the task is neither ready nor
  running. The event with which \<open>n\<close> tick interrupts have come and the scheduler is not suspended makes it ready: the \<open>n\<close>-th
  interrupt itself, or the \<open>xTaskResumeAll\<close> that makes up for it, with fewer than 2^32 interrupts in all. The 32-bit tick
  count may wrap around in between.
\<close>

theorem delay_exact:
  assumes "kernel_ok D T k" and "uxSchedulerSuspended k = 0" and "pxCurrentTCB k \<noteq> xIdleTaskHandle k" and "n \<noteq> 0"
  shows "\<exists>k1. vTaskDelay n k = Some k1 \<and>
    (\<forall>c k2. sleeping D T (pxCurrentTCB k) (unat n) k1 c k2 \<longrightarrow>
      \<not> ready k2 (pxCurrentTCB k) \<and> pxCurrentTCB k2 \<noteq> pxCurrentTCB k \<and>
      (\<forall>e k3. allowed D T k2 e \<longrightarrow> pxCurrentTCB k \<notin> stops e k2 \<longrightarrow> kstep e k2 = Some k3 \<longrightarrow>
        unat n \<le> c + ticks e \<longrightarrow> uxSchedulerSuspended k3 = 0 \<longrightarrow> c + ticks e < 4294967296 \<longrightarrow> ready k3 (pxCurrentTCB k)))"
proof -
  let ?t = "pxCurrentTCB k"
  have t: "?t \<in> T" by (rule kcoreD(6) [OF kernel_okD(1) [OF assms(1)]])
  from delay_ok [OF assms(1,4,2,3)] obtain k1 where
    k1: "vTaskDelay n k = Some k1" "good_step D T 0 k k1" "naps k1 ?t (unat n)" by blast
  have ok1: "kernel_ok D T k1" "xPendedTicks k1 = 0"
    using step_butD(1,5) [OF k1(2)] kernel_okD(5) [OF assms(1,2)] by simp_all
  have n: "0 < unat n" "unat n < 4294967296" using assms(4) unat_u32_less [of n] by (simp_all add: unat_gt_0)
  have main: "\<not> ready k2 ?t \<and> pxCurrentTCB k2 \<noteq> ?t \<and>
      (\<forall>e k3. allowed D T k2 e \<longrightarrow> ?t \<notin> stops e k2 \<longrightarrow> kstep e k2 = Some k3 \<longrightarrow>
        unat n \<le> c + ticks e \<longrightarrow> uxSchedulerSuspended k3 = 0 \<longrightarrow> c + ticks e < 4294967296 \<longrightarrow> ready k3 ?t)"
    if r: "sleeping D T ?t (unat n) k1 c k2" for c k2
  proof -
    obtain g where s: "slept D T ?t (unat n) c g k2" using sleeping_slept [OF r ok1 k1(3) t n] by blast
    have ok2: "kernel_ok D T k2" and nap: "naps k2 ?t (unat n - g)" using s by (simp_all add: slept_def)
    note core2 = kernel_okD(1) [OF ok2]
    have "unat (priority_of k2 ?t) < 4" using kcoreD(7) [OF core2 t] by (simp add: word_less_nat_alt)
    then have nr: "\<not> ready k2 ?t" using nap kcoreD(10) [OF core2] by (auto simp: naps_def ready_def)
    have "ready k3 ?t" if e: "allowed D T k2 e" "?t \<notin> stops e k2" "kstep e k2 = Some k3"
      and u: "unat n \<le> c + ticks e" "uxSchedulerSuspended k3 = 0" "c + ticks e < 4294967296" for e k3
    proof -
      note st = slept_step [OF s t n(2) e]
      have "xPendedTicks k3 = 0" by (rule kernel_okD(5) [OF st(1) u(2)])
      with st(2) [OF u(3)] u(1) have "unat n \<le> g + ticks_of e k2" by simp
      then show ?thesis by (rule st(4))
    qed
    with nr kernel_okD(2) [OF ok2] show ?thesis by metis
  qed
  with k1(1) show ?thesis by blast
qed

lemma delay_exact_witness:
  "\<exists>k1 k2. vTaskDelay 1 demo_kernel = Some k1 \<and> \<not> ready k1 3 \<and> pxCurrentTCB k1 \<noteq> 3 \<and>
    tick_interrupt k1 = Some k2 \<and> (uxSchedulerSuspended k2 = 0 \<longrightarrow> ready k2 3)"
proof -
  have i: "pxCurrentTCB demo_kernel \<noteq> xIdleTaskHandle demo_kernel" by (simp add: demo_current)
  from delay_exact [OF demo_ok demo_current(2) i, of 1, unfolded demo_current(1)] obtain k1 where
    k1: "vTaskDelay 1 demo_kernel = Some k1" and
    all: "\<forall>c k2. sleeping {..8} {1, 2, 3} 3 (unat (1 :: u32)) k1 c k2 \<longrightarrow> \<not> ready k2 3 \<and> pxCurrentTCB k2 \<noteq> 3 \<and>
        (\<forall>e k3. allowed {..8} {1, 2, 3} k2 e \<longrightarrow> 3 \<notin> stops e k2 \<longrightarrow> kstep e k2 = Some k3 \<longrightarrow>
          unat (1 :: u32) \<le> c + ticks e \<longrightarrow> uxSchedulerSuspended k3 = 0 \<longrightarrow> c + ticks e < 4294967296 \<longrightarrow> ready k3 3)"
    by auto
  have f: "\<not> ready k1 3" "pxCurrentTCB k1 \<noteq> 3" and
    step: "\<forall>e k3. allowed {..8} {1, 2, 3} k1 e \<longrightarrow> 3 \<notin> stops e k1 \<longrightarrow> kstep e k1 = Some k3 \<longrightarrow>
      unat (1 :: u32) \<le> 0 + ticks e \<longrightarrow> uxSchedulerSuspended k3 = 0 \<longrightarrow> 0 + ticks e < 4294967296 \<longrightarrow> ready k3 3"
    using mp [OF spec [OF spec [OF all, of 0], of k1] sleeping.start] by blast+
  have ok1: "kernel_ok {..8} {1, 2, 3} k1"
    using delay_ok [OF demo_ok _ demo_current(2) i, of 1] k1(1) by (auto dest: good_stepD(1))
  obtain k2 where k2: "kstep Tick k1 = Some k2" using kstep_ok [OF ok1, of Tick] by auto
  have "uxSchedulerSuspended k2 = 0 \<longrightarrow> ready k2 3"
    using spec [OF spec [OF step, of Tick], of k2] k2 by simp
  with k1(1) f k2 show ?thesis by auto
qed

section \<open>Equals take turns\<close>

lemma half_inj: "(\<And>i. i \<in> set xs \<Longrightarrow> even i) \<Longrightarrow> distinct xs \<Longrightarrow> distinct (map (\<lambda>i :: nat. i div 2) xs)"
  unfolding distinct_map inj_on_def by (metis dvd_mult_div_cancel)

text \<open>
  C15: Round robin. With the scheduler running, as many successive context switches as there are ready tasks of
  the running task's priority select each of them exactly once, and nobody else; no task of that
  priority is passed over, however the turn stood before.
\<close>

theorem equals_take_turns:
  assumes "kernel_ok D T k" and "uxSchedulerSuspended k = 0"
  defines "R \<equiv> {t \<in> T. ready k t \<and> uxPriority (tcbs k t) = uxPriority (tcbs k (pxCurrentTCB k))}"
  shows "\<exists>ts. selected (card R) k = Some ts \<and> distinct ts \<and> set ts = R"
proof -
  note d = kernel_okD [OF assms(1)]
  obtain xs ix where inv: "sched k D T xs ix" by (rule kcoreE [OF d(1)])
  let ?c = "pxCurrentTCB k"
  let ?p = "unat (priority_of k ?c)"
  let ?ns = "next_items (xs ?p) (ix ?p)"
  have c: "?c \<in> T" by (rule kcoreD(6) [OF d(1)])
  have p4: "?p < 4" using kcoreD(7) [OF d(1) c] by (simp add: word_less_nat_alt)
  then have pD: "?p \<in> D" using schedD(2) [OF inv] by simp
  have ne: "xs ?p \<noteq> []" using sched_ready_iff [OF inv c] d(2) by fastforce
  have item: "even i \<and> i div 2 \<in> R" if i: "i \<in> set (xs ?p)" for i
  proof -
    obtain t where t: "i = 2 * t" "t \<in> T" "ready k t" "unat (priority_of k t) = ?p" by (rule ready_list_item [OF inv p4 i])
    then have "priority_of k t = priority_of k ?c" by (simp add: word_unat_eq_iff)
    with t show ?thesis by (simp add: R_def)
  qed
  have none: "xs r = []" if r4: "r < 4" and lt: "?p < r" for r
  proof (rule ccontr)
    assume "xs r \<noteq> []"
    then obtain i where i: "i \<in> set (xs r)" by (cases "xs r") auto
    obtain t where "t \<in> T" "ready k t" "unat (priority_of k t) = r" by (rule ready_list_item [OF inv r4 i])
    with d(3) lt show False by (auto simp: top_runs_def word_le_nat_alt)
  qed
  have rep: "list_rep (lists k) ?p (xs ?p) (ix ?p)" by (rule lists_rep_list [OF schedD(1) [OF inv] pD])
  have m: "mset ?ns = mset (xs ?p)" by (rule set_next_items [OF rep])
  have sn: "set ?ns = set (xs ?p)" using m by (metis set_mset_mset)
  have dn: "distinct ?ns" using m lists_rep_distinct [OF schedD(1) [OF inv] pD] by (metis mset_eq_imp_distinct_iff)
  let ?ts = "map (\<lambda>i. i div 2) ?ns"
  have dt: "distinct ?ts" by (rule half_inj [OF _ dn]) (use item sn in auto)
  have st: "set ?ts = R"
  proof
    show "set ?ts \<subseteq> R" using item sn by auto
    show "R \<subseteq> set ?ts"
    proof
      fix t assume t: "t \<in> R"
      then have "2 * t \<in> set (xs ?p)" using sched_ready_iff [OF inv, of t] by (simp add: R_def)
      then have "2 * t \<in> set ?ns" using sn by simp
      then have "2 * t div 2 \<in> set ?ts" unfolding set_map by (rule imageI)
      then show "t \<in> set ?ts" by simp
    qed
  qed
  have card: "card R = length ?ns" using distinct_card [OF dt] st by simp
  have "selected (length ?ns) k = Some (map (\<lambda>i. i div 2) (take (length ?ns) ?ns))"
    by (rule selected_sched [OF inv assms(2) _ p4 ne none]) (use kcoreD(2) [OF d(1)] in simp_all)
  with card dt st show ?thesis by auto
qed

lemma equals_take_turns_witness:
  "\<exists>ts. selected (card {t \<in> {1, 2, 3}. ready demo_kernel t \<and>
      uxPriority (tcbs demo_kernel t) = uxPriority (tcbs demo_kernel (pxCurrentTCB demo_kernel))}) demo_kernel = Some ts \<and> distinct ts"
  using equals_take_turns [OF demo_ok demo_current(2)] by blast

section \<open>The order of waiting tasks\<close>

text \<open>The event items of waiting tasks carry the priorities, upside down.\<close>

definition by_priority :: "'a kernel_scheme \<Rightarrow> nat \<Rightarrow> bool" where
  "by_priority k i \<longleftrightarrow> item_value (lists k) i = configMAX_PRIORITIES - priority_of k (i div 2)"

definition in_priority_order :: "'a kernel_scheme \<Rightarrow> nat list \<Rightarrow> bool" where
  "in_priority_order k ys \<longleftrightarrow> sorted (map (item_value (lists k)) ys) \<and> (\<forall>i\<in>set ys. by_priority k i)"

lemma ains_filter:
  "sorted (map val xs) \<Longrightarrow> ains val i xs = filter (\<lambda>x. val x \<le> val i) xs @ [i] @ filter (\<lambda>x. val i < val x) xs"
proof (induction xs)
  case (Cons x xs)
  show ?case
  proof (cases "val x \<le> val i")
    case True
    then show ?thesis using Cons by (auto simp: ains_def not_less)
  next
    case False
    then have "val i < val y" if "y \<in> set (x # xs)" for y using Cons.prems that by (fastforce simp: not_le)
    then have "filter (\<lambda>y. val i < val y) (x # xs) = x # xs" "filter (\<lambda>y. val y \<le> val i) (x # xs) = []"
      by (auto simp: filter_empty_conv not_le intro!: filter_True)
    moreover have "ains val i (x # xs) = i # x # xs" using False by (simp add: ains_def)
    ultimately show ?thesis by (simp only: append_Nil append_Cons)
  qed
qed (simp add: ains_def)

lemma sub_mono: "a < 4 \<Longrightarrow> b < 4 \<Longrightarrow> configMAX_PRIORITIES - a \<le> configMAX_PRIORITIES - b \<longleftrightarrow> b \<le> (a :: u32)"
  by (simp add: word_le_nat_alt word_less_nat_alt unat_sub less_imp_le) linarith

text \<open>
  Waiting by priority. A task that blocks on an event list with \<open>vTaskPlaceOnEventList\<close> takes its place behind
  every waiting task of its own or a higher priority and before those of a lower one, so an event always goes to
  the task of the highest priority, and among equals to the one that has waited longest.
\<close>

lemma placed_by_priority:
  assumes "kernel_ok D T k" and "sched k D T xs ix" and "l \<in> D" and "8 < l"
    and "sorted (map (item_value (lists k)) (xs l))"
    and "\<forall>i \<in> insert (2 * pxCurrentTCB k + 1) (set (xs l)). by_priority k i"
  shows "\<exists>k' xs' ix'. vTaskPlaceOnEventList l n k = Some k' \<and> sched k' D T xs' ix' \<and>
    xs' l = filter (\<lambda>i. uxPriority (tcbs k (pxCurrentTCB k)) \<le> uxPriority (tcbs k (i div 2))) (xs l) @
      [2 * pxCurrentTCB k + 1] @
      filter (\<lambda>i. uxPriority (tcbs k (i div 2)) < uxPriority (tcbs k (pxCurrentTCB k))) (xs l) \<and>
    sorted (map (item_value (lists k')) (xs' l)) \<and> (\<forall>i\<in>set (xs' l). by_priority k' i)"
proof -
  note d = kernel_okD [OF assms(1)] and inv = assms(2)
  let ?c = "pxCurrentTCB k" and ?v = "item_value (lists k)"
  let ?i = "2 * ?c + 1"
  have t: "?c \<in> T" by (rule kcoreD(6) [OF d(1)])
  have cn: "container (lists k) ?i = None" by (rule ready_free [OF d(1) t d(2)])
  have l4: "4 \<le> l" "fits (priority_of k) l ?i" "?i div 2 \<in> T" using assms(4) t by (simp_all add: fits_def)
  have ld: "l \<noteq> pxDelayedTaskList k" using assms(4) kcoreD(10) [OF d(1)] by auto
  obtain s where ins: "vListInsert l ?i (lists k) = Some s"
    and inv1: "sched (k\<lparr>lists := s, xNextTaskUnblockTime := (if l = pxDelayedTaskList k \<and> ?v ?i < xNextTaskUnblockTime k
                then ?v ?i else xNextTaskUnblockTime k)\<rparr>) D T (xs(l := ains ?v ?i (xs l))) ix"
    and data: "same_data (lists k) s" and c: "\<And>j. container s j = (if j = ?i then Some l else container (lists k) j)"
    by (rule sched_insert [OF inv assms(3) l4(1,3) cn l4(2)]) (rule that)
  let ?k1 = "k\<lparr>lists := s\<rparr>"
  have inv1': "sched ?k1 D T (xs(l := ains ?v ?i (xs l))) ix"
    using inv1 ld by (simp only: simp_thms if_False same_next)
  have "container s (2 * ?c) = container (lists k) (2 * ?c)" using c [of "2 * ?c"] by simp
  then have rd1: "ready ?k1 (pxCurrentTCB ?k1)" using d(2) by (simp add: ready_def)
  obtain s' nx xs' ix' where
    p: "prvAddCurrentTaskToDelayedList n True ?k1 = Some (?k1\<lparr>lists := s', xNextTaskUnblockTime := nx\<rparr>)"
    and inv2: "sched (?k1\<lparr>lists := s', xNextTaskUnblockTime := nx\<rparr>) D T xs' ix'"
    and v2: "\<And>j. item_value s' j = (if j = 2 * pxCurrentTCB ?k1 \<and> \<not> (n = portMAX_DELAY \<and> True)
      then xTickCount ?k1 + n else item_value (lists ?k1) j)"
    and x2: "\<And>m. 8 < m \<Longrightarrow> xs' m = (xs(l := ains ?v ?i (xs l))) m"
    by (rule block_current [OF inv1' rd1]) (rule that)
  have xl: "xs' l = ains ?v ?i (xs l)" using x2 [OF assms(4)] by simp
  have prio: "priority_of k (i div 2) < 4 \<and> ?v i = configMAX_PRIORITIES - priority_of k (i div 2) \<and> i \<noteq> 2 * ?c"
    if i: "i \<in> insert ?i (set (xs l))" for i
  proof -
    have "i div 2 \<in> T" using i listed_task [OF inv assms(3)] t by auto
    then have "priority_of k (i div 2) < 4" by (rule kcoreD(7) [OF d(1)])
    moreover have "fits (priority_of k) l i" using i well_placedD [OF schedD(9) [OF inv] assms(3)] l4(2) by blast
    then have "i \<noteq> 2 * ?c" using assms(4) by (auto simp: fits_def)
    ultimately show ?thesis using i assms(6) by (auto simp: by_priority_def)
  qed
  have cmp: "?v i \<le> ?v ?i \<longleftrightarrow> priority_of k ?c \<le> priority_of k (i div 2)" if "i \<in> set (xs l)" for i
    using prio [of i] prio [of ?i] that sub_mono [of "priority_of k (i div 2)" "priority_of k ?c"] by simp
  have f: "filter (\<lambda>i. ?v i \<le> ?v ?i) (xs l) = filter (\<lambda>i. priority_of k ?c \<le> priority_of k (i div 2)) (xs l)"
    by (rule filter_cong [OF refl]) (rule cmp)
  have "(?v ?i < ?v i) = (priority_of k (i div 2) < priority_of k ?c)" if "i \<in> set (xs l)" for i
    unfolding not_le [symmetric] using cmp [OF that] by simp
  then have g: "filter (\<lambda>i. ?v ?i < ?v i) (xs l) = filter (\<lambda>i. priority_of k (i div 2) < priority_of k ?c) (xs l)"
    by (rule filter_cong [OF refl])
  have val: "item_value s' i = ?v i" if "i \<in> set (xs' l)" for i
  proof -
    have "i \<in> insert ?i (set (xs l))" using that by (simp add: xl set_ains)
    then have "i \<noteq> 2 * ?c" using prio by blast
    then show ?thesis using v2 [of i] same_dataD(1) [OF data] by simp
  qed
  have so: "sorted (map (item_value s') (xs' l))"
    using ains_sorted [OF assms(5), of ?i] val by (simp add: xl cong: map_cong)
  let ?k' = "?k1\<lparr>lists := s', xNextTaskUnblockTime := nx\<rparr>"
  have bp: "\<forall>i\<in>set (xs' l). by_priority ?k' i"
    using val prio by (auto simp: by_priority_def xl set_ains)
  have "vTaskPlaceOnEventList l n k = Some ?k'" using ins p by (simp add: vTaskPlaceOnEventList_def on_lists_opt_def)
  moreover have "xs' l = filter (\<lambda>i. priority_of k ?c \<le> priority_of k (i div 2)) (xs l) @ [?i] @
      filter (\<lambda>i. priority_of k (i div 2) < priority_of k ?c) (xs l)"
    using ains_filter [OF assms(5), of ?i] xl f g by simp
  moreover have "sorted (map (item_value (lists ?k')) (xs' l))" using so by simp
  ultimately show ?thesis using inv2 bp by blast
qed

text \<open>The concrete system with the lists of one queue.\<close>

definition demo_with_list :: kernel where
  "demo_with_list = demo_kernel\<lparr>lists := vListInitialise 10 (lists demo_kernel)\<rparr>"

lemma demo_with_list_ok: "kernel_ok (insert 10 {..8}) {1, 2, 3} demo_with_list"
  unfolding demo_with_list_def by (rule kernel_ok_new_list [OF demo_ok]) simp

lemma demo_values: "item_value (lists demo_with_list) (2 * 3 + 1) = 2" "pxCurrentTCB demo_with_list = 3"
  "tcbs demo_with_list = tcbs demo_vars"
  by (simp_all add: demo_with_list_def demo_kernel_def scheduler_started_def demo_vars_def prvAddNewTaskToReadyList_def Let_def
      prvAddTaskToReadyList_eq prvInitialiseTaskLists_eq all_lists_def vListInitialise_def vListInsertEnd_def)

lemma demo_list_empty: "list_empty demo_with_list 10"
  by (simp add: demo_with_list_def vListInitialise_def listLIST_IS_EMPTY_def)

lemma demo_placed:
  "\<exists>k' D xs' ix'. vTaskPlaceOnEventList 10 5 demo_with_list = Some k' \<and> sched k' D {1, 2, 3} xs' ix' \<and> xs' 10 = [7]"
proof -
  obtain xs ix where inv: "sched demo_with_list (insert 10 {..8}) {1, 2, 3} xs ix"
    by (rule kcoreE [OF kernel_okD(1) [OF demo_with_list_ok]])
  have e: "xs 10 = []" using sched_empty [OF inv, of 10] demo_list_empty by simp
  have b: "by_priority demo_with_list 7" using demo_values by (simp add: by_priority_def demo_vars_def)
  from placed_by_priority [OF demo_with_list_ok inv, of 10 5] e b demo_values(2) show ?thesis by auto
qed

section \<open>Time-outs\<close>

text \<open>
  C16: Time-outs are exact across the wrap-around. If a wait for \<open>n\<close> ticks was entered at time \<open>a\<close> and is checked at time \<open>b\<close>,
  counted without bound, with at most one wrap-around of the tick counter in between, then
  \<open>xTaskCheckForTimeOut\<close> reports expiry exactly if \<open>n\<close> ticks or more have passed, and otherwise leaves what is
  still to wait and a time-out that starts now, so that repeated checks add up.
\<close>

theorem time_out_exact:
  assumes "xTickCount k = of_nat b" and "xNumOfOverflows k = of_nat (b div 2 ^ 32)"
    and "tmo = \<lparr>xOverflowCount = of_nat (a div 2 ^ 32), xTimeOnEntering = of_nat a\<rparr>"
    and "a \<le> b" and "b div 2 ^ 32 \<le> a div 2 ^ 32 + 1" and "n \<noteq> portMAX_DELAY"
  shows "(fst (xTaskCheckForTimeOut k tmo n) \<longleftrightarrow> unat n \<le> b - a) \<and>
    (b - a < unat n \<longrightarrow> xTaskCheckForTimeOut k tmo n =
      (False, \<lparr>xOverflowCount = of_nat (b div 2 ^ 32), xTimeOnEntering = of_nat b\<rparr>, n - of_nat (b - a)))"
proof -
  let ?A = "a div 4294967296" and ?B = "b div 4294967296"
  have un: "unat (of_nat m :: u32) = m mod 4294967296" for m by (simp add: unat_of_nat)
  have ab: "a = ?A * 4294967296 + a mod 4294967296" "b = ?B * 4294967296 + b mod 4294967296" by simp_all
  have lt: "unat n < 4294967296" by (rule unat_u32_less)
  have AB: "?B = ?A \<or> ?B = ?A + 1" using div_le_mono [OF assms(4), of 4294967296] assms(5) by (simp add: le_Suc_eq)
  have le: "(of_nat a :: u32) \<le> of_nat b \<longleftrightarrow> a mod 4294967296 \<le> b mod 4294967296" by (simp add: word_le_nat_alt un)
  have sub: "(of_nat b :: u32) - of_nat a = of_nat (b - a)" using assms(4) by (simp add: of_nat_diff)
  have el: "(of_nat b :: u32) - of_nat a < n \<longleftrightarrow> (b - a) mod 4294967296 < unat n"
    unfolding sub by (simp add: word_less_nat_alt un)
  have check: "xTaskCheckForTimeOut k tmo n =
    (if (of_nat ?B :: u32) \<noteq> of_nat ?A \<and> (of_nat a :: u32) \<le> of_nat b then (True, tmo, 0)
     else if (of_nat b :: u32) - of_nat a < n
       then (False, \<lparr>xOverflowCount = of_nat (b div 2 ^ 32), xTimeOnEntering = of_nat b\<rparr>, n - of_nat (b - a))
     else (True, tmo, 0))"
    using assms(1-3,6) sub by (simp add: xTaskCheckForTimeOut_def Let_def vTaskInternalSetTimeOutState_def)
  show ?thesis
  proof (cases "?B = ?A")
    case True
    then have "b - a < 4294967296" using ab by linarith
    then have m: "(b - a) mod 4294967296 = b - a" by simp
    show ?thesis unfolding check el m using True by auto
  next
    case False
    then have B: "?B = ?A + 1" using AB by blast
    then have w: "(of_nat ?B :: u32) \<noteq> of_nat ?A" by simp
    show ?thesis
    proof (cases "a mod 4294967296 \<le> b mod 4294967296")
      case True
      then have "4294967296 \<le> b - a" using ab B by linarith
      with lt show ?thesis unfolding check using w le True by simp
    next
      case gt: False
      then have "b - a < 4294967296" using ab B by linarith
      then have m: "(b - a) mod 4294967296 = b - a" by simp
      show ?thesis unfolding check el m using gt le by auto
    qed
  qed
qed

lemma time_out_exact_witness:
  "xTaskCheckForTimeOut (demo_kernel\<lparr>xTickCount := 5, xNumOfOverflows := 1\<rparr>)
     \<lparr>xOverflowCount = 0, xTimeOnEntering = 0xFFFFFFFA\<rparr> 20 =
   (False, \<lparr>xOverflowCount = 1, xTimeOnEntering = 5\<rparr>, 9)"
  using time_out_exact [of "demo_kernel\<lparr>xTickCount := 5, xNumOfOverflows := 1\<rparr>" 4294967301
      "\<lparr>xOverflowCount = 0, xTimeOnEntering = 0xFFFFFFFA\<rparr>" 4294967290 20] by simp

end
