(* ===== verification/Rtos_Queue.thy ===== *)
theory Rtos_Queue
  imports Rtos_Task_Api
begin

text \<open>
  Queues, \<open>ddr_app/rtos/FreeRTOS/queue.c\<close>, for the repository's configuration: no queue sets, no mutexes,
  dynamic allocation only. The item storage is a ring in the kernel's byte memory, the two
  lists of waiting tasks are lists of the scheduler's store. A queue handle is the address of the queue.

  A blocking call is a loop whose passes this theory has as \<open>try\<close> (the first critical section) and
  \<open>wait\<close> (suspending the scheduler, locking the queue, queuing up, letting go). Between two passes
  the calling task is off the processor; what the rest of the system does until it runs
  again is the argument \<open>env\<close>.
\<close>

section \<open>State\<close>

record queue =
  pcHead :: u32
  pcWriteTo :: u32
  pcTail :: u32
  pcReadFrom :: u32
  uxMessagesWaiting :: u32
  uxLength :: u32
  uxItemSize :: u32
  cRxLock :: u8
  cTxLock :: u8

record qkernel = kernel +
  queues :: "nat \<Rightarrow> queue"

text \<open>The locks are signed bytes; -1 is unlocked.\<close>

abbreviation queueUNLOCKED :: u8 where "queueUNLOCKED \<equiv> 255"
abbreviation queueLOCKED_UNMODIFIED :: u8 where "queueLOCKED_UNMODIFIED \<equiv> 0"
abbreviation queueINT8_MAX :: u8 where "queueINT8_MAX \<equiv> 127"

datatype copy_position = queueSEND_TO_BACK | queueSEND_TO_FRONT | queueOVERWRITE

definition xTasksWaitingToSend :: "nat \<Rightarrow> nat" where "xTasksWaitingToSend q = 9 + 2 * q"
definition xTasksWaitingToReceive :: "nat \<Rightarrow> nat" where "xTasksWaitingToReceive q = 10 + 2 * q"

definition upd_queue :: "nat \<Rightarrow> (queue \<Rightarrow> queue) \<Rightarrow> 'a qkernel_scheme \<Rightarrow> 'a qkernel_scheme" where
  "upd_queue q f k = k\<lparr>queues := (queues k)(q := f (queues k q))\<rparr>"

section \<open>Waking tasks\<close>

definition wake_waiting :: "nat \<Rightarrow> 'a qkernel_scheme \<Rightarrow> (bool \<times> 'a qkernel_scheme) option" where
  "wake_waiting l k = (if \<not> list_empty k l then xTaskRemoveFromEventList l k else Some (False, k))"

text \<open>From a task: a yield follows at once when the woken task has the higher priority.\<close>

definition wake_and_yield :: "nat \<Rightarrow> 'a qkernel_scheme \<Rightarrow> 'a qkernel_scheme option" where
  "wake_and_yield l k = do {
     (higher, k1) \<leftarrow> wake_waiting l k;
     if higher then portYIELD_WITHIN_API k1 else Some k1
   }"

section \<open>Creation\<close>

definition xQueueGenericReset :: "nat \<Rightarrow> bool \<Rightarrow> 'a qkernel_scheme \<Rightarrow> 'a qkernel_scheme option" where
  "xQueueGenericReset q new k =
     (let Q = queues k q in
      if q \<noteq> 0 \<and> 1 \<le> uxLength Q \<and> uxItemSize Q \<le> 0xFFFFFFFF div uxLength Q then
        let k1 = upd_queue q (\<lambda>Q. Q\<lparr>pcTail := pcHead Q + uxLength Q * uxItemSize Q, uxMessagesWaiting := 0,
                    pcWriteTo := pcHead Q, pcReadFrom := pcHead Q + (uxLength Q - 1) * uxItemSize Q,
                    cRxLock := queueUNLOCKED, cTxLock := queueUNLOCKED\<rparr>) k
        in if \<not> new then wake_and_yield (xTasksWaitingToSend q) k1
           else Some (on_lists (vListInitialise (xTasksWaitingToReceive q))
                  (on_lists (vListInitialise (xTasksWaitingToSend q)) k1))
      else None)"

definition prvInitialiseNewQueue :: "u32 \<Rightarrow> u32 \<Rightarrow> u32 \<Rightarrow> nat \<Rightarrow> 'a qkernel_scheme \<Rightarrow> 'a qkernel_scheme option" where
  "prvInitialiseNewQueue len isz storage q k =
     xQueueGenericReset q True
       (upd_queue q (\<lambda>Q. Q\<lparr>pcHead := (if isz = 0 then of_nat q else storage), uxLength := len, uxItemSize := isz\<rparr>) k)"

text \<open>\<open>sizeof(Queue_t)\<close> of the 32-bit ABI.\<close>

abbreviation sizeof_Queue :: u32 where "sizeof_Queue \<equiv> 72"

definition xQueueGenericCreate :: "layout \<Rightarrow> u32 \<Rightarrow> u32 \<Rightarrow> 'a qkernel_scheme \<Rightarrow> (nat \<times> 'a qkernel_scheme) option" where
  "xQueueGenericCreate L len isz k =
     (if 0 < len \<and> isz \<le> 0xFFFFFFFF div len \<and> len * isz \<le> 0xFFFFFFFF - sizeof_Queue then do {
        (pv, k1) \<leftarrow> task_malloc L (sizeof_Queue + len * isz) k;
        if pv \<noteq> 0
        then map_option (\<lambda>k2. (unat pv, k2)) (prvInitialiseNewQueue len isz (pv + sizeof_Queue) (unat pv) k1)
        else Some (0, k1)
      }
      else None)"

definition vQueueDelete :: "layout \<Rightarrow> nat \<Rightarrow> 'a qkernel_scheme \<Rightarrow> 'a qkernel_scheme option" where
  "vQueueDelete L q k = (if q \<noteq> 0 then task_free L (of_nat q) k else None)"

section \<open>The ring of items\<close>

text \<open>
  \<open>prvCopyDataToQueue\<close> without mutexes always answers that no yield is needed, so it is a function of
  the state alone.
\<close>

definition prvCopyDataToQueue :: "nat \<Rightarrow> u32 \<Rightarrow> copy_position \<Rightarrow> 'a qkernel_scheme \<Rightarrow> 'a qkernel_scheme" where
  "prvCopyDataToQueue q item pos k =
     (let Q = queues k q; n = uxMessagesWaiting Q; sz = uxItemSize Q in
      if sz = 0 then upd_queue q (uxMessagesWaiting_update (\<lambda>_. n + 1)) k
      else if pos = queueSEND_TO_BACK then
        let k1 = k\<lparr>k_mem := store_bytes (pcWriteTo Q) (load_bytes (k_mem k) item (unat sz)) (k_mem k)\<rparr>;
            w = pcWriteTo Q + sz
        in upd_queue q (\<lambda>Q. Q\<lparr>pcWriteTo := (if pcTail Q \<le> w then pcHead Q else w),
                              uxMessagesWaiting := n + 1\<rparr>) k1
      else
        let k1 = k\<lparr>k_mem := store_bytes (pcReadFrom Q) (load_bytes (k_mem k) item (unat sz)) (k_mem k)\<rparr>;
            r = pcReadFrom Q - sz;
            n' = (if pos = queueOVERWRITE then if 0 < n then n - 1 else n else n)
        in upd_queue q (\<lambda>Q. Q\<lparr>pcReadFrom := (if r < pcHead Q then pcTail Q - sz else r),
                              uxMessagesWaiting := n' + 1\<rparr>) k1)"

definition prvCopyDataFromQueue :: "nat \<Rightarrow> u32 \<Rightarrow> 'a qkernel_scheme \<Rightarrow> 'a qkernel_scheme" where
  "prvCopyDataFromQueue q buf k =
     (let Q = queues k q; sz = uxItemSize Q in
      if sz \<noteq> 0 then
        let r = pcReadFrom Q + sz;
            r' = (if pcTail Q \<le> r then pcHead Q else r);
            k1 = upd_queue q (pcReadFrom_update (\<lambda>_. r')) k
        in k1\<lparr>k_mem := store_bytes buf (load_bytes (k_mem k1) r' (unat sz)) (k_mem k1)\<rparr>
      else k)"

definition prvIsQueueEmpty :: "'a qkernel_scheme \<Rightarrow> nat \<Rightarrow> bool" where
  "prvIsQueueEmpty k q \<longleftrightarrow> uxMessagesWaiting (queues k q) = 0"

definition prvIsQueueFull :: "'a qkernel_scheme \<Rightarrow> nat \<Rightarrow> bool" where
  "prvIsQueueFull k q \<longleftrightarrow> uxMessagesWaiting (queues k q) = uxLength (queues k q)"

section \<open>Locking\<close>

definition prvLockQueue :: "nat \<Rightarrow> 'a qkernel_scheme \<Rightarrow> 'a qkernel_scheme" where
  "prvLockQueue q =
     upd_queue q (\<lambda>Q. Q\<lparr>cRxLock := (if cRxLock Q = queueUNLOCKED then queueLOCKED_UNMODIFIED else cRxLock Q),
                        cTxLock := (if cTxLock Q = queueUNLOCKED then queueLOCKED_UNMODIFIED else cTxLock Q)\<rparr>)"

definition prvIncrementQueueTxLock :: "nat \<Rightarrow> u8 \<Rightarrow> 'a qkernel_scheme \<Rightarrow> 'a qkernel_scheme option" where
  "prvIncrementQueueTxLock q c k =
     (if scast c < uxTaskGetNumberOfTasks k then
        if c \<noteq> queueINT8_MAX then Some (upd_queue q (cTxLock_update (\<lambda>_. c + 1)) k) else None
      else Some k)"

definition prvIncrementQueueRxLock :: "nat \<Rightarrow> u8 \<Rightarrow> 'a qkernel_scheme \<Rightarrow> 'a qkernel_scheme option" where
  "prvIncrementQueueRxLock q c k =
     (if scast c < uxTaskGetNumberOfTasks k then
        if c \<noteq> queueINT8_MAX then Some (upd_queue q (cRxLock_update (\<lambda>_. c + 1)) k) else None
      else Some k)"

partial_function (option) unlock_wake :: "nat \<Rightarrow> u8 \<Rightarrow> 'a qkernel_scheme \<Rightarrow> 'a qkernel_scheme option" where
  "unlock_wake l c k =
     (if queueLOCKED_UNMODIFIED <s c then
        if \<not> list_empty k l then
          Option.bind (xTaskRemoveFromEventList l k) (\<lambda>(higher, k1).
            unlock_wake l (c - 1) (if higher then vTaskMissedYield k1 else k1))
        else Some k
      else Some k)"

definition prvUnlockQueue :: "nat \<Rightarrow> 'a qkernel_scheme \<Rightarrow> 'a qkernel_scheme option" where
  "prvUnlockQueue q k = do {
     k1 \<leftarrow> unlock_wake (xTasksWaitingToReceive q) (cTxLock (queues k q)) k;
     let k2 = upd_queue q (cTxLock_update (\<lambda>_. queueUNLOCKED)) k1;
     k3 \<leftarrow> unlock_wake (xTasksWaitingToSend q) (cRxLock (queues k2 q)) k2;
     Some (upd_queue q (cRxLock_update (\<lambda>_. queueUNLOCKED)) k3)
   }"

section \<open>Sending\<close>

text \<open>The outcome of a first critical section: a return value, or blocking from the noted time on.\<close>

datatype try_result = Returns bool | Blocks time_out

definition note_entry :: "'a qkernel_scheme \<Rightarrow> time_out option \<Rightarrow> time_out" where
  "note_entry k entry = (case entry of None \<Rightarrow> vTaskInternalSetTimeOutState k | Some tmo \<Rightarrow> tmo)"

definition send_try ::
    "nat \<Rightarrow> u32 \<Rightarrow> copy_position \<Rightarrow> u32 \<Rightarrow> time_out option \<Rightarrow> 'a qkernel_scheme \<Rightarrow> (try_result \<times> 'a qkernel_scheme) option" where
  "send_try q item pos n entry k =
     (if uxMessagesWaiting (queues k q) < uxLength (queues k q) \<or> pos = queueOVERWRITE then
        map_option (\<lambda>k1. (Returns True, k1))
          (wake_and_yield (xTasksWaitingToReceive q) (prvCopyDataToQueue q item pos k))
      else if n = 0 then Some (Returns False, k)
      else Some (Blocks (note_entry k entry), k))"

text \<open>Letting go of the queue and the scheduler, at once or after queuing up on \<open>l\<close>.\<close>

definition release_queue :: "nat \<Rightarrow> 'a qkernel_scheme \<Rightarrow> (bool \<times> 'a qkernel_scheme) option" where
  "release_queue q k = Option.bind (prvUnlockQueue q k) xTaskResumeAll"

definition block_on :: "nat \<Rightarrow> nat \<Rightarrow> u32 \<Rightarrow> 'a qkernel_scheme \<Rightarrow> 'a qkernel_scheme option" where
  "block_on l q n k = do {
     k1 \<leftarrow> vTaskPlaceOnEventList l n k;
     (yielded, k2) \<leftarrow> release_queue q k1;
     if yielded then Some k2 else portYIELD_WITHIN_API k2
   }"

text \<open>The second half of a pass: \<open>None\<close> is the return with \<open>errQUEUE_FULL\<close>.\<close>

definition send_wait ::
    "nat \<Rightarrow> time_out \<Rightarrow> u32 \<Rightarrow> 'a qkernel_scheme \<Rightarrow> ((time_out \<times> u32) option \<times> 'a qkernel_scheme) option" where
  "send_wait q tmo n k =
     (let k1 = prvLockQueue q (vTaskSuspendAll k);
          (expired, tmo', n') = xTaskCheckForTimeOut k1 tmo n
      in if \<not> expired then
           map_option (\<lambda>k2. (Some (tmo', n'), k2))
             (if prvIsQueueFull k1 q then block_on (xTasksWaitingToSend q) q n' k1
              else map_option snd (release_queue q k1))
         else map_option (\<lambda>(_, k2). (None, k2)) (release_queue q k1))"

partial_function (option) send_loop ::
    "('a qkernel_scheme \<Rightarrow> 'a qkernel_scheme option) \<Rightarrow> nat \<Rightarrow> u32 \<Rightarrow> copy_position \<Rightarrow> u32 \<Rightarrow> time_out option \<Rightarrow>
      'a qkernel_scheme \<Rightarrow> (bool \<times> 'a qkernel_scheme) option" where
  "send_loop env q item pos n entry k =
     Option.bind (send_try q item pos n entry k) (\<lambda>(r, k1).
       case r of
         Returns b \<Rightarrow> Some (b, k1)
       | Blocks tmo \<Rightarrow> Option.bind (send_wait q tmo n k1) (\<lambda>(next, k2).
           case next of
             None \<Rightarrow> Some (False, k2)
           | Some (tmo', n') \<Rightarrow> Option.bind (env k2) (send_loop env q item pos n' (Some tmo'))))"

definition xQueueGenericSend ::
    "('a qkernel_scheme \<Rightarrow> 'a qkernel_scheme option) \<Rightarrow> nat \<Rightarrow> u32 \<Rightarrow> u32 \<Rightarrow> copy_position \<Rightarrow>
      'a qkernel_scheme \<Rightarrow> (bool \<times> 'a qkernel_scheme) option" where
  "xQueueGenericSend env q item n pos k =
     (if q = 0 \<or> item = 0 \<and> uxItemSize (queues k q) \<noteq> 0 \<or> pos = queueOVERWRITE \<and> uxLength (queues k q) \<noteq> 1 \<or>
         xTaskGetSchedulerState k = taskSCHEDULER_SUSPENDED \<and> n \<noteq> 0
      then None else send_loop env q item pos n None k)"

text \<open>From an interrupt: the result, whether a task of higher priority was woken, and the state.\<close>

definition xQueueGenericSendFromISR ::
    "nat \<Rightarrow> u32 \<Rightarrow> copy_position \<Rightarrow> 'a qkernel_scheme \<Rightarrow> (bool \<times> bool \<times> 'a qkernel_scheme) option" where
  "xQueueGenericSendFromISR q item pos k =
     (let Q = queues k q in
      if q = 0 \<or> item = 0 \<and> uxItemSize Q \<noteq> 0 \<or> pos = queueOVERWRITE \<and> uxLength Q \<noteq> 1 then None
      else if uxMessagesWaiting Q < uxLength Q \<or> pos = queueOVERWRITE then
        let c = cTxLock Q; k1 = prvCopyDataToQueue q item pos k
        in if c = queueUNLOCKED
           then map_option (\<lambda>(higher, k2). (True, higher, k2)) (wake_waiting (xTasksWaitingToReceive q) k1)
           else map_option (\<lambda>k2. (True, False, k2)) (prvIncrementQueueTxLock q c k1)
      else Some (False, False, k))"

text \<open>
  Giving a semaphore; a head that is NULL marks a mutex, whose holder shares the place of
  \<open>pcTail\<close>.
\<close>

definition xQueueGiveFromISR :: "nat \<Rightarrow> 'a qkernel_scheme \<Rightarrow> (bool \<times> bool \<times> 'a qkernel_scheme) option" where
  "xQueueGiveFromISR q k =
     (let Q = queues k q; n = uxMessagesWaiting Q in
      if q = 0 \<or> uxItemSize Q \<noteq> 0 \<or> pcHead Q = 0 \<and> pcTail Q \<noteq> 0 then None
      else if n < uxLength Q then
        let c = cTxLock Q; k1 = upd_queue q (uxMessagesWaiting_update (\<lambda>_. n + 1)) k
        in if c = queueUNLOCKED
           then map_option (\<lambda>(higher, k2). (True, higher, k2)) (wake_waiting (xTasksWaitingToReceive q) k1)
           else map_option (\<lambda>k2. (True, False, k2)) (prvIncrementQueueTxLock q c k1)
      else Some (False, False, k))"

section \<open>Receiving\<close>

text \<open>
  The three receiving calls differ in their critical section and share the rest of the pass. After a
  time-out the queue is looked at once more: only if it is still empty does the call give up.
\<close>

definition receive_wait ::
    "nat \<Rightarrow> time_out \<Rightarrow> u32 \<Rightarrow> 'a qkernel_scheme \<Rightarrow> ((time_out \<times> u32) option \<times> 'a qkernel_scheme) option" where
  "receive_wait q tmo n k =
     (let k1 = prvLockQueue q (vTaskSuspendAll k);
          (expired, tmo', n') = xTaskCheckForTimeOut k1 tmo n
      in if \<not> expired then
           map_option (\<lambda>k2. (Some (tmo', n'), k2))
             (if prvIsQueueEmpty k1 q then block_on (xTasksWaitingToReceive q) q n' k1
              else map_option snd (release_queue q k1))
         else map_option (\<lambda>(_, k2). (if prvIsQueueEmpty k2 q then None else Some (tmo', n'), k2))
                (release_queue q k1))"

definition empty_try :: "u32 \<Rightarrow> time_out option \<Rightarrow> 'a qkernel_scheme \<Rightarrow> try_result" where
  "empty_try n entry k = (if n = 0 then Returns False else Blocks (note_entry k entry))"

definition receive_try ::
    "nat \<Rightarrow> u32 \<Rightarrow> u32 \<Rightarrow> time_out option \<Rightarrow> 'a qkernel_scheme \<Rightarrow> (try_result \<times> 'a qkernel_scheme) option" where
  "receive_try q buf n entry k =
     (let m = uxMessagesWaiting (queues k q) in
      if 0 < m then
        map_option (\<lambda>k1. (Returns True, k1))
          (wake_and_yield (xTasksWaitingToSend q)
            (upd_queue q (uxMessagesWaiting_update (\<lambda>_. m - 1)) (prvCopyDataFromQueue q buf k)))
      else Some (empty_try n entry k, k))"

definition take_try ::
    "nat \<Rightarrow> u32 \<Rightarrow> time_out option \<Rightarrow> 'a qkernel_scheme \<Rightarrow> (try_result \<times> 'a qkernel_scheme) option" where
  "take_try q n entry k =
     (let m = uxMessagesWaiting (queues k q) in
      if 0 < m then
        map_option (\<lambda>k1. (Returns True, k1))
          (wake_and_yield (xTasksWaitingToSend q) (upd_queue q (uxMessagesWaiting_update (\<lambda>_. m - 1)) k))
      else Some (empty_try n entry k, k))"

definition peek_try ::
    "nat \<Rightarrow> u32 \<Rightarrow> u32 \<Rightarrow> time_out option \<Rightarrow> 'a qkernel_scheme \<Rightarrow> (try_result \<times> 'a qkernel_scheme) option" where
  "peek_try q buf n entry k =
     (if 0 < uxMessagesWaiting (queues k q) then
        let r = pcReadFrom (queues k q)
        in map_option (\<lambda>k1. (Returns True, k1))
             (wake_and_yield (xTasksWaitingToReceive q)
               (upd_queue q (pcReadFrom_update (\<lambda>_. r)) (prvCopyDataFromQueue q buf k)))
      else Some (empty_try n entry k, k))"

partial_function (option) receive_loop ::
    "('a qkernel_scheme \<Rightarrow> 'a qkernel_scheme option) \<Rightarrow>
      (u32 \<Rightarrow> time_out option \<Rightarrow> 'a qkernel_scheme \<Rightarrow> (try_result \<times> 'a qkernel_scheme) option) \<Rightarrow>
      nat \<Rightarrow> u32 \<Rightarrow> time_out option \<Rightarrow> 'a qkernel_scheme \<Rightarrow> (bool \<times> 'a qkernel_scheme) option" where
  "receive_loop env attempt q n entry k =
     Option.bind (attempt n entry k) (\<lambda>(r, k1).
       case r of
         Returns b \<Rightarrow> Some (b, k1)
       | Blocks tmo \<Rightarrow> Option.bind (receive_wait q tmo n k1) (\<lambda>(next, k2).
           case next of
             None \<Rightarrow> Some (False, k2)
           | Some (tmo', n') \<Rightarrow> Option.bind (env k2) (receive_loop env attempt q n' (Some tmo'))))"

definition xQueueReceive ::
    "('a qkernel_scheme \<Rightarrow> 'a qkernel_scheme option) \<Rightarrow> nat \<Rightarrow> u32 \<Rightarrow> u32 \<Rightarrow>
      'a qkernel_scheme \<Rightarrow> (bool \<times> 'a qkernel_scheme) option" where
  "xQueueReceive env q buf n k =
     (if q = 0 \<or> buf = 0 \<and> uxItemSize (queues k q) \<noteq> 0 \<or>
         xTaskGetSchedulerState k = taskSCHEDULER_SUSPENDED \<and> n \<noteq> 0
      then None else receive_loop env (receive_try q buf) q n None k)"

definition xQueueSemaphoreTake ::
    "('a qkernel_scheme \<Rightarrow> 'a qkernel_scheme option) \<Rightarrow> nat \<Rightarrow> u32 \<Rightarrow>
      'a qkernel_scheme \<Rightarrow> (bool \<times> 'a qkernel_scheme) option" where
  "xQueueSemaphoreTake env q n k =
     (if q = 0 \<or> uxItemSize (queues k q) \<noteq> 0 \<or> xTaskGetSchedulerState k = taskSCHEDULER_SUSPENDED \<and> n \<noteq> 0
      then None else receive_loop env (take_try q) q n None k)"

definition xQueuePeek ::
    "('a qkernel_scheme \<Rightarrow> 'a qkernel_scheme option) \<Rightarrow> nat \<Rightarrow> u32 \<Rightarrow> u32 \<Rightarrow>
      'a qkernel_scheme \<Rightarrow> (bool \<times> 'a qkernel_scheme) option" where
  "xQueuePeek env q buf n k =
     (if q = 0 \<or> buf = 0 \<and> uxItemSize (queues k q) \<noteq> 0 \<or>
         xTaskGetSchedulerState k = taskSCHEDULER_SUSPENDED \<and> n \<noteq> 0
      then None else receive_loop env (peek_try q buf) q n None k)"

definition xQueueReceiveFromISR ::
    "nat \<Rightarrow> u32 \<Rightarrow> 'a qkernel_scheme \<Rightarrow> (bool \<times> bool \<times> 'a qkernel_scheme) option" where
  "xQueueReceiveFromISR q buf k =
     (let Q = queues k q; n = uxMessagesWaiting Q in
      if q = 0 \<or> buf = 0 \<and> uxItemSize Q \<noteq> 0 then None
      else if 0 < n then
        let c = cRxLock Q;
            k1 = upd_queue q (uxMessagesWaiting_update (\<lambda>_. n - 1)) (prvCopyDataFromQueue q buf k)
        in if c = queueUNLOCKED
           then map_option (\<lambda>(higher, k2). (True, higher, k2)) (wake_waiting (xTasksWaitingToSend q) k1)
           else map_option (\<lambda>k2. (True, False, k2)) (prvIncrementQueueRxLock q c k1)
      else Some (False, False, k))"

definition xQueuePeekFromISR :: "nat \<Rightarrow> u32 \<Rightarrow> 'a qkernel_scheme \<Rightarrow> (bool \<times> 'a qkernel_scheme) option" where
  "xQueuePeekFromISR q buf k =
     (let Q = queues k q in
      if q = 0 \<or> buf = 0 \<and> uxItemSize Q \<noteq> 0 \<or> uxItemSize Q = 0 then None
      else if 0 < uxMessagesWaiting Q then
        Some (True, upd_queue q (pcReadFrom_update (\<lambda>_. pcReadFrom Q)) (prvCopyDataFromQueue q buf k))
      else Some (False, k))"

section \<open>Queries\<close>

definition uxQueueMessagesWaiting :: "'a qkernel_scheme \<Rightarrow> nat \<Rightarrow> u32 option" where
  "uxQueueMessagesWaiting k q = (if q \<noteq> 0 then Some (uxMessagesWaiting (queues k q)) else None)"

definition uxQueueMessagesWaitingFromISR :: "'a qkernel_scheme \<Rightarrow> nat \<Rightarrow> u32 option" where
  "uxQueueMessagesWaitingFromISR k q = (if q \<noteq> 0 then Some (uxMessagesWaiting (queues k q)) else None)"

definition uxQueueSpacesAvailable :: "'a qkernel_scheme \<Rightarrow> nat \<Rightarrow> u32 option" where
  "uxQueueSpacesAvailable k q =
     (if q \<noteq> 0 then Some (uxLength (queues k q) - uxMessagesWaiting (queues k q)) else None)"

definition uxQueueGetQueueItemSize :: "'a qkernel_scheme \<Rightarrow> nat \<Rightarrow> u32" where
  "uxQueueGetQueueItemSize k q = uxItemSize (queues k q)"

definition uxQueueGetQueueLength :: "'a qkernel_scheme \<Rightarrow> nat \<Rightarrow> u32" where
  "uxQueueGetQueueLength k q = uxLength (queues k q)"

definition xQueueIsQueueEmptyFromISR :: "'a qkernel_scheme \<Rightarrow> nat \<Rightarrow> bool option" where
  "xQueueIsQueueEmptyFromISR k q = (if q \<noteq> 0 then Some (uxMessagesWaiting (queues k q) = 0) else None)"

definition xQueueIsQueueFullFromISR :: "'a qkernel_scheme \<Rightarrow> nat \<Rightarrow> bool option" where
  "xQueueIsQueueFullFromISR k q =
     (if q \<noteq> 0 then Some (uxMessagesWaiting (queues k q) = uxLength (queues k q)) else None)"

definition vQueueWaitForMessageRestricted :: "nat \<Rightarrow> u32 \<Rightarrow> bool \<Rightarrow> 'a qkernel_scheme \<Rightarrow> 'a qkernel_scheme option" where
  "vQueueWaitForMessageRestricted q n indefinitely k = do {
     let k1 = prvLockQueue q k;
     k2 \<leftarrow> (if uxMessagesWaiting (queues k1 q) = 0
            then vTaskPlaceOnEventListRestricted (xTasksWaitingToReceive q) n indefinitely k1 else Some k1);
     prvUnlockQueue q k2
   }"

end
