(* ===== verification/Rtos_Ring.thy ===== *)
theory Rtos_Ring
  imports Rtos_Queue
begin

text \<open>
  The ring of a queue as a sequence of items: \<open>prvCopyDataToQueue\<close> and \<open>prvCopyDataFromQueue\<close> refine appending,
  prepending, replacing and taking the first item.
\<close>

section \<open>Disjoint stores\<close>

definition apart :: "u32 \<Rightarrow> nat \<Rightarrow> u32 \<Rightarrow> nat \<Rightarrow> bool" where
  "apart a m b n \<longleftrightarrow> unat a + m \<le> unat b \<or> unat b + n \<le> unat a"

lemma load_store_apart:
  assumes "apart a (length bs) b n" and "unat a + length bs \<le> 4294967296" and "unat b + n \<le> 4294967296"
  shows "load_bytes (store_bytes a bs m) b n = load_bytes m b n"
proof -
  have "store_bytes a bs m (b + of_nat i) = m (b + of_nat i)" if i: "i < n" for i
  proof (rule store_bytes_outside)
    show "length bs \<le> 4294967296" using assms(2) by simp
    have bi: "unat (b + of_nat i) = unat b + i"
    proof -
      have "unat (b + of_nat i) = (unat b + i) mod 4294967296" by (simp add: unat_word_ariths unat_of_nat mod_simps)
      then show ?thesis using i assms(3) by simp
    qed
    have "unat (b + of_nat i - a) =
        (if unat a \<le> unat b + i then unat b + i - unat a else unat b + i + 4294967296 - unat a)"
      using unat_sub_if_size [of "b + of_nat i" a] bi by (simp add: word_size)
    then show "length bs \<le> unat (b + of_nat i - a)"
      using assms(1,2) i by (auto simp: apart_def split: if_splits)
  qed
  then show ?thesis by (simp add: load_bytes_def)
qed

section \<open>Slots\<close>

definition slot :: "queue \<Rightarrow> nat \<Rightarrow> u32" where
  "slot Q j = pcHead Q + of_nat (j * unat (uxItemSize Q))"

text \<open>The index of the slot that was read last.\<close>

definition read_index :: "queue \<Rightarrow> nat" where
  "read_index Q = (unat (pcReadFrom Q) - unat (pcHead Q)) div unat (uxItemSize Q)"

abbreviation capacity :: "queue \<Rightarrow> nat" where "capacity Q \<equiv> unat (uxLength Q)"
abbreviation item_size :: "queue \<Rightarrow> nat" where "item_size Q \<equiv> unat (uxItemSize Q)"
abbreviation count :: "queue \<Rightarrow> nat" where "count Q \<equiv> unat (uxMessagesWaiting Q)"

text \<open>
  The ring is well-formed: the storage does not wrap around and does not begin within one item of address 0, the read pointer is at
  a slot, the write pointer as many slots after it as there are items.
\<close>

definition ring_ok :: "queue \<Rightarrow> bool" where
  "ring_ok Q \<longleftrightarrow> 0 < capacity Q \<and> 0 < item_size Q \<and> unat (pcHead Q) + capacity Q * item_size Q < 4294967296 \<and>
     item_size Q \<le> unat (pcHead Q) \<and> pcTail Q = slot Q (capacity Q) \<and> read_index Q < capacity Q \<and>
     pcReadFrom Q = slot Q (read_index Q) \<and> count Q \<le> capacity Q \<and>
     pcWriteTo Q = slot Q ((read_index Q + 1 + count Q) mod capacity Q)"

definition contents :: "memory \<Rightarrow> queue \<Rightarrow> u8 list list" where
  "contents m Q = map (\<lambda>j. load_bytes m (slot Q ((read_index Q + 1 + j) mod capacity Q)) (item_size Q)) [0..<count Q]"

lemma length_contents [simp]: "length (contents m Q) = count Q"
  by (simp add: contents_def)

lemma ring_okD:
  assumes "ring_ok Q"
  shows "0 < capacity Q" "0 < item_size Q" "unat (pcHead Q) + capacity Q * item_size Q < 4294967296"
    "item_size Q \<le> unat (pcHead Q)" "pcTail Q = slot Q (capacity Q)" "read_index Q < capacity Q"
    "pcReadFrom Q = slot Q (read_index Q)" "count Q \<le> capacity Q"
    "pcWriteTo Q = slot Q ((read_index Q + 1 + count Q) mod capacity Q)"
  using assms by (simp_all add: ring_ok_def)

lemma unat_slot:
  assumes "unat (pcHead Q) + capacity Q * item_size Q < 4294967296" and "j \<le> capacity Q"
  shows "unat (slot Q j) = unat (pcHead Q) + j * item_size Q"
proof -
  have "j * item_size Q \<le> capacity Q * item_size Q" using assms(2) by (rule mult_le_mono1)
  then have lt: "unat (pcHead Q) + j * item_size Q < 4294967296" using assms(1) by linarith
  have "unat (slot Q j) = (unat (pcHead Q) + j * item_size Q) mod 4294967296"
    unfolding slot_def by (simp only: unat_word_ariths unat_of_nat) (simp add: mod_simps)
  with lt show ?thesis by simp
qed

lemma read_index_slot:
  assumes "unat (pcHead Q) + capacity Q * item_size Q < 4294967296" and "j < capacity Q" and "0 < item_size Q"
    and "pcReadFrom Q = slot Q j"
  shows "read_index Q = j"
  using unat_slot [OF assms(1), of j] assms(2-4) by (simp add: read_index_def)

text \<open>Different slots do not overlap, and none runs over the end.\<close>

lemma slots_apart:
  assumes "unat (pcHead Q) + capacity Q * item_size Q < 4294967296" and "i < capacity Q" and "j < capacity Q" and "i \<noteq> j"
  shows "apart (slot Q i) (item_size Q) (slot Q j) (item_size Q)"
proof -
  have "(i + 1) * item_size Q \<le> j * item_size Q \<or> (j + 1) * item_size Q \<le> i * item_size Q"
  proof (cases "i < j")
    case True
    then show ?thesis by (intro disjI1 mult_le_mono1) simp
  next
    case False
    then show ?thesis using assms(4) by (intro disjI2 mult_le_mono1) simp
  qed
  then show ?thesis using unat_slot [OF assms(1)] assms(2,3) by (auto simp: apart_def algebra_simps)
qed

lemma slot_end:
  assumes "unat (pcHead Q) + capacity Q * item_size Q < 4294967296" and "i < capacity Q"
  shows "unat (slot Q i) + item_size Q \<le> unat (pcHead Q) + capacity Q * item_size Q"
proof -
  have "(i + 1) * item_size Q \<le> capacity Q * item_size Q" using assms(2) by (intro mult_le_mono1) simp
  then show ?thesis using unat_slot [OF assms(1), of i] assms(2) by (simp add: algebra_simps)
qed

text \<open>Stepping a pointer forward and back around the ring, as the code does it.\<close>

lemma slot_next:
  assumes ok: "unat (pcHead Q) + capacity Q * item_size Q < 4294967296" "0 < item_size Q" "pcTail Q = slot Q (capacity Q)"
    and j: "j < capacity Q"
  shows "(if pcTail Q \<le> slot Q j + uxItemSize Q then pcHead Q else slot Q j + uxItemSize Q) = slot Q ((j + 1) mod capacity Q)"
proof -
  have s: "slot Q j + uxItemSize Q = slot Q (j + 1)" by (simp add: slot_def algebra_simps)
  have u: "unat (slot Q (j + 1)) = unat (pcHead Q) + (j + 1) * item_size Q"
    "unat (slot Q (capacity Q)) = unat (pcHead Q) + capacity Q * item_size Q" using j by (intro unat_slot [OF ok(1)]; simp)+
  have "pcTail Q \<le> slot Q (j + 1) \<longleftrightarrow> capacity Q * item_size Q \<le> (j + 1) * item_size Q"
    unfolding word_le_nat_alt ok(3) u by simp
  also have "\<dots> \<longleftrightarrow> capacity Q \<le> j + 1" using ok(2) by (simp only: mult_le_cancel2) simp
  finally have "pcTail Q \<le> slot Q (j + 1) \<longleftrightarrow> capacity Q \<le> j + 1" .
  moreover have "slot Q 0 = pcHead Q" by (simp add: slot_def)
  ultimately show ?thesis unfolding s using j by (cases "j + 1 = capacity Q") simp_all
qed

lemma slot_prev:
  assumes ok: "unat (pcHead Q) + capacity Q * item_size Q < 4294967296" "0 < item_size Q" "item_size Q \<le> unat (pcHead Q)"
    "pcTail Q = slot Q (capacity Q)" and j: "j < capacity Q"
  shows "(if slot Q j - uxItemSize Q < pcHead Q then pcTail Q - uxItemSize Q else slot Q j - uxItemSize Q) =
    slot Q ((j + capacity Q - 1) mod capacity Q)"
proof (cases j)
  case 0
  have "uxItemSize Q \<le> pcHead Q" using ok(3) by (simp add: word_le_nat_alt)
  then have "slot Q 0 - uxItemSize Q < pcHead Q"
    using ok(2,3) by (simp add: slot_def word_less_nat_alt unat_sub)
  moreover obtain c where c: "capacity Q = Suc c" using j by (cases "capacity Q") auto
  moreover have "slot Q (Suc c) = slot Q c + uxItemSize Q" by (simp add: slot_def algebra_simps)
  ultimately show ?thesis using 0 ok(4) by simp
next
  case (Suc i)
  have s: "slot Q j - uxItemSize Q = slot Q i" by (simp add: slot_def Suc algebra_simps)
  have "\<not> slot Q i < pcHead Q" using unat_slot [OF ok(1), of i] Suc j by (simp add: word_less_nat_alt)
  moreover have "(j + capacity Q - 1) mod capacity Q = i" using Suc j by simp
  ultimately show ?thesis by (simp only: s if_False)
qed

section \<open>Index arithmetic\<close>

lemma mod_ne:
  fixes a b N :: nat
  assumes "a < b" and "b - a < N"
  shows "a mod N \<noteq> b mod N"
proof
  assume "a mod N = b mod N"
  then have "N dvd b - a" using assms(1) by (metis less_imp_le mod_eq_dvd_iff_nat)
  with assms show False by (auto dest: dvd_imp_le)
qed

lemma mod_back: "0 < N \<Longrightarrow> ((r + N - 1) mod N + 1 + j) mod N = (r + j) mod (N :: nat)"
proof -
  assume "0 < N"
  then have e: "r + N - 1 + (1 + j) = r + j + N" by simp
  have "((r + N - 1) mod N + 1 + j) mod N = ((r + N - 1) mod N + (1 + j)) mod N" by (simp only: add.assoc)
  also have "\<dots> = (r + N - 1 + (1 + j)) mod N" by (rule mod_add_left_eq)
  also have "\<dots> = (r + j) mod N" by (simp only: e mod_add_self2)
  finally show ?thesis .
qed

text \<open>A store to one slot leaves the others alone.\<close>

lemma load_other_slot:
  assumes ok: "ring_ok Q" and "i < capacity Q" and "j < capacity Q" and "i \<noteq> j" and l: "length bs = item_size Q"
  shows "load_bytes (store_bytes (slot Q i) bs m) (slot Q j) (item_size Q) = load_bytes m (slot Q j) (item_size Q)"
proof -
  note d = ring_okD [OF ok]
  have "unat (slot Q i) + item_size Q \<le> 4294967296" "unat (slot Q j) + item_size Q \<le> 4294967296"
    using slot_end [OF d(3) assms(2)] slot_end [OF d(3) assms(3)] d(3) by simp_all
  then show ?thesis using slots_apart [OF d(3) assms(2,3,4)] l by (intro load_store_apart) simp_all
qed

lemma load_same_slot:
  "length bs = item_size Q \<Longrightarrow> load_bytes (store_bytes (slot Q i) bs m) (slot Q i) (item_size Q) = bs"
  using load_store_bytes [of bs "slot Q i" m] unat_u32_less [of "uxItemSize Q"] by simp

section \<open>The operations on the ring\<close>

lemma unat_inc: "count Q < capacity Q \<Longrightarrow> unat (uxMessagesWaiting Q + 1) = count Q + 1"
proof -
  assume "count Q < capacity Q"
  then have "count Q + 1 < 4294967296" using unat_u32_less [of "uxLength Q"] by linarith
  moreover have "unat (uxMessagesWaiting Q + 1) = (count Q + 1) mod 4294967296" by (simp add: unat_word_ariths)
  ultimately show ?thesis by simp
qed

text \<open>Appending.\<close>

lemma ring_append:
  assumes ok: "ring_ok Q" and m: "count Q < capacity Q" and l: "length bs = item_size Q"
  defines "w \<equiv> (read_index Q + 1 + count Q) mod capacity Q"
  defines "Q' \<equiv> Q\<lparr>pcWriteTo := slot Q ((w + 1) mod capacity Q), uxMessagesWaiting := uxMessagesWaiting Q + 1\<rparr>"
  shows "ring_ok Q'" and "contents (store_bytes (slot Q w) bs mem) Q' = contents mem Q @ [bs]"
proof -
  note d = ring_okD [OF ok]
  let ?N = "capacity Q" and ?r = "read_index Q"
  have c: "count Q' = count Q + 1" using unat_inc [OF m] by (simp add: Q'_def)
  have same: "slot Q' = slot Q" "read_index Q' = ?r" "capacity Q' = ?N" "item_size Q' = item_size Q"
    by (simp_all add: Q'_def slot_def fun_eq_iff read_index_def)
  have w1: "(w + 1) mod ?N = (?r + 1 + (count Q + 1)) mod ?N" by (simp add: w_def mod_simps)
  have "pcWriteTo Q' = slot Q' ((read_index Q' + 1 + count Q') mod capacity Q')"
    unfolding same c w1 [symmetric] by (simp add: Q'_def)
  moreover have "pcHead Q' = pcHead Q" "pcTail Q' = pcTail Q" "pcReadFrom Q' = pcReadFrom Q" by (simp_all add: Q'_def)
  moreover have "count Q' \<le> capacity Q'" using c m same by simp
  ultimately show "ring_ok Q'" using d unfolding ring_ok_def same by simp
  have w: "w < ?N" using d(1) by (simp add: w_def)
  have old: "load_bytes (store_bytes (slot Q w) bs mem) (slot Q ((?r + 1 + j) mod ?N)) (item_size Q) =
      load_bytes mem (slot Q ((?r + 1 + j) mod ?N)) (item_size Q)" if "j < count Q" for j
  proof (rule load_other_slot [OF ok w _ _ l])
    show "(?r + 1 + j) mod ?N < ?N" using d(1) by simp
    have "(?r + 1 + j) mod ?N \<noteq> (?r + 1 + count Q) mod ?N" using that m by (intro mod_ne) simp_all
    then show "w \<noteq> (?r + 1 + j) mod ?N" unfolding w_def by simp
  qed
  show "contents (store_bytes (slot Q w) bs mem) Q' = contents mem Q @ [bs]"
    unfolding contents_def same c using old load_same_slot [OF l, of w] by (simp add: w_def [symmetric] add.assoc)
      (simp add: w_def)
qed

text \<open>Prepending.\<close>

lemma ring_prepend:
  assumes ok: "ring_ok Q" and m: "count Q < capacity Q" and l: "length bs = item_size Q"
  defines "r' \<equiv> (read_index Q + capacity Q - 1) mod capacity Q"
  defines "Q' \<equiv> Q\<lparr>pcReadFrom := slot Q r', uxMessagesWaiting := uxMessagesWaiting Q + 1\<rparr>"
  shows "ring_ok Q'" and "contents (store_bytes (slot Q (read_index Q)) bs mem) Q' = bs # contents mem Q"
proof -
  note d = ring_okD [OF ok]
  let ?N = "capacity Q" and ?r = "read_index Q"
  have c: "count Q' = count Q + 1" using unat_inc [OF m] by (simp add: Q'_def)
  have r': "r' < ?N" using d(1) by (simp add: r'_def)
  have same: "slot Q' = slot Q" "capacity Q' = ?N" "item_size Q' = item_size Q" "pcHead Q' = pcHead Q"
    by (simp_all add: Q'_def slot_def fun_eq_iff)
  have ri: "read_index Q' = r'"
    by (rule read_index_slot) (use d r' same in \<open>simp_all add: Q'_def\<close>)
  have bk: "(r' + 1 + j) mod ?N = (?r + j) mod ?N" for j unfolding r'_def by (rule mod_back [OF d(1)])
  have "pcWriteTo Q' = slot Q' ((read_index Q' + 1 + count Q') mod capacity Q')"
    unfolding same ri c bk using d(9) by (simp add: Q'_def add.assoc add.commute)
  moreover have "pcTail Q' = pcTail Q" "pcReadFrom Q' = slot Q r'" by (simp_all add: Q'_def)
  moreover have "count Q' \<le> capacity Q'" using c m same by simp
  ultimately show "ring_ok Q'" using d r' unfolding ring_ok_def same ri by simp
  have old: "load_bytes (store_bytes (slot Q ?r) bs mem) (slot Q ((?r + 1 + j) mod ?N)) (item_size Q) =
      load_bytes mem (slot Q ((?r + 1 + j) mod ?N)) (item_size Q)" if "j < count Q" for j
  proof (rule load_other_slot [OF ok d(6) _ _ l])
    show "(?r + 1 + j) mod ?N < ?N" using d(1) by simp
    have "?r mod ?N \<noteq> (?r + 1 + j) mod ?N" using that m by (intro mod_ne) simp_all
    then show "?r \<noteq> (?r + 1 + j) mod ?N" using d(6) by simp
  qed
  have "contents (store_bytes (slot Q ?r) bs mem) Q' =
      map (\<lambda>j. load_bytes (store_bytes (slot Q ?r) bs mem) (slot Q ((?r + j) mod ?N)) (item_size Q)) [0..<Suc (count Q)]"
    unfolding contents_def same ri c bk by simp
  also have "[0..<Suc (count Q)] = 0 # map Suc [0..<count Q]" by (simp add: map_Suc_upt upt_conv_Cons)
  finally show "contents (store_bytes (slot Q ?r) bs mem) Q' = bs # contents mem Q"
    using old load_same_slot [OF l, of ?r mem] d(6) unfolding contents_def by (simp add: o_def)
qed

text \<open>Replacing, in a queue of one item.\<close>

lemma ring_replace:
  assumes ok: "ring_ok Q" and one: "capacity Q = 1" and l: "length bs = item_size Q"
  defines "Q' \<equiv> Q\<lparr>pcReadFrom := slot Q 0, uxMessagesWaiting := 1\<rparr>"
  shows "ring_ok Q'" and "contents (store_bytes (slot Q (read_index Q)) bs mem) Q' = [bs]"
proof -
  note d = ring_okD [OF ok]
  have r: "read_index Q = 0" using d(6) one by simp
  have same: "slot Q' = slot Q" "capacity Q' = capacity Q" "item_size Q' = item_size Q" "pcHead Q' = pcHead Q" "count Q' = 1"
    by (simp_all add: Q'_def slot_def fun_eq_iff)
  have ri: "read_index Q' = 0"
    by (rule read_index_slot) (use d one same in \<open>simp_all add: Q'_def\<close>)
  have "pcTail Q' = pcTail Q" "pcReadFrom Q' = slot Q 0" "pcWriteTo Q' = pcWriteTo Q" by (simp_all add: Q'_def)
  then show "ring_ok Q'" using d one r unfolding ring_ok_def same ri by simp
  show "contents (store_bytes (slot Q (read_index Q)) bs mem) Q' = [bs]"
    unfolding contents_def same ri one r using load_same_slot [OF l, of 0 mem] by simp
qed

text \<open>Taking the first item; the rest of the memory may change outside the ring.\<close>

lemma ring_take:
  assumes ok: "ring_ok Q" and m: "0 < count Q"
    and eq: "\<And>j. j < capacity Q \<Longrightarrow> load_bytes mem' (slot Q j) (item_size Q) = load_bytes mem (slot Q j) (item_size Q)"
  defines "r' \<equiv> (read_index Q + 1) mod capacity Q"
  defines "Q' \<equiv> Q\<lparr>pcReadFrom := slot Q r', uxMessagesWaiting := uxMessagesWaiting Q - 1\<rparr>"
  shows "ring_ok Q'" and "contents mem' Q' = tl (contents mem Q)"
    and "load_bytes mem (slot Q r') (item_size Q) = hd (contents mem Q)"
proof -
  note d = ring_okD [OF ok]
  let ?N = "capacity Q" and ?r = "read_index Q"
  have "1 \<le> uxMessagesWaiting Q" using m by (simp add: word_le_nat_alt)
  then have c: "count Q' = count Q - 1" by (simp add: Q'_def unat_sub)
  have r': "r' < ?N" using d(1) by (simp add: r'_def)
  have same: "slot Q' = slot Q" "capacity Q' = ?N" "item_size Q' = item_size Q" "pcHead Q' = pcHead Q"
    by (simp_all add: Q'_def slot_def fun_eq_iff)
  have ri: "read_index Q' = r'"
    by (rule read_index_slot) (use d r' same in \<open>simp_all add: Q'_def\<close>)
  have nxt: "(r' + 1 + j) mod ?N = (?r + 1 + Suc j) mod ?N" for j
    using mod_add_left_eq [of "?r + 1" ?N "1 + j"] by (simp add: r'_def)
  have "(r' + 1 + (count Q - 1)) mod ?N = (?r + 1 + count Q) mod ?N" using nxt [of "count Q - 1"] m by simp
  then have "pcWriteTo Q' = slot Q' ((read_index Q' + 1 + count Q') mod capacity Q')"
    unfolding same ri c using d(9) by (simp add: Q'_def)
  moreover have "pcTail Q' = pcTail Q" "pcReadFrom Q' = slot Q r'" by (simp_all add: Q'_def)
  moreover have "count Q' \<le> capacity Q'" using c d(8) same by simp
  ultimately show "ring_ok Q'" using d r' unfolding ring_ok_def same ri by simp
  have "[0..<count Q] = 0 # map Suc [0..<count Q - 1]" using m by (simp add: map_Suc_upt upt_conv_Cons)
  then have cs: "contents mem Q = load_bytes mem (slot Q r') (item_size Q) #
      map (\<lambda>j. load_bytes mem (slot Q ((?r + 1 + Suc j) mod ?N)) (item_size Q)) [0..<count Q - 1]"
    unfolding contents_def by (simp add: r'_def o_def)
  then show "load_bytes mem (slot Q r') (item_size Q) = hd (contents mem Q)" by simp
  show "contents mem' Q' = tl (contents mem Q)"
    unfolding cs unfolding contents_def same ri c nxt using eq d(1) by simp
qed

end
