(* ===== verification/Rtos_Queue_Inv.thy ===== *)
theory Rtos_Queue_Inv
  imports Rtos_Ring Rtos_Run
begin

text \<open>
  Queues in the running system: what the queue operations do to a queue's items, and that they
  keep the invariant of the scheduler.
\<close>

section \<open>Memory and queues do not concern the scheduler\<close>

lemma kernel_ok_queues [simp]:
  "kernel_ok D T (k\<lparr>queues := qs\<rparr>) = kernel_ok D T (k :: 'a qkernel_scheme)"
  by (simp add: kernel_ok_def kcore_def sched_def on_time_def waits_ok_def idle_ready_def ready_def stack_intact_def
      no_pending_def top_runs_def)

lemma kcore_queues [simp]: "kcore D T (k\<lparr>queues := qs\<rparr>) = kcore D T (k :: 'a qkernel_scheme)"
  by (simp add: kcore_def sched_def on_time_def waits_ok_def idle_ready_def ready_def stack_intact_def)

lemma ready_queues [simp]: "ready (k\<lparr>queues := qs\<rparr>) = ready (k :: 'a qkernel_scheme)"
  by (simp add: ready_def fun_eq_iff)

lemma kernel_ok_mem:
  assumes ok: "kernel_ok D T k" and "\<And>t. t \<in> T \<Longrightarrow> load_bytes m (pxStack (tcbs k t)) 16 = load_bytes (k_mem k) (pxStack (tcbs k t)) 16"
  shows "kernel_ok D T (k\<lparr>k_mem := m\<rparr>)"
  using assms
  by (simp add: kernel_ok_def kcore_def on_time_def waits_ok_def idle_ready_def ready_def stack_intact_def
      no_pending_def top_runs_def)

text \<open>The scheduler does not touch memory, queues and task control blocks.\<close>

definition same_data_of :: "'a qkernel_scheme \<Rightarrow> 'a qkernel_scheme \<Rightarrow> bool" where
  "same_data_of k k' \<longleftrightarrow> queues k' = queues k \<and> k_mem k' = k_mem k \<and> tcbs k' = tcbs k \<and>
     qkernel.more k' = qkernel.more k"

lemma switch_same_data:
  "vTaskSwitchContext k = Some k' \<Longrightarrow> same_data_of k k'"
  by (auto simp: vTaskSwitchContext_def taskSELECT_HIGHEST_PRIORITY_TASK_def Let_def same_data_of_def
      split: if_splits bind_splits prod.splits)

lemma on_lists_same_data [simp]:
  "queues (on_lists f k) = queues k" "k_mem (on_lists f k) = k_mem k" "tcbs (on_lists f k) = tcbs k"
  "qkernel.more (on_lists f k) = qkernel.more k"
  by (simp_all add: on_lists_def)

lemma on_lists_opt_same_data:
  "on_lists_opt f k = Some k' \<Longrightarrow> queues k' = queues k \<and> k_mem k' = k_mem k \<and> tcbs k' = tcbs k \<and>
     qkernel.more k' = qkernel.more k"
  by (auto simp: on_lists_opt_def)

lemma ready_list_same_data [simp]:
  "queues (prvAddTaskToReadyList t k) = queues k" "k_mem (prvAddTaskToReadyList t k) = k_mem k"
  "tcbs (prvAddTaskToReadyList t k) = tcbs k"
  "qkernel.more (prvAddTaskToReadyList t k) = qkernel.more k"
  by (simp_all add: prvAddTaskToReadyList_eq)

lemma remove_event_same_data:
  "xTaskRemoveFromEventList l k = Some (h, k') \<Longrightarrow> same_data_of k k'"
  by (auto simp: xTaskRemoveFromEventList_def Let_def same_data_of_def
      split: if_splits bind_splits dest!: on_lists_opt_same_data)

lemma event_wake_same_data:
  "event_wake l k = Some k' \<Longrightarrow> same_data_of k k'"
  by (auto simp: event_wake_def same_data_of_def split: if_splits bind_splits
      dest!: remove_event_same_data switch_same_data)

text \<open>Waking a waiting task from a queue call is an event of the running system.\<close>

lemma wake_and_yield_eq: "wake_and_yield l k = event_wake l k"
  by (auto simp: wake_and_yield_def wake_waiting_def event_wake_def)

definition head_ready :: "nat \<Rightarrow> 'a qkernel_scheme \<Rightarrow> 'a qkernel_scheme \<Rightarrow> bool" where
  "head_ready l k k' \<longleftrightarrow>
     (uxSchedulerSuspended k = 0 \<and> \<not> list_empty k l \<longrightarrow> ready k' (listGET_OWNER_OF_HEAD_ENTRY l (lists k)))"

lemma wake_and_yield_ok:
  assumes "kernel_ok D T k" and "l \<in> D" and "8 < l"
  shows "\<exists>k'. wake_and_yield l k = Some k' \<and> kernel_ok D T k' \<and> same_data_of k k' \<and> head_ready l k k'"
proof -
  have "allowed D T k (Wake l)" using assms(2,3) by simp
  from wake_ok [OF assms(1) this] obtain k' where "event_wake l k = Some k'" "good_step D T 0 k k'"
    "uxSchedulerSuspended k = 0 \<and> \<not> list_empty k l \<longrightarrow> ready k' (listGET_OWNER_OF_HEAD_ENTRY l (lists k))" by blast
  then show ?thesis using event_wake_same_data good_stepD(1) by (auto simp: wake_and_yield_eq head_ready_def)
qed

section \<open>A queue in use\<close>

text \<open>
  The queue's ring is well-formed, its lists belong to the system, and its storage is away from the stacks' ends.
\<close>

definition queue_ok :: "nat set \<Rightarrow> nat set \<Rightarrow> 'a qkernel_scheme \<Rightarrow> nat \<Rightarrow> bool" where
  "queue_ok D T k q \<longleftrightarrow> q \<noteq> 0 \<and> ring_ok (queues k q) \<and> xTasksWaitingToSend q \<in> D \<and> xTasksWaitingToReceive q \<in> D \<and>
     (\<forall>t\<in>T. apart (pcHead (queues k q)) (capacity (queues k q) * item_size (queues k q)) (pxStack (tcbs k t)) 16 \<and>
        unat (pxStack (tcbs k t)) + 16 \<le> 4294967296)"

lemma queue_okD:
  assumes "queue_ok D T k q"
  shows "q \<noteq> 0" "ring_ok (queues k q)" "xTasksWaitingToSend q \<in> D" "8 < xTasksWaitingToSend q"
    "xTasksWaitingToReceive q \<in> D" "8 < xTasksWaitingToReceive q"
  using assms by (simp_all add: queue_ok_def xTasksWaitingToSend_def xTasksWaitingToReceive_def)

abbreviation items :: "'a qkernel_scheme \<Rightarrow> nat \<Rightarrow> u8 list list" where
  "items k q \<equiv> contents (k_mem k) (queues k q)"

text \<open>A store into a slot of the ring does not touch the ends of the stacks.\<close>

lemma slot_off_stacks:
  assumes q: "queue_ok D T k q" and t: "t \<in> T" and i: "i < capacity (queues k q)" and l: "length bs = item_size (queues k q)"
  shows "load_bytes (store_bytes (slot (queues k q) i) bs m) (pxStack (tcbs k t)) 16 = load_bytes m (pxStack (tcbs k t)) 16"
proof (rule load_store_apart)
  let ?Q = "queues k q"
  have ring: "ring_ok ?Q" by (rule queue_okD(2) [OF q])
  note d = ring_okD [OF ring]
  have e: "unat (slot ?Q i) + item_size ?Q \<le> unat (pcHead ?Q) + capacity ?Q * item_size ?Q" by (rule slot_end [OF d(3) i])
  have b: "unat (pcHead ?Q) \<le> unat (slot ?Q i)" using unat_slot [OF d(3), of i] i by simp
  have a: "apart (pcHead ?Q) (capacity ?Q * item_size ?Q) (pxStack (tcbs k t)) 16" "unat (pxStack (tcbs k t)) + 16 \<le> 4294967296"
    using q t by (simp_all add: queue_ok_def)
  show "apart (slot ?Q i) (length bs) (pxStack (tcbs k t)) 16" using a(1) b e l by (auto simp: apart_def)
  show "unat (slot ?Q i) + length bs \<le> 4294967296" using e d(3) l by simp
  show "unat (pxStack (tcbs k t)) + 16 \<le> 4294967296" by (rule a(2))
qed

section \<open>Copying in\<close>

text \<open>What the three ways of adding an item mean for the sequence of items.\<close>

fun put_item :: "copy_position \<Rightarrow> u8 list \<Rightarrow> u8 list list \<Rightarrow> u8 list list" where
  "put_item queueSEND_TO_BACK x is = is @ [x]"
| "put_item queueSEND_TO_FRONT x is = x # is"
| "put_item queueOVERWRITE x is = [x]"

definition has_room :: "copy_position \<Rightarrow> queue \<Rightarrow> bool" where
  "has_room pos Q \<longleftrightarrow> (if pos = queueOVERWRITE then uxLength Q = 1 else uxMessagesWaiting Q < uxLength Q)"

lemma upd_queue_same: "queues (upd_queue q f k) q = f (queues k q)"
  by (simp add: upd_queue_def)

lemma copy_in:
  fixes item :: u32
  assumes ring: "ring_ok (queues k q)" and room: "has_room pos (queues k q)"
  defines "x \<equiv> load_bytes (k_mem k) item (item_size (queues k q))"
  obtains i Q' where "i < capacity (queues k q)"
    and "prvCopyDataToQueue q item pos k =
      k\<lparr>k_mem := store_bytes (slot (queues k q) i) x (k_mem k), queues := (queues k)(q := Q')\<rparr>"
    and "ring_ok Q'" and "contents (store_bytes (slot (queues k q) i) x (k_mem k)) Q' = put_item pos x (items k q)"
    and "uxLength Q' = uxLength (queues k q)" and "uxItemSize Q' = uxItemSize (queues k q)"
    and "pcHead Q' = pcHead (queues k q)" and "cTxLock Q' = cTxLock (queues k q)" and "cRxLock Q' = cRxLock (queues k q)"
proof -
  let ?Q = "queues k q"
  note d = ring_okD [OF ring]
  have l: "length x = item_size ?Q" by (simp add: x_def)
  have nz: "uxItemSize ?Q \<noteq> 0" using d(2) by auto
  show thesis
  proof (cases pos)
    case queueSEND_TO_BACK
    then have m: "count ?Q < capacity ?Q" using room by (simp add: has_room_def word_less_nat_alt)
    define w where "w = (read_index ?Q + 1 + count ?Q) mod capacity ?Q"
    have w: "w < capacity ?Q" using d(1) by (simp add: w_def)
    let ?Q' = "?Q\<lparr>pcWriteTo := slot ?Q ((w + 1) mod capacity ?Q), uxMessagesWaiting := uxMessagesWaiting ?Q + 1\<rparr>"
    have wr: "pcWriteTo ?Q = slot ?Q w" using d(9) by (simp add: w_def)
    have "prvCopyDataToQueue q item pos k = k\<lparr>k_mem := store_bytes (slot ?Q w) x (k_mem k), queues := (queues k)(q := ?Q')\<rparr>"
      using queueSEND_TO_BACK nz slot_next [OF d(3) d(2) d(5) w]
      by (simp add: prvCopyDataToQueue_def Let_def upd_queue_def x_def wr split del: if_split cong: if_cong)
    moreover note ring_append(1) [OF ring m l, folded w_def] ring_append(2) [OF ring m l, of "k_mem k", folded w_def]
    ultimately show thesis using queueSEND_TO_BACK by (intro that [OF w, of ?Q']) simp_all
  next
    case queueSEND_TO_FRONT
    then have m: "count ?Q < capacity ?Q" using room by (simp add: has_room_def word_less_nat_alt)
    let ?r' = "(read_index ?Q + capacity ?Q - 1) mod capacity ?Q"
    let ?Q' = "?Q\<lparr>pcReadFrom := slot ?Q ?r', uxMessagesWaiting := uxMessagesWaiting ?Q + 1\<rparr>"
    have "prvCopyDataToQueue q item pos k = k\<lparr>k_mem := store_bytes (slot ?Q (read_index ?Q)) x (k_mem k), queues := (queues k)(q := ?Q')\<rparr>"
      using queueSEND_TO_FRONT nz slot_prev [OF d(3) d(2) d(4) d(5) d(6)]
      by (simp add: prvCopyDataToQueue_def Let_def upd_queue_def x_def d(7) [symmetric] split del: if_split cong: if_cong)
    moreover note ring_prepend(1) [OF ring m l] ring_prepend(2) [OF ring m l, of "k_mem k"]
    ultimately show thesis using queueSEND_TO_FRONT by (intro that [OF d(6), of ?Q']) simp_all
  next
    case queueOVERWRITE
    then have one: "capacity ?Q = 1" using room by (simp add: has_room_def)
    have r0: "read_index ?Q = 0" using d(6) one by simp
    let ?Q' = "?Q\<lparr>pcReadFrom := slot ?Q 0, uxMessagesWaiting := 1\<rparr>"
    have c: "uxMessagesWaiting ?Q = 0 \<or> uxMessagesWaiting ?Q = 1"
      using d(8) one by (metis le_Suc_eq le_zero_eq One_nat_def unat_1 unat_eq_zero word_unat_eq_iff)
    then have c': "(if 0 < uxMessagesWaiting ?Q then uxMessagesWaiting ?Q - 1 else uxMessagesWaiting ?Q) + 1 = 1" by auto
    have prev: "(if slot ?Q 0 - uxItemSize ?Q < pcHead ?Q then pcTail ?Q - uxItemSize ?Q else slot ?Q 0 - uxItemSize ?Q) = slot ?Q 0"
      using slot_prev [OF d(3) d(2) d(4) d(5) d(6)] unfolding one r0 by (simp cong: if_cong)
    have "prvCopyDataToQueue q item pos k = k\<lparr>k_mem := store_bytes (slot ?Q (read_index ?Q)) x (k_mem k), queues := (queues k)(q := ?Q')\<rparr>"
      using queueOVERWRITE nz prev c' d(7) r0
      by (simp add: prvCopyDataToQueue_def Let_def upd_queue_def x_def split del: if_split cong: if_cong)
    moreover note ring_replace(1) [OF ring one l] ring_replace(2) [OF ring one l, of "k_mem k"]
    ultimately show thesis using queueOVERWRITE by (intro that [OF d(6), of ?Q']) simp_all
  qed
qed

lemma copy_in_kernel:
  fixes item :: u32
  assumes ok: "kernel_ok D T k" and q: "queue_ok D T k q" and room: "has_room pos (queues k q)"
  defines "k' \<equiv> prvCopyDataToQueue q item pos k"
  shows "kernel_ok D T k'" and "queue_ok D T k' q"
    and "items k' q = put_item pos (load_bytes (k_mem k) item (item_size (queues k q))) (items k q)"
    and "lists k' = lists k" and "uxSchedulerSuspended k' = uxSchedulerSuspended k" and "tcbs k' = tcbs k"
    and "cTxLock (queues k' q) = cTxLock (queues k q)" and "cRxLock (queues k' q) = cRxLock (queues k q)"
    and "uxCurrentNumberOfTasks k' = uxCurrentNumberOfTasks k"
    and "uxLength (queues k' q) = uxLength (queues k q)"
proof -
  let ?Q = "queues k q" and ?x = "load_bytes (k_mem k) item (item_size (queues k q))"
  have ring: "ring_ok ?Q" by (rule queue_okD(2) [OF q])
  obtain i Q' where i: "i < capacity ?Q"
    and k': "prvCopyDataToQueue q item pos k = k\<lparr>k_mem := store_bytes (slot ?Q i) ?x (k_mem k), queues := (queues k)(q := Q')\<rparr>"
    and Q': "ring_ok Q'" "contents (store_bytes (slot ?Q i) ?x (k_mem k)) Q' = put_item pos ?x (items k q)"
      "uxLength Q' = uxLength ?Q" "uxItemSize Q' = uxItemSize ?Q" "pcHead Q' = pcHead ?Q" "cTxLock Q' = cTxLock ?Q" "cRxLock Q' = cRxLock ?Q"
    by (rule copy_in [OF ring room]) (rule that)
  have "kernel_ok D T (k\<lparr>k_mem := store_bytes (slot ?Q i) ?x (k_mem k)\<rparr>)"
    by (rule kernel_ok_mem [OF ok]) (simp add: slot_off_stacks [OF q _ i])
  then show "kernel_ok D T k'" unfolding k'_def k' by simp
  show "queue_ok D T k' q" using q Q' unfolding k'_def k' by (simp add: queue_ok_def)
  show "items k' q = put_item pos ?x (items k q)" unfolding k'_def k' using Q' by simp
qed (simp_all add: k'_def prvCopyDataToQueue_def Let_def upd_queue_def)

section \<open>Copying out\<close>

text \<open>A receiver's buffer is away from the storage and from the stacks' ends.\<close>

definition buffer_ok :: "nat set \<Rightarrow> 'a qkernel_scheme \<Rightarrow> nat \<Rightarrow> u32 \<Rightarrow> bool" where
  "buffer_ok T k q buf \<longleftrightarrow>
     apart buf (item_size (queues k q)) (pcHead (queues k q)) (capacity (queues k q) * item_size (queues k q)) \<and>
     unat buf + item_size (queues k q) \<le> 4294967296 \<and>
     (\<forall>t\<in>T. apart buf (item_size (queues k q)) (pxStack (tcbs k t)) 16)"

lemma store_off_ring:
  assumes ring: "ring_ok Q" and b: "apart buf (item_size Q) (pcHead Q) (capacity Q * item_size Q)"
    "unat buf + item_size Q \<le> 4294967296" and l: "length bs = item_size Q" and j: "j < capacity Q"
  shows "load_bytes (store_bytes buf bs m) (slot Q j) (item_size Q) = load_bytes m (slot Q j) (item_size Q)"
proof (rule load_store_apart)
  note d = ring_okD [OF ring]
  have e: "unat (slot Q j) + item_size Q \<le> unat (pcHead Q) + capacity Q * item_size Q" by (rule slot_end [OF d(3) j])
  have "unat (pcHead Q) \<le> unat (slot Q j)" using unat_slot [OF d(3), of j] j by simp
  then show "apart buf (length bs) (slot Q j) (item_size Q)" using b(1) e l by (auto simp: apart_def)
  show "unat buf + length bs \<le> 4294967296" using b(2) l by simp
  show "unat (slot Q j) + item_size Q \<le> 4294967296" using e d(3) by simp
qed

lemma copy_from_queue:
  assumes ring: "ring_ok (queues k q)"
  defines "r' \<equiv> (read_index (queues k q) + 1) mod capacity (queues k q)"
  shows "prvCopyDataFromQueue q buf k =
    k\<lparr>k_mem := store_bytes buf (load_bytes (k_mem k) (slot (queues k q) r') (item_size (queues k q))) (k_mem k),
      queues := (queues k)(q := (queues k q)\<lparr>pcReadFrom := slot (queues k q) r'\<rparr>)\<rparr>"
proof -
  let ?Q = "queues k q"
  note d = ring_okD [OF ring]
  have nz: "uxItemSize ?Q \<noteq> 0" using d(2) by auto
  show ?thesis
    using nz slot_next [OF d(3) d(2) d(5) d(6), folded d(7)]
    by (simp add: prvCopyDataFromQueue_def Let_def upd_queue_def r'_def split del: if_split cong: if_cong)
qed

lemma copy_out:
  assumes ok: "kernel_ok D T k" and q: "queue_ok D T k q" and b: "buffer_ok T k q buf" and m: "0 < count (queues k q)"
  defines "k' \<equiv> upd_queue q (uxMessagesWaiting_update (\<lambda>_. uxMessagesWaiting (queues k q) - 1)) (prvCopyDataFromQueue q buf k)"
  shows "kernel_ok D T k'" and "queue_ok D T k' q" and "items k' q = tl (items k q)"
    and "load_bytes (k_mem k') buf (item_size (queues k q)) = hd (items k q)"
    and "lists k' = lists k" and "uxSchedulerSuspended k' = uxSchedulerSuspended k" and "tcbs k' = tcbs k"
    and "cTxLock (queues k' q) = cTxLock (queues k q)" and "cRxLock (queues k' q) = cRxLock (queues k q)"
proof -
  let ?Q = "queues k q"
  have ring: "ring_ok ?Q" by (rule queue_okD(2) [OF q])
  note d = ring_okD [OF ring]
  define r' where "r' = (read_index ?Q + 1) mod capacity ?Q"
  let ?x = "load_bytes (k_mem k) (slot ?Q r') (item_size ?Q)"
  let ?m = "store_bytes buf ?x (k_mem k)"
  let ?Q' = "?Q\<lparr>pcReadFrom := slot ?Q r', uxMessagesWaiting := uxMessagesWaiting ?Q - 1\<rparr>"
  have k': "k' = k\<lparr>k_mem := ?m, queues := (queues k)(q := ?Q')\<rparr>"
    unfolding k'_def copy_from_queue [OF ring] by (simp add: upd_queue_def r'_def)
  have off: "load_bytes ?m (slot ?Q j) (item_size ?Q) = load_bytes (k_mem k) (slot ?Q j) (item_size ?Q)" if "j < capacity ?Q" for j
    using b that by (intro store_off_ring [OF ring]) (simp_all add: buffer_ok_def)
  note tk = ring_take [OF ring m off, folded r'_def]
  have "load_bytes ?m (pxStack (tcbs k t)) 16 = load_bytes (k_mem k) (pxStack (tcbs k t)) 16" if "t \<in> T" for t
    using b q that by (intro load_store_apart) (simp_all add: buffer_ok_def queue_ok_def)
  then have "kernel_ok D T (k\<lparr>k_mem := ?m\<rparr>)" by (rule kernel_ok_mem [OF ok])
  then show "kernel_ok D T k'" by (simp add: k')
  show "queue_ok D T k' q" using q tk(1) by (simp add: k' queue_ok_def)
  show "items k' q = tl (items k q)" using tk(2) by (simp add: k')
  have "load_bytes ?m buf (item_size ?Q) = ?x"
    using load_store_bytes [of ?x buf "k_mem k"] unat_u32_less [of "uxItemSize ?Q"] by simp
  then show "load_bytes (k_mem k') buf (item_size ?Q) = hd (items k q)" using tk(3) by (simp add: k')
qed (simp_all add: k'_def prvCopyDataFromQueue_def Let_def upd_queue_def)

text \<open>Peeking leaves the items where they are.\<close>

lemma peek_out:
  assumes ok: "kernel_ok D T k" and q: "queue_ok D T k q" and b: "buffer_ok T k q buf" and m: "0 < count (queues k q)"
  defines "k' \<equiv> upd_queue q (pcReadFrom_update (\<lambda>_. pcReadFrom (queues k q))) (prvCopyDataFromQueue q buf k)"
  shows "kernel_ok D T k'" and "queues k' = queues k" and "items k' q = items k q"
    and "load_bytes (k_mem k') buf (item_size (queues k q)) = hd (items k q)"
    and "lists k' = lists k" and "uxSchedulerSuspended k' = uxSchedulerSuspended k" and "tcbs k' = tcbs k"
proof -
  let ?Q = "queues k q"
  have ring: "ring_ok ?Q" by (rule queue_okD(2) [OF q])
  define r' where "r' = (read_index ?Q + 1) mod capacity ?Q"
  let ?x = "load_bytes (k_mem k) (slot ?Q r') (item_size ?Q)"
  let ?m = "store_bytes buf ?x (k_mem k)"
  have k': "k' = k\<lparr>k_mem := ?m\<rparr>"
    unfolding k'_def copy_from_queue [OF ring] by (simp add: upd_queue_def r'_def)
  have off: "load_bytes ?m (slot ?Q j) (item_size ?Q) = load_bytes (k_mem k) (slot ?Q j) (item_size ?Q)" if "j < capacity ?Q" for j
    using b that by (intro store_off_ring [OF ring]) (simp_all add: buffer_ok_def)
  have "load_bytes ?m (pxStack (tcbs k t)) 16 = load_bytes (k_mem k) (pxStack (tcbs k t)) 16" if "t \<in> T" for t
    using b q that by (intro load_store_apart) (simp_all add: buffer_ok_def queue_ok_def)
  then show "kernel_ok D T k'" unfolding k' by (rule kernel_ok_mem [OF ok])
  show "queues k' = queues k" by (simp add: k')
  show "items k' q = items k q"
    using off ring_okD(1) [OF ring] by (simp add: k' contents_def)
  have "load_bytes ?m buf (item_size ?Q) = ?x"
    using load_store_bytes [of ?x buf "k_mem k"] unat_u32_less [of "uxItemSize ?Q"] by simp
  then show "load_bytes (k_mem k') buf (item_size ?Q) = hd (items k q)"
    using ring_take(3) [OF ring m, of "k_mem k"] by (simp add: k' r'_def)
qed (simp_all add: k'_def prvCopyDataFromQueue_def Let_def upd_queue_def)

end
