(* ===== verification/Rtos_Unlock.thy ===== *)
theory Rtos_Unlock
  imports Rtos_Queue_Inv
begin

text \<open>
  Locked queues: what interrupts did meanwhile is counted in the locks, and unlocking hands the waiting tasks over, one
  for each item that came or went.
\<close>

section \<open>The lock counters\<close>

lemma signed_byte: "n < 256 \<Longrightarrow> signed_take_bit 7 (int n) = (if n < 128 then int n else int n - 256)"
proof (cases "n < 128")
  case False
  assume "n < 256"
  have "signed_take_bit 7 (int n) = signed_take_bit 7 (int n - 256)"
    unfolding signed_take_bit_eq_iff_take_bit_eq by (simp add: take_bit_eq_mod)
  also have "\<dots> = int n - 256" using \<open>n < 256\<close> False by (simp add: signed_take_bit_int_eq_self_iff)
  finally show ?thesis using False by simp
qed (simp add: signed_take_bit_int_eq_self_iff)

lemma unlock_counts: "queueLOCKED_UNMODIFIED <s c \<longleftrightarrow> 0 < unat c \<and> unat c < 128"
proof -
  have b: "unat c < 256" using unsigned_less [of c, where ?'a = nat] by simp
  have "sint c = signed_take_bit 7 (int (unat c))" by (simp add: sint_uint)
  with signed_byte [OF b] b show ?thesis by (auto simp only: word_sless_alt sint_0 split: if_splits)
qed

text \<open>The number of operations a lock has counted.\<close>

definition lock_count :: "u8 \<Rightarrow> nat" where
  "lock_count c = (if unat c < 128 then unat c else 0)"

lemma lock_count_Suc: "queueLOCKED_UNMODIFIED <s c \<Longrightarrow> lock_count c = Suc (lock_count (c - 1))"
proof -
  assume "queueLOCKED_UNMODIFIED <s c"
  then have c: "0 < unat c" "unat c < 128" by (simp_all add: unlock_counts)
  then have "1 \<le> c" by (simp add: word_le_nat_alt)
  then have "unat (c - 1) = unat c - 1" by (simp add: unat_sub)
  with c show ?thesis by (auto simp: lock_count_def)
qed

lemma lock_count_0: "\<not> queueLOCKED_UNMODIFIED <s c \<Longrightarrow> lock_count c = 0"
  by (auto simp: unlock_counts lock_count_def)

section \<open>Handing over while the scheduler is suspended\<close>

text \<open>Only the lists of waiting and of pending tasks change.\<close>

definition only_moved :: "nat set \<Rightarrow> 'a qkernel_scheme \<Rightarrow> 'a qkernel_scheme \<Rightarrow> bool" where
  "only_moved T k k' \<longleftrightarrow> same_rest k k' \<and> same_data_of k k' \<and> advance T 0 k k' \<and> (\<forall>t. ready k' t = ready k t) \<and>
     (\<forall>i. container (lists k) i = Some 6 \<longrightarrow> container (lists k') i = Some 6)"

lemma only_moved_trans: "only_moved T k k1 \<Longrightarrow> only_moved T k1 k2 \<Longrightarrow> only_moved T k k2"
  using advance_0_trans [of T k k1 k2] by (auto simp: only_moved_def same_data_of_def still_ready_def intro: same_rest_trans)

lemma unlock_wake_later:
  assumes "kcore D T k" and "sched k D T xs ix" and "uxSchedulerSuspended k \<noteq> 0" and "l \<in> D" and "8 < l"
  shows "\<exists>k' xs' ix'. unlock_wake l c k = Some k' \<and> kcore D T k' \<and> sched k' D T xs' ix' \<and> only_moved T k k' \<and>
    xs' l = drop (lock_count c) (xs l) \<and> (\<forall>m. m \<noteq> l \<longrightarrow> m \<noteq> 6 \<longrightarrow> xs' m = xs m) \<and>
    (\<forall>i\<in>set (take (lock_count c) (xs l)). container (lists k') i = Some 6)"
  using assms(1-3)
proof (induction "lock_count c" arbitrary: c k xs ix)
  case 0
  then have "\<not> queueLOCKED_UNMODIFIED <s c" using lock_count_Suc [of c] by auto
  then have "unlock_wake l c k = Some k" by (subst unlock_wake.simps) simp
  moreover have "only_moved T k k" by (simp add: only_moved_def same_data_of_def advance_0I)
  ultimately show ?case using 0(1)[symmetric] 0(2,3) by auto
next
  case (Suc n)
  have pos: "queueLOCKED_UNMODIFIED <s c" using Suc(2) lock_count_0 [of c] by auto
  then have n: "n = lock_count (c - 1)" using lock_count_Suc [OF pos] Suc(2) by simp
  show ?case
  proof (cases "xs l")
    case Nil
    then have "list_empty k l" using sched_empty [OF Suc.prems(2) assms(4)] by simp
    then have "unlock_wake l c k = Some k" by (subst unlock_wake.simps) simp
    moreover have "only_moved T k k" by (simp add: only_moved_def same_data_of_def advance_0I)
    ultimately show ?thesis using Nil Suc.prems by auto
  next
    case (Cons i r)
    have ne: "\<not> list_empty k l" using sched_empty [OF Suc.prems(2) assms(4)] Cons by simp
    obtain h k1 xs1 ix1 where k1: "xTaskRemoveFromEventList l k = Some (h, k1)" "kcore D T k1"
      "pxCurrentTCB k1 = pxCurrentTCB k" "tcbs k1 = tcbs k" "xIdleTaskHandle k1 = xIdleTaskHandle k"
      "uxSchedulerSuspended k1 = uxSchedulerSuspended k" "xPendedTicks k1 = xPendedTicks k"
      "xTickCount k1 = xTickCount k" "advance T 0 k k1" "\<And>t. ready k1 t = ready k t"
      "sched k1 D T xs1 ix1" "xs1 l = r" "\<And>m. m \<noteq> l \<Longrightarrow> m \<noteq> 6 \<Longrightarrow> xs1 m = xs m"
      "\<And>j. container (lists k1) j = (if j = i then Some 6 else container (lists k) j)"
      by (rule wake_later_sched [OF Suc.prems assms(4,5) Cons]) (rule that)
    let ?k1 = "if h then vTaskMissedYield k1 else k1"
    have m: "vTaskMissedYield k1 = k1\<lparr>xYieldPending := True\<rparr>" by (simp add: vTaskMissedYield_def)
    have k1': "kcore D T ?k1" "sched ?k1 D T xs1 ix1" "uxSchedulerSuspended ?k1 \<noteq> 0"
      using k1(2,6,11) Suc.prems(3) by (simp_all add: m)
    have om: "only_moved T k ?k1"
      using k1 remove_event_same_data [OF k1(1)] by (simp add: only_moved_def same_rest_def same_data_of_def m)
    from Suc.hyps(1) [OF n k1'] obtain k' xs' ix' where
      k': "unlock_wake l (c - 1) ?k1 = Some k'" "kcore D T k'" "sched k' D T xs' ix'" "only_moved T ?k1 k'"
        "xs' l = drop (lock_count (c - 1)) (xs1 l)" "\<forall>m. m \<noteq> l \<longrightarrow> m \<noteq> 6 \<longrightarrow> xs' m = xs1 m"
        "\<forall>i\<in>set (take (lock_count (c - 1)) (xs1 l)). container (lists k') i = Some 6" by blast
    have u: "unlock_wake l c k = Some k'" using ne pos k1(1) k'(1) by (subst unlock_wake.simps) simp
    have "container (lists ?k1) i = Some 6" using k1(14) by (simp add: m)
    then have i6: "container (lists k') i = Some 6" using k'(4) by (simp add: only_moved_def)
    have lc: "lock_count c = Suc (lock_count (c - 1))" by (rule lock_count_Suc [OF pos])
    have dr: "xs' l = drop (lock_count c) (xs l)" using k'(5) k1(12) Cons lc by simp
    have tk: "\<forall>i\<in>set (take (lock_count c) (xs l)). container (lists k') i = Some 6"
      using k'(7) k1(12) Cons lc i6 by simp
    have oth: "\<forall>m. m \<noteq> l \<longrightarrow> m \<noteq> 6 \<longrightarrow> xs' m = xs m" using k'(6) k1(13) by simp
    show ?thesis
      using u k'(2,3) only_moved_trans [OF om k'(4)] dr tk oth by blast
  qed
qed

section \<open>Unlocking and resuming\<close>

lemma only_moved_queues [simp]:
  "same_rest k (k'\<lparr>queues := qs\<rparr>) = same_rest k (k' :: 'a qkernel_scheme)"
  "advance T n k (k'\<lparr>queues := qs\<rparr>) = advance T n k (k' :: 'a qkernel_scheme)"
  "same_rest (k'\<lparr>queues := qs\<rparr>) k = same_rest (k' :: 'a qkernel_scheme) k"
  "advance T n (k'\<lparr>queues := qs\<rparr>) k = advance T n (k' :: 'a qkernel_scheme) k"
  "sched (k'\<lparr>queues := qs\<rparr>) D T xs ix = sched (k' :: 'a qkernel_scheme) D T xs ix"
  by (simp_all add: same_rest_def advance_def naps_def ready_def sched_def)

text \<open>What unlocking leaves: both locks open, the first waiting tasks handed over, the rest of the queue as it was.\<close>

lemma unlock_queue_later:
  assumes core: "kcore D T k" and inv: "sched k D T xs ix" and sus: "uxSchedulerSuspended k \<noteq> 0"
    and q: "xTasksWaitingToSend q \<in> D" "xTasksWaitingToReceive q \<in> D"
  defines "Q \<equiv> queues k q"
  obtains k' where "prvUnlockQueue q k = Some k'" and "kcore D T k'" and "same_rest k k'" and "advance T 0 k k'"
    and "\<And>t. ready k' t = ready k t" and "k_mem k' = k_mem k"
    and "queues k' = (queues k)(q := Q\<lparr>cTxLock := queueUNLOCKED, cRxLock := queueUNLOCKED\<rparr>)"
    and "\<forall>i\<in>set (take (lock_count (cTxLock Q)) (xs (xTasksWaitingToReceive q))). container (lists k') i = Some 6"
    and "\<forall>i\<in>set (take (lock_count (cRxLock Q)) (xs (xTasksWaitingToSend q))). container (lists k') i = Some 6"
proof -
  let ?s = "xTasksWaitingToSend q" and ?r = "xTasksWaitingToReceive q"
  have g: "8 < ?s" "8 < ?r" "?s \<noteq> ?r" "?s \<noteq> 6" by (simp_all add: xTasksWaitingToSend_def xTasksWaitingToReceive_def)
  from unlock_wake_later [OF core inv sus q(2) g(2), of "cTxLock Q"] obtain k1 xs1 ix1 where
    k1: "unlock_wake ?r (cTxLock Q) k = Some k1" "kcore D T k1" "sched k1 D T xs1 ix1" "only_moved T k k1"
      "\<forall>m. m \<noteq> ?r \<longrightarrow> m \<noteq> 6 \<longrightarrow> xs1 m = xs m"
      "\<forall>i\<in>set (take (lock_count (cTxLock Q)) (xs ?r)). container (lists k1) i = Some 6" by blast
  let ?k2 = "upd_queue q (cTxLock_update (\<lambda>_. queueUNLOCKED)) k1"
  have qs1: "queues k1 = queues k" using k1(4) by (simp add: only_moved_def same_data_of_def)
  have k2: "kcore D T ?k2" "sched ?k2 D T xs1 ix1" "uxSchedulerSuspended ?k2 \<noteq> 0"
    using k1(2-4) sus by (simp_all add: upd_queue_def only_moved_def same_rest_def)
  have c2: "cRxLock (queues ?k2 q) = cRxLock Q" by (simp add: upd_queue_def qs1 Q_def)
  have s2: "xs1 ?s = xs ?s" using k1(5) g(3,4) by simp
  from unlock_wake_later [OF k2 q(1) g(1), of "cRxLock Q"] obtain k3 where
    k3: "unlock_wake ?s (cRxLock Q) ?k2 = Some k3" "kcore D T k3" "only_moved T ?k2 k3"
      "\<forall>i\<in>set (take (lock_count (cRxLock Q)) (xs ?s)). container (lists k3) i = Some 6"
    unfolding s2 by blast
  let ?k4 = "upd_queue q (cRxLock_update (\<lambda>_. queueUNLOCKED)) k3"
  have u: "prvUnlockQueue q k = Some ?k4"
    using k1(1) k3(1) c2 by (simp add: prvUnlockQueue_def Let_def Q_def)
  have mem: "k_mem ?k4 = k_mem k" using k1(4) k3(3) by (simp add: upd_queue_def only_moved_def same_data_of_def)
  have qs: "queues ?k4 = (queues k)(q := Q\<lparr>cTxLock := queueUNLOCKED, cRxLock := queueUNLOCKED\<rparr>)"
    using k3(3) qs1 by (simp add: upd_queue_def only_moved_def same_data_of_def Q_def)
  have core4: "kcore D T ?k4" using k3(2) by (simp add: upd_queue_def)
  have rest: "same_rest k ?k4" using k1(4) k3(3) by (auto simp: upd_queue_def only_moved_def intro: same_rest_trans)
  have adv: "advance T 0 k ?k4"
    using k1(4) k3(3) advance_0_trans [of T k k1 k3] by (simp add: upd_queue_def only_moved_def still_ready_def)
  have rdy: "ready ?k4 t = ready k t" for t using k1(4) k3(3) by (simp add: upd_queue_def only_moved_def)
  have "\<forall>i\<in>set (take (lock_count (cTxLock Q)) (xs ?r)). container (lists ?k4) i = Some 6"
    using k1(6) k3(3) by (simp add: upd_queue_def only_moved_def)
  moreover have "\<forall>i\<in>set (take (lock_count (cRxLock Q)) (xs ?s)). container (lists ?k4) i = Some 6"
    using k3(4) by (simp add: upd_queue_def)
  ultimately show thesis by (rule that [OF u core4 rest adv rdy mem qs])
qed

section \<open>Resuming keeps memory and queues\<close>

lemma same_data_of_refl [simp]: "same_data_of k k"
  by (simp add: same_data_of_def)

lemma same_data_of_trans [trans]: "same_data_of k k1 \<Longrightarrow> same_data_of k1 k2 \<Longrightarrow> same_data_of k k2"
  by (simp add: same_data_of_def)

lemma reset_next_same_data [simp]:
  "queues (prvResetNextTaskUnblockTime k) = queues k" "k_mem (prvResetNextTaskUnblockTime k) = k_mem k"
  "tcbs (prvResetNextTaskUnblockTime k) = tcbs k"
  by (simp_all add: prvResetNextTaskUnblockTime_def)

lemma move_pending_data:
  assumes "move_pending prev k = Some y"
  shows "same_data_of k (snd y)"
proof (rule move_pending.raw_induct [where P = "\<lambda>prev k y. same_data_of k (snd y)", OF _ assms])
  fix mp :: "nat \<Rightarrow> 'a qkernel_scheme \<Rightarrow> (nat \<times> 'a qkernel_scheme) option" and prev and k :: "'a qkernel_scheme" and y
  assume 1: "\<And>prev k y. mp prev k = Some y \<Longrightarrow> same_data_of k (snd y)"
    "(if list_empty k 6 then Some (prev, k)
      else let t = listGET_OWNER_OF_HEAD_ENTRY 6 (lists k)
        in Option.bind (on_lists_opt (listREMOVE_ITEM (xEventListItem t)) k) (\<lambda>k1.
             Option.bind (on_lists_opt (listREMOVE_ITEM (xStateListItem t)) k1) (\<lambda>k2.
               let k3 = prvAddTaskToReadyList t k2
               in mp t (if priority_of k3 (pxCurrentTCB k3) < priority_of k3 t then k3\<lparr>xYieldPending := True\<rparr> else k3)))) = Some y"
  show "same_data_of k (snd y)"
  proof (cases "list_empty k 6")
    case False
    with 1(2) obtain k1 k2 u where k: "on_lists_opt (listREMOVE_ITEM (xEventListItem u)) k = Some k1"
      "on_lists_opt (listREMOVE_ITEM (xStateListItem u)) k1 = Some k2"
      and r: "mp u (if priority_of (prvAddTaskToReadyList u k2) (pxCurrentTCB (prvAddTaskToReadyList u k2)) <
          priority_of (prvAddTaskToReadyList u k2) u then (prvAddTaskToReadyList u k2)\<lparr>xYieldPending := True\<rparr>
        else prvAddTaskToReadyList u k2) = Some y" (is "mp u ?k3 = _")
      by (auto simp: Let_def split: bind_splits)
    have "same_data_of k ?k3"
      using on_lists_opt_same_data [OF k(1)] on_lists_opt_same_data [OF k(2)] by (simp add: same_data_of_def)
    also have "same_data_of ?k3 (snd y)" by (rule 1(1) [OF r])
    finally show ?thesis .
  qed (use 1(2) in auto)
qed

lemma move_pending_same_data: "move_pending prev k = Some (t, k') \<Longrightarrow> same_data_of k k'"
  using move_pending_data by fastforce

lemma unblock_task_same_data: "unblock_task t k = Some k' \<Longrightarrow> same_data_of k k'"
  by (auto simp: unblock_task_def same_data_of_def split: bind_splits if_splits dest!: on_lists_opt_same_data)

lemma unblock_due_data:
  assumes "unblock_due now sw k = Some y"
  shows "same_data_of k (snd y)"
proof (rule unblock_due.raw_induct [where P = "\<lambda>now sw k y. same_data_of k (snd y)", OF _ assms])
  fix ub :: "u32 \<Rightarrow> bool \<Rightarrow> 'a qkernel_scheme \<Rightarrow> (bool \<times> 'a qkernel_scheme) option" and now sw and k :: "'a qkernel_scheme" and y
  let ?d = "pxDelayedTaskList k"
  let ?t = "listGET_OWNER_OF_HEAD_ENTRY ?d (lists k)"
  assume ih: "\<And>now sw (k :: 'a qkernel_scheme) y. ub now sw k = Some y \<Longrightarrow> same_data_of k (snd y)"
    and r: "(if list_empty k ?d then Some (sw, k\<lparr>xNextTaskUnblockTime := portMAX_DELAY\<rparr>)
      else let t = ?t; v = listGET_LIST_ITEM_VALUE (xStateListItem t) (lists k)
        in if now < v then Some (sw, k\<lparr>xNextTaskUnblockTime := v\<rparr>)
           else Option.bind (unblock_task t k) (\<lambda>k'.
             ub now (sw \<or> priority_of k' (pxCurrentTCB k') < priority_of k' t) k')) = Some y"
  show "same_data_of k (snd y)"
  proof (cases "list_empty k ?d \<or> now < listGET_LIST_ITEM_VALUE (xStateListItem ?t) (lists k)")
    case True
    with r show ?thesis by (auto simp: Let_def same_data_of_def split: if_splits)
  next
    case False
    with r obtain k1 sw1 where u: "unblock_task ?t k = Some k1" and s: "ub now sw1 k1 = Some y"
      by (auto simp: Let_def split: bind_splits if_splits)
    have "same_data_of k k1" by (rule unblock_task_same_data [OF u])
    also have "same_data_of k1 (snd y)" by (rule ih [OF s])
    finally show ?thesis .
  qed
qed

lemma unblock_due_same_data: "unblock_due now sw k = Some (sw', k') \<Longrightarrow> same_data_of k k'"
  using unblock_due_data by fastforce

lemma reset_next_more [simp]: "qkernel.more (prvResetNextTaskUnblockTime k) = qkernel.more k"
  by (simp add: prvResetNextTaskUnblockTime_def)

lemma switch_lists_same_data: "taskSWITCH_DELAYED_LISTS k = Some k' \<Longrightarrow> same_data_of k k'"
  by (auto simp: taskSWITCH_DELAYED_LISTS_def same_data_of_def Let_def split: if_splits)

lemma tick_same_data: "xTaskIncrementTick k = Some (sw, k') \<Longrightarrow> same_data_of k k'"
  by (auto simp: xTaskIncrementTick_def Let_def same_data_of_def
      split: if_splits bind_splits dest!: unblock_due_same_data switch_lists_same_data)

lemma pended_ticks_same_data: "pended_ticks n k = Some k' \<Longrightarrow> same_data_of k k'"
proof (induction n arbitrary: k)
  case (Suc n)
  then obtain sw k1 where t: "xTaskIncrementTick k = Some (sw, k1)"
    and r: "pended_ticks n (if sw then k1\<lparr>xYieldPending := True\<rparr> else k1) = Some k'" (is "pended_ticks n ?k2 = _")
    by (auto split: bind_splits)
  have "same_data_of k ?k2" using tick_same_data [OF t] by (simp add: same_data_of_def)
  also have "same_data_of ?k2 k'" by (rule Suc.IH [OF r])
  finally show ?case .
qed simp

lemma resume_same_data:
  assumes r: "xTaskResumeAll k = Some (y, k')"
  shows "same_data_of k k'"
proof (cases "uxSchedulerSuspended k - 1 = 0 \<and> 0 < uxCurrentNumberOfTasks k")
  case True
  let ?k1 = "k\<lparr>uxSchedulerSuspended := uxSchedulerSuspended k - 1\<rparr>"
  from r True obtain t k2 k4 where k: "move_pending 0 ?k1 = Some (t, k2)"
    "(let k3 = (if t \<noteq> 0 then prvResetNextTaskUnblockTime k2 else k2)
      in if 0 < xPendedTicks k3 then map_option (\<lambda>k'. k'\<lparr>xPendedTicks := 0\<rparr>) (pended_ticks (unat (xPendedTicks k3)) k3) else Some k3) = Some k4"
    "(if xYieldPending k4 then map_option (\<lambda>k5. (True, k5)) (portYIELD_WITHIN_API k4) else Some (False, k4)) = Some (y, k')"
    by (auto simp: xTaskResumeAll_def Let_def split: if_splits bind_splits)
  have "same_data_of ?k1 k2" by (rule move_pending_same_data [OF k(1)])
  then have "same_data_of k k2" by (simp add: same_data_of_def)
  also have "same_data_of k2 k4"
    using k(2) by (auto simp: Let_def same_data_of_def split: if_splits dest!: pended_ticks_same_data)
  also have "same_data_of k4 k'" using k(3) by (auto split: if_splits dest!: switch_same_data)
  finally show ?thesis .
next
  case False
  with r show ?thesis by (auto simp: xTaskResumeAll_def Let_def same_data_of_def split: if_splits)
qed

section \<open>Letting go of a queue\<close>

text \<open>Unlocking the queue and resuming the scheduler: the running task runs on or yields to a task it made ready.\<close>

lemma release_ok:
  assumes ok: "kernel_ok D T k" and one: "uxSchedulerSuspended k = 1" and inv: "sched k D T xs ix"
    and l: "xTasksWaitingToSend q \<in> D" "xTasksWaitingToReceive q \<in> D"
  defines "Q \<equiv> queues k q"
  obtains y k' where "release_queue q k = Some (y, k')" and "good_step D T (unat (xPendedTicks k)) k k'"
    and "uxSchedulerSuspended k' = 0" and "k_mem k' = k_mem k"
    and "queues k' = (queues k)(q := Q\<lparr>cTxLock := queueUNLOCKED, cRxLock := queueUNLOCKED\<rparr>)"
    and "\<And>i. i \<in> set (take (lock_count (cTxLock Q)) (xs (xTasksWaitingToReceive q))) \<Longrightarrow> ready k' (i div 2)"
    and "\<And>i. i \<in> set (take (lock_count (cRxLock Q)) (xs (xTasksWaitingToSend q))) \<Longrightarrow> ready k' (i div 2)"
    and "tcbs k' = tcbs k"
proof -
  note d = kernel_okD [OF ok]
  have sus: "uxSchedulerSuspended k \<noteq> 0" using one by simp
  obtain k1 where k1: "prvUnlockQueue q k = Some k1" "kcore D T k1" "same_rest k k1" "advance T 0 k k1"
    "\<And>t. ready k1 t = ready k t" "k_mem k1 = k_mem k"
    "queues k1 = (queues k)(q := Q\<lparr>cTxLock := queueUNLOCKED, cRxLock := queueUNLOCKED\<rparr>)"
    "\<forall>i\<in>set (take (lock_count (cTxLock Q)) (xs (xTasksWaitingToReceive q))). container (lists k1) i = Some 6"
    "\<forall>i\<in>set (take (lock_count (cRxLock Q)) (xs (xTasksWaitingToSend q))). container (lists k1) i = Some 6"
    by (rule unlock_queue_later [OF d(1) inv sus l, folded Q_def]) (rule that)
  have f: "uxSchedulerSuspended k1 = 1" "pxCurrentTCB k1 = pxCurrentTCB k" "tcbs k1 = tcbs k" "xPendedTicks k1 = xPendedTicks k"
    "xIdleTaskHandle k1 = xIdleTaskHandle k" "xTickCount k1 = xTickCount k"
    using k1(3) one by (simp_all add: same_rest_def)
  have top: "top_or_yield T k1" using d(3) k1(5) f by (simp add: top_or_yield_def top_runs_def)
  obtain y k' where k': "xTaskResumeAll k1 = Some (y, k')" "kcore D T k'" "uxSchedulerSuspended k' = 0" "no_pending k'"
    "xPendedTicks k' = 0" "advance T (unat (xPendedTicks k1)) k1 k'" "still_ready T k1 k'" "top_runs T k'"
    "y \<Longrightarrow> ready k' (pxCurrentTCB k')" "\<not> y \<Longrightarrow> pxCurrentTCB k' = pxCurrentTCB k1" "tcbs k' = tcbs k1"
    "xIdleTaskHandle k' = xIdleTaskHandle k1" "xTickCount k' = xTickCount k1 + xPendedTicks k1"
    "\<And>u. u \<in> T \<Longrightarrow> container (lists k1) (2 * u + 1) = Some 6 \<Longrightarrow> ready k' u"
    by (rule resume_core [OF k1(2) f(1) top]) (rule that)
  have rel: "release_queue q k = Some (y, k')" using k1(1) k'(1) by (simp add: release_queue_def)
  have keep: "ready k' t" if "t \<in> T" "ready k t" for t using k'(7) k1(5) that by (simp add: still_ready_def)
  have rd: "ready k' (pxCurrentTCB k')"
  proof (cases y)
    case False
    then show ?thesis using keep [of "pxCurrentTCB k"] d(2) kcoreD(6) [OF d(1)] k'(10) f(2) by simp
  qed (rule k'(9))
  have "still_ready T k k1" using k1(5) by (simp add: still_ready_def)
  then have adv: "advance T (unat (xPendedTicks k)) k k'"
    using advance_trans [OF k1(4) k'(6,7)] f(4) by simp
  have gs: "good_step D T (unat (xPendedTicks k)) k k'"
    using k' rd adv keep f by (simp add: good_step_def kernel_ok_def)
  have data: "k_mem k' = k_mem k" "queues k' = queues k1"
    using resume_same_data [OF k'(1)] k1(6) by (simp_all add: same_data_of_def)
  have moved: "ready k' (i div 2)" if i: "i \<in> set (xs m)" "m \<in> D" "8 < m" and c: "container (lists k1) i = Some 6" for i m
  proof -
    have t: "i div 2 \<in> T" by (rule listed_task [OF inv i(2,1)])
    have "fits (priority_of k) m i" by (rule well_placedD [OF schedD(9) [OF inv] i(2,1)])
    then have "i = 2 * (i div 2) + 1" using i(3) by (auto simp: fits_def)
    with c k'(14) [OF t] show ?thesis by metis
  qed
  show thesis
  proof (rule that [OF rel gs k'(3) data(1)])
    show "queues k' = (queues k)(q := Q\<lparr>cTxLock := queueUNLOCKED, cRxLock := queueUNLOCKED\<rparr>)" using data(2) k1(7) by simp
    show "ready k' (i div 2)" if "i \<in> set (take (lock_count (cTxLock Q)) (xs (xTasksWaitingToReceive q)))" for i
      using that k1(8) by (intro moved [OF in_set_takeD [OF that] l(2)]) (auto simp: xTasksWaitingToReceive_def)
    show "ready k' (i div 2)" if "i \<in> set (take (lock_count (cRxLock Q)) (xs (xTasksWaitingToSend q)))" for i
      using that k1(9) by (intro moved [OF in_set_takeD [OF that] l(1)]) (auto simp: xTasksWaitingToSend_def)
    show "tcbs k' = tcbs k" using k'(11) f(3) by simp
  qed
qed

section \<open>Blocking on a queue\<close>

lemma resume_nothing:
  assumes "uxSchedulerSuspended k = 1" and "no_pending k" and "xPendedTicks k = 0" and core: "kcore D T k"
    and r: "xTaskResumeAll k = Some (y, k')"
  shows "container (lists k') i = container (lists k) i \<and> ready k' t = ready k t \<and> kcore D T k' \<and> uxSchedulerSuspended k' = 0"
proof -
  let ?k1 = "k\<lparr>uxSchedulerSuspended := 0\<rparr>"
  have core1: "kcore D T ?k1" using core by simp
  obtain xs ix where inv: "sched ?k1 D T xs ix" by (rule kcoreE [OF core1])
  have "list_empty ?k1 6" using sched_empty [OF inv schedD(2) [OF inv, of 6]] no_pending_sched [OF inv] assms(2) by simp
  then have m: "move_pending 0 ?k1 = Some (0, ?k1)" by (subst move_pending.simps) simp
  show ?thesis
  proof (cases "xYieldPending k")
    case True
    then have y: "vTaskSwitchContext ?k1 = Some k'" using assms(1,3) kcoreD(5) [OF core] m r by (auto simp: xTaskResumeAll_def Let_def)
    obtain k2 where "vTaskSwitchContext ?k1 = Some k2" "same_tasks ?k1 k2" "kcore D T k2" "uxSchedulerSuspended k2 = 0"
      by (rule switch_core [OF core1]) auto
    with y have "same_tasks ?k1 k'" "kcore D T k'" "uxSchedulerSuspended k' = 0" by simp_all
    then show ?thesis using same_tasksD(1) [of ?k1 k' i] same_tasksD(8) [of ?k1 k' t] by simp
  next
    case False
    then have "k' = ?k1" using assms(1,3) kcoreD(5) [OF core] m r by (auto simp: xTaskResumeAll_def Let_def)
    then show ?thesis using core by simp
  qed
qed

lemma lock_counts_0 [simp]: "lock_count queueUNLOCKED = 0" "lock_count queueLOCKED_UNMODIFIED = 0"
  by (simp_all add: lock_count_def)

lemma unlock_wake_0: "\<not> queueLOCKED_UNMODIFIED <s c \<Longrightarrow> unlock_wake l c k = Some k"
  by (subst unlock_wake.simps) simp

text \<open>Nobody touched the queue while it was locked, so unlocking only opens the locks.\<close>

lemma unlock_quiet:
  assumes "cTxLock (queues k q) = queueLOCKED_UNMODIFIED" and "cRxLock (queues k q) = queueLOCKED_UNMODIFIED"
  shows "prvUnlockQueue q k = Some (upd_queue q (\<lambda>Q. Q\<lparr>cTxLock := queueUNLOCKED, cRxLock := queueUNLOCKED\<rparr>) k)"
  using assms by (simp add: prvUnlockQueue_def Let_def unlock_wake_0 upd_queue_def)

definition unlocked :: "'a qkernel_scheme \<Rightarrow> nat \<Rightarrow> bool" where
  "unlocked k q \<longleftrightarrow> cTxLock (queues k q) = queueUNLOCKED \<and> cRxLock (queues k q) = queueUNLOCKED"

lemma not_expired: "fst (xTaskCheckForTimeOut k tmo n) = False \<Longrightarrow> n \<noteq> 0 \<Longrightarrow> snd (snd (xTaskCheckForTimeOut k tmo n)) \<noteq> 0"
  by (auto simp: xTaskCheckForTimeOut_def Let_def word_sub_less_iff split: if_splits)

end
