(* ===== verification/Rtos_Queue_Block.thy ===== *)
theory Rtos_Queue_Block
  imports Rtos_Unlock
begin

text \<open>
  Blocking on a queue: a task that finds nothing to take, or no room, is put on a list of waiting tasks.
\<close>

lemma kframe_queues [simp]: "kframe k (k'\<lparr>queues := qs\<rparr>) = kframe k (k' :: 'a qkernel_scheme)"
  "kframe (k\<lparr>queues := qs\<rparr>) k' = kframe (k :: 'a qkernel_scheme) k'"
  "no_pending (k\<lparr>queues := qs\<rparr>) = no_pending (k :: 'a qkernel_scheme)"
  by (simp_all add: kframe_def no_pending_def)

lemma delay_list_same_data:
  assumes "prvAddCurrentTaskToDelayedList n b k = Some k'"
  shows "same_data_of k k'"
proof -
  let ?it = "xStateListItem (pxCurrentTCB k)"
  from assms obtain k1 where k1: "on_lists_opt (\<lambda>s. map_option snd (uxListRemove ?it s)) k = Some k1"
    and r: "(if n = portMAX_DELAY \<and> b then Some (on_lists (listINSERT_END xSuspendedTaskList ?it) k1)
      else let wake = xTickCount k + n; k2 = on_lists (listSET_LIST_ITEM_VALUE ?it wake) k1
        in if wake < xTickCount k then on_lists_opt (vListInsert (pxOverflowDelayedTaskList k) ?it) k2
           else map_option (\<lambda>k3. if wake < xNextTaskUnblockTime k3 then k3\<lparr>xNextTaskUnblockTime := wake\<rparr> else k3)
                  (on_lists_opt (vListInsert (pxDelayedTaskList k) ?it) k2)) = Some k'"
    by (auto simp: prvAddCurrentTaskToDelayedList_def Let_def split: bind_splits)
  have "same_data_of k k1" using on_lists_opt_same_data [OF k1] by (simp add: same_data_of_def)
  also have "same_data_of k1 k'"
  proof (cases "n = portMAX_DELAY \<and> b")
    case True
    then have "k' = on_lists (listINSERT_END xSuspendedTaskList ?it) k1" using r by simp
    then show ?thesis by (simp add: same_data_of_def)
  next
    case False
    let ?k2 = "on_lists (listSET_LIST_ITEM_VALUE ?it (xTickCount k + n)) k1"
    define w where "w = xTickCount k + n"
    have r': "(if w < xTickCount k then on_lists_opt (vListInsert (pxOverflowDelayedTaskList k) ?it) ?k2
        else map_option (\<lambda>k3. if w < xNextTaskUnblockTime k3 then k3\<lparr>xNextTaskUnblockTime := w\<rparr> else k3)
               (on_lists_opt (vListInsert (pxDelayedTaskList k) ?it) ?k2)) = Some k'"
      using r unfolding if_not_P [OF False] Let_def w_def .
    obtain l k3 where k3: "on_lists_opt (vListInsert l ?it) ?k2 = Some k3" "k' = k3 \<or> k' = k3\<lparr>xNextTaskUnblockTime := w\<rparr>"
    proof (cases "w < xTickCount k")
      case True
      then have "on_lists_opt (vListInsert (pxOverflowDelayedTaskList k) ?it) ?k2 = Some k'" using r' by (simp only: if_True)
      then show thesis by (rule that) simp
    next
      case f: False
      obtain k3 where k3: "on_lists_opt (vListInsert (pxDelayedTaskList k) ?it) ?k2 = Some k3"
        "(if w < xNextTaskUnblockTime k3 then k3\<lparr>xNextTaskUnblockTime := w\<rparr> else k3) = k'"
        using r' unfolding if_not_P [OF f] map_option_eq_Some by blast
      show thesis
      proof (rule that [OF k3(1)])
        show "k' = k3 \<or> k' = k3\<lparr>xNextTaskUnblockTime := w\<rparr>" unfolding k3(2) [symmetric] by (cases "w < xNextTaskUnblockTime k3") simp_all
      qed
    qed
    have "queues k3 = queues ?k2 \<and> k_mem k3 = k_mem ?k2 \<and> tcbs k3 = tcbs ?k2 \<and>
      qkernel.more k3 = qkernel.more ?k2" by (rule on_lists_opt_same_data [OF k3(1)])
    with k3(2) show ?thesis by (auto simp: same_data_of_def)
  qed
  finally show ?thesis .
qed

lemma place_same_data:
  assumes "vTaskPlaceOnEventList l n k = Some k'"
  shows "same_data_of k k'"
proof -
  from assms obtain k1 where k1: "on_lists_opt (vListInsert l (xEventListItem (pxCurrentTCB k))) k = Some k1"
    "prvAddCurrentTaskToDelayedList n True k1 = Some k'" by (auto simp: vTaskPlaceOnEventList_def split: bind_splits)
  have "same_data_of k k1" using on_lists_opt_same_data [OF k1(1)] by (simp add: same_data_of_def)
  also have "same_data_of k1 k'" by (rule delay_list_same_data [OF k1(2)])
  finally show ?thesis .
qed

text \<open>
  A task that finds nothing to take, or no room, queues up, lets go of the queue and the scheduler, and is off
  the processor: it waits on the list of the queue and sleeps until its time is up.
\<close>

lemma block_on_ok:
  assumes ok: "kernel_ok D T k" and un: "uxSchedulerSuspended k = 0" and idle: "pxCurrentTCB k \<noteq> xIdleTaskHandle k"
    and n: "n \<noteq> 0" and l: "l \<in> D" "8 < l" and q: "unlocked k q"
  obtains k' where "block_on l q n (prvLockQueue q (vTaskSuspendAll k)) = Some k'" and "good_step D T 0 k k'"
    and "\<not> ready k' (pxCurrentTCB k)" and "container (lists k') (2 * pxCurrentTCB k + 1) = Some l"
    and "container (lists k') (2 * pxCurrentTCB k) = Some (sleep_list k n True)"
    and "k_mem k' = k_mem k" and "queues k' = queues k" and "tcbs k' = tcbs k"
    and "uxSchedulerSuspended k' = 0"
proof -
  let ?s = "vTaskSuspendAll k" and ?c = "pxCurrentTCB k"
  let ?k0 = "prvLockQueue q ?s"
  note s = suspended_facts [OF ok un] and d = kernel_okD [OF ok]
  have e: "?k0 = ?s\<lparr>queues := (queues k)(q := (queues k q)\<lparr>cRxLock := 0, cTxLock := 0\<rparr>)\<rparr>"
    using q by (simp add: prvLockQueue_def upd_queue_def unlocked_def vTaskSuspendAll_def)
  have a: "kcore D T ?k0" "pxCurrentTCB ?k0 \<noteq> xIdleTaskHandle ?k0" "ready ?k0 (pxCurrentTCB ?k0)"
    using s idle d(2) unfolding e by simp_all
  obtain k1 where k1: "vTaskPlaceOnEventList l n ?k0 = Some k1" "kcore D T k1" "kframe ?k0 k1" "advance T 0 ?k0 k1"
    "\<And>t. ready k1 t \<longleftrightarrow> ready ?k0 t \<and> t \<noteq> pxCurrentTCB ?k0" "container (lists k1) (2 * pxCurrentTCB ?k0 + 1) = Some l"
    "container (lists k1) (2 * pxCurrentTCB ?k0) = Some (sleep_list ?k0 n True)" "xTickCount k1 = xTickCount ?k0"
    by (rule wait_core [OF a n l]) (rule that)
  have data: "k_mem k1 = k_mem k" "queues k1 = (queues k)(q := (queues k q)\<lparr>cRxLock := 0, cTxLock := 0\<rparr>)" "tcbs k1 = tcbs k"
    using place_same_data [OF k1(1)] unfolding e by (simp_all add: same_data_of_def vTaskSuspendAll_def)
  let ?k2 = "k1\<lparr>queues := queues k\<rparr>"
  have "(queues k)(q := (queues k q)\<lparr>cTxLock := queueUNLOCKED, cRxLock := queueUNLOCKED\<rparr>) = queues k"
    using q by (simp add: unlocked_def fun_eq_iff)
  then have u: "prvUnlockQueue q k1 = Some ?k2"
    using unlock_quiet [of k1 q] data(2) by (simp add: upd_queue_def)
  have fr: "kframe ?s ?k2" and adv: "advance T 0 k ?k2" and core2: "kcore D T ?k2" and tick: "xTickCount ?k2 = xTickCount k"
    using k1(2,3,4,8) s(6,7) unfolding e by simp_all
  have rdy: "ready ?k2 t \<longleftrightarrow> ready k t \<and> t \<noteq> ?c" for t using k1(5) [of t] s(2,3) unfolding e by simp
  from block_completes [OF ok un core2 fr adv rdy tick] obtain y k3 k' where
    k': "xTaskResumeAll ?k2 = Some (y, k3)" "(if y then Some k3 else vTaskSwitchContext k3) = Some k'" "good_step D T 0 k k'"
    by blast
  have f: "uxSchedulerSuspended ?k2 = 1" "no_pending ?k2" "xPendedTicks ?k2 = 0"
    using kframeD [OF fr] s(5) d(4,5) [OF un] by (simp_all add: vTaskSuspendAll_def no_pending_def)
  note r = resume_nothing [OF f core2 k'(1)]
  have same: "queues k3 = queues k" "k_mem k3 = k_mem k" "tcbs k3 = tcbs k"
    using resume_same_data [OF k'(1)] data(1,3) by (simp_all add: same_data_of_def)
  have sw: "container (lists k') i = container (lists k1) i \<and> ready k' t = ready ?k2 t \<and> k_mem k' = k_mem k \<and> queues k' = queues k \<and>
      tcbs k' = tcbs k \<and> uxSchedulerSuspended k' = 0" for i t
  proof (cases y)
    case False
    have core3: "kcore D T k3" and un3: "uxSchedulerSuspended k3 = 0" using r [of 0 0] by blast+
    obtain k4 where k4: "vTaskSwitchContext k3 = Some k4" "same_tasks k3 k4" "uxSchedulerSuspended k4 = 0"
      by (rule switch_core [OF core3 un3]) auto
    with False k'(2) have "vTaskSwitchContext k3 = Some k'" "k4 = k'" by simp_all
    then show ?thesis using same_tasksD(1) [OF k4(2), of i] same_tasksD(8) [OF k4(2), of t] r [of i t] same switch_same_data [of k3 k'] k4(3)
      by (simp add: same_data_of_def)
  next
    case True
    then show ?thesis using k'(2) r [of i t] same by simp
  qed
  have bo: "block_on l q n ?k0 = Some k'" using k1(1) u k'(1,2) by (simp add: block_on_def release_queue_def)
  have sl: "sleep_list ?k0 n True = sleep_list k n True" unfolding e by (simp add: sleep_list_def vTaskSuspendAll_def)
  have c: "pxCurrentTCB ?k0 = ?c" using s(3) unfolding e by simp
  show thesis
    by (rule that [OF bo k'(3)]) (use sw k1(6,7) rdy sl c in simp_all)
qed

end
