(* ===== verification/Rtos_Queue_Steps.thy ===== *)
theory Rtos_Queue_Steps
  imports Rtos_Queue_Block Rtos_Boot
begin

text \<open>
  The queue calls that need not wait: creation, sending into a queue with room, receiving and peeking from one with items.
\<close>

section \<open>A new queue\<close>

definition off_stacks :: "nat set \<Rightarrow> 'a kernel_scheme \<Rightarrow> u32 \<Rightarrow> nat \<Rightarrow> bool" where
  "off_stacks T k a n \<longleftrightarrow> (\<forall>t\<in>T. apart a n (pxStack (tcbs k t)) 16 \<and> unat (pxStack (tcbs k t)) + 16 \<le> 4294967296)"

lemma new_ring:
  assumes "0 < unat len" and "0 < unat isz" and "unat storage + unat len * unat isz < 4294967296" and "unat isz \<le> unat storage"
  shows "ring_ok \<lparr>pcHead = storage, pcWriteTo = storage, pcTail = storage + len * isz, pcReadFrom = storage + (len - 1) * isz,
    uxMessagesWaiting = 0, uxLength = len, uxItemSize = isz, cRxLock = queueUNLOCKED, cTxLock = queueUNLOCKED\<rparr>" (is "ring_ok ?Q")
proof -
  have l1: "unat (len - 1) = unat len - 1" using assms(1) by (simp add: unat_sub word_le_nat_alt)
  have a: "(of_nat (unat len * unat isz) :: u32) = len * isz" by simp
  have b: "(of_nat ((unat len - 1) * unat isz) :: u32) = (len - 1) * isz" unfolding l1 [symmetric] by simp
  have r: "pcReadFrom ?Q = slot ?Q (unat len - 1)" using b by (simp add: slot_def)
  have ri: "read_index ?Q = unat len - 1"
    by (rule read_index_slot [OF _ _ _ r]) (use assms in simp_all)
  show ?thesis unfolding ring_ok_def ri using assms r a by (simp add: slot_def)
qed

lemma all_fields:
  "Q\<lparr>pcHead := a, uxLength := b, uxItemSize := c, pcTail := d, uxMessagesWaiting := e, pcWriteTo := f, pcReadFrom := g,
     cRxLock := h, cTxLock := i\<rparr> =
   \<lparr>pcHead = a, pcWriteTo = f, pcTail = d, pcReadFrom = g, uxMessagesWaiting = e, uxLength = b, uxItemSize = c,
     cRxLock = h, cTxLock = i\<rparr>"
  by (cases Q) simp

lemma new_queue_ok:
  assumes ok: "kernel_ok D T k" and new: "xTasksWaitingToSend q \<notin> D" "xTasksWaitingToReceive q \<notin> D" and q: "q \<noteq> 0"
    and sz: "0 < unat len" "0 < unat isz" "unat storage + unat len * unat isz < 4294967296" "unat isz \<le> unat storage"
    and off: "off_stacks T k storage (unat len * unat isz)"
  defines "D' \<equiv> insert (xTasksWaitingToReceive q) (insert (xTasksWaitingToSend q) D)"
  shows "\<exists>k'. prvInitialiseNewQueue len isz storage q k = Some k' \<and> kernel_ok D' T k' \<and> queue_ok D' T k' q \<and>
    items k' q = [] \<and> unlocked k' q \<and> uxLength (queues k' q) = len \<and> uxItemSize (queues k' q) = isz \<and>
    list_empty k' (xTasksWaitingToReceive q) \<and> list_empty k' (xTasksWaitingToSend q)"
proof -
  let ?s = "xTasksWaitingToSend q" and ?r = "xTasksWaitingToReceive q"
  let ?Q = "\<lparr>pcHead = storage, pcWriteTo = storage, pcTail = storage + len * isz, pcReadFrom = storage + (len - 1) * isz,
    uxMessagesWaiting = 0, uxLength = len, uxItemSize = isz, cRxLock = queueUNLOCKED, cTxLock = queueUNLOCKED\<rparr>"
  let ?k1 = "k\<lparr>queues := (queues k)(q := ?Q)\<rparr>"
  let ?k2 = "?k1\<lparr>lists := vListInitialise ?s (lists ?k1)\<rparr>"
  let ?k' = "?k2\<lparr>lists := vListInitialise ?r (lists ?k2)\<rparr>"
  have ne: "?s \<noteq> ?r" by (simp add: xTasksWaitingToSend_def xTasksWaitingToReceive_def)
  have "isz \<le> 0xFFFFFFFF div len"
  proof -
    have "unat len * unat isz \<le> 4294967295" using sz(3) by simp
    then have "unat isz \<le> 4294967295 div unat len" using sz(1) by (simp add: less_eq_div_iff_mult_less_eq mult.commute)
    then show ?thesis by (simp add: word_le_nat_alt unat_div)
  qed
  moreover have "1 \<le> len" using sz(1) by (simp add: word_le_nat_alt)
  moreover have "isz \<noteq> 0" using sz(2) by auto
  ultimately have "prvInitialiseNewQueue len isz storage q k = Some ?k'"
    using q by (simp add: prvInitialiseNewQueue_def xQueueGenericReset_def Let_def upd_queue_def on_lists_def all_fields)
  moreover have "kernel_ok (insert ?s D) T ?k2" by (rule kernel_ok_new_list [OF _ new(1)]) (simp add: ok)
  then have "kernel_ok D' T ?k'" unfolding D'_def by (rule kernel_ok_new_list) (use new(2) ne in simp)
  moreover have "queue_ok D' T ?k' q"
    using q new_ring [OF sz] off by (simp add: queue_ok_def D'_def off_stacks_def)
  moreover have "items ?k' q = []" by (simp add: contents_def)
  moreover have "list_empty ?k' ?r" "list_empty ?k' ?s"
    using ne by (simp_all add: listLIST_IS_EMPTY_def vListInitialise_def)
  ultimately show ?thesis by (auto simp: unlocked_def)
qed

section \<open>Sending, receiving and peeking at once\<close>

text \<open>What every call on a queue keeps: the running system and the queue.\<close>

definition all_ok :: "nat set \<Rightarrow> nat set \<Rightarrow> 'a qkernel_scheme \<Rightarrow> nat \<Rightarrow> bool" where
  "all_ok D T k q \<longleftrightarrow> kernel_ok D T k \<and> queue_ok D T k q"

lemma wake_keeps:
  assumes "kernel_ok D T k1" and "queue_ok D T k1 q" and "l \<in> D" "8 < l"
  obtains k' where "wake_and_yield l k1 = Some k'" and "all_ok D T k' q" and "k_mem k' = k_mem k1" and "queues k' = queues k1"
    and "head_ready l k1 k'" and "same_data_of k1 k'"
proof -
  obtain k' where k': "wake_and_yield l k1 = Some k'" "kernel_ok D T k'" "same_data_of k1 k'" "head_ready l k1 k'"
    using wake_and_yield_ok [OF assms(1,3,4)] by blast
  have d: "k_mem k' = k_mem k1" "queues k' = queues k1" "tcbs k' = tcbs k1" using k'(3) by (simp_all add: same_data_of_def)
  have "queue_ok D T k' q" using assms(2) d by (simp add: queue_ok_def)
  then show thesis using that [OF k'(1) _ d(1,2) k'(4,3)] k'(2) by (simp add: all_ok_def)
qed

lemma head_ready_same: "lists k1 = lists k \<Longrightarrow> uxSchedulerSuspended k1 = uxSchedulerSuspended k \<Longrightarrow> head_ready l k1 k' = head_ready l k k'"
  by (simp add: head_ready_def)

text \<open>A queue call leaves the other queues, the tasks' control blocks and the rest of the system's state alone.\<close>

definition only_queue :: "nat \<Rightarrow> 'a qkernel_scheme \<Rightarrow> 'a qkernel_scheme \<Rightarrow> bool" where
  "only_queue q k k' \<longleftrightarrow> (\<forall>j. j \<noteq> q \<longrightarrow> queues k' j = queues k j) \<and> tcbs k' = tcbs k \<and> qkernel.more k' = qkernel.more k \<and>
     uxItemSize (queues k' q) = uxItemSize (queues k q) \<and> uxLength (queues k' q) = uxLength (queues k q) \<and>
     pcHead (queues k' q) = pcHead (queues k q)"

lemma only_queue_copy: "only_queue q k (prvCopyDataToQueue q item pos k)"
  by (auto simp: prvCopyDataToQueue_def Let_def only_queue_def upd_queue_def)

lemma send_now:
  assumes ok: "all_ok D T k q" and room: "has_room pos (queues k q)"
  shows "\<exists>k'. send_try q item pos n entry k = Some (Returns True, k') \<and> all_ok D T k' q \<and>
    items k' q = put_item pos (load_bytes (k_mem k) item (item_size (queues k q))) (items k q) \<and>
    head_ready (xTasksWaitingToReceive q) k k' \<and> only_queue q k k'"
proof -
  have kq: "kernel_ok D T k" "queue_ok D T k q" using ok by (simp_all add: all_ok_def)
  note c = copy_in_kernel [OF kq room, of item]
  note l = queue_okD [OF kq(2)]
  obtain k' where k': "wake_and_yield (xTasksWaitingToReceive q) (prvCopyDataToQueue q item pos k) = Some k'" "all_ok D T k' q"
    "k_mem k' = k_mem (prvCopyDataToQueue q item pos k)" "queues k' = queues (prvCopyDataToQueue q item pos k)"
    "head_ready (xTasksWaitingToReceive q) (prvCopyDataToQueue q item pos k) k'" "same_data_of (prvCopyDataToQueue q item pos k) k'"
    by (rule wake_keeps [OF c(1,2) l(5,6)]) (rule that)
  have "uxMessagesWaiting (queues k q) < uxLength (queues k q) \<or> pos = queueOVERWRITE"
    using room by (auto simp: has_room_def split: if_splits)
  then have "send_try q item pos n entry k = Some (Returns True, k')" using k'(1) by (simp add: send_try_def)
  moreover have "only_queue q k k'" using only_queue_copy [of q k item pos] k'(6) by (simp add: only_queue_def same_data_of_def)
  ultimately show ?thesis using k'(2-5) c(3) head_ready_same [OF c(4,5)] by simp
qed

lemma receive_now:
  assumes ok: "all_ok D T k q" and b: "buffer_ok T k q buf" and ne: "items k q \<noteq> []"
  shows "\<exists>k'. receive_try q buf n entry k = Some (Returns True, k') \<and> all_ok D T k' q \<and> items k' q = tl (items k q) \<and>
    load_bytes (k_mem k') buf (item_size (queues k q)) = hd (items k q) \<and> head_ready (xTasksWaitingToSend q) k k'"
proof -
  have kq: "kernel_ok D T k" "queue_ok D T k q" using ok by (simp_all add: all_ok_def)
  have m: "0 < count (queues k q)" using ne by (auto simp: contents_def)
  note c = copy_out [OF kq b m]
  note l = queue_okD [OF kq(2)]
  obtain k' where k': "wake_and_yield (xTasksWaitingToSend q)
      (upd_queue q (uxMessagesWaiting_update (\<lambda>_. uxMessagesWaiting (queues k q) - 1)) (prvCopyDataFromQueue q buf k)) = Some k'"
    "all_ok D T k' q" "k_mem k' = k_mem (upd_queue q (uxMessagesWaiting_update (\<lambda>_. uxMessagesWaiting (queues k q) - 1)) (prvCopyDataFromQueue q buf k))"
    "queues k' = queues (upd_queue q (uxMessagesWaiting_update (\<lambda>_. uxMessagesWaiting (queues k q) - 1)) (prvCopyDataFromQueue q buf k))"
    "head_ready (xTasksWaitingToSend q) (upd_queue q (uxMessagesWaiting_update (\<lambda>_. uxMessagesWaiting (queues k q) - 1)) (prvCopyDataFromQueue q buf k)) k'"
    by (rule wake_keeps [OF c(1,2) l(3,4)]) (rule that)
  have "0 < uxMessagesWaiting (queues k q)" using m by (simp add: word_less_nat_alt)
  then have "receive_try q buf n entry k = Some (Returns True, k')" using k'(1) by (simp add: receive_try_def Let_def)
  then show ?thesis using k'(2-5) c(3,4) head_ready_same [OF c(5,6)] by simp
qed

lemma peek_now:
  assumes ok: "all_ok D T k q" and b: "buffer_ok T k q buf" and ne: "items k q \<noteq> []"
  shows "\<exists>k'. peek_try q buf n entry k = Some (Returns True, k') \<and> all_ok D T k' q \<and> items k' q = items k q \<and>
    load_bytes (k_mem k') buf (item_size (queues k q)) = hd (items k q) \<and> head_ready (xTasksWaitingToReceive q) k k'"
proof -
  have kq: "kernel_ok D T k" "queue_ok D T k q" using ok by (simp_all add: all_ok_def)
  have m: "0 < count (queues k q)" using ne by (auto simp: contents_def)
  let ?k1 = "upd_queue q (pcReadFrom_update (\<lambda>_. pcReadFrom (queues k q))) (prvCopyDataFromQueue q buf k)"
  note c = peek_out [OF kq b m]
  note l = queue_okD [OF kq(2)]
  have q1: "queue_ok D T ?k1 q" using kq(2) c(2,7) by (simp add: queue_ok_def)
  obtain k' where k': "wake_and_yield (xTasksWaitingToReceive q) ?k1 = Some k'" "all_ok D T k' q" "k_mem k' = k_mem ?k1"
    "queues k' = queues ?k1" "head_ready (xTasksWaitingToReceive q) ?k1 k'"
    by (rule wake_keeps [OF c(1) q1 l(5,6)]) (rule that)
  have "0 < uxMessagesWaiting (queues k q)" using m by (simp add: word_less_nat_alt)
  then have "peek_try q buf n entry k = Some (Returns True, k')" using k'(1) by (simp add: peek_try_def Let_def)
  then show ?thesis using k'(2-5) c(3,4) head_ready_same [OF c(5,6)] by simp
qed

end
