(* ===== verification/Rtos_Queue_Props.thy ===== *)
theory Rtos_Queue_Props
  imports Rtos_Queue_Steps Rtos_Task_Props
begin

text \<open>
  The properties of queues. A queue of two items in the concrete system of the scheduler's properties is the instance
  of the witnesses.
\<close>

section \<open>A concrete system with a queue\<close>

text \<open>Two items of four bytes at 0x1000; the handle 1 stands for the queue's address.\<close>

definition demo_qvars :: qkernel where
  "demo_qvars = kernel.extend demo_vars (qkernel.fields
     (\<lambda>_. \<lparr>pcHead = 0, pcWriteTo = 0, pcTail = 0, pcReadFrom = 0, uxMessagesWaiting = 0, uxLength = 0, uxItemSize = 0,
        cRxLock = 0, cTxLock = 0\<rparr>))"

lemma demo_qvars_fields:
  "lists demo_qvars = lists demo_vars" "tcbs demo_qvars = tcbs demo_vars" "k_mem demo_qvars = k_mem demo_vars"
  "pxCurrentTCB demo_qvars = 0" "pxDelayedTaskList demo_qvars = 0" "pxOverflowDelayedTaskList demo_qvars = 0"
  "uxDeletedTasksWaitingCleanUp demo_qvars = 0" "uxCurrentNumberOfTasks demo_qvars = 0" "xTickCount demo_qvars = 0"
  "uxTopReadyPriority demo_qvars = 0" "\<not> xSchedulerRunning demo_qvars" "xPendedTicks demo_qvars = 0"
  "\<not> xYieldPending demo_qvars" "xNumOfOverflows demo_qvars = 0" "uxTaskNumber demo_qvars = 0"
  "xNextTaskUnblockTime demo_qvars = 0" "uxSchedulerSuspended demo_qvars = 0" "xIdleTaskHandle demo_qvars = 1"
  by (simp_all add: demo_qvars_def kernel.defs demo_vars_def)

definition demo_started :: qkernel where
  "demo_started = scheduler_started (the (add_tasks [1, 2, 3] demo_qvars))"

lemma demo_started_ok: "kernel_ok {..8} {1, 2, 3} demo_started"
proof -
  have z: "zeroed demo_qvars" using demo_zeroed by (simp add: zeroed_def demo_qvars_fields demo_vars_def)
  have f: "fresh_task demo_qvars t" if "t \<in> set [1, 2, 3]" for t
    using that demo_fresh [of t] by (auto simp: fresh_task_def stack_intact_def demo_qvars_fields)
  have i: "xIdleTaskHandle demo_qvars \<in> set [1, 2, 3]" by (simp add: demo_qvars_fields)
  have "\<exists>k'. add_tasks [1, 2, 3] demo_qvars = Some k' \<and> kernel_ok {..8} (set [1, 2, 3]) (scheduler_started k') \<and>
      (\<forall>t\<in>set [1, 2, 3]. ready (scheduler_started k') t) \<and> tcbs k' = tcbs demo_qvars"
    by (rule boot_ok [OF z _ f i]) simp_all
  then show ?thesis by (auto simp: demo_started_def)
qed

lemma demo_started_fields: "tcbs demo_started = tcbs demo_vars" "uxSchedulerSuspended demo_started = 0"
  "k_mem demo_started = k_mem demo_vars" "pxCurrentTCB demo_started = 3" "xIdleTaskHandle demo_started = 1"
  "xSchedulerRunning demo_started" "xTickCount demo_started = 0"
  by (simp_all add: demo_started_def demo_qvars_fields scheduler_started_def demo_vars_def prvAddNewTaskToReadyList_def Let_def
      prvAddTaskToReadyList_eq prvInitialiseTaskLists_eq)

definition demo_queue :: qkernel where
  "demo_queue = the (prvInitialiseNewQueue 2 4 0x1000 1 demo_started)"

abbreviation demo_lists :: "nat set" where "demo_lists \<equiv> insert 12 (insert 11 {..8})"

lemma demo_off_stacks: "off_stacks {1, 2, 3} demo_started 0x1000 (unat (2 :: u32) * unat (4 :: u32))"
  by (simp add: off_stacks_def apart_def demo_started_fields demo_vars_def)

lemma demo_lists_eq: "insert (xTasksWaitingToReceive 1) (insert (xTasksWaitingToSend 1) {..8}) = demo_lists"
  by (simp add: xTasksWaitingToSend_def xTasksWaitingToReceive_def)

lemma demo_queue_ok: "all_ok demo_lists {1, 2, 3} demo_queue 1" "items demo_queue 1 = []" "unlocked demo_queue 1"
  "uxLength (queues demo_queue 1) = 2" "uxItemSize (queues demo_queue 1) = 4" "list_empty demo_queue 12" "list_empty demo_queue 11"
proof -
  have "\<exists>k'. prvInitialiseNewQueue 2 4 0x1000 1 demo_started = Some k' \<and> kernel_ok demo_lists {1, 2, 3} k' \<and>
      queue_ok demo_lists {1, 2, 3} k' 1 \<and> items k' 1 = [] \<and> unlocked k' 1 \<and> uxLength (queues k' 1) = 2 \<and>
      uxItemSize (queues k' 1) = 4 \<and> list_empty k' (xTasksWaitingToReceive 1) \<and> list_empty k' (xTasksWaitingToSend 1)"
    unfolding demo_lists_eq [symmetric]
    by (rule new_queue_ok [OF demo_started_ok _ _ _ _ _ _ _ demo_off_stacks])
      (simp_all add: xTasksWaitingToSend_def xTasksWaitingToReceive_def)
  then show "all_ok demo_lists {1, 2, 3} demo_queue 1" "items demo_queue 1 = []" "unlocked demo_queue 1"
    "uxLength (queues demo_queue 1) = 2" "uxItemSize (queues demo_queue 1) = 4" "list_empty demo_queue 12" "list_empty demo_queue 11"
    by (auto simp: demo_queue_def all_ok_def xTasksWaitingToSend_def xTasksWaitingToReceive_def)
qed

lemma demo_queue_fields: "tcbs demo_queue = tcbs demo_vars" "uxSchedulerSuspended demo_queue = 0"
  "k_mem demo_queue = k_mem demo_vars" "pxCurrentTCB demo_queue = 3" "xIdleTaskHandle demo_queue = 1"
  "xSchedulerRunning demo_queue" "xTickCount demo_queue = 0" "pcHead (queues demo_queue 1) = 0x1000"
  by (simp_all add: demo_queue_def prvInitialiseNewQueue_def xQueueGenericReset_def Let_def upd_queue_def on_lists_def demo_started_fields)

section \<open>Creation\<close>

text \<open>
  Creating a queue in the running system. Over storage that fits in memory and is away from the ends of the stacks,
  \<open>prvInitialiseNewQueue\<close> succeeds, keeps the system's invariant with the two new lists added, and gives a well-formed,
  unlocked, empty queue nobody waits on.
\<close>

theorem queue_creation:
  assumes "kernel_ok D T k" and "xTasksWaitingToSend q \<notin> D" and "xTasksWaitingToReceive q \<notin> D" and "q \<noteq> 0"
    and "0 < len" and "0 < isz" and "unat storage + unat len * unat isz < 2 ^ 32" and "isz \<le> storage"
    and "off_stacks T k storage (unat len * unat isz)"
  defines "D' \<equiv> insert (xTasksWaitingToReceive q) (insert (xTasksWaitingToSend q) D)"
  shows "\<exists>k'. prvInitialiseNewQueue len isz storage q k = Some k' \<and> kernel_ok D' T k' \<and> queue_ok D' T k' q \<and>
    items k' q = [] \<and> unlocked k' q \<and> list_empty k' (xTasksWaitingToReceive q) \<and> list_empty k' (xTasksWaitingToSend q)"
  using new_queue_ok [OF assms(1-4) _ _ _ _ assms(9)] assms(5-8) unfolding D'_def
  by (auto simp: word_less_nat_alt word_le_nat_alt)

lemma queue_creation_witness:
  "\<exists>k'. prvInitialiseNewQueue 2 4 0x1000 1 demo_started = Some k' \<and> kernel_ok demo_lists {1, 2, 3} k' \<and> items k' 1 = []"
proof -
  have "xTasksWaitingToSend 1 \<notin> {..8}" "xTasksWaitingToReceive 1 \<notin> {..8}"
    by (simp_all add: xTasksWaitingToSend_def xTasksWaitingToReceive_def)
  from queue_creation [OF demo_started_ok this _ _ _ _ _ demo_off_stacks, unfolded demo_lists_eq] show ?thesis by auto
qed

section \<open>Sending\<close>

text \<open>The first of a list of waiting tasks that is in the order of the priorities has the highest of them.\<close>

lemma highest_first:
  assumes inv: "sched k D T xs ix" and un: "uxSchedulerSuspended k = 0" and ne: "xs l \<noteq> []" and o: "in_priority_order k (xs l)"
    and l: "l \<in> D" "8 < l" and h: "head_ready l k k'"
  shows "\<exists>t\<in>T. 2 * t + 1 = hd (xs l) \<and> ready k' t \<and>
    (\<forall>i\<in>set (xs l). uxPriority (tcbs k (i div 2)) \<le> uxPriority (tcbs k t))"
proof -
  obtain i r where x: "xs l = i # r" using ne by (cases "xs l") auto
  have tk: "j div 2 \<in> T" if "j \<in> set (xs l)" for j by (rule listed_task [OF inv l(1) that])
  have "fits (priority_of k) l i" by (rule well_placedD [OF schedD(9) [OF inv] l(1)]) (simp add: x)
  then have i: "i = 2 * (i div 2) + 1" using l(2) by (auto simp: fits_def)
  have ti: "i div 2 \<in> T" by (rule tk) (simp add: x)
  have "listGET_OWNER_OF_HEAD_ENTRY l (lists k) = owner (lists k) i" by (rule lists_rep_head(1) [OF schedD(1) [OF inv] l(1) x])
  also have "\<dots> = i div 2" using schedD(5) [OF inv ti] i by metis
  finally have "ready k' (i div 2)" using h un ne sched_empty [OF inv l(1)] by (simp add: head_ready_def)
  moreover have "priority_of k (j div 2) \<le> priority_of k (i div 2)" if j: "j \<in> set (xs l)" for j
  proof -
    have "item_value (lists k) i \<le> item_value (lists k) j" using o j by (auto simp: in_priority_order_def x)
    moreover have "by_priority k i" "by_priority k j" using o j by (auto simp: in_priority_order_def x)
    ultimately show ?thesis using sub_mono [OF schedD(6) [OF inv ti] schedD(6) [OF inv tk [OF j]]] by (simp add: by_priority_def)
  qed
  ultimately show ?thesis using ti i x by (metis list.sel(1))
qed

lemma singleton_list: "set xs = {x} \<Longrightarrow> distinct xs \<Longrightarrow> xs = [x]"
  by (cases xs; cases "tl xs") auto

lemma demo_item_value: "item_value (lists demo_queue) 7 = 2"
  by (simp add: demo_queue_def prvInitialiseNewQueue_def xQueueGenericReset_def Let_def upd_queue_def on_lists_def demo_started_def
      demo_qvars_fields scheduler_started_def demo_vars_def prvAddNewTaskToReadyList_def prvAddTaskToReadyList_eq
      prvInitialiseTaskLists_eq all_lists_def vListInitialise_def vListInsertEnd_def)

text \<open>The concrete queue with a receiver that waits: task 3 has put itself on the queue's list and another one runs.\<close>

lemma demo_receiver:
  obtains k :: qkernel and xs ix where "all_ok demo_lists {1, 2, 3} k 1" and "\<not> ready k 3" and "uxSchedulerSuspended k = 0"
    and "k_mem k = k_mem demo_queue" and "queues k = queues demo_queue" and "sched k demo_lists {1, 2, 3} xs ix"
    and "xs 12 = [7]" and "in_priority_order k [7]"
proof -
  have ok: "kernel_ok demo_lists {1, 2, 3} demo_queue" "queue_ok demo_lists {1, 2, 3} demo_queue 1"
    using demo_queue_ok(1) by (simp_all add: all_ok_def)
  note d = kernel_okD [OF ok(1)]
  obtain ys jx where inv: "sched demo_queue demo_lists {1, 2, 3} ys jx" by (rule kcoreE [OF d(1)])
  have l: "12 \<in> demo_lists" "(8 :: nat) < 12" "(5 :: u32) \<noteq> 0" by simp_all
  have e: "ys 12 = []" using sched_empty [OF inv l(1)] demo_queue_ok(6) by simp
  have b: "by_priority demo_queue 7" using demo_item_value by (simp add: by_priority_def demo_queue_fields demo_vars_def)
  have so: "sorted (map (item_value (lists demo_queue)) (ys 12))"
    "\<forall>i\<in>insert (2 * pxCurrentTCB demo_queue + 1) (set (ys 12)). by_priority demo_queue i"
    using e b by (simp_all add: demo_queue_fields)
  obtain k1 xs1 ix1 where k1: "vTaskPlaceOnEventList 12 5 demo_queue = Some k1" "sched k1 demo_lists {1, 2, 3} xs1 ix1" "xs1 12 = [7]"
    "by_priority k1 7"
    using placed_by_priority [OF ok(1) inv l(1,2) so, of 5] e by (auto simp: demo_queue_fields)
  have i: "pxCurrentTCB demo_queue \<noteq> xIdleTaskHandle demo_queue" by (simp add: demo_queue_fields)
  obtain k2 where k2: "vTaskPlaceOnEventList 12 5 demo_queue = Some k2" "kcore demo_lists {1, 2, 3} k2" "kframe demo_queue k2"
    "\<And>t. ready k2 t \<longleftrightarrow> ready demo_queue t \<and> t \<noteq> pxCurrentTCB demo_queue"
    by (rule wait_core [OF d(1) i d(2) l(3,1,2)]) (rule that)
  have k12: "k2 = k1" using k1(1) k2(1) by simp
  note core1 = k2(2) [unfolded k12] and f1 = kframeD [OF k2(3) [unfolded k12]]
  have un1: "uxSchedulerSuspended k1 = 0" "no_pending k1" "xPendedTicks k1 = 0"
    using f1 d(4,5) demo_queue_fields(2) by simp_all
  have m1: "k_mem k1 = k_mem demo_queue" "queues k1 = queues demo_queue" "tcbs k1 = tcbs demo_queue"
    using place_same_data [OF k1(1)] by (simp_all add: same_data_of_def)
  obtain k where k: "vTaskSwitchContext k1 = Some k" "kcore demo_lists {1, 2, 3} k" "same_tasks k1 k" "ready k (pxCurrentTCB k)"
    "top_runs {1, 2, 3} k" "uxSchedulerSuspended k = 0" "xPendedTicks k = xPendedTicks k1"
    by (rule switch_core [OF core1 un1(1)]) (rule that)
  have m: "k_mem k = k_mem demo_queue" "queues k = queues demo_queue" "tcbs k = tcbs demo_queue"
    using switch_same_data [OF k(1)] m1 by (simp_all add: same_data_of_def)
  note s = same_tasksD [OF k(3)]
  have "kernel_ok demo_lists {1, 2, 3} k" using k un1 kframe_same_tasks [OF k(3)] by (simp add: kernel_ok_def)
  moreover have "queue_ok demo_lists {1, 2, 3} k 1" using ok(2) m by (simp add: queue_ok_def)
  ultimately have ok2: "all_ok demo_lists {1, 2, 3} k 1" by (simp add: all_ok_def)
  obtain xs ix where inv2: "sched k demo_lists {1, 2, 3} xs ix" by (rule kcoreE [OF k(2)])
  have "set (xs 12) = {7}"
    using sched_container [OF inv2, of _ 12] sched_container [OF k1(2), of _ 12] s(1) k1(3) by auto
  moreover have "distinct (xs 12)" by (rule lists_rep_distinct [OF schedD(1) [OF inv2] l(1)])
  ultimately have x: "xs 12 = [7]" by (rule singleton_list)
  have nr: "\<not> ready k 3" using k2(4) [of 3] s(8) unfolding k12 by (simp add: demo_queue_fields)
  have "in_priority_order k [7]" using k1(4) s(2) m(3) m1(3) by (simp add: in_priority_order_def by_priority_def)
  with that [OF ok2 nr k(6) m(1,2) inv2 x] show thesis .
qed

text \<open>
  C3: Sending refines a bounded sequence. With room, or overwriting a queue of length one, \<open>xQueueGenericSend\<close> returns true at once
  with the item's bytes at the back, at the front, or as the only item, and the system's invariant kept. With the scheduler running
  the task at the head of the list of waiting receivers is ready afterwards; and if that list is in the order of the priorities
  of its tasks, no task that waited there has a higher priority than this one. A
  full queue and no block time give false and change nothing.
\<close>

theorem queue_send_refines:
  fixes env :: "'a qkernel_scheme \<Rightarrow> 'a qkernel_scheme option"
  assumes "all_ok D T k q" and "item \<noteq> 0" and "pos = queueOVERWRITE \<longrightarrow> uxLength (queues k q) = 1"
    and "xTaskGetSchedulerState k = taskSCHEDULER_SUSPENDED \<longrightarrow> n = 0"
  shows "(pos = queueOVERWRITE \<or> length (items k q) < capacity (queues k q) \<longrightarrow>
      (\<exists>k'. xQueueGenericSend env q item n pos k = Some (True, k') \<and> all_ok D T k' q \<and>
        items k' q = put_item pos (load_bytes (k_mem k) item (item_size (queues k q))) (items k q) \<and>
        head_ready (xTasksWaitingToReceive q) k k' \<and>
        (\<forall>xs ix. uxSchedulerSuspended k = 0 \<and> sched k D T xs ix \<and> xs (xTasksWaitingToReceive q) \<noteq> [] \<and>
            in_priority_order k (xs (xTasksWaitingToReceive q)) \<longrightarrow>
          (\<exists>t\<in>T. 2 * t + 1 = hd (xs (xTasksWaitingToReceive q)) \<and> ready k' t \<and>
            (\<forall>i\<in>set (xs (xTasksWaitingToReceive q)). uxPriority (tcbs k (i div 2)) \<le> uxPriority (tcbs k t)))))) \<and>
    (pos \<noteq> queueOVERWRITE \<and> length (items k q) = capacity (queues k q) \<and> n = 0 \<longrightarrow>
      xQueueGenericSend env q item n pos k = Some (False, k))"
proof -
  have l: "xTasksWaitingToReceive q \<in> D" "8 < xTasksWaitingToReceive q"
    using assms(1) queue_okD(5,6) by (auto simp: all_ok_def)
  note first = highest_first [OF _ _ _ _ l]
  have q: "q \<noteq> 0" using assms(1) queue_okD(1) by (auto simp: all_ok_def)
  then have un: "xQueueGenericSend env q item n pos k = send_loop env q item pos n None k"
    using assms by (auto simp: xQueueGenericSend_def)
  have "\<exists>k'. send_loop env q item pos n None k = Some (True, k') \<and> all_ok D T k' q \<and>
      items k' q = put_item pos (load_bytes (k_mem k) item (item_size (queues k q))) (items k q) \<and>
      head_ready (xTasksWaitingToReceive q) k k'"
    if "pos = queueOVERWRITE \<or> length (items k q) < capacity (queues k q)"
  proof -
    have "has_room pos (queues k q)" using that assms(3) by (auto simp: has_room_def word_less_nat_alt)
    from send_now [OF assms(1) this, of item n None] obtain k' where k': "send_try q item pos n None k = Some (Returns True, k')"
      "all_ok D T k' q" "items k' q = put_item pos (load_bytes (k_mem k) item (item_size (queues k q))) (items k q)"
      "head_ready (xTasksWaitingToReceive q) k k'" by blast
    have "send_loop env q item pos n None k = Some (True, k')" using k'(1) by (subst send_loop.simps) simp
    with k' show ?thesis by blast
  qed
  moreover have "send_loop env q item pos 0 None k = Some (False, k)"
    if "pos \<noteq> queueOVERWRITE" "length (items k q) = capacity (queues k q)"
  proof -
    have "\<not> uxMessagesWaiting (queues k q) < uxLength (queues k q)" using that(2) by (simp add: word_less_nat_alt)
    with that(1) have "send_try q item pos 0 None k = Some (Returns False, k)" by (simp add: send_try_def)
    then show ?thesis by (subst send_loop.simps) simp
  qed
  ultimately show ?thesis unfolding un using first by (intro conjI impI) (fast, blast)
qed

lemma queue_send_refines_witness:
  "\<exists>(k :: qkernel) k'. \<not> ready k 3 \<and> xQueueGenericSend Some 1 0x2000 0 queueSEND_TO_BACK k = Some (True, k') \<and>
    items k' 1 = [[0xA5, 0xA5, 0xA5, 0xA5]] \<and> ready k' 3"
proof -
  obtain k :: qkernel and xs ix where k: "all_ok demo_lists {1, 2, 3} k 1" "\<not> ready k 3" "uxSchedulerSuspended k = 0" "k_mem k = k_mem demo_queue"
    "queues k = queues demo_queue" "sched k demo_lists {1, 2, 3} xs ix" "xs 12 = [7]" "in_priority_order k [7]"
    by (rule demo_receiver) (rule that)
  have i: "items k 1 = []" using demo_queue_ok(2) k(4,5) by simp
  have c: "length (items k 1) < capacity (queues k 1)" unfolding i unfolding k(5) demo_queue_ok(4) by simp
  have m: "load_bytes (k_mem k) 0x2000 (item_size (queues k 1)) = [0xA5, 0xA5, 0xA5, 0xA5]"
    using demo_queue_ok(5) k(4,5) by (simp add: demo_queue_fields load_bytes_def demo_vars_def upt_rec)
  have r: "xTasksWaitingToReceive 1 = 12" by (simp add: xTasksWaitingToReceive_def)
  from queue_send_refines [OF k(1), where item = "0x2000" and pos = queueSEND_TO_BACK and n = 0 and env = Some] c
  obtain k' where k': "xQueueGenericSend Some 1 0x2000 0 queueSEND_TO_BACK k = Some (True, k')"
    "items k' 1 = put_item queueSEND_TO_BACK [0xA5, 0xA5, 0xA5, 0xA5] []" and
    all: "\<forall>xs ix. uxSchedulerSuspended k = 0 \<and> sched k demo_lists {1, 2, 3} xs ix \<and> xs 12 \<noteq> [] \<and> in_priority_order k (xs 12) \<longrightarrow>
      (\<exists>t\<in>{1, 2, 3}. 2 * t + 1 = hd (xs 12) \<and> ready k' t \<and> (\<forall>i\<in>set (xs 12). priority_of k (i div 2) \<le> priority_of k t))"
    unfolding i m r by auto
  from spec [OF spec [OF all, of xs], of ix] k(3,6,7,8) have "ready k' 3" by auto
  with k(2) k' show ?thesis by auto
qed

text \<open>The concrete queue with one item in it.\<close>

definition demo_filled :: qkernel where
  "demo_filled = snd (the (xQueueGenericSend Some 1 0x2000 0 queueSEND_TO_BACK demo_queue))"

lemma demo_filled_ok: "all_ok demo_lists {1, 2, 3} demo_filled 1" "items demo_filled 1 = [[0xA5, 0xA5, 0xA5, 0xA5]]"
  "buffer_ok {1, 2, 3} demo_filled 1 0x3000" "xTaskGetSchedulerState demo_filled = taskSCHEDULER_RUNNING"
proof -
  have c: "has_room queueSEND_TO_BACK (queues demo_queue 1)"
    using demo_queue_ok(2,4) by (simp add: has_room_def contents_def word_less_nat_alt)
  have l: "load_bytes (k_mem demo_queue) 0x2000 (item_size (queues demo_queue 1)) = [0xA5, 0xA5, 0xA5, 0xA5]"
    using demo_queue_ok(5) by (simp add: demo_queue_fields load_bytes_def demo_vars_def upt_rec)
  from send_now [OF demo_queue_ok(1) c, where item = "0x2000" and n = 0 and entry = None] l demo_queue_ok(2) obtain k' where
    k': "send_try 1 0x2000 queueSEND_TO_BACK 0 None demo_queue = Some (Returns True, k')" "all_ok demo_lists {1, 2, 3} k' 1"
      "items k' 1 = [[0xA5, 0xA5, 0xA5, 0xA5]]" by auto
  have "send_loop Some 1 0x2000 queueSEND_TO_BACK 0 None demo_queue = Some (True, k')"
    using k'(1) by (subst send_loop.simps) simp
  then have e: "demo_filled = k'" by (simp add: demo_filled_def xQueueGenericSend_def)
  with k'(2,3) show "all_ok demo_lists {1, 2, 3} demo_filled 1" "items demo_filled 1 = [[0xA5, 0xA5, 0xA5, 0xA5]]" by simp_all
  let ?k = "prvCopyDataToQueue 1 0x2000 queueSEND_TO_BACK demo_queue"
  have "list_empty ?k 12" using demo_queue_ok(6) by (simp add: prvCopyDataToQueue_def Let_def upd_queue_def)
  then have k: "k' = ?k"
    using k'(1) c by (simp add: send_try_def has_room_def wake_and_yield_def wake_waiting_def xTasksWaitingToReceive_def)
  then show "buffer_ok {1, 2, 3} demo_filled 1 0x3000" "xTaskGetSchedulerState demo_filled = taskSCHEDULER_RUNNING"
    unfolding e k using demo_queue_ok(4,5)
    by (simp_all del: One_nat_def add: buffer_ok_def apart_def prvCopyDataToQueue_def Let_def upd_queue_def demo_queue_fields demo_vars_def xTaskGetSchedulerState_def)
qed

section \<open>Receiving\<close>

lemma receive_loop_now:
  "attempt n entry k = Some (Returns b, k') \<Longrightarrow> receive_loop env attempt q n entry k = Some (b, k')"
  by (subst receive_loop.simps) simp

text \<open>
  C4: Receiving and peeking refine taking and looking at the head of that sequence. With items in the queue, \<open>xQueueReceive\<close> and
  \<open>xQueuePeek\<close> return true at once with the first item's bytes in the buffer, the item gone or kept, the
  system's invariant kept, and a waiting sender (or another receiver) made ready; an empty queue and no block
  time give false and change nothing.
\<close>

theorem queue_receive_refines:
  fixes env :: "'a qkernel_scheme \<Rightarrow> 'a qkernel_scheme option"
  assumes "all_ok D T k q" and "buffer_ok T k q buf" and "buf \<noteq> 0"
    and "xTaskGetSchedulerState k = taskSCHEDULER_SUSPENDED \<longrightarrow> n = 0"
  shows "(items k q \<noteq> [] \<longrightarrow>
      (\<exists>k'. xQueueReceive env q buf n k = Some (True, k') \<and> all_ok D T k' q \<and> items k' q = tl (items k q) \<and>
        load_bytes (k_mem k') buf (item_size (queues k q)) = hd (items k q) \<and> head_ready (xTasksWaitingToSend q) k k') \<and>
      (\<exists>k'. xQueuePeek env q buf n k = Some (True, k') \<and> all_ok D T k' q \<and> items k' q = items k q \<and>
        load_bytes (k_mem k') buf (item_size (queues k q)) = hd (items k q) \<and> head_ready (xTasksWaitingToReceive q) k k')) \<and>
    (items k q = [] \<and> n = 0 \<longrightarrow> xQueueReceive env q buf n k = Some (False, k) \<and> xQueuePeek env q buf n k = Some (False, k))"
proof -
  have q: "q \<noteq> 0" using assms(1) queue_okD(1) by (auto simp: all_ok_def)
  then have un: "xQueueReceive env q buf n k = receive_loop env (receive_try q buf) q n None k"
    "xQueuePeek env q buf n k = receive_loop env (peek_try q buf) q n None k"
    using assms by (auto simp: xQueueReceive_def xQueuePeek_def)
  have e: "receive_loop env (receive_try q buf) q 0 None k = Some (False, k)"
    "receive_loop env (peek_try q buf) q 0 None k = Some (False, k)" if "items k q = []"
    using that by (auto intro!: receive_loop_now simp: receive_try_def peek_try_def Let_def empty_try_def contents_def unat_eq_zero)
  have r: "\<exists>k'. receive_loop env (receive_try q buf) q n None k = Some (True, k') \<and> all_ok D T k' q \<and> items k' q = tl (items k q) \<and>
      load_bytes (k_mem k') buf (item_size (queues k q)) = hd (items k q) \<and> head_ready (xTasksWaitingToSend q) k k'"
    and p: "\<exists>k'. receive_loop env (peek_try q buf) q n None k = Some (True, k') \<and> all_ok D T k' q \<and> items k' q = items k q \<and>
      load_bytes (k_mem k') buf (item_size (queues k q)) = hd (items k q) \<and> head_ready (xTasksWaitingToReceive q) k k'"
    if "items k q \<noteq> []"
    using receive_now [OF assms(1,2) that, of n None] peek_now [OF assms(1,2) that, of n None] receive_loop_now by blast+
  show ?thesis unfolding un using r p e by blast
qed

lemma queue_receive_refines_witness:
  "\<exists>k'. xQueueReceive Some 1 0x3000 5 demo_filled = Some (True, k') \<and> items k' 1 = [] \<and>
    load_bytes (k_mem k') 0x3000 (item_size (queues demo_filled 1)) = [0xA5, 0xA5, 0xA5, 0xA5]"
proof -
  have "items demo_filled 1 \<noteq> []" using demo_filled_ok(2) by simp
  with queue_receive_refines [OF demo_filled_ok(1,3), where n = 5 and env = Some] demo_filled_ok(2,4) show ?thesis by auto
qed

section \<open>Sending from an interrupt\<close>

text \<open>An interrupt handler sends and yields on its way out when a task of higher priority was woken.\<close>

definition isr_send :: "nat \<Rightarrow> u32 \<Rightarrow> copy_position \<Rightarrow> 'a qkernel_scheme \<Rightarrow> (bool \<times> 'a qkernel_scheme) option" where
  "isr_send q item pos k = do {
     (sent, higher, k1) \<leftarrow> xQueueGenericSendFromISR q item pos k;
     k2 \<leftarrow> (if higher then vTaskSwitchContext k1 else Some k1);
     Some (sent, k2)
   }"

lemma ring_ok_lock [simp]: "ring_ok (Q\<lparr>cTxLock := c\<rparr>) = ring_ok Q" "ring_ok (Q\<lparr>cRxLock := c\<rparr>) = ring_ok Q"
  "contents m (Q\<lparr>cTxLock := c\<rparr>) = contents m Q" "contents m (Q\<lparr>cRxLock := c\<rparr>) = contents m Q"
  by (simp_all add: ring_ok_def contents_def slot_def read_index_def)

lemma all_ok_lock [simp]:
  "all_ok D T (upd_queue q (cTxLock_update (\<lambda>_. c)) k) q = all_ok D T k q"
  "items (upd_queue q (cTxLock_update (\<lambda>_. c)) k) q = items k q"
  by (simp_all add: all_ok_def queue_ok_def upd_queue_def)

text \<open>
  C14: Sending from an interrupt. With room in an unlocked queue, \<open>xQueueGenericSendFromISR\<close> and the yield it asks for add the
  item, keep the invariant and make the first waiting receiver ready; while a task holds the queue locked, the item is
  added but no list is touched, and the lock counts the item, up to the number of tasks; a full queue is left as it is.
\<close>

theorem isr_send_refines:
  assumes "all_ok D T k q" and "item \<noteq> 0" and "pos = queueOVERWRITE \<longrightarrow> uxLength (queues k q) = 1"
    and "cTxLock (queues k q) \<noteq> queueINT8_MAX"
  defines "x \<equiv> load_bytes (k_mem k) item (item_size (queues k q))" and "c \<equiv> cTxLock (queues k q)"
  shows "(has_room pos (queues k q) \<longrightarrow>
      (if c = queueUNLOCKED then
         \<exists>k'. isr_send q item pos k = Some (True, k') \<and> all_ok D T k' q \<and> items k' q = put_item pos x (items k q) \<and>
           head_ready (xTasksWaitingToReceive q) k k'
       else \<exists>k'. isr_send q item pos k = Some (True, k') \<and> all_ok D T k' q \<and> items k' q = put_item pos x (items k q) \<and>
           lists k' = lists k \<and>
           cTxLock (queues k' q) = (if scast c < uxCurrentNumberOfTasks k then c + 1 else c))) \<and>
    (\<not> has_room pos (queues k q) \<longrightarrow> isr_send q item pos k = Some (False, k))"
proof -
  have kq: "kernel_ok D T k" "queue_ok D T k q" using assms(1) by (simp_all add: all_ok_def)
  note l = queue_okD [OF kq(2)]
  let ?k1 = "prvCopyDataToQueue q item pos k"
  have room: "has_room pos (queues k q) \<longleftrightarrow> uxMessagesWaiting (queues k q) < uxLength (queues k q) \<or> pos = queueOVERWRITE"
    using assms(3) by (auto simp: has_room_def)
  have send: "xQueueGenericSendFromISR q item pos k =
      (if has_room pos (queues k q) then
         if c = queueUNLOCKED then map_option (\<lambda>(higher, k2). (True, higher, k2)) (wake_waiting (xTasksWaitingToReceive q) ?k1)
         else map_option (\<lambda>k2. (True, False, k2)) (prvIncrementQueueTxLock q c ?k1)
       else Some (False, False, k))"
    using assms(2,3) l(1) unfolding room c_def by (auto simp: xQueueGenericSendFromISR_def Let_def)
  show ?thesis
  proof (cases "has_room pos (queues k q)")
    case True
    note cp = copy_in_kernel [OF kq True, of item, folded x_def]
    have ok1: "all_ok D T ?k1 q" using cp(1,2) by (simp add: all_ok_def)
    show ?thesis
    proof (cases "c = queueUNLOCKED")
      case un: True
      obtain k' where k': "wake_and_yield (xTasksWaitingToReceive q) ?k1 = Some k'" "all_ok D T k' q" "k_mem k' = k_mem ?k1"
        "queues k' = queues ?k1" "head_ready (xTasksWaitingToReceive q) ?k1 k'"
        by (rule wake_keeps [OF cp(1,2) l(5,6)]) (rule that)
      have "isr_send q item pos k = Some (True, k')"
        using k'(1) True un by (auto simp: isr_send_def send wake_and_yield_def split: bind_splits if_splits)
      then show ?thesis using True un k'(2-5) cp(3) head_ready_same [OF cp(4,5)] by simp
    next
      case False
      let ?c = "if scast c < uxCurrentNumberOfTasks k then c + 1 else c"
      let ?k2 = "if scast c < uxCurrentNumberOfTasks k then upd_queue q (cTxLock_update (\<lambda>_. c + 1)) ?k1 else ?k1"
      have "prvIncrementQueueTxLock q c ?k1 = Some ?k2"
        using assms(4) cp(9) by (simp add: prvIncrementQueueTxLock_def uxTaskGetNumberOfTasks_def c_def)
      then have s: "isr_send q item pos k = Some (True, ?k2)" using True False by (simp add: isr_send_def send)
      have o: "all_ok D T ?k2 q" "items ?k2 q = put_item pos x (items k q)" using ok1 cp(3) by simp_all
      have "lists ?k2 = lists k" "cTxLock (queues ?k2 q) = ?c"
        using cp(4,7) by (simp_all add: upd_queue_def c_def)
      with s o True False show ?thesis by auto
    qed
  next
    case False
    then show ?thesis by (simp add: isr_send_def send)
  qed
qed

lemma isr_send_refines_witness:
  "\<exists>k'. isr_send 1 0x2000 queueSEND_TO_BACK demo_queue = Some (True, k') \<and> items k' 1 = [[0xA5, 0xA5, 0xA5, 0xA5]]"
proof -
  have r: "has_room queueSEND_TO_BACK (queues demo_queue 1)"
    using demo_queue_ok(2,4) by (simp add: has_room_def contents_def word_less_nat_alt)
  have u: "cTxLock (queues demo_queue 1) = queueUNLOCKED" using demo_queue_ok(3) by (simp add: unlocked_def)
  have l: "load_bytes (k_mem demo_queue) 0x2000 (item_size (queues demo_queue 1)) = [0xA5, 0xA5, 0xA5, 0xA5]"
    using demo_queue_ok(5) by (simp add: demo_queue_fields load_bytes_def demo_vars_def upt_rec)
  show ?thesis
    using isr_send_refines [OF demo_queue_ok(1), where item = "0x2000" and pos = queueSEND_TO_BACK] r u l demo_queue_ok(2) by auto
qed

section \<open>No wake-up is lost\<close>

text \<open>
  C7: No wake-up is lost. When a task lets go of a locked queue and the scheduler (\<open>prvUnlockQueue\<close>, \<open>xTaskResumeAll\<close>), as many waiting
  receivers as interrupts added items meanwhile, and as many waiting senders as they took, are ready afterwards: those at
  the front of the two waiting lists. The queue is unlocked with
  its items untouched and the ticks held back are counted.
\<close>

theorem no_lost_wakeup:
  assumes "all_ok D T k q" and "uxSchedulerSuspended k = 1" and "sched k D T xs ix"
  shows "\<exists>y k'. release_queue q k = Some (y, k') \<and> all_ok D T k' q \<and> unlocked k' q \<and> items k' q = items k q \<and>
    uxSchedulerSuspended k' = 0 \<and> xTickCount k' = xTickCount k + xPendedTicks k \<and>
    (\<forall>i\<in>set (take (lock_count (cTxLock (queues k q))) (xs (xTasksWaitingToReceive q))). ready k' (i div 2)) \<and>
    (\<forall>i\<in>set (take (lock_count (cRxLock (queues k q))) (xs (xTasksWaitingToSend q))). ready k' (i div 2))"
proof -
  have kq: "kernel_ok D T k" "queue_ok D T k q" using assms(1) by (simp_all add: all_ok_def)
  note l = queue_okD [OF kq(2)]
  obtain y k' where k': "release_queue q k = Some (y, k')" "good_step D T (unat (xPendedTicks k)) k k'" "uxSchedulerSuspended k' = 0"
    "k_mem k' = k_mem k"
    "queues k' = (queues k)(q := (queues k q)\<lparr>cTxLock := queueUNLOCKED, cRxLock := queueUNLOCKED\<rparr>)"
    "\<And>i. i \<in> set (take (lock_count (cTxLock (queues k q))) (xs (xTasksWaitingToReceive q))) \<Longrightarrow> ready k' (i div 2)"
    "\<And>i. i \<in> set (take (lock_count (cRxLock (queues k q))) (xs (xTasksWaitingToSend q))) \<Longrightarrow> ready k' (i div 2)"
    "tcbs k' = tcbs k"
    by (rule release_ok [OF kq(1) assms(2,3) l(3,5)]) (rule that)
  have "queue_ok D T k' q" using kq(2) k'(5,8) by (simp add: queue_ok_def)
  then have "all_ok D T k' q" using good_stepD(1) [OF k'(2)] by (simp add: all_ok_def)
  moreover have "unlocked k' q" "items k' q = items k q" using k'(4,5) by (simp_all add: unlocked_def)
  ultimately show ?thesis using k'(1,3,6,7) good_stepD(4) [OF k'(2)] by auto
qed

text \<open>The concrete queue with the running task waiting on it.\<close>

lemma demo_waiting:
  obtains k1 where "block_on 12 1 5 (prvLockQueue 1 (vTaskSuspendAll demo_queue)) = Some k1" and "all_ok demo_lists {1, 2, 3} k1 1"
    and "container (lists k1) 7 = Some 12" and "\<not> ready k1 3" and "uxSchedulerSuspended k1 = 0"
proof -
  have ok: "kernel_ok demo_lists {1, 2, 3} demo_queue" "queue_ok demo_lists {1, 2, 3} demo_queue 1"
    using demo_queue_ok(1) by (simp_all add: all_ok_def)
  have h: "pxCurrentTCB demo_queue \<noteq> xIdleTaskHandle demo_queue" "(5 :: u32) \<noteq> 0" "12 \<in> demo_lists" "(8 :: nat) < 12"
    by (simp_all add: demo_queue_fields)
  obtain k1 where k1: "block_on 12 1 5 (prvLockQueue 1 (vTaskSuspendAll demo_queue)) = Some k1" "good_step demo_lists {1, 2, 3} 0 demo_queue k1"
    "\<not> ready k1 (pxCurrentTCB demo_queue)" "container (lists k1) (2 * pxCurrentTCB demo_queue + 1) = Some 12"
    "queues k1 = queues demo_queue" "tcbs k1 = tcbs demo_queue" "uxSchedulerSuspended k1 = 0"
    by (rule block_on_ok [OF ok(1) demo_queue_fields(2) h demo_queue_ok(3)]) (rule that)
  have "queue_ok demo_lists {1, 2, 3} k1 1" using ok(2) k1(5,6) by (simp add: queue_ok_def)
  then show thesis using that [OF k1(1)] good_stepD(1) [OF k1(2)] k1(3,4,7) by (simp add: all_ok_def demo_queue_fields)
qed

lemma waiting_items:
  assumes inv: "sched k D T xs ix" and l: "l \<in> D" and fin: "finite T" and c: "container (lists k) i = Some l" and n: "2 * card T \<le> n"
  shows "i \<in> set (take n (xs l))"
proof -
  have "distinct (xs l)" by (rule lists_rep_distinct [OF schedD(1) [OF inv] l])
  then have "length (xs l) = card (set (xs l))" by (simp add: distinct_card)
  also have "\<dots> \<le> card (task_items T)"
    by (rule card_mono [OF task_items_finite(1) [OF fin]]) (use listed_task [OF inv l] in \<open>auto simp: task_items_def\<close>)
  also have "\<dots> \<le> n" using task_items_finite(2) [OF fin] n by simp
  finally have "take n (xs l) = xs l" by simp
  then show ?thesis using sched_container [OF inv] c by simp
qed

lemma no_lost_wakeup_witness:
  "\<exists>(k :: qkernel) y k'. \<not> ready k 3 \<and> cTxLock (queues k 1) = 100 \<and> release_queue 1 k = Some (y, k') \<and> ready k' 3"
proof -
  obtain k1 :: qkernel where k1: "all_ok demo_lists {1, 2, 3} k1 1" "container (lists k1) 7 = Some 12" "\<not> ready k1 3" "uxSchedulerSuspended k1 = 0"
    by (rule demo_waiting) (rule that)
  let ?k = "upd_queue 1 (cTxLock_update (\<lambda>_. 100)) (vTaskSuspendAll k1)"
  have kq: "kernel_ok demo_lists {1, 2, 3} k1" "queue_ok demo_lists {1, 2, 3} k1 1" using k1(1) by (simp_all only: all_ok_def)
  have "kernel_ok demo_lists {1, 2, 3} (vTaskSuspendAll k1)"
    using suspend_ok [OF kq(1)] k1(4) by (auto dest: good_stepD(1))
  moreover have "queue_ok demo_lists {1, 2, 3} (vTaskSuspendAll k1) 1" using kq(2) by (simp add: queue_ok_def vTaskSuspendAll_def)
  ultimately have ok: "all_ok demo_lists {1, 2, 3} ?k 1" unfolding all_ok_lock by (simp add: all_ok_def)
  then obtain xs ix where inv: "sched ?k demo_lists {1, 2, 3} xs ix"
    using kcoreE [OF kernel_okD(1)] unfolding all_ok_def by blast
  have s: "uxSchedulerSuspended ?k = 1" using k1(4) by (simp add: upd_queue_def vTaskSuspendAll_def)
  have c: "lock_count (cTxLock (queues ?k 1)) = 100" by (simp add: upd_queue_def lock_count_def)
  have "7 \<in> set (take 100 (xs (xTasksWaitingToReceive 1)))"
    by (rule waiting_items [OF inv]) (use k1(2) in \<open>simp_all add: xTasksWaitingToReceive_def upd_queue_def vTaskSuspendAll_def\<close>)
  moreover obtain y k' where k': "release_queue 1 ?k = Some (y, k')"
    "\<forall>i\<in>set (take (lock_count (cTxLock (queues ?k 1))) (xs (xTasksWaitingToReceive 1))). ready k' (i div 2)"
    using no_lost_wakeup [OF ok s inv] by blast
  ultimately have "ready k' (7 div 2)" unfolding c by blast
  then have "ready k' 3" by simp
  moreover have "\<not> ready ?k 3" "cTxLock (queues ?k 1) = 100" using k1(3) by (simp_all add: upd_queue_def vTaskSuspendAll_def ready_def)
  ultimately show ?thesis using k'(1) by blast
qed

section \<open>Waiting on an empty queue\<close>

lemma check_fresh:
  assumes "n \<noteq> 0" and "xTickCount k1 = xTickCount k" and "xNumOfOverflows k1 = xNumOfOverflows k"
  shows "xTaskCheckForTimeOut k1 (vTaskInternalSetTimeOutState k) n = (False, vTaskInternalSetTimeOutState k, n)"
  using assms by (simp add: xTaskCheckForTimeOut_def vTaskInternalSetTimeOutState_def Let_def word_gt_0)

text \<open>
  C8: Waiting for an item. On an empty queue, \<open>xQueueReceive\<close> with a block time puts the calling task on the queue's list of waiting receivers and
  off the processor, until its time is up or for ever, with the invariant kept. When it runs again and
  finds an item it returns true with the first item in its buffer; when it finds none and its time is up, it returns false.
\<close>

theorem blocked_receive:
  fixes k :: "'a qkernel_scheme"
  assumes "all_ok D T k q" and "items k q = []" and "unlocked k q" and "buf \<noteq> 0" and "n \<noteq> 0"
    and "uxSchedulerSuspended k = 0" and "pxCurrentTCB k \<noteq> xIdleTaskHandle k"
  defines "c \<equiv> pxCurrentTCB k" and "entered \<equiv> vTaskInternalSetTimeOutState k"
  shows "\<exists>k1. all_ok D T k1 q \<and> items k1 q = [] \<and> \<not> ready k1 c \<and> pxCurrentTCB k1 \<noteq> c \<and>
    container (lists k1) (xEventListItem c) = Some (xTasksWaitingToReceive q) \<and>
    container (lists k1) (xStateListItem c) = Some (sleep_list k n True) \<and>
    (\<forall>env k2. env k1 = Some k2 \<and> all_ok D T k2 q \<longrightarrow>
      (items k2 q \<noteq> [] \<and> buffer_ok T k2 q buf \<longrightarrow>
        (\<exists>k'. xQueueReceive env q buf n k = Some (True, k') \<and> all_ok D T k' q \<and> items k' q = tl (items k2 q) \<and>
          load_bytes (k_mem k') buf (item_size (queues k2 q)) = hd (items k2 q))) \<and>
      (items k2 q = [] \<and> uxSchedulerSuspended k2 = 0 \<and> unlocked k2 q \<and> fst (xTaskCheckForTimeOut k2 entered n) \<longrightarrow>
        (\<exists>k'. xQueueReceive env q buf n k = Some (False, k') \<and> all_ok D T k' q \<and> items k' q = [])))"
proof -
  have kq: "kernel_ok D T k" "queue_ok D T k q" using assms(1) by (simp_all add: all_ok_def)
  note l = queue_okD [OF kq(2)]
  let ?r = "xTasksWaitingToReceive q" and ?k0 = "prvLockQueue q (vTaskSuspendAll k)"
  obtain k1 where k1: "block_on ?r q n ?k0 = Some k1" "good_step D T 0 k k1" "\<not> ready k1 c" "container (lists k1) (2 * c + 1) = Some ?r"
    "container (lists k1) (2 * c) = Some (sleep_list k n True)" "k_mem k1 = k_mem k" "queues k1 = queues k" "tcbs k1 = tcbs k"
    by (rule block_on_ok [OF kq(1) assms(6,7,5) l(5,6) assms(3), folded c_def]) (rule that)
  have ok1: "all_ok D T k1 q" using kq(2) good_stepD(1) [OF k1(2)] k1(7,8) by (simp add: all_ok_def queue_ok_def)
  have ch: "xTaskCheckForTimeOut ?k0 entered n = (False, entered, n)"
    unfolding entered_def by (rule check_fresh [OF assms(5)]) (simp_all add: prvLockQueue_def upd_queue_def vTaskSuspendAll_def)
  have m0: "uxMessagesWaiting (queues k q) = 0" using assms(2) by (simp add: contents_def unat_eq_zero)
  have e0: "prvIsQueueEmpty ?k0 q" using m0 by (simp add: prvIsQueueEmpty_def prvLockQueue_def upd_queue_def vTaskSuspendAll_def)
  have w: "receive_wait q entered n k = Some (Some (entered, n), k1)" using ch e0 k1(1) by (simp add: receive_wait_def Let_def)
  have t: "receive_try q buf n None k = Some (Blocks entered, k)"
    using m0 assms(5) by (simp add: receive_try_def Let_def empty_try_def note_entry_def entered_def)
  have first: "xQueueReceive env q buf n k = Option.bind (env k1) (receive_loop env (receive_try q buf) q n (Some entered))" for env
  proof -
    have "xQueueReceive env q buf n k = receive_loop env (receive_try q buf) q n None k"
      using l(1) assms(4,6) by (simp add: xQueueReceive_def xTaskGetSchedulerState_def)
    also have "\<dots> = Option.bind (env k1) (receive_loop env (receive_try q buf) q n (Some entered))"
      using t w by (subst receive_loop.simps) simp
    finally show ?thesis .
  qed
  have got: "\<exists>k'. xQueueReceive env q buf n k = Some (True, k') \<and> all_ok D T k' q \<and> items k' q = tl (items k2 q) \<and>
      load_bytes (k_mem k') buf (item_size (queues k2 q)) = hd (items k2 q)"
    if "env k1 = Some k2" "all_ok D T k2 q" "items k2 q \<noteq> []" "buffer_ok T k2 q buf" for env k2
    using receive_now [OF that(2,4,3), of n "Some entered"] that(1) first [of env] receive_loop_now by (metis bind.bind_lunit)
  have late: "\<exists>k'. xQueueReceive env q buf n k = Some (False, k') \<and> all_ok D T k' q \<and> items k' q = []"
    if e: "env k1 = Some k2" and o: "all_ok D T k2 q" and i: "items k2 q = []" and s: "uxSchedulerSuspended k2 = 0"
      and u: "unlocked k2 q" and x: "fst (xTaskCheckForTimeOut k2 entered n)" for env k2
  proof -
    have kq2: "kernel_ok D T k2" "queue_ok D T k2 q" using o by (simp_all add: all_ok_def)
    let ?s = "vTaskSuspendAll k2"
    let ?k3 = "prvLockQueue q ?s"
    have "kernel_ok D T ?s" using suspend_ok [OF kq2(1)] s by (auto dest: good_stepD(1))
    then have ok3: "kernel_ok D T ?k3" by (simp add: prvLockQueue_def upd_queue_def)
    obtain xs ix where inv: "sched ?k3 D T xs ix" by (rule kcoreE [OF kernel_okD(1) [OF ok3]])
    have one: "uxSchedulerSuspended ?k3 = 1" using s by (simp add: prvLockQueue_def upd_queue_def vTaskSuspendAll_def)
    obtain y k4 where k4: "release_queue q ?k3 = Some (y, k4)" "good_step D T (unat (xPendedTicks ?k3)) ?k3 k4"
      "k_mem k4 = k_mem ?k3"
      "queues k4 = (queues ?k3)(q := (queues ?k3 q)\<lparr>cTxLock := queueUNLOCKED, cRxLock := queueUNLOCKED\<rparr>)" "tcbs k4 = tcbs ?k3"
      by (rule release_ok [OF ok3 one inv l(3,5)]) (rule that)
    have qs: "queues k4 = queues k2"
      using k4(4) u by (simp add: prvLockQueue_def upd_queue_def vTaskSuspendAll_def unlocked_def fun_eq_iff)
    have f: "k_mem k4 = k_mem k2" "tcbs k4 = tcbs k2" using k4(3,5) by (simp_all add: prvLockQueue_def upd_queue_def vTaskSuspendAll_def)
    have ok4: "all_ok D T k4 q" using good_stepD(1) [OF k4(2)] kq2(2) f qs by (simp add: all_ok_def queue_ok_def)
    have m2: "uxMessagesWaiting (queues k2 q) = 0" using i by (simp add: contents_def unat_eq_zero)
    have "fst (xTaskCheckForTimeOut ?k3 entered n)"
      using x by (simp add: xTaskCheckForTimeOut_def Let_def prvLockQueue_def upd_queue_def vTaskSuspendAll_def split: if_splits)
    then obtain tmo' n' where "xTaskCheckForTimeOut ?k3 entered n = (True, tmo', n')" by (cases "xTaskCheckForTimeOut ?k3 entered n") auto
    then have "receive_wait q entered n k2 = Some (None, k4)"
      using k4(1) m2 qs by (simp add: receive_wait_def Let_def prvIsQueueEmpty_def split: prod.splits)
    moreover have "receive_try q buf n (Some entered) k2 = Some (Blocks entered, k2)"
      using m2 assms(5) by (simp add: receive_try_def Let_def empty_try_def note_entry_def)
    ultimately have "receive_loop env (receive_try q buf) q n (Some entered) k2 = Some (False, k4)"
      by (subst receive_loop.simps) simp
    then show ?thesis using first [of env] e ok4 i f qs by simp
  qed
  have run: "pxCurrentTCB k1 \<noteq> c" using k1(3) kernel_okD(2) [of D T k1] ok1 by (auto simp: all_ok_def)
  have i1: "items k1 q = []" using assms(2) k1(6,7) by simp
  show ?thesis
  proof (rule exI [of _ k1], intro conjI allI impI)
    show "\<exists>k'. xQueueReceive env q buf n k = Some (True, k') \<and> all_ok D T k' q \<and> items k' q = tl (items k2 q) \<and>
        load_bytes (k_mem k') buf (item_size (queues k2 q)) = hd (items k2 q)"
      if "env k1 = Some k2 \<and> all_ok D T k2 q" "items k2 q \<noteq> [] \<and> buffer_ok T k2 q buf" for env k2
      by (rule got) (use that in simp_all)
    show "\<exists>k'. xQueueReceive env q buf n k = Some (False, k') \<and> all_ok D T k' q \<and> items k' q = []"
      if "env k1 = Some k2 \<and> all_ok D T k2 q"
        "items k2 q = [] \<and> uxSchedulerSuspended k2 = 0 \<and> unlocked k2 q \<and> fst (xTaskCheckForTimeOut k2 entered n)" for env k2
      by (rule late) (use that in blast)+
  qed (rule ok1 i1 k1(3,4,5) run)+
qed

lemma blocked_receive_witness:
  "\<exists>(k1 :: qkernel) k'. container (lists k1) (xEventListItem 3) = Some 12 \<and> \<not> ready k1 3 \<and>
    xQueueReceive (\<lambda>_. Some demo_filled) 1 0x3000 5 demo_queue = Some (True, k') \<and> items k' 1 = []"
proof -
  have h: "(0x3000 :: u32) \<noteq> 0" "(5 :: u32) \<noteq> 0" "pxCurrentTCB demo_queue \<noteq> xIdleTaskHandle demo_queue"
    by (simp_all add: demo_queue_fields)
  have ne: "items demo_filled 1 \<noteq> []" unfolding demo_filled_ok(2) by simp
  obtain k1 where k1: "container (lists k1) (xEventListItem (pxCurrentTCB demo_queue)) = Some (xTasksWaitingToReceive 1)"
    "\<not> ready k1 (pxCurrentTCB demo_queue)"
    and f: "\<And>env k2. env k1 = Some k2 \<and> all_ok demo_lists {1, 2, 3} k2 1 \<Longrightarrow> items k2 1 \<noteq> [] \<and> buffer_ok {1, 2, 3} k2 1 0x3000 \<Longrightarrow>
      \<exists>k'. xQueueReceive env 1 0x3000 5 demo_queue = Some (True, k') \<and> items k' 1 = tl (items k2 1)"
    using blocked_receive [OF demo_queue_ok(1-3) h(1,2) demo_queue_fields(2) h(3)] by (elim exE conjE) fast
  obtain k' where "xQueueReceive (\<lambda>_. Some demo_filled) 1 0x3000 5 demo_queue = Some (True, k')" "items k' 1 = tl (items demo_filled 1)"
    using f [of "\<lambda>_. Some demo_filled" demo_filled] ne demo_filled_ok(1,3) by auto
  with k1 show ?thesis
    unfolding demo_filled_ok(2) demo_queue_fields(4) by (auto simp: xTasksWaitingToReceive_def)
qed

end
