(* ===== verification/Rtos_Timer.thy ===== *)
theory Rtos_Timer
  imports Rtos_Queue
begin

text \<open>
  Software timers, \<open>ddr_app/rtos/FreeRTOS/timers.c\<close>, for the repository's configuration: dynamic allocation only,
  no pended function calls, no trace facility. The two lists of active timers and the list items inside the timers are
  objects of their own, apart from the scheduler's lists, so they have their own store; a timer's handle is its
  address and the number of its list item. A callback is code of the application: the argument \<open>call\<close> runs the
  function at an address for a timer.

  The daemon task shares the processor: what the rest of the system does while it is blocked is the argument \<open>env\<close>.
\<close>

section \<open>State\<close>

record timer =
  pcTimerName :: u32
  xTimerPeriodInTicks :: u32
  pvTimerID :: u32
  pxCallbackFunction :: u32
  ucStatus :: u8

record tkernel = qkernel +
  timer_lists :: store
  timers :: "nat \<Rightarrow> timer"
  pxCurrentTimerList :: nat
  pxOverflowTimerList :: nat
  xTimerQueue :: nat
  xTimerTaskHandle :: nat
  xLastTime :: u32

type_synonym 'a callback = "u32 \<Rightarrow> nat \<Rightarrow> 'a tkernel_scheme \<Rightarrow> 'a tkernel_scheme option"

abbreviation xActiveTimerList1 :: nat where "xActiveTimerList1 \<equiv> 0"
abbreviation xActiveTimerList2 :: nat where "xActiveTimerList2 \<equiv> 1"

abbreviation tmrSTATUS_IS_ACTIVE :: u8 where "tmrSTATUS_IS_ACTIVE \<equiv> 1"
abbreviation tmrSTATUS_IS_STATICALLY_ALLOCATED :: u8 where "tmrSTATUS_IS_STATICALLY_ALLOCATED \<equiv> 2"
abbreviation tmrSTATUS_IS_AUTORELOAD :: u8 where "tmrSTATUS_IS_AUTORELOAD \<equiv> 4"

abbreviation tmrNO_DELAY :: u32 where "tmrNO_DELAY \<equiv> 0"
abbreviation tmrMAX_TIME_BEFORE_OVERFLOW :: u32 where "tmrMAX_TIME_BEFORE_OVERFLOW \<equiv> 0xFFFFFFFF"

definition upd_timer :: "nat \<Rightarrow> (timer \<Rightarrow> timer) \<Rightarrow> 'a tkernel_scheme \<Rightarrow> 'a tkernel_scheme" where
  "upd_timer h f k = k\<lparr>timers := (timers k)(h := f (timers k h))\<rparr>"

definition on_timers :: "(store \<Rightarrow> store) \<Rightarrow> 'a tkernel_scheme \<Rightarrow> 'a tkernel_scheme" where
  "on_timers f k = k\<lparr>timer_lists := f (timer_lists k)\<rparr>"

definition on_timers_opt :: "(store \<Rightarrow> store option) \<Rightarrow> 'a tkernel_scheme \<Rightarrow> 'a tkernel_scheme option" where
  "on_timers_opt f k = map_option (\<lambda>s. k\<lparr>timer_lists := s\<rparr>) (f (timer_lists k))"

definition set_status :: "u8 \<Rightarrow> timer \<Rightarrow> timer" where
  "set_status b t = t\<lparr>ucStatus := ucStatus t OR b\<rparr>"

definition clear_status :: "u8 \<Rightarrow> timer \<Rightarrow> timer" where
  "clear_status b t = t\<lparr>ucStatus := ucStatus t AND NOT b\<rparr>"

section \<open>Messages to the daemon\<close>

text \<open>The layout of \<open>DaemonTaskMessage_t\<close>: the command, its value and the timer.\<close>

abbreviation sizeof_DaemonTaskMessage :: u32 where "sizeof_DaemonTaskMessage \<equiv> 12"

definition message_bytes :: "u32 \<Rightarrow> u32 \<Rightarrow> nat \<Rightarrow> u8 list" where
  "message_bytes cmd v h = le32 cmd @ le32 v @ le32 (of_nat h)"

definition read_message :: "memory \<Rightarrow> u32 \<Rightarrow> u32 \<times> u32 \<times> nat" where
  "read_message m a =
     (let bs = load_bytes m a 12 in (rd32 bs 0, rd32 bs 4, unat (rd32 bs 8)))"

abbreviation tmrCOMMAND_START :: u32 where "tmrCOMMAND_START \<equiv> 1"
abbreviation tmrCOMMAND_RESET :: u32 where "tmrCOMMAND_RESET \<equiv> 2"
abbreviation tmrCOMMAND_STOP :: u32 where "tmrCOMMAND_STOP \<equiv> 3"
abbreviation tmrCOMMAND_CHANGE_PERIOD :: u32 where "tmrCOMMAND_CHANGE_PERIOD \<equiv> 4"
abbreviation tmrCOMMAND_DELETE :: u32 where "tmrCOMMAND_DELETE \<equiv> 5"
abbreviation tmrFIRST_FROM_ISR_COMMAND :: u32 where "tmrFIRST_FROM_ISR_COMMAND \<equiv> 6"
abbreviation tmrCOMMAND_START_FROM_ISR :: u32 where "tmrCOMMAND_START_FROM_ISR \<equiv> 6"
abbreviation tmrCOMMAND_RESET_FROM_ISR :: u32 where "tmrCOMMAND_RESET_FROM_ISR \<equiv> 7"
abbreviation tmrCOMMAND_STOP_FROM_ISR :: u32 where "tmrCOMMAND_STOP_FROM_ISR \<equiv> 8"
abbreviation tmrCOMMAND_CHANGE_PERIOD_FROM_ISR :: u32 where "tmrCOMMAND_CHANGE_PERIOD_FROM_ISR \<equiv> 9"

section \<open>Creation\<close>

definition prvCheckForValidListAndQueue :: "layout \<Rightarrow> 'a tkernel_scheme \<Rightarrow> 'a tkernel_scheme option" where
  "prvCheckForValidListAndQueue L k =
     (if xTimerQueue k = 0 then
        let k1 = on_timers (vListInitialise xActiveTimerList2) (on_timers (vListInitialise xActiveTimerList1) k);
            k2 = k1\<lparr>pxCurrentTimerList := xActiveTimerList1, pxOverflowTimerList := xActiveTimerList2\<rparr>
        in map_option (\<lambda>(q, k3). k3\<lparr>xTimerQueue := q\<rparr>) (xQueueGenericCreate L 8 sizeof_DaemonTaskMessage k2)
      else Some k)"

definition prvInitialiseNewTimer ::
    "layout \<Rightarrow> u32 \<Rightarrow> u32 \<Rightarrow> bool \<Rightarrow> u32 \<Rightarrow> u32 \<Rightarrow> nat \<Rightarrow> 'a tkernel_scheme \<Rightarrow> 'a tkernel_scheme option" where
  "prvInitialiseNewTimer L name period reload tid code h k =
     (if 0 < period then do {
        k1 \<leftarrow> prvCheckForValidListAndQueue L k;
        let k2 = upd_timer h (\<lambda>t. t\<lparr>pcTimerName := name, xTimerPeriodInTicks := period, pvTimerID := tid,
                   pxCallbackFunction := code\<rparr>) k1;
        let k3 = on_timers (vListInitialiseItem h) k2;
        Some (if reload then upd_timer h (set_status tmrSTATUS_IS_AUTORELOAD) k3 else k3)
      }
      else None)"

text \<open>\<open>sizeof(Timer_t)\<close> of the 32-bit ABI.\<close>

abbreviation sizeof_Timer :: u32 where "sizeof_Timer \<equiv> 40"

definition xTimerCreate ::
    "layout \<Rightarrow> u32 \<Rightarrow> u32 \<Rightarrow> bool \<Rightarrow> u32 \<Rightarrow> u32 \<Rightarrow> 'a tkernel_scheme \<Rightarrow> (nat \<times> 'a tkernel_scheme) option" where
  "xTimerCreate L name period reload tid code k = do {
     (pv, k1) \<leftarrow> task_malloc L sizeof_Timer k;
     let h = unat pv;
     if pv \<noteq> 0
     then map_option (\<lambda>k2. (h, k2))
            (prvInitialiseNewTimer L name period reload tid code h (upd_timer h (ucStatus_update (\<lambda>_. 0)) k1))
     else Some (h, k1)
   }"

section \<open>Commands\<close>

text \<open>The message is a local variable of the caller, at the address \<open>msg\<close> on its stack.\<close>

definition xTimerGenericCommandFromTask ::
    "('a tkernel_scheme \<Rightarrow> 'a tkernel_scheme option) \<Rightarrow> u32 \<Rightarrow> nat \<Rightarrow> u32 \<Rightarrow> u32 \<Rightarrow> u32 \<Rightarrow>
      'a tkernel_scheme \<Rightarrow> (bool \<times> 'a tkernel_scheme) option" where
  "xTimerGenericCommandFromTask env msg h cmd v n k =
     (if xTimerQueue k \<noteq> 0 \<and> h \<noteq> 0 then
        let k1 = k\<lparr>k_mem := store_bytes msg (message_bytes cmd v h) (k_mem k)\<rparr>
        in if cmd <s tmrFIRST_FROM_ISR_COMMAND
           then xQueueGenericSend env (xTimerQueue k1) msg
                  (if xTaskGetSchedulerState k1 = taskSCHEDULER_RUNNING then n else tmrNO_DELAY) queueSEND_TO_BACK k1
           else None
      else Some (False, k))"

definition xTimerGenericCommandFromISR ::
    "u32 \<Rightarrow> nat \<Rightarrow> u32 \<Rightarrow> u32 \<Rightarrow> 'a tkernel_scheme \<Rightarrow> (bool \<times> bool \<times> 'a tkernel_scheme) option" where
  "xTimerGenericCommandFromISR msg h cmd v k =
     (if xTimerQueue k \<noteq> 0 \<and> h \<noteq> 0 then
        let k1 = k\<lparr>k_mem := store_bytes msg (message_bytes cmd v h) (k_mem k)\<rparr>
        in if \<not> cmd <s tmrFIRST_FROM_ISR_COMMAND
           then xQueueGenericSendFromISR (xTimerQueue k1) msg queueSEND_TO_BACK k1
           else None
      else Some (False, False, k))"

definition xTimerStart ::
    "('a tkernel_scheme \<Rightarrow> 'a tkernel_scheme option) \<Rightarrow> u32 \<Rightarrow> nat \<Rightarrow> u32 \<Rightarrow> 'a tkernel_scheme \<Rightarrow> (bool \<times> 'a tkernel_scheme) option" where
  "xTimerStart env msg h n k = xTimerGenericCommandFromTask env msg h tmrCOMMAND_START (xTaskGetTickCount k) n k"

definition xTimerStop ::
    "('a tkernel_scheme \<Rightarrow> 'a tkernel_scheme option) \<Rightarrow> u32 \<Rightarrow> nat \<Rightarrow> u32 \<Rightarrow> 'a tkernel_scheme \<Rightarrow> (bool \<times> 'a tkernel_scheme) option" where
  "xTimerStop env msg h n k = xTimerGenericCommandFromTask env msg h tmrCOMMAND_STOP 0 n k"

definition xTimerChangePeriod ::
    "('a tkernel_scheme \<Rightarrow> 'a tkernel_scheme option) \<Rightarrow> u32 \<Rightarrow> nat \<Rightarrow> u32 \<Rightarrow> u32 \<Rightarrow> 'a tkernel_scheme \<Rightarrow> (bool \<times> 'a tkernel_scheme) option" where
  "xTimerChangePeriod env msg h p n k = xTimerGenericCommandFromTask env msg h tmrCOMMAND_CHANGE_PERIOD p n k"

definition xTimerDelete ::
    "('a tkernel_scheme \<Rightarrow> 'a tkernel_scheme option) \<Rightarrow> u32 \<Rightarrow> nat \<Rightarrow> u32 \<Rightarrow> 'a tkernel_scheme \<Rightarrow> (bool \<times> 'a tkernel_scheme) option" where
  "xTimerDelete env msg h n k = xTimerGenericCommandFromTask env msg h tmrCOMMAND_DELETE 0 n k"

definition xTimerReset ::
    "('a tkernel_scheme \<Rightarrow> 'a tkernel_scheme option) \<Rightarrow> u32 \<Rightarrow> nat \<Rightarrow> u32 \<Rightarrow> 'a tkernel_scheme \<Rightarrow> (bool \<times> 'a tkernel_scheme) option" where
  "xTimerReset env msg h n k = xTimerGenericCommandFromTask env msg h tmrCOMMAND_RESET (xTaskGetTickCount k) n k"

definition xTimerStartFromISR :: "u32 \<Rightarrow> nat \<Rightarrow> 'a tkernel_scheme \<Rightarrow> (bool \<times> bool \<times> 'a tkernel_scheme) option" where
  "xTimerStartFromISR msg h k = xTimerGenericCommandFromISR msg h tmrCOMMAND_START_FROM_ISR (xTaskGetTickCountFromISR k) k"

definition xTimerStopFromISR :: "u32 \<Rightarrow> nat \<Rightarrow> 'a tkernel_scheme \<Rightarrow> (bool \<times> bool \<times> 'a tkernel_scheme) option" where
  "xTimerStopFromISR msg h k = xTimerGenericCommandFromISR msg h tmrCOMMAND_STOP_FROM_ISR 0 k"

definition xTimerChangePeriodFromISR :: "u32 \<Rightarrow> nat \<Rightarrow> u32 \<Rightarrow> 'a tkernel_scheme \<Rightarrow> (bool \<times> bool \<times> 'a tkernel_scheme) option" where
  "xTimerChangePeriodFromISR msg h p k = xTimerGenericCommandFromISR msg h tmrCOMMAND_CHANGE_PERIOD_FROM_ISR p k"

definition xTimerResetFromISR :: "u32 \<Rightarrow> nat \<Rightarrow> 'a tkernel_scheme \<Rightarrow> (bool \<times> bool \<times> 'a tkernel_scheme) option" where
  "xTimerResetFromISR msg h k = xTimerGenericCommandFromISR msg h tmrCOMMAND_RESET_FROM_ISR (xTaskGetTickCountFromISR k) k"

section \<open>Queries\<close>

definition xTimerGetTimerDaemonTaskHandle :: "'a tkernel_scheme \<Rightarrow> nat option" where
  "xTimerGetTimerDaemonTaskHandle k = (if xTimerTaskHandle k \<noteq> 0 then Some (xTimerTaskHandle k) else None)"

definition xTimerGetPeriod :: "nat \<Rightarrow> 'a tkernel_scheme \<Rightarrow> u32 option" where
  "xTimerGetPeriod h k = (if h \<noteq> 0 then Some (xTimerPeriodInTicks (timers k h)) else None)"

definition vTimerSetReloadMode :: "nat \<Rightarrow> bool \<Rightarrow> 'a tkernel_scheme \<Rightarrow> 'a tkernel_scheme option" where
  "vTimerSetReloadMode h reload k =
     (if h \<noteq> 0
      then Some (upd_timer h ((if reload then set_status else clear_status) tmrSTATUS_IS_AUTORELOAD) k)
      else None)"

definition xTimerGetReloadMode :: "nat \<Rightarrow> 'a tkernel_scheme \<Rightarrow> bool option" where
  "xTimerGetReloadMode h k =
     (if h \<noteq> 0 then Some (ucStatus (timers k h) AND tmrSTATUS_IS_AUTORELOAD \<noteq> 0) else None)"

definition uxTimerGetReloadMode :: "nat \<Rightarrow> 'a tkernel_scheme \<Rightarrow> bool option" where
  "uxTimerGetReloadMode h k = xTimerGetReloadMode h k"

definition xTimerGetExpiryTime :: "nat \<Rightarrow> 'a tkernel_scheme \<Rightarrow> u32 option" where
  "xTimerGetExpiryTime h k = (if h \<noteq> 0 then Some (listGET_LIST_ITEM_VALUE h (timer_lists k)) else None)"

definition pcTimerGetName :: "nat \<Rightarrow> 'a tkernel_scheme \<Rightarrow> u32 option" where
  "pcTimerGetName h k = (if h \<noteq> 0 then Some (pcTimerName (timers k h)) else None)"

definition xTimerIsTimerActive :: "nat \<Rightarrow> 'a tkernel_scheme \<Rightarrow> bool option" where
  "xTimerIsTimerActive h k =
     (if h \<noteq> 0 then Some (ucStatus (timers k h) AND tmrSTATUS_IS_ACTIVE \<noteq> 0) else None)"

definition pvTimerGetTimerID :: "nat \<Rightarrow> 'a tkernel_scheme \<Rightarrow> u32 option" where
  "pvTimerGetTimerID h k = (if h \<noteq> 0 then Some (pvTimerID (timers k h)) else None)"

definition vTimerSetTimerID :: "nat \<Rightarrow> u32 \<Rightarrow> 'a tkernel_scheme \<Rightarrow> 'a tkernel_scheme option" where
  "vTimerSetTimerID h v k = (if h \<noteq> 0 then Some (upd_timer h (pvTimerID_update (\<lambda>_. v)) k) else None)"

definition vTimerResetState :: "'a tkernel_scheme \<Rightarrow> 'a tkernel_scheme" where
  "vTimerResetState k = k\<lparr>xTimerQueue := 0, xTimerTaskHandle := 0\<rparr>"

section \<open>Expiry\<close>

text \<open>The answer is whether the timer has expired already; otherwise it is put on one of the lists.\<close>

definition prvInsertTimerInActiveList ::
    "nat \<Rightarrow> u32 \<Rightarrow> u32 \<Rightarrow> u32 \<Rightarrow> 'a tkernel_scheme \<Rightarrow> (bool \<times> 'a tkernel_scheme) option" where
  "prvInsertTimerInActiveList h next_expiry now cmd_time k =
     (let k1 = on_timers (listSET_LIST_ITEM_VALUE h next_expiry) k;
          k2 = on_timers (listSET_LIST_ITEM_OWNER h h) k1
      in if next_expiry \<le> now then
           if xTimerPeriodInTicks (timers k2 h) \<le> now - cmd_time then Some (True, k2)
           else map_option (Pair False) (on_timers_opt (vListInsert (pxOverflowTimerList k2) h) k2)
         else
           if now < cmd_time \<and> cmd_time \<le> next_expiry then Some (True, k2)
           else map_option (Pair False) (on_timers_opt (vListInsert (pxCurrentTimerList k2) h) k2))"

definition call_timer :: "'a callback \<Rightarrow> nat \<Rightarrow> 'a tkernel_scheme \<Rightarrow> 'a tkernel_scheme option" where
  "call_timer call h k = call (pxCallbackFunction (timers k h)) h k"

partial_function (option) prvReloadTimer ::
    "'a callback \<Rightarrow> nat \<Rightarrow> u32 \<Rightarrow> u32 \<Rightarrow> 'a tkernel_scheme \<Rightarrow> 'a tkernel_scheme option" where
  "prvReloadTimer call h expired now k =
     Option.bind (prvInsertTimerInActiveList h (expired + xTimerPeriodInTicks (timers k h)) now expired k) (\<lambda>(again, k1).
       if again
       then Option.bind (call_timer call h k1) (prvReloadTimer call h (expired + xTimerPeriodInTicks (timers k1 h)) now)
       else Some k1)"

definition prvProcessExpiredTimer ::
    "'a callback \<Rightarrow> u32 \<Rightarrow> u32 \<Rightarrow> 'a tkernel_scheme \<Rightarrow> 'a tkernel_scheme option" where
  "prvProcessExpiredTimer call next_expire now k =
     (let h = listGET_OWNER_OF_HEAD_ENTRY (pxCurrentTimerList k) (timer_lists k) in do {
        k1 \<leftarrow> on_timers_opt (\<lambda>s. map_option snd (uxListRemove h s)) k;
        k2 \<leftarrow> (if ucStatus (timers k1 h) AND tmrSTATUS_IS_AUTORELOAD \<noteq> 0
               then prvReloadTimer call h next_expire now k1
               else Some (upd_timer h (clear_status tmrSTATUS_IS_ACTIVE) k1));
        call_timer call h k2
      })"

text \<open>The loop of \<open>prvSwitchTimerLists\<close> over what is left on the current list.\<close>

partial_function (option) flush_timers :: "'a callback \<Rightarrow> 'a tkernel_scheme \<Rightarrow> 'a tkernel_scheme option" where
  "flush_timers call k =
     (if listLIST_IS_EMPTY (pxCurrentTimerList k) (timer_lists k) then Some k
      else Option.bind
        (prvProcessExpiredTimer call (listGET_ITEM_VALUE_OF_HEAD_ENTRY (pxCurrentTimerList k) (timer_lists k))
          tmrMAX_TIME_BEFORE_OVERFLOW k)
        (flush_timers call))"

definition prvSwitchTimerLists :: "'a callback \<Rightarrow> 'a tkernel_scheme \<Rightarrow> 'a tkernel_scheme option" where
  "prvSwitchTimerLists call k = do {
     k1 \<leftarrow> flush_timers call k;
     Some (k1\<lparr>pxCurrentTimerList := pxOverflowTimerList k1, pxOverflowTimerList := pxCurrentTimerList k1\<rparr>)
   }"

definition prvSampleTimeNow :: "'a callback \<Rightarrow> 'a tkernel_scheme \<Rightarrow> (u32 \<times> bool \<times> 'a tkernel_scheme) option" where
  "prvSampleTimeNow call k =
     (let now = xTaskGetTickCount k
      in if now < xLastTime k
         then map_option (\<lambda>k1. (now, True, k1\<lparr>xLastTime := now\<rparr>)) (prvSwitchTimerLists call k)
         else Some (now, False, k\<lparr>xLastTime := now\<rparr>))"

section \<open>The daemon\<close>

definition prvGetNextExpireTime :: "'a tkernel_scheme \<Rightarrow> u32 \<times> bool" where
  "prvGetNextExpireTime k =
     (let was_empty = listLIST_IS_EMPTY (pxCurrentTimerList k) (timer_lists k)
      in (if \<not> was_empty then listGET_ITEM_VALUE_OF_HEAD_ENTRY (pxCurrentTimerList k) (timer_lists k) else 0, was_empty))"

definition prvProcessTimerOrBlockTask ::
    "'a callback \<Rightarrow> ('a tkernel_scheme \<Rightarrow> 'a tkernel_scheme option) \<Rightarrow> u32 \<Rightarrow> bool \<Rightarrow>
      'a tkernel_scheme \<Rightarrow> 'a tkernel_scheme option" where
  "prvProcessTimerOrBlockTask call env next_expire was_empty k = do {
     (now, switched, k1) \<leftarrow> prvSampleTimeNow call (vTaskSuspendAll k);
     if \<not> switched then
       if \<not> was_empty \<and> next_expire \<le> now then do {
         (_, k2) \<leftarrow> xTaskResumeAll k1;
         prvProcessExpiredTimer call next_expire now k2
       }
       else do {
         k2 \<leftarrow> vQueueWaitForMessageRestricted (xTimerQueue k1) (next_expire - now)
                (if was_empty then listLIST_IS_EMPTY (pxOverflowTimerList k1) (timer_lists k1) else was_empty) k1;
         (yielded, k3) \<leftarrow> xTaskResumeAll k2;
         k4 \<leftarrow> (if \<not> yielded then portYIELD_WITHIN_API k3 else Some k3);
         env k4
       }
     else map_option snd (xTaskResumeAll k1)
   }"

text \<open>The handling of one timer command.\<close>

definition process_command ::
    "'a callback \<Rightarrow> layout \<Rightarrow> u32 \<Rightarrow> u32 \<Rightarrow> nat \<Rightarrow> 'a tkernel_scheme \<Rightarrow> 'a tkernel_scheme option" where
  "process_command call L cmd v h k =
     (if h = 0 then Some k
      else do {
        k1 \<leftarrow> (if listLIST_ITEM_CONTAINER h (timer_lists k) \<noteq> None
               then on_timers_opt (\<lambda>s. map_option snd (uxListRemove h s)) k else Some k);
        (now, _, k2) \<leftarrow> prvSampleTimeNow call k1;
        if cmd \<in> {tmrCOMMAND_START, tmrCOMMAND_START_FROM_ISR, tmrCOMMAND_RESET, tmrCOMMAND_RESET_FROM_ISR} then do {
          let k3 = upd_timer h (set_status tmrSTATUS_IS_ACTIVE) k2;
          (expired, k4) \<leftarrow> prvInsertTimerInActiveList h (v + xTimerPeriodInTicks (timers k3 h)) now v k3;
          if expired then do {
            k5 \<leftarrow> (if ucStatus (timers k4 h) AND tmrSTATUS_IS_AUTORELOAD \<noteq> 0
                   then prvReloadTimer call h (v + xTimerPeriodInTicks (timers k4 h)) now k4
                   else Some (upd_timer h (clear_status tmrSTATUS_IS_ACTIVE) k4));
            call_timer call h k5
          }
          else Some k4
        }
        else if cmd \<in> {tmrCOMMAND_STOP, tmrCOMMAND_STOP_FROM_ISR} then
          Some (upd_timer h (clear_status tmrSTATUS_IS_ACTIVE) k2)
        else if cmd \<in> {tmrCOMMAND_CHANGE_PERIOD, tmrCOMMAND_CHANGE_PERIOD_FROM_ISR} then
          let k3 = upd_timer h (xTimerPeriodInTicks_update (\<lambda>_. v)) (upd_timer h (set_status tmrSTATUS_IS_ACTIVE) k2)
          in if 0 < xTimerPeriodInTicks (timers k3 h)
             then map_option snd
                    (prvInsertTimerInActiveList h (now + xTimerPeriodInTicks (timers k3 h)) now now k3)
             else None
        else if cmd = tmrCOMMAND_DELETE then
          if ucStatus (timers k2 h) AND tmrSTATUS_IS_STATICALLY_ALLOCATED = 0 then task_free L (of_nat h) k2
          else Some (upd_timer h (clear_status tmrSTATUS_IS_ACTIVE) k2)
        else Some k2
      })"

text \<open>Emptying the command queue, the daemon's message buffer at \<open>msg\<close>; receiving does not wait.\<close>

partial_function (option) prvProcessReceivedCommands ::
    "'a callback \<Rightarrow> layout \<Rightarrow> u32 \<Rightarrow> 'a tkernel_scheme \<Rightarrow> 'a tkernel_scheme option" where
  "prvProcessReceivedCommands call L msg k =
     Option.bind (xQueueReceive Some (xTimerQueue k) msg tmrNO_DELAY k) (\<lambda>(got, k1).
       if got then
         let (cmd, v, h) = read_message (k_mem k1) msg
         in Option.bind (if 0 \<le>s cmd then process_command call L cmd v h k1 else Some k1)
              (prvProcessReceivedCommands call L msg)
       else Some k1)"

text \<open>One turn of the loop of \<open>prvTimerTask\<close>.\<close>

definition prvTimerTask_turn ::
    "'a callback \<Rightarrow> ('a tkernel_scheme \<Rightarrow> 'a tkernel_scheme option) \<Rightarrow> layout \<Rightarrow> u32 \<Rightarrow>
      'a tkernel_scheme \<Rightarrow> 'a tkernel_scheme option" where
  "prvTimerTask_turn call env L msg k =
     (let (next_expire, was_empty) = prvGetNextExpireTime k in do {
        k1 \<leftarrow> prvProcessTimerOrBlockTask call env next_expire was_empty k;
        prvProcessReceivedCommands call L msg k1
      })"

end
