(* ===== verification/Rtos_Port.thy ===== *)
theory Rtos_Port
  imports Rtos_Task Soc_Device Print
begin

text \<open>
  The processor port of the kernel, \<open>ddr_app/rtos/FreeRTOS/portable/GCC/RISC-V/port.c\<close>, and the application's hooks,
  \<open>ddr_app/rtos/freertos_hooks.c\<close>, over the drivers' bus. A 64-bit store to a device is two bus writes whose order is the
  compiler's choice, the argument \<open>low_first\<close>. The code that starts the first task and the trap
  handler are assembly (\<open>portASM.S\<close>). The lemmas show what the two programs do on the SoC's devices.
\<close>

section \<open>The tick's timer\<close>

record 'd port =
  ullNextTime :: u64
  pullMachineTimerCompareRegister :: u32
  mie :: u32
  port_dev :: 'd

abbreviation configCPU_CLOCK_HZ :: u32 where "configCPU_CLOCK_HZ \<equiv> 27000000"
abbreviation configTICK_RATE_HZ :: u32 where "configTICK_RATE_HZ \<equiv> 1000"
abbreviation configMTIME_BASE_ADDRESS :: u32 where "configMTIME_BASE_ADDRESS \<equiv> 0x40BFF8"
abbreviation configMTIMECMP_BASE_ADDRESS :: u32 where "configMTIMECMP_BASE_ADDRESS \<equiv> 0x404000"

definition uxTimerIncrementsForOneTick :: u32 where
  "uxTimerIncrementsForOneTick = configCPU_CLOCK_HZ div configTICK_RATE_HZ"

definition store_u64 :: "bool \<Rightarrow> 'd bus \<Rightarrow> u32 \<Rightarrow> u64 \<Rightarrow> 'd \<Rightarrow> 'd" where
  "store_u64 low_first b a v d =
     (if low_first then bus_wr b (a + 4) (ucast (drop_bit 32 v)) (bus_wr b a (ucast v) d)
      else bus_wr b a (ucast v) (bus_wr b (a + 4) (ucast (drop_bit 32 v)) d))"

text \<open>One pass of the reading loop.\<close>

definition read_mtime_try :: "'d bus \<Rightarrow> 'd \<Rightarrow> (u32 \<times> u32) option \<times> 'd" where
  "read_mtime_try b d =
     (let (hi, d1) = bus_rd b (configMTIME_BASE_ADDRESS + 4) d;
          (lo, d2) = bus_rd b configMTIME_BASE_ADDRESS d1;
          (hi', d3) = bus_rd b (configMTIME_BASE_ADDRESS + 4) d2
      in (if hi \<noteq> hi' then None else Some (hi, lo), d3))"

definition vPortSetupTimerInterrupt :: "bool \<Rightarrow> 'd bus \<Rightarrow> u32 \<Rightarrow> 'd port \<Rightarrow> 'd port option" where
  "vPortSetupTimerInterrupt low_first b hart p =
     (let cmp = configMTIMECMP_BASE_ADDRESS + hart * 8 in
      map_option (\<lambda>((hi, lo), d).
          let t = (push_bit 32 (ucast hi) OR ucast lo) + ucast uxTimerIncrementsForOneTick
          in p\<lparr>pullMachineTimerCompareRegister := cmp, ullNextTime := t + ucast uxTimerIncrementsForOneTick,
               port_dev := store_u64 low_first b cmp t d\<rparr>)
        (poll_until (read_mtime_try b) (port_dev p)))"

abbreviation portISR_STACK_FILL_BYTE :: u8 where "portISR_STACK_FILL_BYTE \<equiv> 0xEE"
abbreviation configISR_STACK_SIZE_WORDS :: nat where "configISR_STACK_SIZE_WORDS \<equiv> 1024"

text \<open>
  The state in which the first task starts: \<open>xISRStack\<close> is the address of the interrupt stack.
\<close>

definition xPortStartScheduler ::
    "bool \<Rightarrow> 'd bus \<Rightarrow> u32 \<Rightarrow> u32 \<Rightarrow> 'a kernel_scheme \<times> 'd port \<Rightarrow> ('a kernel_scheme \<times> 'd port) option" where
  "xPortStartScheduler low_first b hart xISRStack = (\<lambda>(k, p).
     let top = xISRStack + of_nat (4 * configISR_STACK_SIZE_WORDS) in
     if top AND portBYTE_ALIGNMENT_MASK = 0 then
       let k1 = k\<lparr>k_mem := store_bytes xISRStack (replicate (4 * configISR_STACK_SIZE_WORDS) portISR_STACK_FILL_BYTE) (k_mem k)\<rparr>
       in map_option (\<lambda>p1. (k1, p1\<lparr>mie := mie p1 OR 0x880\<rparr>)) (vPortSetupTimerInterrupt low_first b hart p)
     else None)"

definition vPortEndScheduler :: "'a kernel_scheme \<Rightarrow> 'a kernel_scheme option" where
  "vPortEndScheduler k = None"

section \<open>The hooks' console\<close>

abbreviation UART_DAT_ADDR :: u32 where "UART_DAT_ADDR \<equiv> 0x400008"
abbreviation UART_CTRL_ADDR :: u32 where "UART_CTRL_ADDR \<equiv> 0x400010"
abbreviation UART_TX_READY_BIT :: nat where "UART_TX_READY_BIT \<equiv> 8"

definition uart_putc :: "'d bus \<Rightarrow> u8 \<Rightarrow> 'd \<Rightarrow> 'd option" where
  "uart_putc b c d =
     map_option (\<lambda>(_, d'). bus_wr b UART_DAT_ADDR (ucast c) d')
       (poll_until (\<lambda>d. let (st, d') = bus_rd b UART_CTRL_ADDR d
          in (if st AND push_bit UART_TX_READY_BIT 1 = 0 then None else Some (), d')) d)"

fun uart_puts :: "'d bus \<Rightarrow> cstring \<Rightarrow> 'd \<Rightarrow> 'd option" where
  "uart_puts b [] d = Some d"
| "uart_puts b (c # s) d = Option.bind (uart_putc b c d) (uart_puts b s)"

text \<open>The loop of \<open>uart_puthex\<close> with \<open>i\<close> digits to go.\<close>

fun puthex_loop :: "'d bus \<Rightarrow> u32 \<Rightarrow> nat \<Rightarrow> 'd \<Rightarrow> 'd option" where
  "puthex_loop b v 0 d = Some d"
| "puthex_loop b v (Suc i) d =
     (let nibble = drop_bit (4 * i) v AND 0xF
      in Option.bind (uart_putc b (ucast (if nibble < 10 then 48 + nibble else 65 + nibble - 10)) d) (puthex_loop b v i))"

definition uart_puthex :: "'d bus \<Rightarrow> u32 \<Rightarrow> 'd \<Rightarrow> 'd option" where
  "uart_puthex b v d = do {
     d1 \<leftarrow> uart_putc b 48 d;
     d2 \<leftarrow> uart_putc b 120 d1;
     puthex_loop b v 8 d2
   }"

definition csr_read :: "(u32 \<Rightarrow> u32) \<Rightarrow> u32 \<Rightarrow> u32" where
  "csr_read csr a = (if a \<in> {0x342, 0x341, 0x300, 0x343} then csr a else 0)"

text \<open>The handlers end in an endless loop; their result is the state in which it is entered.\<close>

definition vApplicationStackOverflowHook :: "'d bus \<Rightarrow> cstring option \<Rightarrow> 'd \<Rightarrow> 'd option" where
  "vApplicationStackOverflowHook b name d = do {
     d1 \<leftarrow> uart_putc b 10 d;
     d2 \<leftarrow> uart_puts b (cstr ''STACK OVERFLOW '') d1;
     d3 \<leftarrow> (case name of None \<Rightarrow> Some d2 | Some s \<Rightarrow> uart_puts b s d2);
     uart_putc b 10 d3
   }"

definition vApplicationMallocFailedHook :: "'d bus \<Rightarrow> 'd \<Rightarrow> 'd option" where
  "vApplicationMallocFailedHook b d = do {
     d1 \<leftarrow> uart_putc b 10 d;
     uart_puts b (cstr ''MALLOC FAILED'' @ [10]) d1
   }"

definition freertos_risc_v_application_exception_handler :: "(u32 \<Rightarrow> u32) \<Rightarrow> 'd bus \<Rightarrow> 'd \<Rightarrow> 'd option" where
  "freertos_risc_v_application_exception_handler csr b d =
     (let mcause = csr_read csr 0x342; mepc = csr_read csr 0x341; mstatus = csr_read csr 0x300; mtval = csr_read csr 0x343
      in do {
        d1 \<leftarrow> uart_puts b [10, 69, 32] d;
        d2 \<leftarrow> uart_puthex b mcause d1;
        d3 \<leftarrow> uart_putc b 32 d2;
        d4 \<leftarrow> uart_puthex b mepc d3;
        d5 \<leftarrow> uart_putc b 32 d4;
        d6 \<leftarrow> uart_puthex b mtval d5;
        d7 \<leftarrow> uart_putc b 32 d6;
        d8 \<leftarrow> uart_puthex b mstatus d7;
        uart_putc b 10 d8
      })"

definition freertos_risc_v_application_interrupt_handler :: "(u32 \<Rightarrow> u32) \<Rightarrow> 'd bus \<Rightarrow> 'd \<Rightarrow> 'd option" where
  "freertos_risc_v_application_interrupt_handler csr b d =
     (let mcause = csr_read csr 0x342; mepc = csr_read csr 0x341; mstatus = csr_read csr 0x300
      in do {
        d1 \<leftarrow> uart_puts b [10, 73, 32] d;
        d2 \<leftarrow> uart_puthex b mcause d1;
        d3 \<leftarrow> uart_putc b 32 d2;
        d4 \<leftarrow> uart_puthex b mepc d3;
        d5 \<leftarrow> uart_putc b 32 d4;
        d6 \<leftarrow> uart_puthex b mstatus d5;
        uart_putc b 10 d6
      })"

section \<open>The console on the SoC\<close>

lemma uart_addrs: "UART_CTRL_ADDR = uart_ctrl_reg" "UART_DAT_ADDR = uart_data_reg"
  by (simp_all add: uart_ctrl_reg_def uart_data_reg_def)

lemma tx_ready_bit: "uart_status_word s AND push_bit UART_TX_READY_BIT 1 = 0 \<longleftrightarrow> s_tx_busy s \<noteq> 0"
  by (simp add: uart_status_word_def)

lemma soc_uart_putc_sends:
  "\<exists>s'. uart_putc soc_bus c s = Some s' \<and> s_sent s' = s_sent s @ [c]"
proof -
  let ?f = "\<lambda>d. let (st, d') = bus_rd soc_bus UART_CTRL_ADDR d
          in (if st AND push_bit UART_TX_READY_BIT 1 = 0 then None else Some (), d')"
  have st: "s_sent d' = s_sent d \<and> (r = None \<longrightarrow> s_tx_busy d' \<noteq> 0 \<and> s_tx_busy d' < s_tx_busy d) \<and> (r \<noteq> None \<longrightarrow> s_tx_busy d' = 0)"
    if "?f d = (r, d')" for d r d'
  proof -
    obtain v d1 where v1: "soc_rd uart_ctrl_reg d = (v, d1)" by (cases "soc_rd uart_ctrl_reg d")
    then have "d1 = d'" using that unfolding uart_addrs by simp
    with v1 have v: "soc_rd uart_ctrl_reg d = (v, d')" by simp
    have vs: "v = uart_status_word d'" using soc_rd_fields(1) [OF v] by (simp add: soc_reg_def)
    have r: "r = (if s_tx_busy d' \<noteq> 0 then None else Some ())"
      using that v tx_ready_bit [of d'] unfolding uart_addrs vs by auto
    have "s_sent d' = s_sent d" "s_tx_busy d' = s_tx_busy d - 2" by (rule soc_rd_fields [OF v])+
    then show ?thesis unfolding r by (auto split: if_splits)
  qed
  have "\<exists>u s'. poll_until ?f s = Some (u, s')"
    by (rule poll_until_returns [where P = "\<lambda>_. True" and m = s_tx_busy]) (use st in blast)+
  then obtain u s1 where p: "poll_until ?f s = Some (u, s1)" by auto
  have "s_sent s1 = s_sent s \<and> s_tx_busy s1 = 0"
  proof (rule poll_until_rule [OF p, where P = "\<lambda>x. s_sent x = s_sent s"])
    show "s_sent d' = s_sent s" if "s_sent d = s_sent s" "?f d = (None, d')" for d d' using st [OF that(2)] that(1) by simp
    show "s_sent d' = s_sent s \<and> s_tx_busy d' = 0" if "s_sent d = s_sent s" "?f d = (Some a, d')" for d a d'
      using st [OF that(2)] that(1) by simp
  qed simp
  then show ?thesis unfolding uart_putc_def p unfolding uart_addrs by (simp add: soc_wr_def soc_write_effect_def)
qed

interpretation soc_hooks: serial_out "uart_putc soc_bus" s_sent "\<lambda>_. True"
  by unfold_locales (use soc_uart_putc_sends in auto)

lemma soc_puts: "uart_puts soc_bus cs = soc_hooks.puts_all cs"
proof (induction cs)
  case (Cons c cs)
  show ?case by (rule ext) (simp add: Cons.IH)
qed (rule ext, simp)

lemma soc_puts_sends: "\<exists>s'. uart_puts soc_bus cs s = Some s' \<and> s_sent s' = s_sent s @ cs"
  using soc_hooks.puts_all_sent [of cs s] by (simp add: soc_puts)

text \<open>The hooks' hexadecimal digits are those of \<open>print_hex\<close>.\<close>

lemma nibble_char:
  fixes x :: u32
  shows "ucast (if x AND 0xF < 10 then 48 + (x AND 0xF) else 65 + (x AND 0xF) - 10) = hex_digits ! unat (x mod 16)"
proof -
  have "x AND 0xF = take_bit 4 x" by (simp add: take_bit_eq_mask mask_eq_exp_minus_1)
  then have e: "x AND 0xF = x mod 16" by (simp add: take_bit_eq_mod)
  have "unat (x mod 16) < 16" by (simp add: unat_mod)
  then obtain n where n: "n < 16" "unat (x mod 16) = n" by blast
  then have x: "x mod 16 = of_nat n" by (metis of_nat_unat ucast_id)
  have "list_all (\<lambda>n. (ucast (if (of_nat n :: u32) < 10 then 48 + of_nat n else 65 + of_nat n - 10 :: u32) :: u8) = hex_digits ! n) [0..<16]"
    by code_simp
  then show ?thesis using n(1) unfolding e n(2) unfolding x by (simp add: list_all_iff)
qed

lemma soc_puthex_loop:
  "\<exists>s'. puthex_loop soc_bus v i s = Some s' \<and> s_sent s' = s_sent s @ print_hex_digits v i"
proof (induction i arbitrary: s)
  case (Suc i)
  let ?c = "hex_digits ! unat (drop_bit (4 * i) v mod 16)"
  obtain s1 where s1: "uart_putc soc_bus ?c s = Some s1" "s_sent s1 = s_sent s @ [?c]"
    using soc_uart_putc_sends [of ?c s] by blast
  obtain s2 where s2: "puthex_loop soc_bus v i s1 = Some s2" "s_sent s2 = s_sent s1 @ print_hex_digits v i"
    using Suc.IH [of s1] by blast
  have "puthex_loop soc_bus v (Suc i) s = Some s2"
    using s1(1) s2(1) nibble_char [of "drop_bit (4 * i) v"] by (simp add: Let_def)
  moreover have "print_hex_digits v (Suc i) = ?c # print_hex_digits v i" by (simp add: print_hex_digits_def)
  ultimately show ?case using s1(2) s2(2) by simp
qed (simp add: print_hex_digits_def)

lemma soc_puthex:
  "\<exists>s'. uart_puthex soc_bus v s = Some s' \<and> s_sent s' = s_sent s @ cstr ''0x'' @ print_hex v"
proof -
  obtain s1 where s1: "uart_putc soc_bus 48 s = Some s1" "s_sent s1 = s_sent s @ [48]" using soc_uart_putc_sends by blast
  obtain s2 where s2: "uart_putc soc_bus 120 s1 = Some s2" "s_sent s2 = s_sent s1 @ [120]" using soc_uart_putc_sends by blast
  obtain s3 where s3: "puthex_loop soc_bus v 8 s2 = Some s3" "s_sent s3 = s_sent s2 @ print_hex_digits v 8"
    using soc_puthex_loop by blast
  have "cstr ''0x'' = [48, 120]" by (simp add: cstr_def)
  with s1 s2 s3 show ?thesis by (simp add: uart_puthex_def print_hex_def)
qed

section \<open>The tick's timer on the SoC\<close>

lemma mtime_addrs: "configMTIME_BASE_ADDRESS = clint_mmio CLINT_MTIME_OFFSET" "configMTIME_BASE_ADDRESS + 4 = clint_mmio (CLINT_MTIME_OFFSET + 4)"
  "configMTIMECMP_BASE_ADDRESS = clint_mmio CLINT_MTIMECMP_OFFSET"
  by (simp_all add: clint_mmio_def)

text \<open>
  The reading loop, with any time between the accesses. One pass reads the high half at \<open>t1\<close>, the low half at \<open>t2\<close> and the
  high half again at \<open>t3\<close>.
\<close>

lemma slow_read_try:
  defines "M \<equiv> 4294967296 :: nat"
  assumes "read_mtime_try (slow_bus w) (s, i) = (r, d')"
  obtains s' t1 t2 t3 where "d' = (s', i + 3)" and "s_cyc s' = t3" and "t1 = s_cyc s + w i + 2" and "t2 = t1 + w (i + 1) + 2"
    and "t3 = t2 + w (i + 2) + 2"
    and "r = (if (of_nat (t1 div M) :: u32) \<noteq> of_nat (t3 div M) then None else Some (of_nat (t1 div M), of_nat t2))"
proof -
  let ?h = "clint_mmio (CLINT_MTIME_OFFSET + 4)" and ?l = "clint_mmio CLINT_MTIME_OFFSET"
  obtain hi d1 where r1: "bus_rd (slow_bus w) ?h (s, i) = (hi, d1)" by (cases "bus_rd (slow_bus w) ?h (s, i)")
  obtain s1 where f1: "d1 = (s1, Suc i)" "hi = soc_reg ?h s1" "s_cyc s1 = s_cyc s + w i + 2" by (rule slow_rd [OF r1])
  obtain lo d2 where r2: "bus_rd (slow_bus w) ?l (s1, Suc i) = (lo, d2)" by (cases "bus_rd (slow_bus w) ?l (s1, Suc i)")
  obtain s2 where f2: "d2 = (s2, Suc (Suc i))" "lo = soc_reg ?l s2" "s_cyc s2 = s_cyc s1 + w (Suc i) + 2" by (rule slow_rd [OF r2])
  obtain hi' d3 where r3: "bus_rd (slow_bus w) ?h (s2, Suc (Suc i)) = (hi', d3)" by (cases "bus_rd (slow_bus w) ?h (s2, Suc (Suc i))")
  obtain s3 where f3: "d3 = (s3, Suc (Suc (Suc i)))" "hi' = soc_reg ?h s3" "s_cyc s3 = s_cyc s2 + w (Suc (Suc i)) + 2" by (rule slow_rd [OF r3])
  have v: "hi = of_nat (s_cyc s1 div M)" "lo = of_nat (s_cyc s2)" "hi' = of_nat (s_cyc s3 div M)"
    using f1(2) f2(2) f3(2) soc_mtime.mtime_hi soc_mtime.mtime_lo unfolding M_def by simp_all
  have h: "clint_mmio CLINT_MTIME_OFFSET + 4 = ?h" by (simp add: clint_mmio_def)
  have e: "(r, d') = (if hi \<noteq> hi' then None else Some (hi, lo), d3)"
    using assms(2) r1 r2 r3 f1(1) f2(1) f3(1) unfolding read_mtime_try_def mtime_addrs(1) h by (simp add: Let_def)
  show thesis
    by (rule that [of s3 "s_cyc s3" "s_cyc s1" "s_cyc s2"]) (use e v f1(3) f2(3) f3 in \<open>auto simp: numeral_eq_Suc\<close>)
qed

text \<open>When the high halves of a pass agree, its value is the time at which the low half was read.\<close>

lemma pass_value:
  fixes t1 t2 t3 :: nat
  defines "M \<equiv> 4294967296 :: nat"
  assumes "t1 \<le> t2" and "t2 \<le> t3" and "t3 < 2 ^ 64" and "(of_nat (t1 div M) :: u32) = of_nat (t3 div M)"
  shows "push_bit 32 (ucast (of_nat (t1 div M) :: u32)) OR ucast (of_nat t2 :: u32) = (of_nat t2 :: u64)"
proof -
  have small: "t1 div M < M" "t3 div M < M" using assms by simp_all
  have "t1 div M = t3 div M" using assms(5) unat_of_nat_u32 [OF small(1) [unfolded M_def]] unat_of_nat_u32 [OF small(2) [unfolded M_def]]
    unfolding M_def by metis
  moreover have "t1 div M \<le> t2 div M" "t2 div M \<le> t3 div M" by (rule div_le_mono, rule assms)+
  ultimately have "t1 div M = t2 div M" by simp
  moreover have "t2 < 18446744073709551616" using assms(3,4) by simp
  ultimately show ?thesis using join_words_64 [of t2] unfolding M_def by simp
qed

text \<open>When they do not, the counter's low half has just wrapped, and the next pass is over long before it wraps again.\<close>

lemma next_pass:
  fixes M :: nat
  assumes "t1 div M \<noteq> t3 div M" and "t1 \<le> t3" and "t3 \<le> u1" and "u1 \<le> u3" and "u3 \<le> t1 + M"
  shows "u1 div M = u3 div M"
proof -
  have m: "0 < M" using assms by (cases "M = 0") auto
  define q where "q = t3 div M"
  have "t1 div M \<le> q" unfolding q_def by (rule div_le_mono) (rule assms)
  then have "t1 div M < q" using assms(1) q_def by simp
  then have lo: "t1 < q * M" using m by (simp add: div_less_iff_less_mult)
  have hi: "q * M \<le> t3" by (simp add: q_def)
  have "u3 div M = q" "u1 div M = q"
    by (rule div_nat_eqI; use lo hi assms m in \<open>simp add: mult.commute\<close>)+
  then show ?thesis by simp
qed

lemma slow_read_mtime:
  assumes w: "\<And>i. w i < 2 ^ 29" and c: "s_cyc s < 2 ^ 63"
  shows "\<exists>hi lo s' j t. poll_until (read_mtime_try (slow_bus w)) (s, i) = Some ((hi, lo), (s', j)) \<and> s_cyc s < t \<and> t \<le> s_cyc s' \<and>
    s_cyc s' < s_cyc s + 2 ^ 32 \<and> push_bit 32 (ucast hi) OR ucast lo = (of_nat t :: u64)"
proof -
  let ?M = "4294967296 :: nat"
  have w': "w n < 536870912" for n using w [of n] by simp
  obtain r d1 where r1: "read_mtime_try (slow_bus w) (s, i) = (r, d1)" by (cases "read_mtime_try (slow_bus w) (s, i)")
  obtain s1 t1 t2 t3 where f: "d1 = (s1, i + 3)" "s_cyc s1 = t3" "t1 = s_cyc s + w i + 2" "t2 = t1 + w (i + 1) + 2"
    "t3 = t2 + w (i + 2) + 2"
    and rv: "r = (if (of_nat (t1 div ?M) :: u32) \<noteq> of_nat (t3 div ?M) then None else Some (of_nat (t1 div ?M), of_nat t2))"
    by (rule slow_read_try [OF r1])
  note le = w' [of i] w' [of "i + 1"] w' [of "i + 2"]
  show ?thesis
  proof (cases "r = None")
    case False
    then have eq: "(of_nat (t1 div ?M) :: u32) = of_nat (t3 div ?M)" and v: "r = Some (of_nat (t1 div ?M), of_nat t2)"
      using rv by (simp_all split: if_splits)
    have "push_bit 32 (ucast (of_nat (t1 div ?M) :: u32)) OR ucast (of_nat t2 :: u32) = (of_nat t2 :: u64)"
      by (rule pass_value [OF _ _ _ eq]) (use f c le in simp_all)
    moreover have "poll_until (read_mtime_try (slow_bus w)) (s, i) = Some ((of_nat (t1 div ?M), of_nat t2), (s1, i + 3))"
      using r1 v f(1) by (intro poll_until_Some) simp
    moreover have "s_cyc s < t2" "t2 \<le> s_cyc s1" "s_cyc s1 < s_cyc s + 2 ^ 32" using f le by simp_all
    ultimately show ?thesis by blast
  next
    case True
    obtain r' d2 where r2: "read_mtime_try (slow_bus w) (s1, i + 3) = (r', d2)" by (cases "read_mtime_try (slow_bus w) (s1, i + 3)")
    obtain s2 u1 u2 u3 where g: "d2 = (s2, i + 3 + 3)" "s_cyc s2 = u3" "u1 = s_cyc s1 + w (i + 3) + 2" "u2 = u1 + w (i + 3 + 1) + 2"
      "u3 = u2 + w (i + 3 + 2) + 2"
      and rv': "r' = (if (of_nat (u1 div ?M) :: u32) \<noteq> of_nat (u3 div ?M) then None else Some (of_nat (u1 div ?M), of_nat u2))"
      by (rule slow_read_try [OF r2])
    note le' = w' [of "i + 3"] w' [of "i + 3 + 1"] w' [of "i + 3 + 2"]
    have "t1 div ?M \<noteq> t3 div ?M" using rv True by (auto split: if_splits)
    then have "u1 div ?M = u3 div ?M" by (rule next_pass) (use f g le le' in simp_all)
    then have eq: "(of_nat (u1 div ?M) :: u32) = of_nat (u3 div ?M)" by simp
    then have v: "r' = Some (of_nat (u1 div ?M), of_nat u2)" using rv' by simp
    have "push_bit 32 (ucast (of_nat (u1 div ?M) :: u32)) OR ucast (of_nat u2 :: u32) = (of_nat u2 :: u64)"
      by (rule pass_value [OF _ _ _ eq]) (use f g c le le' in simp_all)
    moreover have "poll_until (read_mtime_try (slow_bus w)) (s, i) = Some ((of_nat (u1 div ?M), of_nat u2), (s2, i + 3 + 3))"
    proof -
      have n: "read_mtime_try (slow_bus w) (s, i) = (None, (s1, i + 3))" using r1 True f(1) by simp
      have "read_mtime_try (slow_bus w) (s1, i + 3) = (Some (of_nat (u1 div ?M), of_nat u2), (s2, i + 3 + 3))" using r2 v g(1) by simp
      then show ?thesis by (simp only: poll_until_None [of "read_mtime_try (slow_bus w)" "(s, i)" "(s1, i + 3)", OF n] poll_until_Some)
    qed
    moreover have "s_cyc s < u2" "u2 \<le> s_cyc s2" "s_cyc s2 < s_cyc s + 2 ^ 32" using f g le le' by simp_all
    ultimately show ?thesis by blast
  qed
qed

lemma take_low: "take_bit 32 (push_bit 32 x OR ucast w) = (ucast w :: u64)" for x :: u64 and w :: u32
proof (rule bit_word_eqI)
  fix n assume "n < LENGTH(64)"
  then show "bit (take_bit 32 (push_bit 32 x OR ucast w)) n \<longleftrightarrow> bit (ucast w :: u64) n"
    by (cases "n < 32") (auto dest: bit_imp_le_length simp: bit_take_bit_iff bit_or_iff bit_push_bit_iff bit_ucast_iff)
qed

lemma drop_high: "drop_bit 32 (push_bit 32 (ucast w) OR take_bit 32 x) = (ucast w :: u64)" for x :: u64 and w :: u32
proof (rule bit_word_eqI)
  fix n assume "n < LENGTH(64)"
  then show "bit (drop_bit 32 (push_bit 32 (ucast w) OR take_bit 32 x)) n \<longleftrightarrow> bit (ucast w :: u64) n"
    by (cases "n < 32") (auto dest: bit_imp_le_length simp: bit_drop_bit_eq bit_take_bit_iff bit_or_iff bit_push_bit_iff bit_ucast_iff)
qed

lemma join_halves: "push_bit 32 (ucast (ucast (drop_bit 32 v) :: u32)) OR ucast (ucast v :: u32) = v" for v :: u64
proof (rule bit_word_eqI)
  fix n assume "n < LENGTH(64)"
  then show "bit (push_bit 32 (ucast (ucast (drop_bit 32 v) :: u32)) OR ucast (ucast v :: u32) :: u64) n \<longleftrightarrow> bit v n"
    by (cases "n < 32") (auto simp: bit_drop_bit_eq bit_or_iff bit_push_bit_iff bit_ucast_iff)
qed

text \<open>A store of both halves in either order sets the compare register.\<close>

lemma soc_wr_cmp:
  "s_cmp (soc_wr 0x404000 v s) = push_bit 32 (drop_bit 32 (s_cmp s)) OR ucast v" "s_cyc (soc_wr 0x404000 v s) = s_cyc s + 2"
  "s_cmp (soc_wr 0x404004 v s) = push_bit 32 (ucast v) OR take_bit 32 (s_cmp s)" "s_cyc (soc_wr 0x404004 v s) = s_cyc s + 2"
  by (simp_all add: soc_wr_def soc_write_effect_def soc_addrs)

lemma slow_store_cmp:
  "s_cmp (fst (store_u64 lf (slow_bus w) 0x404000 v (s, i))) = v"
  "s_cyc (fst (store_u64 lf (slow_bus w) 0x404000 v (s, i))) = s_cyc s + w i + w (Suc i) + 4"
proof -
  have a: "(0x404000 :: u32) + 4 = 0x404004" by simp
  show "s_cmp (fst (store_u64 lf (slow_bus w) 0x404000 v (s, i))) = v"
    unfolding store_u64_def slow_wr a
    by (cases lf) (simp_all only: soc_wr_cmp take_low drop_high join_halves if_True if_False slow_wr fst_conv waited_fields)
  show "s_cyc (fst (store_u64 lf (slow_bus w) 0x404000 v (s, i))) = s_cyc s + w i + w (Suc i) + 4"
    unfolding store_u64_def slow_wr a by (cases lf) (simp_all add: soc_wr_cmp slow_wr)
qed

text \<open>The first interrupt is due one tick after a time read in the call.\<close>

lemma slow_setup:
  assumes w: "\<And>i. w i < 2 ^ 29" and c: "s_cyc (fst (port_dev p)) < 2 ^ 63"
  shows "\<exists>p' t. vPortSetupTimerInterrupt lf (slow_bus w) 0 p = Some p' \<and> s_cyc (fst (port_dev p)) < t \<and>
    t \<le> s_cyc (fst (port_dev p')) \<and> t < s_cyc (fst (port_dev p)) + 2 ^ 32 \<and>
    s_cmp (fst (port_dev p')) = of_nat (t + 27000) \<and> ullNextTime p' = of_nat (t + 54000) \<and>
    pullMachineTimerCompareRegister p' = 0x404000"
proof -
  obtain s i where p: "port_dev p = (s, i)" by (cases "port_dev p")
  have c': "s_cyc s < 2 ^ 63" using c p by simp
  obtain hi lo s' j t where r: "poll_until (read_mtime_try (slow_bus w)) (s, i) = Some ((hi, lo), (s', j))" "s_cyc s < t" "t \<le> s_cyc s'"
    "s_cyc s' < s_cyc s + 2 ^ 32" "push_bit 32 (ucast hi) OR ucast lo = (of_nat t :: u64)"
    using slow_read_mtime [where w = w and i = i, OF w c'] by blast
  have tk: "uxTimerIncrementsForOneTick = 27000" by (simp add: uxTimerIncrementsForOneTick_def)
  let ?p' = "p\<lparr>pullMachineTimerCompareRegister := 0x404000, ullNextTime := of_nat t + 27000 + 27000,
    port_dev := store_u64 lf (slow_bus w) 0x404000 (of_nat t + 27000) (s', j)\<rparr>"
  have d: "s_cmp (fst (port_dev ?p')) = of_nat t + 27000" "s_cyc s' \<le> s_cyc (fst (port_dev ?p'))"
    by (simp_all add: slow_store_cmp)
  have "vPortSetupTimerInterrupt lf (slow_bus w) 0 p = Some ?p'"
    unfolding vPortSetupTimerInterrupt_def p r(1) by (simp add: r(5) tk Let_def)
  then show ?thesis using r(2-4) d p by (intro exI [of _ ?p'] exI [of _ t] conjI) simp_all
qed

end
