(* ===== verification/Rtos_Start.thy ===== *)
theory Rtos_Start
  imports Rtos_Timer Rtos_Port
begin

text \<open>
  Starting and ending the scheduler: the kernel's own tasks (\<open>tasks.c\<close>, \<open>timers.c\<close>) and the hand-over to the port. The
  addresses of the task functions are the linker's; the result of \<open>vTaskStartScheduler\<close> is the state in which the first task starts.
\<close>

definition configIDLE_TASK_NAME :: cstring where "configIDLE_TASK_NAME = cstr ''IDLE''"
definition configTIMER_SERVICE_TASK_NAME :: cstring where "configTIMER_SERVICE_TASK_NAME = cstr ''Tmr Svc''"

abbreviation configMINIMAL_STACK_SIZE :: u32 where "configMINIMAL_STACK_SIZE \<equiv> 256"
abbreviation configTIMER_TASK_STACK_DEPTH :: u32 where "configTIMER_TASK_STACK_DEPTH \<equiv> 512"
abbreviation configTIMER_TASK_PRIORITY :: u32 where "configTIMER_TASK_PRIORITY \<equiv> 2"
abbreviation taskRESERVED_TASK_NAME_LENGTH :: nat where "taskRESERVED_TASK_NAME_LENGTH \<equiv> 1"

text \<open>The answer is whether the task could be created.\<close>

definition prvCreateIdleTasks :: "layout \<Rightarrow> u32 \<Rightarrow> u32 \<Rightarrow> 'a kernel_scheme \<Rightarrow> (bool \<times> 'a kernel_scheme) option" where
  "prvCreateIdleTasks L mstatus prvIdleTask k = do {
     let cIdleName = take (configMAX_TASK_NAME_LEN - taskRESERVED_TASK_NAME_LENGTH) configIDLE_TASK_NAME;
     (t, k1) \<leftarrow> xTaskCreate L mstatus prvIdleTask (Some cIdleName) configMINIMAL_STACK_SIZE 0 0 k;
     Some (if t \<noteq> 0 then (True, k1\<lparr>xIdleTaskHandle := t\<rparr>) else (False, k1))
   }"

text \<open>A failure ends in an assertion.\<close>

definition xTimerCreateTimerTask :: "layout \<Rightarrow> u32 \<Rightarrow> u32 \<Rightarrow> 'a tkernel_scheme \<Rightarrow> 'a tkernel_scheme option" where
  "xTimerCreateTimerTask L mstatus prvTimerTask k = do {
     k1 \<leftarrow> prvCheckForValidListAndQueue L k;
     if xTimerQueue k1 \<noteq> 0 then do {
       (t, k2) \<leftarrow> xTaskCreate L mstatus prvTimerTask (Some configTIMER_SERVICE_TASK_NAME) configTIMER_TASK_STACK_DEPTH 0
                   configTIMER_TASK_PRIORITY k1;
       if t \<noteq> 0 then Some (k2\<lparr>xTimerTaskHandle := t\<rparr>) else None
     }
     else None
   }"

definition vTaskStartScheduler ::
    "bool \<Rightarrow> 'd bus \<Rightarrow> u32 \<Rightarrow> u32 \<Rightarrow> layout \<Rightarrow> u32 \<Rightarrow> u32 \<Rightarrow> u32 \<Rightarrow>
      'a tkernel_scheme \<times> 'd port \<Rightarrow> ('a tkernel_scheme \<times> 'd port) option" where
  "vTaskStartScheduler low_first b hart xISRStack L mstatus prvIdleTask prvTimerTask = (\<lambda>(k, p). do {
     (pass, k1) \<leftarrow> prvCreateIdleTasks L mstatus prvIdleTask k;
     if pass then do {
       k2 \<leftarrow> xTimerCreateTimerTask L mstatus prvTimerTask k1;
       let k3 = k2\<lparr>xNextTaskUnblockTime := portMAX_DELAY, xSchedulerRunning := True, xTickCount := 0\<rparr>;
       xPortStartScheduler low_first b hart xISRStack (k3, p)
     }
     else None
   })"

text \<open>The port does not implement the end of the scheduler: the last call does not return.\<close>

definition vTaskEndScheduler :: "layout \<Rightarrow> 'a tkernel_scheme \<Rightarrow> 'a tkernel_scheme option" where
  "vTaskEndScheduler L k = do {
     h \<leftarrow> xTimerGetTimerDaemonTaskHandle k;
     k1 \<leftarrow> vTaskDelete L h k;
     k2 \<leftarrow> vTaskDelete L (xIdleTaskHandle k1) k1;
     k3 \<leftarrow> prvCheckTasksWaitingTermination L k2;
     vPortEndScheduler (k3\<lparr>xSchedulerRunning := False\<rparr>)
   }"

end
