(* ===== verification/Rtos_Test.thy ===== *)
theory Rtos_Test
  imports Rtos_Start
begin

text \<open>
  The application's tasks and timers, \<open>ddr_app/rtos/test_rtos.c\<close>. The addresses of string literals (\<open>lit\<close>) and functions are
  the linker's. A local variable that is passed by address lives at \<open>loc\<close>, a message to the timer daemon
  at \<open>msg\<close>, on the caller's stack. Of the endless loops of the tasks one turn is modelled; \<open>env\<close> is the rest of the system while a call waits.
\<close>

section \<open>Printing through the queue\<close>

record test_kernel = tkernel +
  g_print_queue :: nat
  periodic_count :: u32

definition pdMS_TO_TICKS :: "u32 \<Rightarrow> u32" where
  "pdMS_TO_TICKS ms = ucast ((ucast ms * ucast configTICK_RATE_HZ :: u64) div 1000)"

definition queue_print ::
    "('a test_kernel_scheme \<Rightarrow> 'a test_kernel_scheme option) \<Rightarrow> (string \<Rightarrow> u32) \<Rightarrow> u32 \<Rightarrow> string \<Rightarrow> u32 \<Rightarrow>
      'a test_kernel_scheme \<Rightarrow> (bool \<times> 'a test_kernel_scheme) option" where
  "queue_print env lit loc message ticks_to_wait k =
     xQueueGenericSend env (g_print_queue k) loc ticks_to_wait queueSEND_TO_BACK
       (k\<lparr>k_mem := store_bytes loc (le32 (lit message)) (k_mem k)\<rparr>)"

text \<open>One turn of the printer: the pointer it hands to \<open>puts\<close>, if any.\<close>

definition printer_task ::
    "('a test_kernel_scheme \<Rightarrow> 'a test_kernel_scheme option) \<Rightarrow> u32 \<Rightarrow> 'a test_kernel_scheme \<Rightarrow> (u32 option \<times> 'a test_kernel_scheme) option" where
  "printer_task env loc k =
     map_option (\<lambda>(got, k1). (if got then Some (rd32 (load_bytes (k_mem k1) loc 4) 0) else None, k1))
       (xQueueReceive env (g_print_queue k) loc portMAX_DELAY k)"

definition task_a ::
    "('a test_kernel_scheme \<Rightarrow> 'a test_kernel_scheme option) \<Rightarrow> (string \<Rightarrow> u32) \<Rightarrow> u32 \<Rightarrow> 'a test_kernel_scheme \<Rightarrow> 'a test_kernel_scheme option" where
  "task_a env lit loc k = do {
     (_, k1) \<leftarrow> queue_print env lit loc ''[TaskA] ping'' portMAX_DELAY k;
     vTaskDelay (pdMS_TO_TICKS 200) k1
   }"

definition task_b ::
    "('a test_kernel_scheme \<Rightarrow> 'a test_kernel_scheme option) \<Rightarrow> (string \<Rightarrow> u32) \<Rightarrow> u32 \<Rightarrow> 'a test_kernel_scheme \<Rightarrow> 'a test_kernel_scheme option" where
  "task_b env lit loc k = do {
     (_, k1) \<leftarrow> queue_print env lit loc ''[TaskB] pong'' portMAX_DELAY k;
     vTaskDelay (pdMS_TO_TICKS 300) k1
   }"

definition task_self_delete ::
    "('a test_kernel_scheme \<Rightarrow> 'a test_kernel_scheme option) \<Rightarrow> layout \<Rightarrow> (string \<Rightarrow> u32) \<Rightarrow> u32 \<Rightarrow>
      'a test_kernel_scheme \<Rightarrow> 'a test_kernel_scheme option" where
  "task_self_delete env L lit loc k = do {
     (_, k1) \<leftarrow> queue_print env lit loc ''[TaskC] Hello - I will delete myself now.'' portMAX_DELAY k;
     vTaskDelete L 0 k1
   }"

section \<open>The timers' callbacks\<close>

text \<open>They do not wait, so the rest of the system does not run meanwhile.\<close>

definition timer_oneshot_cb ::
    "(string \<Rightarrow> u32) \<Rightarrow> u32 \<Rightarrow> nat \<Rightarrow> 'a test_kernel_scheme \<Rightarrow> 'a test_kernel_scheme option" where
  "timer_oneshot_cb lit loc xTimer k = map_option snd (queue_print Some lit loc ''[Timer] one-shot fired (300 ms)'' 0 k)"

definition timer_periodic_cb ::
    "(string \<Rightarrow> u32) \<Rightarrow> u32 \<Rightarrow> u32 \<Rightarrow> nat \<Rightarrow> 'a test_kernel_scheme \<Rightarrow> 'a test_kernel_scheme option" where
  "timer_periodic_cb lit loc msg xTimer k =
     (let k1 = k\<lparr>periodic_count := periodic_count k + 1\<rparr> in do {
        k2 \<leftarrow> (if periodic_count k1 = 1 then map_option snd (queue_print Some lit loc ''[Timer] periodic tick 1 (350 ms)'' 0 k1)
               else if periodic_count k1 = 2 then map_option snd (queue_print Some lit loc ''[Timer] periodic tick 2 (350 ms)'' 0 k1)
               else if periodic_count k1 = 3 then map_option snd (queue_print Some lit loc ''[Timer] periodic tick 3 (350 ms)'' 0 k1)
               else Some k1);
        if 3 \<le> periodic_count k2 then do {
          k3 \<leftarrow> map_option snd (queue_print Some lit loc ''[Timer] periodic stopping after 3 ticks.'' 0 k2);
          map_option snd (xTimerStop Some msg xTimer 0 k3)
        }
        else Some k2
      })"

text \<open>What the daemon runs when it calls through a function pointer.\<close>

definition test_callback :: "(string \<Rightarrow> u32) \<Rightarrow> u32 \<Rightarrow> u32 \<Rightarrow> u32 \<Rightarrow> u32 \<Rightarrow> u32 \<Rightarrow> nat \<Rightarrow> 'a test_kernel_scheme \<Rightarrow> 'a test_kernel_scheme option" where
  "test_callback lit oneshot periodic loc msg code h k =
     (if code = oneshot then timer_oneshot_cb lit loc h k
      else if code = periodic then timer_periodic_cb lit loc msg h k
      else None)"

section \<open>Setting up\<close>

record test_code =
  c_printer :: u32
  c_task_a :: u32
  c_task_b :: u32
  c_self_delete :: u32
  c_oneshot :: u32
  c_periodic :: u32

text \<open>A line with the state of the heap.\<close>

definition heap_line :: "string \<Rightarrow> vararg list \<Rightarrow> 'a kernel_scheme \<Rightarrow> u8 list option" where
  "heap_line s args k =
     printf (cstr s @ [10]) (VInt (xPortGetFreeHeapSize (k_heap k)) # VInt (xPortGetMinimumEverFreeHeapSize (k_heap k)) # args)"

text \<open>Creating a timer and sending it its start command; a failure is only reported.\<close>

definition start_test_timer ::
    "layout \<Rightarrow> (string \<Rightarrow> u32) \<Rightarrow> u32 \<Rightarrow> string \<Rightarrow> u32 \<Rightarrow> bool \<Rightarrow> u32 \<Rightarrow> 'a test_kernel_scheme \<Rightarrow> (u8 list \<times> 'a test_kernel_scheme) option" where
  "start_test_timer L lit msg name ms reload code k = do {
     (t, k1) \<leftarrow> xTimerCreate L (lit name) (pdMS_TO_TICKS ms) reload 0 code k;
     if t \<noteq> 0 then do {
       (pass, k2) \<leftarrow> xTimerStart Some msg t 0 k1;
       Some (if \<not> pass then puts (cstr (''[WARN] xTimerStart('' @ name @ '') failed'')) else [], k2)
     }
     else Some (puts (cstr (''[WARN] xTimerCreate('' @ name @ '') failed'')), k1)
   }"

text \<open>
  Everything before \<open>vTaskStartScheduler\<close>, with the text it prints. Setting the trap vector is left to the port's assembly.
\<close>

definition test_rtos_setup ::
    "layout \<Rightarrow> u32 \<Rightarrow> (string \<Rightarrow> u32) \<Rightarrow> test_code \<Rightarrow> u32 \<Rightarrow> 'a test_kernel_scheme \<Rightarrow> (u8 list \<times> 'a test_kernel_scheme) option" where
  "test_rtos_setup L mstatus lit c msg k = do {
     o1 \<leftarrow> printf (cstr ''sizeof(StackType_t)=%u'' @ [10]) [VInt sizeof_StackType];
     o2 \<leftarrow> heap_line ''Before any alloc: free=%u minFree=%u'' [] k;
     (p, k1) \<leftarrow> task_malloc L 4 k;
     o3 \<leftarrow> heap_line ''After prvHeapInit: free=%u minFree=%u p=0x%x'' [VInt p] k1;
     k2 \<leftarrow> task_free L p k1;
     o4 \<leftarrow> printf (cstr ''After vPortFree(p): free=%u'' @ [10]) [VInt (xPortGetFreeHeapSize (k_heap k2))];
     (q, k3) \<leftarrow> xQueueGenericCreate L 10 4 k2;
     let k4 = k3\<lparr>g_print_queue := q\<rparr>;
     if q = 0 then None
     else do {
       (rc, k5) \<leftarrow> xTaskCreate L mstatus (c_printer c) (Some (cstr ''Printer'')) 512 0 3 k4;
       if rc = 0 then None
       else do {
         (rca, k6) \<leftarrow> xTaskCreate L mstatus (c_task_a c) (Some (cstr ''A'')) 1024 0 2 k5;
         o5 \<leftarrow> heap_line ''After TaskA: free=%u minFree=%u'' [] k6;
         let o6 = (if rca = 0 then cstr ''[FAIL] xTaskCreate(TaskA) failed'' @ [10] else []);
         (rcb, k7) \<leftarrow> xTaskCreate L mstatus (c_task_b c) (Some (cstr ''B'')) 1024 0 2 k6;
         o7 \<leftarrow> heap_line ''After TaskB: free=%u minFree=%u'' [] k7;
         let o8 = (if rcb = 0 then cstr ''[FAIL] xTaskCreate(TaskB) failed'' @ [10] else []);
         (rcc, k8) \<leftarrow> xTaskCreate L mstatus (c_self_delete c) (Some (cstr ''C'')) 1024 0 2 k7;
         o9 \<leftarrow> heap_line ''After TaskC: free=%u minFree=%u rc=%d'' [VInt (if rcc \<noteq> 0 then 1 else -1)] k8;
         let o10 = (if rcc = 0 then cstr ''[FAIL] xTaskCreate(TaskC) failed'' @ [10] else []);
         (o11, k9) \<leftarrow> start_test_timer L lit msg ''oneshot'' 300 False (c_oneshot c) k8;
         (o12, k10) \<leftarrow> start_test_timer L lit msg ''periodic'' 350 True (c_periodic c) k9;
         Some (puts (cstr ''--- FreeRTOS Test ---'') @ o1 @ o2 @ o3 @ o4 @ o5 @ o6 @ o7 @ o8 @ o9 @ o10 @ o11 @ o12 @
           puts (cstr ''[OK] Created one-shot timer (300 ms) and periodic timer (350 ms x3)'') @
           puts (cstr ''Scheduler running (sim exits at max-cycles)...''), k10)
       }
     }
   }"

definition shell_test_rtos ::
    "bool \<Rightarrow> 'd bus \<Rightarrow> u32 \<Rightarrow> u32 \<Rightarrow> layout \<Rightarrow> u32 \<Rightarrow> u32 \<Rightarrow> u32 \<Rightarrow> (string \<Rightarrow> u32) \<Rightarrow> test_code \<Rightarrow> u32 \<Rightarrow>
      'a test_kernel_scheme \<times> 'd port \<Rightarrow> (u8 list \<times> 'a test_kernel_scheme \<times> 'd port) option" where
  "shell_test_rtos low_first b hart stack L mstatus idle daemon lit c msg = (\<lambda>(k, p). do {
     (out, k1) \<leftarrow> test_rtos_setup L mstatus lit c msg k;
     kp \<leftarrow> vTaskStartScheduler low_first b hart stack L mstatus idle daemon (k1, p);
     Some (out, kp)
   })"

end
