(* ===== verification/Rtos_Timer_Inv.thy ===== *)
theory Rtos_Timer_Inv
  imports Rtos_Timer Rtos_Lists
begin

text \<open>
  The lists of active timers, when a timer is due, and what an application's callbacks have to respect for the timers to be
  served exactly.
\<close>

section \<open>When a timer is due\<close>

text \<open>
  Times counted without bound: a command given at \<open>c\<close> starts a timer of period \<open>p\<close>; the daemon handles it at \<open>n\<close>, less than a full
  turn of the tick counter later. The code's two comparisons on 32 bits decide exactly whether the timer is
  due, and otherwise whether its time lies in the current turn.
\<close>

lemma due_iff:
  fixes p :: u32
  assumes "c \<le> n" and "n - c < 2 ^ 32" and "0 < p"
  defines "e \<equiv> of_nat (c + unat p) :: u32" and "now \<equiv> of_nat n :: u32" and "cmd \<equiv> of_nat c :: u32"
  shows "(if e \<le> now then p \<le> now - cmd else now < cmd \<and> cmd \<le> e) \<longleftrightarrow> c + unat p \<le> n"
    and "n < c + unat p \<Longrightarrow> e \<le> now \<longleftrightarrow> (c + unat p) div 2 ^ 32 \<noteq> n div 2 ^ 32"
proof -
  let ?M = "4294967296 :: nat"
  have un: "unat (of_nat m :: u32) = m mod ?M" for m by (simp add: unat_of_nat)
  have p: "0 < unat p" "unat p < ?M" using assms(3) unat_u32_less [of p] by (simp_all add: word_less_nat_alt)
  have sub: "now - cmd = of_nat (n - c)" using assms(1) by (simp add: now_def cmd_def of_nat_diff)
  have nc: "unat (now - cmd) = n - c" using assms(2) by (simp add: sub un)
  have le: "e \<le> now \<longleftrightarrow> (c + unat p) mod ?M \<le> n mod ?M" "now < cmd \<longleftrightarrow> n mod ?M < c mod ?M" "cmd \<le> e \<longleftrightarrow> c mod ?M \<le> (c + unat p) mod ?M"
    unfolding e_def now_def cmd_def by (simp_all only: word_le_nat_alt word_less_nat_alt un)
  have pl: "p \<le> now - cmd \<longleftrightarrow> unat p \<le> n - c" by (simp only: word_le_nat_alt nc)
  define A a B b E r where "A = c div ?M" and "a = c mod ?M" and "B = n div ?M" and "b = n mod ?M"
    and "E = (c + unat p) div ?M" and "r = (c + unat p) mod ?M"
  note defs = this
  have d: "c = ?M * A + a" "n = ?M * B + b" "c + unat p = ?M * E + r" "a < ?M" "b < ?M" "r < ?M"
    by (simp_all add: defs)
  have "A \<le> B" "A \<le> E" unfolding defs using assms(1) by (simp_all add: div_le_mono)
  moreover have "B \<le> (c + ?M) div ?M" "E \<le> (c + ?M) div ?M"
    unfolding defs using assms(1,2) p by (intro div_le_mono; simp)+
  then have "B \<le> A + 1" "E \<le> A + 1" by (simp_all add: defs)
  ultimately have q: "B = A \<or> B = A + 1" "E = A \<or> E = A + 1" by linarith+
  have due: "c + unat p \<le> n \<longleftrightarrow> E < B \<or> E = B \<and> r \<le> b" using d(2,3,5,6) q by auto
  have lag: "unat p \<le> n - c \<longleftrightarrow> c + unat p \<le> n" using assms(1) by linarith
  show "(if e \<le> now then p \<le> now - cmd else now < cmd \<and> cmd \<le> e) \<longleftrightarrow> c + unat p \<le> n"
  proof (cases "r \<le> b")
    case True
    then show ?thesis unfolding le pl lag defs [symmetric] by simp
  next
    case False
    have "c + unat p \<le> n \<longleftrightarrow> b < a \<and> a \<le> r" using q d assms(1,2) p False unfolding due by auto
    then show ?thesis unfolding le defs [symmetric] using False by simp
  qed
  have "r \<le> b \<longleftrightarrow> E \<noteq> B" if "n < c + unat p"
    using that q d assms(1,2) p due by auto
  then show "e \<le> now \<longleftrightarrow> (c + unat p) div 2 ^ 32 \<noteq> n div 2 ^ 32" if "n < c + unat p"
    using that unfolding le by (simp add: defs)
qed

section \<open>The lists of active timers\<close>

text \<open>
  Both lists are well-formed and hold timers of \<open>H\<close>, sorted by expiry time; one is the current list, the other the one for the next turn of the
  tick counter.
\<close>

definition timers_rep :: "nat set \<Rightarrow> 'a tkernel_scheme \<Rightarrow> (nat \<Rightarrow> nat list) \<Rightarrow> bool" where
  "timers_rep H k xs \<longleftrightarrow> (\<exists>ix. lists_rep (timer_lists k) {0, 1} H xs ix) \<and>
     (pxCurrentTimerList k = 0 \<and> pxOverflowTimerList k = 1 \<or> pxCurrentTimerList k = 1 \<and> pxOverflowTimerList k = 0) \<and>
     (\<forall>l\<in>{0, 1}. (\<forall>h\<in>set (xs l). owner (timer_lists k) h = h) \<and> sorted (map (item_value (timer_lists k)) (xs l)))"

lemma timers_repE:
  assumes "timers_rep H k xs"
  obtains ix where "lists_rep (timer_lists k) {0, 1} H xs ix"
  using assms unfolding timers_rep_def by blast

lemma timers_repD:
  assumes "timers_rep H k xs"
  shows "pxCurrentTimerList k \<in> {0, 1}" "pxOverflowTimerList k \<in> {0, 1}"
    "pxOverflowTimerList k \<noteq> pxCurrentTimerList k"
    "l \<in> {0, 1} \<Longrightarrow> h \<in> set (xs l) \<Longrightarrow> owner (timer_lists k) h = h"
    "l \<in> {0, 1} \<Longrightarrow> sorted (map (item_value (timer_lists k)) (xs l))"
  using assms unfolding timers_rep_def by auto

lemma timers_repI:
  assumes "timers_rep H k xs" and "lists_rep s {0, 1} H ys ix"
    and "\<And>l h. l \<in> {0, 1} \<Longrightarrow> h \<in> set (ys l) \<Longrightarrow> owner s h = h"
    and "\<And>l. l \<in> {0, 1} \<Longrightarrow> sorted (map (item_value s) (ys l))"
  shows "timers_rep H (k\<lparr>timer_lists := s\<rparr>) ys"
  unfolding timers_rep_def
proof (intro conjI ballI)
  show "\<exists>ix. lists_rep (timer_lists (k\<lparr>timer_lists := s\<rparr>)) {0, 1} H ys ix" using assms(2) by auto
qed (use assms timers_repD(1-3) [OF assms(1)] in auto)

lemma timers_rep_cong:
  assumes "timer_lists k' = timer_lists k" and "pxCurrentTimerList k' = pxCurrentTimerList k" and "pxOverflowTimerList k' = pxOverflowTimerList k"
  shows "timers_rep H k' xs = timers_rep H k xs"
  using assms by (simp add: timers_rep_def)

lemma timers_rep_container:
  assumes "timers_rep H k xs"
  shows "container (timer_lists k) h = Some l \<longleftrightarrow> l \<in> {0, 1} \<and> h \<in> set (xs l)"
proof -
  obtain ix where "lists_rep (timer_lists k) {0, 1} H xs ix" by (rule timers_repE [OF assms])
  then show ?thesis by (rule lists_rep_container)
qed

text \<open>What concerns timers other than \<open>h\<close> is untouched.\<close>

definition only_timer :: "nat \<Rightarrow> 'a tkernel_scheme \<Rightarrow> 'a tkernel_scheme \<Rightarrow> bool" where
  "only_timer h k k' \<longleftrightarrow> (\<forall>j. j \<noteq> h \<longrightarrow> container (timer_lists k') j = container (timer_lists k) j \<and>
       item_value (timer_lists k') j = item_value (timer_lists k) j \<and> timers k' j = timers k j) \<and>
     pxCurrentTimerList k' = pxCurrentTimerList k \<and> pxOverflowTimerList k' = pxOverflowTimerList k"

lemma only_timer_refl [simp]: "only_timer h k k"
  by (simp add: only_timer_def)

lemma only_timer_trans: "only_timer h k k1 \<Longrightarrow> only_timer h k1 k2 \<Longrightarrow> only_timer h k k2"
  by (simp add: only_timer_def)

text \<open>A timer is armed for the time \<open>e\<close>, seen from the time \<open>n\<close>.\<close>

definition armed :: "'a tkernel_scheme \<Rightarrow> nat \<Rightarrow> nat \<Rightarrow> nat \<Rightarrow> bool" where
  "armed k h e n \<longleftrightarrow> item_value (timer_lists k) h = of_nat e \<and>
     container (timer_lists k) h = Some (if e div 2 ^ 32 = n div 2 ^ 32 then pxCurrentTimerList k else pxOverflowTimerList k)"

lemma set_owner_simps [simp]:
  "item_value (listSET_LIST_ITEM_OWNER i t s) j = item_value s j"
  "owner (listSET_LIST_ITEM_OWNER i t s) j = (if j = i then t else owner s j)"
  "container (listSET_LIST_ITEM_OWNER i t s) j = container s j"
  by (simp_all add: listSET_LIST_ITEM_OWNER_def)

lemma label_timer:
  fixes e :: u32
  assumes rep: "timers_rep H k xs" and c: "container (timer_lists k) h = None"
  defines "s \<equiv> listSET_LIST_ITEM_OWNER h h (listSET_LIST_ITEM_VALUE h e (timer_lists k))"
  shows "timers_rep H (k\<lparr>timer_lists := s\<rparr>) xs" and "only_timer h k (k\<lparr>timer_lists := s\<rparr>)"
    and "item_value s h = e" and "owner s h = h" and "container s j = container (timer_lists k) j"
proof -
  note r = timers_repD [OF rep]
  obtain ix where ix: "lists_rep (timer_lists k) {0, 1} H xs ix" by (rule timers_repE [OF rep])
  have lr: "lists_rep s {0, 1} H xs ix" unfolding s_def by (intro lists_rep_set_owner lists_rep_set_value ix)
  have nin: "h \<notin> set (xs l)" if "l \<in> {0, 1}" for l by (rule lists_rep_free [OF ix c that])
  show "timers_rep H (k\<lparr>timer_lists := s\<rparr>) xs"
  proof (rule timers_repI [OF rep lr])
    fix l :: nat assume l: "l \<in> {0, 1}"
    have "map (item_value s) (xs l) = map (item_value (timer_lists k)) (xs l)"
      using nin [OF l] by (intro map_cong refl) (auto simp: s_def)
    then show "sorted (map (item_value s) (xs l))" using r(5) [OF l] by (simp only:)
    show "owner s j = j" if "j \<in> set (xs l)" for j using r(4) [OF l that] by (simp add: s_def)
  qed
  show "only_timer h k (k\<lparr>timer_lists := s\<rparr>)" by (simp add: only_timer_def s_def)
qed (simp_all add: s_def)

lemma place_timer:
  assumes rep: "timers_rep H k xs" and h: "h \<in> H" and c: "container (timer_lists k) h = None" and o: "owner (timer_lists k) h = h"
    and l: "l \<in> {0, 1}"
  obtains s where "on_timers_opt (vListInsert l h) k = Some (k\<lparr>timer_lists := s\<rparr>)"
    and "timers_rep H (k\<lparr>timer_lists := s\<rparr>) (xs(l := ains (item_value s) h (xs l)))"
    and "only_timer h k (k\<lparr>timer_lists := s\<rparr>)" and "container s h = Some l" and "item_value s = item_value (timer_lists k)"
proof -
  note r = timers_repD [OF rep]
  let ?v = "item_value (timer_lists k)"
  obtain ix where ix: "lists_rep (timer_lists k) {0, 1} H xs ix" by (rule timers_repE [OF rep])
  obtain s where s: "vListInsert l h (timer_lists k) = Some s" "lists_rep s {0, 1} H (xs(l := ains ?v h (xs l))) ix"
    "same_data (timer_lists k) s" "\<And>j. container s j = (if j = h then Some l else container (timer_lists k) j)"
    by (rule lists_rep_insert [OF ix l h c]) (rule that)
  note d = same_dataD [OF s(3)]
  have v: "item_value s = ?v" using d(1) by (simp add: fun_eq_iff)
  have "sorted (map ?v (ains ?v h (xs l)))" by (rule ains_sorted [OF r(5) [OF l]])
  then have "sorted (map (item_value s) ((xs(l := ains ?v h (xs l))) m))" if "m \<in> {0, 1}" for m
    using r(5) [OF that] unfolding v by simp
  moreover have "owner s j = j" if "m \<in> {0, 1}" "j \<in> set ((xs(l := ains ?v h (xs l))) m)" for j m
    using that(2) r(4) [OF that(1), of j] r(4) [OF l, of j] d(2) [of j] o by (auto simp: set_ains split: if_splits)
  ultimately have "timers_rep H (k\<lparr>timer_lists := s\<rparr>) (xs(l := ains ?v h (xs l)))" by (intro timers_repI [OF rep s(2)])
  moreover have "only_timer h k (k\<lparr>timer_lists := s\<rparr>)" using s(4) d(1) by (simp add: only_timer_def)
  moreover have "on_timers_opt (vListInsert l h) k = Some (k\<lparr>timer_lists := s\<rparr>)" using s(1) by (simp add: on_timers_opt_def)
  ultimately show thesis using that s(4) v by simp
qed

text \<open>A timer is taken off its list.\<close>

lemma unlist_timer:
  assumes rep: "timers_rep H k xs" and c: "container (timer_lists k) h = Some l"
  obtains s where "on_timers_opt (\<lambda>s. map_option snd (uxListRemove h s)) k = Some (k\<lparr>timer_lists := s\<rparr>)"
    and "timers_rep H (k\<lparr>timer_lists := s\<rparr>) (xs(l := remove1 h (xs l)))"
    and "only_timer h k (k\<lparr>timer_lists := s\<rparr>)" and "container s h = None" and "item_value s = item_value (timer_lists k)"
proof -
  note r = timers_repD [OF rep]
  obtain ix where ix: "lists_rep (timer_lists k) {0, 1} H xs ix" by (rule timers_repE [OF rep])
  have l: "l \<in> {0, 1}" using lists_repD(2) [OF ix c] .
  obtain s where s: "uxListRemove h (timer_lists k) = Some (of_nat (length (xs l) - 1), s)"
    "lists_rep s {0, 1} H (xs(l := remove1 h (xs l))) (ix(l := arem_index h (xs l) (ix l)))"
    "same_data (timer_lists k) s" "\<And>j. container s j = (if j = h then None else container (timer_lists k) j)"
    by (rule lists_rep_remove [OF ix c]) (rule that)
  note d = same_dataD [OF s(3)]
  have v: "item_value s = item_value (timer_lists k)" using d(1) by (simp add: fun_eq_iff)
  have "sorted (map (item_value s) ((xs(l := remove1 h (xs l))) m))" if "m \<in> {0, 1}" for m
    using r(5) [OF that] unfolding v by (auto intro: sorted_map_remove1)
  moreover have "owner s j = j" if "m \<in> {0, 1}" "j \<in> set ((xs(l := remove1 h (xs l))) m)" for j m
  proof -
    have "j \<in> set (xs m)" using that(2) by (cases "m = l") (auto dest: subsetD [OF set_remove1_subset])
    then show ?thesis using r(4) [OF that(1)] d(2) by simp
  qed
  ultimately have "timers_rep H (k\<lparr>timer_lists := s\<rparr>) (xs(l := remove1 h (xs l)))" by (intro timers_repI [OF rep s(2)])
  moreover have "only_timer h k (k\<lparr>timer_lists := s\<rparr>)" using s(4) d(1) by (simp add: only_timer_def)
  moreover have "on_timers_opt (\<lambda>s. map_option snd (uxListRemove h s)) k = Some (k\<lparr>timer_lists := s\<rparr>)"
    using s(1) by (simp add: on_timers_opt_def)
  ultimately show thesis using that s(4) v by simp
qed

section \<open>Insertion into the active lists\<close>

definition arm_list :: "'a tkernel_scheme \<Rightarrow> nat \<Rightarrow> nat \<Rightarrow> nat" where
  "arm_list k e n = (if e div 2 ^ 32 = n div 2 ^ 32 then pxCurrentTimerList k else pxOverflowTimerList k)"

definition arm :: "'a tkernel_scheme \<Rightarrow> nat \<Rightarrow> nat \<Rightarrow> (nat \<Rightarrow> nat list) \<Rightarrow> nat \<Rightarrow> nat \<Rightarrow> nat list" where
  "arm k e n xs h = (let l = arm_list k e n in xs(l := ains (item_value (timer_lists k)) h (xs l)))"

lemma insert_active:
  fixes p :: u32
  assumes rep: "timers_rep H k xs" and h: "h \<in> H" and c: "container (timer_lists k) h = None"
    and t: "a \<le> n" "n - a < 2 ^ 32" and p: "p = xTimerPeriodInTicks (timers k h)" "0 < p"
  defines "r \<equiv> prvInsertTimerInActiveList h (of_nat a + p) (of_nat n) (of_nat a) k"
  shows "a + unat p \<le> n \<Longrightarrow> \<exists>s. r = Some (True, k\<lparr>timer_lists := s\<rparr>) \<and> timers_rep H (k\<lparr>timer_lists := s\<rparr>) xs \<and>
      only_timer h k (k\<lparr>timer_lists := s\<rparr>) \<and> container s h = None"
    and "n < a + unat p \<Longrightarrow> \<exists>s. r = Some (False, k\<lparr>timer_lists := s\<rparr>) \<and>
      timers_rep H (k\<lparr>timer_lists := s\<rparr>) (arm (k\<lparr>timer_lists := s\<rparr>) (a + unat p) n xs h) \<and>
      only_timer h k (k\<lparr>timer_lists := s\<rparr>) \<and> armed (k\<lparr>timer_lists := s\<rparr>) h (a + unat p) n"
proof -
  let ?e = "of_nat (a + unat p) :: u32"
  have e: "of_nat a + p = ?e" by simp
  define s where "s = listSET_LIST_ITEM_OWNER h h (listSET_LIST_ITEM_VALUE h ?e (timer_lists k))"
  let ?k = "k\<lparr>timer_lists := s\<rparr>"
  note lab = label_timer [OF rep c, of ?e, folded s_def]
  note rr = timers_repD [OF rep]
  note due = due_iff [OF t p(2)]
  have r: "r = (if ?e \<le> of_nat n then if p \<le> of_nat n - of_nat a then Some (True, ?k)
        else map_option (Pair False) (on_timers_opt (vListInsert (pxOverflowTimerList k) h) ?k)
      else if of_nat n < (of_nat a :: u32) \<and> of_nat a \<le> ?e then Some (True, ?k)
        else map_option (Pair False) (on_timers_opt (vListInsert (pxCurrentTimerList k) h) ?k))"
    unfolding r_def e prvInsertTimerInActiveList_def Let_def using p(1) by (simp add: on_timers_def s_def del: of_nat_add)
  show "\<exists>s. r = Some (True, k\<lparr>timer_lists := s\<rparr>) \<and> timers_rep H (k\<lparr>timer_lists := s\<rparr>) xs \<and>
      only_timer h k (k\<lparr>timer_lists := s\<rparr>) \<and> container s h = None" if le: "a + unat p \<le> n"
  proof -
    have "r = Some (True, ?k)" using due(1) le unfolding r by (auto simp del: of_nat_add split: if_splits)
    with lab(1,2,5) c show ?thesis by auto
  qed
  show "\<exists>s. r = Some (False, k\<lparr>timer_lists := s\<rparr>) \<and>
      timers_rep H (k\<lparr>timer_lists := s\<rparr>) (arm (k\<lparr>timer_lists := s\<rparr>) (a + unat p) n xs h) \<and>
      only_timer h k (k\<lparr>timer_lists := s\<rparr>) \<and> armed (k\<lparr>timer_lists := s\<rparr>) h (a + unat p) n" if lt: "n < a + unat p"
  proof -
    let ?l = "arm_list k (a + unat p) n"
    have "\<not> a + unat p \<le> n" using lt by simp
    then have r': "r = map_option (Pair False) (on_timers_opt (vListInsert ?l h) ?k)"
      using due(1) due(2) [OF lt] unfolding r arm_list_def by (auto simp del: of_nat_add split: if_splits)
    have l: "?l \<in> {0, 1}" using rr(1,2) by (simp add: arm_list_def)
    have c': "container (timer_lists ?k) h = None" and o: "owner (timer_lists ?k) h = h" using lab(4,5) c by simp_all
    obtain s' where s': "on_timers_opt (vListInsert ?l h) ?k = Some (?k\<lparr>timer_lists := s'\<rparr>)"
      "timers_rep H (?k\<lparr>timer_lists := s'\<rparr>) (xs(?l := ains (item_value s') h (xs ?l)))"
      "only_timer h ?k (?k\<lparr>timer_lists := s'\<rparr>)" "container s' h = Some ?l" "item_value s' = item_value (timer_lists ?k)"
      by (rule place_timer [OF lab(1) h c' o l]) (rule that)
    have al: "arm_list (k\<lparr>timer_lists := s'\<rparr>) (a + unat p) n = ?l" by (simp add: arm_list_def)
    have "r = Some (False, k\<lparr>timer_lists := s'\<rparr>)" using r' s'(1) by simp
    moreover have "timers_rep H (k\<lparr>timer_lists := s'\<rparr>) (arm (k\<lparr>timer_lists := s'\<rparr>) (a + unat p) n xs h)"
      using s'(2) unfolding arm_def al Let_def by simp
    moreover have "only_timer h k (k\<lparr>timer_lists := s'\<rparr>)" using only_timer_trans [OF lab(2) s'(3)] by simp
    moreover have "armed (k\<lparr>timer_lists := s'\<rparr>) h (a + unat p) n"
      using s'(4) fun_cong [OF s'(5), of h] lab(3) by (simp add: armed_def arm_list_def)
    ultimately show ?thesis by blast
  qed
qed

end
