(* ===== verification/Rtos_Timer_Calls.thy ===== *)
theory Rtos_Timer_Calls
  imports Rtos_Timer_Inv
begin

text \<open>
  Serving the timers: which callbacks run, in which order, when timers are due, for every set of callbacks that keeps its own
  invariant and leaves the timers to the daemon.
\<close>

section \<open>The callbacks of a run\<close>

text \<open>Only the daemon's own state differs; only the rest of the system differs.\<close>

definition same_app :: "'a tkernel_scheme \<Rightarrow> 'a tkernel_scheme \<Rightarrow> bool" where
  "same_app k k' \<longleftrightarrow> k'\<lparr>timer_lists := timer_lists k, timers := timers k, pxCurrentTimerList := pxCurrentTimerList k,
     pxOverflowTimerList := pxOverflowTimerList k, xLastTime := xLastTime k\<rparr> = k"

definition same_timers :: "'a tkernel_scheme \<Rightarrow> 'a tkernel_scheme \<Rightarrow> bool" where
  "same_timers k k' \<longleftrightarrow> timer_lists k' = timer_lists k \<and> timers k' = timers k \<and> pxCurrentTimerList k' = pxCurrentTimerList k \<and>
     pxOverflowTimerList k' = pxOverflowTimerList k \<and> xLastTime k' = xLastTime k"

lemma same_app_refl [simp]: "same_app k k"
  by (simp add: same_app_def)

lemma same_app_updates [simp]:
  "same_app k (k'\<lparr>timer_lists := s\<rparr>) = same_app k k'" "same_app k (k'\<lparr>xLastTime := x\<rparr>) = same_app k k'"
  "same_app k (k'\<lparr>timers := t\<rparr>) = same_app k k'" "same_app k (upd_timer h f k') = same_app k k'"
  "same_app k (k'\<lparr>pxCurrentTimerList := a\<rparr>) = same_app k k'" "same_app k (k'\<lparr>pxOverflowTimerList := b\<rparr>) = same_app k k'"
  by (simp_all add: same_app_def upd_timer_def)

lemma same_app_trans:
  assumes "same_app k k1" and "same_app k1 k2"
  shows "same_app k k2"
proof -
  have "k = k1\<lparr>timer_lists := timer_lists k, timers := timers k, pxCurrentTimerList := pxCurrentTimerList k,
     pxOverflowTimerList := pxOverflowTimerList k, xLastTime := xLastTime k\<rparr>" using assms(1) by (simp add: same_app_def)
  also have "k1 = k2\<lparr>timer_lists := timer_lists k1, timers := timers k1, pxCurrentTimerList := pxCurrentTimerList k1,
     pxOverflowTimerList := pxOverflowTimerList k1, xLastTime := xLastTime k1\<rparr>" using assms(2) by (simp add: same_app_def)
  finally show ?thesis by (simp add: same_app_def)
qed

text \<open>The callbacks that run are those of the timers \<open>hs\<close>, one after another.\<close>

inductive called :: "'a callback \<Rightarrow> nat list \<Rightarrow> 'a tkernel_scheme \<Rightarrow> 'a tkernel_scheme \<Rightarrow> bool" for call where
  none: "same_app k k' \<Longrightarrow> called call [] k k'"
| one: "same_app k k1 \<Longrightarrow> call_timer call h k1 = Some k2 \<Longrightarrow> called call hs k2 k' \<Longrightarrow> called call (h # hs) k k'"

lemma called_pre: "called call hs k1 k' \<Longrightarrow> same_app k k1 \<Longrightarrow> called call hs k k'"
  by (cases rule: called.cases) (auto intro: called.intros same_app_trans)

lemma called_append: "called call hs k k1 \<Longrightarrow> called call hs' k1 k' \<Longrightarrow> called call (hs @ hs') k k'"
  by (induction rule: called.induct) (auto intro: called.intros called_pre)

lemma called_post: "called call hs k k1 \<Longrightarrow> same_app k1 k' \<Longrightarrow> called call hs k k'"
  using called_append [of call hs k k1 "[]" k'] by (simp add: called.none)

section \<open>The contract of the callbacks\<close>

text \<open>
  The callbacks at the addresses \<open>codes\<close> keep the invariant \<open>I\<close> of the rest of the system, which does not depend on the daemon's own state,
  and leave that state alone: commands for timers go through the daemon's queue.
\<close>

definition serves :: "u32 set \<Rightarrow> nat set \<Rightarrow> 'a tkernel_scheme \<Rightarrow> bool" where
  "serves codes H k \<longleftrightarrow> (\<forall>h\<in>H. 0 < xTimerPeriodInTicks (timers k h) \<and> pxCallbackFunction (timers k h) \<in> codes)"

definition auto_reload :: "'a tkernel_scheme \<Rightarrow> nat \<Rightarrow> bool" where
  "auto_reload k h \<longleftrightarrow> ucStatus (timers k h) AND tmrSTATUS_IS_AUTORELOAD \<noteq> 0"

abbreviation period_of :: "'a tkernel_scheme \<Rightarrow> nat \<Rightarrow> nat" where
  "period_of k h \<equiv> unat (xTimerPeriodInTicks (timers k h))"

text \<open>How often a timer due at \<open>x\<close> is called when it is served at \<open>n\<close>, and when it is due next.\<close>

definition calls_due :: "'a tkernel_scheme \<Rightarrow> nat \<Rightarrow> nat \<Rightarrow> nat \<Rightarrow> nat" where
  "calls_due k h x n = (if auto_reload k h then (n - x) div period_of k h + 1 else 1)"

definition next_due :: "'a tkernel_scheme \<Rightarrow> nat \<Rightarrow> nat \<Rightarrow> nat \<Rightarrow> nat" where
  "next_due k h x n = x + period_of k h * ((n - x) div period_of k h + 1)"

lemma next_due_later: "0 < period_of k h \<Longrightarrow> x \<le> n \<Longrightarrow> n < next_due k h x n"
proof -
  assume p: "0 < period_of k h" and x: "x \<le> n"
  have "n - x < period_of k h * ((n - x) div period_of k h + 1)"
    using dividend_less_times_div [OF p, of "n - x"] by (simp add: algebra_simps)
  then show ?thesis using x by (simp add: next_due_def)
qed

lemma armed_cong:
  "timer_lists k' = timer_lists k \<Longrightarrow> pxCurrentTimerList k' = pxCurrentTimerList k \<Longrightarrow> pxOverflowTimerList k' = pxOverflowTimerList k \<Longrightarrow>
    armed k' h e n = armed k h e n"
  by (simp add: armed_def)

lemma only_timer_same: "same_timers k k' \<Longrightarrow> only_timer h k k'"
  by (simp add: only_timer_def same_timers_def)

lemma serves_cong: "timers k' = timers k \<Longrightarrow> serves codes H k' = serves codes H k"
  by (simp add: serves_def)

locale timer_callbacks =
  fixes call :: "'a callback" and codes :: "u32 set" and I :: "'a tkernel_scheme \<Rightarrow> bool"
  assumes own_state: "I k \<Longrightarrow> same_app k k' \<Longrightarrow> I k'"
    and runs: "I k \<Longrightarrow> f \<in> codes \<Longrightarrow> \<exists>k'. call f h k = Some k' \<and> I k' \<and> same_timers k k'"
begin

lemma call_runs:
  assumes "I k" and "serves codes H k" and "h \<in> H"
  obtains k' where "call_timer call h k = Some k'" and "I k'" and "same_timers k k'"
  using runs [OF assms(1), of "pxCallbackFunction (timers k h)" h] assms(2,3) by (auto simp: call_timer_def serves_def)

lemma reload:
  assumes "I k" and "timers_rep H k xs" and "serves codes H k" and "h \<in> H" and "container (timer_lists k) h = None"
    and "x \<le> n" and "n - x < 2 ^ 32"
  shows "\<exists>k'. prvReloadTimer call h (of_nat x) (of_nat n) k = Some k' \<and> called call (replicate ((n - x) div period_of k h) h) k k' \<and>
    I k' \<and> timers k' = timers k \<and> xLastTime k' = xLastTime k \<and> only_timer h k k' \<and> armed k' h (next_due k h x n) n \<and>
    timers_rep H k' (arm k' (next_due k h x n) n xs h)"
  using assms
proof (induction "n - x" arbitrary: x k rule: less_induct)
  case less
  define p where "p = xTimerPeriodInTicks (timers k h)"
  have p: "0 < p" using less.prems(3,4) by (simp add: serves_def p_def)
  then have p': "0 < unat p" by (simp add: word_less_nat_alt)
  note ins = insert_active [OF less.prems(2,4,5,6,7) p_def p]
  show ?case
  proof (cases "x + unat p \<le> n")
    case True
    from ins(1) [OF True] obtain s where s: "prvInsertTimerInActiveList h (of_nat x + p) (of_nat n) (of_nat x) k = Some (True, k\<lparr>timer_lists := s\<rparr>)"
      "timers_rep H (k\<lparr>timer_lists := s\<rparr>) xs" "only_timer h k (k\<lparr>timer_lists := s\<rparr>)" "container s h = None" by blast
    let ?k1 = "k\<lparr>timer_lists := s\<rparr>"
    have i1: "I ?k1" by (rule own_state [OF less.prems(1)]) simp
    have s1: "serves codes H ?k1" using less.prems(3) by (simp add: serves_def)
    obtain k2 where k2: "call_timer call h ?k1 = Some k2" "I k2" "same_timers ?k1 k2" by (rule call_runs [OF i1 s1 less.prems(4)])
    have t2: "timers k2 = timers k" "timer_lists k2 = s" "pxCurrentTimerList k2 = pxCurrentTimerList ?k1"
      "pxOverflowTimerList k2 = pxOverflowTimerList ?k1" "xLastTime k2 = xLastTime k"
      using k2(3) by (simp_all add: same_timers_def)
    have r2: "timers_rep H k2 xs" using s(2) timers_rep_cong [of k2 ?k1 H xs] t2(2-4) by simp
    have d: "(n - x) div unat p = Suc ((n - (x + unat p)) div unat p)"
      using True p' by (simp add: le_div_geq)
    have nd: "next_due k2 h (x + unat p) n = next_due k h x n" using d by (simp add: next_due_def t2(1) p_def [symmetric])
    have sv: "serves codes H k2" using less.prems(3) t2(1) by (simp add: serves_def)
    have c2: "container (timer_lists k2) h = None" using t2(2) s(4) by simp
    have "n - (x + unat p) < n - x" "n - (x + unat p) < 2 ^ 32" using True p' less.prems(7) by linarith+
    from less.hyps [OF this(1) k2(2) r2 sv less.prems(4) c2 True this(2)]
    obtain k' where k': "prvReloadTimer call h (of_nat (x + unat p)) (of_nat n) k2 = Some k'"
      "called call (replicate ((n - (x + unat p)) div unat p) h) k2 k'" "I k'" "timers k' = timers k2" "xLastTime k' = xLastTime k2"
      "only_timer h k2 k'" "armed k' h (next_due k h x n) n" "timers_rep H k' (arm k' (next_due k h x n) n xs h)"
      unfolding nd t2(1) p_def [symmetric] by blast
    have "prvReloadTimer call h (of_nat x) (of_nat n) k = Some k'"
      using s(1) k2(1) k'(1) by (subst prvReloadTimer.simps) (simp add: p_def [symmetric])
    moreover have "called call (replicate ((n - x) div unat p) h) k k'"
      unfolding d replicate_Suc by (rule called.one [OF _ k2(1) k'(2)]) simp
    moreover have "only_timer h k k'" using only_timer_trans [OF s(3)] only_timer_trans [OF only_timer_same [OF k2(3)] k'(6)] by blast
    ultimately show ?thesis using k'(3-5,7,8) t2 unfolding p_def by auto
  next
    case False
    then have lt: "n < x + unat p" by simp
    have nd: "next_due k h x n = x + unat p" using lt less.prems(6) by (simp add: next_due_def p_def [symmetric])
    from ins(2) [OF lt] obtain s where s: "prvInsertTimerInActiveList h (of_nat x + p) (of_nat n) (of_nat x) k = Some (False, k\<lparr>timer_lists := s\<rparr>)"
      "timers_rep H (k\<lparr>timer_lists := s\<rparr>) (arm (k\<lparr>timer_lists := s\<rparr>) (x + unat p) n xs h)"
      "only_timer h k (k\<lparr>timer_lists := s\<rparr>)" "armed (k\<lparr>timer_lists := s\<rparr>) h (x + unat p) n" by blast
    have "prvReloadTimer call h (of_nat x) (of_nat n) k = Some (k\<lparr>timer_lists := s\<rparr>)"
      using s(1) by (subst prvReloadTimer.simps) (simp add: p_def [symmetric])
    moreover have "(n - x) div period_of k h = 0" using lt less.prems(6) by (simp add: p_def [symmetric])
    moreover have "called call [] k (k\<lparr>timer_lists := s\<rparr>)" by (rule called.none) simp
    moreover have "I (k\<lparr>timer_lists := s\<rparr>)" by (rule own_state [OF less.prems(1)]) simp
    ultimately show ?thesis using s(2-4) unfolding nd by (intro exI [of _ "k\<lparr>timer_lists := s\<rparr>"]) simp
  qed
qed

end

end
