(* ===== verification/Rtos_Timer_Serve.thy ===== *)
theory Rtos_Timer_Serve
  imports Rtos_Timer_Calls
begin

text \<open>
  The daemon's passes over the timers that are due: the first timer of the current list, and the whole list when
  the tick counter has wrapped.
\<close>

section \<open>An expired timer\<close>

text \<open>A timer due at \<open>x\<close> has been served at \<open>n\<close>: armed again, or off the lists and no longer active.\<close>

definition served :: "'a tkernel_scheme \<Rightarrow> 'a tkernel_scheme \<Rightarrow> nat \<Rightarrow> nat \<Rightarrow> nat \<Rightarrow> bool" where
  "served k k' h x n \<longleftrightarrow>
     (if auto_reload k h then armed k' h (next_due k h x n) n \<and> timers k' h = timers k h
      else container (timer_lists k') h = None \<and> timers k' h = clear_status tmrSTATUS_IS_ACTIVE (timers k h))"

lemma served_cong: "only_timer j k' k2 \<Longrightarrow> j \<noteq> h \<Longrightarrow> served k k2 h x n = served k k' h x n"
  by (simp add: served_def armed_def only_timer_def)

lemma due_cong:
  assumes "only_timer j k k'" and "j \<noteq> h"
  shows "auto_reload k' h = auto_reload k h" "calls_due k' h x n = calls_due k h x n" "next_due k' h x n = next_due k h x n"
    "served k' k2 h x n = served k k2 h x n" "item_value (timer_lists k') h = item_value (timer_lists k) h"
  using assms by (simp_all add: only_timer_def auto_reload_def calls_due_def next_due_def served_def)

context timer_callbacks begin

text \<open>The last call of a pass, once the timer is where it belongs.\<close>

lemma final_call:
  assumes "I k2" and "timers_rep H k2 ys" and "serves codes H k2" and "h \<in> H" and "called call hs k k2" and "only_timer h k k2"
  obtains k' where "call_timer call h k2 = Some k'" and "called call (hs @ [h]) k k'" and "I k'" and "timers_rep H k' ys"
    and "serves codes H k'" and "only_timer h k k'" and "same_timers k2 k'"
proof -
  obtain k' where k': "call_timer call h k2 = Some k'" "I k'" "same_timers k2 k'" by (rule call_runs [OF assms(1,3,4)])
  have "called call [h] k2 k'" by (rule called.one [OF _ k'(1)]) (simp_all add: called.none)
  moreover have "timers_rep H k' ys" using assms(2) timers_rep_cong [of k' k2 H ys] k'(3) by (simp add: same_timers_def)
  moreover have "serves codes H k'" using assms(3) serves_cong [of k' k2] k'(3) by (simp add: same_timers_def)
  ultimately show thesis
    using that k' called_append [OF assms(5)] only_timer_trans [OF assms(6) only_timer_same [OF k'(3)]] by blast
qed

lemma expired:
  assumes "I k" and rep: "timers_rep H k xs" and sv: "serves codes H k" and xs: "xs (pxCurrentTimerList k) = h # r"
    and t: "x \<le> n" "n - x < 2 ^ 32"
  defines "ys \<equiv> xs(pxCurrentTimerList k := r)"
  shows "\<exists>k'. prvProcessExpiredTimer call (of_nat x) (of_nat n) k = Some k' \<and>
    called call (replicate (calls_due k h x n) h) k k' \<and> I k' \<and> serves codes H k' \<and> xLastTime k' = xLastTime k \<and>
    only_timer h k k' \<and> served k k' h x n \<and>
    timers_rep H k' (if auto_reload k h then arm k' (next_due k h x n) n ys h else ys)"
proof -
  let ?c = "pxCurrentTimerList k"
  note r = timers_repD [OF rep]
  obtain ix where ix: "lists_rep (timer_lists k) {0, 1} H xs ix" by (rule timers_repE [OF rep])
  have head: "listGET_OWNER_OF_HEAD_ENTRY ?c (timer_lists k) = h"
    using lists_rep_head(1) [OF ix r(1) xs] r(4) [OF r(1), of h] xs by simp
  have h: "h \<in> H" using lists_repD(4) [OF ix r(1)] xs by auto
  have con: "container (timer_lists k) h = Some ?c" using timers_rep_container [OF rep] r(1) xs by simp
  obtain s where s: "on_timers_opt (\<lambda>s. map_option snd (uxListRemove h s)) k = Some (k\<lparr>timer_lists := s\<rparr>)"
    "timers_rep H (k\<lparr>timer_lists := s\<rparr>) (xs(?c := remove1 h (xs ?c)))" "only_timer h k (k\<lparr>timer_lists := s\<rparr>)"
    "container s h = None" by (rule unlist_timer [OF rep con]) (rule that)
  let ?k1 = "k\<lparr>timer_lists := s\<rparr>"
  have r1: "timers_rep H ?k1 ys" using s(2) xs by (simp add: ys_def)
  have i1: "I ?k1" by (rule own_state [OF assms(1)]) simp
  have s1: "serves codes H ?k1" using sv by (simp add: serves_def)
  have c1: "container (timer_lists ?k1) h = None" using s(4) by simp
  have same1: "auto_reload ?k1 h = auto_reload k h" "next_due ?k1 h x n = next_due k h x n" by (simp_all add: auto_reload_def next_due_def)
  show ?thesis
  proof (cases "auto_reload k h")
    case True
    from reload [OF i1 r1 s1 h c1 t] obtain k2 where k2: "prvReloadTimer call h (of_nat x) (of_nat n) ?k1 = Some k2"
      "called call (replicate ((n - x) div period_of k h) h) ?k1 k2" "I k2" "timers k2 = timers k" "xLastTime k2 = xLastTime k"
      "only_timer h ?k1 k2" "armed k2 h (next_due k h x n) n" "timers_rep H k2 (arm k2 (next_due k h x n) n ys h)"
      unfolding same1 by auto
    have s2: "serves codes H k2" using s1 serves_cong [of k2 ?k1] k2(4) by simp
    have c2: "called call (replicate ((n - x) div period_of k h) h) k k2" by (rule called_pre [OF k2(2)]) simp
    obtain k' where k': "call_timer call h k2 = Some k'" "called call (replicate ((n - x) div period_of k h) h @ [h]) k k'" "I k'"
      "timers_rep H k' (arm k2 (next_due k h x n) n ys h)" "serves codes H k'" "only_timer h k k'" "same_timers k2 k'"
      by (rule final_call [OF k2(3,8) s2 h c2 only_timer_trans [OF s(3) k2(6)]]) (rule that)
    have st: "timer_lists k' = timer_lists k2" "pxCurrentTimerList k' = pxCurrentTimerList k2" "pxOverflowTimerList k' = pxOverflowTimerList k2"
      "timers k' = timers k2" "xLastTime k' = xLastTime k2" using k'(7) by (simp_all add: same_timers_def)
    have a: "arm k2 e n ys h = arm k' e n ys h" for e using st(1-3) by (simp add: arm_def arm_list_def)
    have "prvProcessExpiredTimer call (of_nat x) (of_nat n) k = Some k'"
      using s(1) k2(1) k'(1) True unfolding prvProcessExpiredTimer_def Let_def head by (simp add: auto_reload_def)
    moreover have "replicate (calls_due k h x n) h = replicate ((n - x) div period_of k h) h @ [h]"
      using True by (simp add: calls_due_def replicate_append_same)
    moreover have "served k k' h x n" using True k2(4,7) st armed_cong [OF st(1-3)] by (simp add: served_def)
    ultimately show ?thesis using k'(2-6) True st(5) k2(5) unfolding a by auto
  next
    case False
    let ?k2 = "upd_timer h (clear_status tmrSTATUS_IS_ACTIVE) ?k1"
    have i2: "I ?k2" by (rule own_state [OF assms(1)]) simp
    have s2: "serves codes H ?k2" using sv by (simp add: serves_def upd_timer_def clear_status_def)
    have r2: "timers_rep H ?k2 ys" using r1 timers_rep_cong [of ?k2 ?k1 H ys] by (simp add: upd_timer_def)
    have c2: "called call [] k ?k2" by (rule called.none) simp
    have o2: "only_timer h k ?k2" using s(3) by (simp add: only_timer_def upd_timer_def)
    obtain k' where k': "call_timer call h ?k2 = Some k'" "called call ([] @ [h]) k k'" "I k'" "timers_rep H k' ys"
      "serves codes H k'" "only_timer h k k'" "same_timers ?k2 k'"
      by (rule final_call [OF i2 r2 s2 h c2 o2]) (rule that)
    have st: "timer_lists k' = s" "timers k' = timers ?k2" "xLastTime k' = xLastTime k"
      using k'(7) by (simp_all add: same_timers_def upd_timer_def)
    have "prvProcessExpiredTimer call (of_nat x) (of_nat n) k = Some k'"
      using s(1) k'(1) False unfolding prvProcessExpiredTimer_def Let_def head by (simp add: auto_reload_def)
    moreover have "served k k' h x n" using False st s(4) by (simp add: served_def upd_timer_def)
    ultimately show ?thesis using k'(2-6) False st(3) by (auto simp: calls_due_def)
  qed
qed

end

section \<open>The end of a turn of the tick counter\<close>

text \<open>
  What is left on the current list when the counter has wrapped is served as of the last tick of the turn. A timer that is armed again is due
  in the next turn, hence not on the list that is being emptied.
\<close>

definition turn_end :: nat where "turn_end = 2 ^ 32 - 1"

abbreviation due_at :: "'a tkernel_scheme \<Rightarrow> nat \<Rightarrow> nat" where
  "due_at k h \<equiv> unat (item_value (timer_lists k) h)"

lemma turn_end_facts: "of_nat turn_end = (tmrMAX_TIME_BEFORE_OVERFLOW :: u32)" "unat (v :: u32) \<le> turn_end"
  "turn_end - unat (v :: u32) < 2 ^ 32" "turn_end < e \<Longrightarrow> e div 2 ^ 32 \<noteq> turn_end div 2 ^ 32"
proof -
  show "of_nat turn_end = (tmrMAX_TIME_BEFORE_OVERFLOW :: u32)" "turn_end - unat (v :: u32) < 2 ^ 32" by (simp_all add: turn_end_def)
  show "unat (v :: u32) \<le> turn_end" using unat_u32_less [of v] by (simp add: turn_end_def)
  assume "turn_end < e"
  then have "1 \<le> e div 2 ^ 32" by (simp add: turn_end_def div_greater_zero_iff)
  moreover have "turn_end div 2 ^ 32 = 0" by (simp add: turn_end_def)
  ultimately show "e div 2 ^ 32 \<noteq> turn_end div 2 ^ 32" by linarith
qed

definition flushed_calls :: "'a tkernel_scheme \<Rightarrow> nat list \<Rightarrow> nat list" where
  "flushed_calls k hs = concat (map (\<lambda>h. replicate (calls_due k h (due_at k h) turn_end) h) hs)"

lemma flushed_calls_cong:
  assumes "only_timer j k k'" and "j \<notin> set hs"
  shows "flushed_calls k' hs = flushed_calls k hs"
proof -
  have "replicate (calls_due k' h (due_at k' h) turn_end) h = replicate (calls_due k h (due_at k h) turn_end) h" if "h \<in> set hs" for h
  proof -
    have "j \<noteq> h" using assms(2) that by auto
    from due_cong [OF assms(1) this] show ?thesis by simp
  qed
  then show ?thesis unfolding flushed_calls_def by (metis (mono_tags, lifting) map_eq_conv)
qed

context timer_callbacks begin

lemma flush:
  assumes "I k" and "timers_rep H k xs" and "serves codes H k"
  defines "hs \<equiv> xs (pxCurrentTimerList k)"
  shows "\<exists>k' ys. flush_timers call k = Some k' \<and> called call (flushed_calls k hs) k k' \<and> I k' \<and> serves codes H k' \<and>
    timers_rep H k' ys \<and> ys (pxCurrentTimerList k) = [] \<and> xLastTime k' = xLastTime k \<and>
    pxCurrentTimerList k' = pxCurrentTimerList k \<and> pxOverflowTimerList k' = pxOverflowTimerList k \<and>
    (\<forall>h\<in>set hs. served k k' h (due_at k h) turn_end) \<and>
    (\<forall>j. j \<notin> set hs \<longrightarrow> container (timer_lists k') j = container (timer_lists k) j \<and>
       item_value (timer_lists k') j = item_value (timer_lists k) j \<and> timers k' j = timers k j)"
  using assms(1-3) unfolding hs_def
proof (induction "xs (pxCurrentTimerList k)" arbitrary: k xs)
  case Nil
  obtain ix where ix: "lists_rep (timer_lists k) {0, 1} H xs ix" by (rule timers_repE [OF Nil.prems(2)])
  have "flush_timers call k = Some k"
    using lists_rep_empty [OF ix timers_repD(1) [OF Nil.prems(2)]] Nil.hyps by (subst flush_timers.simps) simp
  with Nil show ?case by (intro exI [of _ k] exI [of _ xs]) (simp add: flushed_calls_def called.none)
next
  case (Cons h r)
  note rep = Cons.prems(2) and hd = Cons.hyps(2) [symmetric]
  note d = timers_repD [OF rep]
  let ?c = "pxCurrentTimerList k" and ?x = "due_at k h"
  obtain ix where ix: "lists_rep (timer_lists k) {0, 1} H xs ix" by (rule timers_repE [OF rep])
  have hH: "h \<in> H" using lists_repD(4) [OF ix d(1)] hd by auto
  have dist: "h \<notin> set r" using lists_rep_distinct [OF ix d(1)] hd by simp
  have head: "\<not> listLIST_IS_EMPTY ?c (timer_lists k)" "listGET_ITEM_VALUE_OF_HEAD_ENTRY ?c (timer_lists k) = of_nat ?x"
    using lists_rep_empty [OF ix d(1)] lists_rep_head(2) [OF ix d(1) hd] hd by simp_all
  let ?ys = "xs(?c := r)"
  from expired [OF Cons.prems(1) rep Cons.prems(3) hd turn_end_facts(2,3) [of "item_value (timer_lists k) h"]]
  obtain k1 where k1: "prvProcessExpiredTimer call (of_nat ?x) (of_nat turn_end) k = Some k1"
    "called call (replicate (calls_due k h ?x turn_end) h) k k1" "I k1" "serves codes H k1" "xLastTime k1 = xLastTime k"
    "only_timer h k k1" "served k k1 h ?x turn_end"
    "timers_rep H k1 (if auto_reload k h then arm k1 (next_due k h ?x turn_end) turn_end ?ys h else ?ys)" by blast
  have cur: "pxCurrentTimerList k1 = ?c" "pxOverflowTimerList k1 = pxOverflowTimerList k" using k1(6) by (simp_all add: only_timer_def)
  define zs where "zs = (if auto_reload k h then arm k1 (next_due k h ?x turn_end) turn_end ?ys h else ?ys)"
  have "0 < period_of k h" using Cons.prems(3) hH by (simp add: serves_def word_less_nat_alt)
  then have later: "turn_end < next_due k h ?x turn_end" by (rule next_due_later [OF _ turn_end_facts(2)])
  have "arm_list k1 (next_due k h ?x turn_end) turn_end = pxOverflowTimerList k"
    using turn_end_facts(4) [OF later] cur by (simp add: arm_list_def)
  then have zc: "zs ?c = r" using d(3) by (simp add: zs_def arm_def Let_def)
  then have zc1: "r = zs (pxCurrentTimerList k1)" using cur by simp
  from Cons.hyps(1) [OF zc1 k1(3) k1(8) [folded zs_def] k1(4)] obtain k' ys where k': "flush_timers call k1 = Some k'"
    "called call (flushed_calls k1 r) k1 k'" "I k'" "serves codes H k'" "timers_rep H k' ys" "ys ?c = []" "xLastTime k' = xLastTime k"
    "pxCurrentTimerList k' = ?c" "pxOverflowTimerList k' = pxOverflowTimerList k"
    and sv: "\<And>j. j \<in> set r \<Longrightarrow> served k1 k' j (due_at k1 j) turn_end"
    and fr: "\<And>j. j \<notin> set r \<Longrightarrow> container (timer_lists k') j = container (timer_lists k1) j \<and>
       item_value (timer_lists k') j = item_value (timer_lists k1) j \<and> timers k' j = timers k1 j"
    unfolding cur k1(5) zc by blast
  have "flush_timers call k = Some k'" using head k1(1) k'(1) turn_end_facts(1) by (subst flush_timers.simps) simp
  moreover have "called call (flushed_calls k (h # r)) k k'"
    using called_append [OF k1(2) k'(2)] flushed_calls_cong [OF k1(6) dist] by (simp add: flushed_calls_def)
  moreover have "served k k' j (due_at k j) turn_end" if "j \<in> set (h # r)" for j
  proof (cases "j = h")
    case True
    then show ?thesis using k1(7) fr [OF dist] cur k'(8,9) by (simp add: served_def armed_def split: if_splits)
  next
    case False
    then have ne: "h \<noteq> j" by simp
    have "j \<in> set r" using that False by simp
    from sv [OF this] show ?thesis by (simp only: due_cong [OF k1(6) ne])
  qed
  moreover have "container (timer_lists k') j = container (timer_lists k) j \<and>
       item_value (timer_lists k') j = item_value (timer_lists k) j \<and> timers k' j = timers k j" if "j \<notin> set (h # r)" for j
    using fr [of j] that k1(6) by (simp add: only_timer_def)
  ultimately show ?case using k'(3-9) unfolding hd by blast
qed

end

section \<open>Sampling the time\<close>

lemma timers_rep_swap:
  "timers_rep H (k\<lparr>pxCurrentTimerList := pxOverflowTimerList k, pxOverflowTimerList := pxCurrentTimerList k\<rparr>) xs = timers_rep H k xs"
  by (auto simp: timers_rep_def)

text \<open>What a timer of the list that was emptied looks like in the new turn.\<close>

definition rolled_over :: "'a tkernel_scheme \<Rightarrow> 'a tkernel_scheme \<Rightarrow> nat \<Rightarrow> bool" where
  "rolled_over k k' h \<longleftrightarrow>
     (if auto_reload k h
      then item_value (timer_lists k') h = of_nat (next_due k h (due_at k h) turn_end) \<and>
        container (timer_lists k') h = Some (pxCurrentTimerList k') \<and> timers k' h = timers k h
      else container (timer_lists k') h = None \<and> timers k' h = clear_status tmrSTATUS_IS_ACTIVE (timers k h))"

context timer_callbacks begin

lemma sample_same_turn:
  assumes "I k" and "timers_rep H k xs" and "serves codes H k" and "\<not> xTickCount k < xLastTime k"
  shows "prvSampleTimeNow call k = Some (xTickCount k, False, k\<lparr>xLastTime := xTickCount k\<rparr>)"
    and "I (k\<lparr>xLastTime := xTickCount k\<rparr>)" and "timers_rep H (k\<lparr>xLastTime := xTickCount k\<rparr>) xs"
    and "serves codes H (k\<lparr>xLastTime := xTickCount k\<rparr>)"
  using assms(2-4) own_state [OF assms(1), of "k\<lparr>xLastTime := xTickCount k\<rparr>"]
    timers_rep_cong [of "k\<lparr>xLastTime := xTickCount k\<rparr>" k H xs]
  by (simp_all add: prvSampleTimeNow_def xTaskGetTickCount_def serves_def Let_def)

lemma sample_next_turn:
  assumes "I k" and "timers_rep H k xs" and "serves codes H k" and "xTickCount k < xLastTime k"
  defines "hs \<equiv> xs (pxCurrentTimerList k)"
  shows "\<exists>k' ys. prvSampleTimeNow call k = Some (xTickCount k, True, k') \<and> called call (flushed_calls k hs) k k' \<and> I k' \<and>
    serves codes H k' \<and> timers_rep H k' ys \<and> xLastTime k' = xTickCount k \<and>
    pxCurrentTimerList k' = pxOverflowTimerList k \<and> pxOverflowTimerList k' = pxCurrentTimerList k \<and> ys (pxOverflowTimerList k') = [] \<and>
    (\<forall>h\<in>set hs. rolled_over k k' h) \<and>
    (\<forall>j. j \<notin> set hs \<longrightarrow> container (timer_lists k') j = container (timer_lists k) j \<and>
       item_value (timer_lists k') j = item_value (timer_lists k) j \<and> timers k' j = timers k j)"
proof -
  from flush [OF assms(1-3), folded hs_def] obtain k1 ys where k1: "flush_timers call k = Some k1" "called call (flushed_calls k hs) k k1"
    "I k1" "serves codes H k1" "timers_rep H k1 ys" "ys (pxCurrentTimerList k) = []" "xLastTime k1 = xLastTime k"
    "pxCurrentTimerList k1 = pxCurrentTimerList k" "pxOverflowTimerList k1 = pxOverflowTimerList k"
    and sv: "\<And>h. h \<in> set hs \<Longrightarrow> served k k1 h (due_at k h) turn_end"
    and fr: "\<And>j. j \<notin> set hs \<Longrightarrow> container (timer_lists k1) j = container (timer_lists k) j \<and>
       item_value (timer_lists k1) j = item_value (timer_lists k) j \<and> timers k1 j = timers k j" by blast
  let ?k2 = "k1\<lparr>pxCurrentTimerList := pxOverflowTimerList k1, pxOverflowTimerList := pxCurrentTimerList k1\<rparr>"
  let ?k' = "?k2\<lparr>xLastTime := xTickCount k\<rparr>"
  have "prvSampleTimeNow call k = Some (xTickCount k, True, ?k')"
    using assms(4) k1(1) by (simp add: prvSampleTimeNow_def xTaskGetTickCount_def prvSwitchTimerLists_def Let_def)
  moreover have "called call (flushed_calls k hs) k ?k'" by (rule called_post [OF k1(2)]) simp
  moreover have "I ?k'" by (rule own_state [OF k1(3)]) simp
  moreover have "timers_rep H ?k' ys" using k1(5) timers_rep_swap [of H k1 ys] timers_rep_cong [of ?k' ?k2 H ys] by simp
  moreover have "serves codes H ?k'" using k1(4) by (simp add: serves_def)
  moreover have "rolled_over k ?k' h" if h: "h \<in> set hs" for h
  proof -
    obtain ix where ix: "lists_rep (timer_lists k) {0, 1} H xs ix" by (rule timers_repE [OF assms(2)])
    have "h \<in> H" using lists_repD(4) [OF ix timers_repD(1) [OF assms(2)]] h by (auto simp: hs_def)
    then have "0 < period_of k h" using assms(3) by (simp add: serves_def word_less_nat_alt)
    then have "turn_end < next_due k h (due_at k h) turn_end" by (rule next_due_later [OF _ turn_end_facts(2)])
    from turn_end_facts(4) [OF this] sv [OF h] show ?thesis
      by (cases "auto_reload k h") (simp_all add: served_def armed_def rolled_over_def)
  qed
  ultimately show ?thesis using k1(6-9) fr by (intro exI [of _ ?k'] exI [of _ ys]) simp
qed

end

section \<open>Commands\<close>

abbreviation active :: "'a tkernel_scheme \<Rightarrow> nat \<Rightarrow> bool" where
  "active k h \<equiv> ucStatus (timers k h) AND tmrSTATUS_IS_ACTIVE \<noteq> 0"

lemma status_bits:
  fixes w :: u8
  shows "(w OR 1) AND 1 \<noteq> 0" "(w AND NOT 1) AND 1 = 0" "(w OR 1) AND 4 = w AND 4" "(w AND NOT 1) AND 4 = w AND 4"
proof -
  have "(1 :: u8) AND 4 = 0" "NOT 1 AND (4 :: u8) = 4" "NOT 1 AND (1 :: u8) = 0" by simp_all
  then show "(w OR 1) AND 4 = w AND 4" "(w AND NOT 1) AND 4 = w AND 4"
    by (simp_all only: word_ao_dist and.assoc or.right_neutral)
  show "(w AND NOT 1) AND 1 = 0" by (rule bit_word_eqI) (auto simp: bit_simps)
  have "bit ((w OR 1) AND 1) 0" by (simp add: bit_simps)
  then show "(w OR 1) AND 1 \<noteq> 0" by (metis bit_0_eq bot_apply bot_bool_def)
qed

lemma active_set_clear [simp]:
  "ucStatus (set_status 1 t) AND 1 \<noteq> 0" "ucStatus (clear_status 1 t) AND 1 = 0"
  "ucStatus (set_status 1 t) AND 4 = ucStatus t AND 4" "ucStatus (clear_status 1 t) AND 4 = ucStatus t AND 4"
  using status_bits by (simp_all add: set_status_def clear_status_def)

lemma status_rest [simp]:
  "xTimerPeriodInTicks (set_status b t) = xTimerPeriodInTicks t" "pxCallbackFunction (set_status b t) = pxCallbackFunction t"
  "xTimerPeriodInTicks (clear_status b t) = xTimerPeriodInTicks t" "pxCallbackFunction (clear_status b t) = pxCallbackFunction t"
  by (simp_all add: set_status_def clear_status_def)

lemma upd_timer_simps [simp]:
  "timers (upd_timer h f k) j = (if j = h then f (timers k j) else timers k j)" "timer_lists (upd_timer h f k) = timer_lists k"
  "pxCurrentTimerList (upd_timer h f k) = pxCurrentTimerList k" "pxOverflowTimerList (upd_timer h f k) = pxOverflowTimerList k"
  "xLastTime (upd_timer h f k) = xLastTime k" "xTickCount (upd_timer h f k) = xTickCount k"
  by (simp_all add: upd_timer_def)

lemma serves_upd:
  "serves codes H k \<Longrightarrow> xTimerPeriodInTicks (f (timers k h)) = xTimerPeriodInTicks (timers k h) \<Longrightarrow>
    pxCallbackFunction (f (timers k h)) = pxCallbackFunction (timers k h) \<Longrightarrow> serves codes H (upd_timer h f k)"
  by (simp add: serves_def)

lemma only_timer_upd: "only_timer h k k' \<Longrightarrow> only_timer h k (upd_timer h f k')"
  by (simp add: only_timer_def)

text \<open>Handling any command starts with the timer off its list and the time sampled.\<close>

definition command_base :: "nat set \<Rightarrow> 'a tkernel_scheme \<Rightarrow> nat \<Rightarrow> 'a tkernel_scheme \<Rightarrow> (nat \<Rightarrow> nat list) \<Rightarrow> bool" where
  "command_base H k h k2 ys \<longleftrightarrow> timers_rep H k2 ys \<and> container (timer_lists k2) h = None \<and> only_timer h k k2 \<and>
     same_app k k2 \<and> timers k2 = timers k \<and> xLastTime k2 = xTickCount k"

context timer_callbacks begin

lemma command_start:
  assumes "I k" and rep: "timers_rep H k xs" and sv: "serves codes H k" and turn: "\<not> xTickCount k < xLastTime k"
  obtains k1 k2 ys where "(if listLIST_ITEM_CONTAINER h (timer_lists k) \<noteq> None
       then on_timers_opt (\<lambda>s. map_option snd (uxListRemove h s)) k else Some k) = Some k1"
    and "prvSampleTimeNow call k1 = Some (xTickCount k, False, k2)" and "I k2" and "serves codes H k2" and "command_base H k h k2 ys"
proof -
  have "\<exists>k1 ys. (if listLIST_ITEM_CONTAINER h (timer_lists k) \<noteq> None
       then on_timers_opt (\<lambda>s. map_option snd (uxListRemove h s)) k else Some k) = Some k1 \<and> timers_rep H k1 ys \<and>
      container (timer_lists k1) h = None \<and> only_timer h k k1 \<and> (\<exists>s. k1 = k\<lparr>timer_lists := s\<rparr>)"
  proof (cases "container (timer_lists k) h")
    case None
    then show ?thesis using rep by (intro exI [of _ k] exI [of _ xs]) (auto simp: listLIST_ITEM_CONTAINER_def intro: exI [of _ "timer_lists k"])
  next
    case (Some l)
    obtain s where s: "on_timers_opt (\<lambda>s. map_option snd (uxListRemove h s)) k = Some (k\<lparr>timer_lists := s\<rparr>)"
      "timers_rep H (k\<lparr>timer_lists := s\<rparr>) (xs(l := remove1 h (xs l)))" "only_timer h k (k\<lparr>timer_lists := s\<rparr>)" "container s h = None"
      by (rule unlist_timer [OF rep Some]) (rule that)
    then show ?thesis using Some by (intro exI [of _ "k\<lparr>timer_lists := s\<rparr>"] exI [of _ "xs(l := remove1 h (xs l))"])
        (auto simp: listLIST_ITEM_CONTAINER_def)
  qed
  then obtain k1 ys s where k1: "(if listLIST_ITEM_CONTAINER h (timer_lists k) \<noteq> None
       then on_timers_opt (\<lambda>s. map_option snd (uxListRemove h s)) k else Some k) = Some k1" "timers_rep H k1 ys"
      "container (timer_lists k1) h = None" "only_timer h k k1" "k1 = k\<lparr>timer_lists := s\<rparr>" by blast
  have a: "I k1" "serves codes H k1" "\<not> xTickCount k1 < xLastTime k1"
    using own_state [OF assms(1), of k1] sv turn k1(5) by (simp_all add: serves_def)
  note sm = sample_same_turn [OF a(1) k1(2) a(2,3)]
  have "xTickCount k1 = xTickCount k" using k1(5) by simp
  then show thesis
    using that [OF k1(1) _ sm(2,4), of ys] sm(1,3) k1(3,4,5) by (simp add: command_base_def only_timer_def)
qed

end

context timer_callbacks begin

text \<open>A timer is started, or started again, for the time one period after the command was given.\<close>

lemma start_command:
  assumes "I k" and "timers_rep H k xs" and "serves codes H k" and h: "h \<in> H" "h \<noteq> 0"
    and cmd: "cmd \<in> {tmrCOMMAND_START, tmrCOMMAND_START_FROM_ISR, tmrCOMMAND_RESET, tmrCOMMAND_RESET_FROM_ISR}"
    and t: "xTickCount k = of_nat n" "c \<le> n" "n - c < 2 ^ 32" "\<not> xTickCount k < xLastTime k"
  defines "e \<equiv> c + period_of k h"
  shows "\<exists>k' ys hs. process_command call L cmd (of_nat c) h k = Some k' \<and> called call hs k k' \<and> I k' \<and> serves codes H k' \<and>
    timers_rep H k' ys \<and> only_timer h k k' \<and>
    (if n < e then hs = [] \<and> armed k' h e n \<and> active k' h
     else hs = replicate (calls_due k h e n) h \<and>
       (if auto_reload k h then armed k' h (next_due k h e n) n \<and> active k' h
        else container (timer_lists k') h = None \<and> \<not> active k' h))"
proof -
  obtain k1 k2 ys where k1: "(if listLIST_ITEM_CONTAINER h (timer_lists k) \<noteq> None
       then on_timers_opt (\<lambda>s. map_option snd (uxListRemove h s)) k else Some k) = Some k1"
    "prvSampleTimeNow call k1 = Some (xTickCount k, False, k2)" "I k2" "serves codes H k2" "command_base H k h k2 ys"
    by (rule command_start [OF assms(1-3) t(4), of h]) (rule that)
  have b: "timers_rep H k2 ys" "container (timer_lists k2) h = None" "only_timer h k k2" "same_app k k2" "timers k2 = timers k"
    using k1(5) by (simp_all add: command_base_def)
  let ?k3 = "upd_timer h (set_status tmrSTATUS_IS_ACTIVE) k2"
  have r3: "timers_rep H ?k3 ys" using b(1) timers_rep_cong [of ?k3 k2 H ys] by simp
  have i3: "I ?k3" by (rule own_state [OF k1(3)]) simp
  have s3: "serves codes H ?k3" using k1(4) by (simp add: serves_def)
  have o3: "only_timer h k ?k3" by (rule only_timer_upd [OF b(3)])
  have c3: "container (timer_lists ?k3) h = None" using b(2) by simp
  have p3: "period_of ?k3 h = period_of k h" "auto_reload ?k3 h = auto_reload k h" using b(5) by (simp_all add: auto_reload_def)
  define p where "p = xTimerPeriodInTicks (timers ?k3 h)"
  have p: "0 < p" using k1(4) h(1) by (simp add: serves_def p_def)
  have pu: "unat p = period_of k h" unfolding p_def by (rule p3(1))
  have now: "xTickCount k = of_nat n" by (rule t(1))
  note ins = insert_active [OF r3 h(1) c3 t(2,3) p_def p]
  have pc: "process_command call L cmd (of_nat c) h k =
      (do { (expired, k4) \<leftarrow> prvInsertTimerInActiveList h (of_nat c + p) (of_nat n) (of_nat c) ?k3;
          if expired then do {
            k5 \<leftarrow> (if ucStatus (timers k4 h) AND tmrSTATUS_IS_AUTORELOAD \<noteq> 0
                   then prvReloadTimer call h (of_nat c + xTimerPeriodInTicks (timers k4 h)) (of_nat n) k4
                   else Some (upd_timer h (clear_status tmrSTATUS_IS_ACTIVE) k4));
            call_timer call h k5
          }
          else Some k4 })"
    using h(2) cmd k1(2) unfolding process_command_def k1(1) now p_def Let_def by simp
  show ?thesis
  proof (cases "n < e")
    case True
    then have lt: "n < c + unat p" by (simp add: e_def pu)
    from ins(2) [OF lt] obtain s where s: "prvInsertTimerInActiveList h (of_nat c + p) (of_nat n) (of_nat c) ?k3 = Some (False, ?k3\<lparr>timer_lists := s\<rparr>)"
      "timers_rep H (?k3\<lparr>timer_lists := s\<rparr>) (arm (?k3\<lparr>timer_lists := s\<rparr>) (c + unat p) n ys h)"
      "only_timer h ?k3 (?k3\<lparr>timer_lists := s\<rparr>)" "armed (?k3\<lparr>timer_lists := s\<rparr>) h (c + unat p) n" by blast
    let ?k' = "?k3\<lparr>timer_lists := s\<rparr>"
    have "process_command call L cmd (of_nat c) h k = Some ?k'" using pc s(1) by simp
    moreover have "called call [] k ?k'" using b(4) by (intro called.none) simp
    moreover have "I ?k'" by (rule own_state [OF i3]) simp
    moreover have "serves codes H ?k'" using s3 by (simp add: serves_def)
    moreover have "only_timer h k ?k'" by (rule only_timer_trans [OF o3 s(3)])
    moreover have "armed ?k' h e n" using s(4) by (simp add: e_def pu)
    moreover have "active ?k' h" using b(5) by simp
    ultimately show ?thesis using True s(2) by (intro exI [of _ ?k'] exI conjI) auto
  next
    case False
    then have le: "c + unat p \<le> n" "c + unat p = e" by (simp_all add: e_def pu)
    from ins(1) [OF le(1)] obtain s where s: "prvInsertTimerInActiveList h (of_nat c + p) (of_nat n) (of_nat c) ?k3 = Some (True, ?k3\<lparr>timer_lists := s\<rparr>)"
      "timers_rep H (?k3\<lparr>timer_lists := s\<rparr>) ys" "only_timer h ?k3 (?k3\<lparr>timer_lists := s\<rparr>)" "container s h = None" by blast
    let ?k4 = "?k3\<lparr>timer_lists := s\<rparr>"
    have i4: "I ?k4" by (rule own_state [OF i3]) simp
    have s4: "serves codes H ?k4" using s3 by (simp add: serves_def)
    have o4: "only_timer h k ?k4" by (rule only_timer_trans [OF o3 s(3)])
    have a4: "auto_reload ?k4 h = auto_reload k h" "next_due ?k4 h e n = next_due k h e n" "period_of ?k4 h = period_of k h"
      using p3 by (simp_all add: auto_reload_def next_due_def)
    have e4: "of_nat c + xTimerPeriodInTicks (timers ?k4 h) = of_nat e" using le(2) [symmetric] by (simp add: p_def)
    show ?thesis
    proof (cases "auto_reload k h")
      case True
      have c4: "container (timer_lists ?k4) h = None" and en: "e \<le> n" "n - e < 2 ^ 32" using s(4) le t(3) by simp_all
      from reload [OF i4 s(2) s4 h(1) c4 en] obtain k5 where k5: "prvReloadTimer call h (of_nat e) (of_nat n) ?k4 = Some k5"
        "called call (replicate ((n - e) div period_of k h) h) ?k4 k5" "I k5" "timers k5 = timers ?k4" "only_timer h ?k4 k5"
        "armed k5 h (next_due k h e n) n" "timers_rep H k5 (arm k5 (next_due k h e n) n ys h)" unfolding a4 by blast
      have s5: "serves codes H k5" using s4 serves_cong [of k5 ?k4] k5(4) by simp
      have c5: "called call (replicate ((n - e) div period_of k h) h) k k5" using called_pre [OF k5(2)] b(4) by simp
      obtain k' where k': "call_timer call h k5 = Some k'" "called call (replicate ((n - e) div period_of k h) h @ [h]) k k'" "I k'"
        "timers_rep H k' (arm k5 (next_due k h e n) n ys h)" "serves codes H k'" "only_timer h k k'" "same_timers k5 k'"
        by (rule final_call [OF k5(3,7) s5 h(1) c5 only_timer_trans [OF o4 k5(5)]]) (rule that)
      have st: "timer_lists k' = timer_lists k5" "pxCurrentTimerList k' = pxCurrentTimerList k5"
        "pxOverflowTimerList k' = pxOverflowTimerList k5" "timers k' = timers ?k4" using k'(7) k5(4) by (simp_all add: same_timers_def)
      have "process_command call L cmd (of_nat c) h k = Some k'"
        using pc s(1) k5(1) k'(1) True b(5) unfolding e4 [symmetric] by (simp add: auto_reload_def)
      moreover have "replicate (calls_due k h e n) h = replicate ((n - e) div period_of k h) h @ [h]"
        using True by (simp add: calls_due_def replicate_append_same)
      moreover have "armed k' h (next_due k h e n) n" using k5(6) armed_cong [OF st(1-3)] by simp
      moreover have "active k' h" using st(4) by simp
      ultimately show ?thesis using True False k'(2-6) by (intro exI [of _ k'] exI conjI) auto
    next
      case off: False
      let ?k5 = "upd_timer h (clear_status tmrSTATUS_IS_ACTIVE) ?k4"
      have i5: "I ?k5" by (rule own_state [OF i4]) simp
      have s5: "serves codes H ?k5" by (rule serves_upd [OF s4]) simp_all
      have r5: "timers_rep H ?k5 ys" using s(2) timers_rep_cong [of ?k5 ?k4 H ys] by simp
      have c5: "called call [] k ?k5" using b(4) by (intro called.none) simp
      obtain k' where k': "call_timer call h ?k5 = Some k'" "called call ([] @ [h]) k k'" "I k'" "timers_rep H k' ys"
        "serves codes H k'" "only_timer h k k'" "same_timers ?k5 k'"
        by (rule final_call [OF i5 r5 s5 h(1) c5 only_timer_upd [OF o4]]) (rule that)
      have "process_command call L cmd (of_nat c) h k = Some k'"
        using pc s(1) k'(1) off b(5) by (simp add: auto_reload_def)
      moreover have "container (timer_lists k') h = None" "\<not> active k' h" using k'(7) s(4) by (simp_all add: same_timers_def)
      ultimately show ?thesis using off False k'(2-6) by (intro exI [of _ k'] exI conjI) (auto simp: calls_due_def)
    qed
  qed
qed

end

context timer_callbacks begin

text \<open>A timer is stopped: off the lists and not active, whatever it was before.\<close>

lemma stop_command:
  assumes "I k" and "timers_rep H k xs" and "serves codes H k" and "h \<noteq> 0"
    and cmd: "cmd \<in> {tmrCOMMAND_STOP, tmrCOMMAND_STOP_FROM_ISR}" and "\<not> xTickCount k < xLastTime k"
  shows "\<exists>k' ys. process_command call L cmd v h k = Some k' \<and> called call [] k k' \<and> I k' \<and> serves codes H k' \<and>
    timers_rep H k' ys \<and> only_timer h k k' \<and> container (timer_lists k') h = None \<and> \<not> active k' h"
proof -
  obtain k1 k2 ys where k1: "(if listLIST_ITEM_CONTAINER h (timer_lists k) \<noteq> None
       then on_timers_opt (\<lambda>s. map_option snd (uxListRemove h s)) k else Some k) = Some k1"
    "prvSampleTimeNow call k1 = Some (xTickCount k, False, k2)" "I k2" "serves codes H k2" "command_base H k h k2 ys"
    by (rule command_start [OF assms(1-3,6), of h]) (rule that)
  have b: "timers_rep H k2 ys" "container (timer_lists k2) h = None" "only_timer h k k2" "same_app k k2"
    using k1(5) by (simp_all add: command_base_def)
  let ?k' = "upd_timer h (clear_status tmrSTATUS_IS_ACTIVE) k2"
  have "process_command call L cmd v h k = Some ?k'"
    using assms(4) cmd k1(2) unfolding process_command_def k1(1) Let_def by auto
  moreover have "called call [] k ?k'" using b(4) by (intro called.none) simp
  moreover have "I ?k'" by (rule own_state [OF k1(3)]) simp
  moreover have "serves codes H ?k'" by (rule serves_upd [OF k1(4)]) simp_all
  moreover have "timers_rep H ?k' ys" using b(1) timers_rep_cong [of ?k' k2 H ys] by simp
  moreover have "only_timer h k ?k'" by (rule only_timer_upd [OF b(3)])
  ultimately show ?thesis using b(2) by (intro exI [of _ ?k'] exI [of _ ys]) simp
qed

text \<open>A new period \<open>p\<close>, not zero, counts from the time the daemon handles the command.\<close>

lemma period_command:
  assumes "I k" and "timers_rep H k xs" and "serves codes H k" and h: "h \<in> H" "h \<noteq> 0"
    and cmd: "cmd \<in> {tmrCOMMAND_CHANGE_PERIOD, tmrCOMMAND_CHANGE_PERIOD_FROM_ISR}"
    and t: "xTickCount k = of_nat n" "\<not> xTickCount k < xLastTime k" and p: "0 < p"
  shows "\<exists>k' ys. process_command call L cmd p h k = Some k' \<and> called call [] k k' \<and> I k' \<and> serves codes H k' \<and>
    timers_rep H k' ys \<and> only_timer h k k' \<and> armed k' h (n + unat p) n \<and> active k' h \<and> xTimerPeriodInTicks (timers k' h) = p"
proof -
  obtain k1 k2 ys where k1: "(if listLIST_ITEM_CONTAINER h (timer_lists k) \<noteq> None
       then on_timers_opt (\<lambda>s. map_option snd (uxListRemove h s)) k else Some k) = Some k1"
    "prvSampleTimeNow call k1 = Some (xTickCount k, False, k2)" "I k2" "serves codes H k2" "command_base H k h k2 ys"
    by (rule command_start [OF assms(1-3) t(2), of h]) (rule that)
  have b: "timers_rep H k2 ys" "container (timer_lists k2) h = None" "only_timer h k k2" "same_app k k2"
    using k1(5) by (simp_all add: command_base_def)
  let ?k3 = "upd_timer h (xTimerPeriodInTicks_update (\<lambda>_. p)) (upd_timer h (set_status tmrSTATUS_IS_ACTIVE) k2)"
  have r3: "timers_rep H ?k3 ys" using b(1) timers_rep_cong [of ?k3 k2 H ys] by simp
  have i3: "I ?k3" by (rule own_state [OF k1(3)]) simp
  have s3: "serves codes H ?k3" using k1(4) p by (auto simp: serves_def)
  have o3: "only_timer h k ?k3" by (intro only_timer_upd b(3))
  have c3: "container (timer_lists ?k3) h = None" using b(2) by simp
  have p3: "p = xTimerPeriodInTicks (timers ?k3 h)" by simp
  have lt: "n < n + unat p" using p by (simp add: word_less_nat_alt)
  have nn: "n \<le> n" "n - n < 2 ^ 32" by simp_all
  from insert_active(2) [OF r3 h(1) c3 nn p3 p lt] obtain s where
    s: "prvInsertTimerInActiveList h (of_nat n + p) (of_nat n) (of_nat n) ?k3 = Some (False, ?k3\<lparr>timer_lists := s\<rparr>)"
      "timers_rep H (?k3\<lparr>timer_lists := s\<rparr>) (arm (?k3\<lparr>timer_lists := s\<rparr>) (n + unat p) n ys h)"
      "only_timer h ?k3 (?k3\<lparr>timer_lists := s\<rparr>)" "armed (?k3\<lparr>timer_lists := s\<rparr>) h (n + unat p) n" by blast
  let ?k' = "?k3\<lparr>timer_lists := s\<rparr>"
  have "process_command call L cmd p h k = Some ?k'"
    using h(2) cmd k1(2) s(1) p unfolding process_command_def k1(1) Let_def t(1) by auto
  moreover have "called call [] k ?k'" using b(4) by (intro called.none) simp
  moreover have "I ?k'" by (rule own_state [OF i3]) simp
  moreover have "serves codes H ?k'" using s3 by (simp add: serves_def)
  moreover have "only_timer h k ?k'" by (rule only_timer_trans [OF o3 s(3)])
  moreover have "active ?k' h" "xTimerPeriodInTicks (timers ?k' h) = p" by simp_all
  ultimately show ?thesis using s(2,4) by (intro exI [of _ ?k'] exI conjI) assumption+
qed

end

end
