(* ===== verification/Rtos_Test_Inv.thy ===== *)
theory Rtos_Test_Inv
  imports Rtos_Test Rtos_Timer_Serve Rtos_Queue_Steps
begin

text \<open>
  The callbacks of the application keep the contract of the timer daemon: they post to the print queue and to the daemon's queue without
  waiting, and leave the timers themselves alone.
\<close>

section \<open>Posting without waiting\<close>

lemma kernel_ok_own [simp]:
  "kernel_ok D T (k\<lparr>timer_lists := s\<rparr>) = kernel_ok D T (k :: 'a tkernel_scheme)"
  "kernel_ok D T (k\<lparr>timers := t\<rparr>) = kernel_ok D T (k :: 'a tkernel_scheme)"
  "kernel_ok D T (k\<lparr>pxCurrentTimerList := a\<rparr>) = kernel_ok D T (k :: 'a tkernel_scheme)"
  "kernel_ok D T (k\<lparr>pxOverflowTimerList := a\<rparr>) = kernel_ok D T (k :: 'a tkernel_scheme)"
  "kernel_ok D T (k\<lparr>xLastTime := x\<rparr>) = kernel_ok D T (k :: 'a tkernel_scheme)"
  "kernel_ok D T (k\<lparr>xTimerQueue := q\<rparr>) = kernel_ok D T (k :: 'a tkernel_scheme)"
  by (simp_all add: kernel_ok_def kcore_def sched_def on_time_def waits_ok_def idle_ready_def ready_def stack_intact_def
      no_pending_def top_runs_def)

lemma kernel_ok_count [simp]:
  "kernel_ok D T (k\<lparr>periodic_count := n\<rparr>) = kernel_ok D T (k :: 'a test_kernel_scheme)"
  "kernel_ok D T (k\<lparr>g_print_queue := q\<rparr>) = kernel_ok D T (k :: 'a test_kernel_scheme)"
  by (simp_all add: kernel_ok_def kcore_def sched_def on_time_def waits_ok_def idle_ready_def ready_def stack_intact_def
      no_pending_def top_runs_def)

lemma more_fields:
  assumes "qkernel.more k' = qkernel.more k"
  shows "same_timers k k'" "xTimerQueue k' = xTimerQueue k" "tkernel.more k' = tkernel.more k"
  using assms by (cases k; cases k'; simp add: same_timers_def)+

lemma more_test_fields:
  assumes "qkernel.more k' = qkernel.more k"
  shows "g_print_queue k' = g_print_queue k" "periodic_count k' = periodic_count k"
  using assms by (cases k; cases k'; simp)+

lemma only_queue_other: "only_queue q k k' \<Longrightarrow> j \<noteq> q \<Longrightarrow> kernel_ok D T k' \<Longrightarrow> all_ok D T k j \<Longrightarrow> all_ok D T k' j"
  by (simp add: only_queue_def all_ok_def queue_ok_def)

lemma only_queue_buffer: "only_queue q k k' \<Longrightarrow> buffer_ok T k' j a = buffer_ok T k j a"
  by (cases "j = q") (auto simp: only_queue_def buffer_ok_def)

text \<open>The bytes \<open>bs\<close> at \<open>loc\<close>, a local variable of the caller, are posted: at the back of the queue if there is room, and not otherwise.\<close>

lemma post_bytes:
  fixes k :: "'a qkernel_scheme"
  assumes ok: "all_ok D T k q" and b: "buffer_ok T k q loc" and l: "length bs = item_size (queues k q)" and z: "loc \<noteq> 0"
  defines "room \<equiv> length (items k q) < capacity (queues k q)"
  shows "\<exists>k'. xQueueGenericSend env q loc 0 queueSEND_TO_BACK (k\<lparr>k_mem := store_bytes loc bs (k_mem k)\<rparr>) = Some (room, k') \<and>
    all_ok D T k' q \<and> only_queue q k k' \<and> items k' q = (if room then items k q @ [bs] else items k q)"
proof -
  let ?m = "store_bytes loc bs (k_mem k)" and ?Q = "queues k q"
  let ?k1 = "k\<lparr>k_mem := ?m\<rparr>"
  have kq: "kernel_ok D T k" "queue_ok D T k q" using ok by (simp_all add: all_ok_def)
  have ring: "ring_ok ?Q" by (rule queue_okD(2) [OF kq(2)])
  note d = ring_okD [OF ring]
  have "load_bytes ?m (pxStack (tcbs k t)) 16 = load_bytes (k_mem k) (pxStack (tcbs k t)) 16" if "t \<in> T" for t
    using b kq(2) that l by (intro load_store_apart) (simp_all add: buffer_ok_def queue_ok_def)
  then have k1: "kernel_ok D T ?k1" by (rule kernel_ok_mem [OF kq(1)])
  have ok1: "all_ok D T ?k1 q" using k1 kq(2) by (simp add: all_ok_def queue_ok_def)
  have off: "load_bytes ?m (slot ?Q j) (item_size ?Q) = load_bytes (k_mem k) (slot ?Q j) (item_size ?Q)" if "j < capacity ?Q" for j
    using b l that by (intro store_off_ring [OF ring]) (simp_all add: buffer_ok_def)
  have i1: "items ?k1 q = items k q" using off d(1) by (simp add: contents_def)
  have x: "load_bytes ?m loc (item_size ?Q) = bs"
    using load_store_bytes [of bs loc "k_mem k"] l unat_u32_less [of "uxItemSize ?Q"] by simp
  have un: "xQueueGenericSend env q loc 0 queueSEND_TO_BACK ?k1 = send_loop env q loc queueSEND_TO_BACK 0 None ?k1"
    using queue_okD(1) [OF kq(2)] z by (simp add: xQueueGenericSend_def)
  have o1: "only_queue q k k'" if "only_queue q ?k1 k'" for k' using that by (simp add: only_queue_def)
  show ?thesis
  proof (cases room)
    case True
    then have "has_room queueSEND_TO_BACK (queues ?k1 q)" by (simp add: room_def has_room_def word_less_nat_alt)
    from send_now [OF ok1 this, of loc 0 None] obtain k' where k': "send_try q loc queueSEND_TO_BACK 0 None ?k1 = Some (Returns True, k')"
      "all_ok D T k' q" "items k' q = items k q @ [bs]" "only_queue q ?k1 k'" using i1 x by auto
    have "send_loop env q loc queueSEND_TO_BACK 0 None ?k1 = Some (True, k')" using k'(1) by (subst send_loop.simps) simp
    then show ?thesis unfolding un using True k'(2,3) o1 [OF k'(4)] by auto
  next
    case False
    then have "\<not> uxMessagesWaiting ?Q < uxLength ?Q" by (simp add: room_def word_less_nat_alt)
    then have "send_try q loc queueSEND_TO_BACK 0 None ?k1 = Some (Returns False, ?k1)" by (simp add: send_try_def)
    then have "send_loop env q loc queueSEND_TO_BACK 0 None ?k1 = Some (False, ?k1)" by (subst send_loop.simps) simp
    then show ?thesis unfolding un using False ok1 i1 o1 [of ?k1] by (auto simp: only_queue_def)
  qed
qed

section \<open>The contract\<close>

text \<open>
  Both queues are in order, with the callbacks' local variable \<open>loc\<close> and the message \<open>msg\<close> away from the storage of the queue they are posted to.
\<close>

definition test_ok :: "nat set \<Rightarrow> nat set \<Rightarrow> u32 \<Rightarrow> u32 \<Rightarrow> 'a test_kernel_scheme \<Rightarrow> bool" where
  "test_ok D T loc msg k \<longleftrightarrow> all_ok D T k (g_print_queue k) \<and> all_ok D T k (xTimerQueue k) \<and> g_print_queue k \<noteq> xTimerQueue k \<and>
     uxItemSize (queues k (g_print_queue k)) = 4 \<and> uxItemSize (queues k (xTimerQueue k)) = 12 \<and>
     buffer_ok T k (g_print_queue k) loc \<and> buffer_ok T k (xTimerQueue k) msg \<and> loc \<noteq> 0 \<and> msg \<noteq> 0"

lemma test_ok_own:
  assumes "test_ok D T loc msg k" and "same_app k k'"
  shows "test_ok D T loc msg k'"
proof -
  have e: "k = k'\<lparr>timer_lists := timer_lists k, timers := timers k, pxCurrentTimerList := pxCurrentTimerList k,
     pxOverflowTimerList := pxOverflowTimerList k, xLastTime := xLastTime k\<rparr>" (is "k = ?k") using assms(2) by (simp add: same_app_def)
  have "test_ok D T loc msg ?k" using assms(1) e by simp
  moreover have "test_ok D T loc msg ?k = test_ok D T loc msg k'" by (simp add: test_ok_def all_ok_def queue_ok_def buffer_ok_def)
  ultimately show ?thesis by (simp only:)
qed

lemma test_ok_only_queue:
  assumes t: "test_ok D T loc msg k" and "only_queue q k k'" and "all_ok D T k' q" and "q \<in> {g_print_queue k, xTimerQueue k}"
  shows "test_ok D T loc msg k'" and "same_timers k k'" and "periodic_count k' = periodic_count k" and "g_print_queue k' = g_print_queue k"
    and "xTimerQueue k' = xTimerQueue k"
proof -
  have m: "qkernel.more k' = qkernel.more k" using assms(2) by (simp add: only_queue_def)
  note f = more_fields [OF m] and g = more_test_fields [OF m]
  show "same_timers k k'" "periodic_count k' = periodic_count k" "g_print_queue k' = g_print_queue k" "xTimerQueue k' = xTimerQueue k"
    by (rule f g)+
  have o: "all_ok D T k' j" if "all_ok D T k j" for j
    using only_queue_other [OF assms(2) _ _ that] assms(3) by (cases "j = q") (auto simp: all_ok_def)
  have sz: "uxItemSize (queues k' j) = uxItemSize (queues k j)" for j using assms(2) by (cases "j = q") (simp_all add: only_queue_def)
  show "test_ok D T loc msg k'"
    using t o sz only_queue_buffer [OF assms(2)] unfolding test_ok_def f(2) g(1) by simp
qed

lemma queue_print_runs:
  assumes t: "test_ok D T loc msg k"
  defines "q \<equiv> g_print_queue k"
  shows "\<exists>k'. queue_print env lit loc message 0 k = Some (length (items k q) < capacity (queues k q), k') \<and> test_ok D T loc msg k' \<and>
    same_timers k k' \<and> periodic_count k' = periodic_count k \<and> g_print_queue k' = q \<and> xTimerQueue k' = xTimerQueue k \<and> only_queue q k k' \<and>
    items k' q = (if length (items k q) < capacity (queues k q) then items k q @ [le32 (lit message)] else items k q)"
proof -
  have h: "all_ok D T k q" "buffer_ok T k q loc" "length (le32 (lit message)) = item_size (queues k q)" "loc \<noteq> 0"
    using t by (simp_all add: test_ok_def q_def)
  obtain k' where k': "xQueueGenericSend env q loc 0 queueSEND_TO_BACK (k\<lparr>k_mem := store_bytes loc (le32 (lit message)) (k_mem k)\<rparr>) =
      Some (length (items k q) < capacity (queues k q), k')" "all_ok D T k' q" "only_queue q k k'"
    "items k' q = (if length (items k q) < capacity (queues k q) then items k q @ [le32 (lit message)] else items k q)"
    using post_bytes [OF h, of env] by blast
  note r = test_ok_only_queue [OF t k'(3,2)]
  show ?thesis using k' r by (intro exI [of _ k']) (simp add: queue_print_def q_def)
qed

lemma timer_stop_runs:
  assumes t: "test_ok D T loc msg k"
  defines "q \<equiv> xTimerQueue k"
  shows "\<exists>b k'. xTimerStop env msg h 0 k = Some (b, k') \<and> test_ok D T loc msg k' \<and> same_timers k k' \<and> periodic_count k' = periodic_count k"
proof (cases "h = 0")
  case True
  then show ?thesis using t by (intro exI [of _ False] exI [of _ k]) (simp add: xTimerStop_def xTimerGenericCommandFromTask_def same_timers_def)
next
  case False
  let ?bs = "message_bytes tmrCOMMAND_STOP 0 h"
  have h: "all_ok D T k q" "buffer_ok T k q msg" "length ?bs = item_size (queues k q)" "msg \<noteq> 0"
    using t by (simp_all add: test_ok_def q_def message_bytes_def)
  have q: "q \<noteq> 0" using h(1) by (auto simp: all_ok_def queue_ok_def)
  obtain b k' where k': "xQueueGenericSend env q msg 0 queueSEND_TO_BACK (k\<lparr>k_mem := store_bytes msg ?bs (k_mem k)\<rparr>) = Some (b, k')"
    "all_ok D T k' q" "only_queue q k k'"
    using post_bytes [OF h, of env] by blast
  note r = test_ok_only_queue [OF t k'(3,2)]
  have "xTimerStop env msg h 0 k = Some (b, k')"
    using k'(1) q False by (simp add: xTimerStop_def xTimerGenericCommandFromTask_def Let_def q_def)
  then show ?thesis using r by (simp add: q_def)
qed

lemma same_timers_trans: "same_timers k k1 \<Longrightarrow> same_timers k1 k2 \<Longrightarrow> same_timers k k2"
  by (simp add: same_timers_def)

lemma test_ok_count [simp]: "test_ok D T loc msg (k\<lparr>periodic_count := n\<rparr>) = test_ok D T loc msg k"
  by (simp add: test_ok_def all_ok_def queue_ok_def buffer_ok_def)

lemma oneshot_runs:
  assumes "test_ok D T loc msg k"
  shows "\<exists>k'. timer_oneshot_cb lit loc h k = Some k' \<and> test_ok D T loc msg k' \<and> same_timers k k'"
  using queue_print_runs [OF assms, of Some lit "''[Timer] one-shot fired (300 ms)''"] by (auto simp: timer_oneshot_cb_def)

lemma ex_some_if:
  "(c \<Longrightarrow> \<exists>r. x = Some r \<and> Q r) \<Longrightarrow> (\<not> c \<Longrightarrow> \<exists>r. y = Some r \<and> Q r) \<Longrightarrow> \<exists>r. (if c then x else y) = Some r \<and> Q r"
  by (cases c) simp_all

lemma periodic_runs:
  assumes t: "test_ok D T loc msg k"
  shows "\<exists>k'. timer_periodic_cb lit loc msg h k = Some k' \<and> test_ok D T loc msg k' \<and> same_timers k k' \<and>
    periodic_count k' = periodic_count k + 1"
proof -
  let ?k1 = "k\<lparr>periodic_count := periodic_count k + 1\<rparr>"
  have t1: "test_ok D T loc msg ?k1" using t by simp
  have s1: "same_timers k ?k1" by (simp add: same_timers_def)
  have say: "\<exists>k'. map_option snd (queue_print Some lit loc m 0 k2) = Some k' \<and> test_ok D T loc msg k' \<and> same_timers k k' \<and>
      periodic_count k' = periodic_count k + 1"
    if "test_ok D T loc msg k2" "same_timers k k2" "periodic_count k2 = periodic_count k + 1" for m k2
    using queue_print_runs [OF that(1), of Some lit m] that(2,3) by (auto intro: same_timers_trans)
  have say1: "\<exists>k'. map_option snd (queue_print Some lit loc m 0 ?k1) = Some k' \<and> test_ok D T loc msg k' \<and> same_timers k k' \<and>
      periodic_count k' = periodic_count k + 1" for m by (rule say [OF t1 s1]) simp
  have quiet: "\<exists>k'. Some ?k1 = Some k' \<and> test_ok D T loc msg k' \<and> same_timers k k' \<and> periodic_count k' = periodic_count k + 1"
    using t1 s1 by simp
  have "\<exists>k2. (if periodic_count ?k1 = 1 then map_option snd (queue_print Some lit loc ''[Timer] periodic tick 1 (350 ms)'' 0 ?k1)
               else if periodic_count ?k1 = 2 then map_option snd (queue_print Some lit loc ''[Timer] periodic tick 2 (350 ms)'' 0 ?k1)
               else if periodic_count ?k1 = 3 then map_option snd (queue_print Some lit loc ''[Timer] periodic tick 3 (350 ms)'' 0 ?k1)
               else Some ?k1) = Some k2 \<and> test_ok D T loc msg k2 \<and> same_timers k k2 \<and> periodic_count k2 = periodic_count k + 1"
    by (intro ex_some_if say1 quiet)
  then obtain k2 where k2: "(if periodic_count ?k1 = 1 then map_option snd (queue_print Some lit loc ''[Timer] periodic tick 1 (350 ms)'' 0 ?k1)
               else if periodic_count ?k1 = 2 then map_option snd (queue_print Some lit loc ''[Timer] periodic tick 2 (350 ms)'' 0 ?k1)
               else if periodic_count ?k1 = 3 then map_option snd (queue_print Some lit loc ''[Timer] periodic tick 3 (350 ms)'' 0 ?k1)
               else Some ?k1) = Some k2" "test_ok D T loc msg k2" "same_timers k k2" "periodic_count k2 = periodic_count k + 1" by blast
  show ?thesis
  proof (cases "3 \<le> periodic_count k2")
    case True
    obtain k3 where k3: "map_option snd (queue_print Some lit loc ''[Timer] periodic stopping after 3 ticks.'' 0 k2) = Some k3"
      "test_ok D T loc msg k3" "same_timers k k3" "periodic_count k3 = periodic_count k + 1"
      using say [OF k2(2-4)] by blast
    obtain b k4 where k4: "xTimerStop Some msg h 0 k3 = Some (b, k4)" "test_ok D T loc msg k4" "same_timers k3 k4"
      "periodic_count k4 = periodic_count k3" using timer_stop_runs [OF k3(2), of Some h] by blast
    have "timer_periodic_cb lit loc msg h k = Some k4"
      unfolding timer_periodic_cb_def Let_def k2(1) using True k4(1) by (auto simp: k3(1) simp del: option.map_sel)
    then show ?thesis using k4(2,4) k3(4) same_timers_trans [OF k3(3) k4(3)] by auto
  next
    case False
    have "timer_periodic_cb lit loc msg h k = Some k2"
      unfolding timer_periodic_cb_def Let_def k2(1) using False by simp
    then show ?thesis using k2(2-4) by blast
  qed
qed

interpretation test: timer_callbacks "test_callback lit oneshot periodic loc msg" "{oneshot, periodic}" "test_ok D T loc msg"
  for lit oneshot periodic loc msg D T
proof unfold_locales
  fix k k' :: "'a test_kernel_scheme"
  show "test_ok D T loc msg k \<Longrightarrow> same_app k k' \<Longrightarrow> test_ok D T loc msg k'" by (rule test_ok_own)
  fix f h
  assume "test_ok D T loc msg k" and "f \<in> {oneshot, periodic}"
  then show "\<exists>k'. test_callback lit oneshot periodic loc msg f h k = Some k' \<and> test_ok D T loc msg k' \<and> same_timers k k'"
    using oneshot_runs periodic_runs by (fastforce simp: test_callback_def)
qed

end
