(* ===== verification/Rtos_Timer_Demo.thy ===== *)
theory Rtos_Timer_Demo
  imports Rtos_Test_Inv Rtos_Queue_Props
begin

text \<open>
  A concrete system with the application's queues and two timers, for the witnesses: the scheduler's demo system with the print queue
  (handle 1), the daemon's queue (handle 2, eight messages of twelve bytes at 0x1800), a one-shot timer 3 of
  300 ticks and a periodic timer 5 of 350 ticks.
\<close>

lemma extend_fields:
  "lists (qkernel.extend k m) = lists k" "tcbs (qkernel.extend k m) = tcbs k" "k_mem (qkernel.extend k m) = k_mem k"
  "pxCurrentTCB (qkernel.extend k m) = pxCurrentTCB k" "pxDelayedTaskList (qkernel.extend k m) = pxDelayedTaskList k"
  "pxOverflowDelayedTaskList (qkernel.extend k m) = pxOverflowDelayedTaskList k"
  "uxDeletedTasksWaitingCleanUp (qkernel.extend k m) = uxDeletedTasksWaitingCleanUp k"
  "uxCurrentNumberOfTasks (qkernel.extend k m) = uxCurrentNumberOfTasks k" "xTickCount (qkernel.extend k m) = xTickCount k"
  "uxTopReadyPriority (qkernel.extend k m) = uxTopReadyPriority k" "xSchedulerRunning (qkernel.extend k m) = xSchedulerRunning k"
  "xPendedTicks (qkernel.extend k m) = xPendedTicks k" "xYieldPending (qkernel.extend k m) = xYieldPending k"
  "xNumOfOverflows (qkernel.extend k m) = xNumOfOverflows k" "xNextTaskUnblockTime (qkernel.extend k m) = xNextTaskUnblockTime k"
  "uxSchedulerSuspended (qkernel.extend k m) = uxSchedulerSuspended k" "xIdleTaskHandle (qkernel.extend k m) = xIdleTaskHandle k"
  "queues (qkernel.extend k m) = queues k"
  by (simp_all add: qkernel.defs)

lemma all_ok_extend: "all_ok D T (qkernel.extend k m) q = all_ok D T k q"
  by (simp add: all_ok_def queue_ok_def kernel_ok_def kcore_def sched_def on_time_def waits_ok_def idle_ready_def ready_def
      stack_intact_def no_pending_def top_runs_def extend_fields)

text \<open>The second queue.\<close>

definition demo_queues :: qkernel where
  "demo_queues = the (prvInitialiseNewQueue 8 12 0x1800 2 demo_queue)"

abbreviation demo_lists2 :: "nat set" where "demo_lists2 \<equiv> insert 14 (insert 13 demo_lists)"

lemma demo_queues_fields: "queues demo_queues 1 = queues demo_queue 1" "tcbs demo_queues = tcbs demo_vars" "k_mem demo_queues = k_mem demo_vars"
  "pcHead (queues demo_queues 2) = 0x1800" "xTickCount demo_queues = 0" "xSchedulerRunning demo_queues" "uxSchedulerSuspended demo_queues = 0"
  by (simp_all add: demo_queues_def prvInitialiseNewQueue_def xQueueGenericReset_def Let_def upd_queue_def on_lists_def demo_queue_fields)

lemma demo_queues_ok: "all_ok demo_lists2 {1, 2, 3} demo_queues 1" "all_ok demo_lists2 {1, 2, 3} demo_queues 2"
  "items demo_queues 1 = []" "items demo_queues 2 = []" "uxLength (queues demo_queues 1) = 2" "uxLength (queues demo_queues 2) = 8"
  "uxItemSize (queues demo_queues 1) = 4" "uxItemSize (queues demo_queues 2) = 12"
proof -
  have l: "insert (xTasksWaitingToReceive 2) (insert (xTasksWaitingToSend 2) demo_lists) = demo_lists2"
    by (simp add: xTasksWaitingToSend_def xTasksWaitingToReceive_def)
  have off: "off_stacks {1, 2, 3} demo_queue 0x1800 (unat (8 :: u32) * unat (12 :: u32))"
    by (simp add: off_stacks_def apart_def demo_queue_fields demo_vars_def)
  have k: "kernel_ok demo_lists {1, 2, 3} demo_queue" "queue_ok demo_lists {1, 2, 3} demo_queue 1"
    using demo_queue_ok(1) by (simp_all add: all_ok_def)
  have "\<exists>k'. prvInitialiseNewQueue 8 12 0x1800 2 demo_queue = Some k' \<and> kernel_ok demo_lists2 {1, 2, 3} k' \<and>
      queue_ok demo_lists2 {1, 2, 3} k' 2 \<and> items k' 2 = [] \<and> unlocked k' 2 \<and> uxLength (queues k' 2) = 8 \<and>
      uxItemSize (queues k' 2) = 12 \<and> list_empty k' (xTasksWaitingToReceive 2) \<and> list_empty k' (xTasksWaitingToSend 2)"
    unfolding l [symmetric]
    by (rule new_queue_ok [OF k(1) _ _ _ _ _ _ _ off]) (simp_all add: xTasksWaitingToSend_def xTasksWaitingToReceive_def)
  then have q: "kernel_ok demo_lists2 {1, 2, 3} demo_queues" "queue_ok demo_lists2 {1, 2, 3} demo_queues 2" "items demo_queues 2 = []"
    "uxLength (queues demo_queues 2) = 8" "uxItemSize (queues demo_queues 2) = 12" by (auto simp: demo_queues_def)
  have "queue_ok demo_lists2 {1, 2, 3} demo_queues 1"
    using k(2) demo_queues_fields(1) by (simp add: queue_ok_def demo_queues_fields(2) demo_queue_fields(1))
  with q show "all_ok demo_lists2 {1, 2, 3} demo_queues 1" "all_ok demo_lists2 {1, 2, 3} demo_queues 2" "items demo_queues 2 = []"
    "uxLength (queues demo_queues 2) = 8" "uxItemSize (queues demo_queues 2) = 12" by (simp_all add: all_ok_def)
  show "items demo_queues 1 = []" "uxLength (queues demo_queues 1) = 2" "uxItemSize (queues demo_queues 1) = 4"
    using demo_queue_ok(2,4,5) unfolding demo_queues_fields(1,3) by (simp_all add: demo_queue_fields)
qed

section \<open>The timers\<close>

definition demo_timer :: "nat \<Rightarrow> timer" where
  "demo_timer h = (if h = 5
     then \<lparr>pcTimerName = 0, xTimerPeriodInTicks = 350, pvTimerID = 0, pxCallbackFunction = 0x200, ucStatus = 4\<rparr>
     else \<lparr>pcTimerName = 0, xTimerPeriodInTicks = 300, pvTimerID = 0, pxCallbackFunction = 0x100, ucStatus = 0\<rparr>)"

definition demo_test :: test_kernel where
  "demo_test = tkernel.extend (qkernel.extend demo_queues (tkernel.fields
      (vListInitialise 1 (vListInitialise 0 (lists demo_vars))) demo_timer 0 1 2 0 0)) (test_kernel.fields 1 0)"

lemma demo_test_fields: "timers demo_test = demo_timer" "pxCurrentTimerList demo_test = 0" "pxOverflowTimerList demo_test = 1"
  "xTimerQueue demo_test = 2" "g_print_queue demo_test = 1" "xLastTime demo_test = 0" "xTickCount demo_test = 0" "periodic_count demo_test = 0"
  "queues demo_test = queues demo_queues" "tcbs demo_test = tcbs demo_vars" "k_mem demo_test = k_mem demo_vars"
  "timer_lists demo_test = vListInitialise 1 (vListInitialise 0 (lists demo_vars))"
  by (simp_all add: demo_test_def tkernel.defs test_kernel.defs qkernel.defs demo_queues_fields)

lemma demo_test_ok: "test_ok demo_lists2 {1, 2, 3} 0x3000 0x3100 demo_test"
proof -
  obtain m where m: "demo_test = qkernel.extend demo_queues m"
    by (rule that [of "qkernel.more demo_test"]) (simp add: demo_test_def tkernel.defs test_kernel.defs qkernel.defs)
  have "all_ok demo_lists2 {1, 2, 3} demo_test 1" "all_ok demo_lists2 {1, 2, 3} demo_test 2"
    unfolding m all_ok_extend by (rule demo_queues_ok)+
  then show ?thesis
    using demo_queues_ok(5-8) by (simp del: One_nat_def add: test_ok_def demo_test_fields buffer_ok_def apart_def demo_queues_fields demo_queue_fields demo_vars_def)
qed

lemma demo_timers_rep: "timers_rep {3, 5} demo_test (\<lambda>_. [])"
proof -
  have "lists_rep (lists demo_vars) {} {3, 5} (\<lambda>_. []) (\<lambda>_. None)" by (simp add: lists_rep_def demo_vars_def)
  from lists_rep_new_list(1) [OF lists_rep_new_list(1) [OF this]]
  have "lists_rep (timer_lists demo_test) {0, 1} {3, 5} (\<lambda>_. []) (\<lambda>_. None)"
    by (simp add: demo_test_fields insert_commute fun_upd_idem)
  then show ?thesis by (auto simp: timers_rep_def demo_test_fields)
qed

lemma demo_serves: "serves {0x100, 0x200} {3, 5} demo_test"
  by (simp add: serves_def demo_test_fields demo_timer_def)

abbreviation demo_callback :: "u32 \<Rightarrow> nat \<Rightarrow> test_kernel \<Rightarrow> test_kernel option" where
  "demo_callback \<equiv> test_callback (\<lambda>_. 0x4000) 0x100 0x200 0x3000 0x3100"

end
