(* ===== verification/Rtos_Timer_Props.thy ===== *)
theory Rtos_Timer_Props
  imports Rtos_Timer_Demo
begin

text \<open>
  The properties of the software timers and of the port: insertion, expiry, the turn of the tick counter, commands and their
  passage through the daemon's queue, the first tick and the hooks' console. They are stated for the application's callbacks and follow from
  the contract of \<open>timer_callbacks\<close>.
\<close>

section \<open>Insertion\<close>

text \<open>
  C11: Timer insertion is exact. Given a command time and a present time of an unbounded clock, less than a turn of the 32-bit tick counter
  apart, \<open>prvInsertTimerInActiveList\<close> reports a timer as expired exactly when its period has passed; otherwise the timer is on the
  current list when it is due in the present turn of the counter and on the overflow list when it is due in the
  next one, both lists are sorted and no other timer has moved.
\<close>

theorem timer_insert_exact:
  fixes k :: "'a tkernel_scheme"
  assumes "timers_rep H k xs" and "h \<in> H" and "container (timer_lists k) h = None" and "c \<le> n" and "n - c < 2 ^ 32"
    and "0 < xTimerPeriodInTicks (timers k h)"
  defines "p \<equiv> xTimerPeriodInTicks (timers k h)"
  shows "\<exists>expired k' ys. prvInsertTimerInActiveList h (of_nat c + p) (of_nat n) (of_nat c) k = Some (expired, k') \<and>
    (expired \<longleftrightarrow> c + unat p \<le> n) \<and> timers_rep H k' ys \<and> only_timer h k k' \<and>
    (expired \<longrightarrow> container (timer_lists k') h = None) \<and> (\<not> expired \<longrightarrow> armed k' h (c + unat p) n)"
proof -
  have p: "p = xTimerPeriodInTicks (timers k h)" "0 < p" using assms(6) by (simp_all add: p_def)
  note ins = insert_active [OF assms(1-5) p]
  show ?thesis
  proof (cases "c + unat p \<le> n")
    case True
    from ins(1) [OF True] True show ?thesis by (intro exI [of _ True]) auto
  next
    case False
    then have "n < c + unat p" by simp
    from ins(2) [OF this] this show ?thesis by (intro exI [of _ False]) auto
  qed
qed

text \<open>The timers of the concrete system on its lists: the periodic one is due at 350, the one-shot one at 300.\<close>

lemma demo_insert:
  assumes "h \<in> {3, 5}"
  defines "p \<equiv> xTimerPeriodInTicks (demo_timer h)"
  obtains s where "prvInsertTimerInActiveList h (of_nat 0 + p) (of_nat 0) (of_nat 0) demo_test = Some (False, demo_test\<lparr>timer_lists := s\<rparr>)"
    and "timers_rep {3, 5} (demo_test\<lparr>timer_lists := s\<rparr>) (\<lambda>l. if l = 0 then [h] else [])"
    and "only_timer h demo_test (demo_test\<lparr>timer_lists := s\<rparr>)" and "item_value s h = p"
proof -
  have c: "container (timer_lists demo_test) h = None" by (simp add: demo_test_fields vListInitialise_def demo_vars_def)
  have p: "p = xTimerPeriodInTicks (timers demo_test h)" "0 < p" "unat p < 2 ^ 32" by (simp_all add: p_def demo_test_fields demo_timer_def)
  have lt: "0 < 0 + unat p" using p(2) by (simp add: word_less_nat_alt)
  from insert_active(2) [OF demo_timers_rep assms(1) c _ _ p(1,2) lt] obtain s where
    s: "prvInsertTimerInActiveList h (of_nat 0 + p) (of_nat 0) (of_nat 0) demo_test = Some (False, demo_test\<lparr>timer_lists := s\<rparr>)"
      "timers_rep {3, 5} (demo_test\<lparr>timer_lists := s\<rparr>) (arm (demo_test\<lparr>timer_lists := s\<rparr>) (0 + unat p) 0 (\<lambda>_. []) h)"
      "only_timer h demo_test (demo_test\<lparr>timer_lists := s\<rparr>)" "armed (demo_test\<lparr>timer_lists := s\<rparr>) h (0 + unat p) 0" by auto
  have "arm (demo_test\<lparr>timer_lists := s\<rparr>) (0 + unat p) 0 (\<lambda>_. []) h = (\<lambda>l. if l = 0 then [h] else [])"
    using p(3) by (simp add: arm_def arm_list_def demo_test_fields ains_def fun_eq_iff)
  moreover have "item_value s h = p" using s(4) by (simp add: armed_def)
  ultimately show thesis using that s(1-3) by simp
qed

lemma timer_insert_exact_witness:
  "\<exists>k'. prvInsertTimerInActiveList 3 300 0 0 demo_test = Some (False, k') \<and> armed k' 3 300 0 \<and>
    (\<exists>k'. prvInsertTimerInActiveList 3 300 300 0 demo_test = Some (True, k'))"
proof -
  have c: "container (timer_lists demo_test) 3 = None" by (simp add: demo_test_fields vListInitialise_def demo_vars_def)
  have p: "xTimerPeriodInTicks (timers demo_test 3) = 300" by (simp add: demo_test_fields demo_timer_def)
  from timer_insert_exact [OF demo_timers_rep _ c, where c = 0 and n = 0] timer_insert_exact [OF demo_timers_rep _ c, where c = 0 and n = 300]
  show ?thesis by (auto simp: p)
qed

section \<open>Expiry\<close>

text \<open>
  C9: An expired timer is served exactly. When the first timer of the current list was due at \<open>x\<close> and is served at \<open>n\<close>, less than a turn later,
  \<open>prvProcessExpiredTimer\<close> returns, having called the callback of this timer only: once for a one-shot timer, and once for every
  period boundary in \<open>x..n\<close> for a periodic one, however late the daemon is. The periodic timer is then armed for the first boundary after
  \<open>n\<close>, the one-shot timer is off the lists and not active, and no other timer has moved.
\<close>

theorem expired_timer_served:
  fixes k :: "'a test_kernel_scheme" and lit :: "string \<Rightarrow> u32"
  assumes "test_ok D T loc msg k" and "timers_rep H k xs" and "serves {oneshot, periodic} H k"
    and "xs (pxCurrentTimerList k) = h # r" and "x \<le> n" and "n - x < 2 ^ 32"
  defines "call \<equiv> test_callback lit oneshot periodic loc msg"
  shows "\<exists>k' ys. prvProcessExpiredTimer call (of_nat x) (of_nat n) k = Some k' \<and> called call (replicate (calls_due k h x n) h) k k' \<and>
    served k k' h x n \<and> only_timer h k k' \<and> timers_rep H k' ys \<and> test_ok D T loc msg k'"
  using test.expired [OF assms(1-6), of lit] unfolding call_def by blast

lemma expired_timer_served_witness:
  "\<exists>(k :: test_kernel) k'. prvProcessExpiredTimer demo_callback 350 1000 k = Some k' \<and> called demo_callback [5, 5] k k' \<and> armed k' 5 1050 1000"
proof -
  obtain s where s: "timers_rep {3, 5} (demo_test\<lparr>timer_lists := s\<rparr>) (\<lambda>l. if l = 0 then [5] else [])"
    by (rule demo_insert [of 5]) simp_all
  let ?k = "demo_test\<lparr>timer_lists := s\<rparr>"
  have t: "test_ok demo_lists2 {1, 2, 3} 0x3000 0x3100 ?k" by (rule test_ok_own [OF demo_test_ok]) simp
  have sv: "serves {0x100, 0x200} {3, 5} ?k" using demo_serves by (simp add: serves_def)
  have xs: "(\<lambda>l. if l = 0 then [5 :: nat] else []) (pxCurrentTimerList ?k) = 5 # []" by (simp add: demo_test_fields)
  have r: "auto_reload ?k 5" by (simp add: auto_reload_def demo_test_fields demo_timer_def)
  have p: "period_of ?k 5 = 350" by (simp add: demo_test_fields demo_timer_def)
  have d: "calls_due ?k 5 350 1000 = 2" "next_due ?k 5 350 1000 = 1050" using r p by (simp_all add: calls_due_def next_due_def)
  have two: "replicate 2 (5 :: nat) = [5, 5]" by (simp add: numeral_2_eq_2)
  from expired_timer_served [OF t s sv xs, of 350 1000 "\<lambda>_. 0x4000"] show ?thesis
    using r by (auto simp: d two served_def)
qed

section \<open>The turn of the tick counter\<close>

text \<open>
  C10: The wrap of the tick counter. When the daemon finds the tick counter below the last time it saw, \<open>prvSampleTimeNow\<close> terminates, having
  called exactly the callbacks due in the turn that ended, list order first and every period boundary of that turn for the periodic timers; every periodic
  timer is then armed for its first boundary of the new turn on what is now the current list, the one-shot timers are off, the timers of the new turn keep
  their places and times, and the list for the turn after is empty.
\<close>

theorem tick_wrap_serves_all:
  fixes k :: "'a test_kernel_scheme" and lit :: "string \<Rightarrow> u32"
  assumes "test_ok D T loc msg k" and "timers_rep H k xs" and "serves {oneshot, periodic} H k" and "xTickCount k < xLastTime k"
  defines "call \<equiv> test_callback lit oneshot periodic loc msg" and "hs \<equiv> xs (pxCurrentTimerList k)"
  shows "\<exists>k' ys. prvSampleTimeNow call k = Some (xTickCount k, True, k') \<and> called call (flushed_calls k hs) k k' \<and>
    test_ok D T loc msg k' \<and> timers_rep H k' ys \<and> pxCurrentTimerList k' = pxOverflowTimerList k \<and> ys (pxOverflowTimerList k') = [] \<and>
    (\<forall>h\<in>set hs. rolled_over k k' h) \<and>
    (\<forall>j. j \<notin> set hs \<longrightarrow> container (timer_lists k') j = container (timer_lists k) j \<and>
       item_value (timer_lists k') j = item_value (timer_lists k) j \<and> timers k' j = timers k j)"
  using test.sample_next_turn [OF assms(1-4), of lit] unfolding call_def hs_def by blast

lemma tick_wrap_serves_all_witness:
  "\<exists>(k :: test_kernel) k'. prvSampleTimeNow demo_callback k = Some (0, True, k') \<and> called demo_callback [3] k k' \<and> container (timer_lists k') 3 = None"
proof -
  obtain s where s: "timers_rep {3, 5} (demo_test\<lparr>timer_lists := s\<rparr>) (\<lambda>l. if l = 0 then [3] else [])"
    by (rule demo_insert [of 3]) simp_all
  let ?k = "demo_test\<lparr>timer_lists := s, xLastTime := 7\<rparr>"
  have t: "test_ok demo_lists2 {1, 2, 3} 0x3000 0x3100 ?k" by (rule test_ok_own [OF demo_test_ok]) simp
  have sv: "serves {0x100, 0x200} {3, 5} ?k" using demo_serves by (simp add: serves_def)
  have rep: "timers_rep {3, 5} ?k (\<lambda>l. if l = 0 then [3] else [])"
    using s timers_rep_cong [of ?k "demo_test\<lparr>timer_lists := s\<rparr>"] by simp
  have r: "\<not> auto_reload ?k 3" by (simp add: auto_reload_def demo_test_fields demo_timer_def)
  have one: "flushed_calls ?k [3] = [3]" using r by (simp add: flushed_calls_def calls_due_def)
  from tick_wrap_serves_all [OF t rep sv, of "\<lambda>_. 0x4000"] show ?thesis
    using r one by (auto simp: demo_test_fields rolled_over_def)
qed

section \<open>Commands\<close>

text \<open>
  Starting a timer. Handling a start or reset command given at \<open>c\<close> at the time \<open>n\<close>, less than a turn later, arms the timer for one period after the command
  and calls nothing when that time is to come. When it has passed, the callback runs at once, for a periodic timer once for every boundary
  missed; the periodic timer is then armed for the next boundary, the one-shot timer is off and not active.
\<close>

theorem timer_start_command:
  fixes k :: "'a test_kernel_scheme" and lit :: "string \<Rightarrow> u32" and L :: layout
  assumes "test_ok D T loc msg k" and "timers_rep H k xs" and "serves {oneshot, periodic} H k" and "h \<in> H" and "h \<noteq> 0"
    and "cmd \<in> {tmrCOMMAND_START, tmrCOMMAND_START_FROM_ISR, tmrCOMMAND_RESET, tmrCOMMAND_RESET_FROM_ISR}"
    and "xTickCount k = of_nat n" and "c \<le> n" and "n - c < 2 ^ 32" and "\<not> xTickCount k < xLastTime k"
  defines "e \<equiv> c + period_of k h" and "call \<equiv> test_callback lit oneshot periodic loc msg"
  shows "\<exists>k' ys hs. process_command call L cmd (of_nat c) h k = Some k' \<and> called call hs k k' \<and> test_ok D T loc msg k' \<and>
    timers_rep H k' ys \<and> only_timer h k k' \<and>
    (if n < e then hs = [] \<and> armed k' h e n \<and> active k' h
     else hs = replicate (calls_due k h e n) h \<and>
       (if auto_reload k h then armed k' h (next_due k h e n) n \<and> active k' h
        else container (timer_lists k') h = None \<and> \<not> active k' h))"
  using test.start_command [OF assms(1-10), of lit L] unfolding e_def call_def by blast

lemma timer_start_command_witness:
  "\<forall>L. \<exists>k'. process_command demo_callback L 1 0 3 demo_test = Some k' \<and> armed k' 3 300 0 \<and> active k' 3"
proof
  fix L
  have p: "period_of demo_test 3 = 300" by (simp add: demo_test_fields demo_timer_def)
  from timer_start_command [OF demo_test_ok demo_timers_rep demo_serves, of 3 1 0 0 "\<lambda>_. 0x4000" L]
  show "\<exists>k'. process_command demo_callback L 1 0 3 demo_test = Some k' \<and> armed k' 3 300 0 \<and> active k' 3"
    unfolding p by (auto simp: demo_test_fields)
qed

text \<open>
  Stopping a timer and changing its period. A stop command takes the timer off its list and makes it inactive, whatever it was before; a change of period arms it
  for one new period after the time the command is handled, with the new period in force. Neither calls a callback or moves another timer.
\<close>

theorem timer_stop_and_period:
  fixes k :: "'a test_kernel_scheme" and lit :: "string \<Rightarrow> u32" and L :: layout
  assumes "test_ok D T loc msg k" and "timers_rep H k xs" and "serves {oneshot, periodic} H k" and "h \<in> H" and "h \<noteq> 0"
    and "xTickCount k = of_nat n" and "\<not> xTickCount k < xLastTime k" and "0 < p"
  defines "call \<equiv> test_callback lit oneshot periodic loc msg"
  shows "(\<exists>k' ys. process_command call L tmrCOMMAND_STOP v h k = Some k' \<and> called call [] k k' \<and> timers_rep H k' ys \<and>
      only_timer h k k' \<and> container (timer_lists k') h = None \<and> \<not> active k' h) \<and>
    (\<exists>k' ys. process_command call L tmrCOMMAND_CHANGE_PERIOD p h k = Some k' \<and> called call [] k k' \<and> timers_rep H k' ys \<and>
      only_timer h k k' \<and> armed k' h (n + unat p) n \<and> active k' h \<and> xTimerPeriodInTicks (timers k' h) = p)"
  using test.stop_command [OF assms(1-3,5) _ assms(7), of tmrCOMMAND_STOP lit L v]
    test.period_command [OF assms(1-5) _ assms(6-8), of tmrCOMMAND_CHANGE_PERIOD lit L] unfolding call_def by blast

lemma timer_stop_and_period_witness:
  "\<forall>L. \<exists>k'. process_command demo_callback L tmrCOMMAND_CHANGE_PERIOD 25 3 demo_test = Some k' \<and> armed k' 3 25 0 \<and> active k' 3"
proof
  fix L
  show "\<exists>k'. process_command demo_callback L tmrCOMMAND_CHANGE_PERIOD 25 3 demo_test = Some k' \<and> armed k' 3 25 0 \<and> active k' 3"
    using timer_stop_and_period [OF demo_test_ok demo_timers_rep demo_serves, of 3 0 25 "\<lambda>_. 0x4000" L 0]
    by (auto simp: demo_test_fields)
qed

section \<open>Messages\<close>

lemma read_message_bytes:
  assumes "load_bytes m a 12 = message_bytes cmd v h" and "h < 2 ^ 32"
  shows "read_message m a = (cmd, v, h)"
proof -
  have "rd32 (message_bytes cmd v h) 0 = cmd" using rd32_le32 [of "[]" 0 cmd "le32 v @ le32 (of_nat h)"] by (simp add: message_bytes_def)
  moreover have "rd32 (message_bytes cmd v h) 4 = v" using rd32_le32 [of "le32 cmd" 4 v "le32 (of_nat h)"] by (simp add: message_bytes_def)
  moreover have "rd32 (message_bytes cmd v h) 8 = of_nat h"
    using rd32_le32 [of "le32 cmd @ le32 v" 8 "of_nat h" "[]"] by (simp add: message_bytes_def)
  ultimately show ?thesis using assms by (simp add: read_message_def Let_def unat_of_nat_u32)
qed

text \<open>
  C13: Timer commands arrive as they were given. A command sent by a task without waiting is at the back of the daemon's queue when there is room, and refused otherwise. When the
  queue was empty, what the daemon then receives into its buffer reads as the same command, value and timer, and the queue is
  empty again.
\<close>

theorem timer_command_roundtrip:
  fixes k :: "'a tkernel_scheme"
  assumes "all_ok D T k (xTimerQueue k)" and "buffer_ok T k (xTimerQueue k) msg" and "buffer_ok T k (xTimerQueue k) buf"
    and "uxItemSize (queues k (xTimerQueue k)) = sizeof_DaemonTaskMessage" and "msg \<noteq> 0" and "buf \<noteq> 0" and "h \<noteq> 0" and "h < 2 ^ 32"
    and "cmd <s tmrFIRST_FROM_ISR_COMMAND"
  defines "q \<equiv> xTimerQueue k" and "room \<equiv> length (items k (xTimerQueue k)) < capacity (queues k (xTimerQueue k))"
  shows "\<exists>k1. xTimerGenericCommandFromTask env msg h cmd v 0 k = Some (room, k1) \<and> all_ok D T k1 q \<and>
    items k1 q = (if room then items k q @ [message_bytes cmd v h] else items k q) \<and>
    (items k q = [] \<longrightarrow> (\<exists>k2. xQueueReceive env q buf tmrNO_DELAY k1 = Some (True, k2) \<and>
       read_message (k_mem k2) buf = (cmd, v, h) \<and> all_ok D T k2 q \<and> items k2 q = []))"
proof -
  have l: "length (message_bytes cmd v h) = item_size (queues k q)" using assms(4) by (simp add: message_bytes_def q_def)
  have ok: "all_ok D T k q" "buffer_ok T k q msg" "buffer_ok T k q buf" using assms(1-3) by (simp_all add: q_def)
  have q: "q \<noteq> 0" "0 < capacity (queues k q)"
    using ok(1) ring_okD(1) [of "queues k q"] by (auto simp: all_ok_def queue_ok_def)
  obtain k1 where k1: "xQueueGenericSend env q msg 0 queueSEND_TO_BACK (k\<lparr>k_mem := store_bytes msg (message_bytes cmd v h) (k_mem k)\<rparr>) = Some (room, k1)"
    "all_ok D T k1 q" "only_queue q k k1" "items k1 q = (if room then items k q @ [message_bytes cmd v h] else items k q)"
    using post_bytes [OF ok(1,2) l assms(5), of env] unfolding room_def q_def by blast
  have "xTimerGenericCommandFromTask env msg h cmd v 0 k = Some (room, k1)"
    using k1(1) q(1) assms(7,9) by (simp add: xTimerGenericCommandFromTask_def Let_def q_def)
  moreover have "\<exists>k2. xQueueReceive env q buf tmrNO_DELAY k1 = Some (True, k2) \<and> read_message (k_mem k2) buf = (cmd, v, h) \<and>
      all_ok D T k2 q \<and> items k2 q = []" if e: "items k q = []"
  proof -
    have room: room using e q(2) by (simp add: room_def q_def)
    then have i1: "items k1 q = [message_bytes cmd v h]" using k1(4) e by simp
    have b1: "buffer_ok T k1 q buf" using ok(3) only_queue_buffer [OF k1(3)] by simp
    have s1: "item_size (queues k1 q) = 12" using k1(3) assms(4) by (simp add: only_queue_def q_def)
    obtain k2 where k2: "receive_try q buf tmrNO_DELAY None k1 = Some (Returns True, k2)" "all_ok D T k2 q" "items k2 q = []"
      "load_bytes (k_mem k2) buf 12 = message_bytes cmd v h"
      using receive_now [OF k1(2) b1, of tmrNO_DELAY None] i1 s1 by auto
    have "xQueueReceive env q buf tmrNO_DELAY k1 = Some (True, k2)"
      using receive_loop_now [of "receive_try q buf", OF k2(1)] q(1) assms(6) by (simp add: xQueueReceive_def)
    then show ?thesis using k2(2,3) read_message_bytes [OF k2(4) assms(8)] by blast
  qed
  ultimately show ?thesis using k1(2,4) by blast
qed

lemma timer_command_roundtrip_witness:
  "\<exists>k1 k2. xTimerGenericCommandFromTask Some 0x3100 3 tmrCOMMAND_STOP 0 0 demo_test = Some (True, k1) \<and>
    xQueueReceive Some 2 0x3200 tmrNO_DELAY k1 = Some (True, k2) \<and> read_message (k_mem k2) 0x3200 = (tmrCOMMAND_STOP, 0, 3)"
proof -
  have q: "xTimerQueue demo_test = 2" by (simp add: demo_test_fields)
  have b: "buffer_ok {1, 2, 3} demo_test (xTimerQueue demo_test) 0x3200"
    by (simp add: q buffer_ok_def apart_def demo_test_fields demo_queues_fields demo_queues_ok demo_vars_def)
  have t: "all_ok demo_lists2 {1, 2, 3} demo_test (xTimerQueue demo_test)" "buffer_ok {1, 2, 3} demo_test (xTimerQueue demo_test) 0x3100"
    "uxItemSize (queues demo_test (xTimerQueue demo_test)) = 12" using demo_test_ok by (simp_all add: test_ok_def)
  have i: "items demo_test 2 = []" using demo_queues_ok(4) by (simp add: demo_test_fields demo_queues_fields)
  have c: "capacity (queues demo_test 2) = 8" by (simp add: demo_test_fields demo_queues_ok)
  from timer_command_roundtrip [OF t(1,2) b t(3), of 3 tmrCOMMAND_STOP Some 0] show ?thesis
    unfolding q i c by auto
qed

section \<open>The port\<close>

text \<open>
  C37: The first tick. On the SoC's machine timer, whatever time the processor takes between its accesses to the bus (less than 2^29 cycles,
  almost 20 seconds), \<open>vPortSetupTimerInterrupt\<close> returns, also when the low half of the counter wraps between its reads, and whichever half of
  the compare register the compiler stores first. The compare register is one tick (27000 cycles, 1 ms) after a time
  within the call, so the timer's interrupt is not pending before that time and is pending from it on, and the
  next compare value is one tick later.
\<close>

theorem first_tick:
  assumes "s_cyc (fst (port_dev p)) < 2 ^ 63" and "\<forall>i. w i < 2 ^ 29"
  shows "\<exists>p' t. vPortSetupTimerInterrupt low_first (slow_bus w) 0 p = Some p' \<and>
    s_cyc (fst (port_dev p)) < t \<and> t \<le> s_cyc (fst (port_dev p')) \<and> ullNextTime p' = of_nat (t + 2 * 27000) \<and>
    (\<forall>s. s_cmp s = s_cmp (fst (port_dev p')) \<and> s_cyc s < 2 ^ 64 \<longrightarrow> (timer_irq s \<longleftrightarrow> t + 27000 \<le> s_cyc s))"
proof -
  from slow_setup [where w = w and lf = low_first, OF _ assms(1)] assms(2) obtain p' t where
    p': "vPortSetupTimerInterrupt low_first (slow_bus w) 0 p = Some p'"
    "s_cyc (fst (port_dev p)) < t" "t \<le> s_cyc (fst (port_dev p'))" "t < s_cyc (fst (port_dev p)) + 2 ^ 32"
    "s_cmp (fst (port_dev p')) = of_nat (t + 27000)" "ullNextTime p' = of_nat (t + 54000)" by blast
  have u: "unat (of_nat n :: u64) = n" if "n < 2 ^ 64" for n using that by (simp add: unat_of_nat)
  have "t + 27000 < 2 ^ 64" using p'(4) assms(1) by simp
  then have "timer_irq s \<longleftrightarrow> t + 27000 \<le> s_cyc s" if "s_cmp s = s_cmp (fst (port_dev p'))" "s_cyc s < 2 ^ 64" for s
    using that u p'(5) unfolding timer_irq_def word_le_nat_alt by (simp del: of_nat_add)
  then show ?thesis using p' by (intro exI [of _ p'] exI [of _ t]) simp
qed

text \<open>The processor takes 100 cycles between accesses, and the low half of the counter is about to wrap.\<close>

lemma first_tick_witness:
  "\<exists>p' t. vPortSetupTimerInterrupt False (slow_bus (\<lambda>_. 100)) 0
      \<lparr>ullNextTime = 0, pullMachineTimerCompareRegister = 0, mie = 0, port_dev = ((soc_reset [])\<lparr>s_cyc := 4294967190\<rparr>, 0)\<rparr> = Some p' \<and>
    4294967190 < t \<and> ullNextTime p' = of_nat (t + 54000)"
  using first_tick [of "\<lparr>ullNextTime = 0, pullMachineTimerCompareRegister = 0, mie = 0,
      port_dev = ((soc_reset [])\<lparr>s_cyc := 4294967190\<rparr>, 0 :: nat)\<rparr>" "\<lambda>_. 100" False] by auto

text \<open>
  The hooks' console agrees with the formatted output of \<open>print.c\<close>. On the SoC, \<open>uart_puthex\<close> of the hooks returns, having transmitted 0x and then exactly the digits
  \<open>print_hex\<close> passes to \<open>putchar\<close>; \<open>uart_puts\<close> transmits the bytes of its string in order.
\<close>

theorem hook_console_equiv:
  "(\<exists>s'. uart_puthex soc_bus v s = Some s' \<and> s_sent s' = s_sent s @ cstr ''0x'' @ print_hex v) \<and>
   (\<exists>s'. uart_puts soc_bus cs s = Some s' \<and> s_sent s' = s_sent s @ print_string cs)"
  using soc_puthex soc_puts_sends by (simp add: print_string_def)

end
