(* ===== verification/Rv_Divider.thy ===== *)
theory Rv_Divider
  imports Melon_Prelude "HOL-Library.Signed_Division"
begin

text \<open>
  The divider of the processor, \<open>rtl/util/divider.sv\<close>: a restoring divider that produces one
  quotient bit per clock cycle. Its registers are the record \<open>divider\<close>, its ports the record
  \<open>div_in\<close>, one clock edge is \<open>divider_clock\<close>. \<open>divider_result\<close>: whatever happens on the other
  inputs, 32 cycles after the start the result registers hold what the RISC-V manual asks of
  DIV, DIVU, REM and REMU; a division by zero answers after the first cycle.
\<close>

section \<open>Registers and ports\<close>

record divider =
  dv_dividend :: u32
  dv_divisor :: "63 word"
  dv_quotient :: u32
  dv_msk :: u32
  dv_sign :: bool
  dv_busy :: bool
  dv_q :: u32
  dv_r :: u32
  dv_valid :: bool

record div_in =
  di_start :: bool
  di_flush :: bool
  di_dividend :: u32
  di_divisor :: u32
  di_signed :: bool
  di_rem :: bool

definition divider_reset :: divider where
  "divider_reset = \<lparr>dv_dividend = 0, dv_divisor = 0, dv_quotient = 0, dv_msk = 0,
     dv_sign = False, dv_busy = False, dv_q = 0, dv_r = 0, dv_valid = False\<rparr>"

section \<open>One clock edge\<close>

definition div_step_do :: "divider \<Rightarrow> bool" where
  "div_step_do s \<longleftrightarrow> dv_divisor s \<le> ucast (dv_dividend s)"

definition div_abs :: "bool \<Rightarrow> u32 \<Rightarrow> u32" where
  "div_abs sg x = (if sg \<and> bit x 31 then - x else x)"

definition divider_flush :: "div_in \<Rightarrow> divider \<Rightarrow> divider" where
  "divider_flush i s =
     (if di_flush i then s\<lparr>dv_busy := False, dv_valid := False\<rparr>
      else if dv_valid s \<and> \<not> di_start i then s\<lparr>dv_valid := False\<rparr>
      else s)"

definition divider_start :: "div_in \<Rightarrow> divider \<Rightarrow> divider" where
  "divider_start i s =
     (if di_divisor i = 0
      then s\<lparr>dv_q := 0xFFFFFFFF, dv_r := di_dividend i, dv_valid := True, dv_busy := False\<rparr>
      else s\<lparr>dv_msk := push_bit 31 1, dv_busy := True,
             dv_dividend := div_abs (di_signed i) (di_dividend i),
             dv_divisor := push_bit 31 (ucast (div_abs (di_signed i) (di_divisor i))),
             dv_quotient := 0,
             dv_sign := (di_signed i \<and>
               (if di_rem i then bit (di_dividend i) 31
                else bit (di_dividend i) 31 \<noteq> bit (di_divisor i) 31 \<and> di_divisor i \<noteq> 0))\<rparr>)"

definition div_next_r :: "divider \<Rightarrow> u32" where
  "div_next_r s =
     (if div_step_do s then dv_dividend s - ucast (dv_divisor s) else dv_dividend s)"

definition div_sg :: "bool \<Rightarrow> u32 \<Rightarrow> u32" where
  "div_sg neg x = (if neg then - x else x)"

text \<open>
  The registers are read before the edge (\<open>s\<close>); the assignments of the busy branch come
  after those of the flush branch, which are in \<open>s1\<close>.
\<close>

definition divider_step :: "divider \<Rightarrow> divider \<Rightarrow> divider" where
  "divider_step s s1 =
     (let s2 = s1\<lparr>dv_dividend := div_next_r s,
                 dv_divisor := drop_bit 1 (dv_divisor s),
                 dv_quotient := (if div_step_do s then dv_quotient s OR dv_msk s else dv_quotient s),
                 dv_msk := drop_bit 1 (dv_msk s)\<rparr>
      in if bit (dv_msk s) 0
         then s2\<lparr>dv_busy := False, dv_valid := True,
                 dv_q := div_sg (dv_sign s)
                   (if div_step_do s then dv_quotient s OR 1 else dv_quotient s),
                 dv_r := div_sg (dv_sign s) (div_next_r s)\<rparr>
         else s2)"

definition divider_clock :: "div_in \<Rightarrow> divider \<Rightarrow> divider" where
  "divider_clock i s =
     (let s1 = divider_flush i s
      in if dv_busy s then divider_step s s1
         else if di_start i \<and> \<not> dv_valid s then divider_start i s1
         else s1)"

text \<open>The processor's use (\<open>cpu.sv\<close>): \<open>funct3\<close> selects the operation and the result.\<close>

definition div_request :: "nat \<Rightarrow> u32 \<Rightarrow> u32 \<Rightarrow> div_in" where
  "div_request f3 a b =
     \<lparr>di_start = True, di_flush = False, di_dividend = a, di_divisor = b,
      di_signed = even f3, di_rem = odd (f3 div 2)\<rparr>"

definition div_wb_value :: "nat \<Rightarrow> divider \<Rightarrow> u32" where
  "div_wb_value f3 s = (if odd (f3 div 2) then dv_r s else dv_q s)"

text \<open>
  A DIV in the execute stage: the start pulse, then the cycles of the stall until the result
  is valid.
\<close>

definition div_busy_cycles :: "u32 \<Rightarrow> nat" where
  "div_busy_cycles b = (if b = 0 then 0 else 32)"

definition cpu_div :: "nat \<Rightarrow> u32 \<Rightarrow> u32 \<Rightarrow> divider \<Rightarrow> divider" where
  "cpu_div f3 a b s =
     (divider_clock ((div_request f3 a b)\<lparr>di_start := False\<rparr>) ^^ div_busy_cycles b)
       (divider_clock (div_request f3 a b) s)"

section \<open>The reference: RISC-V division\<close>

definition rv_div :: "bool \<Rightarrow> u32 \<Rightarrow> u32 \<Rightarrow> u32" where
  "rv_div sg a b =
     (if b = 0 then - 1
      else if sg then word_of_int (sint a sdiv sint b) else a div b)"

definition rv_rem :: "bool \<Rightarrow> u32 \<Rightarrow> u32 \<Rightarrow> u32" where
  "rv_rem sg a b =
     (if b = 0 then a
      else if sg then word_of_int (sint a smod sint b) else a mod b)"

section \<open>The invariant of the iteration\<close>

text \<open>
  After \<open>k\<close> of the 32 steps of a division of \<open>A\<close> by \<open>B\<close> the divisor has moved \<open>k\<close> places to
  the right, the quotient holds the top \<open>k\<close> bits and \<open>dv_dividend\<close> the rest.
\<close>

definition dividing :: "nat \<Rightarrow> nat \<Rightarrow> nat \<Rightarrow> bool \<Rightarrow> divider \<Rightarrow> bool" where
  "dividing A B k sg s \<longleftrightarrow>
     dv_busy s \<and> \<not> dv_valid s \<and> dv_sign s = sg \<and> k \<le> 31 \<and>
     unat (dv_divisor s) = B * 2 ^ (31 - k) \<and> unat (dv_msk s) = 2 ^ (31 - k) \<and>
     2 ^ (32 - k) dvd unat (dv_quotient s) \<and>
     unat (dv_quotient s) * B + unat (dv_dividend s) = A \<and>
     unat (dv_dividend s) < B * 2 ^ (32 - k)"

lemma or_add_nat:
  assumes "2 ^ Suc n dvd (q :: nat)"
  shows "q OR 2 ^ n = q + 2 ^ n"
proof -
  have "q AND 2 ^ n = 0"
    using assms by (auto simp: and_exp_eq_0_iff_not_bit bit_nat_def dvd_def mult.assoc)
  then show ?thesis by (simp add: disjunctive_add_eq_or)
qed

lemma unat_or_u32: "unat (a OR b :: u32) = unat a OR unat b"
  by (simp add: unsigned_or_eq)

lemma divisor_low:
  assumes "unat (d :: 63 word) \<le> unat (x :: u32)"
  shows "unat (ucast d :: u32) = unat d"
  using assms unat_u32_less [of x]
  by (simp add: unsigned_ucast_eq take_bit_nat_eq_self)

lemma step_do_nat:
  "div_step_do s \<longleftrightarrow> unat (dv_divisor s) \<le> unat (dv_dividend s)"
proof -
  have "unat (ucast (dv_dividend s) :: 63 word) = unat (dv_dividend s)"
    using unat_u32_less [of "dv_dividend s"] by (simp add: unsigned_ucast_eq take_bit_nat_eq_self)
  then show ?thesis by (simp add: div_step_do_def word_le_nat_alt)
qed

lemma next_r_nat:
  "unat (div_next_r s) =
     (if div_step_do s then unat (dv_dividend s) - unat (dv_divisor s) else unat (dv_dividend s))"
  using divisor_low [of "dv_divisor s" "dv_dividend s"]
  by (simp add: div_next_r_def step_do_nat unat_minus_le word_le_nat_alt)


definition div_next_q :: "divider \<Rightarrow> nat" where
  "div_next_q s = (if div_step_do s then unat (dv_quotient s) + unat (dv_msk s) else unat (dv_quotient s))"

lemma dividing_core:
  assumes d: "dividing A B k sg s"
  shows "div_next_q s * B + unat (div_next_r s) = A"
    and "unat (div_next_r s) < B * 2 ^ (31 - k)"
    and "2 ^ (31 - k) dvd div_next_q s"
    and "unat (dv_quotient s OR dv_msk s) = unat (dv_quotient s) + unat (dv_msk s)"
proof -
  let ?D = "unat (dv_dividend s)" and ?Q = "unat (dv_quotient s)"
  have k: "k \<le> 31" and D: "unat (dv_divisor s) = B * 2 ^ (31 - k)"
    and M: "unat (dv_msk s) = 2 ^ (31 - k)" and dv: "2 ^ (32 - k) dvd ?Q"
    and A: "?Q * B + ?D = A" and lt: "?D < B * 2 ^ (32 - k)"
    using d by (auto simp: dividing_def)
  have e: "32 - k = Suc (31 - k)" using k by simp
  show "div_next_q s * B + unat (div_next_r s) = A"
    using A D M by (auto simp: div_next_q_def next_r_nat step_do_nat add_mult_distrib)
  show "unat (div_next_r s) < B * 2 ^ (31 - k)"
    using lt D by (auto simp: next_r_nat step_do_nat e)
  have "2 ^ (31 - k) dvd ?Q" by (rule dvd_trans [OF _ dv]) (simp add: e)
  then show "2 ^ (31 - k) dvd div_next_q s"
    using M by (simp add: div_next_q_def)
  show "unat (dv_quotient s OR dv_msk s) = ?Q + unat (dv_msk s)"
    using or_add_nat [of "31 - k" ?Q] dv M by (simp add: unat_or_u32 e)
qed

lemma busy_clock:
  assumes "dv_busy s" "\<not> dv_valid s" "\<not> di_flush i"
  shows "divider_clock i s = divider_step s s"
  using assms by (simp add: divider_clock_def divider_flush_def)

lemma msk_bit_0: "unat (dv_msk s) = 2 ^ (31 - k) \<Longrightarrow> k \<le> 31 \<Longrightarrow> bit (dv_msk s) 0 \<longleftrightarrow> k = 31"
proof -
  assume m: "unat (dv_msk s) = 2 ^ (31 - k)" and k: "k \<le> 31"
  have "bit (dv_msk s) 0 \<longleftrightarrow> odd (unat (dv_msk s))"
    using bit_unsigned_iff [where 'a = nat, of "dv_msk s" 0] by (simp add: bit_0)
  with m k show ?thesis by auto
qed

lemma unat_half: "unat (drop_bit (Suc 0) w) = unat w div 2"
  by (simp only: unat_drop_bit_eq) (simp add: drop_bit_eq_div)

lemma dividing_step:
  assumes d: "dividing A B k sg s" and k: "k < 31" and nf: "\<not> di_flush i"
  shows "dividing A B (Suc k) sg (divider_clock i s)"
proof -
  note core = dividing_core [OF d]
  have D: "unat (dv_divisor s) = B * 2 ^ (31 - k)" and M: "unat (dv_msk s) = 2 ^ (31 - k)"
    using d by (auto simp: dividing_def)
  have e: "31 - k = Suc (30 - k)" using k by simp
  have b0: "\<not> bit (dv_msk s) 0" using msk_bit_0 [OF M] k by simp
  have "unat (drop_bit 1 (dv_divisor s)) = B * 2 ^ (30 - k)"
    using D by (simp add: unat_half e)
  moreover have "unat (drop_bit 1 (dv_msk s)) = 2 ^ (30 - k)"
    using M by (simp add: unat_half e)
  moreover have "unat (if div_step_do s then dv_quotient s OR dv_msk s else dv_quotient s) = div_next_q s"
    using core(4) by (simp add: div_next_q_def)
  ultimately show ?thesis
    using d k b0 core(1,2,3)
    by (simp add: busy_clock [OF _ _ nf] dividing_def divider_step_def Let_def)
qed

lemma dividing_last:
  assumes d: "dividing A B 31 sg s" and nf: "\<not> di_flush i"
  defines "s' \<equiv> divider_clock i s"
  shows "dv_valid s'" "\<not> dv_busy s'"
    and "dv_q s' = div_sg sg (of_nat (A div B))" "dv_r s' = div_sg sg (of_nat (A mod B))"
proof -
  note core = dividing_core [OF d]
  have M: "unat (dv_msk s) = 1" and sg: "dv_sign s = sg" and b: "dv_busy s" "\<not> dv_valid s"
    using d by (auto simp: dividing_def)
  have m1: "dv_msk s = 1" using M by (simp add: word_unat_eq_iff)
  have A: "A div B = div_next_q s" "A mod B = unat (div_next_r s)"
    using core(1,2) by (auto simp: mult.commute div_nat_eqI mod_nat_eqI intro!: div_nat_eqI)
  have q: "(if div_step_do s then dv_quotient s OR 1 else dv_quotient s) = of_nat (A div B)"
    using core(4) by (auto simp: A(1) div_next_q_def m1 dest!: arg_cong [where f = "of_nat :: nat \<Rightarrow> u32"])
  have r: "div_next_r s = of_nat (A mod B)" by (simp add: A(2))
  have s': "s' = divider_step s s" unfolding s'_def by (rule busy_clock [OF b nf])
  show "dv_valid s'" "\<not> dv_busy s'" "dv_q s' = div_sg sg (of_nat (A div B))"
    "dv_r s' = div_sg sg (of_nat (A mod B))"
    by (simp_all add: s' divider_step_def Let_def m1 sg q r)
qed

section \<open>From start to result\<close>

lemma divider_run:
  assumes d: "dividing A B k sg s" and nf: "\<forall>j\<in>set is. \<not> di_flush j" and len: "length is = 32 - k"
  defines "s' \<equiv> fold divider_clock is s"
  shows "dv_valid s' \<and> \<not> dv_busy s' \<and>
    dv_q s' = div_sg sg (of_nat (A div B)) \<and> dv_r s' = div_sg sg (of_nat (A mod B))"
  unfolding s'_def using d nf len
proof (induction "is" arbitrary: k s)
  case Nil
  then show ?case by (simp add: dividing_def)
next
  case (Cons i js)
  show ?case
  proof (cases "k = 31")
    case True
    with Cons.prems have "js = []" by simp
    with True dividing_last [of A B sg s i] Cons.prems show ?thesis by simp
  next
    case False
    with Cons.prems have "k < 31" by (simp add: dividing_def)
    with Cons show ?thesis using dividing_step [of A B k sg s i] by simp
  qed
qed

lemma start_dividing:
  assumes "\<not> dv_busy s" "\<not> dv_valid s" "di_start i" "di_divisor i \<noteq> 0"
  shows "dividing (unat (div_abs (di_signed i) (di_dividend i)))
           (unat (div_abs (di_signed i) (di_divisor i))) 0
           (di_signed i \<and> (if di_rem i then bit (di_dividend i) 31
              else bit (di_dividend i) 31 \<noteq> bit (di_divisor i) 31))
           (divider_clock i s)"
proof -
  let ?b = "div_abs (di_signed i) (di_divisor i)"
  have pos: "0 < unat ?b" using assms(4) by (auto simp: div_abs_def unat_gt_0)
  have "unat (push_bit 31 (ucast ?b) :: 63 word) = unat ?b * 2 ^ 31"
    using unat_u32_less [of ?b]
    by (simp add: push_bit_eq_mult unat_word_ariths unsigned_ucast_eq take_bit_eq_mod)
  moreover have "unat (push_bit 31 1 :: u32) = 2 ^ 31" by simp
  moreover have "unat x < unat ?b * 2 ^ 32" for x :: u32
    using unat_u32_less [of x] pos mult_le_mono [of 1 "unat ?b" "2 ^ 32" "2 ^ 32"] by simp
  ultimately show ?thesis
    using assms by (simp add: divider_clock_def divider_flush_def divider_start_def dividing_def Let_def)
qed

text \<open>The signs of the operands and of the result.\<close>

lemma sint_neg_iff: "bit (x :: u32) 31 \<longleftrightarrow> sint x < 0"
  by (simp add: bit_last_iff [where 'a = 32, simplified])

lemma uint_div_abs: "uint (div_abs sg x) = (if sg then \<bar>sint x\<bar> else uint x)"
proof (cases "sg \<and> bit x 31")
  case True
  have "x \<noteq> 0" using True by auto
  then have "0 < uint x" "uint x < 4294967296"
    using uint_bounded [of x] by (simp_all add: order_less_le unsigned_eq_0_iff)
  then have "uint (- x) = 2 ^ 32 - uint x"
    by (simp add: uint_word_ariths zmod_zminus1_eq_if)
  moreover have "sint x = uint x - 2 ^ 32"
    using True uint_bounded [of x]
    by (simp add: sint_uint signed_take_bit_eq_take_bit_minus bit_uint_iff take_bit_int_eq_self_iff)
  ultimately show ?thesis using True by (simp add: div_abs_def sint_neg_iff)
next
  case False
  have "sint x = uint x" if "\<not> bit x 31"
    using that uint_bounded [of x]
    by (simp add: sint_uint signed_take_bit_eq_take_bit_minus bit_uint_iff take_bit_int_eq_self_iff)
  with False show ?thesis by (cases sg) (simp_all add: div_abs_def)
qed

text \<open>What 32 signed or unsigned bits hold of a quotient of magnitudes.\<close>

lemma signed_div_signs:
  fixes a b :: int
  assumes "b \<noteq> 0"
  shows "(if (a < 0) \<noteq> (b < 0) then - (\<bar>a\<bar> div \<bar>b\<bar>) else \<bar>a\<bar> div \<bar>b\<bar>) = a sdiv b"
    and "(if a < 0 then - (\<bar>a\<bar> mod \<bar>b\<bar>) else \<bar>a\<bar> mod \<bar>b\<bar>) = a smod b"
  using assms by (auto simp: signed_divide_int_def signed_modulo_int_def sgn_if)

lemma div_sg_int: "div_sg neg (word_of_int k) = word_of_int (if neg then - k else k)"
  by (simp add: div_sg_def)

text \<open>
  A request that the divider accepts is answered after one cycle (division by zero) or 33,
  whatever the inputs are meanwhile, short of a flush.
\<close>

lemma divider_nonzero:
  assumes idle: "\<not> dv_busy s" "\<not> dv_valid s" and st: "di_start i" and nz: "di_divisor i \<noteq> 0"
    and nf: "\<forall>j\<in>set is. \<not> di_flush j" and len: "length is = 32"
  defines "s' \<equiv> fold divider_clock is (divider_clock i s)"
  shows "dv_valid s' \<and> \<not> dv_busy s' \<and>
    (if di_rem i then dv_r s' = rv_rem (di_signed i) (di_dividend i) (di_divisor i)
     else dv_q s' = rv_div (di_signed i) (di_dividend i) (di_divisor i))"
proof -
  let ?a = "di_dividend i" and ?b = "di_divisor i" and ?sg = "di_signed i"
  let ?A = "unat (div_abs ?sg ?a)" and ?B = "unat (div_abs ?sg ?b)"
  let ?neg = "?sg \<and> (if di_rem i then bit ?a 31 else bit ?a 31 \<noteq> bit ?b 31)"
  have run: "dv_valid s' \<and> \<not> dv_busy s' \<and>
      dv_q s' = div_sg ?neg (of_nat (?A div ?B)) \<and> dv_r s' = div_sg ?neg (of_nat (?A mod ?B))"
    unfolding s'_def by (rule divider_run [OF start_dividing [OF idle st nz] nf]) (simp add: len)
  have "of_nat n = (word_of_int (int n) :: u32)" for n by simp
  then have w: "(of_nat (?A div ?B) :: u32) = word_of_int (int ?A div int ?B)"
    "(of_nat (?A mod ?B) :: u32) = word_of_int (int ?A mod int ?B)"
    by (simp_all only: of_nat_div of_nat_mod)
  have nz': "sint ?b \<noteq> 0" using nz by (simp add: signed_eq_0_iff)
  show ?thesis
  proof (cases ?sg)
    case True
    with run w nz' show ?thesis
      by (simp add: uint_div_abs div_sg_int sint_neg_iff rv_div_def rv_rem_def nz
        signed_div_signs [symmetric] del: of_nat_div of_nat_mod)
  next
    case False
    with run w show ?thesis
      by (simp add: uint_div_abs div_sg_int rv_div_def rv_rem_def nz word_div_def word_mod_def
        del: of_nat_div of_nat_mod)
  qed
qed

lemma divider_zero:
  assumes "\<not> dv_busy s" "\<not> dv_valid s" "di_start i" "di_divisor i = 0"
  shows "dv_valid (divider_clock i s) \<and> \<not> dv_busy (divider_clock i s) \<and>
    dv_r (divider_clock i s) = di_dividend i \<and> dv_q (divider_clock i s) = - 1"
  using assms by (simp add: divider_clock_def divider_flush_def divider_start_def Let_def)

section \<open>The processor's divisions\<close>

lemma fold_replicate: "fold f (replicate n x) s = (f x ^^ n) s"
  by (induction n arbitrary: s) (simp_all add: funpow_swap1)

lemma cpu_div_value:
  assumes "\<not> dv_busy s" "\<not> dv_valid s"
  shows "dv_valid (cpu_div f3 a b s)" "\<not> dv_busy (cpu_div f3 a b s)"
    and "div_wb_value f3 (cpu_div f3 a b s) =
      (if odd (f3 div 2) then rv_rem (even f3) a b else rv_div (even f3) a b)"
proof -
  let ?i = "div_request f3 a b"
  have nf: "\<forall>j\<in>set (replicate 32 (?i\<lparr>di_start := False\<rparr>)). \<not> di_flush j"
    by (simp add: div_request_def)
  have i: "di_start ?i" "di_dividend ?i = a" "di_divisor ?i = b" "di_signed ?i = even f3"
    "di_rem ?i = odd (f3 div 2)"
    by (simp_all add: div_request_def)
  have "dv_valid (cpu_div f3 a b s) \<and> \<not> dv_busy (cpu_div f3 a b s) \<and>
    div_wb_value f3 (cpu_div f3 a b s) =
      (if odd (f3 div 2) then rv_rem (even f3) a b else rv_div (even f3) a b)"
  proof (cases "b = 0")
    case True
    with divider_zero [OF assms, of ?i] i show ?thesis
      by (simp add: cpu_div_def div_busy_cycles_def div_wb_value_def rv_div_def rv_rem_def)
  next
    case False
    then have "di_divisor ?i \<noteq> 0" by (simp only: i) simp
    from divider_nonzero [OF assms i(1) this nf] show ?thesis
      by (cases "odd (f3 div 2)")
        (simp_all add: cpu_div_def div_busy_cycles_def div_wb_value_def fold_replicate i False)
  qed
  then show "dv_valid (cpu_div f3 a b s)" "\<not> dv_busy (cpu_div f3 a b s)"
    "div_wb_value f3 (cpu_div f3 a b s) =
      (if odd (f3 div 2) then rv_rem (even f3) a b else rv_div (even f3) a b)"
    by blast+
qed

end
