(* ===== verification/Self_Test.thy ===== *)
theory Self_Test
  imports Shell Rv_Divider
begin

text \<open>
  The hardware self-tests of the monitor: \<open>program/app/test_shift.c\<close>, \<open>test_a.c\<close>, \<open>test_csr.c\<close>
  (the trap handler), \<open>test_msip.c\<close> and the tests inside \<open>app/main.c\<close>. What the code does with
  inline assembly is a parameter, the record \<open>hart\<close>: the shift and division instructions,
  loads, stores, LR/SC and AMO on words, the CSR instructions, ECALL, and the passing of time
  in a loop without bus accesses, in which an interrupt may be taken. The variables that the
  trap handler sets are part of the device state, since it runs asynchronously. The two
  assembly files (\<open>test_priv.S\<close>, \<open>test_sv32.S\<close>) are parameters as well.
\<close>

section \<open>The hart\<close>

datatype amo_instr =
    AMOADD | AMOSWAP | AMOXOR | AMOAND | AMOOR | AMOMIN | AMOMAX | AMOMINU | AMOMAXU

record 'd hart =
  h_srai :: "u32 \<Rightarrow> nat \<Rightarrow> u32"
  h_srli :: "u32 \<Rightarrow> nat \<Rightarrow> u32"
  h_sra :: "u32 \<Rightarrow> u32 \<Rightarrow> u32"
  h_c_srai :: "u32 \<Rightarrow> nat \<Rightarrow> u32"
  h_div :: "u32 \<Rightarrow> u32 \<Rightarrow> u32"
  h_rem :: "u32 \<Rightarrow> u32 \<Rightarrow> u32"
  h_lw :: "u32 \<Rightarrow> 'd \<Rightarrow> u32 \<times> 'd"
  h_sw :: "u32 \<Rightarrow> u32 \<Rightarrow> 'd \<Rightarrow> 'd"
  h_lr :: "u32 \<Rightarrow> 'd \<Rightarrow> u32 \<times> 'd"
  h_sc :: "u32 \<Rightarrow> u32 \<Rightarrow> 'd \<Rightarrow> u32 \<times> 'd"
  h_amo :: "amo_instr \<Rightarrow> u32 \<Rightarrow> u32 \<Rightarrow> 'd \<Rightarrow> u32 \<times> 'd"
  h_csrr :: "12 word \<Rightarrow> 'd \<Rightarrow> u32 \<times> 'd"
  h_csrw :: "12 word \<Rightarrow> u32 \<Rightarrow> 'd \<Rightarrow> 'd"
  h_csrs :: "12 word \<Rightarrow> u32 \<Rightarrow> 'd \<Rightarrow> 'd"
  h_csrc :: "12 word \<Rightarrow> u32 \<Rightarrow> 'd \<Rightarrow> 'd"
  h_ecall :: "'d \<Rightarrow> 'd"
  h_spin :: "'d \<Rightarrow> 'd"
  h_trap_vars :: "'d \<Rightarrow> u32 \<times> u32"
  h_set_trap_vars :: "u32 \<times> u32 \<Rightarrow> 'd \<Rightarrow> 'd"
  h_handler_addr :: u32
  h_a_words :: u32
  h_privilege_test :: "'d \<Rightarrow> u32 \<times> 'd"
  h_sv32_test :: "nat \<Rightarrow> 'd \<Rightarrow> u32 \<times> 'd"

abbreviation CSR_MSTATUS :: "12 word" where "CSR_MSTATUS \<equiv> 0x300"
abbreviation CSR_MIE :: "12 word" where "CSR_MIE \<equiv> 0x304"
abbreviation CSR_MTVEC :: "12 word" where "CSR_MTVEC \<equiv> 0x305"
abbreviation CSR_MSCRATCH :: "12 word" where "CSR_MSCRATCH \<equiv> 0x340"
abbreviation CSR_MEPC :: "12 word" where "CSR_MEPC \<equiv> 0x341"
abbreviation CSR_MCAUSE :: "12 word" where "CSR_MCAUSE \<equiv> 0x342"

definition trap_hit_flag :: "'d hart \<Rightarrow> 'd \<Rightarrow> u32" where
  "trap_hit_flag h d = fst (h_trap_vars h d)"

definition trap_cause_val :: "'d hart \<Rightarrow> 'd \<Rightarrow> u32" where
  "trap_cause_val h d = snd (h_trap_vars h d)"

text \<open>An effect on the device state of the monitor.\<close>

definition on_dev :: "('d \<Rightarrow> 'd) \<Rightarrow> 'd shell \<Rightarrow> 'd shell" where
  "on_dev f st = st\<lparr>sh_dev := f (sh_dev st)\<rparr>"

definition with_dev :: "('d \<Rightarrow> 'a \<times> 'd) \<Rightarrow> 'd shell \<Rightarrow> 'a \<times> 'd shell" where
  "with_dev f st = (let (x, d) = f (sh_dev st) in (x, st\<lparr>sh_dev := d\<rparr>))"

section \<open>The trap handler\<close>

definition clear_cause :: "'d bus \<Rightarrow> 'd hart \<Rightarrow> u32 \<Rightarrow> 'd \<Rightarrow> 'd" where
  "clear_cause b h cause d =
     (if cause AND 0x80000000 = 0 then
        let (epc, d1) = h_csrr h CSR_MEPC d in h_csrw h CSR_MEPC (epc + 4) d1
      else if cause AND 0xFF = 7 then h_csrc h CSR_MIE (push_bit 7 1) d
      else if cause AND 0xFF = 3 then clint_clear_msip b d
      else if cause AND 0xFF = 11 then bus_wr b 0x400044 1 d
      else d)"

definition trap_handler :: "'d bus \<Rightarrow> 'd hart \<Rightarrow> 'd \<Rightarrow> 'd" where
  "trap_handler b h d =
     (let (cause, d1) = h_csrr h CSR_MCAUSE d
      in clear_cause b h cause (h_set_trap_vars h (1, cause) d1))"

section \<open>Shifts and narrow integers\<close>

definition crc16_uint16_bit :: "u16 \<Rightarrow> u16" where
  "crc16_uint16_bit crc =
     (if crc AND 0x8000 \<noteq> 0 then ucast (push_bit 1 (ucast crc :: u32) XOR 0x1021)
      else ucast (push_bit 1 (ucast crc :: u32)))"

fun crc16_uint16_from :: "u16 \<Rightarrow> u8 list \<Rightarrow> u16" where
  "crc16_uint16_from crc [] = crc"
| "crc16_uint16_from crc (x # data) =
     crc16_uint16_from ((crc16_uint16_bit ^^ 8) (crc XOR ucast (push_bit 8 (ucast x :: u32)))) data"

definition crc16_uint16 :: "u8 list \<Rightarrow> u16" where
  "crc16_uint16 data = crc16_uint16_from 0 data"

definition check_u32 ::
    "'d bus \<Rightarrow> string \<Rightarrow> u32 \<Rightarrow> u32 \<Rightarrow> 'd shell \<Rightarrow> (bool \<times> 'd shell) option" where
  "check_u32 b name actual expected st =
     (if actual = expected
      then map_option (Pair True) (say_fmt b ''[OK] %s = 0x%x'' True [VStr (cstr name), VInt actual] st)
      else map_option (Pair False)
        (say_fmt b ''[FAIL] %s expected=0x%x actual=0x%x'' True
           [VStr (cstr name), VInt expected, VInt actual] st))"

definition shift_checks :: "'d hart \<Rightarrow> (string \<times> u32 \<times> u32) list" where
  "shift_checks h =
     [(''SRAI 0x80000000 >> 16'', h_srai h 0x80000000 16, 0xFFFF8000),
      (''SRLI 0x80000000 >> 16'', h_srli h 0x80000000 16, 0x00008000),
      (''SRA 0x80000000 >> 16'', h_sra h 0x80000000 16, 0xFFFF8000),
      (''C.SRAI 0x80000000 >> 16'', h_c_srai h 0x80000000 16, 0xFFFF8000),
      (''uint16 CRC 0x01'', ucast (crc16_uint16 [1]), 0x1021),
      (''uint16 CRC 123456789'', ucast (crc16_uint16 (cstr ''123456789'')), 0x31C3)]"

fun run_checks ::
    "'d bus \<Rightarrow> (string \<times> u32 \<times> u32) list \<Rightarrow> bool \<Rightarrow> 'd shell \<Rightarrow> (bool \<times> 'd shell) option" where
  "run_checks b [] passed st = Some (passed, st)"
| "run_checks b ((name, actual, expected) # cs) passed st =
     Option.bind (check_u32 b name actual expected st) (\<lambda>(ok, st1). run_checks b cs (passed \<and> ok) st1)"

definition shell_test_shift :: "'d bus \<Rightarrow> 'd hart \<Rightarrow> cstring \<Rightarrow> 'd shell \<Rightarrow> 'd shell option" where
  "shell_test_shift b h arg st =
     (if arg \<noteq> [] then say_line b ''Usage: test-shift'' st
      else do {
        st1 \<leftarrow> say_line b ''--- Shift and narrow integer test ---'' st;
        (passed, st2) \<leftarrow> run_checks b (shift_checks h) True st1;
        say_line b (if passed then ''--- SHIFT TEST PASSED ---'' else ''--- SHIFT TEST FAILED ---'') st2
      })"

section \<open>Atomics\<close>

definition amo_word :: "'d hart \<Rightarrow> nat \<Rightarrow> u32 \<Rightarrow> u32 \<Rightarrow> 'd \<Rightarrow> u32 \<times> 'd" where
  "amo_word h op a v =
     h_amo h (if op = 0 then AMOADD else if op = 1 then AMOSWAP else if op = 2 then AMOXOR
              else if op = 3 then AMOAND else if op = 4 then AMOOR else if op = 5 then AMOMIN
              else if op = 6 then AMOMAX else if op = 7 then AMOMINU else AMOMAXU) a v"

definition a_word :: "'d hart \<Rightarrow> nat \<Rightarrow> u32" where
  "a_word h i = h_a_words h + 4 * of_nat i"

text \<open>
  One step of the AMO part of the test: store the initial value, announce the step, do the
  operation, compare the value returned and the value now in memory, report a difference.
\<close>

record amo_case =
  ac_banner :: "string option"
  ac_index :: nat
  ac_init :: u32
  ac_op :: nat
  ac_rhs :: u32
  ac_old :: u32
  ac_new :: u32
  ac_fail :: string
  ac_values :: bool

definition amo_cases :: "amo_case list" where
  "amo_cases =
     [\<lparr>ac_banner = Some ''A: AMOADD'', ac_index = 0, ac_init = 0x100, ac_op = 0, ac_rhs = 7,
        ac_old = 0x100, ac_new = 0x107, ac_fail = ''FAIL AMOADD'', ac_values = True\<rparr>,
      \<lparr>ac_banner = Some ''A: AMOSWAP'', ac_index = 1, ac_init = 0x55aa55aa, ac_op = 1, ac_rhs = 0x12345678,
        ac_old = 0x55aa55aa, ac_new = 0x12345678, ac_fail = ''FAIL AMOSWAP'', ac_values = True\<rparr>,
      \<lparr>ac_banner = Some ''A: AMOXOR'', ac_index = 2, ac_init = 0x0f0f0f0f, ac_op = 2, ac_rhs = 0xffffffff,
        ac_old = 0x0f0f0f0f, ac_new = 0xf0f0f0f0, ac_fail = ''FAIL AMOXOR'', ac_values = True\<rparr>,
      \<lparr>ac_banner = Some ''A: AMOMINU'', ac_index = 3, ac_init = 0x80000000, ac_op = 7, ac_rhs = 1,
        ac_old = 0x80000000, ac_new = 1, ac_fail = ''FAIL AMOMINU'', ac_values = True\<rparr>,
      \<lparr>ac_banner = None, ac_index = 0, ac_init = 0x0f0f0f0f, ac_op = 3, ac_rhs = 0xff00ff00,
        ac_old = 0x0f0f0f0f, ac_new = 0x0f000f00, ac_fail = ''FAIL AMOAND'', ac_values = False\<rparr>,
      \<lparr>ac_banner = None, ac_index = 1, ac_init = 0x0f0f0f0f, ac_op = 4, ac_rhs = 0xf00000f0,
        ac_old = 0x0f0f0f0f, ac_new = 0xff0f0fff, ac_fail = ''FAIL AMOOR'', ac_values = False\<rparr>,
      \<lparr>ac_banner = None, ac_index = 2, ac_init = 0xfffffff0, ac_op = 5, ac_rhs = 0x10,
        ac_old = 0xfffffff0, ac_new = 0xfffffff0, ac_fail = ''FAIL AMOMIN'', ac_values = False\<rparr>,
      \<lparr>ac_banner = None, ac_index = 3, ac_init = 0xfffffff0, ac_op = 6, ac_rhs = 0x10,
        ac_old = 0xfffffff0, ac_new = 0x10, ac_fail = ''FAIL AMOMAX'', ac_values = False\<rparr>,
      \<lparr>ac_banner = None, ac_index = 0, ac_init = 0x80000000, ac_op = 7, ac_rhs = 1,
        ac_old = 0x80000000, ac_new = 1, ac_fail = ''FAIL AMOMINU second'', ac_values = False\<rparr>,
      \<lparr>ac_banner = None, ac_index = 1, ac_init = 1, ac_op = 8, ac_rhs = 0x80000000,
        ac_old = 1, ac_new = 0x80000000, ac_fail = ''FAIL AMOMAXU'', ac_values = False\<rparr>]"

definition say_opt :: "'d bus \<Rightarrow> string option \<Rightarrow> 'd shell \<Rightarrow> 'd shell option" where
  "say_opt b m st = (case m of None \<Rightarrow> Some st | Some l \<Rightarrow> say_line b l st)"

text \<open>The second operand of \<open>||\<close> is read only when the first is false.\<close>

definition amo_step :: "'d bus \<Rightarrow> 'd hart \<Rightarrow> amo_case \<Rightarrow> bool \<times> 'd shell \<Rightarrow> (bool \<times> 'd shell) option" where
  "amo_step b h c = (\<lambda>(pass, st). do {
     let a = a_word h (ac_index c);
     st1 \<leftarrow> say_opt b (ac_banner c) (on_dev (h_sw h a (ac_init c)) st);
     let (old, st2) = with_dev (amo_word h (ac_op c) a (ac_rhs c)) st1;
     let (bad, st3) = (if old \<noteq> ac_old c then (True, st2)
                       else let (w, s) = with_dev (h_lw h a) st2 in (w \<noteq> ac_new c, s));
     if \<not> bad then Some (pass, st3)
     else if ac_values c then
       let (w, st4) = with_dev (h_lw h a) st3
       in map_option (Pair False) (say_fmt b (ac_fail c @ '' old=%x mem=%x'') True [VInt old, VInt w] st4)
     else map_option (Pair False) (say_line b (ac_fail c) st3)
   })"

fun amo_steps ::
    "'d bus \<Rightarrow> 'd hart \<Rightarrow> amo_case list \<Rightarrow> bool \<times> 'd shell \<Rightarrow> (bool \<times> 'd shell) option" where
  "amo_steps b h [] r = Some r"
| "amo_steps b h (c # cs) r = Option.bind (amo_step b h c r) (amo_steps b h cs)"

definition lr_sc_test :: "'d bus \<Rightarrow> 'd hart \<Rightarrow> 'd shell \<Rightarrow> (bool \<times> 'd shell) option" where
  "lr_sc_test b h st = do {
     let a = a_word h 0;
     st1 \<leftarrow> say_line b ''A: LR/SC'' (on_dev (h_sw h a 10) st);
     let (old, st2) = with_dev (h_lr h a) st1;
     let (status, st3) = with_dev (h_sc h a 20) st2;
     let (bad, st4) = (if old \<noteq> 10 \<or> status \<noteq> 0 then (True, st3)
                       else let (w, s) = with_dev (h_lw h a) st3 in (w \<noteq> 20, s));
     (p1, st5) \<leftarrow> (if \<not> bad then Some (True, st4)
       else let (w, s) = with_dev (h_lw h a) st4
         in map_option (Pair False)
              (say_fmt b ''FAIL LR/SC old=%x sc=%x mem=%x'' True [VInt old, VInt status, VInt w] s));
     let (status2, st6) = with_dev (h_sc h a 30) st5;
     let (bad2, st7) = (if status2 \<noteq> 1 then (True, st6)
                        else let (w, s) = with_dev (h_lw h a) st6 in (w \<noteq> 20, s));
     if \<not> bad2 then Some (p1, st7)
     else map_option (Pair False) (say_line b ''FAIL SC failure'' st7)
   }"

definition shell_test_a :: "'d bus \<Rightarrow> 'd hart \<Rightarrow> cstring \<Rightarrow> 'd shell \<Rightarrow> 'd shell option" where
  "shell_test_a b h arg st =
     (if arg \<noteq> [] then say_line b ''Usage: test-a'' st
      else do {
        r1 \<leftarrow> lr_sc_test b h st;
        (pass, st2) \<leftarrow> amo_steps b h amo_cases r1;
        say_line b (if pass then ''--- RV32A TEST PASSED ---'' else ''--- RV32A TEST FAILED ---'') st2
      })"

section \<open>CSRs and traps\<close>

definition csr_check ::
    "'d bus \<Rightarrow> bool \<Rightarrow> string \<Rightarrow> vararg list \<Rightarrow> string \<Rightarrow> vararg list \<Rightarrow> bool \<times> 'd shell \<Rightarrow>
     (bool \<times> 'd shell) option" where
  "csr_check b ok good gargs bad bargs = (\<lambda>(pass, st).
     if ok then map_option (Pair pass) (say_fmt b good True gargs st)
     else map_option (Pair False) (say_fmt b bad True bargs st))"

definition csr_rw_test :: "'d bus \<Rightarrow> 'd hart \<Rightarrow> 'd shell \<Rightarrow> (bool \<times> 'd shell) option" where
  "csr_rw_test b h st = do {
     let (v1, st2) = with_dev (h_csrr h CSR_MSCRATCH) (on_dev (h_csrw h CSR_MSCRATCH 0xDEADBEEF) st);
     r1 \<leftarrow> csr_check b (v1 = 0xDEADBEEF)
       ''[OK] mscratch RW test passed (0x%x).'' [VInt v1]
       ''[FAIL] mscratch RW test failed. Expected: 0x%x, Got: 0x%x'' [VInt 0xDEADBEEF, VInt v1]
       (True, st2);
     let (v2, st3) = with_dev (h_csrr h CSR_MTVEC) (on_dev (h_csrw h CSR_MTVEC 0x80000003) (snd r1));
     r2 \<leftarrow> csr_check b (v2 = 0x80000000)
       ''[OK] mtvec alignment test passed (0x%x).'' [VInt v2]
       ''[FAIL] mtvec alignment test failed. Expected: 0x%x, Got: 0x%x'' [VInt 0x80000000, VInt v2]
       (fst r1, st3);
     let (v3, st4) = with_dev (h_csrr h CSR_MSCRATCH)
       (on_dev (h_csrs h CSR_MSCRATCH 0x110) (on_dev (h_csrw h CSR_MSCRATCH 0) (snd r2)));
     r3 \<leftarrow> csr_check b (v3 = 0x110)
       ''[OK] mscratch CSRS (Set) test passed.'' []
       ''[FAIL] mscratch CSRS test failed. Got: 0x%x'' [VInt v3] (fst r2, st4);
     let (v4, st5) = with_dev (h_csrr h CSR_MSCRATCH) (on_dev (h_csrc h CSR_MSCRATCH 0x10) (snd r3));
     csr_check b (v4 = 0x100)
       ''[OK] mscratch CSRC (Clear) test passed.'' []
       ''[FAIL] mscratch CSRC test failed. Got: 0x%x'' [VInt v4] (fst r3, st5)
   }"

definition ecall_test :: "'d bus \<Rightarrow> 'd hart \<Rightarrow> 'd shell \<Rightarrow> 'd shell option" where
  "ecall_test b h st = do {
     st8 \<leftarrow> say_fmt b ''--- Trap (ECALL/MRET) Test Start ---'' True [] st;
     let trap_addr = h_handler_addr h;
     let st9 = on_dev (h_set_trap_vars h (0, 0)) (on_dev (h_csrw h CSR_MTVEC trap_addr) st8);
     st10 \<leftarrow> say_fmt b ''[INFO] mtvec set to 0x%x'' True [VInt trap_addr] st9;
     st11 \<leftarrow> say_fmt b ''[INFO] Executing ECALL...'' True [] st10;
     let st12 = on_dev (h_ecall h) st11;
     st13 \<leftarrow> say_fmt b ''[INFO] Returned from ECALL!'' True [] st12;
     let hit = trap_hit_flag h (sh_dev st13);
     let cause = trap_cause_val h (sh_dev st13);
     if hit = 1 \<and> cause = 11 then say_fmt b ''--- ECALL TRAP TEST PASSED! ---'' True [] st13
     else say_fmt b ''--- ECALL TRAP TEST FAILED! flag=%d, cause=%d ---'' True [VInt hit, VInt cause] st13
   }"

definition shell_test_csr :: "'d bus \<Rightarrow> 'd hart \<Rightarrow> cstring \<Rightarrow> 'd shell \<Rightarrow> 'd shell option" where
  "shell_test_csr b h arg st =
     (if arg \<noteq> [] then say_line b ''Usage: test-csr'' st
      else do {
        st1 \<leftarrow> say_fmt b ''--- CSR Read/Write Test Start ---'' True [] st;
        (pass, st2) \<leftarrow> csr_rw_test b h st1;
        st3 \<leftarrow> say_fmt b (if pass then ''--- ALL TESTS PASSED! ---'' else ''--- SOME TESTS FAILED! ---'')
          True [] st2;
        st4 \<leftarrow> say_line b [] st3;
        ecall_test b h st4
      })"

section \<open>Interrupts\<close>

text \<open>
  The waiting loop shared by the three tests, with \<open>k\<close> increments of \<open>timeout\<close> left. The result
  says whether the flag was seen.
\<close>

fun wait_trap :: "nat \<Rightarrow> 'd hart \<Rightarrow> 'd \<Rightarrow> bool \<times> 'd" where
  "wait_trap 0 h d = (trap_hit_flag h d \<noteq> 0, d)"
| "wait_trap (Suc k) h d =
     (if trap_hit_flag h d \<noteq> 0 then (True, d) else wait_trap k h (h_spin h d))"

text \<open>\<open>timeout\<close> exceeds 1000000 in iteration 1000001, which leaves the loop by \<open>break\<close>.\<close>

definition await_trap :: "'d bus \<Rightarrow> 'd hart \<Rightarrow> string \<Rightarrow> 'd shell \<Rightarrow> 'd shell option" where
  "await_trap b h msg st =
     (let (seen, st1) = with_dev (wait_trap 1000000 h) st
      in if seen then Some st1 else say_fmt b msg True [] st1)"

definition irq_prepare :: "'d hart \<Rightarrow> 'd \<Rightarrow> 'd" where
  "irq_prepare h d = h_set_trap_vars h (0, 0) (h_csrw h CSR_MTVEC (h_handler_addr h) d)"

definition irq_finish :: "'d hart \<Rightarrow> nat \<Rightarrow> 'd \<Rightarrow> 'd" where
  "irq_finish h line d = h_csrc h CSR_MIE (push_bit line 1) (h_csrc h CSR_MSTATUS (push_bit 3 1) d)"

definition irq_verdict ::
    "'d bus \<Rightarrow> 'd hart \<Rightarrow> u32 \<Rightarrow> (string \<times> vararg list) list \<Rightarrow> string \<Rightarrow> 'd shell \<Rightarrow> 'd shell option" where
  "irq_verdict b h expected passed wrong st =
     (let cause = trap_cause_val h (sh_dev st)
      in if trap_hit_flag h (sh_dev st) = 0 then Some st
         else if cause = expected then
           (case passed of
              [(l1, a1), (l2, a2)] \<Rightarrow> Option.bind (say_fmt b l1 True a1 st) (say_fmt b l2 True a2)
            | _ \<Rightarrow> None)
         else say_fmt b wrong True [VInt cause] st)"

definition shell_test_msip :: "'d bus \<Rightarrow> 'd hart \<Rightarrow> cstring \<Rightarrow> 'd shell \<Rightarrow> 'd shell option" where
  "shell_test_msip b h arg st =
     (if arg \<noteq> [] then say_line b ''Usage: test-msip'' st
      else do {
        st1 \<leftarrow> say_fmt b ''--- Machine Software Interrupt (MSIP) Test Start ---'' True [] st;
        let st2 = on_dev (clint_clear_msip b) (on_dev (irq_prepare h) st1);
        let st3 = on_dev (h_csrs h CSR_MSTATUS (push_bit 3 1)) (on_dev (h_csrs h CSR_MIE (push_bit 3 1)) st2);
        st4 \<leftarrow> say_fmt b ''Triggering software interrupt via MSIP MMIO...'' True [] st3;
        st5 \<leftarrow> await_trap b h ''[FAIL] Timeout waiting for software interrupt.'' (on_dev (clint_set_msip b) st4);
        let st6 = on_dev (irq_finish h 3) st5;
        irq_verdict b h 0x80000003
          [(''[OK] Software interrupt triggered and handled (cause=0x%x).'', [VInt (trap_cause_val h (sh_dev st6))]),
           (''--- MSIP TEST PASSED! ---'', [])]
          ''[FAIL] Wrong cause: 0x%x (expected 0x80000003)'' st6
      })"

definition shell_test_mtime :: "'d bus \<Rightarrow> 'd hart \<Rightarrow> cstring \<Rightarrow> 'd shell \<Rightarrow> 'd shell option" where
  "shell_test_mtime b h arg st =
     (if arg \<noteq> [] then say_line b ''Usage: test-mtime'' st
      else do {
        st1 \<leftarrow> say_fmt b ''--- Machine Timer (mtime) Interrupt Test Start ---'' True [] st;
        let st2 = on_dev (h_csrs h CSR_MIE (push_bit 7 1)) (on_dev (irq_prepare h) st1);
        (current, d) \<leftarrow> clint_get_mtime b (sh_dev st2);
        let st3 = st2\<lparr>sh_dev := clint_set_mtimecmp b (current + 50000) d\<rparr>;
        let st4 = on_dev (h_csrs h CSR_MSTATUS (push_bit 3 1)) st3;
        st5 \<leftarrow> say_fmt b ''Waiting for mtime interrupt...'' True [] st4;
        st6 \<leftarrow> await_trap b h ''[FAIL] Timeout waiting for interrupt.'' st5;
        irq_verdict b h 0x80000007
          [(''[OK] mtime interrupt correctly triggered and handled.'', []), (''--- MTIME TEST PASSED! ---'', [])]
          ''[FAIL] Interrupt triggered but wrong cause: 0x%x (expected 0x80000007)''
          (on_dev (irq_finish h 7) st6)
      })"

abbreviation TIMER_CTRL_ARMED :: u32 where "TIMER_CTRL_ARMED \<equiv> 2"
abbreviation TIMER_CTRL_IRQ_EN :: u32 where "TIMER_CTRL_IRQ_EN \<equiv> 0x100"

definition shell_test_irq :: "'d bus \<Rightarrow> 'd hart \<Rightarrow> cstring \<Rightarrow> 'd shell \<Rightarrow> 'd shell option" where
  "shell_test_irq b h arg st =
     (if arg \<noteq> [] then say_line b ''Usage: test-irq'' st
      else do {
        st1 \<leftarrow> say_fmt b ''--- Timer Peripheral (External) Interrupt Test Start ---'' True [] st;
        let st2 = on_dev (h_csrs h CSR_MIE (push_bit 11 1)) (on_dev (irq_prepare h) st1);
        let (now, st3) = with_dev (timer_get_count b) st2;
        let st4 = on_dev (bus_wr b timer_ctrl_reg (TIMER_CTRL_EN OR TIMER_CTRL_ARMED OR TIMER_CTRL_IRQ_EN))
          (on_dev (bus_wr b timer_cmp_reg (now + 50000)) st3);
        let st5 = on_dev (h_csrs h CSR_MSTATUS (push_bit 3 1)) st4;
        st6 \<leftarrow> say_fmt b ''Waiting for timer interrupt...'' True [] st5;
        st7 \<leftarrow> await_trap b h ''[FAIL] Timeout waiting for interrupt.'' st6;
        irq_verdict b h 0x8000000B
          [(''[OK] Timer peripheral interrupt correctly triggered and handled.'', []),
           (''--- TIMER PERIPHERAL TEST PASSED! ---'', [])]
          ''[FAIL] Interrupt triggered but wrong cause: 0x%x (expected 0x8000000B)''
          (on_dev (irq_finish h 11) st7)
      })"

section \<open>Multiplication and division\<close>

text \<open>
  The C arithmetic of the constants of tests 1 to 5; test 6 divides by zero, which only the
  instruction defines. Lines without arguments are constant strings.
\<close>

definition c_div :: "u32 \<Rightarrow> u32 \<Rightarrow> u32" where
  "c_div x y = word_of_int (sint x sdiv sint y)"

definition c_mod :: "u32 \<Rightarrow> u32 \<Rightarrow> u32" where
  "c_mod x y = word_of_int (sint x smod sint y)"

definition csr_try64 :: "'d hart \<Rightarrow> 12 word \<Rightarrow> 12 word \<Rightarrow> 'd \<Rightarrow> u64 option \<times> 'd" where
  "csr_try64 h hi_csr lo_csr d =
     (let (hi, d1) = h_csrr h hi_csr d;
          (lo, d2) = h_csrr h lo_csr d1;
          (hi_check, d3) = h_csrr h hi_csr d2
      in (if hi \<noteq> hi_check then None else Some (push_bit 32 (ucast hi) OR ucast lo), d3))"

definition rdcycle :: "'d hart \<Rightarrow> 'd \<Rightarrow> (u64 \<times> 'd) option" where
  "rdcycle h d = poll_until (csr_try64 h 0xC80 0xC00) d"

definition perf_sum :: u32 where
  "perf_sum = foldl (\<lambda>s i. s + c_div (of_nat i * 123) 45) 0 [1..<1001]"

fun print_all :: "'d bus \<Rightarrow> (string \<times> vararg list) list \<Rightarrow> 'd shell \<Rightarrow> 'd shell option" where
  "print_all b [] st = Some st"
| "print_all b ((fmt, args) # ps) st = Option.bind (say_fmt b fmt True args st) (print_all b ps)"

definition m_lines :: "'d hart \<Rightarrow> (string \<times> vararg list) list" where
  "m_lines h =
     [(''=== M Extension Test ==='', []), ([], []),
      (''Test 1: Basic Multiplication (MUL)'', []),
      (''  %d * %d = %d'', [VInt 12345, VInt 6789, VInt (12345 * 6789)]),
      (''  Expected: %d'', [VInt 83810205]), ([], []),
      (''Test 2: Signed Multiplication'', []),
      (''  %d * %d = %d'', [VInt (- 1234), VInt 5678, VInt (- 1234 * 5678)]),
      (''  Expected: %d'', [VInt (- 7006652)]), ([], []),
      (''Test 3: Basic Division (DIV)'', []),
      (''  %d / %d = %d (remainder %d)'', [VInt 100, VInt 7, VInt (c_div 100 7), VInt (c_mod 100 7)]),
      (''  Expected: 14 (remainder 2)'', []), ([], []),
      (''Test 4: Signed Division'', []),
      (''  %d / %d = %d (remainder %d)'', [VInt (- 100), VInt 7, VInt (c_div (- 100) 7), VInt (c_mod (- 100) 7)]),
      (''  Expected: -14 (remainder -2)'', []), ([], []),
      (''Test 5: Large Multiplication'', []),
      (''  %u * %u = %u'', [VInt 65535, VInt 65535, VInt (65535 * 65535)]),
      (''  Expected: %u'', [VInt 4294836225]), ([], []),
      (''Test 6: Division by Zero'', []),
      (''  %d / %d = %d (remainder %d)'', [VInt 100, VInt 0, VInt (h_div h 100 0), VInt (h_rem h 100 0)]),
      (''  Expected: -1 (remainder 100) [RISC-V spec]'', []), ([], []),
      (''Test 7: Performance Test'', [])]"

definition shell_test_m :: "'d bus \<Rightarrow> 'd hart \<Rightarrow> cstring \<Rightarrow> 'd shell \<Rightarrow> 'd shell option" where
  "shell_test_m b h arg st =
     (if arg \<noteq> [] then say_line b ''Usage: test-m'' st
      else do {
        st1 \<leftarrow> print_all b (m_lines h) st;
        (cycle_start, d1) \<leftarrow> rdcycle h (sh_dev st1);
        (cycle_end, d2) \<leftarrow> rdcycle h d1;
        print_all b
          [(''  1000 operations completed in %llu cycles'', [VULL (cycle_end - cycle_start)]),
           (''  Result: %d'', [VInt perf_sum]), ([], []), (''=== Test Complete ==='', [])]
          (st1\<lparr>sh_dev := d2\<rparr>)
      })"

section \<open>The assembly tests\<close>

definition shell_test_priv :: "'d bus \<Rightarrow> 'd hart \<Rightarrow> cstring \<Rightarrow> 'd shell \<Rightarrow> 'd shell option" where
  "shell_test_priv b h arg st =
     (if arg \<noteq> [] then say_line b ''Usage: test-priv'' st
      else do {
        st1 \<leftarrow> say_line b ''--- M/S/U Privilege Test Start ---'' st;
        let (result, st2) = with_dev (h_privilege_test h) st1;
        if result = 0 then say_line b ''--- PRIVILEGE TEST PASSED! ---'' st2
        else say_fmt b ''--- PRIVILEGE TEST FAILED! code=%d ---'' True [VInt result] st2
      })"

text \<open>The four routines of \<open>test_sv32.S\<close>, numbered in the order of the calls.\<close>

definition shell_test_sv32 :: "'d bus \<Rightarrow> 'd hart \<Rightarrow> cstring \<Rightarrow> 'd shell \<Rightarrow> 'd shell option" where
  "shell_test_sv32 b h arg st =
     (if arg \<noteq> [] then say_line b ''Usage: test-sv32'' st
      else do {
        st1 \<leftarrow> say_line b ''--- Sv32 Data Translation Test Start ---'' st;
        let (r0, st2) = with_dev (h_sv32_test h 0) st1;
        if r0 \<noteq> 0 then say_fmt b ''--- SV32 DATA TEST FAILED! code=%d ---'' True [VInt r0] st2
        else do {
          st3 \<leftarrow> say_line b ''[OK] Sv32 data mapping'' st2;
          let (r1, st4) = with_dev (h_sv32_test h 1) st3;
          if r1 \<noteq> 0 then say_fmt b ''--- SV32 FAULT TEST FAILED! code=%d ---'' True [VInt r1] st4
          else do {
            st5 \<leftarrow> say_line b ''[OK] Sv32 load page fault'' st4;
            st6 \<leftarrow> say_line b ''[INFO] Entering Sv32 supervisor instruction test'' st5;
            let (r2, st7) = with_dev (h_sv32_test h 2) st6;
            if r2 \<noteq> 0 then say_fmt b ''--- SV32 INSTRUCTION TEST FAILED! code=%d ---'' True [VInt r2] st7
            else
              let (r3, st8) = with_dev (h_sv32_test h 3) st7
              in if r3 = 0 then say_line b ''--- SV32 DATA TEST PASSED! ---'' st8
                 else say_fmt b ''--- SV32 INSTRUCTION FAULT TEST FAILED! code=%d ---'' True [VInt r3] st8
          }
        }
      })"

text \<open>The tests as the argument of the monitor; the benchmark stays a parameter.\<close>

definition self_tests ::
    "'d bus \<Rightarrow> 'd hart \<Rightarrow> ('d shell \<Rightarrow> 'd shell option) \<Rightarrow> self_test \<Rightarrow> cstring \<Rightarrow> 'd shell \<Rightarrow> 'd shell option" where
  "self_tests b h raystones t =
     (case t of
        RAYSTONES \<Rightarrow> (\<lambda>_. raystones)
      | TEST_PRIV \<Rightarrow> shell_test_priv b h
      | TEST_SV32 \<Rightarrow> shell_test_sv32 b h
      | TEST_M \<Rightarrow> shell_test_m b h
      | TEST_CSR \<Rightarrow> shell_test_csr b h
      | TEST_IRQ \<Rightarrow> shell_test_irq b h
      | TEST_MTIME \<Rightarrow> shell_test_mtime b h
      | TEST_MSIP \<Rightarrow> shell_test_msip b h
      | TEST_SHIFT \<Rightarrow> shell_test_shift b h
      | TEST_A \<Rightarrow> shell_test_a b h)"

end
