(* ===== verification/Rv_Csr.thy ===== *)
theory Rv_Csr
  imports Melon_Prelude
begin

text \<open>
  The privileged state of the processor, \<open>rtl/core/priv_csr.sv\<close>: control and status
  registers, interrupt selection, trap entry and return. The registers are the record
  \<open>csr_unit\<close>, the ports of the execute stage the record \<open>csr_in\<close>, one clock edge is \<open>csr_clock\<close>;
  the combinational outputs are functions of both.
\<close>

section \<open>Registers\<close>

type_synonym priv = "2 word"
type_synonym csr_addr = "12 word"

abbreviation PRIV_U :: priv where "PRIV_U \<equiv> 0"
abbreviation PRIV_S :: priv where "PRIV_S \<equiv> 1"
abbreviation PRIV_M :: priv where "PRIV_M \<equiv> 3"

definition MISA_VALUE :: u32 where "MISA_VALUE = 0x40141105"
definition MSTATUS_MASK :: u32 where "MSTATUS_MASK = 0x007e19aa"
definition SSTATUS_MASK :: u32 where "SSTATUS_MASK = 0x000c0122"
definition MEDELEG_MASK :: u32 where "MEDELEG_MASK = 0x0000b3ff"
definition MIDELEG_MASK :: u32 where "MIDELEG_MASK = 0x00000222"
definition IRQ_MASK :: u32 where "IRQ_MASK = 0x00000aaa"
definition SIP_WRITE_MASK :: u32 where "SIP_WRITE_MASK = 0x00000002"
definition MIP_WRITE_MASK :: u32 where "MIP_WRITE_MASK = 0x00000222"

record csr_unit =
  cs_priv :: priv
  cs_mstatus :: u32
  cs_medeleg :: u32
  cs_mideleg :: u32
  cs_mie :: u32
  cs_mtvec :: u32
  cs_mcounteren :: u32
  cs_mscratch :: u32
  cs_mepc :: u32
  cs_mcause :: u32
  cs_mtval :: u32
  cs_stvec :: u32
  cs_scounteren :: u32
  cs_sscratch :: u32
  cs_sepc :: u32
  cs_scause :: u32
  cs_stval :: u32
  cs_satp :: u32
  cs_spending :: u32
  cs_cycle :: u64
  cs_instret :: u64

definition csr_reset :: csr_unit where
  "csr_reset = \<lparr>cs_priv = PRIV_M, cs_mstatus = 0, cs_medeleg = 0, cs_mideleg = 0, cs_mie = 0,
     cs_mtvec = 0, cs_mcounteren = 0, cs_mscratch = 0, cs_mepc = 0, cs_mcause = 0, cs_mtval = 0,
     cs_stvec = 0, cs_scounteren = 0, cs_sscratch = 0, cs_sepc = 0, cs_scause = 0, cs_stval = 0,
     cs_satp = 0, cs_spending = 0, cs_cycle = 0, cs_instret = 0\<rparr>"

text \<open>The ports: an instruction is in the execute stage when \<open>ci_fire\<close> is up.\<close>

record csr_in =
  ci_irq :: u32
  ci_fire :: bool
  ci_pc :: u32
  ci_csr :: "csr_addr option"
  ci_write :: bool
  ci_wdata :: u32
  ci_exception :: "(u32 \<times> u32) option"
  ci_mret :: bool
  ci_sret :: bool
  ci_sfence :: bool
  ci_wfi :: bool
  ci_retire :: bool

section \<open>Fields\<close>

definition put_bit :: "nat \<Rightarrow> bool \<Rightarrow> u32 \<Rightarrow> u32" where
  "put_bit n b w = (if b then set_bit n w else unset_bit n w)"

definition mpp :: "u32 \<Rightarrow> priv" where
  "mpp m = ucast (drop_bit 11 m)"

definition put_mpp :: "priv \<Rightarrow> u32 \<Rightarrow> u32" where
  "put_mpp p m = put_bit 12 (bit p 1) (put_bit 11 (bit p 0) m)"

definition warl_mstatus :: "u32 \<Rightarrow> u32" where
  "warl_mstatus v =
     (let r = v AND MSTATUS_MASK in if mpp r = 2 then put_mpp PRIV_U r else r)"

definition warl_tvec :: "u32 \<Rightarrow> u32" where
  "warl_tvec v = (if take_bit 2 v \<le> 1 then v else v AND NOT 3)"

definition even_pc :: "u32 \<Rightarrow> u32" where
  "even_pc v = v AND NOT 1"

definition cause_irq :: "nat \<Rightarrow> u32" where
  "cause_irq n = 0x80000000 OR of_nat n"

section \<open>Reads and permissions\<close>

definition mip_value :: "u32 \<Rightarrow> csr_unit \<Rightarrow> u32" where
  "mip_value irq s = (irq AND 0x888) OR (cs_spending s AND MIDELEG_MASK)"

definition csr_rdata :: "u32 \<Rightarrow> csr_addr \<Rightarrow> csr_unit \<Rightarrow> u32 option" where
  "csr_rdata irq a s =
     (if a = 0x100 then Some (cs_mstatus s AND SSTATUS_MASK)
      else if a = 0x104 then Some (cs_mie s AND cs_mideleg s)
      else if a = 0x105 then Some (cs_stvec s)
      else if a = 0x106 then Some (cs_scounteren s)
      else if a = 0x140 then Some (cs_sscratch s)
      else if a = 0x141 then Some (cs_sepc s)
      else if a = 0x142 then Some (cs_scause s)
      else if a = 0x143 then Some (cs_stval s)
      else if a = 0x144 then Some (mip_value irq s AND cs_mideleg s)
      else if a = 0x180 then Some (cs_satp s)
      else if a = 0x300 then Some (cs_mstatus s)
      else if a = 0x301 then Some MISA_VALUE
      else if a = 0x302 then Some (cs_medeleg s)
      else if a = 0x303 then Some (cs_mideleg s)
      else if a = 0x304 then Some (cs_mie s)
      else if a = 0x305 then Some (cs_mtvec s)
      else if a = 0x306 then Some (cs_mcounteren s)
      else if a = 0x310 then Some 0
      else if a = 0x340 then Some (cs_mscratch s)
      else if a = 0x341 then Some (cs_mepc s)
      else if a = 0x342 then Some (cs_mcause s)
      else if a = 0x343 then Some (cs_mtval s)
      else if a = 0x344 then Some (mip_value irq s)
      else if a = 0xb00 \<or> a = 0xc00 \<or> a = 0xc01 then Some (ucast (cs_cycle s))
      else if a = 0xb80 \<or> a = 0xc80 \<or> a = 0xc81 then Some (ucast (drop_bit 32 (cs_cycle s)))
      else if a = 0xb02 \<or> a = 0xc02 then Some (ucast (cs_instret s))
      else if a = 0xb82 \<or> a = 0xc82 then Some (ucast (drop_bit 32 (cs_instret s)))
      else if a = 0xf11 \<or> a = 0xf12 \<or> a = 0xf13 \<or> a = 0xf14 then Some 0
      else None)"

definition counter_allowed :: "csr_addr \<Rightarrow> csr_unit \<Rightarrow> bool" where
  "counter_allowed a s =
     (let ok = (\<lambda>n. if cs_priv s = PRIV_S then bit (cs_mcounteren s) n
                    else if cs_priv s = PRIV_U
                      then bit (cs_mcounteren s) n \<and> bit (cs_scounteren s) n
                    else True)
      in if a = 0xc00 \<or> a = 0xc80 then ok 0
         else if a = 0xc01 \<or> a = 0xc81 then ok 1
         else if a = 0xc02 \<or> a = 0xc82 then ok 2
         else True)"

text \<open>Bits 9 and 8 of the address are the lowest privilege, bits 11 and 10 mark read-only.\<close>

definition csr_level :: "csr_addr \<Rightarrow> priv" where
  "csr_level a = ucast (drop_bit 8 a)"

definition csr_read_only :: "csr_addr \<Rightarrow> bool" where
  "csr_read_only a \<longleftrightarrow> (ucast (drop_bit 10 a) :: priv) = 3"

definition csr_illegal_at :: "csr_in \<Rightarrow> csr_addr \<Rightarrow> csr_unit \<Rightarrow> bool" where
  "csr_illegal_at i a s \<longleftrightarrow>
     csr_rdata (ci_irq i) a s = None \<or> cs_priv s < csr_level a \<or>
     (ci_write i \<and> csr_read_only a) \<or> \<not> counter_allowed a s \<or>
     (a = 0x180 \<and> bit (cs_mstatus s) 20 \<and> cs_priv s = PRIV_S)"

definition csr_illegal :: "csr_in \<Rightarrow> csr_unit \<Rightarrow> bool" where
  "csr_illegal i s \<longleftrightarrow>
     (case ci_csr i of None \<Rightarrow> False | Some a \<Rightarrow> csr_illegal_at i a s)"

definition xret_illegal :: "csr_in \<Rightarrow> csr_unit \<Rightarrow> bool" where
  "xret_illegal i s \<longleftrightarrow>
     (ci_mret i \<and> cs_priv s \<noteq> PRIV_M) \<or>
     (ci_sret i \<and> (cs_priv s = PRIV_U \<or> (cs_priv s = PRIV_S \<and> bit (cs_mstatus s) 22))) \<or>
     (ci_sfence i \<and> (cs_priv s = PRIV_U \<or> (cs_priv s = PRIV_S \<and> bit (cs_mstatus s) 20))) \<or>
     (ci_wfi i \<and> (cs_priv s = PRIV_U \<or> (cs_priv s = PRIV_S \<and> bit (cs_mstatus s) 21)))"

section \<open>Interrupts and traps\<close>

definition m_code :: "u32 \<Rightarrow> nat" where
  "m_code c =
     (if bit c 11 then 11 else if bit c 3 then 3 else if bit c 7 then 7
      else if bit c 9 then 9 else if bit c 1 then 1 else 5)"

definition s_code :: "u32 \<Rightarrow> nat" where
  "s_code c = (if bit c 9 then 9 else if bit c 1 then 1 else 5)"

text \<open>The interrupt to take: its code and whether it goes to the supervisor.\<close>

definition interrupt :: "u32 \<Rightarrow> csr_unit \<Rightarrow> (nat \<times> bool) option" where
  "interrupt irq s =
     (let pending = mip_value irq s AND cs_mie s AND IRQ_MASK;
          m_on = (cs_priv s < PRIV_M \<or> (cs_priv s = PRIV_M \<and> bit (cs_mstatus s) 3));
          s_on = (cs_priv s = PRIV_U \<or> (cs_priv s = PRIV_S \<and> bit (cs_mstatus s) 1));
          m_cand = pending AND NOT (cs_mideleg s);
          s_cand = pending AND cs_mideleg s
      in if m_on \<and> m_cand \<noteq> 0 then Some (m_code m_cand, False)
         else if cs_priv s \<noteq> PRIV_M \<and> s_on \<and> s_cand \<noteq> 0 then Some (s_code s_cand, True)
         else None)"

record trap =
  tr_cause :: u32
  tr_tval :: u32
  tr_to_s :: bool
  tr_irq :: "nat option"

definition pending_trap :: "csr_in \<Rightarrow> csr_unit \<Rightarrow> trap option" where
  "pending_trap i s =
     (case ci_exception i of
        Some (cause, tval) \<Rightarrow>
          Some \<lparr>tr_cause = cause, tr_tval = tval,
            tr_to_s = (cs_priv s \<noteq> PRIV_M \<and> bit (cs_medeleg s) (unat (take_bit 5 cause))),
            tr_irq = None\<rparr>
      | None \<Rightarrow>
          (case interrupt (ci_irq i) s of
             None \<Rightarrow> None
           | Some (n, to_s) \<Rightarrow>
               Some \<lparr>tr_cause = cause_irq n, tr_tval = 0, tr_to_s = to_s, tr_irq = Some n\<rparr>))"

definition trap_taken :: "csr_in \<Rightarrow> csr_unit \<Rightarrow> trap option" where
  "trap_taken i s = (if ci_fire i then pending_trap i s else None)"

definition return_taken :: "csr_in \<Rightarrow> csr_unit \<Rightarrow> bool" where
  "return_taken i s \<longleftrightarrow>
     ci_fire i \<and> trap_taken i s = None \<and> \<not> xret_illegal i s \<and> (ci_mret i \<or> ci_sret i)"

definition trap_target :: "trap \<Rightarrow> csr_unit \<Rightarrow> u32" where
  "trap_target t s =
     (let v = (if tr_to_s t then cs_stvec s else cs_mtvec s)
      in case tr_irq t of
           Some n \<Rightarrow> if take_bit 2 v = 1 then (v AND NOT 3) + of_nat n * 4 else v AND NOT 3
         | None \<Rightarrow> v AND NOT 3)"

definition redirect :: "csr_in \<Rightarrow> csr_unit \<Rightarrow> u32 option" where
  "redirect i s =
     (case trap_taken i s of
        Some t \<Rightarrow> Some (trap_target t s)
      | None \<Rightarrow> if return_taken i s then Some (if ci_mret i then cs_mepc s else cs_sepc s) else None)"

section \<open>The clock edge\<close>

definition enter_trap :: "trap \<Rightarrow> u32 \<Rightarrow> csr_unit \<Rightarrow> csr_unit" where
  "enter_trap t pc s =
     (let m = cs_mstatus s
      in if tr_to_s t
         then s\<lparr>cs_sepc := even_pc pc, cs_scause := tr_cause t, cs_stval := tr_tval t,
                cs_mstatus := put_bit 8 (cs_priv s = PRIV_S) (put_bit 1 False (put_bit 5 (bit m 1) m)),
                cs_priv := PRIV_S\<rparr>
         else s\<lparr>cs_mepc := even_pc pc, cs_mcause := tr_cause t, cs_mtval := tr_tval t,
                cs_mstatus := put_mpp (cs_priv s) (put_bit 3 False (put_bit 7 (bit m 3) m)),
                cs_priv := PRIV_M\<rparr>)"

definition leave_trap :: "bool \<Rightarrow> csr_unit \<Rightarrow> csr_unit" where
  "leave_trap mret s =
     (let m = cs_mstatus s
      in if mret
         then let m1 = put_bit 7 True (put_bit 3 (bit m 7) m);
                  m2 = (if mpp m \<noteq> PRIV_M then put_bit 17 False m1 else m1)
              in s\<lparr>cs_priv := mpp m, cs_mstatus := put_mpp PRIV_U m2\<rparr>
         else s\<lparr>cs_priv := (if bit m 8 then PRIV_S else PRIV_U),
                cs_mstatus := put_bit 17 False (put_bit 8 False (put_bit 5 True (put_bit 1 (bit m 5) m)))\<rparr>)"

definition put_low :: "u32 \<Rightarrow> u64 \<Rightarrow> u64" where
  "put_low w c = push_bit 32 (drop_bit 32 c) OR ucast w"

definition put_high :: "u32 \<Rightarrow> u64 \<Rightarrow> u64" where
  "put_high w c = push_bit 32 (ucast w) OR take_bit 32 c"

text \<open>
  \<open>s\<close> holds the registers before the edge, \<open>s1\<close> those with the counters already advanced,
  on which the write of a counter half takes precedence.
\<close>

definition csr_put :: "csr_addr \<Rightarrow> u32 \<Rightarrow> csr_unit \<Rightarrow> csr_unit" where
  "csr_put a w s =
     (if a = 0x100 then
        s\<lparr>cs_mstatus := (cs_mstatus s AND NOT SSTATUS_MASK) OR (w AND SSTATUS_MASK)\<rparr>
      else if a = 0x104 then
        s\<lparr>cs_mie := (cs_mie s AND NOT (cs_mideleg s)) OR (w AND cs_mideleg s AND IRQ_MASK)\<rparr>
      else if a = 0x105 then s\<lparr>cs_stvec := warl_tvec w\<rparr>
      else if a = 0x106 then s\<lparr>cs_scounteren := w AND 7\<rparr>
      else if a = 0x140 then s\<lparr>cs_sscratch := w\<rparr>
      else if a = 0x141 then s\<lparr>cs_sepc := even_pc w\<rparr>
      else if a = 0x142 then s\<lparr>cs_scause := w\<rparr>
      else if a = 0x143 then s\<lparr>cs_stval := w\<rparr>
      else if a = 0x144 then
        s\<lparr>cs_spending := (cs_spending s AND NOT SIP_WRITE_MASK) OR (w AND SIP_WRITE_MASK)\<rparr>
      else if a = 0x180 then s\<lparr>cs_satp := w\<rparr>
      else if a = 0x300 then s\<lparr>cs_mstatus := warl_mstatus w\<rparr>
      else if a = 0x302 then s\<lparr>cs_medeleg := w AND MEDELEG_MASK\<rparr>
      else if a = 0x303 then s\<lparr>cs_mideleg := w AND MIDELEG_MASK\<rparr>
      else if a = 0x304 then s\<lparr>cs_mie := w AND IRQ_MASK\<rparr>
      else if a = 0x305 then s\<lparr>cs_mtvec := warl_tvec w\<rparr>
      else if a = 0x306 then s\<lparr>cs_mcounteren := w AND 7\<rparr>
      else if a = 0x340 then s\<lparr>cs_mscratch := w\<rparr>
      else if a = 0x341 then s\<lparr>cs_mepc := even_pc w\<rparr>
      else if a = 0x342 then s\<lparr>cs_mcause := w\<rparr>
      else if a = 0x343 then s\<lparr>cs_mtval := w\<rparr>
      else if a = 0x344 then
        s\<lparr>cs_spending := (cs_spending s AND NOT MIP_WRITE_MASK) OR (w AND MIP_WRITE_MASK)\<rparr>
      else if a = 0xb00 then s\<lparr>cs_cycle := put_low w (cs_cycle s)\<rparr>
      else if a = 0xb80 then s\<lparr>cs_cycle := put_high w (cs_cycle s)\<rparr>
      else if a = 0xb02 then s\<lparr>cs_instret := put_low w (cs_instret s)\<rparr>
      else if a = 0xb82 then s\<lparr>cs_instret := put_high w (cs_instret s)\<rparr>
      else s)"

definition csr_count :: "csr_in \<Rightarrow> csr_unit \<Rightarrow> csr_unit" where
  "csr_count i s =
     s\<lparr>cs_cycle := cs_cycle s + 1,
       cs_instret := (if ci_retire i then cs_instret s + 1 else cs_instret s)\<rparr>"

definition csr_clock :: "csr_in \<Rightarrow> csr_unit \<Rightarrow> csr_unit" where
  "csr_clock i s =
     (let s1 = csr_count i s
      in case trap_taken i s of
           Some t \<Rightarrow> enter_trap t (ci_pc i) s1
         | None \<Rightarrow>
             if return_taken i s then leave_trap (ci_mret i) s1
             else (case ci_csr i of
                     Some a \<Rightarrow>
                       if ci_fire i \<and> ci_write i \<and> \<not> csr_illegal i s
                       then csr_put a (ci_wdata i) s1 else s1
                   | None \<Rightarrow> s1))"

end
