(* ===== verification/Rv_Csr_Inv.thy ===== *)
theory Rv_Csr_Inv
  imports Rv_Csr
begin

text \<open>
  The invariant of the privileged registers: every field holds a value that its register
  can legally hold (\<open>csr_wf\<close>), after any clock edge with any inputs. What less privileged code
  cannot change without a trap, and the round trip of a trap and its return.
\<close>

section \<open>Bits\<close>

lemma bit_put_bit [simp]: "bit (put_bit n b w) k \<longleftrightarrow> (if k = n then b \<and> n < 32 else bit w k)"
  by (auto simp: put_bit_def bit_set_bit_iff bit_unset_bit_iff dest: bit_imp_le_length)

lemma in_mask_iff: "w AND NOT K = 0 \<longleftrightarrow> (\<forall>k<32. bit w k \<longrightarrow> bit K k)" for w K :: u32
  by (auto simp: bit_eq_iff bit_and_iff bit_not_iff dest: bit_imp_le_length)

lemma put_bit_mask: "w AND NOT K = 0 \<Longrightarrow> bit K n \<Longrightarrow> put_bit n b w AND NOT K = 0"
  by (auto simp: in_mask_iff)

lemma and_mask: "(w AND K) AND NOT K = 0" for w K :: u32
  by (simp add: in_mask_iff bit_and_iff)

lemma bit_mpp: "bit (mpp m) k \<longleftrightarrow> k < 2 \<and> bit m (11 + k)"
  by (auto simp: mpp_def bit_ucast_iff bit_drop_bit_eq)

lemma priv_eq_iff: "p = q \<longleftrightarrow> bit p 0 = bit q 0 \<and> bit p 1 = bit q 1" for p q :: priv
proof
  assume b: "bit p 0 = bit q 0 \<and> bit p 1 = bit q 1"
  show "p = q"
  proof (rule bit_word_eqI)
    fix n assume "n < LENGTH(2)"
    then have "n = 0 \<or> n = 1" by auto
    with b show "bit p n = bit q n" by auto
  qed
qed simp

lemma mpp_put_mpp [simp]: "mpp (put_mpp p m) = p"
  by (auto simp: priv_eq_iff bit_mpp put_mpp_def)

lemma mpp_put_bit [simp]: "n \<noteq> 11 \<Longrightarrow> n \<noteq> 12 \<Longrightarrow> mpp (put_bit n b m) = mpp m"
  by (auto simp: priv_eq_iff bit_mpp)

lemma bit_put_mpp: "bit (put_mpp p m) k \<longleftrightarrow> (if k = 11 then bit p 0 else if k = 12 then bit p 1 else bit m k)"
  by (auto simp: put_mpp_def)

lemma put_mpp_mask: "m AND NOT MSTATUS_MASK = 0 \<Longrightarrow> put_mpp p m AND NOT MSTATUS_MASK = 0"
  unfolding put_mpp_def by (intro put_bit_mask) (simp_all add: MSTATUS_MASK_def)

lemma even_pc_even [simp]: "\<not> bit (even_pc v) 0"
  by (simp add: even_pc_def bit_and_iff bit_not_iff)

lemma warl_tvec_mode: "take_bit 2 (warl_tvec v) \<le> 1"
proof (cases "take_bit 2 v \<le> 1")
  case False
  have "take_bit 2 (v AND NOT 3) = 0"
    by (simp add: take_bit_and)
  with False show ?thesis by (simp add: warl_tvec_def)
qed (simp add: warl_tvec_def)

section \<open>Legal register values\<close>

definition csr_wf :: "csr_unit \<Rightarrow> bool" where
  "csr_wf s \<longleftrightarrow>
     cs_priv s \<noteq> 2 \<and> mpp (cs_mstatus s) \<noteq> 2 \<and>
     cs_mstatus s AND NOT MSTATUS_MASK = 0 \<and> cs_medeleg s AND NOT MEDELEG_MASK = 0 \<and>
     cs_mideleg s AND NOT MIDELEG_MASK = 0 \<and> cs_mie s AND NOT IRQ_MASK = 0 \<and>
     cs_spending s AND NOT MIP_WRITE_MASK = 0 \<and>
     cs_mcounteren s AND NOT 7 = 0 \<and> cs_scounteren s AND NOT 7 = 0 \<and>
     take_bit 2 (cs_mtvec s) \<le> 1 \<and> take_bit 2 (cs_stvec s) \<le> 1 \<and>
     \<not> bit (cs_mepc s) 0 \<and> \<not> bit (cs_sepc s) 0"

lemma wf_reset: "csr_wf csr_reset"
  by (simp add: csr_wf_def csr_reset_def mpp_def)

lemma wf_count: "csr_wf s \<Longrightarrow> csr_wf (csr_count i s)"
  by (simp add: csr_wf_def csr_count_def)

lemma mstatus_bits: "bit MSTATUS_MASK n" if "n \<in> {1, 3, 5, 7, 8, 17}"
  using that by (auto simp: MSTATUS_MASK_def)

lemma wf_enter_trap: "csr_wf s \<Longrightarrow> csr_wf (enter_trap t pc s)"
  by (simp add: csr_wf_def enter_trap_def Let_def put_mpp_mask put_bit_mask mstatus_bits)

lemma wf_leave_trap: "csr_wf s \<Longrightarrow> csr_wf (leave_trap mr s)"
  by (simp add: csr_wf_def leave_trap_def Let_def put_mpp_mask put_bit_mask mstatus_bits)

lemma warl_mstatus_legal: "mpp (warl_mstatus w) \<noteq> 2" "warl_mstatus w AND NOT MSTATUS_MASK = 0"
  by (auto simp: warl_mstatus_def Let_def put_mpp_mask and_mask)

lemma sstatus_write:
  assumes "m AND NOT MSTATUS_MASK = 0"
  shows "((m AND NOT SSTATUS_MASK) OR (w AND SSTATUS_MASK)) AND NOT MSTATUS_MASK = 0"
    and "mpp ((m AND NOT SSTATUS_MASK) OR (w AND SSTATUS_MASK)) = mpp m"
proof -
  have "bit MSTATUS_MASK k" if "bit SSTATUS_MASK k" for k
  proof -
    have "SSTATUS_MASK AND NOT MSTATUS_MASK = 0" by (simp add: SSTATUS_MASK_def MSTATUS_MASK_def)
    with that show ?thesis using bit_imp_le_length [OF that] by (simp add: in_mask_iff)
  qed
  with assms show "((m AND NOT SSTATUS_MASK) OR (w AND SSTATUS_MASK)) AND NOT MSTATUS_MASK = 0"
    by (auto simp: in_mask_iff bit_or_iff bit_and_iff bit_not_iff)
  show "mpp ((m AND NOT SSTATUS_MASK) OR (w AND SSTATUS_MASK)) = mpp m"
    by (simp add: priv_eq_iff bit_mpp bit_or_iff bit_and_iff bit_not_iff SSTATUS_MASK_def)
qed

lemma sie_write:
  "m AND NOT IRQ_MASK = 0 \<Longrightarrow>
   ((m AND NOT d) OR (w AND d AND IRQ_MASK)) AND NOT IRQ_MASK = 0"
  by (auto simp: in_mask_iff bit_or_iff bit_and_iff bit_not_iff)

lemma pending_write:
  assumes "m AND NOT MIP_WRITE_MASK = 0" and "K AND NOT MIP_WRITE_MASK = 0"
  shows "((m AND NOT K) OR (w AND K)) AND NOT MIP_WRITE_MASK = 0"
  using assms by (auto simp: in_mask_iff bit_or_iff bit_and_iff bit_not_iff)

lemma wf_csr_put: "csr_wf s \<Longrightarrow> csr_wf (csr_put a w s)"
  using and_mask [of w 7] sstatus_write [of "cs_mstatus s" w] sie_write [of "cs_mie s" "cs_mideleg s" w]
    pending_write [of "cs_spending s" SIP_WRITE_MASK w] pending_write [of "cs_spending s" MIP_WRITE_MASK w]
  by (simp add: csr_wf_def csr_put_def warl_tvec_mode warl_mstatus_legal and_mask
      SIP_WRITE_MASK_def MIP_WRITE_MASK_def)

lemma csr_clock_cases:
  obtains (trap) t where "trap_taken i s = Some t" "csr_clock i s = enter_trap t (ci_pc i) (csr_count i s)"
  | (ret) "return_taken i s" "trap_taken i s = None" "csr_clock i s = leave_trap (ci_mret i) (csr_count i s)"
  | (put) a where "trap_taken i s = None" "ci_csr i = Some a" "ci_write i" "\<not> csr_illegal i s"
      "csr_clock i s = csr_put a (ci_wdata i) (csr_count i s)"
  | (count) "trap_taken i s = None" "csr_clock i s = csr_count i s"
  unfolding csr_clock_def Let_def
  by (cases "trap_taken i s"; cases "return_taken i s"; cases "ci_csr i";
      cases "ci_fire i \<and> ci_write i \<and> \<not> csr_illegal i s") auto

lemma wf_clock: "csr_wf s \<Longrightarrow> csr_wf (csr_clock i s)"
  by (cases i s rule: csr_clock_cases)
    (simp_all add: wf_count wf_enter_trap wf_leave_trap wf_csr_put)

section \<open>What less privileged code can change\<close>

text \<open>
  The registers of machine mode, less what the supervisor shares: of \<open>mie\<close> the interrupts that are not delegated, of the writable
  part of \<open>mip\<close> all but the supervisor's software interrupt.
\<close>

definition machine_regs :: "csr_unit \<Rightarrow> u32 list" where
  "machine_regs s =
     [cs_medeleg s, cs_mideleg s, cs_mtvec s, cs_mcounteren s, cs_mscratch s, cs_mepc s, cs_mcause s,
      cs_mtval s, cs_mie s AND NOT (cs_mideleg s), cs_spending s AND 0xFFFFFFFD]"

text \<open>
  \<open>mstatus\<close> less the fields that the supervisor sees in \<open>sstatus\<close> (SIE, SPIE, SPP, SUM, MXR: bits 1, 5, 8, 18, 19) and less MPRV, bit 17, which
  every return below machine mode clears: MIE, MPIE, MPP, TVM, TW and TSR, and all bits that are not implemented.
\<close>

definition m_status :: "csr_unit \<Rightarrow> u32" where
  "m_status s = cs_mstatus s AND 0xFFF1FEDD"

lemma bit_m_fields: "bit (0xFFF1FEDD :: u32) n \<longleftrightarrow> n < 32 \<and> n \<notin> {1, 5, 8, 17, 18, 19}"
proof (cases "n < 32")
  case True
  have "list_all (\<lambda>n. bit (0xFFF1FEDD :: u32) n = (n \<notin> {1, 5, 8, 17, 18, 19})) [0..<32]" by code_simp
  with True show ?thesis by (simp only: list_all_iff set_upt atLeastLessThan_iff) simp
next
  case False
  have "\<not> bit (0xFFF1FEDD :: u32) n" using bit_imp_le_length [of "0xFFF1FEDD :: u32" n] False by auto
  with False show ?thesis by blast
qed

lemma m_status_eq_iff:
  "m_status s = m_status s' \<longleftrightarrow>
     (\<forall>n<32. n \<notin> {1, 5, 8, 17, 18, 19} \<longrightarrow> bit (cs_mstatus s) n = bit (cs_mstatus s') n)"
  (is "_ \<longleftrightarrow> ?R")
proof
  assume "m_status s = m_status s'"
  then have "bit (m_status s) n = bit (m_status s') n" for n by simp
  then show ?R by (simp only: m_status_def bit_and_iff bit_m_fields) blast
next
  assume R: ?R
  show "m_status s = m_status s'"
    by (rule bit_word_eqI) (use R in \<open>simp only: m_status_def bit_and_iff bit_m_fields, blast\<close>)
qed

lemma machine_regs_count [simp]: "machine_regs (csr_count i s) = machine_regs s"
  "m_status (csr_count i s) = m_status s" "cs_priv (csr_count i s) = cs_priv s" "cs_mstatus (csr_count i s) = cs_mstatus s"
  "cs_cycle (csr_count i s) = cs_cycle s + 1" "cs_instret (csr_count i s) = cs_instret s + (if ci_retire i then 1 else 0)"
  by (simp_all add: machine_regs_def m_status_def csr_count_def)

text \<open>The counters go on counting, and MPRV can only be cleared.\<close>

definition below_frame :: "csr_unit \<Rightarrow> csr_unit \<Rightarrow> bool" where
  "below_frame s s' \<longleftrightarrow> machine_regs s' = machine_regs s \<and> m_status s' = m_status s \<and>
     (bit (cs_mstatus s') 17 \<longrightarrow> bit (cs_mstatus s) 17) \<and> cs_cycle s' = cs_cycle s \<and> cs_instret s' = cs_instret s"

lemma csr_illegal_count [simp]: "csr_illegal i s \<longleftrightarrow> (\<exists>a. ci_csr i = Some a \<and> csr_illegal_at i a s)"
  by (cases "ci_csr i") (simp_all add: csr_illegal_def)

text \<open>A supervisor that may write a register writes none of machine mode.\<close>

lemma bit_SSTATUS: "bit SSTATUS_MASK n \<Longrightarrow> n \<in> {1, 5, 8, 18, 19}"
proof -
  assume b: "bit SSTATUS_MASK n"
  have "list_all (\<lambda>n. bit SSTATUS_MASK n \<longrightarrow> n \<in> {1, 5, 8, 18, 19}) [0..<32]" by code_simp
  with b bit_imp_le_length [OF b] show ?thesis by (simp add: list_all_iff)
qed

lemma csr_put_supervisor:
  assumes "csr_level a \<le> PRIV_S"
  shows "below_frame s (csr_put a w s)" "cs_priv (csr_put a w s) = cs_priv s"
proof -
  have M: "a \<noteq> 0x300" "a \<noteq> 0x302" "a \<noteq> 0x303" "a \<noteq> 0x304" "a \<noteq> 0x305" "a \<noteq> 0x306" "a \<noteq> 0x340"
    "a \<noteq> 0x341" "a \<noteq> 0x342" "a \<noteq> 0x343" "a \<noteq> 0x344" "a \<noteq> 0xb00" "a \<noteq> 0xb80" "a \<noteq> 0xb02" "a \<noteq> 0xb82"
    using assms by (auto simp: csr_level_def word_le_nat_alt)
  have sie: "((m AND NOT d) OR (x AND d AND IRQ_MASK)) AND NOT d = m AND NOT d" for m d x :: u32
    by (rule bit_word_eqI) (auto simp: bit_or_iff bit_and_iff bit_not_iff)
  have sip: "((m AND NOT SIP_WRITE_MASK) OR (x AND SIP_WRITE_MASK)) AND 0xFFFFFFFD = m AND 0xFFFFFFFD" for m x :: u32
  proof -
    have e: "0xFFFFFFFD = NOT SIP_WRITE_MASK" by (simp add: SIP_WRITE_MASK_def)
    show ?thesis unfolding e by (rule bit_word_eqI) (auto simp: bit_or_iff bit_and_iff bit_not_iff)
  qed
  have st: "bit ((m AND NOT SSTATUS_MASK) OR (x AND SSTATUS_MASK)) n = bit m n" if "n \<notin> {1, 5, 8, 18, 19}" "n < 32" for m x :: u32 and n
    using that bit_SSTATUS [of n] by (auto simp: bit_or_iff bit_and_iff bit_not_iff)
  have "machine_regs (csr_put a w s) = machine_regs s"
    using M by (simp add: csr_put_def machine_regs_def sie sip)
  moreover have "m_status (csr_put a w s) = m_status s"
    using M st by (simp add: m_status_eq_iff csr_put_def)
  moreover have "bit (cs_mstatus (csr_put a w s)) 17 = bit (cs_mstatus s) 17"
    using M st [of 17] by (simp add: csr_put_def)
  moreover have "cs_cycle (csr_put a w s) = cs_cycle s" "cs_instret (csr_put a w s) = cs_instret s"
    using M by (simp_all add: csr_put_def)
  ultimately show "below_frame s (csr_put a w s)" unfolding below_frame_def by blast
  show "cs_priv (csr_put a w s) = cs_priv s" by (simp add: csr_put_def)
qed

lemma priv_below_M: "p \<noteq> 2 \<Longrightarrow> p \<noteq> PRIV_M \<Longrightarrow> p = PRIV_U \<or> p = PRIV_S" for p :: priv
  by (auto simp: priv_eq_iff)

lemma level_below: "\<not> cs_priv s < csr_level a \<Longrightarrow> cs_priv s = PRIV_U \<or> cs_priv s = PRIV_S \<Longrightarrow> csr_level a \<le> PRIV_S"
  by (auto simp: not_less)

text \<open>The user may write no register at all.\<close>

lemma user_writes_nothing:
  assumes "cs_priv s = PRIV_U" "ci_csr i = Some a" "ci_write i" "\<not> csr_illegal i s"
  shows False
proof -
  have lv: "csr_level a = 0" using assms by (simp add: csr_illegal_at_def not_less)
  have ro: "\<not> csr_read_only a" and imp: "csr_rdata (ci_irq i) a s \<noteq> None"
    using assms by (auto simp: csr_illegal_at_def)
  then show False using lv
    by (auto simp: csr_rdata_def csr_level_def csr_read_only_def split: if_splits)
qed

lemma return_supervisor:
  assumes "cs_priv s \<noteq> PRIV_M" "return_taken i s"
  shows "\<not> ci_mret i" "cs_priv s \<noteq> PRIV_U"
  using assms by (auto simp: return_taken_def xret_illegal_def)

lemma leave_supervisor:
  "below_frame s (leave_trap False s)" "cs_priv (leave_trap False s) \<noteq> PRIV_M"
  by (auto simp: below_frame_def leave_trap_def Let_def machine_regs_def m_status_eq_iff)

lemma enter_supervisor:
  assumes "tr_to_s t"
  shows "below_frame s (enter_trap t pc s)" "cs_priv (enter_trap t pc s) = PRIV_S"
  using assms by (auto simp: below_frame_def enter_trap_def Let_def machine_regs_def m_status_eq_iff)

lemma below_machine:
  assumes wf: "csr_wf s" and p: "cs_priv s \<noteq> PRIV_M"
    and nt: "\<And>t. trap_taken i s = Some t \<Longrightarrow> tr_to_s t"
  shows "below_frame (csr_count i s) (csr_clock i s) \<and> cs_priv (csr_clock i s) \<noteq> PRIV_M"
proof (cases i s rule: csr_clock_cases)
  case (trap t)
  then show ?thesis using enter_supervisor nt by simp
next
  case ret
  then show ?thesis using return_supervisor(1) [OF p] leave_supervisor by simp
next
  case (put a)
  have "cs_priv s = PRIV_U \<or> cs_priv s = PRIV_S"
    using wf p priv_below_M by (simp add: csr_wf_def)
  with put have "csr_level a \<le> PRIV_S"
    using level_below [of s a] by (auto simp: csr_illegal_at_def)
  with put p show ?thesis by (simp add: csr_put_supervisor)
next
  case count
  then show ?thesis using p by (simp add: below_frame_def)
qed

section \<open>Traps to machine mode and back\<close>

lemma enter_machine:
  assumes "\<not> tr_to_s t"
  shows "cs_priv (enter_trap t pc s) = PRIV_M" "cs_mepc (enter_trap t pc s) = even_pc pc"
    "cs_mcause (enter_trap t pc s) = tr_cause t" "mpp (cs_mstatus (enter_trap t pc s)) = cs_priv s"
    "\<not> bit (cs_mstatus (enter_trap t pc s)) 3"
    "bit (cs_mstatus (enter_trap t pc s)) 7 = bit (cs_mstatus s) 3"
  using assms by (simp_all add: enter_trap_def Let_def bit_put_mpp)

lemma leave_machine:
  "cs_priv (leave_trap True s) = mpp (cs_mstatus s)"
  "bit (cs_mstatus (leave_trap True s)) 3 = bit (cs_mstatus s) 7"
  "cs_mepc (leave_trap True s) = cs_mepc s"
  by (simp_all add: leave_trap_def Let_def bit_put_mpp)

text \<open>In machine mode no interrupt is taken while MIE is clear.\<close>

lemma no_interrupt:
  "cs_priv s = PRIV_M \<Longrightarrow> \<not> bit (cs_mstatus s) 3 \<Longrightarrow> interrupt irq s = None"
  by (simp add: interrupt_def Let_def)

end
