(* ===== verification/Rv_Atomic.thy ===== *)
theory Rv_Atomic
  imports Melon_Prelude
begin

text \<open>
  The atomic unit of the processor (\<open>rtl/core/cpu.sv\<close>) on the on-chip data memory
  (\<open>rtl/core/mem.sv\<close>, behind the data multiplexer of \<open>rtl/soc.sv\<close>). An LR, SC or AMO is a
  state machine of several cycles with two bus transactions; the pipeline is frozen
  meanwhile. The registers are the record \<open>atomic_unit\<close>, one clock edge is \<open>atomic_clock\<close>, the edge of
  the memory \<open>dmem_clock\<close>, both together \<open>core_clock\<close>. The abstract machine is a memory of
  words and one reservation; the theorems show that the cycles of one instruction amount to
  one step of it.
\<close>

section \<open>Arithmetic of the execute stage\<close>

definition arithmetic_shift_right :: "u32 \<Rightarrow> nat \<Rightarrow> u32" where
  "arithmetic_shift_right v n =
     drop_bit n v OR ((if bit v 31 then 0xFFFFFFFF else 0) AND NOT (drop_bit n 0xFFFFFFFF))"

definition amo_compute :: "nat \<Rightarrow> u32 \<Rightarrow> u32 \<Rightarrow> u32" where
  "amo_compute op v r =
     (if op = 0 then v + r
      else if op = 1 then r
      else if op = 2 then v XOR r
      else if op = 3 then v OR r
      else if op = 4 then v AND r
      else if op = 5 then (if sint v < sint r then v else r)
      else if op = 6 then (if sint r < sint v then v else r)
      else if op = 7 then (if v < r then v else r)
      else if op = 8 then (if r < v then v else r)
      else v)"

lemma arithmetic_shift_right_sint:
  assumes "n < 32"
  shows "arithmetic_shift_right v n = signed_drop_bit n v"
proof (rule bit_word_eqI)
  fix m assume "m < LENGTH(32)"
  then have m: "m < 32" by simp
  have ones: "(0xFFFFFFFF :: u32) = - 1" by simp
  have "bit (drop_bit n (- 1 :: u32)) m \<longleftrightarrow> m + n < 32"
    by (simp only: bit_drop_bit_eq comp_def) (simp add: add.commute numeral_eq_Suc)
  moreover have "bit (drop_bit n v) m \<longleftrightarrow> bit v (m + n)"
    by (simp only: bit_drop_bit_eq comp_def add.commute)
  moreover have "bit (signed_drop_bit n v) m \<longleftrightarrow> bit v (if 32 \<le> m + n then 31 else m + n)"
    using assms m by (simp add: bit_signed_drop_bit_iff add.commute le_diff_conv numeral_eq_Suc)
  moreover have "\<not> bit v (m + n)" if "32 \<le> m + n"
    using that bit_imp_le_length [of v "m + n"] by auto
  ultimately show "bit (arithmetic_shift_right v n) m \<longleftrightarrow> bit (signed_drop_bit n v) m"
    unfolding arithmetic_shift_right_def ones
    by (cases "bit v 31"; cases "32 \<le> m + n")
      (simp_all only: bit_or_iff bit_and_iff bit_not_iff if_True if_False not_less, simp_all add: m)
qed

section \<open>The unit\<close>

datatype atomic_state =
    ATOMIC_IDLE | ATOMIC_LR_READ | ATOMIC_LR_CAPTURE | ATOMIC_SC_WRITE
  | ATOMIC_AMO_READ | ATOMIC_AMO_CAPTURE | ATOMIC_AMO_WRITE | ATOMIC_COMPLETE

record atomic_unit =
  at_state :: atomic_state
  at_started :: bool
  at_addr :: u32
  at_store_data :: u32
  at_old_value :: u32
  at_new_value :: u32
  at_result :: u32
  at_rd :: nat
  at_op :: nat
  at_is_lr :: bool
  at_is_sc :: bool
  at_res_valid :: bool
  at_res_addr :: "30 word"
  at_wb_valid :: bool
  at_wb_rd :: nat
  at_wb_value :: u32

text \<open>
  The instruction in EX/MEM, and the events that can cancel a reservation: a write from
  outside the core, an acknowledged store, a trap, return or halt.
\<close>

record atomic_in =
  ex_isAtomic :: bool
  ex_isLR :: bool
  ex_isSC :: bool
  ex_op :: nat
  ex_rd :: nat
  ex_addr :: u32
  ex_rs2 :: u32
  ext_write :: "(u32 \<times> 4 word) option"
  ex_store_ack :: bool
  ex_cancel :: bool

definition word_addr :: "u32 \<Rightarrow> 30 word" where
  "word_addr a = ucast (drop_bit 2 a)"

definition atomic_accept :: "atomic_in \<Rightarrow> atomic_unit \<Rightarrow> atomic_unit \<Rightarrow> atomic_unit" where
  "atomic_accept i s s1 =
     (let s2 = s1\<lparr>at_addr := ex_addr i, at_store_data := ex_rs2 i, at_rd := ex_rd i,
                 at_op := ex_op i, at_is_lr := ex_isLR i, at_is_sc := ex_isSC i,
                 at_started := False\<rparr>
      in if ex_isSC i \<and> \<not> (at_res_valid s \<and> at_res_addr s = word_addr (ex_addr i))
         then s2\<lparr>at_result := 1, at_state := ATOMIC_COMPLETE, at_res_valid := False\<rparr>
         else if ex_isLR i then s2\<lparr>at_state := ATOMIC_LR_READ\<rparr>
         else if ex_isSC i then s2\<lparr>at_state := ATOMIC_SC_WRITE\<rparr>
         else s2\<lparr>at_state := ATOMIC_AMO_READ\<rparr>)"

definition atomic_advance :: "bool \<Rightarrow> u32 \<Rightarrow> atomic_unit \<Rightarrow> atomic_unit \<Rightarrow> atomic_unit" where
  "atomic_advance ack dat s s1 =
     (case at_state s of
        ATOMIC_LR_READ \<Rightarrow>
          (if \<not> at_started s then s1\<lparr>at_started := True\<rparr>
           else if ack then s1\<lparr>at_started := False, at_state := ATOMIC_LR_CAPTURE\<rparr> else s1)
      | ATOMIC_LR_CAPTURE \<Rightarrow>
          s1\<lparr>at_old_value := dat, at_result := dat, at_res_valid := True,
             at_res_addr := word_addr (at_addr s), at_state := ATOMIC_COMPLETE\<rparr>
      | ATOMIC_SC_WRITE \<Rightarrow>
          (if \<not> at_started s then s1\<lparr>at_started := True\<rparr>
           else if ack
             then s1\<lparr>at_result := 0, at_started := False, at_res_valid := False,
                     at_state := ATOMIC_COMPLETE\<rparr>
             else s1)
      | ATOMIC_AMO_READ \<Rightarrow>
          (if \<not> at_started s then s1\<lparr>at_started := True\<rparr>
           else if ack then s1\<lparr>at_started := False, at_state := ATOMIC_AMO_CAPTURE\<rparr> else s1)
      | ATOMIC_AMO_CAPTURE \<Rightarrow>
          s1\<lparr>at_old_value := dat, at_new_value := amo_compute (at_op s) dat (at_store_data s),
             at_result := dat, at_res_valid := False, at_state := ATOMIC_AMO_WRITE\<rparr>
      | ATOMIC_AMO_WRITE \<Rightarrow>
          (if \<not> at_started s then s1\<lparr>at_started := True\<rparr>
           else if ack
             then s1\<lparr>at_started := False, at_res_valid := False, at_state := ATOMIC_COMPLETE\<rparr>
             else s1)
      | ATOMIC_COMPLETE \<Rightarrow>
          s1\<lparr>at_state := ATOMIC_IDLE, at_wb_rd := at_rd s, at_wb_value := at_result s\<rparr>
      | ATOMIC_IDLE \<Rightarrow> s1\<lparr>at_state := ATOMIC_IDLE, at_started := False\<rparr>)"

definition ext_hits :: "atomic_in \<Rightarrow> atomic_unit \<Rightarrow> bool" where
  "ext_hits i s \<longleftrightarrow>
     (case ext_write i of None \<Rightarrow> False
      | Some (a, sel) \<Rightarrow> at_res_valid s \<and> word_addr a = at_res_addr s \<and> sel \<noteq> 0)"

definition atomic_clock :: "atomic_in \<Rightarrow> bool \<Rightarrow> u32 \<Rightarrow> atomic_unit \<Rightarrow> atomic_unit" where
  "atomic_clock i ack dat s =
     (let s1 = s\<lparr>at_wb_valid := (at_state s = ATOMIC_COMPLETE \<and> at_rd s \<noteq> 0)\<rparr>;
          s2 = (if ext_hits i s then s1\<lparr>at_res_valid := False\<rparr> else s1);
          s3 = (if at_state s = ATOMIC_IDLE \<and> ex_isAtomic i then atomic_accept i s s2
                else atomic_advance ack dat s s2)
      in if ex_store_ack i \<or> ex_cancel i then s3\<lparr>at_res_valid := False\<rparr> else s3)"

section \<open>The bus and the data memory\<close>

definition at_cyc :: "atomic_unit \<Rightarrow> bool" where
  "at_cyc s \<longleftrightarrow> at_state s \<in> {ATOMIC_LR_READ, ATOMIC_SC_WRITE, ATOMIC_AMO_READ, ATOMIC_AMO_WRITE}"

definition at_stb :: "atomic_unit \<Rightarrow> bool" where
  "at_stb s \<longleftrightarrow> at_cyc s \<and> at_started s"

definition at_we :: "atomic_unit \<Rightarrow> bool" where
  "at_we s \<longleftrightarrow> at_state s = ATOMIC_SC_WRITE \<or> at_state s = ATOMIC_AMO_WRITE"

definition at_dat_w :: "atomic_unit \<Rightarrow> u32" where
  "at_dat_w s =
     (if at_we s then (if at_state s = ATOMIC_SC_WRITE then at_store_data s else at_new_value s)
      else 0)"

text \<open>
  The memory holds 4096 words; the acknowledgement and the read data are registers. The
  multiplexer of \<open>soc.sv\<close> passes the read data while the acknowledgement is up and keeps
  it afterwards.
\<close>

record dmem =
  dm_words :: "12 word \<Rightarrow> u32"
  dm_ack :: bool
  dm_dat_r :: u32
  dm_rdata_q :: u32

definition data_word_addr :: "u32 \<Rightarrow> 12 word" where
  "data_word_addr a = ucast (drop_bit 2 a)"

definition dmem_clock :: "bool \<Rightarrow> bool \<Rightarrow> u32 \<Rightarrow> u32 \<Rightarrow> dmem \<Rightarrow> dmem" where
  "dmem_clock stb we adr dat m =
     m\<lparr>dm_ack := stb,
       dm_dat_r := (if stb \<and> \<not> we then dm_words m (data_word_addr adr) else dm_dat_r m),
       dm_words := (if stb \<and> we then (dm_words m)(data_word_addr adr := dat) else dm_words m),
       dm_rdata_q := (if stb \<and> dm_ack m then dm_dat_r m else dm_rdata_q m)\<rparr>"

definition dmem_rdata :: "dmem \<Rightarrow> u32" where
  "dmem_rdata m = (if dm_ack m then dm_dat_r m else dm_rdata_q m)"

type_synonym core = "atomic_unit \<times> dmem"

definition core_clock :: "atomic_in \<Rightarrow> core \<Rightarrow> core" where
  "core_clock i = (\<lambda>(s, m).
     (atomic_clock i (dm_ack m) (dmem_rdata m) s,
      dmem_clock (at_stb s) (at_we s) (at_addr s) (at_dat_w s) m))"

section \<open>The abstract machine\<close>

type_synonym arch = "(12 word \<Rightarrow> u32) \<times> 30 word option"

definition arch_lr :: "u32 \<Rightarrow> arch \<Rightarrow> u32 \<times> arch" where
  "arch_lr a = (\<lambda>(m, r). (m (data_word_addr a), m, Some (word_addr a)))"

definition arch_sc :: "u32 \<Rightarrow> u32 \<Rightarrow> arch \<Rightarrow> u32 \<times> arch" where
  "arch_sc a v = (\<lambda>(m, r).
     if r = Some (word_addr a) then (0, m(data_word_addr a := v), None) else (1, m, None))"

definition arch_amo :: "nat \<Rightarrow> u32 \<Rightarrow> u32 \<Rightarrow> arch \<Rightarrow> u32 \<times> arch" where
  "arch_amo op a v = (\<lambda>(m, r).
     (m (data_word_addr a), m(data_word_addr a := amo_compute op (m (data_word_addr a)) v), None))"

definition arch_of :: "core \<Rightarrow> arch" where
  "arch_of = (\<lambda>(s, m). (dm_words m, if at_res_valid s then Some (at_res_addr s) else None))"

definition core_idle :: "core \<Rightarrow> bool" where
  "core_idle = (\<lambda>(s, m). at_state s = ATOMIC_IDLE \<and> \<not> dm_ack m)"

definition undisturbed :: "atomic_in \<Rightarrow> bool" where
  "undisturbed i \<longleftrightarrow> ext_write i = None \<and> \<not> ex_store_ack i \<and> \<not> ex_cancel i"

definition atomic_cycles :: "atomic_in \<Rightarrow> core \<Rightarrow> nat" where
  "atomic_cycles i c =
     (if ex_isSC i then (if snd (arch_of c) = Some (word_addr (ex_addr i)) then 5 else 2)
      else if ex_isLR i then 6 else 9)"

definition arch_step :: "atomic_in \<Rightarrow> arch \<Rightarrow> u32 \<times> arch" where
  "arch_step i =
     (if ex_isSC i then arch_sc (ex_addr i) (ex_rs2 i)
      else if ex_isLR i then arch_lr (ex_addr i)
      else arch_amo (ex_op i) (ex_addr i) (ex_rs2 i))"

section \<open>One instruction\<close>

lemma undisturbed_clock:
  assumes "undisturbed i"
  shows "atomic_clock i ack dat s =
    (let s1 = s\<lparr>at_wb_valid := (at_state s = ATOMIC_COMPLETE \<and> at_rd s \<noteq> 0)\<rparr>
     in if at_state s = ATOMIC_IDLE \<and> ex_isAtomic i then atomic_accept i s s1
        else atomic_advance ack dat s s1)"
  using assms by (simp add: atomic_clock_def undisturbed_def ext_hits_def)

lemmas unit_steps = core_clock_def undisturbed_clock Let_def atomic_accept_def atomic_advance_def at_stb_def
  at_cyc_def at_we_def at_dat_w_def dmem_clock_def dmem_rdata_def

lemma length_split: "length xs = Suc n \<longleftrightarrow> (\<exists>y ys. xs = y # ys \<and> length ys = n)"
  by (rule length_Suc_conv)

text \<open>
  The cycles of each kind, with the inputs after the first arbitrary but undisturbed; the result
  registers are written out once for each kind.
\<close>

definition done_with :: "atomic_in \<Rightarrow> u32 \<Rightarrow> (12 word \<Rightarrow> u32) \<Rightarrow> 30 word option \<Rightarrow> core \<Rightarrow> bool" where
  "done_with i r words res c \<longleftrightarrow>
     core_idle c \<and> dm_words (snd c) = words \<and>
     (if at_res_valid (fst c) then Some (at_res_addr (fst c)) else None) = res \<and>
     at_wb_value (fst c) = r \<and> at_wb_rd (fst c) = ex_rd i \<and> at_wb_valid (fst c) = (ex_rd i \<noteq> 0)"

lemma lr_run:
  assumes idle: "at_state s = ATOMIC_IDLE" "\<not> dm_ack m"
    and i: "ex_isAtomic i" "ex_isLR i" "\<not> ex_isSC i" "undisturbed i"
    and q: "\<forall>j\<in>set js. undisturbed j" and len: "length js = 5"
  shows "done_with i (dm_words m (data_word_addr (ex_addr i))) (dm_words m)
           (Some (word_addr (ex_addr i))) (fold core_clock js (core_clock i (s, m)))"
proof -
  obtain i1 i2 i3 i4 i5 where js: "js = [i1, i2, i3, i4, i5]"
    using len by (auto simp: numeral_eq_Suc length_split)
  have qs: "undisturbed i1" "undisturbed i2" "undisturbed i3" "undisturbed i4" "undisturbed i5" using q js by simp_all
  show ?thesis
    unfolding js using qs i idle by (simp add: unit_steps done_with_def core_idle_def)
qed

lemma sc_run:
  assumes idle: "at_state s = ATOMIC_IDLE" "\<not> dm_ack m"
    and i: "ex_isAtomic i" "ex_isSC i" "\<not> ex_isLR i" "undisturbed i"
    and res: "at_res_valid s" "at_res_addr s = word_addr (ex_addr i)"
    and q: "\<forall>j\<in>set js. undisturbed j" and len: "length js = 4"
  shows "done_with i 0 ((dm_words m)(data_word_addr (ex_addr i) := ex_rs2 i)) None
           (fold core_clock js (core_clock i (s, m)))"
proof -
  obtain i1 i2 i3 i4 where js: "js = [i1, i2, i3, i4]"
    using len by (auto simp: numeral_eq_Suc length_split)
  have qs: "undisturbed i1" "undisturbed i2" "undisturbed i3" "undisturbed i4" using q js by simp_all
  show ?thesis
    unfolding js using qs i idle res
    by (simp add: unit_steps done_with_def core_idle_def)
qed

lemma sc_fail_run:
  assumes idle: "at_state s = ATOMIC_IDLE" "\<not> dm_ack m"
    and i: "ex_isAtomic i" "ex_isSC i" "undisturbed i"
    and res: "\<not> (at_res_valid s \<and> at_res_addr s = word_addr (ex_addr i))"
    and q: "undisturbed j"
  shows "done_with i 1 (dm_words m) None (core_clock j (core_clock i (s, m)))"
  using q i idle res by (simp add: unit_steps done_with_def core_idle_def)

lemma amo_run:
  assumes idle: "at_state s = ATOMIC_IDLE" "\<not> dm_ack m"
    and i: "ex_isAtomic i" "\<not> ex_isLR i" "\<not> ex_isSC i" "undisturbed i"
    and q: "\<forall>j\<in>set js. undisturbed j" and len: "length js = 8"
  shows "done_with i (dm_words m (data_word_addr (ex_addr i)))
           ((dm_words m)(data_word_addr (ex_addr i) :=
              amo_compute (ex_op i) (dm_words m (data_word_addr (ex_addr i))) (ex_rs2 i))) None
           (fold core_clock js (core_clock i (s, m)))"
proof -
  obtain i1 i2 i3 i4 i5 i6 i7 i8 where js: "js = [i1, i2, i3, i4, i5, i6, i7, i8]"
    using len by (auto simp: numeral_eq_Suc length_split)
  have qs: "undisturbed i1" "undisturbed i2" "undisturbed i3" "undisturbed i4" "undisturbed i5" "undisturbed i6" "undisturbed i7" "undisturbed i8"
    using q js by simp_all
  show ?thesis
    unfolding js using qs i idle by (simp add: unit_steps done_with_def core_idle_def)
qed

text \<open>All kinds together: the unit refines the abstract machine.\<close>

lemma atomic_run:
  assumes idle: "core_idle c" and i: "ex_isAtomic i" "undisturbed i" and dec: "\<not> (ex_isLR i \<and> ex_isSC i)"
    and q: "\<forall>j\<in>set js. undisturbed j" and len: "Suc (length js) = atomic_cycles i c"
  defines "c' \<equiv> fold core_clock js (core_clock i c)"
  shows "core_idle c' \<and> (at_wb_value (fst c'), arch_of c') = arch_step i (arch_of c) \<and>
    at_wb_rd (fst c') = ex_rd i \<and> at_wb_valid (fst c') = (ex_rd i \<noteq> 0)"
proof -
  obtain s m where c: "c = (s, m)" by (cases c)
  have st: "at_state s = ATOMIC_IDLE" "\<not> dm_ack m" using idle by (simp_all add: core_idle_def c)
  have of_done: "?thesis" if "done_with i r w v c'" "(r, w, v) = arch_step i (arch_of c)" for r w v
    using that by (cases c') (auto simp: done_with_def arch_of_def)
  consider "ex_isSC i" "at_res_valid s \<and> at_res_addr s = word_addr (ex_addr i)"
    | "ex_isSC i" "\<not> (at_res_valid s \<and> at_res_addr s = word_addr (ex_addr i))"
    | "ex_isLR i" "\<not> ex_isSC i" | "\<not> ex_isLR i" "\<not> ex_isSC i" by blast
  then show ?thesis
  proof cases
    case 1
    with len have "length js = 4" by (simp add: atomic_cycles_def arch_of_def c)
    with 1 dec sc_run [OF st i(1) _ _ i(2) _ _ q] show ?thesis
      by (intro of_done) (auto simp: c'_def c arch_step_def arch_sc_def arch_of_def)
  next
    case 2
    with len have "length js = 1" by (auto simp: atomic_cycles_def arch_of_def c split: if_splits)
    then obtain j where js: "js = [j]" by (auto simp: length_Suc_conv)
    with 2 q sc_fail_run [OF st i(1) _ i(2), of j] show ?thesis
      by (intro of_done) (auto simp: c'_def c arch_step_def arch_sc_def arch_of_def)
  next
    case 3
    with len have "length js = 5" by (simp add: atomic_cycles_def)
    with 3 lr_run [OF st i(1) _ _ i(2) q] show ?thesis
      by (intro of_done) (auto simp: c'_def c arch_step_def arch_lr_def arch_of_def)
  next
    case 4
    with len have "length js = 8" by (simp add: atomic_cycles_def)
    with 4 amo_run [OF st i(1) _ _ i(2) q] show ?thesis
      by (intro of_done) (auto simp: c'_def c arch_step_def arch_amo_def arch_of_def)
  qed
qed

end
