(* ===== verification/Rv_Machine.thy ===== *)
theory Rv_Machine
  imports Self_Test Rv_Csr_Inv Rv_Atomic Soc_Device
begin

text \<open>
  The provider of the self-tests' hart: the processor's privileged unit (\<open>Rv_Csr\<close>), atomic unit
  (\<open>Rv_Atomic\<close>), divider (\<open>Rv_Divider\<close>) and shifter together with the SoC's devices
  (\<open>Soc_Device\<close>) and the program's trap handler. An interrupt is taken between two instructions;
  here that is before a bus access, before a CSR instruction and in an idle loop: at every
  such point pending interrupts are served, one after the other, by trap entry, \<open>trap_handler\<close>
  and MRET. The handler itself runs with interrupts off.
\<close>

section \<open>State\<close>

record machine =
  ma_soc :: soc
  ma_csr :: csr_unit
  ma_core :: core
  ma_vars :: "u32 \<times> u32"
  ma_pc :: u32
  ma_lost :: bool

text \<open>
  \<open>cpu.sv\<close> and \<open>soc.sv\<close>: bit 7 is the CLINT's timer interrupt, bit 3 its software interrupt. The
  external interrupt (bit 11) comes from the timer peripheral, whose compare unit is not in the
  device model.
\<close>

definition irq_pending :: "machine \<Rightarrow> u32" where
  "irq_pending m =
     (if timer_irq (ma_soc m) then 0x80 else 0) OR (if s_msip (ma_soc m) then 0x8 else 0)"

text \<open>
  An instruction in the execute stage: the ports of the privileged unit. The write enable and
  the data of the three CSR instructions are those of \<open>cpu.sv\<close>; an illegal access raises
  exception 2.
\<close>

datatype csr_op = CSR_READ | CSR_RW | CSR_RS | CSR_RC

definition idle_in :: "machine \<Rightarrow> csr_in" where
  "idle_in m = \<lparr>ci_irq = irq_pending m, ci_fire = True, ci_pc = ma_pc m, ci_csr = None, ci_write = False,
     ci_wdata = 0, ci_exception = None, ci_mret = False, ci_sret = False, ci_sfence = False,
     ci_wfi = False, ci_retire = True\<rparr>"

definition csr_wdata :: "csr_op \<Rightarrow> u32 \<Rightarrow> u32 \<Rightarrow> u32" where
  "csr_wdata op r x = (case op of CSR_RS \<Rightarrow> r OR x | CSR_RC \<Rightarrow> r AND NOT x | _ \<Rightarrow> x)"

definition csr_value :: "csr_addr \<Rightarrow> machine \<Rightarrow> u32" where
  "csr_value a m = (case csr_rdata (irq_pending m) a (ma_csr m) of Some v \<Rightarrow> v | None \<Rightarrow> 0)"

definition csr_ports :: "csr_op \<Rightarrow> csr_addr \<Rightarrow> u32 \<Rightarrow> machine \<Rightarrow> csr_in" where
  "csr_ports op a x m =
     (let i = (idle_in m)\<lparr>ci_csr := Some a, ci_write := (op \<noteq> CSR_READ),
                ci_wdata := csr_wdata op (csr_value a m) x\<rparr>
      in if csr_illegal i (ma_csr m) then i\<lparr>ci_exception := Some (2, 0)\<rparr> else i)"

definition ecall_cause :: "priv \<Rightarrow> u32" where
  "ecall_cause p = (if p = PRIV_U then 8 else if p = PRIV_S then 9 else 11)"

definition ecall_in :: "machine \<Rightarrow> csr_in" where
  "ecall_in m = (idle_in m)\<lparr>ci_exception := Some (ecall_cause (cs_priv (ma_csr m)), 0)\<rparr>"

definition mret_in :: "machine \<Rightarrow> csr_in" where
  "mret_in m = (idle_in m)\<lparr>ci_mret := True\<rparr>"

section \<open>Instructions with interrupts off\<close>

text \<open>
  One clock edge of the privileged unit and the devices, then the new program counter. A trap
  and a return drop the reservation (\<open>cpu.sv\<close>).
\<close>

definition drop_reservation :: "core \<Rightarrow> core" where
  "drop_reservation c = ((fst c)\<lparr>at_res_valid := False\<rparr>, snd c)"

definition issue :: "csr_in \<Rightarrow> machine \<Rightarrow> machine" where
  "issue i m =
     m\<lparr>ma_csr := csr_clock i (ma_csr m), ma_soc := soc_clock (ma_soc m),
       ma_pc := (case redirect i (ma_csr m) of Some a \<Rightarrow> a | None \<Rightarrow> ma_pc m),
       ma_core := (if redirect i (ma_csr m) = None then ma_core m else drop_reservation (ma_core m))\<rparr>"

definition csr_do :: "csr_op \<Rightarrow> csr_addr \<Rightarrow> u32 \<Rightarrow> machine \<Rightarrow> u32 \<times> machine" where
  "csr_do op a x m = (csr_value a m, issue (csr_ports op a x m) m)"

definition raw_bus :: "machine bus" where
  "raw_bus =
     \<lparr>bus_rd = (\<lambda>a m. let (v, s) = soc_rd a (ma_soc m) in (v, m\<lparr>ma_soc := s\<rparr>)),
      bus_wr = (\<lambda>a v m. m\<lparr>ma_soc := soc_wr a v (ma_soc m)\<rparr>)\<rparr>"

text \<open>
  The atomic instructions run through the unit's state machine; \<open>n\<close> is the number of its
  cycles. The encoding of the operation is \<open>amo_op_d\<close> of \<open>cpu.sv\<close>.
\<close>

definition amo_op_d :: "amo_instr \<Rightarrow> nat" where
  "amo_op_d i = (case i of AMOADD \<Rightarrow> 0 | AMOSWAP \<Rightarrow> 1 | AMOXOR \<Rightarrow> 2 | AMOOR \<Rightarrow> 3 | AMOAND \<Rightarrow> 4
     | AMOMIN \<Rightarrow> 5 | AMOMAX \<Rightarrow> 6 | AMOMINU \<Rightarrow> 7 | AMOMAXU \<Rightarrow> 8)"

definition atomic_idle :: atomic_in where
  "atomic_idle = \<lparr>ex_isAtomic = False, ex_isLR = False, ex_isSC = False, ex_op = 0, ex_rd = 0,
     ex_addr = 0, ex_rs2 = 0, ext_write = None, ex_store_ack = False, ex_cancel = False\<rparr>"

definition lr_in :: "u32 \<Rightarrow> atomic_in" where
  "lr_in a = atomic_idle\<lparr>ex_isAtomic := True, ex_isLR := True, ex_addr := a, ex_rd := 10\<rparr>"

definition sc_in :: "u32 \<Rightarrow> u32 \<Rightarrow> atomic_in" where
  "sc_in a v = atomic_idle\<lparr>ex_isAtomic := True, ex_isSC := True, ex_addr := a, ex_rs2 := v, ex_rd := 10\<rparr>"

definition amo_in :: "amo_instr \<Rightarrow> u32 \<Rightarrow> u32 \<Rightarrow> atomic_in" where
  "amo_in i a v =
     atomic_idle\<lparr>ex_isAtomic := True, ex_op := amo_op_d i, ex_addr := a, ex_rs2 := v, ex_rd := 10\<rparr>"

definition run_atomic :: "atomic_in \<Rightarrow> machine \<Rightarrow> u32 \<times> machine" where
  "run_atomic i m =
     (let n = atomic_cycles i (ma_core m);
          c = (core_clock atomic_idle ^^ (n - 1)) (core_clock i (ma_core m))
      in (at_wb_value (fst c), m\<lparr>ma_core := c, ma_soc := (soc_clock ^^ n) (ma_soc m)\<rparr>))"

text \<open>A plain load and a plain store; the acknowledged store drops the reservation.\<close>

definition load_word :: "u32 \<Rightarrow> machine \<Rightarrow> u32 \<times> machine" where
  "load_word a m = (dm_words (snd (ma_core m)) (data_word_addr a), m\<lparr>ma_soc := soc_clock (ma_soc m)\<rparr>)"

definition store_word :: "u32 \<Rightarrow> u32 \<Rightarrow> machine \<Rightarrow> machine" where
  "store_word a v m =
     (case ma_core m of (u, d) \<Rightarrow>
        m\<lparr>ma_core := (u\<lparr>at_res_valid := False\<rparr>, d\<lparr>dm_words := (dm_words d)(data_word_addr a := v)\<rparr>),
          ma_soc := soc_clock (ma_soc m)\<rparr>)"

definition divide :: "nat \<Rightarrow> u32 \<Rightarrow> u32 \<Rightarrow> u32" where
  "divide f3 x y = div_wb_value f3 (cpu_div f3 x y divider_reset)"

text \<open>
  The hart as the handler sees it: no interrupt is taken. \<open>base\<close> is the address of the handler,
  \<open>words\<close> that of the test's array; the two assembly tests stay parameters.
\<close>

record assembly_tests =
  as_privilege :: "machine \<Rightarrow> u32 \<times> machine"
  as_sv32 :: "nat \<Rightarrow> machine \<Rightarrow> u32 \<times> machine"

definition raw_hart :: "u32 \<Rightarrow> u32 \<Rightarrow> assembly_tests \<Rightarrow> machine hart" where
  "raw_hart base words asm =
     \<lparr>h_srai = arithmetic_shift_right, h_srli = (\<lambda>v n. drop_bit n v),
      h_sra = (\<lambda>v a. arithmetic_shift_right v (unat (take_bit 5 a))), h_c_srai = arithmetic_shift_right,
      h_div = divide 4, h_rem = divide 6,
      h_lw = load_word, h_sw = store_word, h_lr = (\<lambda>a. run_atomic (lr_in a)),
      h_sc = (\<lambda>a v. run_atomic (sc_in a v)), h_amo = (\<lambda>i a v. run_atomic (amo_in i a v)),
      h_csrr = (\<lambda>a. csr_do CSR_READ a 0), h_csrw = (\<lambda>a x m. snd (csr_do CSR_RW a x m)),
      h_csrs = (\<lambda>a x m. snd (csr_do CSR_RS a x m)), h_csrc = (\<lambda>a x m. snd (csr_do CSR_RC a x m)),
      h_ecall = (\<lambda>m. issue (ecall_in m) m), h_spin = (\<lambda>m. m\<lparr>ma_soc := soc_clock (ma_soc m)\<rparr>),
      h_trap_vars = ma_vars, h_set_trap_vars = (\<lambda>v m. m\<lparr>ma_vars := v\<rparr>),
      h_handler_addr = base, h_a_words = words,
      h_privilege_test = as_privilege asm, h_sv32_test = as_sv32 asm\<rparr>"

section \<open>Interrupts\<close>

text \<open>
  After the entry the program counter must be at the handler, otherwise control is lost.
  The handler ends with MRET.
\<close>

definition run_handler :: "machine hart \<Rightarrow> machine \<Rightarrow> machine" where
  "run_handler h m =
     (if ma_pc m = h_handler_addr h
      then let m1 = trap_handler raw_bus h m in issue (mret_in m1) m1
      else m\<lparr>ma_lost := True\<rparr>)"

definition take_irq :: "machine hart \<Rightarrow> machine \<Rightarrow> machine" where
  "take_irq h m =
     (if ma_lost m then m
      else case interrupt (irq_pending m) (ma_csr m) of
        None \<Rightarrow> m
      | Some _ \<Rightarrow> run_handler h (issue (idle_in m) m))"

text \<open>There are two sources, and the handler silences the one it serves.\<close>

definition serve :: "machine hart \<Rightarrow> machine \<Rightarrow> machine" where
  "serve h m = take_irq h (take_irq h m)"

section \<open>The program's view\<close>

definition irq_bus :: "machine hart \<Rightarrow> machine bus" where
  "irq_bus h =
     \<lparr>bus_rd = (\<lambda>a m. bus_rd raw_bus a (serve h m)), bus_wr = (\<lambda>a v m. bus_wr raw_bus a v (serve h m))\<rparr>"

text \<open>An iteration of an idle loop takes \<open>k\<close> cycles.\<close>

definition irq_hart :: "nat \<Rightarrow> machine hart \<Rightarrow> machine hart" where
  "irq_hart k h =
     h\<lparr>h_lw := (\<lambda>a m. h_lw h a (serve h m)), h_sw := (\<lambda>a v m. h_sw h a v (serve h m)),
       h_lr := (\<lambda>a m. h_lr h a (serve h m)), h_sc := (\<lambda>a v m. h_sc h a v (serve h m)),
       h_amo := (\<lambda>i a v m. h_amo h i a v (serve h m)),
       h_csrr := (\<lambda>a m. h_csrr h a (serve h m)), h_csrw := (\<lambda>a x m. h_csrw h a x (serve h m)),
       h_csrs := (\<lambda>a x m. h_csrs h a x (serve h m)), h_csrc := (\<lambda>a x m. h_csrc h a x (serve h m)),
       h_ecall := (\<lambda>m. run_handler h (h_ecall h (serve h m))),
       h_spin := (\<lambda>m. let m1 = serve h m in m1\<lparr>ma_soc := (soc_clock ^^ k) (ma_soc m1)\<rparr>)\<rparr>"

end
