(* ===== verification/Rv_Machine_Inv.thy ===== *)
theory Rv_Machine_Inv
  imports Rv_Machine
begin

text \<open>
  What an instruction, the trap handler and the service of an interrupt do to the machine.
  \<open>machine_ok\<close> holds between instructions of the monitor; an interrupt served there returns to
  the interrupted instruction with the privilege and the interrupt enable unchanged, records
  its cause and silences its source.
\<close>

section \<open>The CSR instructions of machine mode\<close>

definition m_off :: "machine \<Rightarrow> bool" where
  "m_off m \<longleftrightarrow> cs_priv (ma_csr m) = PRIV_M \<and> \<not> bit (cs_mstatus (ma_csr m)) 3"

lemma trap_taken_off:
  "m_off m \<Longrightarrow> ci_exception i = None \<Longrightarrow> trap_taken i (ma_csr m) = None"
  by (simp add: m_off_def trap_taken_def pending_trap_def no_interrupt)

definition plain_csr :: "csr_addr \<Rightarrow> bool" where
  "plain_csr a \<longleftrightarrow> a \<in> {0x300, 0x304, 0x305, 0x340, 0x341, 0x342}"

lemma plain_csr_legal:
  assumes "plain_csr a" "cs_priv s = PRIV_M"
  shows "\<not> csr_illegal_at i a s"
  using assms by (auto simp: plain_csr_def csr_illegal_at_def csr_rdata_def csr_level_def csr_read_only_def
      counter_allowed_def)

lemma csr_ports_plain:
  assumes "plain_csr a" "cs_priv (ma_csr m) = PRIV_M"
  shows "csr_ports op a x m = (idle_in m)\<lparr>ci_csr := Some a, ci_write := (op \<noteq> CSR_READ),
    ci_wdata := csr_wdata op (csr_value a m) x\<rparr>"
  using assms by (simp add: csr_ports_def Let_def plain_csr_legal csr_illegal_def idle_in_def)

lemma no_redirect:
  "trap_taken i s = None \<Longrightarrow> \<not> ci_mret i \<Longrightarrow> \<not> ci_sret i \<Longrightarrow> redirect i s = None \<and> \<not> return_taken i s"
  by (simp add: redirect_def return_taken_def)

lemma csr_read_off:
  assumes "m_off m" "plain_csr a"
  shows "csr_do CSR_READ a x m =
    (csr_value a m, m\<lparr>ma_csr := csr_count (idle_in m) (ma_csr m), ma_soc := soc_clock (ma_soc m)\<rparr>)"
proof -
  let ?i = "(idle_in m)\<lparr>ci_csr := Some a, ci_write := False, ci_wdata := x\<rparr>"
  have t: "trap_taken ?i (ma_csr m) = None" by (rule trap_taken_off [OF assms(1)]) (simp add: idle_in_def)
  then have "redirect ?i (ma_csr m) = None \<and> \<not> return_taken ?i (ma_csr m)"
    by (rule no_redirect) (simp_all add: idle_in_def)
  with t assms show ?thesis
    by (simp add: csr_do_def csr_ports_plain m_off_def csr_wdata_def issue_def csr_clock_def Let_def
        csr_count_def idle_in_def)
qed

lemma csr_write_quiet:
  assumes p: "cs_priv (ma_csr m) = PRIV_M" and i: "interrupt (irq_pending m) (ma_csr m) = None"
    and a: "plain_csr a" "op \<noteq> CSR_READ"
  shows "snd (csr_do op a x m) =
    m\<lparr>ma_csr := csr_put a (csr_wdata op (csr_value a m) x) (csr_count (idle_in m) (ma_csr m)),
      ma_soc := soc_clock (ma_soc m)\<rparr>"
proof -
  let ?i = "(idle_in m)\<lparr>ci_csr := Some a, ci_write := True, ci_wdata := csr_wdata op (csr_value a m) x\<rparr>"
  have t: "trap_taken ?i (ma_csr m) = None"
    using i by (simp add: trap_taken_def pending_trap_def idle_in_def)
  then have r: "redirect ?i (ma_csr m) = None \<and> \<not> return_taken ?i (ma_csr m)"
    by (rule no_redirect) (simp_all add: idle_in_def)
  have "\<not> csr_illegal ?i (ma_csr m)"
    using a p by (simp add: plain_csr_legal csr_illegal_def)
  with t r a p show ?thesis
    by (simp add: csr_do_def csr_ports_plain issue_def csr_clock_def Let_def csr_count_def idle_in_def)
qed

lemma csr_write_off:
  assumes "m_off m" "plain_csr a" "op \<noteq> CSR_READ"
  shows "snd (csr_do op a x m) =
    m\<lparr>ma_csr := csr_put a (csr_wdata op (csr_value a m) x) (csr_count (idle_in m) (ma_csr m)),
      ma_soc := soc_clock (ma_soc m)\<rparr>"
  using assms by (intro csr_write_quiet) (simp_all add: m_off_def no_interrupt)

lemmas csr_put_plain [simp] =
  csr_put_def [of "0x300"] csr_put_def [of "0x304"] csr_put_def [of "0x305"] csr_put_def [of "0x340"]
  csr_put_def [of "0x341"] csr_put_def [of "0x342"]

lemma csr_values [simp]:
  "csr_value 0x300 m = cs_mstatus (ma_csr m)" "csr_value 0x304 m = cs_mie (ma_csr m)"
  "csr_value 0x305 m = cs_mtvec (ma_csr m)" "csr_value 0x340 m = cs_mscratch (ma_csr m)"
  "csr_value 0x341 m = cs_mepc (ma_csr m)" "csr_value 0x342 m = cs_mcause (ma_csr m)"
  by (simp_all add: csr_value_def csr_rdata_def)

lemma plain_csrs [simp]: "plain_csr 0x300" "plain_csr 0x304" "plain_csr 0x305" "plain_csr 0x340"
  "plain_csr 0x341" "plain_csr 0x342"
  by (simp_all add: plain_csr_def)

lemma count_fields [simp]:
  "cs_mstatus (csr_count i s) = cs_mstatus s" "cs_mie (csr_count i s) = cs_mie s"
  "cs_mtvec (csr_count i s) = cs_mtvec s" "cs_mscratch (csr_count i s) = cs_mscratch s"
  "cs_mepc (csr_count i s) = cs_mepc s" "cs_mcause (csr_count i s) = cs_mcause s"
  "cs_spending (csr_count i s) = cs_spending s"
  "cs_mideleg (csr_count i s) = cs_mideleg s" "cs_medeleg (csr_count i s) = cs_medeleg s"
  by (simp_all add: csr_count_def)

section \<open>Time\<close>

text \<open>What the passing of cycles and the handler's accesses leave alone in the devices.\<close>

definition soc_later :: "soc \<Rightarrow> soc \<Rightarrow> bool" where
  "soc_later s s' \<longleftrightarrow>
     s_cmp s' = s_cmp s \<and> s_sent s' = s_sent s \<and> s_tx_busy s' \<le> s_tx_busy s \<and>
     s_cyc s \<le> s_cyc s' \<and> (s_msip s' \<longrightarrow> s_msip s)"

lemma soc_later_refl [simp]: "soc_later s s"
  by (simp add: soc_later_def)

lemma soc_later_trans: "soc_later s s' \<Longrightarrow> soc_later s' s'' \<Longrightarrow> soc_later s s''"
  by (auto simp: soc_later_def)

lemma msip_clock [simp]: "s_msip (soc_clock s) = s_msip s"
  by (simp add: soc_clock_def uart_rx_clock_def timer_clock_def Let_def split: list.splits prod.splits)

lemma soc_later_clock [simp]: "soc_later s (soc_clock s)"
  by (simp add: soc_later_def)

lemma soc_later_clocks: "soc_later s ((soc_clock ^^ n) s)"
  by (induction n) (auto intro: soc_later_trans)

lemma clocks_cyc [simp]: "s_cyc ((soc_clock ^^ n) s) = s_cyc s + n" "s_msip ((soc_clock ^^ n) s) = s_msip s"
  by (induction n) simp_all

lemma soc_later_rd: "soc_later s (snd (soc_rd a s))"
proof -
  obtain v s' where r: "soc_rd a s = (v, s')" by (cases "soc_rd a s")
  then have "s_msip s' = s_msip s" "s_cmp s' = s_cmp s" by (auto simp: soc_rd_def Let_def)
  with soc_rd_fields [OF r] r show ?thesis by (simp add: soc_later_def)
qed

text \<open>A write to MSIP, as the handler makes it.\<close>

lemma soc_clear_msip:
  "soc_later s (clint_clear_msip soc_bus s)" "\<not> s_msip (clint_clear_msip soc_bus s)"
  by (simp_all add: clint_clear_msip_def soc_wr_def soc_write_effect_def soc_addrs soc_later_def)

section \<open>The trap handler\<close>

text \<open>
  The parts of the machine that matter to the program, apart from the devices and counters.
\<close>

lemma cause_irq_bits:
  assumes "n \<in> {3, 7, 11}"
  shows "cause_irq n AND 0x80000000 \<noteq> 0" "cause_irq n AND 0xFF = of_nat n"
  using assms by (auto simp: cause_irq_def)

lemma raw_simps [simp]:
  "h_csrr (raw_hart base words asm) a = csr_do CSR_READ a 0"
  "h_csrw (raw_hart base words asm) a x m = snd (csr_do CSR_RW a x m)"
  "h_csrs (raw_hart base words asm) a x m = snd (csr_do CSR_RS a x m)"
  "h_csrc (raw_hart base words asm) a x m = snd (csr_do CSR_RC a x m)"
  "h_set_trap_vars (raw_hart base words asm) v m = m\<lparr>ma_vars := v\<rparr>"
  "h_trap_vars (raw_hart base words asm) = ma_vars"
  "h_handler_addr (raw_hart base words asm) = base"
  by (simp_all add: raw_hart_def)

lemma raw_clear_msip [simp]:
  "clint_clear_msip raw_bus m = m\<lparr>ma_soc := clint_clear_msip soc_bus (ma_soc m)\<rparr>"
  by (simp add: clint_clear_msip_def raw_bus_def)

lemma raw_bus_simps [simp]:
  "bus_wr raw_bus a v m = m\<lparr>ma_soc := soc_wr a v (ma_soc m)\<rparr>"
  "bus_rd raw_bus a m = (fst (soc_rd a (ma_soc m)), m\<lparr>ma_soc := snd (soc_rd a (ma_soc m))\<rparr>)"
  by (simp_all add: raw_bus_def split: prod.splits)

definition same_but :: "machine \<Rightarrow> machine \<Rightarrow> bool" where
  "same_but m m' \<longleftrightarrow>
     ma_core m' = ma_core m \<and> ma_pc m' = ma_pc m \<and> ma_lost m' = ma_lost m \<and>
     cs_priv (ma_csr m') = cs_priv (ma_csr m) \<and> cs_mstatus (ma_csr m') = cs_mstatus (ma_csr m) \<and>
     cs_mtvec (ma_csr m') = cs_mtvec (ma_csr m) \<and> cs_mscratch (ma_csr m') = cs_mscratch (ma_csr m) \<and>
     cs_mideleg (ma_csr m') = cs_mideleg (ma_csr m) \<and> soc_later (ma_soc m) (ma_soc m')"

lemma handler_mti:
  fixes base words :: u32 and asm :: assembly_tests
  assumes off: "m_off m" and c: "cs_mcause (ma_csr m) = cause_irq 7"
  defines "m' \<equiv> trap_handler raw_bus (raw_hart base words asm) m"
  shows "same_but m m' \<and> ma_vars m' = (1, cause_irq 7) \<and> cs_mepc (ma_csr m') = cs_mepc (ma_csr m) \<and>
    cs_mie (ma_csr m') = (cs_mie (ma_csr m) AND NOT 0x80) AND IRQ_MASK"
  unfolding m'_def using off [unfolded m_off_def] c cause_irq_bits [of 7] soc_later_trans [OF soc_later_clock soc_later_clock]
  by (simp add: trap_handler_def clear_cause_def csr_read_off m_off_def csr_write_off same_but_def csr_wdata_def)

lemma handler_msi:
  fixes base words :: u32 and asm :: assembly_tests
  assumes off: "m_off m" and c: "cs_mcause (ma_csr m) = cause_irq 3"
  defines "m' \<equiv> trap_handler raw_bus (raw_hart base words asm) m"
  shows "same_but m m' \<and> ma_vars m' = (1, cause_irq 3) \<and> cs_mepc (ma_csr m') = cs_mepc (ma_csr m) \<and>
    cs_mie (ma_csr m') = cs_mie (ma_csr m) \<and> \<not> s_msip (ma_soc m')"
  unfolding m'_def using off [unfolded m_off_def] c cause_irq_bits [of 3] soc_later_trans [OF soc_later_clock soc_clear_msip(1)]
  by (simp add: trap_handler_def clear_cause_def csr_read_off m_off_def same_but_def soc_clear_msip)

lemma handler_exception:
  fixes base words :: u32 and asm :: assembly_tests
  assumes off: "m_off m" and c: "cs_mcause (ma_csr m) AND 0x80000000 = 0"
  defines "m' \<equiv> trap_handler raw_bus (raw_hart base words asm) m"
  shows "same_but m m' \<and> ma_vars m' = (1, cs_mcause (ma_csr m)) \<and>
    cs_mepc (ma_csr m') = even_pc (cs_mepc (ma_csr m) + 4) \<and> cs_mie (ma_csr m') = cs_mie (ma_csr m)"
proof -
  have "soc_later s (soc_clock (soc_clock (soc_clock s)))" for s
    by (meson soc_later_clock soc_later_trans)
  then show ?thesis
    unfolding m'_def using off [unfolded m_off_def] c
    by (simp add: trap_handler_def clear_cause_def csr_read_off m_off_def csr_write_off same_but_def csr_wdata_def)
qed

section \<open>Between two instructions of the monitor\<close>

definition m_ie :: "machine \<Rightarrow> bool" where
  "m_ie m \<longleftrightarrow> bit (cs_mstatus (ma_csr m)) 3"

definition machine_ok :: "u32 \<Rightarrow> machine \<Rightarrow> bool" where
  "machine_ok base m \<longleftrightarrow>
     csr_wf (ma_csr m) \<and> cs_priv (ma_csr m) = PRIV_M \<and> cs_spending (ma_csr m) = 0 \<and>
     core_idle (ma_core m) \<and> \<not> ma_lost m \<and> \<not> bit (ma_pc m) 0 \<and> (m_ie m \<longrightarrow> cs_mtvec (ma_csr m) = base)"

definition wants :: "nat \<Rightarrow> machine \<Rightarrow> bool" where
  "wants n m \<longleftrightarrow> m_ie m \<and> bit (cs_mie (ma_csr m)) n \<and>
     (if n = 3 then s_msip (ma_soc m) else timer_irq (ma_soc m))"

lemma bit_lines: "bit (0x80 :: int) k \<longleftrightarrow> k = 7" "bit (8 :: int) k \<longleftrightarrow> k = 3"
  using bit_exp_iff [where 'a = int, of 7 k] bit_exp_iff [where 'a = int, of 3 k] by auto

lemma interrupt_ok:
  assumes ok: "machine_ok base m"
  shows "interrupt (irq_pending m) (ma_csr m) =
    (if wants 3 m then Some (3, False) else if wants 7 m then Some (7, False) else None)"
proof -
  let ?s = "ma_csr m"
  define c where "c = ((mip_value (irq_pending m) ?s AND cs_mie ?s) AND IRQ_MASK) AND NOT (cs_mideleg ?s)"
  have sp: "cs_spending ?s = 0" and p: "cs_priv ?s = PRIV_M"
    and d: "cs_mideleg ?s AND NOT MIDELEG_MASK = 0"
    using ok by (simp_all add: machine_ok_def csr_wf_def)
  have nd: "\<not> bit (cs_mideleg ?s) 3" "\<not> bit (cs_mideleg ?s) 7"
    using d [unfolded in_mask_iff, rule_format, of 3] d [unfolded in_mask_iff, rule_format, of 7]
    by (auto simp: MIDELEG_MASK_def)
  have bits: "bit c k \<longleftrightarrow> (k = 3 \<and> s_msip (ma_soc m) \<and> bit (cs_mie ?s) 3) \<or>
      (k = 7 \<and> timer_irq (ma_soc m) \<and> bit (cs_mie ?s) 7)" for k
    using nd unfolding c_def mip_value_def irq_pending_def sp
    by (auto simp: bit_simps bit_lines IRQ_MASK_def split: if_splits)
  have nz: "c \<noteq> 0 \<longleftrightarrow> bit c 3 \<or> bit c 7"
  proof -
    have "c = 0 \<longleftrightarrow> (\<forall>k. \<not> bit c k)" by (auto intro: bit_word_eqI)
    with bits show ?thesis by blast
  qed
  have "interrupt (irq_pending m) ?s = (if m_ie m \<and> c \<noteq> 0 then Some (m_code c, False) else None)"
    by (simp add: interrupt_def Let_def p m_ie_def c_def and.assoc)
  then show ?thesis
    unfolding nz by (auto simp: m_code_def wants_def bits)
qed

text \<open>What the service of one interrupt leaves unchanged.\<close>

definition served :: "machine \<Rightarrow> machine \<Rightarrow> bool" where
  "served m m' \<longleftrightarrow>
     m_ie m' = m_ie m \<and> ma_pc m' = ma_pc m \<and> dm_words (snd (ma_core m')) = dm_words (snd (ma_core m)) \<and>
     cs_mtvec (ma_csr m') = cs_mtvec (ma_csr m) \<and> cs_mscratch (ma_csr m') = cs_mscratch (ma_csr m) \<and>
     soc_later (ma_soc m) (ma_soc m')"

lemma served_refl [simp]: "served m m"
  by (simp add: served_def)

lemma served_trans: "served m m' \<Longrightarrow> served m' m'' \<Longrightarrow> served m m''"
  by (auto simp: served_def intro: soc_later_trans)

section \<open>Serving an interrupt\<close>

lemma wf_issue: "csr_wf (ma_csr m) \<Longrightarrow> csr_wf (ma_csr (issue i m))"
  by (simp add: issue_def wf_clock)

lemma wf_handler:
  "csr_wf (ma_csr m) \<Longrightarrow> csr_wf (ma_csr (trap_handler raw_bus (raw_hart base words asm) m))"
  by (simp add: trap_handler_def clear_cause_def csr_do_def Let_def wf_issue)

lemma spending_handler:
  assumes "m_off m"
  shows "cs_spending (ma_csr (trap_handler raw_bus (raw_hart base words asm) m)) = cs_spending (ma_csr m)"
  using assms [unfolded m_off_def]
  by (simp add: trap_handler_def clear_cause_def csr_read_off csr_write_off m_off_def csr_wdata_def)

lemma drop_idle [simp]:
  "core_idle (drop_reservation c) = core_idle c" "snd (drop_reservation c) = snd c"
  "\<not> at_res_valid (fst (drop_reservation c))"
  by (cases c; simp add: drop_reservation_def core_idle_def)+

text \<open>Entry to the handler.\<close>

lemma entry_step:
  assumes p: "cs_priv (ma_csr m) = PRIV_M" and t: "trap_taken i (ma_csr m) = Some t" and s: "\<not> tr_to_s t"
    and v: "trap_target t (ma_csr m) = base" and pc: "ci_pc i = ma_pc m"
  defines "m1 \<equiv> issue i m"
  shows "m_off m1" "ma_pc m1 = base" "cs_mepc (ma_csr m1) = even_pc (ma_pc m)"
    "cs_mcause (ma_csr m1) = tr_cause t" "mpp (cs_mstatus (ma_csr m1)) = PRIV_M"
    "bit (cs_mstatus (ma_csr m1)) 7 = m_ie m" "ma_core m1 = drop_reservation (ma_core m)"
    "ma_soc m1 = soc_clock (ma_soc m)" "ma_lost m1 = ma_lost m" "cs_mie (ma_csr m1) = cs_mie (ma_csr m)"
    "cs_mtvec (ma_csr m1) = cs_mtvec (ma_csr m)" "cs_mscratch (ma_csr m1) = cs_mscratch (ma_csr m)"
    "cs_spending (ma_csr m1) = cs_spending (ma_csr m)"
  using p t s v pc
  by (simp_all add: m1_def issue_def csr_clock_def Let_def redirect_def m_off_def enter_machine m_ie_def)
    (simp_all add: enter_trap_def Let_def csr_count_def)

text \<open>Return from the handler.\<close>

lemma mret_step:
  assumes off: "m_off m" and mpp: "mpp (cs_mstatus (ma_csr m)) = PRIV_M"
  defines "m1 \<equiv> issue (mret_in m) m"
  shows "cs_priv (ma_csr m1) = PRIV_M" "m_ie m1 = bit (cs_mstatus (ma_csr m)) 7"
    "ma_pc m1 = cs_mepc (ma_csr m)" "ma_core m1 = drop_reservation (ma_core m)"
    "ma_soc m1 = soc_clock (ma_soc m)" "ma_lost m1 = ma_lost m" "cs_mie (ma_csr m1) = cs_mie (ma_csr m)"
    "cs_mtvec (ma_csr m1) = cs_mtvec (ma_csr m)" "cs_mscratch (ma_csr m1) = cs_mscratch (ma_csr m)"
    "cs_spending (ma_csr m1) = cs_spending (ma_csr m)" "ma_vars m1 = ma_vars m"
proof -
  have t: "trap_taken (mret_in m) (ma_csr m) = None"
    by (rule trap_taken_off [OF off]) (simp add: mret_in_def idle_in_def)
  have r: "return_taken (mret_in m) (ma_csr m)"
    using off t by (simp add: return_taken_def xret_illegal_def mret_in_def idle_in_def m_off_def)
  show "cs_priv (ma_csr m1) = PRIV_M" "m_ie m1 = bit (cs_mstatus (ma_csr m)) 7"
    "ma_pc m1 = cs_mepc (ma_csr m)" "ma_core m1 = drop_reservation (ma_core m)"
    "ma_soc m1 = soc_clock (ma_soc m)" "ma_lost m1 = ma_lost m" "cs_mie (ma_csr m1) = cs_mie (ma_csr m)"
    "cs_mtvec (ma_csr m1) = cs_mtvec (ma_csr m)" "cs_mscratch (ma_csr m1) = cs_mscratch (ma_csr m)"
    "cs_spending (ma_csr m1) = cs_spending (ma_csr m)" "ma_vars m1 = ma_vars m"
    using t r mpp
    by (simp_all add: m1_def issue_def csr_clock_def redirect_def m_ie_def mret_in_def leave_machine)
      (simp_all add: leave_trap_def Let_def csr_count_def)
qed

text \<open>The whole service: entry, a handler that keeps the machine up to its effect, return.\<close>

lemma service:
  assumes ok: "machine_ok base m" and t: "trap_taken i (ma_csr m) = Some t" and s: "\<not> tr_to_s t"
    and v: "trap_target t (ma_csr m) = base" and pc: "ci_pc i = ma_pc m"
    and h: "\<And>m1. m_off m1 \<Longrightarrow> cs_mcause (ma_csr m1) = tr_cause t \<Longrightarrow>
      same_but m1 (trap_handler raw_bus (raw_hart base words asm) m1) \<and>
      ma_vars (trap_handler raw_bus (raw_hart base words asm) m1) = (1, tr_cause t) \<and>
      cs_mepc (ma_csr (trap_handler raw_bus (raw_hart base words asm) m1)) = ret (cs_mepc (ma_csr m1)) \<and>
      Q m1 (trap_handler raw_bus (raw_hart base words asm) m1)"
    and ev: "\<And>x. \<not> bit x 0 \<Longrightarrow> \<not> bit (ret x) 0"
  defines "m' \<equiv> run_handler (raw_hart base words asm) (issue i m)"
  shows "machine_ok base m'" "m_ie m' = m_ie m" "ma_pc m' = ret (even_pc (ma_pc m))"
    "dm_words (snd (ma_core m')) = dm_words (snd (ma_core m))"
    "cs_mtvec (ma_csr m') = cs_mtvec (ma_csr m)" "cs_mscratch (ma_csr m') = cs_mscratch (ma_csr m)"
    "soc_later (ma_soc m) (ma_soc m')" "ma_vars m' = (1, tr_cause t)"
    and "\<exists>m1 m2. ma_soc m1 = soc_clock (ma_soc m) \<and> cs_mie (ma_csr m1) = cs_mie (ma_csr m) \<and> Q m1 m2 \<and>
      cs_mie (ma_csr m') = cs_mie (ma_csr m2) \<and> ma_soc m' = soc_clock (ma_soc m2)"
proof -
  let ?H = "raw_hart base words asm"
  let ?m1 = "issue i m"
  have p: "cs_priv (ma_csr m) = PRIV_M" using ok by (simp add: machine_ok_def)
  note e = entry_step [OF p t s v pc]
  let ?m2 = "trap_handler raw_bus ?H ?m1"
  note hh = h [OF e(1) e(4)]
  have sb: "same_but ?m1 ?m2" and vars: "ma_vars ?m2 = (1, tr_cause t)"
    and mepc: "cs_mepc (ma_csr ?m2) = ret (even_pc (ma_pc m))" and Q: "Q ?m1 ?m2"
    using hh e(3) by simp_all
  have off2: "m_off ?m2" and mpp2: "mpp (cs_mstatus (ma_csr ?m2)) = PRIV_M"
    using sb e(1,5) by (simp_all add: same_but_def m_off_def)
  note r = mret_step [OF off2 mpp2]
  have m': "m' = issue (mret_in ?m2) ?m2"
    using e(2) by (simp add: m'_def run_handler_def Let_def)
  have wf: "csr_wf (ma_csr m')"
    unfolding m' using ok by (simp add: wf_issue wf_handler machine_ok_def)
  have sp: "cs_spending (ma_csr m') = 0"
    unfolding m' using ok r(10) e(13) by (simp add: spending_handler [OF e(1)] machine_ok_def)
  show ie: "m_ie m' = m_ie m"
    using r(2) sb e(6) by (simp add: m' same_but_def)
  show pc': "ma_pc m' = ret (even_pc (ma_pc m))" using r(3) mepc by (simp add: m')
  have core: "ma_core m' = drop_reservation (drop_reservation (ma_core m))"
    using r(4) sb e(7) by (simp add: m' same_but_def)
  then show "dm_words (snd (ma_core m')) = dm_words (snd (ma_core m))" by simp
  show tv: "cs_mtvec (ma_csr m') = cs_mtvec (ma_csr m)" using r(8) sb e(11) by (simp add: m' same_but_def)
  show "cs_mscratch (ma_csr m') = cs_mscratch (ma_csr m)" using r(9) sb e(12) by (simp add: m' same_but_def)
  have "soc_later (ma_soc ?m1) (ma_soc ?m2)" using sb by (simp add: same_but_def)
  then show "soc_later (ma_soc m) (ma_soc m')"
    using r(5) e(8) by (metis m' soc_later_clock soc_later_trans)
  show "ma_vars m' = (1, tr_cause t)" using r(11) vars by (simp add: m')
  show "machine_ok base m'"
    using wf sp r(1,6) core ie pc' tv ok ev sb e(9)
    by (simp add: machine_ok_def m' same_but_def)
  show "\<exists>m1 m2. ma_soc m1 = soc_clock (ma_soc m) \<and> cs_mie (ma_csr m1) = cs_mie (ma_csr m) \<and> Q m1 m2 \<and>
      cs_mie (ma_csr m') = cs_mie (ma_csr m2) \<and> ma_soc m' = soc_clock (ma_soc m2)"
    using e(8,10) Q r(5,7) by (auto simp: m')
qed

lemma even_pc_id: "\<not> bit x 0 \<Longrightarrow> even_pc x = x"
  by (rule bit_word_eqI) (auto simp: even_pc_def bit_and_iff bit_not_iff bit_1_iff intro: Nat.gr0I)

lemma aligned_target: "take_bit 2 v = 0 \<Longrightarrow> v AND - 4 = v" for v :: u32
proof (rule bit_word_eqI)
  fix k assume a: "take_bit 2 v = 0"
  have "\<not> bit v k" if "k < 2" using a that bit_take_bit_iff [of 2 v k] by simp
  moreover have "bit (- 4 :: u32) k \<longleftrightarrow> 2 \<le> k" if "k < 32"
  proof -
    have "(- 4 :: u32) = NOT (mask 2)" by (simp add: mask_eq_exp_minus_1)
    then show ?thesis using that by (simp only: bit_not_iff) (simp add: bit_mask_iff not_less)
  qed
  moreover assume "k < LENGTH(32)"
  ultimately show "bit (v AND - 4) k \<longleftrightarrow> bit v k"
    by (auto simp: bit_and_iff not_le)
qed

text \<open>One pending interrupt.\<close>

definition irq_effect :: "nat \<Rightarrow> machine \<Rightarrow> machine \<Rightarrow> bool" where
  "irq_effect n m m' \<longleftrightarrow>
     (if n = 7 then cs_mie (ma_csr m') = (cs_mie (ma_csr m) AND NOT 0x80) AND IRQ_MASK
      else cs_mie (ma_csr m') = cs_mie (ma_csr m) \<and> \<not> s_msip (ma_soc m'))"

lemma take_irq_pending:
  fixes base words :: u32 and asm :: assembly_tests
  assumes ok: "machine_ok base m" and al: "take_bit 2 base = 0"
    and i: "interrupt (irq_pending m) (ma_csr m) = Some (n, False)" and n: "n = 3 \<or> n = 7"
  defines "m' \<equiv> take_irq (raw_hart base words asm) m"
  shows "machine_ok base m' \<and> served m m' \<and> ma_vars m' = (1, cause_irq n) \<and> irq_effect n m m'"
proof -
  let ?H = "raw_hart base words asm"
  let ?t = "\<lparr>tr_cause = cause_irq n, tr_tval = 0, tr_to_s = False, tr_irq = Some n\<rparr>"
  have ie: "m_ie m" using i interrupt_ok [OF ok] by (auto simp: wants_def split: if_splits)
  have t: "trap_taken (idle_in m) (ma_csr m) = Some ?t"
    using i by (simp add: trap_taken_def pending_trap_def idle_in_def)
  have v: "trap_target ?t (ma_csr m) = base"
    using ok ie al by (simp add: trap_target_def Let_def machine_ok_def aligned_target)
  have pc: "ci_pc (idle_in m) = ma_pc m" by (simp add: idle_in_def)
  have h: "same_but m1 (trap_handler raw_bus ?H m1) \<and>
      ma_vars (trap_handler raw_bus ?H m1) = (1, tr_cause ?t) \<and>
      cs_mepc (ma_csr (trap_handler raw_bus ?H m1)) = cs_mepc (ma_csr m1) \<and>
      irq_effect n m1 (trap_handler raw_bus ?H m1)"
    if "m_off m1" "cs_mcause (ma_csr m1) = tr_cause ?t" for m1
    using n handler_msi [OF that(1), of base words asm] handler_mti [OF that(1), of base words asm] that(2)
    by (auto simp: irq_effect_def)
  have m': "m' = run_handler ?H (issue (idle_in m) m)"
    using ok i by (simp add: m'_def take_irq_def machine_ok_def)
  note sv = service [OF ok t _ v pc, where ret = "\<lambda>x. x" and Q = "irq_effect n", OF _ h, folded m', simplified]
  have "irq_effect n m m'" using sv(9) by (auto simp: irq_effect_def)
  then show ?thesis
    using sv(1-8) ok by (simp add: served_def even_pc_id machine_ok_def)
qed

lemma take_irq_none:
  "interrupt (irq_pending m) (ma_csr m) = None \<Longrightarrow> take_irq h m = m"
  by (simp add: take_irq_def)

text \<open>
  Serving: nothing when nothing is wanted; afterwards nothing that was wanted is, and the
  last cause is recorded.
\<close>

lemma take_irq_cases:
  assumes ok: "machine_ok base m" and al: "take_bit 2 base = 0"
  obtains (none) "\<not> wants 3 m" "\<not> wants 7 m" "take_irq (raw_hart base words asm) m = m"
  | (irq) n where "n = 3 \<or> n = 7" "wants n m" "machine_ok base (take_irq (raw_hart base words asm) m)"
      "served m (take_irq (raw_hart base words asm) m)"
      "ma_vars (take_irq (raw_hart base words asm) m) = (1, cause_irq n)"
      "irq_effect n m (take_irq (raw_hart base words asm) m)"
proof (cases "wants 3 m \<or> wants 7 m")
  case False
  then have "interrupt (irq_pending m) (ma_csr m) = None" by (simp add: interrupt_ok [OF ok])
  with False none take_irq_none show ?thesis by blast
next
  case True
  then have "\<exists>n. (n = 3 \<or> n = 7) \<and> wants n m \<and> interrupt (irq_pending m) (ma_csr m) = Some (n, False)"
    using interrupt_ok [OF ok] by (cases "wants 3 m") auto
  then obtain n where n: "n = 3 \<or> n = 7" "wants n m" "interrupt (irq_pending m) (ma_csr m) = Some (n, False)"
    by blast
  show ?thesis
    by (rule irq [of n, OF n(1,2)]) (use take_irq_pending [OF ok al n(3,1), of words asm] in blast)+
qed

lemma serve_ok:
  assumes "machine_ok base m" and "take_bit 2 base = 0"
  shows "machine_ok base (serve (raw_hart base words asm) m) \<and> served m (serve (raw_hart base words asm) m)"
proof -
  let ?H = "raw_hart base words asm"
  have one: "machine_ok base (take_irq ?H x) \<and> served x (take_irq ?H x)" if "machine_ok base x" for x
    using take_irq_cases [OF that assms(2), of words asm] that by (metis served_refl)
  then show ?thesis
    using assms(1) unfolding serve_def by (meson served_trans)
qed

lemma serve_calm:
  assumes "machine_ok base m" "\<not> wants 3 m" "\<not> wants 7 m"
  shows "serve h m = m"
  using assms by (simp add: serve_def take_irq_def interrupt_ok)

text \<open>A single wanted line.\<close>

lemma bit_mie_cleared: "\<not> bit ((w AND NOT 0x80) AND K) 7" for w K :: u32
  by (simp add: bit_and_iff bit_not_iff)

lemma serve_one:
  fixes base words :: u32 and asm :: assembly_tests
  assumes ok: "machine_ok base m" and al: "take_bit 2 base = 0"
    and n: "n = 3 \<or> n = 7" "wants n m" and alone: "\<not> bit (cs_mie (ma_csr m)) (10 - n)"
  defines "m' \<equiv> serve (raw_hart base words asm) m"
  shows "machine_ok base m' \<and> served m m' \<and> ma_vars m' = (1, cause_irq n) \<and> irq_effect n m m'"
proof -
  let ?H = "raw_hart base words asm"
  have i: "interrupt (irq_pending m) (ma_csr m) = Some (n, False)"
    using n alone by (auto simp: interrupt_ok [OF ok] wants_def)
  note t = take_irq_pending [OF ok al i n(1), of words asm]
  have "\<not> wants 3 (take_irq ?H m)" "\<not> wants 7 (take_irq ?H m)"
    using t n alone
    by (auto simp: wants_def irq_effect_def bit_mie_cleared bit_and_iff bit_not_iff)
  then have "interrupt (irq_pending (take_irq ?H m)) (ma_csr (take_irq ?H m)) = None"
    using t by (simp add: interrupt_ok [of base])
  then have "m' = take_irq ?H m"
    by (simp add: m'_def serve_def take_irq_none)
  with t show ?thesis by simp
qed

end
