(* ===== verification/Rv_Console.thy ===== *)
theory Rv_Console
  imports Rv_Machine_Inv
begin

text \<open>
  Printing on the machine while interrupts may be served: whatever property of the machine
  survives the service of interrupts and the passing of time survives a print, which ends and
  transmits its bytes. The interface is the locale \<open>idle_inv\<close>; it is instantiated for a
  machine with interrupts off, on which printing changes nothing but the devices.
\<close>

section \<open>Cycles\<close>

lemma clear_msip_cyc [simp]: "s_cyc (clint_clear_msip soc_bus s) = s_cyc s + 2"
  by (simp add: clint_clear_msip_def soc_wr_def soc_write_effect_def soc_addrs)

lemma issue_cyc [simp]: "s_cyc (ma_soc (issue i m)) = s_cyc (ma_soc m) + 1"
  by (simp add: issue_def)

lemma csr_do_cyc [simp]: "s_cyc (ma_soc (snd (csr_do op a x m))) = s_cyc (ma_soc m) + 1"
  by (simp add: csr_do_def)

lemma soc_write_effect_cyc [simp]: "s_cyc (soc_write_effect a v s) = s_cyc s"
  by (simp add: soc_write_effect_def)

lemma soc_wr_cyc [simp]: "s_cyc (soc_wr a v s) = s_cyc s + 2"
  by (simp add: soc_wr_def)

lemma handler_cyc:
  "s_cyc (ma_soc (trap_handler raw_bus (raw_hart base words asm) m)) \<le> s_cyc (ma_soc m) + 3"
  by (simp add: trap_handler_def clear_cause_def csr_do_def)

lemma take_irq_cyc: "s_cyc (ma_soc (take_irq (raw_hart base words asm) m)) \<le> s_cyc (ma_soc m) + 5"
  using handler_cyc [of base words asm "issue (idle_in m) m"]
  by (simp add: take_irq_def run_handler_def Let_def split: option.split)

lemma serve_cyc: "s_cyc (ma_soc (serve (raw_hart base words asm) m)) \<le> s_cyc (ma_soc m) + 10"
  using take_irq_cyc [of base words asm m] take_irq_cyc [of base words asm "take_irq (raw_hart base words asm) m"]
  by (simp add: serve_def)

section \<open>The passing of time\<close>

text \<open>What an access of the UART and a clock cycle leave alone.\<close>

definition soc_pass :: "soc \<Rightarrow> soc \<Rightarrow> bool" where
  "soc_pass s s' \<longleftrightarrow>
     s_cmp s' = s_cmp s \<and> s_msip s' = s_msip s \<and> s_cyc s \<le> s_cyc s' \<and>
     (s_tx_busy s \<le> 2340 \<longrightarrow> s_tx_busy s' \<le> 2340)"

lemma soc_pass_clocks: "soc_pass s ((soc_clock ^^ n) s)"
proof -
  have "s_cmp ((soc_clock ^^ n) s) = s_cmp s \<and> s_tx_busy ((soc_clock ^^ n) s) \<le> s_tx_busy s"
    by (induction n) auto
  then show ?thesis by (simp add: soc_pass_def)
qed

lemma soc_pass_rd: "soc_pass s (snd (soc_rd a s))"
proof -
  obtain v s' where r: "soc_rd a s = (v, s')" by (cases "soc_rd a s")
  then have "s_msip s' = s_msip s" "s_cmp s' = s_cmp s" by (auto simp: soc_rd_def Let_def)
  with soc_rd_fields [OF r] r show ?thesis by (auto simp: soc_pass_def)
qed

lemma soc_pass_uart: "soc_pass s (soc_wr uart_data_reg v s)"
  by (auto simp: soc_pass_def soc_wr_def soc_write_effect_def)

section \<open>The interface\<close>

locale idle_inv =
  fixes h :: "machine hart" and J :: "machine \<Rightarrow> bool"
  assumes J_serve: "J m \<Longrightarrow> J (serve h m)"
    and serve_later: "J m \<Longrightarrow> soc_later (ma_soc m) (ma_soc (serve h m))"
    and serve_short: "s_cyc (ma_soc (serve h m)) \<le> s_cyc (ma_soc m) + 10"
    and J_pass: "J m \<Longrightarrow> soc_pass (ma_soc m) s \<Longrightarrow> J (m\<lparr>ma_soc := s\<rparr>)"
    and J_busy: "J m \<Longrightarrow> s_tx_busy (ma_soc m) \<le> 2340"
begin

lemma read_step:
  fixes a :: u32
  assumes "J m"
  defines "m' \<equiv> snd (bus_rd (irq_bus h) a m)"
  shows "J m'" "s_tx_busy (ma_soc m') \<le> s_tx_busy (ma_soc m) - 2" "s_sent (ma_soc m') = s_sent (ma_soc m)"
    "s_cyc (ma_soc m') \<le> s_cyc (ma_soc m) + 12" "s_cyc (ma_soc m) \<le> s_cyc (ma_soc m')"
    and "fst (bus_rd (irq_bus h) a m) = soc_reg a (ma_soc m')"
proof -
  let ?s = "ma_soc (serve h m)"
  obtain v s' where r: "soc_rd a ?s = (v, s')" by (cases "soc_rd a ?s")
  have m': "m' = (serve h m)\<lparr>ma_soc := s'\<rparr>" "fst (bus_rd (irq_bus h) a m) = v"
    using r by (simp_all add: m'_def irq_bus_def)
  note f = soc_rd_fields [OF r]
  show "J m'" using J_pass [OF J_serve [OF assms(1)], of s'] soc_pass_rd [of ?s a] r m' by simp
  show "fst (bus_rd (irq_bus h) a m) = soc_reg a (ma_soc m')" using f(1) m' by simp
  show "s_tx_busy (ma_soc m') \<le> s_tx_busy (ma_soc m) - 2" "s_sent (ma_soc m') = s_sent (ma_soc m)"
    "s_cyc (ma_soc m') \<le> s_cyc (ma_soc m) + 12" "s_cyc (ma_soc m) \<le> s_cyc (ma_soc m')"
    using f serve_later [OF assms(1)] serve_short [of m] m' by (auto simp: soc_later_def)
qed

lemma ready_step:
  assumes J: "J m" and r: "uart_tx_ready (irq_bus h) m = (x, m')"
  shows "J m'" "x \<longleftrightarrow> s_tx_busy (ma_soc m') = 0" "s_tx_busy (ma_soc m') \<le> s_tx_busy (ma_soc m) - 4"
    "s_sent (ma_soc m') = s_sent (ma_soc m)" "s_cyc (ma_soc m') \<le> s_cyc (ma_soc m) + 24"
    "s_cyc (ma_soc m) \<le> s_cyc (ma_soc m')"
proof -
  let ?m1 = "snd (bus_rd (irq_bus h) uart_ctrl_reg m)"
  note r1 = read_step [OF J, of uart_ctrl_reg]
  note r2 = read_step [OF r1(1), of uart_ctrl_reg]
  have m': "m' = snd (bus_rd (irq_bus h) uart_ctrl_reg ?m1)"
    and x: "x \<longleftrightarrow> soc_reg uart_ctrl_reg (ma_soc m') AND UART_STATUS_TX_BUSY = 0"
    using r r2(6) by (auto simp: uart_tx_ready_def uart_get_status_def read_twice_def Let_def split: prod.splits)
  show "x \<longleftrightarrow> s_tx_busy (ma_soc m') = 0"
    unfolding x by (simp add: soc_reg_def tx_busy_bit)
  show "J m'" "s_tx_busy (ma_soc m') \<le> s_tx_busy (ma_soc m) - 4"
    "s_sent (ma_soc m') = s_sent (ma_soc m)" "s_cyc (ma_soc m') \<le> s_cyc (ma_soc m) + 24"
    "s_cyc (ma_soc m) \<le> s_cyc (ma_soc m')"
    using r1 r2 by (auto simp: m')
qed

text \<open>The cycles of the failed attempts are paid for by the transmitter's remaining time.\<close>

lemma ready_poll:
  assumes "J m"
  shows "\<exists>u m'. poll_until (\<lambda>d. let (r, d') = uart_tx_ready (irq_bus h) d in (if r then Some () else None, d')) m =
      Some (u, m') \<and> J m' \<and> s_tx_busy (ma_soc m') = 0 \<and> s_sent (ma_soc m') = s_sent (ma_soc m) \<and>
      s_cyc (ma_soc m) \<le> s_cyc (ma_soc m') \<and> s_cyc (ma_soc m') \<le> s_cyc (ma_soc m) + 24 * s_tx_busy (ma_soc m) + 24"
  using assms
proof (induction "s_tx_busy (ma_soc m)" arbitrary: m rule: less_induct)
  case less
  obtain x m1 where r: "uart_tx_ready (irq_bus h) m = (x, m1)" by (cases "uart_tx_ready (irq_bus h) m")
  note s = ready_step [OF less.prems r]
  show ?case
  proof (cases x)
    case True
    then show ?thesis using r s by (simp add: poll_until_Some)
  next
    case False
    with s have lt: "s_tx_busy (ma_soc m1) < s_tx_busy (ma_soc m)" by simp
    from less.hyps [OF lt s(1)] obtain u m' where p:
      "poll_until (\<lambda>d. let (r, d') = uart_tx_ready (irq_bus h) d in (if r then Some () else None, d')) m1 = Some (u, m')"
      "J m'" "s_tx_busy (ma_soc m') = 0" "s_sent (ma_soc m') = s_sent (ma_soc m1)"
      "s_cyc (ma_soc m1) \<le> s_cyc (ma_soc m')"
      "s_cyc (ma_soc m') \<le> s_cyc (ma_soc m1) + 24 * s_tx_busy (ma_soc m1) + 24" by blast
    have "s_cyc (ma_soc m') \<le> s_cyc (ma_soc m) + 24 * s_tx_busy (ma_soc m) + 24"
      using p(6) s(5) lt by linarith
    with p s r False show ?thesis
      by (subst poll_until_None [where d' = m1]) auto
  qed
qed

lemma putc_step:
  assumes "J m"
  shows "\<exists>m'. uart_putc_blocking (irq_bus h) c m = Some m' \<and> J m' \<and>
    s_sent (ma_soc m') = s_sent (ma_soc m) @ [c] \<and> s_cyc (ma_soc m) \<le> s_cyc (ma_soc m') \<and>
    s_cyc (ma_soc m') \<le> s_cyc (ma_soc m) + 60000"
proof -
  obtain u m1 where p:
    "poll_until (\<lambda>d. let (r, d') = uart_tx_ready (irq_bus h) d in (if r then Some () else None, d')) m = Some (u, m1)"
    "J m1" "s_tx_busy (ma_soc m1) = 0" "s_sent (ma_soc m1) = s_sent (ma_soc m)"
    "s_cyc (ma_soc m) \<le> s_cyc (ma_soc m1)"
    "s_cyc (ma_soc m1) \<le> s_cyc (ma_soc m) + 24 * s_tx_busy (ma_soc m) + 24"
    using ready_poll [OF assms] by blast
  let ?s = "ma_soc (serve h m1)"
  let ?m' = "(serve h m1)\<lparr>ma_soc := soc_wr uart_data_reg (ucast c) ?s\<rparr>"
  have b: "s_tx_busy ?s = 0" "s_sent ?s = s_sent (ma_soc m1)" "s_cyc (ma_soc m1) \<le> s_cyc ?s"
    using serve_later [OF p(2)] p(3) by (auto simp: soc_later_def)
  have "J ?m'" by (rule J_pass [OF J_serve [OF p(2)] soc_pass_uart])
  moreover have "s_sent (ma_soc ?m') = s_sent (ma_soc m) @ [c]"
    using b p(4) by (simp add: soc_wr_def soc_write_effect_def)
  moreover have "uart_putc_blocking (irq_bus h) c m = Some ?m'"
    using p(1) by (simp add: uart_putc_blocking_def irq_bus_def)
  ultimately show ?thesis
    using p(5,6) b(3) serve_short [of m1] J_busy [OF assms] by (intro exI [of _ ?m']) auto
qed

lemma put_bytes_step:
  assumes "J m"
  shows "\<exists>m'. put_bytes (irq_bus h) bs m = Some m' \<and> J m' \<and> s_sent (ma_soc m') = s_sent (ma_soc m) @ bs \<and>
    s_cyc (ma_soc m) \<le> s_cyc (ma_soc m') \<and> s_cyc (ma_soc m') \<le> s_cyc (ma_soc m) + 60000 * length bs"
  using assms
proof (induction bs arbitrary: m)
  case (Cons c cs)
  from putc_step [OF Cons.prems, of c] obtain m1 where c: "uart_putc_blocking (irq_bus h) c m = Some m1" "J m1"
    "s_sent (ma_soc m1) = s_sent (ma_soc m) @ [c]" "s_cyc (ma_soc m) \<le> s_cyc (ma_soc m1)"
    "s_cyc (ma_soc m1) \<le> s_cyc (ma_soc m) + 60000" by blast
  from Cons.IH [OF c(2)] c show ?case by fastforce
qed auto

text \<open>The monitor's print functions.\<close>

lemma say_step:
  assumes "J (sh_dev st)"
  shows "\<exists>d. say (irq_bus h) bs st = Some (st\<lparr>sh_dev := d\<rparr>) \<and> J d \<and>
    s_sent (ma_soc d) = s_sent (ma_soc (sh_dev st)) @ bs \<and> s_cyc (ma_soc (sh_dev st)) \<le> s_cyc (ma_soc d) \<and>
    s_cyc (ma_soc d) \<le> s_cyc (ma_soc (sh_dev st)) + 60000 * length bs"
  using put_bytes_step [OF assms, of bs] by (auto simp: say_def)

end

section \<open>Constant formats\<close>

lemma printf_plain: "37 \<notin> set fmt \<Longrightarrow> printf fmt args = Some fmt"
  by (induction fmt) auto

lemma printf_prefix:
  "37 \<notin> set pre \<Longrightarrow> printf (pre @ rest) args = map_option ((@) pre) (printf rest args)"
  by (cases "printf rest args"; induction pre) auto

section \<open>Interrupts off\<close>

definition calm :: "u32 \<Rightarrow> machine \<Rightarrow> bool" where
  "calm base m \<longleftrightarrow> machine_ok base m \<and> \<not> m_ie m \<and> s_tx_busy (ma_soc m) \<le> 2340"

definition rest_of :: "machine \<Rightarrow> machine" where
  "rest_of m = m\<lparr>ma_soc := soc_reset []\<rparr>"

lemma calm_serve [simp]: "calm base m \<Longrightarrow> serve h m = m"
  by (rule serve_calm [of base]) (simp_all add: calm_def wants_def)

lemma machine_ok_soc [simp]: "machine_ok base (m\<lparr>ma_soc := s\<rparr>) = machine_ok base m"
  "m_ie (m\<lparr>ma_soc := s\<rparr>) = m_ie m"
  by (simp_all add: machine_ok_def m_ie_def)

interpretation calm: idle_inv "raw_hart base words asm" "\<lambda>m. calm base m \<and> rest_of m = V"
  for base words asm V
  by unfold_locales (use serve_cyc in \<open>auto simp: calm_def rest_of_def soc_pass_def serve_calm [of base] wants_def\<close>)

text \<open>A print with interrupts off changes only the devices.\<close>

definition on_soc :: "soc \<Rightarrow> machine shell \<Rightarrow> machine shell" where
  "on_soc s st = st\<lparr>sh_dev := (sh_dev st)\<lparr>ma_soc := s\<rparr>\<rparr>"

lemma rest_eqD: "rest_of d = rest_of m \<Longrightarrow> d = m\<lparr>ma_soc := ma_soc d\<rparr>"
  by (cases d; cases m) (simp add: rest_of_def)

lemma say_calm:
  fixes base words :: u32 and asm :: assembly_tests
  assumes "calm base (sh_dev st)"
  shows "\<exists>s. say (irq_bus (raw_hart base words asm)) bs st = Some (on_soc s st) \<and>
    s_sent s = s_sent (ma_soc (sh_dev st)) @ bs \<and> s_tx_busy s \<le> 2340 \<and>
    s_cyc (ma_soc (sh_dev st)) \<le> s_cyc s \<and> s_cyc s \<le> s_cyc (ma_soc (sh_dev st)) + 60000 * length bs"
proof -
  have "calm base (sh_dev st) \<and> rest_of (sh_dev st) = rest_of (sh_dev st)" using assms by simp
  from calm.say_step [OF this, of words asm bs] obtain d where d:
    "say (irq_bus (raw_hart base words asm)) bs st = Some (st\<lparr>sh_dev := d\<rparr>)"
    "calm base d" "rest_of d = rest_of (sh_dev st)" "s_sent (ma_soc d) = s_sent (ma_soc (sh_dev st)) @ bs"
    "s_cyc (ma_soc (sh_dev st)) \<le> s_cyc (ma_soc d)"
    "s_cyc (ma_soc d) \<le> s_cyc (ma_soc (sh_dev st)) + 60000 * length bs" by blast
  from rest_eqD [OF d(3)] have "st\<lparr>sh_dev := d\<rparr> = on_soc (ma_soc d) st"
    by (simp add: on_soc_def)
  then show ?thesis using d by (intro exI [of _ "ma_soc d"]) (simp add: calm_def)
qed

end
