(* ===== verification/Self_Test_Atomic.thy ===== *)
theory Self_Test_Atomic
  imports Rv_Console
begin

text \<open>
  \<open>test_a.c\<close> on any hart that implements the A extension: the interface is the locale \<open>rv32a\<close>, whose laws are
  those of the abstract machine of \<open>Rv_Atomic\<close>; inside it the test reports success. The
  processor's atomic unit provides the laws.
\<close>

locale rv32a =
  fixes b :: "'d bus" and h :: "'d hart" and ok :: "'d \<Rightarrow> bool" and arch :: "'d \<Rightarrow> arch"
    and sent :: "'d \<Rightarrow> u8 list"
  assumes print: "ok d \<Longrightarrow> \<exists>d'. put_bytes b bs d = Some d' \<and> ok d' \<and> arch d' = arch d \<and> sent d' = sent d @ bs"
    and lw: "ok d \<Longrightarrow> h_lw h a d = (v, d') \<Longrightarrow>
      ok d' \<and> arch d' = arch d \<and> sent d' = sent d \<and> v = fst (arch d) (data_word_addr a)"
    and sw: "ok d \<Longrightarrow> ok (h_sw h a v d) \<and> sent (h_sw h a v d) = sent d \<and>
      arch (h_sw h a v d) = ((fst (arch d))(data_word_addr a := v), None)"
    and lr: "ok d \<Longrightarrow> h_lr h a d = (v, d') \<Longrightarrow> ok d' \<and> sent d' = sent d \<and> (v, arch d') = arch_lr a (arch d)"
    and sc: "ok d \<Longrightarrow> h_sc h a x d = (v, d') \<Longrightarrow> ok d' \<and> sent d' = sent d \<and> (v, arch d') = arch_sc a x (arch d)"
    and amo: "ok d \<Longrightarrow> h_amo h i a x d = (v, d') \<Longrightarrow>
      ok d' \<and> sent d' = sent d \<and> (v, arch d') = arch_amo (amo_op_d i) a x (arch d)"
begin

text \<open>Everything is fine so far, and only output has been added.\<close>

definition fine :: "'d shell \<Rightarrow> 'd shell \<Rightarrow> bool" where
  "fine st st' \<longleftrightarrow> ok (sh_dev st') \<and> (\<exists>bs. sent (sh_dev st') = sent (sh_dev st) @ bs)"

lemma fine_refl: "ok (sh_dev st) \<Longrightarrow> fine st st"
  by (simp add: fine_def)

lemma fine_trans: "fine st st' \<Longrightarrow> fine st' st'' \<Longrightarrow> fine st st''"
  by (auto simp: fine_def)

lemma fine_ok: "fine st st' \<Longrightarrow> ok (sh_dev st')"
  by (simp add: fine_def)

lemma say_fine:
  assumes "ok (sh_dev st)"
  shows "\<exists>st'. say_line b l st = Some st' \<and> fine st st' \<and> arch (sh_dev st') = arch (sh_dev st) \<and>
    sent (sh_dev st') = sent (sh_dev st) @ cstr l @ [10]"
proof -
  from print [OF assms, of "puts (cstr l)"] obtain d where
    "put_bytes b (puts (cstr l)) (sh_dev st) = Some d" "ok d" "arch d = arch (sh_dev st)"
    "sent d = sent (sh_dev st) @ puts (cstr l)" by blast
  then show ?thesis by (simp add: say_line_def say_def fine_def puts_def print_string_def)
qed

lemma sw_fine:
  assumes "ok (sh_dev st)"
  shows "fine st (on_dev (h_sw h a v) st)"
    "arch (sh_dev (on_dev (h_sw h a v) st)) = ((fst (arch (sh_dev st)))(data_word_addr a := v), None)"
  using sw [OF assms, of a v] by (simp_all add: on_dev_def fine_def)

lemma lw_fine:
  assumes "ok (sh_dev st)" "with_dev (h_lw h a) st = (v, st')"
  shows "fine st st'" "arch (sh_dev st') = arch (sh_dev st)" "v = fst (arch (sh_dev st)) (data_word_addr a)"
  using assms lw [OF assms(1), of a] by (auto simp: with_dev_def fine_def Let_def split: prod.splits)

lemma lr_fine:
  assumes "ok (sh_dev st)" "with_dev (h_lr h a) st = (v, st')"
  shows "fine st st'" "(v, arch (sh_dev st')) = arch_lr a (arch (sh_dev st))"
  using assms lr [OF assms(1), of a] by (auto simp: with_dev_def fine_def Let_def split: prod.splits)

lemma sc_fine:
  assumes "ok (sh_dev st)" "with_dev (h_sc h a x) st = (v, st')"
  shows "fine st st'" "(v, arch (sh_dev st')) = arch_sc a x (arch (sh_dev st))"
  using assms sc [OF assms(1), of a x] by (auto simp: with_dev_def fine_def Let_def split: prod.splits)

definition instr_of :: "nat \<Rightarrow> amo_instr" where
  "instr_of op = (if op = 0 then AMOADD else if op = 1 then AMOSWAP else if op = 2 then AMOXOR
     else if op = 3 then AMOAND else if op = 4 then AMOOR else if op = 5 then AMOMIN
     else if op = 6 then AMOMAX else if op = 7 then AMOMINU else AMOMAXU)"

lemma amo_fine:
  assumes "ok (sh_dev st)" "with_dev (amo_word h op a x) st = (v, st')"
  shows "fine st st'" "(v, arch (sh_dev st')) = arch_amo (amo_op_d (instr_of op)) a x (arch (sh_dev st))"
  using assms amo [OF assms(1), of "instr_of op" a x]
  by (auto simp: with_dev_def fine_def Let_def amo_word_def instr_of_def split: prod.splits)

section \<open>The steps of the test\<close>

definition good_case :: "amo_case \<Rightarrow> bool" where
  "good_case c \<longleftrightarrow> ac_old c = ac_init c \<and>
     amo_compute (amo_op_d (instr_of (ac_op c))) (ac_init c) (ac_rhs c) = ac_new c"

lemma say_opt_fine:
  assumes "ok (sh_dev st)"
  shows "\<exists>st'. say_opt b m st = Some st' \<and> fine st st' \<and> arch (sh_dev st') = arch (sh_dev st)"
  using say_fine [OF assms] fine_refl [OF assms] by (cases m) (auto simp: say_opt_def)

lemma amo_step_fine:
  assumes "ok (sh_dev st)" "good_case c"
  shows "\<exists>st'. amo_step b h c (pass, st) = Some (pass, st') \<and> fine st st'"
proof -
  let ?a = "a_word h (ac_index c)"
  let ?i = "data_word_addr ?a"
  let ?st0 = "on_dev (h_sw h ?a (ac_init c)) st"
  note s0 = sw_fine [OF assms(1), of ?a "ac_init c"]
  from say_opt_fine [OF fine_ok [OF s0(1)], of "ac_banner c"] obtain st1 where
    s1: "say_opt b (ac_banner c) ?st0 = Some st1" "fine ?st0 st1" "arch (sh_dev st1) = arch (sh_dev ?st0)" by blast
  obtain old st2 where a2: "with_dev (amo_word h (ac_op c) ?a (ac_rhs c)) st1 = (old, st2)" by fastforce
  note s2 = amo_fine [OF fine_ok [OF s1(2)] a2]
  have old: "old = ac_old c" and new: "fst (arch (sh_dev st2)) ?i = ac_new c"
    using s2(2) s1(3) s0(2) assms(2) by (auto simp: arch_amo_def good_case_def)
  obtain w st3 where a3: "with_dev (h_lw h ?a) st2 = (w, st3)" by fastforce
  note s3 = lw_fine [OF fine_ok [OF s2(1)] a3]
  have "w = ac_new c" using s3(3) new by simp
  then have "amo_step b h c (pass, st) = Some (pass, st3)"
    using s1(1) a2 a3 old by (simp add: amo_step_def Let_def)
  moreover have "fine st st3" using s0(1) s1(2) s2(1) s3(1) by (blast intro: fine_trans)
  ultimately show ?thesis by blast
qed

lemma amo_steps_fine:
  assumes "ok (sh_dev st)" "\<forall>c\<in>set cs. good_case c"
  shows "\<exists>st'. amo_steps b h cs (pass, st) = Some (pass, st') \<and> fine st st'"
  using assms
proof (induction cs arbitrary: st)
  case Nil
  then show ?case by (simp add: fine_refl)
next
  case (Cons c cs)
  then obtain st1 where "amo_step b h c (pass, st) = Some (pass, st1)" "fine st st1"
    using amo_step_fine [of st c pass] by auto
  with Cons.IH [of st1] Cons.prems show ?case by (auto dest: fine_ok intro: fine_trans)
qed

lemma amo_cases_good: "\<forall>c\<in>set amo_cases. good_case c"
  by (simp add: amo_cases_def good_case_def instr_of_def amo_op_d_def amo_compute_def)

lemma lr_sc_fine:
  assumes "ok (sh_dev st)"
  shows "\<exists>st'. lr_sc_test b h st = Some (True, st') \<and> fine st st'"
proof -
  let ?a = "a_word h 0"
  let ?i = "data_word_addr ?a"
  let ?st0 = "on_dev (h_sw h ?a 10) st"
  note s0 = sw_fine [OF assms, of ?a 10]
  from say_fine [OF fine_ok [OF s0(1)], of "''A: LR/SC''"] obtain st1 where
    s1: "say_line b ''A: LR/SC'' ?st0 = Some st1" "fine ?st0 st1" "arch (sh_dev st1) = arch (sh_dev ?st0)" by blast
  obtain old st2 where a2: "with_dev (h_lr h ?a) st1 = (old, st2)" by fastforce
  note s2 = lr_fine [OF fine_ok [OF s1(2)] a2]
  obtain w st3 where a3: "with_dev (h_sc h ?a 20) st2 = (w, st3)" by fastforce
  note s3 = sc_fine [OF fine_ok [OF s2(1)] a3]
  obtain x st4 where a4: "with_dev (h_lw h ?a) st3 = (x, st4)" by fastforce
  note s4 = lw_fine [OF fine_ok [OF s3(1)] a4]
  obtain w2 st5 where a5: "with_dev (h_sc h ?a 30) st4 = (w2, st5)" by fastforce
  note s5 = sc_fine [OF fine_ok [OF s4(1)] a5]
  obtain y st6 where a6: "with_dev (h_lw h ?a) st5 = (y, st6)" by fastforce
  note s6 = lw_fine [OF fine_ok [OF s5(1)] a6]
  have v2: "old = 10" "arch (sh_dev st2) = ((fst (arch (sh_dev st)))(?i := 10), Some (word_addr ?a))"
    using s2(2) s1(3) s0(2) by (auto simp: arch_lr_def)
  have v3: "w = 0" "arch (sh_dev st3) = ((fst (arch (sh_dev st)))(?i := 20), None)"
    using s3(2) v2(2) by (auto simp: arch_sc_def)
  have v4: "x = 20" "arch (sh_dev st4) = ((fst (arch (sh_dev st)))(?i := 20), None)"
    using s4(2,3) v3(2) by auto
  have v5: "w2 = 1" "arch (sh_dev st5) = ((fst (arch (sh_dev st)))(?i := 20), None)"
    using s5(2) v4(2) by (auto simp: arch_sc_def)
  have "y = 20" using s6(3) v5(2) by simp
  then have "lr_sc_test b h st = Some (True, st6)"
    using s1(1) a2 a3 a4 a5 a6 v2(1) v3(1) v4(1) v5(1) by (simp add: lr_sc_test_def Let_def)
  moreover have "fine st st6"
    using s0(1) s1(2) s2(1) s3(1) s4(1) s5(1) s6(1) by (blast intro: fine_trans)
  ultimately show ?thesis by blast
qed

lemma test_a_passes:
  assumes "ok (sh_dev st)"
  shows "\<exists>st' bs. shell_test_a b h [] st = Some st' \<and> ok (sh_dev st') \<and>
    sent (sh_dev st') = sent (sh_dev st) @ bs @ cstr ''--- RV32A TEST PASSED ---'' @ [10]"
proof -
  obtain st1 where l: "lr_sc_test b h st = Some (True, st1)" "fine st st1"
    using lr_sc_fine [OF assms] by blast
  obtain st2 where a: "amo_steps b h amo_cases (True, st1) = Some (True, st2)" "fine st1 st2"
    using amo_steps_fine [OF fine_ok [OF l(2)] amo_cases_good, of True] by blast
  have f: "fine st st2" using l(2) a(2) by (rule fine_trans)
  from say_fine [OF fine_ok [OF f], of "''--- RV32A TEST PASSED ---''"] obtain st3 where
    "say_line b ''--- RV32A TEST PASSED ---'' st2 = Some st3" "fine st2 st3"
    "sent (sh_dev st3) = sent (sh_dev st2) @ cstr ''--- RV32A TEST PASSED ---'' @ [10]" by blast
  then show ?thesis
    using l(1) a(1) f by (auto simp: shell_test_a_def fine_def)
qed

end

section \<open>The processor provides the A extension\<close>

lemma quiet_idle [simp]: "undisturbed atomic_idle" "undisturbed (lr_in a)" "undisturbed (sc_in a v)" "undisturbed (amo_in i a v)"
  by (simp_all add: undisturbed_def atomic_idle_def lr_in_def sc_in_def amo_in_def)

lemma run_atomic_arch:
  assumes "core_idle (ma_core m)" "ex_isAtomic i" "undisturbed i" "\<not> (ex_isLR i \<and> ex_isSC i)"
    and r: "run_atomic i m = (v, m')"
  shows "(v, arch_of (ma_core m')) = arch_step i (arch_of (ma_core m))" "core_idle (ma_core m')"
    "\<exists>n. m' = m\<lparr>ma_core := ma_core m', ma_soc := (soc_clock ^^ n) (ma_soc m)\<rparr>"
proof -
  let ?js = "replicate (atomic_cycles i (ma_core m) - 1) atomic_idle"
  have len: "Suc (length ?js) = atomic_cycles i (ma_core m)" by (simp add: atomic_cycles_def)
  have q: "\<forall>j\<in>set ?js. undisturbed j" by simp
  note a = atomic_run [OF assms(1,2,3) assms(4) q len]
  show "(v, arch_of (ma_core m')) = arch_step i (arch_of (ma_core m))" "core_idle (ma_core m')"
    using a r by (auto simp: run_atomic_def Let_def fold_replicate)
  show "\<exists>n. m' = m\<lparr>ma_core := ma_core m', ma_soc := (soc_clock ^^ n) (ma_soc m)\<rparr>"
    using r by (auto simp: run_atomic_def Let_def)
qed

lemma calm_core:
  assumes "calm base m" "core_idle c"
  shows "calm base (m\<lparr>ma_core := c, ma_soc := (soc_clock ^^ n) (ma_soc m)\<rparr>)"
  using assms soc_pass_clocks [of "ma_soc m" n] by (auto simp: calm_def machine_ok_def m_ie_def soc_pass_def)

lemma clocks_sent [simp]: "s_sent ((soc_clock ^^ n) s) = s_sent s"
  by (induction n) simp_all

lemma run_atomic_calm:
  assumes "calm base m" "ex_isAtomic i" "undisturbed i" "\<not> (ex_isLR i \<and> ex_isSC i)"
    and r: "run_atomic i m = (v, m')"
  shows "calm base m' \<and> s_sent (ma_soc m') = s_sent (ma_soc m) \<and>
    (v, arch_of (ma_core m')) = arch_step i (arch_of (ma_core m))"
proof -
  have idle: "core_idle (ma_core m)" using assms(1) by (simp add: calm_def machine_ok_def)
  note a = run_atomic_arch [OF idle assms(2,3,4) r]
  from a(3) obtain n where m': "m' = m\<lparr>ma_core := ma_core m', ma_soc := (soc_clock ^^ n) (ma_soc m)\<rparr>" by blast
  have "calm base m'" by (subst m') (rule calm_core [OF assms(1) a(2)])
  moreover have "s_sent (ma_soc m') = s_sent (ma_soc m)" by (subst m') simp
  ultimately show ?thesis using a(1) by simp
qed

interpretation hart_a: rv32a "irq_bus (raw_hart base words asm)" "irq_hart k (raw_hart base words asm)"
  "calm base" "\<lambda>m. arch_of (ma_core m)" "\<lambda>m. s_sent (ma_soc m)" for base words asm k
proof unfold_locales
  fix d d' :: machine and bs a v x i
  assume ok: "calm base d"
  have "calm base d \<and> rest_of d = rest_of d" using ok by simp
  from calm.put_bytes_step [OF this, of words asm bs]
  show "\<exists>d'. put_bytes (irq_bus (raw_hart base words asm)) bs d = Some d' \<and> calm base d' \<and>
      arch_of (ma_core d') = arch_of (ma_core d) \<and> s_sent (ma_soc d') = s_sent (ma_soc d) @ bs"
    by (metis rest_eqD machine.select_convs(3) machine.update_convs(1) machine.surjective)
  show "calm base d' \<and> arch_of (ma_core d') = arch_of (ma_core d) \<and> s_sent (ma_soc d') = s_sent (ma_soc d) \<and>
      v = fst (arch_of (ma_core d)) (data_word_addr a)"
    if "h_lw (irq_hart k (raw_hart base words asm)) a d = (v, d')"
    using that ok calm_core [OF ok, of "ma_core d" 1]
    by (auto simp: irq_hart_def raw_hart_def load_word_def arch_of_def calm_def machine_ok_def split: prod.splits)
  show "calm base (h_sw (irq_hart k (raw_hart base words asm)) a v d) \<and>
      s_sent (ma_soc (h_sw (irq_hart k (raw_hart base words asm)) a v d)) = s_sent (ma_soc d) \<and>
      arch_of (ma_core (h_sw (irq_hart k (raw_hart base words asm)) a v d)) =
        ((fst (arch_of (ma_core d)))(data_word_addr a := v), None)"
    using ok by (auto simp: irq_hart_def raw_hart_def store_word_def arch_of_def calm_def machine_ok_def m_ie_def
        core_idle_def split: prod.splits)
  show "calm base d' \<and> s_sent (ma_soc d') = s_sent (ma_soc d) \<and>
      (v, arch_of (ma_core d')) = arch_lr a (arch_of (ma_core d))"
    if "h_lr (irq_hart k (raw_hart base words asm)) a d = (v, d')"
    using run_atomic_calm [OF ok, of "lr_in a" v d'] that ok
    by (simp add: irq_hart_def raw_hart_def arch_step_def lr_in_def atomic_idle_def undisturbed_def)
  show "calm base d' \<and> s_sent (ma_soc d') = s_sent (ma_soc d) \<and>
      (v, arch_of (ma_core d')) = arch_sc a x (arch_of (ma_core d))"
    if "h_sc (irq_hart k (raw_hart base words asm)) a x d = (v, d')"
    using run_atomic_calm [OF ok, of "sc_in a x" v d'] that ok
    by (simp add: irq_hart_def raw_hart_def arch_step_def sc_in_def atomic_idle_def undisturbed_def)
  show "calm base d' \<and> s_sent (ma_soc d') = s_sent (ma_soc d) \<and>
      (v, arch_of (ma_core d')) = arch_amo (amo_op_d i) a x (arch_of (ma_core d))"
    if "h_amo (irq_hart k (raw_hart base words asm)) i a x d = (v, d')"
    using run_atomic_calm [OF ok, of "amo_in i a x" v d'] that ok
    by (simp add: irq_hart_def raw_hart_def arch_step_def amo_in_def atomic_idle_def undisturbed_def)
qed

end
