(* ===== verification/Self_Test_Csr.thy ===== *)
theory Self_Test_Csr
  imports Self_Test_Atomic
begin

text \<open>
  The CSR and ECALL test of \<open>main.c\<close> on the processor's privileged unit: all four register
  checks succeed, and the ECALL enters the handler, which returns to the next instruction.
\<close>

section \<open>Single steps with interrupts off\<close>

lemma calm_off: "calm base m \<Longrightarrow> m_off m"
  by (simp add: calm_def machine_ok_def m_off_def m_ie_def)

lemma calm_clock: "s_tx_busy s \<le> 2340 \<Longrightarrow> s_tx_busy (soc_clock s) \<le> 2340"
  by simp

text \<open>\<open>mstatus\<close> is the only register of the handler's set that can turn interrupts on.\<close>

lemma put_keeps:
  assumes "plain_csr a" "a \<noteq> 0x300"
  shows "cs_priv (csr_put a w s) = cs_priv s" "cs_mstatus (csr_put a w s) = cs_mstatus s"
    "cs_spending (csr_put a w s) = cs_spending s"
  using assms by (auto simp: plain_csr_def csr_put_def)

lemma calm_write:
  fixes x :: u32
  assumes c: "calm base m" and a: "plain_csr a" "a \<noteq> 0x300" "op \<noteq> CSR_READ"
  defines "m' \<equiv> snd (csr_do op a x m)"
  shows "calm base m'" "s_sent (ma_soc m') = s_sent (ma_soc m)" "ma_vars m' = ma_vars m" "ma_pc m' = ma_pc m"
    "ma_csr m' = csr_put a (csr_wdata op (csr_value a m) x) (csr_count (idle_in m) (ma_csr m))"
proof -
  have m': "m' = m\<lparr>ma_csr := csr_put a (csr_wdata op (csr_value a m) x) (csr_count (idle_in m) (ma_csr m)),
      ma_soc := soc_clock (ma_soc m)\<rparr>"
    unfolding m'_def by (rule csr_write_off [OF calm_off [OF c] a(1,3)])
  show "calm base m'"
    using c put_keeps [OF a(1,2)] wf_csr_put [OF wf_count]
    by (auto simp: m' calm_def machine_ok_def m_ie_def)
  show "s_sent (ma_soc m') = s_sent (ma_soc m)" "ma_vars m' = ma_vars m" "ma_pc m' = ma_pc m"
    "ma_csr m' = csr_put a (csr_wdata op (csr_value a m) x) (csr_count (idle_in m) (ma_csr m))"
    by (simp_all add: m')
qed

lemma calm_read:
  assumes c: "calm base m" and a: "plain_csr a"
  shows "csr_do CSR_READ a x m =
      (csr_value a m, m\<lparr>ma_csr := csr_count (idle_in m) (ma_csr m), ma_soc := soc_clock (ma_soc m)\<rparr>)"
    "calm base (m\<lparr>ma_csr := csr_count (idle_in m) (ma_csr m), ma_soc := soc_clock (ma_soc m)\<rparr>)"
proof -
  show "csr_do CSR_READ a x m =
      (csr_value a m, m\<lparr>ma_csr := csr_count (idle_in m) (ma_csr m), ma_soc := soc_clock (ma_soc m)\<rparr>)"
    by (rule csr_read_off [OF calm_off [OF c] a])
  show "calm base (m\<lparr>ma_csr := csr_count (idle_in m) (ma_csr m), ma_soc := soc_clock (ma_soc m)\<rparr>)"
    using c by (auto simp: calm_def machine_ok_def m_ie_def wf_count)
qed

text \<open>The program's view of the hart.\<close>

abbreviation hw :: "u32 \<Rightarrow> u32 \<Rightarrow> assembly_tests \<Rightarrow> machine hart" where
  "hw base words asm \<equiv> raw_hart base words asm"

lemma irq_hart_simps [simp]:
  "h_csrr (irq_hart k h) a m = h_csrr h a (serve h m)"
  "h_csrw (irq_hart k h) a x m = h_csrw h a x (serve h m)"
  "h_csrs (irq_hart k h) a x m = h_csrs h a x (serve h m)"
  "h_csrc (irq_hart k h) a x m = h_csrc h a x (serve h m)"
  "h_set_trap_vars (irq_hart k h) = h_set_trap_vars h" "h_trap_vars (irq_hart k h) = h_trap_vars h"
  "h_handler_addr (irq_hart k h) = h_handler_addr h"
  "h_ecall (irq_hart k h) m = run_handler h (h_ecall h (serve h m))"
  "h_spin (irq_hart k h) m = (serve h m)\<lparr>ma_soc := (soc_clock ^^ k) (ma_soc (serve h m))\<rparr>"
  by (simp_all add: irq_hart_def Let_def)

section \<open>Prints between the steps\<close>

text \<open>From one calm state of the monitor to another, with output \<open>bs\<close> and nothing else but \<open>P\<close>.\<close>

lemma say_fmt_calm:
  fixes base words :: u32 and asm :: assembly_tests
  assumes "calm base (sh_dev st)" "printf (cstr fmt @ (if nl then [10] else [])) args \<noteq> None"
  shows "\<exists>s bs. say_fmt (irq_bus (hw base words asm)) fmt nl args st = Some (on_soc s st) \<and>
    printf (cstr fmt @ (if nl then [10] else [])) args = Some bs \<and>
    s_sent s = s_sent (ma_soc (sh_dev st)) @ bs \<and> calm base (sh_dev (on_soc s st))"
proof -
  obtain bs where bs: "printf (cstr fmt @ (if nl then [10] else [])) args = Some bs" using assms(2) by auto
  obtain s where "say (irq_bus (hw base words asm)) bs st = Some (on_soc s st)"
    "s_sent s = s_sent (ma_soc (sh_dev st)) @ bs" "s_tx_busy s \<le> 2340"
    using say_calm [OF assms(1), of words asm bs] by blast
  then show ?thesis
    using bs assms(1) by (auto simp: say_fmt_def calm_def on_soc_def)
qed

lemma on_soc_fields [simp]:
  "ma_csr (sh_dev (on_soc s st)) = ma_csr (sh_dev st)" "ma_vars (sh_dev (on_soc s st)) = ma_vars (sh_dev st)"
  "ma_pc (sh_dev (on_soc s st)) = ma_pc (sh_dev st)" "ma_soc (sh_dev (on_soc s st)) = s"
  "ma_core (sh_dev (on_soc s st)) = ma_core (sh_dev st)"
  by (simp_all add: on_soc_def)

text \<open>
  \<open>grown st st'\<close>: the monitor is calm again, has only added output, and is at the same
  instruction with the same trap variables.
\<close>

definition grown :: "u32 \<Rightarrow> machine shell \<Rightarrow> machine shell \<Rightarrow> bool" where
  "grown base st st' \<longleftrightarrow>
     calm base (sh_dev st') \<and> ma_vars (sh_dev st') = ma_vars (sh_dev st) \<and>
     ma_pc (sh_dev st') = ma_pc (sh_dev st) \<and>
     (\<exists>bs. s_sent (ma_soc (sh_dev st')) = s_sent (ma_soc (sh_dev st)) @ bs)"

lemma grown_trans: "grown base st st' \<Longrightarrow> grown base st' st'' \<Longrightarrow> grown base st st''"
  by (auto simp: grown_def)

lemma grown_calm: "grown base st st' \<Longrightarrow> calm base (sh_dev st')"
  by (simp add: grown_def)

lemma say_grown:
  fixes base words :: u32 and asm :: assembly_tests
  assumes "calm base (sh_dev st)" "printf (cstr fmt @ [10]) args \<noteq> None"
  obtains s where "say_fmt (irq_bus (hw base words asm)) fmt True args st = Some (on_soc s st)"
    "grown base st (on_soc s st)"
proof -
  from say_fmt_calm [OF assms(1), of fmt True args words asm] assms(2) obtain s bs where
    "say_fmt (irq_bus (hw base words asm)) fmt True args st = Some (on_soc s st)"
    "s_sent s = s_sent (ma_soc (sh_dev st)) @ bs" "calm base (sh_dev (on_soc s st))"
    by auto
  then show ?thesis by (intro that [of s]) (auto simp: grown_def)
qed

text \<open>A constant line is printed as it is.\<close>

lemma say_line_grown:
  fixes base words :: u32 and asm :: assembly_tests
  assumes "calm base (sh_dev st)"
  obtains s where "say_line (irq_bus (hw base words asm)) l st = Some (on_soc s st)"
    "grown base st (on_soc s st)" "s_sent s = s_sent (ma_soc (sh_dev st)) @ cstr l @ [10]"
proof -
  from say_calm [OF assms, of words asm "puts (cstr l)"] obtain s where
    "say (irq_bus (hw base words asm)) (puts (cstr l)) st = Some (on_soc s st)"
    "s_sent s = s_sent (ma_soc (sh_dev st)) @ puts (cstr l)" "s_tx_busy s \<le> 2340" by blast
  with assms show ?thesis
    by (intro that [of s]) (auto simp: say_line_def grown_def calm_def puts_def print_string_def on_soc_def)
qed

lemma say_const_grown:
  fixes base words :: u32 and asm :: assembly_tests
  assumes "calm base (sh_dev st)" "37 \<notin> set (cstr l)"
  obtains s where "say_fmt (irq_bus (hw base words asm)) l True [] st = Some (on_soc s st)"
    "grown base st (on_soc s st)" "s_sent s = s_sent (ma_soc (sh_dev st)) @ cstr l @ [10]"
proof -
  have "say_fmt (irq_bus (hw base words asm)) l True [] st = say_line (irq_bus (hw base words asm)) l st"
    using assms(2) by (simp add: say_fmt_def say_line_def printf_plain puts_def print_string_def)
  with say_line_grown [OF assms(1), of words asm l] that show ?thesis by metis
qed

section \<open>The register checks\<close>

lemma csr_step:
  fixes x :: u32
  assumes c: "calm base (sh_dev st)" and a: "plain_csr a" "a \<noteq> 0x300" "op \<noteq> CSR_READ"
  defines "st' \<equiv> on_dev (\<lambda>m. snd (csr_do op a x m)) st"
  shows "grown base st st'"
    "ma_csr (sh_dev st') = csr_put a (csr_wdata op (csr_value a (sh_dev st)) x)
       (csr_count (idle_in (sh_dev st)) (ma_csr (sh_dev st)))"
  using calm_write [OF c a, of x] by (simp_all add: st'_def on_dev_def grown_def)

lemma csr_read_step:
  assumes c: "calm base (sh_dev st)" and a: "plain_csr a"
  shows "\<exists>st'. with_dev (csr_do CSR_READ a 0) st = (csr_value a (sh_dev st), st') \<and> grown base st st' \<and>
    cs_mscratch (ma_csr (sh_dev st')) = cs_mscratch (ma_csr (sh_dev st))"
  using calm_read(1) [OF c a, of 0] calm_read(2) [OF c a] by (simp add: with_dev_def grown_def)

text \<open>One check of the sequence: a write, perhaps a set or clear, the read back, the report.\<close>

lemma check_grown:
  fixes base words :: u32 and asm :: assembly_tests
  assumes "calm base (sh_dev st)" "printf (cstr good @ [10]) gargs \<noteq> None"
  shows "\<exists>s. csr_check (irq_bus (hw base words asm)) True good gargs bad bargs (pass, st) =
    Some (pass, on_soc s st) \<and> grown base st (on_soc s st)"
proof -
  from say_grown [OF assms, of words asm] obtain s where
    "say_fmt (irq_bus (hw base words asm)) good True gargs st = Some (on_soc s st)" "grown base st (on_soc s st)" .
  then show ?thesis by (auto simp: csr_check_def)
qed

lemma calm_csrs:
  fixes base words :: u32 and asm :: assembly_tests and x :: u32
  assumes "calm base (sh_dev st)"
  shows "on_dev (h_csrw (irq_hart k (hw base words asm)) a x) st = on_dev (\<lambda>m. snd (csr_do CSR_RW a x m)) st"
    "on_dev (h_csrs (irq_hart k (hw base words asm)) a x) st = on_dev (\<lambda>m. snd (csr_do CSR_RS a x m)) st"
    "on_dev (h_csrc (irq_hart k (hw base words asm)) a x) st = on_dev (\<lambda>m. snd (csr_do CSR_RC a x m)) st"
    "with_dev (h_csrr (irq_hart k (hw base words asm)) a) st = with_dev (csr_do CSR_READ a 0) st"
  using calm_serve [OF assms] by (simp_all add: on_dev_def with_dev_def)

lemma csr_printfs:
  "printf (cstr ''[OK] mscratch RW test passed (0x%x).'' @ [10]) [VInt v] \<noteq> None"
  "printf (cstr ''[OK] mtvec alignment test passed (0x%x).'' @ [10]) [VInt v] \<noteq> None"
  "printf (cstr ''[OK] mscratch CSRS (Set) test passed.'' @ [10]) [] \<noteq> None"
  "printf (cstr ''[OK] mscratch CSRC (Clear) test passed.'' @ [10]) [] \<noteq> None"
  "printf (cstr ''[INFO] mtvec set to 0x%x'' @ [10]) [VInt v] \<noteq> None"
  by (simp_all add: cstr_def)

lemma csr_rw_grown:
  fixes base words :: u32 and asm :: assembly_tests
  assumes c: "calm base (sh_dev st)"
  shows "\<exists>st'. csr_rw_test (irq_bus (hw base words asm)) (irq_hart k (hw base words asm)) st = Some (True, st') \<and>
    grown base st st'"
proof -
  let ?b = "irq_bus (hw base words asm)"
  define w where "w op a x = on_dev (\<lambda>m. snd (csr_do op a x m))" for op a and x :: u32
  let ?s1 = "w CSR_RW CSR_MSCRATCH 0xDEADBEEF st"
  note g1 = csr_step [OF c plain_csrs(4), where op = CSR_RW and x = "0xDEADBEEF", folded w_def, simplified]
  obtain t1 where r1: "with_dev (csr_do CSR_READ CSR_MSCRATCH 0) ?s1 = (0xDEADBEEF, t1)" "grown base ?s1 t1"
    using csr_read_step [OF grown_calm [OF g1(1)] plain_csrs(4)] g1(2) by (auto simp: csr_wdata_def)
  obtain p1 where k1: "csr_check ?b True ''[OK] mscratch RW test passed (0x%x).'' [VInt 0xDEADBEEF]
      ''[FAIL] mscratch RW test failed. Expected: 0x%x, Got: 0x%x'' [VInt 0xDEADBEEF, VInt 0xDEADBEEF] (True, t1) =
      Some (True, on_soc p1 t1)" "grown base t1 (on_soc p1 t1)"
    using check_grown [OF grown_calm [OF r1(2)] csr_printfs(1)] by blast
  let ?s2 = "w CSR_RW CSR_MTVEC 0x80000003 (on_soc p1 t1)"
  note g2 = csr_step [OF grown_calm [OF k1(2)] plain_csrs(3), where op = CSR_RW and x = "0x80000003", folded w_def, simplified]
  obtain t2 where r2: "with_dev (csr_do CSR_READ CSR_MTVEC 0) ?s2 = (0x80000000, t2)" "grown base ?s2 t2"
    using csr_read_step [OF grown_calm [OF g2(1)] plain_csrs(3)] g2(2) by (auto simp: csr_wdata_def warl_tvec_def word_le_nat_alt)
  obtain p2 where k2: "csr_check ?b True ''[OK] mtvec alignment test passed (0x%x).'' [VInt 0x80000000]
      ''[FAIL] mtvec alignment test failed. Expected: 0x%x, Got: 0x%x'' [VInt 0x80000000, VInt 0x80000000] (True, t2) =
      Some (True, on_soc p2 t2)" "grown base t2 (on_soc p2 t2)"
    using check_grown [OF grown_calm [OF r2(2)] csr_printfs(2)] by blast
  let ?s3 = "w CSR_RW CSR_MSCRATCH 0 (on_soc p2 t2)"
  note g3 = csr_step [OF grown_calm [OF k2(2)] plain_csrs(4), where op = CSR_RW and x = "0", folded w_def, simplified]
  let ?s4 = "w CSR_RS CSR_MSCRATCH 0x110 ?s3"
  note g4 = csr_step [OF grown_calm [OF g3(1)] plain_csrs(4), where op = CSR_RS and x = "0x110", folded w_def, simplified]
  have m4: "cs_mscratch (ma_csr (sh_dev ?s4)) = 0x110"
    using g4(2) g3(2) by (simp add: csr_wdata_def)
  obtain t3 where r3: "with_dev (csr_do CSR_READ CSR_MSCRATCH 0) ?s4 = (0x110, t3)" "grown base ?s4 t3"
    "cs_mscratch (ma_csr (sh_dev t3)) = 0x110"
    using csr_read_step [OF grown_calm [OF g4(1)] plain_csrs(4)] m4 by auto
  obtain p3 where k3: "csr_check ?b True ''[OK] mscratch CSRS (Set) test passed.'' []
      ''[FAIL] mscratch CSRS test failed. Got: 0x%x'' [VInt 0x110] (True, t3) =
      Some (True, on_soc p3 t3)" "grown base t3 (on_soc p3 t3)"
    using check_grown [OF grown_calm [OF r3(2)] csr_printfs(3)] by blast
  let ?s5 = "w CSR_RC CSR_MSCRATCH 0x10 (on_soc p3 t3)"
  note g5 = csr_step [OF grown_calm [OF k3(2)] plain_csrs(4), where op = CSR_RC and x = "0x10", folded w_def, simplified]
  have m5: "cs_mscratch (ma_csr (sh_dev ?s5)) = 0x100"
    using g5(2) r3(3) by (simp add: csr_wdata_def)
  obtain t4 where r4: "with_dev (csr_do CSR_READ CSR_MSCRATCH 0) ?s5 = (0x100, t4)" "grown base ?s5 t4"
    using csr_read_step [OF grown_calm [OF g5(1)] plain_csrs(4)] m5 by auto
  obtain p4 where k4: "csr_check ?b True ''[OK] mscratch CSRC (Clear) test passed.'' []
      ''[FAIL] mscratch CSRC test failed. Got: 0x%x'' [VInt 0x100] (True, t4) =
      Some (True, on_soc p4 t4)" "grown base t4 (on_soc p4 t4)"
    using check_grown [OF grown_calm [OF r4(2)] csr_printfs(4)] by blast
  note hs = calm_csrs [where words = words and asm = asm and k = k]
  have "csr_rw_test ?b (irq_hart k (hw base words asm)) st = Some (True, on_soc p4 t4)"
    unfolding csr_rw_test_def Let_def hs(1) [OF c] hs(4) [OF grown_calm [OF g1(1)], unfolded w_def]
      r1(1) [unfolded w_def] prod.case simp_thms(6) k1(1) bind.bind_lunit fst_conv snd_conv
      hs(1) [OF grown_calm [OF k1(2)]] hs(4) [OF grown_calm [OF g2(1)], unfolded w_def] r2(1) [unfolded w_def] k2(1)
      hs(1) [OF grown_calm [OF k2(2)]] hs(2) [OF grown_calm [OF g3(1)], unfolded w_def]
      hs(4) [OF grown_calm [OF g4(1)], unfolded w_def] r3(1) [unfolded w_def] k3(1)
      hs(3) [OF grown_calm [OF k3(2)]] hs(4) [OF grown_calm [OF g5(1)], unfolded w_def] r4(1) [unfolded w_def] k4(1)
    by (rule TrueI)
  moreover have "grown base st (on_soc p4 t4)"
    using g1(1) r1(2) k1(2) g2(1) r2(2) k2(2) g3(1) g4(1) r3(2) k3(2) g5(1) r4(2) k4(2)
    by (meson grown_trans)
  ultimately show ?thesis by blast
qed

section \<open>ECALL\<close>

lemma even_plus_4: "\<not> bit x 0 \<Longrightarrow> \<not> bit (x + 4) 0" for x :: u32
  by (simp add: bit_0)

lemma ecall_serviced:
  fixes base words :: u32 and asm :: assembly_tests
  assumes c: "calm base m" and tv: "cs_mtvec (ma_csr m) = base" and al: "take_bit 2 base = 0"
  defines "m' \<equiv> run_handler (hw base words asm) (issue (ecall_in m) m)"
  shows "calm base m' \<and> ma_vars m' = (1, 11) \<and> ma_pc m' = ma_pc m + 4 \<and>
    s_sent (ma_soc m') = s_sent (ma_soc m) \<and> cs_mtvec (ma_csr m') = base"
proof -
  let ?t = "\<lparr>tr_cause = 11, tr_tval = 0, tr_to_s = False, tr_irq = None\<rparr>"
  have ok: "machine_ok base m" and p: "cs_priv (ma_csr m) = PRIV_M" and ev: "\<not> bit (ma_pc m) 0"
    using c by (simp_all add: calm_def machine_ok_def)
  have t: "trap_taken (ecall_in m) (ma_csr m) = Some ?t"
    using p by (simp add: trap_taken_def pending_trap_def ecall_in_def idle_in_def ecall_cause_def)
  have v: "trap_target ?t (ma_csr m) = base"
    using tv al by (simp add: trap_target_def Let_def aligned_target)
  have pc: "ci_pc (ecall_in m) = ma_pc m" by (simp add: ecall_in_def idle_in_def)
  have h: "same_but m1 (trap_handler raw_bus (hw base words asm) m1) \<and>
      ma_vars (trap_handler raw_bus (hw base words asm) m1) = (1, tr_cause ?t) \<and>
      cs_mepc (ma_csr (trap_handler raw_bus (hw base words asm) m1)) = even_pc (cs_mepc (ma_csr m1) + 4) \<and> True"
    if "m_off m1" "cs_mcause (ma_csr m1) = tr_cause ?t" for m1
    using handler_exception [OF that(1), of base words asm] that(2) by simp
  have ev': "\<not> bit (even_pc (x + 4)) 0" for x :: u32 by simp
  note s = service [OF ok t _ v pc, where ret = "\<lambda>x. even_pc (x + 4)" and Q = "\<lambda>_ _. True",
      OF _ h, folded m'_def, simplified]
  have "ma_pc m' = ma_pc m + 4"
    using s(3) ev even_plus_4 [OF ev] by (simp add: even_pc_id)
  with s c tv show ?thesis
    by (auto simp: calm_def soc_later_def)
qed

lemma ecall_test_grown:
  fixes base words :: u32 and asm :: assembly_tests
  assumes c: "calm base (sh_dev st)" and al: "take_bit 2 base = 0"
  shows "\<exists>st' bs. ecall_test (irq_bus (hw base words asm)) (irq_hart k (hw base words asm)) st = Some st' \<and>
    calm base (sh_dev st') \<and> ma_vars (sh_dev st') = (1, 11) \<and> ma_pc (sh_dev st') = ma_pc (sh_dev st) + 4 \<and>
    s_sent (ma_soc (sh_dev st')) =
      s_sent (ma_soc (sh_dev st)) @ bs @ cstr ''--- ECALL TRAP TEST PASSED! ---'' @ [10]"
proof -
  let ?b = "irq_bus (hw base words asm)"
  obtain s1 where p1: "say_fmt ?b ''--- Trap (ECALL/MRET) Test Start ---'' True [] st = Some (on_soc s1 st)"
    "grown base st (on_soc s1 st)"
    using say_const_grown [OF c, of "''--- Trap (ECALL/MRET) Test Start ---''" words asm] by (auto simp: cstr_def)
  let ?w = "\<lambda>m. (snd (csr_do CSR_RW CSR_MTVEC base m))\<lparr>ma_vars := (0, 0)\<rparr>"
  let ?t2 = "on_dev ?w (on_soc s1 st)"
  note w = calm_write [OF grown_calm [OF p1(2)] plain_csrs(3), where op = CSR_RW and x = base]
  have t2: "calm base (sh_dev ?t2)" "s_sent (ma_soc (sh_dev ?t2)) = s_sent s1" "ma_pc (sh_dev ?t2) = ma_pc (sh_dev st)"
    "cs_mtvec (ma_csr (sh_dev ?t2)) = base"
    using w al by (auto simp: on_dev_def calm_def machine_ok_def m_ie_def csr_wdata_def warl_tvec_def)
  obtain s3 where p3: "say_fmt ?b ''[INFO] mtvec set to 0x%x'' True [VInt base] ?t2 = Some (on_soc s3 ?t2)"
    "grown base ?t2 (on_soc s3 ?t2)"
    using say_grown [OF t2(1) csr_printfs(5), of words asm] by blast
  obtain s4 where p4: "say_fmt ?b ''[INFO] Executing ECALL...'' True [] (on_soc s3 ?t2) = Some (on_soc s4 (on_soc s3 ?t2))"
    "grown base (on_soc s3 ?t2) (on_soc s4 (on_soc s3 ?t2))"
    using say_const_grown [OF grown_calm [OF p3(2)], of "''[INFO] Executing ECALL...''" words asm] by (auto simp: cstr_def)
  let ?t4 = "on_soc s4 (on_soc s3 ?t2)"
  let ?t5 = "on_dev (\<lambda>m. run_handler (hw base words asm) (issue (ecall_in m) m)) ?t4"
  note e = ecall_serviced [OF grown_calm [OF p4(2)] _ al, of words asm]
  have t5: "calm base (sh_dev ?t5)" "ma_vars (sh_dev ?t5) = (1, 11)" "ma_pc (sh_dev ?t5) = ma_pc (sh_dev st) + 4"
    "s_sent (ma_soc (sh_dev ?t5)) = s_sent s4"
    using e t2(3,4) by (simp_all add: on_dev_def on_soc_def)
  obtain s6 where p6: "say_fmt ?b ''[INFO] Returned from ECALL!'' True [] ?t5 = Some (on_soc s6 ?t5)"
    "grown base ?t5 (on_soc s6 ?t5)"
    using say_const_grown [OF t5(1), of "''[INFO] Returned from ECALL!''" words asm] by (auto simp: cstr_def)
  obtain s7 where p7: "say_fmt ?b ''--- ECALL TRAP TEST PASSED! ---'' True [] (on_soc s6 ?t5) = Some (on_soc s7 (on_soc s6 ?t5))"
    "grown base (on_soc s6 ?t5) (on_soc s7 (on_soc s6 ?t5))"
    "s_sent s7 = s_sent s6 @ cstr ''--- ECALL TRAP TEST PASSED! ---'' @ [10]"
    using say_const_grown [OF grown_calm [OF p6(2)], of "''--- ECALL TRAP TEST PASSED! ---''" words asm]
    by (auto simp: cstr_def)
  have a1: "on_dev (h_csrw (irq_hart k (hw base words asm)) CSR_MTVEC base) (on_soc s1 st) =
      on_dev (\<lambda>m. snd (csr_do CSR_RW CSR_MTVEC base m)) (on_soc s1 st)"
    using calm_serve [OF grown_calm [OF p1(2)]] by (simp add: on_dev_def)
  have a2: "on_dev (h_set_trap_vars (irq_hart k (hw base words asm)) (0, 0))
      (on_dev (\<lambda>m. snd (csr_do CSR_RW CSR_MTVEC base m)) (on_soc s1 st)) = ?t2"
    by (simp add: on_dev_def)
  have a3: "on_dev (h_ecall (irq_hart k (hw base words asm))) ?t4 = ?t5"
    using calm_serve [OF grown_calm [OF p4(2)]] by (simp add: on_dev_def raw_hart_def)
  have v: "trap_hit_flag (irq_hart k (hw base words asm)) (sh_dev (on_soc s6 ?t5)) = 1"
    "trap_cause_val (irq_hart k (hw base words asm)) (sh_dev (on_soc s6 ?t5)) = 11"
    using t5(2) by (simp_all add: trap_hit_flag_def trap_cause_val_def)
  have "ecall_test ?b (irq_hart k (hw base words asm)) st = Some (on_soc s7 (on_soc s6 ?t5))"
    unfolding ecall_test_def Let_def p1(1) bind.bind_lunit irq_hart_simps(7) raw_simps(7) a1 a2 p3(1) p4(1) a3 p6(1) v
    by (simp add: p7(1))
  moreover have "\<exists>bs. s_sent s6 = s_sent (ma_soc (sh_dev st)) @ bs"
    using p1(2) t2(2) p3(2) p4(2) t5(4) p6(2) by (auto simp: grown_def)
  ultimately show ?thesis
    using p7(2,3) t5(2,3) p6(2) by (auto simp: grown_def)
qed

text \<open>Both parts of the command.\<close>

lemma test_csr_passes:
  fixes base words :: u32 and asm :: assembly_tests
  assumes c: "calm base (sh_dev st)" and al: "take_bit 2 base = 0"
  shows "\<exists>st' bs bs'. shell_test_csr (irq_bus (hw base words asm)) (irq_hart k (hw base words asm)) [] st = Some st' \<and>
    calm base (sh_dev st') \<and> ma_pc (sh_dev st') = ma_pc (sh_dev st) + 4 \<and>
    s_sent (ma_soc (sh_dev st')) = s_sent (ma_soc (sh_dev st)) @ bs @ cstr ''--- ALL TESTS PASSED! ---'' @ [10] @
      bs' @ cstr ''--- ECALL TRAP TEST PASSED! ---'' @ [10]"
proof -
  let ?b = "irq_bus (hw base words asm)" and ?h = "irq_hart k (hw base words asm)"
  obtain s1 where 1: "say_fmt ?b ''--- CSR Read/Write Test Start ---'' True [] st = Some (on_soc s1 st)"
    "grown base st (on_soc s1 st)"
    using say_const_grown [OF c, of "''--- CSR Read/Write Test Start ---''" words asm] by (auto simp: cstr_def)
  obtain st2 where 2: "csr_rw_test ?b ?h (on_soc s1 st) = Some (True, st2)" "grown base (on_soc s1 st) st2"
    using csr_rw_grown [OF grown_calm [OF 1(2)], of words asm k] by blast
  obtain s3 where 3: "say_fmt ?b ''--- ALL TESTS PASSED! ---'' True [] st2 = Some (on_soc s3 st2)"
    "grown base st2 (on_soc s3 st2)"
    "s_sent s3 = s_sent (ma_soc (sh_dev st2)) @ cstr ''--- ALL TESTS PASSED! ---'' @ [10]"
    using say_const_grown [OF grown_calm [OF 2(2)], of "''--- ALL TESTS PASSED! ---''" words asm] by (auto simp: cstr_def)
  obtain s4 where 4: "say_line ?b [] (on_soc s3 st2) = Some (on_soc s4 (on_soc s3 st2))"
    "grown base (on_soc s3 st2) (on_soc s4 (on_soc s3 st2))"
    using say_line_grown [OF grown_calm [OF 3(2)], of words asm "[]"] by blast
  let ?t4 = "on_soc s4 (on_soc s3 st2)"
  obtain st5 bs where 5: "ecall_test ?b ?h ?t4 = Some st5" "calm base (sh_dev st5)"
    "ma_pc (sh_dev st5) = ma_pc (sh_dev ?t4) + 4"
    "s_sent (ma_soc (sh_dev st5)) = s_sent (ma_soc (sh_dev ?t4)) @ bs @ cstr ''--- ECALL TRAP TEST PASSED! ---'' @ [10]"
    using ecall_test_grown [OF grown_calm [OF 4(2)] al, of words asm k] by blast
  have "shell_test_csr ?b ?h [] st = Some st5"
    using 1(1) 2(1) 3(1) 4(1) 5(1) by (simp add: shell_test_csr_def)
  moreover obtain bs0 where "s_sent (ma_soc (sh_dev st2)) = s_sent (ma_soc (sh_dev st)) @ bs0"
    using 1(2) 2(2) by (auto simp: grown_def)
  moreover obtain bs1 where "s_sent s4 = s_sent s3 @ bs1"
    using 4(2) by (auto simp: grown_def)
  ultimately show ?thesis
    using 1(2) 2(2) 3(2,3) 4(2) 5(2-4)
    by (intro exI [of _ st5] exI [of _ bs0] exI [of _ "bs1 @ bs"]) (simp add: grown_def)
qed

end
