(* ===== verification/Self_Test_Irq.thy ===== *)
theory Self_Test_Irq
  imports Self_Test_Csr Driver_Props
begin

text \<open>
  The tests of the machine software and machine timer interrupts on the processor: the
  interrupt arrives, the handler records its cause and silences it, and the test reports
  success. The timer interrupt may arrive while the test still prints; the contract \<open>idle_inv\<close> is
  instantiated once more for the state of waiting.
\<close>

section \<open>Nothing wanted\<close>

text \<open>\<open>still\<close>: interrupts may be on, but no line is wanted.\<close>

definition still :: "u32 \<Rightarrow> machine \<Rightarrow> bool" where
  "still base m \<longleftrightarrow>
     machine_ok base m \<and> s_tx_busy (ma_soc m) \<le> 2340 \<and>
     \<not> bit (cs_mie (ma_csr m)) 7 \<and> \<not> (bit (cs_mie (ma_csr m)) 3 \<and> s_msip (ma_soc m))"

lemma still_quiet:
  assumes "still base m"
  shows "interrupt (irq_pending m) (ma_csr m) = None" "serve h m = m"
  using assms interrupt_ok [of base m] serve_calm [of base m] by (simp_all add: still_def wants_def)

interpretation still: idle_inv "raw_hart base words asm" "\<lambda>m. still base m \<and> rest_of m = V"
  for base words asm V
  by unfold_locales (use serve_cyc in \<open>auto simp: still_quiet(2) soc_pass_def\<close>,
    auto simp: still_def rest_of_def)

lemma say_still:
  fixes base words :: u32 and asm :: assembly_tests
  assumes "still base (sh_dev st)"
  shows "\<exists>s. say (irq_bus (hw base words asm)) bs st = Some (on_soc s st) \<and>
    s_sent s = s_sent (ma_soc (sh_dev st)) @ bs \<and> still base (sh_dev (on_soc s st))"
proof -
  have "still base (sh_dev st) \<and> rest_of (sh_dev st) = rest_of (sh_dev st)" using assms by simp
  from still.say_step [OF this, of words asm bs] obtain d where d:
    "say (irq_bus (hw base words asm)) bs st = Some (st\<lparr>sh_dev := d\<rparr>)"
    "still base d" "rest_of d = rest_of (sh_dev st)" "s_sent (ma_soc d) = s_sent (ma_soc (sh_dev st)) @ bs"
    by blast
  from rest_eqD [OF d(3)] have e: "st\<lparr>sh_dev := d\<rparr> = on_soc (ma_soc d) st" by (simp add: on_soc_def)
  then have "sh_dev (on_soc (ma_soc d) st) = d" by (metis shell.select_convs(1) shell.update_convs(1) shell.surjective)
  with d e show ?thesis by (intro exI [of _ "ma_soc d"]) simp
qed

text \<open>A CSR instruction in such a state.\<close>

lemma still_write:
  assumes "still base m" "plain_csr a" "op \<noteq> CSR_READ"
  shows "snd (csr_do op a x m) =
    m\<lparr>ma_csr := csr_put a (csr_wdata op (csr_value a m) x) (csr_count (idle_in m) (ma_csr m)),
      ma_soc := soc_clock (ma_soc m)\<rparr>"
  using assms still_quiet(1) by (intro csr_write_quiet) (auto simp: still_def machine_ok_def)

lemma bit_warl_mstatus: "bit (warl_mstatus w) 3 = bit w 3"
  by (simp add: warl_mstatus_def Let_def bit_put_mpp bit_and_iff MSTATUS_MASK_def)

section \<open>The steps of the tests\<close>

lemma prepare_calm:
  fixes base words :: u32 and asm :: assembly_tests and k :: nat
  assumes c: "calm base m" and al: "take_bit 2 base = 0"
  defines "m' \<equiv> irq_prepare (irq_hart k (hw base words asm)) m"
  shows "calm base m'" "cs_mtvec (ma_csr m') = base" "cs_mie (ma_csr m') = cs_mie (ma_csr m)" "ma_vars m' = (0, 0)"
    "ma_soc m' = soc_clock (ma_soc m)" "ma_pc m' = ma_pc m"
proof -
  have w: "warl_tvec base = base" using al by (simp add: warl_tvec_def)
  have m': "m' = m\<lparr>ma_csr := (csr_count (idle_in m) (ma_csr m))\<lparr>cs_mtvec := base\<rparr>,
      ma_soc := soc_clock (ma_soc m), ma_vars := (0, 0)\<rparr>"
    using calm_serve [OF c] by (simp add: m'_def irq_prepare_def csr_write_off [OF calm_off [OF c]] csr_wdata_def w)
  have "csr_wf (csr_put 0x305 base (csr_count (idle_in m) (ma_csr m)))"
    using c by (intro wf_csr_put wf_count) (simp add: calm_def machine_ok_def)
  then have "csr_wf ((csr_count (idle_in m) (ma_csr m))\<lparr>cs_mtvec := base\<rparr>)" using w by simp
  then show "calm base m'"
    using c by (auto simp: m' calm_def machine_ok_def m_ie_def)
  show "cs_mtvec (ma_csr m') = base" "cs_mie (ma_csr m') = cs_mie (ma_csr m)" "ma_vars m' = (0, 0)"
    "ma_soc m' = soc_clock (ma_soc m)" "ma_pc m' = ma_pc m"
    by (simp_all add: m')
qed

lemma enable_line:
  fixes x :: u32
  assumes c: "calm base m"
  defines "m' \<equiv> snd (csr_do CSR_RS CSR_MIE x m)"
  shows "calm base m'" "cs_mie (ma_csr m') = (cs_mie (ma_csr m) OR x) AND IRQ_MASK"
    "cs_mtvec (ma_csr m') = cs_mtvec (ma_csr m)" "ma_vars m' = ma_vars m" "ma_soc m' = soc_clock (ma_soc m)"
    "ma_pc m' = ma_pc m"
  using calm_write [OF c, of CSR_MIE CSR_RS x] csr_write_off [OF calm_off [OF c], of CSR_MIE CSR_RS x]
  by (simp_all add: m'_def csr_wdata_def)

lemma interrupts_on:
  assumes c: "calm base m" and tv: "cs_mtvec (ma_csr m) = base"
  defines "m' \<equiv> snd (csr_do CSR_RS CSR_MSTATUS 8 m)"
  shows "machine_ok base m'" "m_ie m'" "cs_mie (ma_csr m') = cs_mie (ma_csr m)"
    "ma_vars m' = ma_vars m" "ma_soc m' = soc_clock (ma_soc m)" "ma_pc m' = ma_pc m"
proof -
  have m': "m' = m\<lparr>ma_csr := csr_put 0x300 (cs_mstatus (ma_csr m) OR 8) (csr_count (idle_in m) (ma_csr m)),
      ma_soc := soc_clock (ma_soc m)\<rparr>"
    using csr_write_off [OF calm_off [OF c], of CSR_MSTATUS CSR_RS 8] by (simp add: m'_def csr_wdata_def del: csr_put_plain)
  have wf: "csr_wf (csr_put 0x300 (cs_mstatus (ma_csr m) OR 8) (csr_count (idle_in m) (ma_csr m)))"
    using c by (intro wf_csr_put wf_count) (simp add: calm_def machine_ok_def)
  show "machine_ok base m'"
    using c tv wf by (simp add: m' calm_def machine_ok_def)
  show "m_ie m'" by (simp add: m' m_ie_def bit_warl_mstatus bit_or_iff)
  show "cs_mie (ma_csr m') = cs_mie (ma_csr m)" "ma_vars m' = ma_vars m" "ma_soc m' = soc_clock (ma_soc m)"
    "ma_pc m' = ma_pc m"
    by (simp_all add: m')
qed

lemma finish_calm:
  fixes base words :: u32 and asm :: assembly_tests and k n :: nat
  assumes c: "still base m"
  defines "m' \<equiv> irq_finish (irq_hart k (hw base words asm)) n m"
  shows "calm base m'" "ma_vars m' = ma_vars m" "s_sent (ma_soc m') = s_sent (ma_soc m)" "ma_pc m' = ma_pc m"
proof -
  let ?m1 = "snd (csr_do CSR_RC CSR_MSTATUS 8 m)"
  have m1: "?m1 = m\<lparr>ma_csr := csr_put 0x300 (cs_mstatus (ma_csr m) AND NOT 8) (csr_count (idle_in m) (ma_csr m)),
      ma_soc := soc_clock (ma_soc m)\<rparr>"
    using still_write [OF c, of CSR_MSTATUS CSR_RC 8] by (simp add: csr_wdata_def del: csr_put_plain)
  have wf: "csr_wf (csr_put 0x300 (cs_mstatus (ma_csr m) AND NOT 8) (csr_count (idle_in m) (ma_csr m)))"
    using c by (intro wf_csr_put wf_count) (simp add: still_def machine_ok_def)
  have off: "\<not> m_ie ?m1" by (simp add: m1 m_ie_def bit_warl_mstatus bit_and_iff bit_not_iff)
  have "machine_ok base ?m1"
    using c wf off by (simp add: m1 still_def machine_ok_def)
  then have c1: "calm base ?m1" using off c by (auto simp: calm_def m1 still_def)
  have m': "m' = snd (csr_do CSR_RC CSR_MIE (push_bit n 1) ?m1)"
    using still_quiet(2) [OF c] calm_serve [OF c1] by (simp add: m'_def irq_finish_def)
  show "calm base m'" "ma_vars m' = ma_vars m" "s_sent (ma_soc m') = s_sent (ma_soc m)" "ma_pc m' = ma_pc m"
    using calm_write [OF c1, of CSR_MIE CSR_RC "push_bit n 1"] by (simp_all add: m') (simp_all add: m1)
qed

lemma flag_vars [simp]:
  "trap_hit_flag (irq_hart k (hw base words asm)) m = fst (ma_vars m)"
  "trap_cause_val (irq_hart k (hw base words asm)) m = snd (ma_vars m)"
  by (simp_all add: trap_hit_flag_def trap_cause_val_def)

lemma wait_trap_hit: "trap_hit_flag h d \<noteq> 0 \<Longrightarrow> wait_trap n h d = (True, d)"
  by (cases n) simp_all

text \<open>The verdict, with the flag set and the cause the expected one.\<close>

lemma verdict_passes:
  fixes base words :: u32 and asm :: assembly_tests
  assumes c: "calm base (sh_dev st)" and v: "ma_vars (sh_dev st) = (1, expected)"
    and p: "printf (cstr l1 @ [10]) a1 \<noteq> None" "37 \<notin> set (cstr l2)"
  shows "\<exists>st' bs. irq_verdict (irq_bus (hw base words asm)) (irq_hart k (hw base words asm)) expected
      [(l1, a1), (l2, [])] wrong st = Some st' \<and> grown base st st' \<and>
    s_sent (ma_soc (sh_dev st')) = s_sent (ma_soc (sh_dev st)) @ bs @ cstr l2 @ [10]"
proof -
  obtain s1 where 1: "say_fmt (irq_bus (hw base words asm)) l1 True a1 st = Some (on_soc s1 st)"
    "grown base st (on_soc s1 st)"
    using say_grown [OF c p(1), of words asm] by blast
  obtain s2 where 2: "say_fmt (irq_bus (hw base words asm)) l2 True [] (on_soc s1 st) = Some (on_soc s2 (on_soc s1 st))"
    "grown base (on_soc s1 st) (on_soc s2 (on_soc s1 st))" "s_sent s2 = s_sent s1 @ cstr l2 @ [10]"
    using say_const_grown [OF grown_calm [OF 1(2)] p(2), of words asm] by auto
  have "irq_verdict (irq_bus (hw base words asm)) (irq_hart k (hw base words asm)) expected
      [(l1, a1), (l2, [])] wrong st = Some (on_soc s2 (on_soc s1 st))"
    using 1(1) 2(1) v by (simp add: irq_verdict_def Let_def)
  moreover have "grown base st (on_soc s2 (on_soc s1 st))" using 1(2) 2(2) by (rule grown_trans)
  moreover obtain bs where "s_sent s1 = s_sent (ma_soc (sh_dev st)) @ bs" using 1(2) by (auto simp: grown_def)
  ultimately show ?thesis using 2(3) by auto
qed

section \<open>The software interrupt\<close>

lemma soc_set_msip:
  fixes s :: soc
  defines "s' \<equiv> soc_wr (clint_mmio CLINT_MSIP_OFFSET) 1 s"
  shows "s_msip s'" "s_sent s' = s_sent s" "s_tx_busy s' \<le> s_tx_busy s"
  by (simp_all add: s'_def soc_wr_def soc_write_effect_def soc_addrs)

text \<open>Setting MSIP and waiting: the first turn of the loop takes the interrupt.\<close>

lemma msip_arrives:
  fixes base words :: u32 and asm :: assembly_tests and k n :: nat
  assumes m: "still base m" "m_ie m" "bit (cs_mie (ma_csr m)) 3" "ma_vars m = (0, 0)" and al: "take_bit 2 base = 0"
  defines "m1 \<equiv> clint_set_msip (irq_bus (hw base words asm)) m"
  shows "\<exists>m'. wait_trap (Suc n) (irq_hart k (hw base words asm)) m1 = (True, m') \<and> still base m' \<and>
    ma_vars m' = (1, 0x80000003) \<and> s_sent (ma_soc m') = s_sent (ma_soc m) \<and> ma_pc m' = ma_pc m"
proof -
  let ?h = "hw base words asm"
  have m1: "m1 = m\<lparr>ma_soc := soc_wr (clint_mmio CLINT_MSIP_OFFSET) 1 (ma_soc m)\<rparr>"
    using still_quiet(2) [OF m(1)] by (simp add: m1_def clint_set_msip_def irq_bus_def)
  note s = soc_set_msip [of "ma_soc m"]
  have ok: "machine_ok base m1" using m(1) by (simp add: m1 still_def)
  have w: "wants 3 m1" using m(2,3) s(1) by (simp add: m1 wants_def m_ie_def)
  have alone: "\<not> bit (cs_mie (ma_csr m1)) (10 - 3)" using m(1) by (simp add: m1 still_def)
  note one = serve_one [OF ok al _ w alone, of words asm, simplified]
  let ?m' = "(serve ?h m1)\<lparr>ma_soc := (soc_clock ^^ k) (ma_soc (serve ?h m1))\<rparr>"
  have v: "ma_vars ?m' = (1, 0x80000003)" using one by (simp add: cause_irq_def)
  have "wait_trap (Suc n) (irq_hart k ?h) m1 = wait_trap n (irq_hart k ?h) ?m'"
    using m(4) by (simp add: m1)
  also have "\<dots> = (True, ?m')" using v by (intro wait_trap_hit) simp
  finally have r: "wait_trap (Suc n) (irq_hart k ?h) m1 = (True, ?m')" .
  have e: "irq_effect 3 m1 (serve ?h m1)" "served m1 (serve ?h m1)" "machine_ok base (serve ?h m1)"
    using one by simp_all
  have "s_tx_busy (ma_soc ?m') \<le> 2340"
    using soc_later_clocks [of "ma_soc (serve ?h m1)" k] e(2) s(3) m(1)
    by (simp add: served_def soc_later_def m1 still_def)
  with e alone have "still base ?m'" by (simp add: still_def irq_effect_def m1)
  moreover have "s_sent (ma_soc ?m') = s_sent (ma_soc m)" "ma_pc ?m' = ma_pc m"
    using e(2) s(2) by (simp_all add: served_def soc_later_def m1)
  ultimately show ?thesis using r v by blast
qed

lemma test_msip_passes:
  fixes base words :: u32 and asm :: assembly_tests
  assumes c: "calm base (sh_dev st)" and al: "take_bit 2 base = 0" and mie: "\<not> bit (cs_mie (ma_csr (sh_dev st))) 7"
  shows "\<exists>st' bs. shell_test_msip (irq_bus (hw base words asm)) (irq_hart k (hw base words asm)) [] st = Some st' \<and>
    calm base (sh_dev st') \<and> ma_vars (sh_dev st') = (1, 0x80000003) \<and> ma_pc (sh_dev st') = ma_pc (sh_dev st) \<and>
    s_sent (ma_soc (sh_dev st')) =
      s_sent (ma_soc (sh_dev st)) @ bs @ cstr ''--- MSIP TEST PASSED! ---'' @ [10]"
proof -
  let ?b = "irq_bus (hw base words asm)" and ?h = "irq_hart k (hw base words asm)"
  obtain s1 where 1: "say_fmt ?b ''--- Machine Software Interrupt (MSIP) Test Start ---'' True [] st = Some (on_soc s1 st)"
    "grown base st (on_soc s1 st)"
    using say_const_grown [OF c, of "''--- Machine Software Interrupt (MSIP) Test Start ---''" words asm]
    by (auto simp: cstr_def)
  let ?d1 = "sh_dev (on_soc s1 st)"
  note pr = prepare_calm [OF grown_calm [OF 1(2)] al, where k = k and words = words and asm = asm]
  let ?d2 = "irq_prepare ?h ?d1"
  let ?d3 = "clint_clear_msip ?b ?d2"
  have d3: "?d3 = ?d2\<lparr>ma_soc := clint_clear_msip soc_bus (ma_soc ?d2)\<rparr>"
    using calm_serve [OF pr(1)] by (simp add: clint_clear_msip_def irq_bus_def)
  have c3: "calm base ?d3"
    using pr(1) soc_clear_msip(1) [of "ma_soc ?d2"] by (auto simp: d3 calm_def soc_later_def)
  note el = enable_line [OF c3, of 8]
  let ?d4 = "snd (csr_do CSR_RS CSR_MIE 8 ?d3)"
  have tv: "cs_mtvec (ma_csr ?d4) = base" using el(3) pr(2) by (simp add: d3)
  note on = interrupts_on [OF el(1) tv]
  let ?d5 = "snd (csr_do CSR_RS CSR_MSTATUS 8 ?d4)"
  have mie5: "bit (cs_mie (ma_csr ?d5)) 3" "\<not> bit (cs_mie (ma_csr ?d5)) 7"
    using on(3) el(2) mie pr(3) by (simp_all add: d3 bit_and_iff bit_or_iff IRQ_MASK_def)
  have msip5: "\<not> s_msip (ma_soc ?d5)"
    using on(5) el(5) soc_clear_msip(2) [of "ma_soc ?d2"] by (simp add: d3)
  have busy5: "s_tx_busy (ma_soc ?d5) \<le> 2340" using on(5) el(1,5) c3 by (auto simp: calm_def)
  have s5: "still base ?d5" using on(1) mie5 msip5 busy5 by (simp add: still_def)
  let ?st5 = "(on_soc s1 st)\<lparr>sh_dev := ?d5\<rparr>"
  obtain s6 where 6: "say ?b (cstr ''Triggering software interrupt via MSIP MMIO...'' @ [10]) ?st5 = Some (on_soc s6 ?st5)"
    "s_sent s6 = s_sent (ma_soc ?d5) @ cstr ''Triggering software interrupt via MSIP MMIO...'' @ [10]"
    "still base (sh_dev (on_soc s6 ?st5))"
    using say_still [of base ?st5 words asm] s5 by auto
  have say6: "say_fmt ?b ''Triggering software interrupt via MSIP MMIO...'' True [] ?st5 = Some (on_soc s6 ?st5)"
    using 6(1) by (simp add: say_fmt_def cstr_def printf_plain)
  let ?d6 = "sh_dev (on_soc s6 ?st5)"
  have m6: "m_ie ?d6" "bit (cs_mie (ma_csr ?d6)) 3" "ma_vars ?d6 = (0, 0)"
    using on(2,4) mie5(1) el(4) pr(4) by (simp_all add: m_ie_def d3)
  obtain d7 where 7: "wait_trap (Suc 999999) ?h (clint_set_msip ?b ?d6) = (True, d7)" "still base d7"
    "ma_vars d7 = (1, 0x80000003)" "s_sent (ma_soc d7) = s_sent s6" "ma_pc d7 = ma_pc ?d6"
    using msip_arrives [OF 6(3) m6 al, where words = words and asm = asm and n = 999999 and k = k] by auto
  let ?st7 = "(on_soc s6 ?st5)\<lparr>sh_dev := d7\<rparr>"
  have aw: "await_trap ?b ?h msg (on_dev (clint_set_msip ?b) (on_soc s6 ?st5)) = Some ?st7" for msg
    using 7(1) by (simp add: await_trap_def with_dev_def on_dev_def)
  note fi = finish_calm [OF 7(2), where k = k and words = words and asm = asm and n = 3]
  let ?st8 = "?st7\<lparr>sh_dev := irq_finish ?h 3 d7\<rparr>"
  have v8: "ma_vars (sh_dev ?st8) = (1, 0x80000003)" using fi(2) 7(3) by simp
  have c8: "calm base (sh_dev ?st8)" using fi(1) by simp
  have "\<exists>st' bs. irq_verdict ?b ?h 0x80000003
      [(''[OK] Software interrupt triggered and handled (cause=0x%x).'', [VInt (trap_cause_val ?h (sh_dev ?st8))]),
       (''--- MSIP TEST PASSED! ---'', [])] ''[FAIL] Wrong cause: 0x%x (expected 0x80000003)'' ?st8 = Some st' \<and>
      grown base ?st8 st' \<and>
      s_sent (ma_soc (sh_dev st')) = s_sent (ma_soc (sh_dev ?st8)) @ bs @ cstr ''--- MSIP TEST PASSED! ---'' @ [10]"
    by (rule verdict_passes [OF c8 v8]) (simp_all add: cstr_def)
  then obtain st' bs where 9: "irq_verdict ?b ?h 0x80000003
      [(''[OK] Software interrupt triggered and handled (cause=0x%x).'', [VInt (trap_cause_val ?h (sh_dev ?st8))]),
       (''--- MSIP TEST PASSED! ---'', [])] ''[FAIL] Wrong cause: 0x%x (expected 0x80000003)'' ?st8 = Some st'"
    "grown base ?st8 st'"
    "s_sent (ma_soc (sh_dev st')) = s_sent (ma_soc (sh_dev ?st8)) @ bs @ cstr ''--- MSIP TEST PASSED! ---'' @ [10]"
    by blast
  have e5: "on_dev (h_csrs ?h CSR_MSTATUS 8) (on_dev (h_csrs ?h CSR_MIE 8)
      (on_dev (clint_clear_msip ?b) (on_dev (irq_prepare ?h) (on_soc s1 st)))) = ?st5"
    using calm_serve [OF c3] calm_serve [OF el(1)] by (simp add: on_dev_def)
  have "shell_test_msip ?b ?h [] st = Some st'"
    using 1(1) e5 say6 aw 9(1) by (simp add: shell_test_msip_def on_dev_def)
  moreover obtain bs1 where "s_sent s1 = s_sent (ma_soc (sh_dev st)) @ bs1" using 1(2) by (auto simp: grown_def)
  moreover have "s_sent (ma_soc ?d5) = s_sent s1"
    using on(5) el(5) soc_clear_msip(1) [of "ma_soc ?d2"] pr(5) by (simp add: d3 soc_later_def)
  ultimately show ?thesis
    using 6(2) 7(4,5) fi(3,4) v8 9(2,3) on(6) el(6) pr(6)
    by (intro exI [of _ st'] exI [of _ "bs1 @ cstr ''Triggering software interrupt via MSIP MMIO...'' @ [10] @ bs"])
      (simp add: grown_def d3)
qed

section \<open>The timer interrupt\<close>

text \<open>
  The test has armed the timer and turned interrupts on: either the interrupt is still to come
  or it has been taken and recorded.
\<close>

definition waiting :: "u32 \<Rightarrow> u64 \<Rightarrow> u32 \<Rightarrow> machine \<Rightarrow> bool" where
  "waiting base C pc m \<longleftrightarrow>
     take_bit 2 base = 0 \<and> machine_ok base m \<and> m_ie m \<and> s_tx_busy (ma_soc m) \<le> 2340 \<and>
     \<not> bit (cs_mie (ma_csr m)) 3 \<and> s_cmp (ma_soc m) = C \<and> ma_pc m = pc \<and>
     (ma_vars m = (0, 0) \<and> bit (cs_mie (ma_csr m)) 7 \<or>
      ma_vars m = (1, 0x80000007) \<and> \<not> bit (cs_mie (ma_csr m)) 7)"

lemma waiting_serve:
  fixes base words :: u32 and asm :: assembly_tests
  assumes w: "waiting base C pc m"
  defines "m' \<equiv> serve (hw base words asm) m"
  shows "waiting base C pc m' \<and> soc_later (ma_soc m) (ma_soc m') \<and> (wants 7 m \<longrightarrow> fst (ma_vars m') \<noteq> 0)"
proof (cases "wants 7 m")
  case True
  have ok: "machine_ok base m" and al: "take_bit 2 base = 0" using w by (simp_all add: waiting_def)
  have alone: "\<not> bit (cs_mie (ma_csr m)) (10 - 7)" using w by (simp add: waiting_def)
  note one = serve_one [OF ok al _ True alone, of words asm, folded m'_def, simplified]
  have "ma_vars m' = (1, 0x80000007)" using one by (simp add: cause_irq_def)
  moreover have "\<not> bit (cs_mie (ma_csr m')) 7"
    using one bit_mie_cleared by (simp add: irq_effect_def)
  moreover have "\<not> bit (cs_mie (ma_csr m')) 3"
    using one alone by (simp add: irq_effect_def bit_and_iff bit_not_iff)
  ultimately show ?thesis
    using one w by (auto simp: waiting_def served_def soc_later_def)
next
  case False
  have "m' = m" unfolding m'_def
    by (rule serve_calm [of base]) (use w False in \<open>simp_all add: waiting_def wants_def\<close>)
  with w False show ?thesis by simp
qed

lemma waiting_pass: "waiting base C pc m \<Longrightarrow> soc_pass (ma_soc m) s \<Longrightarrow> waiting base C pc (m\<lparr>ma_soc := s\<rparr>)"
  by (auto simp: waiting_def soc_pass_def)

lemma waiting_busy: "waiting base C pc m \<Longrightarrow> s_tx_busy (ma_soc m) \<le> 2340"
  by (simp add: waiting_def)

interpretation waiting: idle_inv "raw_hart base words asm" "waiting base C pc" for base words asm C pc
  by unfold_locales (use waiting_serve waiting_pass serve_cyc waiting_busy in blast)+

text \<open>The loop sees the flag at the latest one turn after the timer has reached the compare value.\<close>

lemma timer_arrives:
  fixes base words :: u32 and asm :: assembly_tests
  assumes w: "waiting base C pc m" and k: "1 \<le> k"
    and n: "unat C \<le> s_cyc (ma_soc m) + n" and lim: "s_cyc (ma_soc m) + Suc n * (k + 10) < 2 ^ 64"
  shows "\<exists>m'. wait_trap (Suc n) (irq_hart k (hw base words asm)) m = (True, m') \<and> waiting base C pc m' \<and>
    fst (ma_vars m') \<noteq> 0 \<and> s_sent (ma_soc m') = s_sent (ma_soc m)"
  using w n lim
proof (induction n arbitrary: m)
  case (0 m)
  show ?case
  proof (cases "fst (ma_vars m) = 0")
    case False
    with 0 show ?thesis using wait_trap_hit [of "irq_hart k (hw base words asm)" m "Suc 0"] by auto
  next
    case True
    have "C \<le> of_nat (s_cyc (ma_soc m))"
      using 0(2,3) by (simp add: word_le_nat_alt unsigned_of_nat take_bit_nat_eq_self)
    then have "wants 7 m" using 0(1) True by (auto simp: wants_def waiting_def timer_irq_def)
    with waiting_serve [OF 0(1), of words asm] have s: "waiting base C pc (serve (hw base words asm) m)"
      "soc_later (ma_soc m) (ma_soc (serve (hw base words asm) m))" "fst (ma_vars (serve (hw base words asm) m)) \<noteq> 0"
      by simp_all
    let ?m' = "(serve (hw base words asm) m)\<lparr>ma_soc := (soc_clock ^^ k) (ma_soc (serve (hw base words asm) m))\<rparr>"
    have "waiting base C pc ?m'" by (rule waiting_pass [OF s(1) soc_pass_clocks])
    then show ?thesis using True s(2,3) by (simp add: soc_later_def)
  qed
next
  case (Suc n m)
  show ?case
  proof (cases "fst (ma_vars m) = 0")
    case False
    with Suc.prems show ?thesis using wait_trap_hit [of "irq_hart k (hw base words asm)" m "Suc (Suc n)"] by auto
  next
    case True
    note s = waiting_serve [OF Suc.prems(1), of words asm]
    let ?m' = "(serve (hw base words asm) m)\<lparr>ma_soc := (soc_clock ^^ k) (ma_soc (serve (hw base words asm) m))\<rparr>"
    have w': "waiting base C pc ?m'" by (rule waiting_pass [OF conjunct1 [OF s] soc_pass_clocks])
    have cyc: "s_cyc (ma_soc m) + k \<le> s_cyc (ma_soc ?m')" "s_cyc (ma_soc ?m') \<le> s_cyc (ma_soc m) + (k + 10)"
      using s serve_cyc [of base words asm m] by (auto simp: soc_later_def)
    have n': "unat C \<le> s_cyc (ma_soc ?m') + n" using Suc.prems(2) cyc(1) k by linarith
    have l': "s_cyc (ma_soc ?m') + Suc n * (k + 10) < 2 ^ 64"
    proof -
      have "s_cyc (ma_soc m) + ((k + 10) + Suc n * (k + 10)) < 2 ^ 64" using Suc.prems(3) by simp
      with cyc(2) show ?thesis by linarith
    qed
    from Suc.IH [OF w' n' l'] show ?thesis using True s by (auto simp: soc_later_def)
  qed
qed

text \<open>Reading the time and setting the alarm with interrupts off.\<close>

lemma quiet_read:
  assumes "machine_ok base m" "\<not> m_ie m"
  shows "bus_rd (irq_bus h) a (m\<lparr>ma_soc := s\<rparr>) = map_prod id (\<lambda>s. m\<lparr>ma_soc := s\<rparr>) (soc_rd a s)"
proof -
  have "serve h (m\<lparr>ma_soc := s\<rparr>) = m\<lparr>ma_soc := s\<rparr>"
    by (rule serve_calm [of base]) (use assms in \<open>simp_all add: wants_def\<close>)
  then show ?thesis by (cases "soc_rd a s") (simp add: irq_bus_def)
qed

lemma mtime_try_later: "clint_get_mtime_try soc_bus s = (r, s') \<Longrightarrow> soc_later s s' \<and> s_msip s' = s_msip s"
proof -
  have rd: "soc_later x y \<and> s_msip y = s_msip x" if "clint_read32 soc_bus a x = (v, y)" for a x v y
    using that soc_later_rd [of x "clint_mmio a"] soc_later_rd [of "snd (soc_rd (clint_mmio a) x)" "clint_mmio a"]
      soc_pass_rd [of x "clint_mmio a"] soc_pass_rd [of "snd (soc_rd (clint_mmio a) x)" "clint_mmio a"]
    by (auto simp: clint_read32_def read_twice_def soc_bus_def soc_pass_def Let_def split: prod.splits
        intro: soc_later_trans)
  show "soc_later s s' \<and> s_msip s' = s_msip s" if "clint_get_mtime_try soc_bus s = (r, s')"
    using that by (auto simp: clint_get_mtime_try_def Let_def dest!: rd split: prod.splits intro: soc_later_trans)
qed

lemma quiet_mtime:
  assumes m: "machine_ok base m" "\<not> m_ie m" and lim: "s_cyc (ma_soc m) + 24 < 2 ^ 64"
  shows "\<exists>v s. clint_get_mtime (irq_bus h) m = Some (v, m\<lparr>ma_soc := s\<rparr>) \<and> s_cyc s \<le> s_cyc (ma_soc m) + 24 \<and>
    unat v \<le> s_cyc s \<and> soc_later (ma_soc m) s"
proof -
  obtain v s where g: "clint_get_mtime soc_bus (ma_soc m) = Some (v, s)" "s_cyc s \<le> s_cyc (ma_soc m) + 24"
    "unat v \<le> s_cyc s"
    using clint_get_mtime_untorn [OF lim] by blast
  have rt: "read_twice (irq_bus h) a (m\<lparr>ma_soc := s\<rparr>) = map_prod id (\<lambda>s. m\<lparr>ma_soc := s\<rparr>) (read_twice soc_bus a s)" for a s
    using quiet_read [OF m] by (simp add: read_twice_def soc_bus_def split: prod.splits)
  have "clint_get_mtime (irq_bus h) (m\<lparr>ma_soc := ma_soc m\<rparr>) = Some (v, m\<lparr>ma_soc := s\<rparr>)"
    unfolding clint_get_mtime_def
    by (rule poll_until_image [OF g(1) [unfolded clint_get_mtime_def]])
      (simp add: clint_get_mtime_try_def clint_read32_def rt split: prod.splits)
  moreover have "soc_later (ma_soc m) s"
    by (rule poll_until_rule [OF g(1) [unfolded clint_get_mtime_def], where P = "soc_later (ma_soc m)"])
      (auto dest: mtime_try_later intro: soc_later_trans)
  ultimately show ?thesis using g by auto
qed

lemma quiet_alarm:
  assumes "machine_ok base m" "\<not> m_ie m"
  shows "\<exists>s. clint_set_mtimecmp (irq_bus h) C m = m\<lparr>ma_soc := s\<rparr> \<and> s_cmp s = C \<and> s_cyc s = s_cyc (ma_soc m) + 4 \<and>
    s_sent s = s_sent (ma_soc m) \<and> s_tx_busy s \<le> s_tx_busy (ma_soc m)"
proof -
  have sv: "serve h (m\<lparr>ma_soc := s\<rparr>) = m\<lparr>ma_soc := s\<rparr>" for s
    by (rule serve_calm [of base]) (use assms in \<open>simp_all add: wants_def\<close>)
  have "clint_set_mtimecmp (irq_bus h) C m = m\<lparr>ma_soc := clint_set_mtimecmp soc_bus C (ma_soc m)\<rparr>"
    using sv [of "ma_soc m"] sv by (simp add: clint_set_mtimecmp_def irq_bus_def soc_bus_def)
  moreover have "s_sent (soc_wr (clint_mmio CLINT_MTIMECMP_OFFSET) w s) = s_sent s \<and>
      s_tx_busy (soc_wr (clint_mmio CLINT_MTIMECMP_OFFSET) w s) \<le> s_tx_busy s \<and>
      s_sent (soc_wr (clint_mmio (CLINT_MTIMECMP_OFFSET + 4)) w s) = s_sent s \<and>
      s_tx_busy (soc_wr (clint_mmio (CLINT_MTIMECMP_OFFSET + 4)) w s) \<le> s_tx_busy s" for w s
    by (simp add: soc_wr_def soc_write_effect_def soc_addrs)
  ultimately show ?thesis
    using clint_set_mtimecmp_glitch [of C "ma_soc m"]
    by (intro exI [of _ "clint_set_mtimecmp soc_bus C (ma_soc m)"])
      (auto simp: clint_set_mtimecmp_def soc_bus_def intro: order_trans)
qed

lemma say_fmt_plain: "37 \<notin> set (cstr l) \<Longrightarrow> say_fmt b l True [] st = say b (cstr l @ [10]) st"
  by (simp add: say_fmt_def printf_plain)

lemma test_mtime_passes:
  fixes base words :: u32 and asm :: assembly_tests
  assumes c: "calm base (sh_dev st)" and al: "take_bit 2 base = 0" and mie: "\<not> bit (cs_mie (ma_csr (sh_dev st))) 3"
    and k: "1 \<le> k" and lim: "s_cyc (ma_soc (sh_dev st)) + 1000000 * k < 2 ^ 63"
  shows "\<exists>st' bs. shell_test_mtime (irq_bus (hw base words asm)) (irq_hart k (hw base words asm)) [] st = Some st' \<and>
    calm base (sh_dev st') \<and> ma_vars (sh_dev st') = (1, 0x80000007) \<and> ma_pc (sh_dev st') = ma_pc (sh_dev st) \<and>
    s_sent (ma_soc (sh_dev st')) =
      s_sent (ma_soc (sh_dev st)) @ bs @ cstr ''--- MTIME TEST PASSED! ---'' @ [10]"
proof -
  let ?b = "irq_bus (hw base words asm)" and ?h = "irq_hart k (hw base words asm)"
  let ?l1 = "''--- Machine Timer (mtime) Interrupt Test Start ---''" and ?l2 = "''Waiting for mtime interrupt...''"
  obtain s1 where 1: "say ?b (cstr ?l1 @ [10]) st = Some (on_soc s1 st)" "s_tx_busy s1 \<le> 2340"
    "s_sent s1 = s_sent (ma_soc (sh_dev st)) @ cstr ?l1 @ [10]"
    "s_cyc s1 \<le> s_cyc (ma_soc (sh_dev st)) + 60000 * length (cstr ?l1 @ [10])"
    using say_calm [OF c, of words asm "cstr ?l1 @ [10]"] by blast
  have say1: "say_fmt ?b ?l1 True [] st = Some (on_soc s1 st)"
    using 1(1) say_fmt_plain [of ?l1 ?b st] by (simp add: cstr_def)
  have cyc1: "s_cyc s1 \<le> s_cyc (ma_soc (sh_dev st)) + 3600000" using 1(4) by (simp add: cstr_def)
  let ?d1 = "sh_dev (on_soc s1 st)"
  have c1: "calm base ?d1" using c 1(2) by (simp add: calm_def on_soc_def)
  note pr = prepare_calm [OF c1 al, where k = k and words = words and asm = asm]
  note el = enable_line [OF pr(1), where x = "0x80"]
  let ?d2 = "snd (csr_do CSR_RS CSR_MIE 0x80 (irq_prepare ?h ?d1))"
  have mie2: "bit (cs_mie (ma_csr ?d2)) 7" "\<not> bit (cs_mie (ma_csr ?d2)) 3"
    using el(2) pr(3) mie by (simp_all add: bit_and_iff bit_or_iff IRQ_MASK_def)
  have cyc2: "s_cyc (ma_soc ?d2) = s_cyc s1 + 2" "s_sent (ma_soc ?d2) = s_sent s1" using el(5) pr(5) by simp_all
  have q2: "machine_ok base ?d2" "\<not> m_ie ?d2" "s_tx_busy (ma_soc ?d2) \<le> 2340" using el(1) by (simp_all add: calm_def)
  have lim2: "s_cyc (ma_soc ?d2) + 24 < 2 ^ 64" using cyc1 cyc2 lim by simp
  obtain v s3 where 3: "clint_get_mtime ?b ?d2 = Some (v, ?d2\<lparr>ma_soc := s3\<rparr>)" "s_cyc s3 \<le> s_cyc (ma_soc ?d2) + 24"
    "unat v \<le> s_cyc s3" "soc_later (ma_soc ?d2) s3"
    using quiet_mtime [OF q2(1,2) lim2, of "hw base words asm"] by blast
  let ?d3 = "?d2\<lparr>ma_soc := s3\<rparr>"
  obtain s4 where 4: "clint_set_mtimecmp ?b (v + 50000) ?d3 = ?d3\<lparr>ma_soc := s4\<rparr>" "s_cmp s4 = v + 50000"
    "s_cyc s4 = s_cyc s3 + 4" "s_sent s4 = s_sent s3" "s_tx_busy s4 \<le> s_tx_busy s3"
    using quiet_alarm [of base ?d3 "hw base words asm" "v + 50000"] q2 by auto
  let ?d4 = "?d2\<lparr>ma_soc := s4\<rparr>"
  have c4: "calm base ?d4" using q2 3(4) 4(5) by (simp add: calm_def soc_later_def)
  have tv: "cs_mtvec (ma_csr ?d4) = base" using el(3) pr(2) by simp
  note on = interrupts_on [OF c4 tv]
  let ?d5 = "snd (csr_do CSR_RS CSR_MSTATUS 8 ?d4)"
  have w5: "waiting base (v + 50000) (ma_pc (sh_dev st)) ?d5"
    using al on c4 mie2 4(2) el(4,6) pr(4,6) by (auto simp: waiting_def calm_def)
  let ?st5 = "(on_soc s1 st)\<lparr>sh_dev := ?d5\<rparr>"
  from waiting.say_step [of base "v + 50000" "ma_pc (sh_dev st)" ?st5 words asm "cstr ?l2 @ [10]"] w5
  obtain d6 where 6: "say ?b (cstr ?l2 @ [10]) ?st5 = Some (?st5\<lparr>sh_dev := d6\<rparr>)"
    "waiting base (v + 50000) (ma_pc (sh_dev st)) d6" "s_sent (ma_soc d6) = s_sent (ma_soc ?d5) @ cstr ?l2 @ [10]"
    "s_cyc (ma_soc ?d5) \<le> s_cyc (ma_soc d6)"
    "s_cyc (ma_soc d6) \<le> s_cyc (ma_soc ?d5) + 60000 * length (cstr ?l2 @ [10])"
    by auto
  let ?st6 = "?st5\<lparr>sh_dev := d6\<rparr>"
  have say6: "say_fmt ?b ?l2 True [] ?st5 = Some ?st6"
    using 6(1) say_fmt_plain [of ?l2 ?b ?st5] by (simp add: cstr_def)
  have cyc5: "s_cyc (ma_soc ?d5) = s_cyc s4 + 1" using on(5) by simp
  have cyc6: "s_cyc (ma_soc d6) \<le> s_cyc (ma_soc (sh_dev st)) + 7000000"
    using 6(5) cyc5 4(3) 3(2) cyc2(1) cyc1 by (simp add: cstr_def)
  have "unat (v + 50000) \<le> unat v + 50000"
    using unat_word_ariths(1) [of v 50000] by simp
  then have n: "unat (v + 50000) \<le> s_cyc (ma_soc d6) + 999999"
    using 3(3) 4(3) cyc5 6(4) by linarith
  have lim6: "s_cyc (ma_soc d6) + Suc 999999 * (k + 10) < 2 ^ 64" using cyc6 lim by simp
  obtain d7 where 7: "wait_trap (Suc 999999) ?h d6 = (True, d7)" "waiting base (v + 50000) (ma_pc (sh_dev st)) d7"
    "fst (ma_vars d7) \<noteq> 0" "s_sent (ma_soc d7) = s_sent (ma_soc d6)"
    using timer_arrives [OF 6(2) k n lim6, of words asm] by blast
  let ?st7 = "?st6\<lparr>sh_dev := d7\<rparr>"
  have aw: "await_trap ?b ?h msg ?st6 = Some ?st7" for msg
    using 7(1) by (simp add: await_trap_def with_dev_def)
  have still7: "still base d7" "ma_vars d7 = (1, 0x80000007)"
    using 7(2,3) by (auto simp: waiting_def still_def)
  note fi = finish_calm [OF still7(1), where k = k and words = words and asm = asm and n = 7]
  let ?st8 = "?st7\<lparr>sh_dev := irq_finish ?h 7 d7\<rparr>"
  have v8: "ma_vars (sh_dev ?st8) = (1, 0x80000007)" using fi(2) still7(2) by simp
  have c8: "calm base (sh_dev ?st8)" using fi(1) by simp
  have "\<exists>st' bs. irq_verdict ?b ?h 0x80000007
      [(''[OK] mtime interrupt correctly triggered and handled.'', []), (''--- MTIME TEST PASSED! ---'', [])]
      ''[FAIL] Interrupt triggered but wrong cause: 0x%x (expected 0x80000007)'' ?st8 = Some st' \<and>
      grown base ?st8 st' \<and>
      s_sent (ma_soc (sh_dev st')) = s_sent (ma_soc (sh_dev ?st8)) @ bs @ cstr ''--- MTIME TEST PASSED! ---'' @ [10]"
    by (rule verdict_passes [OF c8 v8]) (simp_all add: cstr_def)
  then obtain st' bs where 9: "irq_verdict ?b ?h 0x80000007
      [(''[OK] mtime interrupt correctly triggered and handled.'', []), (''--- MTIME TEST PASSED! ---'', [])]
      ''[FAIL] Interrupt triggered but wrong cause: 0x%x (expected 0x80000007)'' ?st8 = Some st'"
    "grown base ?st8 st'"
    "s_sent (ma_soc (sh_dev st')) = s_sent (ma_soc (sh_dev ?st8)) @ bs @ cstr ''--- MTIME TEST PASSED! ---'' @ [10]"
    by blast
  have e2: "sh_dev (on_dev (h_csrs ?h CSR_MIE 0x80) (on_dev (irq_prepare ?h) (on_soc s1 st))) = ?d2"
    using calm_serve [OF pr(1)] by (simp add: on_dev_def)
  have e5: "on_dev (h_csrs ?h CSR_MSTATUS 8)
      ((on_dev (h_csrs ?h CSR_MIE 0x80) (on_dev (irq_prepare ?h) (on_soc s1 st)))\<lparr>sh_dev := ?d4\<rparr>) = ?st5"
    using calm_serve [OF c4] by (simp add: on_dev_def)
  have "shell_test_mtime ?b ?h [] st = Some st'"
    using say1 e2 3(1) 4(1) e5 say6 aw 9(1) by (simp add: shell_test_mtime_def Let_def on_dev_def)
  moreover have "s_sent (ma_soc ?d5) = s_sent s1"
    using on(5) 4(4) 3(4) cyc2(2) by (simp add: soc_later_def)
  moreover have "ma_pc d7 = ma_pc (sh_dev st)" using 7(2) by (simp add: waiting_def)
  ultimately show ?thesis
    using 1(3) 6(3) 7(4) fi(3,4) v8 9(2,3)
    by (intro exI [of _ st'] exI [of _ "cstr ?l1 @ [10] @ cstr ?l2 @ [10] @ bs"]) (simp add: grown_def)
qed

end
