(* ===== verification/Self_Test_Props.thy ===== *)
theory Self_Test_Props
  imports Self_Test_Irq Rv_Divider Xmodem
begin

text \<open>
  The properties of the processor and of the monitor's self-tests on it: the register
  invariant of the privileged unit, the isolation of machine mode, division, and the tests
  run as commands of the monitor.
\<close>

section \<open>The privileged unit\<close>

text \<open>
  C23: The registers keep their legal values. Whatever instructions, interrupts, exceptions and
  returns the processor sees from reset on, every CSR holds a value its fields allow: no
  reserved privilege level in the current mode or in mstatus.MPP, no bit outside the masks,
  vector modes 0 and 1 only, even exception program counters.
\<close>

theorem csr_registers_legal:
  "csr_wf (fold csr_clock inputs csr_reset)"
proof -
  have "csr_wf s \<Longrightarrow> csr_wf (fold csr_clock inputs s)" for s
    by (induction inputs arbitrary: s) (simp_all add: wf_clock)
  then show ?thesis using wf_reset by blast
qed

text \<open>
  C24: Machine mode is out of reach from below. Once the processor, started from reset, is in user
  or supervisor mode, no sequence of instructions, CSR accesses, returns, delegated exceptions
  and delegated interrupts enters machine mode: only a trap to machine mode does. Until then medeleg, mideleg, mtvec, mcounteren, mscratch,
  mepc, mcause, mtval, the enable bits in mie of interrupts that are not delegated, the writable bits of mip but SSIP, and all
  of mstatus outside the supervisor's fields and MPRV (so MIE, MPIE, MPP, TVM, TW and TSR) keep their values; MPRV can only be
  cleared; and mcycle and minstret just count the cycles and the instructions retired.
\<close>

theorem machine_state_isolated:
  assumes s: "s = fold csr_clock before csr_reset" and p: "cs_priv s \<noteq> PRIV_M"
    and nt: "\<And>n t. n < length inputs \<Longrightarrow>
      trap_taken (inputs ! n) (fold csr_clock (take n inputs) s) = Some t \<Longrightarrow> tr_to_s t"
  shows "cs_priv (fold csr_clock inputs s) \<noteq> PRIV_M \<and> machine_regs (fold csr_clock inputs s) = machine_regs s \<and>
    m_status (fold csr_clock inputs s) = m_status s \<and>
    (bit (cs_mstatus (fold csr_clock inputs s)) 17 \<longrightarrow> bit (cs_mstatus s) 17) \<and>
    cs_cycle (fold csr_clock inputs s) = cs_cycle s + of_nat (length inputs) \<and>
    cs_instret (fold csr_clock inputs s) = cs_instret s + of_nat (length (filter ci_retire inputs))"
proof -
  have wf: "csr_wf s" unfolding s
    by (induction before rule: rev_induct) (simp_all add: wf_reset wf_clock)
  from wf p nt show ?thesis
  proof (induction inputs arbitrary: s)
    case (Cons i js s)
    have "\<And>t. trap_taken i s = Some t \<Longrightarrow> tr_to_s t" using Cons.prems(3) [of 0] by simp
    note b = below_machine [OF Cons.prems(1,2) this]
    have "trap_taken (js ! n) (fold csr_clock (take n js) (csr_clock i s)) = Some t \<Longrightarrow> n < length js \<Longrightarrow> tr_to_s t"
      for n t using Cons.prems(3) [of "Suc n" t] by simp
    with Cons.IH [OF wf_clock [OF Cons.prems(1)], of i] b show ?case by (simp add: below_frame_def)
  qed simp
qed

definition port_idle :: csr_in where
  "port_idle = \<lparr>ci_irq = 0, ci_fire = True, ci_pc = 0x200, ci_csr = None, ci_write = False, ci_wdata = 0,
     ci_exception = None, ci_mret = False, ci_sret = False, ci_sfence = False, ci_wfi = False, ci_retire = True\<rparr>"

definition port_write :: "csr_addr \<Rightarrow> u32 \<Rightarrow> csr_in" where
  "port_write a v = port_idle\<lparr>ci_csr := Some a, ci_write := True, ci_wdata := v\<rparr>"

text \<open>
  The kernel delegates illegal instructions and returns to user mode; a user program writes
  \<open>mtvec\<close>, which traps to supervisor mode, where \<open>sscratch\<close> is written.
\<close>

theorem machine_state_isolated_witness:
  "let s = fold csr_clock [port_write 0x302 4, port_write 0x305 0x80, port_idle\<lparr>ci_mret := True\<rparr>] csr_reset;
       s' = fold csr_clock [(port_write 0x305 0x40)\<lparr>ci_exception := Some (2, 0)\<rparr>, port_write 0x140 7] s
   in cs_priv s = PRIV_U \<and> cs_priv s' = PRIV_S \<and> cs_sscratch s' = 7 \<and> cs_mtvec s' = 0x80 \<and>
     machine_regs s' = machine_regs s"
proof -
  let ?before = "[port_write 0x302 4, port_write 0x305 0x80, port_idle\<lparr>ci_mret := True\<rparr>]"
  let ?inputs = "[(port_write 0x305 0x40)\<lparr>ci_exception := Some (2, 0)\<rparr>, port_write 0x140 7]"
  define s where "s = fold csr_clock ?before csr_reset"
  define t where "t = csr_clock ((port_write 0x305 0x40)\<lparr>ci_exception := Some (2, 0)\<rparr>) s"
  have v: "cs_priv s = PRIV_U" "cs_priv t = PRIV_S" "cs_sscratch (csr_clock (port_write 0x140 7) t) = 7"
    "cs_priv (csr_clock (port_write 0x140 7) t) = PRIV_S" "cs_mtvec (csr_clock (port_write 0x140 7) t) = 0x80"
    "trap_taken ((port_write 0x305 0x40)\<lparr>ci_exception := Some (2, 0)\<rparr>) s =
      Some \<lparr>tr_cause = 2, tr_tval = 0, tr_to_s = True, tr_irq = None\<rparr>"
    "trap_taken (port_write 0x140 7) t = None"
    unfolding t_def s_def by code_simp+
  have f: "fold csr_clock ?inputs s = csr_clock (port_write 0x140 7) t" by (simp add: t_def)
  have "machine_regs (fold csr_clock ?inputs s) = machine_regs s"
    using machine_state_isolated [OF s_def, of ?inputs] v(1,6,7) by (force simp: t_def less_Suc_eq)
  with v show ?thesis unfolding Let_def s_def [symmetric] f by blast
qed

section \<open>Division\<close>

text \<open>
  C25: The processor divides as the instruction set defines it. A DIV, DIVU, REM or REMU given to
  the idle divider is finished after the 33 cycles of its shift-and-subtract loop (at once for
  a zero divisor), the unit is free again, and the result written back is the signed or
  unsigned quotient or remainder, for a zero divisor and for the one overflowing quotient too;
  where C defines / and %, they agree with it.
\<close>

theorem divider_correct:
  assumes "\<not> dv_busy s" "\<not> dv_valid s"
  shows "dv_valid (cpu_div f3 a b s) \<and> \<not> dv_busy (cpu_div f3 a b s) \<and>
    div_wb_value f3 (cpu_div f3 a b s) =
      (if odd (f3 div 2) then rv_rem (even f3) a b else rv_div (even f3) a b) \<and>
    (b \<noteq> 0 \<longrightarrow> rv_div True a b = c_div a b \<and> rv_rem True a b = c_mod a b)"
  using cpu_div_value [OF assms] by (simp add: rv_div_def rv_rem_def c_div_def c_mod_def)

theorem divider_correct_witness:
  "div_wb_value 4 (cpu_div 4 (- 100) 7 divider_reset) = - 14 \<and>
   div_wb_value 6 (cpu_div 6 (- 100) 7 divider_reset) = - 2 \<and>
   div_wb_value 4 (cpu_div 4 100 0 divider_reset) = - 1 \<and>
   div_wb_value 4 (cpu_div 4 0x80000000 (- 1) divider_reset) = 0x80000000"
proof -
  have "\<not> dv_busy divider_reset" "\<not> dv_valid divider_reset" by (simp_all add: divider_reset_def)
  from divider_correct [OF this] have
    "div_wb_value f3 (cpu_div f3 a b divider_reset) =
      (if odd (f3 div 2) then rv_rem (even f3) a b else rv_div (even f3) a b)" for f3 a b by blast
  moreover have "rv_div True (- 100) 7 = - 14" "rv_rem True (- 100) 7 = - 2" "rv_div True 100 0 = - 1"
    "rv_div True 0x80000000 (- 1) = 0x80000000" by code_simp+
  ultimately show ?thesis by simp
qed

section \<open>The narrow CRC\<close>

lemma bit_crc16_uint16_bit:
  "bit (crc16_uint16_bit c) n \<longleftrightarrow> n < 16 \<and> (n \<noteq> 0 \<and> bit c (n - 1)) \<noteq> (bit c 15 \<and> bit (0x1021 :: u32) n)"
proof -
  have top: "c AND 0x8000 \<noteq> 0 \<longleftrightarrow> bit c 15" using and_exp_eq_0_iff_not_bit [of c 15] by simp
  define p where "p = push_bit 1 (ucast c :: u32)"
  have p: "bit p n \<longleftrightarrow> n < 32 \<and> n \<noteq> 0 \<and> bit c (n - 1)" for n
    unfolding p_def bit_push_bit_iff bit_ucast_iff by (auto dest: bit_imp_le_length)
  show ?thesis
    unfolding crc16_uint16_bit_def top p_def [symmetric]
    by (auto simp: p bit_ucast_iff bit_xor_iff)
qed

lemma crc16_uint16_bit_of: "crc16_uint16_bit (ucast c) = ucast (crc16_bit c)"
  by (rule bit_word_eqI) (auto simp: bit_crc16_uint16_bit bit_crc16_bit bit_ucast_iff)

lemma crc16_uint16_from_of:
  "crc16_uint16_from (ucast c) data = ucast (foldl crc16_byte c data)"
proof (induction data arbitrary: c)
  case (Cons b data)
  have it: "(crc16_uint16_bit ^^ n) (ucast x) = ucast ((crc16_bit ^^ n) x)" for n x
    by (induction n) (simp_all add: crc16_uint16_bit_of)
  have "ucast c XOR ucast (push_bit 8 (ucast b :: u32)) = (ucast (c XOR push_bit 8 (ucast b :: u32)) :: u16)"
    by (rule bit_word_eqI) (auto simp: bit_simps)
  then show ?case using Cons.IH by (simp add: crc16_byte_def it)
qed simp

lemma crc16_uint16_ccitt: "crc16_uint16 data = crc16_ccitt data"
  using crc16_uint16_from_of [of 0 data] by (simp add: crc16_uint16_def crc16_ccitt_def)

section \<open>The self-tests as commands of the monitor\<close>

text \<open>The monitor on the processor, with the C self-tests; the benchmark and the assembly tests are parameters.\<close>

definition monitor_cmd ::
    "u32 \<Rightarrow> u32 \<Rightarrow> assembly_tests \<Rightarrow> nat \<Rightarrow> (machine shell \<Rightarrow> machine shell option) \<Rightarrow> self_test set \<Rightarrow>
     string \<Rightarrow> machine shell \<Rightarrow> machine cmd_result" where
  "monitor_cmd base words asm k raystones cfg cmd =
     shell_dispatch (irq_bus (hw base words asm)) cfg
       (self_tests (irq_bus (hw base words asm)) (irq_hart k (hw base words asm)) raystones) (cstr cmd) []"

lemma monitor_tests:
  "TEST_A \<in> cfg \<Longrightarrow> monitor_cmd base words asm k rs cfg ''test-a'' st =
     finish (shell_test_a (irq_bus (hw base words asm)) (irq_hart k (hw base words asm)) [] st)"
  "TEST_CSR \<in> cfg \<Longrightarrow> monitor_cmd base words asm k rs cfg ''test-csr'' st =
     finish (shell_test_csr (irq_bus (hw base words asm)) (irq_hart k (hw base words asm)) [] st)"
  "TEST_MSIP \<in> cfg \<Longrightarrow> monitor_cmd base words asm k rs cfg ''test-msip'' st =
     finish (shell_test_msip (irq_bus (hw base words asm)) (irq_hart k (hw base words asm)) [] st)"
  "TEST_MTIME \<in> cfg \<Longrightarrow> monitor_cmd base words asm k rs cfg ''test-mtime'' st =
     finish (shell_test_mtime (irq_bus (hw base words asm)) (irq_hart k (hw base words asm)) [] st)"
  "TEST_SHIFT \<in> cfg \<Longrightarrow> monitor_cmd base words asm k rs cfg ''test-shift'' st =
     finish (shell_test_shift (irq_bus (hw base words asm)) (irq_hart k (hw base words asm)) [] st)"
  by (simp_all add: monitor_cmd_def shell_dispatch_def str_equals_iff cstr_def run_test_def self_tests_def)

text \<open>\<open>says st st' l\<close>: between the two states the monitor has printed, last of all the line \<open>l\<close>.\<close>

definition says :: "machine shell \<Rightarrow> machine shell \<Rightarrow> string \<Rightarrow> bool" where
  "says st st' l \<longleftrightarrow> (\<exists>bs. s_sent (ma_soc (sh_dev st')) = s_sent (ma_soc (sh_dev st)) @ bs @ cstr l @ [10])"

text \<open>The shift test: the processor's shifter, and the CRC on narrow integers, which is the loader's.\<close>

lemma run_checks_grown:
  fixes base words :: u32 and asm :: assembly_tests
  assumes "calm base (sh_dev st)" "\<forall>(n, a, e)\<in>set cs. a = e"
  shows "\<exists>st'. run_checks (irq_bus (hw base words asm)) cs p st = Some (p, st') \<and> grown base st st'"
  using assms
proof (induction cs arbitrary: st)
  case Nil
  then show ?case by (auto simp: grown_def)
next
  case (Cons c cs)
  obtain n a where c: "c = (n, a, a)" using Cons.prems(2) by (cases c) auto
  have "printf (cstr ''[OK] %s = 0x%x'' @ [10]) [VStr (cstr n), VInt a] \<noteq> None" by (simp add: cstr_def)
  from say_grown [OF Cons.prems(1) this, of words asm] obtain s where
    s: "say_fmt (irq_bus (hw base words asm)) ''[OK] %s = 0x%x'' True [VStr (cstr n), VInt a] st = Some (on_soc s st)"
    "grown base st (on_soc s st)" .
  from Cons.IH [OF grown_calm [OF s(2)]] Cons.prems(2) obtain st' where
    "run_checks (irq_bus (hw base words asm)) cs p (on_soc s st) = Some (p, st')" "grown base (on_soc s st) st'"
    by auto
  with s show ?case by (auto simp: c check_u32_def intro: grown_trans)
qed

lemma eight_times: "(f ^^ 8) x = f (f (f (f (f (f (f (f x)))))))"
  by (simp add: eval_nat_numeral)

lemma shift_checks_agree:
  "\<forall>(n, a, e)\<in>set (shift_checks (irq_hart k (hw base words asm))). a = e"
proof -
  have "arithmetic_shift_right 0x80000000 16 = 0xFFFF8000" "drop_bit 16 (0x80000000 :: u32) = 0x8000"
    by code_simp+
  moreover have "crc16_uint16 [1] = 0x1021" "crc16_uint16 (cstr ''123456789'') = 0x31C3"
    by (simp_all add: crc16_uint16_def cstr_def eight_times crc16_uint16_bit_def)
  ultimately show ?thesis by (simp add: shift_checks_def irq_hart_def raw_hart_def)
qed

lemma test_shift_command:
  assumes "calm base (sh_dev st)" and "TEST_SHIFT \<in> cfg"
  shows "\<exists>st'. monitor_cmd base words asm k raystones cfg ''test-shift'' st = Some (Return, st') \<and>
    calm base (sh_dev st') \<and> says st st' ''--- SHIFT TEST PASSED ---''"
proof -
  let ?b = "irq_bus (hw base words asm)" and ?h = "irq_hart k (hw base words asm)"
  obtain s1 where 1: "say_line ?b ''--- Shift and narrow integer test ---'' st = Some (on_soc s1 st)"
    "grown base st (on_soc s1 st)"
    using say_line_grown [OF assms(1), of words asm "''--- Shift and narrow integer test ---''"] by blast
  obtain st2 where 2: "run_checks ?b (shift_checks ?h) True (on_soc s1 st) = Some (True, st2)"
    "grown base (on_soc s1 st) st2"
    using run_checks_grown [OF grown_calm [OF 1(2)] shift_checks_agree, of words asm k base words asm True] by blast
  obtain s3 where 3: "say_line ?b ''--- SHIFT TEST PASSED ---'' st2 = Some (on_soc s3 st2)"
    "grown base st2 (on_soc s3 st2)" "s_sent s3 = s_sent (ma_soc (sh_dev st2)) @ cstr ''--- SHIFT TEST PASSED ---'' @ [10]"
    using say_line_grown [OF grown_calm [OF 2(2)], of words asm "''--- SHIFT TEST PASSED ---''"] by blast
  have "shell_test_shift ?b ?h [] st = Some (on_soc s3 st2)"
    using 1(1) 2(1) 3(1) by (simp add: shell_test_shift_def)
  moreover obtain bs where "s_sent (ma_soc (sh_dev st2)) = s_sent (ma_soc (sh_dev st)) @ bs"
    using 1(2) 2(2) by (auto simp: grown_def)
  ultimately show ?thesis
    using 3(2,3) monitor_tests(5) [OF assms(2)] by (simp add: finish_def says_def grown_def)
qed

text \<open>A demonstration: the machine after reset.\<close>

definition demo_machine :: machine where
  "demo_machine = \<lparr>ma_soc = soc_reset [], ma_csr = csr_reset,
     ma_core = (\<lparr>at_state = ATOMIC_IDLE, at_started = False, at_addr = 0, at_store_data = 0, at_old_value = 0,
       at_new_value = 0, at_result = 0, at_rd = 0, at_op = 0, at_is_lr = False, at_is_sc = False,
       at_res_valid = False, at_res_addr = 0, at_wb_valid = False, at_wb_rd = 0, at_wb_value = 0\<rparr>,
       \<lparr>dm_words = (\<lambda>_. 0), dm_ack = False, dm_dat_r = 0, dm_rdata_q = 0\<rparr>),
     ma_vars = (0, 0), ma_pc = 0x400, ma_lost = False\<rparr>"

definition demo_monitor :: "machine shell" where
  "demo_monitor = \<lparr>sh_dev = demo_machine, sh_mem = (\<lambda>_. 0), sh_sd = sd_state0, sh_tps = 0, sh_spi = 0\<rparr>"

definition demo_asm :: assembly_tests where
  "demo_asm = \<lparr>as_privilege = Pair 0, as_sv32 = (\<lambda>_. Pair 0)\<rparr>"

lemma demo_calm: "calm 0x100 (sh_dev demo_monitor)"
  using wf_reset
  by (simp add: demo_monitor_def demo_machine_def calm_def machine_ok_def m_ie_def core_idle_def soc_reset_def
      csr_reset_def)

text \<open>
  C22: The processor implements the A extension. On the processor's atomic unit, run clock cycle by
  clock cycle, the monitor's command test-a (every AMO with its corner cases, LR/SC with and
  without a reservation) returns to the prompt with "RV32A TEST PASSED" as the last line.
\<close>

theorem test_a_command:
  assumes "calm base (sh_dev st)" and "TEST_A \<in> cfg"
  shows "\<exists>st'. monitor_cmd base words asm k raystones cfg ''test-a'' st = Some (Return, st') \<and>
    calm base (sh_dev st') \<and> says st st' ''--- RV32A TEST PASSED ---''"
  using hart_a.test_a_passes [OF assms(1), of words asm k] monitor_tests(1) [OF assms(2)]
  by (auto simp: finish_def says_def)

theorem test_a_command_witness:
  "\<exists>st'. monitor_cmd 0x100 0x800 demo_asm 3 Some {TEST_A} ''test-a'' demo_monitor = Some (Return, st') \<and>
    says demo_monitor st' ''--- RV32A TEST PASSED ---''"
  using test_a_command [OF demo_calm, of "{TEST_A}" "0x800" demo_asm 3 Some] by auto

text \<open>
  C21: CSR accesses, ECALL and MRET work together. On the processor's privileged unit the command
  test-csr passes all register checks; its ECALL enters trap_handler, which records cause 11
  and returns to the instruction after the ECALL, and the command ends with "ECALL TRAP TEST
  PASSED!".
\<close>

theorem test_csr_command:
  assumes "calm base (sh_dev st)" and "take_bit 2 base = 0" and "TEST_CSR \<in> cfg"
  shows "\<exists>st'. monitor_cmd base words asm k raystones cfg ''test-csr'' st = Some (Return, st') \<and>
    calm base (sh_dev st') \<and> ma_pc (sh_dev st') = ma_pc (sh_dev st) + 4 \<and>
    says st st' ''--- ECALL TRAP TEST PASSED! ---'' \<and>
    (\<exists>bs bs'. s_sent (ma_soc (sh_dev st')) =
       s_sent (ma_soc (sh_dev st)) @ bs @ cstr ''--- ALL TESTS PASSED! ---'' @ [10] @ bs')"
proof -
  obtain st' bs bs' where "shell_test_csr (irq_bus (hw base words asm)) (irq_hart k (hw base words asm)) [] st = Some st'"
    "calm base (sh_dev st')" "ma_pc (sh_dev st') = ma_pc (sh_dev st) + 4"
    and s: "s_sent (ma_soc (sh_dev st')) = s_sent (ma_soc (sh_dev st)) @ bs @ cstr ''--- ALL TESTS PASSED! ---'' @ [10] @
      bs' @ cstr ''--- ECALL TRAP TEST PASSED! ---'' @ [10]"
    using test_csr_passes [OF assms(1,2), of words asm k] by blast
  moreover have "says st st' ''--- ECALL TRAP TEST PASSED! ---''"
    unfolding says_def s by (intro exI [of _ "bs @ cstr ''--- ALL TESTS PASSED! ---'' @ [10] @ bs'"]) simp
  ultimately show ?thesis using monitor_tests(2) [OF assms(3)] by (auto simp: finish_def)
qed

theorem test_csr_command_witness:
  "\<exists>st'. monitor_cmd 0x100 0x800 demo_asm 3 Some {TEST_CSR} ''test-csr'' demo_monitor = Some (Return, st') \<and>
    says demo_monitor st' ''--- ECALL TRAP TEST PASSED! ---''"
  using test_csr_command [OF demo_calm, of "{TEST_CSR}" "0x800" demo_asm 3 Some] by auto

text \<open>
  C20: Interrupts are delivered and handled. With both lines disabled at the start, test-msip raises
  the software interrupt and test-mtime arms the timer 50000 cycles ahead, which may fire while
  the monitor is still printing. trap_handler records the cause and silences the source, the
  waiting loop (k cycles per turn) sees the flag before its limit, and both commands end with
  PASSED, interrupts off and at the instruction they were called from. The cycle counter must
  stay below its wrap-around.
\<close>

theorem interrupt_commands:
  assumes "calm base (sh_dev st)" and "take_bit 2 base = 0" and "TEST_MSIP \<in> cfg" and "TEST_MTIME \<in> cfg"
    and "\<not> bit (cs_mie (ma_csr (sh_dev st))) 3" and "\<not> bit (cs_mie (ma_csr (sh_dev st))) 7"
    and "1 \<le> k" and "s_cyc (ma_soc (sh_dev st)) + 1000000 * k < 2 ^ 63"
  shows "(\<exists>st'. monitor_cmd base words asm k raystones cfg ''test-msip'' st = Some (Return, st') \<and>
      calm base (sh_dev st') \<and> ma_vars (sh_dev st') = (1, 0x80000003) \<and> ma_pc (sh_dev st') = ma_pc (sh_dev st) \<and>
      says st st' ''--- MSIP TEST PASSED! ---'') \<and>
    (\<exists>st'. monitor_cmd base words asm k raystones cfg ''test-mtime'' st = Some (Return, st') \<and>
      calm base (sh_dev st') \<and> ma_vars (sh_dev st') = (1, 0x80000007) \<and> ma_pc (sh_dev st') = ma_pc (sh_dev st) \<and>
      says st st' ''--- MTIME TEST PASSED! ---'')"
  using test_msip_passes [OF assms(1,2,6), of words asm k] test_mtime_passes [OF assms(1,2,5,7,8), of words asm]
    monitor_tests(3) [OF assms(3)] monitor_tests(4) [OF assms(4)]
  by (auto simp: finish_def says_def)

theorem interrupt_commands_witness:
  "\<exists>st'. monitor_cmd 0x100 0x800 demo_asm 3 Some UNIV ''test-mtime'' demo_monitor = Some (Return, st') \<and>
    says demo_monitor st' ''--- MTIME TEST PASSED! ---''"
proof -
  have "\<not> bit (cs_mie (ma_csr (sh_dev demo_monitor))) n" "s_cyc (ma_soc (sh_dev demo_monitor)) = 0" for n
    by (simp_all add: demo_monitor_def demo_machine_def csr_reset_def soc_reset_def)
  then show ?thesis
    using interrupt_commands [OF demo_calm, of UNIV 3 "0x800" demo_asm Some] by auto
qed

end
