(* ===== verification/Raystones.thy ===== *)
theory Raystones
  imports Complex_Main Self_Test
begin

text \<open>
  The benchmark \<open>raystones.c\<close>: a small ray tracer. Floating point is done by the compiler's
  support routines, which are not in the repository: the two floating types and their
  arithmetic are the record \<open>fp\<close>, an argument of every definition. A read of a
  local variable that has no value and a division by zero are \<open>None\<close>.
\<close>

section \<open>Floating point\<close>

text \<open>
  \<open>'f\<close> is \<open>float\<close>, \<open>'g\<close> is \<open>double\<close>. A literal is given by its exact value and rounded by \<open>f_lit\<close>
  or \<open>g_lit\<close>; \<open>f_of_g\<close> and \<open>g_of_f\<close> are the implicit conversions.
\<close>

record ('f, 'g) fp =
  f_add :: "'f \<Rightarrow> 'f \<Rightarrow> 'f"
  f_sub :: "'f \<Rightarrow> 'f \<Rightarrow> 'f"
  f_mul :: "'f \<Rightarrow> 'f \<Rightarrow> 'f"
  f_div :: "'f \<Rightarrow> 'f \<Rightarrow> 'f"
  f_neg :: "'f \<Rightarrow> 'f"
  f_lt :: "'f \<Rightarrow> 'f \<Rightarrow> bool"
  f_le :: "'f \<Rightarrow> 'f \<Rightarrow> bool"
  f_lit :: "rat \<Rightarrow> 'f"
  f_to_i32 :: "'f \<Rightarrow> int"
  f_to_u8 :: "'f \<Rightarrow> u8"
  g_add :: "'g \<Rightarrow> 'g \<Rightarrow> 'g"
  g_sub :: "'g \<Rightarrow> 'g \<Rightarrow> 'g"
  g_mul :: "'g \<Rightarrow> 'g \<Rightarrow> 'g"
  g_div :: "'g \<Rightarrow> 'g \<Rightarrow> 'g"
  g_neg :: "'g \<Rightarrow> 'g"
  g_lt :: "'g \<Rightarrow> 'g \<Rightarrow> bool"
  g_lit :: "rat \<Rightarrow> 'g"
  g_to_i32 :: "'g \<Rightarrow> int"
  g_of_f :: "'f \<Rightarrow> 'g"
  f_of_g :: "'g \<Rightarrow> 'f"

text \<open>A double constant where a float is wanted.\<close>

definition gf :: "('f, 'g) fp \<Rightarrow> rat \<Rightarrow> 'f" where
  "gf F q = f_of_g F (g_lit F q)"

definition fmax :: "('f, 'g) fp \<Rightarrow> 'f \<Rightarrow> 'f \<Rightarrow> 'f" where
  "fmax F x y = (if f_lt F y x then x else y)"

definition fmin :: "('f, 'g) fp \<Rightarrow> 'f \<Rightarrow> 'f \<Rightarrow> 'f" where
  "fmin F x y = (if f_lt F x y then x else y)"

definition raystones_absf :: "('f, 'g) fp \<Rightarrow> 'f \<Rightarrow> 'f" where
  "raystones_absf F x = (if f_lt F x (f_lit F 0) then f_neg F x else x)"

definition raystones_sqrtf :: "('f, 'g) fp \<Rightarrow> 'f \<Rightarrow> 'f" where
  "raystones_sqrtf F x =
     (if f_le F x (f_lit F 0) then f_lit F 0
      else ((\<lambda>guess. f_mul F (f_lit F (1 / 2)) (f_add F guess (f_div F x guess))) ^^ 8)
        (if f_lt F (f_lit F 1) x then x else f_lit F 1))"

fun pow_loop :: "('f, 'g) fp \<Rightarrow> nat \<Rightarrow> 'f \<Rightarrow> 'f \<Rightarrow> 'f" where
  "pow_loop F n result b =
     (if n = 0 then result
      else pow_loop F (n div 2) (if odd n then f_mul F result b else result) (f_mul F b b))"

declare pow_loop.simps [simp del]

definition raystones_powf :: "('f, 'g) fp \<Rightarrow> 'f \<Rightarrow> 'f \<Rightarrow> 'f" where
  "raystones_powf F base exponent =
     (if f_le F exponent (f_lit F 0) then f_lit F 1
      else if f_le F base (f_lit F 0) then f_lit F 0
      else pow_loop F (nat (f_to_i32 F (f_add F exponent (f_lit F (1 / 2))))) (f_lit F 1) base)"

section \<open>Vectors\<close>

record 'f vec3 =
  vx :: 'f
  vy :: 'f
  vz :: 'f

record 'f vec4 =
  v4x :: 'f
  v4y :: 'f
  v4z :: 'f
  v4w :: 'f

definition make_vec3 :: "'f \<Rightarrow> 'f \<Rightarrow> 'f \<Rightarrow> 'f vec3" where
  "make_vec3 x y z = \<lparr>vx = x, vy = y, vz = z\<rparr>"

definition make_vec4 :: "'f \<Rightarrow> 'f \<Rightarrow> 'f \<Rightarrow> 'f \<Rightarrow> 'f vec4" where
  "make_vec4 x y z w = \<lparr>v4x = x, v4y = y, v4z = z, v4w = w\<rparr>"

definition vec3_neg :: "('f, 'g) fp \<Rightarrow> 'f vec3 \<Rightarrow> 'f vec3" where
  "vec3_neg F V = make_vec3 (f_neg F (vx V)) (f_neg F (vy V)) (f_neg F (vz V))"

definition vec3_add :: "('f, 'g) fp \<Rightarrow> 'f vec3 \<Rightarrow> 'f vec3 \<Rightarrow> 'f vec3" where
  "vec3_add F U V = make_vec3 (f_add F (vx U) (vx V)) (f_add F (vy U) (vy V)) (f_add F (vz U) (vz V))"

definition vec3_sub :: "('f, 'g) fp \<Rightarrow> 'f vec3 \<Rightarrow> 'f vec3 \<Rightarrow> 'f vec3" where
  "vec3_sub F U V = make_vec3 (f_sub F (vx U) (vx V)) (f_sub F (vy U) (vy V)) (f_sub F (vz U) (vz V))"

definition vec3_dot :: "('f, 'g) fp \<Rightarrow> 'f vec3 \<Rightarrow> 'f vec3 \<Rightarrow> 'f" where
  "vec3_dot F U V =
     f_add F (f_add F (f_mul F (vx U) (vx V)) (f_mul F (vy U) (vy V))) (f_mul F (vz U) (vz V))"

definition vec3_scale :: "('f, 'g) fp \<Rightarrow> 'f \<Rightarrow> 'f vec3 \<Rightarrow> 'f vec3" where
  "vec3_scale F s U = make_vec3 (f_mul F s (vx U)) (f_mul F s (vy U)) (f_mul F s (vz U))"

definition vec3_length :: "('f, 'g) fp \<Rightarrow> 'f vec3 \<Rightarrow> 'f" where
  "vec3_length F U =
     raystones_sqrtf F
       (f_add F (f_add F (f_mul F (vx U) (vx U)) (f_mul F (vy U) (vy U))) (f_mul F (vz U) (vz U)))"

definition vec3_normalize :: "('f, 'g) fp \<Rightarrow> 'f vec3 \<Rightarrow> 'f vec3" where
  "vec3_normalize F U = vec3_scale F (f_div F (f_lit F 1) (vec3_length F U)) U"

section \<open>The scene\<close>

record 'f light =
  position :: "'f vec3"
  intensity :: 'f

record 'f material =
  refractive_index :: 'f
  albedo :: "'f vec4"
  diffuse_color :: "'f vec3"
  specular_exponent :: 'f

record 'f sphere =
  center :: "'f vec3"
  radius :: 'f
  sp_material :: "'f material"

definition make_Light :: "'f vec3 \<Rightarrow> 'f \<Rightarrow> 'f light" where
  "make_Light p i = \<lparr>position = p, intensity = i\<rparr>"

definition make_Material :: "'f \<Rightarrow> 'f vec4 \<Rightarrow> 'f vec3 \<Rightarrow> 'f \<Rightarrow> 'f material" where
  "make_Material r a color spec =
     \<lparr>refractive_index = r, albedo = a, diffuse_color = color, specular_exponent = spec\<rparr>"

definition make_Material_default :: "('f, 'g) fp \<Rightarrow> 'f material" where
  "make_Material_default F =
     make_Material (f_lit F 1) (make_vec4 (f_lit F 1) (f_lit F 0) (f_lit F 0) (f_lit F 0))
       (make_vec3 (f_lit F 0) (f_lit F 0) (f_lit F 0)) (f_lit F 0)"

definition make_Sphere :: "'f vec3 \<Rightarrow> 'f \<Rightarrow> 'f material \<Rightarrow> 'f sphere" where
  "make_Sphere c r M = \<lparr>center = c, radius = r, sp_material = M\<rparr>"

text \<open>The distance to the first intersection, when there is one.\<close>

definition Sphere_ray_intersect ::
    "('f, 'g) fp \<Rightarrow> 'f sphere \<Rightarrow> 'f vec3 \<Rightarrow> 'f vec3 \<Rightarrow> 'f option" where
  "Sphere_ray_intersect F S orig dir =
     (let L = vec3_sub F (center S) orig;
          tca = vec3_dot F L dir;
          d2 = f_sub F (vec3_dot F L L) (f_mul F tca tca);
          r2 = f_mul F (radius S) (radius S)
      in if f_lt F r2 d2 then None
         else let thc = raystones_sqrtf F (f_sub F r2 d2);
                  t0 = f_sub F tca thc;
                  t1 = f_add F tca thc;
                  t = (if f_lt F t0 (f_lit F 0) then t1 else t0)
           in if f_lt F t (f_lit F 0) then None else Some t)"

definition reflect :: "('f, 'g) fp \<Rightarrow> 'f vec3 \<Rightarrow> 'f vec3 \<Rightarrow> 'f vec3" where
  "reflect F I N = vec3_sub F I (vec3_scale F (f_mul F (f_lit F 2) (vec3_dot F I N)) N)"

definition refract_cos :: "('f, 'g) fp \<Rightarrow> 'f vec3 \<Rightarrow> 'f vec3 \<Rightarrow> 'f" where
  "refract_cos F I N = f_neg F (fmax F (f_neg F (f_lit F 1)) (fmin F (f_lit F 1) (vec3_dot F I N)))"

text \<open>The recursion for a ray from the inside need not end for an arbitrary arithmetic.\<close>

partial_function (option) refract ::
    "('f, 'g) fp \<Rightarrow> 'f vec3 \<Rightarrow> 'f vec3 \<Rightarrow> 'f \<Rightarrow> 'f \<Rightarrow> 'f vec3 option" where
  "refract F I N eta_t eta_i =
     (if f_lt F (refract_cos F I N) (f_lit F 0)
      then refract F I (vec3_neg F N) eta_i eta_t
      else let cosi = refract_cos F I N;
               eta = f_div F eta_i eta_t;
               k = f_sub F (f_lit F 1)
                 (f_mul F (f_mul F eta eta) (f_sub F (f_lit F 1) (f_mul F cosi cosi)))
        in Some (if f_lt F k (f_lit F 0) then make_vec3 (f_lit F 1) (f_lit F 0) (f_lit F 0)
                 else vec3_add F (vec3_scale F eta I)
                   (vec3_scale F (f_sub F (f_mul F eta cosi) (raystones_sqrtf F k)) N)))"

text \<open>
  \<open>scene_intersect\<close> has three output parameters, here a record; the hit point and the normal may
  still have no value when the function returns false.
\<close>

record 'f hit =
  h_point :: "'f vec3 option"
  h_normal :: "'f vec3 option"
  h_material :: "'f material"

definition sphere_hit ::
    "('f, 'g) fp \<Rightarrow> 'f vec3 \<Rightarrow> 'f vec3 \<Rightarrow> 'f sphere \<Rightarrow> 'f \<times> 'f hit \<Rightarrow> 'f \<times> 'f hit" where
  "sphere_hit F orig dir S = (\<lambda>(spheres_dist, H).
     case Sphere_ray_intersect F S orig dir of
       None \<Rightarrow> (spheres_dist, H)
     | Some dist_i \<Rightarrow>
         if f_lt F dist_i spheres_dist then
           let p = vec3_add F orig (vec3_scale F dist_i dir)
           in (dist_i, H\<lparr>h_point := Some p, h_normal := Some (vec3_normalize F (vec3_sub F p (center S))),
                         h_material := sp_material S\<rparr>)
         else (spheres_dist, H))"

definition checkerboard_hit ::
    "('f, 'g) fp \<Rightarrow> 'f vec3 \<Rightarrow> 'f vec3 \<Rightarrow> 'f \<Rightarrow> 'f hit \<Rightarrow> 'f \<times> 'f hit" where
  "checkerboard_hit F orig dir spheres_dist H =
     (if g_lt F (g_lit F (1 / 1000)) (g_of_f F (raystones_absf F (vy dir))) then
        let d = f_div F (f_neg F (f_add F (vy orig) (f_lit F 4))) (vy dir);
            pt = vec3_add F orig (vec3_scale F d dir)
        in if f_lt F (f_lit F 0) d \<and> f_lt F (raystones_absf F (vx pt)) (f_lit F 10) \<and>
              f_lt F (vz pt) (f_lit F (- 10)) \<and> f_lt F (f_lit F (- 30)) (vz pt) \<and> f_lt F d spheres_dist
           then (d, H\<lparr>h_point := Some pt, h_normal := Some (make_vec3 (f_lit F 0) (f_lit F 1) (f_lit F 0)),
                   h_material := (h_material H)\<lparr>diffuse_color :=
                     (if odd (g_to_i32 F (g_add F (g_mul F (g_lit F (1 / 2)) (g_of_f F (vx pt))) (g_lit F 1000)) +
                              g_to_i32 F (g_mul F (g_lit F (1 / 2)) (g_of_f F (vz pt))))
                      then make_vec3 (gf F (3 / 10)) (gf F (3 / 10)) (gf F (3 / 10))
                      else make_vec3 (gf F (3 / 10)) (gf F (1 / 5)) (gf F (1 / 10)))\<rparr>\<rparr>)
           else (gf F (10 ^ 30), H)
      else (gf F (10 ^ 30), H))"

definition scene_intersect ::
    "('f, 'g) fp \<Rightarrow> 'f sphere list \<Rightarrow> 'f vec3 \<Rightarrow> 'f vec3 \<Rightarrow> 'f hit \<Rightarrow> bool \<times> 'f hit" where
  "scene_intersect F spheres orig dir H =
     (let (spheres_dist, H1) = foldl (\<lambda>r S. sphere_hit F orig dir S r) (gf F (10 ^ 30), H) spheres;
          (checkerboard_dist, H2) = checkerboard_hit F orig dir spheres_dist H1
      in (f_lt F (fmin F spheres_dist checkerboard_dist) (f_lit F 1000), H2))"

section \<open>Casting a ray\<close>

text \<open>Moved off the surface, to the side the ray goes.\<close>

definition offset_orig :: "('f, 'g) fp \<Rightarrow> 'f vec3 \<Rightarrow> 'f vec3 \<Rightarrow> 'f vec3 \<Rightarrow> 'f vec3" where
  "offset_orig F point dir N =
     (if f_lt F (vec3_dot F dir N) (f_lit F 0) then vec3_sub F point (vec3_scale F (gf F (1 / 1000)) N)
      else vec3_add F point (vec3_scale F (gf F (1 / 1000)) N))"

definition sky :: "('f, 'g) fp \<Rightarrow> 'f vec3 \<Rightarrow> 'f vec3" where
  "sky F dir =
     (let s = f_of_g F (g_mul F (g_lit F (1 / 2)) (g_add F (g_of_f F (vy dir)) (g_lit F 1)))
      in vec3_add F (vec3_scale F s (make_vec3 (gf F (1 / 5)) (gf F (7 / 10)) (gf F (4 / 5))))
           (vec3_scale F s (make_vec3 (gf F 0) (gf F 0) (gf F (1 / 2)))))"

definition no_hit :: "('f, 'g) fp \<Rightarrow> 'f hit" where
  "no_hit F = \<lparr>h_point = None, h_normal = None, h_material = make_Material_default F\<rparr>"

text \<open>One light: the two intensities collected so far, and what it adds unless the point is in its shadow.\<close>

definition light_step ::
    "('f, 'g) fp \<Rightarrow> 'f sphere list \<Rightarrow> 'f vec3 \<Rightarrow> 'f vec3 \<Rightarrow> 'f vec3 \<Rightarrow> 'f material \<Rightarrow> 'f light \<Rightarrow> 'f \<times> 'f \<Rightarrow>
     ('f \<times> 'f) option" where
  "light_step F spheres dir point N m l = (\<lambda>(diffuse, specular). do {
     let light_dir = vec3_normalize F (vec3_sub F (position l) point);
     let light_distance = vec3_length F (vec3_sub F (position l) point);
     let shadow_orig = offset_orig F point light_dir N;
     let (shadowed, H) = scene_intersect F spheres shadow_orig light_dir (no_hit F);
     shadow \<leftarrow> (if shadowed
       then map_option (\<lambda>shadow_pt. f_lt F (vec3_length F (vec3_sub F shadow_pt shadow_orig)) light_distance)
              (h_point H)
       else Some False);
     if shadow then Some (diffuse, specular)
     else
       let diffuse' = f_add F diffuse (f_mul F (intensity l) (fmax F (f_lit F 0) (vec3_dot F light_dir N)));
           abc = fmax F (f_lit F 0)
             (vec3_dot F (vec3_neg F (reflect F (vec3_neg F light_dir) N)) dir);
           def = specular_exponent m
       in Some (diffuse',
            if f_lt F (f_lit F 0) abc \<and> f_lt F (f_lit F 0) def
            then f_add F specular (f_mul F (raystones_powf F abc def) (intensity l)) else specular)
   })"

fun light_loop ::
    "('f, 'g) fp \<Rightarrow> 'f sphere list \<Rightarrow> 'f vec3 \<Rightarrow> 'f vec3 \<Rightarrow> 'f vec3 \<Rightarrow> 'f material \<Rightarrow> 'f light list \<Rightarrow> 'f \<times> 'f \<Rightarrow>
     ('f \<times> 'f) option" where
  "light_loop F spheres dir point N m [] r = Some r"
| "light_loop F spheres dir point N m (l # ls) r =
     Option.bind (light_step F spheres dir point N m l r) (light_loop F spheres dir point N m ls)"

definition mix_colors ::
    "('f, 'g) fp \<Rightarrow> 'f material \<Rightarrow> 'f \<times> 'f \<Rightarrow> 'f vec3 \<Rightarrow> 'f vec3 \<Rightarrow> 'f vec3" where
  "mix_colors F m = (\<lambda>(diffuse, specular) reflect_color refract_color.
     let r0 = vec3_scale F (f_mul F diffuse (v4x (albedo m))) (diffuse_color m);
         r1 = vec3_add F r0 (vec3_scale F (f_mul F specular (v4y (albedo m)))
                (make_vec3 (f_lit F 1) (f_lit F 1) (f_lit F 1)));
         r2 = vec3_add F r1 (vec3_scale F (v4z (albedo m)) reflect_color)
     in vec3_add F r2 (vec3_scale F (v4w (albedo m)) refract_color))"

function cast_ray ::
    "('f, 'g) fp \<Rightarrow> 'f sphere list \<Rightarrow> 'f light list \<Rightarrow> 'f vec3 \<Rightarrow> 'f vec3 \<Rightarrow> nat \<Rightarrow> 'f vec3 option" where
  "cast_ray F spheres lights orig dir depth =
     (if 2 < depth then Some (sky F dir)
      else let (hit, H) = scene_intersect F spheres orig dir (no_hit F)
        in if \<not> hit then Some (sky F dir)
           else do {
             point \<leftarrow> h_point H;
             N \<leftarrow> h_normal H;
             let m = h_material H;
             let reflect_dir = vec3_normalize F (reflect F dir N);
             refracted \<leftarrow> refract F dir N (refractive_index m) (f_lit F 1);
             let refract_dir = vec3_normalize F refracted;
             reflect_color \<leftarrow> cast_ray F spheres lights (offset_orig F point reflect_dir N) reflect_dir (Suc depth);
             refract_color \<leftarrow> cast_ray F spheres lights (offset_orig F point refract_dir N) refract_dir (Suc depth);
             r \<leftarrow> light_loop F spheres dir point N m lights (f_lit F 0, f_lit F 0);
             Some (mix_colors F m r reflect_color refract_color)
           })"
  by pat_completeness auto

termination
  by (relation "measure (\<lambda>(F, spheres, lights, orig, dir, depth). 3 - depth)") auto

declare cast_ray.simps [simp del]

section \<open>The picture\<close>

abbreviation GRAPHICS_WIDTH_DEFAULT :: nat where "GRAPHICS_WIDTH_DEFAULT \<equiv> 120"
abbreviation GRAPHICS_HEIGHT_DEFAULT :: nat where "GRAPHICS_HEIGHT_DEFAULT \<equiv> 60"
abbreviation GRAPHICS_WIDTH_BENCH :: nat where "GRAPHICS_WIDTH_BENCH \<equiv> 40"
abbreviation GRAPHICS_HEIGHT_BENCH :: nat where "GRAPHICS_HEIGHT_BENCH \<equiv> 20"

text \<open>The statics of the module that vary: the size of the picture and whether this is the silent run.\<close>

record frame =
  graphics_width :: nat
  graphics_height :: nat
  bench_run :: bool

definition channel :: "('f, 'g) fp \<Rightarrow> 'f \<Rightarrow> u8" where
  "channel F c = f_to_u8 F (f_mul F (f_lit F 255) (fmax F (f_lit F 0) (fmin F (f_lit F 1) c)))"

text \<open>The 4 by 4 block of a logical pixel; the statements of the two inner loops.\<close>

definition block_store :: "nat \<Rightarrow> nat \<Rightarrow> u16 \<Rightarrow> memory \<Rightarrow> memory" where
  "block_store x y color m =
     foldl (\<lambda>m dy. foldl (\<lambda>m dx.
         let lx = x * 4 + dx; ly = y * 4 + 16 + dy
         in if lx < LCD_WIDTH \<and> ly < LCD_HEIGHT then fb_store (ly * LCD_WIDTH + lx) color m else m)
       m [0..<4]) m [0..<4]"

definition graphics_set_pixel ::
    "('f, 'g) fp \<Rightarrow> 'd bus \<Rightarrow> frame \<Rightarrow> nat \<Rightarrow> nat \<Rightarrow> 'f vec3 \<Rightarrow> 'd shell \<Rightarrow> 'd shell option" where
  "graphics_set_pixel F b fr x y C st =
     (if bench_run fr then
        (if odd y \<and> x + 1 = graphics_width fr
         then say_fmt b ''%d'' False [VInt (of_nat (y div 2))] st else Some st)
      else Some (st\<lparr>sh_mem := block_store x y
        (lcd_rgb565 (channel F (vx C)) (channel F (vy C)) (channel F (vz C))) (sh_mem st)\<rparr>))"

definition ray_dir :: "('f, 'g) fp \<Rightarrow> frame \<Rightarrow> nat \<Rightarrow> nat \<Rightarrow> 'f vec3" where
  "ray_dir F fr i j =
     (let h = graphics_height fr;
          dir_x = g_sub F (g_add F (g_lit F (of_nat i)) (g_lit F (1 / 2)))
            (g_div F (g_lit F (of_nat (graphics_width fr))) (g_lit F 2));
          dir_y = g_add F (g_neg F (g_add F (g_lit F (of_nat j)) (g_lit F (1 / 2))))
            (g_div F (g_lit F (of_nat h)) (g_lit F 2));
          dir_z = f_mul F (f_neg F (f_mul F (f_lit F (of_nat h)) (f_lit F (1 / 2))))
            (f_lit F (173205080757 / 100000000000))
      in make_vec3 (f_of_g F dir_x) (f_of_g F dir_y) dir_z)"

definition pixel_color ::
    "('f, 'g) fp \<Rightarrow> 'f sphere list \<Rightarrow> 'f light list \<Rightarrow> frame \<Rightarrow> nat \<Rightarrow> nat \<Rightarrow> 'f vec3 option" where
  "pixel_color F spheres lights fr i j =
     cast_ray F spheres lights (make_vec3 (f_lit F 0) (f_lit F 0) (f_lit F 0))
       (vec3_normalize F (ray_dir F fr i j)) 0"

definition render_pixel ::
    "('f, 'g) fp \<Rightarrow> 'd bus \<Rightarrow> 'f sphere list \<Rightarrow> 'f light list \<Rightarrow> frame \<Rightarrow> nat \<Rightarrow> nat \<Rightarrow> 'd shell \<Rightarrow> 'd shell option" where
  "render_pixel F b spheres lights fr i j st =
     Option.bind (pixel_color F spheres lights fr i j) (\<lambda>C. graphics_set_pixel F b fr i j C st)"

text \<open>\<open>for (i = k; n more; i++)\<close>.\<close>

fun for_up :: "(nat \<Rightarrow> 's \<Rightarrow> 's option) \<Rightarrow> nat \<Rightarrow> nat \<Rightarrow> 's \<Rightarrow> 's option" where
  "for_up f k 0 s = Some s"
| "for_up f k (Suc n) s = Option.bind (f k s) (for_up f (Suc k) n)"

definition lcd_yield :: "'d bus \<Rightarrow> 'd shell \<Rightarrow> 'd shell option" where
  "lcd_yield b st = map_option (\<lambda>d. st\<lparr>sh_dev := d\<rparr>) (timer_delay_us b (sh_tps st) 500 (sh_dev st))"

definition delay_ms :: "'d bus \<Rightarrow> u32 \<Rightarrow> 'd shell \<Rightarrow> 'd shell option" where
  "delay_ms b n st = map_option (\<lambda>d. st\<lparr>sh_dev := d\<rparr>) (timer_delay_ms b (sh_tps st) n (sh_dev st))"

definition render_row ::
    "('f, 'g) fp \<Rightarrow> 'd bus \<Rightarrow> 'f sphere list \<Rightarrow> 'f light list \<Rightarrow> frame \<Rightarrow> nat \<Rightarrow> 'd shell \<Rightarrow> 'd shell option" where
  "render_row F b spheres lights fr j st = do {
     st1 \<leftarrow> for_up (\<lambda>i. render_pixel F b spheres lights fr i j) 0 (graphics_width fr) st;
     if bench_run fr then Some st1 else lcd_yield b st1
   }"

definition render_rows ::
    "('f, 'g) fp \<Rightarrow> 'd bus \<Rightarrow> 'f sphere list \<Rightarrow> 'f light list \<Rightarrow> frame \<Rightarrow> 'd shell \<Rightarrow> 'd shell option" where
  "render_rows F b spheres lights fr = for_up (render_row F b spheres lights fr) 0 (graphics_height fr)"

section \<open>Statistics\<close>

definition rdinstret :: "'d hart \<Rightarrow> 'd \<Rightarrow> (u64 \<times> 'd) option" where
  "rdinstret h d = poll_until (csr_try64 h 0xC82 0xC02) d"

definition with_counter :: "('d \<Rightarrow> (u64 \<times> 'd) option) \<Rightarrow> 'd shell \<Rightarrow> (u64 \<times> 'd shell) option" where
  "with_counter f st = map_option (\<lambda>(v, d). (v, st\<lparr>sh_dev := d\<rparr>)) (f (sh_dev st))"

definition printk :: "'d bus \<Rightarrow> u64 \<Rightarrow> 'd shell \<Rightarrow> 'd shell option" where
  "printk b kx st = do {
     let intpart = (ucast (kx div 1000) :: u32);
     let fracpart = (ucast (kx mod 1000) :: u32);
     st1 \<leftarrow> say_fmt b ''%d.'' False [VInt intpart] st;
     st2 \<leftarrow> (if sint fracpart < 100 then say_fmt b ''0'' False [] st1 else Some st1);
     st3 \<leftarrow> (if sint fracpart < 10 then say_fmt b ''0'' False [] st2 else Some st2);
     say_fmt b ''%d'' False [VInt fracpart] st3
   }"

definition div_u64 :: "u64 \<Rightarrow> u64 \<Rightarrow> u64 option" where
  "div_u64 x y = (if y = 0 then None else Some (x div y))"

definition stats_end_frame ::
    "'d bus \<Rightarrow> 'd hart \<Rightarrow> frame \<Rightarrow> u64 \<times> u64 \<Rightarrow> 'd shell \<Rightarrow> 'd shell option" where
  "stats_end_frame b h fr = (\<lambda>(instret_start, cycles_start) st. do {
     (i1, st1) \<leftarrow> with_counter (rdinstret h) st;
     let instret = i1 - instret_start;
     (c1, st2) \<leftarrow> with_counter (rdcycle h) st1;
     let cycles = c1 - cycles_start;
     kCPI \<leftarrow> div_u64 (cycles * 1000) instret;
     let pixels = (of_nat (graphics_width fr * graphics_height fr) :: u64);
     kRAYSTONES \<leftarrow> div_u64 (pixels * 1000000000) cycles;
     st3 \<leftarrow> say b [10] st2;
     st4 \<leftarrow> say_fmt b ''%dx%d      %s     '' False
       [VInt (of_nat (graphics_width fr)), VInt (of_nat (graphics_height fr)),
        VStr (cstr (if bench_run fr then ''no gfx output (measurement is accurate)''
                    else ''gfx output (measurement is NOT accurate)''))] st3;
     st5 \<leftarrow> say_fmt b ''CPI='' False [] st4;
     st6 \<leftarrow> printk b kCPI st5;
     st7 \<leftarrow> say_fmt b ''     '' False [] st6;
     st8 \<leftarrow> say_fmt b ''RAYSTONES='' False [] st7;
     st9 \<leftarrow> printk b kRAYSTONES st8;
     say b [10] st9
   })"

definition stats_begin_frame :: "'d hart \<Rightarrow> 'd shell \<Rightarrow> ((u64 \<times> u64) \<times> 'd shell) option" where
  "stats_begin_frame h st = do {
     (i, st1) \<leftarrow> with_counter (rdinstret h) st;
     (c, st2) \<leftarrow> with_counter (rdcycle h) st1;
     Some ((i, c), st2)
   }"

definition render ::
    "('f, 'g) fp \<Rightarrow> 'd bus \<Rightarrow> 'd hart \<Rightarrow> 'f sphere list \<Rightarrow> 'f light list \<Rightarrow> frame \<Rightarrow> 'd shell \<Rightarrow> 'd shell option" where
  "render F b h spheres lights fr st = do {
     (start, st1) \<leftarrow> stats_begin_frame h st;
     st2 \<leftarrow> render_rows F b spheres lights fr st1;
     st3 \<leftarrow> (if bench_run fr then Some st2 else delay_ms b 10 st2);
     stats_end_frame b h fr start st3
   }"

section \<open>The scene of the benchmark\<close>

text \<open>Integer literals are \<open>i\<close>, double literals \<open>d\<close>.\<close>

definition init_spheres :: "('f, 'g) fp \<Rightarrow> 'f sphere list" where
  "init_spheres F =
     (let i = f_lit F; d = gf F;
          v3 = (\<lambda>x y z. make_vec3 (d x) (d y) (d z));
          v4 = (\<lambda>x y z w. make_vec4 (d x) (d y) (d z) (d w));
          ivory = make_Material (d 1) (v4 (3 / 5) (3 / 10) (1 / 10) 0) (v3 (2 / 5) (2 / 5) (3 / 10)) (d 50);
          glass = make_Material (d (3 / 2)) (v4 0 (1 / 2) (1 / 10) (4 / 5)) (v3 (3 / 5) (7 / 10) (4 / 5)) (d 125);
          red_rubber = make_Material (d 1) (v4 (9 / 10) (1 / 10) 0 0) (v3 (3 / 10) (1 / 10) (1 / 10)) (d 10);
          mirror = make_Material (d 1) (v4 0 10 (4 / 5) 0) (v3 1 1 1) (d 142)
      in [make_Sphere (make_vec3 (i (- 3)) (i 0) (i (- 16))) (i 2) ivory,
          make_Sphere (make_vec3 (d (- 1)) (d (- 3 / 2)) (i (- 12))) (i 2) glass,
          make_Sphere (make_vec3 (d (3 / 2)) (d (- 1 / 2)) (i (- 18))) (i 3) red_rubber,
          make_Sphere (make_vec3 (i 7) (i 5) (i (- 18))) (i 4) mirror])"

definition init_lights :: "('f, 'g) fp \<Rightarrow> 'f light list" where
  "init_lights F =
     (let i = f_lit F; d = gf F
      in [make_Light (make_vec3 (i (- 20)) (i 20) (i 20)) (d (3 / 2)),
          make_Light (make_vec3 (i 30) (i 50) (i (- 25))) (d (9 / 5)),
          make_Light (make_vec3 (i 30) (i 20) (i 30)) (d (17 / 10))])"

definition graphics_init :: "'d bus \<Rightarrow> 'd shell \<Rightarrow> 'd shell option" where
  "graphics_init b st = do {
     st1 \<leftarrow> delay_ms b 10 (st\<lparr>sh_mem := lcd_clear 0 (sh_mem st)\<rparr>);
     say_fmt b ''Rendering to LCD...'' True [] st1
   }"

definition bench_frame :: frame where
  "bench_frame = \<lparr>graphics_width = GRAPHICS_WIDTH_BENCH, graphics_height = GRAPHICS_HEIGHT_BENCH, bench_run = True\<rparr>"

definition lcd_frame :: frame where
  "lcd_frame = \<lparr>graphics_width = GRAPHICS_WIDTH_DEFAULT, graphics_height = GRAPHICS_HEIGHT_DEFAULT, bench_run = False\<rparr>"

definition raystones_run :: "('f, 'g) fp \<Rightarrow> 'd bus \<Rightarrow> 'd hart \<Rightarrow> 'd shell \<Rightarrow> 'd shell option" where
  "raystones_run F b h st = do {
     st1 \<leftarrow> graphics_init b st;
     let st2 = st1\<lparr>sh_dev := gpio_set_leds b 5 (sh_dev st1)\<rparr>;
     st3 \<leftarrow> say_fmt b ''Running without graphic output (for accurate measurement)...'' True [] st2;
     st4 \<leftarrow> render F b h (init_spheres F) (init_lights F) bench_frame st3;
     let st5 = st4\<lparr>sh_dev := gpio_set_leds b 10 (sh_dev st4)\<rparr>;
     st6 \<leftarrow> graphics_init b st5;
     st7 \<leftarrow> render F b h (init_spheres F) (init_lights F) lcd_frame st6;
     Some (st7\<lparr>sh_dev := gpio_set_leds b 15 (sh_dev st7)\<rparr>)
   }"

end
