(* ===== verification/Raystones_Props.thy ===== *)
theory Raystones_Props
  imports Raystones Driver_Props
begin

text \<open>
  The benchmark draws its picture: under the sign and order laws that IEEE 754 arithmetic has, no
  ray reads a variable without a value and no refraction recurs for ever; each logical pixel
  fills its own block of the framebuffer, and the blocks tile the screen between the margins.
\<close>

section \<open>The arithmetic\<close>

text \<open>
  Two floats that no comparison tells apart; the two zeros are, and two NaNs. The laws are those
  of \<open>float\<close> in round-to-nearest: negation is exact and reverses the order, sums and products of
  negated operands are the negated ones up to the sign of zero, and \<open>1e30\<close> is above \<open>1000\<close>.
\<close>

definition same_order :: "('f, 'g) fp \<Rightarrow> 'f \<Rightarrow> 'f \<Rightarrow> bool" where
  "same_order F x y \<longleftrightarrow> (\<forall>c. f_lt F x c = f_lt F y c \<and> f_lt F c x = f_lt F c y)"

definition fp_laws :: "('f, 'g) fp \<Rightarrow> bool" where
  "fp_laws F \<longleftrightarrow>
     (\<forall>x y. f_lt F x y \<longrightarrow> \<not> f_lt F y x) \<and>
     (\<forall>x y z. f_lt F x y \<longrightarrow> f_lt F y z \<longrightarrow> f_lt F x z) \<and>
     (\<forall>x y. f_lt F (f_neg F x) (f_neg F y) = f_lt F y x) \<and>
     (\<forall>x. f_neg F (f_neg F x) = x) \<and>
     same_order F (f_neg F (f_lit F 0)) (f_lit F 0) \<and>
     (\<forall>x y. same_order F (f_mul F x (f_neg F y)) (f_neg F (f_mul F x y))) \<and>
     (\<forall>x y. same_order F (f_add F (f_neg F x) (f_neg F y)) (f_neg F (f_add F x y))) \<and>
     (\<forall>x x' y y'. same_order F x x' \<longrightarrow> same_order F y y' \<longrightarrow>
        same_order F (f_add F x y) (f_add F x' y')) \<and>
     f_lt F (f_lit F 0) (f_lit F 1) \<and> \<not> f_lt F (gf F (10 ^ 30)) (f_lit F 1000)"

lemma fp_lawsD:
  assumes "fp_laws F"
  shows fp_asym: "f_lt F x y \<Longrightarrow> \<not> f_lt F y x"
    and fp_trans: "f_lt F x y \<Longrightarrow> f_lt F y z \<Longrightarrow> f_lt F x z"
    and fp_neg_lt: "f_lt F (f_neg F x) (f_neg F y) = f_lt F y x"
    and fp_neg_neg: "f_neg F (f_neg F x) = x"
    and fp_neg_0: "same_order F (f_neg F (f_lit F 0)) (f_lit F 0)"
    and fp_mul_neg: "same_order F (f_mul F x (f_neg F y)) (f_neg F (f_mul F x y))"
    and fp_add_neg: "same_order F (f_add F (f_neg F x) (f_neg F y)) (f_neg F (f_add F x y))"
    and fp_add_cong: "same_order F x x' \<Longrightarrow> same_order F y y' \<Longrightarrow>
      same_order F (f_add F x y) (f_add F x' y')"
    and fp_0_lt_1: "f_lt F (f_lit F 0) (f_lit F 1)"
    and fp_far: "\<not> f_lt F (gf F (10 ^ 30)) (f_lit F 1000)"
  using assms unfolding fp_laws_def by blast+

lemma same_order_trans: "same_order F x y \<Longrightarrow> same_order F y z \<Longrightarrow> same_order F x z"
  by (simp add: same_order_def)

section \<open>Refraction\<close>

lemma dot_neg:
  assumes F: "fp_laws F"
  shows "same_order F (vec3_dot F I (vec3_neg F N)) (f_neg F (vec3_dot F I N))"
proof -
  have add: "same_order F (f_add F x y) (f_neg F (f_add F x' y'))"
    if "same_order F x (f_neg F x')" "same_order F y (f_neg F y')" for x x' y y'
    using fp_add_cong [OF F that] fp_add_neg [OF F] by (rule same_order_trans)
  show ?thesis
    unfolding vec3_dot_def vec3_neg_def make_vec3_def vec3.simps by (intro add fp_mul_neg [OF F])
qed

lemma clamp_cong:
  assumes "same_order F x y"
  shows "fmax F a (fmin F b x) = fmax F a (fmin F b y) \<or>
    fmax F a (fmin F b x) = x \<and> fmax F a (fmin F b y) = y"
  using assms by (auto simp: fmax_def fmin_def same_order_def)

text \<open>A ray from the inside comes from the outside once the normal is turned round.\<close>

lemma refract_turn:
  assumes F: "fp_laws F" and in_: "f_lt F (refract_cos F I N) (f_lit F 0)"
  shows "\<not> f_lt F (refract_cos F I (vec3_neg F N)) (f_lit F 0)"
proof
  let ?z = "f_lit F 0" and ?o = "f_lit F 1" and ?d = "vec3_dot F I N"
  let ?e = "vec3_dot F I (vec3_neg F N)"
  assume turned: "f_lt F (refract_cos F I (vec3_neg F N)) ?z"
  note neg = fp_neg_lt [OF F] and nn = fp_neg_neg [OF F] and z = fp_neg_0 [OF F, unfolded same_order_def]
  have lt0: "f_lt F (f_neg F x) ?z = f_lt F ?z x" for x using neg [of x "f_neg F ?z"] z nn by metis
  have pos: "f_lt F ?z (fmax F (f_neg F ?o) (fmin F ?o x)) \<Longrightarrow> f_lt F ?z x" for x
    using fp_trans [OF F, of ?z ?o x] fp_asym [OF F, of ?z "f_neg F ?o"] fp_0_lt_1 [OF F]
      lt0 [of ?o]
    by (auto simp: fmax_def fmin_def split: if_splits)
  have "f_lt F ?z ?d" using in_ pos by (simp add: refract_cos_def lt0)
  moreover have "f_lt F ?z ?e" using turned pos by (simp add: refract_cos_def lt0)
  then have "f_lt F ?z (f_neg F ?d)" using dot_neg [OF F, of I N] by (simp add: same_order_def)
  then have "f_lt F ?d ?z" using neg [of "f_neg F ?z" ?d] z nn by metis
  ultimately show False using fp_asym [OF F] by blast
qed

lemma refract_returns:
  assumes F: "fp_laws F"
  shows "\<exists>v. refract F I N t i = Some v"
proof -
  have out: "\<exists>v. refract F I N t i = Some v" if "\<not> f_lt F (refract_cos F I N) (f_lit F 0)" for N t i
    using that by (subst refract.simps) (simp add: Let_def)
  show ?thesis
  proof (cases "f_lt F (refract_cos F I N) (f_lit F 0)")
    case True
    from out [OF refract_turn [OF F True], of i t] True show ?thesis by (subst refract.simps) simp
  qed (rule out)
qed

section \<open>Rays\<close>

text \<open>A hit comes with its point and its normal.\<close>

definition hit_known :: "('f, 'g) fp \<Rightarrow> 'f \<times> 'f hit \<Rightarrow> bool" where
  "hit_known F = (\<lambda>(d, H). d = gf F (10 ^ 30) \<or> h_point H \<noteq> None \<and> h_normal H \<noteq> None)"

lemma sphere_hit_known: "hit_known F r \<Longrightarrow> hit_known F (sphere_hit F orig dir S r)"
  by (auto simp: sphere_hit_def hit_known_def Let_def split: prod.splits option.splits)

lemma scene_intersect_known:
  assumes F: "fp_laws F" and hit: "scene_intersect F spheres orig dir (no_hit F) = (True, H)"
  shows "h_point H \<noteq> None \<and> h_normal H \<noteq> None"
proof -
  obtain d H1 where f: "foldl (\<lambda>r S. sphere_hit F orig dir S r) (gf F (10 ^ 30), no_hit F) spheres = (d, H1)"
    by (cases "foldl (\<lambda>r S. sphere_hit F orig dir S r) (gf F (10 ^ 30), no_hit F) spheres")
  have "hit_known F (d, H1)"
    unfolding f [symmetric]
    by (rule foldl_invariant [where P = "hit_known F"]) (simp_all add: sphere_hit_known, simp add: hit_known_def)
  then have k: "d = gf F (10 ^ 30) \<or> h_point H1 \<noteq> None \<and> h_normal H1 \<noteq> None"
    by (simp add: hit_known_def)
  obtain c H2 where c: "checkerboard_hit F orig dir d H1 = (c, H2)"
    by (cases "checkerboard_hit F orig dir d H1")
  have H: "H = H2" and lt: "f_lt F (fmin F d c) (f_lit F 1000)"
    using hit unfolding scene_intersect_def f c Let_def prod.case by simp_all
  show ?thesis
  proof (cases "c = gf F (10 ^ 30) \<and> H2 = H1")
    case True
    with lt have "d \<noteq> gf F (10 ^ 30)" using fp_far [OF F] by (auto simp: fmin_def split: if_splits)
    with k H True show ?thesis by simp
  next
    case False
    with c H show ?thesis by (auto simp: checkerboard_hit_def Let_def split: if_splits)
  qed
qed

lemma light_step_returns:
  assumes F: "fp_laws F"
  shows "\<exists>r'. light_step F spheres dir point N m l r = Some r'"
proof -
  obtain diffuse specular where r: "r = (diffuse, specular)" by (cases r)
  define orig where "orig = offset_orig F point (vec3_normalize F (vec3_sub F (position l) point)) N"
  obtain hit H where h: "scene_intersect F spheres orig
      (vec3_normalize F (vec3_sub F (position l) point)) (no_hit F) = (hit, H)"
    by (cases "scene_intersect F spheres orig (vec3_normalize F (vec3_sub F (position l) point)) (no_hit F)")
  have "\<exists>s. (if hit then map_option f (h_point H) else Some False) = Some s" for f
    using scene_intersect_known [OF F, of spheres orig _ H] h by (cases hit) auto
  then obtain s where s: "(if hit then map_option (\<lambda>p. f_lt F (vec3_length F (vec3_sub F p orig))
      (vec3_length F (vec3_sub F (position l) point))) (h_point H) else Some False) = Some s"
    by blast
  show ?thesis
    unfolding light_step_def r prod.case Let_def orig_def [symmetric] h s Option.bind.bind_lunit
    by (cases s) simp_all
qed

lemma light_loop_returns:
  assumes F: "fp_laws F"
  shows "\<exists>r'. light_loop F spheres dir point N m ls r = Some r'"
proof (induction ls arbitrary: r)
  case (Cons l ls)
  then show ?case using light_step_returns [OF F, of spheres dir point N m l r] by auto
qed simp

lemma cast_ray_returns:
  assumes F: "fp_laws F"
  shows "\<exists>v. cast_ray F spheres lights orig dir depth = Some v"
proof (induction "3 - depth" arbitrary: orig dir depth)
  case 0
  then show ?case by (subst cast_ray.simps) simp
next
  case (Suc k)
  then have IH: "\<exists>v. cast_ray F spheres lights orig dir (Suc depth) = Some v" for orig dir by simp
  obtain hit H where h: "scene_intersect F spheres orig dir (no_hit F) = (hit, H)"
    by (cases "scene_intersect F spheres orig dir (no_hit F)")
  show ?case
  proof (cases "2 < depth \<or> \<not> hit")
    case True
    then show ?thesis by (subst cast_ray.simps) (auto simp: h)
  next
    case False
    with h have "scene_intersect F spheres orig dir (no_hit F) = (True, H)" by simp
    from scene_intersect_known [OF F this] obtain p N where pn: "h_point H = Some p" "h_normal H = Some N"
      by blast
    obtain v where v: "refract F dir N (refractive_index (h_material H)) (f_lit F 1) = Some v"
      using refract_returns [OF F] by blast
    from IH obtain c1 where c1: "cast_ray F spheres lights
        (offset_orig F p (vec3_normalize F (reflect F dir N)) N)
        (vec3_normalize F (reflect F dir N)) (Suc depth) = Some c1" by blast
    from IH obtain c2 where c2: "cast_ray F spheres lights
        (offset_orig F p (vec3_normalize F v) N) (vec3_normalize F v) (Suc depth) = Some c2" by blast
    obtain r where r: "light_loop F spheres dir p N (h_material H) lights (f_lit F 0, f_lit F 0) = Some r"
      using light_loop_returns [OF F] by blast
    show ?thesis using False by (subst cast_ray.simps) (simp add: h pn v c1 c2 r)
  qed
qed

section \<open>Painting\<close>

text \<open>\<open>m'\<close> is \<open>m\<close> with the pixels of \<open>D\<close> set to their colours.\<close>

definition drawn :: "(nat \<Rightarrow> bool) \<Rightarrow> (nat \<Rightarrow> u16) \<Rightarrow> memory \<Rightarrow> memory \<Rightarrow> bool" where
  "drawn D c m m' \<longleftrightarrow>
     (\<forall>p < LCD_WIDTH * LCD_HEIGHT. fb_load p m' = (if D p then c p else fb_load p m)) \<and>
     (\<forall>a. \<not> in_framebuffer a \<longrightarrow> m' a = m a)"

lemma drawn_refl: "drawn (\<lambda>p. False) c m m"
  by (simp add: drawn_def)

lemma drawn_trans: "drawn D c m m1 \<Longrightarrow> drawn E c m1 m2 \<Longrightarrow> drawn (\<lambda>p. D p \<or> E p) c m m2"
  by (simp add: drawn_def)

lemma drawn_cong:
  "drawn D c m m' \<Longrightarrow> (\<And>p. p < LCD_WIDTH * LCD_HEIGHT \<Longrightarrow> D p = E p \<and> (D p \<longrightarrow> c p = e p)) \<Longrightarrow> drawn E e m m'"
  by (simp add: drawn_def)

lemma drawn_store: "i < LCD_WIDTH * LCD_HEIGHT \<Longrightarrow> drawn (\<lambda>p. p = i) (\<lambda>_. col) m (fb_store i col m)"
  by (auto simp: drawn_def fb_load_store fb_store_outside)

lemma drawn_foldl:
  assumes "\<And>x m. x \<in> set xs \<Longrightarrow> drawn (D x) c m (f m x)"
  shows "drawn (\<lambda>p. \<exists>x\<in>set xs. D x p) c m (foldl f m xs)"
  using assms
proof (induction xs arbitrary: m)
  case (Cons x xs)
  have "drawn (D x) c m (f m x)" using Cons.prems by simp
  moreover have "drawn (\<lambda>p. \<exists>x\<in>set xs. D x p) c (f m x) (foldl f (f m x) xs)" using Cons by simp
  ultimately show ?case by (simp add: drawn_trans)
qed (simp add: drawn_refl)

text \<open>The block of a logical pixel, and the logical pixel that a pixel belongs to.\<close>

definition block :: "nat \<Rightarrow> nat \<Rightarrow> nat \<Rightarrow> bool" where
  "block x y p \<longleftrightarrow> p mod LCD_WIDTH div 4 = x \<and> 16 \<le> p div LCD_WIDTH \<and> (p div LCD_WIDTH - 16) div 4 = y"

lemma block_cover:
  assumes "x < GRAPHICS_WIDTH_DEFAULT"
  shows "(\<exists>dy\<in>{0..<4}. \<exists>dx\<in>{0..<4}. p = (y * 4 + 16 + dy) * LCD_WIDTH + (x * 4 + dx)) \<longleftrightarrow> block x y p"
proof
  assume "\<exists>dy\<in>{0..<4}. \<exists>dx\<in>{0..<4}. p = (y * 4 + 16 + dy) * LCD_WIDTH + (x * 4 + dx)"
  then obtain dx dy where d: "dx < 4" "dy < 4" and p: "p = (y * 4 + 16 + dy) * LCD_WIDTH + (x * 4 + dx)"
    by auto
  have split: "(v * LCD_WIDTH + u) mod LCD_WIDTH = u" "(v * LCD_WIDTH + u) div LCD_WIDTH = v"
    if "u < LCD_WIDTH" for u v :: nat
    using that by simp_all
  have u: "x * 4 + dx < LCD_WIDTH" using assms d by simp
  show "block x y p" unfolding p block_def split [OF u] using d by simp
next
  assume b: "block x y p"
  let ?dx = "p mod LCD_WIDTH mod 4" and ?dy = "(p div LCD_WIDTH - 16) mod 4"
  have "x * 4 + ?dx = p mod LCD_WIDTH" using b unfolding block_def by (metis div_mult_mod_eq)
  moreover have "y * 4 + 16 + ?dy = p div LCD_WIDTH"
    using b div_mult_mod_eq [of "p div LCD_WIDTH - 16" 4] unfolding block_def by linarith
  ultimately have "p = (y * 4 + 16 + ?dy) * LCD_WIDTH + (x * 4 + ?dx)" by simp
  moreover have "?dx \<in> {0..<4}" "?dy \<in> {0..<4}" by simp_all
  ultimately show "\<exists>dy\<in>{0..<4}. \<exists>dx\<in>{0..<4}. p = (y * 4 + 16 + dy) * LCD_WIDTH + (x * 4 + dx)"
    by blast
qed

lemma block_store_draws:
  assumes x: "x < GRAPHICS_WIDTH_DEFAULT" and y: "y < GRAPHICS_HEIGHT_DEFAULT"
  shows "drawn (block x y) (\<lambda>_. col) m (block_store x y col m)"
proof -
  have pix: "drawn (\<lambda>p. p = (y * 4 + 16 + dy) * LCD_WIDTH + (x * 4 + dx)) (\<lambda>_. col) m
      (let lx = x * 4 + dx; ly = y * 4 + 16 + dy
         in if lx < LCD_WIDTH \<and> ly < LCD_HEIGHT then fb_store (ly * LCD_WIDTH + lx) col m else m)"
    if "dx \<in> set [0..<4]" "dy \<in> set [0..<4]" for dx dy m
  proof -
    have lx: "x * 4 + dx < LCD_WIDTH" and ly: "y * 4 + 16 + dy \<le> 255" using that x y by simp_all
    then have "(y * 4 + 16 + dy) * LCD_WIDTH + (x * 4 + dx) < LCD_WIDTH * LCD_HEIGHT" by simp
    from drawn_store [OF this] lx ly show ?thesis by (simp add: Let_def)
  qed
  have "drawn (\<lambda>p. \<exists>dy\<in>set [0..<4]. \<exists>dx\<in>set [0..<4]. p = (y * 4 + 16 + dy) * LCD_WIDTH + (x * 4 + dx))
      (\<lambda>_. col) m (block_store x y col m)"
    unfolding block_store_def by (intro drawn_foldl pix)
  then show ?thesis by (simp only: set_upt block_cover [OF x])
qed

section \<open>The frame on the SoC\<close>

lemma for_up_rule:
  assumes "P k s" and "\<And>i s. k \<le> i \<Longrightarrow> i < k + n \<Longrightarrow> P i s \<Longrightarrow> \<exists>s'. f i s = Some s' \<and> P (Suc i) s'"
  shows "\<exists>s'. for_up f k n s = Some s' \<and> P (k + n) s'"
  using assms
proof (induction n arbitrary: k s)
  case (Suc n)
  from Suc.prems(1) Suc.prems(2) [of k s] obtain s1 where s1: "f k s = Some s1" "P (Suc k) s1" by auto
  have "\<exists>s'. for_up f (Suc k) n s1 = Some s' \<and> P (Suc k + n) s'"
    by (rule Suc.IH [OF s1(2)]) (rule Suc.prems(2), auto)
  with s1 show ?case by simp
qed simp

lemma delay_keeps_timer:
  assumes "timer_delay_ticks soc_bus t s = Some s'"
  shows "s_en s' = s_en s"
proof -
  let ?f = "\<lambda>start d. let (c, d') = timer_get_count soc_bus d
        in (if c - start < t then None else Some (), d')"
  obtain start s1 where c: "timer_get_count soc_bus s = (start, s1)" by (cases "timer_get_count soc_bus s")
  with assms obtain u where p: "poll_until (?f start) s1 = Some (u, s')"
    by (auto simp: timer_delay_ticks_def)
  have "s_en s' = s_en s1"
  proof (rule poll_until_rule [OF p, where P = "\<lambda>x. s_en x = s_en s1"])
    fix x y a
    show "s_en y = s_en s1" if "s_en x = s_en s1" "?f start x = (None, y)"
      using that by (auto split: prod.splits dest: count_read(4))
    show "s_en y = s_en s1" if "s_en x = s_en s1" "?f start x = (Some a, y)"
      using that by (auto split: prod.splits dest: count_read(4))
  qed simp
  with count_read(4) [OF c] show ?thesis by simp
qed

lemma lcd_yield_returns:
  assumes "s_en (sh_dev st)"
  shows "\<exists>st'. lcd_yield soc_bus st = Some st' \<and> s_en (sh_dev st') \<and> sh_mem st' = sh_mem st"
proof -
  define n where "n = (if sh_tps st = 0 then 500 else mul_div_u32 500 (sh_tps st) 1000000)"
  have "unat n + 4 < 2 ^ 32"
  proof (cases "sh_tps st = 0")
    case False
    have "unat n \<le> (500 * unat (sh_tps st)) div 1000000"
      using False by (simp add: n_def unat_mul_div_u32)
    with unat_u32_less [of "sh_tps st"] show ?thesis by simp
  qed (simp add: n_def)
  from timer_delay_exact [OF assms this] obtain s' where
    s': "timer_delay_ticks soc_bus n (sh_dev st) = Some s'" by blast
  then have "timer_delay_us soc_bus (sh_tps st) 500 (sh_dev st) = Some s'"
    by (simp add: timer_delay_us_def n_def split: if_splits)
  with delay_keeps_timer [OF s'] assms show ?thesis by (auto simp: lcd_yield_def)
qed

definition pixel_565 :: "('f, 'g) fp \<Rightarrow> 'f vec3 \<Rightarrow> u16" where
  "pixel_565 F C = lcd_rgb565 (channel F (vx C)) (channel F (vy C)) (channel F (vz C))"

lemma lcd_frame_sel [simp]:
  "graphics_width lcd_frame = GRAPHICS_WIDTH_DEFAULT" "graphics_height lcd_frame = GRAPHICS_HEIGHT_DEFAULT"
  "\<not> bench_run lcd_frame"
  by (simp_all add: lcd_frame_def)

lemma render_pixel_draws:
  assumes "pixel_color F spheres lights lcd_frame i j = Some C"
    and "i < GRAPHICS_WIDTH_DEFAULT" "j < GRAPHICS_HEIGHT_DEFAULT"
  shows "\<exists>st'. render_pixel F b spheres lights lcd_frame i j st = Some st' \<and> sh_dev st' = sh_dev st \<and>
    drawn (block i j) (\<lambda>_. pixel_565 F C) (sh_mem st) (sh_mem st')"
  using block_store_draws [OF assms(2,3), of "pixel_565 F C" "sh_mem st"]
  by (simp add: render_pixel_def assms(1) graphics_set_pixel_def pixel_565_def)

lemma render_row_draws:
  assumes img: "\<And>i. i < GRAPHICS_WIDTH_DEFAULT \<Longrightarrow> pixel_color F spheres lights lcd_frame i j = Some (img i j)"
    and j: "j < GRAPHICS_HEIGHT_DEFAULT" and en: "s_en (sh_dev st)"
  shows "\<exists>st'. render_row F soc_bus spheres lights lcd_frame j st = Some st' \<and> s_en (sh_dev st') \<and>
    drawn (\<lambda>p. \<exists>i. block i j p) (\<lambda>p. pixel_565 F (img (p mod LCD_WIDTH div 4) j)) (sh_mem st) (sh_mem st')"
proof -
  let ?c = "\<lambda>p. pixel_565 F (img (p mod LCD_WIDTH div 4) j)"
  define P :: "nat \<Rightarrow> soc shell \<Rightarrow> bool" where "P = (\<lambda>i s. s_en (sh_dev s) \<and> drawn (\<lambda>p. \<exists>k<i. block k j p) ?c (sh_mem st) (sh_mem s))"
  have "\<exists>s. for_up (\<lambda>i. render_pixel F soc_bus spheres lights lcd_frame i j) 0 (graphics_width lcd_frame) st = Some s
      \<and> P (0 + graphics_width lcd_frame) s"
  proof (rule for_up_rule)
    show "P 0 st" using en by (simp add: P_def drawn_refl)
    fix i s assume "i < 0 + graphics_width lcd_frame" and P: "P i s"
    then have i: "i < GRAPHICS_WIDTH_DEFAULT" by simp
    from render_pixel_draws [OF img [OF i] i j, of soc_bus s] obtain s' where
      s': "render_pixel F soc_bus spheres lights lcd_frame i j s = Some s'" "sh_dev s' = sh_dev s"
      and d: "drawn (block i j) (\<lambda>_. pixel_565 F (img i j)) (sh_mem s) (sh_mem s')" by blast
    have new: "drawn (block i j) ?c (sh_mem s) (sh_mem s')"
      by (rule drawn_cong [OF d]) (simp add: block_def)
    from P have old: "drawn (\<lambda>p. \<exists>k<i. block k j p) ?c (sh_mem st) (sh_mem s)" by (simp add: P_def)
    have "drawn (\<lambda>p. (\<exists>k<i. block k j p) \<or> block i j p) ?c (sh_mem st) (sh_mem s')"
      by (rule drawn_trans [OF old new])
    then have "drawn (\<lambda>p. \<exists>k<Suc i. block k j p) ?c (sh_mem st) (sh_mem s')"
      by (rule drawn_cong) (auto simp: less_Suc_eq)
    with s' P show "\<exists>s'. render_pixel F soc_bus spheres lights lcd_frame i j s = Some s' \<and> P (Suc i) s'"
      by (simp add: P_def)
  qed
  then obtain s where s: "for_up (\<lambda>i. render_pixel F soc_bus spheres lights lcd_frame i j) 0
      (graphics_width lcd_frame) st = Some s" and P: "P GRAPHICS_WIDTH_DEFAULT s"
    by auto
  from P obtain st' where y: "lcd_yield soc_bus s = Some st'" "s_en (sh_dev st')" "sh_mem st' = sh_mem s"
    using lcd_yield_returns [of s] by (auto simp: P_def)
  have "drawn (\<lambda>p. \<exists>i. block i j p) ?c (sh_mem st) (sh_mem st')"
  proof (rule drawn_cong)
    show "drawn (\<lambda>p. \<exists>k<GRAPHICS_WIDTH_DEFAULT. block k j p) ?c (sh_mem st) (sh_mem st')"
      using P y(3) by (simp add: P_def)
    fix p :: nat
    have "p mod LCD_WIDTH div 4 < GRAPHICS_WIDTH_DEFAULT" by (simp add: div_less_iff_less_mult)
    then show "(\<exists>k<GRAPHICS_WIDTH_DEFAULT. block k j p) = (\<exists>i. block i j p) \<and>
        ((\<exists>k<GRAPHICS_WIDTH_DEFAULT. block k j p) \<longrightarrow> ?c p = ?c p)"
      by (auto simp: block_def)
  qed
  with s y show ?thesis by (simp add: render_row_def)
qed

lemma lines_of_rows:
  fixes p :: nat
  assumes "p < LCD_WIDTH * LCD_HEIGHT"
  shows "(\<exists>j<GRAPHICS_HEIGHT_DEFAULT. \<exists>i. block i j p) \<longleftrightarrow> 16 \<le> p div LCD_WIDTH \<and> p div LCD_WIDTH < 256"
  by (auto simp: block_def div_less_iff_less_mult)

lemma render_rows_draws:
  assumes img: "\<And>i j. i < GRAPHICS_WIDTH_DEFAULT \<Longrightarrow> j < GRAPHICS_HEIGHT_DEFAULT \<Longrightarrow>
      pixel_color F spheres lights lcd_frame i j = Some (img i j)"
    and en: "s_en (sh_dev st)"
  shows "\<exists>st'. render_rows F soc_bus spheres lights lcd_frame st = Some st' \<and>
    drawn (\<lambda>p. 16 \<le> p div LCD_WIDTH \<and> p div LCD_WIDTH < 256)
      (\<lambda>p. pixel_565 F (img (p mod LCD_WIDTH div 4) ((p div LCD_WIDTH - 16) div 4))) (sh_mem st) (sh_mem st')"
proof -
  let ?c = "\<lambda>p. pixel_565 F (img (p mod LCD_WIDTH div 4) ((p div LCD_WIDTH - 16) div 4))"
  define P :: "nat \<Rightarrow> soc shell \<Rightarrow> bool" where "P = (\<lambda>j s. s_en (sh_dev s) \<and>
    drawn (\<lambda>p. \<exists>k<j. \<exists>i. block i k p) ?c (sh_mem st) (sh_mem s))"
  have "\<exists>s. for_up (render_row F soc_bus spheres lights lcd_frame) 0 GRAPHICS_HEIGHT_DEFAULT st = Some s
      \<and> P (0 + GRAPHICS_HEIGHT_DEFAULT) s"
  proof (rule for_up_rule)
    show "P 0 st" using en by (simp add: P_def drawn_refl)
    fix j s assume "j < 0 + GRAPHICS_HEIGHT_DEFAULT" and P: "P j s"
    then have j: "j < GRAPHICS_HEIGHT_DEFAULT" and s: "s_en (sh_dev s)" by (simp_all add: P_def)
    from render_row_draws [where img = img, OF img [OF _ j] j s] obtain s' where
      s': "render_row F soc_bus spheres lights lcd_frame j s = Some s'" "s_en (sh_dev s')"
      and d: "drawn (\<lambda>p. \<exists>i. block i j p) (\<lambda>p. pixel_565 F (img (p mod LCD_WIDTH div 4) j)) (sh_mem s) (sh_mem s')"
      by blast
    have new: "drawn (\<lambda>p. \<exists>i. block i j p) ?c (sh_mem s) (sh_mem s')"
      by (rule drawn_cong [OF d]) (auto simp: block_def)
    from P have old: "drawn (\<lambda>p. \<exists>k<j. \<exists>i. block i k p) ?c (sh_mem st) (sh_mem s)" by (simp add: P_def)
    have "drawn (\<lambda>p. (\<exists>k<j. \<exists>i. block i k p) \<or> (\<exists>i. block i j p)) ?c (sh_mem st) (sh_mem s')"
      by (rule drawn_trans [OF old new])
    then have "drawn (\<lambda>p. \<exists>k<Suc j. \<exists>i. block i k p) ?c (sh_mem st) (sh_mem s')"
      by (rule drawn_cong) (auto simp: less_Suc_eq)
    with s' show "\<exists>s'. render_row F soc_bus spheres lights lcd_frame j s = Some s' \<and> P (Suc j) s'"
      by (simp add: P_def)
  qed
  then obtain st' where r: "for_up (render_row F soc_bus spheres lights lcd_frame) 0
      GRAPHICS_HEIGHT_DEFAULT st = Some st'" and P: "P GRAPHICS_HEIGHT_DEFAULT st'" by auto
  from P have "drawn (\<lambda>p. \<exists>k<GRAPHICS_HEIGHT_DEFAULT. \<exists>i. block i k p) ?c (sh_mem st) (sh_mem st')"
    by (simp add: P_def)
  then have "drawn (\<lambda>p. 16 \<le> p div LCD_WIDTH \<and> p div LCD_WIDTH < 256) ?c (sh_mem st) (sh_mem st')"
    by (rule drawn_cong) (simp add: lines_of_rows)
  with r show ?thesis by (simp add: render_rows_def)
qed

section \<open>Properties\<close>

text \<open>
  C12: The benchmark always completes its frame, and the picture is right. On the SoC with its
  timer running, for every scene and every arithmetic with the laws of \<open>float\<close>, the frame of
  120 by 60 rays returns (no ray recurs for ever or uses a hit point that was never set);
  then the framebuffer shows each traced colour as the 4 by 4 block of its place between
  lines 16 and 255, and nothing else in memory has changed.
\<close>

theorem raystones_picture:
  assumes "fp_laws F" and "s_en (sh_dev st)"
  shows "\<exists>st' img. render_rows F soc_bus spheres lights lcd_frame st = Some st' \<and>
    (\<forall>i < GRAPHICS_WIDTH_DEFAULT. \<forall>j < GRAPHICS_HEIGHT_DEFAULT.
       pixel_color F spheres lights lcd_frame i j = Some (img i j)) \<and>
    (\<forall>x < LCD_WIDTH. \<forall>y < LCD_HEIGHT. fb_load (y * LCD_WIDTH + x) (sh_mem st') =
       (if 16 \<le> y \<and> y < 256 then pixel_565 F (img (x div 4) ((y - 16) div 4))
        else fb_load (y * LCD_WIDTH + x) (sh_mem st))) \<and>
    (\<forall>a. \<not> in_framebuffer a \<longrightarrow> sh_mem st' a = sh_mem st a)"
proof -
  define img where "img = (\<lambda>i j. the (pixel_color F spheres lights lcd_frame i j))"
  have img: "pixel_color F spheres lights lcd_frame i j = Some (img i j)" for i j
    using cast_ray_returns [OF assms(1)] unfolding img_def pixel_color_def by (metis option.sel)
  from render_rows_draws [where F = F and img = img and spheres = spheres and lights = lights, OF img assms(2)]
  obtain st' where r: "render_rows F soc_bus spheres lights lcd_frame st = Some st'"
    and d: "drawn (\<lambda>p. 16 \<le> p div LCD_WIDTH \<and> p div LCD_WIDTH < 256)
      (\<lambda>p. pixel_565 F (img (p mod LCD_WIDTH div 4) ((p div LCD_WIDTH - 16) div 4))) (sh_mem st) (sh_mem st')"
    by blast
  have "fb_load (y * LCD_WIDTH + x) (sh_mem st') =
       (if 16 \<le> y \<and> y < 256 then pixel_565 F (img (x div 4) ((y - 16) div 4))
        else fb_load (y * LCD_WIDTH + x) (sh_mem st))" if "x < LCD_WIDTH" "y < LCD_HEIGHT" for x y
  proof -
    have "(y * LCD_WIDTH + x) mod LCD_WIDTH = x" "(y * LCD_WIDTH + x) div LCD_WIDTH = y"
      "y * LCD_WIDTH + x < LCD_WIDTH * LCD_HEIGHT" using that by simp_all
    with d show ?thesis by (simp add: drawn_def)
  qed
  with r img d show ?thesis unfolding drawn_def by blast
qed

text \<open>Exact rational arithmetic has the laws.\<close>

definition rat_fp :: "(rat, rat) fp" where
  "rat_fp = \<lparr>f_add = (+), f_sub = (-), f_mul = (*), f_div = (/), f_neg = uminus, f_lt = (<), f_le = (\<le>),
     f_lit = id, f_to_i32 = floor, f_to_u8 = (\<lambda>x. of_int \<lfloor>x\<rfloor>), g_add = (+), g_sub = (-), g_mul = (*),
     g_div = (/), g_neg = uminus, g_lt = (<), g_lit = id, g_to_i32 = floor, g_of_f = id, f_of_g = id\<rparr>"

lemma rat_fp_laws: "fp_laws rat_fp"
proof -
  have lt: "f_lt rat_fp x y \<longleftrightarrow> x < y" for x y by (simp add: rat_fp_def)
  have so: "same_order rat_fp x y \<longleftrightarrow> x = y" for x y
  proof
    assume "same_order rat_fp x y"
    then have "\<not> x < y" "\<not> y < x" unfolding same_order_def lt by blast+
    then show "x = y" by simp
  qed (simp add: same_order_def)
  show ?thesis unfolding fp_laws_def so lt by (simp add: rat_fp_def gf_def)
qed

theorem raystones_picture_witness:
  "\<exists>st' C. render_rows rat_fp soc_bus (init_spheres rat_fp) (init_lights rat_fp) lcd_frame
      \<lparr>sh_dev = soc_reset []\<lparr>s_en := True\<rparr>, sh_mem = \<lambda>_. 0, sh_sd = sd_state0, sh_tps = 1000000, sh_spi = 0\<rparr>
      = Some st' \<and>
    pixel_color rat_fp (init_spheres rat_fp) (init_lights rat_fp) lcd_frame 50 21 = Some C \<and>
    fb_load (100 * LCD_WIDTH + 200) (sh_mem st') = pixel_565 rat_fp C"
proof -
  define st :: "soc shell" where "st = \<lparr>sh_dev = soc_reset []\<lparr>s_en := True\<rparr>, sh_mem = \<lambda>_. 0,
    sh_sd = sd_state0, sh_tps = 1000000, sh_spi = 0\<rparr>"
  have "s_en (sh_dev st)" by (simp add: st_def)
  from raystones_picture [OF rat_fp_laws this, of "init_spheres rat_fp" "init_lights rat_fp"]
  obtain st' img where
    r: "render_rows rat_fp soc_bus (init_spheres rat_fp) (init_lights rat_fp) lcd_frame st = Some st'"
    and i: "\<forall>i < GRAPHICS_WIDTH_DEFAULT. \<forall>j < GRAPHICS_HEIGHT_DEFAULT.
      pixel_color rat_fp (init_spheres rat_fp) (init_lights rat_fp) lcd_frame i j = Some (img i j)"
    and c: "\<forall>x < LCD_WIDTH. \<forall>y < LCD_HEIGHT. fb_load (y * LCD_WIDTH + x) (sh_mem st') =
       (if 16 \<le> y \<and> y < 256 then pixel_565 rat_fp (img (x div 4) ((y - 16) div 4))
        else fb_load (y * LCD_WIDTH + x) (sh_mem st))"
    by (elim exE conjE)
  have "fb_load (100 * LCD_WIDTH + 200) (sh_mem st') = pixel_565 rat_fp (img 50 21)"
    using c [rule_format, of 200 100] by simp
  moreover have "pixel_color rat_fp (init_spheres rat_fp) (init_lights rat_fp) lcd_frame 50 21 = Some (img 50 21)"
    using i [rule_format, of 50 21] by simp
  ultimately show ?thesis using r unfolding st_def by blast
qed

end
