(* ===== verification/Monitor_Props.thy ===== *)
theory Monitor_Props
  imports Raystones Shell_Props
begin

text \<open>
  The monitor with its own self tests and benchmark put in for the parameter: none of them touches
  memory except the benchmark, which draws, so the memory safety of the shell holds for
  the whole program.
\<close>

section \<open>Rules for programs that may fail\<close>

named_theorems frame

abbreviation mem_is :: "memory \<Rightarrow> 'd shell option \<Rightarrow> bool" where
  "mem_is m \<equiv> pred_option (\<lambda>s. sh_mem s = m)"

abbreviation mem_is2 :: "memory \<Rightarrow> ('a \<times> 'd shell) option \<Rightarrow> bool" where
  "mem_is2 m \<equiv> pred_option (\<lambda>r. sh_mem (snd r) = m)"

lemma mem_isD: "mem_is m r \<Longrightarrow> r = Some st \<Longrightarrow> sh_mem st = m"
  by simp

lemma frame_control [frame]:
  "mem_is m r \<Longrightarrow> (\<And>s. sh_mem s = m \<Longrightarrow> mem_is m (f s)) \<Longrightarrow> mem_is m (Option.bind r f)"
  "mem_is m r \<Longrightarrow> (\<And>s. sh_mem s = m \<Longrightarrow> mem_is2 m (f' s)) \<Longrightarrow> mem_is2 m (Option.bind r f')"
  "mem_is2 m q \<Longrightarrow> (\<And>x s. sh_mem s = m \<Longrightarrow> mem_is m (g (x, s))) \<Longrightarrow> mem_is m (Option.bind q g)"
  "mem_is2 m q \<Longrightarrow> (\<And>x s. sh_mem s = m \<Longrightarrow> mem_is2 m (g' (x, s))) \<Longrightarrow> mem_is2 m (Option.bind q g')"
  "sh_mem (snd e) = m \<Longrightarrow> (\<And>x s. sh_mem s = m \<Longrightarrow> mem_is m (k x s)) \<Longrightarrow> mem_is m (case_prod k e)"
  "sh_mem (snd e) = m \<Longrightarrow> (\<And>x s. sh_mem s = m \<Longrightarrow> mem_is2 m (k' x s)) \<Longrightarrow> mem_is2 m (case_prod k' e)"
  "sh_mem s = m \<Longrightarrow> mem_is m (Some s)"
  "sh_mem s = m \<Longrightarrow> mem_is2 m (Some (x, s))"
  "mem_is m None"
  "mem_is m r \<Longrightarrow> mem_is m r' \<Longrightarrow> mem_is m (if c then r else r')"
  "mem_is2 m q \<Longrightarrow> mem_is2 m q' \<Longrightarrow> mem_is2 m (if c then q else q')"
  by (auto split: Option.bind_split prod.split)

lemma frame_pair [frame]: "mem_is m r \<Longrightarrow> mem_is2 m (map_option (Pair x) r)"
  by (cases r) simp_all

lemma frame_say [frame]: "sh_mem st = m \<Longrightarrow> mem_is m (say b bs st)"
  by (cases "say b bs st") (auto dest: outputD)

lemma frame_say_line [frame]: "sh_mem st = m \<Longrightarrow> mem_is m (say_line b l st)"
  by (cases "say_line b l st") (auto dest: outputD)

lemma frame_say_fmt [frame]: "sh_mem st = m \<Longrightarrow> mem_is m (say_fmt b f nl args st)"
  by (cases "say_fmt b f nl args st") (auto dest: outputD)

lemma on_dev_mem [simp]: "sh_mem (on_dev f st) = sh_mem st"
  by (simp add: on_dev_def)

lemma with_dev_mem [simp]: "sh_mem (snd (with_dev f st)) = sh_mem st"
  by (simp add: with_dev_def split: prod.split)

lemma snd_case_keep [simp]:
  "sh_mem (snd (case e of (x, s) \<Rightarrow> (f x s, s))) = sh_mem (snd e)"
  "sh_mem (snd (if c then e else e')) = (if c then sh_mem (snd e) else sh_mem (snd e'))"
  by (simp_all split: prod.split)

lemma frame_counter [frame]: "sh_mem st = m \<Longrightarrow> mem_is2 m (with_counter f st)"
  by (cases "f (sh_dev st)") (auto simp: with_counter_def)

section \<open>The self tests keep out of memory\<close>

lemma frame_check [frame]: "sh_mem st = m \<Longrightarrow> mem_is2 m (check_u32 b n a e st)"
  unfolding check_u32_def by (intro frame) simp_all

lemma frame_checks [frame]: "sh_mem st = m \<Longrightarrow> mem_is2 m (run_checks b cs p st)"
proof (induction cs arbitrary: p st)
  case (Cons c cs)
  then show ?case by (cases c) (auto intro!: frame)
qed simp

lemma frame_csr_check [frame]: "sh_mem (snd r) = m \<Longrightarrow> mem_is2 m (csr_check b ok g ga w wa r)"
  unfolding csr_check_def by (cases r) (auto intro!: frame)

lemma frame_print_all [frame]: "sh_mem st = m \<Longrightarrow> mem_is m (print_all b ls st)"
proof (induction ls arbitrary: st)
  case (Cons l ls)
  then show ?case by (cases l) (auto intro!: frame)
qed simp

lemma frame_await [frame]: "sh_mem st = m \<Longrightarrow> mem_is m (await_trap b h msg st)"
  unfolding await_trap_def Let_def by (intro frame) simp_all

lemma frame_verdict [frame]: "sh_mem st = m \<Longrightarrow> mem_is m (irq_verdict b h e ps w st)"
  unfolding irq_verdict_def by (auto intro!: frame simp: Let_def split: list.split prod.split)

lemma frame_amo_step [frame]: "sh_mem (snd r) = m \<Longrightarrow> mem_is2 m (amo_step b h c r)"
  unfolding amo_step_def say_opt_def
  by (cases r) (auto intro!: frame simp: Let_def split: option.split)

lemma frame_amo_steps [frame]: "sh_mem (snd r) = m \<Longrightarrow> mem_is2 m (amo_steps b h cs r)"
proof (induction cs arbitrary: r)
  case (Cons c cs)
  then show ?case by (auto intro!: frame)
qed simp

lemma frame_lr_sc [frame]: "sh_mem st = m \<Longrightarrow> mem_is2 m (lr_sc_test b h st)"
  unfolding lr_sc_test_def unfolding Let_def by (intro frame) simp_all

lemma frame_csr_rw [frame]: "sh_mem st = m \<Longrightarrow> mem_is2 m (csr_rw_test b h st)"
  unfolding csr_rw_test_def Let_def by (intro frame) simp_all

lemma frame_ecall [frame]: "sh_mem st = m \<Longrightarrow> mem_is m (ecall_test b h st)"
  unfolding ecall_test_def Let_def by (intro frame) simp_all










section \<open>The benchmark writes to the framebuffer only\<close>

definition outside :: "memory \<Rightarrow> 'd shell \<Rightarrow> bool" where
  "outside m s \<longleftrightarrow> (\<forall>a. \<not> in_framebuffer a \<longrightarrow> sh_mem s a = m a)"

lemma outside_sh_mem [simp]: "outside (sh_mem st) st" "outside m (st\<lparr>sh_dev := d\<rparr>) = outside m st"
  by (simp_all add: outside_def)

named_theorems draws

lemma draws_control [draws]:
  "pred_option (outside m) r \<Longrightarrow> (\<And>s. outside m s \<Longrightarrow> pred_option (outside m) (f s)) \<Longrightarrow>
   pred_option (outside m) (Option.bind r f)"
  "pred_option (\<lambda>r. outside m (snd r)) q \<Longrightarrow>
   (\<And>x s. outside m s \<Longrightarrow> pred_option (outside m) (g (x, s))) \<Longrightarrow> pred_option (outside m) (Option.bind q g)"
  "outside m (snd e) \<Longrightarrow> (\<And>x s. outside m s \<Longrightarrow> pred_option (outside m) (k x s)) \<Longrightarrow>
   pred_option (outside m) (case_prod k e)"
  "outside m s \<Longrightarrow> pred_option (outside m) (Some s)"
  "pred_option (outside m) r \<Longrightarrow> pred_option (outside m) r' \<Longrightarrow> pred_option (outside m) (if c then r else r')"
  by (auto split: Option.bind_split prod.split)

lemma draws_keep:
  assumes "outside m st" and "mem_is (sh_mem st) r"
  shows "pred_option (outside m) r"
  using assms by (cases r) (simp_all add: outside_def)

lemma draws_value [draws]:
  fixes v :: "u64 option" and c :: "'f vec3 option"
  shows "(\<And>x. pred_option (outside m) (l x)) \<Longrightarrow> pred_option (outside m) (Option.bind v l)"
    and "(\<And>x. pred_option (outside m) (l' x)) \<Longrightarrow> pred_option (outside m) (Option.bind c l')"
  by (auto split: Option.bind_split)

lemma draws_say [draws]:
  "outside m st \<Longrightarrow> pred_option (outside m) (say b bs st)"
  "outside m st \<Longrightarrow> pred_option (outside m) (say_fmt b f nl args st)"
  by (auto intro!: draws_keep frame)

lemma draws_delay [draws]: "outside m st \<Longrightarrow> pred_option (outside m) (delay_ms b n st)"
  by (cases "timer_delay_ms b (sh_tps st) n (sh_dev st)") (simp_all add: delay_ms_def)

lemma draws_yield [draws]: "outside m st \<Longrightarrow> pred_option (outside m) (lcd_yield b st)"
  by (cases "timer_delay_us b (sh_tps st) 500 (sh_dev st)") (simp_all add: lcd_yield_def)

lemma draws_counter [draws]:
  "outside m st \<Longrightarrow> pred_option (\<lambda>r. outside m (snd r)) (with_counter f st)"
  by (cases "f (sh_dev st)") (auto simp: with_counter_def)

lemma draws_printk [draws]: "outside m st \<Longrightarrow> pred_option (outside m) (printk b kx st)"
  unfolding printk_def Let_def by (intro draws) simp_all

lemma draws_end_frame [draws]:
  "outside m st \<Longrightarrow> pred_option (outside m) (stats_end_frame b h fr start st)"
  unfolding stats_end_frame_def Let_def by (cases start) (simp only: prod.case, intro draws, simp_all)

lemma draws_begin_frame [draws]:
  "outside m st \<Longrightarrow> pred_option (\<lambda>r. outside m (snd r)) (stats_begin_frame h st)"
  unfolding stats_begin_frame_def with_counter_def
  by (auto split: Option.bind_split prod.split option.split)

lemma block_store_outside:
  assumes a: "\<not> in_framebuffer a"
  shows "block_store x y col m a = m a"
proof -
  have pix: "(let lx = x * 4 + dx; ly = y * 4 + 16 + dy
      in if lx < LCD_WIDTH \<and> ly < LCD_HEIGHT then fb_store (ly * LCD_WIDTH + lx) col m' else m') a = m' a"
    for m' dx dy
  proof -
    have "fb_store (ly * LCD_WIDTH + lx) col m' a = m' a" if "lx < LCD_WIDTH" "ly < LCD_HEIGHT" for lx ly
      using that by (intro fb_store_outside a) simp
    then show ?thesis by (simp only: Let_def split: if_split) blast
  qed
  have row: "foldl (\<lambda>m dx. let lx = x * 4 + dx; ly = y * 4 + 16 + dy
      in if lx < LCD_WIDTH \<and> ly < LCD_HEIGHT then fb_store (ly * LCD_WIDTH + lx) col m else m) m' [0..<4] a = m' a"
    for m' dy by (rule foldl_invariant [where P = "\<lambda>m. m a = m' a"]) (simp_all only: pix)
  show ?thesis
    unfolding block_store_def by (rule foldl_invariant [where P = "\<lambda>m'. m' a = m a"]) (simp_all only: row)
qed

lemma draws_pixel [draws]:
  "outside m st \<Longrightarrow> pred_option (outside m) (render_pixel F b spheres lights fr i j st)"
  unfolding render_pixel_def graphics_set_pixel_def
  by (intro draws) (simp_all add: outside_def block_store_outside)

lemma draws_for_up [draws]:
  "outside m st \<Longrightarrow> (\<And>i s. outside m s \<Longrightarrow> pred_option (outside m) (f i s)) \<Longrightarrow>
   pred_option (outside m) (for_up f k n st)"
proof (induction n arbitrary: k st)
  case (Suc n)
  then show ?case by (simp add: draws_control(1))
qed simp

lemma draws_render [draws]:
  "outside m st \<Longrightarrow> pred_option (outside m) (render F b h spheres lights fr st)"
  unfolding render_def render_rows_def render_row_def by (intro draws) simp_all

lemma draws_init [draws]: "outside m st \<Longrightarrow> pred_option (outside m) (graphics_init b st)"
  unfolding graphics_init_def by (intro draws) (simp add: outside_def lcd_clear_outside)


section \<open>The whole monitor\<close>


section \<open>Properties\<close>



end
