(* ===== verification/Host_Hex.thy ===== *)
theory Host_Hex
  imports Print
begin

text \<open>
  The converter \<open>tools/bin_to_verilog_hex.c\<close>, which turns a program image into the text that
  initialises the SoC's memory: one line of eight upper-case digits for each little-endian
  word, the last word padded with zeros. A file is its bytes and whether reading fails after them.
\<close>

section \<open>The converter\<close>

definition word_int :: "u8 list \<Rightarrow> u32" where
  "word_int byte_buffer =
     ucast (byte_buffer ! 0) OR push_bit 8 (ucast (byte_buffer ! 1)) OR
     push_bit 16 (ucast (byte_buffer ! 2)) OR push_bit 24 (ucast (byte_buffer ! 3))"

text \<open>The conversion \<open>%08X\<close>.\<close>

definition hex_digit :: "u32 \<Rightarrow> u8" where
  "hex_digit v = ucast (if v < 10 then 48 + v else 55 + v)"

definition hex_line :: "u32 \<Rightarrow> u8 list" where
  "hex_line w = map (\<lambda>i. hex_digit (drop_bit (4 * i) w AND 0xF)) (rev [0..<8]) @ [10]"

text \<open>\<open>None\<close> is a read error, and the exit status is 1; what was printed before it is kept.\<close>

fun convert_loop :: "bool \<Rightarrow> u8 list \<Rightarrow> u8 list \<times> nat" where
  "convert_loop fails data =
     (if data = [] then ([], if fails then 1 else 0)
      else let bytes = take 4 data;
               (rest, code) = convert_loop fails (drop 4 data)
        in (hex_line (word_int (bytes @ replicate (4 - List.length bytes) 0)) @ rest, code))"

declare convert_loop.simps [simp del]

definition convert_bin_to_verilog_hex :: "(u8 list \<times> bool) option \<Rightarrow> u8 list \<times> nat" where
  "convert_bin_to_verilog_hex file =
     (case file of None \<Rightarrow> ([], 1) | Some (data, fails) \<Rightarrow> convert_loop fails data)"

text \<open>The program, with the files of the host as a map from names; a bad call is status 1 as well.\<close>

definition hex_main :: "(string \<Rightarrow> (u8 list \<times> bool) option) \<Rightarrow> string list \<Rightarrow> u8 list \<times> nat" where
  "hex_main files argv =
     (if List.length argv \<noteq> 2 then ([], 1) else convert_bin_to_verilog_hex (files (argv ! 1)))"

section \<open>Reading the text back\<close>

text \<open>The memory's loader: the value of a line of hexadecimal digits.\<close>

definition digit_value :: "u8 \<Rightarrow> u32" where
  "digit_value c = ucast (if c < 58 then c - 48 else c - 55)"

definition line_value :: "u8 list \<Rightarrow> u32" where
  "line_value = foldl (\<lambda>v c. push_bit 4 v OR digit_value c) 0"

text \<open>The bytes of a word, lowest first, and of a text of nine characters for each word.\<close>

definition word_bytes :: "u32 \<Rightarrow> u8 list" where
  "word_bytes w = map (\<lambda>i. ucast (drop_bit (8 * i) w)) [0..<4]"

fun read_text :: "u8 list \<Rightarrow> u8 list" where
  "read_text t = (if List.length t < 9 then [] else word_bytes (line_value (take 8 t)) @ read_text (drop 9 t))"

declare read_text.simps [simp del]

lemma digit_round_trip:
  assumes "v < 16"
  shows "digit_value (hex_digit v) = v"
proof -
  have "v \<in> {0,1,2,3,4,5,6,7,8,9,10,11,12,13,14,15}"
  proof -
    have "unat v < 16" using assms by (simp add: word_less_nat_alt)
    then have "unat v \<in> set [0..<16]" by simp
    then have "word_of_nat (unat v) \<in> (word_of_nat ` set [0..<16] :: u32 set)" by blast
    then show ?thesis by (simp add: upt_rec)
  qed
  then show ?thesis by (auto simp: digit_value_def hex_digit_def)
qed

lemma nibble_take: "(w AND 0xF :: u32) = take_bit 4 w"
proof -
  have "mask 4 = (0xF :: u32)" by (simp add: mask_eq_exp_minus_1)
  then show ?thesis by (simp only: take_bit_eq_mask)
qed

lemma nibble_less: "take_bit 4 (w :: u32) < 16"
proof -
  have "unat (take_bit 4 w) < 2 ^ 4" unfolding unsigned_take_bit_eq by (rule take_bit_nat_less_exp)
  then show ?thesis unfolding word_less_nat_alt by simp
qed

lemma nibbles_join:
  "foldl (\<lambda>v i. push_bit 4 v OR take_bit 4 (drop_bit (4 * i) w)) v (rev [0..<n]) =
     push_bit (4 * n) v OR take_bit (4 * n) (w :: u32)"
proof (induction n arbitrary: v)
  case (Suc n)
  have "push_bit (4 * n) (push_bit 4 v OR take_bit 4 (drop_bit (4 * n) w)) OR take_bit (4 * n) w =
      push_bit (4 * Suc n) v OR take_bit (4 * Suc n) w"
    by (rule bit_word_eqI) (auto simp: bit_simps ac_simps)
  with Suc show ?case by simp
qed simp

lemma line_round_trip: "line_value (take 8 (hex_line w @ rest)) = w"
proof -
  have "line_value (take 8 (hex_line w @ rest)) =
      foldl (\<lambda>v i. push_bit 4 v OR take_bit 4 (drop_bit (4 * i) w)) 0 (rev [0..<8])"
    unfolding line_value_def hex_line_def nibble_take
    by (simp add: foldl_map digit_round_trip nibble_less del: upt_Suc upt_rec)
  then show ?thesis unfolding nibbles_join by (simp add: take_bit_word_eq_self)
qed

lemma bytes_round_trip:
  assumes "List.length bs = 4"
  shows "word_bytes (word_int bs) = bs"
proof (rule nth_equalityI)
  fix i assume "i < List.length (word_bytes (word_int bs))"
  then have i: "i = 0 \<or> i = 1 \<or> i = 2 \<or> i = 3" by (auto simp: word_bytes_def)
  have "ucast (drop_bit (8 * i) (word_int bs)) = bs ! i"
    using i by (intro bit_word_eqI) (auto simp: word_int_def bit_simps dest: bit_imp_le_length)
  then show "word_bytes (word_int bs) ! i = bs ! i" using i by (auto simp: word_bytes_def)
qed (simp add: word_bytes_def assms)

lemma read_line: "read_text (hex_line w @ t) = word_bytes w @ read_text t"
proof -
  have len: "List.length (hex_line w) = 9" by (simp add: hex_line_def)
  show ?thesis
    using line_round_trip [of w "[]"] by (subst read_text.simps) (simp add: len)
qed

text \<open>
  The text is the image: read back as words it gives every byte of the file in order, then up to
  three zeros. The exit status reports a failed read, and only that.
\<close>

theorem hex_image_round_trip:
  "read_text (fst (convert_bin_to_verilog_hex (Some (data, fails)))) =
     data @ replicate ((4 - List.length data mod 4) mod 4) 0 \<and>
   snd (convert_bin_to_verilog_hex (Some (data, fails))) = (if fails then 1 else 0)"
proof (induction data rule: measure_induct_rule [of List.length])
  case (less data)
  show ?case
  proof (cases "data = []")
    case True
    then show ?thesis
      by (simp add: convert_bin_to_verilog_hex_def convert_loop.simps read_text.simps)
  next
    case False
    let ?b = "take 4 data" and ?r = "drop 4 data"
    let ?w = "word_int (?b @ replicate (4 - List.length ?b) 0)"
    have IH: "read_text (fst (convert_loop fails ?r)) = ?r @ replicate ((4 - List.length ?r mod 4) mod 4) 0"
      "snd (convert_loop fails ?r) = (if fails then 1 else 0)"
      using less.IH [of ?r] False by (simp_all add: convert_bin_to_verilog_hex_def)
    have c: "convert_loop fails data = (hex_line ?w @ fst (convert_loop fails ?r), snd (convert_loop fails ?r))"
      using False by (subst convert_loop.simps) (simp add: Let_def split: prod.split)
    have "word_bytes ?w = ?b @ replicate (4 - List.length ?b) 0"
      by (rule bytes_round_trip) (simp add: min_def)
    then have t: "read_text (fst (convert_loop fails data)) = ?b @ replicate (4 - List.length ?b) 0 @
        ?r @ replicate ((4 - List.length ?r mod 4) mod 4) 0"
      unfolding c by (simp add: read_line IH)
    have "?b @ replicate (4 - List.length ?b) 0 @ ?r @ replicate ((4 - List.length ?r mod 4) mod 4) 0 =
        data @ replicate ((4 - List.length data mod 4) mod 4) 0"
    proof (cases "List.length data < 4")
      case True
      then show ?thesis using False by (cases data) simp_all
    next
      case False
      then have "List.length ?r mod 4 = List.length data mod 4"
        by (metis List.length_drop le_mod_geq not_less)
      with False show ?thesis by (simp flip: append_assoc)
    qed
    with t IH(2) c show ?thesis by (simp add: convert_bin_to_verilog_hex_def)
  qed
qed

end
