(* ===== verification/Board_Console.thy ===== *)
theory Board_Console
  imports Rtos_Port
begin

text \<open>
  Two more users of the UART registers: the trap hooks kept with the monitor
  (\<open>app/freertos_hooks.c\<close>) and the console and timer description that the board gives to OpenSBI
  (\<open>ddr_app/linux/board/melonsoc/opensbi/platform/melonsoc/platform.c\<close>). OpenSBI's \<open>readl\<close> and \<open>writel\<close>
  are accesses of the bus.
\<close>

section \<open>The monitor's trap hooks\<close>

text \<open>The digits come from a table; the console below them is the one of the kernel's hooks.\<close>

definition hex_table :: "u8 list" where
  "hex_table = cstr ''0123456789ABCDEF''"

fun app_puthex_loop :: "'d bus \<Rightarrow> u32 \<Rightarrow> nat \<Rightarrow> 'd \<Rightarrow> 'd option" where
  "app_puthex_loop b v 0 d = Some d"
| "app_puthex_loop b v (Suc i) d =
     Option.bind (uart_putc b (hex_table ! unat (drop_bit (4 * i) v AND 0xF)) d) (app_puthex_loop b v i)"

definition app_puthex :: "'d bus \<Rightarrow> u32 \<Rightarrow> 'd \<Rightarrow> 'd option" where
  "app_puthex b v d = Option.bind (uart_puts b (cstr ''0x'') d) (app_puthex_loop b v 8)"

text \<open>What is sent before the endless loop.\<close>

definition app_exception_handler :: "(u32 \<Rightarrow> u32) \<Rightarrow> 'd bus \<Rightarrow> 'd \<Rightarrow> 'd option" where
  "app_exception_handler csr b d =
     (let mcause = csr_read csr 0x342; mepc = csr_read csr 0x341;
          mstatus = csr_read csr 0x300; mtval = csr_read csr 0x343
      in do {
        d1 \<leftarrow> uart_puts b (10 # cstr ''[EXCEPTION] mcause='') d;
        d2 \<leftarrow> app_puthex b mcause d1;
        d3 \<leftarrow> uart_puts b (cstr '' mepc='') d2;
        d4 \<leftarrow> app_puthex b mepc d3;
        d5 \<leftarrow> uart_puts b (cstr '' mtval='') d4;
        d6 \<leftarrow> app_puthex b mtval d5;
        d7 \<leftarrow> uart_puts b (cstr '' mstatus='') d6;
        d8 \<leftarrow> app_puthex b mstatus d7;
        uart_puts b (10 # cstr ''Halted.'' @ [10]) d8
      })"

definition app_interrupt_handler :: "(u32 \<Rightarrow> u32) \<Rightarrow> 'd bus \<Rightarrow> 'd \<Rightarrow> 'd option" where
  "app_interrupt_handler csr b d =
     (let mcause = csr_read csr 0x342; mepc = csr_read csr 0x341; mstatus = csr_read csr 0x300
      in do {
        d1 \<leftarrow> uart_puts b (10 # cstr ''[UNHANDLED INTERRUPT] mcause='') d;
        d2 \<leftarrow> app_puthex b mcause d1;
        d3 \<leftarrow> uart_puts b (cstr '' mepc='') d2;
        d4 \<leftarrow> app_puthex b mepc d3;
        d5 \<leftarrow> uart_puts b (cstr '' mstatus='') d4;
        d6 \<leftarrow> app_puthex b mstatus d5;
        uart_puts b (10 # cstr ''Spinning.'' @ [10]) d6
      })"

section \<open>The console and the timer of OpenSBI\<close>

abbreviation MELONSOC_UART_DATA :: u32 where "MELONSOC_UART_DATA \<equiv> 0x00400008"
abbreviation MELONSOC_UART_CTRL :: u32 where "MELONSOC_UART_CTRL \<equiv> 0x00400010"
abbreviation MELONSOC_UART_RX_VALID :: u32 where "MELONSOC_UART_RX_VALID \<equiv> 1"
abbreviation MELONSOC_UART_TX_READY :: u32 where "MELONSOC_UART_TX_READY \<equiv> push_bit 8 1"
abbreviation MELONSOC_CLINT_BASE :: u32 where "MELONSOC_CLINT_BASE \<equiv> 0x00400000"
abbreviation MELONSOC_TIMEBASE_FREQ :: u32 where "MELONSOC_TIMEBASE_FREQ \<equiv> 27000000"

definition melonsoc_console_putc :: "'d bus \<Rightarrow> u8 \<Rightarrow> 'd \<Rightarrow> 'd option" where
  "melonsoc_console_putc b ch d =
     map_option (\<lambda>(_, d'). bus_wr b MELONSOC_UART_DATA (ucast ch) d')
       (poll_until (\<lambda>d. let (v, d') = bus_rd b MELONSOC_UART_CTRL d
          in (if v AND MELONSOC_UART_TX_READY = 0 then None else Some (), d')) d)"

text \<open>The result \<open>-1\<close> is \<open>0xFFFFFFFF\<close>.\<close>

definition melonsoc_console_getc :: "'d bus \<Rightarrow> 'd \<Rightarrow> u32 \<times> 'd" where
  "melonsoc_console_getc b d =
     (let (v, d1) = bus_rd b MELONSOC_UART_CTRL d
      in if v AND MELONSOC_UART_RX_VALID = 0 then (- 1, d1)
         else let (c, d2) = bus_rd b MELONSOC_UART_DATA d1 in (c AND 0xFF, d2))"

record aclint_mtimer_data =
  mtime_freq :: u32
  mtime_addr :: u32
  mtime_size :: nat
  mtimecmp_addr :: u32
  mtimecmp_size :: nat
  first_hartid :: nat
  hart_count :: nat
  has_64bit_mmio :: bool

definition melonsoc_mtimer :: aclint_mtimer_data where
  "melonsoc_mtimer = \<lparr>mtime_freq = MELONSOC_TIMEBASE_FREQ, mtime_addr = MELONSOC_CLINT_BASE + 0xbff8,
     mtime_size = 8, mtimecmp_addr = MELONSOC_CLINT_BASE + 0x4000, mtimecmp_size = 8, first_hartid = 0,
     hart_count = 1, has_64bit_mmio = False\<rparr>"

section \<open>On the SoC\<close>

lemma console_is_hook_console: "melonsoc_console_putc b = uart_putc b"
  by (intro ext) (simp add: melonsoc_console_putc_def uart_putc_def)

interpretation soc_sbi: serial_out "melonsoc_console_putc soc_bus" s_sent "\<lambda>_. True"
  by unfold_locales (use soc_uart_putc_sends in \<open>simp add: console_is_hook_console\<close>)

text \<open>The two versions of \<open>uart_puthex\<close> send the same digits.\<close>

lemma app_puthex_is_puthex: "app_puthex b = uart_puthex b"
proof (intro ext)
  fix v d
  have digit: "hex_table ! unat (n AND 0xF) =
      ucast (if n AND 0xF < 10 then 48 + (n AND 0xF) else 65 + (n AND 0xF) - 10)" for n :: u32
  proof -
    have "unat (n AND 0xF) < 16"
    proof -
      have "mask 4 = (0xF :: u32)" by (simp add: mask_eq_exp_minus_1)
      then have "n AND 0xF = take_bit 4 n" by (simp only: take_bit_eq_mask)
      moreover have "unat (take_bit 4 n) < 2 ^ 4" unfolding unsigned_take_bit_eq by (rule take_bit_nat_less_exp)
      ultimately show ?thesis by simp
    qed
    then have "unat (n AND 0xF) \<in> set [0..<16]" by simp
    moreover have "hex_table ! unat x = ucast (if x < 10 then 48 + x else 65 + x - 10)"
      if "unat x \<in> set [0..<16]" for x :: u32
    proof -
      have "word_of_nat (unat x) \<in> (word_of_nat ` set [0..<16] :: u32 set)" using that by blast
      then have "x \<in> (word_of_nat ` set [0..<16] :: u32 set)" by (simp only: of_nat_unat ucast_id)
      then show ?thesis by (auto simp: upt_rec hex_table_def cstr_def)
    qed
    ultimately show ?thesis by blast
  qed
  have "app_puthex_loop b v n = puthex_loop b v n" for n
  proof (induction n)
    case (Suc n)
    then show ?case by (intro ext) (simp add: digit Let_def)
  qed (intro ext, simp)
  then show "app_puthex b v d = uart_puthex b v d"
    by (simp add: app_puthex_def uart_puthex_def cstr_def)
qed

text \<open>Programs that return on the SoC and have sent a text.\<close>

definition sends :: "(soc \<Rightarrow> soc option) \<Rightarrow> u8 list \<Rightarrow> bool" where
  "sends f t \<longleftrightarrow> (\<forall>s. \<exists>s'. f s = Some s' \<and> s_sent s' = s_sent s @ t)"

lemma sends_bind: "sends f t \<Longrightarrow> sends g u \<Longrightarrow> sends (\<lambda>s. Option.bind (f s) g) (t @ u)"
  unfolding sends_def by (metis append_assoc Option.bind.bind_lunit)

lemma sends_puts: "sends (uart_puts soc_bus cs) cs"
  using soc_puts_sends by (simp add: sends_def)

lemma sends_puthex: "sends (app_puthex soc_bus v) (cstr ''0x'' @ print_hex v)"
  unfolding app_puthex_is_puthex sends_def using soc_puthex by blast

lemma csr_read_known:
  "csr_read csr 0x342 = csr 0x342" "csr_read csr 0x341 = csr 0x341" "csr_read csr 0x300 = csr 0x300"
  "csr_read csr 0x343 = csr 0x343"
  by (simp_all add: csr_read_def)

text \<open>The report of a trap, complete and in order, on the console.\<close>

theorem exception_report:
  "\<exists>s'. app_exception_handler csr soc_bus s = Some s' \<and>
    s_sent s' = s_sent s @ 10 # cstr ''[EXCEPTION] mcause='' @ cstr ''0x'' @ print_hex (csr 0x342) @
      cstr '' mepc='' @ cstr ''0x'' @ print_hex (csr 0x341) @ cstr '' mtval='' @ cstr ''0x'' @ print_hex (csr 0x343) @
      cstr '' mstatus='' @ cstr ''0x'' @ print_hex (csr 0x300) @ 10 # cstr ''Halted.'' @ [10]"
proof -
  note steps = sends_bind [OF sends_puts] sends_bind [OF sends_puthex] sends_puts
  have "sends (app_exception_handler csr soc_bus) ((10 # cstr ''[EXCEPTION] mcause='') @
      (cstr ''0x'' @ print_hex (csr 0x342)) @ cstr '' mepc='' @ (cstr ''0x'' @ print_hex (csr 0x341)) @
      cstr '' mtval='' @ (cstr ''0x'' @ print_hex (csr 0x343)) @
      cstr '' mstatus='' @ (cstr ''0x'' @ print_hex (csr 0x300)) @ (10 # cstr ''Halted.'' @ [10]))"
    unfolding app_exception_handler_def Let_def csr_read_known by (intro steps)
  then show ?thesis unfolding sends_def append_assoc append_Cons by blast
qed

text \<open>
  OpenSBI's \<open>getc\<close> returns the received byte when the status word it read says that there is one,
  and \<open>-1\<close> otherwise; it sends nothing.
\<close>

lemma rx_valid_bit: "uart_status_word s AND MELONSOC_UART_RX_VALID = 0 \<longleftrightarrow> \<not> s_rx_valid s"
  by (simp add: uart_status_word_def)

theorem sbi_getc:
  fixes s :: soc
  defines "polled \<equiv> snd (soc_rd uart_ctrl_reg s)"
  shows "melonsoc_console_getc soc_bus s =
    (if s_rx_valid polled
     then (ucast (s_rx_data (snd (soc_rd uart_data_reg polled))), snd (soc_rd uart_data_reg polled))
     else (- 1, polled))"
proof -
  obtain v where v: "soc_rd uart_ctrl_reg s = (v, polled)" unfolding polled_def by (metis prod.collapse)
  obtain c s2 where c: "soc_rd uart_data_reg polled = (c, s2)" by (cases "soc_rd uart_data_reg polled")
  have "v = uart_status_word polled" using soc_rd_fields(1) [OF v] by (simp add: soc_reg_def)
  moreover have "c AND 0xFF = ucast (s_rx_data s2)"
  proof -
    have "mask 8 = (0xFF :: u32)" by (simp add: mask_eq_exp_minus_1)
    then have "c AND 0xFF = take_bit 8 c" by (simp only: take_bit_eq_mask)
    then show ?thesis using soc_rd_fields(1) [OF c] by (simp add: soc_reg_def) (rule bit_word_eqI, auto simp: bit_simps dest: bit_imp_le_length)
  qed
  ultimately show ?thesis
    using v c rx_valid_bit [of polled] unfolding melonsoc_console_getc_def soc_bus_simps uart_addrs by simp
qed

text \<open>The timer registers named to OpenSBI are the CLINT's.\<close>

lemma melonsoc_mtimer_clint:
  "mtime_addr melonsoc_mtimer = clint_mmio CLINT_MTIME_OFFSET"
  "mtimecmp_addr melonsoc_mtimer = clint_mmio CLINT_MTIMECMP_OFFSET"
  by (simp_all add: melonsoc_mtimer_def clint_mmio_def)

end
